(* ===== verification/Doubles.thy ===== *)
theory Doubles
  imports Prelude
begin

text \<open>
  The C++ type \<open>double\<close>: IEEE 754 binary64 numbers, given by their 64 bits, since the runtime
  stores them in a \<open>Value\<close> unchanged (common/common.h).  Only operations that the modelled
  code uses are defined, all of them executable.

  A finite double is an integer multiple of \<open>2 ^ -1074\<close>.  \<open>dmag\<close> and \<open>dscaled\<close> read a double
  as that integer; comparison, truncation, remainder, addition and the conversions from and to
  integers are then integer arithmetic, followed where IEEE 754 rounds by \<open>dpack\<close>, which
  rounds a multiple of \<open>2 ^ -1074\<close> to the nearest double, ties to even.
\<close>

type_synonym double = u64

section \<open>The fields of a double\<close>

definition dsign :: "double \<Rightarrow> bool" where
  "dsign x \<longleftrightarrow> 2 ^ 63 \<le> unat x"

definition dexp :: "double \<Rightarrow> nat" where
  "dexp x = unat x div 2 ^ 52 mod 2 ^ 11"

definition dmant :: "double \<Rightarrow> nat" where
  "dmant x = unat x mod 2 ^ 52"

definition isnan :: "double \<Rightarrow> bool" where
  "isnan x \<longleftrightarrow> dexp x = 2047 \<and> dmant x \<noteq> 0"

definition isinf :: "double \<Rightarrow> bool" where
  "isinf x \<longleftrightarrow> dexp x = 2047 \<and> dmant x = 0"

definition dfinite :: "double \<Rightarrow> bool" where
  "dfinite x \<longleftrightarrow> dexp x \<noteq> 2047"

text \<open>The magnitude of a finite double, in units of \<open>2 ^ -1074\<close>.\<close>

definition dmag :: "double \<Rightarrow> nat" where
  "dmag x = (if dexp x = 0 then dmant x else (2 ^ 52 + dmant x) * 2 ^ (dexp x - 1))"

definition dscaled :: "double \<Rightarrow> int" where
  "dscaled x = (if dsign x then - int (dmag x) else int (dmag x))"

definition DU :: nat where
  "DU = 2 ^ 1074"

abbreviation dunit :: int where
  "dunit \<equiv> int DU"

section \<open>Comparison\<close>

text \<open>The infinities lie beyond every finite double, whose exponent is at most 2046.\<close>

definition dkey :: "double \<Rightarrow> int" where
  "dkey x = (if isinf x then (if dsign x then - (2 ^ 2100) else 2 ^ 2100) else dscaled x)"

definition deq :: "double \<Rightarrow> double \<Rightarrow> bool" where
  "deq x y \<longleftrightarrow> \<not> isnan x \<and> \<not> isnan y \<and> dkey x = dkey y"

definition dlt :: "double \<Rightarrow> double \<Rightarrow> bool" where
  "dlt x y \<longleftrightarrow> \<not> isnan x \<and> \<not> isnan y \<and> dkey x < dkey y"

definition dle :: "double \<Rightarrow> double \<Rightarrow> bool" where
  "dle x y \<longleftrightarrow> \<not> isnan x \<and> \<not> isnan y \<and> dkey x \<le> dkey y"

section \<open>Rounding\<close>

text \<open>The number of binary digits of a natural number.\<close>

fun nbits :: "nat \<Rightarrow> nat" where
  "nbits n = (if n = 0 then 0 else Suc (nbits (n div 2)))"

declare nbits.simps [simp del]

lemma nbits_0 [simp]: "nbits 0 = 0"
  by (simp add: nbits.simps)

lemma nbits_pos: "0 < n \<Longrightarrow> nbits n = Suc (nbits (n div 2))"
  by (simp add: nbits.simps)

lemma nbits_bounds: "0 < n \<Longrightarrow> 2 ^ (nbits n - 1) \<le> n \<and> n < 2 ^ nbits n"
proof (induction n rule: nbits.induct)
  case (1 n)
  show ?case
  proof (cases "n = 1")
    case True
    then show ?thesis by (simp add: nbits_pos)
  next
    case False
    with "1.prems" have pos: "0 < n div 2" by auto
    then have half: "2 ^ (nbits (n div 2) - 1) \<le> n div 2" "n div 2 < 2 ^ nbits (n div 2)"
      using "1.IH" "1.prems" by auto
    obtain k where k: "nbits (n div 2) = Suc k"
      using pos by (auto simp: nbits_pos)
    have "2 ^ Suc k \<le> n" "n < 2 ^ Suc (Suc k)"
      using half unfolding k by auto
    with "1.prems" k show ?thesis by (simp add: nbits_pos)
  qed
qed

lemma nbits_le_iff: "nbits n \<le> k \<longleftrightarrow> n < 2 ^ k"
proof (cases "n = 0")
  case False
  then have b: "2 ^ (nbits n - 1) \<le> n" "n < 2 ^ nbits n" using nbits_bounds by auto
  show ?thesis
  proof
    assume "nbits n \<le> k"
    then have "(2::nat) ^ nbits n \<le> 2 ^ k" by simp
    with b(2) show "n < 2 ^ k" by (rule less_le_trans)
  next
    assume "n < 2 ^ k"
    with b(1) have "(2::nat) ^ (nbits n - 1) < 2 ^ k" by (rule le_less_trans)
    then show "nbits n \<le> k" using False by simp
  qed
qed simp

text \<open>Division by \<open>2 ^ k\<close>, rounded to nearest, ties to even.\<close>

definition round_half_even :: "nat \<Rightarrow> nat \<Rightarrow> nat" where
  "round_half_even n k =
     (let q = n div 2 ^ k; r = n mod 2 ^ k
      in if 2 * r < 2 ^ k \<or> (2 * r = 2 ^ k \<and> even q) then q else q + 1)"

text \<open>
  The double nearest to \<open>m * 2 ^ -(1074 + e)\<close>.  A quotient rounded up to \<open>2 ^ 53\<close> carries into
  the exponent field by the same sum; magnitudes of \<open>2 ^ 1024\<close> and more become an infinity.
\<close>

definition dpack_at :: "nat \<Rightarrow> bool \<Rightarrow> nat \<Rightarrow> double" where
  "dpack_at e s m =
     (let k = max e (nbits m - 53);
          b = (k - e) * 2 ^ 52 + round_half_even m k
      in word_of_nat ((if s then 2 ^ 63 else 0) + min b (2047 * 2 ^ 52)))"

abbreviation dpack :: "bool \<Rightarrow> nat \<Rightarrow> double" where
  "dpack \<equiv> dpack_at 0"

text \<open>A magnitude that rounding does not change.\<close>

definition representable :: "nat \<Rightarrow> bool" where
  "representable m \<longleftrightarrow> 2 ^ (nbits m - 53) dvd m \<and> nbits m \<le> 2098"

lemma round_half_even_exact: "2 ^ k dvd m \<Longrightarrow> round_half_even m k = m div 2 ^ k"
  by (auto simp: round_half_even_def Let_def)

lemma unat_word64_of_nat: "n < 2 ^ 64 \<Longrightarrow> unat (word_of_nat n :: u64) = n"
  by (rule unat_word_of_nat_small) simp

lemma dfields_of_nat:
  fixes s :: bool
  assumes "b < 2 ^ 63"
  defines "x \<equiv> word_of_nat ((if s then 2 ^ 63 else 0) + b) :: double"
  shows "dsign x \<longleftrightarrow> s" and "dexp x = b div 2 ^ 52" and "dmant x = b mod 2 ^ 52"
proof -
  have u: "unat x = (if s then 2 ^ 63 else 0) + b"
    unfolding x_def using assms(1) by (intro unat_word64_of_nat) auto
  show "dsign x \<longleftrightarrow> s" using assms(1) by (simp add: dsign_def u)
  have e: "b div 2 ^ 52 < 2 ^ 11" using assms(1) by (simp add: div_less_iff_less_mult)
  have "(2 ^ 63 + b) div 2 ^ 52 = 2 ^ 11 + b div 2 ^ 52"
    using div_mult_self2 [of "2 ^ 52" b "2 ^ 11"] by (simp add: add.commute)
  then have "((2 ^ 63 + b) div 2 ^ 52) mod 2 ^ 11 = (2 ^ 11 + b div 2 ^ 52) mod 2 ^ 11"
    by simp
  also have "\<dots> = b div 2 ^ 52" using e by (simp add: mod_add_self1)
  finally show "dexp x = b div 2 ^ 52" using e by (auto simp: dexp_def u)
  have "(2 ^ 63 + b) mod 2 ^ 52 = b mod 2 ^ 52"
    using mod_mult_self2 [of b "2 ^ 52" "2 ^ 11"] by (simp add: add.commute)
  then show "dmant x = b mod 2 ^ 52" by (auto simp: dmant_def u)
qed

lemma dpack_fields:
  assumes "representable m"
  shows "dsign (dpack s m) \<longleftrightarrow> s" and "dfinite (dpack s m)" and "dmag (dpack s m) = m"
proof -
  define k where "k = nbits m - 53"
  define q where "q = m div 2 ^ k"
  have dv: "2 ^ k dvd m" and k2: "k \<le> 2045"
    using assms by (auto simp: representable_def k_def)
  have m: "m = q * 2 ^ k" using dv by (simp add: q_def)
  have "nbits m \<le> 53 + k" by (simp add: k_def)
  then have "m < 2 ^ (53 + k)" by (simp only: nbits_le_iff)
  then have q: "q < 2 ^ 53" by (simp add: q_def div_less_iff_less_mult power_add)
  have low: "2 ^ 52 \<le> q" if "0 < k"
  proof -
    have "2 ^ (nbits m - 1) \<le> m" using nbits_bounds [of m] that by (cases m) (auto simp: k_def)
    moreover have "nbits m - 1 = 52 + k" using that by (simp add: k_def)
    ultimately have "2 ^ 52 * 2 ^ k \<le> m" by (simp add: power_add)
    then show ?thesis by (simp add: q_def less_eq_div_iff_mult_less_eq)
  qed
  define b where "b = k * 2 ^ 52 + q"
  have b: "b < 2047 * 2 ^ 52"
  proof -
    have "k * 2 ^ 52 \<le> 2045 * (2 ^ 52 :: nat)" using k2 by simp
    then show ?thesis using q by (simp add: b_def)
  qed
  have rq: "round_half_even m k = q" using dv by (simp add: round_half_even_exact q_def)
  have mn: "min (k * 2 ^ 52 + q) (2047 * 2 ^ 52) = b"
    using b by (simp add: min_def b_def)
  have pk: "dpack s m = word_of_nat ((if s then 2 ^ 63 else 0) + b)"
    unfolding dpack_at_def Let_def max_0L k_def [symmetric] rq diff_zero mn ..
  have "b < 2 ^ 63" using b by simp
  note f = dfields_of_nat [OF this, of s, folded pk]
  show "dsign (dpack s m) \<longleftrightarrow> s" by (rule f(1))
  have "b div 2 ^ 52 < 2047" using b by (simp add: div_less_iff_less_mult)
  then show "dfinite (dpack s m)" by (simp add: dfinite_def f(2))
  show "dmag (dpack s m) = m"
  proof (cases "q < 2 ^ 52")
    case True
    then have k0: "k = 0" using low by auto
    then have "dexp (dpack s m) = 0" "dmant (dpack s m) = q"
      using True unfolding f(2,3) b_def by simp_all
    with k0 m show ?thesis by (simp add: dmag_def)
  next
    case False
    define r where "r = q - 2 ^ 52"
    have r: "q = 2 ^ 52 + r" "r < 2 ^ 52" using False q by (simp_all add: r_def)
    have "b = (k + 1) * 2 ^ 52 + r" using r by (simp add: b_def)
    then have "b div 2 ^ 52 = k + 1" "b mod 2 ^ 52 = r"
      using r(2) by (simp_all only: mod_mult_self3 mod_less) simp
    then have "dexp (dpack s m) = k + 1" "dmant (dpack s m) = r" unfolding f(2,3) .
    with r m show ?thesis by (simp add: dmag_def)
  qed
qed

lemma dpack_simps [simp]:
  assumes "representable m"
  shows "dsign (dpack s m) \<longleftrightarrow> s" "dfinite (dpack s m)" "dmag (dpack s m) = m"
    "\<not> isnan (dpack s m)" "\<not> isinf (dpack s m)"
  using dpack_fields [OF assms, of s] by (auto simp: isnan_def isinf_def dfinite_def)

text \<open>Packing undoes unpacking: a finite double is determined by its sign and magnitude.\<close>

lemma double_eqI:
  assumes "dsign x = dsign y" "dexp x = dexp y" "dmant x = dmant y"
  shows "x = y"
proof -
  have split: "unat z = (if dsign z then 2 ^ 63 else 0) + dexp z * 2 ^ 52 + dmant z" for z :: double
  proof -
    define n e m d where "n = unat z" and "e = n div 2 ^ 52 mod 2 ^ 11" and "m = n mod 2 ^ 52"
      and "d = n div 2 ^ 63"
    have lt: "n < 2 ^ 64"
      unfolding n_def by (rule order_less_le_trans [OF unsigned_less]) simp
    have d: "d = (if dsign z then 1 else 0)"
      using lt by (auto simp: dsign_def d_def n_def intro: div_nat_eqI)
    have "n div 2 ^ 52 = d * 2 ^ 11 + e"
      using div_mult_mod_eq [of "n div 2 ^ 52" "2 ^ 11"]
      by (simp add: div_mult2_eq [symmetric] d_def e_def)
    then have "n = (d * 2 ^ 11 + e) * 2 ^ 52 + m"
      using div_mult_mod_eq [of n "2 ^ 52"] by (simp add: m_def)
    moreover have "dexp z = e" "dmant z = m"
      by (simp_all only: dexp_def dmant_def e_def m_def n_def)
    ultimately show ?thesis
      by (simp add: d n_def [symmetric] add_mult_distrib)
  qed
  show ?thesis using assms split [of x] split [of y] by (simp add: word_unat_eq_iff)
qed

section \<open>Conversions between integers and doubles\<close>

text \<open>The double nearest to an integer: the implicit conversions from \<open>int\<close>, \<open>uint32_t\<close>, \<open>int64_t\<close>.\<close>

definition double_of_int :: "int \<Rightarrow> double" where
  "double_of_int i = dpack (i < 0) (nat \<bar>i\<bar> * DU)"

text \<open>Truncation towards zero of a finite double.\<close>

definition dtrunc_int :: "double \<Rightarrow> int" where
  "dtrunc_int x =
     (let t = int (dmag x div DU) in if dsign x then - t else t)"

text \<open>
  A conversion to an integer type truncates towards zero, and is undefined when the truncated
  value does not fit the type (C++ standard, [conv.fpint]).
\<close>

definition double_to_int_type :: "int \<Rightarrow> int \<Rightarrow> double \<Rightarrow> int res" where
  "double_to_int_type lo hi x =
     (if dfinite x \<and> lo \<le> dtrunc_int x \<and> dtrunc_int x \<le> hi then Inr (dtrunc_int x)
      else Inl Undefined)"

definition double_to_int32 :: "double \<Rightarrow> int res" where
  "double_to_int32 = double_to_int_type (- (2 ^ 31)) (2 ^ 31 - 1)"

definition double_to_int64 :: "double \<Rightarrow> int res" where
  "double_to_int64 = double_to_int_type (- (2 ^ 63)) (2 ^ 63 - 1)"

definition double_to_uint32 :: "double \<Rightarrow> u32 res" where
  "double_to_uint32 x = rbind (double_to_int_type 0 (2 ^ 32 - 1) x) (\<lambda>i. Inr (word_of_int i))"

definition dintegral :: "double \<Rightarrow> bool" where
  "dintegral x \<longleftrightarrow> dfinite x \<and> dmag x mod DU = 0"

lemma nbits_mult_power: "0 < n \<Longrightarrow> nbits (n * 2 ^ k) = nbits n + k"
proof (induction k)
  case (Suc k)
  then have "nbits (n * 2 ^ Suc k) = Suc (nbits (n * 2 ^ k))"
    by (subst nbits_pos) auto
  with Suc show ?case by simp
qed simp

lemma representable_int:
  assumes "n \<le> 2 ^ 53"
  shows "representable (n * DU)"
proof (cases "n = 0")
  case False
  then have nb: "nbits (n * DU) = nbits n + 1074" by (simp only: DU_def nbits_mult_power)
  have le: "nbits n \<le> 54" using assms unfolding nbits_le_iff by simp
  have "(2::nat) ^ (nbits n + 1074 - 53) dvd 2 ^ 1075" using le by (intro le_imp_power_dvd) simp
  show ?thesis
  proof (cases "n = 2 ^ 53")
    case True
    then have "n * DU = 2 ^ 1127" by (simp add: DU_def)
    then show ?thesis unfolding representable_def nb using le
      by (simp only: ) (intro conjI le_imp_power_dvd; simp)
  next
    case False
    with assms have "n < 2 ^ 53" by simp
    then have "nbits n \<le> 53" by (simp only: nbits_le_iff)
    then have "(2::nat) ^ (nbits n + 1074 - 53) dvd DU" unfolding DU_def by (intro le_imp_power_dvd) simp
    then show ?thesis unfolding representable_def nb using le by (auto intro: dvd_mult)
  qed
qed (simp add: representable_def)

lemma double_of_int_fields:
  assumes "\<bar>i\<bar> \<le> 2 ^ 53"
  shows "dsign (double_of_int i) \<longleftrightarrow> i < 0" "dfinite (double_of_int i)"
    "dmag (double_of_int i) = nat \<bar>i\<bar> * DU"
    "\<not> isnan (double_of_int i)" "\<not> isinf (double_of_int i)"
proof -
  have "nat \<bar>i\<bar> \<le> 2 ^ 53" using assms by simp
  from representable_int [OF this]
  show "dsign (double_of_int i) \<longleftrightarrow> i < 0" "dfinite (double_of_int i)"
    "dmag (double_of_int i) = nat \<bar>i\<bar> * DU"
    "\<not> isnan (double_of_int i)" "\<not> isinf (double_of_int i)"
    by (simp_all only: double_of_int_def dpack_simps not_False_eq_True)
qed

lemma dscaled_of_int: "\<bar>i\<bar> \<le> 2 ^ 53 \<Longrightarrow> dscaled (double_of_int i) = i * dunit"
  by (auto simp: dscaled_def double_of_int_fields)

lemma dkey_finite: "dfinite x \<Longrightarrow> dkey x = dscaled x"
  by (simp add: dkey_def isinf_def dfinite_def)

lemma dkey_of_int: "\<bar>i\<bar> \<le> 2 ^ 53 \<Longrightarrow> dkey (double_of_int i) = i * dunit"
  by (simp add: dkey_finite double_of_int_fields dscaled_of_int)

lemma DU_pos [simp]: "0 < DU" "DU \<noteq> 0"
  by (simp_all add: DU_def)

lemma nat_div_exact_iff: "int (m div u) * int u = int m \<longleftrightarrow> m mod u = 0"
  by (metis add.right_neutral add_left_cancel div_mult_mod_eq of_nat_eq_iff of_nat_mult)

lemma dcompare_of_int:
  assumes "\<bar>i\<bar> \<le> 2 ^ 53" "\<bar>j\<bar> \<le> 2 ^ 53"
  shows "deq (double_of_int i) (double_of_int j) \<longleftrightarrow> i = j"
    "dlt (double_of_int i) (double_of_int j) \<longleftrightarrow> i < j"
    "dle (double_of_int i) (double_of_int j) \<longleftrightarrow> i \<le> j"
  using assms
  by (auto simp: deq_def dlt_def dle_def double_of_int_fields dkey_of_int)

lemma dtrunc_of_int: "\<bar>i\<bar> \<le> 2 ^ 53 \<Longrightarrow> dtrunc_int (double_of_int i) = i"
  by (auto simp: dtrunc_int_def double_of_int_fields Let_def)

lemma dintegral_of_int: "\<bar>i\<bar> \<le> 2 ^ 53 \<Longrightarrow> dintegral (double_of_int i)"
  by (simp add: dintegral_def double_of_int_fields)

lemma double_to_int_type_of_int:
  "\<bar>i\<bar> \<le> 2 ^ 53 \<Longrightarrow> lo \<le> i \<Longrightarrow> i \<le> hi \<Longrightarrow> double_to_int_type lo hi (double_of_int i) = Inr i"
  by (simp add: double_to_int_type_def double_of_int_fields dtrunc_of_int)

lemma double_to_int32_of_int:
  "- (2 ^ 31) \<le> i \<Longrightarrow> i < 2 ^ 31 \<Longrightarrow> double_to_int32 (double_of_int i) = Inr i"
  unfolding double_to_int32_def by (rule double_to_int_type_of_int) auto

lemma double_to_int32_bounds:
  "double_to_int32 x = Inr i \<Longrightarrow> - (2 ^ 31) \<le> i \<and> i < 2 ^ 31"
  by (auto simp: double_to_int32_def double_to_int_type_def split: if_splits)

text \<open>
  The comparison \<open>(int)x == x\<close>, which the runtime uses to test for integers, holds exactly for
  integral doubles.
\<close>

lemma deq_trunc_iff:
  assumes "dfinite x" "\<bar>dtrunc_int x\<bar> \<le> 2 ^ 53"
  shows "deq (double_of_int (dtrunc_int x)) x \<longleftrightarrow> dintegral x"
proof -
  have nn: "\<not> isnan x" "dkey x = dscaled x"
    using assms(1) by (auto simp: isnan_def dfinite_def dkey_finite)
  have "dtrunc_int x * dunit = dscaled x \<longleftrightarrow> dmag x mod DU = 0"
    unfolding dtrunc_int_def dscaled_def Let_def
    by (cases "dsign x") (simp_all only: if_True if_False minus_mult_left [symmetric]
        neg_equal_iff_equal nat_div_exact_iff)
  then show ?thesis
    using assms nn by (simp add: deq_def double_of_int_fields dkey_of_int dintegral_def)
qed

lemma deq_int32_iff:
  assumes "double_to_int32 x = Inr i"
  shows "deq (double_of_int i) x \<longleftrightarrow> dintegral x"
proof -
  from assms have "dfinite x" "i = dtrunc_int x" "\<bar>i\<bar> \<le> 2 ^ 53"
    using double_to_int32_bounds [OF assms]
    by (auto simp: double_to_int32_def double_to_int_type_def split: if_splits)
  with deq_trunc_iff [of x] show ?thesis by simp
qed

text \<open>Where an integral double lies: its value is its truncation.\<close>

lemma dintegral_scaled: "dintegral x \<Longrightarrow> dscaled x = dtrunc_int x * dunit"
proof -
  assume "dintegral x"
  then have "dmag x mod DU = 0" by (simp add: dintegral_def)
  then have "int (dmag x) = int (dmag x div DU) * dunit"
    by (rule nat_div_exact_iff [THEN iffD2, symmetric])
  then show ?thesis by (auto simp: dscaled_def dtrunc_int_def Let_def)
qed

section \<open>Arithmetic\<close>

text \<open>
  NaN results follow the x86-64 SSE2 rules, the target the runtime's assembly is written for: a
  NaN operand is returned with its quiet bit set, the first one if both are, and an invalid
  operation gives the default NaN, whose sign bit is set.
\<close>

definition dnan_default :: double where
  "dnan_default = 0xFFF8000000000000"

definition dinf :: "bool \<Rightarrow> double" where
  "dinf s = (if s then 0xFFF0000000000000 else 0x7FF0000000000000)"

definition dzero :: "bool \<Rightarrow> double" where
  "dzero s = (if s then 0x8000000000000000 else 0)"

unbundle bit_operations_syntax

definition dquiet :: "double \<Rightarrow> double" where
  "dquiet x = x OR 0x0008000000000000"

definition dnan_of :: "double \<Rightarrow> double \<Rightarrow> double" where
  "dnan_of x y = (if isnan x then dquiet x else dquiet y)"

definition dneg :: "double \<Rightarrow> double" where
  "dneg x = x XOR 0x8000000000000000"

definition dadd :: "double \<Rightarrow> double \<Rightarrow> double" where
  "dadd x y =
     (if isnan x \<or> isnan y then dnan_of x y
      else if isinf x then (if isinf y \<and> dsign x \<noteq> dsign y then dnan_default else x)
      else if isinf y then y
      else let s = dscaled x + dscaled y
           in if s = 0 then dzero (dsign x \<and> dsign y) else dpack (s < 0) (nat \<bar>s\<bar>))"

definition dsub :: "double \<Rightarrow> double \<Rightarrow> double" where
  "dsub x y = (if isnan x \<or> isnan y then dnan_of x y else dadd x (dneg y))"

definition dmul :: "double \<Rightarrow> double \<Rightarrow> double" where
  "dmul x y =
     (let s = (dsign x \<noteq> dsign y) in
      if isnan x \<or> isnan y then dnan_of x y
      else if isinf x then (if dfinite y \<and> dmag y = 0 then dnan_default else dinf s)
      else if isinf y then (if dmag x = 0 then dnan_default else dinf s)
      else dpack_at 1074 s (dmag x * dmag y))"

text \<open>
  The quotient is taken with 1075 fraction bits and one sticky bit for the remainder, which is
  enough for the rounding, as no double has more than 1074 fraction bits.
\<close>

definition ddiv :: "double \<Rightarrow> double \<Rightarrow> double" where
  "ddiv x y =
     (let s = (dsign x \<noteq> dsign y) in
      if isnan x \<or> isnan y then dnan_of x y
      else if isinf x then (if isinf y then dnan_default else dinf s)
      else if isinf y then dzero s
      else if dmag y = 0 then (if dmag x = 0 then dnan_default else dinf s)
      else let n = dmag x * 2 ^ 1075 in
           dpack_at 2 s (2 * (n div dmag y) + (if n mod dmag y = 0 then 0 else 1)))"

text \<open>\<open>fmod\<close>: the exact remainder, with the sign of the dividend.\<close>

definition dfmod :: "double \<Rightarrow> double \<Rightarrow> double" where
  "dfmod x y =
     (if isnan x \<or> isnan y then dnan_of x y
      else if isinf x \<or> (dfinite y \<and> dmag y = 0) then dnan_default
      else if isinf y then x
      else dpack (dsign x) (dmag x mod dmag y))"

text \<open>\<open>trunc\<close>, \<open>floor\<close>, \<open>ceil\<close> and \<open>round\<close> (halfway cases away from zero).\<close>

definition dround_mag :: "(bool \<Rightarrow> nat \<Rightarrow> nat) \<Rightarrow> double \<Rightarrow> double" where
  "dround_mag f x =
     (if isnan x then dquiet x else if isinf x then x
      else dpack (dsign x) (f (dsign x) (dmag x) * DU))"

definition dtrunc :: "double \<Rightarrow> double" where
  "dtrunc = dround_mag (\<lambda>s m. m div DU)"

definition dfloor :: "double \<Rightarrow> double" where
  "dfloor = dround_mag (\<lambda>s m. if s then (m + DU - 1) div DU else m div DU)"

definition dceil :: "double \<Rightarrow> double" where
  "dceil = dround_mag (\<lambda>s m. if s then m div DU else (m + DU - 1) div DU)"

definition dround :: "double \<Rightarrow> double" where
  "dround = dround_mag (\<lambda>s m. (m + DU div 2) div DU)"

lemma dadd_of_int:
  assumes "\<bar>i\<bar> \<le> 2 ^ 53" "\<bar>j\<bar> \<le> 2 ^ 53" "\<bar>i + j\<bar> \<le> 2 ^ 53"
  shows "dadd (double_of_int i) (double_of_int j) = double_of_int (i + j)"
proof -
  have s: "dscaled (double_of_int i) + dscaled (double_of_int j) = (i + j) * dunit"
    using assms by (simp add: dscaled_of_int algebra_simps)
  have z: "double_of_int 0 = dzero False"
    by (simp add: double_of_int_def dpack_at_def round_half_even_def dzero_def)
  show ?thesis
  proof (cases "i + j = 0")
    case True
    then have "dzero (i < 0 \<and> j < 0) = dzero False" by (cases "i < 0") auto
    then show ?thesis
      using assms True s by (simp add: dadd_def double_of_int_fields z Let_def)
  next
    case False
    have "nat \<bar>(i + j) * dunit\<bar> = nat \<bar>i + j\<bar> * DU"
      by (simp add: abs_mult nat_mult_distrib)
    moreover have "(i + j) * dunit < 0 \<longleftrightarrow> i + j < 0"
      by (auto simp: mult_less_0_iff)
    ultimately show ?thesis
      using assms False s
      by (simp add: dadd_def double_of_int_fields Let_def double_of_int_def [of "i + j"])
  qed
qed

end
