(* ===== verification/Values.thy ===== *)
theory Values
  imports Doubles
begin

text \<open>
  The NaN-tagged \<open>Value\<close> of common/common.h: a 64-bit word that is a number when the bits of
  \<open>NAN_MASK\<close> are not all set, and otherwise carries an object pointer in its low 50 bits.  Null
  is the tagged null pointer.
\<close>

type_synonym val = u64
type_synonym ptr = u64

definition NAN_MASK :: u64 where
  "NAN_MASK = 0x7ffc000000000000"

definition CONTENT_MASK :: u64 where
  "CONTENT_MASK = 0x0003ffffffffffff"

definition NULL_VAL :: val where
  "NULL_VAL = NAN_MASK"

definition is_value_float :: "val \<Rightarrow> bool" where
  "is_value_float v \<longleftrightarrow> v AND NAN_MASK \<noteq> NAN_MASK"

definition is_object :: "val \<Rightarrow> bool" where
  "is_object v \<longleftrightarrow> v AND NAN_MASK = NAN_MASK"

definition get_object_value :: "val \<Rightarrow> ptr" where
  "get_object_value v = v AND CONTENT_MASK"

definition get_number_value :: "val \<Rightarrow> double" where
  "get_number_value v = v"

text \<open>\<open>rt_throw_error\<close> (common/common.cpp) calls \<open>abort()\<close> whatever its argument.\<close>

definition encode_number :: "double \<Rightarrow> val res" where
  "encode_number d = (if \<not> is_value_float d then Inl Fatal else Inr d)"

definition encode_object :: "ptr \<Rightarrow> val res" where
  "encode_object p = (if p AND NAN_MASK \<noteq> 0 then Inl Fatal else Inr (NAN_MASK OR p))"

section \<open>Pointers\<close>

text \<open>
  What the encoding relies on: user-space addresses of x86-64 have 47 bits, so they fit the
  content mask; \<open>plausible_ptr\<close> is the exact condition.
\<close>

definition plausible_ptr :: "ptr \<Rightarrow> bool" where
  "plausible_ptr p \<longleftrightarrow> p AND CONTENT_MASK = p"

lemma is_value_float_iff: "is_value_float v \<longleftrightarrow> \<not> is_object v"
  by (simp add: is_value_float_def is_object_def)

lemma masks_disjoint: "NAN_MASK AND CONTENT_MASK = 0" "CONTENT_MASK AND NAN_MASK = 0"
  by (simp_all add: NAN_MASK_def CONTENT_MASK_def)

lemma word_AND_eq_mask_iff: "v AND m = m \<longleftrightarrow> (\<forall>n. bit m n \<longrightarrow> bit v n)" for v m :: "'a::len word"
  by (auto simp: bit_eq_iff bit_simps dest: bit_imp_le_length)

lemma NAN_MASK_bits: "bit NAN_MASK n \<longleftrightarrow> 50 \<le> n \<and> n < 63"
proof -
  have e: "NAN_MASK = push_bit 50 (mask 13)"
    by (simp add: NAN_MASK_def mask_eq_exp_minus_1 push_bit_eq_mult)
  show ?thesis unfolding e by (auto simp: bit_simps)
qed

lemma CONTENT_MASK_bits: "bit CONTENT_MASK n \<longleftrightarrow> n < 50"
proof -
  have e: "CONTENT_MASK = mask 50"
    by (simp add: CONTENT_MASK_def mask_eq_exp_minus_1)
  show ?thesis unfolding e by (auto simp: bit_simps)
qed

lemmas tag_bits = bit_eq_iff bit_simps NAN_MASK_bits CONTENT_MASK_bits

lemma plausible_ptr_bits: "plausible_ptr p \<longleftrightarrow> (\<forall>n. bit p n \<longrightarrow> n < 50)"
  unfolding plausible_ptr_def and.commute [of p]
  by (simp add: word_AND_eq_mask_iff CONTENT_MASK_bits)

lemma plausible_ptr_tag: "plausible_ptr p \<Longrightarrow> p AND NAN_MASK = 0"
  unfolding plausible_ptr_bits by (auto simp: tag_bits)

lemma plausible_ptr_0 [simp]: "plausible_ptr 0"
  by (simp add: plausible_ptr_def)

lemma encode_object_plausible: "plausible_ptr p \<Longrightarrow> encode_object p = Inr (NAN_MASK OR p)"
  by (simp add: encode_object_def plausible_ptr_tag)

lemma is_object_bits: "is_object v \<longleftrightarrow> (\<forall>n. 50 \<le> n \<and> n < 63 \<longrightarrow> bit v n)"
  by (simp add: is_object_def word_AND_eq_mask_iff NAN_MASK_bits)

lemma is_object_tagged [simp]: "is_object (NAN_MASK OR p)"
  by (simp add: is_object_bits tag_bits)

lemma get_object_tagged: "plausible_ptr p \<Longrightarrow> get_object_value (NAN_MASK OR p) = p"
  unfolding plausible_ptr_bits get_object_value_def by (auto simp: tag_bits)

lemma get_object_plausible: "plausible_ptr (get_object_value v)"
  by (simp add: plausible_ptr_bits get_object_value_def tag_bits)

lemma is_object_NULL [simp]: "is_object NULL_VAL"
  by (simp add: is_object_def NULL_VAL_def)

lemma get_object_NULL [simp]: "get_object_value NULL_VAL = 0"
  by (simp add: get_object_value_def NULL_VAL_def NAN_MASK_def CONTENT_MASK_def)

text \<open>Every number but a NaN with payload bit 50 is a number to the tag test.\<close>

lemma is_object_isnan: "is_object v \<Longrightarrow> isnan v"
proof -
  assume "is_object v"
  then have b: "\<And>n. 50 \<le> n \<Longrightarrow> n < 63 \<Longrightarrow> bit v n" by (simp add: is_object_bits)
  have "take_bit 11 (drop_bit 52 v) = mask 11"
    using b by (auto simp: bit_eq_iff bit_simps)
  then have "unat (take_bit 11 (drop_bit 52 v)) = unat (mask 11 :: u64)" by simp
  then have "take_bit 11 (drop_bit 52 (unat v)) = 2047"
    by (simp add: unsigned_take_bit_eq unsigned_drop_bit_eq mask_eq_exp_minus_1
        take_bit_nat_eq_self [OF unat64_lt] flip: take_bit_eq_mod)
  then have e: "dexp v = 2047"
    by (simp add: dexp_def take_bit_eq_mod drop_bit_eq_div)
  have "bit (take_bit 52 v) 50" using b [of 50] by (simp add: bit_simps)
  then have "take_bit 52 v \<noteq> 0" by auto
  then have "unat (take_bit 52 v) \<noteq> 0" by (simp add: unat_eq_0)
  then have "take_bit 52 (unat v) \<noteq> 0"
    by (simp add: unsigned_take_bit_eq)
  then have "dmant v \<noteq> 0"
    by (simp add: dmant_def take_bit_eq_mod)
  with e show "isnan v" by (simp add: isnan_def)
qed

lemma not_nan_is_float: "\<not> isnan v \<Longrightarrow> is_value_float v"
  using is_object_isnan by (auto simp: is_value_float_iff)

lemma encode_number_not_nan [simp]: "\<not> isnan d \<Longrightarrow> encode_number d = Inr d"
  by (simp add: encode_number_def not_nan_is_float)

end
