(* ===== verification/Bytes.thy ===== *)
theory Bytes
  imports Prelude
begin

text \<open>
  Little-endian encodings of unsigned integers, as the compiler emits and the runtime reads the
  tables that describe compiled code.
\<close>

fun le_bytes :: "nat \<Rightarrow> nat \<Rightarrow> u8 list" where
  "le_bytes 0 n = []"
| "le_bytes (Suc k) n = word_of_nat (n mod 256) # le_bytes k (n div 256)"

fun le_nat :: "u8 list \<Rightarrow> nat" where
  "le_nat [] = 0"
| "le_nat (b # bs) = unat b + 256 * le_nat bs"

lemma length_le_bytes [simp]: "length (le_bytes k n) = k"
  by (induction k arbitrary: n) auto

lemma le_nat_le_bytes: "le_nat (le_bytes k n) = n mod 256 ^ k"
proof (induction k arbitrary: n)
  case (Suc k)
  have "unat (word_of_nat (n mod 256) :: u8) = n mod 256"
    by (rule unat_word_of_nat_small) simp
  then show ?case using Suc by (simp add: mod_mult2_eq)
qed simp

lemma le_roundtrip [simp]: "n < 256 ^ k \<Longrightarrow> le_nat (le_bytes k n) = n"
  by (simp add: le_nat_le_bytes)

lemma le_nat_bound: "le_nat bs < 256 ^ length bs"
proof (induction bs)
  case (Cons b bs)
  have "unat b < 256" using unsigned_less [of b] by simp
  with Cons show ?case by simp
qed simp

lemma le_bytes_le_nat: "le_bytes (length bs) (le_nat bs) = bs"
proof (induction bs)
  case (Cons b bs)
  have "unat b < 256" using unsigned_less [of b] by simp
  with Cons show ?case by simp
qed simp

text \<open>Reading a field of \<open>k\<close> bytes; a read past the end of the buffer is undefined.\<close>

definition read_le :: "nat \<Rightarrow> u8 list \<Rightarrow> nat res" where
  "read_le k bs = (if length bs < k then Inl Undefined else Inr (le_nat (take k bs)))"

lemma read_le_append [simp]: "n < 256 ^ k \<Longrightarrow> read_le k (le_bytes k n @ bs) = Inr n"
  by (simp add: read_le_def)

text \<open>Padding to a multiple of eight bytes.\<close>

definition pad8 :: "u8 list \<Rightarrow> u8 list" where
  "pad8 bs = bs @ replicate ((8 - length bs mod 8) mod 8) 0"

lemma pad8_dvd: "8 dvd length (pad8 bs)"
proof -
  obtain q r where l: "length bs = 8 * q + r" "r < 8"
    by (metis mod_less_divisor mult_div_mod_eq zero_less_numeral)
  then have "length (pad8 bs) = 8 * q + (r + (8 - r) mod 8)" by (simp add: pad8_def)
  moreover have "r + (8 - r) mod 8 = (if r = 0 then 0 else 8)" using l(2) by simp
  ultimately show ?thesis by simp
qed

lemma pad8_append: "8 dvd length xs \<Longrightarrow> pad8 (xs @ ys) = xs @ pad8 ys"
  by (auto simp: pad8_def dvd_def)

end
