(* ===== verification/Stack_Map.thy ===== *)
theory Stack_Map
  imports Bytes
begin

text \<open>
  Stack maps: the table the LLVM backend writes for each module
  (\<open>WrenGCMetadataPrinter::emitStackMaps\<close>, src/backend_llvm/WrenGCMetadataPrinter.cpp) and the
  runtime's reader of it (\<open>StackMapDescription\<close>, common/StackMapDescription.cpp), which the
  garbage collector asks for the live values of a stack frame.
\<close>

section \<open>The serialised form\<close>

datatype object_id = INVALID | END_OF_STACK_MAP | FUNCTION | STATEPOINT | OBJECT_NAME

fun object_id_code :: "object_id \<Rightarrow> nat" where
  "object_id_code INVALID = 0"
| "object_id_code END_OF_STACK_MAP = 1"
| "object_id_code FUNCTION = 2"
| "object_id_code STATEPOINT = 3"
| "object_id_code OBJECT_NAME = 4"

definition object_id_of :: "nat \<Rightarrow> object_id option" where
  "object_id_of n = find (\<lambda>i. object_id_code i = n)
     [INVALID, END_OF_STACK_MAP, FUNCTION, STATEPOINT, OBJECT_NAME]"

lemma object_id_of_code [simp]: "object_id_of (object_id_code i) = Some i"
  by (cases i) (simp_all add: object_id_of_def)

record map_object =
  mo_id :: nat
  sectionSize :: nat
  mo_flags :: nat
  forObject :: nat

definition read_object :: "u8 list \<Rightarrow> map_object res" where
  "read_object bs =
     rbind (read_le 2 bs) (\<lambda>i. rbind (read_le 2 (drop 2 bs)) (\<lambda>s.
     rbind (read_le 2 (drop 4 bs)) (\<lambda>f. rbind (read_le 2 (drop 6 bs)) (\<lambda>o'.
       Inr \<lparr>mo_id = i, sectionSize = s, mo_flags = f, forObject = o'\<rparr>))))"

section \<open>The reader\<close>

record function_descriptor =
  functionPointer :: u64
  fd_name :: "u8 list"
  fd_id :: nat

record internal_statepoint =
  functionId :: nat
  instructionOffset :: u32
  offsetIndex :: nat
  numLocals :: nat

record stack_map =
  m_functions :: "function_descriptor list"
  m_statepoints :: "internal_statepoint list"
  m_offsetHeap :: "u8 list"

record statepoint =
  sp_instruction :: u64
  sp_offsets :: "u8 list"
  sp_numOffsets :: nat
  sp_function :: function_descriptor

text \<open>
  The three cases of the loop's switch that add to the description; \<open>currentFunction\<close> is the last
  function read, and a null pointer before the first one.
\<close>

definition add_function :: "u64 \<Rightarrow> stack_map \<Rightarrow> stack_map" where
  "add_function p m =
     m\<lparr>m_functions := m_functions m @ [\<lparr>functionPointer = p, fd_name = [], fd_id = length (m_functions m)\<rparr>]\<rparr>"

definition add_statepoint :: "u32 \<Rightarrow> u8 list \<Rightarrow> stack_map \<Rightarrow> stack_map" where
  "add_statepoint off offsets m =
     m\<lparr>m_offsetHeap := m_offsetHeap m @ offsets,
       m_statepoints := m_statepoints m @
         [\<lparr>functionId = fd_id (last (m_functions m)), instructionOffset = off,
           offsetIndex = length (m_offsetHeap m), numLocals = length offsets\<rparr>]\<rparr>"

definition name_function :: "u8 list \<Rightarrow> stack_map \<Rightarrow> stack_map" where
  "name_function name m =
     m\<lparr>m_functions := butlast (m_functions m) @ [(last (m_functions m))\<lparr>fd_name := name\<rparr>]\<rparr>"

function parse_objects :: "u8 list \<Rightarrow> stack_map \<Rightarrow> stack_map res" where
  "parse_objects bs m =
     rbind (read_object bs) (\<lambda>object.
       let afterObj = drop 8 bs; next_obj = drop (8 + sectionSize object) bs in
       case object_id_of (mo_id object) of
         Some END_OF_STACK_MAP \<Rightarrow> Inr m
       | Some FUNCTION \<Rightarrow>
           rbind (read_le 8 afterObj) (\<lambda>p. parse_objects next_obj (add_function (word_of_nat p) m))
       | Some STATEPOINT \<Rightarrow>
           (if m_functions m = [] \<or> length (drop 4 afterObj) < forObject object then Inl Undefined
            else rbind (read_le 4 afterObj) (\<lambda>off.
              parse_objects next_obj
                (add_statepoint (word_of_nat off) (take (forObject object) (drop 4 afterObj)) m)))
       | Some OBJECT_NAME \<Rightarrow>
           (if m_functions m = [] \<or> length afterObj < forObject object then Inl Undefined
            else parse_objects next_obj (name_function (take (forObject object) afterObj) m))
       | _ \<Rightarrow> Inl Fatal)"
  by pat_completeness auto
termination
  by (relation "measure (\<lambda>(bs, m). length bs)")
    (auto simp: read_object_def read_le_def rbind_eq_Inr_iff split: if_splits)

declare parse_objects.simps [simp del]

definition FindInstructionPtr :: "stack_map \<Rightarrow> internal_statepoint \<Rightarrow> u64" where
  "FindInstructionPtr m s =
     functionPointer (m_functions m ! functionId s) + ucast (instructionOffset s)"

text \<open>
  The constructor.  \<open>std::sort\<close> leaves the order of equal keys open; here it is kept, and the
  theorems are about maps whose instruction pointers differ.
\<close>

definition StackMapDescription :: "u8 list \<Rightarrow> stack_map res" where
  "StackMapDescription bs =
     rbind (read_le 2 bs) (\<lambda>major.
       if major \<noteq> 1 then Inl Fatal
       else if length bs < 8 then Inl Undefined
       else rbind (parse_objects (drop 8 bs) \<lparr>m_functions = [], m_statepoints = [], m_offsetHeap = []\<rparr>)
         (\<lambda>m. Inr (m\<lparr>m_statepoints := sort_key (FindInstructionPtr m) (m_statepoints m)\<rparr>)))"

text \<open>\<open>Lookup\<close>: \<open>std::lower_bound\<close> finds the first statepoint that is not before the address.\<close>

definition Lookup :: "stack_map \<Rightarrow> u64 \<Rightarrow> statepoint option" where
  "Lookup m address =
     (case find (\<lambda>s. \<not> FindInstructionPtr m s < address) (m_statepoints m) of
        None \<Rightarrow> None
      | Some s \<Rightarrow>
          if FindInstructionPtr m s \<noteq> address then None
          else Some \<lparr>sp_instruction = FindInstructionPtr m s,
                     sp_offsets = take (numLocals s) (drop (offsetIndex s) (m_offsetHeap m)),
                     sp_numOffsets = numLocals s,
                     sp_function = m_functions m ! functionId s\<rparr>)"

section \<open>The writer\<close>

text \<open>What the writer gets from LLVM: functions with their counts of call sites, and call sites.\<close>

datatype location_type = Unprocessed | Register | Direct | Indirect | Constant | ConstantIndex

record location =
  loc_type :: location_type
  loc_size :: nat
  loc_reg :: nat
  loc_offset :: int

record fn_info =
  fn_address :: u64
  fn_symbol :: "u8 list"
  fn_stackSize :: u32
  RecordCount :: nat

record callsite =
  CSOffset :: u32
  Locations :: "location list"
  LiveOuts_empty :: bool

definition RSP_DWARF_ID :: nat where "RSP_DWARF_ID = 7"

definition writeObjectHeader :: "object_id \<Rightarrow> nat \<Rightarrow> nat \<Rightarrow> nat \<Rightarrow> u8 list \<Rightarrow> u8 list" where
  "writeObjectHeader i sz flags for_object out =
     out @ le_bytes 2 (object_id_code i) @ le_bytes 2 sz @ le_bytes 2 flags @ le_bytes 2 for_object"

definition checkConstLoc :: "location list \<Rightarrow> nat \<Rightarrow> int res" where
  "checkConstLoc vec idx =
     (if length vec \<le> idx then Inl Fatal
      else if loc_type (vec ! idx) \<noteq> Constant then Inl Fatal
      else Inr (loc_offset (vec ! idx)))"

definition alignTo64 :: "nat \<Rightarrow> nat" where
  "alignTo64 value =
     (let overhang = value mod 8 in if overhang = 0 then value else value + (8 - overhang))"

definition writeFunction :: "fn_info \<Rightarrow> u8 list \<Rightarrow> u8 list" where
  "writeFunction f out =
     (let out = writeObjectHeader FUNCTION 16 0 0 out;
          out = out @ le_bytes 8 (unat (fn_address f));
          out = out @ le_bytes 4 (RecordCount f);
          out = out @ le_bytes 4 (unat (fn_stackSize f));
          name = fn_symbol f;
          out = writeObjectHeader OBJECT_NAME (alignTo64 (length name)) 0 (length name) out
      in pad8 (out @ name))"

text \<open>The offsets of a call site: pairs of locations from the fourth one on.\<close>

fun value_offsets :: "location list \<Rightarrow> u8 list res" where
  "value_offsets [] = Inr []"
| "value_offsets [x] = Inl Fatal"
| "value_offsets (base # derived # rest) =
     (if loc_type base = Constant \<or> loc_type base = ConstantIndex then value_offsets rest
      else if loc_type base \<noteq> Indirect then Inl Fatal
      else if loc_size base \<noteq> 8 then Inl Fatal
      else if loc_reg base \<noteq> RSP_DWARF_ID then Inl Fatal
      else if loc_offset base < 0 then Inl Fatal
      else if loc_offset base mod 8 \<noteq> 0 then Inl Fatal
      else
        let packedOffset = word_of_int (loc_offset base div 8) :: u8
        in if loc_offset base \<noteq> uint packedOffset * 8 then Inl Fatal
           else rbind (value_offsets rest) (\<lambda>os. Inr (packedOffset # os)))"

definition callsite_offsets :: "callsite \<Rightarrow> u8 list res" where
  "callsite_offsets cs =
     (if \<not> LiveOuts_empty cs then Inl Fatal
      else rbind (checkConstLoc (Locations cs) 0) (\<lambda>_. rbind (checkConstLoc (Locations cs) 1) (\<lambda>_.
           rbind (checkConstLoc (Locations cs) 2) (\<lambda>numDeoptLocs.
             if numDeoptLocs \<noteq> 0 then Inl Fatal
             else rbind (value_offsets (drop 3 (Locations cs))) (\<lambda>offsets.
               if length offsets \<ge> 65535 then Inl Fatal
               else if alignTo64 (4 + length offsets) \<ge> 65535 then Inl Fatal
               else Inr offsets)))))"

definition writeStatepoint :: "u32 \<Rightarrow> u8 list \<Rightarrow> u8 list \<Rightarrow> u8 list" where
  "writeStatepoint off offsets out =
     (let out = writeObjectHeader STATEPOINT (alignTo64 (4 + length offsets)) 0 (length offsets) out
      in pad8 (out @ le_bytes 4 (unat off) @ offsets))"

text \<open>
  \<open>while (remainingCallsites < 1)\<close>: functions are written until one has a call site left.  Taking
  the front of an empty deque is undefined.
\<close>

fun next_function :: "fn_info list \<Rightarrow> int \<Rightarrow> u8 list \<Rightarrow> (fn_info list \<times> int \<times> u8 list) res" where
  "next_function fs remaining out =
     (if \<not> remaining < 1 then Inr (fs, remaining, out)
      else case fs of
        [] \<Rightarrow> Inl Undefined
      | f # fs \<Rightarrow> next_function fs (int (RecordCount f)) (writeFunction f out))"

fun emit_callsites :: "callsite list \<Rightarrow> fn_info list \<Rightarrow> int \<Rightarrow> u8 list \<Rightarrow> (fn_info list \<times> u8 list) res" where
  "emit_callsites [] fs remaining out = Inr (fs, out)"
| "emit_callsites (cs # css) fs remaining out =
     rbind (next_function fs remaining out) (\<lambda>(fs, remaining, out).
     rbind (callsite_offsets cs) (\<lambda>offsets.
       emit_callsites css fs (remaining - 1) (writeStatepoint (CSOffset cs) offsets out)))"

definition emitStackMaps :: "fn_info list \<Rightarrow> callsite list \<Rightarrow> u8 list res" where
  "emitStackMaps fs css =
     (let out = le_bytes 2 1 @ le_bytes 2 0 @ le_bytes 2 0 @ le_bytes 2 0
      in rbind (emit_callsites css fs (- 1) out) (\<lambda>(fs, out).
           Inr (writeObjectHeader END_OF_STACK_MAP 0 0 0 (fold writeFunction fs out))))"

end
