(* ===== verification/Objects.thy ===== *)
theory Objects
  imports Values Stack_Map
begin

text \<open>
  The objects of the runtime (rtsrc/Obj.h and the headers of its subclasses) and their store.  A
  \<open>dynamic_cast\<close> tests the payload; the comparisons with \<open>ObjString::Class()\<close> and its like compare
  the type pointer with the address of the built-in class.
\<close>

record fibre_data =
  fb_function :: ptr
  fb_parent :: ptr
  fb_exception :: "val option"
  fb_suspended :: bool
  fb_frames :: "(u64 \<times> u64) list"

record managed_class =
  mc_parent :: ptr
  mc_attributes :: val
  fieldOffset :: int
  mc_size :: int
  totalFieldCount :: nat

datatype payload =
    PString "u8 list"
  | PList "val list"
  | PMap "(val \<times> val) list"
  | PRange double double bool
  | PBool bool
  | PFn nat "ptr list"
  | PClass ptr
  | PManagedClass managed_class
  | PManaged "val list"
  | PFibre fibre_data
  | PNative

record obj =
  obj_type :: ptr
  payload :: payload

datatype builtin = BObject | BClass | BString | BList | BMap | BRange | BBool | BFn | BFibre

record heap =
  objs :: "ptr \<rightharpoonup> obj"
  cells :: "u64 \<Rightarrow> val"
  core :: "builtin \<Rightarrow> ptr"
  true_ptr :: ptr
  false_ptr :: ptr

text \<open>Dereferencing a null or dangling pointer is undefined.\<close>

definition deref :: "heap \<Rightarrow> ptr \<Rightarrow> obj res" where
  "deref h p =
     (if p = 0 then Inl Undefined
      else case objs h p of None \<Rightarrow> Inl Undefined | Some x \<Rightarrow> Inr x)"

definition obj_value :: "ptr \<Rightarrow> val" where
  "obj_value p = NAN_MASK OR p"

text \<open>The two boolean singletons, as \<open>encode_object(ObjBool::Get(b))\<close>.\<close>

definition encode_bool :: "heap \<Rightarrow> bool \<Rightarrow> val" where
  "encode_bool h b = obj_value (if b then true_ptr h else false_ptr h)"

section \<open>What an object reports to the collector\<close>

datatype report = ReportValue val | ReportObject ptr

abbreviation ReportValues :: "val list \<Rightarrow> report list" where
  "ReportValues vs \<equiv> map ReportValue vs"

abbreviation ReportObjects :: "ptr list \<Rightarrow> report list" where
  "ReportObjects ps \<equiv> map ReportObject ps"

text \<open>A function that the collector knows: where it starts, and the stack map it is in.\<close>

record function_info =
  fi_pointer :: u64
  fi_stackMap :: stack_map

text \<open>
  \<open>MarkThreadRoots\<close> for one frame: the last function that starts before the instruction pointer is
  found by binary search in the sorted list, and its stack map is asked for the exact address.
\<close>

definition frame_function :: "function_info list \<Rightarrow> u64 \<Rightarrow> function_info option" where
  "frame_function fs ip =
     (let matched = length (takeWhile (\<lambda>f. fi_pointer f < ip) fs)
      in if matched = 0 then None else Some (fs ! (matched - 1)))"

definition frame_values :: "function_info list \<Rightarrow> (u64 \<Rightarrow> val) \<Rightarrow> u64 \<times> u64 \<Rightarrow> val list" where
  "frame_values fs stack frame =
     (let (ip, sp) = frame in
      case frame_function fs ip of
        None \<Rightarrow> []
      | Some f \<Rightarrow>
          (case Lookup (fi_stackMap f) ip of
             None \<Rightarrow> []
           | Some s \<Rightarrow> map (\<lambda>off. stack (sp + ucast off * 8)) (take (sp_numOffsets s) (sp_offsets s))))"

definition MarkThreadRoots :: "function_info list \<Rightarrow> (u64 \<Rightarrow> val) \<Rightarrow> (u64 \<times> u64) list \<Rightarrow> val list" where
  "MarkThreadRoots fs stack frames = concat (map (frame_values fs stack) frames)"

text \<open>
  \<open>MarkValueAsRoot\<close> skips what \<open>ReportValue\<close> skips.  The constructor of the scanner collects and
  sorts the functions of all stack maps.
\<close>

definition scanner_functions :: "stack_map list \<Rightarrow> function_info list" where
  "scanner_functions maps =
     sort_key fi_pointer
       (concat (map (\<lambda>m. map (\<lambda>f. \<lparr>fi_pointer = functionPointer f, fi_stackMap = m\<rparr>) (m_functions m)) maps))"

text \<open>
  \<open>MarkGCValues\<close> of each class that holds references; those of the others report nothing.  A
  managed class reports its parent as a class does, then its attributes.
\<close>

definition list_MarkGCValues :: "val list \<Rightarrow> report list" where
  "list_MarkGCValues items = ReportValues items"

definition map_MarkGCValues :: "(val \<times> val) list \<Rightarrow> report list" where
  "map_MarkGCValues contents = concat (map (\<lambda>(key, v). [ReportValue key, ReportValue v]) contents)"

definition bool_MarkGCValues :: "bool \<Rightarrow> report list" where
  "bool_MarkGCValues b = []"

definition upvalue_MarkGCValues :: "heap \<Rightarrow> nat \<Rightarrow> ptr list \<Rightarrow> report list" where
  "upvalue_MarkGCValues h n upvaluePointers = ReportValues (map (cells h) (take n upvaluePointers))"

definition class_MarkGCValues :: "ptr \<Rightarrow> report list" where
  "class_MarkGCValues parentClass = [ReportObject parentClass]"

definition managed_class_MarkGCValues :: "managed_class \<Rightarrow> report list" where
  "managed_class_MarkGCValues c = class_MarkGCValues (mc_parent c) @ [ReportValue (mc_attributes c)]"

definition managed_MarkGCValues :: "val list \<Rightarrow> report list" where
  "managed_MarkGCValues fvals = ReportValues fvals"

definition fibre_MarkGCValues :: "function_info list \<Rightarrow> heap \<Rightarrow> fibre_data \<Rightarrow> report list" where
  "fibre_MarkGCValues fs h fb =
     [ReportObject (fb_function fb), ReportObject (fb_parent fb)] @
     (case fb_exception fb of None \<Rightarrow> [] | Some message \<Rightarrow> [ReportValue message]) @
     (if \<not> fb_suspended fb then []
      else ReportValues (MarkThreadRoots fs (cells h) (fb_frames fb)))"

text \<open>The virtual call \<open>obj->MarkGCValues(&m_markOps)\<close>, which the object's class decides.\<close>

definition MarkGCValues :: "function_info list \<Rightarrow> heap \<Rightarrow> payload \<Rightarrow> report list" where
  "MarkGCValues fs h x =
     (case x of
        PString s \<Rightarrow> []
      | PList items \<Rightarrow> list_MarkGCValues items
      | PMap contents \<Rightarrow> map_MarkGCValues contents
      | PRange f t i \<Rightarrow> []
      | PBool b \<Rightarrow> bool_MarkGCValues b
      | PFn n upvaluePointers \<Rightarrow> upvalue_MarkGCValues h n upvaluePointers
      | PClass parentClass \<Rightarrow> class_MarkGCValues parentClass
      | PManagedClass c \<Rightarrow> managed_class_MarkGCValues c
      | PManaged fvals \<Rightarrow> managed_MarkGCValues fvals
      | PFibre fb \<Rightarrow> fibre_MarkGCValues fs h fb
      | PNative \<Rightarrow> [])"

text \<open>The object pointers the scanner adds to its grey list for a report.\<close>

fun reported :: "report \<Rightarrow> ptr list" where
  "reported (ReportValue v) = (if is_object v then [get_object_value v] else [])"
| "reported (ReportObject p) = [p]"

definition kids :: "function_info list \<Rightarrow> heap \<Rightarrow> ptr \<Rightarrow> ptr list" where
  "kids fs h p =
     (case objs h p of None \<Rightarrow> [] | Some x \<Rightarrow> concat (map reported (MarkGCValues fs h (payload x))))"

section \<open>Frames\<close>

text \<open>
  A frame that stopped at a statepoint of \<open>f\<close> finds \<open>f\<close>, when no other function starts between \<open>f\<close>
  and the instruction pointer.
\<close>

lemma frame_function_finds:
  assumes "sorted (map fi_pointer fs)" "f \<in> set fs" "fi_pointer f < ip"
    "\<forall>g \<in> set fs. fi_pointer f < fi_pointer g \<longrightarrow> ip \<le> fi_pointer g"
    "distinct (map fi_pointer fs)"
  shows "frame_function fs ip = Some f"
proof -
  obtain xs ys where fs: "fs = xs @ f # ys" using assms(2) by (meson split_list)
  have xs: "\<forall>g \<in> set xs. fi_pointer g < ip" using assms(1,3) by (auto simp: fs sorted_append)
  have ys: "\<forall>g \<in> set ys. \<not> fi_pointer g < ip"
  proof
    fix g assume g: "g \<in> set ys"
    then have "fi_pointer f \<le> fi_pointer g" "fi_pointer f \<noteq> fi_pointer g"
      using assms(1,5) by (auto simp: fs sorted_append)
    then have "fi_pointer f < fi_pointer g" by simp
    then have "ip \<le> fi_pointer g" using assms(4) g by (simp add: fs)
    then show "\<not> fi_pointer g < ip" by simp
  qed
  have "takeWhile (\<lambda>g. fi_pointer g < ip) fs = xs @ [f]"
  proof -
    have "takeWhile (\<lambda>g. fi_pointer g < ip) ys = []" using ys by (cases ys) auto
    then show ?thesis using xs assms(3) by (simp add: fs takeWhile_append2)
  qed
  then show ?thesis by (simp add: frame_function_def fs nth_append)
qed

end
