(* ===== verification/GC_Scanner.thy ===== *)
theory GC_Scanner
  imports Objects
begin

text \<open>
  The tracing collector (rtsrc/GCTracingScanner.h and .cpp): every object carries a GC word, which
  is odd for a white or black object and otherwise the link of the grey list.  The heap does not
  change while the collector runs, so only the GC words and the head of the grey list are state.
\<close>

unbundle bit_operations_syntax

record scanner =
  m_currentWhiteNumber :: u32
  m_greyList :: ptr
  gc_word :: "ptr \<Rightarrow> u64"

definition initial_white :: u32 where "initial_white = 0xabcd01"

text \<open>A new scanner: the GC words live in the objects and stay as they are.\<close>

definition GCTracingScanner :: "(ptr \<Rightarrow> u64) \<Rightarrow> scanner" where
  "GCTracingScanner words = \<lparr>m_currentWhiteNumber = initial_white, m_greyList = 0, gc_word = words\<rparr>"

definition isGrey :: "u64 \<Rightarrow> bool" where
  "isGrey gcWord \<longleftrightarrow> gcWord AND 1 = 0"

definition pointerToGrey :: "ptr \<Rightarrow> u64" where
  "pointerToGrey p = p"

definition greyToPointer :: "u64 \<Rightarrow> ptr" where
  "greyToPointer gcWord = gcWord"

definition white_word :: "scanner \<Rightarrow> u64" where
  "white_word s = ucast (m_currentWhiteNumber s)"

definition BeginGCCycle :: "scanner \<Rightarrow> scanner res" where
  "BeginGCCycle s =
     (if m_greyList s \<noteq> 0 then Inl Fatal
      else Inr (s\<lparr>m_currentWhiteNumber := m_currentWhiteNumber s + 2\<rparr>))"

definition set_word :: "ptr \<Rightarrow> u64 \<Rightarrow> scanner \<Rightarrow> scanner" where
  "set_word p w s = s\<lparr>gc_word := (gc_word s)(p := w)\<rparr>"

definition clear_lsb :: "ptr \<Rightarrow> ptr" where
  "clear_lsb p = p AND NOT 1"

definition AddToGreyList :: "ptr \<Rightarrow> scanner \<Rightarrow> scanner" where
  "AddToGreyList p s =
     (let obj = clear_lsb p in
      if obj = 0 then s
      else let gcWord = gc_word s obj in
        if isGrey gcWord then s
        else if gcWord = white_word s then s
        else (set_word obj (pointerToGrey (m_greyList s)) s)\<lparr>m_greyList := obj\<rparr>)"

definition MarkValueAsRoot :: "val \<Rightarrow> scanner \<Rightarrow> scanner" where
  "MarkValueAsRoot v s = (if is_value_float v then s else AddToGreyList (get_object_value v) s)"

definition OpsReportValue :: "val \<Rightarrow> scanner \<Rightarrow> scanner" where
  "OpsReportValue v s = (if is_object v then AddToGreyList (get_object_value v) s else s)"

definition OpsReportValues :: "val list \<Rightarrow> scanner \<Rightarrow> scanner" where
  "OpsReportValues vs = fold OpsReportValue vs"

definition OpsReportObject :: "ptr \<Rightarrow> scanner \<Rightarrow> scanner" where
  "OpsReportObject p s = AddToGreyList p s"

definition OpsReportObjects :: "ptr list \<Rightarrow> scanner \<Rightarrow> scanner" where
  "OpsReportObjects ps = fold OpsReportObject ps"

fun apply_report :: "report \<Rightarrow> scanner \<Rightarrow> scanner" where
  "apply_report (ReportValue v) s = OpsReportValue v s"
| "apply_report (ReportObject p) s = OpsReportObject p s"

text \<open>
  The loop of \<open>EndGCCycle\<close>, with fuel; an object on the grey list is read through its pointer, so
  that a dangling one is undefined.  The sweep that follows belongs to the allocator.
\<close>

fun mark_loop :: "nat \<Rightarrow> function_info list \<Rightarrow> heap \<Rightarrow> scanner \<Rightarrow> scanner res option" where
  "mark_loop fuel fs h s =
     (if m_greyList s = 0 then Some (Inr s)
      else case fuel of
        0 \<Rightarrow> None
      | Suc fuel \<Rightarrow>
          (let obj = m_greyList s; gcWord = gc_word s obj in
           if \<not> isGrey gcWord then Some (Inl Fatal)
           else case objs h obj of
             None \<Rightarrow> Some (Inl Undefined)
           | Some x \<Rightarrow>
               let s = s\<lparr>m_greyList := greyToPointer gcWord\<rparr>;
                   s = fold apply_report (MarkGCValues fs h (payload x)) s
               in mark_loop fuel fs h (set_word obj (white_word s) s)))"

declare mark_loop.simps [simp del]

text \<open>
  One collection up to the sweep, as \<open>WrenRuntime::RunGC\<close> makes it: module roots and API roots are
  reported, the extra roots and those of the current thread's stack are marked as values.  The current
  fibre is read through its pointer.
\<close>

definition MarkCurrentThreadRoots ::
  "function_info list \<Rightarrow> heap \<Rightarrow> (u64 \<times> u64) list \<Rightarrow> ptr \<Rightarrow> scanner \<Rightarrow> scanner res"
where
  "MarkCurrentThreadRoots fs h frames currentFibre s =
     (let s = fold MarkValueAsRoot (MarkThreadRoots fs (cells h) frames) s in
      if currentFibre \<noteq> 0
      then (case objs h currentFibre of
              None \<Rightarrow> Inl Undefined
            | Some x \<Rightarrow> Inr (fold apply_report (MarkGCValues fs h (payload x)) s))
      else Inr s)"

record roots =
  module_reports :: "report list"
  extra_roots :: "val list"
  thread_frames :: "(u64 \<times> u64) list"
  current_fibre :: ptr
  api_reports :: "report list"

definition mark_roots :: "function_info list \<Rightarrow> heap \<Rightarrow> roots \<Rightarrow> scanner \<Rightarrow> scanner res" where
  "mark_roots fs h r s =
     (let s = fold apply_report (module_reports r) s;
          s = fold MarkValueAsRoot (extra_roots r) s
      in case MarkCurrentThreadRoots fs h (thread_frames r) (current_fibre r) s of
           Inl e \<Rightarrow> Inl e
         | Inr s \<Rightarrow> Inr (fold apply_report (api_reports r) s))"

definition mark_phase :: "nat \<Rightarrow> function_info list \<Rightarrow> heap \<Rightarrow> roots \<Rightarrow> scanner \<Rightarrow> scanner res option" where
  "mark_phase fuel fs h r s =
     (case BeginGCCycle s of
        Inl e \<Rightarrow> Some (Inl e)
      | Inr s \<Rightarrow>
          (case mark_roots fs h r s of
             Inl e \<Rightarrow> Some (Inl e)
           | Inr s \<Rightarrow> mark_loop fuel fs h s))"

end
