(* ===== verification/GC_Proofs.thy ===== *)
theory GC_Proofs
  imports GC_Scanner
begin

text \<open>
  Correctness of the collector: after a cycle exactly the objects reachable from the roots are
  white, whatever the heap's shape, and the loop ends.
\<close>

section \<open>Everything the collector marks goes through one operation\<close>

lemma fold_reports: "fold apply_report rs s = fold AddToGreyList (concat (map reported rs)) s"
proof (induction rs arbitrary: s)
  case (Cons r rs)
  have "apply_report r s = fold AddToGreyList (reported r) s"
    by (cases r) (simp_all add: OpsReportValue_def OpsReportObject_def)
  then show ?case using Cons by simp
qed simp

lemma MarkValueAsRoot_report: "MarkValueAsRoot v = apply_report (ReportValue v)"
  by (simp add: fun_eq_iff MarkValueAsRoot_def OpsReportValue_def is_value_float_iff)

lemma fold_MarkValueAsRoot:
  "fold MarkValueAsRoot vs s = fold AddToGreyList (concat (map reported (ReportValues vs))) s"
proof -
  have "MarkValueAsRoot = (\<lambda>v. apply_report (ReportValue v))" by (rule ext) (rule MarkValueAsRoot_report)
  then show ?thesis unfolding fold_reports [symmetric] by (simp only: fold_map comp_def)
qed

definition root_list :: "function_info list \<Rightarrow> heap \<Rightarrow> roots \<Rightarrow> ptr list" where
  "root_list fs h r =
     concat (map reported (module_reports r)) @ concat (map reported (ReportValues (extra_roots r))) @
     concat (map reported (ReportValues (MarkThreadRoots fs (cells h) (thread_frames r)))) @
     (if current_fibre r \<noteq> 0 then kids fs h (current_fibre r) else []) @
     concat (map reported (api_reports r))"

definition fibre_exists :: "heap \<Rightarrow> roots \<Rightarrow> bool" where
  "fibre_exists h r \<longleftrightarrow> current_fibre r = 0 \<or> current_fibre r \<in> dom (objs h)"

lemma mark_roots_eq:
  "mark_roots fs h r s = (if fibre_exists h r then Inr (fold AddToGreyList (root_list fs h r) s) else Inl Undefined)"
  by (auto simp: mark_roots_def MarkCurrentThreadRoots_def root_list_def Let_def fold_reports
      fold_MarkValueAsRoot kids_def fibre_exists_def split: option.split)

section \<open>Reachability\<close>

inductive reachable :: "function_info list \<Rightarrow> heap \<Rightarrow> ptr list \<Rightarrow> ptr \<Rightarrow> bool" for fs h rs where
  root: "c \<in> set rs \<Longrightarrow> clear_lsb c \<noteq> 0 \<Longrightarrow> reachable fs h rs (clear_lsb c)"
| step: "reachable fs h rs p \<Longrightarrow> c \<in> set (kids fs h p) \<Longrightarrow> clear_lsb c \<noteq> 0 \<Longrightarrow> reachable fs h rs (clear_lsb c)"

text \<open>
  A heap without dangling pointers: the roots and everything an object reports are null or
  objects, and objects are aligned.
\<close>

definition heap_closed :: "function_info list \<Rightarrow> heap \<Rightarrow> ptr list \<Rightarrow> bool" where
  "heap_closed fs h rs \<longleftrightarrow>
     finite (dom (objs h)) \<and> (\<forall>p \<in> dom (objs h). p \<noteq> 0 \<and> isGrey p) \<and>
     (\<forall>c \<in> set rs. clear_lsb c = 0 \<or> clear_lsb c \<in> dom (objs h)) \<and>
     (\<forall>p \<in> dom (objs h). \<forall>c \<in> set (kids fs h p). clear_lsb c = 0 \<or> clear_lsb c \<in> dom (objs h))"

lemma reachable_in_heap: "heap_closed fs h rs \<Longrightarrow> reachable fs h rs p \<Longrightarrow> p \<in> dom (objs h)"
  by (rotate_tac, induction rule: reachable.induct) (auto simp: heap_closed_def)

section \<open>The tri-colour invariant\<close>

fun grey_chain :: "(ptr \<Rightarrow> u64) \<Rightarrow> ptr \<Rightarrow> ptr list \<Rightarrow> bool" where
  "grey_chain w g [] \<longleftrightarrow> g = 0"
| "grey_chain w g (p # ps) \<longleftrightarrow> g = p \<and> p \<noteq> 0 \<and> grey_chain w (w p) ps"

lemma grey_chain_upd: "p \<notin> set ps \<Longrightarrow> grey_chain (w(p := v)) g ps = grey_chain w g ps"
  by (induction ps arbitrary: g) auto

definition marked :: "u64 \<Rightarrow> scanner \<Rightarrow> ptr \<Rightarrow> bool" where
  "marked W s p \<longleftrightarrow> isGrey (gc_word s p) \<or> gc_word s p = W"

definition marked_ref :: "u64 \<Rightarrow> scanner \<Rightarrow> ptr \<Rightarrow> bool" where
  "marked_ref W s c \<longleftrightarrow> clear_lsb c = 0 \<or> marked W s (clear_lsb c)"

text \<open>\<open>X\<close> holds the object that is being scanned: grey, but no longer on the list.\<close>

definition tricolour ::
  "function_info list \<Rightarrow> heap \<Rightarrow> ptr list \<Rightarrow> (ptr \<Rightarrow> u64) \<Rightarrow> u64 \<Rightarrow> ptr set \<Rightarrow> scanner \<Rightarrow> ptr list \<Rightarrow> bool"
where
  "tricolour fs h rs w0 W X s gs \<longleftrightarrow>
     white_word s = W \<and> \<not> isGrey W \<and> grey_chain (gc_word s) (m_greyList s) gs \<and> distinct gs \<and>
     set gs \<inter> X = {} \<and> set gs \<union> X \<subseteq> dom (objs h) \<and>
     (\<forall>p \<in> dom (objs h). isGrey (gc_word s p) \<longleftrightarrow> p \<in> set gs \<union> X) \<and>
     (\<forall>p \<in> dom (objs h). gc_word s p = W \<longrightarrow> (\<forall>c \<in> set (kids fs h p). marked_ref W s c)) \<and>
     (\<forall>p \<in> dom (objs h). marked W s p \<longrightarrow> reachable fs h rs p) \<and>
     (\<forall>p \<in> dom (objs h). \<not> marked W s p \<longrightarrow> gc_word s p = w0 p)"

lemma tricolour_add:
  assumes inv: "tricolour fs h rs w0 W X s gs"
    and ok: "clear_lsb c = 0 \<or> clear_lsb c \<in> dom (objs h) \<and> reachable fs h rs (clear_lsb c)"
    and even: "\<forall>p \<in> dom (objs h). p \<noteq> 0 \<and> isGrey p"
  shows "\<exists>gs'. tricolour fs h rs w0 W X (AddToGreyList c s) gs' \<and> marked_ref W (AddToGreyList c s) c \<and>
    (\<forall>q. marked_ref W s q \<longrightarrow> marked_ref W (AddToGreyList c s) q) \<and>
    (\<forall>q. (gc_word (AddToGreyList c s) q = W) = (gc_word s q = W))"
proof -
  let ?p = "clear_lsb c"
  have W: "white_word s = W" using inv by (simp add: tricolour_def)
  show ?thesis
  proof (cases "?p = 0 \<or> marked W s ?p")
    case True
    then have "AddToGreyList c s = s" using W by (auto simp: AddToGreyList_def Let_def marked_def)
    then show ?thesis using inv True by (auto simp: marked_ref_def)
  next
    case False
    then have p: "?p \<in> dom (objs h)" "reachable fs h rs ?p" "\<not> isGrey (gc_word s ?p)" "gc_word s ?p \<noteq> W"
      using ok by (auto simp: marked_def)
    define t where "t = AddToGreyList c s"
    have t: "gc_word t = (gc_word s)(?p := m_greyList s)" "m_greyList t = ?p" "white_word t = W"
      using False p W by (auto simp: t_def AddToGreyList_def Let_def set_word_def pointerToGrey_def white_word_def)
    have gs: "?p \<notin> set gs" "?p \<notin> X" using inv p by (auto simp: tricolour_def)
    have chain: "grey_chain (gc_word s) (m_greyList s) gs" using inv by (simp add: tricolour_def)
    have head: "isGrey (m_greyList s)"
    proof (cases gs)
      case Nil
      then show ?thesis using chain by (simp add: isGrey_def)
    next
      case (Cons g gs')
      then show ?thesis using chain inv even by (auto simp: tricolour_def)
    qed
    have m: "marked W t q = (marked W s q \<or> q = ?p)" for q using head t(1) by (auto simp: marked_def)
    have nW: "\<not> isGrey W" using inv by (simp add: tricolour_def)
    have white: "(gc_word t q = W) = (gc_word s q = W)" for q
      using t(1) p(4) head nW by auto
    have "tricolour fs h rs w0 W X t (?p # gs)"
      unfolding tricolour_def
    proof (intro conjI)
      show "grey_chain (gc_word t) (m_greyList t) (?p # gs)"
        using chain gs False by (simp add: t grey_chain_upd)
      show "\<forall>q \<in> dom (objs h). isGrey (gc_word t q) \<longleftrightarrow> q \<in> set (?p # gs) \<union> X"
        using inv head by (auto simp: t(1) tricolour_def)
      show "\<forall>q \<in> dom (objs h). gc_word t q = W \<longrightarrow> (\<forall>c \<in> set (kids fs h q). marked_ref W t c)"
        using inv by (auto simp: white tricolour_def marked_ref_def m)
      show "\<forall>q \<in> dom (objs h). marked W t q \<longrightarrow> reachable fs h rs q"
        using inv p(2) by (auto simp: tricolour_def m)
      show "\<forall>q \<in> dom (objs h). \<not> marked W t q \<longrightarrow> gc_word t q = w0 q"
        using inv by (auto simp: tricolour_def m t(1))
    qed (use inv gs t p in \<open>auto simp: tricolour_def\<close>)
    then show ?thesis using m white by (auto simp: t_def [symmetric] marked_ref_def)
  qed
qed

lemma tricolour_add_list:
  assumes "tricolour fs h rs w0 W X s gs"
    "\<forall>c \<in> set cs. clear_lsb c = 0 \<or> clear_lsb c \<in> dom (objs h) \<and> reachable fs h rs (clear_lsb c)"
    "\<forall>p \<in> dom (objs h). p \<noteq> 0 \<and> isGrey p"
  shows "\<exists>gs'. tricolour fs h rs w0 W X (fold AddToGreyList cs s) gs' \<and>
    (\<forall>c \<in> set cs. marked_ref W (fold AddToGreyList cs s) c) \<and>
    (\<forall>q. marked_ref W s q \<longrightarrow> marked_ref W (fold AddToGreyList cs s) q) \<and>
    (\<forall>q. (gc_word (fold AddToGreyList cs s) q = W) = (gc_word s q = W))"
  using assms
proof (induction cs arbitrary: s gs)
  case (Cons c cs)
  have ok: "clear_lsb c = 0 \<or> clear_lsb c \<in> dom (objs h) \<and> reachable fs h rs (clear_lsb c)" using Cons.prems(2) by simp
  from tricolour_add [OF Cons.prems(1) ok Cons.prems(3)] obtain gs1 where
    1: "tricolour fs h rs w0 W X (AddToGreyList c s) gs1" "marked_ref W (AddToGreyList c s) c"
    "\<forall>q. marked_ref W s q \<longrightarrow> marked_ref W (AddToGreyList c s) q"
    "\<forall>q. (gc_word (AddToGreyList c s) q = W) = (gc_word s q = W)" by blast
  from Cons.IH [OF 1(1)] Cons.prems(2,3) obtain gs2 where
    2: "tricolour fs h rs w0 W X (fold AddToGreyList cs (AddToGreyList c s)) gs2"
    "\<forall>c' \<in> set cs. marked_ref W (fold AddToGreyList cs (AddToGreyList c s)) c'"
    "\<forall>q. marked_ref W (AddToGreyList c s) q \<longrightarrow> marked_ref W (fold AddToGreyList cs (AddToGreyList c s)) q"
    "\<forall>q. (gc_word (fold AddToGreyList cs (AddToGreyList c s)) q = W) = (gc_word (AddToGreyList c s) q = W)"
    by fastforce
  then show ?case using 1 by (intro exI [of _ gs2]) auto
qed auto

section \<open>The marking loop\<close>

lemma mark_loop_ok:
  assumes "tricolour fs h rs w0 W {} s gs" "heap_closed fs h rs"
    "card {p \<in> dom (objs h). gc_word s p \<noteq> W} \<le> fuel" "\<forall>c \<in> set rs. marked_ref W s c"
  shows "\<exists>t. mark_loop fuel fs h s = Some (Inr t) \<and> tricolour fs h rs w0 W {} t [] \<and>
    (\<forall>c \<in> set rs. marked_ref W t c)"
  using assms
proof (induction fuel arbitrary: s gs)
  case 0
  have fin: "finite {p \<in> dom (objs h). gc_word s p \<noteq> W}" using 0(2) by (simp add: heap_closed_def)
  have "gs = []"
  proof (cases gs)
    case (Cons g gs')
    then have "g \<in> dom (objs h)" "isGrey (gc_word s g)" "\<not> isGrey W" using 0(1) by (auto simp: tricolour_def)
    then have "g \<in> {p \<in> dom (objs h). gc_word s p \<noteq> W}" by auto
    then show ?thesis using 0(3) fin card_gt_0_iff by fastforce
  qed
  then have "m_greyList s = 0" using 0(1) by (simp add: tricolour_def)
  then show ?case using 0 \<open>gs = []\<close> by (simp add: mark_loop.simps)
next
  case (Suc fuel)
  show ?case
  proof (cases gs)
    case Nil
    then have "m_greyList s = 0" using Suc(2) by (simp add: tricolour_def)
    then show ?thesis using Suc Nil by (simp add: mark_loop.simps)
  next
    case (Cons g gs')
    note I = Suc.prems(1) [unfolded tricolour_def Cons]
    have g: "m_greyList s = g" "g \<noteq> 0" "g \<in> dom (objs h)" "isGrey (gc_word s g)" "reachable fs h rs g"
      using I by (auto simp: marked_def)
    obtain x where x: "objs h g = Some x" using g(3) by auto
    define s1 where "s1 = s\<lparr>m_greyList := greyToPointer (gc_word s g)\<rparr>"
    have s1: "gc_word s1 = gc_word s" "white_word s1 = W" "m_greyList s1 = gc_word s g"
      using I by (simp_all add: s1_def greyToPointer_def white_word_def)
    have mk: "marked W s1 = marked W s" "marked_ref W s1 = marked_ref W s"
      by (simp_all add: fun_eq_iff marked_def marked_ref_def s1)
    have t1: "tricolour fs h rs w0 W {g} s1 gs'" using I by (auto simp: tricolour_def s1 mk)
    have hc: "\<forall>p \<in> dom (objs h). p \<noteq> 0 \<and> isGrey p" using Suc.prems(2) by (simp add: heap_closed_def)
    have kids_ok: "\<forall>c \<in> set (kids fs h g). clear_lsb c = 0 \<or> clear_lsb c \<in> dom (objs h) \<and> reachable fs h rs (clear_lsb c)"
    proof
      fix c assume c: "c \<in> set (kids fs h g)"
      have "clear_lsb c = 0 \<or> clear_lsb c \<in> dom (objs h)" using Suc.prems(2) g(3) c unfolding heap_closed_def by blast
      then show "clear_lsb c = 0 \<or> clear_lsb c \<in> dom (objs h) \<and> reachable fs h rs (clear_lsb c)"
        using reachable.step [OF g(5) c] by blast
    qed
    define s2 where "s2 = fold AddToGreyList (kids fs h g) s1"
    from tricolour_add_list [OF t1 kids_ok hc] obtain gs2 where
      t2: "tricolour fs h rs w0 W {g} s2 gs2" "\<forall>c \<in> set (kids fs h g). marked_ref W s2 c"
        "\<forall>q. marked_ref W s1 q \<longrightarrow> marked_ref W s2 q" "\<forall>q. (gc_word s2 q = W) = (gc_word s1 q = W)"
      unfolding s2_def by blast
    define s3 where "s3 = set_word g (white_word s2) s2"
    have s3: "gc_word s3 = (gc_word s2)(g := W)" "white_word s3 = W" "m_greyList s3 = m_greyList s2"
      using t2(1) by (auto simp: s3_def set_word_def white_word_def tricolour_def)
    have run: "mark_loop (Suc fuel) fs h s = mark_loop fuel fs h s3"
      using g x by (subst mark_loop.simps)
        (simp add: Let_def fold_reports s3_def s2_def s1_def kids_def)
    have m3: "marked W s3 q = (marked W s2 q)" for q
      using t2(1) g(3) by (auto simp: marked_def s3 tricolour_def)
    have gns: "g \<notin> set gs2" using t2(1) by (auto simp: tricolour_def)
    have t3: "tricolour fs h rs w0 W {} s3 gs2"
      unfolding tricolour_def
    proof (intro conjI)
      show "grey_chain (gc_word s3) (m_greyList s3) gs2"
        using t2(1) gns by (simp add: s3 grey_chain_upd tricolour_def)
      show "\<forall>p \<in> dom (objs h). isGrey (gc_word s3 p) \<longleftrightarrow> p \<in> set gs2 \<union> {}"
        using t2(1) gns by (auto simp: s3 tricolour_def)
      show "\<forall>p \<in> dom (objs h). gc_word s3 p = W \<longrightarrow> (\<forall>c \<in> set (kids fs h p). marked_ref W s3 c)"
        using t2(1,2) by (auto simp: s3 marked_ref_def m3 tricolour_def)
      show "\<forall>p \<in> dom (objs h). marked W s3 p \<longrightarrow> reachable fs h rs p"
        using t2(1) by (auto simp: m3 tricolour_def)
      show "\<forall>p \<in> dom (objs h). \<not> marked W s3 p \<longrightarrow> gc_word s3 p = w0 p"
        using t2(1) by (auto simp: m3 s3(1) tricolour_def marked_def)
    qed (use t2(1) s3 in \<open>auto simp: tricolour_def\<close>)
    have "{p \<in> dom (objs h). gc_word s3 p \<noteq> W} = {p \<in> dom (objs h). gc_word s p \<noteq> W} - {g}"
      using t2(4) s1(1) by (auto simp: s3)
    moreover have "\<not> isGrey W" using I by simp
    then have "g \<in> {p \<in> dom (objs h). gc_word s p \<noteq> W}" using g(3,4) by auto
    moreover have "finite {p \<in> dom (objs h). gc_word s p \<noteq> W}" using Suc.prems(2) by (simp add: heap_closed_def)
    ultimately have c: "card {p \<in> dom (objs h). gc_word s3 p \<noteq> W} \<le> fuel" using Suc.prems(3) by simp
    have "\<forall>c \<in> set rs. marked_ref W s3 c"
      using Suc.prems(4) t2(3) by (auto simp: mk marked_ref_def m3)
    from Suc.IH [OF t3 Suc.prems(2) c this] show ?thesis using run by simp
  qed
qed

lemma tricolour_done:
  assumes "tricolour fs h rs w0 W {} t []" "\<forall>c \<in> set rs. marked_ref W t c" "heap_closed fs h rs"
    "p \<in> dom (objs h)"
  shows "(gc_word t p = W) = reachable fs h rs p"
proof
  show "gc_word t p = W \<Longrightarrow> reachable fs h rs p" using assms(1,4) by (auto simp: tricolour_def marked_def)
next
  assume "reachable fs h rs p"
  then have "marked W t p"
  proof (induction rule: reachable.induct)
    case (root c)
    then show ?case using assms(2) by (auto simp: marked_ref_def)
  next
    case (step p c)
    have "p \<in> dom (objs h)" using reachable_in_heap [OF assms(3) step(1)] .
    then have "gc_word t p = W" using step.IH assms(1) by (auto simp: marked_def tricolour_def)
    then show ?case using assms(1) step \<open>p \<in> dom (objs h)\<close> by (auto simp: tricolour_def marked_ref_def)
  qed
  then show "gc_word t p = W" using assms(1,4) by (auto simp: marked_def tricolour_def)
qed

section \<open>A whole cycle\<close>

lemma isGrey_bit: "isGrey x \<longleftrightarrow> \<not> bit x 0"
  by (simp add: isGrey_def and_one_eq bit_0 even_iff_mod_2_eq_zero)

lemma isGrey_ucast: "isGrey (ucast (w :: u32)) \<longleftrightarrow> \<not> bit w 0"
  by (simp add: isGrey_bit bit_unsigned_iff)

lemma add_white: "m_currentWhiteNumber (fold AddToGreyList cs u) = m_currentWhiteNumber u"
  by (induction cs arbitrary: u) (simp_all add: AddToGreyList_def Let_def set_word_def)

lemma mark_loop_white:
  "mark_loop k fs h u = Some (Inr v) \<Longrightarrow> m_currentWhiteNumber v = m_currentWhiteNumber u"
proof (induction k arbitrary: u)
  case (Suc k)
  then show ?case
    by (subst (asm) (2) mark_loop.simps)
      (auto simp: Let_def fold_reports add_white set_word_def split: if_splits option.splits dest!: Suc.IH)
qed (simp add: mark_loop.simps split: if_splits)

lemma mark_phase_white:
  "mark_phase k fs h r s = Some (Inr t) \<Longrightarrow> m_currentWhiteNumber t = m_currentWhiteNumber s + 2"
  by (auto simp: mark_phase_def BeginGCCycle_def mark_roots_eq add_white
      split: if_splits sum.splits dest!: mark_loop_white)

lemma mark_phase_ok:
  assumes "m_greyList s = 0" "bit (m_currentWhiteNumber s) 0" "heap_closed fs h (root_list fs h r)"
    and fibre: "fibre_exists h r"
    and words: "\<forall>p \<in> dom (objs h). \<not> isGrey (gc_word s p) \<and> gc_word s p \<noteq> ucast (m_currentWhiteNumber s + 2)"
    and fuel: "card (dom (objs h)) \<le> fuel"
  shows "\<exists>t. mark_phase fuel fs h r s = Some (Inr t) \<and> m_greyList t = 0 \<and>
    m_currentWhiteNumber t = m_currentWhiteNumber s + 2 \<and>
    (\<forall>p \<in> dom (objs h). (gc_word t p = white_word t) = reachable fs h (root_list fs h r) p) \<and>
    (\<forall>p \<in> dom (objs h). \<not> reachable fs h (root_list fs h r) p \<longrightarrow> gc_word t p = gc_word s p)"
proof -
  let ?rs = "root_list fs h r" and ?W = "ucast (m_currentWhiteNumber s + 2) :: u64"
  define b where "b = s\<lparr>m_currentWhiteNumber := m_currentWhiteNumber s + 2\<rparr>"
  let ?b = "fold AddToGreyList ?rs b"
  have odd: "bit (m_currentWhiteNumber s + 2) 0" using assms(2) by (simp add: bit_0)
  have b: "white_word b = ?W" "gc_word b = gc_word s" "m_greyList b = 0" "BeginGCCycle s = Inr b"
    using assms(1) by (simp_all add: b_def white_word_def BeginGCCycle_def)
  have "tricolour fs h ?rs (gc_word s) ?W {} b []"
    using words odd by (auto simp: tricolour_def b marked_def isGrey_ucast)
  moreover have "\<forall>c \<in> set ?rs. clear_lsb c = 0 \<or> clear_lsb c \<in> dom (objs h) \<and> reachable fs h ?rs (clear_lsb c)"
  proof
    fix c assume c: "c \<in> set ?rs"
    have "clear_lsb c = 0 \<or> clear_lsb c \<in> dom (objs h)" using assms(3) c unfolding heap_closed_def by blast
    then show "clear_lsb c = 0 \<or> clear_lsb c \<in> dom (objs h) \<and> reachable fs h ?rs (clear_lsb c)"
      using reachable.root [OF c] by blast
  qed
  moreover have "\<forall>p \<in> dom (objs h). p \<noteq> 0 \<and> isGrey p" using assms(3) by (simp add: heap_closed_def)
  ultimately obtain gs where t1: "tricolour fs h ?rs (gc_word s) ?W {} (?b) gs"
    "\<forall>c \<in> set ?rs. marked_ref ?W (?b) c"
    using tricolour_add_list [of fs h ?rs "gc_word s" ?W "{}" b "[]" ?rs] by blast
  have fin: "finite (dom (objs h))" using assms(3) by (simp add: heap_closed_def)
  have "card {p \<in> dom (objs h). gc_word (?b) p \<noteq> ?W} \<le> card (dom (objs h))"
    by (rule card_mono [OF fin]) auto
  then have "card {p \<in> dom (objs h). gc_word (?b) p \<noteq> ?W} \<le> fuel" using fuel by simp
  from mark_loop_ok [OF t1(1) assms(3) this t1(2)] obtain t where
    t: "mark_loop fuel fs h (?b) = Some (Inr t)"
    "tricolour fs h ?rs (gc_word s) ?W {} t []" "\<forall>c \<in> set ?rs. marked_ref ?W t c" by blast
  have white: "m_currentWhiteNumber t = m_currentWhiteNumber s + 2"
    using mark_loop_white [OF t(1)] by (simp add: add_white b_def)
  have "m_greyList t = 0" using t(2) by (simp add: tricolour_def)
  moreover have W: "white_word t = ?W" using t(2) by (simp add: tricolour_def)
  moreover have "(gc_word t p = ?W) = reachable fs h ?rs p" if "p \<in> dom (objs h)" for p
    by (rule tricolour_done [OF t(2,3) assms(3) that])
  moreover have "gc_word t p = gc_word s p" if "p \<in> dom (objs h)" "\<not> reachable fs h ?rs p" for p
  proof -
    have "\<forall>p \<in> dom (objs h). \<not> marked ?W t p \<longrightarrow> gc_word t p = gc_word s p"
      "\<forall>p \<in> dom (objs h). marked ?W t p \<longrightarrow> reachable fs h ?rs p"
      using t(2) by (simp_all add: tricolour_def)
    then show ?thesis using that by blast
  qed
  ultimately show ?thesis using t(1) b(4) white fibre by (simp add: mark_phase_def mark_roots_eq)
qed

end
