(* ===== verification/Linked_List.thy ===== *)
theory Linked_List
  imports Prelude
begin

text \<open>
  The intrusive doubly-linked list of rtsrc/LinkedList.h.  The class keeps \<open>start\<close>, \<open>end\<close> and
  \<open>count\<close>; the \<open>next\<close> and \<open>prev\<close> pointers live in the listed objects and are reached through the
  \<open>ObjectAccess\<close> template argument.  A header is therefore the record \<open>llist\<close>, the pointers in
  the objects are the two maps of \<open>links\<close>, and an operation takes and returns both.  A null
  pointer is \<open>None\<close>; a failed \<open>assert\<close> is \<open>Fatal\<close>.

  \<open>ll_rep\<close> relates a header and the links to the sequence of objects it holds, and the lemmas
  \<open>*_rep\<close> show that every operation acts on that sequence as its name says.
\<close>

record 'p links =
  nxt :: "'p \<Rightarrow> 'p option"
  prv :: "'p \<Rightarrow> 'p option"

record 'p llist =
  start :: "'p option"
  finish :: "'p option"
  count :: int

definition empty_llist :: "'p llist" where
  "empty_llist = \<lparr>start = None, finish = None, count = 0\<rparr>"

definition set_nxt :: "'p \<Rightarrow> 'p option \<Rightarrow> 'p links \<Rightarrow> 'p links" where
  "set_nxt p v k = k\<lparr>nxt := (nxt k)(p := v)\<rparr>"

definition set_prv :: "'p \<Rightarrow> 'p option \<Rightarrow> 'p links \<Rightarrow> 'p links" where
  "set_prv p v k = k\<lparr>prv := (prv k)(p := v)\<rparr>"

lemma links_upd_simps [simp]:
  "nxt (set_nxt p v k) = (nxt k)(p := v)"
  "prv (set_nxt p v k) = prv k"
  "nxt (set_prv p v k) = nxt k"
  "prv (set_prv p v k) = (prv k)(p := v)"
  by (simp_all add: set_nxt_def set_prv_def)

text \<open>The updates of a neighbour that the code guards with a null test.\<close>

definition opt_nxt :: "'p option \<Rightarrow> 'p option \<Rightarrow> 'p links \<Rightarrow> 'p links" where
  "opt_nxt q v k = (case q of None \<Rightarrow> k | Some p \<Rightarrow> set_nxt p v k)"

definition opt_prv :: "'p option \<Rightarrow> 'p option \<Rightarrow> 'p links \<Rightarrow> 'p links" where
  "opt_prv q v k = (case q of None \<Rightarrow> k | Some p \<Rightarrow> set_prv p v k)"

section \<open>The operations\<close>

definition InsertAtStart :: "'p \<Rightarrow> 'p llist \<Rightarrow> 'p links \<Rightarrow> ('p llist \<times> 'p links) res" where
  "InsertAtStart newObj l k =
     (let l = l\<lparr>count := count l + 1\<rparr> in
      if \<not> count l > 0 then Inl Fatal
      else case start l of
        None \<Rightarrow>
          if finish l \<noteq> None then Inl Fatal
          else Inr (l\<lparr>start := Some newObj, finish := Some newObj\<rparr>, k)
      | Some s \<Rightarrow>
          let k = set_nxt newObj (Some s) k;
              k = set_prv s (Some newObj) k
          in Inr (l\<lparr>start := Some newObj\<rparr>, k))"

definition InsertAtEnd :: "'p \<Rightarrow> 'p llist \<Rightarrow> 'p links \<Rightarrow> ('p llist \<times> 'p links) res" where
  "InsertAtEnd newObj l k =
     (let l = l\<lparr>count := count l + 1\<rparr> in
      if \<not> count l > 0 then Inl Fatal
      else case finish l of
        None \<Rightarrow>
          if start l \<noteq> None then Inl Fatal
          else Inr (l\<lparr>start := Some newObj, finish := Some newObj\<rparr>, k)
      | Some e \<Rightarrow>
          let k = set_nxt e (Some newObj) k;
              k = set_prv newObj (Some e) k
          in Inr (l\<lparr>finish := Some newObj\<rparr>, k))"

definition InsertAfter :: "'p \<Rightarrow> 'p \<Rightarrow> 'p llist \<Rightarrow> 'p links \<Rightarrow> ('p llist \<times> 'p links) res" where
  "InsertAfter prev newObject l k =
     (let l = l\<lparr>count := count l + 1\<rparr> in
      if \<not> count l > 0 then Inl Fatal
      else
        let next = nxt k prev;
            k = set_nxt prev (Some newObject) k;
            k = opt_prv next (Some newObject) k;
            k = set_nxt newObject next k;
            k = set_prv newObject (Some prev) k;
            l = (if finish l = Some prev then l\<lparr>finish := Some newObject\<rparr> else l)
        in Inr (l, k))"

definition Remove :: "'p \<Rightarrow> 'p llist \<Rightarrow> 'p links \<Rightarrow> ('p llist \<times> 'p links) res" where
  "Remove object l k =
     (let l = l\<lparr>count := count l - 1\<rparr> in
      if \<not> count l \<ge> 0 then Inl Fatal
      else
        let next = nxt k object;
            prev = prv k object;
            l = (if start l = Some object then l\<lparr>start := next\<rparr> else l);
            l = (if finish l = Some object then l\<lparr>finish := prev\<rparr> else l);
            k = opt_prv next prev k;
            k = opt_nxt prev next k;
            k = set_nxt object None k;
            k = set_prv object None k
        in Inr (l, k))"

section \<open>The sequence a list holds\<close>

definition hd_or :: "'p option \<Rightarrow> 'p list \<Rightarrow> 'p option" where
  "hd_or n xs = (case xs of [] \<Rightarrow> n | y # _ \<Rightarrow> Some y)"

definition last_or :: "'p option \<Rightarrow> 'p list \<Rightarrow> 'p option" where
  "last_or p xs = (if xs = [] then p else Some (last xs))"

lemma hd_or_simps [simp]:
  "hd_or n [] = n" "hd_or n (y # ys) = Some y"
  "hd_or n (xs @ ys) = hd_or (hd_or n ys) xs"
  by (simp_all add: hd_or_def split: list.split)

lemma last_or_simps [simp]:
  "last_or p [] = p" "last_or p (x # xs) = last_or (Some x) xs"
  "last_or p (xs @ ys) = last_or (last_or p xs) ys"
  by (simp_all add: last_or_def)

text \<open>
  \<open>dl k p xs n\<close>: the nodes of \<open>xs\<close> are linked in order, the first one back to \<open>p\<close> and the last
  one on to \<open>n\<close>.
\<close>

fun dl :: "'p links \<Rightarrow> 'p option \<Rightarrow> 'p list \<Rightarrow> 'p option \<Rightarrow> bool" where
  "dl k p [] n = True"
| "dl k p (x # xs) n = (prv k x = p \<and> nxt k x = hd_or n xs \<and> dl k (Some x) xs n)"

lemma dl_append [simp]:
  "dl k p (xs @ ys) n \<longleftrightarrow> dl k p xs (hd_or n ys) \<and> dl k (last_or p xs) ys n"
  by (induction xs arbitrary: p) auto

lemma dl_frame:
  "dl k p xs n \<Longrightarrow> (\<And>x. x \<in> set xs \<Longrightarrow> nxt k' x = nxt k x \<and> prv k' x = prv k x) \<Longrightarrow> dl k' p xs n"
  by (induction xs arbitrary: p) auto

lemma dl_set_other [simp]:
  "x \<notin> set xs \<Longrightarrow> dl (set_nxt x v k) p xs n = dl k p xs n"
  "x \<notin> set xs \<Longrightarrow> dl (set_prv x v k) p xs n = dl k p xs n"
  by (induction xs arbitrary: p) auto

definition ll_rep :: "'p llist \<Rightarrow> 'p links \<Rightarrow> 'p list \<Rightarrow> bool" where
  "ll_rep l k xs \<longleftrightarrow>
     distinct xs \<and> start l = hd_or None xs \<and> finish l = last_or None xs \<and>
     count l = int (length xs) \<and> dl k None xs None"

lemma ll_rep_empty: "ll_rep empty_llist k []"
  by (simp add: ll_rep_def empty_llist_def)

lemma ll_rep_unique: "ll_rep l k xs \<Longrightarrow> ll_rep l k ys \<Longrightarrow> xs = ys"
proof -
  have *: "dl k p xs None \<Longrightarrow> dl k p ys None \<Longrightarrow> hd_or None xs = hd_or None ys \<Longrightarrow> xs = ys"
    for p xs ys
  proof (induction xs arbitrary: p ys)
    case Nil
    then show ?case by (cases ys) auto
  next
    case (Cons x xs)
    then obtain zs where "ys = x # zs" by (cases ys) auto
    with Cons.prems Cons.IH [of "Some x" zs] show ?case by simp
  qed
  show "ll_rep l k xs \<Longrightarrow> ll_rep l k ys \<Longrightarrow> xs = ys"
    using * [of None xs ys] by (simp add: ll_rep_def)
qed

section \<open>What the operations do to the sequence\<close>

text \<open>
  The insertions leave one pointer of the new object as it is, so the object must come with null
  links; an object taken out by \<open>Remove\<close> has them.
\<close>

definition unlinked :: "'p links \<Rightarrow> 'p \<Rightarrow> bool" where
  "unlinked k x \<longleftrightarrow> nxt k x = None \<and> prv k x = None"

text \<open>The links of objects outside a list never change.\<close>

definition same_outside :: "'p set \<Rightarrow> 'p links \<Rightarrow> 'p links \<Rightarrow> bool" where
  "same_outside A k k' \<longleftrightarrow> (\<forall>x. x \<notin> A \<longrightarrow> nxt k' x = nxt k x \<and> prv k' x = prv k x)"

lemma same_outsideD:
  "same_outside A k k' \<Longrightarrow> x \<notin> A \<Longrightarrow> nxt k' x = nxt k x"
  "same_outside A k k' \<Longrightarrow> x \<notin> A \<Longrightarrow> prv k' x = prv k x"
  by (auto simp: same_outside_def)

lemma same_outside_rep:
  "same_outside A k k' \<Longrightarrow> A \<inter> set xs = {} \<Longrightarrow> ll_rep l k xs \<Longrightarrow> ll_rep l k' xs"
  unfolding ll_rep_def by (auto intro!: dl_frame [of k] dest: same_outsideD)

lemma InsertAtStart_rep:
  assumes "ll_rep l k xs" "unlinked k x" "x \<notin> set xs"
  shows "\<exists>l' k'. InsertAtStart x l k = Inr (l', k') \<and> ll_rep l' k' (x # xs) \<and>
    same_outside (insert x (set xs)) k k'"
proof (cases xs)
  case Nil
  with assms show ?thesis
    by (simp add: InsertAtStart_def ll_rep_def unlinked_def same_outside_def)
next
  case (Cons y ys)
  with assms show ?thesis
    by (auto simp: InsertAtStart_def ll_rep_def unlinked_def same_outside_def Let_def)
qed

lemma InsertAtEnd_rep:
  assumes "ll_rep l k xs" "unlinked k x" "x \<notin> set xs"
  shows "\<exists>l' k'. InsertAtEnd x l k = Inr (l', k') \<and> ll_rep l' k' (xs @ [x]) \<and>
    same_outside (insert x (set xs)) k k'"
proof (cases xs rule: rev_cases)
  case Nil
  with assms show ?thesis
    by (simp add: InsertAtEnd_def ll_rep_def unlinked_def same_outside_def)
next
  case (snoc ys y)
  with assms show ?thesis
    by (auto simp: InsertAtEnd_def ll_rep_def unlinked_def same_outside_def Let_def)
qed

lemma InsertAfter_rep:
  assumes "ll_rep l k (xs @ p # ys)" "x \<notin> set (xs @ p # ys)"
  shows "\<exists>l' k'. InsertAfter p x l k = Inr (l', k') \<and> ll_rep l' k' (xs @ p # x # ys) \<and>
    same_outside (insert x (set (xs @ p # ys))) k k'"
proof (cases ys)
  case Nil
  with assms show ?thesis
    by (auto simp: InsertAfter_def ll_rep_def same_outside_def Let_def opt_prv_def)
next
  case (Cons y zs)
  with assms have "finish l \<noteq> Some p"
    by (cases zs rule: rev_cases) (auto simp: ll_rep_def)
  with Cons assms show ?thesis
    by (auto simp: InsertAfter_def ll_rep_def same_outside_def Let_def opt_prv_def)
qed

lemma Remove_rep:
  assumes "ll_rep l k (xs @ x # ys)"
  shows "\<exists>l' k'. Remove x l k = Inr (l', k') \<and> ll_rep l' k' (xs @ ys) \<and> unlinked k' x \<and>
    same_outside (set (xs @ x # ys)) k k'"
proof (cases xs rule: rev_cases)
  case Nil
  show ?thesis
  proof (cases ys)
    case (Cons z zs)
    with Nil assms have "finish l \<noteq> Some x"
      by (cases zs rule: rev_cases) (auto simp: ll_rep_def)
    with Nil Cons assms show ?thesis
      by (auto simp: Remove_def ll_rep_def same_outside_def unlinked_def Let_def opt_prv_def opt_nxt_def)
  qed (use Nil assms in \<open>auto simp: Remove_def ll_rep_def same_outside_def unlinked_def Let_def
      opt_prv_def opt_nxt_def\<close>)
next
  case (snoc us u)
  with assms have st: "start l \<noteq> Some x"
    by (cases us) (auto simp: ll_rep_def)
  show ?thesis
  proof (cases ys)
    case Nil
    with snoc assms st show ?thesis
      by (auto simp: Remove_def ll_rep_def same_outside_def unlinked_def Let_def opt_prv_def opt_nxt_def)
  next
    case (Cons z zs)
    with snoc assms have "finish l \<noteq> Some x"
      by (cases zs rule: rev_cases) (auto simp: ll_rep_def)
    with snoc Cons assms st show ?thesis
      by (auto simp: Remove_def ll_rep_def same_outside_def unlinked_def Let_def opt_prv_def opt_nxt_def)
  qed
qed

section \<open>The contract its users rely on\<close>

text \<open>
  The slab allocator uses four of these lists and needs of each only the sequence it holds.
  \<open>intrusive_list\<close> states that contract for a list state \<open>'s\<close> (header and links together);
  \<open>swap_rep\<close>, what the allocator does when it moves a free shim, is proved from it.
\<close>

locale intrusive_list =
  fixes ins_start ins_end :: "'p \<Rightarrow> 's \<Rightarrow> 's res"
    and ins_after :: "'p \<Rightarrow> 'p \<Rightarrow> 's \<Rightarrow> 's res"
    and rem :: "'p \<Rightarrow> 's \<Rightarrow> 's res"
    and rep :: "'s \<Rightarrow> 'p list \<Rightarrow> bool"
    and unl :: "'s \<Rightarrow> 'p \<Rightarrow> bool"
  assumes start_rep: "rep s xs \<Longrightarrow> unl s x \<Longrightarrow> x \<notin> set xs \<Longrightarrow>
      \<exists>s'. ins_start x s = Inr s' \<and> rep s' (x # xs)"
    and end_rep: "rep s xs \<Longrightarrow> unl s x \<Longrightarrow> x \<notin> set xs \<Longrightarrow>
      \<exists>s'. ins_end x s = Inr s' \<and> rep s' (xs @ [x])"
    and after_rep: "rep s (xs @ p # ys) \<Longrightarrow> x \<notin> set (xs @ p # ys) \<Longrightarrow>
      \<exists>s'. ins_after p x s = Inr s' \<and> rep s' (xs @ p # x # ys)"
    and rem_rep: "rep s (xs @ x # ys) \<Longrightarrow>
      \<exists>s'. rem x s = Inr s' \<and> rep s' (xs @ ys) \<and> unl s' x"
begin

lemma swap_rep:
  assumes "rep s (xs @ p # ys)" "x \<notin> set (xs @ p # ys)"
  shows "\<exists>s'. rbind (ins_after p x s) (rem p) = Inr s' \<and> rep s' (xs @ x # ys) \<and> unl s' p"
  using after_rep [OF assms] rem_rep [of _ xs p "x # ys"] by auto

lemma end_rem:
  assumes "rep s xs" "unl s x" "x \<notin> set xs"
  shows "\<exists>s'. rbind (ins_end x s) (rem x) = Inr s' \<and> rep s' xs"
  using end_rep [OF assms] rem_rep [of _ xs x "[]"] by fastforce

end

definition on_pair :: "('p llist \<Rightarrow> 'p links \<Rightarrow> 'a) \<Rightarrow> 'p llist \<times> 'p links \<Rightarrow> 'a" where
  "on_pair f s = f (fst s) (snd s)"

interpretation ll: intrusive_list
  "\<lambda>x. on_pair (InsertAtStart x)" "\<lambda>x. on_pair (InsertAtEnd x)"
  "\<lambda>p x. on_pair (InsertAfter p x)" "\<lambda>x. on_pair (Remove x)"
  "on_pair ll_rep" "on_pair (\<lambda>_. unlinked)"
proof unfold_locales
  fix s :: "'p llist \<times> 'p links" and xs ys :: "'p list" and x p :: 'p
  show "on_pair ll_rep s xs \<Longrightarrow> on_pair (\<lambda>_. unlinked) s x \<Longrightarrow> x \<notin> set xs \<Longrightarrow>
      \<exists>s'. on_pair (InsertAtStart x) s = Inr s' \<and> on_pair ll_rep s' (x # xs)"
    using InsertAtStart_rep [of "fst s" "snd s" xs x] by (auto simp: on_pair_def)
  show "on_pair ll_rep s xs \<Longrightarrow> on_pair (\<lambda>_. unlinked) s x \<Longrightarrow> x \<notin> set xs \<Longrightarrow>
      \<exists>s'. on_pair (InsertAtEnd x) s = Inr s' \<and> on_pair ll_rep s' (xs @ [x])"
    using InsertAtEnd_rep [of "fst s" "snd s" xs x] by (auto simp: on_pair_def)
  show "on_pair ll_rep s (xs @ p # ys) \<Longrightarrow> x \<notin> set (xs @ p # ys) \<Longrightarrow>
      \<exists>s'. on_pair (InsertAfter p x) s = Inr s' \<and> on_pair ll_rep s' (xs @ p # x # ys)"
    using InsertAfter_rep [of "fst s" "snd s" xs p ys x] by (auto simp: on_pair_def)
  show "on_pair ll_rep s (xs @ x # ys) \<Longrightarrow>
      \<exists>s'. on_pair (Remove x) s = Inr s' \<and> on_pair ll_rep s' (xs @ ys) \<and> on_pair (\<lambda>_. unlinked) s' x"
    using Remove_rep [of "fst s" "snd s" xs x ys] by (auto simp: on_pair_def)
qed

end
