(* ===== verification/Slab_Allocator.thy ===== *)
theory Slab_Allocator
  imports Linked_List Doubles
begin

text \<open>
  The slab allocator of rtsrc/SlabObjectAllocator.h and .cpp, from which all garbage-collected
  objects are allocated.

  Addresses are integers, 0 is the null pointer: slabs lie below \<open>2 ^ 47\<close>, so none of the 64-bit
  address computations wraps.  The memory of the slabs is the map \<open>mem\<close> from addresses to what
  the code has stored at the start of a slot: a free shim with its length, a constructed object,
  zeroed memory, or an object whose destructor ran and whose vtable pointer was cleared.
  \<open>gcw\<close> holds the GC words of the objects.  The \<open>Slab\<close> structs live in \<open>slabs\<close>, by address, and
  the four kinds of intrusive lists use the links in the shims and in the \<open>Slab\<close> structs.
\<close>

unbundle bit_operations_syntax

section \<open>State\<close>

datatype cell = CShim int | CObj | CZero | CDead

record slab =
  sizeCategory :: int
  freeSpaceList :: "int llist"
  currentObjects :: int

record size_category =
  cat_size :: int
  allSlabs :: "int llist"
  freeSlabs :: "int llist"
  totalObjects :: int

record allocator =
  slab_size :: int
  mem :: "int \<Rightarrow> cell"
  gcw :: "int \<Rightarrow> u64"
  shim_links :: "int links"
  all_links :: "int links"
  free_links :: "int links"
  slabs :: "int \<Rightarrow> slab"
  m_sizes :: "(int \<times> size_category) list"
  m_nextSlabAddr :: int

text \<open>The sizes of the C++ structs on x86-64, which the \<open>static_assert\<close>s fix or imply.\<close>

definition sizeof_Obj :: int where "sizeof_Obj = 24"
definition sizeof_Slab :: int where "sizeof_Slab = 80"
definition sizeof_Value :: int where "sizeof_Value = 8"

definition PREFERRED_SIZES :: "int list" where
  "PREFERRED_SIZES = map (\<lambda>n. sizeof_Obj + sizeof_Value * n) [0, 1, 2, 3, 4, 5, 6, 8, 10, 12, 16]"

section \<open>Slab geometry\<close>

text \<open>The constructor: \<open>while (globalSlabSize < 16 * 1024) globalSlabSize += getPageSize()\<close>.\<close>

function grow_slab_size :: "nat \<Rightarrow> nat \<Rightarrow> nat" where
  "grow_slab_size page sz =
     (if 0 < page \<and> sz < 16 * 1024 then grow_slab_size page (sz + page) else sz)"
  by pat_completeness auto
termination
  by (relation "measure (\<lambda>(page, sz). 16 * 1024 - sz)") auto

declare grow_slab_size.simps [simp del]

definition GetUsableSize :: "int \<Rightarrow> int \<Rightarrow> int" where
  "GetUsableSize gss sz =
     (let totalAvailable = gss - sizeof_Slab; wasted = totalAvailable mod sz
      in totalAvailable - wasted)"

definition GetNumSlots :: "int \<Rightarrow> int \<Rightarrow> int" where
  "GetNumSlots gss sz = (gss - sizeof_Slab) div sz"

definition GetSectionBaseAddress :: "int \<Rightarrow> int \<Rightarrow> int" where
  "GetSectionBaseAddress gss sl = sl + sizeof_Slab - gss"

definition roundToAlignment :: "int \<Rightarrow> int" where
  "roundToAlignment value =
     (let alignment = 8; overhang = value mod alignment
      in if overhang \<noteq> 0 then value + (alignment - overhang) else value)"

section \<open>Size categories\<close>

text \<open>\<open>std::lower_bound\<close> on a sorted sequence: its first element that is not less.\<close>

definition lower_bound_key :: "int \<Rightarrow> (int \<times> 'v) list \<Rightarrow> (int \<times> 'v) option" where
  "lower_bound_key x kvs = find (\<lambda>(k, v). x \<le> k) kvs"

fun insert_key :: "int \<Rightarrow> 'v \<Rightarrow> (int \<times> 'v) list \<Rightarrow> (int \<times> 'v) list" where
  "insert_key k v [] = [(k, v)]"
| "insert_key k v ((k', v') # kvs) =
     (if k < k' then (k, v) # (k', v') # kvs
      else if k = k' then (k, v) # kvs
      else (k', v') # insert_key k v kvs)"

text \<open>\<open>std::bit_ceil\<close>: the smallest power of two that is not less.\<close>

function bit_ceil_from :: "nat \<Rightarrow> nat \<Rightarrow> nat" where
  "bit_ceil_from p n = (if 0 < p \<and> p < n then bit_ceil_from (2 * p) n else p)"
  by pat_completeness auto
termination
  by (relation "measure (\<lambda>(p, n). n - p)") auto

declare bit_ceil_from.simps [simp del]

definition bit_ceil :: "nat \<Rightarrow> nat" where
  "bit_ceil n = bit_ceil_from 1 n"

text \<open>
  \<open>(int)((float)powerOfTwo / 1.414)\<close>: a power of two is exact as a float, and the division is one
  of doubles; \<open>D1414\<close> is the double nearest to 1.414.
\<close>

definition D1414 :: double where
  "D1414 = 0x3FF69FBE76C8B439"

definition in_between :: "int \<Rightarrow> int" where
  "in_between powerOfTwo = dtrunc_int (ddiv (double_of_int powerOfTwo) D1414)"

definition best_size :: "int \<Rightarrow> int" where
  "best_size sz =
     (let powerOfTwo = int (bit_ceil (nat sz));
          inBetween = roundToAlignment (in_between powerOfTwo);
          bestSize = (if inBetween \<ge> sz then inBetween else powerOfTwo)
      in case find (\<lambda>p. sz \<le> p) PREFERRED_SIZES of
           Some lb \<Rightarrow> if lb < bestSize then lb else bestSize
         | None \<Rightarrow> bestSize)"

definition new_category :: "int \<Rightarrow> size_category" where
  "new_category sz =
     \<lparr>cat_size = sz, allSlabs = empty_llist, freeSlabs = empty_llist, totalObjects = 0\<rparr>"

definition GetOrCreateBestCategory :: "int \<Rightarrow> allocator \<Rightarrow> int res \<times> allocator" where
  "GetOrCreateBestCategory sz a =
     (if sz < sizeof_Obj then (Inl (WrenAbort ''Invalid allocation request size''), a)
      else if (case lower_bound_key sz (m_sizes a) of Some (k, c) \<Rightarrow> k = sz | None \<Rightarrow> False)
      then (Inr sz, a)
      else let bestSize = best_size sz in
        if \<not> bestSize \<ge> sz then (Inl Fatal, a)
        else if map_of (m_sizes a) bestSize \<noteq> None then (Inr bestSize, a)
        else (Inr bestSize,
              a\<lparr>m_sizes := insert_key bestSize (new_category bestSize) (m_sizes a)\<rparr>))"

definition category :: "allocator \<Rightarrow> int \<Rightarrow> size_category" where
  "category a k = the (map_of (m_sizes a) k)"

definition set_category :: "int \<Rightarrow> size_category \<Rightarrow> allocator \<Rightarrow> allocator" where
  "set_category k c a = a\<lparr>m_sizes := insert_key k c (m_sizes a)\<rparr>"

section \<open>Shims and slabs\<close>

definition set_cell :: "int \<Rightarrow> cell \<Rightarrow> allocator \<Rightarrow> allocator" where
  "set_cell p c a = a\<lparr>mem := (mem a)(p := c)\<rparr>"

text \<open>\<open>*shim = FreeShim{.length = n, .magic = MAGIC_VALUE}\<close> also clears the shim's links.\<close>

definition write_shim :: "int \<Rightarrow> int \<Rightarrow> allocator \<Rightarrow> allocator" where
  "write_shim p n a =
     (set_cell p (CShim n) a)\<lparr>shim_links := set_prv p None (set_nxt p None (shim_links a))\<rparr>"

definition set_shims :: "int \<Rightarrow> int llist \<times> int links \<Rightarrow> allocator \<Rightarrow> allocator" where
  "set_shims sl lk a =
     a\<lparr>slabs := (slabs a)(sl := (slabs a sl)\<lparr>freeSpaceList := fst lk\<rparr>), shim_links := snd lk\<rparr>"

definition RemoveFromFreeSlabList :: "int \<Rightarrow> allocator \<Rightarrow> allocator res" where
  "RemoveFromFreeSlabList sl a =
     (if start (freeSpaceList (slabs a sl)) \<noteq> None then Inl Fatal
      else
        let k = free_links a;
            k = opt_prv (nxt k sl) (prv k sl) k;
            k = opt_nxt (prv k sl) (nxt k sl) k;
            key = sizeCategory (slabs a sl);
            c = category a key
        in rbind (Remove sl (freeSlabs c) k) (\<lambda>(l, k).
             Inr (set_category key (c\<lparr>freeSlabs := l\<rparr>) (a\<lparr>free_links := k\<rparr>))))"

definition SwapOrDeleteShim :: "int \<Rightarrow> int \<Rightarrow> int option \<Rightarrow> allocator \<Rightarrow> allocator res" where
  "SwapOrDeleteShim sl shim replacement a =
     rbind (case replacement of
              Some r \<Rightarrow> InsertAfter shim r (freeSpaceList (slabs a sl)) (shim_links a)
            | None \<Rightarrow> Inr (freeSpaceList (slabs a sl), shim_links a)) (\<lambda>(l, k).
     rbind (Remove shim l k) (\<lambda>lk.
       let a = set_shims sl lk a
       in if start (freeSpaceList (slabs a sl)) = None then RemoveFromFreeSlabList sl a else Inr a))"

text \<open>
  \<open>CreateSlab\<close> asks the operating system for a slab at an address of its own choosing.  The list
  \<open>tries\<close> holds, for each attempt, the random number the code would draw and what \<open>mmap\<close> answers;
  the code tries again after a collision, and \<open>None\<close> says that the given attempts did not
  suffice.
\<close>

datatype mmap_result = Mapped | Collided | MapFailed

definition slab_address :: "int \<Rightarrow> int \<Rightarrow> u64 \<Rightarrow> int" where
  "slab_address gss next_addr random64 =
     (if next_addr = 0 then uint (drop_bit 17 random64 AND NOT (word_of_int (gss - 1)))
      else next_addr)"

fun CreateSlab :: "int \<Rightarrow> (u64 \<times> mmap_result) list \<Rightarrow> allocator \<Rightarrow> (int \<times> allocator) res option" where
  "CreateSlab key [] a = None"
| "CreateSlab key ((random64, answer) # tries) a =
     (let addr = slab_address (slab_size a) (m_nextSlabAddr a) random64
      in case answer of
        Collided \<Rightarrow> CreateSlab key tries (a\<lparr>m_nextSlabAddr := 0\<rparr>)
      | MapFailed \<Rightarrow> Some (Inl Fatal)
      | Mapped \<Rightarrow>
          let sl = addr + slab_size a - sizeof_Slab;
              a = a\<lparr>m_nextSlabAddr := addr + slab_size a,
                    slabs := (slabs a)(sl := \<lparr>sizeCategory = key, freeSpaceList = empty_llist,
                                             currentObjects = 0\<rparr>),
                    all_links := set_prv sl None (set_nxt sl None (all_links a)),
                    free_links := set_prv sl None (set_nxt sl None (free_links a))\<rparr>;
              c = category a key
          in Some (
            rbind (InsertAtEnd sl (allSlabs c) (all_links a)) (\<lambda>(l1, k1).
            rbind (InsertAtEnd sl (freeSlabs c) (free_links a)) (\<lambda>(l2, k2).
            let a = set_category key (c\<lparr>allSlabs := l1, freeSlabs := l2\<rparr>)
                      (a\<lparr>all_links := k1, free_links := k2\<rparr>);
                a = write_shim addr (GetUsableSize (slab_size a) key) a
            in rbind (InsertAtStart addr (freeSpaceList (slabs a sl)) (shim_links a)) (\<lambda>lk.
               Inr (sl, set_shims sl lk a))))))"

section \<open>Allocation\<close>

text \<open>The part of \<open>AllocateRaw\<close> after a slab with free space has been found.\<close>

definition allocate_in_slab :: "int \<Rightarrow> int \<Rightarrow> allocator \<Rightarrow> int res \<times> allocator" where
  "allocate_in_slab key sl a =
     (if prv (free_links a) sl \<noteq> None then (Inl Fatal, a)
      else case start (freeSpaceList (slabs a sl)) of
        None \<Rightarrow> (Inl Fatal, a)
      | Some freeShim \<Rightarrow>
        if prv (shim_links a) freeShim \<noteq> None then (Inl Fatal, a)
        else case mem a freeShim of
          CShim len \<Rightarrow>
            (let offset = freeShim - GetSectionBaseAddress (slab_size a) sl in
             if offset < 0 \<or> offset mod key \<noteq> 0 then (Inl (WrenAbort ''slab free shim misaligned''), a)
             else
               let newLength = len - key in
               if newLength \<noteq> 0 \<and> (newLength < 0 \<or> newLength mod key \<noteq> 0)
               then (Inl (WrenAbort ''slab free shim length misaligned''), a)
               else
                 case (if newLength = 0 then SwapOrDeleteShim sl freeShim None a
                       else SwapOrDeleteShim sl freeShim (Some (freeShim + key))
                              (write_shim (freeShim + key) newLength a)) of
                   Inl e \<Rightarrow> (Inl e, a)
                 | Inr a \<Rightarrow>
                     (Inr freeShim,
                      set_cell freeShim CZero
                        (a\<lparr>gcw := (gcw a)(freeShim := 0), slabs := (slabs a)(sl := (slabs a sl)
                            \<lparr>currentObjects := currentObjects (slabs a sl) + 1\<rparr>)\<rparr>)))
        | _ \<Rightarrow> (Inl Undefined, a))"

definition AllocateRaw :: "int \<Rightarrow> (u64 \<times> mmap_result) list \<Rightarrow> allocator \<Rightarrow> (int res \<times> allocator) option"
where
  "AllocateRaw requestedSize tries a =
     (case GetOrCreateBestCategory requestedSize a of
        (Inl e, a) \<Rightarrow> Some (Inl e, a)
      | (Inr key, a) \<Rightarrow>
          if \<not> cat_size (category a key) \<ge> requestedSize then Some (Inl Fatal, a)
          else case start (freeSlabs (category a key)) of
            Some sl \<Rightarrow> Some (allocate_in_slab key sl a)
          | None \<Rightarrow>
              (case CreateSlab key tries a of
                 None \<Rightarrow> None
               | Some (Inl e) \<Rightarrow> Some (Inl e, a)
               | Some (Inr (sl, a)) \<Rightarrow> Some (allocate_in_slab key sl a)))"

text \<open>
  \<open>AllocateNative\<close> and \<open>AllocateManaged\<close> construct the object in place; the base constructor
  \<open>Obj::Obj\<close> sets its GC word to \<open>INITIAL_GC_WORD\<close>.
\<close>

definition INITIAL_GC_WORD :: u64 where "INITIAL_GC_WORD = 1"

definition construct :: "int \<Rightarrow> allocator \<Rightarrow> allocator" where
  "construct p a = (set_cell p CObj a)\<lparr>gcw := (gcw a)(p := INITIAL_GC_WORD)\<rparr>"

definition AllocateNative :: "int \<Rightarrow> (u64 \<times> mmap_result) list \<Rightarrow> allocator \<Rightarrow> (int res \<times> allocator) option"
where
  "AllocateNative sizeof_T tries a =
     (case AllocateRaw sizeof_T tries a of
        Some (Inr p, a) \<Rightarrow> Some (Inr p, construct p a)
      | r \<Rightarrow> r)"

section \<open>The sweep\<close>

text \<open>\<open>lastFreeShim->length += n\<close>\<close>

definition grow_shim :: "int \<Rightarrow> int \<Rightarrow> allocator \<Rightarrow> allocator" where
  "grow_shim p n a = (case mem a p of CShim m \<Rightarrow> set_cell p (CShim (m + n)) a | _ \<Rightarrow> a)"

text \<open>
  The loop of \<open>DeallocateUnreachableObjectsForSlab\<close>, with fuel; \<open>None\<close> when it does not suffice.
  Running the destructor of memory that holds no constructed object is undefined.
\<close>

fun sweep_loop ::
  "nat \<Rightarrow> int \<Rightarrow> u64 \<Rightarrow> int \<Rightarrow> int \<Rightarrow> int option \<Rightarrow> int \<Rightarrow> allocator \<Rightarrow> (int \<times> allocator) res option"
where
  "sweep_loop 0 sl reachable ptr endPtr lastFreeShim objectCount a = None"
| "sweep_loop (Suc fuel) sl reachable ptr endPtr lastFreeShim objectCount a =
     (let sz = sizeCategory (slabs a sl) in
      if ptr = endPtr then Some (Inr (objectCount, a))
      else if \<not> ptr < endPtr then Some (Inl Fatal)
      else case mem a ptr of
        CShim len \<Rightarrow>
          (case lastFreeShim of
             Some lf \<Rightarrow>
               (case Remove ptr (freeSpaceList (slabs a sl)) (shim_links a) of
                  Inl e \<Rightarrow> Some (Inl e)
                | Inr lk \<Rightarrow> sweep_loop fuel sl reachable (ptr + len) endPtr (Some lf) objectCount
                              (set_shims sl lk (grow_shim lf len a)))
           | None \<Rightarrow> sweep_loop fuel sl reachable (ptr + len) endPtr (Some ptr) objectCount a)
      | c \<Rightarrow>
          if gcw a ptr = reachable
          then sweep_loop fuel sl reachable (ptr + sz) endPtr None (objectCount + 1) a
          else if c \<noteq> CObj then Some (Inl Undefined)
          else case lastFreeShim of
            Some lf \<Rightarrow> sweep_loop fuel sl reachable (ptr + sz) endPtr (Some lf) objectCount
                         (grow_shim lf sz (set_cell ptr CDead a))
          | None \<Rightarrow>
              let a = write_shim ptr sz (set_cell ptr CDead a) in
              case InsertAtEnd ptr (freeSpaceList (slabs a sl)) (shim_links a) of
                Inl e \<Rightarrow> Some (Inl e)
              | Inr lk \<Rightarrow> sweep_loop fuel sl reachable (ptr + sz) endPtr (Some ptr) objectCount
                            (set_shims sl lk a))"

definition DeallocateUnreachableObjectsForSlab ::
  "nat \<Rightarrow> int \<Rightarrow> u64 \<Rightarrow> allocator \<Rightarrow> allocator res option"
where
  "DeallocateUnreachableObjectsForSlab fuel sl reachable a =
     (let ptr = GetSectionBaseAddress (slab_size a) sl;
          endPtr = ptr + GetUsableSize (slab_size a) (sizeCategory (slabs a sl))
      in case sweep_loop fuel sl reachable ptr endPtr None 0 a of
           None \<Rightarrow> None
         | Some (Inl e) \<Rightarrow> Some (Inl e)
         | Some (Inr (objectCount, a)) \<Rightarrow>
             let a = a\<lparr>slabs := (slabs a)(sl := (slabs a sl)\<lparr>currentObjects := objectCount\<rparr>)\<rparr>;
                 key = sizeCategory (slabs a sl);
                 c = category a key;
                 wasMarkedFree = (start (freeSlabs c) = Some sl \<or> prv (free_links a) sl \<noteq> None)
             in if \<not> wasMarkedFree \<and> start (freeSpaceList (slabs a sl)) \<noteq> None
                then Some (rbind (InsertAtEnd sl (freeSlabs c) (free_links a)) (\<lambda>(l, k).
                       Inr (set_category key (c\<lparr>freeSlabs := l\<rparr>) (a\<lparr>free_links := k\<rparr>))))
                else Some (Inr a))"

text \<open>The two nested loops of \<open>DeallocateUnreachableObjects\<close>.\<close>

fun sweep_slabs :: "nat \<Rightarrow> nat \<Rightarrow> int option \<Rightarrow> u64 \<Rightarrow> allocator \<Rightarrow> allocator res option" where
  "sweep_slabs fuel n None reachable a = Some (Inr a)"
| "sweep_slabs fuel 0 (Some sl) reachable a = None"
| "sweep_slabs fuel (Suc n) (Some sl) reachable a =
     (case DeallocateUnreachableObjectsForSlab fuel sl reachable a of
        Some (Inr a) \<Rightarrow> sweep_slabs fuel n (nxt (all_links a) sl) reachable a
      | r \<Rightarrow> r)"

fun sweep_categories :: "nat \<Rightarrow> int list \<Rightarrow> u64 \<Rightarrow> allocator \<Rightarrow> allocator res option" where
  "sweep_categories fuel [] reachable a = Some (Inr a)"
| "sweep_categories fuel (key # keys) reachable a =
     (case sweep_slabs fuel fuel (start (allSlabs (category a key))) reachable a of
        Some (Inr a) \<Rightarrow> sweep_categories fuel keys reachable a
      | r \<Rightarrow> r)"

definition DeallocateUnreachableObjects :: "nat \<Rightarrow> u64 \<Rightarrow> allocator \<Rightarrow> allocator res option" where
  "DeallocateUnreachableObjects fuel reachable a =
     sweep_categories fuel (map fst (m_sizes a)) reachable a"

end
