(* ===== verification/Slab_Layout.thy ===== *)
theory Slab_Layout
  imports Slab_Allocator
begin

text \<open>
  What the memory of one slab looks like, and what the sweep does to it.  A slab is divided into
  regions: used slots, and runs of free slots with a free shim at their start.  \<open>layout\<close> says that
  the memory has a given division, \<open>free_addrs\<close> and \<open>used_addrs\<close> list the addresses of its shims
  and of its objects.  \<open>sweep_loop_correct\<close> is the main lemma: the sweep keeps the objects that
  carry the reachable GC word, frees all others, and merges neighbouring free space.
\<close>

datatype region = Free int | Used

fun region_width :: "int \<Rightarrow> region \<Rightarrow> int" where
  "region_width sz (Free n) = n * sz"
| "region_width sz Used = sz"

fun width :: "int \<Rightarrow> region list \<Rightarrow> int" where
  "width sz [] = 0"
| "width sz (r # rs) = region_width sz r + width sz rs"

fun region_ok :: "(int \<Rightarrow> cell) \<Rightarrow> int \<Rightarrow> int \<Rightarrow> region \<Rightarrow> bool" where
  "region_ok m sz p (Free n) \<longleftrightarrow> 0 < n \<and> m p = CShim (n * sz)"
| "region_ok m sz p Used \<longleftrightarrow> m p = CObj"

fun layout :: "(int \<Rightarrow> cell) \<Rightarrow> int \<Rightarrow> int \<Rightarrow> region list \<Rightarrow> bool" where
  "layout m sz p [] \<longleftrightarrow> True"
| "layout m sz p (r # rs) \<longleftrightarrow> region_ok m sz p r \<and> layout m sz (p + region_width sz r) rs"

fun free_addrs :: "int \<Rightarrow> int \<Rightarrow> region list \<Rightarrow> int list" where
  "free_addrs sz p [] = []"
| "free_addrs sz p (r # rs) =
     (case r of Free n \<Rightarrow> [p] | Used \<Rightarrow> []) @ free_addrs sz (p + region_width sz r) rs"

fun used_addrs :: "int \<Rightarrow> int \<Rightarrow> region list \<Rightarrow> int list" where
  "used_addrs sz p [] = []"
| "used_addrs sz p (r # rs) =
     (case r of Free n \<Rightarrow> [] | Used \<Rightarrow> [p]) @ used_addrs sz (p + region_width sz r) rs"

fun is_free :: "region \<Rightarrow> bool" where
  "is_free (Free n) = True"
| "is_free Used = False"

text \<open>No two free regions are neighbours.\<close>

fun no_adj :: "region list \<Rightarrow> bool" where
  "no_adj (r # s # rs) \<longleftrightarrow> \<not> (is_free r \<and> is_free s) \<and> no_adj (s # rs)"
| "no_adj rs \<longleftrightarrow> True"

lemma width_append [simp]: "width sz (rs @ ss) = width sz rs + width sz ss"
  by (induction rs) auto

lemma layout_append [simp]:
  "layout m sz p (rs @ ss) \<longleftrightarrow> layout m sz p rs \<and> layout m sz (p + width sz rs) ss"
  by (induction rs arbitrary: p) (auto simp: add.assoc)

lemma free_addrs_append [simp]:
  "free_addrs sz p (rs @ ss) = free_addrs sz p rs @ free_addrs sz (p + width sz rs) ss"
  by (induction rs arbitrary: p) (auto simp: add.assoc)

lemma used_addrs_append [simp]:
  "used_addrs sz p (rs @ ss) = used_addrs sz p rs @ used_addrs sz (p + width sz rs) ss"
  by (induction rs arbitrary: p) (auto simp: add.assoc)

lemma no_adj_snoc: "no_adj (rs @ [r]) \<longleftrightarrow> no_adj rs \<and> (rs = [] \<or> \<not> (is_free (last rs) \<and> is_free r))"
  by (induction rs rule: no_adj.induct) auto

lemma region_width_pos: "region_ok m sz p r \<Longrightarrow> 0 < sz \<Longrightarrow> sz \<le> region_width sz r"
  by (cases r) auto

lemma width_nonneg: "layout m sz p rs \<Longrightarrow> 0 < sz \<Longrightarrow> 0 \<le> width sz rs"
proof (induction rs arbitrary: p)
  case (Cons r rs)
  then show ?case using region_width_pos [of m sz p r] by fastforce
qed simp

lemma addrs_range:
  assumes "layout m sz p rs" "0 < sz" "x \<in> set (free_addrs sz p rs) \<union> set (used_addrs sz p rs)"
  shows "p \<le> x \<and> x + sz \<le> p + width sz rs"
  using assms
proof (induction rs arbitrary: p)
  case (Cons r rs)
  note w = region_width_pos [of m sz p r]
  have "0 \<le> width sz rs" using Cons.prems width_nonneg [of m sz _ rs] by auto
  moreover have "x = p \<or> x \<in> set (free_addrs sz (p + region_width sz r) rs) \<union>
      set (used_addrs sz (p + region_width sz r) rs)"
    using Cons.prems(3) by (cases r) auto
  ultimately show ?case using Cons.IH Cons.prems(1,2) w by fastforce
qed simp

lemma layout_frame:
  assumes "layout m sz p rs"
    "\<And>x. x \<in> set (free_addrs sz p rs) \<union> set (used_addrs sz p rs) \<Longrightarrow> m' x = m x"
  shows "layout m' sz p rs"
  using assms
proof (induction rs arbitrary: p)
  case (Cons r rs)
  then show ?case by (cases r) auto
qed simp

lemma layout_upd_outside:
  assumes "layout m sz p rs" "0 < sz" "q < p \<or> p + width sz rs \<le> q"
  shows "layout (m(q := c)) sz p rs"
proof (rule layout_frame [OF assms(1)])
  fix x
  assume "x \<in> set (free_addrs sz p rs) \<union> set (used_addrs sz p rs)"
  with addrs_range [OF assms(1,2)] assms(2,3) show "(m(q := c)) x = m x" by fastforce
qed

lemma distinct_addrs: "layout m sz p rs \<Longrightarrow> 0 < sz \<Longrightarrow> distinct (free_addrs sz p rs)
    \<and> distinct (used_addrs sz p rs) \<and> set (free_addrs sz p rs) \<inter> set (used_addrs sz p rs) = {}"
proof (induction rs arbitrary: p)
  case (Cons r rs)
  have "p \<notin> set (free_addrs sz (p + region_width sz r) rs) \<union>
      set (used_addrs sz (p + region_width sz r) rs)"
    using addrs_range [of m sz "p + region_width sz r" rs p] Cons.prems
      region_width_pos [of m sz p r] by fastforce
  with Cons show ?case by (cases r) auto
qed simp

text \<open>The free region at the end of the part already swept, which \<open>lastFreeShim\<close> points to.\<close>

definition last_free :: "int \<Rightarrow> int \<Rightarrow> region list \<Rightarrow> int option" where
  "last_free sz base ds =
     (if ds \<noteq> [] \<and> is_free (last ds) then Some (base + width sz (butlast ds)) else None)"

lemma last_free_simps [simp]:
  "last_free sz base [] = None"
  "last_free sz base (ds @ [Free n]) = Some (base + width sz ds)"
  "last_free sz base (ds @ [Used]) = None"
  by (simp_all add: last_free_def)

lemma last_free_Some:
  assumes "last_free sz base ds = Some lf"
  obtains ds0 n where "ds = ds0 @ [Free n]" "lf = base + width sz ds0"
proof (cases ds rule: rev_cases)
  case (snoc ds0 r)
  with assms that show ?thesis by (cases r) auto
qed (use assms in simp)

lemma last_free_None:
  "last_free sz base ds = None \<Longrightarrow> ds = [] \<or> \<not> is_free (last ds)"
  by (auto simp: last_free_def split: if_splits)

section \<open>What one slab's operations leave alone\<close>

text \<open>
  \<open>slab_frame lo hi sl a a'\<close>: from \<open>a\<close> to \<open>a'\<close>, only the memory and the shim links at addresses
  in \<open>[lo, hi)\<close> and the free space list of the slab \<open>sl\<close> may have changed.
\<close>

definition slab_frame :: "int \<Rightarrow> int \<Rightarrow> int \<Rightarrow> allocator \<Rightarrow> allocator \<Rightarrow> bool" where
  "slab_frame lo hi sl a a' \<longleftrightarrow>
     (\<exists>m k l. a' = a\<lparr>mem := m, shim_links := k,
                     slabs := (slabs a)(sl := (slabs a sl)\<lparr>freeSpaceList := l\<rparr>)\<rparr> \<and>
       (\<forall>x. x \<notin> {lo..<hi} \<longrightarrow> m x = mem a x) \<and> same_outside {lo..<hi} (shim_links a) k)"

lemma slab_frame_refl [simp]: "slab_frame lo hi sl a a"
  unfolding slab_frame_def
  by (intro exI [of _ "mem a"] exI [of _ "shim_links a"] exI [of _ "freeSpaceList (slabs a sl)"])
    (simp add: same_outside_def)

lemma slab_frame_trans:
  assumes "slab_frame lo hi sl a b" "slab_frame lo hi sl b c"
  shows "slab_frame lo hi sl a c"
proof -
  obtain m k l where b: "b = a\<lparr>mem := m, shim_links := k,
        slabs := (slabs a)(sl := (slabs a sl)\<lparr>freeSpaceList := l\<rparr>)\<rparr>"
    and 1: "\<forall>x. x \<notin> {lo..<hi} \<longrightarrow> m x = mem a x" "same_outside {lo..<hi} (shim_links a) k"
    using assms(1) unfolding slab_frame_def by blast
  obtain m' k' l' where c: "c = b\<lparr>mem := m', shim_links := k',
        slabs := (slabs b)(sl := (slabs b sl)\<lparr>freeSpaceList := l'\<rparr>)\<rparr>"
    and 2: "\<forall>x. x \<notin> {lo..<hi} \<longrightarrow> m' x = mem b x" "same_outside {lo..<hi} (shim_links b) k'"
    using assms(2) unfolding slab_frame_def by blast
  show ?thesis unfolding slab_frame_def
    using 1 2
    by (intro exI [of _ m'] exI [of _ k'] exI [of _ l']) (auto simp: b c same_outside_def)
qed

lemma slab_frame_fields:
  assumes "slab_frame lo hi sl a a'"
  shows "slab_size a' = slab_size a" "gcw a' = gcw a" "all_links a' = all_links a"
    "free_links a' = free_links a" "m_sizes a' = m_sizes a" "m_nextSlabAddr a' = m_nextSlabAddr a"
    "sizeCategory (slabs a' t) = sizeCategory (slabs a t)"
    "currentObjects (slabs a' t) = currentObjects (slabs a t)"
    "t \<noteq> sl \<Longrightarrow> slabs a' t = slabs a t"
    "x \<notin> {lo..<hi} \<Longrightarrow> mem a' x = mem a x"
    "same_outside {lo..<hi} (shim_links a) (shim_links a')"
  using assms unfolding slab_frame_def by auto

lemma slab_frame_set_cell: "x \<in> {lo..<hi} \<Longrightarrow> slab_frame lo hi sl a (set_cell x c a)"
  unfolding slab_frame_def set_cell_def
  by (rule exI [of _ "(mem a)(x := c)"], rule exI [of _ "shim_links a"],
      rule exI [of _ "freeSpaceList (slabs a sl)"]) (auto simp: same_outside_def)

lemma slab_frame_set_shims:
  "same_outside {lo..<hi} (shim_links a) (snd lk) \<Longrightarrow> slab_frame lo hi sl a (set_shims sl lk a)"
  unfolding slab_frame_def set_shims_def
  by (rule exI [of _ "mem a"], rule exI [of _ "snd lk"], rule exI [of _ "fst lk"]) auto

lemma slab_frame_write_shim: "x \<in> {lo..<hi} \<Longrightarrow> slab_frame lo hi sl a (write_shim x n a)"
  unfolding slab_frame_def write_shim_def set_cell_def
  by (rule exI [of _ "(mem a)(x := CShim n)"],
      rule exI [of _ "set_prv x None (set_nxt x None (shim_links a))"],
      rule exI [of _ "freeSpaceList (slabs a sl)"]) (auto simp: same_outside_def)

lemma same_outside_mono: "same_outside A k k' \<Longrightarrow> A \<subseteq> B \<Longrightarrow> same_outside B k k'"
  by (auto simp: same_outside_def)

lemma upd_selectors [simp]:
  "mem (set_cell p c a) = (mem a)(p := c)" "shim_links (set_cell p c a) = shim_links a"
  "slabs (set_cell p c a) = slabs a" "gcw (set_cell p c a) = gcw a"
  "mem (write_shim p n a) = (mem a)(p := CShim n)"
  "shim_links (write_shim p n a) = set_prv p None (set_nxt p None (shim_links a))"
  "slabs (write_shim p n a) = slabs a" "gcw (write_shim p n a) = gcw a"
  "mem (set_shims sl lk a) = mem a" "shim_links (set_shims sl lk a) = snd lk"
  "slabs (set_shims sl lk a) = (slabs a)(sl := (slabs a sl)\<lparr>freeSpaceList := fst lk\<rparr>)"
  "gcw (set_shims sl lk a) = gcw a"
  by (simp_all add: set_cell_def write_shim_def set_shims_def)

lemma grow_shim_selectors [simp]:
  "gcw (grow_shim p n a) = gcw a" "slabs (grow_shim p n a) = slabs a"
  "shim_links (grow_shim p n a) = shim_links a"
  by (simp_all add: grow_shim_def split: cell.split)

lemma grow_shim_eq: "mem a p = CShim m \<Longrightarrow> grow_shim p n a = set_cell p (CShim (m + n)) a"
  by (simp add: grow_shim_def)

section \<open>The steps of the sweep\<close>

definition sweeping ::
  "int \<Rightarrow> int \<Rightarrow> int \<Rightarrow> region list \<Rightarrow> region list \<Rightarrow> int list \<Rightarrow> allocator \<Rightarrow> bool"
where
  "sweeping sl sz base ds rs fs a \<longleftrightarrow>
     0 < sz \<and> sizeCategory (slabs a sl) = sz \<and> layout (mem a) sz base (ds @ rs) \<and> no_adj ds \<and>
     ll_rep (freeSpaceList (slabs a sl)) (shim_links a) fs \<and>
     set fs = set (free_addrs sz base (ds @ rs))"

lemma sweeping_range:
  assumes "sweeping sl sz base ds rs fs a"
  shows "set fs \<subseteq> {base..<base + width sz (ds @ rs)}"
proof
  fix x
  assume "x \<in> set fs"
  with assms have "x \<in> set (free_addrs sz base (ds @ rs))" "layout (mem a) sz base (ds @ rs)" "0 < sz"
    by (auto simp: sweeping_def)
  then show "x \<in> {base..<base + width sz (ds @ rs)}" using addrs_range [of "mem a" sz base "ds @ rs" x]
    by auto
qed

lemma sweep_step_shim_first:
  "sweeping sl sz base ds (Free n # rs) fs a \<Longrightarrow> last_free sz base ds = None \<Longrightarrow>
   sweeping sl sz base (ds @ [Free n]) rs fs a"
  using last_free_None [of sz base ds] by (auto simp: sweeping_def no_adj_snoc)

lemma sweep_step_live:
  "sweeping sl sz base ds (Used # rs) fs a \<Longrightarrow> sweeping sl sz base (ds @ [Used]) rs fs a"
  by (auto simp: sweeping_def no_adj_snoc)

text \<open>Growing the last free region of the swept part by \<open>n\<close> slots, up to the next region.\<close>

lemma layout_grow:
  assumes l: "layout m sz base ((ds @ [Free k]) @ r # rs)" and sz: "0 < sz"
    and w: "region_width sz r = n * sz" and n: "0 < n"
    and m': "m' (base + width sz ds) = CShim ((k + n) * sz)"
    and same: "\<And>x. x \<noteq> base + width sz ds \<Longrightarrow> x \<noteq> base + width sz ds + k * sz \<Longrightarrow> m' x = m x"
  shows "layout m' sz base ((ds @ [Free (k + n)]) @ rs)"
proof -
  let ?lf = "base + width sz ds" and ?q = "base + width sz ds + k * sz"
  have k: "0 < k" using l by simp
  then have kk: "sz \<le> k * sz" using sz by simp
  have nn: "sz \<le> n * sz" using n sz by simp
  have "layout m' sz base ds"
  proof (rule layout_frame [of m])
    fix x
    assume "x \<in> set (free_addrs sz base ds) \<union> set (used_addrs sz base ds)"
    with addrs_range [of m sz base ds x] l sz have "x < ?lf" by auto
    then show "m' x = m x" using kk sz by (intro same) linarith+
  qed (use l in simp)
  moreover have "layout m' sz (?q + n * sz) rs"
  proof (rule layout_frame [of m])
    fix x
    assume "x \<in> set (free_addrs sz (?q + n * sz) rs) \<union> set (used_addrs sz (?q + n * sz) rs)"
    with addrs_range [of m sz "?q + n * sz" rs x] l sz w have "?q + n * sz \<le> x"
      by (auto simp: add.assoc)
    then show "m' x = m x" using kk nn sz by (intro same) linarith+
  qed (use l w in \<open>simp add: add.assoc\<close>)
  ultimately show ?thesis using k n m' by (simp add: algebra_simps)
qed

lemma free_addrs_bounds:
  assumes "layout m sz base (ds @ r # rs)" "0 < sz" "x \<in> set (free_addrs sz base ds)"
  shows "x < base + width sz ds"
  using addrs_range [of m sz base ds x] assms by auto

lemma free_addrs_rest_bounds:
  assumes "layout m sz base (ds @ r # rs)" "0 < sz"
    "x \<in> set (free_addrs sz (base + width sz ds + region_width sz r) rs)"
  shows "base + width sz ds < x"
  using addrs_range [of m sz "base + width sz ds + region_width sz r" rs x] assms
    region_width_pos [of m sz "base + width sz ds" r] by auto

lemma sweep_step_merge:
  assumes sw: "sweeping sl sz base (ds @ [Free k]) (Free n # rs) fs a"
  defines "lf \<equiv> base + width sz ds" and "ptr \<equiv> base + width sz (ds @ [Free k])"
  shows "\<exists>lk fs'. Remove ptr (freeSpaceList (slabs a sl)) (shim_links a) = Inr lk \<and>
    sweeping sl sz base (ds @ [Free (k + n)]) rs fs' (set_shims sl lk (grow_shim lf (n * sz) a)) \<and>
    slab_frame base (base + width sz ((ds @ [Free k]) @ Free n # rs)) sl a
      (set_shims sl lk (grow_shim lf (n * sz) a))"
proof -
  let ?R = "(ds @ [Free k]) @ Free n # rs"
  have sz: "0 < sz" and lay: "layout (mem a) sz base ?R" and rep: "ll_rep (freeSpaceList (slabs a sl)) (shim_links a) fs"
    and fs: "set fs = set (free_addrs sz base ?R)" and na: "no_adj (ds @ [Free k])"
    and cat: "sizeCategory (slabs a sl) = sz"
    using sw by (simp_all only: sweeping_def)
  have "ptr \<in> set fs" unfolding fs ptr_def by simp
  then obtain xs ys where split: "fs = xs @ ptr # ys" by (meson split_list)
  with rep have dist: "distinct (xs @ ptr # ys)" by (simp add: ll_rep_def)
  obtain l' k' where rm: "Remove ptr (freeSpaceList (slabs a sl)) (shim_links a) = Inr (l', k')"
    and rep': "ll_rep l' k' (xs @ ys)" and so: "same_outside (set fs) (shim_links a) k'"
    using Remove_rep [OF rep [unfolded split]] unfolding split by blast
  let ?a = "set_shims sl (l', k') (grow_shim lf (n * sz) a)"
  have memlf: "mem a lf = CShim (k * sz)" and k: "0 < k" and n: "0 < n" using lay by (simp_all add: lf_def)
  have g: "grow_shim lf (n * sz) a = set_cell lf (CShim ((k + n) * sz)) a"
    by (simp add: grow_shim_eq [OF memlf] distrib_right)
  have lay': "layout (mem ?a) sz base ((ds @ [Free (k + n)]) @ rs)"
    unfolding g by (rule layout_grow [OF lay sz _ n]) (simp_all add: lf_def)
  have "set (xs @ ys) = set fs - {ptr}" using dist split by auto
  also have "\<dots> = set (free_addrs sz base ((ds @ [Free (k + n)]) @ rs))"
    using free_addrs_bounds [OF lay sz, of ptr] free_addrs_rest_bounds [OF lay sz, of ptr]
    by (auto simp: fs ptr_def algebra_simps)
  finally have fs': "set (xs @ ys) = set (free_addrs sz base ((ds @ [Free (k + n)]) @ rs))" .
  have "sweeping sl sz base (ds @ [Free (k + n)]) rs (xs @ ys) ?a"
    using sz cat lay' na rep' fs' by (simp add: sweeping_def g no_adj_snoc)
  moreover have "lf \<in> {base..<base + width sz ?R}"
    using addrs_range [OF lay sz, of lf] sz by (simp add: lf_def)
  then have "slab_frame base (base + width sz ?R) sl a (set_cell lf (CShim ((k + n) * sz)) a)"
    by (rule slab_frame_set_cell)
  then have "slab_frame base (base + width sz ?R) sl a ?a"
    unfolding g using sweeping_range [OF sw] so
    by (auto intro!: slab_frame_trans [OF _ slab_frame_set_shims] intro: same_outside_mono)
  ultimately show ?thesis using rm by blast
qed

lemma sweep_step_grow:
  assumes sw: "sweeping sl sz base (ds @ [Free k]) (Used # rs) fs a"
  defines "lf \<equiv> base + width sz ds" and "ptr \<equiv> base + width sz (ds @ [Free k])"
  shows "sweeping sl sz base (ds @ [Free (k + 1)]) rs fs (grow_shim lf sz (set_cell ptr CDead a)) \<and>
    slab_frame base (base + width sz ((ds @ [Free k]) @ Used # rs)) sl a
      (grow_shim lf sz (set_cell ptr CDead a))"
proof -
  let ?R = "(ds @ [Free k]) @ Used # rs" and ?a = "grow_shim lf sz (set_cell ptr CDead a)"
  have sz: "0 < sz" and lay: "layout (mem a) sz base ?R"
    and fs: "set fs = set (free_addrs sz base ?R)" and na: "no_adj (ds @ [Free k])"
    using sw by (simp_all only: sweeping_def)
  have memlf: "mem a lf = CShim (k * sz)" and k: "0 < k" using lay by (simp_all add: lf_def)
  have ne: "lf \<noteq> ptr" using k sz by (simp add: lf_def ptr_def)
  have g: "?a = set_cell lf (CShim ((k + 1) * sz)) (set_cell ptr CDead a)"
    using memlf ne by (simp add: grow_shim_eq [of _ _ "k * sz"] distrib_right)
  have lay': "layout (mem ?a) sz base ((ds @ [Free (k + 1)]) @ rs)"
    unfolding g by (rule layout_grow [OF lay sz]) (simp_all add: lf_def ptr_def)
  have "lf \<in> {base..<base + width sz ?R}" "ptr \<in> {base..<base + width sz ?R}"
    using addrs_range [OF lay sz, of lf] addrs_range [OF lay sz, of ptr] sz
    by (simp_all add: lf_def ptr_def)
  then have "slab_frame base (base + width sz ?R) sl a ?a"
    unfolding g by (intro slab_frame_trans [OF slab_frame_set_cell slab_frame_set_cell])
  moreover have "sweeping sl sz base (ds @ [Free (k + 1)]) rs fs ?a"
    using sw lay' na fs by (simp add: sweeping_def g no_adj_snoc algebra_simps)
  ultimately show ?thesis by blast
qed

lemma sweep_step_fresh:
  assumes sw: "sweeping sl sz base ds (Used # rs) fs a" and none: "last_free sz base ds = None"
  defines "ptr \<equiv> base + width sz ds"
  defines "b \<equiv> write_shim ptr sz (set_cell ptr CDead a)"
  shows "\<exists>lk fs'. InsertAtEnd ptr (freeSpaceList (slabs b sl)) (shim_links b) = Inr lk \<and>
    sweeping sl sz base (ds @ [Free 1]) rs fs' (set_shims sl lk b) \<and>
    slab_frame base (base + width sz (ds @ Used # rs)) sl a (set_shims sl lk b)"
proof -
  let ?R = "ds @ Used # rs"
  have sz: "0 < sz" and lay: "layout (mem a) sz base ?R" and rep: "ll_rep (freeSpaceList (slabs a sl)) (shim_links a) fs"
    and fs: "set fs = set (free_addrs sz base ?R)" and na: "no_adj ds"
    and cat: "sizeCategory (slabs a sl) = sz"
    using sw by (simp_all only: sweeping_def)
  have fresh: "ptr \<notin> set fs"
    using free_addrs_bounds [OF lay sz, of ptr] free_addrs_rest_bounds [OF lay sz, of ptr]
    by (auto simp: fs ptr_def)
  have "same_outside {ptr} (shim_links a) (shim_links b)"
    by (simp add: b_def same_outside_def)
  then have repb: "ll_rep (freeSpaceList (slabs b sl)) (shim_links b) fs"
    using same_outside_rep [OF _ _ rep] fresh by (simp add: b_def)
  have "unlinked (shim_links b) ptr" by (simp add: b_def unlinked_def)
  from InsertAtEnd_rep [OF repb this fresh] obtain l' k' where
    ins: "InsertAtEnd ptr (freeSpaceList (slabs b sl)) (shim_links b) = Inr (l', k')"
    and rep': "ll_rep l' k' (fs @ [ptr])" and so: "same_outside (insert ptr (set fs)) (shim_links b) k'"
    by blast
  let ?a = "set_shims sl (l', k') b"
  have mb: "mem ?a = (mem a)(ptr := CShim sz)" by (simp add: b_def)
  have "layout (mem ?a) sz base ds"
    unfolding mb using lay sz by (intro layout_upd_outside) (auto simp: ptr_def)
  moreover have "layout (mem ?a) sz (ptr + sz) rs"
    unfolding mb using lay sz by (intro layout_upd_outside) (auto simp: ptr_def add.assoc)
  ultimately have lay': "layout (mem ?a) sz base ((ds @ [Free 1]) @ rs)"
    by (simp add: b_def ptr_def add.assoc)
  have "sweeping sl sz base (ds @ [Free 1]) rs (fs @ [ptr]) ?a"
    using sz cat lay' na rep' fs last_free_None [OF none]
    by (auto simp: sweeping_def no_adj_snoc b_def ptr_def add.assoc)
  moreover have pin: "ptr \<in> {base..<base + width sz ?R}"
    using addrs_range [OF lay sz, of ptr] sz by (simp add: ptr_def)
  then have "slab_frame base (base + width sz ?R) sl a b"
    unfolding b_def by (intro slab_frame_trans [OF slab_frame_set_cell slab_frame_write_shim])
  then have "slab_frame base (base + width sz ?R) sl a ?a"
    using sweeping_range [OF sw] so pin
    by (auto intro!: slab_frame_trans [OF _ slab_frame_set_shims] intro: same_outside_mono)
  ultimately show ?thesis using ins by blast
qed

definition sweep_result :: "int \<Rightarrow> int \<Rightarrow> int \<Rightarrow> int list \<Rightarrow> int \<Rightarrow> allocator \<Rightarrow> allocator \<Rightarrow> bool" where
  "sweep_result sl sz base live w a a' \<longleftrightarrow>
     (\<exists>rs' fs'. sweeping sl sz base rs' [] fs' a' \<and> width sz rs' = w \<and>
        used_addrs sz base rs' = live) \<and> slab_frame base (base + w) sl a a'"

lemma sweep_result_step:
  assumes "slab_frame base (base + w) sl a b" "sweep_result sl sz base live w b c"
  shows "sweep_result sl sz base live w a c"
  using assms slab_frame_trans unfolding sweep_result_def by blast

lemma sweep_loop_correct:
  assumes "sweeping sl sz base ds rs fs a" "length rs < fuel"
  shows "\<exists>a'. sweep_loop fuel sl g (base + width sz ds) (base + width sz (ds @ rs))
      (last_free sz base ds) cnt a =
        Some (Inr (cnt + int (length (filter (\<lambda>p. gcw a p = g) (used_addrs sz (base + width sz ds) rs))), a')) \<and>
    sweep_result sl sz base
      (used_addrs sz base ds @ filter (\<lambda>p. gcw a p = g) (used_addrs sz (base + width sz ds) rs))
      (width sz (ds @ rs)) a a'"
  using assms
proof (induction rs arbitrary: ds fs a fuel cnt)
  case Nil
  then obtain f where "fuel = Suc f" by (cases fuel) auto
  with Nil show ?case by (auto simp: sweep_result_def)
next
  case (Cons r rs)
  then obtain f where f: "fuel = Suc f" and lf: "length rs < f" by (cases fuel) auto
  note sw = Cons.prems(1)
  let ?ptr = "base + width sz ds" and ?live = "\<lambda>a. filter (\<lambda>p. gcw a p = g)"
  have sz: "0 < sz" and cat: "sizeCategory (slabs a sl) = sz"
    and lay: "layout (mem a) sz base (ds @ r # rs)" using sw by (simp_all only: sweeping_def)
  have rok: "region_ok (mem a) sz ?ptr r" using lay by simp
  have "0 \<le> width sz rs" using lay width_nonneg [of "mem a" sz _ rs] sz by auto
  then have lt: "?ptr < base + width sz (ds @ r # rs)"
    using region_width_pos [OF rok sz] sz by simp
  note unfold = f sweep_loop.simps(2) Let_def cat
  show ?case
  proof (cases r)
    case (Free n)
    then have mp: "mem a ?ptr = CShim (n * sz)" using rok by simp
    show ?thesis
    proof (cases "last_free sz base ds")
      case None
      have sw': "sweeping sl sz base (ds @ [Free n]) rs fs a"
        using sweep_step_shim_first [OF _ None] sw Free by blast
      show ?thesis
        using Cons.IH [OF sw' lf, of cnt] lt mp None Free by (simp add: unfold add.assoc)
    next
      case (Some lfa)
      then obtain ds0 k where ds: "ds = ds0 @ [Free k]" and lfa: "lfa = base + width sz ds0"
        by (rule last_free_Some)
      obtain lk fs' where rm: "Remove ?ptr (freeSpaceList (slabs a sl)) (shim_links a) = Inr lk"
        and sw': "sweeping sl sz base (ds0 @ [Free (k + n)]) rs fs' (set_shims sl lk (grow_shim lfa (n * sz) a))"
        and fr: "slab_frame base (base + width sz (ds @ r # rs)) sl a (set_shims sl lk (grow_shim lfa (n * sz) a))"
        using sweep_step_merge [of sl sz base ds0 k n rs fs a] sw Free ds lfa by auto
      show ?thesis
        using Cons.IH [OF sw' lf, of cnt] lt mp Some Free rm sweep_result_step [OF fr]
        by (auto simp: unfold ds lfa algebra_simps)
    qed
  next
    case Used
    then have mp: "mem a ?ptr = CObj" using rok by simp
    show ?thesis
    proof (cases "gcw a ?ptr = g")
      case True
      have sw': "sweeping sl sz base (ds @ [Used]) rs fs a"
        using sweep_step_live sw Used by blast
      show ?thesis
        using Cons.IH [OF sw' lf, of "cnt + 1"] lt mp True Used by (simp add: unfold add.assoc)
    next
      case dead: False
      show ?thesis
      proof (cases "last_free sz base ds")
        case None
        let ?b = "write_shim ?ptr sz (set_cell ?ptr CDead a)"
        obtain lk fs' where ins: "InsertAtEnd ?ptr (freeSpaceList (slabs ?b sl)) (shim_links ?b) = Inr lk"
          and sw': "sweeping sl sz base (ds @ [Free 1]) rs fs' (set_shims sl lk ?b)"
          and fr: "slab_frame base (base + width sz (ds @ r # rs)) sl a (set_shims sl lk ?b)"
          using sweep_step_fresh [of sl sz base ds rs fs a] sw None Used by blast
        show ?thesis
          using Cons.IH [OF sw' lf, of cnt] lt mp dead None Used ins sweep_result_step [OF fr]
          by (auto simp: unfold add.assoc)
      next
        case (Some lfa)
        then obtain ds0 k where ds: "ds = ds0 @ [Free k]" and lfa: "lfa = base + width sz ds0"
          by (rule last_free_Some)
        let ?b = "grow_shim lfa sz (set_cell ?ptr CDead a)"
        have sw': "sweeping sl sz base (ds0 @ [Free (k + 1)]) rs fs ?b"
          and fr: "slab_frame base (base + width sz (ds @ r # rs)) sl a ?b"
          using sweep_step_grow [of sl sz base ds0 k rs fs a] sw Used ds lfa by auto
        show ?thesis
          using Cons.IH [OF sw' lf, of cnt] lt mp dead Some Used sweep_result_step [OF fr]
          by (auto simp: unfold ds lfa algebra_simps)
      qed
    qed
  qed
qed

end
