(* ===== verification/Slab_Proofs.thy ===== *)
theory Slab_Proofs
  imports Slab_Layout
begin

text \<open>
  Invariants of the slab allocator, first of one slab (\<open>slab_rep\<close>), then of the whole allocator
  (\<open>alloc_rep\<close>), and what allocation and the sweep do to the set of live objects.
\<close>

abbreviation base_of :: "allocator \<Rightarrow> int \<Rightarrow> int" where
  "base_of a sl \<equiv> GetSectionBaseAddress (slab_size a) sl"

definition slab_rep :: "allocator \<Rightarrow> int \<Rightarrow> region list \<Rightarrow> int list \<Rightarrow> bool" where
  "slab_rep a sl rs fs \<longleftrightarrow>
     sweeping sl (sizeCategory (slabs a sl)) (base_of a sl) rs [] fs a \<and>
     width (sizeCategory (slabs a sl)) rs = GetUsableSize (slab_size a) (sizeCategory (slabs a sl)) \<and>
     currentObjects (slabs a sl) =
       int (length (used_addrs (sizeCategory (slabs a sl)) (base_of a sl) rs))"

text \<open>The objects of a slab under a division of its memory.\<close>

definition slab_objects :: "allocator \<Rightarrow> int \<Rightarrow> region list \<Rightarrow> int list" where
  "slab_objects a sl rs = used_addrs (sizeCategory (slabs a sl)) (base_of a sl) rs"

lemma usable_bounds:
  "0 < sz \<Longrightarrow> sizeof_Slab \<le> gss \<Longrightarrow> 0 \<le> GetUsableSize gss sz \<and> GetUsableSize gss sz \<le> gss - sizeof_Slab"
  using zmod_le_nonneg_dividend [of "gss - sizeof_Slab" sz] by (simp add: GetUsableSize_def Let_def)

text \<open>The sweep loop runs once per region, and a slab has at most as many regions as slots.\<close>

lemma length_le_width: "layout m sz p rs \<Longrightarrow> 0 < sz \<Longrightarrow> int (length rs) * sz \<le> width sz rs"
proof (induction rs arbitrary: p)
  case (Cons r rs)
  then have "int (length rs) * sz \<le> width sz rs" "sz \<le> region_width sz r"
    using region_width_pos [of m sz p r] by auto
  then show ?case by (simp add: distrib_right)
qed simp

lemma regions_le_slots:
  assumes "slab_rep a sl rs fs" "sizeof_Slab \<le> slab_size a"
  shows "int (length rs) \<le> GetNumSlots (slab_size a) (sizeCategory (slabs a sl))"
proof -
  let ?sz = "sizeCategory (slabs a sl)"
  have sz: "0 < ?sz" and l: "layout (mem a) ?sz (base_of a sl) rs"
    and w: "width ?sz rs = GetUsableSize (slab_size a) ?sz"
    using assms(1) by (auto simp: slab_rep_def sweeping_def)
  have "int (length rs) * ?sz \<le> slab_size a - sizeof_Slab"
    using length_le_width [OF l sz] usable_bounds [OF sz assms(2)] w by simp
  from zdiv_mono1 [OF this sz] show ?thesis using sz by (simp add: GetNumSlots_def)
qed

text \<open>The part of the sweep of one slab before its list of free slabs is looked at.\<close>

lemma slab_sweep_correct:
  assumes rep: "slab_rep a sl rs fs" and fuel: "length rs < fuel"
  shows "\<exists>a' rs' fs'. sweep_loop fuel sl g (base_of a sl)
      (base_of a sl + GetUsableSize (slab_size a) (sizeCategory (slabs a sl))) None 0 a =
        Some (Inr (int (length (slab_objects a sl rs')), a')) \<and>
    slab_frame (base_of a sl) (base_of a sl + GetUsableSize (slab_size a) (sizeCategory (slabs a sl))) sl a a' \<and>
    slab_rep (a'\<lparr>slabs := (slabs a')(sl := (slabs a' sl)
        \<lparr>currentObjects := int (length (slab_objects a sl rs'))\<rparr>)\<rparr>) sl rs' fs' \<and>
    slab_objects a sl rs' = filter (\<lambda>p. gcw a p = g) (slab_objects a sl rs)"
proof -
  let ?sz = "sizeCategory (slabs a sl)" and ?b = "base_of a sl"
  have sw: "sweeping sl ?sz ?b [] rs fs a" and w: "width ?sz rs = GetUsableSize (slab_size a) ?sz"
    using rep by (auto simp: slab_rep_def sweeping_def)
  from sweep_loop_correct [OF sw fuel, of g 0] w obtain a' rs' fs' where
    run: "sweep_loop fuel sl g ?b (?b + GetUsableSize (slab_size a) ?sz) None 0 a =
      Some (Inr (int (length (filter (\<lambda>p. gcw a p = g) (used_addrs ?sz ?b rs))), a'))"
    and sw': "sweeping sl ?sz ?b rs' [] fs' a'" and w': "width ?sz rs' = GetUsableSize (slab_size a) ?sz"
    and u: "used_addrs ?sz ?b rs' = filter (\<lambda>p. gcw a p = g) (used_addrs ?sz ?b rs)"
    and fr: "slab_frame ?b (?b + GetUsableSize (slab_size a) ?sz) sl a a'"
    by (auto simp: sweep_result_def)
  have cat: "sizeCategory (slabs a' sl) = ?sz" "slab_size a' = slab_size a"
    by (simp_all add: slab_frame_fields [OF fr])
  show ?thesis
    using run fr u sw' w' cat
    by (intro exI [of _ a'] exI [of _ rs'] exI [of _ fs'])
      (auto simp: slab_rep_def slab_objects_def sweeping_def)
qed

section \<open>Allocation in one slab\<close>

lemma layout_no_free: "free_addrs sz p rs = [] \<Longrightarrow> rs = replicate (length rs) Used"
  by (induction rs arbitrary: p) (auto split: region.splits)

lemma free_split:
  assumes "x \<in> set (free_addrs sz p rs)"
  obtains us n vs where "rs = us @ Free n # vs" "x = p + width sz us"
  using assms
proof (induction rs arbitrary: p thesis)
  case (Cons r rs)
  show ?case
  proof (cases "\<exists>n. r = Free n \<and> x = p")
    case True
    then show ?thesis using Cons.prems(1) [of "[]"] by fastforce
  next
    case False
    then have "x \<in> set (free_addrs sz (p + region_width sz r) rs)"
      using Cons.prems(2) by (cases r) auto
    then show ?thesis
      using Cons.IH [of "p + region_width sz r" thesis] Cons.prems(1) [of "r # _"]
      by (metis add.assoc append_Cons width.simps(2))
  qed
qed simp

lemma no_adj_replace:
  "no_adj (us @ Free n # vs) \<Longrightarrow> no_adj (us @ Used # vs) \<and> no_adj (us @ Used # Free m # vs)"
  by (induction us rule: no_adj.induct) (cases vs; auto)+

lemma no_adj_split:
  "no_adj (us @ Free n # vs) \<Longrightarrow> vs = [] \<or> \<not> is_free (hd vs)"
  by (induction us rule: no_adj.induct) (cases vs; auto)+

lemma layout_aligned:
  assumes "layout m sz p rs" "0 < sz" "x \<in> set (free_addrs sz p rs) \<union> set (used_addrs sz p rs)"
  shows "sz dvd x - p"
  using assms
proof (induction rs arbitrary: p)
  case (Cons r rs)
  have w: "sz dvd region_width sz r" by (cases r) auto
  show ?case
  proof (cases "x = p")
    case False
    then have "x \<in> set (free_addrs sz (p + region_width sz r) rs) \<union> set (used_addrs sz (p + region_width sz r) rs)"
      using Cons.prems(3) by (cases r) auto
    with Cons.IH [of "p + region_width sz r"] Cons.prems have "sz dvd x - (p + region_width sz r)" by auto
    with w show ?thesis using dvd_add [of sz "x - (p + region_width sz r)" "region_width sz r"] by simp
  qed simp
qed simp

section \<open>Categories\<close>

lemma map_of_insert_key [simp]: "map_of (insert_key k v kvs) = (map_of kvs)(k \<mapsto> v)"
  by (induction kvs) (auto simp: fun_eq_iff)

lemma set_insert_key: "set (map fst (insert_key k v kvs)) = insert k (set (map fst kvs))"
  by (induction k v kvs rule: insert_key.induct) (simp_all add: insert_commute)

lemma sorted_insert_key:
  "sorted_wrt (<) (map fst kvs) \<Longrightarrow> sorted_wrt (<) (map fst (insert_key k v kvs))"
proof (induction kvs)
  case (Cons p kvs)
  obtain k' v' where p: "p = (k', v')" by (cases p)
  have "set (map fst (insert_key k v kvs)) = insert k (set (map fst kvs))" by (rule set_insert_key)
  then show ?case using Cons by (auto simp: p simp del: set_map)
qed simp

lemma keys_set_same:
  "sorted_wrt (<) (map fst kvs) \<Longrightarrow> k \<in> set (map fst kvs) \<Longrightarrow> map fst (insert_key k v kvs) = map fst kvs"
  by (induction kvs) force+

lemma category_set [simp]:
  "category (set_category k c a) k' = (if k' = k then c else category a k')"
  by (simp add: category_def set_category_def)

lemma set_category_selectors [simp]:
  "slab_size (set_category k c a) = slab_size a" "mem (set_category k c a) = mem a"
  "gcw (set_category k c a) = gcw a" "shim_links (set_category k c a) = shim_links a"
  "all_links (set_category k c a) = all_links a" "free_links (set_category k c a) = free_links a"
  "slabs (set_category k c a) = slabs a"
  "m_nextSlabAddr (set_category k c a) = m_nextSlabAddr a"
  by (simp_all add: set_category_def)

abbreviation keys :: "allocator \<Rightarrow> int list" where
  "keys a \<equiv> map fst (m_sizes a)"

lemma keys_set_category:
  "sorted_wrt (<) (keys a) \<Longrightarrow> k \<in> set (keys a) \<Longrightarrow> keys (set_category k c a) = keys a"
  using keys_set_same by (simp add: set_category_def)

text \<open>Unlinking the neighbours by hand before \<open>Remove\<close>, as \<open>RemoveFromFreeSlabList\<close> does, changes nothing.\<close>

lemma Remove_unlinked_first:
  assumes "nxt k x \<noteq> Some x" "prv k x \<noteq> Some x"
  defines "k1 \<equiv> opt_prv (nxt k x) (prv k x) k"
  shows "Remove x l (opt_nxt (prv k1 x) (nxt k1 x) k1) = Remove x l k"
proof -
  have eq: "\<And>a b. a = b \<longleftrightarrow> nxt a = nxt b \<and> prv a = prv (b :: 'a links)" by auto
  show ?thesis
    using assms(1,2) unfolding k1_def
    by (cases "nxt k x"; cases "prv k x")
      (auto simp: Remove_def Let_def opt_nxt_def opt_prv_def eq fun_upd_idem_iff)
qed

lemma ll_rep_no_self:
  assumes "ll_rep l k (xs @ x # ys)"
  shows "nxt k x \<noteq> Some x" "prv k x \<noteq> Some x"
proof -
  have "nxt k x = hd_or None ys" "prv k x = last_or None xs" "x \<notin> set ys" "x \<notin> set xs"
    using assms by (auto simp: ll_rep_def)
  then show "nxt k x \<noteq> Some x" "prv k x \<noteq> Some x"
    by (auto simp: hd_or_def last_or_def split: list.splits)
qed

lemma RemoveFromFreeSlabList_rep:
  assumes "start (freeSpaceList (slabs a sl)) = None" "sizeCategory (slabs a sl) = key"
    and rep: "ll_rep (freeSlabs (category a key)) (free_links a) (xs @ sl # ys)"
  shows "\<exists>l k. RemoveFromFreeSlabList sl a =
      Inr (set_category key ((category a key)\<lparr>freeSlabs := l\<rparr>) (a\<lparr>free_links := k\<rparr>)) \<and>
    ll_rep l k (xs @ ys) \<and> unlinked k sl \<and> same_outside (set (xs @ sl # ys)) (free_links a) k"
proof -
  obtain l k where r: "Remove sl (freeSlabs (category a key)) (free_links a) = Inr (l, k)"
    and rest: "ll_rep l k (xs @ ys)" "unlinked k sl" "same_outside (set (xs @ sl # ys)) (free_links a) k"
    using Remove_rep [OF rep] by blast
  have "RemoveFromFreeSlabList sl a =
      Inr (set_category key ((category a key)\<lparr>freeSlabs := l\<rparr>) (a\<lparr>free_links := k\<rparr>))"
    using assms(1,2) r ll_rep_no_self [OF rep]
    by (simp add: RemoveFromFreeSlabList_def Let_def Remove_unlinked_first)
  with rest show ?thesis by blast
qed

section \<open>What an allocation does to one slab\<close>

text \<open>The change of the free space list: the front slot \<open>x\<close> of the shim of \<open>n\<close> slots is cut off.\<close>

lemma swap_shims:
  assumes rep: "slab_rep a sl rs (x # fs)" and rs: "rs = us @ Free n # vs"
    and x: "x = base_of a sl + width sz us" and cat: "sizeCategory (slabs a sl) = sz"
  defines "b \<equiv> if n = 1 then a else write_shim (x + sz) ((n - 1) * sz) a"
    and "repl \<equiv> if n = 1 then None else Some (x + sz)"
    and "fs' \<equiv> if n = 1 then fs else (x + sz) # fs"
    and "rs' \<equiv> us @ Used # (if n = 1 then [] else [Free (n - 1)]) @ vs"
  shows "\<exists>lk. rbind (case repl of
              Some r \<Rightarrow> InsertAfter x r (freeSpaceList (slabs b sl)) (shim_links b)
            | None \<Rightarrow> Inr (freeSpaceList (slabs b sl), shim_links b)) (\<lambda>(l, k). Remove x l k) = Inr lk \<and>
    sweeping sl sz (base_of a sl) rs' [] fs' (set_cell x CObj (set_shims sl lk b)) \<and>
    slab_frame (base_of a sl) (base_of a sl + width sz rs) sl a (set_cell x CObj (set_shims sl lk b))"
proof -
  let ?b = "base_of a sl" and ?I = "{base_of a sl..<base_of a sl + width sz rs}"
  have sw: "sweeping sl sz ?b rs [] (x # fs) a" using rep cat by (simp add: slab_rep_def)
  have sz: "0 < sz" and lay: "layout (mem a) sz ?b (us @ Free n # vs)" and na: "no_adj rs"
    and ll: "ll_rep (freeSpaceList (slabs a sl)) (shim_links a) (x # fs)"
    and fset: "set (x # fs) = set (free_addrs sz ?b rs)"
    using sw by (simp_all add: sweeping_def rs)
  have n: "0 < n" and memx: "mem a x = CShim (n * sz)" using lay by (simp_all add: x)
  have dist: "distinct (x # fs)" using ll by (simp add: ll_rep_def)
  have fsub: "set (x # fs) \<subseteq> ?I" using sweeping_range [OF sw] by simp
  have lvs: "layout (mem a) sz (x + n * sz) vs" and lus: "layout (mem a) sz ?b us"
    using lay by (simp_all add: x)
  have fset': "set fs = set (free_addrs sz ?b us) \<union> set (free_addrs sz (x + n * sz) vs)"
  proof (rule insert_ident [THEN iffD1])
    show "x \<notin> set fs" using dist by simp
    show "x \<notin> set (free_addrs sz ?b us) \<union> set (free_addrs sz (x + n * sz) vs)"
      using free_addrs_bounds [OF lay sz, of x] free_addrs_rest_bounds [OF lay sz, of x]
      by (auto simp: x)
    show "insert x (set fs) = insert x (set (free_addrs sz ?b us) \<union> set (free_addrs sz (x + n * sz) vs))"
      using fset by (simp add: rs x)
  qed
  have xin: "x \<in> ?I" using fsub by simp
  have lay': "layout m sz ?b rs'" if "m x = CObj" "1 < n \<Longrightarrow> m (x + sz) = CShim ((n - 1) * sz)"
    "\<And>y. y \<noteq> x \<Longrightarrow> y \<noteq> x + sz \<or> n = 1 \<Longrightarrow> m y = mem a y" for m
  proof -
    have "layout m sz ?b us"
    proof (rule layout_frame [OF lus])
      fix y assume "y \<in> set (free_addrs sz ?b us) \<union> set (used_addrs sz ?b us)"
      then have "y < x" using addrs_range [OF lus sz] sz by (fastforce simp: x)
      then show "m y = mem a y" using sz by (intro that(3)) auto
    qed
    moreover have "layout m sz (x + n * sz) vs"
    proof (rule layout_frame [OF lvs])
      fix y assume "y \<in> set (free_addrs sz (x + n * sz) vs) \<union> set (used_addrs sz (x + n * sz) vs)"
      then have y: "x + n * sz \<le> y" using addrs_range [OF lvs sz] by fastforce
      have "0 < n * sz" using n sz by simp
      moreover have "sz < n * sz" if "n \<noteq> 1" using that n sz by simp
      ultimately have "y \<noteq> x" "y \<noteq> x + sz \<or> n = 1" using y by linarith+
      then show "m y = mem a y" by (rule that(3))
    qed
    ultimately show ?thesis using that(1,2) n
      by (cases "n = 1") (auto simp: rs'_def x algebra_simps)
  qed
  have na': "no_adj rs'" using na no_adj_replace [of us n vs "n - 1"] by (simp add: rs rs'_def)
  have xsz: "x + sz \<notin> set (x # fs)" "x + sz \<in> ?I" if "n \<noteq> 1"
  proof -
    have nsz: "sz < n * sz" using that n sz by simp
    then show "x + sz \<notin> set (x # fs)"
      using addrs_range [OF lus sz, of "x + sz"] addrs_range [OF lvs sz, of "x + sz"] sz
      by (auto simp: fset' x)
    have "0 \<le> width sz us" "0 \<le> width sz vs"
      using lus lvs sz width_nonneg by blast+
    then show "x + sz \<in> ?I" using nsz sz
      unfolding rs x width_append width.simps region_width.simps atLeastLessThan_iff by linarith
  qed
  show ?thesis
  proof (cases "n = 1")
    case True
    obtain lk where rm: "Remove x (freeSpaceList (slabs a sl)) (shim_links a) = Inr lk"
      and lk: "ll_rep (fst lk) (snd lk) fs" and so: "same_outside (set (x # fs)) (shim_links a) (snd lk)"
      using Remove_rep [of _ _ "[]" x fs] ll by fastforce
    have "layout (mem (set_cell x CObj (set_shims sl lk a))) sz ?b rs'"
      by (rule lay') (use True in simp_all)
    moreover have "set fs = set (free_addrs sz ?b rs')"
      using True fset' by (simp add: rs'_def x)
    ultimately have "sweeping sl sz ?b rs' [] fs (set_cell x CObj (set_shims sl lk a))"
      using sz cat na' lk by (simp add: sweeping_def)
    moreover have "slab_frame ?b (?b + width sz rs) sl a (set_cell x CObj (set_shims sl lk a))"
      using same_outside_mono [OF so fsub] xin
      by (intro slab_frame_trans [OF slab_frame_set_shims slab_frame_set_cell])
    ultimately show ?thesis using rm True by (auto simp: b_def repl_def fs'_def)
  next
    case False
    let ?c = "write_shim (x + sz) ((n - 1) * sz) a"
    have "same_outside {x + sz} (shim_links a) (shim_links ?c)" by (simp add: same_outside_def)
    from same_outside_rep [OF this _ ll] xsz [OF False]
    have llc: "ll_rep (freeSpaceList (slabs ?c sl)) (shim_links ?c) ([] @ x # fs)" by simp
    have "x + sz \<notin> set ([] @ x # fs)" using xsz [OF False] by simp
    from InsertAfter_rep [OF llc this] obtain l1 k1 where
      ins: "InsertAfter x (x + sz) (freeSpaceList (slabs ?c sl)) (shim_links ?c) = Inr (l1, k1)"
      and ll1: "ll_rep l1 k1 ([] @ x # (x + sz) # fs)"
      and so1: "same_outside (insert (x + sz) (set (x # fs))) (shim_links ?c) k1" by fastforce
    from Remove_rep [OF ll1] obtain lk where rm: "Remove x l1 k1 = Inr lk"
      and lk: "ll_rep (fst lk) (snd lk) ((x + sz) # fs)"
      and so2: "same_outside (set (x # (x + sz) # fs)) k1 (snd lk)" by fastforce
    have so: "same_outside ?I (shim_links ?c) (snd lk)"
      using so1 so2 fsub xsz [OF False] unfolding same_outside_def by (metis insert_iff list.set(2) subsetD)
    have "set ((x + sz) # fs) = set (free_addrs sz ?b rs')"
      using False fset' by (auto simp: rs'_def x algebra_simps)
    moreover have "layout (mem (set_cell x CObj (set_shims sl lk ?c))) sz ?b rs'"
      by (rule lay') (use False sz in simp_all)
    ultimately have "sweeping sl sz ?b rs' [] ((x + sz) # fs) (set_cell x CObj (set_shims sl lk ?c))"
      using sz cat na' lk by (simp add: sweeping_def)
    moreover have "slab_frame ?b (?b + width sz rs) sl a (set_cell x CObj (set_shims sl lk ?c))"
      using so xin xsz(2) [OF False]
      by (intro slab_frame_trans [OF slab_frame_trans [OF slab_frame_write_shim slab_frame_set_shims]
            slab_frame_set_cell])
    ultimately show ?thesis using ins rm False by (auto simp: b_def repl_def fs'_def)
  qed
qed

lemma SwapOrDeleteShim_eq:
  assumes "rbind (case repl of
              Some r \<Rightarrow> InsertAfter x r (freeSpaceList (slabs b sl)) (shim_links b)
            | None \<Rightarrow> Inr (freeSpaceList (slabs b sl), shim_links b)) (\<lambda>(l, k). Remove x l k) = Inr lk"
  shows "SwapOrDeleteShim sl x repl b =
     (if start (fst lk) = None then RemoveFromFreeSlabList sl (set_shims sl lk b)
      else Inr (set_shims sl lk b))"
  using assms unfolding SwapOrDeleteShim_def rbind_eq_Inr_iff by (auto simp: Let_def)

text \<open>
  \<open>alloc_step\<close> describes an allocation of the object at \<open>x\<close> in the slab \<open>sl\<close>, up to the
  construction of the object: the slab is divided by \<open>rs'\<close> afterwards and has the free shims
  \<open>fs'\<close>; a slab that becomes full leaves its category's list of free slabs, \<open>sl # ys\<close>.
\<close>

definition alloc_step ::
  "allocator \<Rightarrow> int \<Rightarrow> int \<Rightarrow> int list \<Rightarrow> region list \<Rightarrow> int list \<Rightarrow> region list \<Rightarrow> allocator \<Rightarrow> bool"
where
  "alloc_step a sl x ys rs fs' rs' c \<longleftrightarrow>
     (let key = sizeCategory (slabs a sl); lo = base_of a sl; hi = lo + GetUsableSize (slab_size a) key in
      slab_size c = slab_size a \<and> all_links c = all_links a \<and> m_nextSlabAddr c = m_nextSlabAddr a \<and>
      gcw c = (gcw a)(x := INITIAL_GC_WORD) \<and>
      (\<forall>y. y \<notin> {lo..<hi} \<longrightarrow> mem c y = mem a y) \<and>
      same_outside {lo..<hi} (shim_links a) (shim_links c) \<and>
      (\<forall>t. t \<noteq> sl \<longrightarrow> slabs c t = slabs a t) \<and> sizeCategory (slabs c sl) = key \<and>
      slab_rep c sl rs' fs' \<and> x \<notin> set (slab_objects a sl rs) \<and>
      set (slab_objects c sl rs') = insert x (set (slab_objects a sl rs)) \<and>
      x \<in> {lo..<hi} \<and> key dvd x - lo \<and>
      (fs' \<noteq> [] \<longrightarrow> m_sizes c = m_sizes a \<and> free_links c = free_links a) \<and>
      (fs' = [] \<longrightarrow> (\<exists>l k. m_sizes c = m_sizes (set_category key ((category a key)\<lparr>freeSlabs := l\<rparr>) a) \<and>
         free_links c = k \<and> ll_rep l k ys \<and> unlinked k sl \<and> same_outside (set (sl # ys)) (free_links a) k)))"

lemma slab_rep_start:
  assumes "slab_rep a sl rs fs"
  shows "start (freeSpaceList (slabs a sl)) = hd_or None fs"
    "fs \<noteq> [] \<Longrightarrow> prv (shim_links a) (hd fs) = None"
  using assms by (cases fs; simp add: slab_rep_def sweeping_def ll_rep_def)+

lemma allocate_in_slab_correct:
  assumes rep: "slab_rep a sl rs (x # fs)" and cat: "sizeCategory (slabs a sl) = key"
    and lf: "ll_rep (freeSlabs (category a key)) (free_links a) (sl # ys)"
  shows "\<exists>a' rs' fs'. allocate_in_slab key sl a = (Inr x, a') \<and>
    alloc_step a sl x ys rs fs' rs' (construct x a')"
proof -
  let ?lo = "base_of a sl" and ?hi = "base_of a sl + GetUsableSize (slab_size a) key"
  have sw: "sweeping sl key ?lo rs [] (x # fs) a" and w: "width key rs = GetUsableSize (slab_size a) key"
    and co: "currentObjects (slabs a sl) = int (length (used_addrs key ?lo rs))"
    using rep cat by (simp_all add: slab_rep_def)
  have sz: "0 < key" and layrs: "layout (mem a) key ?lo rs" using sw by (simp_all add: sweeping_def)
  have xfree: "x \<in> set (free_addrs key ?lo rs)" using sw by (auto simp: sweeping_def)
  obtain us n vs where rs: "rs = us @ Free n # vs" and x: "x = ?lo + width key us"
    using free_split [OF xfree] by blast
  have lay: "layout (mem a) key ?lo (us @ Free n # vs)" using layrs rs by simp
  have n: "0 < n" and memx: "mem a x = CShim (n * key)" using lay by (simp_all add: x)
  have wus: "0 \<le> width key us" using lay sz width_nonneg by auto
  have dv: "key dvd x - ?lo" using layout_aligned [OF layrs sz] xfree by blast
  have xin: "x \<in> {?lo..<?hi}" using addrs_range [OF layrs sz, of x] xfree w sz by auto
  define b where "b = (if n = 1 then a else write_shim (x + key) ((n - 1) * key) a)"
  define repl where "repl = (if n = 1 then None else Some (x + key))"
  define fs' where "fs' = (if n = 1 then fs else (x + key) # fs)"
  define rs' where "rs' = us @ Used # (if n = 1 then [] else [Free (n - 1)]) @ vs"
  obtain lk where swap: "rbind (case repl of
              Some r \<Rightarrow> InsertAfter x r (freeSpaceList (slabs b sl)) (shim_links b)
            | None \<Rightarrow> Inr (freeSpaceList (slabs b sl), shim_links b)) (\<lambda>(l, k). Remove x l k) = Inr lk"
    and sw': "sweeping sl key ?lo rs' [] fs' (set_cell x CObj (set_shims sl lk b))"
    and fr: "slab_frame ?lo ?hi sl a (set_cell x CObj (set_shims sl lk b))"
    using swap_shims [OF rep rs x cat] unfolding b_def repl_def fs'_def rs'_def w by blast
  define B where "B = set_shims sl lk b"
  have sel: "mem b = (if n = 1 then mem a else (mem a)(x + key := CShim ((n - 1) * key)))"
    "slabs b = slabs a" "gcw b = gcw a" "free_links b = free_links a" "m_sizes b = m_sizes a"
    "slab_size b = slab_size a"
    by (simp_all add: b_def write_shim_def set_cell_def)
  have selB: "slabs B sl = (slabs a sl)\<lparr>freeSpaceList := fst lk\<rparr>" "category B key = category a key"
    "free_links B = free_links a" "m_sizes B = m_sizes a" "slab_size B = slab_size a"
    using sel by (simp_all add: B_def category_def set_shims_def)
  have stB: "start (fst lk) = hd_or None fs'"
    using sw' by (simp add: sweeping_def ll_rep_def)
  note S = SwapOrDeleteShim_eq [OF swap, folded B_def]
  have used: "used_addrs key ?lo rs' = used_addrs key ?lo us @ x # used_addrs key (x + n * key) vs"
    by (auto simp: rs'_def x algebra_simps)
  have usedrs: "used_addrs key ?lo rs = used_addrs key ?lo us @ used_addrs key (x + n * key) vs"
    by (simp add: rs x)
  have fresh: "x \<notin> set (used_addrs key ?lo rs)"
    using distinct_addrs [OF layrs sz] xfree by blast
  have "\<exists>D. SwapOrDeleteShim sl x repl b = Inr D \<and> mem D = mem B \<and> shim_links D = shim_links B \<and>
      slabs D = slabs B \<and> gcw D = gcw B \<and> all_links D = all_links B \<and> slab_size D = slab_size B \<and>
      m_nextSlabAddr D = m_nextSlabAddr B \<and>
      (fs' \<noteq> [] \<longrightarrow> m_sizes D = m_sizes a \<and> free_links D = free_links a) \<and>
      (fs' = [] \<longrightarrow> (\<exists>l k. m_sizes D = m_sizes (set_category key ((category a key)\<lparr>freeSlabs := l\<rparr>) a) \<and>
         free_links D = k \<and> ll_rep l k ys \<and> unlinked k sl \<and> same_outside (set (sl # ys)) (free_links a) k))"
  proof (cases "fs' = []")
    case True
    then have "start (freeSpaceList (slabs B sl)) = None" using stB selB by simp
    from RemoveFromFreeSlabList_rep [OF this, of key "[]" ys] lf cat selB obtain l k where
      r: "RemoveFromFreeSlabList sl B =
        Inr (set_category key ((category a key)\<lparr>freeSlabs := l\<rparr>) (B\<lparr>free_links := k\<rparr>))"
      and rest: "ll_rep l k ys" "unlinked k sl" "same_outside (set (sl # ys)) (free_links a) k" by auto
    show ?thesis using True r rest stB selB
      by (simp add: S set_category_def) blast
  next
    case False
    then show ?thesis using stB selB by (auto simp: S hd_or_def split: list.splits)
  qed
  then obtain D where D: "SwapOrDeleteShim sl x repl b = Inr D" "mem D = mem B" "shim_links D = shim_links B"
      "slabs D = slabs B" "gcw D = gcw B" "all_links D = all_links B" "slab_size D = slab_size B"
      "m_nextSlabAddr D = m_nextSlabAddr B"
      "fs' \<noteq> [] \<longrightarrow> m_sizes D = m_sizes a \<and> free_links D = free_links a"
      "fs' = [] \<longrightarrow> (\<exists>l k. m_sizes D = m_sizes (set_category key ((category a key)\<lparr>freeSlabs := l\<rparr>) a) \<and>
         free_links D = k \<and> ll_rep l k ys \<and> unlinked k sl \<and> same_outside (set (sl # ys)) (free_links a) k)"
    by blast
  define E where "E = set_cell x CZero (D\<lparr>gcw := (gcw D)(x := 0), slabs := (slabs D)(sl := (slabs D sl)
      \<lparr>currentObjects := currentObjects (slabs D sl) + 1\<rparr>)\<rparr>)"
  have "prv (free_links a) sl = None" using lf by (simp add: ll_rep_def)
  moreover have "start (freeSpaceList (slabs a sl)) = Some x" "prv (shim_links a) x = None"
    using slab_rep_start [OF rep] by simp_all
  moreover have "n * key - key = (n - 1) * key" by (simp add: algebra_simps)
  moreover have "(n - 1) * key = 0 \<longleftrightarrow> n = 1" "\<not> (n - 1) * key < 0" "(n - 1) * key mod key = 0"
    using n sz by (auto simp: mult_less_0_iff)
  moreover have "\<not> x - ?lo < 0" "(x - ?lo) mod key = 0" using wus dv by (simp_all add: x)
  ultimately have run: "allocate_in_slab key sl a = (Inr x, E)"
    using memx D(1) by (auto simp: allocate_in_slab_def Let_def E_def repl_def b_def split: if_splits)
  let ?c = "construct x E"
  have Esel: "mem ?c = (mem B)(x := CObj)" "gcw ?c = (gcw B)(x := INITIAL_GC_WORD)"
    "slabs ?c = (slabs B)(sl := (slabs B sl)\<lparr>currentObjects := currentObjects (slabs a sl) + 1\<rparr>)"
    "shim_links ?c = shim_links B" "all_links ?c = all_links B" "slab_size ?c = slab_size a"
    "m_nextSlabAddr ?c = m_nextSlabAddr B" "m_sizes ?c = m_sizes D" "free_links ?c = free_links D"
    using D selB by (simp_all add: construct_def E_def set_cell_def)
  note F = slab_frame_fields [OF fr, folded B_def]
  have rep': "slab_rep ?c sl rs' fs'"
    using sw' co w used usedrs cat selB Esel
    by (simp add: slab_rep_def sweeping_def B_def [symmetric] rs'_def rs algebra_simps split: if_splits)
  have Bs: "gcw B = gcw a" "all_links B = all_links a" "m_nextSlabAddr B = m_nextSlabAddr a"
    using F by (simp_all add: set_cell_def)
  have "alloc_step a sl x ys rs fs' rs' ?c"
    unfolding alloc_step_def Let_def cat Esel(6)
  proof (intro conjI)
    show "\<forall>y. y \<notin> {?lo..<?hi} \<longrightarrow> mem ?c y = mem a y" using F(10) xin by (auto simp: Esel)
    show "same_outside {?lo..<?hi} (shim_links a) (shim_links ?c)" using F(11) by (simp add: Esel)
    show "\<forall>t. t \<noteq> sl \<longrightarrow> slabs ?c t = slabs a t" using F(9) by (simp add: Esel)
    show "set (slab_objects ?c sl rs') = insert x (set (slab_objects a sl rs))"
      using used usedrs cat selB by (simp add: slab_objects_def Esel)
  qed (use D(9,10) rep' fresh xin dv Esel Bs selB cat in \<open>simp_all add: slab_objects_def\<close>)
  then show ?thesis using run by blast
qed

end
