(* ===== verification/Slab_Invariant.thy ===== *)
theory Slab_Invariant
  imports Slab_Proofs
begin

text \<open>
  The invariant of the whole allocator and its two main operations.  \<open>alloc_rep a AS FS RS\<close> says
  that the category of size \<open>k\<close> has the slabs \<open>AS k\<close>, those with free space being \<open>FS k\<close>, and that
  the slab \<open>sl\<close> is divided into the regions \<open>RS sl\<close>.  \<open>live_objects\<close> is the set of addresses at
  which objects live.
\<close>

definition category_rep ::
  "allocator \<Rightarrow> int \<Rightarrow> int list \<Rightarrow> int list \<Rightarrow> bool"
where
  "category_rep a k as fs \<longleftrightarrow>
     cat_size (category a k) = k \<and> sizeof_Obj \<le> k \<and> 8 dvd k \<and>
     ll_rep (allSlabs (category a k)) (all_links a) as \<and>
     ll_rep (freeSlabs (category a k)) (free_links a) fs \<and> set fs \<subseteq> set as"

definition slab_in_rep :: "allocator \<Rightarrow> int \<Rightarrow> bool \<Rightarrow> region list \<Rightarrow> int \<Rightarrow> bool" where
  "slab_in_rep a k listed rs sl \<longleftrightarrow>
     slab_size a dvd base_of a sl \<and> 0 < base_of a sl \<and> sizeCategory (slabs a sl) = k \<and>
     (\<exists>fs. slab_rep a sl rs fs \<and> (listed \<longleftrightarrow> fs \<noteq> [])) \<and> (\<not> listed \<longrightarrow> unlinked (free_links a) sl)"

definition alloc_rep ::
  "allocator \<Rightarrow> (int \<Rightarrow> int list) \<Rightarrow> (int \<Rightarrow> int list) \<Rightarrow> (int \<Rightarrow> region list) \<Rightarrow> bool"
where
  "alloc_rep a AS FS RS \<longleftrightarrow>
     sizeof_Slab < slab_size a \<and> 8 dvd slab_size a \<and> sorted_wrt (<) (keys a) \<and>
     (\<exists>n. slab_size a = 2 ^ n) \<and> slab_size a dvd m_nextSlabAddr a \<and>
     (\<forall>k \<in> set (keys a). category_rep a k (AS k) (FS k)) \<and>
     (\<forall>k. k \<notin> set (keys a) \<longrightarrow> AS k = [] \<and> FS k = []) \<and>
     (\<forall>k. \<forall>sl \<in> set (AS k). slab_in_rep a k (sl \<in> set (FS k)) (RS sl) sl)"

definition live_objects :: "allocator \<Rightarrow> (int \<Rightarrow> int list) \<Rightarrow> (int \<Rightarrow> region list) \<Rightarrow> int set" where
  "live_objects a AS RS = {p. \<exists>k. \<exists>sl \<in> set (AS k). p \<in> set (slab_objects a sl (RS sl))}"

text \<open>The empty allocator, as the constructor leaves it.\<close>

definition initial_allocator :: "int \<Rightarrow> allocator" where
  "initial_allocator gss =
     \<lparr>slab_size = gss, mem = (\<lambda>_. CZero), gcw = (\<lambda>_. 0),
      shim_links = \<lparr>nxt = (\<lambda>_. None), prv = (\<lambda>_. None)\<rparr>,
      all_links = \<lparr>nxt = (\<lambda>_. None), prv = (\<lambda>_. None)\<rparr>,
      free_links = \<lparr>nxt = (\<lambda>_. None), prv = (\<lambda>_. None)\<rparr>,
      slabs = (\<lambda>_. \<lparr>sizeCategory = 0, freeSpaceList = empty_llist, currentObjects = 0\<rparr>),
      m_sizes = [], m_nextSlabAddr = 0\<rparr>"

lemma initial_alloc_rep:
  "sizeof_Slab < gss \<Longrightarrow> 8 dvd gss \<Longrightarrow> gss = 2 ^ n \<Longrightarrow>
   alloc_rep (initial_allocator gss) (\<lambda>_. []) (\<lambda>_. []) (\<lambda>_. [])"
  by (auto simp: alloc_rep_def initial_allocator_def)

section \<open>Frames\<close>

abbreviation slab_area :: "allocator \<Rightarrow> int \<Rightarrow> int set" where
  "slab_area a sl \<equiv>
     {base_of a sl..<base_of a sl + GetUsableSize (slab_size a) (sizeCategory (slabs a sl))}"

lemma slab_rep_frame:
  assumes rep: "slab_rep a t rs fs" and t: "slabs c t = slabs a t" "slab_size c = slab_size a"
    and m: "\<And>y. y \<in> slab_area a t \<Longrightarrow> mem c y = mem a y"
    and so: "same_outside A (shim_links a) (shim_links c)" "A \<inter> slab_area a t = {}"
  shows "slab_rep c t rs fs"
proof -
  let ?sz = "sizeCategory (slabs a t)"
  have sw: "sweeping t ?sz (base_of a t) rs [] fs a" and w: "width ?sz rs = GetUsableSize (slab_size a) ?sz"
    using rep by (auto simp: slab_rep_def)
  have sz: "0 < ?sz" and lay: "layout (mem a) ?sz (base_of a t) rs" using sw by (auto simp: sweeping_def)
  have "layout (mem c) ?sz (base_of a t) rs"
  proof (rule layout_frame [OF lay])
    fix y assume "y \<in> set (free_addrs ?sz (base_of a t) rs) \<union> set (used_addrs ?sz (base_of a t) rs)"
    with addrs_range [OF lay sz] w sz have "y \<in> slab_area a t" by fastforce
    then show "mem c y = mem a y" by (rule m)
  qed
  moreover have "A \<inter> set fs = {}" using sweeping_range [OF sw] so(2) w by auto
  then have "ll_rep (freeSpaceList (slabs c t)) (shim_links c) fs"
    using same_outside_rep [OF so(1)] sw t by (simp add: sweeping_def)
  ultimately show ?thesis using rep t by (simp add: slab_rep_def sweeping_def)
qed

lemma slab_areas_disjoint:
  assumes "sizeof_Slab < slab_size a" "slab_in_rep a k b rs s" "slab_in_rep a k' b' rs' t" "s \<noteq> t"
  shows "slab_area a s \<inter> slab_area a t = {}"
proof -
  let ?g = "slab_size a"
  have g: "0 < ?g" using assms(1) by (simp add: sizeof_Slab_def)
  obtain m n where m: "base_of a s = ?g * m" and n: "base_of a t = ?g * n"
    using assms(2,3) by (auto simp: slab_in_rep_def dvd_def)
  have "base_of a s \<noteq> base_of a t" using assms(4) by (simp add: GetSectionBaseAddress_def)
  then have "m \<noteq> n" using m n by auto
  then have "?g * m + ?g \<le> ?g * n \<or> ?g * n + ?g \<le> ?g * m"
  proof (cases "m < n")
    case True
    then have "?g * (m + 1) \<le> ?g * n" using g by (intro mult_left_mono) auto
    then show ?thesis by (simp add: algebra_simps)
  next
    case False
    with \<open>m \<noteq> n\<close> have "?g * (n + 1) \<le> ?g * m" using g by (intro mult_left_mono) auto
    then show ?thesis by (simp add: algebra_simps)
  qed
  moreover have "GetUsableSize ?g (sizeCategory (slabs a u)) < ?g"
    if "slab_in_rep a l c q u" for l c q u
  proof -
    have "0 < sizeCategory (slabs a u)" using that by (auto simp: slab_in_rep_def slab_rep_def sweeping_def)
    then show ?thesis using usable_bounds [of _ ?g] assms(1) by (fastforce simp: sizeof_Slab_def)
  qed
  ultimately show ?thesis using assms(2,3) m n by fastforce
qed

text \<open>A slab that an operation on the slab \<open>s\<close> does not touch keeps its place in the invariant.\<close>

lemma slab_in_rep_frame:
  assumes t: "slab_in_rep a k b rs t" and eq: "slabs c t = slabs a t" "slab_size c = slab_size a"
    and m: "\<And>y. y \<notin> A \<Longrightarrow> mem c y = mem a y"
    and so: "same_outside A (shim_links a) (shim_links c)" "A \<inter> slab_area a t = {}"
    and fl: "\<not> b \<Longrightarrow> nxt (free_links c) t = nxt (free_links a) t \<and> prv (free_links c) t = prv (free_links a) t"
  shows "slab_in_rep c k b rs t"
proof -
  obtain fs where fs: "slab_rep a t rs fs" "b \<longleftrightarrow> fs \<noteq> []" using t by (auto simp: slab_in_rep_def)
  have "mem c y = mem a y" if "y \<in> slab_area a t" for y using that so(2) by (intro m) blast
  then have "slab_rep c t rs fs" by (rule slab_rep_frame [OF fs(1) eq _ so])
  then show ?thesis using t fs(2) eq fl by (auto simp: slab_in_rep_def unlinked_def)
qed

lemma slab_objects_same:
  "slabs c t = slabs a t \<Longrightarrow> slab_size c = slab_size a \<Longrightarrow> slab_objects c t rs = slab_objects a t rs"
  by (simp add: slab_objects_def)

lemma alloc_repD:
  assumes "alloc_rep a AS FS RS"
  shows "sizeof_Slab < slab_size a" "8 dvd slab_size a" "sorted_wrt (<) (keys a)"
    "k \<in> set (keys a) \<Longrightarrow> category_rep a k (AS k) (FS k)"
    "k \<notin> set (keys a) \<Longrightarrow> AS k = [] \<and> FS k = []"
    "sl \<in> set (AS k) \<Longrightarrow> slab_in_rep a k (sl \<in> set (FS k)) (RS sl) sl"
    "\<exists>n. slab_size a = 2 ^ n" "slab_size a dvd m_nextSlabAddr a"
  using assms by (auto simp: alloc_rep_def)

lemma slab_key: "alloc_rep a AS FS RS \<Longrightarrow> sl \<in> set (AS k) \<Longrightarrow> sizeCategory (slabs a sl) = k \<and> k \<in> set (keys a)"
  using alloc_repD(5,6) by (fastforce simp: slab_in_rep_def)

lemma free_in_all: "alloc_rep a AS FS RS \<Longrightarrow> set (FS k) \<subseteq> set (AS k)"
  using alloc_repD(4,5) [of a AS FS RS k] by (cases "k \<in> set (keys a)") (auto simp: category_rep_def)

lemma category_rep_frame:
  assumes "category_rep a k as fs" "category c k = category a k" "all_links c = all_links a"
    "same_outside A (free_links a) (free_links c)" "A \<inter> set fs = {}"
  shows "category_rep c k as fs"
  using assms same_outside_rep [of A "free_links a" "free_links c" fs] by (auto simp: category_rep_def)

section \<open>Allocation\<close>

text \<open>An allocation in the first free slab of a category, lifted to the whole allocator.\<close>

lemma alloc_step_rep:
  assumes inv: "alloc_rep a AS FS RS" and F: "FS key = sl # ys"
    and step: "alloc_step a sl x ys (RS sl) fs' rs' c"
  shows "alloc_rep c AS (FS(key := if fs' = [] then ys else sl # ys)) (RS(sl := rs'))"
    and "live_objects c AS (RS(sl := rs')) = insert x (live_objects a AS RS)"
    and "x \<notin> live_objects a AS RS"
proof -
  note I = alloc_repD [OF inv]
  have slF: "sl \<in> set (FS key)" using F by simp
  then have slA: "sl \<in> set (AS key)" using free_in_all [OF inv] by blast
  have cat: "sizeCategory (slabs a sl) = key" and kin: "key \<in> set (keys a)"
    using slab_key [OF inv slA] by auto
  note S = step [unfolded alloc_step_def Let_def cat]
  let ?A = "slab_area a sl"
  have area: "?A = {base_of a sl..<base_of a sl + GetUsableSize (slab_size a) key}" by (simp add: cat)
  have disj: "slab_area a t \<inter> ?A = {}" if "t \<in> set (AS k)" "t \<noteq> sl" for k t
    using slab_areas_disjoint [OF I(1) I(6) [OF that(1)] I(6) [OF slA] that(2)] .
  have dist: "distinct (sl # ys)" using I(4) [OF kin] F by (simp add: category_rep_def ll_rep_def)
  define FS' where "FS' = FS(key := if fs' = [] then ys else sl # ys)"
  have obtain_k: "fs' \<noteq> [] \<and> free_links c = free_links a \<and> m_sizes c = m_sizes a \<or>
      fs' = [] \<and> (\<exists>l. m_sizes c = m_sizes (set_category key ((category a key)\<lparr>freeSlabs := l\<rparr>) a) \<and>
        ll_rep l (free_links c) ys) \<and> unlinked (free_links c) sl \<and>
        same_outside (set (sl # ys)) (free_links a) (free_links c)"
    using S by (cases "fs' = []") auto
  have al: "all_links c = all_links a" using S by blast
  have so: "same_outside (set (sl # ys)) (free_links a) (free_links c)"
    using obtain_k by (auto simp: same_outside_def)
  have keys: "keys c = keys a"
    using obtain_k keys_set_category [OF I(3) kin] by auto
  have other: "category c k = category a k" if "k \<noteq> key" for k
    using obtain_k that by (auto simp: category_def set_category_def)
  have catr: "category_rep c k (AS k) (FS' k)" if "k \<in> set (keys a)" for k
  proof (cases "k = key")
    case False
    have "set (sl # ys) \<inter> set (FS k) = {}"
      using False slab_key [OF inv] free_in_all [OF inv] F by (metis disjoint_iff subsetD)
    then show ?thesis
      using category_rep_frame [OF I(4) [OF that] other [OF False] al so] False by (simp add: FS'_def)
  next
    case True
    have ck: "category_rep a key (AS key) (sl # ys)" using I(4) [OF kin] F by simp
    show ?thesis
    proof (cases "fs' = []")
      case False
      then have "m_sizes c = m_sizes a" "free_links c = free_links a" using obtain_k by auto
      then show ?thesis using ck True False al by (simp add: FS'_def category_rep_def category_def)
    next
      case e: True
      then obtain l where "m_sizes c = m_sizes (set_category key ((category a key)\<lparr>freeSlabs := l\<rparr>) a)"
        "ll_rep l (free_links c) ys" using obtain_k by auto
      then show ?thesis
        using ck True e al by (simp add: FS'_def category_rep_def category_def set_category_def)
    qed
  qed
  have slabr: "slab_in_rep c k (t \<in> set (FS' k)) ((RS(sl := rs')) t) t" if "t \<in> set (AS k)" for k t
  proof (cases "t = sl")
    case True
    then have "k = key" using slab_key [OF inv that] cat by simp
    then show ?thesis
      using I(6) [OF slA] S True dist obtain_k by (auto simp: slab_in_rep_def FS'_def)
  next
    case False
    have "(t \<in> set (FS' k)) = (t \<in> set (FS k))" using False F by (auto simp: FS'_def)
    moreover have "slab_in_rep c k (t \<in> set (FS k)) (RS t) t"
    proof (rule slab_in_rep_frame [OF I(6) [OF that], of _ ?A])
      assume "t \<notin> set (FS k)"
      moreover have "sizeCategory (slabs a t) = k" using slab_key [OF inv that] by simp
      ultimately have "t \<notin> set (sl # ys)"
        using F slab_key [OF inv] free_in_all [OF inv] by (metis subsetD)
      then show "nxt (free_links c) t = nxt (free_links a) t \<and> prv (free_links c) t = prv (free_links a) t"
        using so by (auto simp: same_outside_def)
    qed (use S False disj [OF that False] area in auto)
    ultimately show ?thesis using False by simp
  qed
  have "alloc_rep c AS FS' (RS(sl := rs'))"
    unfolding alloc_rep_def keys using I catr slabr S kin by (auto simp: FS'_def)
  then show "alloc_rep c AS (FS(key := if fs' = [] then ys else sl # ys)) (RS(sl := rs'))"
    by (simp add: FS'_def)
  have objs: "slab_objects c t ((RS(sl := rs')) t) = slab_objects a t (RS t)" if "t \<noteq> sl" for t
    using S that by (simp add: slab_objects_def)
  have sobj: "set (slab_objects c sl rs') = insert x (set (slab_objects a sl (RS sl)))"
    using S by blast
  show "live_objects c AS (RS(sl := rs')) = insert x (live_objects a AS RS)"
  proof
    show "live_objects c AS (RS(sl := rs')) \<subseteq> insert x (live_objects a AS RS)"
      using objs sobj by (fastforce simp: live_objects_def fun_upd_def split: if_splits)
    show "insert x (live_objects a AS RS) \<subseteq> live_objects c AS (RS(sl := rs'))"
    proof
      fix p assume "p \<in> insert x (live_objects a AS RS)"
      then consider "p = x" | k t where "t \<in> set (AS k)" "p \<in> set (slab_objects a t (RS t))"
        by (auto simp: live_objects_def)
      then show "p \<in> live_objects c AS (RS(sl := rs'))"
      proof cases
        case 1
        then show ?thesis using sobj slA by (auto simp: live_objects_def)
      next
        case 2
        then have "p \<in> set (slab_objects c t ((RS(sl := rs')) t))"
          using sobj objs [of t] by (cases "t = sl") simp_all
        then show ?thesis unfolding live_objects_def using 2(1) by blast
      qed
    qed
  qed
  show "x \<notin> live_objects a AS RS"
  proof
    assume "x \<in> live_objects a AS RS"
    then obtain k t where t: "t \<in> set (AS k)" "x \<in> set (slab_objects a t (RS t))"
      by (auto simp: live_objects_def)
    show False
    proof (cases "t = sl")
      case True
      then show ?thesis using t S by simp
    next
      case False
      obtain fs where r: "slab_rep a t (RS t) fs" using I(6) [OF t(1)] by (auto simp: slab_in_rep_def)
      then have "x \<in> slab_area a t"
        using t(2) addrs_range [of "mem a" "sizeCategory (slabs a t)" "base_of a t" "RS t" x]
        by (auto simp: slab_rep_def sweeping_def slab_objects_def)
      then show ?thesis using disj [OF t(1) False] S area by blast
    qed
  qed
qed

end
