(* ===== verification/Slab_Theorems.thy ===== *)
theory Slab_Theorems
  imports Slab_Invariant
begin

text \<open>
  The whole operations of the slab allocator: choosing a size category, creating a slab,
  allocating an object and sweeping all slabs, each shown to keep the invariant \<open>alloc_rep\<close> and
  to change the set of live objects as it promises.
\<close>

section \<open>The choice of a size category\<close>

lemma bit_ceil_from_ge: "0 < p \<Longrightarrow> n \<le> bit_ceil_from p n"
proof (induction p n rule: bit_ceil_from.induct)
  case (1 p n)
  then show ?case by (subst bit_ceil_from.simps) auto
qed

lemma bit_ceil_from_power: "\<exists>m. bit_ceil_from (2 ^ k) n = 2 ^ m"
proof (induction "(2::nat) ^ k" n arbitrary: k rule: bit_ceil_from.induct)
  case (1 n)
  show ?case
  proof (cases "2 ^ k < n")
    case True
    then have "\<exists>m. bit_ceil_from (2 ^ Suc k) n = 2 ^ m" using 1 [of "Suc k"] by simp
    then show ?thesis using True by (subst bit_ceil_from.simps) simp
  qed (subst bit_ceil_from.simps, auto)
qed

lemma bit_ceil_dvd:
  assumes "8 \<le> n" shows "8 dvd bit_ceil n"
proof -
  obtain m where m: "bit_ceil n = 2 ^ m" using bit_ceil_from_power [of 0 n] by (auto simp: bit_ceil_def)
  have "(2::nat) ^ 3 \<le> 2 ^ m" using assms bit_ceil_from_ge [of 1 n] m by (simp add: bit_ceil_def)
  then have "3 \<le> m" by (rule power_le_imp_le_exp [rotated]) simp
  then have "(2::nat) ^ 3 dvd 2 ^ m" by (rule le_imp_power_dvd)
  then show ?thesis by (simp add: m)
qed

lemma roundToAlignment_props: "8 dvd roundToAlignment v \<and> v \<le> roundToAlignment v"
proof -
  have "0 \<le> v mod 8" "v mod 8 < 8" by simp_all
  moreover have "8 dvd v + (8 - v mod 8)" by presburger
  ultimately show ?thesis by (auto simp: roundToAlignment_def Let_def)
qed

lemma best_size_props:
  assumes "sizeof_Obj \<le> sz" shows "sz \<le> best_size sz" "8 dvd best_size sz"
proof -
  have p: "sz \<le> int (bit_ceil (nat sz))" "8 dvd int (bit_ceil (nat sz))"
    using assms bit_ceil_from_ge [of 1 "nat sz"] bit_ceil_dvd [of "nat sz"]
    by (auto simp: bit_ceil_def sizeof_Obj_def simp flip: int_dvd_int_iff)
  have lb: "sz \<le> q \<and> 8 dvd q" if "find (\<lambda>p. sz \<le> p) PREFERRED_SIZES = Some q" for q
    using that by (auto simp: PREFERRED_SIZES_def sizeof_Obj_def sizeof_Value_def split: if_splits)
  show "sz \<le> best_size sz" "8 dvd best_size sz"
    using p lb roundToAlignment_props
    by (auto simp: best_size_def Let_def split: option.split)
qed

lemma category_insert_other:
  "k \<noteq> b \<Longrightarrow> category (a\<lparr>m_sizes := insert_key b c (m_sizes a)\<rparr>) k = category a k"
  by (simp add: category_def)

lemma keys_insert: "set (keys (a\<lparr>m_sizes := insert_key b c (m_sizes a)\<rparr>)) = insert b (set (keys a))"
  using set_insert_key [of b c "m_sizes a"] by simp

lemma lower_bound_key_in: "lower_bound_key x kvs = Some (k, v) \<Longrightarrow> (k, v) \<in> set kvs"
  by (auto simp: lower_bound_key_def find_Some_iff in_set_conv_nth)

lemma new_category_rep:
  assumes inv: "alloc_rep a AS FS RS" and b: "b \<notin> set (keys a)" "sizeof_Obj \<le> b" "8 dvd b"
  defines "c \<equiv> a\<lparr>m_sizes := insert_key b (new_category b) (m_sizes a)\<rparr>"
  shows "alloc_rep c AS FS RS" "live_objects c AS RS = live_objects a AS RS"
proof -
  note I = alloc_repD [OF inv]
  have ks: "set (keys c) = insert b (set (keys a))" unfolding c_def by (rule keys_insert)
  have "sorted_wrt (<) (keys c)"
    using sorted_insert_key I(3) by (simp add: c_def)
  moreover have "category_rep c k (AS k) (FS k)" if "k \<in> set (keys c)" for k
  proof (cases "k = b")
    case True
    then show ?thesis using b I(5) [of b]
      by (simp add: category_rep_def c_def category_def new_category_def ll_rep_empty)
  next
    case False
    then have "category c k = category a k" unfolding c_def by (rule category_insert_other)
    then show ?thesis using False that ks I(4) [of k] by (simp add: category_rep_def c_def)
  qed
  moreover have "slab_in_rep c k (sl \<in> set (FS k)) (RS sl) sl" if "sl \<in> set (AS k)" for k sl
    by (rule slab_in_rep_frame [OF I(6) [OF that], of _ "{}"]) (simp_all add: c_def same_outside_def)
  ultimately show "alloc_rep c AS FS RS"
    unfolding alloc_rep_def using I(1,2,5,7,8) ks by (auto simp: c_def)
  show "live_objects c AS RS = live_objects a AS RS"
    by (simp add: live_objects_def slab_objects_def c_def)
qed

text \<open>A request is served by a category that is large enough, and the invariant is kept.\<close>

lemma GetOrCreateBestCategory_rep:
  assumes inv: "alloc_rep a AS FS RS" and sz: "sizeof_Obj \<le> sz"
  obtains key b where "GetOrCreateBestCategory sz a = (Inr key, b)" "alloc_rep b AS FS RS"
    "live_objects b AS RS = live_objects a AS RS" "key \<in> set (keys b)" "sz \<le> key"
    "key \<le> best_size sz" "slab_size b = slab_size a" "m_nextSlabAddr b = m_nextSlabAddr a"
proof -
  let ?old = "case lower_bound_key sz (m_sizes a) of Some (k, c) \<Rightarrow> k = sz | None \<Rightarrow> False"
  show thesis
  proof (cases "?old \<or> map_of (m_sizes a) (best_size sz) \<noteq> None")
    case True
    define key where "key = (if ?old then sz else best_size sz)"
    have "key \<in> set (keys a)"
    proof (cases ?old)
      case True
      then show ?thesis using lower_bound_key_in [of sz "m_sizes a"]
        by (force simp: key_def split: option.splits)
    next
      case False
      with \<open>?old \<or> _\<close> have "best_size sz \<in> fst ` set (m_sizes a)" by (simp add: map_of_eq_None_iff)
      then show ?thesis using False by (simp add: key_def)
    qed
    moreover have "GetOrCreateBestCategory sz a = (Inr key, a)"
      using True sz best_size_props [OF sz] by (auto simp: GetOrCreateBestCategory_def Let_def key_def)
    ultimately show ?thesis using that [where key = key and b = a] inv best_size_props [OF sz] by (simp add: key_def)
  next
    case False
    then have nin: "best_size sz \<notin> set (keys a)" by (auto simp: map_of_eq_None_iff)
    let ?b = "a\<lparr>m_sizes := insert_key (best_size sz) (new_category (best_size sz)) (m_sizes a)\<rparr>"
    have "GetOrCreateBestCategory sz a = (Inr (best_size sz), ?b)"
      using False sz best_size_props [OF sz]
      by (auto simp: GetOrCreateBestCategory_def Let_def split: if_splits)
    moreover have "sizeof_Obj \<le> best_size sz" using sz best_size_props(1) [OF sz] by simp
    ultimately show ?thesis
      using new_category_rep [OF inv nin _ best_size_props(2) [OF sz]] keys_insert [where a = a and b = "best_size sz"]
        best_size_props [OF sz] by (intro that [where key = "best_size sz" and b = ?b]) auto
  qed
qed

section \<open>The creation of a slab\<close>

text \<open>
  What the code relies on of \<open>mmap\<close> with \<open>MAP_FIXED_NOREPLACE\<close>: a mapping it makes is not at
  address zero and does not replace one that exists.
\<close>

fun fresh_mappings :: "int \<Rightarrow> int set \<Rightarrow> int \<Rightarrow> (u64 \<times> mmap_result) list \<Rightarrow> bool" where
  "fresh_mappings gss used next_addr [] \<longleftrightarrow> True"
| "fresh_mappings gss used next_addr ((random64, answer) # tries) \<longleftrightarrow>
     (case answer of
        Mapped \<Rightarrow> 0 < slab_address gss next_addr random64 \<and> slab_address gss next_addr random64 \<notin> used
      | Collided \<Rightarrow> fresh_mappings gss used 0 tries
      | MapFailed \<Rightarrow> True)"

definition slab_bases :: "allocator \<Rightarrow> (int \<Rightarrow> int list) \<Rightarrow> int set" where
  "slab_bases a AS = {base_of a sl | sl. \<exists>k. sl \<in> set (AS k)}"

lemma masked_dvd: "2 ^ n dvd uint (w AND NOT (word_of_int (2 ^ n - 1)) :: u64)"
proof -
  have "take_bit n (w AND NOT (mask n)) = 0" by (rule bit_eqI) (auto simp: bit_simps)
  moreover have "(word_of_int (2 ^ n - 1) :: u64) = mask n" by (simp add: mask_eq_exp_minus_1)
  ultimately have "take_bit n (uint (w AND NOT (word_of_int (2 ^ n - 1)))) = 0"
    by (metis unsigned_take_bit_eq unsigned_0)
  then show ?thesis by (simp add: take_bit_eq_0_iff)
qed

lemma slab_address_dvd: "gss = 2 ^ n \<Longrightarrow> gss dvd nx \<Longrightarrow> gss dvd slab_address gss nx r"
  using masked_dvd [of n "drop_bit 17 r"] by (simp add: slab_address_def)

lemma aligned_gap:
  assumes "0 < (g::int)" "g dvd x" "g dvd y" "x < y" shows "x + g \<le> y"
  using zdvd_imp_le [of g "y - x"] assms by simp


lemma CreateSlab_eq_Mapped:
  assumes "fresh_mappings gss B (m_nextSlabAddr a) tries" "CreateSlab key tries a = Some r"
    "MapFailed \<notin> snd ` set tries" "gss dvd m_nextSlabAddr a" "slab_size a = gss"
  shows "\<exists>random64 tries' nx. CreateSlab key ((random64, Mapped) # tries') (a\<lparr>m_nextSlabAddr := nx\<rparr>) = Some r \<and>
    0 < slab_address gss nx random64 \<and> slab_address gss nx random64 \<notin> B \<and> gss dvd nx"
  using assms
proof (induction tries arbitrary: a)
  case (Cons t tries)
  obtain r64 ans where t: "t = (r64, ans)" by (cases t)
  show ?case
  proof (cases ans)
    case Mapped
    then show ?thesis using Cons.prems t
      by (intro exI [of _ r64] exI [of _ tries] exI [of _ "m_nextSlabAddr a"]) simp
  next
    case Collided
    let ?a = "a\<lparr>m_nextSlabAddr := 0\<rparr>"
    have "CreateSlab key tries ?a = Some r" using Cons.prems(2) t Collided by simp
    moreover have "fresh_mappings gss B (m_nextSlabAddr ?a) tries" using Cons.prems(1) t Collided by simp
    ultimately show ?thesis using Cons.IH [of ?a] Cons.prems(3,5) by (auto simp del: CreateSlab.simps)
  qed (use Cons.prems t in simp)
qed simp

text \<open>The slab at \<open>sl\<close>, whose memory starts at \<open>addr\<close>, as \<open>CreateSlab\<close> builds it.\<close>

definition new_slab_state ::
  "allocator \<Rightarrow> int \<Rightarrow> int \<Rightarrow> int llist \<Rightarrow> int links \<Rightarrow> int llist \<Rightarrow> int links \<Rightarrow> int llist \<Rightarrow> int links \<Rightarrow> allocator"
where
  "new_slab_state a key addr l1 k1 l2 k2 l3 k3 =
     (let sl = addr + slab_size a - sizeof_Slab; c = category a key in
      a\<lparr>mem := (mem a)(addr := CShim (GetUsableSize (slab_size a) key)),
        shim_links := k3, all_links := k1, free_links := k2,
        slabs := (slabs a)(sl := \<lparr>sizeCategory = key, freeSpaceList = l3, currentObjects = 0\<rparr>),
        m_sizes := insert_key key (c\<lparr>allSlabs := l1, freeSlabs := l2\<rparr>) (m_sizes a),
        m_nextSlabAddr := addr + slab_size a\<rparr>)"

lemma CreateSlab_run:
  assumes addr: "addr = slab_address (slab_size a) (m_nextSlabAddr a) random64"
    and sl: "sl = addr + slab_size a - sizeof_Slab"
    and l1: "ll_rep (allSlabs (category a key)) (all_links a) as" "sl \<notin> set as"
    and l2: "ll_rep (freeSlabs (category a key)) (free_links a) fs" "sl \<notin> set fs"
  shows "\<exists>l1 k1 l2 k2 l3 k3. CreateSlab key ((random64, Mapped) # tries) a =
      Some (Inr (sl, new_slab_state a key addr l1 k1 l2 k2 l3 k3)) \<and>
    ll_rep l1 k1 (as @ [sl]) \<and> same_outside (insert sl (set as)) (all_links a) k1 \<and>
    ll_rep l2 k2 (fs @ [sl]) \<and> same_outside (insert sl (set fs)) (free_links a) k2 \<and>
    ll_rep l3 k3 [addr] \<and> same_outside {addr} (shim_links a) k3"
proof -
  let ?k1 = "set_prv sl None (set_nxt sl None (all_links a))"
  let ?k2 = "set_prv sl None (set_nxt sl None (free_links a))"
  let ?k3 = "set_prv addr None (set_nxt addr None (shim_links a))"
  have so: "same_outside {sl} (all_links a) ?k1" "same_outside {sl} (free_links a) ?k2"
    "same_outside {addr} (shim_links a) ?k3" by (simp_all add: same_outside_def)
  have r1: "ll_rep (allSlabs (category a key)) ?k1 as" by (rule same_outside_rep [OF so(1) _ l1(1)]) (use l1 in simp)
  have r2: "ll_rep (freeSlabs (category a key)) ?k2 fs" by (rule same_outside_rep [OF so(2) _ l2(1)]) (use l2 in simp)
  obtain m1 j1 where i1: "InsertAtEnd sl (allSlabs (category a key)) ?k1 = Inr (m1, j1)"
    "ll_rep m1 j1 (as @ [sl])" "same_outside (insert sl (set as)) ?k1 j1"
    using InsertAtEnd_rep [OF r1 _ l1(2)] by (auto simp: unlinked_def)
  obtain m2 j2 where i2: "InsertAtEnd sl (freeSlabs (category a key)) ?k2 = Inr (m2, j2)"
    "ll_rep m2 j2 (fs @ [sl])" "same_outside (insert sl (set fs)) ?k2 j2"
    using InsertAtEnd_rep [OF r2 _ l2(2)] by (auto simp: unlinked_def)
  have u3: "unlinked ?k3 addr" by (simp add: unlinked_def)
  obtain m3 j3 where i3: "InsertAtStart addr empty_llist ?k3 = Inr (m3, j3)"
    "ll_rep m3 j3 [addr]" "same_outside {addr} ?k3 j3"
    using InsertAtStart_rep [OF ll_rep_empty u3] by auto
  have run: "CreateSlab key ((random64, Mapped) # tries) a =
      Some (Inr (sl, new_slab_state a key addr m1 j1 m2 j2 m3 j3))"
    using i1(1) i2(1) i3(1)
    by (simp add: addr [symmetric] sl [symmetric] Let_def category_def set_category_def set_shims_def
        write_shim_def set_cell_def new_slab_state_def)
  have "same_outside (insert sl (set as)) (all_links a) j1" using i1(3) by (auto simp: same_outside_def)
  moreover have "same_outside (insert sl (set fs)) (free_links a) j2" using i2(3) by (auto simp: same_outside_def)
  moreover have "same_outside {addr} (shim_links a) j3" using i3(3) by (auto simp: same_outside_def)
  ultimately show ?thesis using run i1(2) i2(2) i3(2) by blast
qed


lemma new_slab_state_sel:
  defines "sl a addr \<equiv> addr + slab_size a - sizeof_Slab"
  shows
  "mem (new_slab_state a key addr l1 k1 l2 k2 l3 k3) =
     (mem a)(addr := CShim (GetUsableSize (slab_size a) key))"
  "shim_links (new_slab_state a key addr l1 k1 l2 k2 l3 k3) = k3"
  "all_links (new_slab_state a key addr l1 k1 l2 k2 l3 k3) = k1"
  "free_links (new_slab_state a key addr l1 k1 l2 k2 l3 k3) = k2"
  "slabs (new_slab_state a key addr l1 k1 l2 k2 l3 k3) =
     (slabs a)(sl a addr := \<lparr>sizeCategory = key, freeSpaceList = l3, currentObjects = 0\<rparr>)"
  "slab_size (new_slab_state a key addr l1 k1 l2 k2 l3 k3) = slab_size a"
  "m_nextSlabAddr (new_slab_state a key addr l1 k1 l2 k2 l3 k3) = addr + slab_size a"
  "category (new_slab_state a key addr l1 k1 l2 k2 l3 k3) k =
     (if k = key then (category a key)\<lparr>allSlabs := l1, freeSlabs := l2\<rparr> else category a k)"
  by (auto simp: new_slab_state_def Let_def sl_def category_def)

lemma new_slab_rep:
  assumes inv: "alloc_rep a AS FS RS" and key: "key \<in> set (keys a)" "key \<le> slab_size a - sizeof_Slab"
    and addr: "0 < addr" "slab_size a dvd addr" "addr \<notin> slab_bases a AS"
    and sl: "sl = addr + slab_size a - sizeof_Slab"
    and l1: "ll_rep l1 k1 (AS key @ [sl])" "same_outside (insert sl (set (AS key))) (all_links a) k1"
    and l2: "ll_rep l2 k2 (FS key @ [sl])" "same_outside (insert sl (set (FS key))) (free_links a) k2"
    and l3: "ll_rep l3 k3 [addr]" "same_outside {addr} (shim_links a) k3"
  defines "c \<equiv> new_slab_state a key addr l1 k1 l2 k2 l3 k3"
    and "RS' \<equiv> RS(sl := [Free (GetUsableSize (slab_size a) key div key)])"
  shows "alloc_rep c (AS(key := AS key @ [sl])) (FS(key := FS key @ [sl])) RS'"
    and "live_objects c (AS(key := AS key @ [sl])) RS' = live_objects a AS RS"
proof -
  note I = alloc_repD [OF inv]
  note sel = new_slab_state_sel [of a key addr l1 k1 l2 k2 l3 k3, folded c_def sl]
  have ck: "category_rep a key (AS key) (FS key)" using I(4) [OF key(1)] .
  have kpos: "0 < key" using ck by (simp add: category_rep_def sizeof_Obj_def)
  have base: "base_of a sl = addr" by (simp add: sl GetSectionBaseAddress_def)
  have new: "sl \<notin> set (AS k)" for k using addr(3) base by (auto simp: slab_bases_def)
  have newF: "sl \<notin> set (FS k)" for k using new free_in_all [OF inv] by blast
  have ks: "keys c = keys a" using keys_set_same [OF I(3) key(1)] by (simp add: c_def new_slab_state_def Let_def)
  have usable: "0 \<le> GetUsableSize (slab_size a) k" "GetUsableSize (slab_size a) k \<le> slab_size a - sizeof_Slab"
    if "0 < k" for k using usable_bounds [OF that, of "slab_size a"] I(1) by auto
  have us: "key dvd GetUsableSize (slab_size a) key" "0 < GetUsableSize (slab_size a) key div key"
  proof -
    have "GetUsableSize (slab_size a) key = (slab_size a - sizeof_Slab) div key * key"
      by (simp add: GetUsableSize_def Let_def minus_mod_eq_div_mult)
    moreover have "0 < (slab_size a - sizeof_Slab) div key" using key(2) kpos pos_imp_zdiv_pos_iff by blast
    ultimately show "key dvd GetUsableSize (slab_size a) key" "0 < GetUsableSize (slab_size a) key div key"
      using kpos by simp_all
  qed
  have diff: "addr \<notin> slab_area a t" if "t \<in> set (AS k)" for k t
  proof -
    have "slab_in_rep a k (t \<in> set (FS k)) (RS t) t" by (rule I(6) [OF that])
    then have d: "slab_size a dvd base_of a t" "0 < sizeCategory (slabs a t)"
      by (auto simp: slab_in_rep_def slab_rep_def sweeping_def)
    have "addr \<noteq> base_of a t" using addr(3) that by (auto simp: slab_bases_def)
    then consider "addr < base_of a t" | "base_of a t < addr" by linarith
    then show ?thesis
    proof cases
      case 2
      have "0 < slab_size a" using I(1) by (simp add: sizeof_Slab_def)
      then have "base_of a t + slab_size a \<le> addr" using aligned_gap d(1) addr(2) 2 by blast
      then show ?thesis using usable [OF d(2)] by (simp add: sizeof_Slab_def)
    qed simp
  qed
  have catr: "category_rep c k ((AS(key := AS key @ [sl])) k) ((FS(key := FS key @ [sl])) k)"
    if "k \<in> set (keys a)" for k
  proof (cases "k = key")
    case True
    then show ?thesis using ck l1 l2 sel by (auto simp: category_rep_def)
  next
    case False
    have "x \<notin> set (AS k)" if "x \<in> set (AS key)" for x
      using False slab_key [OF inv, of x key] slab_key [OF inv, of x k] that by auto
    moreover have "set (FS key) \<subseteq> set (AS key)" "set (FS k) \<subseteq> set (AS k)" using free_in_all [OF inv] by auto
    ultimately have "insert sl (set (AS key)) \<inter> set (AS k) = {}" "insert sl (set (FS key)) \<inter> set (FS k) = {}"
      using new [of k] by auto
    then show ?thesis
      using I(4) [OF that] False sel same_outside_rep [OF l1(2), of "AS k"] same_outside_rep [OF l2(2), of "FS k"]
      by (auto simp: category_rep_def)
  qed
  have slabr: "slab_in_rep c k (t \<in> set ((FS(key := FS key @ [sl])) k)) (RS' t) t"
    if "t \<in> set ((AS(key := AS key @ [sl])) k)" for k t
  proof (cases "t = sl")
    case True
    then have "k = key" using that new by (auto split: if_splits)
    moreover have "slab_rep c sl [Free (GetUsableSize (slab_size a) key div key)] [addr]"
      using us kpos l3 base by (simp add: slab_rep_def sweeping_def sel)
    ultimately show ?thesis using True addr base sel by (auto simp: slab_in_rep_def RS'_def)
  next
    case False
    then have t: "t \<in> set (AS k)" using that by (auto split: if_splits)
    have mem: "(t \<in> set ((FS(key := FS key @ [sl])) k)) = (t \<in> set (FS k))" using False by auto
    have "slab_in_rep c k (t \<in> set (FS k)) (RS t) t"
    proof (rule slab_in_rep_frame [OF I(6) [OF t], of _ "{addr}"])
      assume "t \<notin> set (FS k)"
      then have "t \<notin> insert sl (set (FS key))"
        using False t slab_key [OF inv] free_in_all [OF inv] by (metis insertE subsetD)
      then show "nxt (free_links c) t = nxt (free_links a) t \<and> prv (free_links c) t = prv (free_links a) t"
        using l2(2) sel by (auto simp: same_outside_def)
    qed (use False sel l3 diff [OF t] in auto)
    then show ?thesis using False mem by (simp add: RS'_def)
  qed
  show "alloc_rep c (AS(key := AS key @ [sl])) (FS(key := FS key @ [sl])) RS'"
    unfolding alloc_rep_def ks using I catr slabr sel addr(2) key(1) by auto
  have objs: "slab_objects c t (RS' t) = (if t = sl then [] else slab_objects a t (RS t))" for t
    using sel by (simp add: slab_objects_def RS'_def)
  have "(\<exists>t \<in> set ((AS(key := AS key @ [sl])) k). p \<in> set (slab_objects c t (RS' t))) \<longleftrightarrow>
      (\<exists>t \<in> set (AS k). p \<in> set (slab_objects a t (RS t)))" for p k
    using new [of k] by (cases "k = key") (auto simp: objs)
  then show "live_objects c (AS(key := AS key @ [sl])) RS' = live_objects a AS RS"
    by (simp add: live_objects_def)
qed

end
