(* ===== verification/Slab_Heap.thy ===== *)
theory Slab_Heap
  imports Slab_Theorems
begin

text \<open>
  The contract of the allocator: \<open>AllocateNative\<close> returns fresh, aligned memory that overlaps no
  live object, and \<open>DeallocateUnreachableObjects\<close> keeps exactly the objects that carry the GC
  word of the finished cycle.
\<close>

section \<open>Allocation\<close>

lemma live_object_slab:
  assumes inv: "alloc_rep a AS FS RS" and sl: "sl \<in> set (AS k)" and p: "p \<in> set (slab_objects a sl (RS sl))"
  shows "base_of a sl \<le> p" "p + k \<le> base_of a sl + GetUsableSize (slab_size a) k" "k dvd p - base_of a sl"
    "8 dvd p"
proof -
  have k: "sizeCategory (slabs a sl) = k" "k \<in> set (keys a)" using slab_key [OF inv sl] by auto
  obtain fs where r: "slab_rep a sl (RS sl) fs" and d: "slab_size a dvd base_of a sl"
    using alloc_repD(6) [OF inv sl] by (auto simp: slab_in_rep_def)
  have lay: "layout (mem a) k (base_of a sl) (RS sl)" "0 < k" "width k (RS sl) = GetUsableSize (slab_size a) k"
    using r k by (auto simp: slab_rep_def sweeping_def)
  have u: "p \<in> set (used_addrs k (base_of a sl) (RS sl))" using p k by (simp add: slab_objects_def)
  show "base_of a sl \<le> p" "p + k \<le> base_of a sl + GetUsableSize (slab_size a) k"
    using addrs_range [OF lay(1,2), of p] u lay(3) by auto
  show dv: "k dvd p - base_of a sl" using layout_aligned [OF lay(1,2)] u by blast
  have "8 dvd base_of a sl" using alloc_repD(2) [OF inv] d by (rule dvd_trans)
  moreover have "8 dvd p - base_of a sl"
    using dvd_trans [OF _ dv, of 8] alloc_repD(4) [OF inv k(2)] by (simp add: category_rep_def)
  ultimately have "8 dvd base_of a sl + (p - base_of a sl)" by (rule dvd_add)
  then show "8 dvd p" by simp
qed

text \<open>An allocation in a category that has a slab with free space.\<close>

lemma allocate_in_category:
  assumes inv: "alloc_rep a AS FS RS" and F: "FS key = sl # ys"
  shows "\<exists>p b FS' RS'. allocate_in_slab key sl a = (Inr p, b) \<and> alloc_rep (construct p b) AS FS' RS' \<and>
    p \<notin> live_objects a AS RS \<and> live_objects (construct p b) AS RS' = insert p (live_objects a AS RS) \<and>
    gcw (construct p b) = (gcw a)(p := INITIAL_GC_WORD) \<and> slab_size (construct p b) = slab_size a \<and>
    sl \<in> set (AS key) \<and> p \<in> set (slab_objects (construct p b) sl (RS' sl))"
proof -
  have sl: "sl \<in> set (AS key)" using F free_in_all [OF inv, of key] by auto
  have key: "sizeCategory (slabs a sl) = key" "key \<in> set (keys a)" using slab_key [OF inv sl] by auto
  have ll: "ll_rep (freeSlabs (category a key)) (free_links a) (sl # ys)"
    using alloc_repD(4) [OF inv key(2)] F by (simp add: category_rep_def)
  obtain fs where "slab_rep a sl (RS sl) fs" "fs \<noteq> []"
    using alloc_repD(6) [OF inv sl] F by (auto simp: slab_in_rep_def)
  then obtain x fs0 where rep: "slab_rep a sl (RS sl) (x # fs0)" by (cases fs) auto
  from allocate_in_slab_correct [OF rep key(1) ll] obtain b rs' fs' where
    run: "allocate_in_slab key sl a = (Inr x, b)" "alloc_step a sl x ys (RS sl) fs' rs' (construct x b)" by blast
  have "gcw (construct x b) = (gcw a)(x := INITIAL_GC_WORD)" "slab_size (construct x b) = slab_size a"
    "x \<in> set (slab_objects (construct x b) sl ((RS(sl := rs')) sl))"
    using run(2) unfolding alloc_step_def Let_def by auto
  with run(1) sl alloc_step_rep [OF inv F run(2)] show ?thesis by blast
qed

lemma AllocateNative_cases:
  assumes inv: "alloc_rep a AS FS RS" and sz: "sizeof_Obj \<le> sz"
    and fits: "best_size sz \<le> slab_size a - sizeof_Slab"
    and os: "fresh_mappings (slab_size a) (slab_bases a AS) (m_nextSlabAddr a) tries" "MapFailed \<notin> snd ` set tries"
    and run: "AllocateNative sz tries a = Some (r, c)"
  shows "\<exists>p AS' FS' RS'. r = Inr p \<and> alloc_rep c AS' FS' RS' \<and> p \<notin> live_objects a AS RS \<and>
    live_objects c AS' RS' = insert p (live_objects a AS RS) \<and> gcw c = (gcw a)(p := INITIAL_GC_WORD) \<and>
    slab_size c = slab_size a \<and> (\<forall>k. set (AS k) \<subseteq> set (AS' k)) \<and>
    (\<exists>k sl. sz \<le> k \<and> sl \<in> set (AS' k) \<and> p \<in> set (slab_objects c sl (RS' sl)))"
proof -
  from GetOrCreateBestCategory_rep [OF inv sz] obtain key b where
    g: "GetOrCreateBestCategory sz a = (Inr key, b)" and bi: "alloc_rep b AS FS RS"
    and lb: "live_objects b AS RS = live_objects a AS RS" and key: "key \<in> set (keys b)" "sz \<le> key"
      "key \<le> best_size sz" and ss: "slab_size b = slab_size a" "m_nextSlabAddr b = m_nextSlabAddr a" .
  have gb: "gcw b = gcw a" using g by (auto simp: GetOrCreateBestCategory_def Let_def split: if_splits)
  have ck: "category_rep b key (AS key) (FS key)" by (rule alloc_repD(4) [OF bi key(1)])
  have cs: "\<not> cat_size (category b key) < sz" using ck key by (simp add: category_rep_def)
  have st: "start (freeSlabs (category b key)) = hd_or None (FS key)"
    using ck by (simp add: category_rep_def ll_rep_def)
  show ?thesis
  proof (cases "FS key")
    case (Cons sl ys)
    from allocate_in_category [OF bi Cons] obtain p d FS' RS' where
      p: "allocate_in_slab key sl b = (Inr p, d)" "alloc_rep (construct p d) AS FS' RS'"
      "p \<notin> live_objects b AS RS" "live_objects (construct p d) AS RS' = insert p (live_objects b AS RS)"
      "gcw (construct p d) = (gcw b)(p := INITIAL_GC_WORD)" "slab_size (construct p d) = slab_size b"
      "sl \<in> set (AS key)" "p \<in> set (slab_objects (construct p d) sl (RS' sl))" by blast
    have "AllocateNative sz tries a = Some (Inr p, construct p d)"
      using g cs st Cons p(1) by (simp add: AllocateNative_def AllocateRaw_def)
    moreover have "\<exists>k t. sz \<le> k \<and> t \<in> set (AS k) \<and> p \<in> set (slab_objects (construct p d) t (RS' t))"
      using p(7,8) key(2) by blast
    ultimately show ?thesis using run p(1-6) lb gb ss
      by (intro exI [of _ p] exI [of _ AS] exI [of _ FS'] exI [of _ RS']) simp
  next
    case Nil
    then obtain q where q: "CreateSlab key tries b = Some q"
      using run g cs st by (auto simp: AllocateNative_def AllocateRaw_def split: option.splits sum.splits)
    have os': "fresh_mappings (slab_size a) (slab_bases a AS) (m_nextSlabAddr b) tries" using os(1) ss by simp
    from CreateSlab_eq_Mapped [OF os' q os(2) _ ss(1)] alloc_repD(8) [OF bi] ss obtain r64 tries' nx where
      m: "CreateSlab key ((r64, Mapped) # tries') (b\<lparr>m_nextSlabAddr := nx\<rparr>) = Some q"
      "0 < slab_address (slab_size a) nx r64" "slab_address (slab_size a) nx r64 \<notin> slab_bases a AS"
      "slab_size a dvd nx" by auto
    let ?b = "b\<lparr>m_nextSlabAddr := nx\<rparr>"
    define addr where "addr = slab_address (slab_size ?b) (m_nextSlabAddr ?b) r64"
    define sl where "sl = addr + slab_size ?b - sizeof_Slab"
    have bi': "alloc_rep ?b AS FS RS"
    proof -
      have "slab_in_rep ?b k (t \<in> set (FS k)) (RS t) t" if "t \<in> set (AS k)" for k t
        by (rule slab_in_rep_frame [OF alloc_repD(6) [OF bi that], of _ "{}"]) (simp_all add: same_outside_def)
      then show ?thesis using alloc_repD [OF bi] m(4) ss
        by (simp add: alloc_rep_def category_rep_def category_def)
    qed
    have lb': "live_objects ?b AS RS = live_objects a AS RS"
      using lb by (simp add: live_objects_def slab_objects_def)
    obtain n where n: "slab_size b = 2 ^ n" using alloc_repD(7) [OF bi] by blast
    have ad: "0 < addr" "addr \<notin> slab_bases ?b AS" "slab_size ?b dvd addr"
      using m ss slab_address_dvd [OF n] by (simp_all add: addr_def slab_bases_def)
    have base: "base_of ?b sl = addr" by (simp add: sl_def GetSectionBaseAddress_def)
    have nin: "sl \<notin> set (AS k)" "sl \<notin> set (FS k)" for k
    proof -
      show "sl \<notin> set (AS k)" using ad(2) base by (auto simp: slab_bases_def)
      then show "sl \<notin> set (FS k)" using free_in_all [OF bi] by blast
    qed
    have ck': "ll_rep (allSlabs (category ?b key)) (all_links ?b) (AS key)"
      "ll_rep (freeSlabs (category ?b key)) (free_links ?b) (FS key)"
      using ck by (simp_all add: category_rep_def category_def)
    from CreateSlab_run [OF addr_def sl_def ck'(1) nin(1) ck'(2) nin(2), of tries'] m(1)
    obtain l1 k1 l2 k2 l3 k3 where c: "q = Inr (sl, new_slab_state ?b key addr l1 k1 l2 k2 l3 k3)"
      and R: "ll_rep l1 k1 (AS key @ [sl])" "same_outside (insert sl (set (AS key))) (all_links ?b) k1"
      "ll_rep l2 k2 (FS key @ [sl])" "same_outside (insert sl (set (FS key))) (free_links ?b) k2"
      "ll_rep l3 k3 [addr]" "same_outside {addr} (shim_links ?b) k3" by auto
    let ?c = "new_slab_state ?b key addr l1 k1 l2 k2 l3 k3"
    have kk: "key \<in> set (keys ?b)" "key \<le> slab_size ?b - sizeof_Slab" using key fits ss by simp_all
    let ?RS = "RS(sl := [Free (GetUsableSize (slab_size ?b) key div key)])"
    note N = new_slab_rep [OF bi' kk ad(1,3,2) sl_def R]
    have "(FS(key := FS key @ [sl])) key = sl # []" using Nil by simp
    from allocate_in_category [OF N(1) this] obtain p d FS' RS' where
      p: "allocate_in_slab key sl ?c = (Inr p, d)" "alloc_rep (construct p d) (AS(key := AS key @ [sl])) FS' RS'"
      "p \<notin> live_objects ?c (AS(key := AS key @ [sl])) ?RS"
      "live_objects (construct p d) (AS(key := AS key @ [sl])) RS' =
        insert p (live_objects ?c (AS(key := AS key @ [sl])) ?RS)"
      "gcw (construct p d) = (gcw ?c)(p := INITIAL_GC_WORD)" "slab_size (construct p d) = slab_size ?c"
      "sl \<in> set ((AS(key := AS key @ [sl])) key)" "p \<in> set (slab_objects (construct p d) sl (RS' sl))" by blast
    have "AllocateNative sz tries a = Some (Inr p, construct p d)"
      using g cs st Nil q c p(1) by (simp add: AllocateNative_def AllocateRaw_def)
    moreover have "gcw ?c = gcw a" "slab_size ?c = slab_size a" using gb ss by (simp_all add: new_slab_state_def Let_def)
    moreover have "\<exists>k t. sz \<le> k \<and> t \<in> set ((AS(key := AS key @ [sl])) k) \<and>
        p \<in> set (slab_objects (construct p d) t (RS' t))"
      using p(7,8) key(2) by blast
    moreover have "\<forall>k. set (AS k) \<subseteq> set ((AS(key := AS key @ [sl])) k)" by auto
    ultimately show ?thesis
      using run p(2-6) N(2) lb'
      by (intro exI [of _ p] exI [of _ "AS(key := AS key @ [sl])"] exI [of _ FS'] exI [of _ RS']) simp
  qed
qed

section \<open>Objects never overlap\<close>

lemma live_objects_apart:
  assumes inv: "alloc_rep a AS FS RS"
    and p: "t \<in> set (AS k)" "p \<in> set (slab_objects a t (RS t))"
    and q: "u \<in> set (AS l)" "q \<in> set (slab_objects a u (RS u))" and "p < q"
  shows "p + k \<le> q"
proof (cases "t = u")
  case True
  then have "k = l" "0 < k" using slab_key [OF inv p(1)] slab_key [OF inv q(1)] alloc_repD(4) [OF inv, of k]
    by (auto simp: category_rep_def sizeof_Obj_def)
  then show ?thesis
    using aligned_gap [of k "p - base_of a t" "q - base_of a t"] live_object_slab(3) [OF inv p]
      live_object_slab(3) [OF inv q] True \<open>p < q\<close> by simp
next
  case False
  have "slab_area a t \<inter> slab_area a u = {}"
    using slab_areas_disjoint [OF alloc_repD(1) [OF inv] alloc_repD(6) [OF inv p(1)]
        alloc_repD(6) [OF inv q(1)] False] .
  moreover have "sizeCategory (slabs a t) = k" "sizeCategory (slabs a u) = l" "0 < k" "0 < l"
    using slab_key [OF inv p(1)] slab_key [OF inv q(1)] alloc_repD(4) [OF inv, of k] alloc_repD(4) [OF inv, of l]
    by (auto simp: category_rep_def sizeof_Obj_def)
  moreover note live_object_slab(1,2) [OF inv p] live_object_slab(1,2) [OF inv q]
  ultimately have "\<not> q < p + k"
  proof -
    assume disj: "slab_area a t \<inter> slab_area a u = {}"
      and eq: "sizeCategory (slabs a t) = k" "sizeCategory (slabs a u) = l" "0 < k" "0 < l"
      and b: "base_of a t \<le> p" "p + k \<le> base_of a t + GetUsableSize (slab_size a) k"
        "base_of a u \<le> q" "q + l \<le> base_of a u + GetUsableSize (slab_size a) l"
    have "q \<in> slab_area a u" "q \<in> slab_area a t" if "q < p + k" using that b eq \<open>p < q\<close> by auto
    then show ?thesis using disj by blast
  qed
  then show ?thesis by simp
qed

section \<open>The sweep of all slabs\<close>

lemma used_and_free_width:
  "layout m sz p rs \<Longrightarrow> 0 < sz \<Longrightarrow>
   (int (length (used_addrs sz p rs)) + int (length (free_addrs sz p rs))) * sz \<le> width sz rs"
proof (induction rs arbitrary: p)
  case (Cons r rs)
  then have "(int (length (used_addrs sz (p + region_width sz r) rs)) +
      int (length (free_addrs sz (p + region_width sz r) rs))) * sz \<le> width sz rs" by simp
  moreover have "sz \<le> region_width sz r" using Cons.prems region_width_pos [of m sz p r] by simp
  ultimately show ?case by (cases r) (simp_all add: distrib_right)
qed simp

lemma all_used: "free_addrs sz p rs = [] \<Longrightarrow> int (length (used_addrs sz p rs)) * sz = width sz rs"
  by (induction rs arbitrary: p) (auto simp: distrib_right split: region.splits)

text \<open>A slab with free space still has free space after the sweep.\<close>

lemma sweep_keeps_free:
  assumes "slab_rep a sl rs fs" "slab_rep b sl rs' fs'" "fs \<noteq> []"
    and eq: "sizeCategory (slabs b sl) = sizeCategory (slabs a sl)" "slab_size b = slab_size a"
    and len: "length (slab_objects a sl rs') \<le> length (slab_objects a sl rs)"
  shows "fs' \<noteq> []"
proof
  let ?k = "sizeCategory (slabs a sl)" and ?b = "base_of a sl"
  assume "fs' = []"
  then have "free_addrs ?k ?b rs' = []" using assms(2) eq by (simp add: slab_rep_def sweeping_def)
  then have 1: "int (length (slab_objects a sl rs')) * ?k = GetUsableSize (slab_size a) ?k"
    using all_used [of ?k ?b rs'] assms(2) eq by (simp add: slab_rep_def slab_objects_def)
  have l: "layout (mem a) ?k ?b rs" "0 < ?k" "width ?k rs = GetUsableSize (slab_size a) ?k" "free_addrs ?k ?b rs \<noteq> []"
    using assms(1,3) by (auto simp: slab_rep_def sweeping_def)
  have "(int (length (slab_objects a sl rs)) + int (length (free_addrs ?k ?b rs))) * ?k \<le> GetUsableSize (slab_size a) ?k"
    using used_and_free_width [OF l(1,2)] l(3) by (simp add: slab_objects_def)
  also have "\<dots> \<le> int (length (slab_objects a sl rs)) * ?k"
    using 1 len l(2) by (metis mult_right_mono of_nat_mono order_less_imp_le)
  finally show False using l(2,4) by simp
qed

lemma Deallocate_slab:
  assumes inv: "alloc_rep a AS FS RS" and sl: "sl \<in> set (AS key)"
    and fuel: "GetNumSlots (slab_size a) key < int fuel"
  shows "\<exists>c FS' rs'. DeallocateUnreachableObjectsForSlab fuel sl g a = Some (Inr c) \<and>
    alloc_rep c AS FS' (RS(sl := rs')) \<and> slab_size c = slab_size a \<and> gcw c = gcw a \<and>
    all_links c = all_links a \<and> keys c = keys a \<and>
    (\<forall>k. k \<in> set (keys a) \<longrightarrow> allSlabs (category c k) = allSlabs (category a k)) \<and>
    (\<forall>t rs. slab_objects c t rs = slab_objects a t rs) \<and>
    slab_objects a sl rs' = filter (\<lambda>p. gcw a p = g) (slab_objects a sl (RS sl))"
proof -
  note I = alloc_repD [OF inv]
  have key: "sizeCategory (slabs a sl) = key" "key \<in> set (keys a)" using slab_key [OF inv sl] by auto
  obtain fs where rep: "slab_rep a sl (RS sl) fs" and base: "slab_size a dvd base_of a sl" "0 < base_of a sl"
    and lst: "(sl \<in> set (FS key)) = (fs \<noteq> [])" "sl \<notin> set (FS key) \<Longrightarrow> unlinked (free_links a) sl"
    using I(6) [OF sl] by (auto simp: slab_in_rep_def)
  let ?A = "slab_area a sl" and ?hi = "base_of a sl + GetUsableSize (slab_size a) (sizeCategory (slabs a sl))"
  have "length (RS sl) < fuel" using regions_le_slots [OF rep] I(1) fuel key by simp
  from slab_sweep_correct [OF rep this, of g] obtain b rs' fs' where
    run: "sweep_loop fuel sl g (base_of a sl) ?hi None 0 a = Some (Inr (int (length (slab_objects a sl rs')), b))"
    and fr: "slab_frame (base_of a sl) ?hi sl a b"
    and rep': "slab_rep (b\<lparr>slabs := (slabs b)(sl := (slabs b sl)
        \<lparr>currentObjects := int (length (slab_objects a sl rs'))\<rparr>)\<rparr>) sl rs' fs'"
    and obj: "slab_objects a sl rs' = filter (\<lambda>p. gcw a p = g) (slab_objects a sl (RS sl))" by blast
  note F = slab_frame_fields [OF fr]
  let ?b = "b\<lparr>slabs := (slabs b)(sl := (slabs b sl)\<lparr>currentObjects := int (length (slab_objects a sl rs'))\<rparr>)\<rparr>"
  have st: "start (freeSpaceList (slabs b sl)) = hd_or None fs'"
    using rep' by (simp add: slab_rep_def sweeping_def ll_rep_def)
  have ck: "category_rep a key (AS key) (FS key)" using I(4) [OF key(2)] .
  have llF: "ll_rep (freeSlabs (category a key)) (free_links a) (FS key)" using ck by (simp add: category_rep_def)
  have marked: "(start (freeSlabs (category a key)) = Some sl \<or> prv (free_links a) sl \<noteq> None) = (sl \<in> set (FS key))"
  proof (cases "sl \<in> set (FS key)")
    case True
    then obtain xs ys where FS: "FS key = xs @ sl # ys" by (meson split_list)
    then show ?thesis using llF by (cases xs rule: rev_cases) (auto simp: ll_rep_def hd_or_def)
  next
    case False
    then show ?thesis using llF lst(2) by (cases "FS key") (auto simp: ll_rep_def unlinked_def)
  qed
  define full where "full \<longleftrightarrow> sl \<in> set (FS key) \<or> fs' = []"
  define FS' where "FS' = FS(key := FS key @ (if full then [] else [sl]))"
  have cs: "sizeCategory (slabs ?b sl) = key" using key F by simp
  have stays: "fs' \<noteq> []" if "sl \<in> set (FS key)"
    by (rule sweep_keeps_free [OF rep rep']) (use that lst F obj in simp_all)
  have "\<exists>l k. DeallocateUnreachableObjectsForSlab fuel sl g a =
      Some (Inr (if full then ?b else set_category key ((category ?b key)\<lparr>freeSlabs := l\<rparr>) (?b\<lparr>free_links := k\<rparr>))) \<and>
    ll_rep l k (FS' key) \<and> same_outside (insert sl (set (FS key))) (free_links a) k \<and>
    (full \<longrightarrow> l = freeSlabs (category a key) \<and> k = free_links a)"
  proof (cases full)
    case True
    then show ?thesis
      using run marked st cs F llF stays
      by (intro exI [of _ "freeSlabs (category a key)"] exI [of _ "free_links a"])
        (auto simp: DeallocateUnreachableObjectsForSlab_def Let_def full_def FS'_def category_def same_outside_def
          hd_or_def split: list.splits)
  next
    case False
    then have "sl \<notin> set (FS key)" "fs' \<noteq> []" by (auto simp: full_def)
    moreover from InsertAtEnd_rep [OF llF lst(2) this(1)] this(1) obtain l k where
      "InsertAtEnd sl (freeSlabs (category a key)) (free_links a) = Inr (l, k)" "ll_rep l k (FS key @ [sl])"
      "same_outside (insert sl (set (FS key))) (free_links a) k" by blast
    ultimately show ?thesis
      using run marked st cs F False
      by (intro exI [of _ l] exI [of _ k])
        (auto simp: DeallocateUnreachableObjectsForSlab_def Let_def full_def FS'_def category_def
          hd_or_def split: list.splits)
  qed
  then obtain l k where
    dr: "DeallocateUnreachableObjectsForSlab fuel sl g a =
      Some (Inr (if full then ?b else set_category key ((category ?b key)\<lparr>freeSlabs := l\<rparr>) (?b\<lparr>free_links := k\<rparr>)))"
    and lk: "ll_rep l k (FS' key)" "same_outside (insert sl (set (FS key))) (free_links a) k"
      "full \<Longrightarrow> l = freeSlabs (category a key) \<and> k = free_links a" by blast
  define c where "c = (if full then ?b else set_category key ((category ?b key)\<lparr>freeSlabs := l\<rparr>) (?b\<lparr>free_links := k\<rparr>))"
  have sel: "slab_size c = slab_size a" "gcw c = gcw a" "all_links c = all_links a" "mem c = mem b"
    "shim_links c = shim_links b" "slabs c = slabs ?b" "m_nextSlabAddr c = m_nextSlabAddr a" "free_links c = k"
    using F lk(3) by (auto simp: c_def set_category_def)
  have cats: "category c q = (if q = key then (category a key)\<lparr>freeSlabs := l\<rparr> else category a q)" for q
    using F lk(3) by (auto simp: c_def category_def set_category_def)
  have ks: "keys c = keys a" using F keys_set_same [OF I(3) key(2)] by (simp add: c_def set_category_def)
  have objs: "slab_objects c t rs = slab_objects a t rs" for t rs
    using F by (auto simp: slab_objects_def sel)
  have FSsub: "set (FS' q) - {sl} = set (FS q) - {sl}" for q by (auto simp: FS'_def)
  have mem': "(sl \<in> set (FS' key)) = (fs' \<noteq> [])" using stays by (auto simp: FS'_def full_def)
  have catr: "category_rep c q (AS q) (FS' q)" if "q \<in> set (keys a)" for q
  proof (cases "q = key")
    case True
    then show ?thesis using ck lk(1) sl by (auto simp: category_rep_def cats sel FS'_def)
  next
    case False
    have "x \<notin> set (FS q)" if "x \<in> set (AS key)" for x
      using False slab_key [OF inv, of x key] slab_key [OF inv, of x q] free_in_all [OF inv, of q] that by auto
    then have "insert sl (set (FS key)) \<inter> set (FS q) = {}" using sl free_in_all [OF inv, of key] by blast
    then show ?thesis
      using I(4) [OF that] False same_outside_rep [OF lk(2), of "FS q"]
      by (auto simp: category_rep_def cats sel FS'_def)
  qed
  have srep: "slab_rep c sl rs' fs'" using rep' by (simp add: slab_rep_def sweeping_def sel F)
  have slabr: "slab_in_rep c q (t \<in> set (FS' q)) ((RS(sl := rs')) t) t" if "t \<in> set (AS q)" for q t
  proof (cases "t = sl")
    case True
    then have "q = key" using slab_key [OF inv that] key by simp
    moreover have "unlinked (free_links c) sl" if "sl \<notin> set (FS' key)"
    proof -
      have full "sl \<notin> set (FS key)" using that by (auto simp: FS'_def split: if_splits)
      then show ?thesis using lst(2) lk(3) sel by simp
    qed
    ultimately show ?thesis using True base srep mem' key F by (auto simp: slab_in_rep_def sel)
  next
    case False
    have "(t \<in> set (FS' q)) = (t \<in> set (FS q))" using False FSsub [of q] by blast
    moreover have "slab_in_rep c q (t \<in> set (FS q)) (RS t) t"
    proof (rule slab_in_rep_frame [OF I(6) [OF that], of _ ?A])
      assume "t \<notin> set (FS q)"
      then have "t \<notin> insert sl (set (FS key))"
        using False that slab_key [OF inv] free_in_all [OF inv] key(1) by (metis insertE subsetD)
      then show "nxt (free_links c) t = nxt (free_links a) t \<and> prv (free_links c) t = prv (free_links a) t"
        using lk(2) by (auto simp: same_outside_def sel)
    qed (use False F sel slab_areas_disjoint [OF I(1) I(6) [OF sl] I(6) [OF that]] in auto)
    ultimately show ?thesis using False by simp
  qed
  have "alloc_rep c AS FS' (RS(sl := rs'))"
    unfolding alloc_rep_def ks using I catr slabr sel key(2) by (auto simp: FS'_def)
  then show ?thesis
    using dr obj ks sel(1-3) cats objs unfolding c_def [symmetric]
    by (intro exI [of _ c] exI [of _ FS'] exI [of _ rs']) auto
qed

text \<open>
  \<open>swept AS g D a RS c RS'\<close>: from \<open>a\<close> to \<open>c\<close> exactly the slabs \<open>D\<close> have been swept.
\<close>

definition swept ::
  "(int \<Rightarrow> int list) \<Rightarrow> u64 \<Rightarrow> int set \<Rightarrow> allocator \<Rightarrow> (int \<Rightarrow> region list) \<Rightarrow> allocator \<Rightarrow> (int \<Rightarrow> region list) \<Rightarrow> bool"
where
  "swept AS g D a RS c RS' \<longleftrightarrow>
     (\<exists>FS. alloc_rep c AS FS RS') \<and> slab_size c = slab_size a \<and> gcw c = gcw a \<and>
     all_links c = all_links a \<and> keys c = keys a \<and>
     (\<forall>k. k \<in> set (keys a) \<longrightarrow> allSlabs (category c k) = allSlabs (category a k)) \<and>
     (\<forall>t rs. slab_objects c t rs = slab_objects a t rs) \<and>
     (\<forall>t \<in> D. slab_objects a t (RS' t) = filter (\<lambda>p. gcw a p = g) (slab_objects a t (RS t))) \<and>
     (\<forall>t. t \<notin> D \<longrightarrow> RS' t = RS t)"

lemma sweptD:
  assumes "swept AS g D a RS c RS'"
  shows "\<exists>FS. alloc_rep c AS FS RS'" "slab_size c = slab_size a" "gcw c = gcw a" "keys c = keys a"
    "slab_objects c t rs = slab_objects a t rs"
    "t \<in> D \<Longrightarrow> slab_objects a t (RS' t) = filter (\<lambda>p. gcw a p = g) (slab_objects a t (RS t))"
  using assms by (simp_all add: swept_def)

lemma swept_trans:
  assumes "swept AS g D a RS b RS'" "swept AS g E b RS' c RS''" "D \<inter> E = {}"
  shows "swept AS g (D \<union> E) a RS c RS''"
proof -
  have "slab_objects a t (RS'' t) = filter (\<lambda>p. gcw a p = g) (slab_objects a t (RS t))" if "t \<in> D \<union> E" for t
  proof (cases "t \<in> D")
    case True
    then have "RS'' t = RS' t" using assms by (auto simp: swept_def)
    then show ?thesis using True assms(1) by (simp add: swept_def)
  next
    case False
    then have "t \<in> E" "RS' t = RS t" using that assms(1) by (auto simp: swept_def)
    then show ?thesis using assms(1,2) by (simp add: swept_def)
  qed
  then show ?thesis using assms by (simp add: swept_def)
qed

lemma swept_refl: "alloc_rep a AS FS RS \<Longrightarrow> swept AS g {} a RS a RS"
  by (auto simp: swept_def)

lemma sweep_slabs_correct:
  assumes "\<exists>FS. alloc_rep a AS FS RS" "key \<in> set (keys a)" "AS key = ds @ ss"
    "length ss \<le> n" "GetNumSlots (slab_size a) key < int fuel"
  shows "\<exists>c RS'. sweep_slabs fuel n (hd_or None ss) g a = Some (Inr c) \<and> swept AS g (set ss) a RS c RS'"
  using assms
proof (induction ss arbitrary: ds n a RS)
  case Nil
  then show ?case using swept_refl by fastforce
next
  case (Cons sl ss)
  obtain FS where inv: "alloc_rep a AS FS RS" using Cons.prems(1) by blast
  obtain m where n: "n = Suc m" using Cons.prems(4) by (cases n) auto
  have sl: "sl \<in> set (AS key)" using Cons.prems(3) by simp
  have ll: "ll_rep (allSlabs (category a key)) (all_links a) (ds @ sl # ss)"
    using alloc_repD(4) [OF inv Cons.prems(2)] Cons.prems(3) by (simp add: category_rep_def)
  then have nx: "nxt (all_links a) sl = hd_or None ss" and dist: "sl \<notin> set ss" by (auto simp: ll_rep_def)
  from Deallocate_slab [OF inv sl Cons.prems(5), of g] obtain b FS' rs' where
    run: "DeallocateUnreachableObjectsForSlab fuel sl g a = Some (Inr b)"
    and b: "alloc_rep b AS FS' (RS(sl := rs'))" "slab_size b = slab_size a" "gcw b = gcw a"
      "all_links b = all_links a" "keys b = keys a"
      "\<forall>k. k \<in> set (keys a) \<longrightarrow> allSlabs (category b k) = allSlabs (category a k)"
      "\<forall>t rs. slab_objects b t rs = slab_objects a t rs"
      "slab_objects a sl rs' = filter (\<lambda>p. gcw a p = g) (slab_objects a sl (RS sl))" by blast
  have s1: "swept AS g {sl} a RS b (RS(sl := rs'))"
    unfolding swept_def using b by (auto simp: fun_upd_def)
  have "\<exists>c RS'. sweep_slabs fuel m (hd_or None ss) g b = Some (Inr c) \<and> swept AS g (set ss) b (RS(sl := rs')) c RS'"
    by (rule Cons.IH [of b "RS(sl := rs')" "ds @ [sl]"], rule exI [of _ FS'], rule b(1))
      (use Cons.prems(2-5) n b(2,5) in simp_all)
  then obtain c RS' where c: "sweep_slabs fuel m (hd_or None ss) g b = Some (Inr c)"
    "swept AS g (set ss) b (RS(sl := rs')) c RS'" by blast
  have "swept AS g ({sl} \<union> set ss) a RS c RS'" using swept_trans [OF s1 c(2)] dist by simp
  then show ?case using run c(1) b(4) nx n by (intro exI [of _ c] exI [of _ RS']) simp
qed

lemma sweep_categories_correct:
  assumes "\<exists>FS. alloc_rep a AS FS RS" "set ks \<subseteq> set (keys a)" "distinct ks"
    "\<forall>k \<in> set ks. length (AS k) \<le> fuel \<and> GetNumSlots (slab_size a) k < int fuel"
  shows "\<exists>c RS'. sweep_categories fuel ks g a = Some (Inr c) \<and> swept AS g (\<Union>k \<in> set ks. set (AS k)) a RS c RS'"
  using assms
proof (induction ks arbitrary: a RS)
  case Nil
  then show ?case using swept_refl by fastforce
next
  case (Cons k ks)
  obtain FS where inv: "alloc_rep a AS FS RS" using Cons.prems(1) by blast
  have k: "k \<in> set (keys a)" using Cons.prems(2) by simp
  have st: "start (allSlabs (category a k)) = hd_or None (AS k)"
    using alloc_repD(4) [OF inv k] by (simp add: category_rep_def ll_rep_def)
  obtain b RS1 where b: "sweep_slabs fuel fuel (hd_or None (AS k)) g a = Some (Inr b)"
    "swept AS g (set (AS k)) a RS b RS1"
    using sweep_slabs_correct [OF Cons.prems(1) k, of "[]" "AS k" fuel fuel g] Cons.prems(4) by auto
  have "\<exists>c RS'. sweep_categories fuel ks g b = Some (Inr c) \<and> swept AS g (\<Union>k \<in> set ks. set (AS k)) b RS1 c RS'"
    by (rule Cons.IH [OF sweptD(1) [OF b(2)]])
      (use Cons.prems(2-4) sweptD(2) [OF b(2)] sweptD(4) [OF b(2)] in simp_all)
  then obtain c RS' where c: "sweep_categories fuel ks g b = Some (Inr c)"
    "swept AS g (\<Union>k \<in> set ks. set (AS k)) b RS1 c RS'" by blast
  have "t \<notin> set (AS l)" if "t \<in> set (AS k)" "l \<in> set ks" for t l
    using slab_key [OF inv, of t k] slab_key [OF inv, of t l] Cons.prems(3) that by auto
  then have "set (AS k) \<inter> (\<Union>k \<in> set ks. set (AS k)) = {}" by blast
  from swept_trans [OF b(2) c(2) this] show ?case
    using b(1) c(1) st by (intro exI [of _ c] exI [of _ RS']) simp
qed

text \<open>The whole sweep: with enough fuel it ends, and the objects that stay are those marked.\<close>

lemma Deallocate_all:
  assumes inv: "alloc_rep a AS FS RS"
    and fuel: "\<forall>k. length (AS k) \<le> fuel" "slab_size a \<le> int fuel"
  shows "\<exists>c FS' RS'. DeallocateUnreachableObjects fuel g a = Some (Inr c) \<and> alloc_rep c AS FS' RS' \<and>
    live_objects c AS RS' = {p \<in> live_objects a AS RS. gcw a p = g} \<and> gcw c = gcw a \<and>
    slab_size c = slab_size a"
proof -
  have "GetNumSlots (slab_size a) k < int fuel" if "k \<in> set (keys a)" for k
  proof -
    have "0 < k" using alloc_repD(4) [OF inv that] by (simp add: category_rep_def sizeof_Obj_def)
    moreover have "0 < slab_size a - sizeof_Slab" using alloc_repD(1) [OF inv] by simp
    ultimately have "(slab_size a - sizeof_Slab) div k \<le> slab_size a - sizeof_Slab"
      using zdiv_mono2 [of "slab_size a - sizeof_Slab" 1 k] by simp
    then show ?thesis using fuel(2) by (simp add: GetNumSlots_def sizeof_Slab_def)
  qed
  moreover have "distinct (keys a)" using alloc_repD(3) [OF inv] strict_sorted_iff by blast
  ultimately obtain c RS' where run: "sweep_categories fuel (keys a) g a = Some (Inr c)"
    and sw: "swept AS g (\<Union>k \<in> set (keys a). set (AS k)) a RS c RS'"
    using sweep_categories_correct [of a AS RS "keys a" fuel g] inv fuel(1) by blast
  obtain FS' where c: "alloc_rep c AS FS' RS'" using sw by (auto simp: swept_def)
  have obj: "slab_objects c t (RS' t) = filter (\<lambda>p. gcw a p = g) (slab_objects a t (RS t))" if "t \<in> set (AS k)" for k t
  proof -
    have "t \<in> (\<Union>k \<in> set (keys a). set (AS k))" using slab_key [OF inv that] that by blast
    from sweptD(6) [OF sw this] sweptD(5) [OF sw] show ?thesis by simp
  qed
  have "live_objects c AS RS' = {p \<in> live_objects a AS RS. gcw a p = g}"
    unfolding live_objects_def using obj by auto
  then show ?thesis using run c sw by (auto simp: DeallocateUnreachableObjects_def swept_def)
qed

section \<open>The contract\<close>

lemma CreateSlab_not_None: "Mapped \<in> snd ` set tries \<Longrightarrow> CreateSlab key tries a \<noteq> None"
  by (induction tries arbitrary: a) (force simp: Let_def split: mmap_result.splits prod.splits)+

lemma AllocateNative_total:
  assumes "alloc_rep a AS FS RS" "sizeof_Obj \<le> sz" "best_size sz \<le> slab_size a - sizeof_Slab"
    "fresh_mappings (slab_size a) (slab_bases a AS) (m_nextSlabAddr a) tries"
    "MapFailed \<notin> snd ` set tries" "Mapped \<in> snd ` set tries"
  shows "\<exists>p c AS' FS' RS'. AllocateNative sz tries a = Some (Inr p, c) \<and> alloc_rep c AS' FS' RS' \<and>
    p \<notin> live_objects a AS RS \<and> live_objects c AS' RS' = insert p (live_objects a AS RS) \<and>
    gcw c = (gcw a)(p := INITIAL_GC_WORD)"
proof -
  have "AllocateNative sz tries a \<noteq> None"
    using CreateSlab_not_None [OF assms(6)]
    by (auto simp: AllocateNative_def AllocateRaw_def simp del: not_None_eq
        split: option.splits sum.splits prod.splits)
  then obtain r c where run: "AllocateNative sz tries a = Some (r, c)" by auto
  from AllocateNative_cases [OF assms(1-5) run] run show ?thesis by blast
qed

lemma live_aligned: "alloc_rep a AS FS RS \<Longrightarrow> p \<in> live_objects a AS RS \<Longrightarrow> 8 dvd p"
  using live_object_slab(4) by (auto simp: live_objects_def)

lemma best_size_le: "find (\<lambda>p. sz \<le> p) PREFERRED_SIZES = Some q \<Longrightarrow> best_size sz \<le> q"
  by (simp add: best_size_def Let_def)

definition demo_tries :: "(u64 \<times> mmap_result) list" where
  "demo_tries = [(0xFFFF000000000000, Collided), (0x0123456789ABCDEF, Mapped)]"

lemma demo_facts:
  "alloc_rep (initial_allocator 16384) (\<lambda>_. []) (\<lambda>_. []) (\<lambda>_. [])"
  "best_size 24 \<le> slab_size (initial_allocator 16384) - sizeof_Slab"
  "fresh_mappings (slab_size (initial_allocator 16384)) (slab_bases (initial_allocator 16384) (\<lambda>_. []))
     (m_nextSlabAddr (initial_allocator 16384)) demo_tries"
proof -
  show "alloc_rep (initial_allocator 16384) (\<lambda>_. []) (\<lambda>_. []) (\<lambda>_. [])"
    by (rule initial_alloc_rep [of _ 14]) (simp_all add: sizeof_Slab_def)
  have "best_size 24 \<le> 24" by (rule best_size_le) (simp add: PREFERRED_SIZES_def sizeof_Obj_def)
  then show "best_size 24 \<le> slab_size (initial_allocator 16384) - sizeof_Slab"
    by (simp add: initial_allocator_def sizeof_Slab_def)
  show "fresh_mappings (slab_size (initial_allocator 16384)) (slab_bases (initial_allocator 16384) (\<lambda>_. []))
     (m_nextSlabAddr (initial_allocator 16384)) demo_tries"
    by (simp add: demo_tries_def slab_bases_def slab_address_def initial_allocator_def)
qed

text \<open>
  C2: an allocation that fits a slab, for which the operating system eventually maps fresh memory
  when it is asked, succeeds and keeps the allocator's invariant; the object it returns is new,
  8-byte aligned, carries the initial GC word, and no other live object or GC word changes.
\<close>

theorem AllocateNative_fresh:
  assumes "alloc_rep a AS FS RS" "sizeof_Obj \<le> sz" "best_size sz \<le> slab_size a - sizeof_Slab"
    "fresh_mappings (slab_size a) (slab_bases a AS) (m_nextSlabAddr a) tries"
    "MapFailed \<notin> snd ` set tries" "Mapped \<in> snd ` set tries"
  shows "\<exists>p c AS' FS' RS'. AllocateNative sz tries a = Some (Inr p, c) \<and> alloc_rep c AS' FS' RS' \<and>
    p \<notin> live_objects a AS RS \<and> live_objects c AS' RS' = insert p (live_objects a AS RS) \<and>
    8 dvd p \<and> gcw c = (gcw a)(p := INITIAL_GC_WORD)"
  using AllocateNative_total [OF assms] live_aligned by blast

lemma AllocateNative_fresh_witness:
  "\<exists>p c AS' FS' RS'. AllocateNative 24 demo_tries (initial_allocator 16384) = Some (Inr p, c) \<and>
     alloc_rep c AS' FS' RS' \<and> live_objects c AS' RS' = {p} \<and> 8 dvd p"
  using AllocateNative_fresh [OF demo_facts(1) _ demo_facts(2,3)]
  by (fastforce simp: demo_tries_def sizeof_Obj_def live_objects_def)

definition demo_allocator :: allocator where
  "demo_allocator = (initial_allocator 16384)
     \<lparr>mem := (\<lambda>_. CZero)(16384 := CObj, 16408 := CObj, 16432 := CShim 16248),
      slabs := (\<lambda>_. \<lparr>sizeCategory = 24, freeSpaceList = \<lparr>start = Some 16432, finish = Some 16432, count = 1\<rparr>,
        currentObjects = 2\<rparr>),
      m_sizes := [(24, \<lparr>cat_size = 24, allSlabs = \<lparr>start = Some 32688, finish = Some 32688, count = 1\<rparr>,
        freeSlabs = \<lparr>start = Some 32688, finish = Some 32688, count = 1\<rparr>, totalObjects = 0\<rparr>)]\<rparr>"

definition demo_slabs :: "int \<Rightarrow> int list" where "demo_slabs k = (if k = 24 then [32688] else [])"

definition demo_regions :: "int \<Rightarrow> region list" where "demo_regions sl = [Used, Used, Free 677]"

lemma demo_allocator_rep: "alloc_rep demo_allocator demo_slabs demo_slabs demo_regions"
  unfolding alloc_rep_def
proof (intro conjI)
  show "\<exists>n. slab_size demo_allocator = 2 ^ n"
    by (rule exI [of _ 14]) (simp add: demo_allocator_def initial_allocator_def)
  show "\<forall>k \<in> set (keys demo_allocator). category_rep demo_allocator k (demo_slabs k) (demo_slabs k)"
    by (simp add: demo_allocator_def initial_allocator_def category_rep_def category_def sizeof_Obj_def ll_rep_def
        demo_slabs_def)
  show "\<forall>k. \<forall>sl \<in> set (demo_slabs k).
      slab_in_rep demo_allocator k (sl \<in> set (demo_slabs k)) (demo_regions sl) sl"
    by (auto simp: demo_slabs_def slab_in_rep_def demo_allocator_def initial_allocator_def slab_rep_def
        sweeping_def GetSectionBaseAddress_def sizeof_Slab_def demo_regions_def GetUsableSize_def ll_rep_def
        intro!: exI [of _ "[16432]"])
qed (simp_all add: demo_allocator_def initial_allocator_def sizeof_Slab_def demo_slabs_def)

text \<open>
  C3: the sweep ends, keeps the allocator's invariant, and leaves alive exactly the objects whose
  GC word is the one of the finished collection, when the loops may run as often as there are
  bytes in a slab and slabs in a category.
\<close>

theorem DeallocateUnreachableObjects_exact:
  assumes "alloc_rep a AS FS RS" "\<forall>k. length (AS k) \<le> fuel" "slab_size a \<le> int fuel"
  shows "\<exists>c FS' RS'. DeallocateUnreachableObjects fuel g a = Some (Inr c) \<and> alloc_rep c AS FS' RS' \<and>
    live_objects c AS RS' = {p \<in> live_objects a AS RS. gcw a p = g} \<and> gcw c = gcw a"
  using Deallocate_all [OF assms] by blast

lemma DeallocateUnreachableObjects_exact_witness:
  "\<exists>p a AS RS fuel c FS' RS'. live_objects a AS RS = {p} \<and>
     DeallocateUnreachableObjects fuel 2 a = Some (Inr c) \<and> alloc_rep c AS FS' RS' \<and>
     live_objects c AS RS' = {}"
proof -
  obtain p a AS FS RS where a: "alloc_rep a AS FS RS" "live_objects a AS RS = {p}" "gcw a p = 1"
    using AllocateNative_total [OF demo_facts(1) _ demo_facts(2,3)]
    by (fastforce simp: demo_tries_def sizeof_Obj_def live_objects_def INITIAL_GC_WORD_def)
  obtain n where n: "\<forall>k. length (AS k) \<le> n"
  proof -
    have "finite ((\<lambda>k. length (AS k)) ` set (keys a))" by (intro finite_imageI finite_set)
    then obtain n where "\<forall>x \<in> (\<lambda>k. length (AS k)) ` set (keys a). x \<le> n"
      unfolding finite_nat_set_iff_bounded_le by blast
    then have "length (AS k) \<le> n" for k
      using alloc_repD(5) [OF a(1), of k] by (cases "k \<in> set (keys a)") (simp_all del: set_map)
    then show ?thesis using that by blast
  qed
  let ?fuel = "n + nat (slab_size a)"
  have "\<forall>k. length (AS k) \<le> ?fuel" using n by (meson trans_le_add1)
  moreover have "slab_size a \<le> int ?fuel" by simp
  ultimately obtain c FS' RS' where c: "DeallocateUnreachableObjects ?fuel 2 a = Some (Inr c)" "alloc_rep c AS FS' RS'"
    "live_objects c AS RS' = {q \<in> live_objects a AS RS. gcw a q = 2}"
    using DeallocateUnreachableObjects_exact [OF a(1), of ?fuel 2] by blast
  have "q \<notin> live_objects c AS RS'" for q using a(2,3) c(3) by auto
  then have "live_objects c AS RS' = {}" by blast
  then show ?thesis using a(2) c(1,2) by blast
qed

end
