(* ===== verification/GC_Collect.thy ===== *)
theory GC_Collect
  imports GC_Proofs Slab_Heap
begin

text \<open>
  A whole collection, marking and sweep, on the objects the allocator holds: \<open>WrenRuntime::RunGC\<close>
  (rtsrc/WrenRuntime.cpp) with \<open>EndGCCycle\<close>.  The GC words the scanner writes are the ones the
  sweep reads.
\<close>

definition with_words :: "scanner \<Rightarrow> allocator \<Rightarrow> allocator" where
  "with_words s a = a\<lparr>gcw := (\<lambda>p. gc_word s (word_of_int p))\<rparr>"

definition RunGC ::
  "nat \<Rightarrow> function_info list \<Rightarrow> heap \<Rightarrow> roots \<Rightarrow> scanner \<Rightarrow> allocator \<Rightarrow> (scanner \<times> allocator) res option"
where
  "RunGC fuel fs h r s a =
     (case mark_phase fuel fs h r s of
        None \<Rightarrow> None
      | Some (Inl e) \<Rightarrow> Some (Inl e)
      | Some (Inr s) \<Rightarrow>
          (case DeallocateUnreachableObjects fuel (white_word s) (with_words s a) of
             None \<Rightarrow> None
           | Some (Inl e) \<Rightarrow> Some (Inl e)
           | Some (Inr a) \<Rightarrow> Some (Inr (s, a))))"

lemma with_words_rep:
  assumes inv: "alloc_rep a AS FS RS"
  shows "alloc_rep (with_words s a) AS FS RS" "live_objects (with_words s a) AS RS = live_objects a AS RS"
proof -
  have "slab_in_rep (with_words s a) k (t \<in> set (FS k)) (RS t) t" if "t \<in> set (AS k)" for k t
    by (rule slab_in_rep_frame [OF alloc_repD(6) [OF inv that], of _ "{}"])
      (simp_all add: same_outside_def with_words_def)
  then show "alloc_rep (with_words s a) AS FS RS"
    using alloc_repD [OF inv] by (simp add: alloc_rep_def category_rep_def category_def with_words_def)
  show "live_objects (with_words s a) AS RS = live_objects a AS RS"
    by (simp add: live_objects_def slab_objects_def with_words_def)
qed

text \<open>
  The heap of the scanner holds the allocator's objects (and others, such as the built-in classes,
  which are not allocated); every word is odd and none is the number that the cycle will use.
\<close>

definition gc_ready ::
  "function_info list \<Rightarrow> heap \<Rightarrow> roots \<Rightarrow> scanner \<Rightarrow> int set \<Rightarrow> bool"
where
  "gc_ready fs h r s live \<longleftrightarrow>
     m_greyList s = 0 \<and> bit (m_currentWhiteNumber s) 0 \<and> heap_closed fs h (root_list fs h r) \<and>
     fibre_exists h r \<and>
     (\<forall>p \<in> dom (objs h). \<not> isGrey (gc_word s p) \<and> gc_word s p \<noteq> ucast (m_currentWhiteNumber s + 2)) \<and>
     (\<forall>p \<in> live. word_of_int p \<in> dom (objs h))"

lemma RunGC_ok:
  assumes inv: "alloc_rep a AS FS RS" and ready: "gc_ready fs h r s (live_objects a AS RS)"
    and fuel: "\<forall>k. length (AS k) \<le> fuel" "slab_size a \<le> int fuel" "card (dom (objs h)) \<le> fuel"
  shows "\<exists>t c FS' RS'. RunGC fuel fs h r s a = Some (Inr (t, c)) \<and> alloc_rep c AS FS' RS' \<and>
    live_objects c AS RS' =
      {p \<in> live_objects a AS RS. reachable fs h (root_list fs h r) (word_of_int p)} \<and>
    m_greyList t = 0 \<and> bit (m_currentWhiteNumber t) 0 \<and>
    (\<forall>p \<in> live_objects c AS RS'. gcw c p = white_word t \<and> gc_word t (word_of_int p) = white_word t)"
proof -
  have R: "m_greyList s = 0" "bit (m_currentWhiteNumber s) 0" "heap_closed fs h (root_list fs h r)"
    "\<forall>p \<in> dom (objs h). \<not> isGrey (gc_word s p) \<and> gc_word s p \<noteq> ucast (m_currentWhiteNumber s + 2)"
    "\<forall>p \<in> live_objects a AS RS. word_of_int p \<in> dom (objs h)" "fibre_exists h r"
    using ready by (simp_all add: gc_ready_def)
  from mark_phase_ok [OF R(1-3) R(6) R(4) fuel(3)] obtain t where
    t: "mark_phase fuel fs h r s = Some (Inr t)" "m_greyList t = 0"
      "m_currentWhiteNumber t = m_currentWhiteNumber s + 2"
      "\<forall>p \<in> dom (objs h). (gc_word t p = white_word t) = reachable fs h (root_list fs h r) p" by blast
  note W = with_words_rep [OF inv, of t]
  have sz: "slab_size (with_words t a) \<le> int fuel" using fuel(2) by (simp add: with_words_def)
  from Deallocate_all [OF W(1) fuel(1) sz, of "white_word t"] obtain c FS' RS' where
    c: "DeallocateUnreachableObjects fuel (white_word t) (with_words t a) = Some (Inr c)"
      "alloc_rep c AS FS' RS'"
      "live_objects c AS RS' = {p \<in> live_objects (with_words t a) AS RS. gcw (with_words t a) p = white_word t}"
      "gcw c = gcw (with_words t a)" by blast
  have g: "gcw (with_words t a) p = gc_word t (word_of_int p)" for p by (simp add: with_words_def)
  have "live_objects c AS RS' = {p \<in> live_objects a AS RS. reachable fs h (root_list fs h r) (word_of_int p)}"
    unfolding c(3) W(2) g using t(4) R(5) by blast
  moreover have "RunGC fuel fs h r s a = Some (Inr (t, c))" using t(1) c(1) by (simp add: RunGC_def)
  moreover have "bit (m_currentWhiteNumber t) 0" using R(2) t(3) by (simp add: bit_0)
  moreover have "\<forall>p \<in> live_objects c AS RS'. gcw c p = white_word t \<and> gc_word t (word_of_int p) = white_word t"
    using c(3,4) g by simp
  ultimately show ?thesis using c(2) t(2) by blast
qed

section \<open>The contract\<close>

definition demo_roots :: roots where
  "demo_roots = \<lparr>module_reports = [ReportObject 16384], extra_roots = [], thread_frames = [],
     current_fibre = 0, api_reports = []\<rparr>"

text \<open>Two live objects, of which the root list holds the first, an empty list.\<close>

definition demo_heap :: heap where
  "demo_heap = \<lparr>objs = [16384 \<mapsto> \<lparr>obj_type = 0, payload = PList []\<rparr>, 16408 \<mapsto> \<lparr>obj_type = 0, payload = PString []\<rparr>],
     cells = (\<lambda>_. 0), core = (\<lambda>_. 0), true_ptr = 0, false_ptr = 0\<rparr>"

lemma demo_live: "live_objects demo_allocator demo_slabs demo_regions = {16384, 16408}"
  by (auto simp: live_objects_def demo_slabs_def slab_objects_def demo_allocator_def initial_allocator_def
      demo_regions_def GetSectionBaseAddress_def sizeof_Slab_def)

lemma demo_ready: "gc_ready [] demo_heap demo_roots (GCTracingScanner (\<lambda>_. 1)) {16384, 16408}"
  by (auto simp: gc_ready_def GCTracingScanner_def initial_white_def heap_closed_def demo_heap_def demo_roots_def
      root_list_def fibre_exists_def MarkThreadRoots_def kids_def MarkGCValues_def list_MarkGCValues_def clear_lsb_def isGrey_bit bit_numeral_iff bit_0)

lemma demo_fuel: "\<forall>k. length (demo_slabs k) \<le> 16384" "slab_size demo_allocator \<le> int 16384"
  "card (dom (objs demo_heap)) \<le> 16384"
  by (simp_all add: demo_slabs_def demo_allocator_def initial_allocator_def demo_heap_def card_insert_if)

text \<open>
  C1: a collection terminates, keeps the allocator's invariant, and frees exactly the live objects
  that are not reachable from the module, stack, fibre and API roots; every survivor carries the
  cycle's white number.  The hypotheses are that no reference dangles (the current fibre's pointer
  included), that objects are aligned, and that no object carries the number the cycle is going to use.
\<close>

theorem RunGC_frees_exactly_unreachable:
  assumes "alloc_rep a AS FS RS" "gc_ready fs h r s (live_objects a AS RS)"
    "\<forall>k. length (AS k) \<le> fuel" "slab_size a \<le> int fuel" "card (dom (objs h)) \<le> fuel"
  shows "\<exists>t c FS' RS'. RunGC fuel fs h r s a = Some (Inr (t, c)) \<and> alloc_rep c AS FS' RS' \<and>
    live_objects c AS RS' =
      {p \<in> live_objects a AS RS. reachable fs h (root_list fs h r) (word_of_int p)} \<and>
    m_greyList t = 0 \<and> bit (m_currentWhiteNumber t) 0 \<and>
    (\<forall>p \<in> live_objects c AS RS'. gcw c p = white_word t)"
  using RunGC_ok [OF assms] by blast

lemma RunGC_frees_exactly_unreachable_witness:
  "\<exists>t c FS' RS'. RunGC 16384 [] demo_heap demo_roots (GCTracingScanner (\<lambda>_. 1)) demo_allocator = Some (Inr (t, c)) \<and>
     live_objects c demo_slabs RS' = {16384}"
proof -
  have root: "reachable [] demo_heap (root_list [] demo_heap demo_roots) 16384"
    using reachable.root [of 16384 "root_list [] demo_heap demo_roots" "[]" demo_heap]
    by (simp add: root_list_def demo_roots_def clear_lsb_def)
  have only: "p = 16384" if "reachable [] demo_heap (root_list [] demo_heap demo_roots) p" for p
    using that
  proof (induction rule: reachable.induct)
    case (root c)
    then show ?case by (simp add: root_list_def demo_roots_def clear_lsb_def MarkThreadRoots_def)
  next
    case (step p c)
    then show ?case by (simp add: kids_def demo_heap_def MarkGCValues_def list_MarkGCValues_def)
  qed
  have "\<exists>t c FS' RS'. RunGC 16384 [] demo_heap demo_roots (GCTracingScanner (\<lambda>_. 1)) demo_allocator = Some (Inr (t, c)) \<and>
    alloc_rep c demo_slabs FS' RS' \<and> live_objects c demo_slabs RS' =
      {p \<in> live_objects demo_allocator demo_slabs demo_regions.
        reachable [] demo_heap (root_list [] demo_heap demo_roots) (word_of_int p)} \<and>
    m_greyList t = 0 \<and> bit (m_currentWhiteNumber t) 0 \<and>
    (\<forall>p \<in> live_objects c demo_slabs RS'. gcw c p = white_word t)"
  proof (rule RunGC_frees_exactly_unreachable [OF demo_allocator_rep])
    show "gc_ready [] demo_heap demo_roots (GCTracingScanner (\<lambda>_. 1)) (live_objects demo_allocator demo_slabs demo_regions)"
      unfolding demo_live by (rule demo_ready)
  qed (rule demo_fuel)+
  moreover have "{p \<in> {16384, 16408}. reachable [] demo_heap (root_list [] demo_heap demo_roots) (word_of_int p)} = {16384 :: int}"
  proof -
    have "\<not> reachable [] demo_heap (root_list [] demo_heap demo_roots) 16408" using only by fastforce
    then show ?thesis using root by auto
  qed
  ultimately show ?thesis unfolding demo_live by metis
qed

section \<open>A scanner that is created anew\<close>

text \<open>
  \<open>GetOrInitModule\<close> destroys the scanner, so that the next collection creates a new one
  (rtsrc/WrenRuntime.cpp).  Its white number starts over, so that the first cycles of all scanners
  use the same number.
\<close>

lemma first_cycle_white:
  assumes "mark_phase fuel fs h r (GCTracingScanner words) = Some (Inr t)"
  shows "m_currentWhiteNumber t = initial_white + 2"
  using mark_phase_white [OF assms] by (simp add: GCTracingScanner_def)

lemma AddToGreyList_white:
  "\<forall>p \<in> set ps. clear_lsb p = 0 \<or> gc_word s (clear_lsb p) = white_word s \<Longrightarrow> fold AddToGreyList ps s = s"
proof (induction ps)
  case (Cons p ps)
  then have "AddToGreyList p s = s" by (auto simp: AddToGreyList_def Let_def)
  then show ?case using Cons by simp
qed simp

lemma mark_phase_all_white:
  assumes fibre: "fibre_exists h r"
    and roots: "\<forall>p \<in> set (root_list fs h r). clear_lsb p = 0 \<or> words (clear_lsb p) = ucast (initial_white + 2)"
  shows "mark_phase fuel fs h r (GCTracingScanner words) =
    Some (Inr \<lparr>m_currentWhiteNumber = initial_white + 2, m_greyList = 0, gc_word = words\<rparr>)"
proof -
  let ?t = "\<lparr>m_currentWhiteNumber = initial_white + 2, m_greyList = 0, gc_word = words\<rparr>"
  have b: "BeginGCCycle (GCTracingScanner words) = Inr ?t"
    by (simp add: BeginGCCycle_def GCTracingScanner_def)
  have "mark_roots fs h r ?t = Inr ?t"
    using AddToGreyList_white [of "root_list fs h r" ?t] roots fibre
    by (simp add: mark_roots_eq white_word_def)
  moreover have "mark_loop fuel fs h ?t = Some (Inr ?t)" by (subst mark_loop.simps) simp
  ultimately show ?thesis by (simp add: mark_phase_def b)
qed

text \<open>
  C22: Take any collection by a newly created scanner that returns, and later, in any heap and with
  any roots, the first collection of a scanner that was created anew, as loading a module does.  When
  every object that is a root then survived the earlier collection and still has the word it left,
  the new scanner traces nothing: the collection frees every live object that does not have that word,
  so every object created in between, also those that the roots reach.  The pointer to
  the current fibre does not dangle and the allocator's invariant holds.
\<close>

theorem recreated_scanner_frees_reachable:
  assumes "RunGC n fs h r (GCTracingScanner words) a = Some (Inr (t, c))"
    and "\<forall>p \<in> set (root_list fs' h' r'). clear_lsb p = 0 \<or>
      gc_word t (clear_lsb p) = white_word t \<and> words' (clear_lsb p) = gc_word t (clear_lsb p)"
    and "fibre_exists h' r'" "alloc_rep a' AS FS RS" "\<forall>k. length (AS k) \<le> m" "slab_size a' \<le> int m"
  shows "\<exists>t' c' FS' RS'. RunGC m fs' h' r' (GCTracingScanner words') a' = Some (Inr (t', c')) \<and>
    alloc_rep c' AS FS' RS' \<and>
    live_objects c' AS RS' = {p \<in> live_objects a' AS RS. words' (word_of_int p) = white_word t}"
proof -
  from assms(1) have "mark_phase n fs h r (GCTracingScanner words) = Some (Inr t)"
    by (auto simp: RunGC_def split: option.splits sum.splits)
  then have W: "white_word t = ucast (initial_white + 2)" by (simp add: white_word_def first_cycle_white)
  let ?t = "\<lparr>m_currentWhiteNumber = initial_white + 2, m_greyList = 0, gc_word = words'\<rparr>"
  have p: "mark_phase m fs' h' r' (GCTracingScanner words') = Some (Inr ?t)"
    by (rule mark_phase_all_white [OF assms(3)]) (use assms(2) W in auto)
  have W': "white_word ?t = white_word t" by (simp add: W) (simp add: white_word_def)
  note R = with_words_rep [OF assms(4), of ?t]
  have "slab_size (with_words ?t a') \<le> int m" using assms(6) by (simp add: with_words_def)
  from Deallocate_all [OF R(1) assms(5) this, of "white_word ?t"] obtain c' FS' RS' where
    "DeallocateUnreachableObjects m (white_word ?t) (with_words ?t a') = Some (Inr c')" "alloc_rep c' AS FS' RS'"
    "live_objects c' AS RS' = {p \<in> live_objects (with_words ?t a') AS RS. gcw (with_words ?t a') p = white_word ?t}"
    by blast
  then show ?thesis using p unfolding W' R(2) by (auto simp: RunGC_def W' with_words_def)
qed

text \<open>
  The list at 16384 survives a collection of \<open>demo_heap\<close>, and the string at 16408 is created and put
  into it.  The new scanner's collection frees the string, which is reachable.
\<close>

definition stale_heap :: heap where
  "stale_heap = demo_heap\<lparr>objs := (objs demo_heap)(16384 \<mapsto> \<lparr>obj_type = 0, payload = PList [obj_value 16408]\<rparr>)\<rparr>"

definition stale_words :: "ptr \<Rightarrow> u64" where
  "stale_words p = (if p = 16384 then 0xabcd03 else 1)"

lemma stale_roots: "root_list [] h demo_roots = [16384]" "clear_lsb 16384 = 16384" "clear_lsb 16408 = 16408"
  by (simp_all add: root_list_def demo_roots_def MarkThreadRoots_def clear_lsb_def)

lemma stale_fibre: "fibre_exists h demo_roots"
  by (simp add: fibre_exists_def demo_roots_def)

lemma stale_reachable: "reachable [] stale_heap (root_list [] stale_heap demo_roots) 16408"
proof -
  have kids: "kids [] stale_heap 16384 = [16408]"
    by (simp add: kids_def stale_heap_def MarkGCValues_def list_MarkGCValues_def obj_value_def is_object_def
        get_object_value_def NAN_MASK_def CONTENT_MASK_def)
  have "reachable [] stale_heap [16384] (clear_lsb 16384)" by (rule reachable.root) (simp_all add: stale_roots)
  then have "reachable [] stale_heap [16384] (clear_lsb 16408)"
    by (intro reachable.step [of _ _ _ 16384]) (simp_all add: stale_roots kids)
  then show ?thesis by (simp add: stale_roots)
qed

lemma demo_collection:
  "\<exists>t c. RunGC 16384 [] demo_heap demo_roots (GCTracingScanner (\<lambda>_. 1)) demo_allocator = Some (Inr (t, c)) \<and>
     gc_word t 16384 = white_word t"
proof -
  have root: "reachable [] demo_heap (root_list [] demo_heap demo_roots) 16384"
    using reachable.root [of 16384 "[16384]" "[]" demo_heap] by (simp add: stale_roots)
  have "gc_ready [] demo_heap demo_roots (GCTracingScanner (\<lambda>_. 1)) (live_objects demo_allocator demo_slabs demo_regions)"
    unfolding demo_live by (rule demo_ready)
  note r = RunGC_ok [OF demo_allocator_rep this demo_fuel]
  then obtain t c RS' where
    c: "RunGC 16384 [] demo_heap demo_roots (GCTracingScanner (\<lambda>_. 1)) demo_allocator = Some (Inr (t, c))"
      "live_objects c demo_slabs RS' = {p \<in> live_objects demo_allocator demo_slabs demo_regions.
        reachable [] demo_heap (root_list [] demo_heap demo_roots) (word_of_int p)}"
      "\<forall>p \<in> live_objects c demo_slabs RS'. gc_word t (word_of_int p) = white_word t"
    by blast
  have "16384 \<in> live_objects c demo_slabs RS'" unfolding c(2) demo_live using root by simp
  then show ?thesis using c(1,3) by force
qed

lemma recreated_scanner_frees_reachable_witness:
  "\<exists>t' c' RS'. RunGC 16384 [] stale_heap demo_roots (GCTracingScanner stale_words) demo_allocator = Some (Inr (t', c')) \<and>
     reachable [] stale_heap (root_list [] stale_heap demo_roots) 16408 \<and>
     16408 \<in> live_objects demo_allocator demo_slabs demo_regions \<and> live_objects c' demo_slabs RS' = {16384}"
proof -
  from demo_collection obtain t c where
    t: "RunGC 16384 [] demo_heap demo_roots (GCTracingScanner (\<lambda>_. 1)) demo_allocator = Some (Inr (t, c))"
      "gc_word t 16384 = white_word t" by blast
  from t(1) have "mark_phase 16384 [] demo_heap demo_roots (GCTracingScanner (\<lambda>_. 1)) = Some (Inr t)"
    by (auto simp: RunGC_def split: option.splits sum.splits)
  then have W: "white_word t = 0xabcd03" by (simp add: white_word_def first_cycle_white initial_white_def)
  have "\<exists>t' c' FS' RS'. RunGC 16384 [] stale_heap demo_roots (GCTracingScanner stale_words) demo_allocator = Some (Inr (t', c')) \<and>
    alloc_rep c' demo_slabs FS' RS' \<and>
    live_objects c' demo_slabs RS' =
      {p \<in> live_objects demo_allocator demo_slabs demo_regions. stale_words (word_of_int p) = white_word t}"
    by (rule recreated_scanner_frees_reachable [OF t(1) _ _ demo_allocator_rep])
      (use t(2) W demo_fuel in \<open>simp_all add: stale_roots stale_words_def stale_fibre\<close>)
  moreover have "{p \<in> {16384, 16408}. stale_words (word_of_int p) = white_word t} = {16384 :: int}"
    by (auto simp: W stale_words_def)
  ultimately show ?thesis using stale_reachable unfolding demo_live by blast
qed

end
