(* ===== verification/Stack_Map_Proofs.thy ===== *)
theory Stack_Map_Proofs
  imports Stack_Map
begin

text \<open>
  The stack map round trip: reading back what the backend wrote gives, for the address of every
  call site, the offsets of its live values, and nothing for any other address.
\<close>

section \<open>Items of a stack map\<close>

datatype item = IFun fn_info | IState u32 "u8 list"

fun encode_item :: "item \<Rightarrow> u8 list" where
  "encode_item (IFun f) = writeFunction f []"
| "encode_item (IState off offsets) = writeStatepoint off offsets []"

fun apply_item :: "item \<Rightarrow> stack_map \<Rightarrow> stack_map" where
  "apply_item (IFun f) m = name_function (fn_symbol f) (add_function (fn_address f) m)"
| "apply_item (IState off offsets) m = add_statepoint off offsets m"

lemma alignTo64_dvd: "8 dvd alignTo64 n \<and> n \<le> alignTo64 n"
proof -
  obtain q r where l: "n = 8 * q + r" "r < 8"
    by (metis mod_less_divisor mult_div_mod_eq zero_less_numeral)
  then have "alignTo64 n = (if r = 0 then 8 * q else 8 * q + 8)" by (simp add: alignTo64_def Let_def)
  then show ?thesis using l by auto
qed

lemma length_pad8: "length (pad8 bs) = alignTo64 (length bs)"
proof -
  obtain q r where l: "length bs = 8 * q + r" "r < 8"
    by (metis mod_less_divisor mult_div_mod_eq zero_less_numeral)
  then show ?thesis by (simp add: pad8_def alignTo64_def Let_def)
qed

lemma header_length [simp]: "length (writeObjectHeader i s f n out) = length out + 8"
  by (simp add: writeObjectHeader_def)

lemma writeFunction_append:
  "8 dvd length out \<Longrightarrow> writeFunction f out = out @ writeFunction f []"
  by (simp add: writeFunction_def Let_def writeObjectHeader_def pad8_append)

lemma writeStatepoint_append:
  "8 dvd length out \<Longrightarrow> writeStatepoint off offsets out = out @ writeStatepoint off offsets []"
  by (simp add: writeStatepoint_def Let_def writeObjectHeader_def pad8_append)

lemma encode_item_dvd: "8 dvd length (encode_item i)"
  by (cases i) (simp_all add: writeFunction_def writeStatepoint_def Let_def pad8_dvd)

lemma read_header:
  assumes "s < 65536" "n < 65536"
  shows "read_object (writeObjectHeader i s 0 n [] @ rest) =
    Inr \<lparr>mo_id = object_id_code i, sectionSize = s, mo_flags = 0, forObject = n\<rparr>"
proof -
  have "object_id_code i < 65536" by (cases i) simp_all
  then show ?thesis using assms by (simp add: read_object_def writeObjectHeader_def)
qed

section \<open>Reading an item back\<close>

lemma parse_header:
  assumes "s < 65536" "n < 65536"
  shows "parse_objects (writeObjectHeader i s 0 n [] @ rest) m =
    (case i of
       END_OF_STACK_MAP \<Rightarrow> Inr m
     | FUNCTION \<Rightarrow> rbind (read_le 8 rest) (\<lambda>p. parse_objects (drop s rest) (add_function (word_of_nat p) m))
     | STATEPOINT \<Rightarrow>
         (if m_functions m = [] \<or> length (drop 4 rest) < n then Inl Undefined
          else rbind (read_le 4 rest) (\<lambda>off.
            parse_objects (drop s rest) (add_statepoint (word_of_nat off) (take n (drop 4 rest)) m)))
     | OBJECT_NAME \<Rightarrow>
         (if m_functions m = [] \<or> length rest < n then Inl Undefined
          else parse_objects (drop s rest) (name_function (take n rest) m))
     | _ \<Rightarrow> Inl Fatal)"
proof -
  have "drop (8 + s) (writeObjectHeader i s 0 n [] @ rest) = drop s rest"
    "drop 8 (writeObjectHeader i s 0 n [] @ rest) = rest" by simp_all
  then show ?thesis
    unfolding parse_objects.simps [of "writeObjectHeader i s 0 n [] @ rest"] read_header [OF assms]
    by (cases i) (simp_all add: Let_def del: object_id_code.simps)
qed

fun item_ok :: "item \<Rightarrow> stack_map \<Rightarrow> bool" where
  "item_ok (IFun f) m \<longleftrightarrow> alignTo64 (length (fn_symbol f)) < 65536"
| "item_ok (IState off offsets) m \<longleftrightarrow> m_functions m \<noteq> [] \<and> alignTo64 (4 + length offsets) < 65535"

lemma pad8_header: "pad8 (writeObjectHeader i s f n [] @ xs) = writeObjectHeader i s f n [] @ pad8 xs"
  by (rule pad8_append) simp

lemma pad8_prefix: "take (length xs) (pad8 xs) = xs" "length xs \<le> length (pad8 xs)"
  by (simp_all add: pad8_def)

lemma parse_item:
  assumes "item_ok i m"
  shows "parse_objects (encode_item i @ rest) m = parse_objects rest (apply_item i m)"
proof (cases i)
  case (IFun f)
  let ?name = "fn_symbol f" and ?s = "alignTo64 (length (fn_symbol f))"
  let ?body = "le_bytes 8 (unat (fn_address f)) @ le_bytes 4 (RecordCount f) @ le_bytes 4 (unat (fn_stackSize f))"
  let ?hdr = "writeObjectHeader OBJECT_NAME ?s 0 (length ?name) []"
  have ok: "?s < 65536" "length ?name < 65536" using assms IFun alignTo64_dvd [of "length ?name"] by auto
  have d: "8 dvd length (writeObjectHeader FUNCTION 16 0 0 [] @ ?body)" by simp
  have enc: "encode_item i = writeObjectHeader FUNCTION 16 0 0 [] @ ?body @ ?hdr @ pad8 ?name"
    using pad8_append [OF d, of "?hdr @ ?name"] pad8_header [of OBJECT_NAME ?s 0 "length ?name" ?name]
    by (simp add: IFun writeFunction_def Let_def writeObjectHeader_def)
  have "parse_objects (encode_item i @ rest) m =
      parse_objects (?hdr @ pad8 ?name @ rest) (add_function (fn_address f) m)"
    using unat64_lt [of "fn_address f"] by (simp add: enc parse_header)
  also have "\<dots> = parse_objects rest (apply_item i m)"
    using ok pad8_prefix [of ?name] by (simp add: parse_header IFun add_function_def length_pad8)
  finally show ?thesis .
next
  case (IState off offsets)
  let ?s = "alignTo64 (4 + length offsets)"
  let ?hdr = "writeObjectHeader STATEPOINT ?s 0 (length offsets) []"
  let ?xs = "le_bytes 4 (unat off) @ offsets"
  have ok: "?s < 65536" "length offsets < 65536" "m_functions m \<noteq> []"
    using assms IState alignTo64_dvd [of "4 + length offsets"] by auto
  have enc: "encode_item i = ?hdr @ pad8 ?xs"
    using pad8_header by (simp add: IState writeStatepoint_def Let_def)
  obtain z where z: "pad8 ?xs = ?xs @ z" by (simp add: pad8_def)
  have l: "length ?xs + length z = ?s" using length_pad8 [of ?xs] z by simp
  have u: "unat off < 256 ^ 4" using unsigned_less [of off] by simp
  show ?thesis
    unfolding enc z append_assoc using ok u l by (simp add: parse_header IState flip: l)
qed

lemma parse_items:
  assumes "\<And>pre i post. its = pre @ i # post \<Longrightarrow> item_ok i (fold apply_item pre m)"
  shows "parse_objects (concat (map encode_item its) @ rest) m = parse_objects rest (fold apply_item its m)"
  using assms
proof (induction its arbitrary: m)
  case (Cons i its)
  have "item_ok i m" using Cons.prems [of "[]" i its] by simp
  moreover have "item_ok j (fold apply_item pre (apply_item i m))" if "its = pre @ j # post" for pre j post
    using Cons.prems [of "i # pre" j post] that by simp
  ultimately show ?case using Cons.IH [of "apply_item i m"] by (simp add: parse_item)
qed simp

section \<open>What the writer emits\<close>

abbreviation encode_items :: "item list \<Rightarrow> u8 list" where
  "encode_items its \<equiv> concat (map encode_item its)"

text \<open>The function each call site belongs to, by the counts of call sites.\<close>

fun owners :: "nat \<Rightarrow> fn_info list \<Rightarrow> nat list" where
  "owners n [] = []"
| "owners n (f # fs) = replicate (RecordCount f) n @ owners (Suc n) fs"

text \<open>The call sites in a list of items, with the number of the function they follow.\<close>

fun entries :: "nat \<Rightarrow> item list \<Rightarrow> (nat \<times> u32 \<times> u8 list) list" where
  "entries n [] = []"
| "entries n (IFun f # its) = entries (Suc n) its"
| "entries n (IState off offsets # its) = (n - 1, off, offsets) # entries n its"

fun funs_of :: "item list \<Rightarrow> fn_info list" where
  "funs_of [] = []"
| "funs_of (IFun f # its) = f # funs_of its"
| "funs_of (IState off offsets # its) = funs_of its"

lemma entries_append [simp]:
  "entries n (xs @ ys) = entries n xs @ entries (n + length (funs_of xs)) ys"
  "funs_of (xs @ ys) = funs_of xs @ funs_of ys"
  by (induction n xs rule: entries.induct) auto

lemma funs_of_map [simp]: "funs_of (map IFun fs) = fs" "entries n (map IFun fs) = []"
  by (induction fs arbitrary: n) auto

lemma encode_items_dvd: "8 dvd length (encode_items its)"
  by (induction its) (simp_all add: encode_item_dvd)

lemma next_function_items:
  assumes "next_function fs r out = Inr (fs', r', out')" "8 dvd length out"
  shows "\<exists>ws. fs = ws @ fs' \<and> out' = out @ encode_items (map IFun ws) \<and> 1 \<le> r' \<and>
    (0 < r \<longrightarrow> ws = [] \<and> r' = r) \<and> (r \<le> 0 \<longrightarrow> ws \<noteq> []) \<and>
    replicate (nat r') (n + length ws - 1) @ owners (n + length ws) fs' =
      replicate (nat r) (n - 1) @ owners n fs"
  using assms
proof (induction fs r out arbitrary: n rule: next_function.induct)
  case (1 fs r out)
  show ?case
  proof (cases "r < 1")
    case False
    then show ?thesis using 1 by (intro exI [of _ "[]"]) simp
  next
    case True
    then obtain f gs where fs: "fs = f # gs" using 1(2) by (cases fs) auto
    have d: "8 dvd length (writeFunction f out)" using 1(3) by (simp add: writeFunction_def Let_def pad8_dvd)
    have run: "next_function gs (int (RecordCount f)) (writeFunction f out) = Inr (fs', r', out')"
      using 1(2) True fs by simp
    from True fs have c: "\<not> \<not> r < 1" by simp
    from 1(1) [OF c fs run d, of "Suc n"] obtain ws where
      ws: "gs = ws @ fs'" "out' = writeFunction f out @ encode_items (map IFun ws)" "1 \<le> r'"
      "replicate (nat r') (Suc n + length ws - 1) @ owners (Suc n + length ws) fs' =
        replicate (RecordCount f) (Suc n - 1) @ owners (Suc n) gs" by auto
    then show ?thesis
      using True fs writeFunction_append [OF 1(3), of f]
      by (intro exI [of _ "f # ws"]) simp
  qed
qed

lemma emit_callsites_items:
  assumes "emit_callsites css fs r out = Inr (fs', out')" "8 dvd length out" "r \<le> 0 \<or> n \<noteq> 0"
  shows "\<exists>its offs. out' = out @ encode_items its \<and> fs = funs_of its @ fs' \<and>
    map callsite_offsets css = map Inr offs \<and>
    length css \<le> length (replicate (nat r) (n - 1) @ owners n fs) \<and>
    entries n its = zip (replicate (nat r) (n - 1) @ owners n fs) (zip (map CSOffset css) offs) \<and>
    (\<forall>pre off os post. its = pre @ IState off os # post \<longrightarrow> n + length (funs_of pre) \<noteq> 0)"
  using assms
proof (induction css arbitrary: fs r out n)
  case Nil
  then show ?case by (intro exI [of _ "[]"]) simp
next
  case (Cons cs css)
  from Cons.prems(1) obtain gs r1 out1 os where
    nf: "next_function fs r out = Inr (gs, r1, out1)" and os: "callsite_offsets cs = Inr os"
    and rec: "emit_callsites css gs (r1 - 1) (writeStatepoint (CSOffset cs) os out1) = Inr (fs', out')"
    by (auto simp: rbind_eq_Inr_iff)
  from next_function_items [OF nf Cons.prems(2), of n] obtain ws where
    ws: "fs = ws @ gs" "out1 = out @ encode_items (map IFun ws)" "1 \<le> r1" "0 < r \<longrightarrow> ws = []" "r \<le> 0 \<longrightarrow> ws \<noteq> []"
    and own: "replicate (nat r1) (n + length ws - 1) @ owners (n + length ws) gs =
      replicate (nat r) (n - 1) @ owners n fs" by blast
  define N where "N = n + length ws"
  have N: "N \<noteq> 0" using ws Cons.prems(3) by (auto simp: N_def)
  have d1: "8 dvd length out1" using ws(2) Cons.prems(2) encode_items_dvd [of "map IFun ws"] by simp
  then have d2: "8 dvd length (writeStatepoint (CSOffset cs) os out1)"
    by (simp add: writeStatepoint_def Let_def pad8_dvd)
  from Cons.IH [OF rec d2, of N] N obtain its offs where
    I: "out' = writeStatepoint (CSOffset cs) os out1 @ encode_items its" "gs = funs_of its @ fs'"
      "map callsite_offsets css = map Inr offs"
      "length css \<le> length (replicate (nat (r1 - 1)) (N - 1) @ owners N gs)"
      "entries N its = zip (replicate (nat (r1 - 1)) (N - 1) @ owners N gs) (zip (map CSOffset css) offs)"
      "\<forall>pre off os post. its = pre @ IState off os # post \<longrightarrow> N + length (funs_of pre) \<noteq> 0"
    by blast
  have "nat r1 = Suc (nat (r1 - 1))" using ws(3) by simp
  then have rep: "replicate (nat r) (n - 1) @ owners n fs =
      (N - 1) # replicate (nat (r1 - 1)) (N - 1) @ owners N gs"
    using own by (simp add: N_def)
  let ?its = "map IFun ws @ IState (CSOffset cs) os # its"
  have "n + length (funs_of pre) \<noteq> 0" if split: "?its = pre @ IState off p # post" for pre off p post
  proof -
    have "length ws \<le> length pre"
    proof (rule ccontr)
      assume "\<not> length ws \<le> length pre"
      then have "?its ! length pre = IFun (ws ! length pre)" by (simp add: nth_append)
      moreover have "?its ! length pre = IState off p" unfolding split by simp
      ultimately show False by simp
    qed
    then obtain q where "pre = map IFun ws @ q"
      using split by (metis append_eq_append_conv_if append_take_drop_id length_map)
    then show ?thesis using N by (auto simp: N_def)
  qed
  then show ?case
    using I os ws(1,2) writeStatepoint_append [OF d1, of "CSOffset cs" os] rep
    by (intro exI [of _ ?its] exI [of _ "os # offs"]) (simp add: N_def)
qed

lemma fold_writeFunction:
  "8 dvd length out \<Longrightarrow> fold writeFunction fs out = out @ encode_items (map IFun fs)"
proof (induction fs arbitrary: out)
  case (Cons f fs)
  have "8 dvd length (writeFunction f out)" by (simp add: writeFunction_def Let_def pad8_dvd)
  then show ?case using Cons writeFunction_append [of out f] by simp
qed simp

section \<open>What the reader builds\<close>

fun internal_statepoints :: "nat \<Rightarrow> (nat \<times> u32 \<times> u8 list) list \<Rightarrow> internal_statepoint list" where
  "internal_statepoints h [] = []"
| "internal_statepoints h ((k, off, os) # es) =
     \<lparr>functionId = k, instructionOffset = off, offsetIndex = h, numLocals = length os\<rparr>
       # internal_statepoints (h + length os) es"

definition descriptor :: "nat \<Rightarrow> fn_info \<Rightarrow> function_descriptor" where
  "descriptor i f = \<lparr>functionPointer = fn_address f, fd_name = fn_symbol f, fd_id = i\<rparr>"

lemma fold_apply_items:
  assumes "\<forall>i < length (m_functions m). fd_id (m_functions m ! i) = i"
    "\<forall>pre off os post. its = pre @ IState off os # post \<longrightarrow> length (m_functions m) + length (funs_of pre) \<noteq> 0"
  shows "m_functions (fold apply_item its m) = m_functions m @
      map2 descriptor [length (m_functions m)..<length (m_functions m) + length (funs_of its)] (funs_of its) \<and>
    m_statepoints (fold apply_item its m) = m_statepoints m @
      internal_statepoints (length (m_offsetHeap m)) (entries (length (m_functions m)) its) \<and>
    m_offsetHeap (fold apply_item its m) =
      m_offsetHeap m @ concat (map (\<lambda>(k, off, os). os) (entries (length (m_functions m)) its))"
  using assms
proof (induction its arbitrary: m)
  case (Cons i its)
  have nz: "length (m_functions m) + length (funs_of (i # pre)) \<noteq> 0"
    if "its = pre @ IState off os # post" for pre off os post
    using Cons.prems(2)[rule_format, of "i # pre" off os post] that by simp
  show ?case
  proof (cases i)
    case (IFun f)
    define b where "b = apply_item i m"
    have fns: "m_functions b = m_functions m @ [descriptor (length (m_functions m)) f]"
      "m_statepoints b = m_statepoints m" "m_offsetHeap b = m_offsetHeap m"
      by (simp_all add: b_def IFun name_function_def add_function_def descriptor_def)
    have "\<forall>j < length (m_functions b). fd_id (m_functions b ! j) = j"
      using Cons.prems(1) by (auto simp: fns nth_append descriptor_def less_Suc_eq)
    from Cons.IH [OF this] nz have ih: "m_functions (fold apply_item its b) = m_functions b @
        map2 descriptor [length (m_functions b)..<length (m_functions b) + length (funs_of its)] (funs_of its)"
      "m_statepoints (fold apply_item its b) = m_statepoints b @
        internal_statepoints (length (m_offsetHeap b)) (entries (length (m_functions b)) its)"
      "m_offsetHeap (fold apply_item its b) =
        m_offsetHeap b @ concat (map (\<lambda>(k, off, os). os) (entries (length (m_functions b)) its))"
      by (simp_all add: fns IFun)
    have "fold apply_item (i # its) m = fold apply_item its b" by (simp add: b_def)
    moreover have "[l..<l + Suc k] = l # [Suc l..<Suc l + k]" for l k by (simp add: upt_conv_Cons del: upt_Suc)
    ultimately show ?thesis using ih by (simp add: fns IFun del: upt_Suc)
  next
    case (IState off os)
    have "m_functions m \<noteq> []" using Cons.prems(2)[rule_format, of "[]" off os its] IState by auto
    then have last: "fd_id (last (m_functions m)) = length (m_functions m) - 1"
      using Cons.prems(1) by (simp add: last_conv_nth)
    define b where "b = apply_item i m"
    have fns: "m_functions b = m_functions m"
      "m_statepoints b = m_statepoints m @
         [\<lparr>functionId = length (m_functions m) - 1, instructionOffset = off,
           offsetIndex = length (m_offsetHeap m), numLocals = length os\<rparr>]"
      "m_offsetHeap b = m_offsetHeap m @ os"
      using last by (simp_all add: b_def IState add_statepoint_def)
    have "fold apply_item (i # its) m = fold apply_item its b" by (simp add: b_def)
    moreover have "\<forall>j < length (m_functions b). fd_id (m_functions b ! j) = j"
      using Cons.prems(1) by (simp add: fns)
    moreover have "\<forall>pre off os post. its = pre @ IState off os # post \<longrightarrow>
        length (m_functions b) + length (funs_of pre) \<noteq> 0"
      using nz by (simp add: fns IState)
    ultimately show ?thesis using Cons.IH [of b] by (simp only: fns) (simp add: fns IState)
  qed
qed simp

lemma internal_statepoints_nth:
  "j < length es \<Longrightarrow> es ! j = (k, off, os) \<Longrightarrow>
   internal_statepoints h es ! j = \<lparr>functionId = k, instructionOffset = off,
     offsetIndex = h + length (concat (map (\<lambda>(k, off, os). os) (take j es))), numLocals = length os\<rparr>"
proof (induction h es arbitrary: j rule: internal_statepoints.induct)
  case (2 h k' off' os' es)
  then show ?case by (cases j) auto
qed simp

lemma length_internal_statepoints [simp]: "length (internal_statepoints h es) = length es"
  by (induction h es rule: internal_statepoints.induct) auto

lemma concat_slice:
  assumes "j < length xss"
  shows "take (length (xss ! j)) (drop (length (concat (take j xss))) (concat xss)) = xss ! j"
proof -
  have "concat xss = concat (take j xss) @ xss ! j @ concat (drop (Suc j) xss)"
    using id_take_nth_drop [OF assms] by (metis concat.simps(2) concat_append)
  then show ?thesis by simp
qed

section \<open>Lookup\<close>

lemma find_lower_bound:
  fixes k :: "'a \<Rightarrow> 'b::linorder"
  assumes "sorted (map k xs)" "distinct (map k xs)" "x \<in> set xs"
  shows "find (\<lambda>y. \<not> k y < k x) xs = Some x"
  using assms by (induction xs) (auto simp: order.order_iff_strict)

lemma Lookup_sorted:
  fixes m :: stack_map
  defines "m' \<equiv> m\<lparr>m_statepoints := sort_key (FindInstructionPtr m) (m_statepoints m)\<rparr>"
  shows "distinct (map (FindInstructionPtr m) (m_statepoints m)) \<Longrightarrow> s \<in> set (m_statepoints m) \<Longrightarrow>
      Lookup m' (FindInstructionPtr m s) =
        Some \<lparr>sp_instruction = FindInstructionPtr m s,
          sp_offsets = take (numLocals s) (drop (offsetIndex s) (m_offsetHeap m)),
          sp_numOffsets = numLocals s, sp_function = m_functions m ! functionId s\<rparr>"
    and "\<forall>s \<in> set (m_statepoints m). FindInstructionPtr m s \<noteq> a \<Longrightarrow> Lookup m' a = None"
proof -
  have k: "FindInstructionPtr m' = FindInstructionPtr m"
    by (simp add: fun_eq_iff FindInstructionPtr_def m'_def)
  show "Lookup m' (FindInstructionPtr m s) =
        Some \<lparr>sp_instruction = FindInstructionPtr m s,
          sp_offsets = take (numLocals s) (drop (offsetIndex s) (m_offsetHeap m)),
          sp_numOffsets = numLocals s, sp_function = m_functions m ! functionId s\<rparr>"
    if d: "distinct (map (FindInstructionPtr m) (m_statepoints m))" and s: "s \<in> set (m_statepoints m)"
  proof -
    have "distinct (map (FindInstructionPtr m) (sort_key (FindInstructionPtr m) (m_statepoints m)))"
      using d by (simp add: distinct_map)
    then have "find (\<lambda>y. \<not> FindInstructionPtr m y < FindInstructionPtr m s) (m_statepoints m') = Some s"
      using s by (intro find_lower_bound) (simp_all add: m'_def)
    then show ?thesis by (simp add: Lookup_def k) (simp add: m'_def)
  qed
  show "Lookup m' a = None" if n: "\<forall>s \<in> set (m_statepoints m). FindInstructionPtr m s \<noteq> a"
  proof (cases "find (\<lambda>s. \<not> FindInstructionPtr m' s < a) (m_statepoints m')")
    case (Some s)
    then have "s \<in> set (m_statepoints m')" by (auto simp: find_Some_iff)
    then have "FindInstructionPtr m s \<noteq> a" using n by (simp add: m'_def)
    then show ?thesis using Some by (simp add: Lookup_def k)
  qed (simp add: Lookup_def)
qed

section \<open>The round trip\<close>

definition callsite_address :: "fn_info list \<Rightarrow> callsite list \<Rightarrow> nat \<Rightarrow> u64" where
  "callsite_address fs css j = fn_address (fs ! (owners 0 fs ! j)) + ucast (CSOffset (css ! j))"

lemma callsite_offsets_bound: "callsite_offsets cs = Inr os \<Longrightarrow> alignTo64 (4 + length os) < 65535"
  by (auto simp: callsite_offsets_def rbind_eq_Inr_iff split: if_splits)

lemma owners_bound: "k \<in> set (owners n fs) \<Longrightarrow> n \<le> k \<and> k < n + length fs"
  by (induction n fs rule: owners.induct) fastforce+

lemma alignTo64_bound:
  assumes "n \<le> 65528" shows "alignTo64 n < 65536"
proof -
  obtain q r where l: "n = 8 * q + r" "r < 8"
    by (metis mod_less_divisor mult_div_mod_eq zero_less_numeral)
  then show ?thesis using assms by (simp add: alignTo64_def Let_def)
qed

lemma emitStackMaps_items:
  assumes "emitStackMaps fs css = Inr bs"
  shows "\<exists>its offs. drop 8 bs = encode_items its @ writeObjectHeader END_OF_STACK_MAP 0 0 0 [] \<and>
    read_le 2 bs = Inr 1 \<and> 8 \<le> length bs \<and> funs_of its = fs \<and> map callsite_offsets css = map Inr offs \<and>
    length css \<le> length (owners 0 fs) \<and>
    entries 0 its = zip (owners 0 fs) (zip (map CSOffset css) offs) \<and>
    (\<forall>pre off os post. its = pre @ IState off os # post \<longrightarrow> funs_of pre \<noteq> [])"
proof -
  let ?h = "le_bytes 2 1 @ le_bytes 2 0 @ le_bytes 2 0 @ le_bytes 2 0"
  obtain gs out where e: "emit_callsites css fs (- 1) ?h = Inr (gs, out)"
    and bs: "bs = writeObjectHeader END_OF_STACK_MAP 0 0 0 (fold writeFunction gs out)"
    using assms by (auto simp: emitStackMaps_def Let_def rbind_eq_Inr_iff)
  have "8 dvd length ?h" by simp
  from emit_callsites_items [OF e this, of 0] obtain its offs where
    I: "out = ?h @ encode_items its" "fs = funs_of its @ gs" "map callsite_offsets css = map Inr offs"
      "length css \<le> length (owners 0 fs)"
      "entries 0 its = zip (owners 0 fs) (zip (map CSOffset css) offs)"
      "\<forall>pre off os post. its = pre @ IState off os # post \<longrightarrow> 0 + length (funs_of pre) \<noteq> 0" by auto
  let ?its = "its @ map IFun gs"
  have "length ?h = 8" by simp
  then have d: "8 dvd length out" using encode_items_dvd [of its] by (simp only: I(1) length_append dvd_add_triv_left_iff)
  have f: "fold writeFunction gs out = out @ encode_items (map IFun gs)" by (rule fold_writeFunction [OF d])
  have bs': "bs = ?h @ encode_items ?its @ writeObjectHeader END_OF_STACK_MAP 0 0 0 []"
    unfolding bs f by (simp add: I(1) writeObjectHeader_def)
  have split: "funs_of pre \<noteq> []" if p: "?its = pre @ IState off os # post" for pre off os post
  proof -
    have "length pre < length its"
    proof (rule ccontr)
      assume "\<not> length pre < length its"
      moreover have "length pre < length ?its" unfolding p by simp
      ultimately have "?its ! length pre = IFun (gs ! (length pre - length its))" by (simp add: nth_append)
      then show False unfolding p by simp
    qed
    then have "its = pre @ IState off os # take (length its - length pre - 1) post"
      using arg_cong [OF p, of "take (length its)"] by (simp add: take_Cons' )
    then show ?thesis using I(6) by fastforce
  qed
  have "read_le 2 bs = Inr 1" unfolding bs' append_assoc by (rule read_le_append) simp
  moreover have "drop 8 bs = encode_items ?its @ writeObjectHeader END_OF_STACK_MAP 0 0 0 []" by (simp add: bs')
  ultimately show ?thesis
    using I(2-5) split by (intro exI [of _ ?its] exI [of _ offs]) (auto simp: bs')
qed

lemma roundtrip_parse:
  assumes "emitStackMaps fs css = Inr bs" "\<forall>f \<in> set fs. length (fn_symbol f) \<le> 65528"
  shows "\<exists>offs m. map callsite_offsets css = map Inr offs \<and> length css \<le> length (owners 0 fs) \<and>
    StackMapDescription bs = Inr (m\<lparr>m_statepoints := sort_key (FindInstructionPtr m) (m_statepoints m)\<rparr>) \<and>
    m_functions m = map2 descriptor [0..<length fs] fs \<and>
    m_statepoints m = internal_statepoints 0 (zip (owners 0 fs) (zip (map CSOffset css) offs)) \<and>
    m_offsetHeap m = concat offs"
proof -
  from emitStackMaps_items [OF assms(1)] obtain its offs where
    I: "drop 8 bs = encode_items its @ writeObjectHeader END_OF_STACK_MAP 0 0 0 []"
      "read_le 2 bs = Inr 1" "8 \<le> length bs" "funs_of its = fs" "map callsite_offsets css = map Inr offs"
      "length css \<le> length (owners 0 fs)"
      "entries 0 its = zip (owners 0 fs) (zip (map CSOffset css) offs)"
      "\<forall>pre off os post. its = pre @ IState off os # post \<longrightarrow> funs_of pre \<noteq> []" by blast
  define e where "e = \<lparr>m_functions = [], m_statepoints = [], m_offsetHeap = []\<rparr>"
  have e: "m_functions e = []" "m_statepoints e = []" "m_offsetHeap e = []" by (simp_all add: e_def)
  define m where "m = fold apply_item its e"
  have len: "length css = length offs" using I(5) map_eq_imp_length_eq by blast
  have F: "m_functions m = map2 descriptor [0..<length fs] fs"
    "m_statepoints m = internal_statepoints 0 (entries 0 its)"
    "m_offsetHeap m = concat (map (\<lambda>(k, off, os). os) (entries 0 its))"
    using fold_apply_items [of e its] I(8) I(4) unfolding m_def e by simp_all
  have "map (\<lambda>(k, off, os). os) (zip (owners 0 fs) (zip (map CSOffset css) offs)) = offs"
    using I(6) len by (intro nth_equalityI) simp_all
  then have heap: "m_offsetHeap m = concat offs" using F(3) I(7) by simp
  have ok: "item_ok i (fold apply_item pre e)" if p: "its = pre @ i # post" for pre i post
  proof (cases i)
    case (IFun f)
    then have "f \<in> set fs" using p I(4) by (metis entries_append(2) funs_of.simps(2) in_set_conv_decomp)
    then show ?thesis using IFun assms(2) alignTo64_bound by simp
  next
    case (IState off os)
    have "\<forall>q off' os' r. pre = q @ IState off' os' # r \<longrightarrow> funs_of q \<noteq> []" using I(8) p by auto
    then have "m_functions (fold apply_item pre e) = map2 descriptor [0..<length (funs_of pre)] (funs_of pre)"
      using fold_apply_items [of e pre] e by simp
    moreover have "funs_of pre \<noteq> []" using I(8) p IState by blast
    ultimately have "m_functions (fold apply_item pre e) \<noteq> []" by (cases "funs_of pre") (simp_all add: upt_conv_Cons)
    moreover have "(length (funs_of pre) - 1, off, os) \<in> set (entries 0 its)" using p IState by simp
    then have "os \<in> set offs" unfolding I(7) by (meson set_zip_rightD)
    then have "Inr os \<in> set (map callsite_offsets css)" unfolding I(5) by simp
    then obtain cs where "callsite_offsets cs = Inr os" by auto
    ultimately show ?thesis using IState callsite_offsets_bound by simp
  qed
  have "parse_objects (drop 8 bs) e = Inr m"
    unfolding I(1) m_def using parse_items [OF ok]
      parse_header [of 0 0 END_OF_STACK_MAP "[]"] by simp
  then have "StackMapDescription bs = Inr (m\<lparr>m_statepoints := sort_key (FindInstructionPtr m) (m_statepoints m)\<rparr>)"
    using I(2,3) by (simp add: StackMapDescription_def e_def)
  then show ?thesis using I(5-7) F heap by (intro exI [of _ offs] exI [of _ m]) simp
qed

lemma nth_descriptor: "k < length fs \<Longrightarrow> map2 descriptor [0..<length fs] fs ! k = descriptor k (fs ! k)"
  by simp

lemma roundtrip_statepoint:
  assumes m: "m_functions m = map2 descriptor [0..<length fs] fs"
    "m_statepoints m = internal_statepoints 0 (zip (owners 0 fs) (zip (map CSOffset css) offs))"
    "m_offsetHeap m = concat offs"
    and l: "length css \<le> length (owners 0 fs)" "length offs = length css" and j: "j < length css"
  shows "FindInstructionPtr m (m_statepoints m ! j) = callsite_address fs css j"
    "take (numLocals (m_statepoints m ! j)) (drop (offsetIndex (m_statepoints m ! j)) (m_offsetHeap m)) = offs ! j"
    "numLocals (m_statepoints m ! j) = length (offs ! j)"
    "m_functions m ! functionId (m_statepoints m ! j) = descriptor (owners 0 fs ! j) (fs ! (owners 0 fs ! j))"
proof -
  let ?es = "zip (owners 0 fs) (zip (map CSOffset css) offs)"
  have je: "j < length ?es" using l j by simp
  have ej: "?es ! j = (owners 0 fs ! j, CSOffset (css ! j), offs ! j)" using l j by simp
  have t: "map (\<lambda>(k, off, os). os) (take j ?es) = take j offs"
    using l j by (intro nth_equalityI) simp_all
  note s = internal_statepoints_nth [OF je ej, of 0, folded m(2), unfolded t]
  have k: "owners 0 fs ! j < length fs" using owners_bound [of "owners 0 fs ! j" 0 fs] l j by simp
  show "m_functions m ! functionId (m_statepoints m ! j) = descriptor (owners 0 fs ! j) (fs ! (owners 0 fs ! j))"
    using k by (simp add: s m(1))
  then show "FindInstructionPtr m (m_statepoints m ! j) = callsite_address fs css j"
    by (simp add: FindInstructionPtr_def s callsite_address_def descriptor_def)
  show "take (numLocals (m_statepoints m ! j)) (drop (offsetIndex (m_statepoints m ! j)) (m_offsetHeap m)) = offs ! j"
    using concat_slice [of j offs] l j by (simp add: s m(3))
  show "numLocals (m_statepoints m ! j) = length (offs ! j)" by (simp add: s)
qed

text \<open>
  C5: reading back an emitted stack map succeeds, gives the emitted functions in order, and looking
  up an address finds a statepoint exactly when it is the return address of an emitted call site;
  the statepoint then names the function that owns the call site and the packed offsets of its
  live values.
\<close>

theorem stack_map_roundtrip:
  assumes "emitStackMaps fs css = Inr bs" "\<forall>f \<in> set fs. length (fn_symbol f) \<le> 65528"
    "distinct (map (callsite_address fs css) [0..<length css])"
  shows "\<exists>m. StackMapDescription bs = Inr m \<and> m_functions m = map2 descriptor [0..<length fs] fs \<and>
    (\<forall>j < length css. \<exists>os. callsite_offsets (css ! j) = Inr os \<and>
       Lookup m (callsite_address fs css j) =
         Some \<lparr>sp_instruction = callsite_address fs css j, sp_offsets = os, sp_numOffsets = length os,
               sp_function = descriptor (owners 0 fs ! j) (fs ! (owners 0 fs ! j))\<rparr>) \<and>
    (\<forall>a. a \<notin> callsite_address fs css ` {..<length css} \<longrightarrow> Lookup m a = None)"
proof -
  from roundtrip_parse [OF assms(1,2)] obtain offs m where
    P: "map callsite_offsets css = map Inr offs" "length css \<le> length (owners 0 fs)"
      "StackMapDescription bs = Inr (m\<lparr>m_statepoints := sort_key (FindInstructionPtr m) (m_statepoints m)\<rparr>)"
    and m: "m_functions m = map2 descriptor [0..<length fs] fs"
      "m_statepoints m = internal_statepoints 0 (zip (owners 0 fs) (zip (map CSOffset css) offs))"
      "m_offsetHeap m = concat offs" by blast
  have len: "length offs = length css" using map_eq_imp_length_eq [OF P(1)] by simp
  have n: "length (m_statepoints m) = length css" using len P(2) by (simp add: m(2))
  note sp = roundtrip_statepoint [OF m P(2) len]
  have keys: "map (FindInstructionPtr m) (m_statepoints m) = map (callsite_address fs css) [0..<length css]"
    by (rule nth_equalityI) (simp_all add: n sp)
  let ?m = "m\<lparr>m_statepoints := sort_key (FindInstructionPtr m) (m_statepoints m)\<rparr>"
  have "\<exists>os. callsite_offsets (css ! j) = Inr os \<and> Lookup ?m (callsite_address fs css j) =
      Some \<lparr>sp_instruction = callsite_address fs css j, sp_offsets = os, sp_numOffsets = length os,
            sp_function = descriptor (owners 0 fs ! j) (fs ! (owners 0 fs ! j))\<rparr>" if j: "j < length css" for j
  proof -
    have "callsite_offsets (css ! j) = Inr (offs ! j)" using P(1) j len by (metis nth_map)
    moreover have "m_statepoints m ! j \<in> set (m_statepoints m)" using j n by simp
    from Lookup_sorted(1) [OF _ this] keys assms(3)
    have "Lookup ?m (FindInstructionPtr m (m_statepoints m ! j)) = Some \<lparr>sp_instruction = FindInstructionPtr m (m_statepoints m ! j),
        sp_offsets = take (numLocals (m_statepoints m ! j)) (drop (offsetIndex (m_statepoints m ! j)) (m_offsetHeap m)),
        sp_numOffsets = numLocals (m_statepoints m ! j),
        sp_function = m_functions m ! functionId (m_statepoints m ! j)\<rparr>" by simp
    ultimately show ?thesis using sp [OF j] by simp
  qed
  moreover have "Lookup ?m a = None" if "a \<notin> callsite_address fs css ` {..<length css}" for a
  proof (rule Lookup_sorted(2))
    have "FindInstructionPtr m ` set (m_statepoints m) = callsite_address fs css ` {..<length css}"
      using arg_cong [OF keys, of set] by (simp add: atLeast0LessThan)
    then show "\<forall>s \<in> set (m_statepoints m). FindInstructionPtr m s \<noteq> a" using that by blast
  qed
  moreover have "m_functions ?m = map2 descriptor [0..<length fs] fs" using m(1) by simp
  ultimately show ?thesis using P(3) by blast
qed

definition demo_functions :: "fn_info list" where
  "demo_functions =
     [\<lparr>fn_address = 0x401000, fn_symbol = [109, 97], fn_stackSize = 24, RecordCount = 1\<rparr>,
      \<lparr>fn_address = 0x402000, fn_symbol = [], fn_stackSize = 8, RecordCount = 0\<rparr>]"

definition demo_constant :: location where
  "demo_constant = \<lparr>loc_type = Constant, loc_size = 8, loc_reg = 0, loc_offset = 0\<rparr>"

definition demo_callsite :: callsite where
  "demo_callsite =
     \<lparr>CSOffset = 16, Locations = replicate 3 demo_constant @
        [\<lparr>loc_type = Indirect, loc_size = 8, loc_reg = 7, loc_offset = 24\<rparr>,
         \<lparr>loc_type = Indirect, loc_size = 8, loc_reg = 7, loc_offset = 24\<rparr>], LiveOuts_empty = True\<rparr>"

lemma stack_map_roundtrip_witness:
  "\<exists>bs m. emitStackMaps demo_functions [demo_callsite] = Inr bs \<and> StackMapDescription bs = Inr m \<and>
     Lookup m 0x401010 = Some \<lparr>sp_instruction = 0x401010, sp_offsets = [3], sp_numOffsets = 1,
       sp_function = \<lparr>functionPointer = 0x401000, fd_name = [109, 97], fd_id = 0\<rparr>\<rparr> \<and>
     Lookup m 0x401011 = None"
proof -
  have offs: "callsite_offsets demo_callsite = Inr [3]"
    by (simp add: demo_callsite_def callsite_offsets_def demo_constant_def checkConstLoc_def nth_append
        RSP_DWARF_ID_def alignTo64_def)
  have "\<exists>bs. emitStackMaps demo_functions [demo_callsite] = Inr bs"
    using offs by (simp add: emitStackMaps_def demo_functions_def)
  then obtain bs where bs: "emitStackMaps demo_functions [demo_callsite] = Inr bs" by blast
  have a: "callsite_address demo_functions [demo_callsite] 0 = 0x401010"
    by (simp add: callsite_address_def demo_functions_def demo_callsite_def)
  have "\<exists>m. StackMapDescription bs = Inr m \<and> m_functions m = map2 descriptor [0..<length demo_functions] demo_functions \<and>
    (\<forall>j < length [demo_callsite]. \<exists>os. callsite_offsets ([demo_callsite] ! j) = Inr os \<and>
       Lookup m (callsite_address demo_functions [demo_callsite] j) =
         Some \<lparr>sp_instruction = callsite_address demo_functions [demo_callsite] j, sp_offsets = os,
               sp_numOffsets = length os,
               sp_function = descriptor (owners 0 demo_functions ! j) (demo_functions ! (owners 0 demo_functions ! j))\<rparr>) \<and>
    (\<forall>a. a \<notin> callsite_address demo_functions [demo_callsite] ` {..<length [demo_callsite]} \<longrightarrow> Lookup m a = None)"
    by (rule stack_map_roundtrip [OF bs]) (simp_all add: demo_functions_def demo_callsite_def)
  moreover have "owners 0 demo_functions ! 0 = 0" "length [demo_callsite] = 1"
    by (simp_all add: demo_functions_def demo_callsite_def)
  ultimately show ?thesis using bs a offs
    by (fastforce simp: lessThan_Suc demo_functions_def descriptor_def)
qed

end
