(* ===== verification/Hash_Util.thy ===== *)
theory Hash_Util
  imports Bytes
begin

text \<open>
  common/HashUtil.cpp: the hash of method signatures, on which the compiler and the runtime agree.
  Strings are lists of bytes.
\<close>

unbundle bit_operations_syntax

definition finalMix64 :: "u64 \<Rightarrow> u64" where
  "finalMix64 k =
     (let k = k XOR drop_bit 33 k;
          k = k * 0xff51afd7ed558ccd;
          k = k XOR drop_bit 33 k;
          k = k * 0xc4ceb9fe1a85ec53;
          k = k XOR drop_bit 33 k
      in k)"

definition rotl64 :: "u64 \<Rightarrow> nat \<Rightarrow> u64" where
  "rotl64 x r = push_bit r x OR drop_bit (64 - r) x"

definition C1 :: u64 where "C1 = 0x87c37b91114253d5"
definition C2 :: u64 where "C2 = 0x4cf5ad432745937f"

definition mix_k1 :: "u64 \<Rightarrow> u64" where
  "mix_k1 k1 = rotl64 (k1 * C1) 31 * C2"

definition mix_k2 :: "u64 \<Rightarrow> u64" where
  "mix_k2 k2 = rotl64 (k2 * C2) 33 * C1"

text \<open>The bytes of a block as the little-endian machine reads them.\<close>

definition load64 :: "u8 list \<Rightarrow> u64" where
  "load64 bs = word_of_nat (le_nat (take 8 bs))"

text \<open>The loop over whole blocks; it returns the state and the bytes that are left.\<close>

function hash_body :: "u8 list \<Rightarrow> u64 \<Rightarrow> u64 \<Rightarrow> u64 \<times> u64 \<times> u8 list" where
  "hash_body bs h1 h2 =
     (if 16 \<le> length bs then
        let h1 = h1 XOR mix_k1 (load64 bs);
            h1 = rotl64 h1 27;
            h1 = h1 + h2;
            h1 = h1 * 5 + 0x52dce729;
            h2 = h2 XOR mix_k2 (load64 (drop 8 bs));
            h2 = rotl64 h2 31;
            h2 = h2 + h1;
            h2 = h2 * 5 + 0x38495ab5
        in hash_body (drop 16 bs) h1 h2
      else (h1, h2, bs))"
  by pat_completeness auto
termination
  by (relation "measure (\<lambda>(bs, h1, h2). length bs)") auto

declare hash_body.simps [simp del]

definition hashData :: "u8 list \<Rightarrow> u64 \<Rightarrow> u64" where
  "hashData bs seed =
     (let (h1, h2, rest) = hash_body bs seed seed;
          tail = rest @ replicate (16 - length rest) 0;
          h2 = h2 XOR mix_k2 (load64 (drop 8 tail));
          h1 = h1 XOR mix_k1 (load64 tail);
          h1 = h1 XOR word_of_nat (length bs);
          h2 = h2 XOR word_of_nat (length bs);
          h1 = h1 + h2;
          h2 = h2 + h1;
          h1 = finalMix64 h1;
          h2 = finalMix64 h2;
          h1 = h1 + h2
      in h1)"

definition hashString :: "u8 list \<Rightarrow> u64 \<Rightarrow> u64" where
  "hashString value seed = hashData value seed"

text \<open>\<open>"signature id"\<close> in ASCII.\<close>

definition SIG_SEED :: u64 where
  "SIG_SEED = hashString [115, 105, 103, 110, 97, 116, 117, 114, 101, 32, 105, 100] 0"

definition findSignatureId :: "u8 list \<Rightarrow> u64" where
  "findSignatureId name = hashString name SIG_SEED"

section \<open>The finaliser and the block mixers lose no information\<close>

lemma xorshift_involution:
  fixes x :: u64
  assumes "32 \<le> r"
  shows "(x XOR drop_bit r x) XOR drop_bit r (x XOR drop_bit r x) = x"
  using assms by (intro bit_word_eqI) (auto simp: bit_simps dest: bit_imp_le_length)

lemma mult_inverse:
  fixes x c d :: u64
  assumes "c * d = 1"
  shows "x * c * d = x"
  using assms by (simp add: mult.assoc)

definition unmix64 :: "u64 \<Rightarrow> u64" where
  "unmix64 k =
     (let k = k XOR drop_bit 33 k;
          k = k * 0x9cb4b2f8129337db;
          k = k XOR drop_bit 33 k;
          k = k * 0x4f74430c22a54005;
          k = k XOR drop_bit 33 k
      in k)"

lemma unmix_finalMix64: "unmix64 (finalMix64 k) = k"
proof -
  have i: "(0xc4ceb9fe1a85ec53 :: u64) * 0x9cb4b2f8129337db = 1" "(0xff51afd7ed558ccd :: u64) * 0x4f74430c22a54005 = 1"
    by simp_all
  have x: "(y XOR drop_bit 33 y) XOR drop_bit 33 (y XOR drop_bit 33 y) = y" for y :: u64
    by (rule xorshift_involution) simp
  show ?thesis
    by (simp only: unmix64_def finalMix64_def Let_def mult_inverse [OF i(1)] mult_inverse [OF i(2)] x)
qed

end
