(* ===== verification/Func_Table.thy ===== *)
theory Func_Table
  imports Hash_Util
begin

text \<open>
  The method tables of rtsrc/ObjClass.h and ObjClass.cpp: a 256-entry open-addressing table that is
  moved to an STL map when probing gets long.  Function pointers are 64-bit words, 0 is null.  A
  pointer to an entry, as \<open>FindFunctionTableEntry\<close> returns it, is a \<open>slot\<close>.
\<close>

record entry =
  func :: u64
  signature :: u64

definition empty_entry :: entry where
  "empty_entry = \<lparr>func = 0, signature = 0\<rparr>"

record function_table =
  entries :: "entry list"
  stlEntryMap :: "(u64 \<rightharpoonup> entry) option"

definition NUM_ENTRIES :: nat where "NUM_ENTRIES = 256"

definition empty_table :: function_table where
  "empty_table = \<lparr>entries = replicate NUM_ENTRIES empty_entry, stlEntryMap = None\<rparr>"

datatype slot = InArray nat | InMap u64

fun read_slot :: "function_table \<Rightarrow> slot \<Rightarrow> entry" where
  "read_slot t (InArray i) = entries t ! i"
| "read_slot t (InMap s) = the (the (stlEntryMap t) s)"

fun write_slot :: "slot \<Rightarrow> entry \<Rightarrow> function_table \<Rightarrow> function_table" where
  "write_slot (InArray i) e t = t\<lparr>entries := (entries t)[i := e]\<rparr>"
| "write_slot (InMap s) e t = t\<lparr>stlEntryMap := map_option (\<lambda>m. m(s \<mapsto> e)) (stlEntryMap t)\<rparr>"

definition home :: "u64 \<Rightarrow> nat" where
  "home s = unat s mod NUM_ENTRIES"

definition next_index :: "nat \<Rightarrow> nat" where
  "next_index i = (if Suc i = NUM_ENTRIES then 0 else Suc i)"

section \<open>Lookup\<close>

text \<open>
  The loop of \<open>LookupMethod\<close>; \<open>left\<close> counts the entries that have not been visited, so that
  coming back to \<open>startIndex\<close> is \<open>left = 0\<close>.
\<close>

fun lookup_loop :: "nat \<Rightarrow> entry list \<Rightarrow> u64 \<Rightarrow> nat \<Rightarrow> entry option res" where
  "lookup_loop left es s index =
     (let e = es ! index in
      if signature e = s then Inr (Some e)
      else if func e = 0 then Inr None
      else case left of
        0 \<Rightarrow> Inl (WrenAbort ''Function table full'')
      | Suc left \<Rightarrow> lookup_loop left es s (next_index index))"

definition LookupMethod :: "u64 \<Rightarrow> function_table \<Rightarrow> entry option res" where
  "LookupMethod s t =
     (case stlEntryMap t of
        Some m \<Rightarrow> Inr (m s)
      | None \<Rightarrow> lookup_loop (NUM_ENTRIES - 1) (entries t) s (home s))"

section \<open>Insertion\<close>

definition RelocateSignaturesToSTL :: "function_table \<Rightarrow> function_table res" where
  "RelocateSignaturesToSTL t =
     (if stlEntryMap t \<noteq> None
      then Inl (WrenAbort ''Calling RelocateSignaturesToSTL with an already-allocated sigmap'')
      else Inr (t\<lparr>stlEntryMap :=
        Some (fold (\<lambda>e m. if func e = 0 then m else m(signature e \<mapsto> e)) (entries t) Map.empty)\<rparr>))"

text \<open>\<open>map[signature]\<close> inserts an empty entry when there is none.\<close>

definition find_in_map :: "u64 \<Rightarrow> function_table \<Rightarrow> slot \<times> function_table" where
  "find_in_map s t =
     (InMap s, t\<lparr>stlEntryMap := map_option (\<lambda>m. if m s = None then m(s \<mapsto> empty_entry) else m) (stlEntryMap t)\<rparr>)"

function find_entry_loop :: "nat \<Rightarrow> nat \<Rightarrow> u64 \<Rightarrow> function_table \<Rightarrow> (slot \<times> function_table) res" where
  "find_entry_loop attempts idx s t =
     (if func (entries t ! idx) = 0 then Inr (InArray idx, t)
      else if signature (entries t ! idx) = s then Inr (InArray idx, t)
      else if attempts > 5 then rbind (RelocateSignaturesToSTL t) (\<lambda>t. Inr (find_in_map s t))
      else find_entry_loop (attempts + 1) (next_index idx) s t)"
  by pat_completeness auto
termination
  by (relation "measure (\<lambda>(attempts, idx, s, t). 6 - attempts)") auto

declare find_entry_loop.simps [simp del]

definition FindFunctionTableEntry :: "u64 \<Rightarrow> function_table \<Rightarrow> (slot \<times> function_table) res" where
  "FindFunctionTableEntry s t =
     (if stlEntryMap t \<noteq> None then Inr (find_in_map s t) else find_entry_loop 1 (home s) s t)"

text \<open>\<open>AddFunction\<close> on the table; the flag says whether \<open>definedFunctions\<close> gets the entry too.\<close>

definition add_entry :: "u64 \<Rightarrow> u64 \<Rightarrow> bool \<Rightarrow> function_table \<Rightarrow> (bool \<times> function_table) res" where
  "add_entry s funcPtr shouldOverride t =
     rbind (FindFunctionTableEntry s t) (\<lambda>(slot, t).
       if \<not> shouldOverride \<and> func (read_slot t slot) \<noteq> 0 then Inr (False, t)
       else Inr (True, write_slot slot \<lparr>func = funcPtr, signature = s\<rparr> t))"

section \<open>Classes\<close>

record obj_class =
  cls_functions :: function_table
  definedFunctions :: "entry list"
  cls_name :: "u8 list"
  isMetaClass :: bool
  parentClass :: "nat option"

definition AddFunction :: "u8 list \<Rightarrow> u64 \<Rightarrow> bool \<Rightarrow> obj_class \<Rightarrow> obj_class res" where
  "AddFunction sig_name funcPtr shouldOverride c =
     (let s = findSignatureId sig_name in
      rbind (add_entry s funcPtr shouldOverride (cls_functions c)) (\<lambda>(added, t).
        Inr (c\<lparr>cls_functions := t,
               definedFunctions := definedFunctions c @ (if added then [\<lparr>func = funcPtr, signature = s\<rparr>] else [])\<rparr>)))"

text \<open>Classes are kept by number; a class without a parent ends the chain.\<close>

type_synonym classes = "nat \<Rightarrow> obj_class"

partial_function (option) Extends :: "classes \<Rightarrow> nat option \<Rightarrow> nat \<Rightarrow> bool option" where
  "Extends cs iter other =
     (case iter of
        None \<Rightarrow> Some False
      | Some i \<Rightarrow> if i = other then Some True else Extends cs (parentClass (cs i)) other)"

declare Extends.simps [code]

text \<open>The two inner loops of \<open>FinaliseSetup\<close>.\<close>

definition inherit_entry :: "entry \<Rightarrow> function_table \<Rightarrow> function_table res" where
  "inherit_entry superEntry t =
     rbind (FindFunctionTableEntry (signature superEntry) t) (\<lambda>(slot, t).
       Inr (if func (read_slot t slot) = 0 then write_slot slot superEntry t else t))"

fun inherit_entries :: "entry list \<Rightarrow> function_table \<Rightarrow> function_table res" where
  "inherit_entries [] t = Inr t"
| "inherit_entries (e # es) t = rbind (inherit_entry e t) (inherit_entries es)"

fun inherit_chain :: "nat \<Rightarrow> classes \<Rightarrow> nat option \<Rightarrow> function_table \<Rightarrow> function_table res option" where
  "inherit_chain fuel cs None t = Some (Inr t)"
| "inherit_chain 0 cs (Some p) t = None"
| "inherit_chain (Suc fuel) cs (Some p) t =
     (case inherit_entries (definedFunctions (cs p)) t of
        Inl e \<Rightarrow> Some (Inl e)
      | Inr t \<Rightarrow> inherit_chain fuel cs (parentClass (cs p)) t)"

text \<open>The loop over the native classes; \<open>inherits\<close> is the virtual \<open>InheritsMethods\<close>.\<close>

fun FinaliseSetup :: "nat \<Rightarrow> (nat \<Rightarrow> bool) \<Rightarrow> nat list \<Rightarrow> classes \<Rightarrow> classes res option" where
  "FinaliseSetup fuel inherits [] cs = Some (Inr cs)"
| "FinaliseSetup fuel inherits (c # rest) cs =
     (if \<not> inherits c then FinaliseSetup fuel inherits rest cs
      else case inherit_chain fuel cs (parentClass (cs c)) (cls_functions (cs c)) of
        None \<Rightarrow> None
      | Some (Inl e) \<Rightarrow> Some (Inl e)
      | Some (Inr t) \<Rightarrow> FinaliseSetup fuel inherits rest (cs(c := (cs c)\<lparr>cls_functions := t\<rparr>)))"

end
