(* ===== verification/Func_Table_Proofs.thy ===== *)
theory Func_Table_Proofs
  imports Func_Table
begin

text \<open>
  The method table implements a map from signatures to functions: \<open>methods t\<close> is that map,
  \<open>table_ok\<close> the invariant of the probing sequence.  The interface \<open>method_table\<close> states what the
  set-up of the native classes relies on.
\<close>

section \<open>Probing\<close>

definition probe :: "u64 \<Rightarrow> nat \<Rightarrow> nat" where
  "probe s d = (home s + d) mod NUM_ENTRIES"

lemma probe_simps: "probe s 0 = home s" "next_index (probe s d) = probe s (Suc d)" "probe s d < NUM_ENTRIES"
proof -
  show "next_index (probe s d) = probe s (Suc d)"
    using mod_Suc [of "home s + d" NUM_ENTRIES] by (simp add: next_index_def probe_def)
qed (simp_all add: probe_def home_def NUM_ENTRIES_def)

lemma probe_inj:
  assumes "probe s c = probe s d" "c < NUM_ENTRIES" "d < NUM_ENTRIES" shows "c = d"
proof -
  have "(home s + c) mod NUM_ENTRIES = (home s + d) mod NUM_ENTRIES" using assms(1) by (simp add: probe_def)
  then have "c mod NUM_ENTRIES = d mod NUM_ENTRIES"
    using mod_diff_cong [of "int (home s + c)" "int NUM_ENTRIES" "int (home s + d)" "int (home s)" "int (home s)"]
    by (metis add_left_imp_eq mod_add_left_eq add.commute nat_mod_eq_iff add_right_imp_eq zmod_int
        of_nat_add add_diff_cancel_left' nat_int_comparison(1))
  then show ?thesis using assms by simp
qed

lemma probe_surj:
  assumes "i < NUM_ENTRIES" shows "\<exists>d < NUM_ENTRIES. probe s d = i"
proof -
  let ?d = "(i + (NUM_ENTRIES - home s)) mod NUM_ENTRIES"
  have h: "home s < NUM_ENTRIES" by (simp add: home_def NUM_ENTRIES_def)
  have "probe s ?d = (home s + (i + (NUM_ENTRIES - home s))) mod NUM_ENTRIES"
    by (simp add: probe_def mod_add_right_eq)
  also have "\<dots> = i" using assms h by simp
  finally show ?thesis using assms by (intro exI [of _ ?d]) simp
qed

definition passed :: "entry list \<Rightarrow> u64 \<Rightarrow> nat \<Rightarrow> bool" where
  "passed es s d \<longleftrightarrow> (\<forall>c < d. func (es ! probe s c) \<noteq> 0 \<and> signature (es ! probe s c) \<noteq> s)"

lemma passed_simps: "passed es s 0" "passed es s (Suc d) \<longleftrightarrow>
    passed es s d \<and> func (es ! probe s d) \<noteq> 0 \<and> signature (es ! probe s d) \<noteq> s"
  by (auto simp: passed_def less_Suc_eq)

definition array_ok :: "entry list \<Rightarrow> bool" where
  "array_ok es \<longleftrightarrow> length es = NUM_ENTRIES \<and>
     (\<forall>i < NUM_ENTRIES. if func (es ! i) = 0 then signature (es ! i) = 0
        else \<exists>d \<le> 5. i = probe (signature (es ! i)) d \<and> passed es (signature (es ! i)) d)"

definition map_ok :: "(u64 \<rightharpoonup> entry) \<Rightarrow> bool" where
  "map_ok m \<longleftrightarrow> (\<forall>s e. m s = Some e \<longrightarrow> signature e = s \<and> func e \<noteq> 0)"

definition table_ok :: "function_table \<Rightarrow> bool" where
  "table_ok t \<longleftrightarrow> (case stlEntryMap t of None \<Rightarrow> array_ok (entries t) | Some m \<Rightarrow> map_ok m)"

definition methods :: "function_table \<Rightarrow> u64 \<rightharpoonup> u64" where
  "methods t s =
     (case stlEntryMap t of
        Some m \<Rightarrow> map_option func (m s)
      | None \<Rightarrow> map_option func (find (\<lambda>e. func e \<noteq> 0 \<and> signature e = s) (entries t)))"

text \<open>Where a method of the array lives.\<close>

lemma array_position:
  assumes ok: "array_ok es" and d: "d < NUM_ENTRIES" "passed es s d" "func (es ! probe s d) \<noteq> 0"
    "signature (es ! probe s d) = s"
    and i: "i < NUM_ENTRIES" "func (es ! i) \<noteq> 0" "signature (es ! i) = s"
  shows "i = probe s d"
proof -
  obtain c where c: "c \<le> 5" "i = probe s c" "passed es s c"
    using ok i unfolding array_ok_def by fastforce
  have "\<not> c < d" "\<not> d < c" using c d i by (auto simp: passed_def)
  then show ?thesis using c by simp
qed

lemma methods_array_Some:
  assumes "array_ok (entries t)" "stlEntryMap t = None" "d < NUM_ENTRIES" "passed (entries t) s d"
    "func (entries t ! probe s d) \<noteq> 0" "signature (entries t ! probe s d) = s"
  shows "methods t s = Some (func (entries t ! probe s d))"
proof -
  have len: "length (entries t) = NUM_ENTRIES" using assms(1) by (simp add: array_ok_def)
  have "find (\<lambda>e. func e \<noteq> 0 \<and> signature e = s) (entries t) \<noteq> None"
    using assms(5,6) probe_simps(3) [of s d] len by (auto simp: find_None_iff in_set_conv_nth)
  then obtain e where e: "find (\<lambda>e. func e \<noteq> 0 \<and> signature e = s) (entries t) = Some e" by auto
  then obtain i where "i < NUM_ENTRIES" "e = entries t ! i" "func (entries t ! i) \<noteq> 0" "signature (entries t ! i) = s"
    using len by (auto simp: find_Some_iff)
  then show ?thesis using array_position [OF assms(1,3-6)] e assms(2) by (simp add: methods_def)
qed

lemma methods_array_None:
  assumes "array_ok (entries t)" "stlEntryMap t = None" "passed (entries t) s d"
    "6 \<le> d \<or> func (entries t ! probe s d) = 0"
  shows "methods t s = None"
proof (rule ccontr)
  assume "methods t s \<noteq> None"
  then obtain e where "find (\<lambda>e. func e \<noteq> 0 \<and> signature e = s) (entries t) = Some e"
    using assms(2) by (auto simp: methods_def)
  then obtain i where i: "i < NUM_ENTRIES" "func (entries t ! i) \<noteq> 0" "signature (entries t ! i) = s"
    using assms(1) by (auto simp: find_Some_iff array_ok_def)
  then obtain c where c: "c \<le> 5" "i = probe s c" "passed (entries t) s c"
    using assms(1) unfolding array_ok_def by fastforce
  have "\<not> c < d" using assms(3) c i by (auto simp: passed_def)
  moreover have "\<not> d < c" "c \<noteq> d" if "func (entries t ! probe s d) = 0" using c i that by (auto simp: passed_def)
  ultimately show False using assms(4) c by auto
qed

section \<open>Finding a slot\<close>

lemma find_entry_loop_cases:
  assumes "array_ok (entries t)" "stlEntryMap t = None" "passed (entries t) s d" "d \<le> 5"
  obtains (array) c where "find_entry_loop (Suc d) (probe s d) s t = Inr (InArray (probe s c), t)" "c \<le> 5"
      "passed (entries t) s c"
      "func (entries t ! probe s c) = 0 \<or> signature (entries t ! probe s c) = s"
  | (move) "find_entry_loop (Suc d) (probe s d) s t =
        rbind (RelocateSignaturesToSTL t) (\<lambda>t. Inr (find_in_map s t))" "methods t s = None"
  using assms(3,4)
proof (induction "5 - d" arbitrary: d thesis rule: less_induct)
  case less
  note run = find_entry_loop.simps [of "Suc d" "probe s d" s t]
  consider "func (entries t ! probe s d) = 0 \<or> signature (entries t ! probe s d) = s"
    | "d = 5" "passed (entries t) s (Suc d)" | "d < 5" "passed (entries t) s (Suc d)"
  proof -
    have "passed (entries t) s (Suc d)"
      if "\<not> (func (entries t ! probe s d) = 0 \<or> signature (entries t ! probe s d) = s)"
      using that less.prems(3) passed_simps(2) by blast
    moreover have "d = 5 \<or> d < 5" using less.prems(4) by linarith
    ultimately show thesis using that by blast
  qed
  then show ?case
  proof cases
    case 1
    then have "find_entry_loop (Suc d) (probe s d) s t = Inr (InArray (probe s d), t)" using run by auto
    then show ?thesis using less.prems(3,4) 1 by (intro less.prems(1))
  next
    case 2
    then have c: "5 < Suc d" "func (entries t ! probe s d) \<noteq> 0" "signature (entries t ! probe s d) \<noteq> s"
      using passed_simps(2) [of "entries t" s d] by auto
    have "find_entry_loop (Suc d) (probe s d) s t = rbind (RelocateSignaturesToSTL t) (\<lambda>t. Inr (find_in_map s t))"
      by (subst run) (simp only: c if_False if_True simp_thms)
    moreover have "methods t s = None" using methods_array_None [OF assms(1,2) 2(2)] c(1) by simp
    ultimately show ?thesis by (rule less.prems(2))
  next
    case 3
    then have c: "\<not> 5 < Suc d" "func (entries t ! probe s d) \<noteq> 0" "signature (entries t ! probe s d) \<noteq> s"
      using passed_simps(2) [of "entries t" s d] by auto
    have eq: "find_entry_loop (Suc d) (probe s d) s t = find_entry_loop (Suc (Suc d)) (probe s (Suc d)) s t"
      by (subst run) (simp only: c if_False simp_thms probe_simps Suc_eq_plus1 [symmetric])
    show ?thesis
    proof (rule less.hyps [of "Suc d"])
      show "5 - Suc d < 5 - d" "passed (entries t) s (Suc d)" "Suc d \<le> 5" using 3 by auto
    qed (simp_all only: eq [symmetric] less.prems(1,2))
  qed
qed

lemma relocate_fold:
  assumes "\<forall>e \<in> set es. \<forall>e' \<in> set es. func e \<noteq> 0 \<longrightarrow> func e' \<noteq> 0 \<longrightarrow> signature e = signature e' \<longrightarrow> e = e'"
  shows "fold (\<lambda>e m. if func e = 0 then m else m(signature e \<mapsto> e)) es m s =
    (case find (\<lambda>e. func e \<noteq> 0 \<and> signature e = s) es of Some e \<Rightarrow> Some e | None \<Rightarrow> m s)"
  using assms
proof (induction es arbitrary: m)
  case (Cons e es)
  have ih: "fold (\<lambda>e m. if func e = 0 then m else m(signature e \<mapsto> e)) es m s =
    (case find (\<lambda>e. func e \<noteq> 0 \<and> signature e = s) es of Some e \<Rightarrow> Some e | None \<Rightarrow> m s)" for m
    by (rule Cons.IH) (use Cons.prems in auto)
  show ?case
  proof (cases "func e \<noteq> 0 \<and> signature e = s")
    case True
    have "e' = e" if "find (\<lambda>e. func e \<noteq> 0 \<and> signature e = s) es = Some e'" for e'
      using that True Cons.prems by (auto simp: find_Some_iff)
    then show ?thesis using True by (auto simp: ih split: option.split)
  qed (auto simp: ih split: option.split)
qed simp

lemma array_unique:
  assumes "array_ok es"
  shows "\<forall>e \<in> set es. \<forall>e' \<in> set es. func e \<noteq> 0 \<longrightarrow> func e' \<noteq> 0 \<longrightarrow> signature e = signature e' \<longrightarrow> e = e'"
proof (intro ballI impI)
  fix e e' assume e: "e \<in> set es" "e' \<in> set es" "func e \<noteq> 0" "func e' \<noteq> 0" "signature e = signature e'"
  then obtain i j where ij: "i < NUM_ENTRIES" "e = es ! i" "j < NUM_ENTRIES" "e' = es ! j"
    using assms by (auto simp: in_set_conv_nth array_ok_def)
  then obtain d where d: "d \<le> 5" "i = probe (signature e) d" "passed es (signature e) d"
    using assms e unfolding array_ok_def by fastforce
  have at: "es ! probe (signature e) d = e" by (metis ij(2) d(2))
  have "j = probe (signature e) d"
  proof (rule array_position [OF assms _ d(3)])
    show "d < NUM_ENTRIES" using d(1) by (simp add: NUM_ENTRIES_def)
    show "func (es ! probe (signature e) d) \<noteq> 0" "signature (es ! probe (signature e) d) = signature e"
      using at e(3) by simp_all
    show "j < NUM_ENTRIES" "func (es ! j) \<noteq> 0" "signature (es ! j) = signature e"
      using ij(3,4) e(4,5) by simp_all
  qed
  then show "e = e'" using at ij(4) by simp
qed

lemma relocate_ok:
  assumes "table_ok t" "stlEntryMap t = None"
  obtains t' where "RelocateSignaturesToSTL t = Inr t'" "table_ok t'" "stlEntryMap t' \<noteq> None" "methods t' = methods t"
proof -
  let ?m = "fold (\<lambda>e m. if func e = 0 then m else m(signature e \<mapsto> e)) (entries t) Map.empty"
  have ok: "array_ok (entries t)" using assms by (simp add: table_ok_def)
  have m: "?m s = find (\<lambda>e. func e \<noteq> 0 \<and> signature e = s) (entries t)" for s
    using relocate_fold [OF array_unique [OF ok], of Map.empty s] by (simp split: option.split)
  then have "map_ok ?m" by (auto simp: map_ok_def find_Some_iff)
  moreover have "methods (t\<lparr>stlEntryMap := Some ?m\<rparr>) = methods t"
    using assms(2) m by (simp add: methods_def fun_eq_iff)
  ultimately show thesis
    using that [of "t\<lparr>stlEntryMap := Some ?m\<rparr>"] assms(2) by (simp add: RelocateSignaturesToSTL_def table_ok_def)
qed

section \<open>Adding a method\<close>

lemma array_write_ok:
  assumes ok: "array_ok es" and d: "d \<le> 5" "passed es s d" "func (es ! probe s d) = 0 \<or> signature (es ! probe s d) = s"
    and f: "f \<noteq> 0"
  defines "es' \<equiv> es[probe s d := \<lparr>func = f, signature = s\<rparr>]"
  shows "array_ok es'"
proof -
  have len: "length es = NUM_ENTRIES" using ok by (simp add: array_ok_def)
  have n: "es' ! i = (if i = probe s d then \<lparr>func = f, signature = s\<rparr> else es ! i)" if "i < NUM_ENTRIES" for i
    using that len by (simp add: es'_def)
  have passed': "passed es' s' c" if p: "passed es s' c" and ns: "s' \<noteq> s \<or> (\<forall>b < c. probe s' b \<noteq> probe s d)" for s' c
    using p ns f by (auto simp: passed_def n probe_simps)
  have "if func (es' ! i) = 0 then signature (es' ! i) = 0
        else \<exists>c \<le> 5. i = probe (signature (es' ! i)) c \<and> passed es' (signature (es' ! i)) c" if i: "i < NUM_ENTRIES" for i
  proof (cases "i = probe s d")
    case True
    have "probe s b \<noteq> probe s d" if "b < d" for b
      using probe_inj [of s b d] that d(1) by (auto simp: NUM_ENTRIES_def)
    then have "passed es' s d" using passed' [OF d(2)] by blast
    then show ?thesis using True i f d(1) by (auto simp: n)
  next
    case False
    show ?thesis
    proof (cases "func (es ! i) = 0")
      case True
      then show ?thesis using ok i False by (auto simp: n array_ok_def)
    next
      case nz: False
      then obtain c where c: "c \<le> 5" "i = probe (signature (es ! i)) c" "passed es (signature (es ! i)) c"
        using ok i unfolding array_ok_def by fastforce
      have "signature (es ! i) \<noteq> s"
      proof
        assume s: "signature (es ! i) = s"
        have "\<not> c < d" using d(2) c s nz by (auto simp: passed_def)
        moreover have "\<not> d < c" using d(3) c s by (auto simp: passed_def)
        ultimately show False using c s False by simp
      qed
      then have "passed es' (signature (es ! i)) c" using passed' [OF c(3)] by blast
      then show ?thesis using False nz i c by (auto simp: n)
    qed
  qed
  moreover have "length es' = NUM_ENTRIES" using len by (simp add: es'_def)
  ultimately show ?thesis unfolding array_ok_def by blast
qed

lemma find_list_update:
  "i < length xs \<Longrightarrow> \<not> P (xs ! i) \<Longrightarrow> \<not> P y \<Longrightarrow> find P (xs[i := y]) = find P xs"
  by (induction xs arbitrary: i) (auto split: nat.split)

lemma methods_write:
  assumes ok: "array_ok (entries t)" "stlEntryMap t = None"
    and d: "d \<le> 5" "passed (entries t) s d"
      "func (entries t ! probe s d) = 0 \<or> signature (entries t ! probe s d) = s" and f: "f \<noteq> 0"
  shows "methods (write_slot (InArray (probe s d)) \<lparr>func = f, signature = s\<rparr> t) = (methods t)(s \<mapsto> f)"
proof
  fix s'
  let ?t = "write_slot (InArray (probe s d)) \<lparr>func = f, signature = s\<rparr> t"
  let ?P = "\<lambda>e. func e \<noteq> 0 \<and> signature e = s'"
  have ok': "array_ok (entries ?t)" "stlEntryMap ?t = None"
    using array_write_ok [OF ok(1) d f] ok(2) by simp_all
  have len: "length (entries t) = NUM_ENTRIES" using ok(1) by (simp add: array_ok_def)
  have n: "entries ?t ! i = (if i = probe s d then \<lparr>func = f, signature = s\<rparr> else entries t ! i)" if "i < NUM_ENTRIES" for i
    using that len by simp
  show "methods ?t s' = ((methods t)(s \<mapsto> f)) s'"
  proof (cases "s' = s")
    case True
    have "probe s d \<noteq> probe s c" if "c < d" for c
      using probe_inj [of s c d] that d(1) by (auto simp: NUM_ENTRIES_def)
    then have "passed (entries ?t) s d" using d(2) by (simp add: passed_def)
    then show ?thesis
      using methods_array_Some [OF ok', of d s] d(1) f probe_simps(3) [of s d] True
      by (simp add: n NUM_ENTRIES_def len)
  next
    case False
    have old: "func (entries t ! probe s d) = 0 \<or> signature (entries t ! probe s d) \<noteq> s'" using d(3) False by auto
    have "find ?P (entries ?t) = find ?P (entries t)"
      using find_list_update [of "probe s d" "entries t" ?P] old False len probe_simps(3) by auto
    then show ?thesis using False ok(2) by (simp add: methods_def)
  qed
qed

lemma find_in_map_ok:
  assumes "table_ok t" "stlEntryMap t = Some m"
  obtains t' where "find_in_map s t = (InMap s, t')" "(func (read_slot t' (InMap s)) \<noteq> 0) = (methods t s \<noteq> None)"
    "methods t s \<noteq> None \<Longrightarrow> t' = t"
    "\<And>f. f \<noteq> 0 \<Longrightarrow> table_ok (write_slot (InMap s) \<lparr>func = f, signature = s\<rparr> t') \<and>
      methods (write_slot (InMap s) \<lparr>func = f, signature = s\<rparr> t') = (methods t)(s \<mapsto> f)"
proof -
  define t' where "t' = t\<lparr>stlEntryMap := Some (if m s = None then m(s \<mapsto> empty_entry) else m)\<rparr>"
  have "find_in_map s t = (InMap s, t')" using assms(2) by (simp add: find_in_map_def t'_def)
  moreover have "(func (read_slot t' (InMap s)) \<noteq> 0) = (methods t s \<noteq> None)"
    using assms by (auto simp: t'_def methods_def empty_entry_def table_ok_def map_ok_def)
  moreover have "t' = t" if "methods t s \<noteq> None" using that assms(2) by (auto simp: t'_def methods_def)
  moreover have "table_ok (write_slot (InMap s) \<lparr>func = f, signature = s\<rparr> t') \<and>
      methods (write_slot (InMap s) \<lparr>func = f, signature = s\<rparr> t') = (methods t)(s \<mapsto> f)" if "f \<noteq> 0" for f
    using assms that by (auto simp: t'_def table_ok_def map_ok_def methods_def fun_eq_iff)
  ultimately show thesis using that by blast
qed

lemma add_entry_ok:
  assumes ok: "table_ok t" and f: "f \<noteq> 0"
  shows "\<exists>t'. add_entry s f ov t = Inr (ov \<or> methods t s = None, t') \<and> table_ok t' \<and>
    methods t' = (if ov \<or> methods t s = None then (methods t)(s \<mapsto> f) else methods t)"
proof -
  have in_map: ?thesis if u: "table_ok u" "stlEntryMap u = Some m" "methods u = methods t"
    and r: "FindFunctionTableEntry s t = Inr (find_in_map s u)" for u m
  proof -
    from find_in_map_ok [OF u(1,2), of s] obtain t' where
      t': "find_in_map s u = (InMap s, t')" "(func (read_slot t' (InMap s)) \<noteq> 0) = (methods u s \<noteq> None)"
      "methods u s \<noteq> None \<Longrightarrow> t' = u"
      "table_ok (write_slot (InMap s) \<lparr>func = f, signature = s\<rparr> t') \<and>
        methods (write_slot (InMap s) \<lparr>func = f, signature = s\<rparr> t') = (methods u)(s \<mapsto> f)" using f by metis
    then show ?thesis using r u by (auto simp: add_entry_def)
  qed
  show ?thesis
  proof (cases "stlEntryMap t")
    case (Some m)
    then show ?thesis using ok by (intro in_map [of t m]) (simp_all add: FindFunctionTableEntry_def)
  next
    case None
    have a: "array_ok (entries t)" using ok None by (simp add: table_ok_def)
    have r: "FindFunctionTableEntry s t = find_entry_loop (Suc 0) (probe s 0) s t"
      using None by (simp add: FindFunctionTableEntry_def probe_simps)
    show ?thesis
    proof (rule find_entry_loop_cases [OF a None passed_simps(1) le0, of s])
      fix c assume c: "find_entry_loop (Suc 0) (probe s 0) s t = Inr (InArray (probe s c), t)" "c \<le> 5"
        "passed (entries t) s c" "func (entries t ! probe s c) = 0 \<or> signature (entries t ! probe s c) = s"
      have m: "(methods t s = None) = (func (entries t ! probe s c) = 0)"
      proof (cases "func (entries t ! probe s c) = 0")
        case True
        then show ?thesis using methods_array_None [OF a None c(3)] by simp
      next
        case False
        then show ?thesis using methods_array_Some [OF a None _ c(3)] c by (simp add: NUM_ENTRIES_def)
      qed
      show ?thesis
        using r c m methods_write [OF a None c(2-4) f] array_write_ok [OF a c(2-4) f] None ok
        by (auto simp: add_entry_def table_ok_def)
    next
      assume mv: "find_entry_loop (Suc 0) (probe s 0) s t = rbind (RelocateSignaturesToSTL t) (\<lambda>t. Inr (find_in_map s t))"
      from relocate_ok [OF ok None] obtain u where u: "RelocateSignaturesToSTL t = Inr u" "table_ok u"
        "stlEntryMap u \<noteq> None" "methods u = methods t" .
      then show ?thesis using r mv by (intro in_map [of u "the (stlEntryMap u)"]) auto
    qed
  qed
qed

section \<open>Lookup\<close>

lemma lookup_loop_steps:
  assumes "k \<le> left" "\<forall>c < k. func (es ! probe s (d + c)) \<noteq> 0 \<and> signature (es ! probe s (d + c)) \<noteq> s"
  shows "lookup_loop left es s (probe s d) = lookup_loop (left - k) es s (probe s (d + k))"
  using assms
proof (induction k arbitrary: d left)
  case (Suc k)
  obtain l where l: "left = Suc l" using Suc.prems(1) by (cases left) auto
  have "func (es ! probe s d) \<noteq> 0" "signature (es ! probe s d) \<noteq> s" using Suc.prems(2)[rule_format, of 0] by simp_all
  then have "lookup_loop left es s (probe s d) = lookup_loop l es s (probe s (Suc d))"
    by (simp add: l Let_def probe_simps)
  also have "\<dots> = lookup_loop (l - k) es s (probe s (Suc d + k))"
    by (rule Suc.IH) (use Suc.prems l in auto)
  finally show ?case by (simp add: l)
qed simp

definition has_free :: "function_table \<Rightarrow> bool" where
  "has_free t \<longleftrightarrow> stlEntryMap t \<noteq> None \<or> (\<exists>e \<in> set (entries t). func e = 0)"

lemma passed_full: "passed es s NUM_ENTRIES \<Longrightarrow> i < NUM_ENTRIES \<Longrightarrow> func (es ! i) \<noteq> 0 \<and> signature (es ! i) \<noteq> s"
  using probe_surj [of i s] by (auto simp: passed_def)

lemma LookupMethod_correct:
  assumes ok: "table_ok t" and s: "s \<noteq> 0"
  shows "LookupMethod s t =
    (case methods t s of
       Some f \<Rightarrow> Inr (Some \<lparr>func = f, signature = s\<rparr>)
     | None \<Rightarrow> if has_free t then Inr None else Inl (WrenAbort ''Function table full''))"
proof (cases "stlEntryMap t")
  case (Some m)
  have "m s = map_option (\<lambda>f. \<lparr>func = f, signature = s\<rparr>) (map_option func (m s))"
    using ok Some by (cases "m s") (auto simp: table_ok_def map_ok_def)
  then show ?thesis using Some by (auto simp: LookupMethod_def methods_def has_free_def split: option.splits)
next
  case None
  have a: "array_ok (entries t)" using ok None by (simp add: table_ok_def)
  have len: "length (entries t) = NUM_ENTRIES" using a by (simp add: array_ok_def)
  let ?stop = "\<lambda>d. func (entries t ! probe s d) = 0 \<or> signature (entries t ! probe s d) = s"
  have run: "LookupMethod s t = lookup_loop (NUM_ENTRIES - 1 - k) (entries t) s (probe s k)"
    if "k < NUM_ENTRIES" "passed (entries t) s k" for k
    using lookup_loop_steps [of k "NUM_ENTRIES - 1" "entries t" s 0] that None
    by (simp add: LookupMethod_def probe_simps passed_def)
  show ?thesis
  proof (cases "\<exists>d < NUM_ENTRIES. ?stop d")
    case True
    define d where "d = (LEAST d. d < NUM_ENTRIES \<and> ?stop d)"
    have d: "d < NUM_ENTRIES" "?stop d" using LeastI_ex [OF True] by (auto simp: d_def)
    have p: "passed (entries t) s d"
      using not_less_Least [of _ "\<lambda>d. d < NUM_ENTRIES \<and> ?stop d"] d(1) by (auto simp: passed_def d_def [symmetric])
    note r = run [OF d(1) p]
    have z: "func (entries t ! probe s d) = 0 \<Longrightarrow> signature (entries t ! probe s d) = 0"
      using a probe_simps(3) [of s d] unfolding array_ok_def by presburger
    show ?thesis
    proof (cases "func (entries t ! probe s d) = 0")
      case True
      have "entries t ! probe s d \<in> set (entries t)" using len probe_simps(3) [of s d] by simp
      then have "has_free t" using True by (auto simp: has_free_def)
      moreover have "LookupMethod s t = Inr None" using r z [OF True] True s by (subst r) (simp add: Let_def)
      ultimately show ?thesis using methods_array_None [OF a None p] True by simp
    next
      case False
      then have sig: "signature (entries t ! probe s d) = s" using d(2) by simp
      have "LookupMethod s t = Inr (Some (entries t ! probe s d))" using sig by (subst r) (simp add: Let_def)
      moreover have "methods t s = Some (func (entries t ! probe s d))"
        by (rule methods_array_Some [OF a None d(1) p False sig])
      ultimately show ?thesis using sig by (simp add: entry.equality)
    qed
  next
    case False
    then have p: "passed (entries t) s NUM_ENTRIES" by (simp add: passed_def)
    then have p': "passed (entries t) s (NUM_ENTRIES - 1)" by (simp add: passed_def)
    have "\<not> has_free t" using passed_full [OF p] None len by (auto simp: has_free_def in_set_conv_nth)
    moreover have "methods t s = None" using methods_array_None [OF a None p] by (simp add: NUM_ENTRIES_def)
    moreover have "LookupMethod s t = Inl (WrenAbort ''Function table full'')"
      using run [OF _ p'] passed_full [OF p, of "probe s (NUM_ENTRIES - 1)"] probe_simps(3)
      by (simp add: NUM_ENTRIES_def Let_def)
    ultimately show ?thesis by simp
  qed
qed

section \<open>The interface the set-up of classes relies on\<close>

locale method_table =
  fixes inv :: "'t \<Rightarrow> bool" and meths :: "'t \<Rightarrow> 'k \<rightharpoonup> 'f" and valid :: "'f \<Rightarrow> bool"
    and add :: "'k \<Rightarrow> 'f \<Rightarrow> bool \<Rightarrow> 't \<Rightarrow> (bool \<times> 't) res"
  assumes add_ok: "inv t \<Longrightarrow> valid f \<Longrightarrow> \<exists>t'. add k f ov t = Inr (ov \<or> meths t k = None, t') \<and> inv t' \<and>
    meths t' = (if ov \<or> meths t k = None then (meths t)(k \<mapsto> f) else meths t)"
begin

lemma add_missing:
  assumes "inv t" "valid f"
  shows "\<exists>b t'. add k f False t = Inr (b, t') \<and> inv t' \<and> meths t' = [k \<mapsto> f] ++ meths t"
proof -
  obtain t' where "add k f False t = Inr (meths t k = None, t')" "inv t'"
    "meths t' = (if meths t k = None then (meths t)(k \<mapsto> f) else meths t)"
    using add_ok [OF assms, of k False] by auto
  moreover have "[k \<mapsto> f] ++ meths t = (if meths t k = None then (meths t)(k \<mapsto> f) else meths t)"
    by (auto simp: map_add_def fun_eq_iff split: option.splits)
  ultimately show ?thesis by auto
qed

lemma add_twice:
  assumes "inv t" "valid f" "valid g"
  shows "\<exists>t'. rbind (add k f True t) (\<lambda>(b, t). add k g True t) = Inr (True, t') \<and> inv t' \<and>
    meths t' = (meths t)(k \<mapsto> g)"
  using add_ok [OF assms(1,2), of k True] add_ok [of _ g k True] assms(3) by fastforce

end

interpretation ft: method_table table_ok methods "\<lambda>f. f \<noteq> 0" add_entry
  by unfold_locales (rule add_entry_ok)

section \<open>Inheritance\<close>

lemma inherit_entry_add:
  "inherit_entry e t = rbind (add_entry (signature e) (func e) False t) (\<lambda>(b, t). Inr t)"
proof (cases "FindFunctionTableEntry (signature e) t")
  case (Inr p)
  obtain slot t' where p: "p = (slot, t')" by (cases p)
  show ?thesis using Inr p by (cases e) (auto simp: inherit_entry_def add_entry_def)
qed (simp add: inherit_entry_def add_entry_def)

definition entry_map :: "entry list \<Rightarrow> u64 \<rightharpoonup> u64" where
  "entry_map es = map_of (map (\<lambda>e. (signature e, func e)) es)"

lemma inherit_entries_ok:
  assumes "table_ok t" "\<forall>e \<in> set es. func e \<noteq> 0"
  shows "\<exists>t'. inherit_entries es t = Inr t' \<and> table_ok t' \<and> methods t' = entry_map es ++ methods t"
  using assms
proof (induction es arbitrary: t)
  case Nil
  then show ?case by (simp add: entry_map_def)
next
  case (Cons e es)
  obtain b t1 where t1: "add_entry (signature e) (func e) False t = Inr (b, t1)" "table_ok t1"
    "methods t1 = [signature e \<mapsto> func e] ++ methods t"
    using ft.add_missing [of t "func e" "signature e"] Cons.prems by auto
  from Cons.IH [OF t1(2)] Cons.prems(2) obtain t2 where t2: "inherit_entries es t1 = Inr t2" "table_ok t2"
    "methods t2 = entry_map es ++ methods t1" by auto
  have "methods t2 = entry_map (e # es) ++ methods t"
    by (auto simp: t2(3) t1(3) entry_map_def map_add_def fun_eq_iff split: option.splits)
  then show ?case using t1(1) t2(1,2) by (simp add: inherit_entry_add)
qed

text \<open>The methods of the ancestors of a class, nearest first.\<close>

fun ancestors :: "nat \<Rightarrow> classes \<Rightarrow> nat option \<Rightarrow> nat list option" where
  "ancestors fuel cs None = Some []"
| "ancestors 0 cs (Some p) = None"
| "ancestors (Suc fuel) cs (Some p) = map_option ((#) p) (ancestors fuel cs (parentClass (cs p)))"

definition ancestor_methods :: "classes \<Rightarrow> nat list \<Rightarrow> u64 \<rightharpoonup> u64" where
  "ancestor_methods cs ps = entry_map (concat (map (\<lambda>p. definedFunctions (cs p)) ps))"

lemma inherit_chain_ok:
  assumes "ancestors fuel cs p = Some ps" "table_ok t"
    "\<forall>q \<in> set ps. \<forall>e \<in> set (definedFunctions (cs q)). func e \<noteq> 0"
  shows "\<exists>t'. inherit_chain fuel cs p t = Some (Inr t') \<and> table_ok t' \<and>
    methods t' = ancestor_methods cs ps ++ methods t"
  using assms
proof (induction fuel cs p t arbitrary: ps rule: inherit_chain.induct)
  case (3 fuel cs p t)
  then obtain qs where qs: "ancestors fuel cs (parentClass (cs p)) = Some qs" "ps = p # qs" by auto
  from inherit_entries_ok [OF 3(3), of "definedFunctions (cs p)"] 3(4) qs(2) obtain t1 where
    t1: "inherit_entries (definedFunctions (cs p)) t = Inr t1" "table_ok t1"
    "methods t1 = entry_map (definedFunctions (cs p)) ++ methods t" by auto
  from 3(1) [OF t1(1) qs(1) t1(2)] 3(4) qs(2) obtain t2 where
    t2: "inherit_chain fuel cs (parentClass (cs p)) t1 = Some (Inr t2)" "table_ok t2"
    "methods t2 = ancestor_methods cs qs ++ methods t1" by auto
  have "methods t2 = ancestor_methods cs ps ++ methods t"
    by (auto simp: t2(3) t1(3) qs(2) ancestor_methods_def entry_map_def map_add_def fun_eq_iff split: option.splits)
  then show ?case using t1(1) t2(1,2) by simp
qed (auto simp: ancestor_methods_def entry_map_def)

lemma ancestors_cong:
  "\<forall>c. parentClass (cs' c) = parentClass (cs c) \<Longrightarrow> ancestors fuel cs' p = ancestors fuel cs p"
  by (induction fuel cs p rule: ancestors.induct) auto

lemma FinaliseSetup_ok:
  assumes "distinct todo" "\<forall>c. table_ok (cls_functions (cs c))"
    "\<forall>c \<in> set todo. \<exists>ps. ancestors fuel cs (parentClass (cs c)) = Some ps"
    "\<forall>c. \<forall>e \<in> set (definedFunctions (cs c)). func e \<noteq> 0"
  shows "\<exists>cs'. FinaliseSetup fuel inherits todo cs = Some (Inr cs') \<and>
    (\<forall>c. parentClass (cs' c) = parentClass (cs c) \<and> definedFunctions (cs' c) = definedFunctions (cs c) \<and>
       table_ok (cls_functions (cs' c)) \<and>
       methods (cls_functions (cs' c)) =
         (if c \<in> set todo \<and> inherits c
          then ancestor_methods cs (the (ancestors fuel cs (parentClass (cs c)))) ++ methods (cls_functions (cs c))
          else methods (cls_functions (cs c))))"
  using assms
proof (induction todo arbitrary: cs)
  case (Cons c todo)
  show ?case
  proof (cases "inherits c")
    case False
    from Cons.IH [of cs] Cons.prems obtain cs' where "FinaliseSetup fuel inherits todo cs = Some (Inr cs')"
      "\<forall>c. parentClass (cs' c) = parentClass (cs c) \<and> definedFunctions (cs' c) = definedFunctions (cs c) \<and>
       table_ok (cls_functions (cs' c)) \<and>
       methods (cls_functions (cs' c)) =
         (if c \<in> set todo \<and> inherits c
          then ancestor_methods cs (the (ancestors fuel cs (parentClass (cs c)))) ++ methods (cls_functions (cs c))
          else methods (cls_functions (cs c)))" by auto
    then show ?thesis using False by (intro exI [of _ cs']) auto
  next
    case True
    obtain ps where ps: "ancestors fuel cs (parentClass (cs c)) = Some ps" using Cons.prems(3) by auto
    obtain t where t: "inherit_chain fuel cs (parentClass (cs c)) (cls_functions (cs c)) = Some (Inr t)"
      "table_ok t" "methods t = ancestor_methods cs ps ++ methods (cls_functions (cs c))"
      using inherit_chain_ok [OF ps, of "cls_functions (cs c)"] Cons.prems(2,4) by auto
    define d where "d = cs(c := (cs c)\<lparr>cls_functions := t\<rparr>)"
    have d: "parentClass (d x) = parentClass (cs x)" "definedFunctions (d x) = definedFunctions (cs x)"
      "cls_functions (d x) = (if x = c then t else cls_functions (cs x))" for x by (simp_all add: d_def)
    have anc: "ancestors fuel d p = ancestors fuel cs p" for p by (rule ancestors_cong) (simp add: d)
    have am: "ancestor_methods d qs = ancestor_methods cs qs" for qs by (simp add: ancestor_methods_def d)
    have "\<forall>x. table_ok (cls_functions (d x))" using t(2) Cons.prems(2) d by simp
    with Cons.IH [of d] Cons.prems obtain cs' where cs': "FinaliseSetup fuel inherits todo d = Some (Inr cs')"
      "\<forall>x. parentClass (cs' x) = parentClass (cs x) \<and> definedFunctions (cs' x) = definedFunctions (cs x) \<and>
       table_ok (cls_functions (cs' x)) \<and>
       methods (cls_functions (cs' x)) =
         (if x \<in> set todo \<and> inherits x
          then ancestor_methods cs (the (ancestors fuel cs (parentClass (cs x)))) ++ methods (cls_functions (d x))
          else methods (cls_functions (d x)))" by (auto simp: d(1,2) anc am)
    have "c \<notin> set todo" using Cons.prems(1) by simp
    then show ?thesis using cs' True t ps d(3) by (intro exI [of _ cs']) (auto simp: d_def [symmetric])
  qed
qed auto

section \<open>The type hierarchy\<close>

lemma Extends_ancestors_eq:
  "ancestors fuel cs p = Some ps \<Longrightarrow> Extends cs p other = Some (other \<in> set ps)"
proof (induction fuel cs p arbitrary: ps rule: ancestors.induct)
  case (1 fuel cs)
  then show ?case by (simp add: Extends.simps)
next
  case (3 fuel cs p)
  then show ?case by (subst Extends.simps) auto
qed simp

section \<open>The properties\<close>

definition class_ok :: "obj_class \<Rightarrow> bool" where
  "class_ok c \<longleftrightarrow> table_ok (cls_functions c)"

lemma empty_table_ok: "table_ok empty_table" "methods empty_table = Map.empty" "has_free empty_table"
proof -
  show "table_ok empty_table" by (simp add: table_ok_def empty_table_def array_ok_def empty_entry_def)
  show "methods empty_table = Map.empty"
    by (auto simp: methods_def empty_table_def empty_entry_def fun_eq_iff find_None_iff)
  show "has_free empty_table" by (simp add: has_free_def empty_table_def empty_entry_def NUM_ENTRIES_def)
qed

definition demo_class :: obj_class where
  "demo_class = \<lparr>cls_functions = empty_table, definedFunctions = [], cls_name = [], isMetaClass = False,
     parentClass = None\<rparr>"

text \<open>
  C6: adding a method to a class always succeeds, keeps the table's probing invariant, and updates
  the map from signatures to functions at that signature only, unless the method exists and must
  not be overridden; definedFunctions records exactly the additions.  This holds however full the
  table is, also when it is moved to the STL map.
\<close>

theorem AddFunction_updates:
  assumes "class_ok c" "f \<noteq> 0"
  shows "\<exists>c'. AddFunction name f ov c = Inr c' \<and> class_ok c' \<and>
    methods (cls_functions c') =
      (if ov \<or> methods (cls_functions c) (findSignatureId name) = None
       then (methods (cls_functions c))(findSignatureId name \<mapsto> f) else methods (cls_functions c)) \<and>
    definedFunctions c' = definedFunctions c @
      (if ov \<or> methods (cls_functions c) (findSignatureId name) = None
       then [\<lparr>func = f, signature = findSignatureId name\<rparr>] else []) \<and>
    parentClass c' = parentClass c"
  using add_entry_ok [of "cls_functions c" f "findSignatureId name" ov] assms
  by (auto simp: AddFunction_def class_ok_def)

lemma AddFunction_updates_witness:
  "\<exists>c'. AddFunction [97] 7 False demo_class = Inr c' \<and> methods (cls_functions c') = [findSignatureId [97] \<mapsto> 7]"
  using AddFunction_updates [of demo_class 7 "[97]" False]
  by (auto simp: class_ok_def demo_class_def empty_table_ok)

text \<open>
  C7: looking up a signature gives the method the table maps it to, and a null pointer when there is
  none; the abort for a full table happens only for a missing method when no slot is free.  The
  signature 0 is excluded, since the code cannot tell it from an empty slot.
\<close>

theorem LookupMethod_finds:
  assumes "class_ok c" "s \<noteq> 0"
  shows "LookupMethod s (cls_functions c) =
    (case methods (cls_functions c) s of
       Some f \<Rightarrow> Inr (Some \<lparr>func = f, signature = s\<rparr>)
     | None \<Rightarrow> if has_free (cls_functions c) then Inr None else Inl (WrenAbort ''Function table full''))"
  using LookupMethod_correct assms by (simp add: class_ok_def)

lemma LookupMethod_finds_witness:
  "LookupMethod 5 (cls_functions demo_class) = Inr None"
  using LookupMethod_finds [of demo_class 5] by (simp add: class_ok_def demo_class_def empty_table_ok)

text \<open>
  C8: after the set-up of the native classes, every class that inherits methods has its own methods
  and, for each other signature, the method of the nearest ancestor that defines it; no other class
  changes.  The loops end, since the parent chains do.
\<close>

theorem FinaliseSetup_inherits:
  assumes "distinct todo" "\<forall>c. class_ok (cs c)"
    "\<forall>c \<in> set todo. \<exists>ps. ancestors fuel cs (parentClass (cs c)) = Some ps"
    "\<forall>c. \<forall>e \<in> set (definedFunctions (cs c)). func e \<noteq> 0"
  shows "\<exists>cs'. FinaliseSetup fuel inherits todo cs = Some (Inr cs') \<and>
    (\<forall>c. class_ok (cs' c) \<and> methods (cls_functions (cs' c)) =
         (if c \<in> set todo \<and> inherits c
          then ancestor_methods cs (the (ancestors fuel cs (parentClass (cs c)))) ++ methods (cls_functions (cs c))
          else methods (cls_functions (cs c))))"
  using FinaliseSetup_ok [OF assms(1) _ assms(3,4)] assms(2) by (fastforce simp: class_ok_def)

definition demo_classes :: classes where
  "demo_classes c = (if c = 1 then demo_class\<lparr>parentClass := Some 0\<rparr>
     else demo_class\<lparr>definedFunctions := [\<lparr>func = 7, signature = 5\<rparr>]\<rparr>)"

lemma FinaliseSetup_inherits_witness:
  "\<exists>cs'. FinaliseSetup 3 (\<lambda>_. True) [1] demo_classes = Some (Inr cs') \<and>
     methods (cls_functions (cs' 1)) 5 = Some 7"
proof -
  have "\<exists>cs'. FinaliseSetup 3 (\<lambda>_. True) [1] demo_classes = Some (Inr cs') \<and>
    (\<forall>c. class_ok (cs' c) \<and> methods (cls_functions (cs' c)) =
         (if c \<in> set [1] \<and> True
          then ancestor_methods demo_classes (the (ancestors 3 demo_classes (parentClass (demo_classes c)))) ++
            methods (cls_functions (demo_classes c))
          else methods (cls_functions (demo_classes c))))"
    by (rule FinaliseSetup_inherits)
      (simp_all add: demo_classes_def demo_class_def class_ok_def empty_table_ok numeral_3_eq_3)
  then show ?thesis
    by (fastforce simp: demo_classes_def demo_class_def empty_table_ok numeral_3_eq_3 ancestor_methods_def
        entry_map_def map_add_def)
qed

text \<open>
  C9: the type test terminates on a class whose parent chain ends, and holds exactly for the class
  itself and its ancestors.
\<close>

theorem Extends_is_ancestor:
  assumes "ancestors fuel cs (parentClass (cs c)) = Some ps"
  shows "Extends cs (Some c) other = Some (other = c \<or> other \<in> set ps)"
  using Extends_ancestors_eq [OF assms, of other] by (subst Extends.simps) auto

lemma Extends_is_ancestor_witness:
  "Extends demo_classes (Some 1) 0 = Some True \<and> Extends demo_classes (Some 1) 2 = Some False"
  using Extends_is_ancestor [of 1 demo_classes 1 "[0]" 0] Extends_is_ancestor [of 1 demo_classes 1 "[0]" 2]
  by (simp add: demo_classes_def demo_class_def)

end
