(* ===== verification/Arg_Checks.thy ===== *)
theory Arg_Checks
  imports Objects
begin

text \<open>
  The checks of arguments in rtsrc/Errors.cpp and rtsrc/binding_utils.h.  The name of the argument
  is part of the message.  A number that does not fit the integer type it is converted to makes
  the conversion undefined.
\<close>

definition validateNum :: "val \<Rightarrow> string \<Rightarrow> double res" where
  "validateNum arg argName =
     (if is_value_float arg then Inr (get_number_value arg)
      else Inl (WrenAbort (argName @ '' must be a number.'')))"

definition validateIntValue :: "double \<Rightarrow> string \<Rightarrow> int res" where
  "validateIntValue d argName =
     (if deq (dtrunc d) d then double_to_int32 d
      else Inl (WrenAbort (argName @ '' must be an integer.'')))"

definition validateInt :: "val \<Rightarrow> string \<Rightarrow> int res" where
  "validateInt arg argName = rbind (validateNum arg argName) (\<lambda>d. validateIntValue d argName)"

definition checkDouble :: "string \<Rightarrow> val \<Rightarrow> double res" where
  "checkDouble errorName v =
     (if \<not> is_value_float v then Inl (WrenAbort (errorName @ '' must be a number.''))
      else Inr (get_number_value v))"

definition checkInt :: "string \<Rightarrow> val \<Rightarrow> int res" where
  "checkInt errorName v =
     rbind (checkDouble errorName v) (\<lambda>num.
     rbind (double_to_int32 (dfloor num)) (\<lambda>intValue.
       if \<not> deq (double_of_int intValue) num then Inl (WrenAbort (errorName @ '' must be an integer.''))
       else Inr intValue))"

text \<open>\<open>checkArg<ObjString>\<close>, with the message of \<open>throwArgTypeError<ObjString>\<close>.\<close>

definition checkString :: "heap \<Rightarrow> string \<Rightarrow> val \<Rightarrow> u8 list res" where
  "checkString h errorName v =
     (if \<not> is_object v then Inl (WrenAbort (errorName @ '' must be a string.''))
      else if get_object_value v = 0 then Inl (WrenAbort (errorName @ '' must be a string.''))
      else rbind (deref h (get_object_value v)) (\<lambda>x.
        case payload x of
          PString s \<Rightarrow> Inr s
        | _ \<Rightarrow> Inl (WrenAbort (errorName @ '' must be a string.''))))"

text \<open>Signed 32-bit arithmetic of the sources: an overflow is undefined.\<close>

definition int32 :: "int \<Rightarrow> int res" where
  "int32 i = (if - (2 ^ 31) \<le> i \<and> i < 2 ^ 31 then Inr i else Inl Undefined)"

lemma int32_simp [simp]: "- 2147483648 \<le> i \<Longrightarrow> i < 2147483648 \<Longrightarrow> int32 i = Inr i"
  by (simp add: int32_def)

end
