(* ===== verification/Ranges.thy ===== *)
theory Ranges
  imports Arg_Checks
begin

text \<open>
  Range objects (rtsrc/ObjRange.h and .cpp) and their use as subscripts of lists and strings, with
  the corresponding routine of the reference interpreter (lib/wren-main/src/vm/wren_primitive.c).
\<close>

record range =
  from_num :: double
  to_num :: double
  inclusive :: bool

definition Iterate :: "heap \<Rightarrow> range \<Rightarrow> val \<Rightarrow> val res" where
  "Iterate h r prev =
     (if deq (from_num r) (to_num r) \<and> \<not> inclusive r then Inr (encode_bool h False)
      else if prev = NULL_VAL then encode_number (from_num r)
      else rbind (validateNum prev ''Iterator'') (\<lambda>current.
        if dlt (from_num r) (to_num r) then
          let current = dadd current (double_of_int 1) in
          if dlt (to_num r) current then Inr (encode_bool h False)
          else if deq current (to_num r) \<and> \<not> inclusive r then Inr (encode_bool h False)
          else encode_number current
        else
          let current = dsub current (double_of_int 1) in
          if dlt current (to_num r) then Inr (encode_bool h False)
          else if deq current (to_num r) \<and> \<not> inclusive r then Inr (encode_bool h False)
          else encode_number current))"

definition range_EqualTo :: "range \<Rightarrow> payload \<Rightarrow> bool" where
  "range_EqualTo r other =
     (case other of
        PRange f t i \<Rightarrow> deq (to_num r) t \<and> deq (from_num r) f \<and> inclusive r = i
      | _ \<Rightarrow> False)"

text \<open>\<open>(int)x\<close> followed by the comparison with \<open>x\<close>.\<close>

definition int_end :: "double \<Rightarrow> int res" where
  "int_end x = double_to_int32 x"

definition swap_if :: "bool \<Rightarrow> 'a \<times> 'a \<Rightarrow> 'a \<times> 'a" where
  "swap_if b p = (if b then (snd p, fst p) else p)"

text \<open>The part of \<open>ToSubscriptUtil\<close> after the two ends are known to be integers.\<close>

definition subscript_bounds :: "int \<Rightarrow> bool \<Rightarrow> int \<Rightarrow> int \<Rightarrow> (int \<times> int \<times> bool) res" where
  "subscript_bounds len incl s e =
     (let s = (if s < 0 then s + len else s) in
      if s = len \<and> e = (if incl then - 1 else len) then Inr (0, 0, False)
      else
        let e = (if e < 0 then e + len else e);
            isEmptyRange = (\<not> incl \<and> s = e)
        in rbind (if incl then Inr e else if s \<le> e then int32 (e - 1) else int32 (e + 1)) (\<lambda>e.
           let reverse = (s > e \<and> \<not> isEmptyRange);
               (s, e) = swap_if reverse (s, e)
           in rbind (int32 (e + 1)) (\<lambda>e.
              let (startName, endName) = swap_if reverse (''Range start'', ''Range end'') in
              if s < 0 \<or> s \<ge> len then Inl (WrenAbort (startName @ '' out of bounds.''))
              else if e < 0 \<or> e > len then Inl (WrenAbort (endName @ '' out of bounds.''))
              else Inr (s, e, reverse))))"

definition ToSubscriptUtil :: "range \<Rightarrow> int \<Rightarrow> (int \<times> int \<times> bool) res" where
  "ToSubscriptUtil r len =
     rbind (int_end (from_num r)) (\<lambda>s. rbind (int_end (to_num r)) (\<lambda>e.
       if \<not> deq (double_of_int s) (from_num r) then Inl (WrenAbort ''Range start must be an integer.'')
       else if \<not> deq (double_of_int e) (to_num r) then Inl (WrenAbort ''Range end must be an integer.'')
       else subscript_bounds len (inclusive r) s e))"

text \<open>The elements a range selects: \<open>std::vector::assign\<close> of the section, reversed if asked.\<close>

definition apply_slice :: "'a list \<Rightarrow> int \<times> int \<times> bool \<Rightarrow> 'a list" where
  "apply_slice xs b =
     (case b of (s, e, reverse) \<Rightarrow>
        let slice = seg (nat s) (nat e) xs in if reverse then rev slice else slice)"

section \<open>The reference interpreter\<close>

text \<open>\<open>validateIndexValue\<close>; \<open>None\<close> is \<open>UINT32_MAX\<close>, with the message in the error.\<close>

definition ref_validateIntValue :: "double \<Rightarrow> string \<Rightarrow> string + unit" where
  "ref_validateIntValue v argName =
     (if deq (dtrunc v) v then Inr () else Inl (argName @ '' must be an integer.''))"

definition ref_validateIndexValue :: "int \<Rightarrow> double \<Rightarrow> string \<Rightarrow> string + int" where
  "ref_validateIndexValue cnt v argName =
     (case ref_validateIntValue v argName of
        Inl m \<Rightarrow> Inl m
      | Inr _ \<Rightarrow>
          (let v = (if dlt v (double_of_int 0) then dadd (double_of_int cnt) v else v) in
           if dle (double_of_int 0) v \<and> dlt v (double_of_int cnt) then Inr (dtrunc_int v)
           else Inl (argName @ '' out of bounds.'')))"

text \<open>The result is the start, the number of elements and the step.\<close>

definition calculateRange :: "range \<Rightarrow> int \<Rightarrow> string + int \<times> int \<times> int" where
  "calculateRange r len =
     (if deq (from_num r) (double_of_int len) \<and>
         deq (to_num r) (if inclusive r then double_of_int (- 1) else double_of_int len)
      then Inr (0, 0, 0)
      else case ref_validateIndexValue len (from_num r) ''Range start'' of
        Inl m \<Rightarrow> Inl m
      | Inr start \<Rightarrow>
          (case ref_validateIntValue (to_num r) ''Range end'' of
             Inl m \<Rightarrow> Inl m
           | Inr _ \<Rightarrow>
               (let v = (if dlt (to_num r) (double_of_int 0) then dadd (double_of_int len) (to_num r)
                         else to_num r) in
                if \<not> inclusive r \<and> deq v (double_of_int start) then Inr (start, 0, 0)
                else
                  let v = (if inclusive r then v
                           else if dle (double_of_int start) v then dadd v (double_of_int (- 1))
                           else dadd v (double_of_int 1))
                  in if dlt v (double_of_int 0) \<or> dle (double_of_int len) v
                     then Inl ''Range end out of bounds.''
                     else let stop = dtrunc_int v
                          in Inr (start, \<bar>start - stop\<bar> + 1, if start < stop then 1 else - 1))))"

definition ref_slice :: "'a list \<Rightarrow> int \<times> int \<times> int \<Rightarrow> 'a list" where
  "ref_slice xs c = (case c of (start, cnt, step) \<Rightarrow> map (\<lambda>i. xs ! nat (start + int i * step)) [0..<nat cnt])"

end
