(* ===== verification/Range_Proofs.thy ===== *)
theory Range_Proofs
  imports Ranges
begin

text \<open>
  Subscript ranges: the runtime and the reference interpreter select the same elements, in the same
  order, and fail in the same cases.
\<close>

section \<open>The reference routine on integral ends\<close>

definition ref_range_int :: "int \<Rightarrow> bool \<Rightarrow> int \<Rightarrow> int \<Rightarrow> string + int \<times> int \<times> int" where
  "ref_range_int len incl f t =
     (if f = len \<and> t = (if incl then - 1 else len) then Inr (0, 0, 0)
      else
        let s = (if f < 0 then len + f else f) in
        if \<not> (0 \<le> s \<and> s < len) then Inl ''Range start out of bounds.''
        else
          let e = (if t < 0 then len + t else t) in
          if \<not> incl \<and> e = s then Inr (s, 0, 0)
          else
            let e = (if incl then e else if s \<le> e then e - 1 else e + 1) in
            if e < 0 \<or> len \<le> e then Inl ''Range end out of bounds.''
            else Inr (s, \<bar>s - e\<bar> + 1, if s < e then 1 else - 1))"

lemma dtrunc_of_int_double:
  assumes "\<bar>i\<bar> \<le> 2 ^ 53"
  shows "dtrunc (double_of_int i) = double_of_int i"
proof -
  have "dtrunc (double_of_int i) = dpack (i < 0) (nat \<bar>i\<bar> * DU div DU * DU)"
    by (simp only: dtrunc_def dround_mag_def double_of_int_fields [OF assms] if_False)
  also have "\<dots> = double_of_int i" by (simp add: double_of_int_def)
  finally show ?thesis .
qed

lemma ref_validateIntValue_of_int:
  "\<bar>i\<bar> \<le> 2 ^ 53 \<Longrightarrow> ref_validateIntValue (double_of_int i) n = Inr ()"
  by (simp add: ref_validateIntValue_def dtrunc_of_int_double dcompare_of_int)

lemma ref_validateIndexValue_of_int:
  assumes "\<bar>i\<bar> < 2 ^ 31" "0 \<le> cnt" "cnt < 2 ^ 31"
  shows "ref_validateIndexValue cnt (double_of_int i) n =
    (let s = (if i < 0 then cnt + i else i) in
     if 0 \<le> s \<and> s < cnt then Inr s else Inl (n @ '' out of bounds.''))"
proof -
  define s where "s = (if i < 0 then cnt + i else i)"
  have b: "\<bar>s\<bar> \<le> 2 ^ 53" using assms by (auto simp: s_def)
  have "(if dlt (double_of_int i) (double_of_int 0) then dadd (double_of_int cnt) (double_of_int i)
         else double_of_int i) = double_of_int s"
    using assms by (simp add: dcompare_of_int dadd_of_int s_def)
  then show ?thesis
    using assms b by (simp add: ref_validateIndexValue_def ref_validateIntValue_of_int
        dcompare_of_int dtrunc_of_int Let_def s_def [symmetric])
qed

lemma calculateRange_of_int:
  assumes "\<bar>f\<bar> < 2 ^ 31" "\<bar>t\<bar> < 2 ^ 31" "0 \<le> len" "len < 2 ^ 31"
  shows "calculateRange \<lparr>from_num = double_of_int f, to_num = double_of_int t, inclusive = incl\<rparr> len =
    ref_range_int len incl f t"
proof -
  define s e where "s = (if f < 0 then len + f else f)" and "e = (if t < 0 then len + t else t)"
  define e' where "e' = (if incl then e else if s \<le> e then e - 1 else e + 1)"
  have b: "\<bar>f\<bar> \<le> 2 ^ 53" "\<bar>t\<bar> \<le> 2 ^ 53" "\<bar>len\<bar> \<le> 2 ^ 53" "\<bar>s\<bar> \<le> 2 ^ 53" "\<bar>e\<bar> \<le> 2 ^ 53"
    "\<bar>e - 1\<bar> \<le> 2 ^ 53" "\<bar>e + 1\<bar> \<le> 2 ^ 53" "\<bar>e'\<bar> \<le> 2 ^ 53"
    using assms by (auto simp: s_def e_def e'_def)
  have e: "(if dlt (double_of_int t) (double_of_int 0) then dadd (double_of_int len) (double_of_int t)
      else double_of_int t) = double_of_int e"
    using assms by (simp add: dcompare_of_int dadd_of_int e_def)
  have d1: "dadd (double_of_int e) (double_of_int (- 1)) = double_of_int (e - 1)"
    "dadd (double_of_int e) (double_of_int 1) = double_of_int (e + 1)"
    using b by (simp_all add: dadd_of_int)
  have e': "(if incl then double_of_int e else if dle (double_of_int s) (double_of_int e)
      then dadd (double_of_int e) (double_of_int (- 1)) else dadd (double_of_int e) (double_of_int 1))
      = double_of_int e'"
    using b unfolding d1 by (simp add: dcompare_of_int e'_def)
  have first: "(deq (double_of_int f) (double_of_int len) \<and>
      deq (double_of_int t) (if incl then double_of_int (- 1) else double_of_int len)) \<longleftrightarrow>
      f = len \<and> t = (if incl then - 1 else len)"
    using b by (cases incl) (simp_all add: dcompare_of_int)
  have c: "deq (double_of_int e) (double_of_int s) \<longleftrightarrow> e = s"
    "dlt (double_of_int e') (double_of_int 0) \<longleftrightarrow> e' < 0"
    "dle (double_of_int len) (double_of_int e') \<longleftrightarrow> len \<le> e'" "dtrunc_int (double_of_int e') = e'"
    using b by (simp_all only: dcompare_of_int dtrunc_of_int abs_zero zero_le_numeral zero_le_power)
  show ?thesis
    unfolding calculateRange_def ref_range_int_def range.select_convs first
      ref_validateIndexValue_of_int [OF assms(1,3,4)] ref_validateIntValue_of_int [OF b(2)]
      s_def [symmetric] e_def [symmetric] Let_def e
    by (cases "0 \<le> s \<and> s < len") (simp_all only: sum.case if_True if_False c e' e'_def [symmetric]
        append_Cons append_Nil simp_thms)
qed

lemma ToSubscriptUtil_of_int:
  assumes "\<bar>f\<bar> < 2 ^ 31" "\<bar>t\<bar> < 2 ^ 31"
  shows "ToSubscriptUtil \<lparr>from_num = double_of_int f, to_num = double_of_int t, inclusive = incl\<rparr> len =
    subscript_bounds len incl f t"
  using assms by (simp add: ToSubscriptUtil_def int_end_def double_to_int32_of_int dcompare_of_int)

section \<open>The two routines on integral ends\<close>

text \<open>What the two results have in common; the one difference is the message in one case.\<close>

definition range_agrees :: "'a list \<Rightarrow> (int \<times> int \<times> bool) res \<Rightarrow> string + int \<times> int \<times> int \<Rightarrow> bool" where
  "range_agrees xs r q =
     (case (r, q) of
        (Inr b, Inr c) \<Rightarrow> apply_slice xs b = ref_slice xs c
      | (Inl (WrenAbort m), Inl m') \<Rightarrow>
          m = m' \<or> (m = ''Range end out of bounds.'' \<and> m' = ''Range start out of bounds.'')
      | _ \<Rightarrow> False)"

lemma ref_slice_up:
  assumes "0 \<le> s" "s \<le> e" "e < int (length xs)"
  shows "ref_slice xs (s, e - s + 1, 1) = seg (nat s) (nat (e + 1)) xs"
    and "ref_slice xs (s, 1, - 1) = seg (nat s) (nat (s + 1)) xs"
  using assms
  by (auto simp: ref_slice_def seg_def intro!: nth_equalityI arg_cong [where f = "(!) xs"])

lemma ref_slice_down:
  assumes "0 \<le> e" "e < s" "s < int (length xs)"
  shows "ref_slice xs (s, s - e + 1, - 1) = rev (seg (nat e) (nat (s + 1)) xs)"
proof (rule nth_equalityI)
  show "length (ref_slice xs (s, s - e + 1, - 1)) = length (rev (seg (nat e) (nat (s + 1)) xs))"
    using assms by (simp add: ref_slice_def seg_def)
next
  fix i assume "i < length (ref_slice xs (s, s - e + 1, - 1))"
  then have i: "i < nat (s - e + 1)" by (simp add: ref_slice_def)
  have len: "length (seg (nat e) (nat (s + 1)) xs) = nat (s - e + 1)" using assms by (simp add: seg_def)
  have "nat (s - int i) = nat e + (nat (s - e + 1) - Suc i)" using assms i by linarith
  moreover have "seg (nat e) (nat (s + 1)) xs ! (nat (s - e + 1) - Suc i) =
      xs ! (nat e + (nat (s - e + 1) - Suc i))"
    using assms i by (intro seg_nth) linarith+
  moreover have "ref_slice xs (s, s - e + 1, - 1) ! i = xs ! nat (s - int i)"
    using i by (simp add: ref_slice_def)
  ultimately
  show "ref_slice xs (s, s - e + 1, - 1) ! i = rev (seg (nat e) (nat (s + 1)) xs) ! i"
    using i by (simp only: rev_nth len)
qed

text \<open>
  The bounds after normalisation: \<open>s\<close> the start, \<open>e\<close> the last selected element, and \<open>reverse\<close> when
  the elements are selected downwards.
\<close>

lemma subscript_bounds_agree:
  assumes "\<bar>f\<bar> < 2 ^ 31 - 2" "\<bar>t\<bar> < 2 ^ 31 - 2" "int (length xs) < 2 ^ 31"
  shows "range_agrees xs (subscript_bounds (int (length xs)) incl f t)
    (ref_range_int (int (length xs)) incl f t)"
proof -
  define len where "len = int (length xs)"
  define s e where "s = (if f < 0 then f + len else f)" and "e = (if t < 0 then t + len else t)"
  define e' where "e' = (if incl then e else if s \<le> e then e - 1 else e + 1)"
  define empty where "empty \<longleftrightarrow> \<not> incl \<and> s = e"
  have len: "0 \<le> len" "len < 2 ^ 31" using assms(3) by (simp_all add: len_def)
  have s_len: "s = len \<longleftrightarrow> f = len"
    using len by (auto simp: s_def)
  have e'r: "(if incl then Inr e else if s \<le> e then int32 (e - 1) else int32 (e + 1)) = (Inr e' :: int res)"
    using assms(2) len by (auto simp: e'_def e_def)
  have in32: "- 2147483648 \<le> e' + 1" "e' + 1 < 2147483648" "- 2147483648 \<le> s + 1" "s + 1 < 2147483648"
    using assms len by (auto simp: e'_def e_def s_def)
  have ref: "ref_range_int len incl f t =
     (if f = len \<and> t = (if incl then - 1 else len) then Inr (0, 0, 0)
      else if \<not> (0 \<le> s \<and> s < len) then Inl ''Range start out of bounds.''
      else if empty then Inr (s, 0, 0)
      else if e' < 0 \<or> len \<le> e' then Inl ''Range end out of bounds.''
      else Inr (s, \<bar>s - e'\<bar> + 1, if s < e' then 1 else - 1))"
    by (auto simp: ref_range_int_def Let_def s_def e_def e'_def empty_def add.commute)
  have sub: "subscript_bounds len incl f t =
     (if f = len \<and> t = (if incl then - 1 else len) then Inr (0, 0, False)
      else if e' < s \<and> \<not> empty then
        (if e' < 0 \<or> e' \<ge> len then Inl (WrenAbort ''Range end out of bounds.'')
         else if s + 1 < 0 \<or> s + 1 > len then Inl (WrenAbort ''Range start out of bounds.'')
         else Inr (e', s + 1, True))
      else
        (if s < 0 \<or> s \<ge> len then Inl (WrenAbort ''Range start out of bounds.'')
         else if e' + 1 < 0 \<or> e' + 1 > len then Inl (WrenAbort ''Range end out of bounds.'')
         else Inr (s, e' + 1, False)))"
    unfolding subscript_bounds_def s_def [symmetric] Let_def s_len e_def [symmetric] e'r rbind_simps
      empty_def [symmetric]
    using in32 by (simp add: swap_if_def)
  show ?thesis
  proof (cases "f = len \<and> t = (if incl then - 1 else len)")
    case True
    then show ?thesis
      unfolding len_def [symmetric] ref sub if_P [OF True]
      by (simp add: range_agrees_def apply_slice_def ref_slice_def)
  next
    case no: False
    show ?thesis
    proof (cases "e' < s \<and> \<not> empty")
      case rev: True
      have "apply_slice xs (e', s + 1, True) = ref_slice xs (s, \<bar>s - e'\<bar> + 1, - 1)"
        if "0 \<le> e'" "s < len"
        using ref_slice_down [of e' s xs] that rev by (simp add: apply_slice_def len_def)
      then show ?thesis
        unfolding len_def [symmetric] ref sub if_not_P [OF no] if_P [OF rev]
        using rev by (auto simp: range_agrees_def)
    next
      case fwd: False
      have empty: "e' = s - 1" if empty using that by (simp add: empty_def e'_def)
      have "apply_slice xs (s, s, False) = ref_slice xs (s, 0, 0)"
        by (simp add: apply_slice_def ref_slice_def)
      moreover have "apply_slice xs (s, e' + 1, False) = ref_slice xs (s, \<bar>s - e'\<bar> + 1, if s < e' then 1 else - 1)"
        if "0 \<le> s" "s \<le> e'" "e' < len"
        using ref_slice_up [of s e' xs] that by (auto simp: apply_slice_def len_def)
      ultimately show ?thesis
        unfolding len_def [symmetric] ref sub if_not_P [OF no] if_not_P [OF fwd]
        using fwd empty by (cases empty) (auto simp: range_agrees_def)
    qed
  qed
qed

text \<open>
  C10: Indexing by a range selects what the reference interpreter selects: for every list of fewer than
  \<open>2 ^ 31\<close> elements and every range whose ends are integers below \<open>2 ^ 31 - 2\<close> in magnitude,
  ToSubscriptUtil and the reference's calculateRange either both fail, or both succeed and select the
  same elements in the same order (also backwards and for negative ends).  When both fail, the messages
  are the same, or the runtime names the end of the range where the reference names its start.
\<close>

theorem subscript_ranges_agree:
  fixes incl :: bool and xs :: "'a list"
  assumes "\<bar>f\<bar> < 2 ^ 31 - 2" "\<bar>t\<bar> < 2 ^ 31 - 2" "int (length xs) < 2 ^ 31"
  defines "r \<equiv> \<lparr>from_num = double_of_int f, to_num = double_of_int t, inclusive = incl\<rparr>"
  shows "range_agrees xs (ToSubscriptUtil r (int (length xs))) (calculateRange r (int (length xs)))"
proof -
  have "\<bar>f\<bar> < 2 ^ 31" "\<bar>t\<bar> < 2 ^ 31" using assms by auto
  with subscript_bounds_agree [OF assms(1-3)] assms(3) show ?thesis
    by (simp only: r_def ToSubscriptUtil_of_int calculateRange_of_int of_nat_0_le_iff)
qed

theorem subscript_ranges_agree_witness:
  "range_agrees ''wren'' (ToSubscriptUtil \<lparr>from_num = double_of_int 2, to_num = double_of_int (- 4), inclusive = True\<rparr> (int (length ''wren'')))
     (calculateRange \<lparr>from_num = double_of_int 2, to_num = double_of_int (- 4), inclusive = True\<rparr> (int (length ''wren''))) \<and>
   subscript_bounds 4 True 2 (- 4) = Inr (0, 3, True) \<and> apply_slice ''wren'' (0, 3, True) = ''erw''"
  using subscript_ranges_agree [of 2 "- 4" "''wren''" True]
  by (simp add: subscript_bounds_def Let_def swap_if_def apply_slice_def seg_def numeral_3_eq_3)

text \<open>The one difference: both ends out of bounds, downwards.\<close>

lemma subscript_error_name_differs:
  "subscript_bounds 3 True 7 (- 9) = Inl (WrenAbort ''Range end out of bounds.'')"
  "ref_range_int 3 True 7 (- 9) = Inl ''Range start out of bounds.''"
  by (simp_all add: subscript_bounds_def ref_range_int_def Let_def swap_if_def)

end
