(* ===== verification/Vm_Utils.thy ===== *)
theory Vm_Utils
  imports Doubles
begin

text \<open>
  The growable buffers and small helpers of the reference interpreter (lib/wren-main/src/vm/wren_utils.h
  and wren_utils.c), and the list operations of wren_value.c that work on buffers of values.

  A buffer owns an allocation of \<open>capacity\<close> elements, the first \<open>count\<close> of which are in use.  The
  elements of an allocation that were not copied by \<open>realloc\<close> have an arbitrary value, the argument
  \<open>junk\<close>.
\<close>

record 'a buffer =
  b_data :: "'a list"
  b_count :: nat

abbreviation capacity :: "'a buffer \<Rightarrow> nat" where
  "capacity b \<equiv> length (b_data b)"

unbundle bit_operations_syntax

text \<open>\<open>n >> k\<close> on \<open>int\<close> is an arithmetic shift.\<close>

definition wrenPowerOf2Ceil :: "32 word \<Rightarrow> 32 word" where
  "wrenPowerOf2Ceil n =
     (let n = n - 1;
          n = n OR signed_drop_bit 1 n;
          n = n OR signed_drop_bit 2 n;
          n = n OR signed_drop_bit 4 n;
          n = n OR signed_drop_bit 8 n;
          n = n OR signed_drop_bit 16 n
      in n + 1)"

definition power2_ceil :: "nat \<Rightarrow> nat" where
  "power2_ceil n = nat (sint (wrenPowerOf2Ceil (word_of_nat n)))"

definition reallocate :: "'a \<Rightarrow> nat \<Rightarrow> 'a list \<Rightarrow> 'a list" where
  "reallocate junk n data = take n data @ replicate (n - length data) junk"

definition BufferInit :: "'a buffer" where
  "BufferInit = \<lparr>b_data = [], b_count = 0\<rparr>"

definition BufferClear :: "'a buffer \<Rightarrow> 'a buffer" where
  "BufferClear b = BufferInit"

primrec fill_loop :: "nat \<Rightarrow> 'a \<Rightarrow> 'a buffer \<Rightarrow> 'a buffer" where
  "fill_loop 0 x b = b"
| "fill_loop (Suc n) x b =
     fill_loop n x (b\<lparr>b_data := (b_data b)[b_count b := x], b_count := b_count b + 1\<rparr>)"

definition BufferFill :: "'a \<Rightarrow> 'a buffer \<Rightarrow> 'a \<Rightarrow> nat \<Rightarrow> 'a buffer" where
  "BufferFill junk b x n =
     (let b = (if capacity b < b_count b + n
               then b\<lparr>b_data := reallocate junk (power2_ceil (b_count b + n)) (b_data b)\<rparr> else b)
      in fill_loop n x b)"

definition BufferWrite :: "'a \<Rightarrow> 'a buffer \<Rightarrow> 'a \<Rightarrow> 'a buffer" where
  "BufferWrite junk b x = BufferFill junk b x 1"

text \<open>\<open>None\<close> is \<open>UINT32_MAX\<close>.\<close>

definition wrenValidateIndex :: "nat \<Rightarrow> int \<Rightarrow> nat option" where
  "wrenValidateIndex cnt v =
     (let v = (if v < 0 then int cnt + v else v)
      in if 0 \<le> v \<and> v < int cnt then Some (nat v) else None)"

section \<open>Lists in a buffer\<close>

definition wrenNewList :: "'a \<Rightarrow> nat \<Rightarrow> 'a buffer" where
  "wrenNewList junk n = \<lparr>b_data = replicate n junk, b_count = n\<rparr>"

text \<open>The loop that moves the elements from \<open>i\<close> down to \<open>index\<close> up by one.\<close>

fun shift_down_loop :: "nat \<Rightarrow> nat \<Rightarrow> 'a list \<Rightarrow> 'a list" where
  "shift_down_loop i index d =
     (if index < i then shift_down_loop (i - 1) index (d[i := d ! (i - 1)]) else d)"

declare shift_down_loop.simps [simp del]

definition wrenListInsert :: "'a \<Rightarrow> 'a \<Rightarrow> 'a buffer \<Rightarrow> 'a \<Rightarrow> nat \<Rightarrow> 'a buffer" where
  "wrenListInsert junk null b x index =
     (let b = BufferWrite junk b null;
          d = shift_down_loop (b_count b - 1) index (b_data b)
      in b\<lparr>b_data := d[index := x]\<rparr>)"

function shift_up_loop :: "nat \<Rightarrow> nat \<Rightarrow> 'a list \<Rightarrow> 'a list" where
  "shift_up_loop i n d = (if i < n - 1 then shift_up_loop (i + 1) n (d[i := d ! (i + 1)]) else d)"
  by auto
termination by (relation "measure (\<lambda>(i, n, d). n - i)") auto

declare shift_up_loop.simps [simp del]

definition GROW_FACTOR :: nat where
  "GROW_FACTOR = 2"

definition wrenListRemoveAt :: "'a \<Rightarrow> 'a buffer \<Rightarrow> nat \<Rightarrow> 'a \<times> 'a buffer" where
  "wrenListRemoveAt junk b index =
     (let removed = b_data b ! index;
          d = shift_up_loop index (b_count b) (b_data b);
          d = (if length d div GROW_FACTOR \<ge> b_count b then reallocate junk (length d div GROW_FACTOR) d else d)
      in (removed, \<lparr>b_data = d, b_count = b_count b - 1\<rparr>))"

primrec index_of_loop :: "nat \<Rightarrow> ('a \<Rightarrow> 'a \<Rightarrow> bool) \<Rightarrow> 'a buffer \<Rightarrow> 'a \<Rightarrow> nat \<Rightarrow> int" where
  "index_of_loop 0 eq b x i = - 1"
| "index_of_loop (Suc n) eq b x i =
     (if eq (b_data b ! i) x then int i else index_of_loop n eq b x (i + 1))"

text \<open>The equality is \<open>wrenValuesEqual\<close>, for lists of values.\<close>

definition wrenListIndexOf :: "('a \<Rightarrow> 'a \<Rightarrow> bool) \<Rightarrow> 'a buffer \<Rightarrow> 'a \<Rightarrow> int" where
  "wrenListIndexOf eq b x = index_of_loop (b_count b) eq b x 0"

section \<open>Rounding up to a power of two\<close>

lemma smear_step:
  fixes w m :: "32 word"
  assumes w: "\<And>i. bit w i \<longleftrightarrow> (\<exists>j. i \<le> j \<and> j < i + k \<and> bit m j)" and m: "\<not> bit m 31" and k: "k < 32"
  shows "bit (w OR signed_drop_bit k w) i \<longleftrightarrow> (\<exists>j. i \<le> j \<and> j < i + (k + k) \<and> bit m j)"
proof -
  have top: "\<not> bit m j" if "31 \<le> j" for j
    using m that by (cases "j = 31") (auto dest: bit_imp_le_length)
  have wtop: "\<not> bit w j" if "31 \<le> j" for j
    using top that unfolding w by (meson le_trans)
  have s: "bit (signed_drop_bit k w) i \<longleftrightarrow> bit w (i + k)"
    using k wtop by (auto simp: bit_signed_drop_bit_iff ac_simps dest: bit_imp_le_length)
  show ?thesis unfolding bit_or_iff s unfolding w
  proof
    assume "\<exists>j\<ge>i. j < i + (k + k) \<and> bit m j"
    then obtain j where "i \<le> j" "j < i + (k + k)" "bit m j" by blast
    then show "(\<exists>j\<ge>i. j < i + k \<and> bit m j) \<or> (\<exists>j\<ge>i + k. j < i + k + k \<and> bit m j)"
      by (cases "j < i + k") auto
  next
    assume "(\<exists>j\<ge>i. j < i + k \<and> bit m j) \<or> (\<exists>j\<ge>i + k. j < i + k + k \<and> bit m j)"
    then show "\<exists>j\<ge>i. j < i + (k + k) \<and> bit m j"
    proof
      assume "\<exists>j\<ge>i. j < i + k \<and> bit m j"
      then obtain j where "i \<le> j" "j < i + k" "bit m j" by blast
      then show ?thesis by (intro exI [of _ j]) simp
    next
      assume "\<exists>j\<ge>i + k. j < i + k + k \<and> bit m j"
      then obtain j where "i + k \<le> j" "j < i + k + k" "bit m j" by blast
      then show ?thesis by (intro exI [of _ j]) simp
    qed
  qed
qed

lemma bit_above_iff: "(\<exists>j \<ge> i. bit m j) \<longleftrightarrow> i < nbits (unat m)" for m :: "'a::len word"
proof -
  have b: "bit m j \<longleftrightarrow> bit (unat m) j" for j by (simp add: bit_unsigned_iff)
  have "(\<exists>j \<ge> i. bit (unat m) j) \<longleftrightarrow> drop_bit i (unat m) \<noteq> 0"
  proof -
    have "drop_bit i (unat m) = 0 \<longleftrightarrow> (\<forall>j. \<not> bit (unat m) (i + j))"
      by (simp add: bit_eq_iff bit_drop_bit_eq)
    then show ?thesis by (metis le_add1 le_iff_add)
  qed
  also have "\<dots> \<longleftrightarrow> \<not> unat m < 2 ^ i" by (simp add: drop_bit_eq_div div_eq_0_iff)
  also have "\<dots> \<longleftrightarrow> i < nbits (unat m)" using nbits_le_iff [of "unat m" i] by linarith
  finally show ?thesis unfolding b .
qed

lemma wrenPowerOf2Ceil_eq:
  assumes "1 \<le> n" "n \<le> 2 ^ 30"
  shows "wrenPowerOf2Ceil (word_of_nat n) = word_of_nat (2 ^ nbits (n - 1))"
proof -
  define m :: "32 word" where "m = word_of_nat n - 1"
  have "m = word_of_nat (n - 1)" using assms(1) by (simp add: m_def of_nat_diff)
  then have "unat m = unat (word_of_nat (n - 1) :: 32 word)" by (rule arg_cong)
  also have "\<dots> = n - 1" using assms(2) by (intro unat_word_of_nat_small) simp
  finally have um: "unat m = n - 1" .
  have nb: "nbits (n - 1) \<le> 30" unfolding nbits_le_iff using assms by linarith
  have m31: "\<not> bit m 31" using bit_above_iff [of 31 m] nb um by auto
  define x1 x2 x3 x4 x5 where "x1 = m OR signed_drop_bit 1 m" and "x2 = x1 OR signed_drop_bit 2 x1"
    and "x3 = x2 OR signed_drop_bit 4 x2" and "x4 = x3 OR signed_drop_bit 8 x3"
    and "x5 = x4 OR signed_drop_bit 16 x4"
  note xs = x1_def x2_def x3_def x4_def x5_def
  have "bit m i \<longleftrightarrow> (\<exists>j. i \<le> j \<and> j < i + 1 \<and> bit m j)" for i
    by (metis add.commute le_less_Suc_eq less_add_one order_refl plus_1_eq_Suc)
  from smear_step [OF this m31]
  have "bit x1 i \<longleftrightarrow> (\<exists>j. i \<le> j \<and> j < i + 2 \<and> bit m j)" for i unfolding xs by simp
  from smear_step [OF this m31]
  have "bit x2 i \<longleftrightarrow> (\<exists>j. i \<le> j \<and> j < i + 4 \<and> bit m j)" for i unfolding x2_def by simp
  from smear_step [OF this m31]
  have "bit x3 i \<longleftrightarrow> (\<exists>j. i \<le> j \<and> j < i + 8 \<and> bit m j)" for i unfolding x3_def by simp
  from smear_step [OF this m31]
  have "bit x4 i \<longleftrightarrow> (\<exists>j. i \<le> j \<and> j < i + 16 \<and> bit m j)" for i unfolding x4_def by simp
  from smear_step [OF this m31]
  have x5: "bit x5 i \<longleftrightarrow> (\<exists>j. i \<le> j \<and> j < i + 32 \<and> bit m j)" for i unfolding x5_def by simp
  have "bit x5 i \<longleftrightarrow> bit (mask (nbits (n - 1)) :: 32 word) i" for i
  proof -
    have "bit x5 i \<longleftrightarrow> (\<exists>j \<ge> i. bit m j)"
      unfolding x5 using bit_imp_le_length [of m] by (simp; metis add.commute trans_less_add1)
    also have "\<dots> \<longleftrightarrow> bit (mask (nbits (n - 1)) :: 32 word) i"
      using nb by (auto simp: bit_above_iff um bit_mask_iff)
    finally show ?thesis .
  qed
  then have "x5 = mask (nbits (n - 1))" by (rule bit_word_eqI)
  moreover have "wrenPowerOf2Ceil (word_of_nat n) = x5 + 1"
    unfolding wrenPowerOf2Ceil_def Let_def m_def [symmetric] xs [symmetric] ..
  ultimately show ?thesis by (simp add: mask_eq_exp_minus_1)
qed

lemma sint_small:
  assumes "x < 2 ^ 31"
  shows "sint (word_of_nat x :: 32 word) = int x"
proof -
  have "int x < 2 ^ 31" using assms by (metis of_nat_less_iff of_nat_numeral of_nat_power)
  then have "signed_take_bit 31 (int x) = int x" by (intro signed_take_bit_int_eq_self) simp_all
  then show ?thesis by (simp add: signed_of_nat)
qed

lemma power2_ceil_eq:
  assumes "1 \<le> n" "n \<le> 2 ^ 30"
  shows "power2_ceil n = 2 ^ nbits (n - 1)"
proof -
  have "nbits (n - 1) \<le> 30" unfolding nbits_le_iff using assms by linarith
  then have "(2::nat) ^ nbits (n - 1) \<le> 2 ^ 30" by (intro power_increasing) auto
  then have "(2::nat) ^ nbits (n - 1) < 2 ^ 31" by (rule order_le_less_trans) simp
  then have "sint (word_of_nat (2 ^ nbits (n - 1)) :: 32 word) = int (2 ^ nbits (n - 1))"
    by (rule sint_small)
  then show ?thesis by (simp add: power2_ceil_def wrenPowerOf2Ceil_eq [OF assms])
qed

text \<open>The smallest power of two that is at least \<open>n\<close>.\<close>

lemma power2_ceil_bounds:
  assumes "1 \<le> n" "n \<le> 2 ^ 30"
  shows "n \<le> power2_ceil n" and "n \<le> 2 ^ k \<Longrightarrow> power2_ceil n \<le> 2 ^ k"
proof -
  have "n - 1 < 2 ^ nbits (n - 1)" using nbits_le_iff [of "n - 1" "nbits (n - 1)"] by simp
  then show "n \<le> power2_ceil n" unfolding power2_ceil_eq [OF assms] by linarith
  assume "n \<le> 2 ^ k"
  then have "n - 1 < 2 ^ k" using assms(1) by linarith
  then show "power2_ceil n \<le> 2 ^ k"
    unfolding power2_ceil_eq [OF assms] nbits_le_iff [symmetric] by (intro power_increasing) auto
qed

section \<open>The contents of a buffer\<close>

definition buffer_ok :: "'a buffer \<Rightarrow> bool" where
  "buffer_ok b \<longleftrightarrow> b_count b \<le> capacity b"

definition contents :: "'a buffer \<Rightarrow> 'a list" where
  "contents b = take (b_count b) (b_data b)"

lemma length_contents: "buffer_ok b \<Longrightarrow> length (contents b) = b_count b"
  by (simp add: buffer_ok_def contents_def)

lemma contents_nth: "i < b_count b \<Longrightarrow> contents b ! i = b_data b ! i"
  by (simp add: contents_def)

lemma take_reallocate: "k \<le> length d \<Longrightarrow> k \<le> n \<Longrightarrow> take k (reallocate junk n d) = take k d"
  by (simp add: reallocate_def min_def)

lemma length_reallocate [simp]: "length (reallocate junk n d) = n"
  by (simp add: reallocate_def)

lemma fill_loop_contents:
  assumes "b_count b + n \<le> capacity b"
  shows "contents (fill_loop n x b) = contents b @ replicate n x \<and> buffer_ok (fill_loop n x b) \<and>
    b_count (fill_loop n x b) = b_count b + n"
  using assms
proof (induction n arbitrary: b)
  case 0
  then show ?case by (simp add: buffer_ok_def)
next
  case (Suc n)
  let ?b = "b\<lparr>b_data := (b_data b)[b_count b := x], b_count := b_count b + 1\<rparr>"
  have "contents ?b = contents b @ [x]"
    using Suc.prems by (simp add: contents_def take_Suc_conv_app_nth)
  with Suc.IH [of ?b] Suc.prems show ?case by (simp add: replicate_app_Cons_same)
qed

lemma BufferFill_contents:
  assumes "buffer_ok b" "b_count b + n \<le> 2 ^ 30"
  shows "contents (BufferFill junk b x n) = contents b @ replicate n x"
    and "buffer_ok (BufferFill junk b x n)" and "b_count (BufferFill junk b x n) = b_count b + n"
proof -
  define b' where "b' = (if capacity b < b_count b + n
    then b\<lparr>b_data := reallocate junk (power2_ceil (b_count b + n)) (b_data b)\<rparr> else b)"
  have "contents b' = contents b \<and> b_count b' = b_count b \<and> b_count b + n \<le> capacity b'"
  proof (cases "capacity b < b_count b + n")
    case True
    then have "b_count b + n \<le> power2_ceil (b_count b + n)"
      using assms(2) by (intro power2_ceil_bounds) auto
    with True assms(1) show ?thesis
      by (simp add: b'_def contents_def buffer_ok_def take_reallocate)
  qed (simp add: b'_def)
  with fill_loop_contents [of b' n x]
  show "contents (BufferFill junk b x n) = contents b @ replicate n x"
    and "buffer_ok (BufferFill junk b x n)" and "b_count (BufferFill junk b x n) = b_count b + n"
    by (simp_all add: BufferFill_def b'_def [symmetric] Let_def)
qed

lemma BufferWrite_contents:
  assumes "buffer_ok b" "b_count b < 2 ^ 30"
  shows "contents (BufferWrite junk b x) = contents b @ [x]"
    and "buffer_ok (BufferWrite junk b x)" and "b_count (BufferWrite junk b x) = Suc (b_count b)"
  using BufferFill_contents [OF assms(1), of 1 junk x] assms(2) by (simp_all add: BufferWrite_def)

lemma shift_down_loop_eq:
  assumes "index \<le> i" "i < length d"
  shows "shift_down_loop i index d = take (index + 1) d @ seg index i d @ drop (i + 1) d"
  using assms
proof (induction "i - index" arbitrary: i d)
  case 0
  then show ?case by (simp add: shift_down_loop.simps seg_def)
next
  case (Suc n)
  then have lt: "index < i" by simp
  let ?d = "d[i := d ! (i - 1)]"
  have "shift_down_loop i index d = shift_down_loop (i - 1) index ?d"
    using lt by (simp add: shift_down_loop.simps [of i])
  also have "\<dots> = take (index + 1) ?d @ seg index (i - 1) ?d @ drop i ?d"
    using Suc.hyps(1) [of "i - 1" ?d] Suc.hyps(2) Suc.prems lt by simp
  also have "take (index + 1) ?d = take (index + 1) d" using lt by simp
  also have "drop i ?d = d ! (i - 1) # drop (i + 1) d"
    using Suc.prems by (simp add: Cons_nth_drop_Suc [symmetric])
  also have "seg index (i - 1) ?d = seg index (i - 1) d"
    using lt Suc.prems by (intro nth_equalityI) (auto simp: seg_nth)
  also have "take (index + 1) d @ seg index (i - 1) d @ d ! (i - 1) # drop (i + 1) d =
      take (index + 1) d @ seg index i d @ drop (i + 1) d"
  proof -
    have "seg index i d = seg index (i - 1) d @ [d ! (i - 1)]"
      using lt Suc.prems take_Suc_conv_app_nth [of "i - 1 - index" "drop index d"]
      by (simp add: seg_def Suc_diff_Suc)
    then show ?thesis by simp
  qed
  finally show ?case .
qed

lemma wrenListInsert_contents:
  assumes "buffer_ok b" "b_count b < 2 ^ 30" "index \<le> b_count b"
  shows "contents (wrenListInsert junk null b x index) = insert_at index x (contents b)"
    and "buffer_ok (wrenListInsert junk null b x index)"
proof -
  define w where "w = BufferWrite junk b null"
  note w = BufferWrite_contents [OF assms(1,2), of junk null, folded w_def]
  have len: "b_count b < length (b_data w)" using w(2,3) by (simp add: buffer_ok_def)
  have old: "take (b_count b) (b_data w) = contents b"
    using w(1,3) len by (simp add: contents_def take_Suc_conv_app_nth)
  define d where "d = shift_down_loop (b_count w - 1) index (b_data w)"
  have d: "d = take (index + 1) (b_data w) @ seg index (b_count b) (b_data w) @ drop (Suc (b_count b)) (b_data w)"
    using len assms(3) by (simp add: d_def w(3) shift_down_loop_eq)
  have ld: "length d = length (b_data w)"
    using len assms(3) by (simp add: d)
  have eq: "wrenListInsert junk null b x index = w\<lparr>b_data := d[index := x]\<rparr>"
    by (simp add: wrenListInsert_def w_def [symmetric] d_def Let_def)
  have sg: "seg index (b_count b) (b_data w) = drop index (contents b)"
    by (simp add: seg_def drop_take flip: old)
  have "d[index := x] = take index (b_data w) @ x # drop index (contents b) @ drop (Suc (b_count b)) (b_data w)"
    using len assms(3) by (simp add: d sg list_update_append take_Suc_conv_app_nth)
  moreover have "take index (b_data w) = take index (contents b)"
    using assms(3) by (simp add: min_def flip: old)
  ultimately show "contents (wrenListInsert junk null b x index) = insert_at index x (contents b)"
    using assms(1,3) w(3)
    by (simp add: eq contents_def insert_at_def buffer_ok_def Suc_diff_le)
  show "buffer_ok (wrenListInsert junk null b x index)"
    using w(2) ld by (simp add: eq buffer_ok_def)
qed

lemma shift_up_loop_eq:
  assumes "i < n" "n \<le> length d"
  shows "shift_up_loop i n d = take i d @ seg (i + 1) n d @ drop (n - 1) d"
  using assms
proof (induction "n - i" arbitrary: i d)
  case 0
  then show ?case by simp
next
  case (Suc k)
  show ?case
  proof (cases "i < n - 1")
    case False
    then have "i = n - 1" using Suc.prems by simp
    then show ?thesis using Suc.prems by (simp add: shift_up_loop.simps seg_def)
  next
    case True
    let ?d = "d[i := d ! (i + 1)]"
    have "shift_up_loop i n d = shift_up_loop (i + 1) n ?d"
      using True by (simp add: shift_up_loop.simps [of i])
    also have "\<dots> = take (i + 1) ?d @ seg (i + 2) n ?d @ drop (n - 1) ?d"
      using Suc.hyps(1) [of "i + 1" ?d] Suc.hyps(2) Suc.prems True by simp
    also have "take (i + 1) ?d = take i d @ [d ! (i + 1)]"
      using True Suc.prems by (simp add: take_Suc_conv_app_nth)
    also have "seg (i + 2) n ?d = seg (i + 2) n d" by (simp add: seg_def)
    also have "drop (n - 1) ?d = drop (n - 1) d" using True by simp
    also have "(take i d @ [d ! (i + 1)]) @ seg (i + 2) n d @ drop (n - 1) d =
        take i d @ seg (i + 1) n d @ drop (n - 1) d"
    proof -
      have "drop (i + 1) d = d ! (i + 1) # drop (i + 2) d"
        using True Suc.prems by (simp add: Cons_nth_drop_Suc)
      moreover have "n - (i + 1) = Suc (n - (i + 2))" using True by simp
      ultimately show ?thesis by (simp add: seg_def)
    qed
    finally show ?thesis .
  qed
qed

lemma wrenListRemoveAt_contents:
  assumes "buffer_ok b" "index < b_count b"
  shows "fst (wrenListRemoveAt junk b index) = contents b ! index"
    and "contents (snd (wrenListRemoveAt junk b index)) = remove_at index (contents b)"
    and "buffer_ok (snd (wrenListRemoveAt junk b index))"
proof -
  define d where "d = shift_up_loop index (b_count b) (b_data b)"
  define d' where "d' = (if length d div GROW_FACTOR \<ge> b_count b
    then reallocate junk (length d div GROW_FACTOR) d else d)"
  have eq: "wrenListRemoveAt junk b index = (b_data b ! index, \<lparr>b_data = d', b_count = b_count b - 1\<rparr>)"
    by (simp add: wrenListRemoveAt_def d_def d'_def Let_def)
  have n: "b_count b \<le> length (b_data b)" using assms(1) by (simp add: buffer_ok_def)
  have d: "d = take index (b_data b) @ seg (index + 1) (b_count b) (b_data b) @ drop (b_count b - 1) (b_data b)"
    using assms(2) n by (simp add: d_def shift_up_loop_eq)
  have ld: "length d = length (b_data b)" using assms(2) n by (simp add: d)
  show "fst (wrenListRemoveAt junk b index) = contents b ! index"
    using assms(2) by (simp add: eq contents_nth)
  have "take (b_count b - 1) d' = take (b_count b - 1) d"
    using n by (simp add: d'_def take_reallocate ld)
  moreover have "take (b_count b - 1) d = take index (b_data b) @ seg (index + 1) (b_count b) (b_data b)"
    using assms(2) n by (simp add: d)
  moreover have "seg (index + 1) (b_count b) (b_data b) = drop (Suc index) (contents b)"
    by (simp add: seg_def contents_def drop_take)
  moreover have "take index (b_data b) = take index (contents b)"
    using assms(2) by (simp add: contents_def min_def)
  ultimately show "contents (snd (wrenListRemoveAt junk b index)) = remove_at index (contents b)"
    by (simp add: eq contents_def [of "\<lparr>b_data = _, b_count = _\<rparr>"] remove_at_def)
  show "buffer_ok (snd (wrenListRemoveAt junk b index))"
    using n assms(2) by (auto simp: eq buffer_ok_def d'_def ld)
qed

lemma index_of_loop_eq:
  assumes "buffer_ok b" "i + n = b_count b"
  shows "index_of_loop n eq b x i =
    (case find_index (\<lambda>y. eq y x) (drop i (contents b)) of None \<Rightarrow> - 1 | Some k \<Rightarrow> int (i + k))"
  using assms(2)
proof (induction n arbitrary: i)
  case 0
  then show ?case by (simp add: length_contents [OF assms(1)])
next
  case (Suc n)
  have "drop i (contents b) = b_data b ! i # drop (Suc i) (contents b)"
    using Suc.prems assms(1) by (simp add: Cons_nth_drop_Suc length_contents flip: contents_nth)
  then show ?case using Suc by (auto split: option.split)
qed

lemma wrenListIndexOf_contents:
  "buffer_ok b \<Longrightarrow> wrenListIndexOf eq b x =
    (case find_index (\<lambda>y. eq y x) (contents b) of None \<Rightarrow> - 1 | Some k \<Rightarrow> int k)"
  using index_of_loop_eq [of b 0 "b_count b"] by (simp add: wrenListIndexOf_def split: option.split)

lemma contents_update: "i < b_count b \<Longrightarrow> contents (b\<lparr>b_data := (b_data b)[i := x]\<rparr>) = (contents b)[i := x]"
  by (simp add: contents_def take_update_swap)

end
