(* ===== verification/List_Object.thy ===== *)
theory List_Object
  imports Ranges Vm_Utils
begin

text \<open>
  Lists: the operations of rtsrc/ObjList.cpp on the vector \<open>items\<close>, and the list primitives of the
  reference interpreter (lib/wren-main/src/vm/wren_core.c), which work on a growable buffer.

  An operation takes the items and returns its result with the new items; one that only reads
  returns its result alone.  The \<open>int\<close> arguments of the runtime's methods come from the generated
  bindings, which convert a value with \<open>checkInt\<close> (\<open>Arg_Checks\<close>).
\<close>

section \<open>The runtime\<close>

text \<open>\<open>(int)items.size()\<close>, and the conversion to \<open>int\<close> of a sum computed as \<open>size_t\<close>.\<close>

definition to_int :: "int \<Rightarrow> int" where
  "to_int i = sint (word_of_int i :: 32 word)"

lemma to_int_small [simp]: "- 2147483648 \<le> i \<Longrightarrow> i < 2147483648 \<Longrightarrow> to_int i = i"
  by (simp add: to_int_def signed_of_int signed_take_bit_int_eq_self)

abbreviation items_size :: "'a list \<Rightarrow> int" where
  "items_size items \<equiv> to_int (int (length items))"

definition ValidateIndex :: "'a list \<Rightarrow> int \<Rightarrow> string \<Rightarrow> unit res" where
  "ValidateIndex items index argName =
     guard (\<not> (index < 0 \<or> index \<ge> items_size items)) (WrenAbort (argName @ '' out of bounds.''))"

definition list_Filled :: "int \<Rightarrow> val \<Rightarrow> val list res" where
  "list_Filled sz element =
     (if sz < 0 then Inl (WrenAbort ''Size cannot be negative.'') else Inr (replicate (nat sz) element))"

definition list_Clear :: "val list \<Rightarrow> val list" where
  "list_Clear items = []"

definition list_Add :: "val list \<Rightarrow> val \<Rightarrow> val \<times> val list" where
  "list_Add items toAdd = (toAdd, items @ [toAdd])"

definition list_Insert :: "val list \<Rightarrow> int \<Rightarrow> val \<Rightarrow> (val \<times> val list) res" where
  "list_Insert items index toAdd =
     (let index = (if index < 0 then to_int (int (length items) + 1 + index) else index) in
      rbind (if items_size items \<noteq> index then ValidateIndex items index ''Index'' else Inr ()) (\<lambda>_.
        Inr (toAdd, insert_at (nat index) toAdd items)))"

definition list_IndexOf :: "val list \<Rightarrow> val \<Rightarrow> int" where
  "list_IndexOf items toFind =
     (case find_index (\<lambda>v. v = toFind) items of None \<Rightarrow> - 1 | Some i \<Rightarrow> int i)"

definition list_RemoveAt :: "val list \<Rightarrow> int \<Rightarrow> (val \<times> val list) res" where
  "list_RemoveAt items index =
     (let index = (if index < 0 then to_int (int (length items) + index) else index) in
      rbind (ValidateIndex items index ''Index'') (\<lambda>_.
        Inr (items ! nat index, remove_at (nat index) items)))"

definition list_Remove :: "val list \<Rightarrow> val \<Rightarrow> (val \<times> val list) res" where
  "list_Remove items toRemove =
     (let index = list_IndexOf items toRemove in
      if index = - 1 then Inr (NULL_VAL, items) else list_RemoveAt items index)"

definition list_Iterate :: "heap \<Rightarrow> val list \<Rightarrow> val \<Rightarrow> val res" where
  "list_Iterate h items current =
     (if current = NULL_VAL then
        (if items = [] then Inr (encode_bool h False) else Inr 0)
      else rbind (checkInt ''Iterator'' current) (\<lambda>i.
        if i < 0 then Inr (encode_bool h False)
        else rbind (int32 (i + 1)) (\<lambda>i.
          if i \<ge> items_size items then Inr (encode_bool h False)
          else encode_number (double_of_int i))))"

definition list_IteratorValue :: "val list \<Rightarrow> int \<Rightarrow> val res" where
  "list_IteratorValue items current =
     rbind (ValidateIndex items current ''Iterator'') (\<lambda>_. Inr (items ! nat current))"

text \<open>The result of a subscript is an element, or the items of a new list.\<close>

datatype 'a subscript = Element 'a | Slice "'a list"

definition list_OperatorSubscript :: "heap \<Rightarrow> val list \<Rightarrow> val \<Rightarrow> val subscript res" where
  "list_OperatorSubscript h items indexOrRange =
     (if is_object indexOrRange then
        (if get_object_value indexOrRange = 0
         then Inl (WrenAbort ''Subscript must be a number or a range.'')
         else rbind (deref h (get_object_value indexOrRange)) (\<lambda>x.
           case payload x of
             PRange f t incl \<Rightarrow>
               rbind (ToSubscriptUtil \<lparr>from_num = f, to_num = t, inclusive = incl\<rparr> (items_size items)) (\<lambda>b.
                 Inr (Slice (apply_slice items b)))
           | _ \<Rightarrow> Inl (WrenAbort ''Subscript must be a number or a range.'')))
      else
        rbind (double_to_int32 (get_number_value indexOrRange)) (\<lambda>index.
          if \<not> deq (double_of_int index) (get_number_value indexOrRange)
          then Inl (WrenAbort ''Subscript must be an integer.'')
          else
            let index = (if index < 0 then to_int (index + int (length items)) else index) in
            rbind (ValidateIndex items index ''Subscript'') (\<lambda>_. Inr (Element (items ! nat index)))))"

definition list_OperatorSubscriptSet :: "val list \<Rightarrow> int \<Rightarrow> val \<Rightarrow> (val \<times> val list) res" where
  "list_OperatorSubscriptSet items index v =
     (let index = (if index < 0 then to_int (index + int (length items)) else index) in
      rbind (ValidateIndex items index ''Subscript'') (\<lambda>_. Inr (v, items[nat index := v])))"

definition list_Count :: "val list \<Rightarrow> int" where
  "list_Count items = items_size items"

section \<open>The reference interpreter\<close>

text \<open>
  A primitive that fails returns the message it stores in the fiber.  Its first argument, the
  receiver, is the buffer.
\<close>

definition ref_validateNum :: "val \<Rightarrow> string \<Rightarrow> string + double" where
  "ref_validateNum arg argName =
     (if is_value_float arg then Inr (get_number_value arg) else Inl (argName @ '' must be a number.''))"

definition ref_validateInt :: "val \<Rightarrow> string \<Rightarrow> string + double" where
  "ref_validateInt arg argName =
     (case ref_validateNum arg argName of
        Inl m \<Rightarrow> Inl m
      | Inr d \<Rightarrow> (case ref_validateIntValue d argName of Inl m \<Rightarrow> Inl m | Inr _ \<Rightarrow> Inr d))"

definition ref_validateIndex :: "val \<Rightarrow> int \<Rightarrow> string \<Rightarrow> string + int" where
  "ref_validateIndex arg cnt argName =
     (case ref_validateNum arg argName of
        Inl m \<Rightarrow> Inl m
      | Inr d \<Rightarrow> ref_validateIndexValue cnt d argName)"

definition prim_list_filled :: "val \<Rightarrow> val \<Rightarrow> val \<Rightarrow> string + val buffer" where
  "prim_list_filled junk arg1 arg2 =
     (case ref_validateInt arg1 ''Size'' of
        Inl m \<Rightarrow> Inl m
      | Inr d \<Rightarrow>
          if dlt d (double_of_int 0) then Inl ''Size cannot be negative.''
          else let b = wrenNewList junk (nat (dtrunc_int d))
               in Inr (b\<lparr>b_data := map (\<lambda>_. arg2) (b_data b)\<rparr>))"

definition prim_list_add :: "val \<Rightarrow> val buffer \<Rightarrow> val \<Rightarrow> val \<times> val buffer" where
  "prim_list_add junk b arg1 = (arg1, BufferWrite junk b arg1)"

definition prim_list_insert :: "val \<Rightarrow> val \<Rightarrow> val buffer \<Rightarrow> val \<Rightarrow> val \<Rightarrow> string + val \<times> val buffer" where
  "prim_list_insert junk null b arg1 arg2 =
     (case ref_validateIndex arg1 (int (b_count b) + 1) ''Index'' of
        Inl m \<Rightarrow> Inl m
      | Inr index \<Rightarrow> Inr (arg2, wrenListInsert junk null b arg2 (nat index)))"

definition prim_list_iteratorValue :: "val buffer \<Rightarrow> val \<Rightarrow> string + val" where
  "prim_list_iteratorValue b arg1 =
     (case ref_validateIndex arg1 (int (b_count b)) ''Iterator'' of
        Inl m \<Rightarrow> Inl m
      | Inr index \<Rightarrow> Inr (b_data b ! nat index))"

definition prim_list_removeAt :: "val \<Rightarrow> val buffer \<Rightarrow> val \<Rightarrow> string + val \<times> val buffer" where
  "prim_list_removeAt junk b arg1 =
     (case ref_validateIndex arg1 (int (b_count b)) ''Index'' of
        Inl m \<Rightarrow> Inl m
      | Inr index \<Rightarrow> Inr (wrenListRemoveAt junk b (nat index)))"

text \<open>The branch of \<open>list_subscript\<close> for a number.\<close>

definition prim_list_subscript_num :: "val buffer \<Rightarrow> val \<Rightarrow> string + val" where
  "prim_list_subscript_num b arg1 =
     (case ref_validateIndex arg1 (int (b_count b)) ''Subscript'' of
        Inl m \<Rightarrow> Inl m
      | Inr index \<Rightarrow> Inr (b_data b ! nat index))"

definition prim_list_subscriptSetter :: "val buffer \<Rightarrow> val \<Rightarrow> val \<Rightarrow> string + val \<times> val buffer" where
  "prim_list_subscriptSetter b arg1 arg2 =
     (case ref_validateIndex arg1 (int (b_count b)) ''Subscript'' of
        Inl m \<Rightarrow> Inl m
      | Inr index \<Rightarrow> Inr (arg2, b\<lparr>b_data := (b_data b)[nat index := arg2]\<rparr>))"

text \<open>\<open>None\<close> is \<open>false\<close>.\<close>

definition prim_list_iterate :: "val \<Rightarrow> val buffer \<Rightarrow> val \<Rightarrow> string + double option" where
  "prim_list_iterate null b arg1 =
     (if arg1 = null then Inr (if b_count b = 0 then None else Some (double_of_int 0))
      else case ref_validateInt arg1 ''Iterator'' of
        Inl m \<Rightarrow> Inl m
      | Inr index \<Rightarrow>
          if dlt index (double_of_int 0) \<or> dle (double_of_int (int (b_count b) - 1)) index then Inr None
          else Inr (Some (dadd index (double_of_int 1))))"

definition prim_list_swap :: "val buffer \<Rightarrow> val \<Rightarrow> val \<Rightarrow> string + val buffer" where
  "prim_list_swap b arg1 arg2 =
     (case ref_validateIndex arg1 (int (b_count b)) ''Index 0'' of
        Inl m \<Rightarrow> Inl m
      | Inr ia \<Rightarrow>
          (case ref_validateIndex arg2 (int (b_count b)) ''Index 1'' of
             Inl m \<Rightarrow> Inl m
           | Inr ib \<Rightarrow>
               (let a = b_data b ! nat ia;
                    d = (b_data b)[nat ia := b_data b ! nat ib]
                in Inr (b\<lparr>b_data := d[nat ib := a]\<rparr>))))"

end
