(* ===== verification/Double_Integers.thy ===== *)
theory Double_Integers
  imports Doubles
begin

text \<open>
  Doubles whose value is an integer.  \<open>int_double x i\<close> says that \<open>x\<close> has the value \<open>i\<close>; unlike
  \<open>double_of_int i = x\<close> it covers both zeros.
\<close>

definition int_double :: "double \<Rightarrow> int \<Rightarrow> bool" where
  "int_double x i \<longleftrightarrow> dfinite x \<and> dscaled x = i * dunit"

lemma int_double_of_int: "\<bar>i\<bar> \<le> 2 ^ 53 \<Longrightarrow> int_double (double_of_int i) i"
  by (simp add: int_double_def double_of_int_fields dscaled_of_int)

lemma int_double_unique: "int_double x i \<Longrightarrow> int_double x j \<Longrightarrow> i = j"
  by (simp add: int_double_def)

lemma dintegral_int_double: "dintegral x \<Longrightarrow> int_double x (dtrunc_int x)"
  by (simp add: int_double_def dintegral_scaled) (simp add: dintegral_def)

lemma int_double_dmag:
  assumes "int_double x i"
  shows "dmag x = nat \<bar>i\<bar> * DU"
proof -
  have "int (dmag x) = \<bar>dscaled x\<bar>" by (simp add: dscaled_def)
  also have "\<dots> = \<bar>i\<bar> * dunit" using assms by (simp add: int_double_def abs_mult)
  finally have "int (dmag x) = int (nat \<bar>i\<bar> * DU)" by simp
  then show ?thesis by (simp only: of_nat_eq_iff)
qed

lemma int_double_facts:
  assumes "int_double x i"
  shows "dfinite x" "\<not> isnan x" "\<not> isinf x" "dkey x = i * dunit" "dintegral x" "dtrunc_int x = i"
proof -
  show f: "dfinite x" and k: "dkey x = i * dunit"
    using assms by (simp_all add: int_double_def dkey_finite)
  then show "\<not> isnan x" "\<not> isinf x" by (simp_all add: isnan_def isinf_def dfinite_def)
  show n: "dintegral x" using f by (simp add: dintegral_def int_double_dmag [OF assms])
  show "dtrunc_int x = i"
    using int_double_unique [OF dintegral_int_double [OF n] assms] .
qed

lemma int_double_compare:
  assumes "int_double x i" "int_double y j"
  shows "deq x y \<longleftrightarrow> i = j" "dlt x y \<longleftrightarrow> i < j" "dle x y \<longleftrightarrow> i \<le> j"
  using int_double_facts [OF assms(1)] int_double_facts [OF assms(2)]
  by (simp_all add: deq_def dlt_def dle_def)

lemma int_double_dpack:
  assumes "\<bar>i\<bar> \<le> 2 ^ 53"
  shows "int_double (dpack (i < 0) (nat \<bar>i * dunit\<bar>)) i"
proof -
  have "nat \<bar>i * dunit\<bar> = nat \<bar>i\<bar> * DU" by (simp add: abs_mult nat_mult_distrib)
  then show ?thesis using int_double_of_int [OF assms] by (simp add: double_of_int_def)
qed

lemma dzero_fields: "dfinite (dzero s)" "dmag (dzero s) = 0"
  by (auto simp: dzero_def dfinite_def dexp_def dmag_def dmant_def)

lemma int_double_dadd:
  assumes "int_double x i" "int_double y j" "\<bar>i + j\<bar> \<le> 2 ^ 53"
  shows "int_double (dadd x y) (i + j)"
proof -
  have s: "dscaled x + dscaled y = (i + j) * dunit"
    using assms(1,2) by (simp add: int_double_def algebra_simps)
  show ?thesis
  proof (cases "i + j = 0")
    case True
    then show ?thesis
      using s int_double_facts [OF assms(1)] int_double_facts [OF assms(2)] dzero_fields
      by (simp add: dadd_def int_double_def Let_def dscaled_def)
  next
    case False
    then have "dadd x y = dpack (i + j < 0) (nat \<bar>(i + j) * dunit\<bar>)"
      using s int_double_facts [OF assms(1)] int_double_facts [OF assms(2)]
      by (simp add: dadd_def Let_def mult_less_0_iff)
    with int_double_dpack [OF assms(3)] show ?thesis by simp
  qed
qed

lemma int_double_dadd_eq:
  assumes "int_double x i" "int_double y j" "i + j \<noteq> 0"
  shows "dadd x y = double_of_int (i + j)"
proof -
  have s: "dscaled x + dscaled y = (i + j) * dunit"
    using assms(1,2) by (simp add: int_double_def algebra_simps)
  have "nat \<bar>(i + j) * dunit\<bar> = nat \<bar>i + j\<bar> * DU" by (simp add: abs_mult nat_mult_distrib)
  then show ?thesis
    using s assms(3) int_double_facts [OF assms(1)] int_double_facts [OF assms(2)]
    by (simp add: dadd_def Let_def mult_less_0_iff double_of_int_def [of "i + j"])
qed

section \<open>Magnitudes that doubles have\<close>

lemma representable_shift:
  assumes "n < 2 ^ 53" "k \<le> 2045"
  shows "representable (n * 2 ^ k)"
proof (cases "n = 0")
  case False
  then have nb: "nbits (n * 2 ^ k) = nbits n + k" by (simp add: nbits_mult_power)
  have le: "nbits n \<le> 53" using assms(1) by (simp only: nbits_le_iff)
  then have "(2::nat) ^ (nbits n + k - 53) dvd 2 ^ k" by (intro le_imp_power_dvd) simp
  then show ?thesis using le assms(2) by (simp add: representable_def nb dvd_mult)
qed (simp add: representable_def)

lemma dmag_shift:
  assumes "dfinite x"
  obtains n k where "n < 2 ^ 53" "k \<le> 2045" "dmag x = n * 2 ^ k"
proof (cases "dexp x = 0")
  case True
  have "dmant x < 2 ^ 53" by (rule order_less_trans [of _ "2 ^ 52"]) (simp_all add: dmant_def)
  then show thesis using that [of "dmant x" 0] True by (simp add: dmag_def)
next
  case False
  have m: "dmant x < 2 ^ 52" by (simp add: dmant_def)
  have "dexp x < 2 ^ 11" unfolding dexp_def by simp
  then have "dexp x \<le> 2046" using assms by (simp add: dfinite_def)
  then show thesis using that [of "2 ^ 52 + dmant x" "dexp x - 1"] False m by (simp add: dmag_def)
qed

lemma representable_dmag: "dfinite x \<Longrightarrow> representable (dmag x)"
  by (metis dmag_shift representable_shift)

text \<open>The integer part and the fraction of a magnitude.\<close>

lemma representable_parts:
  assumes "dfinite x"
  shows "representable (dmag x div DU * DU)" "representable (dmag x mod DU)"
proof -
  obtain n k where nk: "n < 2 ^ 53" "k \<le> 2045" "dmag x = n * 2 ^ k" using assms dmag_shift by blast
  have "representable (dmag x div DU * DU) \<and> representable (dmag x mod DU)"
  proof (cases "1074 \<le> k")
    case True
    then have "dmag x = (n * 2 ^ (k - 1074)) * DU"
      unfolding nk(3) DU_def mult.assoc by (simp only: power_add [symmetric] le_add_diff_inverse2)
    then have "dmag x mod DU = 0" "dmag x div DU * DU = dmag x" by simp_all
    then show ?thesis using representable_dmag [OF assms] by (simp add: representable_def)
  next
    case False
    define j where "j = 1074 - k"
    have DU: "DU = 2 ^ j * 2 ^ k" using False by (simp add: DU_def j_def power_add [symmetric])
    have "dmag x mod DU = (n mod 2 ^ j) * 2 ^ k" unfolding nk(3) DU by (rule mod_mult_mult2)
    moreover have "dmag x div DU = n div 2 ^ j" unfolding nk(3) DU by simp
    moreover have "n mod 2 ^ j < 2 ^ 53" by (rule le_less_trans [OF mod_less_eq_dividend nk(1)])
    moreover have "n div 2 ^ j < 2 ^ 53" by (rule le_less_trans [OF div_le_dividend nk(1)])
    ultimately show ?thesis
      using representable_shift [of _ k] representable_shift [of "n div 2 ^ j" 1074] nk(2)
      by (simp add: DU_def)
  qed
  then show "representable (dmag x div DU * DU)" "representable (dmag x mod DU)" by simp_all
qed

text \<open>A finite double is determined by its sign and its magnitude.\<close>

lemma dmag_unique:
  assumes "dfinite x" "dfinite y" "dsign x = dsign y" "dmag x = dmag y"
  shows "x = y"
proof -
  have m: "dmant x < 2 ^ 52" "dmant y < 2 ^ 52" by (simp_all add: dmant_def)
  have nb: "nbits (dmag z) = 53 + (dexp z - 1)" if "dexp z \<noteq> 0" for z
  proof -
    have "nbits (2 ^ 52 + dmant z) = 53"
    proof (rule antisym)
      have "2 ^ 52 + dmant z < 2 ^ 53" by (simp add: dmant_def)
      then show "nbits (2 ^ 52 + dmant z) \<le> 53" by (simp only: nbits_le_iff)
      have "\<not> 2 ^ 52 + dmant z < 2 ^ 52" by simp
      then have "\<not> nbits (2 ^ 52 + dmant z) \<le> 52" by (simp only: nbits_le_iff not_False_eq_True)
      then show "53 \<le> nbits (2 ^ 52 + dmant z)" by simp
    qed
    then show ?thesis using that by (simp add: dmag_def nbits_mult_power)
  qed
  have small: "nbits (dmag z) \<le> 52" if "dexp z = 0" for z
    unfolding nbits_le_iff using that by (simp add: dmag_def dmant_def)
  have "dexp x = dexp y"
    using nb [of x] nb [of y] small [of x] small [of y] assms(4)
    by (cases "dexp x = 0"; cases "dexp y = 0") auto
  moreover from this have "dmant x = dmant y"
    using assms(4) by (auto simp: dmag_def split: if_splits)
  ultimately show ?thesis using assms(3) by (intro double_eqI)
qed

lemma dpack_dmag: "dfinite x \<Longrightarrow> dpack (dsign x) (dmag x) = x"
  by (intro dmag_unique) (simp_all add: representable_dmag)

section \<open>The tests for an integer\<close>

text \<open>Rounding down: the result differs from the truncation only when neither is \<open>x\<close>.\<close>

definition dfloor_int :: "double \<Rightarrow> int" where
  "dfloor_int x = (if dsign x then - int ((dmag x + DU - 1) div DU) else int (dmag x div DU))"

lemma ceil_div: "(m + DU - 1) div DU = m div DU + (if m mod DU = 0 then 0 else 1)"
proof -
  define q r where "q = m div DU" and "r = m mod DU"
  have m: "m = q * DU + r" and r: "r < DU" by (simp_all add: q_def r_def)
  show ?thesis
  proof (cases "r = 0")
    case True
    have "m + DU - 1 = (DU - 1) + q * DU" using m True DU_pos(1) by linarith
    then have "(m + DU - 1) div DU = (DU - 1 + q * DU) div DU" by simp
    also have "\<dots> = q" by (simp add: div_mult_self3 del: One_nat_def)
    finally show ?thesis using True by (simp add: q_def r_def)
  next
    case False
    then have "m + DU - 1 = (r - 1) + (q + 1) * DU" using m DU_pos(1) by simp
    then have "(m + DU - 1) div DU = (q + 1) + (r - 1) div DU"
      by (simp only:) (rule div_mult_self1, rule DU_pos)
    also have "\<dots> = q + 1" using r by simp
    finally show ?thesis using False by (simp add: q_def r_def)
  qed
qed

text \<open>
  The doubles that fit \<open>int\<close> after truncation, and after rounding down.  The conversion of every
  other double is undefined.
\<close>

definition trunc_range :: "double \<Rightarrow> bool" where
  "trunc_range x \<longleftrightarrow> dfinite x \<and> - (2 ^ 31) \<le> dtrunc_int x \<and> dtrunc_int x < 2 ^ 31"

definition int_range :: "double \<Rightarrow> bool" where
  "int_range x \<longleftrightarrow> dfinite x \<and> - (2 ^ 31) \<le> dfloor_int x \<and> dfloor_int x < 2 ^ 31"

lemma trunc_range_quotient:
  assumes "trunc_range x"
  shows "dmag x div DU \<le> 2 ^ 31"
proof -
  have "int (dmag x div DU) \<le> 2 ^ 31"
    using assms by (auto simp: trunc_range_def dtrunc_int_def Let_def split: if_splits)
  then have "int (dmag x div DU) \<le> int (2 ^ 31)" by simp
  then show ?thesis by (simp only: of_nat_le_iff)
qed

lemma int_range_trunc_range: "int_range x \<Longrightarrow> trunc_range x"
  unfolding int_range_def trunc_range_def dfloor_int_def dtrunc_int_def ceil_div Let_def
  by (auto split: if_splits)

lemma int_range_quotient:
  assumes "int_range x"
  shows "(dmag x + DU - 1) div DU \<le> 2 ^ 31 + 1"
  using trunc_range_quotient [OF int_range_trunc_range [OF assms]] unfolding ceil_div by auto

lemma dround_mag_int_double:
  assumes "dfinite x" "f (dsign x) (dmag x) \<le> 2 ^ 53"
  shows "int_double (dround_mag f x) (if dsign x then - int (f (dsign x) (dmag x)) else int (f (dsign x) (dmag x)))"
proof -
  have "\<not> isnan x" "\<not> isinf x" using assms(1) by (auto simp: isnan_def isinf_def dfinite_def)
  then have "dround_mag f x = dpack (dsign x) (f (dsign x) (dmag x) * DU)"
    by (simp add: dround_mag_def)
  moreover have "int_double (dpack b (n * DU)) (if b then - int n else int n)" if "n \<le> 2 ^ 53" for b n
    using dpack_fields [OF representable_int [OF that], of b]
    by (cases b) (simp_all add: int_double_def dscaled_def)
  ultimately show ?thesis using assms(2) by simp
qed

lemma dtrunc_int_double:
  assumes "trunc_range x"
  shows "int_double (dtrunc x) (dtrunc_int x)"
proof -
  have "dmag x div DU \<le> 2 ^ 53"
    by (rule order_trans [OF trunc_range_quotient [OF assms]]) simp
  then have "int_double (dtrunc x) (if dsign x then - int (dmag x div DU) else int (dmag x div DU))"
    unfolding dtrunc_def using assms by (intro dround_mag_int_double) (auto simp: trunc_range_def)
  then show ?thesis by (simp only: dtrunc_int_def Let_def)
qed

lemma deq_int_double_iff:
  assumes "dfinite x" "int_double y (dtrunc_int x)"
  shows "deq y x \<longleftrightarrow> dintegral x"
proof
  assume "dintegral x"
  from dintegral_int_double [OF this] assms(2) show "deq y x"
    by (simp add: int_double_compare)
next
  assume "deq y x"
  then have "dscaled x = dtrunc_int x * dunit"
    using assms int_double_facts [OF assms(2)] by (simp add: deq_def dkey_finite)
  then have "int_double x (dtrunc_int x)" using assms(1) by (simp add: int_double_def)
  then show "dintegral x" by (rule int_double_facts)
qed

lemma deq_dtrunc_iff: "trunc_range x \<Longrightarrow> deq (dtrunc x) x \<longleftrightarrow> dintegral x"
  using dtrunc_int_double [of x] by (simp add: deq_int_double_iff trunc_range_def)

lemma dfloor_int_integral: "dintegral x \<Longrightarrow> dfloor_int x = dtrunc_int x"
  by (simp only: dfloor_int_def dtrunc_int_def Let_def ceil_div dintegral_def) simp

lemma dfloor_int_double:
  assumes "int_range x"
  shows "int_double (dfloor x) (dfloor_int x)"
proof -
  note q = trunc_range_quotient [OF int_range_trunc_range [OF assms]] int_range_quotient [OF assms]
  define n where "n = (if dsign x then (dmag x + DU - 1) div DU else dmag x div DU)"
  have "n \<le> 2 ^ 31 + 1" using q by (auto simp: n_def)
  then have "n \<le> 2 ^ 53" by (rule order_trans) simp
  then have "int_double (dfloor x) (if dsign x then - int n else int n)"
    unfolding dfloor_def n_def using assms by (intro dround_mag_int_double) (simp_all add: int_range_def)
  moreover have fl: "dfloor_int x = (if dsign x then - int n else int n)" by (simp add: dfloor_int_def n_def)
  ultimately show ?thesis by simp
qed

lemma deq_dfloor_iff:
  assumes "int_range x"
  shows "deq (double_of_int (dfloor_int x)) x \<longleftrightarrow> dintegral x"
proof
  have b: "\<bar>dfloor_int x\<bar> \<le> 2 ^ 53" using assms by (auto simp: int_range_def abs_le_iff)
  note i = int_double_of_int [OF b]
  {
    assume "dintegral x"
    with i dintegral_int_double [OF this] dfloor_int_integral [of x]
    show "deq (double_of_int (dfloor_int x)) x" by (simp add: int_double_compare)
  next
    assume "deq (double_of_int (dfloor_int x)) x"
    then have "dscaled x = dfloor_int x * dunit"
      using assms int_double_facts [OF i] by (simp add: deq_def dkey_finite int_range_def)
    then have "int_double x (dfloor_int x)" using assms by (simp add: int_double_def int_range_def)
    then show "dintegral x" by (rule int_double_facts)
  }
qed

lemma double_to_int32_int_double:
  "int_double x i \<Longrightarrow> - (2 ^ 31) \<le> i \<Longrightarrow> i < 2 ^ 31 \<Longrightarrow> double_to_int32 x = Inr i"
  using int_double_facts [of x i] by (simp add: double_to_int32_def double_to_int_type_def)

lemma double_to_int32_trunc_range:
  "double_to_int32 x = (if trunc_range x then Inr (dtrunc_int x) else Inl Undefined)"
  by (auto simp: double_to_int32_def double_to_int_type_def trunc_range_def)

section \<open>Negative sums\<close>

text \<open>Whatever the rounding, a sum below zero is not zero or more.\<close>

lemma dpack_negative:
  assumes "0 < m"
  shows "dkey (dpack True m) < 0"
proof -
  define k where "k = nbits m - 53"
  define b where "b = min (k * 2 ^ 52 + round_half_even m k) (2047 * 2 ^ 52)"
  have "0 < k * 2 ^ 52 + round_half_even m k"
  proof (cases "k = 0")
    case True
    then show ?thesis using assms by (simp add: round_half_even_def)
  qed simp
  then have b: "0 < b" "b < 2 ^ 63" "b \<le> 2047 * 2 ^ 52" by (simp_all add: b_def)
  have eq: "dpack True m = word_of_nat (2 ^ 63 + b)" by (simp add: dpack_at_def k_def [symmetric] b_def)
  note f = dfields_of_nat [OF b(2), of True, unfolded if_True, folded eq]
  show ?thesis
  proof (cases "isinf (dpack True m)")
    case True
    then show ?thesis using f by (simp add: dkey_def)
  next
    case False
    have "0 < dmag (dpack True m)"
    proof (cases "dexp (dpack True m) = 0")
      case True
      then have "b mod 2 ^ 52 = b" using f(2) by (simp add: div_eq_0_iff)
      then show ?thesis using True f(3) b(1) by (simp add: dmag_def)
    next
      case False
      then show ?thesis by (simp add: dmag_def)
    qed
    then show ?thesis using False f(1) by (simp add: dkey_def dscaled_def)
  qed
qed

lemma dkey_0: "dkey (double_of_int 0) = 0" "\<not> isnan (double_of_int 0)"
  by (simp_all add: dkey_of_int double_of_int_fields)

lemma dadd_negative:
  assumes "dfinite x" "dfinite y" "dscaled x + dscaled y < 0"
  shows "\<not> dle (double_of_int 0) (dadd x y)"
proof -
  have "\<not> isnan x" "\<not> isinf x" "\<not> isnan y" "\<not> isinf y"
    using assms by (auto simp: isnan_def isinf_def dfinite_def)
  then have "dadd x y = dpack True (nat \<bar>dscaled x + dscaled y\<bar>)"
    using assms(3) by (simp add: dadd_def Let_def)
  then show ?thesis
    using dpack_negative [of "nat \<bar>dscaled x + dscaled y\<bar>"] assms(3) dkey_0 by (simp add: dle_def)
qed

section \<open>Rounding of any double\<close>

lemma not_finite: "\<not> dfinite x \<longleftrightarrow> isnan x \<or> isinf x"
  by (auto simp: isnan_def isinf_def dfinite_def)

lemma dexp_bits: "dexp y = unat (take_bit 11 (drop_bit 52 y))"
proof -
  have "unat (take_bit 11 (drop_bit 52 y)) = take_bit 11 (drop_bit 52 (unat y))"
    by (simp add: unsigned_take_bit_eq unsigned_drop_bit_eq take_bit_nat_eq_self [OF unat64_lt] flip: take_bit_eq_mod)
  then show ?thesis by (simp add: dexp_def take_bit_eq_mod drop_bit_eq_div)
qed

lemma dexp_dquiet: "dexp (dquiet x) = dexp x"
proof -
  have b: "dquiet x = x OR push_bit 51 1" by (simp add: dquiet_def push_bit_eq_mult)
  have "take_bit 11 (drop_bit 52 (dquiet x)) = take_bit 11 (drop_bit 52 x)"
    unfolding b by (rule bit_word_eqI) (auto simp: bit_simps)
  then show ?thesis by (simp only: dexp_bits)
qed

lemma dround_mag_not_finite: "\<not> dfinite x \<Longrightarrow> \<not> dfinite (dround_mag f x)"
  using dexp_dquiet [of x] not_finite [of x] by (auto simp: dround_mag_def dfinite_def)

lemma dround_mag_integral:
  assumes "dfinite x" "f (dsign x) (dmag x) * DU = dmag x"
  shows "dround_mag f x = x"
  using assms not_finite [of x] dpack_dmag [OF assms(1)] by (simp add: dround_mag_def)

lemma fraction_small:
  assumes "dfinite x" "dmag x mod DU \<noteq> 0"
  shows "dmag x div DU < 2 ^ 53"
proof -
  obtain n k where nk: "n < 2 ^ 53" "dmag x = n * 2 ^ k" using dmag_shift [OF assms(1)] by metis
  have k: "k < 1074"
  proof (rule ccontr)
    assume "\<not> k < 1074"
    then have "DU dvd (2::nat) ^ k" unfolding DU_def by (intro le_imp_power_dvd) simp
    then have "DU dvd dmag x" unfolding nk(2) by (rule dvd_mult)
    then show False using assms(2) by simp
  qed
  then have "(2::nat) ^ k \<le> DU" unfolding DU_def by (intro power_increasing) simp_all
  then have "n * 2 ^ k \<le> n * DU" by (rule mult_le_mono2)
  also have "\<dots> < 2 ^ 53 * DU" using nk(1) by simp
  finally show ?thesis unfolding nk(2) by (simp add: div_less_iff_less_mult)
qed

lemma dfloor_finite:
  assumes "dfinite x"
  shows "dfinite (dfloor x)" "dtrunc_int (dfloor x) = dfloor_int x"
proof -
  have "dfinite (dfloor x) \<and> dtrunc_int (dfloor x) = dfloor_int x"
  proof (cases "dmag x mod DU = 0")
    case True
    then have "dmag x div DU * DU = dmag x" by auto
    moreover from True have "(dmag x + DU - 1) div DU = dmag x div DU" unfolding ceil_div by simp
    ultimately have eq: "dfloor x = x" unfolding dfloor_def
      by (intro dround_mag_integral [OF assms]) (simp only: if_cancel)
    have "dfloor_int x = dtrunc_int x"
      using True assms by (intro dfloor_int_integral) (simp add: dintegral_def)
    then show ?thesis using eq assms by simp
  next
    case False
    define n where "n = (if dsign x then (dmag x + DU - 1) div DU else dmag x div DU)"
    have "n \<le> 2 ^ 53" using fraction_small [OF assms False] unfolding n_def ceil_div by auto
    then have "int_double (dfloor x) (if dsign x then - int n else int n)"
      unfolding dfloor_def n_def using assms by (intro dround_mag_int_double) simp_all
    then have "int_double (dfloor x) (dfloor_int x)"
      by (simp only: dfloor_int_def n_def if_True if_False cong: if_cong)
    from int_double_facts [OF this] show ?thesis by simp
  qed
  then show "dfinite (dfloor x)" "dtrunc_int (dfloor x) = dfloor_int x" by simp_all
qed

lemma double_to_int32_dfloor:
  "double_to_int32 (dfloor x) = (if int_range x then Inr (dfloor_int x) else Inl Undefined)"
proof (cases "dfinite x")
  case True
  then show ?thesis
    using dfloor_finite [OF True]
    by (auto simp: double_to_int32_trunc_range trunc_range_def int_range_def)
next
  case False
  then show ?thesis
    by (simp add: double_to_int32_trunc_range trunc_range_def int_range_def dfloor_def dround_mag_not_finite)
qed

lemma deq_dtrunc_dintegral:
  assumes "dfinite x" "deq (dtrunc x) x"
  shows "dintegral x"
proof -
  note r = dpack_simps [OF representable_parts(1) [OF assms(1)], of "dsign x"]
  have t: "dtrunc x = dpack (dsign x) (dmag x div DU * DU)"
    using assms(1) not_finite [of x] by (simp add: dtrunc_def dround_mag_def)
  have "dscaled (dtrunc x) = dscaled x"
    using assms r unfolding t by (simp add: deq_def dkey_finite)
  then have "dmag x div DU * DU = dmag x"
    using r unfolding t dscaled_def by (simp split: if_splits del: of_nat_mult)
  then show ?thesis using assms(1) unfolding dintegral_def by (metis mod_mult_self2_is_0)
qed

text \<open>An integral double outside the range of \<open>int\<close> lies beyond it.\<close>

lemma not_int_range_cases:
  assumes "\<not> int_range x" "deq (dtrunc x) x"
  obtains (high) "\<not> isnan x" "2 ^ 31 * dunit \<le> dkey x"
    | (low) "dfinite x" "dscaled x < - (2 ^ 31) * dunit"
    | (minus_infinity) "isinf x" "dsign x" "\<not> isnan x"
proof (cases "dfinite x")
  case True
  then have i: "dintegral x" using assms(2) by (rule deq_dtrunc_dintegral)
  from dfloor_int_integral [OF this] consider "2 ^ 31 \<le> dtrunc_int x" | "dtrunc_int x < - (2 ^ 31)"
    using assms(1) True by (auto simp: int_range_def)
  then show thesis
  proof cases
    case 1
    then have "2 ^ 31 * dunit \<le> dscaled x" unfolding dintegral_scaled [OF i] by (intro mult_right_mono) simp_all
    then show thesis using high True not_finite [of x] by (simp add: dkey_finite)
  next
    case 2
    then have "dscaled x < - (2 ^ 31) * dunit" unfolding dintegral_scaled [OF i] by (intro mult_strict_right_mono) simp_all
    then show thesis using low True by simp
  qed
next
  case False
  have "(2::int) ^ 31 * dunit \<le> 2 ^ 2100" unfolding DU_def by (simp flip: power_add)
  then show thesis using high minus_infinity False assms(2) not_finite [of x]
    by (cases "dsign x") (auto simp: deq_def dkey_def)
qed

text \<open>Such a number is out of the bounds of every collection, also when it counts from the end.\<close>

lemma beyond_every_count:
  assumes "\<not> int_range x" "deq (dtrunc x) x" "0 \<le> n" "n < 2 ^ 31"
  defines "w \<equiv> if dlt x (double_of_int 0) then dadd (double_of_int n) x else x"
  shows "\<not> (dle (double_of_int 0) w \<and> dlt w (double_of_int n))"
proof -
  have nf: "dfinite (double_of_int n)" "\<not> isnan (double_of_int n)" "\<not> isinf (double_of_int n)"
    "dscaled (double_of_int n) = n * dunit" "dkey (double_of_int n) = n * dunit"
    using assms(3,4) by (simp_all add: double_of_int_fields dscaled_of_int dkey_of_int)
  show ?thesis
    using assms(1,2)
  proof (cases rule: not_int_range_cases)
    case high
    have "n * dunit \<le> 2 ^ 31 * dunit" using assms(4) by (intro mult_right_mono) simp_all
    then have "n * dunit \<le> dkey x" using high(2) by (rule order_trans)
    moreover have "0 \<le> n * dunit" using assms(3) by simp
    ultimately have "\<not> dlt x (double_of_int 0)" "\<not> dlt x (double_of_int n)"
      by (auto simp: dlt_def nf dkey_0)
    then show ?thesis by (simp add: w_def)
  next
    case low
    have "n * dunit < 2 ^ 31 * dunit" using assms(4) by (intro mult_strict_right_mono) simp_all
    then have "dscaled (double_of_int n) + dscaled x < 0" using low(2) unfolding nf by linarith
    then have "\<not> dle (double_of_int 0) (dadd (double_of_int n) x)" by (rule dadd_negative [OF nf(1) low(1)])
    moreover have "dscaled x < 0" using low(2) by (rule order_less_trans) simp
    then have "dlt x (double_of_int 0)"
      using low(1) not_finite [of x] by (simp add: dlt_def dkey_0 dkey_finite)
    ultimately show ?thesis by (simp add: w_def)
  next
    case minus_infinity
    then have "dadd (double_of_int n) x = x" by (simp add: dadd_def nf)
    moreover have "\<not> dle (double_of_int 0) x" "dlt x (double_of_int 0)"
      using minus_infinity by (simp_all add: dle_def dlt_def dkey_0 dkey_def [of x])
    ultimately show ?thesis by (simp add: w_def)
  qed
qed

lemma beyond_every_end:
  assumes "\<not> int_range x" "deq (dtrunc x) x" "\<bar>n\<bar> < 2 ^ 31"
  shows "dlt x (double_of_int 0) \<or> dle (double_of_int n) x"
proof -
  have b: "\<bar>n\<bar> \<le> 2 ^ 53" using assms(3) by simp
  note nf = double_of_int_fields(4) [OF b] dkey_of_int [OF b]
  show ?thesis
    using assms(1,2)
  proof (cases rule: not_int_range_cases)
    case high
    have "n * dunit \<le> 2 ^ 31 * dunit" using assms(3) by (intro mult_right_mono) simp_all
    then have "n * dunit \<le> dkey x" using high(2) by (rule order_trans)
    then show ?thesis using high(1) by (simp add: dle_def nf)
  next
    case low
    have "dscaled x < 0" using low(2) by (rule order_less_trans) simp
    then show ?thesis using low(1) not_finite [of x] by (simp add: dlt_def dkey_0 dkey_finite)
  next
    case minus_infinity
    then show ?thesis by (simp add: dlt_def dkey_0 dkey_def [of x])
  qed
qed

text \<open>A double equal to an integral one has the same value.\<close>

lemma deq_int_double:
  assumes "deq x (double_of_int i)" "\<bar>i\<bar> \<le> 2 ^ 53"
  shows "int_double x i"
proof -
  have k: "dkey x = i * dunit" "\<not> isnan x" using assms by (simp_all add: deq_def dkey_of_int)
  have "\<not> isinf x"
  proof
    assume "isinf x"
    then have "\<bar>i * dunit\<bar> = 2 ^ 2100" using k by (simp add: dkey_def split: if_splits)
    moreover have "\<bar>i * dunit\<bar> \<le> 2 ^ 53 * dunit" using assms(2) by (simp add: abs_mult mult_right_mono)
    moreover have "2 ^ 53 * dunit < 2 ^ 2100" by (simp add: DU_def flip: power_add)
    ultimately show False by simp
  qed
  then have "dfinite x" using k(2) not_finite by blast
  then show ?thesis using k(1) by (simp add: int_double_def dkey_finite)
qed

end
