(* ===== verification/List_Proofs.thy ===== *)
theory List_Proofs
  imports List_Object Double_Integers
begin

text \<open>
  The list operations of the runtime do what the reference interpreter's primitives do, with the
  same results and the same messages.
\<close>

text \<open>Results of the runtime and of a primitive correspond: both succeed, or both fail alike.\<close>

definition agrees :: "('a \<Rightarrow> 'b \<Rightarrow> bool) \<Rightarrow> 'a res \<Rightarrow> string + 'b \<Rightarrow> bool" where
  "agrees R r q =
     (case (r, q) of
        (Inr x, Inr y) \<Rightarrow> R x y
      | (Inl (WrenAbort m), Inl m') \<Rightarrow> m = m'
      | _ \<Rightarrow> False)"

lemma agrees_simps [simp]:
  "agrees R (Inr x) (Inr y) \<longleftrightarrow> R x y"
  "agrees R (Inl (WrenAbort m)) (Inl m') \<longleftrightarrow> m = m'"
  by (simp_all add: agrees_def)

text \<open>
  The same for an operation that is undefined outside a condition: there the runtime's code has
  undefined behaviour, and the reference reports an error.
\<close>

definition agrees_if :: "bool \<Rightarrow> ('a \<Rightarrow> 'b \<Rightarrow> bool) \<Rightarrow> 'a res \<Rightarrow> string + 'b \<Rightarrow> bool" where
  "agrees_if defined R r q =
     (if defined then agrees R r q else r = Inl Undefined \<and> (case q of Inl _ \<Rightarrow> True | Inr _ \<Rightarrow> False))"

lemma agrees_if_True [simp]: "agrees_if True R r q \<longleftrightarrow> agrees R r q"
  by (simp add: agrees_if_def)

section \<open>Checking an index\<close>

text \<open>An argument whose conversion to \<open>int\<close> is defined.\<close>

definition int_arg :: "val \<Rightarrow> bool" where
  "int_arg v \<longleftrightarrow> (is_value_float v \<longrightarrow> int_range v)"

lemma checkInt_eq:
  "checkInt n v =
    (if \<not> is_value_float v then Inl (WrenAbort (n @ '' must be a number.''))
     else if \<not> int_range v then Inl Undefined
     else if dintegral v then Inr (dtrunc_int v) else Inl (WrenAbort (n @ '' must be an integer.'')))"
proof (cases "is_value_float v \<and> int_range v")
  case True
  then have "double_to_int32 (dfloor v) = Inr (dfloor_int v)" by (simp add: double_to_int32_dfloor)
  then show ?thesis
    using True dfloor_int_integral [of v]
    by (simp add: checkInt_def checkDouble_def get_number_value_def deq_dfloor_iff)
qed (auto simp: checkInt_def checkDouble_def get_number_value_def double_to_int32_dfloor)

lemma checkInt_cases:
  assumes "int_arg v"
  shows "\<not> is_value_float v \<Longrightarrow> checkInt n v = Inl (WrenAbort (n @ '' must be a number.''))"
    and "is_value_float v \<Longrightarrow> \<not> dintegral v \<Longrightarrow> checkInt n v = Inl (WrenAbort (n @ '' must be an integer.''))"
    and "is_value_float v \<Longrightarrow> dintegral v \<Longrightarrow> checkInt n v = Inr (dtrunc_int v)"
  using assms by (simp_all add: checkInt_eq int_arg_def)

text \<open>The values of the type \<open>int\<close>.\<close>

abbreviation int32_value :: "int \<Rightarrow> bool" where
  "int32_value i \<equiv> - (2 ^ 31) \<le> i \<and> i < 2 ^ 31"

lemma checkInt_bound: "checkInt n v = Inr i \<Longrightarrow> int32_value i"
  using int_range_trunc_range [of v] by (auto simp: checkInt_eq trunc_range_def split: if_splits)

lemma ref_validateInt_eq:
  assumes "int_arg v"
  shows "agrees (\<lambda>i d. int_double d i \<and> d = v) (checkInt n v) (ref_validateInt v n)"
  using checkInt_cases [OF assms, of n] assms dintegral_int_double [of v]
  by (auto simp: ref_validateInt_def ref_validateNum_def ref_validateIntValue_def get_number_value_def
      int_arg_def deq_dtrunc_iff int_range_trunc_range)

text \<open>The reference's index check is the runtime's conversion followed by the bounds check.\<close>

lemma ref_validateIndex_eq:
  assumes "int_arg v" "0 \<le> cnt" "cnt < 2 ^ 31"
  shows "agrees (=)
    (rbind (checkInt n v) (\<lambda>i. let s = (if i < 0 then cnt + i else i)
       in if 0 \<le> s \<and> s < cnt then Inr s else Inl (WrenAbort (n @ '' out of bounds.''))))
    (ref_validateIndex v cnt n)"
proof (cases "is_value_float v")
  case False
  then show ?thesis
    using checkInt_cases [OF assms(1), of n] by (simp add: ref_validateIndex_def ref_validateNum_def)
next
  case f: True
  then have r: "int_range v" using assms(1) by (simp add: int_arg_def)
  note t = int_range_trunc_range [OF r]
  show ?thesis
  proof (cases "dintegral v")
    case False
    then show ?thesis
      using f checkInt_cases(2) [OF assms(1), of n] deq_dtrunc_iff [OF t]
      by (simp add: ref_validateIndex_def ref_validateNum_def ref_validateIndexValue_def
          ref_validateIntValue_def get_number_value_def)
  next
    case True
    define i where "i = dtrunc_int v"
    have vi: "int_double v i" using dintegral_int_double [OF True] by (simp add: i_def)
    have ib: "int32_value i" using t by (simp add: trunc_range_def i_def)
    define s where "s = (if i < 0 then cnt + i else i)"
    have z: "int_double (double_of_int 0) 0" "int_double (double_of_int cnt) cnt"
      using assms(2,3) by (auto intro!: int_double_of_int)
    have ws: "int_double (if dlt v (double_of_int 0) then dadd (double_of_int cnt) v else v) s"
      using int_double_compare(2) [OF vi z(1)] int_double_dadd [OF z(2) vi] vi ib assms(2,3)
      by (auto simp: s_def)
    define w where "w = (if dlt v (double_of_int 0) then dadd (double_of_int cnt) v else v)"
    have "ref_validateIndex v cnt n =
        (if 0 \<le> s \<and> s < cnt then Inr s else Inl (n @ '' out of bounds.''))"
      using f True deq_dtrunc_iff [OF t] int_double_compare(3) [OF z(1) ws] int_double_compare(2) [OF ws z(2)]
        int_double_facts(6) [OF ws]
      by (simp add: ref_validateIndex_def ref_validateNum_def ref_validateIndexValue_def
          ref_validateIntValue_def get_number_value_def w_def [symmetric] del: if_split_asm)
    moreover have "checkInt n v = Inr i" using checkInt_cases(3) [OF assms(1) f True] by (simp add: i_def)
    ultimately show ?thesis by (simp add: s_def [symmetric] Let_def)
  qed
qed

lemma agrees_bind:
  assumes "agrees R r q" "\<And>x y. R x y \<Longrightarrow> agrees S (f x) (g y)"
  shows "agrees S (rbind r f) (case q of Inl m \<Rightarrow> Inl m | Inr y \<Rightarrow> g y)"
  using assms by (cases r; cases q) (auto simp: agrees_def split: fault.splits)

text \<open>The bounds check of an operation after the conversion of its index.\<close>

lemma checked_index_agrees:
  assumes "int_arg v" "0 \<le> cnt" "cnt < 2 ^ 31"
    and f: "\<And>i s. int32_value i \<Longrightarrow> s = (if i < 0 then cnt + i else i) \<Longrightarrow> 0 \<le> s \<Longrightarrow> s < cnt \<Longrightarrow>
      agrees S (f i) (Inr (g s))"
    and out: "\<And>i s. int32_value i \<Longrightarrow> s = (if i < 0 then cnt + i else i) \<Longrightarrow> \<not> (0 \<le> s \<and> s < cnt) \<Longrightarrow>
      f i = Inl (WrenAbort (n @ '' out of bounds.''))"
  shows "agrees S (rbind (checkInt n v) f)
    (case ref_validateIndex v cnt n of Inl m \<Rightarrow> Inl m | Inr s \<Rightarrow> Inr (g s))"
proof (cases "checkInt n v")
  case (Inl e)
  then show ?thesis
    using ref_validateIndex_eq [OF assms(1-3), of n] by (auto simp: agrees_def split: sum.splits fault.splits)
next
  case (Inr i)
  define s where "s = (if i < 0 then cnt + i else i)"
  have b: "int32_value i" using checkInt_bound [OF Inr] .
  show ?thesis
  proof (cases "0 \<le> s \<and> s < cnt")
    case True
    then have "ref_validateIndex v cnt n = Inr s"
      using ref_validateIndex_eq [OF assms(1-3), of n] Inr
      by (auto simp: s_def [symmetric] Let_def agrees_def split: sum.splits)
    then show ?thesis using f [OF b s_def] True Inr by simp
  next
    case False
    then have "ref_validateIndex v cnt n = Inl (n @ '' out of bounds.'')"
      using ref_validateIndex_eq [OF assms(1-3), of n] Inr
      by (cases "ref_validateIndex v cnt n") (auto simp: s_def [symmetric] Let_def agrees_def)
    then show ?thesis using out [OF b s_def False] Inr by simp
  qed
qed

text \<open>An index that does not fit \<open>int\<close> is an error of the reference.\<close>

lemma ref_validateIndex_beyond:
  assumes "is_value_float v" "\<not> int_range v" "0 \<le> cnt" "cnt < 2 ^ 31"
  shows "\<exists>m. ref_validateIndex v cnt n = Inl m"
  using beyond_every_count [OF assms(2) _ assms(3,4)] assms(1)
  by (auto simp: ref_validateIndex_def ref_validateNum_def ref_validateIndexValue_def
      ref_validateIntValue_def get_number_value_def Let_def)

lemma checked_index_total:
  assumes "0 \<le> cnt" "cnt < 2 ^ 31"
    and "\<And>i s. int32_value i \<Longrightarrow> s = (if i < 0 then cnt + i else i) \<Longrightarrow> 0 \<le> s \<Longrightarrow> s < cnt \<Longrightarrow>
      agrees S (f i) (Inr (g s))"
    and "\<And>i s. int32_value i \<Longrightarrow> s = (if i < 0 then cnt + i else i) \<Longrightarrow> \<not> (0 \<le> s \<and> s < cnt) \<Longrightarrow>
      f i = Inl (WrenAbort (n @ '' out of bounds.''))"
  shows "agrees_if (int_arg v) S (rbind (checkInt n v) f)
    (case ref_validateIndex v cnt n of Inl m \<Rightarrow> Inl m | Inr s \<Rightarrow> Inr (g s))"
proof (cases "int_arg v")
  case True
  from checked_index_agrees [OF True assms] True show ?thesis by simp
next
  case False
  then have v: "is_value_float v" "\<not> int_range v" by (simp_all add: int_arg_def)
  obtain m where "ref_validateIndex v cnt n = Inl m"
    using ref_validateIndex_beyond [OF v assms(1,2)] by blast
  then show ?thesis using False v by (simp add: agrees_if_def checkInt_eq)
qed

section \<open>The operations\<close>

lemma ValidateIndex_eq:
  assumes "int (length xs) < 2 ^ 31"
  shows "ValidateIndex xs i n = (if 0 \<le> i \<and> i < int (length xs) then Inr () else Inl (WrenAbort (n @ '' out of bounds.'')))"
  using assms by (auto simp: ValidateIndex_def guard_def)

text \<open>A negative index counts from the end.\<close>

lemma from_end [simp]:
  assumes "int (length xs) < 2 ^ 31" "int32_value i" "i < 0"
  shows "to_int (int (length xs) + i) = int (length xs) + i"
    "to_int (i + int (length xs)) = int (length xs) + i"
    "to_int (int (length xs) + 1 + i) = int (length xs) + 1 + i"
  using assms by (simp_all add: add.commute)

abbreviation same_update :: "val \<times> val list \<Rightarrow> val \<times> val buffer \<Rightarrow> bool" where
  "same_update x y \<equiv> fst x = fst y \<and> snd x = contents (snd y) \<and> buffer_ok (snd y)"

lemma list_Insert_agrees:
  assumes "buffer_ok b" "b_count b < 2 ^ 30"
  shows "agrees_if (int_arg arg) same_update (rbind (checkInt ''Index'' arg) (\<lambda>i. list_Insert (contents b) i x))
    (prim_list_insert junk null b arg x)"
  unfolding prim_list_insert_def
proof (rule checked_index_total)
  have len: "length (contents b) = b_count b" by (rule length_contents [OF assms(1)])
  have n: "int (length (contents b)) < 2 ^ 31" using assms(2) by (simp add: len)
  show "0 \<le> int (b_count b) + 1" "int (b_count b) + 1 < 2 ^ 31"
    using assms(2) by simp_all
  fix i s assume i: "int32_value i" and s: "s = (if i < 0 then int (b_count b) + 1 + i else i)"
  have norm: "(if i < 0 then to_int (int (length (contents b)) + 1 + i) else i) = s"
    using from_end(3) [OF n i] by (simp add: s len)
  have sz: "items_size (contents b) = int (b_count b)" using n by (simp add: len)
  have eq: "list_Insert (contents b) i x =
      (if 0 \<le> s \<and> s < int (b_count b) + 1 then Inr (x, insert_at (nat s) x (contents b))
       else Inl (WrenAbort (''Index'' @ '' out of bounds.'')))"
    unfolding list_Insert_def norm Let_def sz ValidateIndex_eq [OF n] by (auto simp: len)
  { assume "0 \<le> s" "s < int (b_count b) + 1"
    then show "agrees same_update (list_Insert (contents b) i x)
        (Inr (x, wrenListInsert junk null b x (nat s)))"
      using wrenListInsert_contents [OF assms(1,2), of "nat s"] by (simp add: eq)
  next
    assume "\<not> (0 \<le> s \<and> s < int (b_count b) + 1)"
    then show "list_Insert (contents b) i x = Inl (WrenAbort (''Index'' @ '' out of bounds.''))"
      by (simp add: eq) }
qed

lemma list_RemoveAt_agrees:
  assumes "buffer_ok b" "b_count b < 2 ^ 30"
  shows "agrees_if (int_arg arg) same_update (rbind (checkInt ''Index'' arg) (\<lambda>i. list_RemoveAt (contents b) i))
    (prim_list_removeAt junk b arg)"
  unfolding prim_list_removeAt_def
proof (rule checked_index_total)
  have len: "length (contents b) = b_count b" by (rule length_contents [OF assms(1)])
  have n: "int (length (contents b)) < 2 ^ 31" using assms(2) by (simp add: len)
  show "0 \<le> int (b_count b)" "int (b_count b) < 2 ^ 31"
    using assms(2) by simp_all
  fix i s assume i: "int32_value i" and s: "s = (if i < 0 then int (b_count b) + i else i)"
  have norm: "(if i < 0 then to_int (int (length (contents b)) + i) else i) = s"
    using from_end(1) [OF n i] by (simp add: s len)
  have eq: "list_RemoveAt (contents b) i =
      (if 0 \<le> s \<and> s < int (b_count b) then Inr (contents b ! nat s, remove_at (nat s) (contents b))
       else Inl (WrenAbort (''Index'' @ '' out of bounds.'')))"
    unfolding list_RemoveAt_def norm Let_def ValidateIndex_eq [OF n] by (auto simp: len)
  { assume "0 \<le> s" "s < int (b_count b)"
    then show "agrees same_update (list_RemoveAt (contents b) i) (Inr (wrenListRemoveAt junk b (nat s)))"
      using wrenListRemoveAt_contents [OF assms(1), of "nat s"] by (simp add: eq)
  next
    assume "\<not> (0 \<le> s \<and> s < int (b_count b))"
    then show "list_RemoveAt (contents b) i = Inl (WrenAbort (''Index'' @ '' out of bounds.''))"
      by (simp add: eq) }
qed

lemma list_OperatorSubscriptSet_agrees:
  assumes "buffer_ok b" "b_count b < 2 ^ 30"
  shows "agrees_if (int_arg arg) same_update
    (rbind (checkInt ''Subscript'' arg) (\<lambda>i. list_OperatorSubscriptSet (contents b) i x))
    (prim_list_subscriptSetter b arg x)"
  unfolding prim_list_subscriptSetter_def
proof (rule checked_index_total)
  have len: "length (contents b) = b_count b" by (rule length_contents [OF assms(1)])
  have n: "int (length (contents b)) < 2 ^ 31" using assms(2) by (simp add: len)
  show "0 \<le> int (b_count b)" "int (b_count b) < 2 ^ 31"
    using assms(2) by simp_all
  fix i s assume i: "int32_value i" and s: "s = (if i < 0 then int (b_count b) + i else i)"
  have norm: "(if i < 0 then to_int (i + int (length (contents b))) else i) = s"
    using from_end(2) [OF n i] by (simp add: s len)
  have eq: "list_OperatorSubscriptSet (contents b) i x =
      (if 0 \<le> s \<and> s < int (b_count b) then Inr (x, (contents b)[nat s := x])
       else Inl (WrenAbort (''Subscript'' @ '' out of bounds.'')))"
    unfolding list_OperatorSubscriptSet_def norm Let_def ValidateIndex_eq [OF n] by (auto simp: len)
  { assume "0 \<le> s" "s < int (b_count b)"
    then show "agrees same_update (list_OperatorSubscriptSet (contents b) i x)
        (Inr (x, b\<lparr>b_data := (b_data b)[nat s := x]\<rparr>))"
      using assms(1) contents_update [of "nat s" b x] by (simp add: eq buffer_ok_def)
  next
    assume "\<not> (0 \<le> s \<and> s < int (b_count b))"
    then show "list_OperatorSubscriptSet (contents b) i x = Inl (WrenAbort (''Subscript'' @ '' out of bounds.''))"
      by (simp add: eq) }
qed

text \<open>The subscript operator tests for an integer by truncation, with the same outcome.\<close>

lemma truncated_is_checkInt:
  assumes "int_range v" "is_value_float v"
  shows "rbind (double_to_int32 v) (\<lambda>i. if \<not> deq (double_of_int i) v then Inl (WrenAbort (n @ '' must be an integer.'')) else f i)
    = rbind (checkInt n v) f"
proof -
  have "int_arg v" using assms(1) by (simp add: int_arg_def)
  note c = checkInt_cases(2,3) [OF this assms(2), of n]
  have "double_to_int32 v = Inr (dtrunc_int v)"
    using int_range_trunc_range [OF assms(1)] by (simp add: double_to_int32_trunc_range)
  then show ?thesis using c deq_int32_iff by (cases "dintegral v") auto
qed

lemma trunc_range_only: "\<not> int_range v \<Longrightarrow> trunc_range v \<Longrightarrow> \<not> dintegral v"
  using dfloor_int_integral [of v] by (auto simp: int_range_def trunc_range_def)

lemma list_OperatorSubscript_num:
  assumes "is_value_float arg"
  shows "list_OperatorSubscript h items arg =
    rbind (double_to_int32 arg) (\<lambda>i. if \<not> deq (double_of_int i) arg
      then Inl (WrenAbort (''Subscript'' @ '' must be an integer.''))
      else let i = (if i < 0 then to_int (i + int (length items)) else i) in
        rbind (ValidateIndex items i ''Subscript'') (\<lambda>_. Inr (Element (items ! nat i))))"
  using assms unfolding list_OperatorSubscript_def get_number_value_def
  by (simp add: is_value_float_iff cong: if_cong)

lemma list_OperatorSubscript_fits:
  assumes "buffer_ok b" "b_count b < 2 ^ 30" "int_range arg" "is_value_float arg"
  shows "agrees (\<lambda>x y. x = Element y) (list_OperatorSubscript h (contents b) arg)
    (prim_list_subscript_num b arg)"
proof -
  have len: "length (contents b) = b_count b" by (rule length_contents [OF assms(1)])
  have n: "int (length (contents b)) < 2 ^ 31" using assms(2) by (simp add: len)
  define f where "f = (\<lambda>i. let i = (if i < 0 then to_int (i + int (length (contents b))) else i) in
    rbind (ValidateIndex (contents b) i ''Subscript'') (\<lambda>_. Inr (Element (contents b ! nat i))))"
  have eq: "list_OperatorSubscript h (contents b) arg = rbind (checkInt ''Subscript'' arg) f"
    unfolding list_OperatorSubscript_num [OF assms(4)] f_def by (rule truncated_is_checkInt [OF assms(3,4)])
  show ?thesis unfolding eq prim_list_subscript_num_def
  proof (rule checked_index_agrees)
    show "0 \<le> int (b_count b)" "int (b_count b) < 2 ^ 31" "int_arg arg"
      using assms(2,3) by (simp_all add: int_arg_def)
    fix i s assume i: "int32_value i" and s: "s = (if i < 0 then int (b_count b) + i else i)"
    have norm: "(if i < 0 then to_int (i + int (length (contents b))) else i) = s"
      using from_end(2) [OF n i] by (simp add: s len)
    have eq: "f i = (if 0 \<le> s \<and> s < int (b_count b) then Inr (Element (contents b ! nat s))
         else Inl (WrenAbort (''Subscript'' @ '' out of bounds.'')))"
      unfolding f_def norm Let_def ValidateIndex_eq [OF n] by (auto simp: len)
    { assume "0 \<le> s" "s < int (b_count b)"
      then show "agrees (\<lambda>x y. x = Element y) (f i) (Inr (b_data b ! nat s))"
        by (simp add: eq contents_nth)
    next
      assume "\<not> (0 \<le> s \<and> s < int (b_count b))"
      then show "f i = Inl (WrenAbort (''Subscript'' @ '' out of bounds.''))" by (simp add: eq) }
  qed
qed

lemma list_OperatorSubscript_agrees:
  assumes "buffer_ok b" "b_count b < 2 ^ 30" "is_value_float arg"
  shows "agrees_if (trunc_range arg) (\<lambda>x y. x = Element y) (list_OperatorSubscript h (contents b) arg)
    (prim_list_subscript_num b arg)"
proof -
  consider (fits) "int_range arg" | (below) "\<not> int_range arg" "trunc_range arg" | (beyond) "\<not> trunc_range arg"
    by blast
  then show ?thesis
  proof cases
    case fits
    then show ?thesis using list_OperatorSubscript_fits [OF assms(1,2) fits assms(3)] int_range_trunc_range by simp
  next
    case below
    then have n: "\<not> dintegral arg" by (rule trunc_range_only)
    then have "\<not> deq (dtrunc arg) arg" using below(2) by (simp add: deq_dtrunc_iff)
    with n show ?thesis
      using below(2) assms(3) deq_int32_iff [of arg "dtrunc_int arg"]
      by (simp add: list_OperatorSubscript_num double_to_int32_trunc_range prim_list_subscript_num_def
          ref_validateIndex_def ref_validateNum_def ref_validateIndexValue_def ref_validateIntValue_def
          get_number_value_def)
  next
    case beyond
    then have "\<not> int_range arg" using int_range_trunc_range by blast
    from ref_validateIndex_beyond [OF assms(3) this, of "int (b_count b)" "''Subscript''"] assms(2)
    obtain m where "ref_validateIndex arg (int (b_count b)) ''Subscript'' = Inl m" by auto
    with beyond assms(3) show ?thesis
      by (simp add: list_OperatorSubscript_num agrees_if_def double_to_int32_trunc_range prim_list_subscript_num_def)
  qed
qed

text \<open>Iteration: the primitive's \<open>None\<close> is the boolean \<open>false\<close>.\<close>

definition same_iterator :: "heap \<Rightarrow> val \<Rightarrow> double option \<Rightarrow> bool" where
  "same_iterator h v q = (v = (case q of None \<Rightarrow> encode_bool h False | Some d \<Rightarrow> d))"

lemma list_Iterate_agrees:
  assumes "buffer_ok b" "b_count b < 2 ^ 30" "int_arg arg" "\<not> deq arg (double_of_int (2 ^ 31 - 1))"
  shows "agrees (same_iterator h) (list_Iterate h (contents b) arg) (prim_list_iterate NULL_VAL b arg)"
proof (cases "arg = NULL_VAL")
  case True
  have "double_of_int 0 = 0" by (simp add: double_of_int_def dpack_at_def round_half_even_def)
  moreover have "contents b = [] \<longleftrightarrow> b_count b = 0"
    using length_contents [OF assms(1)] by auto
  ultimately show ?thesis
    using True by (simp add: list_Iterate_def prim_list_iterate_def same_iterator_def)
next
  case False
  have len: "length (contents b) = b_count b" by (rule length_contents [OF assms(1)])
  have eq: "prim_list_iterate NULL_VAL b arg = (case ref_validateInt arg ''Iterator'' of Inl m \<Rightarrow> Inl m
    | Inr index \<Rightarrow> Inr (if dlt index (double_of_int 0) \<or> dle (double_of_int (int (b_count b) - 1)) index then None
          else Some (dadd index (double_of_int 1))))"
    using False by (simp add: prim_list_iterate_def split: sum.split)
  show ?thesis
    unfolding eq list_Iterate_def if_not_P [OF False]
  proof (cases "checkInt ''Iterator'' arg")
    case (Inl e)
    then show "agrees (same_iterator h) (rbind (checkInt ''Iterator'' arg) (\<lambda>i. if i < 0 then Inr (encode_bool h False)
        else rbind (int32 (i + 1)) (\<lambda>i. if i \<ge> items_size (contents b) then Inr (encode_bool h False)
          else encode_number (double_of_int i))))
      (case ref_validateInt arg ''Iterator'' of Inl m \<Rightarrow> Inl m | Inr index \<Rightarrow>
        Inr (if dlt index (double_of_int 0) \<or> dle (double_of_int (int (b_count b) - 1)) index then None
          else Some (dadd index (double_of_int 1))))"
      using ref_validateInt_eq [OF assms(3), of "''Iterator''"]
      by (auto simp: agrees_def split: sum.splits fault.splits)
  next
    case (Inr i)
    then have vi: "int_double arg i" and q: "ref_validateInt arg ''Iterator'' = Inr arg"
      using ref_validateInt_eq [OF assms(3), of "''Iterator''"]
      by (auto simp: agrees_def split: sum.splits)
    have "i \<noteq> 2 ^ 31 - 1"
      using assms(4) int_double_compare(1) [OF vi int_double_of_int [of "2 ^ 31 - 1"]] by auto
    then have b: "- (2 ^ 31) \<le> i" "i < 2 ^ 31 - 1" using checkInt_bound [OF Inr] by auto
    have z: "int_double (double_of_int 0) 0" "int_double (double_of_int 1) 1"
      "int_double (double_of_int (int (b_count b) - 1)) (int (b_count b) - 1)"
      using assms(2) by (auto intro!: int_double_of_int)
    have c: "dlt arg (double_of_int 0) \<longleftrightarrow> i < 0"
      "dle (double_of_int (int (b_count b) - 1)) arg \<longleftrightarrow> int (b_count b) - 1 \<le> i"
      using int_double_compare [OF vi z(1)] int_double_compare [OF z(3) vi] by simp_all
    have plus: "dadd arg (double_of_int 1) = double_of_int (i + 1)" if "0 \<le> i"
      using int_double_dadd_eq [OF vi z(2)] that by simp
    have "\<bar>i + 1\<bar> \<le> 2 ^ 53" using b by (auto simp: abs_le_iff)
    then have en: "encode_number (double_of_int (i + 1)) = Inr (double_of_int (i + 1))"
      by (intro encode_number_not_nan double_of_int_fields)
    have i32: "int32 (i + 1) = Inr (i + 1)" using b by simp
    have sz: "items_size (contents b) = int (b_count b)" using assms(2) by (simp add: len)
    show "agrees (same_iterator h) (rbind (checkInt ''Iterator'' arg) (\<lambda>i. if i < 0 then Inr (encode_bool h False)
        else rbind (int32 (i + 1)) (\<lambda>i. if i \<ge> items_size (contents b) then Inr (encode_bool h False)
          else encode_number (double_of_int i))))
      (case ref_validateInt arg ''Iterator'' of Inl m \<Rightarrow> Inl m | Inr index \<Rightarrow>
        Inr (if dlt index (double_of_int 0) \<or> dle (double_of_int (int (b_count b) - 1)) index then None
          else Some (dadd index (double_of_int 1))))"
      unfolding Inr q rbind_simps sum.case c i32 sz
      using plus en by (auto simp: same_iterator_def)
  qed
qed

text \<open>
  An iterator that does not fit \<open>int\<close>, and the largest one, which cannot be incremented: the
  runtime's result is undefined, the reference ends the iteration or reports an error.
\<close>

definition iterator_arg :: "val \<Rightarrow> bool" where
  "iterator_arg v \<longleftrightarrow> int_arg v \<and> \<not> deq v (double_of_int (2 ^ 31 - 1))"

lemma list_Iterate_beyond:
  assumes "b_count b < 2 ^ 30" "\<not> iterator_arg arg"
  shows "list_Iterate h items arg = Inl Undefined"
    "prim_list_iterate NULL_VAL b arg \<in> {Inr None, Inl ''Iterator must be an integer.''}"
proof -
  consider (beyond) "is_value_float arg" "\<not> int_range arg"
    | (last) "int_double arg (2 ^ 31 - 1)" "int_range arg"
    using assms(2) deq_int_double [of arg "2 ^ 31 - 1"] not_nan_is_float [of arg]
    by (auto simp: iterator_arg_def int_arg_def deq_def)
  note cases = this
  have v: "is_value_float arg"
    using cases not_nan_is_float [OF int_double_facts(2)] by cases auto
  then have n: "arg \<noteq> NULL_VAL" by (auto simp: is_value_float_iff)
  show "list_Iterate h items arg = Inl Undefined"
    using cases
  proof cases
    case beyond
    then show ?thesis using n by (simp add: list_Iterate_def checkInt_eq)
  next
    case last
    then have "checkInt ''Iterator'' arg = Inr (2 ^ 31 - 1)"
      using v int_double_facts(5,6) [OF last(1)] by (simp add: checkInt_eq)
    then show ?thesis using n by (simp add: list_Iterate_def int32_def)
  qed
  have "dlt arg (double_of_int 0) \<or> dle (double_of_int (int (b_count b) - 1)) arg" if "deq (dtrunc arg) arg"
    using cases
  proof cases
    case beyond
    with beyond_every_end [OF beyond(2) that] assms(1) show ?thesis by simp
  next
    case last
    have "int_double (double_of_int (int (b_count b) - 1)) (int (b_count b) - 1)"
      using assms(1) by (intro int_double_of_int) simp
    from int_double_compare(3) [OF this last(1)] assms(1) show ?thesis by simp
  qed
  then show "prim_list_iterate NULL_VAL b arg \<in> {Inr None, Inl ''Iterator must be an integer.''}"
    using v n by (auto simp: prim_list_iterate_def ref_validateInt_def ref_validateNum_def ref_validateIntValue_def
        get_number_value_def)
qed

text \<open>
  C11: The operations that change a list do what the reference interpreter's primitives do on its
  growable buffer: inserting, removing by index and assigning through a subscript give the same
  result and leave the same elements, or fail with the same message.  This holds for every list of
  fewer than 2^30 elements and every argument value that is no number or a number whose integer
  part fits int (int_arg); for every other number, NaN and the infinities included, the runtime's
  conversion of the argument is undefined where the reference reports an error.
\<close>

theorem list_updates_agree:
  assumes "buffer_ok b" "b_count b < 2 ^ 30"
  shows "agrees_if (int_arg arg) same_update
      (rbind (checkInt ''Index'' arg) (\<lambda>i. list_Insert (contents b) i x)) (prim_list_insert junk null b arg x) \<and>
    agrees_if (int_arg arg) same_update
      (rbind (checkInt ''Index'' arg) (\<lambda>i. list_RemoveAt (contents b) i)) (prim_list_removeAt junk b arg) \<and>
    agrees_if (int_arg arg) same_update
      (rbind (checkInt ''Subscript'' arg) (\<lambda>i. list_OperatorSubscriptSet (contents b) i x))
      (prim_list_subscriptSetter b arg x)"
  using list_Insert_agrees [OF assms] list_RemoveAt_agrees [OF assms]
    list_OperatorSubscriptSet_agrees [OF assms] by blast

lemma int_range_of_int:
  assumes "int32_value i"
  shows "int_range (double_of_int i)"
proof -
  have i: "\<bar>i\<bar> \<le> 2 ^ 53" using assms by (auto simp: abs_le_iff)
  then have "dfloor_int (double_of_int i) = i"
    using dfloor_int_integral [OF dintegral_of_int [OF i]] dtrunc_of_int [OF i] by simp
  then show ?thesis using assms double_of_int_fields(2) [OF i] by (simp add: int_range_def)
qed

lemma float_of_int: "\<bar>i\<bar> \<le> 2 ^ 53 \<Longrightarrow> is_value_float (double_of_int i)"
  by (intro not_nan_is_float double_of_int_fields)

theorem list_updates_agree_witness:
  "agrees same_update (rbind (checkInt ''Index'' (double_of_int (- 1))) (\<lambda>i. list_RemoveAt [5, 7, 9] i))
      (prim_list_removeAt 0 \<lparr>b_data = [5, 7, 9, 0], b_count = 3\<rparr> (double_of_int (- 1))) \<and>
   agrees same_update (rbind (checkInt ''Index'' (double_of_int (- 1))) (\<lambda>i. list_Insert [5, 7, 9] i 11))
      (prim_list_insert 0 NULL_VAL \<lparr>b_data = [5, 7, 9, 0], b_count = 3\<rparr> (double_of_int (- 1)) 11) \<and>
   list_RemoveAt [5, 7, 9] (- 1) = Inr (9, [5, 7]) \<and>
   list_Insert [5, 7, 9] (- 1) 11 = Inr (11, [5, 7, 9, 11])"
proof -
  let ?b = "\<lparr>b_data = [5, 7, 9, 0], b_count = 3\<rparr> :: val buffer"
  have "buffer_ok ?b" "b_count ?b < 2 ^ 30" "int_arg (double_of_int (- 1))"
    by (simp_all add: buffer_ok_def int_arg_def int_range_of_int)
  moreover have "contents ?b = [5, 7, 9]" by (simp add: contents_def)
  moreover have "list_RemoveAt [5, 7, 9] (- 1) = Inr (9, [5, 7])"
    "list_Insert [5, 7, 9] (- 1) 11 = Inr (11, [5, 7, 9, 11])"
    by (simp_all add: list_RemoveAt_def list_Insert_def ValidateIndex_def remove_at_def insert_at_def Let_def)
  ultimately show ?thesis
    using list_updates_agree [of ?b "double_of_int (- 1)" 11 0 NULL_VAL] by simp
qed

definition demo_heap :: heap where
  "demo_heap = \<lparr>objs = (\<lambda>_. None), cells = (\<lambda>_. 0), core = (\<lambda>_. 8), true_ptr = 16, false_ptr = 24\<rparr>"

text \<open>
  C12: Reading a list by a number and iterating over it agree with the reference interpreter: the
  subscript gives the same element or the same message, and an iteration visits the same
  positions, ending with false at the same point.  This holds for every list of fewer than 2^30
  elements, for every number whose truncation fits int as a subscript, and for every iterator value
  but the numbers whose integer part does not fit int and 2^31 - 1, which the runtime cannot
  increment.  In the excluded cases the runtime's result is undefined, where the reference reports
  an error or ends the iteration.
\<close>

theorem list_reads_agree:
  assumes "buffer_ok b" "b_count b < 2 ^ 30"
  shows "(if iterator_arg arg
      then agrees (same_iterator h) (list_Iterate h (contents b) arg) (prim_list_iterate NULL_VAL b arg)
      else list_Iterate h (contents b) arg = Inl Undefined \<and>
        prim_list_iterate NULL_VAL b arg \<in> {Inr None, Inl ''Iterator must be an integer.''}) \<and>
    (is_value_float arg \<longrightarrow>
      agrees_if (trunc_range arg) (\<lambda>x y. x = Element y) (list_OperatorSubscript h (contents b) arg)
        (prim_list_subscript_num b arg))"
  using list_Iterate_agrees [OF assms] list_Iterate_beyond [OF assms(2)] list_OperatorSubscript_agrees [OF assms]
  by (simp add: iterator_arg_def)

theorem list_reads_agree_witness:
  "agrees (same_iterator demo_heap) (list_Iterate demo_heap [5, 7] (double_of_int 1))
      (prim_list_iterate NULL_VAL \<lparr>b_data = [5, 7], b_count = 2\<rparr> (double_of_int 1)) \<and>
   agrees (\<lambda>x y. x = Element y) (list_OperatorSubscript demo_heap [5, 7] (double_of_int 1))
      (prim_list_subscript_num \<lparr>b_data = [5, 7], b_count = 2\<rparr> (double_of_int 1))"
proof -
  let ?b = "\<lparr>b_data = [5, 7], b_count = 2\<rparr> :: val buffer"
  have r: "int_range (double_of_int 1)" by (simp add: int_range_of_int)
  have "\<not> deq (double_of_int 1) (double_of_int (2 ^ 31 - 1))" by (subst dcompare_of_int) simp_all
  then have "buffer_ok ?b" "b_count ?b < 2 ^ 30" "iterator_arg (double_of_int 1)"
    "trunc_range (double_of_int 1)" "is_value_float (double_of_int 1)"
    using r int_range_trunc_range [OF r] by (simp_all add: buffer_ok_def iterator_arg_def int_arg_def float_of_int)
  moreover have "contents ?b = [5, 7]" by (simp add: contents_def)
  ultimately show ?thesis
    using list_reads_agree [of ?b "double_of_int 1" demo_heap] by simp
qed

end
