(* ===== verification/Utf8.thy ===== *)
theory Utf8
  imports List_Proofs
begin

text \<open>
  UTF-8 in the runtime's strings (rtsrc/ObjString.cpp) and in the reference interpreter
  (lib/wren-main/src/vm/wren_utils.c).  A string is the list of its bytes; code points are \<open>int\<close>s.
\<close>

type_synonym bytes = "u8 list"

section \<open>The runtime\<close>

text \<open>\<open>push_back\<close> converts the \<open>int\<close> it is given to a byte.\<close>

abbreviation byte_of :: "int \<Rightarrow> u8" where
  "byte_of \<equiv> word_of_int"

definition AppendCodepoint :: "bytes \<Rightarrow> int \<Rightarrow> bytes res" where
  "AppendCodepoint m_value codepoint =
     (if codepoint < 0 then Inl (WrenAbort ''Code point cannot be negative.'')
      else if codepoint < 0x80 then Inr (m_value @ [byte_of codepoint])
      else if codepoint < 0x800 then
        Inr (m_value @ [byte_of (0xC0 OR drop_bit 6 codepoint), byte_of (0x80 OR (codepoint AND 0x3F))])
      else if codepoint < 0x10000 then
        Inr (m_value @ [byte_of (0xE0 OR drop_bit 12 codepoint),
                        byte_of (0x80 OR (drop_bit 6 codepoint AND 0x3F)),
                        byte_of (0x80 OR (codepoint AND 0x3F))])
      else if codepoint < 0x110000 then
        Inr (m_value @ [byte_of (0xF0 OR drop_bit 18 codepoint),
                        byte_of (0x80 OR (drop_bit 12 codepoint AND 0x3F)),
                        byte_of (0x80 OR (drop_bit 6 codepoint AND 0x3F)),
                        byte_of (0x80 OR (codepoint AND 0x3F))])
      else Inl (WrenAbort ''Code point cannot be greater than 0x10ffff.''))"

definition FromCodePoint :: "int \<Rightarrow> bytes res" where
  "FromCodePoint codepoint = AppendCodepoint [] codepoint"

definition FromByte :: "int \<Rightarrow> bytes res" where
  "FromByte b =
     (if b < 0 then Inl (WrenAbort ''Byte cannot be negative.'')
      else if b > 0xFF then Inl (WrenAbort ''Byte cannot be greater than 0xff.'')
      else Inr [byte_of b])"

definition utf8_length :: "u8 \<Rightarrow> nat" where
  "utf8_length c =
     (if c AND 0x80 = 0 then 1
      else if c AND 0xE0 = 0xC0 then 2
      else if c AND 0xF0 = 0xE0 then 3
      else if c AND 0xF8 = 0xF0 then 4
      else 1)"

definition GetUTF8Length :: "bytes \<Rightarrow> int \<Rightarrow> int" where
  "GetUTF8Length m_value index = int (utf8_length (m_value ! nat index))"

definition str_ValidateIndex :: "bytes \<Rightarrow> int \<Rightarrow> string \<Rightarrow> bool \<Rightarrow> unit res" where
  "str_ValidateIndex m_value index argName exclusive =
     rbind (if exclusive then int32 (items_size m_value + 1) else Inr (items_size m_value)) (\<lambda>upperLimit.
       guard (\<not> (index < 0 \<or> index \<ge> upperLimit)) (WrenAbort (argName @ '' out of bounds.'')))"

definition PrepareIndex :: "bytes \<Rightarrow> int \<Rightarrow> string \<Rightarrow> bool \<Rightarrow> int res" where
  "PrepareIndex m_value index argName exclusive =
     (let index = (if index < 0 then to_int (index + int (length m_value)) else index) in
      rbind (str_ValidateIndex m_value index argName exclusive) (\<lambda>_. Inr index))"

text \<open>The loop over the continuation bytes; \<open>-1\<close> when one of them is not a continuation byte.\<close>

primrec codepoint_loop :: "bytes \<Rightarrow> int \<Rightarrow> int" where
  "codepoint_loop [] codepoint = codepoint"
| "codepoint_loop (b # bs) codepoint =
     (if b AND 0xC0 \<noteq> 0x80 then - 1
      else codepoint_loop bs (push_bit 6 codepoint OR uint (b AND 0x3F)))"

definition codepoint_at :: "bytes \<Rightarrow> int \<Rightarrow> int" where
  "codepoint_at m_value index =
     (let firstByte = m_value ! nat index in
      if firstByte AND 0x80 = 0 then uint firstByte
      else if firstByte AND 0xC0 = 0x80 then - 1
      else
        let len = GetUTF8Length m_value index in
        if index + len > int (length m_value) then - 1
        else
          let validInFirstByte = nat (8 - (len + 1));
              codepoint = uint firstByte AND (push_bit validInFirstByte 1 - 1)
          in codepoint_loop (seg (nat index + 1) (nat (index + len)) m_value) codepoint)"

definition CodePointAt :: "bytes \<Rightarrow> int \<Rightarrow> int res" where
  "CodePointAt m_value index =
     rbind (PrepareIndex m_value index ''Index'' False) (\<lambda>index. Inr (codepoint_at m_value index))"

definition ByteAt :: "bytes \<Rightarrow> int \<Rightarrow> int res" where
  "ByteAt m_value index =
     rbind (PrepareIndex m_value index ''Index'' False) (\<lambda>index. Inr (uint (m_value ! nat index)))"

section \<open>The reference interpreter\<close>

definition wrenUtf8EncodeNumBytes :: "int \<Rightarrow> nat" where
  "wrenUtf8EncodeNumBytes v =
     (if v \<le> 0x7F then 1 else if v \<le> 0x7FF then 2 else if v \<le> 0xFFFF then 3
      else if v \<le> 0x10FFFF then 4 else 0)"

text \<open>The bytes written; \<open>UNREACHABLE\<close> for a value beyond Unicode.\<close>

definition wrenUtf8Encode :: "int \<Rightarrow> bytes res" where
  "wrenUtf8Encode v =
     (if v \<le> 0x7F then Inr [byte_of (v AND 0x7F)]
      else if v \<le> 0x7FF then
        Inr [byte_of (0xC0 OR drop_bit 6 (v AND 0x7C0)), byte_of (0x80 OR (v AND 0x3F))]
      else if v \<le> 0xFFFF then
        Inr [byte_of (0xE0 OR drop_bit 12 (v AND 0xF000)), byte_of (0x80 OR drop_bit 6 (v AND 0xFC0)),
             byte_of (0x80 OR (v AND 0x3F))]
      else if v \<le> 0x10FFFF then
        Inr [byte_of (0xF0 OR drop_bit 18 (v AND 0x1C0000)), byte_of (0x80 OR drop_bit 12 (v AND 0x3F000)),
             byte_of (0x80 OR drop_bit 6 (v AND 0xFC0)), byte_of (0x80 OR (v AND 0x3F))]
      else Inl Undefined)"

primrec utf8_decode_loop :: "nat \<Rightarrow> bytes \<Rightarrow> int \<Rightarrow> int" where
  "utf8_decode_loop 0 bs v = v"
| "utf8_decode_loop (Suc n) bs v =
     (if hd bs AND 0xC0 \<noteq> 0x80 then - 1
      else utf8_decode_loop n (tl bs) (push_bit 6 v OR uint (hd bs AND 0x3F)))"

text \<open>The bytes from the decoded position to the end of the string, of which there is at least one.\<close>

definition wrenUtf8Decode :: "bytes \<Rightarrow> int" where
  "wrenUtf8Decode bs =
     (let b = hd bs in
      if b \<le> 0x7F then uint b
      else
        let start = (if b AND 0xE0 = 0xC0 then Some (uint (b AND 0x1F), 1)
                     else if b AND 0xF0 = 0xE0 then Some (uint (b AND 0x0F), 2)
                     else if b AND 0xF8 = 0xF0 then Some (uint (b AND 0x07), 3)
                     else None)
        in case start of
             None \<Rightarrow> - 1
           | Some (v, remainingBytes) \<Rightarrow>
               if remainingBytes > length bs - 1 then - 1
               else utf8_decode_loop remainingBytes (tl bs) v)"

definition wrenUtf8DecodeNumBytes :: "u8 \<Rightarrow> nat" where
  "wrenUtf8DecodeNumBytes b =
     (if b AND 0xC0 = 0x80 then 0
      else if b AND 0xF8 = 0xF0 then 4
      else if b AND 0xF0 = 0xE0 then 3
      else if b AND 0xE0 = 0xC0 then 2
      else 1)"

definition string_codePointAt_val :: "bytes \<Rightarrow> int \<Rightarrow> int" where
  "string_codePointAt_val bs index =
     (if bs ! nat index AND 0xC0 = 0x80 then - 1 else wrenUtf8Decode (drop (nat index) bs))"

definition prim_string_codePointAt :: "bytes \<Rightarrow> val \<Rightarrow> string + int" where
  "prim_string_codePointAt bs arg1 =
     (case ref_validateIndex arg1 (int (length bs)) ''Index'' of
        Inl m \<Rightarrow> Inl m
      | Inr index \<Rightarrow> Inr (string_codePointAt_val bs index))"

definition prim_string_byteAt :: "bytes \<Rightarrow> val \<Rightarrow> string + int" where
  "prim_string_byteAt bs arg1 =
     (case ref_validateIndex arg1 (int (length bs)) ''Index'' of
        Inl m \<Rightarrow> Inl m
      | Inr index \<Rightarrow> Inr (uint (bs ! nat index)))"

definition prim_string_fromCodePoint :: "val \<Rightarrow> string + bytes res" where
  "prim_string_fromCodePoint arg1 =
     (case ref_validateInt arg1 ''Code point'' of
        Inl m \<Rightarrow> Inl m
      | Inr d \<Rightarrow>
          (let codePoint = dtrunc_int d in
           if codePoint < 0 then Inl ''Code point cannot be negative.''
           else if codePoint > 0x10FFFF then Inl ''Code point cannot be greater than 0x10ffff.''
           else Inr (wrenUtf8Encode codePoint)))"

definition prim_string_fromByte :: "val \<Rightarrow> string + bytes" where
  "prim_string_fromByte arg1 =
     (case ref_validateInt arg1 ''Byte'' of
        Inl m \<Rightarrow> Inl m
      | Inr d \<Rightarrow>
          (let b = dtrunc_int d in
           if b < 0 then Inl ''Byte cannot be negative.''
           else if b > 0xFF then Inl ''Byte cannot be greater than 0xff.''
           else Inr [byte_of b]))"

section \<open>Bytes\<close>

text \<open>A property of every byte, by evaluation.\<close>

lemma byte_all: "(\<forall>n < 256. P (word_of_nat n :: u8)) \<Longrightarrow> P b"
proof -
  assume a: "\<forall>n < 256. P (word_of_nat n :: u8)"
  have "unat b < 256" using unsigned_less [of b] by simp
  with a have "P (word_of_nat (unat b))" by blast
  then show "P b" by simp
qed

lemma cont_byte:
  assumes "0 \<le> b" "b < 64"
  shows "byte_of (0x80 OR b) AND 0xC0 = 0x80" "uint (byte_of (0x80 OR b) AND 0x3F) = b"
proof -
  have "\<forall>b \<in> set [0..<64]. byte_of (0x80 OR int b) AND 0xC0 = 0x80 \<and>
      uint (byte_of (0x80 OR int b) AND 0x3F) = int b"
    by code_simp
  moreover have "b = int (nat b)" "nat b \<in> set [0..<64]" using assms by auto
  ultimately show "byte_of (0x80 OR b) AND 0xC0 = 0x80" "uint (byte_of (0x80 OR b) AND 0x3F) = b"
    by metis+
qed

lemma lead_byte1:
  assumes "0 \<le> a" "a < 128"
  shows "byte_of a AND 0x80 = 0" "byte_of a \<le> 0x7F" "uint (byte_of a) = a" "byte_of a AND 0xC0 \<noteq> 0x80"
    "utf8_length (byte_of a) = 1"
proof -
  have "\<forall>b \<in> set [0..<128]. byte_of (int b) AND 0x80 = 0 \<and> byte_of (int b) \<le> 0x7F \<and>
      uint (byte_of (int b)) = int b \<and> byte_of (int b) AND 0xC0 \<noteq> 0x80 \<and> utf8_length (byte_of (int b)) = 1"
    by code_simp
  moreover have "a = int (nat a)" "nat a \<in> set [0..<128]" using assms by auto
  ultimately show "byte_of a AND 0x80 = 0" "byte_of a \<le> 0x7F" "uint (byte_of a) = a"
    "byte_of a AND 0xC0 \<noteq> 0x80" "utf8_length (byte_of a) = 1"
    by metis+
qed

text \<open>What both decoders test of the first byte of a sequence of \<open>n\<close> bytes.\<close>

definition lead_ok :: "nat \<Rightarrow> int \<Rightarrow> u8 \<Rightarrow> bool" where
  "lead_ok n a b \<longleftrightarrow>
     b AND 0x80 \<noteq> 0 \<and> b AND 0xC0 \<noteq> 0x80 \<and> \<not> b \<le> 0x7F \<and> utf8_length b = n \<and>
     uint b AND (push_bit (nat (8 - (int n + 1))) 1 - 1) = a \<and>
     (b AND 0xE0 = 0xC0 \<longleftrightarrow> n = 2) \<and> (b AND 0xF0 = 0xE0 \<longleftrightarrow> n = 3) \<and> (b AND 0xF8 = 0xF0 \<longleftrightarrow> n = 4) \<and>
     uint (b AND (if n = 2 then 0x1F else if n = 3 then 0x0F else 0x07)) = a"

lemma lead_byte2:
  assumes "0 \<le> a" "a < 32"
  shows "lead_ok 2 a (byte_of (0xC0 OR a))"
proof -
  have "\<forall>b \<in> set [0..<32]. lead_ok 2 (int b) (byte_of (0xC0 OR int b))" by code_simp
  moreover have "a = int (nat a)" "nat a \<in> set [0..<32]" using assms by auto
  ultimately show ?thesis by metis
qed

lemma lead_byte3:
  assumes "0 \<le> a" "a < 16"
  shows "lead_ok 3 a (byte_of (0xE0 OR a))"
proof -
  have "\<forall>b \<in> set [0..<16]. lead_ok 3 (int b) (byte_of (0xE0 OR int b))" by code_simp
  moreover have "a = int (nat a)" "nat a \<in> set [0..<16]" using assms by auto
  ultimately show ?thesis by metis
qed

lemma lead_byte4:
  assumes "0 \<le> a" "a < 8"
  shows "lead_ok 4 a (byte_of (0xF0 OR a))"
proof -
  have "\<forall>b \<in> set [0..<8]. lead_ok 4 (int b) (byte_of (0xF0 OR int b))" by code_simp
  moreover have "a = int (nat a)" "nat a \<in> set [0..<8]" using assms by auto
  ultimately show ?thesis by metis
qed

lemma and_63: "x AND 0x3F = x mod 64" for x :: int
  using take_bit_eq_mask [of 6 x] by (simp add: mask_eq_exp_minus_1 take_bit_eq_mod)

lemma push6:
  fixes b c :: int
  assumes "0 \<le> b" "b < 64"
  shows "push_bit 6 c OR b = c * 64 + b"
proof -
  have b: "take_bit 6 b = b" using assms by (simp add: take_bit_eq_mod)
  have "\<not> bit b n" if "6 \<le> n" for n
    using that by (subst b [symmetric]) (simp add: bit_take_bit_iff)
  then have "push_bit 6 c + b = push_bit 6 c OR b"
    by (intro disjunctive_add) (auto simp: bit_push_bit_iff not_le)
  then show ?thesis by (simp add: push_bit_eq_mult)
qed

section \<open>Encoding and decoding\<close>

text \<open>A sequence both decoders accept: its length, the value of its first byte and the digits that follow.\<close>

definition continuation :: "int list \<Rightarrow> bytes" where
  "continuation ds = map (\<lambda>d. byte_of (0x80 OR d)) ds"

definition digits_value :: "int \<Rightarrow> int list \<Rightarrow> int" where
  "digits_value a ds = foldl (\<lambda>v d. v * 64 + d) a ds"

lemma codepoint_loop_continuation:
  "\<forall>d \<in> set ds. 0 \<le> d \<and> d < 64 \<Longrightarrow> codepoint_loop (continuation ds) a = digits_value a ds"
  by (induction ds arbitrary: a) (simp_all add: continuation_def digits_value_def cont_byte push6)

lemma utf8_decode_loop_continuation:
  "\<forall>d \<in> set ds. 0 \<le> d \<and> d < 64 \<Longrightarrow>
    utf8_decode_loop (length ds) (continuation ds @ post) a = digits_value a ds"
  by (induction ds arbitrary: a) (simp_all add: continuation_def digits_value_def cont_byte push6)

lemma decode_sequence:
  assumes "lead_ok (Suc (length ds)) a b" "\<forall>d \<in> set ds. 0 \<le> d \<and> d < 64" "1 \<le> length ds" "length ds \<le> 3"
  shows "codepoint_at (pre @ b # continuation ds @ post) (int (length pre)) = digits_value a ds"
    and "wrenUtf8Decode (b # continuation ds @ post) = digits_value a ds"
proof -
  let ?s = "pre @ b # continuation ds @ post"
  have n: "length (continuation ds) = length ds" by (simp add: continuation_def)
  have s: "seg (Suc (length pre)) (Suc (length pre) + length ds) ?s = continuation ds"
    by (simp add: seg_def n)
  have "GetUTF8Length ?s (int (length pre)) = int (Suc (length ds))"
    using assms(1) by (simp add: GetUTF8Length_def lead_ok_def)
  moreover have "nat (int (length pre) + int (Suc (length ds))) = Suc (length pre) + length ds" by simp
  ultimately show "codepoint_at ?s (int (length pre)) = digits_value a ds"
    using assms(1) codepoint_loop_continuation [OF assms(2)] s n
    by (simp add: codepoint_at_def Let_def lead_ok_def)
  have l: "length ds = 1 \<or> length ds = 2 \<or> length ds = 3" using assms(3,4) by auto
  show "wrenUtf8Decode (b # continuation ds @ post) = digits_value a ds"
    using l assms(1) utf8_decode_loop_continuation [OF assms(2), of post a] n
    by (elim disjE) (simp_all add: wrenUtf8Decode_def lead_ok_def numeral_2_eq_2 numeral_3_eq_3)
qed

lemma AppendCodepoint_bytes:
  assumes "0 \<le> cp" "cp < 0x110000"
  shows "AppendCodepoint s cp = Inr (s @
    (if cp < 0x80 then [byte_of cp]
     else if cp < 0x800 then byte_of (0xC0 OR cp div 64) # continuation [cp mod 64]
     else if cp < 0x10000 then byte_of (0xE0 OR cp div 4096) # continuation [cp div 64 mod 64, cp mod 64]
     else byte_of (0xF0 OR cp div 262144) # continuation [cp div 4096 mod 64, cp div 64 mod 64, cp mod 64]))"
  using assms by (simp add: AppendCodepoint_def continuation_def and_63 drop_bit_eq_div)

lemma and_low: "0 \<le> x \<Longrightarrow> x < 2 ^ n \<Longrightarrow> x AND (2 ^ n - 1) = x" for x :: int
  using take_bit_eq_mask [of n x] by (simp add: mask_eq_exp_minus_1 take_bit_eq_mod)

lemma wrenUtf8Encode_bytes:
  assumes "0 \<le> cp" "cp < 0x110000"
  shows "wrenUtf8Encode cp = AppendCodepoint [] cp"
proof -
  have "cp < 0x80 \<Longrightarrow> cp AND 0x7F = cp" using and_low [of cp 7] assms by simp
  moreover have "drop_bit 6 (cp AND 0x7C0) = drop_bit 6 cp AND 0x1F" by (simp add: drop_bit_and drop_bit_eq_div [of 6 "0x7C0 :: int"])
  moreover have "cp < 0x800 \<Longrightarrow> drop_bit 6 cp AND 0x1F = drop_bit 6 cp"
    using and_low [of "drop_bit 6 cp" 5] assms by (simp add: drop_bit_eq_div)
  moreover have "drop_bit 12 (cp AND 0xF000) = drop_bit 12 cp AND 0xF" by (simp add: drop_bit_and drop_bit_eq_div [of 12 "0xF000 :: int"])
  moreover have "cp < 0x10000 \<Longrightarrow> drop_bit 12 cp AND 0xF = drop_bit 12 cp"
    using and_low [of "drop_bit 12 cp" 4] assms by (simp add: drop_bit_eq_div)
  moreover have "drop_bit 18 (cp AND 0x1C0000) = drop_bit 18 cp AND 0x7" by (simp add: drop_bit_and drop_bit_eq_div [of 18 "0x1C0000 :: int"])
  moreover have "drop_bit 18 cp AND 0x7 = drop_bit 18 cp"
    using and_low [of "drop_bit 18 cp" 3] assms by (simp add: drop_bit_eq_div)
  moreover have "drop_bit 12 (cp AND 0x3F000) = drop_bit 12 cp AND 0x3F" by (simp add: drop_bit_and drop_bit_eq_div [of 12 "0x3F000 :: int"])
  moreover have "drop_bit 6 (cp AND 0xFC0) = drop_bit 6 cp AND 0x3F" by (simp add: drop_bit_and drop_bit_eq_div [of 6 "0xFC0 :: int"])
  ultimately show ?thesis
    using assms unfolding wrenUtf8Encode_def AppendCodepoint_def by auto
qed

lemma digits3: "cp div 4096 * 64 + cp div 64 mod 64 = cp div 64" for cp :: int
  using div_mult_mod_eq [of "cp div 64" 64] zdiv_zmult2_eq [of 64 cp 64] by simp

lemma digits4: "cp div 262144 * 64 + cp div 4096 mod 64 = cp div 4096" for cp :: int
  using div_mult_mod_eq [of "cp div 4096" 64] zdiv_zmult2_eq [of 64 cp 4096] by simp

lemma codepoint_roundtrip:
  assumes "0 \<le> cp" "cp < 0x110000"
  shows "\<exists>enc. enc \<noteq> [] \<and> (\<forall>s. AppendCodepoint s cp = Inr (s @ enc)) \<and> wrenUtf8Encode cp = Inr enc \<and>
    length enc = wrenUtf8EncodeNumBytes cp \<and> utf8_length (hd enc) = length enc \<and>
    hd enc AND 0xC0 \<noteq> 0x80 \<and> (\<forall>b \<in> set (tl enc). b AND 0xC0 = 0x80) \<and>
    (\<forall>pre post. codepoint_at (pre @ enc @ post) (int (length pre)) = cp \<and> wrenUtf8Decode (enc @ post) = cp)"
proof -
  have w: "wrenUtf8Encode cp = AppendCodepoint [] cp" by (rule wrenUtf8Encode_bytes [OF assms])
  have cont: "\<forall>b \<in> set (continuation ds). b AND 0xC0 = 0x80" if "\<forall>d \<in> set ds. 0 \<le> d \<and> d < 64" for ds
    using that by (auto simp: continuation_def cont_byte)
  have multi: ?thesis
    if app: "\<And>s. AppendCodepoint s cp = Inr (s @ b # continuation ds)"
      and n: "wrenUtf8EncodeNumBytes cp = Suc (length ds)" "1 \<le> length ds" "length ds \<le> 3"
      and b4: "lead_ok n a b" "n = Suc (length ds)"
      and ds: "\<forall>d \<in> set ds. 0 \<le> d \<and> d < 64" and v: "digits_value a ds = cp" for a b ds n
  proof (rule exI [of _ "b # continuation ds"])
    have b: "lead_ok (Suc (length ds)) a b" using b4 by simp
    have "length (continuation ds) = length ds" by (simp add: continuation_def)
    then show "b # continuation ds \<noteq> [] \<and> (\<forall>s. AppendCodepoint s cp = Inr (s @ b # continuation ds)) \<and>
      wrenUtf8Encode cp = Inr (b # continuation ds) \<and>
      length (b # continuation ds) = wrenUtf8EncodeNumBytes cp \<and>
      utf8_length (hd (b # continuation ds)) = length (b # continuation ds) \<and>
      hd (b # continuation ds) AND 0xC0 \<noteq> 0x80 \<and> (\<forall>b \<in> set (tl (b # continuation ds)). b AND 0xC0 = 0x80) \<and>
      (\<forall>pre post. codepoint_at (pre @ (b # continuation ds) @ post) (int (length pre)) = cp \<and>
        wrenUtf8Decode ((b # continuation ds) @ post) = cp)"
      using app w n(1) b cont [OF ds] decode_sequence [OF b ds n(2,3)] v
      by (simp add: lead_ok_def)
  qed
  note app = AppendCodepoint_bytes [OF assms]
  consider "cp < 0x80" | "0x80 \<le> cp" "cp < 0x800" | "0x800 \<le> cp" "cp < 0x10000" | "0x10000 \<le> cp" by linarith
  then show ?thesis
  proof cases
    case 1
    show ?thesis
    proof (rule exI [of _ "[byte_of cp]"])
      show "[byte_of cp] \<noteq> [] \<and> (\<forall>s. AppendCodepoint s cp = Inr (s @ [byte_of cp])) \<and>
        wrenUtf8Encode cp = Inr [byte_of cp] \<and> length [byte_of cp] = wrenUtf8EncodeNumBytes cp \<and>
        utf8_length (hd [byte_of cp]) = length [byte_of cp] \<and> hd [byte_of cp] AND 0xC0 \<noteq> 0x80 \<and>
        (\<forall>b \<in> set (tl [byte_of cp]). b AND 0xC0 = 0x80) \<and>
        (\<forall>pre post. codepoint_at (pre @ [byte_of cp] @ post) (int (length pre)) = cp \<and>
          wrenUtf8Decode ([byte_of cp] @ post) = cp)"
        using 1 assms(1) app w lead_byte1 [of cp]
        by (simp add: codepoint_at_def wrenUtf8Decode_def wrenUtf8EncodeNumBytes_def Let_def)
    qed
  next
    case 2
    then show ?thesis
      using lead_byte2 [of "cp div 64"] assms(1)
      by (intro multi [of "byte_of (0xC0 OR cp div 64)" "[cp mod 64]" 2 "cp div 64"])
        (simp_all add: app wrenUtf8EncodeNumBytes_def digits_value_def)
  next
    case 3
    have "cp div 4096 < 16" using 3 by linarith
    moreover have "(cp div 4096 * 64 + cp div 64 mod 64) * 64 + cp mod 64 = cp"
      unfolding digits3 by (rule div_mult_mod_eq)
    ultimately show ?thesis
      using 3 lead_byte3 [of "cp div 4096"] assms(1)
      by (intro multi [of "byte_of (0xE0 OR cp div 4096)" "[cp div 64 mod 64, cp mod 64]" 3 "cp div 4096"])
        (simp_all add: app wrenUtf8EncodeNumBytes_def digits_value_def)
  next
    case 4
    define a ds where "a = cp div 262144" and "ds = [cp div 4096 mod 64, cp div 64 mod 64, cp mod 64]"
    show ?thesis
    proof (rule multi [of "byte_of (0xF0 OR a)" ds 4 a])
      show "AppendCodepoint s cp = Inr (s @ byte_of (0xF0 OR a) # continuation ds)" for s
        using 4 unfolding app a_def ds_def by simp
      show "wrenUtf8EncodeNumBytes cp = Suc (length ds)"
        using 4 assms by (simp add: wrenUtf8EncodeNumBytes_def ds_def)
      show "1 \<le> length ds" "length ds \<le> 3" "4 = Suc (length ds)" by (simp_all add: ds_def)
      have "0 \<le> a" "a < 8" using assms by (simp_all add: a_def div_less_iff_less_mult)
      then show "lead_ok 4 a (byte_of (0xF0 OR a))" by (rule lead_byte4)
      show "\<forall>d \<in> set ds. 0 \<le> d \<and> d < 64" by (simp add: ds_def)
      have "digits_value a ds = ((a * 64 + cp div 4096 mod 64) * 64 + cp div 64 mod 64) * 64 + cp mod 64"
        by (simp add: digits_value_def ds_def)
      also have "\<dots> = cp" unfolding a_def digits4 digits3 by (rule div_mult_mod_eq)
      finally show "digits_value a ds = cp" .
    qed
  qed
qed

end
