(* ===== verification/Utf8_Proofs.thy ===== *)
theory Utf8_Proofs
  imports Utf8
begin

text \<open>
  Properties of the UTF-8 code: the round trip of a code point, and where the runtime's decoder
  agrees with the reference interpreter's.
\<close>

lemma byte_classes:
  "(b AND 0x80 = 0 \<and> b \<le> 0x7F \<and> b AND 0xC0 \<noteq> 0x80) \<or> (b AND 0xC0 = 0x80 \<and> b AND 0x80 \<noteq> 0) \<or>
   lead_ok 2 (uint (b AND 0x1F)) b \<or> lead_ok 3 (uint (b AND 0x0F)) b \<or> lead_ok 4 (uint (b AND 0x07)) b \<or>
   0xF8 \<le> b"
proof -
  have "\<forall>n \<in> set [0..<256]. (let b = word_of_nat n :: u8 in
    (b AND 0x80 = 0 \<and> b \<le> 0x7F \<and> b AND 0xC0 \<noteq> 0x80) \<or> (b AND 0xC0 = 0x80 \<and> b AND 0x80 \<noteq> 0) \<or>
    lead_ok 2 (uint (b AND 0x1F)) b \<or> lead_ok 3 (uint (b AND 0x0F)) b \<or> lead_ok 4 (uint (b AND 0x07)) b \<or>
    0xF8 \<le> b)"
    by code_simp
  then have "\<forall>n < 256. (\<lambda>b :: u8. (b AND 0x80 = 0 \<and> b \<le> 0x7F \<and> b AND 0xC0 \<noteq> 0x80) \<or>
    (b AND 0xC0 = 0x80 \<and> b AND 0x80 \<noteq> 0) \<or>
    lead_ok 2 (uint (b AND 0x1F)) b \<or> lead_ok 3 (uint (b AND 0x0F)) b \<or> lead_ok 4 (uint (b AND 0x07)) b \<or>
    0xF8 \<le> b) (word_of_nat n)"
    by (simp only: Let_def set_upt atLeastLessThan_iff Ball_def le0 simp_thms)
  then show ?thesis by (rule byte_all)
qed

lemma decode_loops:
  "codepoint_loop bs v = utf8_decode_loop (length bs) (bs @ post) v"
  by (induction bs arbitrary: v) simp_all

text \<open>Both decoders agree on every sequence whose first byte can start one in UTF-8.\<close>

lemma codepoint_at_eq:
  assumes "i < length s" "\<not> 0xF8 \<le> s ! i"
  shows "codepoint_at s (int i) = string_codePointAt_val s (int i)"
proof -
  define b where "b = s ! i"
  have d: "drop i s = b # drop (Suc i) s" using assms(1) by (simp add: b_def Cons_nth_drop_Suc)
  have multi: ?thesis if l: "lead_ok (Suc k) a b" "1 \<le> k" "k \<le> 3" for k a
  proof -
    have len: "GetUTF8Length s (int i) = int (Suc k)"
      using l(1) by (simp add: GetUTF8Length_def lead_ok_def b_def)
    have n: "nat (int i + int (Suc k)) = Suc i + k" by simp
    have "utf8_decode_loop k (drop (Suc i) s) a = codepoint_loop (seg (Suc i) (Suc i + k) s) a"
      if "i + Suc k \<le> length s"
    proof -
      have "drop (Suc i) s = seg (Suc i) (Suc i + k) s @ drop (Suc i + k) s"
        using append_take_drop_id [of k "drop (Suc i) s"] by (simp add: seg_def add.commute)
      moreover have "length (seg (Suc i) (Suc i + k) s) = k" using that by simp
      ultimately show ?thesis by (metis decode_loops)
    qed
    moreover have "wrenUtf8Decode (b # drop (Suc i) s) =
        (if k > length (drop (Suc i) s) then - 1 else utf8_decode_loop k (drop (Suc i) s) a)"
    proof -
      consider "k = 1" | "k = 2" | "k = 3" using l(2,3) by linarith
      then show ?thesis
        using l(1) by cases (simp_all add: wrenUtf8Decode_def lead_ok_def)
    qed
    ultimately show ?thesis
      using l(1) assms(1)
      unfolding codepoint_at_def string_codePointAt_val_def nat_int d b_def [symmetric] Let_def len n
      by (auto simp: lead_ok_def)
  qed
  consider "b AND 0x80 = 0" "b \<le> 0x7F" "b AND 0xC0 \<noteq> 0x80" | "b AND 0xC0 = 0x80" "b AND 0x80 \<noteq> 0"
    | "lead_ok 2 (uint (b AND 0x1F)) b" | "lead_ok 3 (uint (b AND 0x0F)) b" | "lead_ok 4 (uint (b AND 0x07)) b"
    using byte_classes [of b] assms(2) by (auto simp: b_def)
  then show ?thesis
  proof cases
    case 1
    then show ?thesis
      using d by (simp add: codepoint_at_def string_codePointAt_val_def wrenUtf8Decode_def b_def [symmetric])
  next
    case 2
    then show ?thesis
      by (simp add: codepoint_at_def string_codePointAt_val_def b_def [symmetric])
  next
    case 3
    then show ?thesis by (intro multi [of 1]) (simp_all add: numeral_2_eq_2)
  next
    case 4
    then show ?thesis by (intro multi [of 2]) (simp_all add: numeral_3_eq_3)
  next
    case 5
    have "Suc 3 = (4::nat)" by simp
    with 5 have "lead_ok (Suc 3) (uint (b AND 0x07)) b" by (simp only:)
    then show ?thesis by (rule multi) simp_all
  qed
qed

lemma PrepareIndex_eq:
  assumes "int (length s) < 2 ^ 31" "int32_value i"
  shows "PrepareIndex s i n False =
    (let j = (if i < 0 then int (length s) + i else i) in
     if 0 \<le> j \<and> j < int (length s) then Inr j else Inl (WrenAbort (n @ '' out of bounds.'')))"
  using from_end(2) [OF assms] assms(1)
  by (auto simp: PrepareIndex_def str_ValidateIndex_def Let_def)

text \<open>
  C13: Encoding and decoding of code points is a round trip.  Appending a Unicode code point to a
  string adds between one and four bytes, the ones the reference interpreter's encoder writes, and
  reading the code point at that position gives it back whatever follows it, in the runtime and in
  the reference interpreter.
\<close>

theorem utf8_roundtrip:
  assumes "0 \<le> cp" "cp < 0x110000" "int (length pre) < 2 ^ 31 - 2"
  shows "\<exists>enc. AppendCodepoint pre cp = Inr (pre @ enc) \<and> wrenUtf8Encode cp = Inr enc \<and>
    length enc = wrenUtf8EncodeNumBytes cp \<and> wrenUtf8Decode (enc @ post) = cp \<and>
    (int (length (pre @ enc @ post)) < 2 ^ 31 \<longrightarrow> CodePointAt (pre @ enc @ post) (int (length pre)) = Inr cp)"
proof -
  obtain enc where e: "enc \<noteq> []" "AppendCodepoint pre cp = Inr (pre @ enc)" "wrenUtf8Encode cp = Inr enc"
    "length enc = wrenUtf8EncodeNumBytes cp" "wrenUtf8Decode (enc @ post) = cp"
    "codepoint_at (pre @ enc @ post) (int (length pre)) = cp"
    using codepoint_roundtrip [OF assms(1,2)] by blast
  have "CodePointAt (pre @ enc @ post) (int (length pre)) = Inr cp"
    if "int (length (pre @ enc @ post)) < 2 ^ 31"
  proof -
    have pos: "0 < int (length enc) + int (length post)" using e(1) by (cases enc) auto
    show ?thesis
      using PrepareIndex_eq [OF that, of "int (length pre)" "''Index''"] assms(3) e(6)
      by (simp add: CodePointAt_def pos)
  qed
  with e show ?thesis by blast
qed

theorem utf8_roundtrip_witness:
  "\<exists>enc. AppendCodepoint [0x61] 0x20AC = Inr ([0x61] @ enc) \<and> wrenUtf8Encode 0x20AC = Inr enc \<and>
    length enc = 3 \<and> wrenUtf8Decode (enc @ [0x62]) = 0x20AC \<and>
    (int (length ([0x61] @ enc @ [0x62])) < 2 ^ 31 \<longrightarrow>
      CodePointAt ([0x61] @ enc @ [0x62]) (int (length [0x61 :: u8])) = Inr 0x20AC)"
proof -
  have "wrenUtf8EncodeNumBytes 0x20AC = 3" by (simp add: wrenUtf8EncodeNumBytes_def)
  moreover have "(0::int) \<le> 0x20AC" "(0x20AC::int) < 0x110000" "int (length [0x61 :: u8]) < 2 ^ 31 - 2"
    by simp_all
  ultimately show ?thesis
    using utf8_roundtrip [of "0x20AC" "[0x61]" "[0x62]"] by metis
qed

text \<open>
  C14: Reading a code point or a byte of a string agrees with the reference interpreter, for every
  string of fewer than 2^31 bytes, well-formed or not, without the bytes from 0xF8, which never
  occur in UTF-8: the result and the messages are the same, including -1 inside a sequence, for a
  truncated one and for a wrong continuation byte.  The index argument is any value that is no
  number or a number whose integer part fits int (int_arg); for every other number, NaN and the
  infinities included, the runtime's conversion is undefined where the reference reports an error.
\<close>

theorem codePointAt_agrees:
  assumes "int (length s) < 2 ^ 31" "\<forall>b \<in> set s. b < 0xF8"
  shows "agrees_if (int_arg arg) (=) (rbind (checkInt ''Index'' arg) (CodePointAt s)) (prim_string_codePointAt s arg) \<and>
    agrees_if (int_arg arg) (=) (rbind (checkInt ''Index'' arg) (ByteAt s)) (prim_string_byteAt s arg)"
proof
  have val: "codepoint_at s j = string_codePointAt_val s j" if "0 \<le> j" "j < int (length s)" for j
  proof -
    have "s ! nat j \<in> set s" using that by simp
    then have "\<not> 0xF8 \<le> s ! nat j" using assms(2) by (auto simp: not_le)
    then show ?thesis using codepoint_at_eq [of "nat j" s] that by simp
  qed
  note idx = PrepareIndex_eq [OF assms(1)]
  show "agrees_if (int_arg arg) (=) (rbind (checkInt ''Index'' arg) (CodePointAt s)) (prim_string_codePointAt s arg)"
    unfolding prim_string_codePointAt_def using assms(1) val
    by (intro checked_index_total) (simp_all add: CodePointAt_def idx Let_def)
  show "agrees_if (int_arg arg) (=) (rbind (checkInt ''Index'' arg) (ByteAt s)) (prim_string_byteAt s arg)"
    unfolding prim_string_byteAt_def using assms(1)
    by (intro checked_index_total) (simp_all add: ByteAt_def idx Let_def)
qed

theorem codePointAt_agrees_witness:
  "agrees (=) (rbind (checkInt ''Index'' (double_of_int 1)) (CodePointAt [0xC3, 0xA9]))
      (prim_string_codePointAt [0xC3, 0xA9] (double_of_int 1)) \<and>
   codepoint_at [0xC3, 0xA9] 0 = 0xE9 \<and> codepoint_at [0xC3, 0xA9] 1 = - 1"
proof -
  have "int_arg (double_of_int 1)" by (simp add: int_arg_def int_range_of_int)
  moreover have "codepoint_at [0xC3, 0xA9] 0 = 0xE9 \<and> codepoint_at [0xC3, 0xA9] 1 = - 1" by code_simp
  ultimately show ?thesis
    using codePointAt_agrees [of "[0xC3, 0xA9]" "double_of_int 1"] by simp
qed

text \<open>
  A byte from 0xF8 is taken for a sequence of one byte, whose low six bits are returned as a code
  point, where the reference decoder reports an invalid sequence.
\<close>

lemma invalid_byte_decoded:
  "codepoint_at [0xFF] 0 = 0x3F" "string_codePointAt_val [0xFF] 0 = - 1"
  by code_simp+

end
