(* ===== verification/String_Object.thy ===== *)
theory String_Object
  imports Utf8_Proofs "HOL-Library.Sublist"
begin

text \<open>
  The remaining operations of strings (rtsrc/ObjString.cpp), and the string search, iteration and
  slicing of the reference interpreter (lib/wren-main/src/vm/wren_value.c and wren_core.c).
\<close>

section \<open>The standard library\<close>

text \<open>\<open>std::string::find\<close>: the first occurrence at or after a position.\<close>

definition std_find :: "bytes \<Rightarrow> bytes \<Rightarrow> nat \<Rightarrow> nat option" where
  "std_find hay needle start =
     map_option (\<lambda>i. start + i)
       (find_index (\<lambda>i. prefix needle (drop i hay)) [start..<length hay + 1])"

text \<open>\<open>std::string::substr\<close> with a position within the string.\<close>

definition substr :: "bytes \<Rightarrow> nat \<Rightarrow> nat \<Rightarrow> bytes" where
  "substr s pos n = take n (drop pos s)"

section \<open>The runtime\<close>

definition is_continuation :: "u8 \<Rightarrow> bool" where
  "is_continuation b \<longleftrightarrow> b AND 0xC0 = 0x80"

definition str_ByteCount :: "bytes \<Rightarrow> int" where
  "str_ByteCount m_value = items_size m_value"

definition str_OperatorPlus :: "bytes \<Rightarrow> bytes \<Rightarrow> bytes" where
  "str_OperatorPlus m_value other = m_value @ other"

text \<open>The two loops that move the ends of a range to the borders of code points.\<close>

function skip_start :: "bytes \<Rightarrow> nat \<Rightarrow> nat \<Rightarrow> nat" where
  "skip_start m_value start end' =
     (if start < end' then
        (if m_value ! start AND 0xC0 \<noteq> 0x80 then start else skip_start m_value (start + 1) end')
      else start)"
  by auto
termination by (relation "measure (\<lambda>(s, start, end'). end' - start)") auto

function skip_end :: "bytes \<Rightarrow> nat \<Rightarrow> nat" where
  "skip_end m_value end' =
     (if end' < length m_value then
        (if m_value ! end' AND 0xC0 \<noteq> 0x80 then end' else skip_end m_value (end' + 1))
      else end')"
  by auto
termination by (relation "measure (\<lambda>(s, end'). length s - end')") auto

declare skip_start.simps [simp del] skip_end.simps [simp del]

definition str_slice :: "bytes \<Rightarrow> int \<times> int \<times> bool \<Rightarrow> bytes" where
  "str_slice m_value b =
     (case b of (start, end', reversed) \<Rightarrow>
        let start = skip_start m_value (nat start) (nat end');
            end' = skip_end m_value (nat end');
            slice = substr m_value start (end' - start)
        in if reversed then rev slice else slice)"

definition str_char_at :: "bytes \<Rightarrow> int \<Rightarrow> bytes" where
  "str_char_at m_value index =
     (let len = GetUTF8Length m_value index in
      if index + len > items_size m_value then substr m_value (nat index) 1
      else substr m_value (nat index) (nat len))"

definition str_OperatorSubscript :: "heap \<Rightarrow> bytes \<Rightarrow> val \<Rightarrow> bytes res" where
  "str_OperatorSubscript h m_value indexOrRange =
     (if is_object indexOrRange then
        (if get_object_value indexOrRange = 0
         then Inl (WrenAbort ''Subscript must be a number or a range.'')
         else rbind (deref h (get_object_value indexOrRange)) (\<lambda>x.
           case payload x of
             PRange f t incl \<Rightarrow>
               rbind (ToSubscriptUtil \<lparr>from_num = f, to_num = t, inclusive = incl\<rparr> (items_size m_value)) (\<lambda>b.
                 Inr (str_slice m_value b))
           | _ \<Rightarrow> Inl (WrenAbort ''Subscript must be a number or a range.'')))
      else
        rbind (double_to_int32 (get_number_value indexOrRange)) (\<lambda>index.
          if \<not> deq (double_of_int index) (get_number_value indexOrRange)
          then Inl (WrenAbort ''Subscript must be an integer.'')
          else rbind (PrepareIndex m_value index ''Subscript'' False) (\<lambda>index.
            Inr (str_char_at m_value index))))"

text \<open>\<open>IndexOf\<close> with a start index; the one with one argument starts at 0.\<close>

definition str_IndexOf :: "bytes \<Rightarrow> bytes \<Rightarrow> int \<Rightarrow> int res" where
  "str_IndexOf m_value target startIndex =
     rbind (PrepareIndex m_value startIndex ''Start'' False) (\<lambda>startIndex.
       if target = [] then Inr startIndex
       else case std_find m_value target (nat startIndex) of
         None \<Rightarrow> Inr (- 1)
       | Some position \<Rightarrow> Inr (to_int (int position)))"

definition str_Contains :: "bytes \<Rightarrow> bytes \<Rightarrow> bool" where
  "str_Contains m_value argument = (std_find m_value argument 0 \<noteq> None)"

definition str_StartsWith :: "bytes \<Rightarrow> bytes \<Rightarrow> bool" where
  "str_StartsWith m_value argument =
     (if length m_value < length argument then False
      else substr m_value 0 (length argument) = argument)"

definition str_EndsWith :: "bytes \<Rightarrow> bytes \<Rightarrow> bool" where
  "str_EndsWith m_value argument =
     (if length m_value < length argument then False
      else drop (length m_value - length argument) m_value = argument)"

text \<open>The number of bytes an iteration by code points moves on.\<close>

definition iterate_length :: "bytes \<Rightarrow> int \<Rightarrow> int" where
  "iterate_length m_value position =
     (let len = GetUTF8Length m_value position;
          len = (if position + len > items_size m_value then 1 else len)
      in if \<forall>i \<in> set [1..<nat len]. is_continuation (m_value ! nat (position + int i)) then len else 1)"

definition IterateImpl :: "heap \<Rightarrow> bytes \<Rightarrow> val \<Rightarrow> bool \<Rightarrow> val res" where
  "IterateImpl h m_value previous unicode =
     (if m_value = [] then Inr (encode_bool h False)
      else if previous = NULL_VAL then encode_number (double_of_int 0)
      else rbind (validateInt previous ''Iterator'') (\<lambda>position.
        if position < 0 \<or> position \<ge> items_size m_value then Inr (encode_bool h False)
        else rbind (int32 (position + (if unicode then iterate_length m_value position else 1))) (\<lambda>position.
          if position \<ge> items_size m_value then Inr (encode_bool h False)
          else encode_number (double_of_int position))))"

definition str_Iterate :: "heap \<Rightarrow> bytes \<Rightarrow> val \<Rightarrow> val res" where
  "str_Iterate h m_value previous = IterateImpl h m_value previous True"

definition str_IterateByte :: "heap \<Rightarrow> bytes \<Rightarrow> val \<Rightarrow> val res" where
  "str_IterateByte h m_value previous = IterateImpl h m_value previous False"

definition str_IteratorValue :: "heap \<Rightarrow> bytes \<Rightarrow> int \<Rightarrow> bytes res" where
  "str_IteratorValue h m_value iterator =
     rbind (str_ValidateIndex m_value iterator ''Iterator'' False) (\<lambda>_.
     rbind (encode_number (double_of_int iterator)) (\<lambda>v. str_OperatorSubscript h m_value v))"

definition str_EqualTo :: "bytes \<Rightarrow> payload \<Rightarrow> bool" where
  "str_EqualTo m_value other = (case other of PString s \<Rightarrow> s = m_value | _ \<Rightarrow> False)"

section \<open>The reference interpreter\<close>

text \<open>
  \<open>wrenStringFind\<close>, the Boyer-Moore-Horspool search, on \<open>uint32_t\<close> positions and lengths.  The shift
  table has 255 entries, from 0 to 254; reading or writing the entry of the byte 255 is outside the
  array.  \<open>UINT32_MAX\<close> stands for no occurrence.
\<close>

abbreviation UINT32_MAX :: u32 where
  "UINT32_MAX \<equiv> 0xFFFFFFFF"

definition u32_length :: "bytes \<Rightarrow> u32" where
  "u32_length bs = word_of_nat (length bs)"

definition shift_init :: "bytes \<Rightarrow> u32 list" where
  "shift_init needle = replicate 255 (u32_length needle)"

text \<open>The first argument counts the iterations that are left and the last check.\<close>

primrec shift_loop :: "nat \<Rightarrow> bytes \<Rightarrow> u32 \<Rightarrow> u32 \<Rightarrow> u32 list \<Rightarrow> u32 list res" where
  "shift_loop 0 needle needleEnd index shift = Inl Undefined"
| "shift_loop (Suc n) needle needleEnd index shift =
     (if index < needleEnd then
        (let c = unat (needle ! unat index) in
         if c < length shift
         then shift_loop n needle needleEnd (index + 1) (shift[c := needleEnd - index])
         else Inl Undefined)
      else Inr shift)"

text \<open>
  The search loop, which runs at most as often as there are positions: every shift is at least one.
  A read behind the haystack is undefined.
\<close>

primrec bmh_loop :: "nat \<Rightarrow> bytes \<Rightarrow> bytes \<Rightarrow> u32 list \<Rightarrow> u32 \<Rightarrow> u32 res" where
  "bmh_loop 0 hay needle shift index = Inl Undefined"
| "bmh_loop (Suc fuel) hay needle shift index =
     (let needleEnd = u32_length needle - 1; range = u32_length hay - u32_length needle in
      if index \<le> range then
        (if \<not> unat (index + needleEnd) < length hay then Inl Undefined
         else
           let c = hay ! unat (index + needleEnd) in
           if needle ! unat needleEnd = c \<and>
             substr hay (unat index) (unat needleEnd) = take (unat needleEnd) needle then Inr index
           else if unat c < length shift then bmh_loop fuel hay needle shift (index + shift ! unat c)
           else Inl Undefined)
      else Inr UINT32_MAX)"

definition wrenStringFind :: "bytes \<Rightarrow> bytes \<Rightarrow> u32 \<Rightarrow> u32 res" where
  "wrenStringFind hay needle start =
     (if u32_length needle = 0 then Inr start
      else if start + u32_length needle > u32_length hay then Inr UINT32_MAX
      else if start \<ge> u32_length hay then Inr UINT32_MAX
      else
        rbind (shift_loop (length needle) needle (u32_length needle - 1) 0 (shift_init needle)) (\<lambda>shift.
          bmh_loop (length hay + 1) hay needle shift start))"

text \<open>The result of \<open>indexOf\<close>: -1, or the position as an \<open>int\<close>.\<close>

definition index_num :: "u32 \<Rightarrow> int" where
  "index_num index = (if index = UINT32_MAX then - 1 else sint index)"

definition prim_string_indexOf1 :: "bytes \<Rightarrow> bytes \<Rightarrow> int res" where
  "prim_string_indexOf1 bs search = rbind (wrenStringFind bs search 0) (\<lambda>index. Inr (index_num index))"

definition prim_string_indexOf :: "bytes \<Rightarrow> bytes \<Rightarrow> val \<Rightarrow> string + int res" where
  "prim_string_indexOf bs search arg2 =
     (case ref_validateIndex arg2 (uint (u32_length bs)) ''Start'' of
        Inl m \<Rightarrow> Inl m
      | Inr start \<Rightarrow>
          Inr (rbind (wrenStringFind bs search (word_of_int start)) (\<lambda>index. Inr (index_num index))))"

definition prim_string_contains :: "bytes \<Rightarrow> bytes \<Rightarrow> bool res" where
  "prim_string_contains bs search =
     rbind (wrenStringFind bs search 0) (\<lambda>index. Inr (index \<noteq> UINT32_MAX))"

definition prim_string_startsWith :: "bytes \<Rightarrow> bytes \<Rightarrow> bool" where
  "prim_string_startsWith bs search =
     (if length search > length bs then False else take (length search) bs = search)"

definition prim_string_endsWith :: "bytes \<Rightarrow> bytes \<Rightarrow> bool" where
  "prim_string_endsWith bs search =
     (if length search > length bs then False else drop (length bs - length search) bs = search)"

text \<open>The loop of \<open>string_iterate\<close>: \<open>None\<close> is the result \<open>false\<close>.\<close>

function ref_next :: "bytes \<Rightarrow> nat \<Rightarrow> nat option" where
  "ref_next bs index =
     (let index = index + 1 in
      if index \<ge> length bs then None
      else if bs ! index AND 0xC0 = 0x80 then ref_next bs index
      else Some index)"
  by auto
termination by (relation "measure (\<lambda>(bs, index). length bs - index)") auto

declare ref_next.simps [simp del]

definition prim_string_iterate :: "val \<Rightarrow> bytes \<Rightarrow> val \<Rightarrow> string + nat option" where
  "prim_string_iterate null bs arg1 =
     (if arg1 = null then Inr (if length bs = 0 then None else Some 0)
      else case ref_validateInt arg1 ''Iterator'' of
        Inl m \<Rightarrow> Inl m
      | Inr d \<Rightarrow>
          if dlt d (double_of_int 0) then Inr None
          else Inr (ref_next bs (nat (dtrunc_int d))))"

definition wrenStringCodePointAt :: "bytes \<Rightarrow> nat \<Rightarrow> bytes res" where
  "wrenStringCodePointAt bs index =
     (let codePoint = wrenUtf8Decode (drop index bs) in
      if codePoint = - 1 then Inr [bs ! index] else wrenUtf8Encode codePoint)"

end
