(* ===== verification/String_Search.thy ===== *)
theory String_Search
  imports String_Object
begin

text \<open>
  The reference interpreter's Boyer-Moore-Horspool search finds what \<open>std::string::find\<close> finds, and
  the consequences for the methods of strings that search.
\<close>

section \<open>The first occurrence\<close>

lemma std_find_Some:
  "std_find hay needle start = Some i \<longleftrightarrow>
    start \<le> i \<and> i \<le> length hay \<and> prefix needle (drop i hay) \<and>
    (\<forall>j. start \<le> j \<and> j < i \<longrightarrow> \<not> prefix needle (drop j hay))"
proof (cases "start \<le> length hay")
  case True
  have nth: "[start..<length hay + 1] ! k = start + k" if "k < length hay + 1 - start" for k
    using that by (intro nth_upt) simp
  have len: "length [start..<length hay + 1] = length hay + 1 - start" by (rule length_upt)
  show ?thesis
  proof
    assume "std_find hay needle start = Some i"
    then obtain k where k: "i = start + k" "k < length hay + 1 - start"
      "prefix needle (drop (start + k) hay)" "\<forall>j < k. \<not> prefix needle (drop (start + j) hay)"
      unfolding std_find_def map_option_eq_Some find_index_Some_iff by (auto simp: nth len simp del: upt_Suc)
    then show "start \<le> i \<and> i \<le> length hay \<and> prefix needle (drop i hay) \<and>
        (\<forall>j. start \<le> j \<and> j < i \<longrightarrow> \<not> prefix needle (drop j hay))"
      by (auto dest: le_Suc_ex)
  next
    assume a: "start \<le> i \<and> i \<le> length hay \<and> prefix needle (drop i hay) \<and>
        (\<forall>j. start \<le> j \<and> j < i \<longrightarrow> \<not> prefix needle (drop j hay))"
    then have "find_index (\<lambda>i. prefix needle (drop i hay)) [start..<length hay + 1] = Some (i - start)"
      unfolding find_index_Some_iff by (auto simp: nth len simp del: upt_Suc)
    then show "std_find hay needle start = Some i" using a by (simp add: std_find_def)
  qed
qed (auto simp: std_find_def)

lemma std_find_None:
  "std_find hay needle start = None \<longleftrightarrow> (\<forall>j. start \<le> j \<and> j \<le> length hay \<longrightarrow> \<not> prefix needle (drop j hay))"
  unfolding std_find_def option.map_disc_iff find_index_None_iff by auto

lemma prefix_drop_iff:
  "prefix needle (drop p hay) \<longleftrightarrow> take (length needle) (drop p hay) = needle"
  by (metis append_eq_conv_conj prefix_def take_is_prefix)

lemma prefix_drop_bound: "prefix needle (drop p hay) \<Longrightarrow> needle \<noteq> [] \<Longrightarrow> p + length needle \<le> length hay"
  by (auto dest!: prefix_length_le) (metis add.commute diff_is_0_eq le_diff_conv2 le_zero_eq length_0_conv nat_le_linear)

lemma prefix_drop_nth:
  "prefix needle (drop p hay) \<Longrightarrow> j < length needle \<Longrightarrow> needle \<noteq> [] \<Longrightarrow> hay ! (p + j) = needle ! j"
  using prefix_drop_bound [of needle p hay] by (auto simp: prefix_def nth_append)
    (metis (no_types, lifting) add_leD1 nth_append nth_drop)

section \<open>The shift table\<close>

text \<open>
  What the search needs of an entry: it is positive, and not larger than the distance of any
  occurrence of the byte in the needle (its last byte apart) from the end.
\<close>

definition shift_ok :: "bytes \<Rightarrow> nat \<Rightarrow> nat list \<Rightarrow> bool" where
  "shift_ok needle i shift \<longleftrightarrow>
     length shift = 255 \<and>
     (\<forall>c < 255. 1 \<le> shift ! c \<and> shift ! c \<le> length needle \<and> (\<forall>j < i. unat (needle ! j) = c \<longrightarrow> shift ! c \<le> length needle - 1 - j))"

text \<open>
  The two loops on natural numbers, without the wrap-around of \<open>uint32_t\<close>.  They are only used to
  state the search's invariants; \<open>shift_loop_unbounded\<close> and \<open>bmh_loop_unbounded\<close> below show that
  the loops of the code do what these do.
\<close>

primrec nat_shift_loop :: "nat \<Rightarrow> bytes \<Rightarrow> nat \<Rightarrow> nat list \<Rightarrow> nat list res" where
  "nat_shift_loop 0 needle index shift = Inr shift"
| "nat_shift_loop (Suc n) needle index shift =
     (let c = unat (needle ! index) in
      if c < length shift
      then nat_shift_loop n needle (index + 1) (shift[c := (length needle - 1) - index])
      else Inl Undefined)"

primrec nat_bmh_loop :: "nat \<Rightarrow> bytes \<Rightarrow> bytes \<Rightarrow> nat list \<Rightarrow> nat \<Rightarrow> nat option res" where
  "nat_bmh_loop 0 hay needle shift index = Inl Undefined"
| "nat_bmh_loop (Suc fuel) hay needle shift index =
     (let needleEnd = length needle - 1; range = length hay - length needle in
      if index \<le> range then
        (let c = hay ! (index + needleEnd) in
         if needle ! needleEnd = c \<and> substr hay index needleEnd = take needleEnd needle then Inr (Some index)
         else if unat c < length shift then nat_bmh_loop fuel hay needle shift (index + shift ! unat c)
         else Inl Undefined)
      else Inr None)"

lemma nat_shift_loop_ok:
  assumes "shift_ok needle i shift" "i + n = length needle - 1" "\<forall>b \<in> set needle. b \<noteq> 0xFF"
  shows "\<exists>shift'. nat_shift_loop n needle i shift = Inr shift' \<and> shift_ok needle (length needle - 1) shift'"
  using assms(1,2)
proof (induction n arbitrary: i shift)
  case 0
  then show ?case by simp
next
  case (Suc n)
  let ?c = "unat (needle ! i)"
  have "needle ! i \<in> set needle" using Suc.prems(2) by simp
  then have "needle ! i \<noteq> 0xFF" using assms(3) by auto
  then have "?c \<noteq> 255" by (simp add: word_unat_eq_iff)
  moreover have "?c < 256" using unsigned_less [of "needle ! i"] by simp
  ultimately have c: "?c < 255" by simp
  have "shift_ok needle (Suc i) (shift[?c := length needle - 1 - i])"
    using Suc.prems c unfolding shift_ok_def
    by (auto simp: nth_list_update less_Suc_eq)
  then obtain shift' where "nat_shift_loop n needle (i + 1) (shift[?c := length needle - 1 - i]) = Inr shift'"
    "shift_ok needle (length needle - 1) shift'"
    using Suc.IH [of "i + 1"] Suc.prems(2) by auto
  moreover have "length shift = 255" using Suc.prems(1) by (simp add: shift_ok_def)
  ultimately show ?case using c by (simp add: Let_def)
qed

section \<open>The search\<close>

lemma std_find_skip:
  assumes "\<And>j. start \<le> j \<Longrightarrow> j < start' \<Longrightarrow> \<not> prefix needle (drop j hay)" "start \<le> start'"
  shows "std_find hay needle start = std_find hay needle start'"
proof (cases "std_find hay needle start'")
  case None
  then have "std_find hay needle start = None"
    using assms unfolding std_find_None by (meson not_le)
  with None show ?thesis by simp
next
  case (Some i)
  then have "std_find hay needle start = Some i"
    using assms unfolding std_find_Some by (meson le_trans not_le)
  with Some show ?thesis by simp
qed

lemma nat_bmh_loop_correct:
  assumes shift: "shift_ok needle (length needle - 1) shift"
    and bytes: "\<forall>b \<in> set hay. b \<noteq> 0xFF" and ne: "needle \<noteq> []" and le: "length needle \<le> length hay"
  shows "index \<le> length hay \<Longrightarrow> length hay < fuel + index \<Longrightarrow>
    nat_bmh_loop fuel hay needle shift index = Inr (std_find hay needle index)"
proof (induction fuel arbitrary: index)
  case 0
  then show ?case by simp
next
  case (Suc fuel)
  define n e where "n = length needle" and "e = length needle - 1"
  have n: "n = Suc e" using ne by (simp add: n_def e_def)
  show ?case
  proof (cases "index \<le> length hay - n")
    case False
    then have "std_find hay needle index = None"
      unfolding std_find_None using prefix_drop_bound [OF _ ne, of _ hay] le by (fastforce simp: n_def)
    then show ?thesis using False by (simp add: n_def)
  next
    case True
    define c where "c = hay ! (index + e)"
    have in_hay: "index + e < length hay" using True le n by (simp add: n_def)
    then have "c \<in> set hay" by (simp add: c_def)
    then have "c \<noteq> 0xFF" using bytes by auto
    then have "unat c \<noteq> 255" by (simp add: word_unat_eq_iff)
    moreover have "unat c < 256" by (rule order_less_le_trans [OF unsigned_less]) simp
    ultimately have c: "unat c < 255" by simp
    have match: "needle ! e = c \<and> substr hay index e = take e needle \<longleftrightarrow> prefix needle (drop index hay)"
    proof -
      have "take n (drop index hay) = take e (drop index hay) @ [c]"
        using in_hay by (simp add: n c_def take_Suc_conv_app_nth)
      moreover have "needle = take e needle @ [needle ! e]"
        using n take_Suc_conv_app_nth [of e needle] by (simp add: n_def)
      ultimately show ?thesis
        unfolding prefix_drop_iff n_def [symmetric] substr_def by (metis append1_eq_conv)
    qed
    show ?thesis
    proof (cases "prefix needle (drop index hay)")
      case True': True
      then have "std_find hay needle index = Some index"
        unfolding std_find_Some using Suc.prems(1) by auto
      then show ?thesis
        using True True' match by (simp add: n_def e_def c_def Let_def)
    next
      case no: False
      define d where "d = shift ! unat c"
      have d: "1 \<le> d" "d \<le> n" "\<And>j. j < e \<Longrightarrow> needle ! j = c \<Longrightarrow> d \<le> e - j"
        using shift c by (auto simp: shift_ok_def d_def n_def e_def)
      have "\<not> prefix needle (drop p hay)" if "index \<le> p" "p < index + d" for p
      proof
        assume occ: "prefix needle (drop p hay)"
        then have "p \<noteq> index" using no by auto
        then have j: "index + e - p < e" using that d(2) n by linarith
        have "p + (index + e - p) = index + e" using that d(2) n by simp
        then have "needle ! (index + e - p) = c"
          using prefix_drop_nth [OF occ _ ne, of "index + e - p"] j n by (simp add: c_def n_def)
        from d(3) [OF j this] that show False using d(2) n by linarith
      qed
      then have skip: "std_find hay needle index = std_find hay needle (index + d)"
        by (rule std_find_skip) simp_all
      have "index + d \<le> length hay" using True le d(2) by (simp add: n_def)
      moreover have "length hay < fuel + (index + d)" using Suc.prems(2) d(1) by simp
      ultimately have "nat_bmh_loop fuel hay needle shift (index + d) = Inr (std_find hay needle (index + d))"
        by (rule Suc.IH)
      moreover have "length shift = 255" using shift by (simp add: shift_ok_def)
      ultimately show ?thesis
        unfolding skip using True match no c
        by (simp only: nat_bmh_loop.simps Let_def n_def [symmetric] e_def [folded n_def, symmetric] c_def [symmetric]
            d_def if_True if_False simp_thms)
    qed
  qed
qed

section \<open>The search on 32-bit positions\<close>

lemma unat_u32_length: "length bs < 2 ^ 32 \<Longrightarrow> unat (u32_length bs) = length bs"
  unfolding u32_length_def by (rule unat_word_of_nat_small) simp

lemma u32_nat_less: "i < 2 ^ 32 \<Longrightarrow> unat (word_of_nat i :: u32) = i"
  by (rule unat_word_of_nat_small) simp

lemma unat_u32_add: "unat (a :: u32) + unat b < 2 ^ 32 \<Longrightarrow> unat (a + b) = unat a + unat b"
  by (subst unat_add_lem [THEN iffD1]) simp_all

text \<open>The result of the search as a position.\<close>

definition find_result :: "nat option \<Rightarrow> u32" where
  "find_result r = (case r of None \<Rightarrow> UINT32_MAX | Some i \<Rightarrow> word_of_nat i)"

lemma last_index:
  assumes "needle \<noteq> []" "length needle < 2 ^ 32"
  shows "unat (u32_length needle - 1) = length needle - 1"
proof -
  have "0 < unat (u32_length needle)" using assms by (simp add: unat_u32_length)
  then have "unat (u32_length needle - 1) = unat (u32_length needle) - 1" by (intro unat_minus_one) auto
  then show ?thesis using assms(2) by (simp add: unat_u32_length)
qed

lemma shift_loop_unbounded:
  assumes "needle \<noteq> []" "length needle < 2 ^ 32" "unat index + n = length needle - 1"
  shows "shift_loop (Suc n) needle (u32_length needle - 1) index (map word_of_nat shift) =
    rbind (nat_shift_loop n needle (unat index) shift) (\<lambda>r. Inr (map word_of_nat r))"
  using assms(3)
proof (induction n arbitrary: index shift)
  case 0
  then show ?case using last_index [OF assms(1,2)] by (simp add: word_less_nat_alt)
next
  case (Suc n)
  have less: "index < u32_length needle - 1" using Suc.prems last_index [OF assms(1,2)] by (simp add: word_less_nat_alt)
  have one: "unat (index + 1) = unat index + 1" using Suc.prems assms(2) by (subst unat_u32_add) simp_all
  have "word_of_nat (length needle - 1 - unat index) = u32_length needle - 1 - index"
    using last_index [OF assms(1,2)] unat_sub [OF less_imp_le [OF less]]
      u32_nat_less [of "length needle - 1 - unat index"] assms(2)
    by (simp add: word_unat_eq_iff)
  then have upd: "(map word_of_nat shift)[c := u32_length needle - 1 - index] =
      map word_of_nat (shift[c := length needle - 1 - unat index])" for c
    by (simp only: map_update)
  show ?case
    using Suc.prems one Suc.IH [of "index + 1"]
    unfolding shift_loop.simps(2) [of "Suc n"] nat_shift_loop.simps Let_def upd if_P [OF less]
    by (simp del: shift_loop.simps)
qed

lemma bmh_loop_unbounded:
  assumes "shift_ok needle (length needle - 1) shift" and ne: "needle \<noteq> []"
    and le: "length needle \<le> length hay" and hay: "length hay < 2 ^ 32" "\<forall>b \<in> set hay. b \<noteq> 0xFF"
    and "unat index \<le> length hay"
  shows "bmh_loop fuel hay needle (map word_of_nat shift) index =
    rbind (nat_bmh_loop fuel hay needle shift (unat index)) (\<lambda>r. Inr (find_result r))"
  using assms(6)
proof (induction fuel arbitrary: index)
  case 0
  then show ?case by simp
next
  case (Suc fuel)
  have nl: "length needle < 2 ^ 32" using le hay(1) by simp
  note e = last_index [OF ne nl]
  have range: "unat (u32_length hay - u32_length needle) = length hay - length needle"
    using le nl hay(1) by (subst unat_sub) (simp_all add: unat_u32_length word_le_nat_alt)
  show ?case
  proof (cases "unat index \<le> length hay - length needle")
    case False
    then show ?thesis using range by (simp add: word_le_nat_alt find_result_def)
  next
    case True
    define p where "p = unat index + (length needle - 1)"
    have p: "p < length hay" using True le ne by (cases needle) (simp_all add: p_def)
    have pw: "unat (index + (u32_length needle - 1)) = p"
      using p hay(1) by (subst unat_u32_add) (simp_all add: p_def e)
    have "hay ! p \<in> set hay" using p by simp
    then have "unat (hay ! p) \<noteq> 255" using hay(2) by (auto simp: word_unat_eq_iff)
    moreover have "unat (hay ! p) < 256" by (rule order_less_le_trans [OF unsigned_less]) simp
    ultimately have c: "unat (hay ! p) < 255" by simp
    have sl: "length shift = 255" "shift ! unat (hay ! p) \<le> length needle"
      using assms(1) c by (simp_all add: shift_ok_def)
    have s32: "unat (map word_of_nat shift ! unat (hay ! p) :: u32) = shift ! unat (hay ! p)"
      using sl c nl by (simp add: u32_nat_less)
    have next': "unat (index + map word_of_nat shift ! unat (hay ! p)) = unat index + shift ! unat (hay ! p)"
      "unat index + shift ! unat (hay ! p) \<le> length hay"
      using sl True le hay(1) s32 by (auto simp: unat_u32_add)
    have le32: "index \<le> u32_length hay - u32_length needle" using True range by (simp add: word_le_nat_alt)
    have "find_result (Some (unat index)) = index" by (simp add: find_result_def)
    moreover have "unat (hay ! p) < length (map word_of_nat shift :: u32 list)" "unat (hay ! p) < length shift"
      using sl c by simp_all
    moreover note Suc.IH [of "index + map word_of_nat shift ! unat (hay ! p)", unfolded next', OF next'(2)]
    ultimately show ?thesis
      unfolding bmh_loop.simps nat_bmh_loop.simps Let_def pw e p_def [symmetric] if_P [OF le32] if_P [OF True]
      using p by (simp only: not_not if_True if_False rbind_simps split: if_split) auto
  qed
qed

lemma string_find_eq:
  assumes "\<forall>b \<in> set hay. b \<noteq> 0xFF" "\<forall>b \<in> set needle. b \<noteq> 0xFF" "unat start \<le> length hay"
    and len: "length hay + length needle < 2 ^ 32"
  shows "wrenStringFind hay needle start = Inr (find_result (std_find hay needle (unat start)))"
proof (cases "needle = []")
  case True
  then have "std_find hay needle (unat start) = Some (unat start)"
    unfolding std_find_Some using assms(3) by auto
  then show ?thesis using True by (simp add: wrenStringFind_def u32_length_def find_result_def)
next
  case ne: False
  have u: "unat (u32_length hay) = length hay" "unat (u32_length needle) = length needle"
    "unat (start + u32_length needle) = unat start + length needle"
    using len assms(3) by (simp_all add: unat_u32_length unat_u32_add)
  have n0: "u32_length needle \<noteq> 0" using u(2) ne by auto
  show ?thesis
  proof (cases "unat start + length needle > length hay")
    case True
    then have "std_find hay needle (unat start) = None"
      unfolding std_find_None using prefix_drop_bound [OF _ ne, of _ hay] by fastforce
    then show ?thesis using True n0 by (simp add: wrenStringFind_def word_less_nat_alt u find_result_def)
  next
    case False
    define m where "m = length needle - 1"
    have m: "length needle = Suc m" using ne by (cases needle) (simp_all add: m_def)
    have "shift_ok needle 0 (replicate 255 (length needle))"
      using ne by (simp add: shift_ok_def Suc_le_eq)
    from nat_shift_loop_ok [OF this _ assms(2), of m]
    obtain shift where s: "nat_shift_loop m needle 0 (replicate 255 (length needle)) = Inr shift"
      "shift_ok needle (length needle - 1) shift"
      by (auto simp: m_def)
    have init: "shift_init needle = map word_of_nat (replicate 255 (length needle))"
      by (simp add: shift_init_def u32_length_def)
    have "shift_loop (Suc m) needle (u32_length needle - 1) 0 (shift_init needle) =
        Inr (map word_of_nat shift)"
      unfolding init using len m
      by (subst shift_loop_unbounded [OF ne]) (simp_all add: s(1) [unfolded m])
    then have "shift_loop (length needle) needle (u32_length needle - 1) 0 (shift_init needle) =
        Inr (map word_of_nat shift)" by (simp only: m)
    moreover have "nat_bmh_loop (length hay + 1) hay needle shift (unat start) = Inr (std_find hay needle (unat start))"
      using False assms(3) by (intro nat_bmh_loop_correct [OF s(2) assms(1) ne]) auto
    then have "bmh_loop (length hay + 1) hay needle (map word_of_nat shift) start =
        Inr (find_result (std_find hay needle (unat start)))"
      using False assms(3) len by (subst bmh_loop_unbounded [OF s(2) ne _ _ assms(1)]) simp_all
    moreover have "\<not> start \<ge> u32_length hay" using False ne m by (simp add: word_le_nat_alt u)
    ultimately show ?thesis
      using False n0 by (simp add: wrenStringFind_def word_less_nat_alt word_le_nat_alt u del: bmh_loop.simps shift_loop.simps)
  qed
qed

text \<open>
  C15: The reference interpreter's string search, which computes on uint32_t, returns for every
  start position in the haystack the first occurrence of the needle, exactly what
  \<open>std::string::find\<close> returns to the runtime, and UINT32_MAX when there is none.  It terminates and
  reads nothing outside the strings and its shift table.  This holds when neither string holds the
  byte 0xFF, for which the table has no entry, and the lengths of the two strings sum to less than
  2^32, so that start + needle->length does not wrap.
\<close>

theorem wrenStringFind_correct:
  assumes "\<forall>b \<in> set hay. b \<noteq> 0xFF" "\<forall>b \<in> set needle. b \<noteq> 0xFF"
    and "length hay + length needle < 2 ^ 32" "unat start \<le> length hay"
  shows "wrenStringFind hay needle start =
    Inr (case std_find hay needle (unat start) of None \<Rightarrow> UINT32_MAX | Some i \<Rightarrow> word_of_nat i)"
  using string_find_eq [OF assms(1,2,4,3)] by (simp add: find_result_def)

theorem wrenStringFind_correct_witness:
  "wrenStringFind [1, 2, 1, 2, 3] [1, 2, 3] 0 = Inr 2 \<and> std_find [1, 2, 1, 2, 3] [1, 2, 3] 0 = Some 2"
proof -
  have "std_find [1, 2, 1, 2, 3] [1, 2, 3] 0 = Some 2" by (simp add: std_find_def upt_rec)
  then show ?thesis using wrenStringFind_correct [of "[1, 2, 1, 2, 3]" "[1, 2, 3]" 0] by simp
qed

text \<open>A search for the byte 0xFF leaves the table, which lacks that entry.\<close>

lemma wrenStringFind_0xFF: "wrenStringFind [0xFF, 0x61] [0x62] 0 = Inl Undefined"
  by (simp add: wrenStringFind_def shift_init_def u32_length_def substr_def)

section \<open>The methods that search\<close>

lemma index_num_find:
  assumes "\<And>i. r = Some i \<Longrightarrow> i < 2 ^ 31"
  shows "index_num (find_result r) = (case r of None \<Rightarrow> - 1 | Some i \<Rightarrow> int i)"
proof (cases r)
  case None
  then show ?thesis by (simp add: index_num_def find_result_def)
next
  case (Some i)
  then have i: "i < 2 ^ 31" using assms by simp
  then have "unat (word_of_nat i :: u32) = i" by (intro u32_nat_less) simp
  then have "(word_of_nat i :: u32) \<noteq> UINT32_MAX" using i by (auto simp: word_unat_eq_iff)
  moreover have "sint (word_of_nat i :: u32) = int i"
    using i by (simp add: signed_of_nat signed_take_bit_int_eq_self)
  ultimately show ?thesis using Some by (simp add: index_num_def find_result_def)
qed

lemma find_result_none: "length hay < 2 ^ 31 \<Longrightarrow> find_result (std_find hay needle k) = UINT32_MAX \<longleftrightarrow> std_find hay needle k = None"
proof (cases "std_find hay needle k")
  case (Some i)
  assume "length hay < 2 ^ 31"
  then have i: "i < 2 ^ 31" using Some unfolding std_find_Some by simp
  then have "unat (word_of_nat i :: u32) = i" by (intro u32_nat_less) simp
  then have "(word_of_nat i :: u32) \<noteq> UINT32_MAX" using i by (auto simp: word_unat_eq_iff)
  then show ?thesis using Some by (simp add: find_result_def)
qed (simp add: find_result_def)

text \<open>What the two-argument search returns from a position inside the string.\<close>

lemma str_IndexOf_at:
  assumes "int (length s) < 2 ^ 31" "0 \<le> k" "k < int (length s)"
    and i: "int32_value i" "k = (if i < 0 then int (length s) + i else i)"
  shows "str_IndexOf s target i =
    Inr (case std_find s target (nat k) of None \<Rightarrow> - 1 | Some position \<Rightarrow> int position)"
proof -
  note pi = PrepareIndex_eq [OF assms(1) i(1), of "''Start''", folded i(2), unfolded Let_def]
  have "std_find s target (nat k) = Some (nat k)" if "target = []"
    unfolding std_find_Some using that assms(2,3) by auto
  moreover have "int p \<le> int (length s)" if "std_find s target (nat k) = Some p" for p
    using that unfolding std_find_Some by simp
  ultimately show ?thesis
    using assms(1-3) by (auto simp: str_IndexOf_def pi split: option.split)
qed

lemma reference_search:
  assumes "\<forall>b \<in> set s. b \<noteq> 0xFF" "\<forall>b \<in> set target. b \<noteq> 0xFF" "length s < 2 ^ 31" "length target < 2 ^ 31"
    and "unat start \<le> length s"
  shows "rbind (wrenStringFind s target start) (\<lambda>index. Inr (index_num index)) =
      Inr (case std_find s target (unat start) of None \<Rightarrow> - 1 | Some position \<Rightarrow> int position)"
    "wrenStringFind s target start = Inr (find_result (std_find s target (unat start)))"
proof -
  have len: "length s + length target < 2 ^ 32" using assms(3,4) by simp
  show eq: "wrenStringFind s target start = Inr (find_result (std_find s target (unat start)))"
    by (rule string_find_eq [OF assms(1,2,5) len])
  have "i < 2 ^ 31" if "std_find s target (unat start) = Some i" for i
    using that assms(3) unfolding std_find_Some by simp
  from index_num_find [OF this] show "rbind (wrenStringFind s target start) (\<lambda>index. Inr (index_num index)) =
      Inr (case std_find s target (unat start) of None \<Rightarrow> - 1 | Some position \<Rightarrow> int position)"
    unfolding eq by simp
qed

text \<open>
  C16: Searching, and testing for a prefix, a suffix or a part, agree with the reference
  interpreter's primitives on strings of fewer than 2^31 bytes without the byte 0xFF: the same
  positions, -1 when there is no occurrence, the start index counted from the end when negative, and
  the same messages.  There are two exceptions.  indexOf with a start index that is a number whose
  integer part does not fit int (NaN and the infinities included) is undefined in the runtime, where
  the reference reports an error.  indexOf without a start index on the empty string is an error of
  the runtime, which checks the start index 0 against the length.
\<close>

theorem string_searches_agree:
  assumes "\<forall>b \<in> set s. b \<noteq> 0xFF" "\<forall>b \<in> set target. b \<noteq> 0xFF"
    and "length s < 2 ^ 31" "length target < 2 ^ 31"
  shows "agrees_if (int_arg arg) (\<lambda>i q. q = Inr i) (rbind (checkInt ''Start'' arg) (str_IndexOf s target))
      (prim_string_indexOf s target arg) \<and>
    str_IndexOf s target 0 =
      (if s = [] then Inl (WrenAbort ''Start out of bounds.'') else prim_string_indexOf1 s target) \<and>
    prim_string_contains s target = Inr (str_Contains s target) \<and>
    prim_string_startsWith s target = str_StartsWith s target \<and>
    prim_string_endsWith s target = str_EndsWith s target"
proof (intro conjI)
  note find = reference_search [OF assms]
  show "prim_string_contains s target = Inr (str_Contains s target)"
    by (simp add: prim_string_contains_def str_Contains_def find find_result_none [OF assms(3)])
  have len: "int (length s) < 2 ^ 31" using assms(3) by simp
  show "str_IndexOf s target 0 =
      (if s = [] then Inl (WrenAbort ''Start out of bounds.'') else prim_string_indexOf1 s target)"
    using str_IndexOf_at [OF len, of 0 0 target] find(1) [of 0]
    by (simp add: str_IndexOf_def [of "[]"] PrepareIndex_def str_ValidateIndex_def prim_string_indexOf1_def Let_def)
  have uint: "uint (u32_length s) = int (length s)"
    using assms(3) by (simp add: uint_nat unat_u32_length)
  show "agrees_if (int_arg arg) (\<lambda>i q. q = Inr i) (rbind (checkInt ''Start'' arg) (str_IndexOf s target))
      (prim_string_indexOf s target arg)"
    unfolding prim_string_indexOf_def uint
  proof (rule checked_index_total)
    show "0 \<le> int (length s)" "int (length s) < 2 ^ 31" using len by simp_all
    fix i k assume i: "int32_value i" and k: "k = (if i < 0 then int (length s) + i else i)"
    { assume b: "0 \<le> k" "k < int (length s)"
      then have "unat (word_of_int k :: u32) = nat k" using len by (simp add: unsigned_of_int take_bit_int_eq_self)
      then show "agrees (\<lambda>i q. q = Inr i) (str_IndexOf s target i)
          (Inr (rbind (wrenStringFind s target (word_of_int k)) (\<lambda>index. Inr (index_num index))))"
        using str_IndexOf_at [OF len b i k, of target] find(1) [of "word_of_int k"] b by simp
    next
      assume "\<not> (0 \<le> k \<and> k < int (length s))"
      then show "str_IndexOf s target i = Inl (WrenAbort (''Start'' @ '' out of bounds.''))"
        unfolding str_IndexOf_def PrepareIndex_eq [OF len i, of "''Start''", folded k, unfolded Let_def]
        by (cases "0 \<le> k") simp_all }
  qed
qed (auto simp: prim_string_startsWith_def str_StartsWith_def prim_string_endsWith_def str_EndsWith_def
    substr_def)

theorem string_searches_agree_witness:
  "agrees (\<lambda>i q. q = Inr i) (rbind (checkInt ''Start'' (double_of_int (- 2))) (str_IndexOf [7, 8, 7, 8] [8]))
      (prim_string_indexOf [7, 8, 7, 8] [8] (double_of_int (- 2))) \<and>
   str_IndexOf [7, 8, 7, 8] [8] (- 2) = Inr 3"
proof -
  have "int_arg (double_of_int (- 2))" by (simp add: int_arg_def int_range_of_int)
  moreover have "str_IndexOf [7, 8, 7, 8] [8] (- 2) = Inr 3"
    by (simp add: str_IndexOf_def PrepareIndex_def str_ValidateIndex_def std_find_def upt_rec Let_def)
  ultimately show ?thesis
    using string_searches_agree [of "[7, 8, 7, 8]" "[8]" "double_of_int (- 2)"] by simp
qed


end
