(* ===== verification/String_Iteration.thy ===== *)
theory String_Iteration
  imports String_Object Range_Proofs
begin

text \<open>
  Strings as sequences of code points: iterating over a well-formed string visits the code points it
  was built from, in order, in the runtime and in the reference interpreter.
\<close>

definition valid_cp :: "int \<Rightarrow> bool" where
  "valid_cp cp \<longleftrightarrow> 0 \<le> cp \<and> cp < 0x110000"

definition utf8 :: "int \<Rightarrow> bytes" where
  "utf8 cp = (case AppendCodepoint [] cp of Inl e \<Rightarrow> [] | Inr bs \<Rightarrow> bs)"

definition utf8_string :: "int list \<Rightarrow> bytes" where
  "utf8_string cps = concat (map utf8 cps)"

text \<open>The position of the code point with index \<open>k\<close>.\<close>

definition position :: "int list \<Rightarrow> nat \<Rightarrow> nat" where
  "position cps k = length (utf8_string (take k cps))"

lemma utf8_facts:
  assumes "valid_cp cp"
  shows "utf8 cp \<noteq> []" "AppendCodepoint s cp = Inr (s @ utf8 cp)" "wrenUtf8Encode cp = Inr (utf8 cp)"
    "utf8_length (hd (utf8 cp)) = length (utf8 cp)" "hd (utf8 cp) AND 0xC0 \<noteq> 0x80"
    "\<forall>b \<in> set (tl (utf8 cp)). b AND 0xC0 = 0x80" "wrenUtf8Decode (utf8 cp @ post) = cp"
    "codepoint_at (pre @ utf8 cp @ post) (int (length pre)) = cp"
proof -
  obtain enc where e: "enc \<noteq> []" "\<forall>s. AppendCodepoint s cp = Inr (s @ enc)" "wrenUtf8Encode cp = Inr enc"
    "utf8_length (hd enc) = length enc" "hd enc AND 0xC0 \<noteq> 0x80" "\<forall>b \<in> set (tl enc). b AND 0xC0 = 0x80"
    "\<forall>pre post. codepoint_at (pre @ enc @ post) (int (length pre)) = cp \<and> wrenUtf8Decode (enc @ post) = cp"
    using codepoint_roundtrip [of cp] assms unfolding valid_cp_def by blast
  have "utf8 cp = enc" using e(2) by (simp add: utf8_def)
  with e show "utf8 cp \<noteq> []" "AppendCodepoint s cp = Inr (s @ utf8 cp)" "wrenUtf8Encode cp = Inr (utf8 cp)"
    "utf8_length (hd (utf8 cp)) = length (utf8 cp)" "hd (utf8 cp) AND 0xC0 \<noteq> 0x80"
    "\<forall>b \<in> set (tl (utf8 cp)). b AND 0xC0 = 0x80" "wrenUtf8Decode (utf8 cp @ post) = cp"
    "codepoint_at (pre @ utf8 cp @ post) (int (length pre)) = cp"
    by simp_all
qed

section \<open>One step over a code point\<close>

text \<open>A string that has a whole code point at a position, followed by the end or another start.\<close>

definition at_codepoint :: "bytes \<Rightarrow> bytes \<Rightarrow> bytes \<Rightarrow> bytes \<Rightarrow> bool" where
  "at_codepoint s pre enc post \<longleftrightarrow>
     s = pre @ enc @ post \<and> enc \<noteq> [] \<and> utf8_length (hd enc) = length enc \<and> hd enc AND 0xC0 \<noteq> 0x80 \<and>
     (\<forall>b \<in> set (tl enc). b AND 0xC0 = 0x80) \<and> (post = [] \<or> hd post AND 0xC0 \<noteq> 0x80) \<and>
     int (length s) < 2 ^ 31 - 2"

lemma at_codepointD:
  assumes "at_codepoint s pre enc post"
  shows "s = pre @ enc @ post" "enc \<noteq> []" "utf8_length (hd enc) = length enc" "hd enc AND 0xC0 \<noteq> 0x80"
    "\<forall>b \<in> set (tl enc). b AND 0xC0 = 0x80" "post = [] \<or> hd post AND 0xC0 \<noteq> 0x80"
    "int (length s) < 2 ^ 31 - 2"
  using assms unfolding at_codepoint_def by blast+

lemma at_first: "at_codepoint s pre enc post \<Longrightarrow> s ! length pre = hd enc"
  using at_codepointD(1,2) [of s pre enc post] by (simp add: nth_append hd_conv_nth)

lemma at_inside:
  assumes at: "at_codepoint s pre enc post" and i: "0 < i" "i < length enc"
  shows "s ! (length pre + i) AND 0xC0 = 0x80"
proof -
  obtain j where j: "i = Suc j" using i(1) by (cases i) auto
  have "s ! (length pre + i) = tl enc ! j"
    using i(2) j by (simp add: at_codepointD(1) [OF at] nth_append nth_tl)
  moreover have "tl enc ! j \<in> set (tl enc)" using i(2) j by (intro nth_mem) simp
  ultimately show ?thesis using at_codepointD(5) [OF at] by simp
qed

lemma at_after:
  "at_codepoint s pre enc post \<Longrightarrow> post \<noteq> [] \<Longrightarrow> s ! (length pre + length enc) AND 0xC0 \<noteq> 0x80"
  using at_codepointD(1,6) [of s pre enc post] by (simp add: nth_append hd_conv_nth)

lemma at_size:
  assumes "at_codepoint s pre enc post"
  shows "items_size s = int (length s)" "length pre + length enc \<le> length s" "0 < length enc"
    "int (length pre + length enc) < 2 ^ 31 - 2" "s \<noteq> []" "length pre + length enc \<ge> length s \<longleftrightarrow> post = []"
proof -
  note d = at_codepointD(1,2,7) [OF assms]
  show "items_size s = int (length s)" using d(3) by simp
  show le: "length pre + length enc \<le> length s" "length pre + length enc \<ge> length s \<longleftrightarrow> post = []"
    by (simp_all add: d(1))
  show "0 < length enc" "s \<noteq> []" using d(2) by (simp_all add: d(1))
  show "int (length pre + length enc) < 2 ^ 31 - 2" using d(3) le(1) by linarith
qed

lemma at_utf8_length:
  "at_codepoint s pre enc post \<Longrightarrow> GetUTF8Length s (int (length pre)) = int (length enc)"
  using at_first [of s pre enc post] at_codepointD(3) [of s pre enc post] by (simp add: GetUTF8Length_def)

lemma at_iterate_length:
  assumes at: "at_codepoint s pre enc post"
  shows "iterate_length s (int (length pre)) = int (length enc)"
proof -
  have "is_continuation (s ! nat (int (length pre) + int i))" if "i \<in> set [1..<length enc]" for i
    using at_inside [OF at, of i] that by (simp add: is_continuation_def nat_int_add)
  moreover have "\<not> int (length pre) + int (length enc) > items_size s"
    unfolding at_size(1) [OF at] using at_size(2) [OF at] by linarith
  ultimately show ?thesis
    by (simp add: iterate_length_def at_utf8_length [OF at] Let_def)
qed

text \<open>The position as a number.\<close>

lemma at_number:
  assumes at: "at_codepoint s pre enc post"
  defines "v \<equiv> double_of_int (int (length pre))"
  shows "v \<noteq> NULL_VAL" "is_value_float v" "\<not> is_object v" "validateInt v n = Inr (int (length pre))"
    "encode_number v = Inr v" "double_to_int32 v = Inr (int (length pre))"
    "deq (double_of_int (int (length pre))) v"
proof -
  have b: "int (length pre) < 2 ^ 31 - 2" using at_size(4) [OF at] by simp
  have p: "\<bar>int (length pre)\<bar> \<le> 2 ^ 53" using b by auto
  show f: "is_value_float v" unfolding v_def by (rule float_of_int [OF p])
  then show o: "\<not> is_object v" by (simp add: is_value_float_iff)
  then show "v \<noteq> NULL_VAL" by auto
  show i: "double_to_int32 v = Inr (int (length pre))"
    unfolding v_def using b by (intro double_to_int32_of_int) auto
  show "validateInt v n = Inr (int (length pre))"
    using f i by (simp add: validateInt_def validateNum_def validateIntValue_def get_number_value_def
        v_def dtrunc_of_int_double [OF p] dcompare_of_int(1) [OF p p])
  show "encode_number v = Inr v" using f by (simp add: encode_number_def)
  show "deq (double_of_int (int (length pre))) v" by (simp add: v_def dcompare_of_int(1) [OF p p])
qed

lemma at_step:
  assumes at: "at_codepoint s pre enc post"
  shows "str_Iterate h s (double_of_int (int (length pre))) =
    Inr (if post = [] then encode_bool h False else double_of_int (int (length pre + length enc)))"
proof -
  have q: "\<bar>int (length pre + length enc)\<bar> \<le> 2 ^ 53" using at_size(4) [OF at] by auto
  have "\<not> (int (length pre) < 0 \<or> int (length pre) \<ge> items_size s)"
    unfolding at_size(1) [OF at] using at_size(2,3) [OF at] by linarith
  moreover have "int32 (int (length pre) + int (length enc)) = Inr (int (length pre + length enc))"
    using at_size(4) [OF at] by simp
  moreover have "int (length pre + length enc) \<ge> items_size s \<longleftrightarrow> post = []"
    unfolding at_size(1) [OF at] using at_size(6) [OF at] by (simp only: of_nat_le_iff)
  moreover have "encode_number (double_of_int (int (length pre + length enc))) =
      Inr (double_of_int (int (length pre + length enc)))"
    by (intro encode_number_not_nan double_of_int_fields q)
  ultimately show ?thesis
    unfolding str_Iterate_def IterateImpl_def
    using at_number(1,4) [OF at] at_size(5) [OF at]
    by (simp only: if_False if_True rbind_simps at_iterate_length [OF at]) simp
qed

lemma at_char:
  assumes at: "at_codepoint s pre enc post"
  shows "str_IteratorValue h s (int (length pre)) = Inr enc"
proof -
  have valid: "str_ValidateIndex s (int (length pre)) n False = Inr ()" for n
    unfolding str_ValidateIndex_def at_size(1) [OF at] using at_size(2,3) [OF at] by (cases "length s \<le> length pre") (simp_all add: guard_def)
  have "\<not> int (length pre) + int (length enc) > items_size s"
    unfolding at_size(1) [OF at] using at_size(2) [OF at] by linarith
  then have "str_char_at s (int (length pre)) = substr s (length pre) (length enc)"
    by (simp add: str_char_at_def at_utf8_length [OF at])
  also have "\<dots> = enc" by (simp add: substr_def at_codepointD(1) [OF at])
  finally have "str_char_at s (int (length pre)) = enc" .
  then show ?thesis
    using at_number [OF at]
    by (simp add: str_IteratorValue_def valid str_OperatorSubscript_def PrepareIndex_def get_number_value_def)
qed

lemma at_ref_next:
  assumes at: "at_codepoint s pre enc post"
  shows "i < length enc \<Longrightarrow> ref_next s (length pre + i) =
    (if post = [] then None else Some (length pre + length enc))"
proof (induction "length enc - i" arbitrary: i)
  case 0
  then show ?case by simp
next
  case (Suc k)
  show ?case
  proof (cases "Suc i < length enc")
    case True
    then have "length pre + i + 1 < length s" using at_size(2) [OF at] by linarith
    then have "ref_next s (length pre + i) = ref_next s (length pre + Suc i)"
      using at_inside [OF at, of "Suc i"] True by (subst ref_next.simps) (simp add: Let_def)
    also have "\<dots> = (if post = [] then None else Some (length pre + length enc))"
      using Suc True by (intro Suc.hyps(1)) simp_all
    finally show ?thesis .
  next
    case False
    then have "length pre + i + 1 = length pre + length enc" using Suc.prems by simp
    then have "ref_next s (length pre + i) = (if length pre + length enc \<ge> length s then None
        else if s ! (length pre + length enc) AND 0xC0 = 0x80 then ref_next s (length pre + length enc)
        else Some (length pre + length enc))"
      by (subst ref_next.simps) (simp only: Let_def)
    then show ?thesis
      using at_after [OF at] at_size(6) [OF at] by simp
  qed
qed

section \<open>The whole string\<close>

lemma utf8_string_split:
  assumes "k < length cps"
  shows "utf8_string cps = utf8_string (take k cps) @ utf8 (cps ! k) @ utf8_string (drop (Suc k) cps)"
    and "position cps (Suc k) = position cps k + length (utf8 (cps ! k))"
  unfolding utf8_string_def position_def
  by (subst id_take_nth_drop [OF assms]) (simp_all add: take_Suc_conv_app_nth [OF assms])

lemma utf8_string_head:
  assumes "\<forall>cp \<in> set cps. valid_cp cp"
  shows "utf8_string cps = [] \<or> hd (utf8_string cps) AND 0xC0 \<noteq> 0x80"
    and "utf8_string cps = [] \<longleftrightarrow> cps = []"
  using assms utf8_facts(1,5) by (cases cps; simp add: utf8_string_def hd_append)+

lemma at_codepoint_utf8:
  assumes "\<forall>cp \<in> set cps. valid_cp cp" "k < length cps" "int (length (utf8_string cps)) < 2 ^ 31 - 2"
  shows "at_codepoint (utf8_string cps) (utf8_string (take k cps)) (utf8 (cps ! k)) (utf8_string (drop (Suc k) cps))"
  unfolding at_codepoint_def
proof (intro conjI)
  have v: "valid_cp (cps ! k)" using assms by simp
  have vs: "\<forall>cp \<in> set (drop (Suc k) cps). valid_cp cp" using assms(1) by (auto dest: in_set_dropD)
  show "utf8_string cps = utf8_string (take k cps) @ utf8 (cps ! k) @ utf8_string (drop (Suc k) cps)"
    by (rule utf8_string_split [OF assms(2)])
  show "utf8 (cps ! k) \<noteq> []" "utf8_length (hd (utf8 (cps ! k))) = length (utf8 (cps ! k))"
    "hd (utf8 (cps ! k)) AND 0xC0 \<noteq> 0x80" "\<forall>b \<in> set (tl (utf8 (cps ! k))). b AND 0xC0 = 0x80"
    using utf8_facts [OF v] by auto
  show "utf8_string (drop (Suc k) cps) = [] \<or> hd (utf8_string (drop (Suc k) cps)) AND 0xC0 \<noteq> 0x80"
    by (rule utf8_string_head [OF vs])
qed (rule assms(3))

text \<open>
  C17: Iterating over a string built from code points visits them in order: from the start of each
  one the iteration moves to the start of the next, or returns false after the last; the value at
  each position is the encoding of its code point, which CodePointAt returns.  The reference
  interpreter's iteration visits the same positions with the same values.
\<close>

theorem string_iteration:
  assumes "\<forall>cp \<in> set cps. valid_cp cp" "k < length cps" "int (length (utf8_string cps)) < 2 ^ 31 - 2"
  shows "str_Iterate h (utf8_string cps) NULL_VAL = Inr (double_of_int (int (position cps 0))) \<and>
    str_Iterate h (utf8_string cps) (double_of_int (int (position cps k))) =
      Inr (if Suc k = length cps then encode_bool h False else double_of_int (int (position cps (Suc k)))) \<and>
    str_IteratorValue h (utf8_string cps) (int (position cps k)) = Inr (utf8 (cps ! k)) \<and>
    CodePointAt (utf8_string cps) (int (position cps k)) = Inr (cps ! k) \<and>
    ref_next (utf8_string cps) (position cps k) =
      (if Suc k = length cps then None else Some (position cps (Suc k))) \<and>
    wrenStringCodePointAt (utf8_string cps) (position cps k) = Inr (utf8 (cps ! k))"
proof -
  note at = at_codepoint_utf8 [OF assms, folded position_def]
  have vs: "\<forall>cp \<in> set (drop (Suc k) cps). valid_cp cp" using assms(1) by (auto dest: in_set_dropD)
  have v: "valid_cp (cps ! k)" using assms by simp
  have last: "utf8_string (drop (Suc k) cps) = [] \<longleftrightarrow> Suc k = length cps"
    unfolding utf8_string_head(2) [OF vs] using assms(2) by auto
  have next': "position cps (Suc k) = position cps k + length (utf8 (cps ! k))"
    by (rule utf8_string_split(2) [OF assms(2)])
  note s = at_codepointD(1) [OF at]
  have cp: "codepoint_at (utf8_string cps) (int (position cps k)) = cps ! k"
    using utf8_facts(8) [OF v] by (simp add: s position_def)
  have idx: "0 \<le> int (position cps k)" "int (position cps k) < int (length (utf8_string cps))"
    "int32_value (int (position cps k))" "int (length (utf8_string cps)) < 2 ^ 31"
    using at_size(2,3,4) [OF at] assms(3) unfolding position_def by linarith+
  have dec: "wrenUtf8Decode (drop (position cps k) (utf8_string cps)) = cps ! k"
    using utf8_facts(7) [OF v] by (simp add: s position_def)
  have "str_Iterate h (utf8_string cps) NULL_VAL = Inr (double_of_int 0)"
    using at_size(5) [OF at] encode_number_not_nan [OF double_of_int_fields(4) [of 0]]
    by (simp add: str_Iterate_def IterateImpl_def)
  moreover have "position cps 0 = 0" by (simp add: position_def utf8_string_def)
  ultimately show ?thesis
    using at_step [OF at, of h] at_char [OF at, of h] at_ref_next [OF at, of 0] at_size(3) [OF at]
      PrepareIndex_eq [OF idx(4,3), of "''Index''"] idx(1,2) cp dec utf8_facts(3) [OF v] v
    by (simp add: last next' CodePointAt_def wrenStringCodePointAt_def valid_cp_def position_def [symmetric])
qed

theorem string_iteration_witness:
  "str_Iterate demo_heap (utf8_string [0x61, 0xE9]) (double_of_int (int (position [0x61, 0xE9] 0))) =
      Inr (double_of_int (int (position [0x61, 0xE9] 1))) \<and>
   str_IteratorValue demo_heap (utf8_string [0x61, 0xE9]) (int (position [0x61, 0xE9] 0)) = Inr (utf8 0x61) \<and>
   utf8_string [0x61, 0xE9] = [0x61, 0xC3, 0xA9] \<and> position [0x61, 0xE9] 1 = 1"
proof -
  have c: "utf8_string [0x61, 0xE9] = [0x61, 0xC3, 0xA9]" "position [0x61, 0xE9] 1 = 1" by code_simp+
  have "\<forall>cp \<in> set [0x61, 0xE9]. valid_cp cp" "0 < length [0x61, 0xE9 :: int]"
    "int (length (utf8_string [0x61, 0xE9])) < 2 ^ 31 - 2"
    by (simp_all add: valid_cp_def c)
  from string_iteration [OF this, of demo_heap] c show ?thesis by simp
qed

end
