(* ===== verification/Vm_Values.thy ===== *)
theory Vm_Values
  imports Utf8
begin

text \<open>
  The values of the reference interpreter (lib/wren-main/src/vm/wren_value.h, in its NaN-tagged
  form), their equality and their hash codes (wren_value.c).

  The heap gives the object behind every object pointer, as every pointer of a value points to a
  live object.
\<close>

definition SIGN_BIT :: u64 where
  "SIGN_BIT = 0x8000000000000000"

definition QNAN :: u64 where
  "QNAN = 0x7ffc000000000000"

definition IS_NUM :: "u64 \<Rightarrow> bool" where
  "IS_NUM v \<longleftrightarrow> v AND QNAN \<noteq> QNAN"

definition IS_OBJ :: "u64 \<Rightarrow> bool" where
  "IS_OBJ v \<longleftrightarrow> v AND (QNAN OR SIGN_BIT) = QNAN OR SIGN_BIT"

definition AS_OBJ :: "u64 \<Rightarrow> ptr" where
  "AS_OBJ v = v AND NOT (SIGN_BIT OR QNAN)"

definition VM_NULL :: u64 where "VM_NULL = QNAN OR 1"
definition FALSE_VAL :: u64 where "FALSE_VAL = QNAN OR 2"
definition TRUE_VAL :: u64 where "TRUE_VAL = QNAN OR 3"
definition UNDEFINED_VAL :: u64 where "UNDEFINED_VAL = QNAN OR 4"

text \<open>The objects that can be compared by value or hashed; \<open>OString\<close> carries its stored hash.\<close>

datatype vm_obj =
    OString u32 bytes
  | ORange double double bool
  | OClass ptr
  | OFn nat nat
  | OOther

type_synonym vm_heap = "ptr \<Rightarrow> vm_obj"

definition wrenValuesSame :: "u64 \<Rightarrow> u64 \<Rightarrow> bool" where
  "wrenValuesSame a b \<longleftrightarrow> a = b"

definition wrenStringEqualsCString :: "bytes \<Rightarrow> bytes \<Rightarrow> nat \<Rightarrow> bool" where
  "wrenStringEqualsCString a b len \<longleftrightarrow> length a = len \<and> take len a = take len b"

definition wrenValuesEqual :: "vm_heap \<Rightarrow> u64 \<Rightarrow> u64 \<Rightarrow> bool" where
  "wrenValuesEqual h a b =
     (if wrenValuesSame a b then True
      else if \<not> IS_OBJ a \<or> \<not> IS_OBJ b then False
      else case (h (AS_OBJ a), h (AS_OBJ b)) of
          (ORange af at' ai, ORange bf bt bi) \<Rightarrow> deq af bf \<and> deq at' bt \<and> ai = bi
        | (OString ah as, OString bh bs) \<Rightarrow> ah = bh \<and> wrenStringEqualsCString as bs (length bs)
        | _ \<Rightarrow> False)"

text \<open>The characters of a string are signed: a byte from 0x80 is sign-extended before the exclusive or.\<close>

definition hashString :: "bytes \<Rightarrow> u32" where
  "hashString bs = fold (\<lambda>b hash. (hash XOR scast b) * 16777619) bs 2166136261"

definition hashBits :: "u64 \<Rightarrow> u32" where
  "hashBits hash =
     (let hash = NOT hash + push_bit 18 hash;
          hash = hash XOR drop_bit 31 hash;
          hash = hash * 21;
          hash = hash XOR drop_bit 11 hash;
          hash = hash + push_bit 6 hash;
          hash = hash XOR drop_bit 22 hash
      in ucast (hash AND 0x3fffffff))"

definition hashNumber :: "double \<Rightarrow> u32" where
  "hashNumber num = hashBits num"

text \<open>A class hashes as the string that is its name; other objects have no hash, which is 0.\<close>

definition hashObject :: "vm_heap \<Rightarrow> ptr \<Rightarrow> u32" where
  "hashObject h p =
     (case h p of
        OClass name \<Rightarrow> (case h name of OString hash bs \<Rightarrow> hash | _ \<Rightarrow> 0)
      | OFn arity codes \<Rightarrow> hashNumber (double_of_int (int arity)) XOR hashNumber (double_of_int (int codes))
      | ORange f t i \<Rightarrow> hashNumber f XOR hashNumber t
      | OString hash bs \<Rightarrow> hash
      | OOther \<Rightarrow> 0)"

definition hashValue :: "vm_heap \<Rightarrow> u64 \<Rightarrow> u32" where
  "hashValue h v = (if IS_OBJ v then hashObject h (AS_OBJ v) else hashBits v)"

definition wrenMapIsValidKey :: "vm_heap \<Rightarrow> u64 \<Rightarrow> bool" where
  "wrenMapIsValidKey h v \<longleftrightarrow>
     v = TRUE_VAL \<or> v = FALSE_VAL \<or>
     (IS_OBJ v \<and> (case h (AS_OBJ v) of OClass n \<Rightarrow> True | _ \<Rightarrow> False)) \<or>
     v = VM_NULL \<or> IS_NUM v \<or>
     (IS_OBJ v \<and> (case h (AS_OBJ v) of ORange f t i \<Rightarrow> True | _ \<Rightarrow> False)) \<or>
     (IS_OBJ v \<and> (case h (AS_OBJ v) of OString hash bs \<Rightarrow> True | _ \<Rightarrow> False))"

end
