(* ===== verification/Vm_Map.thy ===== *)
theory Vm_Map
  imports Vm_Values Vm_Utils
begin

text \<open>
  The hash map of the reference interpreter (lib/wren-main/src/vm/wren_value.c): open addressing with
  linear probing, tombstones for removed entries, growth at a load of three quarters and shrinking.

  An entry is a pair of a key and a value.  An undefined key marks a free entry, which is a tombstone
  unless its value is false.  Counts are \<open>uint32_t\<close>, so the load limit is computed modulo \<open>2 ^ 32\<close>.
\<close>

type_synonym entry = "u64 \<times> u64"

record vm_map =
  m_count :: nat
  m_entries :: "entry list"

abbreviation m_capacity :: "vm_map \<Rightarrow> nat" where
  "m_capacity m \<equiv> length (m_entries m)"

definition MIN_CAPACITY :: nat where "MIN_CAPACITY = 16"
definition MAP_LOAD_PERCENT :: nat where "MAP_LOAD_PERCENT = 75"

definition wrenNewMap :: vm_map where
  "wrenNewMap = \<lparr>m_count = 0, m_entries = []\<rparr>"

definition IS_UNDEFINED :: "u64 \<Rightarrow> bool" where
  "IS_UNDEFINED v \<longleftrightarrow> v = UNDEFINED_VAL"

definition IS_FALSE :: "u64 \<Rightarrow> bool" where
  "IS_FALSE v \<longleftrightarrow> v = FALSE_VAL"

text \<open>
  The probe of \<open>findEntry\<close>.  The loop visits the entries from the start index on, wrapping around,
  until it is back at the start: \<open>n\<close> is the number of entries left.  The result is whether the key
  was found, and the entry \<open>*result\<close> points to (\<open>None\<close> for a null pointer).
\<close>

primrec probe :: "nat \<Rightarrow> (u64 \<Rightarrow> u64 \<Rightarrow> bool) \<Rightarrow> entry list \<Rightarrow> u64 \<Rightarrow> nat \<Rightarrow> nat option \<Rightarrow> bool \<times> nat option" where
  "probe 0 eq entries key index tombstone = (False, tombstone)"
| "probe (Suc n) eq entries key index tombstone =
     (let e = entries ! index; next' = (index + 1) mod length entries in
      if IS_UNDEFINED (fst e) then
        (if IS_FALSE (snd e) then (False, Some (case tombstone of None \<Rightarrow> index | Some t \<Rightarrow> t))
         else probe n eq entries key next' (if tombstone = None then Some index else tombstone))
      else if eq (fst e) key then (True, Some index)
      else probe n eq entries key next' tombstone)"

definition findEntry :: "vm_heap \<Rightarrow> entry list \<Rightarrow> u64 \<Rightarrow> bool \<times> nat option" where
  "findEntry h entries key =
     (if length entries = 0 then (False, None)
      else probe (length entries) (wrenValuesEqual h) entries key
        (unat (hashValue h key) mod length entries) None)"

text \<open>The new entries, and whether the key is new.\<close>

definition insertEntry :: "vm_heap \<Rightarrow> entry list \<Rightarrow> u64 \<Rightarrow> u64 \<Rightarrow> (entry list \<times> bool) res" where
  "insertEntry h entries key v =
     (case findEntry h entries key of
        (found, None) \<Rightarrow> Inl Undefined
      | (True, Some i) \<Rightarrow> Inr (entries[i := (fst (entries ! i), v)], False)
      | (False, Some i) \<Rightarrow> Inr (entries[i := (key, v)], True))"

text \<open>The loop of \<open>resizeMap\<close> that adds the old entries to the new array.\<close>

primrec rehash :: "vm_heap \<Rightarrow> entry list \<Rightarrow> entry list \<Rightarrow> entry list res" where
  "rehash h [] entries = Inr entries"
| "rehash h (e # old) entries =
     (if IS_UNDEFINED (fst e) then rehash h old entries
      else rbind (insertEntry h entries (fst e) (snd e)) (\<lambda>r. rehash h old (fst r)))"

definition resizeMap :: "vm_heap \<Rightarrow> vm_map \<Rightarrow> nat \<Rightarrow> vm_map res" where
  "resizeMap h m cap =
     rbind (rehash h (m_entries m) (replicate cap (UNDEFINED_VAL, FALSE_VAL))) (\<lambda>entries.
       Inr (m\<lparr>m_entries := entries\<rparr>))"

definition wrenMapGet :: "vm_heap \<Rightarrow> vm_map \<Rightarrow> u64 \<Rightarrow> u64" where
  "wrenMapGet h m key =
     (case findEntry h (m_entries m) key of
        (True, Some i) \<Rightarrow> snd (m_entries m ! i)
      | _ \<Rightarrow> UNDEFINED_VAL)"

definition load_limit :: "nat \<Rightarrow> nat" where
  "load_limit cap = (cap * MAP_LOAD_PERCENT) mod 2 ^ 32 div 100"

definition wrenMapSet :: "vm_heap \<Rightarrow> vm_map \<Rightarrow> u64 \<Rightarrow> u64 \<Rightarrow> vm_map res" where
  "wrenMapSet h m key v =
     rbind (if m_count m + 1 > load_limit (m_capacity m) then
              (let cap = m_capacity m * GROW_FACTOR;
                   cap = (if cap < MIN_CAPACITY then MIN_CAPACITY else cap)
               in resizeMap h m cap)
            else Inr m) (\<lambda>m.
     rbind (insertEntry h (m_entries m) key v) (\<lambda>(entries, isNew).
       Inr \<lparr>m_count = (if isNew then m_count m + 1 else m_count m), m_entries = entries\<rparr>))"

definition wrenMapClear :: "vm_map \<Rightarrow> vm_map" where
  "wrenMapClear m = \<lparr>m_count = 0, m_entries = []\<rparr>"

definition wrenMapRemoveKey :: "vm_heap \<Rightarrow> vm_map \<Rightarrow> u64 \<Rightarrow> (u64 \<times> vm_map) res" where
  "wrenMapRemoveKey h m key =
     (case findEntry h (m_entries m) key of
        (True, Some i) \<Rightarrow>
          (let v = snd (m_entries m ! i);
               m = \<lparr>m_count = m_count m - 1, m_entries = (m_entries m)[i := (UNDEFINED_VAL, TRUE_VAL)]\<rparr>
           in if m_count m = 0 then Inr (v, wrenMapClear m)
              else if m_capacity m > MIN_CAPACITY \<and>
                m_count m < (m_capacity m div GROW_FACTOR * MAP_LOAD_PERCENT) mod 2 ^ 32 div 100
              then (let cap = m_capacity m div GROW_FACTOR;
                        cap = (if cap < MIN_CAPACITY then MIN_CAPACITY else cap)
                    in rbind (resizeMap h m cap) (\<lambda>m. Inr (v, m)))
              else Inr (v, m))
      | _ \<Rightarrow> Inr (VM_NULL, m))"

section \<open>The primitives\<close>

definition ref_validateKey :: "vm_heap \<Rightarrow> u64 \<Rightarrow> string + unit" where
  "ref_validateKey h key =
     (if wrenMapIsValidKey h key then Inr () else Inl ''Key must be a value type.'')"

definition map_subscript :: "vm_heap \<Rightarrow> vm_map \<Rightarrow> u64 \<Rightarrow> string + u64" where
  "map_subscript h m key =
     (case ref_validateKey h key of
        Inl e \<Rightarrow> Inl e
      | Inr _ \<Rightarrow>
          (let v = wrenMapGet h m key in Inr (if IS_UNDEFINED v then VM_NULL else v)))"

definition map_subscriptSetter :: "vm_heap \<Rightarrow> vm_map \<Rightarrow> u64 \<Rightarrow> u64 \<Rightarrow> string + (u64 \<times> vm_map) res" where
  "map_subscriptSetter h m key v =
     (case ref_validateKey h key of
        Inl e \<Rightarrow> Inl e
      | Inr _ \<Rightarrow> Inr (rbind (wrenMapSet h m key v) (\<lambda>m. Inr (v, m))))"

definition map_containsKey :: "vm_heap \<Rightarrow> vm_map \<Rightarrow> u64 \<Rightarrow> string + bool" where
  "map_containsKey h m key =
     (case ref_validateKey h key of
        Inl e \<Rightarrow> Inl e
      | Inr _ \<Rightarrow> Inr (\<not> IS_UNDEFINED (wrenMapGet h m key)))"

definition map_remove :: "vm_heap \<Rightarrow> vm_map \<Rightarrow> u64 \<Rightarrow> string + (u64 \<times> vm_map) res" where
  "map_remove h m key =
     (case ref_validateKey h key of
        Inl e \<Rightarrow> Inl e
      | Inr _ \<Rightarrow> Inr (wrenMapRemoveKey h m key))"

text \<open>The search of \<open>map_iterate\<close> for a used entry: \<open>None\<close> is the result \<open>false\<close>.\<close>

function next_used :: "entry list \<Rightarrow> nat \<Rightarrow> nat option" where
  "next_used entries index =
     (if index < length entries then
        (if \<not> IS_UNDEFINED (fst (entries ! index)) then Some index else next_used entries (index + 1))
      else None)"
  by auto
termination by (relation "measure (\<lambda>(es, i). length es - i)") auto

declare next_used.simps [simp del]

end
