(* ===== verification/Hashed_Keys.thy ===== *)
theory Hashed_Keys
  imports Vm_Map "HOL-Library.Multiset"
begin

text \<open>
  What a hash map needs of the equality and the hash of its keys, as a contract, and what follows for
  association lists and for tables with open addressing.  The contract is met by the reference
  interpreter's values (\<open>Vm_Map_Proofs\<close>) and by the runtime's (\<open>Map_Object\<close>).
\<close>

section \<open>Equality of keys\<close>

locale key_equality =
  fixes eq :: "u64 \<Rightarrow> u64 \<Rightarrow> bool"
  assumes eq_refl [simp]: "eq a a"
    and eq_sym: "eq a b \<Longrightarrow> eq b a"
    and eq_trans: "eq a b \<Longrightarrow> eq b c \<Longrightarrow> eq a c"
begin

lemma eq_cong: "eq a b \<Longrightarrow> eq a c \<longleftrightarrow> eq b c"
  using eq_sym eq_trans by blast

text \<open>The value of the first pair with an equal key, among the pairs that are in use.\<close>

definition lookup :: "(u64 \<Rightarrow> bool) \<Rightarrow> (u64 \<times> 'v) list \<Rightarrow> u64 \<Rightarrow> 'v option" where
  "lookup used es k = map_option snd (find (\<lambda>e. used (fst e) \<and> eq (fst e) k) es)"

definition distinct_keys :: "(u64 \<Rightarrow> bool) \<Rightarrow> (u64 \<times> 'v) list \<Rightarrow> bool" where
  "distinct_keys used es \<longleftrightarrow>
     (\<forall>i < length es. \<forall>j < length es.
        used (fst (es ! i)) \<and> used (fst (es ! j)) \<and> eq (fst (es ! i)) (fst (es ! j)) \<longrightarrow> i = j)"

lemma lookup_simps [simp]:
  "lookup used [] k = None"
  "lookup used (e # es) k = (if used (fst e) \<and> eq (fst e) k then Some (snd e) else lookup used es k)"
  by (simp_all add: lookup_def)

lemma lookup_None_iff: "lookup used es k = None \<longleftrightarrow> (\<forall>e \<in> set es. used (fst e) \<longrightarrow> \<not> eq (fst e) k)"
  by (auto simp: lookup_def find_None_iff)

lemma distinct_keys_Cons:
  "distinct_keys used (e # es) \<longleftrightarrow>
    (used (fst e) \<longrightarrow> lookup used es (fst e) = None) \<and> distinct_keys used es"
  unfolding distinct_keys_def lookup_None_iff
  by (auto simp: all_set_conv_all_nth nth_Cons All_less_Suc2 split: nat.splits dest: eq_sym)

lemma lookup_Some_iff:
  "distinct_keys used es \<Longrightarrow>
    lookup used es k = Some v \<longleftrightarrow>
      (\<exists>i < length es. used (fst (es ! i)) \<and> eq (fst (es ! i)) k \<and> snd (es ! i) = v)"
proof (induction es)
  case (Cons e es)
  then have IH: "lookup used es k = Some v \<longleftrightarrow>
      (\<exists>i < length es. used (fst (es ! i)) \<and> eq (fst (es ! i)) k \<and> snd (es ! i) = v)"
    by (simp add: distinct_keys_Cons)
  show ?case
  proof (cases "used (fst e) \<and> eq (fst e) k")
    case True
    then have "lookup used es k = None"
      using Cons.prems unfolding distinct_keys_Cons lookup_None_iff by (meson eq_sym eq_trans)
    then have "\<not> (\<exists>i < length es. used (fst (es ! i)) \<and> eq (fst (es ! i)) k)"
      by (auto simp: lookup_None_iff all_set_conv_all_nth)
    then show ?thesis using True by (auto simp: Ex_less_Suc2)
  next
    case False
    then show ?thesis by (auto simp: IH Ex_less_Suc2)
  qed
qed simp

lemma lookup_cong:
  fixes es :: "(u64 \<times> 'v) list"
  shows "eq k k' \<Longrightarrow> lookup used es k = lookup used es k'"
proof -
  assume "eq k k'"
  then have "(\<lambda>e. used (fst e) \<and> eq (fst e) k) = (\<lambda>e :: u64 \<times> 'v. used (fst e) \<and> eq (fst e) k')"
    by (intro ext) (meson eq_sym eq_trans)
  then show ?thesis by (simp only: lookup_def)
qed

text \<open>Changing one pair.\<close>

lemma lookup_update_value:
  assumes "distinct_keys used es" "i < length es" "used (fst (es ! i))"
  shows "lookup used (es[i := (fst (es ! i), v)]) k = (if eq (fst (es ! i)) k then Some v else lookup used es k)"
    and "distinct_keys used (es[i := (fst (es ! i), v)])"
proof -
  have same: "fst (es[i := (fst (es ! i), v)] ! j) = fst (es ! j)" if "j < length es" for j
    using that by (cases "j = i") auto
  show d: "distinct_keys used (es[i := (fst (es ! i), v)])"
    using assms(1) unfolding distinct_keys_def by (simp add: same)
  show "lookup used (es[i := (fst (es ! i), v)]) k = (if eq (fst (es ! i)) k then Some v else lookup used es k)"
  proof (cases "eq (fst (es ! i)) k")
    case True
    then have "\<exists>j < length es. used (fst (es[i := (fst (es ! i), v)] ! j)) \<and>
        eq (fst (es[i := (fst (es ! i), v)] ! j)) k \<and> snd (es[i := (fst (es ! i), v)] ! j) = v"
      using assms(2,3) by (intro exI [of _ i]) simp
    then show ?thesis using True lookup_Some_iff [OF d, of k v] by simp
  next
    case False
    have "lookup used (es[i := (fst (es ! i), v)]) k = Some w \<longleftrightarrow> lookup used es k = Some w" for w
      unfolding lookup_Some_iff [OF d] lookup_Some_iff [OF assms(1)] length_list_update
      using False by (metis nth_list_update_neq same)
    then show ?thesis using False by (metis (full_types) not_None_eq)
  qed
qed

lemma lookup_fill:
  assumes "distinct_keys used es" "i < length es" "\<not> used (fst (es ! i))" "used k" "lookup used es k = None"
  shows "lookup used (es[i := (k, v)]) k' = (if eq k k' then Some v else lookup used es k')"
    and "distinct_keys used (es[i := (k, v)])"
proof -
  have new: "\<not> eq (fst (es ! j)) k" "\<not> eq k (fst (es ! j))" if "j < length es" "used (fst (es ! j))" for j
    using assms(5) that by (auto simp: lookup_None_iff dest: eq_sym)
  show d: "distinct_keys used (es[i := (k, v)])"
    using assms(1,2) new unfolding distinct_keys_def
    by (auto simp: nth_list_update)
  show "lookup used (es[i := (k, v)]) k' = (if eq k k' then Some v else lookup used es k')"
  proof (cases "eq k k'")
    case True
    then have "\<exists>j < length es. used (fst (es[i := (k, v)] ! j)) \<and>
        eq (fst (es[i := (k, v)] ! j)) k' \<and> snd (es[i := (k, v)] ! j) = v"
      using assms(2,4) by (intro exI [of _ i]) simp
    then show ?thesis using True lookup_Some_iff [OF d, of k' v] by simp
  next
    case False
    have "lookup used (es[i := (k, v)]) k' = Some w \<longleftrightarrow> lookup used es k' = Some w" for w
      unfolding lookup_Some_iff [OF d] lookup_Some_iff [OF assms(1)] length_list_update
      using False assms(2,3) by (metis fst_conv nth_list_update)
    then show ?thesis using False by (metis (full_types) not_None_eq)
  qed
qed

lemma lookup_clear:
  assumes "distinct_keys used es" "i < length es" "used (fst (es ! i))" "\<not> used (fst e)"
  shows "lookup used (es[i := e]) k = (if eq (fst (es ! i)) k then None else lookup used es k)"
    and "distinct_keys used (es[i := e])"
proof -
  show d: "distinct_keys used (es[i := e])"
    using assms(1,2,4) unfolding distinct_keys_def by (auto simp: nth_list_update)
  have "lookup used (es[i := e]) k = Some w \<longleftrightarrow> \<not> eq (fst (es ! i)) k \<and> lookup used es k = Some w" for w
  proof
    assume "lookup used (es[i := e]) k = Some w"
    then obtain j where j: "j < length es" "used (fst (es[i := e] ! j))" "eq (fst (es[i := e] ! j)) k"
      "snd (es[i := e] ! j) = w"
      unfolding lookup_Some_iff [OF d] by auto
    then have "j \<noteq> i" using assms(2,4) by auto
    moreover have "\<not> eq (fst (es ! i)) k"
    proof
      assume "eq (fst (es ! i)) k"
      moreover have e: "es[i := e] ! j = es ! j" using \<open>j \<noteq> i\<close> by simp
      ultimately have "eq (fst (es ! i)) (fst (es ! j))" using j(3) eq_sym eq_trans unfolding e by blast
      then have "i = j" using assms(1-3) j(1,2) unfolding distinct_keys_def e by blast
      then show False using \<open>j \<noteq> i\<close> by simp
    qed
    ultimately show "\<not> eq (fst (es ! i)) k \<and> lookup used es k = Some w"
      using j unfolding lookup_Some_iff [OF assms(1)] by auto
  next
    assume "\<not> eq (fst (es ! i)) k \<and> lookup used es k = Some w"
    then show "lookup used (es[i := e]) k = Some w"
      unfolding lookup_Some_iff [OF d] lookup_Some_iff [OF assms(1)] length_list_update
      by (metis nth_list_update_neq)
  qed
  then show "lookup used (es[i := e]) k = (if eq (fst (es ! i)) k then None else lookup used es k)"
    by (metis (full_types) not_None_eq)
qed

text \<open>Both do not depend on the order of the pairs.\<close>

lemma distinct_keys_filter:
  "distinct_keys used es \<longleftrightarrow> (\<forall>k. length (filter (\<lambda>e. used (fst e) \<and> eq (fst e) k) es) \<le> 1)"
proof (induction es)
  case Nil
  then show ?case by (simp add: distinct_keys_def)
next
  case (Cons e es)
  have none: "lookup used es k = None \<longleftrightarrow> filter (\<lambda>e. used (fst e) \<and> eq (fst e) k) es = []" for k
    by (auto simp: lookup_None_iff filter_empty_conv)
  show ?case
  proof (cases "used (fst e)")
    case False
    then show ?thesis by (simp add: distinct_keys_Cons Cons.IH)
  next
    case True
    have "(\<forall>k. length (filter (\<lambda>e. used (fst e) \<and> eq (fst e) k) (e # es)) \<le> 1) \<longleftrightarrow>
        lookup used es (fst e) = None \<and> distinct_keys used es"
    proof
      assume a: "\<forall>k. length (filter (\<lambda>e. used (fst e) \<and> eq (fst e) k) (e # es)) \<le> 1"
      have "length (filter (\<lambda>e. used (fst e) \<and> eq (fst e) k) es) \<le> 1" for k
        using a [rule_format, of k] by (simp split: if_splits)
      moreover have "filter (\<lambda>e'. used (fst e') \<and> eq (fst e') (fst e)) es = []"
        using a [rule_format, of "fst e"] True by simp
      ultimately show "lookup used es (fst e) = None \<and> distinct_keys used es"
        by (simp add: Cons.IH none)
    next
      assume a: "lookup used es (fst e) = None \<and> distinct_keys used es"
      show "\<forall>k. length (filter (\<lambda>e. used (fst e) \<and> eq (fst e) k) (e # es)) \<le> 1"
      proof
        fix k
        show "length (filter (\<lambda>e. used (fst e) \<and> eq (fst e) k) (e # es)) \<le> 1"
        proof (cases "eq (fst e) k")
          case True
          then have "lookup used es k = None" using a lookup_cong [of "fst e" k used es] by simp
          then show ?thesis by (simp add: none)
        next
          case False
          then show ?thesis using a by (simp add: Cons.IH)
        qed
      qed
    qed
    then show ?thesis using True by (simp add: distinct_keys_Cons)
  qed
qed

lemma distinct_keys_permuted:
  assumes "mset es = mset es'" "distinct_keys used es"
  shows "distinct_keys used es'"
proof -
  have "length (filter P es') = length (filter P es)" for P
    using assms(1) by (metis mset_filter size_mset)
  then show ?thesis using assms(2) by (simp add: distinct_keys_filter)
qed

lemma lookup_set_iff:
  "distinct_keys used es \<Longrightarrow>
    lookup used es k = Some v \<longleftrightarrow> (\<exists>e \<in> set es. used (fst e) \<and> eq (fst e) k \<and> snd e = v)"
  unfolding lookup_Some_iff by (metis in_set_conv_nth)

lemma lookup_permuted:
  assumes "mset es = mset es'" "distinct_keys used es"
  shows "lookup used es' k = lookup used es k"
proof -
  have "set es' = set es" using assms(1) by (metis set_mset_mset)
  then have "lookup used es' k = Some v \<longleftrightarrow> lookup used es k = Some v" for v
    using lookup_set_iff [OF assms(2)] lookup_set_iff [OF distinct_keys_permuted [OF assms]] by simp
  then show ?thesis by (metis (full_types) not_None_eq)
qed

lemma lookup_append:
  "lookup used (es @ es') k = (case lookup used es k of None \<Rightarrow> lookup used es' k | Some v \<Rightarrow> Some v)"
  by (induction es) simp_all

lemma distinct_keys_append_one:
  assumes "distinct_keys used es" "lookup used es k = None"
  shows "distinct_keys used (es @ [(k, v)])"
  using assms
proof (induction es)
  case Nil
  then show ?case by (simp add: distinct_keys_def)
next
  case (Cons e es)
  then have "used (fst e) \<Longrightarrow> \<not> eq k (fst e)" using eq_sym by (auto split: if_splits)
  with Cons show ?case
    by (auto simp: distinct_keys_Cons lookup_append split: if_splits)
qed

end

section \<open>Tables with open addressing\<close>

text \<open>\<open>ok\<close> are the valid keys; on them, equal keys have the same hash.\<close>

locale hashed_keys = key_equality +
  fixes ok :: "u64 \<Rightarrow> bool" and hash :: "u64 \<Rightarrow> nat"
  assumes hash_eq: "ok a \<Longrightarrow> ok b \<Longrightarrow> eq a b \<Longrightarrow> hash a = hash b"

text \<open>In the reference interpreter's tables an undefined key marks a free entry.\<close>

locale open_table = hashed_keys +
  assumes ok_used: "ok a \<Longrightarrow> \<not> IS_UNDEFINED a"
begin

abbreviation used :: "u64 \<Rightarrow> bool" where
  "used k \<equiv> \<not> IS_UNDEFINED k"

definition free :: "entry list \<Rightarrow> nat \<Rightarrow> bool" where
  "free es i \<longleftrightarrow> IS_UNDEFINED (fst (es ! i)) \<and> IS_FALSE (snd (es ! i))"

text \<open>The entry a probe for \<open>k\<close> visits after \<open>d\<close> steps.\<close>

definition visit :: "entry list \<Rightarrow> u64 \<Rightarrow> nat \<Rightarrow> nat" where
  "visit es k d = (hash k + d) mod length es"

text \<open>Every key in use is reached by its probe before a free entry, and no two keys are equal.\<close>

definition table_ok :: "entry list \<Rightarrow> bool" where
  "table_ok es \<longleftrightarrow>
     distinct_keys used es \<and>
     (\<forall>i < length es. used (fst (es ! i)) \<longrightarrow> ok (fst (es ! i)) \<and>
        (\<exists>d < length es. i = visit es (fst (es ! i)) d \<and> (\<forall>d' < d. \<not> free es (visit es (fst (es ! i)) d'))))"

lemma visit_lt [simp]: "0 < length es \<Longrightarrow> visit es k d < length es"
  by (simp add: visit_def)

lemma visit_Suc: "visit es k (Suc d) = (visit es k d + 1) mod length es"
  by (simp add: visit_def mod_Suc_eq)

text \<open>What a probe that has made \<open>d\<close> steps knows, and what it returns.\<close>

definition probed :: "entry list \<Rightarrow> u64 \<Rightarrow> nat \<Rightarrow> bool" where
  "probed es k d \<longleftrightarrow>
     (\<forall>d' < d. \<not> free es (visit es k d') \<and>
        (used (fst (es ! visit es k d')) \<longrightarrow> \<not> eq (fst (es ! visit es k d')) k))"

definition slot_for :: "entry list \<Rightarrow> u64 \<Rightarrow> nat \<Rightarrow> bool" where
  "slot_for es k i \<longleftrightarrow>
     (\<exists>d < length es. i = visit es k d \<and> \<not> used (fst (es ! i)) \<and> (\<forall>d' < d. \<not> free es (visit es k d')))"

definition probe_result :: "entry list \<Rightarrow> u64 \<Rightarrow> bool \<times> nat option \<Rightarrow> bool" where
  "probe_result es k r \<longleftrightarrow>
     (case r of
        (True, Some i) \<Rightarrow> i < length es \<and> used (fst (es ! i)) \<and> eq (fst (es ! i)) k
      | (True, None) \<Rightarrow> False
      | (False, t) \<Rightarrow>
          (\<exists>d \<le> length es. probed es k d \<and> (d = length es \<or> free es (visit es k d))) \<and>
          (case t of None \<Rightarrow> (\<forall>d < length es. used (fst (es ! visit es k d)))
           | Some i \<Rightarrow> slot_for es k i))"

lemma probe_correct:
  assumes "d + n = length es" "probed es k d" "0 < length es"
    "case t of None \<Rightarrow> (\<forall>d' < d. used (fst (es ! visit es k d'))) | Some i \<Rightarrow> slot_for es k i"
  shows "probe_result es k (probe n eq es k (visit es k d) t)"
  using assms
proof (induction n arbitrary: d t)
  case 0
  then have "d = length es" by simp
  with 0 show ?case by (auto simp: probe_result_def split: option.splits)
next
  case (Suc n)
  let ?i = "visit es k d"
  have d: "d < length es" and i: "?i < length es" using Suc.prems by auto
  have next': "(?i + 1) mod length es = visit es k (Suc d)" by (simp add: visit_Suc)
  have tomb: "slot_for es k (case t of None \<Rightarrow> ?i | Some t \<Rightarrow> t)" if "\<not> used (fst (es ! ?i))"
    using Suc.prems(2,4) d that by (auto simp: slot_for_def probed_def split: option.splits)
  show ?case
  proof (cases "used (fst (es ! ?i))")
    case False
    show ?thesis
    proof (cases "IS_FALSE (snd (es ! ?i))")
      case True
      then have "free es ?i" using False by (simp add: free_def)
      with Suc.prems(2) d have "\<exists>d \<le> length es. probed es k d \<and> (d = length es \<or> free es (visit es k d))"
        by (intro exI [of _ d]) simp
      then show ?thesis
        using True False tomb [OF False] by (simp add: probe_result_def Let_def)
    next
      case nf: False
      have "probed es k (Suc d)"
        using Suc.prems(2) False nf by (auto simp: probed_def free_def less_Suc_eq)
      moreover have "case (if t = None then Some ?i else t) of
          None \<Rightarrow> (\<forall>d' < Suc d. used (fst (es ! visit es k d'))) | Some i \<Rightarrow> slot_for es k i"
        using tomb [OF False] by (cases t) simp_all
      ultimately have "probe_result es k (probe n eq es k (visit es k (Suc d)) (if t = None then Some ?i else t))"
        using Suc.prems(1,3) by (intro Suc.IH) simp_all
      then show ?thesis using False nf next' by (simp add: Let_def)
    qed
  next
    case u: True
    show ?thesis
    proof (cases "eq (fst (es ! ?i)) k")
      case True
      then show ?thesis using u i by (simp add: probe_result_def Let_def)
    next
      case False
      have "probed es k (Suc d)"
        using Suc.prems(2) u False by (auto simp: probed_def free_def less_Suc_eq)
      moreover have "case t of None \<Rightarrow> (\<forall>d' < Suc d. used (fst (es ! visit es k d'))) | Some i \<Rightarrow> slot_for es k i"
        using Suc.prems(4) u by (auto simp: less_Suc_eq split: option.splits)
      ultimately have "probe_result es k (probe n eq es k (visit es k (Suc d)) t)"
        using Suc.prems(1,3) by (intro Suc.IH) simp_all
      then show ?thesis using u False next' by (simp add: Let_def)
    qed
  qed
qed

text \<open>A key that a probe does not find is not in the table.\<close>

lemma probe_absent:
  assumes "table_ok es" "ok k" "0 < length es"
    and d: "d \<le> length es" "probed es k d" "d = length es \<or> free es (visit es k d)"
  shows "lookup used es k = None"
  unfolding lookup_None_iff all_set_conv_all_nth
proof (intro allI impI notI)
  fix i assume i: "i < length es" "used (fst (es ! i))" and e: "eq (fst (es ! i)) k"
  then obtain d' where d': "ok (fst (es ! i))" "d' < length es" "i = visit es (fst (es ! i)) d'"
    "\<forall>d'' < d'. \<not> free es (visit es (fst (es ! i)) d'')"
    using assms(1) unfolding table_ok_def by blast
  have h: "hash (fst (es ! i)) = hash k" by (rule hash_eq [OF d'(1) assms(2) e])
  have v: "visit es (fst (es ! i)) c = visit es k c" for c by (simp add: visit_def h)
  have "\<not> d' < d" using d(2) i(2) e d'(3) unfolding probed_def v by metis
  then have "d < length es" "d \<le> d'" using d'(2) by auto
  then have "free es (visit es k d)" using d(3) by auto
  moreover have "\<not> free es (visit es k d)"
  proof (cases "d = d'")
    case True
    then show ?thesis using d'(3) i(2) by (simp add: free_def v)
  next
    case False
    then show ?thesis using d'(4) \<open>d \<le> d'\<close> by (simp add: v)
  qed
  ultimately show False by simp
qed

definition probe_for :: "entry list \<Rightarrow> u64 \<Rightarrow> bool \<times> nat option" where
  "probe_for es k = probe (length es) eq es k (hash k mod length es) None"

text \<open>The outcome of a whole probe.\<close>

lemma probe_for_cases:
  assumes "table_ok es" "ok k" "0 < length es"
  obtains (found) i where "probe_for es k = (True, Some i)" "i < length es" "used (fst (es ! i))"
      "eq (fst (es ! i)) k" "lookup used es k = Some (snd (es ! i))"
    | (absent) i where "probe_for es k = (False, Some i)" "slot_for es k i" "lookup used es k = None"
    | (full) "probe_for es k = (False, None)" "\<forall>i < length es. used (fst (es ! i))" "lookup used es k = None"
proof -
  have start: "visit es k 0 = hash k mod length es" by (simp add: visit_def)
  have r: "probe_result es k (probe_for es k)"
    unfolding probe_for_def start [symmetric] using assms(3)
    by (intro probe_correct) (simp_all add: probed_def)
  show thesis
  proof (cases "probe_for es k")
    case (Pair b t)
    show thesis
    proof (cases b)
      case True
      then obtain i where i: "t = Some i" "i < length es" "used (fst (es ! i))" "eq (fst (es ! i)) k"
        using r Pair by (auto simp: probe_result_def split: option.splits)
      moreover have "lookup used es k = Some (snd (es ! i))"
        using i assms(1) lookup_Some_iff [of used es k "snd (es ! i)"] by (auto simp: table_ok_def)
      ultimately show thesis using found [of i] Pair True by simp
    next
      case False
      then have none: "lookup used es k = None"
        using r Pair probe_absent [OF assms] by (auto simp: probe_result_def)
      show thesis
      proof (cases t)
        case (Some i)
        then show thesis using r Pair False none absent [of i] by (simp add: probe_result_def)
      next
        case None
        have all: "\<forall>d < length es. used (fst (es ! visit es k d))"
          using r Pair False None by (simp add: probe_result_def)
        have "used (fst (es ! i))" if i: "i < length es" for i
        proof -
          define d where "d = (i + length es - hash k mod length es) mod length es"
          have hm: "hash k mod length es < length es" using assms(3) by simp
          have "visit es k d = (hash k mod length es + (i + length es - hash k mod length es)) mod length es"
            unfolding visit_def d_def by (simp only: mod_add_left_eq mod_add_right_eq)
          also have "\<dots> = i" using hm i by simp
          finally have "visit es k d = i" .
          moreover have "d < length es" using assms(3) by (simp add: d_def)
          ultimately show ?thesis using all by metis
        qed
        then show thesis using full Pair False None none by simp
      qed
    qed
  qed
qed

section \<open>Changing a table\<close>

lemma table_ok_replicate: "table_ok (replicate n (UNDEFINED_VAL, v))"
  by (auto simp: table_ok_def distinct_keys_def IS_UNDEFINED_def)

text \<open>No entry becomes free, so every probe still reaches its key.\<close>

lemma table_ok_update:
  assumes "table_ok es" "i < length es" "distinct_keys used (es[i := e])"
    and "\<not> (IS_UNDEFINED (fst e) \<and> IS_FALSE (snd e))"
    and "used (fst e) \<Longrightarrow> ok (fst e) \<and> (\<exists>d < length es. i = visit es (fst e) d \<and> (\<forall>d' < d. \<not> free es (visit es (fst e) d')))"
  shows "table_ok (es[i := e])"
  unfolding table_ok_def length_list_update
proof (intro conjI allI impI assms(3))
  have v: "visit (es[i := e]) k d = visit es k d" for k d by (simp add: visit_def)
  have f: "\<not> free (es[i := e]) j" if "\<not> free es j" for j
    using that assms(2,4) by (cases "j = i") (auto simp: free_def)
  fix j assume j: "j < length es" "used (fst (es[i := e] ! j))"
  have *: "ok (fst (es[i := e] ! j)) \<and> (\<exists>d < length es. j = visit es (fst (es[i := e] ! j)) d \<and>
      (\<forall>d' < d. \<not> free es (visit es (fst (es[i := e] ! j)) d')))"
    using assms(1,2,5) j unfolding table_ok_def by (cases "j = i") auto
  then show "ok (fst (es[i := e] ! j))" by simp
  from * show "\<exists>d < length es. j = visit (es[i := e]) (fst (es[i := e] ! j)) d \<and>
      (\<forall>d' < d. \<not> free (es[i := e]) (visit (es[i := e]) (fst (es[i := e] ! j)) d'))"
    unfolding v using f by blast
qed

end

end
