(* ===== verification/Vm_Map_Proofs.thy ===== *)
theory Vm_Map_Proofs
  imports Hashed_Keys
begin

text \<open>
  The hash map of the reference interpreter refines a finite map from keys to values, whatever
  sequence of collisions, tombstones and resizes its table has gone through.
\<close>

section \<open>Doubles are equal only to themselves, zeros apart\<close>

lemma dmag_inj:
  assumes "dfinite x" "dfinite y" "dmag x = dmag y"
  shows "dexp x = dexp y" "dmant x = dmant y"
proof -
  have m: "dmant z < 2 ^ 52" for z by (simp add: dmant_def)
  have nb: "nbits (dmag z) = 52 + dexp z" if "dexp z \<noteq> 0" for z
  proof -
    have "\<not> nbits (2 ^ 52 + dmant z) \<le> 52" "nbits (2 ^ 52 + dmant z) \<le> 53"
      using m [of z] unfolding nbits_le_iff by simp_all
    then have "nbits (2 ^ 52 + dmant z) = 53" by linarith
    then show ?thesis using that by (simp add: dmag_def nbits_mult_power)
  qed
  have z: "nbits (dmag z) \<le> 52" if "dexp z = 0" for z
    using m [of z] that unfolding nbits_le_iff by (simp add: dmag_def)
  show e: "dexp x = dexp y"
    using nb [of x] nb [of y] z [of x] z [of y] assms(3) by (cases "dexp x = 0"; cases "dexp y = 0") auto
  show "dmant x = dmant y" using assms(3) e by (auto simp: dmag_def split: if_splits)
qed

definition neg_zero :: "double \<Rightarrow> bool" where
  "neg_zero x \<longleftrightarrow> x = 0x8000000000000000"

lemma deq_imp_eq:
  assumes "deq x y" "\<not> neg_zero x" "\<not> neg_zero y"
  shows "x = y"
proof -
  have nn: "\<not> isnan x" "\<not> isnan y" and k: "dkey x = dkey y" using assms(1) by (auto simp: deq_def)
  have small: "\<bar>dkey z\<bar> < 2 ^ 2100" if "dfinite z" for z
  proof -
    have m: "2 ^ 52 + dmant z < 2 ^ 53" "dmant z < 2 ^ 52" by (simp_all add: dmant_def)
    have "dexp z < 2 ^ 11" by (simp add: dexp_def)
    then have "(2::nat) ^ (dexp z - 1) \<le> 2 ^ 2046" by (intro power_increasing) simp_all
    then have "(2 ^ 52 + dmant z) * 2 ^ (dexp z - 1) < 2 ^ 53 * 2 ^ 2046"
      using m(1) by (intro mult_less_le_imp_less) simp_all
    moreover have "(2::nat) ^ 53 * 2 ^ 2046 \<le> 2 ^ 2100" by (simp add: power_add [symmetric])
    moreover have "(2::nat) ^ 52 \<le> 2 ^ 2100" by (intro power_increasing) simp_all
    ultimately have "dmag z < 2 ^ 2100" using m(2) unfolding dmag_def by (cases "dexp z = 0") simp_all
    then have "int (dmag z) < 2 ^ 2100" by (metis of_nat_less_iff of_nat_numeral of_nat_power)
    then show ?thesis using that by (simp add: dkey_finite dscaled_def)
  qed
  have inf: "\<not> dfinite z \<longleftrightarrow> isinf z" if "\<not> isnan z" for z
    using that by (auto simp: dfinite_def isinf_def isnan_def)
  have big: "\<bar>dkey z\<bar> = 2 ^ 2100" if "isinf z" for z using that by (simp add: dkey_def)
  show ?thesis
  proof (cases "isinf x \<or> isinf y")
    case True
    then have i: "isinf x" "isinf y"
      using big [of x] big [of y] small [of x] small [of y] k inf [OF nn(1)] inf [OF nn(2)]
      by (metis less_irrefl)+
    then have "dsign x = dsign y" using k by (auto simp: dkey_def split: if_splits)
    then show ?thesis using i by (intro double_eqI) (simp_all add: isinf_def)
  next
    case False
    then have f: "dfinite x" "dfinite y" using inf nn by auto
    then have s: "dscaled x = dscaled y" using k by (simp add: dkey_finite)
    then have m: "dmag x = dmag y" by (auto simp: dscaled_def split: if_splits)
    note e = dmag_inj [OF f m]
    have "dsign x = dsign y"
    proof (cases "dmag x = 0")
      case False
      then show ?thesis using s m by (auto simp: dscaled_def split: if_splits)
    next
      case True
      have zero: "neg_zero z" if "dsign z" "dmag z = 0" for z
      proof -
        have "dexp z = 0" "dmant z = 0" using that(2) by (auto simp: dmag_def split: if_splits)
        then have "z = 0x8000000000000000"
          using that(1) by (intro double_eqI) (simp_all add: dsign_def dexp_def dmant_def)
        then show ?thesis by (simp add: neg_zero_def)
      qed
      then show ?thesis using True m assms(2,3) by metis
    qed
    with e show ?thesis by (intro double_eqI)
  qed
qed

lemma deq_sym: "deq x y \<Longrightarrow> deq y x"
  by (simp add: deq_def)

lemma deq_trans: "deq x y \<Longrightarrow> deq y z \<Longrightarrow> deq x z"
  by (simp add: deq_def)

section \<open>The keys of the reference interpreter\<close>

text \<open>
  Valid keys, leaving out the ranges with a negative zero: those equal the range with the positive
  zero but hash differently.
\<close>

definition key_ok :: "vm_heap \<Rightarrow> u64 \<Rightarrow> bool" where
  "key_ok h k \<longleftrightarrow> wrenMapIsValidKey h k \<and>
     (IS_OBJ k \<longrightarrow> (case h (AS_OBJ k) of ORange f t i \<Rightarrow> \<not> neg_zero f \<and> \<not> neg_zero t | _ \<Rightarrow> True))"

lemma wrenValuesEqual_cases:
  "wrenValuesEqual h a b \<longleftrightarrow> a = b \<or>
    (IS_OBJ a \<and> IS_OBJ b \<and>
      ((\<exists>f t i f' t'. h (AS_OBJ a) = ORange f t i \<and> h (AS_OBJ b) = ORange f' t' i \<and> deq f f' \<and> deq t t') \<or>
       (\<exists>hash s. h (AS_OBJ a) = OString hash s \<and> h (AS_OBJ b) = OString hash s)))"
  by (auto simp: wrenValuesEqual_def wrenValuesSame_def wrenStringEqualsCString_def split: vm_obj.split)

lemma undefined_invalid: "\<not> wrenMapIsValidKey h UNDEFINED_VAL"
  by (simp add: wrenMapIsValidKey_def UNDEFINED_VAL_def TRUE_VAL_def FALSE_VAL_def VM_NULL_def IS_OBJ_def
      IS_NUM_def QNAN_def SIGN_BIT_def)

interpretation vm: open_table "wrenValuesEqual h" "key_ok h" "\<lambda>k. unat (hashValue h k)" for h
proof
  fix a b c
  show "wrenValuesEqual h a a" by (simp add: wrenValuesEqual_cases)
  show "wrenValuesEqual h a b \<Longrightarrow> wrenValuesEqual h b a"
    unfolding wrenValuesEqual_cases using deq_sym by blast
  show "wrenValuesEqual h a b \<Longrightarrow> wrenValuesEqual h b c \<Longrightarrow> wrenValuesEqual h a c"
    unfolding wrenValuesEqual_cases using deq_trans by fastforce
  assume ok: "key_ok h a" "key_ok h b"
  then show "\<not> IS_UNDEFINED a" using undefined_invalid by (auto simp: key_ok_def IS_UNDEFINED_def)
  assume "wrenValuesEqual h a b"
  then consider "a = b"
    | f t i f' t' where "IS_OBJ a" "IS_OBJ b" "h (AS_OBJ a) = ORange f t i" "h (AS_OBJ b) = ORange f' t' i"
        "deq f f'" "deq t t'"
    | hash s where "IS_OBJ a" "IS_OBJ b" "h (AS_OBJ a) = OString hash s" "h (AS_OBJ b) = OString hash s"
    unfolding wrenValuesEqual_cases by blast
  then show "unat (hashValue h a) = unat (hashValue h b)"
  proof cases
    case 2
    then have "f = f'" "t = t'" using ok by (auto simp: key_ok_def intro!: deq_imp_eq)
    then show ?thesis using 2 by (simp add: hashValue_def hashObject_def)
  next
    case 3
    then show ?thesis by (simp add: hashValue_def hashObject_def)
  qed simp
qed

section \<open>Inserting into a table\<close>

abbreviation in_use :: "u64 \<Rightarrow> bool" where
  "in_use k \<equiv> \<not> IS_UNDEFINED k"

definition live_count :: "entry list \<Rightarrow> nat" where
  "live_count es = length (filter (\<lambda>e. in_use (fst e)) es)"

lemma live_count_simps [simp]:
  "live_count [] = 0"
  "live_count (e # es) = (if in_use (fst e) then 1 else 0) + live_count es"
  "live_count (replicate n (UNDEFINED_VAL, v)) = 0"
  by (simp_all add: live_count_def IS_UNDEFINED_def)

lemma live_count_update:
  assumes "i < length es"
  shows "live_count (es[i := e]) + (if in_use (fst (es ! i)) then 1 else 0) =
    live_count es + (if in_use (fst e) then 1 else 0)"
proof -
  define xs ys where "xs = take i es" and "ys = drop (Suc i) es"
  have "es = xs @ es ! i # ys" "es[i := e] = xs @ e # ys"
    using assms by (simp_all add: xs_def ys_def id_take_nth_drop [symmetric] upd_conv_take_nth_drop)
  then have "live_count es = live_count xs + (if in_use (fst (es ! i)) then 1 else 0) + live_count ys"
    "live_count (es[i := e]) = live_count xs + (if in_use (fst e) then 1 else 0) + live_count ys"
    by (metis (no_types, lifting) add.assoc filter_append length_append live_count_def live_count_simps(2))+
  then show ?thesis by simp
qed

lemma live_count_full: "\<forall>i < length es. in_use (fst (es ! i)) \<Longrightarrow> live_count es = length es"
  unfolding live_count_def by (subst filter_True) (auto simp: all_set_conv_all_nth)

lemma findEntry_probe:
  "0 < length es \<Longrightarrow> findEntry h es key = vm.probe_for h es key"
  by (simp add: findEntry_def vm.probe_for_def)

text \<open>The values a map holds are never the undefined one.\<close>

definition values_ok :: "entry list \<Rightarrow> bool" where
  "values_ok es \<longleftrightarrow> (\<forall>e \<in> set es. in_use (fst e) \<longrightarrow> snd e \<noteq> UNDEFINED_VAL)"

lemma insertEntry_correct:
  assumes t: "vm.table_ok h es" and k: "key_ok h key" and room: "live_count es < length es"
    and v: "values_ok es" "v \<noteq> UNDEFINED_VAL"
  shows "\<exists>es'. insertEntry h es key v = Inr (es', vm.lookup h in_use es key = None) \<and>
    vm.table_ok h es' \<and> length es' = length es \<and> values_ok es' \<and>
    live_count es' = live_count es + (if vm.lookup h in_use es key = None then 1 else 0) \<and>
    (\<forall>k. vm.lookup h in_use es' k = (if wrenValuesEqual h key k then Some v else vm.lookup h in_use es k))"
proof -
  have pos: "0 < length es" using room by linarith
  have d: "vm.distinct_keys h in_use es" using t by (simp add: vm.table_ok_def)
  have used: "in_use key" by (rule vm.ok_used [OF k])
  have vals: "values_ok (es[i := (k', v)])" for i k'
    using v set_update_subset_insert [of es i "(k', v)"] unfolding values_ok_def by fastforce
  show ?thesis
  proof (rule vm.probe_for_cases [OF t k pos])
    fix i assume i: "vm.probe_for h es key = (True, Some i)" "i < length es" "in_use (fst (es ! i))"
      "wrenValuesEqual h (fst (es ! i)) key" "vm.lookup h in_use es key = Some (snd (es ! i))"
    let ?es = "es[i := (fst (es ! i), v)]"
    have "insertEntry h es key v = Inr (?es, False)"
      by (simp add: insertEntry_def findEntry_probe [OF pos] i(1))
    moreover have "vm.table_ok h ?es"
    proof (rule vm.table_ok_update [OF t i(2)])
      show "vm.distinct_keys h in_use ?es" by (rule vm.lookup_update_value(2) [OF d i(2,3)])
      show "\<not> (IS_UNDEFINED (fst (fst (es ! i), v)) \<and> IS_FALSE (snd (fst (es ! i), v)))" using i(3) by simp
      show "key_ok h (fst (fst (es ! i), v)) \<and> (\<exists>d < length es. i = vm.visit h es (fst (fst (es ! i), v)) d \<and>
          (\<forall>d' < d. \<not> vm.free es (vm.visit h es (fst (fst (es ! i), v)) d')))"
        using t i(2,3) unfolding vm.table_ok_def by simp
    qed
    moreover have "vm.lookup h in_use ?es k = (if wrenValuesEqual h key k then Some v else vm.lookup h in_use es k)" for k
      unfolding vm.lookup_update_value(1) [OF d i(2,3)] vm.eq_cong [OF i(4)] ..
    moreover have "live_count ?es = live_count es"
      using live_count_update [OF i(2), of "(fst (es ! i), v)"] by simp
    ultimately show ?thesis using i(5) vals by (intro exI [of _ ?es]) simp
  next
    fix i assume i: "vm.probe_for h es key = (False, Some i)" "vm.slot_for h es key i"
      "vm.lookup h in_use es key = None"
    let ?es = "es[i := (key, v)]"
    obtain dd where dd: "dd < length es" "i = vm.visit h es key dd" "\<not> in_use (fst (es ! i))"
      "\<forall>d' < dd. \<not> vm.free es (vm.visit h es key d')"
      using i(2) unfolding vm.slot_for_def by blast
    have il: "i < length es" using dd(2) pos by simp
    have "insertEntry h es key v = Inr (?es, True)"
      by (simp add: insertEntry_def findEntry_probe [OF pos] i(1))
    moreover have "vm.table_ok h ?es"
    proof (rule vm.table_ok_update [OF t il])
      show "vm.distinct_keys h in_use ?es" by (rule vm.lookup_fill(2) [OF d il dd(3) used i(3)])
      show "\<not> (IS_UNDEFINED (fst (key, v)) \<and> IS_FALSE (snd (key, v)))" using used by simp
      show "key_ok h (fst (key, v)) \<and> (\<exists>d < length es. i = vm.visit h es (fst (key, v)) d \<and>
          (\<forall>d' < d. \<not> vm.free es (vm.visit h es (fst (key, v)) d')))"
        using k dd by auto
    qed
    moreover have "live_count ?es = live_count es + 1"
      using live_count_update [OF il, of "(key, v)"] dd(3) used by simp
    ultimately show ?thesis
      using i(3) vals vm.lookup_fill(1) [OF d il dd(3) used i(3)] by (intro exI [of _ ?es]) simp
  next
    assume "\<forall>i < length es. in_use (fst (es ! i))"
    then have "live_count es = length es" by (rule live_count_full)
    then show ?thesis using room by simp
  qed
qed

text \<open>Rehashing adds the entries in use to a table that holds none of their keys.\<close>

lemma rehash_correct:
  assumes "vm.table_ok h es" "values_ok es" "values_ok old" "live_count es + live_count old < length es"
    "vm.distinct_keys h in_use old" "\<forall>e \<in> set old. in_use (fst e) \<longrightarrow> key_ok h (fst e)"
    "\<forall>e \<in> set old. in_use (fst e) \<longrightarrow> vm.lookup h in_use es (fst e) = None"
  shows "\<exists>es'. rehash h old es = Inr es' \<and> vm.table_ok h es' \<and> length es' = length es \<and> values_ok es' \<and>
    live_count es' = live_count es + live_count old \<and>
    (\<forall>k. vm.lookup h in_use es' k =
      (case vm.lookup h in_use old k of None \<Rightarrow> vm.lookup h in_use es k | Some v \<Rightarrow> Some v))"
  using assms
proof (induction old arbitrary: es)
  case Nil
  then show ?case by simp
next
  case (Cons e old)
  have dk: "in_use (fst e) \<Longrightarrow> vm.lookup h in_use old (fst e) = None" "vm.distinct_keys h in_use old"
    using Cons.prems(5) by (simp_all add: vm.distinct_keys_Cons)
  have vo: "values_ok old" using Cons.prems(3) by (simp add: values_ok_def)
  show ?case
  proof (cases "in_use (fst e)")
    case False
    then show ?thesis using Cons.IH [of es] Cons.prems dk(2) vo by simp
  next
    case True
    have none: "vm.lookup h in_use es (fst e) = None" using Cons.prems(7) True by simp
    have "snd e \<noteq> UNDEFINED_VAL" using Cons.prems(3) True by (simp add: values_ok_def)
    with insertEntry_correct [OF Cons.prems(1) _ _ Cons.prems(2), of "fst e" "snd e"] True Cons.prems(4,6) none
    obtain es1 where es1: "insertEntry h es (fst e) (snd e) = Inr (es1, True)" "vm.table_ok h es1"
      "length es1 = length es" "values_ok es1" "live_count es1 = live_count es + 1"
      "\<And>k. vm.lookup h in_use es1 k = (if wrenValuesEqual h (fst e) k then Some (snd e) else vm.lookup h in_use es k)"
      by auto
    have "\<forall>e' \<in> set old. in_use (fst e') \<longrightarrow> vm.lookup h in_use es1 (fst e') = None"
    proof (intro ballI impI)
      fix e' assume e': "e' \<in> set old" "in_use (fst e')"
      then have "\<not> wrenValuesEqual h (fst e') (fst e)"
        using dk(1) [OF True] by (simp add: vm.lookup_None_iff)
      then have "\<not> wrenValuesEqual h (fst e) (fst e')" using vm.eq_sym by blast
      then show "vm.lookup h in_use es1 (fst e') = None" using e' Cons.prems(7) by (simp add: es1(6))
    qed
    with Cons.IH [of es1] es1 Cons.prems(4,6) dk(2) vo True
    obtain es' where es': "rehash h old es1 = Inr es'" "vm.table_ok h es'" "length es' = length es1" "values_ok es'"
      "live_count es' = live_count es1 + live_count old"
      "\<And>k. vm.lookup h in_use es' k =
        (case vm.lookup h in_use old k of None \<Rightarrow> vm.lookup h in_use es1 k | Some v \<Rightarrow> Some v)"
      by auto
    have "vm.lookup h in_use es' k = (case vm.lookup h in_use (e # old) k of
        None \<Rightarrow> vm.lookup h in_use es k | Some v \<Rightarrow> Some v)" for k
    proof (cases "wrenValuesEqual h (fst e) k")
      case eq: True
      then have "vm.lookup h in_use old k = None"
        using dk(1) [OF True] vm.lookup_cong [OF eq] by metis
      then show ?thesis using eq True by (simp add: es'(6) es1(6))
    next
      case False
      then show ?thesis by (simp add: es'(6) es1(6) cong: option.case_cong)
    qed
    then show ?thesis using True es1 es' by simp
  qed
qed

section \<open>The map\<close>

text \<open>The map a table stands for.\<close>

definition map_lookup :: "vm_heap \<Rightarrow> vm_map \<Rightarrow> u64 \<Rightarrow> u64 option" where
  "map_lookup h m key =
     map_option snd (find (\<lambda>e. \<not> IS_UNDEFINED (fst e) \<and> wrenValuesEqual h (fst e) key) (m_entries m))"

lemma map_lookup_eq: "map_lookup h m key = vm.lookup h in_use (m_entries m) key"
  by (simp add: map_lookup_def vm.lookup_def)

definition capacity_ok :: "nat \<Rightarrow> bool" where
  "capacity_ok c \<longleftrightarrow> c = 0 \<or> (\<exists>k. 4 \<le> k \<and> k \<le> 25 \<and> c = 2 ^ k)"

definition map_inv :: "vm_heap \<Rightarrow> vm_map \<Rightarrow> bool" where
  "map_inv h m \<longleftrightarrow>
     vm.table_ok h (m_entries m) \<and> values_ok (m_entries m) \<and> m_count m = live_count (m_entries m) \<and>
     capacity_ok (m_capacity m) \<and> m_count m \<le> load_limit (m_capacity m)"

lemma load_limit_eq: "c \<le> 2 ^ 25 \<Longrightarrow> load_limit c = c * 75 div 100"
  by (simp add: load_limit_def MAP_LOAD_PERCENT_def)

lemma capacity_okD:
  assumes "capacity_ok c"
  shows "c \<le> 2 ^ 25" "c = 0 \<or> 16 \<le> c" "load_limit c = c * 75 div 100"
proof -
  show b: "c \<le> 2 ^ 25"
  proof (cases "c = 0")
    case False
    then obtain k where "k \<le> 25" "c = 2 ^ k" using assms by (auto simp: capacity_ok_def)
    then show ?thesis by (simp only: power_increasing)
  qed simp
  have "(16::nat) \<le> 2 ^ k" if "4 \<le> k" for k
    using power_increasing [OF that, of "2::nat"] by simp
  then show "c = 0 \<or> 16 \<le> c" using assms unfolding capacity_ok_def by blast
  show "load_limit c = c * 75 div 100" by (rule load_limit_eq [OF b])
qed

lemma capacity_ok_grow:
  assumes "capacity_ok c" "c * 75 div 100 \<le> 2 ^ 24"
  shows "capacity_ok (if c * 2 < 16 then 16 else c * 2)"
proof (cases "c = 0")
  case True
  then show ?thesis unfolding capacity_ok_def by (intro disjI2 exI [of _ 4]) simp
next
  case False
  then obtain k where k: "4 \<le> k" "k \<le> 25" "c = 2 ^ k" using assms(1) by (auto simp: capacity_ok_def)
  have "k \<noteq> 25" using assms(2) k(3) by auto
  moreover have "16 \<le> c" using capacity_okD(2) [OF assms(1)] False by simp
  ultimately show ?thesis
    using k unfolding capacity_ok_def by (intro disjI2 exI [of _ "Suc k"]) simp
qed

lemma capacity_ok_shrink:
  assumes "capacity_ok c" "16 < c"
  shows "capacity_ok (c div 2)" "16 \<le> c div 2"
proof -
  obtain k where k: "4 \<le> k" "k \<le> 25" "c = 2 ^ k" using assms by (auto simp: capacity_ok_def)
  then have "k \<noteq> 4" using assms(2) by auto
  then obtain k' where k': "k = Suc k'" "4 \<le> k'" using k(1) by (cases k) auto
  then show ok: "capacity_ok (c div 2)" using k unfolding capacity_ok_def by (intro disjI2 exI [of _ k']) simp
  have "(16::nat) \<le> 2 ^ k'" using power_increasing [OF k'(2), of "2::nat"] by simp
  then show "16 \<le> c div 2" using k k' by simp
qed

lemma resizeMap_correct:
  assumes "map_inv h m" "m_count m < c"
  shows "\<exists>es. resizeMap h m c = Inr (m\<lparr>m_entries := es\<rparr>) \<and> vm.table_ok h es \<and> values_ok es \<and>
    length es = c \<and> live_count es = m_count m \<and>
    (\<forall>k. vm.lookup h in_use es k = map_lookup h m k)"
proof -
  let ?new = "replicate c (UNDEFINED_VAL, FALSE_VAL)"
  note m = assms(1) [unfolded map_inv_def]
  have none: "vm.lookup h in_use ?new k = None" for k
    by (auto simp: vm.lookup_None_iff IS_UNDEFINED_def)
  have "\<exists>es'. rehash h (m_entries m) ?new = Inr es' \<and> vm.table_ok h es' \<and> length es' = length ?new \<and> values_ok es' \<and>
    live_count es' = live_count ?new + live_count (m_entries m) \<and>
    (\<forall>k. vm.lookup h in_use es' k =
      (case vm.lookup h in_use (m_entries m) k of None \<Rightarrow> vm.lookup h in_use ?new k | Some v \<Rightarrow> Some v))"
  proof (rule rehash_correct)
    show "vm.table_ok h ?new" by (rule vm.table_ok_replicate)
    show "values_ok ?new" by (simp add: values_ok_def IS_UNDEFINED_def)
    show "values_ok (m_entries m)" "vm.distinct_keys h in_use (m_entries m)"
      using m by (simp_all add: vm.table_ok_def)
    show "live_count ?new + live_count (m_entries m) < length ?new" using m assms(2) by simp
    show "\<forall>e \<in> set (m_entries m). in_use (fst e) \<longrightarrow> key_ok h (fst e)"
      using m by (auto simp: vm.table_ok_def all_set_conv_all_nth)
  qed (simp add: none)
  then show ?thesis using m none
    by (auto simp: resizeMap_def map_lookup_eq split: option.split)
qed

lemma wrenMapGet_correct:
  assumes "map_inv h m" "key_ok h key"
  shows "wrenMapGet h m key = (case map_lookup h m key of None \<Rightarrow> UNDEFINED_VAL | Some v \<Rightarrow> v)"
proof (cases "m_entries m = []")
  case True
  then show ?thesis by (simp add: wrenMapGet_def findEntry_def map_lookup_def)
next
  case False
  then have pos: "0 < length (m_entries m)" by simp
  have t: "vm.table_ok h (m_entries m)" using assms(1) by (simp add: map_inv_def)
  show ?thesis
    by (rule vm.probe_for_cases [OF t assms(2) pos])
      (simp_all add: wrenMapGet_def findEntry_probe [OF pos] map_lookup_eq)
qed

lemma wrenMapSet_correct:
  assumes inv: "map_inv h m" and k: "key_ok h key" and v: "v \<noteq> UNDEFINED_VAL" and n: "m_count m < 2 ^ 24"
  shows "\<exists>m'. wrenMapSet h m key v = Inr m' \<and> map_inv h m' \<and>
    m_count m' = m_count m + (if map_lookup h m key = None then 1 else 0) \<and>
    (\<forall>k. map_lookup h m' k = (if wrenValuesEqual h key k then Some v else map_lookup h m k))"
proof -
  note m = inv [unfolded map_inv_def]
  have cap: "capacity_ok (m_capacity m)" using m by simp
  define grown where "grown = (if m_count m + 1 > load_limit (m_capacity m) then
      (let cap = m_capacity m * GROW_FACTOR; cap = (if cap < MIN_CAPACITY then MIN_CAPACITY else cap)
       in resizeMap h m cap) else Inr m)"
  have "\<exists>es. grown = Inr (m\<lparr>m_entries := es\<rparr>) \<and> vm.table_ok h es \<and> values_ok es \<and> capacity_ok (length es) \<and>
      live_count es = m_count m \<and> m_count m + 1 \<le> load_limit (length es) \<and>
      (\<forall>k. vm.lookup h in_use es k = map_lookup h m k)"
  proof (cases "m_count m + 1 > load_limit (m_capacity m)")
    case False
    then show ?thesis using m by (intro exI [of _ "m_entries m"]) (simp add: grown_def map_lookup_eq)
  next
    case True
    define c where "c = (if m_capacity m * 2 < 16 then 16 else m_capacity m * 2)"
    have "m_capacity m * 75 div 100 \<le> 2 ^ 24" using True n capacity_okD(3) [OF cap] by simp
    from capacity_ok_grow [OF cap this] have ok: "capacity_ok c" by (simp add: c_def)
    have lim: "m_count m + 1 \<le> load_limit c"
      using m capacity_okD(2,3) [OF cap] capacity_okD(3) [OF ok] by (auto simp: c_def)
    moreover have "load_limit c \<le> c" unfolding capacity_okD(3) [OF ok] by simp
    ultimately have "m_count m < c" by simp
    from resizeMap_correct [OF inv this]
    obtain es where "resizeMap h m c = Inr (m\<lparr>m_entries := es\<rparr>)" "vm.table_ok h es" "values_ok es"
      "length es = c" "live_count es = m_count m" "\<forall>k. vm.lookup h in_use es k = map_lookup h m k"
      by blast
    moreover have "grown = resizeMap h m c"
      using True by (simp add: grown_def GROW_FACTOR_def MIN_CAPACITY_def c_def Let_def)
    ultimately show ?thesis using ok lim by (intro exI [of _ es]) simp
  qed
  then obtain es where es: "grown = Inr (m\<lparr>m_entries := es\<rparr>)" "vm.table_ok h es" "values_ok es"
    "capacity_ok (length es)" "live_count es = m_count m" "m_count m + 1 \<le> load_limit (length es)"
    "\<And>k. vm.lookup h in_use es k = map_lookup h m k"
    by blast
  have "load_limit (length es) \<le> length es" unfolding capacity_okD(3) [OF es(4)] by simp
  then have room: "live_count es < length es" using es(5,6) by simp
  from insertEntry_correct [OF es(2) k room es(3) v]
  obtain es' where es': "insertEntry h es key v = Inr (es', map_lookup h m key = None)"
    "vm.table_ok h es'" "length es' = length es" "values_ok es'"
    "live_count es' = live_count es + (if map_lookup h m key = None then 1 else 0)"
    "\<And>k. vm.lookup h in_use es' k = (if wrenValuesEqual h key k then Some v else map_lookup h m k)"
    by (auto simp: es(7))
  define m' where "m' = \<lparr>m_count = (if map_lookup h m key = None then m_count m + 1 else m_count m), m_entries = es'\<rparr>"
  have "wrenMapSet h m key v = Inr m'"
    unfolding wrenMapSet_def grown_def [symmetric] es(1) using es'(1) by (simp add: m'_def)
  moreover have "map_inv h m'"
    using es es' by (simp add: map_inv_def m'_def)
  ultimately show ?thesis
    using es'(6) by (intro exI [of _ m']) (simp add: m'_def map_lookup_eq)
qed

lemma wrenMapRemoveKey_correct:
  assumes inv: "map_inv h m" and k: "key_ok h key"
  shows "\<exists>m'. wrenMapRemoveKey h m key =
      Inr (case map_lookup h m key of None \<Rightarrow> VM_NULL | Some v \<Rightarrow> v, m') \<and> map_inv h m' \<and>
    m_count m' = m_count m - (if map_lookup h m key = None then 0 else 1) \<and>
    (\<forall>k. map_lookup h m' k = (if wrenValuesEqual h key k then None else map_lookup h m k))"
proof -
  note m = inv [unfolded map_inv_def]
  have cap: "capacity_ok (m_capacity m)" using m by simp
  have absent: ?thesis if "\<exists>t. findEntry h (m_entries m) key = (False, t)" "map_lookup h m key = None"
  proof -
    have "map_lookup h m k = None" if "wrenValuesEqual h key k" for k
      using vm.lookup_cong [OF that, of in_use "m_entries m"] \<open>map_lookup h m key = None\<close>
      by (simp add: map_lookup_eq)
    then show ?thesis using that inv by (intro exI [of _ m]) (auto simp: wrenMapRemoveKey_def)
  qed
  show ?thesis
  proof (cases "m_entries m = []")
    case True
    then show ?thesis by (intro absent) (simp_all add: findEntry_def map_lookup_def)
  next
    case False
    then have pos: "0 < length (m_entries m)" by simp
    have t: "vm.table_ok h (m_entries m)" and d: "vm.distinct_keys h in_use (m_entries m)"
      using m by (simp_all add: vm.table_ok_def)
    show ?thesis
    proof (rule vm.probe_for_cases [OF t k pos])
      fix i assume i: "vm.probe_for h (m_entries m) key = (True, Some i)" "i < length (m_entries m)"
        "in_use (fst (m_entries m ! i))" "wrenValuesEqual h (fst (m_entries m ! i)) key"
        "vm.lookup h in_use (m_entries m) key = Some (snd (m_entries m ! i))"
      define es v where "es = (m_entries m)[i := (UNDEFINED_VAL, TRUE_VAL)]" and "v = snd (m_entries m ! i)"
      define m1 where "m1 = \<lparr>m_count = m_count m - 1, m_entries = es\<rparr>"
      have unused: "\<not> in_use (fst (UNDEFINED_VAL, TRUE_VAL :: u64))" by (simp add: IS_UNDEFINED_def)
      have look: "vm.lookup h in_use es k = (if wrenValuesEqual h key k then None else map_lookup h m k)" for k
        unfolding es_def vm.lookup_clear(1) [OF d i(2,3) unused] vm.eq_cong [OF i(4)] map_lookup_eq ..
      have cnt: "live_count es + 1 = m_count m"
        using live_count_update [OF i(2), of "(UNDEFINED_VAL, TRUE_VAL)"] i(3) m
        by (simp add: es_def IS_UNDEFINED_def)
      have inv1: "map_inv h m1"
      proof -
        have "vm.table_ok h es" unfolding es_def
        proof (rule vm.table_ok_update [OF t i(2)])
          show "vm.distinct_keys h in_use ((m_entries m)[i := (UNDEFINED_VAL, TRUE_VAL)])"
            by (rule vm.lookup_clear(2) [OF d i(2,3) unused])
          show "\<not> (IS_UNDEFINED (fst (UNDEFINED_VAL, TRUE_VAL)) \<and> IS_FALSE (snd (UNDEFINED_VAL, TRUE_VAL)))"
            by (simp add: IS_FALSE_def TRUE_VAL_def FALSE_VAL_def QNAN_def)
        qed (simp add: IS_UNDEFINED_def)
        moreover have "values_ok es"
          using m set_update_subset_insert [of "m_entries m" i "(UNDEFINED_VAL, TRUE_VAL)"]
          unfolding values_ok_def es_def by (fastforce simp: IS_UNDEFINED_def)
        moreover have "m_count m - 1 = live_count es" "m_count m - 1 \<le> load_limit (m_capacity m)"
          "length es = m_capacity m"
          using m cnt unfolding es_def length_list_update by linarith+
        ultimately show ?thesis using m by (simp add: map_inv_def m1_def)
      qed
      have found: "map_lookup h m key = Some v" using i(5) by (simp add: map_lookup_eq v_def)
      have eq: "wrenMapRemoveKey h m key =
          (if m_count m1 = 0 then Inr (v, wrenMapClear m1)
           else if m_capacity m1 > 16 \<and> m_count m1 < load_limit (m_capacity m1 div 2)
           then rbind (resizeMap h m1 (if m_capacity m1 div 2 < 16 then 16 else m_capacity m1 div 2)) (\<lambda>m. Inr (v, m))
           else Inr (v, m1))"
        by (simp add: wrenMapRemoveKey_def findEntry_probe [OF pos] i(1) Let_def m1_def es_def v_def
            MIN_CAPACITY_def GROW_FACTOR_def load_limit_def)
      have look1: "map_lookup h m1 k = (if wrenValuesEqual h key k then None else map_lookup h m k)" for k
        using look by (simp add: map_lookup_eq m1_def)
      consider "m_count m1 = 0"
        | "m_count m1 \<noteq> 0" "m_capacity m1 > 16 \<and> m_count m1 < load_limit (m_capacity m1 div 2)"
        | "m_count m1 \<noteq> 0" "\<not> (m_capacity m1 > 16 \<and> m_count m1 < load_limit (m_capacity m1 div 2))"
        by blast
      then show ?thesis
      proof cases
        case 1
        then have "live_count es = 0" using cnt by (simp add: m1_def)
        then have "\<forall>e \<in> set es. \<not> in_use (fst e)"
          by (simp add: live_count_def filter_empty_conv)
        then have "vm.lookup h in_use es k = None" for k by (simp add: vm.lookup_None_iff)
        then have "map_lookup h m k = None" if "\<not> wrenValuesEqual h key k" for k
          using look [of k] that by (metis (full_types))
        then have "map_lookup h (wrenMapClear m1) k = (if wrenValuesEqual h key k then None else map_lookup h m k)" for k
          by (simp add: map_lookup_def wrenMapClear_def)
        moreover have "map_inv h (wrenMapClear m1)"
          by (simp add: map_inv_def wrenMapClear_def values_ok_def capacity_ok_def vm.table_ok_def vm.distinct_keys_def)
        ultimately show ?thesis
          using 1 eq found cnt by (intro exI [of _ "wrenMapClear m1"]) (simp add: wrenMapClear_def m1_def)
      next
        case 2
        have cap1: "capacity_ok (m_capacity m1)" using inv1 by (simp add: map_inv_def)
        note sh = capacity_ok_shrink [OF cap1 conjunct1 [OF 2(2)]]
        have "load_limit (m_capacity m1 div 2) \<le> m_capacity m1 div 2" unfolding capacity_okD(3) [OF sh(1)] by simp
        then have "m_count m1 < m_capacity m1 div 2" using 2(2) by linarith
        from resizeMap_correct [OF inv1 this]
        obtain es2 where es2: "resizeMap h m1 (m_capacity m1 div 2) = Inr (m1\<lparr>m_entries := es2\<rparr>)"
          "vm.table_ok h es2" "values_ok es2" "length es2 = m_capacity m1 div 2" "live_count es2 = m_count m1"
          "\<And>k. vm.lookup h in_use es2 k = map_lookup h m1 k"
          by blast
        have "map_inv h (m1\<lparr>m_entries := es2\<rparr>)"
          using es2 sh(1) 2(2) by (simp add: map_inv_def)
        moreover have "map_lookup h (m1\<lparr>m_entries := es2\<rparr>) k = map_lookup h m1 k" for k
          using es2(6) by (simp add: map_lookup_eq)
        ultimately show ?thesis
          using 2 sh(2) eq es2(1) found cnt look1
          by (intro exI [of _ "m1\<lparr>m_entries := es2\<rparr>"]) (simp add: m1_def)
      next
        case 3
        then show ?thesis
          using eq found cnt look1 inv1 by (intro exI [of _ m1]) (auto simp: m1_def)
      qed
    next
      fix i assume "vm.probe_for h (m_entries m) key = (False, Some i)"
        "vm.lookup h in_use (m_entries m) key = None"
      then show ?thesis by (intro absent) (simp_all add: findEntry_probe [OF pos] map_lookup_eq)
    next
      assume "vm.probe_for h (m_entries m) key = (False, None)"
        "vm.lookup h in_use (m_entries m) key = None"
      then show ?thesis by (intro absent) (simp_all add: findEntry_probe [OF pos] map_lookup_eq)
    qed
  qed
qed

lemma map_inv_new: "map_inv h wrenNewMap"
  by (simp add: map_inv_def wrenNewMap_def values_ok_def capacity_ok_def vm.table_ok_def vm.distinct_keys_def)

text \<open>
  C18: The reference interpreter's hash map refines a finite map.  The invariant of its table (probe
  paths without free entries, one entry for each key, the load limit, a capacity that is a power of
  two) holds for a new map and is kept by setting and removing keys.  A look-up returns the value of
  the key, setting a key always succeeds and changes the map at that key only, and removing a key
  returns its value, or null, and makes it absent, whatever the collisions, tombstones and resizes.
  The keys, stored and given, are the values the interpreter accepts as keys without the ranges that
  have an end that is negative zero (key_ok), which equal others with a different hash; the value set
  is not the internal mark UNDEFINED_VAL, and the map has fewer than 2^24 entries.
\<close>

theorem wren_map_refines:
  assumes "map_inv h m" "key_ok h key" "v \<noteq> UNDEFINED_VAL" "m_count m < 2 ^ 24"
  shows "map_inv h wrenNewMap \<and>
    wrenMapGet h m key = (case map_lookup h m key of None \<Rightarrow> UNDEFINED_VAL | Some v \<Rightarrow> v) \<and>
    (\<exists>m'. wrenMapSet h m key v = Inr m' \<and> map_inv h m' \<and>
      m_count m' = m_count m + (if map_lookup h m key = None then 1 else 0) \<and>
      (\<forall>k. map_lookup h m' k = (if wrenValuesEqual h key k then Some v else map_lookup h m k))) \<and>
    (\<exists>m'. wrenMapRemoveKey h m key =
        Inr (case map_lookup h m key of None \<Rightarrow> VM_NULL | Some v \<Rightarrow> v, m') \<and> map_inv h m' \<and>
      m_count m' = m_count m - (if map_lookup h m key = None then 0 else 1) \<and>
      (\<forall>k. map_lookup h m' k = (if wrenValuesEqual h key k then None else map_lookup h m k)))"
  using wrenMapGet_correct [OF assms(1,2)] wrenMapSet_correct [OF assms]
    wrenMapRemoveKey_correct [OF assms(1,2)] map_inv_new by (intro conjI)

theorem wren_map_refines_witness:
  "\<exists>m'. wrenMapSet (\<lambda>_. OOther) wrenNewMap 0 7 = Inr m' \<and> map_inv (\<lambda>_. OOther) m' \<and>
    map_lookup (\<lambda>_. OOther) m' 0 = Some 7 \<and> map_lookup (\<lambda>_. OOther) m' 1 = None"
proof -
  let ?h = "\<lambda>_. OOther"
  have k: "key_ok ?h 0"
    by (simp add: key_ok_def wrenMapIsValidKey_def IS_NUM_def IS_OBJ_def QNAN_def SIGN_BIT_def)
  have v: "(7::u64) \<noteq> UNDEFINED_VAL" "m_count wrenNewMap < 2 ^ 24"
    by (simp_all add: UNDEFINED_VAL_def QNAN_def wrenNewMap_def)
  have new: "map_lookup ?h wrenNewMap k = None" for k
    by (simp add: map_lookup_def wrenNewMap_def)
  have eq: "wrenValuesEqual ?h 0 0" "\<not> wrenValuesEqual ?h 0 1"
    by (simp_all add: wrenValuesEqual_cases)
  note r = wren_map_refines [OF map_inv_new k v, THEN conjunct2, THEN conjunct2, THEN conjunct1]
  from r obtain m' where "wrenMapSet ?h wrenNewMap 0 7 = Inr m'" "map_inv ?h m'"
    "\<forall>k. map_lookup ?h m' k = (if wrenValuesEqual ?h 0 k then Some 7 else map_lookup ?h wrenNewMap k)"
    by blast
  then show ?thesis using eq new by (intro exI [of _ m']) simp
qed

text \<open>
  What the restriction of the keys leaves out: a range from negative zero equals the range from zero,
  but has another hash, so a map can hold both.
\<close>

definition zero_ranges :: vm_heap where
  "zero_ranges p = ORange (if p = 8 then 0 else 0x8000000000000000) 0x3FF0000000000000 False"

lemma zeros_equal: "deq 0 0x8000000000000000"
  using dzero_fields [of False] dzero_fields [of True]
  by (simp add: deq_def dkey_finite dscaled_def isnan_def dfinite_def dzero_def)

lemma hashBits_zeros: "hashBits 0 \<noteq> hashBits 0x8000000000000000"
  by code_simp

lemma negative_zero_range_hash:
  "wrenValuesEqual zero_ranges (SIGN_BIT OR QNAN OR 8) (SIGN_BIT OR QNAN OR 16)"
  "hashValue zero_ranges (SIGN_BIT OR QNAN OR 8) \<noteq> hashValue zero_ranges (SIGN_BIT OR QNAN OR 16)"
proof -
  have o: "IS_OBJ (SIGN_BIT OR QNAN OR 8)" "IS_OBJ (SIGN_BIT OR QNAN OR 16)"
    "AS_OBJ (SIGN_BIT OR QNAN OR 8) = 8" "AS_OBJ (SIGN_BIT OR QNAN OR 16) = 16"
    by (simp_all add: IS_OBJ_def AS_OBJ_def SIGN_BIT_def QNAN_def)
  have "deq 0x3FF0000000000000 0x3FF0000000000000" by (simp add: deq_def isnan_def dmant_def)
  then show "wrenValuesEqual zero_ranges (SIGN_BIT OR QNAN OR 8) (SIGN_BIT OR QNAN OR 16)"
    using o zeros_equal by (auto simp: wrenValuesEqual_cases zero_ranges_def)
  have "a XOR c \<noteq> b XOR c" if "a \<noteq> b" for a b c :: u32
  proof
    assume "a XOR c = b XOR c"
    then have "(a XOR c) XOR c = (b XOR c) XOR c" by (rule arg_cong)
    then show False using that by (simp only: xor.assoc xor_self_eq xor.right_neutral)
  qed
  then show "hashValue zero_ranges (SIGN_BIT OR QNAN OR 8) \<noteq> hashValue zero_ranges (SIGN_BIT OR QNAN OR 16)"
    using o hashBits_zeros by (simp add: hashValue_def hashObject_def zero_ranges_def hashNumber_def)
qed

end
