(* ===== verification/Object_Equality.thy ===== *)
theory Object_Equality
  imports String_Object Vm_Map_Proofs Func_Table
begin

text \<open>
  The operations every object has (rtsrc/Obj.cpp), those of null (rtsrc/ObjNull.cpp) and booleans
  (rtsrc/ObjBool.cpp), and their agreement with the reference interpreter's equality.
\<close>

section \<open>Equality\<close>

abbreviation payload_range :: "double \<Rightarrow> double \<Rightarrow> bool \<Rightarrow> range" where
  "payload_range f t i \<equiv> \<lparr>from_num = f, to_num = t, inclusive = i\<rparr>"

text \<open>The virtual method \<open>EqualTo\<close>, which strings and ranges override.  The receiver is at \<open>p\<close>.\<close>

definition EqualTo :: "heap \<Rightarrow> ptr \<Rightarrow> ptr \<Rightarrow> bool res" where
  "EqualTo h p other =
     rbind (deref h p) (\<lambda>x.
       case payload x of
         PString s \<Rightarrow> rbind (deref h other) (\<lambda>y. Inr (str_EqualTo s (payload y)))
       | PRange f t i \<Rightarrow> rbind (deref h other) (\<lambda>y. Inr (range_EqualTo (payload_range f t i) (payload y)))
       | _ \<Rightarrow> Inr (other = p))"

definition Same :: "heap \<Rightarrow> val \<Rightarrow> val \<Rightarrow> bool res" where
  "Same h a b =
     (if is_value_float a then Inr (a = b)
      else
        let objA = get_object_value a; objB = get_object_value b in
        if objA = 0 \<or> objB = 0 then Inr (objA = objB)
        else rbind (deref h objA) (\<lambda>x. rbind (deref h objB) (\<lambda>y.
          if obj_type x \<noteq> obj_type y then Inr False
          else case payload x of
              PString s \<Rightarrow> Inr (str_EqualTo s (payload y))
            | PRange f t i \<Rightarrow> Inr (range_EqualTo (payload_range f t i) (payload y))
            | _ \<Rightarrow> Inr (objA = objB))))"

definition OperatorEqualTo :: "heap \<Rightarrow> ptr \<Rightarrow> val \<Rightarrow> bool res" where
  "OperatorEqualTo h p other =
     (if is_value_float other \<or> other = NULL_VAL then Inr False
      else EqualTo h p (get_object_value other))"

definition OperatorNotEqual :: "heap \<Rightarrow> ptr \<Rightarrow> val \<Rightarrow> bool res" where
  "OperatorNotEqual h p other = rbind (OperatorEqualTo h p other) (\<lambda>b. Inr (\<not> b))"

definition OperatorBoolNegate :: "ptr \<Rightarrow> bool" where
  "OperatorBoolNegate p = False"

text \<open>\<open>Type\<close> and \<open>Is\<close>; classes are kept by their address.\<close>

definition Type :: "heap \<Rightarrow> ptr \<Rightarrow> ptr res" where
  "Type h p = rbind (deref h p) (\<lambda>x. Inr (obj_type x))"

definition class_parent :: "heap \<Rightarrow> ptr \<Rightarrow> ptr" where
  "class_parent h c =
     (case objs h c of
        None \<Rightarrow> 0
      | Some x \<Rightarrow> (case payload x of PClass parent \<Rightarrow> parent | PManagedClass mc \<Rightarrow> mc_parent mc | _ \<Rightarrow> 0))"

partial_function (option) heap_Extends :: "heap \<Rightarrow> ptr \<Rightarrow> ptr \<Rightarrow> bool option" where
  "heap_Extends h iter other =
     (if iter = 0 then Some False
      else if iter = other then Some True
      else heap_Extends h (class_parent h iter) other)"

definition Is :: "heap \<Rightarrow> ptr \<Rightarrow> ptr \<Rightarrow> bool option res" where
  "Is h p cls = rbind (Type h p) (\<lambda>type. Inr (heap_Extends h type cls))"

section \<open>Null and booleans\<close>

definition null_OperatorEqualTo :: "val \<Rightarrow> bool" where
  "null_OperatorEqualTo other \<longleftrightarrow> other = NULL_VAL"

definition null_OperatorNotEqual :: "val \<Rightarrow> bool" where
  "null_OperatorNotEqual other \<longleftrightarrow> other \<noteq> NULL_VAL"

definition null_OperatorBoolNegate :: bool where
  "null_OperatorBoolNegate = True"

definition null_ToString :: string where
  "null_ToString = ''null''"

definition bool_ToString :: "bool \<Rightarrow> string" where
  "bool_ToString m_value = (if m_value then ''true'' else ''false'')"

definition bool_OperatorBoolNegate :: "bool \<Rightarrow> bool" where
  "bool_OperatorBoolNegate m_value = (\<not> m_value)"

section \<open>Correspondence with the reference interpreter\<close>

text \<open>
  A heap is well typed when the type pointer and the payload of an object fit, objects have plausible
  addresses, and the two booleans are the only objects of their class.
\<close>

definition typed :: "heap \<Rightarrow> bool" where
  "typed h \<longleftrightarrow>
     inj (core h) \<and> true_ptr h \<noteq> false_ptr h \<and> true_ptr h \<noteq> 0 \<and> false_ptr h \<noteq> 0 \<and>
     objs h (true_ptr h) = Some \<lparr>obj_type = core h BBool, payload = PBool True\<rparr> \<and>
     objs h (false_ptr h) = Some \<lparr>obj_type = core h BBool, payload = PBool False\<rparr> \<and>
     (\<forall>p x. objs h p = Some x \<longrightarrow> p \<noteq> 0 \<and> plausible_ptr p \<and>
        (obj_type x = core h BString \<longleftrightarrow> (\<exists>s. payload x = PString s)) \<and>
        (obj_type x = core h BRange \<longleftrightarrow> (\<exists>f t i. payload x = PRange f t i)) \<and>
        (obj_type x = core h BBool \<longrightarrow> p = true_ptr h \<or> p = false_ptr h))"

text \<open>A value of the runtime is valid when it is a number, null or points to an object.\<close>

definition valid_val :: "heap \<Rightarrow> val \<Rightarrow> bool" where
  "valid_val h v \<longleftrightarrow> is_value_float v \<or> (\<exists>p. v = NAN_MASK OR p \<and> (p = 0 \<or> objs h p \<noteq> None) \<and> plausible_ptr p)"

text \<open>The reference's representation of a value, and of the object at an address.\<close>

definition to_vm :: "heap \<Rightarrow> val \<Rightarrow> u64" where
  "to_vm h v =
     (if is_value_float v then v
      else if get_object_value v = 0 then VM_NULL
      else if get_object_value v = true_ptr h then TRUE_VAL
      else if get_object_value v = false_ptr h then FALSE_VAL
      else SIGN_BIT OR QNAN OR get_object_value v)"

definition vm_heap_of :: "heap \<Rightarrow> vm_heap" where
  "vm_heap_of h p =
     (case objs h p of
        Some x \<Rightarrow>
          (case payload x of
             PString s \<Rightarrow> OString (Vm_Values.hashString s) s
           | PRange f t i \<Rightarrow> ORange f t i
           | _ \<Rightarrow> OOther)
      | None \<Rightarrow> OOther)"

lemma QNAN_is_NAN_MASK: "QNAN = NAN_MASK"
  by (simp add: QNAN_def NAN_MASK_def)

lemma SIGN_BIT_bits: "bit SIGN_BIT n \<longleftrightarrow> n = 63"
proof -
  have e: "SIGN_BIT = push_bit 63 1" by (simp add: SIGN_BIT_def push_bit_eq_mult)
  show ?thesis unfolding e by (simp only: bit_push_bit_iff bit_1_iff) auto
qed

lemma boxed:
  assumes "plausible_ptr p"
  shows "IS_OBJ (SIGN_BIT OR QNAN OR p)" "AS_OBJ (SIGN_BIT OR QNAN OR p) = p"
proof -
  show "IS_OBJ (SIGN_BIT OR QNAN OR p)"
    unfolding IS_OBJ_def word_AND_eq_mask_iff by (simp add: bit_simps)
  show "AS_OBJ (SIGN_BIT OR QNAN OR p) = p"
    using assms unfolding plausible_ptr_bits AS_OBJ_def QNAN_is_NAN_MASK
    by (intro bit_word_eqI) (auto simp: bit_and_iff bit_or_iff bit_not_iff SIGN_BIT_bits NAN_MASK_bits)
qed

lemma singletons_unboxed: "\<not> IS_OBJ VM_NULL" "\<not> IS_OBJ TRUE_VAL" "\<not> IS_OBJ FALSE_VAL"
  "VM_NULL \<noteq> TRUE_VAL" "VM_NULL \<noteq> FALSE_VAL" "TRUE_VAL \<noteq> FALSE_VAL"
  "\<not> is_value_float VM_NULL" "\<not> is_value_float TRUE_VAL" "\<not> is_value_float FALSE_VAL"
  by (simp_all add: IS_OBJ_def VM_NULL_def TRUE_VAL_def FALSE_VAL_def QNAN_def SIGN_BIT_def is_value_float_def
      NAN_MASK_def)

lemma float_not_boxed: "is_value_float v \<Longrightarrow> \<not> IS_OBJ v"
  unfolding is_value_float_iff is_object_bits IS_OBJ_def word_AND_eq_mask_iff QNAN_is_NAN_MASK
  by (auto simp: bit_simps SIGN_BIT_bits NAN_MASK_bits)

lemma boxed_not_float: "plausible_ptr p \<Longrightarrow> \<not> is_value_float (SIGN_BIT OR QNAN OR p)"
  using float_not_boxed boxed by blast

lemma valid_object:
  assumes "valid_val h v" "\<not> is_value_float v" "v \<noteq> NULL_VAL"
  obtains p x where "v = NAN_MASK OR p" "p \<noteq> 0" "plausible_ptr p" "objs h p = Some x"
    "get_object_value v = p"
proof -
  obtain p where p: "v = NAN_MASK OR p" "p = 0 \<or> objs h p \<noteq> None" "plausible_ptr p"
    using assms by (auto simp: valid_val_def)
  have "p \<noteq> 0" using p(1) assms(3) by (auto simp: NULL_VAL_def)
  moreover from this obtain x where "objs h p = Some x" using p(2) by auto
  moreover have "get_object_value v = p" using p by (simp add: get_object_tagged)
  ultimately show thesis using that p by blast
qed

lemma null_object: "v = NAN_MASK OR p \<Longrightarrow> plausible_ptr p \<Longrightarrow> get_object_value v = 0 \<longleftrightarrow> v = NULL_VAL"
proof -
  assume v: "v = NAN_MASK OR p" and p: "plausible_ptr p"
  then have "get_object_value v = p" by (simp add: get_object_tagged)
  then show ?thesis using v get_object_NULL by (auto simp: NULL_VAL_def)
qed

lemma valid_null: "valid_val h v \<Longrightarrow> \<not> is_value_float v \<Longrightarrow> get_object_value v = 0 \<longleftrightarrow> v = NULL_VAL"
  using null_object by (auto simp: valid_val_def)

text \<open>A boolean object is one of the two singletons, which the reference represents unboxed.\<close>

lemma singleton_payload:
  assumes "typed h" "objs h p = Some x" "p = true_ptr h \<or> p = false_ptr h"
  shows "payload x = PBool True \<or> payload x = PBool False" "obj_type x = core h BBool"
  using assms by (auto simp: typed_def)

lemma wrenValuesEqual_boxed:
  assumes "plausible_ptr p" "plausible_ptr q"
  shows "wrenValuesEqual g (SIGN_BIT OR QNAN OR p) (SIGN_BIT OR QNAN OR q) \<longleftrightarrow> p = q \<or>
    (\<exists>f t i f' t'. g p = ORange f t i \<and> g q = ORange f' t' i \<and> deq f f' \<and> deq t t') \<or>
    (\<exists>hash s. g p = OString hash s \<and> g q = OString hash s)"
proof -
  have "SIGN_BIT OR QNAN OR p = SIGN_BIT OR QNAN OR q \<longleftrightarrow> p = q"
    using boxed(2) [OF assms(1)] boxed(2) [OF assms(2)] by metis
  then show ?thesis by (simp add: wrenValuesEqual_cases boxed assms)
qed

text \<open>Two objects that are not singletons.\<close>

lemma Same_objects:
  assumes "typed h" "objs h p = Some x" "objs h q = Some y"
  defines "a \<equiv> NAN_MASK OR p" and "b \<equiv> NAN_MASK OR q"
  shows "\<exists>r. Same h a b = Inr r \<and>
    (r \<longleftrightarrow> p = q \<and> (\<forall>f t i. payload x = PRange f t i \<longrightarrow> deq f f \<and> deq t t) \<or>
      (\<exists>f t i f' t'. payload x = PRange f t i \<and> payload y = PRange f' t' i \<and> deq f f' \<and> deq t t') \<or>
      (\<exists>s. payload x = PString s \<and> payload y = PString s))"
proof -
  note t = assms(1) [unfolded typed_def]
  have p: "p \<noteq> 0" "plausible_ptr p" and q: "q \<noteq> 0" "plausible_ptr q" using t assms(2,3) by blast+
  have g: "get_object_value a = p" "get_object_value b = q" "\<not> is_value_float a"
    using p q by (simp_all add: a_def b_def get_object_tagged is_value_float_iff)
  have str: "obj_type x = core h BString \<longleftrightarrow> (\<exists>s. payload x = PString s)"
    "obj_type y = core h BString \<longleftrightarrow> (\<exists>s. payload y = PString s)"
    "obj_type x = core h BRange \<longleftrightarrow> (\<exists>f t i. payload x = PRange f t i)"
    "obj_type y = core h BRange \<longleftrightarrow> (\<exists>f t i. payload y = PRange f t i)"
    using t assms(2,3) by blast+
  have eq: "Same h a b = (if obj_type x \<noteq> obj_type y then Inr False
      else case payload x of PString s \<Rightarrow> Inr (str_EqualTo s (payload y))
        | PRange f t i \<Rightarrow> Inr (range_EqualTo (payload_range f t i) (payload y)) | _ \<Rightarrow> Inr (p = q))"
    using g p q assms(2,3) by (simp add: Same_def deref_def Let_def)
  show ?thesis
  proof (cases "obj_type x = obj_type y")
    case False
    then have "p \<noteq> q" using assms(2,3) by auto
    then show ?thesis using False str eq by (auto simp: deq_def)
  next
    case True
    show ?thesis
    proof (cases "payload x")
      case (PString s)
      then have "\<exists>s'. payload y = PString s'" using True str by auto
      then show ?thesis using PString True eq assms(2,3) by (auto simp: str_EqualTo_def)
    next
      case (PRange f t i)
      then have "\<exists>f' t' i'. payload y = PRange f' t' i'" using True str by metis
      then show ?thesis
        using PRange True eq assms(2,3) deq_sym by (auto simp: range_EqualTo_def)
    qed (use True eq in auto)
  qed
qed

lemma to_vm_object:
  assumes "plausible_ptr p" "p \<noteq> 0"
  shows "to_vm h (NAN_MASK OR p) =
    (if p = true_ptr h then TRUE_VAL else if p = false_ptr h then FALSE_VAL else SIGN_BIT OR QNAN OR p)"
  using assms by (simp add: to_vm_def is_value_float_iff get_object_tagged)

lemma to_vm_null [simp]: "to_vm h NULL_VAL = VM_NULL"
  by (simp add: to_vm_def is_value_float_iff)

lemma to_vm_not_null:
  assumes "plausible_ptr p" "p \<noteq> 0"
  shows "to_vm h (NAN_MASK OR p) \<noteq> VM_NULL" "\<not> is_value_float (to_vm h (NAN_MASK OR p))"
  using boxed [OF assms(1)] singletons_unboxed boxed_not_float [OF assms(1)]
  by (auto simp: to_vm_object [OF assms])

text \<open>
  A range with an end that is not a number: by its ends it differs from itself, where the reference
  compares its address first.
\<close>

definition nan_range :: "heap \<Rightarrow> val \<Rightarrow> bool" where
  "nan_range h v \<longleftrightarrow> \<not> is_value_float v \<and>
     (case objs h (get_object_value v) of
        Some x \<Rightarrow> (case payload x of PRange f t i \<Rightarrow> isnan f \<or> isnan t | _ \<Rightarrow> False)
      | None \<Rightarrow> False)"

lemma Same_objects_agree:
  assumes "typed h" "objs h p = Some x" "objs h q = Some y"
  shows "Same h (NAN_MASK OR p) (NAN_MASK OR q) =
    Inr (wrenValuesEqual (vm_heap_of h) (to_vm h (NAN_MASK OR p)) (to_vm h (NAN_MASK OR q)) \<and>
      \<not> (p = q \<and> nan_range h (NAN_MASK OR p)))"
proof -
  note t = assms(1) [unfolded typed_def]
  have p: "p \<noteq> 0" "plausible_ptr p" and q: "q \<noteq> 0" "plausible_ptr q" using t assms(2,3) by blast+
  obtain r where r: "Same h (NAN_MASK OR p) (NAN_MASK OR q) = Inr r"
    and iff: "r \<longleftrightarrow> p = q \<and> (\<forall>f t i. payload x = PRange f t i \<longrightarrow> deq f f \<and> deq t t) \<or>
      (\<exists>f t i f' t'. payload x = PRange f t i \<and> payload y = PRange f' t' i \<and> deq f f' \<and> deq t t') \<or>
      (\<exists>s. payload x = PString s \<and> payload y = PString s)"
    using Same_objects [OF assms] by blast
  have nan: "nan_range h (NAN_MASK OR p) \<longleftrightarrow> (case payload x of PRange f t i \<Rightarrow> isnan f \<or> isnan t | _ \<Rightarrow> False)"
    using p assms(2) by (simp add: nan_range_def is_value_float_iff get_object_tagged)
  have g: "vm_heap_of h p = (case payload x of PString s \<Rightarrow> OString (Vm_Values.hashString s) s
      | PRange f t i \<Rightarrow> ORange f t i | _ \<Rightarrow> OOther)"
    "vm_heap_of h q = (case payload y of PString s \<Rightarrow> OString (Vm_Values.hashString s) s
      | PRange f t i \<Rightarrow> ORange f t i | _ \<Rightarrow> OOther)"
    using assms(2,3) by (simp_all add: vm_heap_of_def)
  define sp sq where "sp \<longleftrightarrow> p = true_ptr h \<or> p = false_ptr h" and "sq \<longleftrightarrow> q = true_ptr h \<or> q = false_ptr h"
  have tf: "true_ptr h \<noteq> false_ptr h" using t by simp
  show ?thesis
  proof (cases "sp \<or> sq")
    case True
    have "payload x = PBool True \<or> payload x = PBool False \<or> payload y = PBool True \<or> payload y = PBool False"
      using True singleton_payload(1) [OF assms(1,2)] singleton_payload(1) [OF assms(1,3)]
      by (auto simp: sp_def sq_def)
    then have "r \<longleftrightarrow> p = q" "p = q \<Longrightarrow> \<not> nan_range h (NAN_MASK OR p)"
      unfolding iff nan using assms(2,3) by auto
    moreover have "wrenValuesEqual (vm_heap_of h) (to_vm h (NAN_MASK OR p)) (to_vm h (NAN_MASK OR q)) \<longleftrightarrow> p = q"
      using True tf singletons_unboxed boxed(1) [OF p(2)] boxed(1) [OF q(2)]
      unfolding wrenValuesEqual_cases to_vm_object [OF p(2,1)] to_vm_object [OF q(2,1)] sp_def sq_def
      by auto
    ultimately show ?thesis using r by auto
  next
    case False
    then have "to_vm h (NAN_MASK OR p) = SIGN_BIT OR QNAN OR p" "to_vm h (NAN_MASK OR q) = SIGN_BIT OR QNAN OR q"
      by (auto simp: to_vm_object [OF p(2,1)] to_vm_object [OF q(2,1)] sp_def sq_def)
    moreover have "r \<longleftrightarrow> wrenValuesEqual (vm_heap_of h) (SIGN_BIT OR QNAN OR p) (SIGN_BIT OR QNAN OR q) \<and>
        \<not> (p = q \<and> nan_range h (NAN_MASK OR p))"
      unfolding wrenValuesEqual_boxed [OF p(2) q(2)] iff g nan using assms(2,3)
      by (auto simp: deq_def split: payload.splits)
    ultimately show ?thesis using r by simp
  qed
qed

lemma to_vm_valid:
  assumes "valid_val h v" "\<not> is_value_float v"
  shows "to_vm h v = VM_NULL \<longleftrightarrow> v = NULL_VAL" "\<not> is_value_float (to_vm h v)"
proof -
  have "to_vm h v \<noteq> VM_NULL \<and> \<not> is_value_float (to_vm h v)" if nn: "v \<noteq> NULL_VAL"
  proof -
    obtain p where "v = NAN_MASK OR p" "p \<noteq> 0" "plausible_ptr p" using valid_object [OF assms nn] by metis
    then show ?thesis using to_vm_not_null by simp
  qed
  then show "to_vm h v = VM_NULL \<longleftrightarrow> v = NULL_VAL" "\<not> is_value_float (to_vm h v)"
    using singletons_unboxed(7) by (cases "v = NULL_VAL"; simp)+
qed

lemma Same_valid:
  assumes "typed h" "valid_val h a" "valid_val h b" "is_value_float b \<Longrightarrow> is_value_float a"
  shows "Same h a b =
    Inr (wrenValuesEqual (vm_heap_of h) (to_vm h a) (to_vm h b) \<and> \<not> (a = b \<and> nan_range h a))"
proof -
  note b_obj = to_vm_valid [OF assms(3)]
  consider "is_value_float a" | "\<not> is_value_float a" "a = NULL_VAL" | "\<not> is_value_float a" "a \<noteq> NULL_VAL" "b = NULL_VAL"
    | "\<not> is_value_float a" "a \<noteq> NULL_VAL" "b \<noteq> NULL_VAL" by blast
  then show ?thesis
  proof cases
    case 1
    have "a = b \<longleftrightarrow> a = to_vm h b"
      using 1 b_obj(2) by (cases "is_value_float b") (auto simp: to_vm_def)
    then show ?thesis
      using 1 float_not_boxed [OF 1] by (simp add: Same_def to_vm_def wrenValuesEqual_cases nan_range_def)
  next
    case 2
    then have nb: "\<not> is_value_float b" using assms(4) by blast
    have "Same h a b = Inr (b = NULL_VAL)"
      using 2 valid_null [OF assms(3) nb] by (auto simp: Same_def is_value_float_iff)
    moreover have "\<not> nan_range h NULL_VAL" using assms(1) by (auto simp: nan_range_def typed_def split: option.splits)
    ultimately show ?thesis using 2 b_obj(1) [OF nb] singletons_unboxed(1) by (auto simp: wrenValuesEqual_cases)
  next
    case 3
    from valid_object [OF assms(2) 3(1,2)] obtain p x where p: "a = NAN_MASK OR p" "p \<noteq> 0" "plausible_ptr p"
      "get_object_value a = p" by metis
    have "Same h a b = Inr False" using 3 p by (simp add: Same_def)
    then show ?thesis
      using 3(3) p to_vm_not_null(1) [OF p(3,2), of h] singletons_unboxed(1) by (simp add: wrenValuesEqual_cases)
  next
    case 4
    then have nb: "\<not> is_value_float b" using assms(4) by blast
    obtain p x where p: "a = NAN_MASK OR p" "objs h p = Some x" "get_object_value a = p"
      using valid_object [OF assms(2) 4(1,2)] by blast
    obtain q y where q: "b = NAN_MASK OR q" "objs h q = Some y" "get_object_value b = q"
      using valid_object [OF assms(3) nb 4(3)] by blast
    have "a = b \<longleftrightarrow> p = q" using p(1,3) q(1,3) by metis
    then show ?thesis using Same_objects_agree [OF assms(1) p(2) q(2)] unfolding p(1) q(1) by simp
  qed
qed

text \<open>
  C21: Object.same and the reference interpreter's equality of values, on all valid values of a well
  typed heap.  They agree when the first argument is a number or the second is none: numbers are
  compared by their bits, null and booleans by identity, strings by their bytes, ranges by their ends
  and inclusiveness, and everything else by identity; only a range with an end that is not a number is
  not the same as itself.  When the second argument alone is a number the reference finds them
  different, and the runtime compares the first one with the object at the address that the number's
  low bits give: with null if they are zero, and with undefined behaviour if there is no object.
\<close>

theorem Same_agrees:
  assumes "typed h" "valid_val h a" "valid_val h b"
  shows "(is_value_float a \<or> \<not> is_value_float b \<longrightarrow>
      Same h a b = Inr (wrenValuesEqual (vm_heap_of h) (to_vm h a) (to_vm h b) \<and> \<not> (a = b \<and> nan_range h a))) \<and>
    (\<not> is_value_float a \<and> is_value_float b \<longrightarrow>
      \<not> wrenValuesEqual (vm_heap_of h) (to_vm h a) (to_vm h b) \<and>
      Same h a b = Same h a (NAN_MASK OR get_object_value b))"
proof (intro conjI impI)
  assume "is_value_float a \<or> \<not> is_value_float b"
  then show "Same h a b = Inr (wrenValuesEqual (vm_heap_of h) (to_vm h a) (to_vm h b) \<and> \<not> (a = b \<and> nan_range h a))"
    by (intro Same_valid [OF assms]) auto
next
  assume f: "\<not> is_value_float a \<and> is_value_float b"
  have "\<not> is_value_float (to_vm h a)"
    using f to_vm_valid(2) [OF assms(2)] by blast
  moreover have "to_vm h b = b" using f by (simp add: to_vm_def)
  ultimately show "\<not> wrenValuesEqual (vm_heap_of h) (to_vm h a) (to_vm h b)"
    using f float_not_boxed [of b] by (auto simp: wrenValuesEqual_cases)
  have "get_object_value (NAN_MASK OR get_object_value b) = get_object_value b"
    by (rule get_object_tagged [OF get_object_plausible])
  then show "Same h a b = Same h a (NAN_MASK OR get_object_value b)"
    using f by (simp add: Same_def)
qed

text \<open>A small heap with the two booleans and two equal strings.\<close>

definition core_ptr :: "builtin \<Rightarrow> ptr" where
  "core_ptr b = (case b of BObject \<Rightarrow> 8 | BClass \<Rightarrow> 16 | BString \<Rightarrow> 24 | BList \<Rightarrow> 32 | BMap \<Rightarrow> 40
     | BRange \<Rightarrow> 48 | BBool \<Rightarrow> 56 | BFn \<Rightarrow> 64 | BFibre \<Rightarrow> 72)"

definition sample_heap :: heap where
  "sample_heap = \<lparr>objs = [128 \<mapsto> \<lparr>obj_type = 56, payload = PBool True\<rparr>, 136 \<mapsto> \<lparr>obj_type = 56, payload = PBool False\<rparr>,
      256 \<mapsto> \<lparr>obj_type = 24, payload = PString [119, 114]\<rparr>, 512 \<mapsto> \<lparr>obj_type = 24, payload = PString [119, 114]\<rparr>],
    cells = (\<lambda>_. 0), core = core_ptr, true_ptr = 128, false_ptr = 136\<rparr>"

lemma sample_heap_typed: "typed sample_heap"
proof -
  have "inj core_ptr" by (rule injI) (auto simp: core_ptr_def split: builtin.splits)
  then show ?thesis
    by (auto simp: typed_def sample_heap_def plausible_ptr_def CONTENT_MASK_def core_ptr_def split: if_splits)
qed

theorem Same_agrees_witness:
  "Same sample_heap (NAN_MASK OR 256) (NAN_MASK OR 512) =
     Inr (wrenValuesEqual (vm_heap_of sample_heap) (to_vm sample_heap (NAN_MASK OR 256)) (to_vm sample_heap (NAN_MASK OR 512)))
   \<and> Same sample_heap (NAN_MASK OR 256) (NAN_MASK OR 512) = Inr True"
proof -
  have pp: "plausible_ptr 256" "plausible_ptr 512" by (simp_all add: plausible_ptr_def CONTENT_MASK_def)
  then have v: "valid_val sample_heap (NAN_MASK OR 256)" "valid_val sample_heap (NAN_MASK OR 512)"
    unfolding valid_val_def by (intro disjI2 exI conjI; simp add: sample_heap_def)+
  have "\<not> is_value_float (NAN_MASK OR 512)" by (simp add: is_value_float_iff)
  moreover have "\<not> nan_range sample_heap (NAN_MASK OR 256)"
    by (simp add: nan_range_def get_object_tagged pp sample_heap_def)
  moreover have "Same sample_heap (NAN_MASK OR 256) (NAN_MASK OR 512) = Inr True"
    by (simp add: Same_def is_value_float_iff get_object_tagged pp deref_def sample_heap_def str_EqualTo_def)
  ultimately show ?thesis using Same_agrees [OF sample_heap_typed v, THEN conjunct1] by simp
qed

text \<open>
  Two instances of a number as the second argument only: null is the same as 1.5, and a string is
  compared with what is stored at an address that holds no object.
\<close>

lemma Same_null_number: "Same h NULL_VAL 0x3FF8000000000000 = Inr True"
proof -
  have "get_object_value 0x3FF8000000000000 = 0" by (simp add: get_object_value_def CONTENT_MASK_def)
  then show ?thesis by (simp add: Same_def is_value_float_iff)
qed

lemma Same_object_number: "Same sample_heap (NAN_MASK OR 256) 0x3FB999999999999A = Inl Undefined"
proof -
  have "plausible_ptr 256" by (simp add: plausible_ptr_def CONTENT_MASK_def)
  then have "get_object_value (NAN_MASK OR 256) = 256" by (rule get_object_tagged)
  then show ?thesis
    by (simp add: Same_def is_value_float_iff deref_def sample_heap_def Let_def)
      (simp add: get_object_value_def CONTENT_MASK_def)
qed

end
