(* ===== verification/Map_Object.thy ===== *)
theory Map_Object
  imports Object_Equality
begin

text \<open>
  Maps (rtsrc/ObjMap.cpp).  \<open>m_contents\<close> is a \<open>std::unordered_map\<close>: the list of its elements in the
  order in which it is iterated.  Three things of the library are arguments: \<open>std_hash\<close>, the standard
  hash of a string; \<open>same_bucket\<close>, whether two hash codes fall into one bucket, where a look-up
  compares the key with the stored ones; and \<open>reorder\<close>, the order after an insertion.
\<close>

type_synonym contents = "(val \<times> val) list"

record std_lib =
  std_hash :: "bytes \<Rightarrow> u64"
  same_bucket :: "u64 \<Rightarrow> u64 \<Rightarrow> bool"
  reorder :: "contents \<Rightarrow> contents"

definition simpleHash :: "val \<Rightarrow> u64" where
  "simpleHash v = (v * 23) XOR push_bit 7 (11 * v) XOR drop_bit 31 v"

text \<open>The cast to \<open>ObjString\<close> after the test of the type pointer.\<close>

definition string_bytes :: "obj \<Rightarrow> bytes" where
  "string_bytes x = (case payload x of PString s \<Rightarrow> s | _ \<Rightarrow> [])"

definition ValueHash :: "std_lib \<Rightarrow> heap \<Rightarrow> val \<Rightarrow> u64 res" where
  "ValueHash lib h v =
     (if \<not> is_object v then Inr (simpleHash v)
      else let obj = get_object_value v in
        if obj = 0 then Inr (simpleHash v)
        else rbind (deref h obj) (\<lambda>x.
          if obj_type x = core h BString then Inr (std_hash lib (string_bytes x)) else Inr (simpleHash v)))"

definition ValueEqual :: "heap \<Rightarrow> val \<Rightarrow> val \<Rightarrow> bool res" where
  "ValueEqual h a b =
     (if \<not> is_object a then Inr (a = b)
      else if is_object a \<noteq> is_object b then Inr False
      else
        let objA = get_object_value a; objB = get_object_value b in
        if objA = 0 then Inr (objB = 0)
        else rbind (deref h objA) (\<lambda>x.
          if obj_type x = core h BString then
            rbind (deref h objB) (\<lambda>y.
              if obj_type y = core h BString then Inr (string_bytes x = string_bytes y)
              else Inr (objA = objB))
          else Inr (objA = objB)))"

text \<open>A chain of parent classes that does not end is a loop without effects, which is undefined.\<close>

definition ValidateKey :: "heap \<Rightarrow> val \<Rightarrow> unit res" where
  "ValidateKey h key =
     (if is_value_float key \<or> key = NULL_VAL then Inr ()
      else rbind (deref h (get_object_value key)) (\<lambda>x.
        if obj_type x = core h BString then Inr ()
        else if obj_type x = core h BBool then Inr ()
        else if obj_type x = core h BRange then Inr ()
        else rbind (Is h (get_object_value key) (core h BClass)) (\<lambda>r.
          case r of
            Some True \<Rightarrow> Inr ()
          | Some False \<Rightarrow> Inl (WrenAbort ''Key must be a value type.'')
          | None \<Rightarrow> Inl Undefined)))"

text \<open>\<open>find\<close>: the position of the element with an equal key.\<close>

fun um_find :: "std_lib \<Rightarrow> heap \<Rightarrow> contents \<Rightarrow> val \<Rightarrow> nat option res" where
  "um_find lib h [] key = Inr None"
| "um_find lib h (e # es) key =
     rbind (ValueHash lib h key) (\<lambda>hk. rbind (ValueHash lib h (fst e)) (\<lambda>he.
     rbind (if same_bucket lib hk he then ValueEqual h key (fst e) else Inr False) (\<lambda>b.
       if b then Inr (Some 0) else rbind (um_find lib h es key) (\<lambda>r. Inr (map_option Suc r)))))"

definition map_New :: contents where
  "map_New = []"

definition map_Clear :: "contents \<Rightarrow> contents" where
  "map_Clear m = []"

definition map_Count :: "contents \<Rightarrow> int" where
  "map_Count m = items_size m"

definition map_ContainsKey :: "std_lib \<Rightarrow> heap \<Rightarrow> contents \<Rightarrow> val \<Rightarrow> bool res" where
  "map_ContainsKey lib h m key =
     rbind (ValidateKey h key) (\<lambda>_. rbind (um_find lib h m key) (\<lambda>r. Inr (r \<noteq> None)))"

definition map_Remove :: "std_lib \<Rightarrow> heap \<Rightarrow> contents \<Rightarrow> val \<Rightarrow> (val \<times> contents) res" where
  "map_Remove lib h m key =
     rbind (ValidateKey h key) (\<lambda>_. rbind (um_find lib h m key) (\<lambda>r.
       case r of
         None \<Rightarrow> Inr (NULL_VAL, m)
       | Some i \<Rightarrow> Inr (snd (m ! i), remove_at i m)))"

definition map_OperatorSubscript :: "std_lib \<Rightarrow> heap \<Rightarrow> contents \<Rightarrow> val \<Rightarrow> val res" where
  "map_OperatorSubscript lib h m key =
     rbind (ValidateKey h key) (\<lambda>_. rbind (um_find lib h m key) (\<lambda>r.
       case r of
         None \<Rightarrow> Inr NULL_VAL
       | Some i \<Rightarrow> Inr (snd (m ! i))))"

definition map_OperatorSubscriptSet ::
  "std_lib \<Rightarrow> heap \<Rightarrow> contents \<Rightarrow> val \<Rightarrow> val \<Rightarrow> (val \<times> contents) res" where
  "map_OperatorSubscriptSet lib h m key v =
     rbind (ValidateKey h key) (\<lambda>_. rbind (um_find lib h m key) (\<lambda>r.
       case r of
         None \<Rightarrow> Inr (v, reorder lib (m @ [(key, v)]))
       | Some i \<Rightarrow> Inr (v, m[i := (fst (m ! i), v)])))"

definition WrapIterator :: "val \<Rightarrow> val res" where
  "WrapIterator raw =
     (if is_value_float raw then Inr raw else encode_object (get_object_value raw + 1))"

definition UnwrapIterator :: "val \<Rightarrow> val res" where
  "UnwrapIterator wrapped =
     (if is_value_float wrapped then Inr wrapped else encode_object (get_object_value wrapped - 1))"

text \<open>\<open>key_str\<close> is the text of the key in the message, \<open>Obj::ToString\<close>.\<close>

definition map_Iterate :: "std_lib \<Rightarrow> (val \<Rightarrow> string) \<Rightarrow> heap \<Rightarrow> contents \<Rightarrow> val \<Rightarrow> val res" where
  "map_Iterate lib key_str h m previous =
     (if m = [] then Inr (encode_bool h False)
      else if previous = NULL_VAL then WrapIterator (fst (hd m))
      else rbind (UnwrapIterator previous) (\<lambda>unwrapped.
        rbind (um_find lib h m unwrapped) (\<lambda>r.
          case r of
            None \<Rightarrow> Inl (WrenAbort (''iterate() called with wrapped key '' @ [CHR 0x27] @ key_str unwrapped @
              [CHR 0x27] @ '', which was not found in the map!''))
          | Some i \<Rightarrow>
              if i + 1 = length m then Inr (encode_bool h False)
              else WrapIterator (fst (m ! (i + 1))))))"

definition KeyIteratorValue :: "val \<Rightarrow> val res" where
  "KeyIteratorValue iterator = UnwrapIterator iterator"

definition ValueIteratorValue :: "std_lib \<Rightarrow> heap \<Rightarrow> contents \<Rightarrow> val \<Rightarrow> val res" where
  "ValueIteratorValue lib h m iterator =
     rbind (UnwrapIterator iterator) (\<lambda>k. rbind (um_find lib h m k) (\<lambda>r.
       case r of
         None \<Rightarrow> Inl (WrenAbort ''Called valueIteratorValue_ with an invalid iterator - not found in map!'')
       | Some i \<Rightarrow> Inr (snd (m ! i))))"

section \<open>The keys\<close>

text \<open>
  Equality and hash as total functions: outside the cases in which the code is undefined they are the
  code's, and a value equals itself.
\<close>

definition map_key_eq :: "heap \<Rightarrow> val \<Rightarrow> val \<Rightarrow> bool" where
  "map_key_eq h a b \<longleftrightarrow> a = b \<or> ValueEqual h a b = Inr True"

definition map_key_hash :: "std_lib \<Rightarrow> heap \<Rightarrow> val \<Rightarrow> nat" where
  "map_key_hash lib h v = (case ValueHash lib h v of Inl e \<Rightarrow> 0 | Inr u \<Rightarrow> unat u)"

text \<open>What a key is compared by.\<close>

datatype key_class = KNumber u64 | KNull | KString bytes | KObject ptr | KInvalid

definition key_class :: "heap \<Rightarrow> val \<Rightarrow> key_class" where
  "key_class h v =
     (if \<not> is_object v then KNumber v
      else if get_object_value v = 0 then KNull
      else case objs h (get_object_value v) of
          None \<Rightarrow> KInvalid
        | Some x \<Rightarrow> if obj_type x = core h BString then KString (string_bytes x) else KObject (get_object_value v))"

lemma key_class_eq:
  "is_object v \<Longrightarrow> get_object_value v \<noteq> 0 \<Longrightarrow> objs h (get_object_value v) = Some x \<Longrightarrow>
    key_class h v = (if obj_type x = core h BString then KString (string_bytes x) else KObject (get_object_value v))"
  by (simp add: key_class_def)

lemma ValueEqual_True:
  "ValueEqual h a b = Inr True \<longleftrightarrow> key_class h a = key_class h b \<and> key_class h a \<noteq> KInvalid"
proof (cases "is_object a \<and> is_object b \<and> get_object_value a \<noteq> 0")
  case False
  then show ?thesis
    by (auto simp: ValueEqual_def key_class_def Let_def split: option.split)
next
  case True
  show ?thesis
  proof (cases "objs h (get_object_value a)")
    case None
    then show ?thesis using True by (simp add: ValueEqual_def deref_def key_class_def Let_def)
  next
    case (Some x)
    note ka = key_class_eq [OF _ _ Some]
    show ?thesis
    proof (cases "get_object_value b = 0")
      case b0: True
      then have "key_class h b = KNull" using True by (simp add: key_class_def)
      then show ?thesis using True Some b0 ka by (simp add: ValueEqual_def deref_def Let_def)
    next
      case b: False
      show ?thesis
      proof (cases "objs h (get_object_value b)")
        case None
        then have "key_class h b = KInvalid" using True b by (simp add: key_class_def)
        moreover have "get_object_value a \<noteq> get_object_value b" using Some None by auto
        ultimately show ?thesis using True Some None b ka by (simp add: ValueEqual_def deref_def Let_def)
      next
        case y: (Some y)
        have same: "get_object_value a = get_object_value b \<Longrightarrow> x = y" using Some y by simp
        show ?thesis
          using True Some y b ka key_class_eq [OF _ b y] same
          by (auto simp: ValueEqual_def deref_def Let_def)
      qed
    qed
  qed
qed

lemma valid_val_object: "valid_val h v \<Longrightarrow> is_object v \<Longrightarrow> v = NAN_MASK OR get_object_value v"
  unfolding valid_val_def is_value_float_iff by (metis get_object_tagged)

interpretation mk: hashed_keys "map_key_eq h" "valid_val h" "map_key_hash lib h" for h lib
proof
  fix a b c
  show "map_key_eq h a a" by (simp add: map_key_eq_def)
  show "map_key_eq h a b \<Longrightarrow> map_key_eq h b a"
    unfolding map_key_eq_def ValueEqual_True by auto
  show "map_key_eq h a b \<Longrightarrow> map_key_eq h b c \<Longrightarrow> map_key_eq h a c"
    unfolding map_key_eq_def ValueEqual_True by auto
  assume v: "valid_val h a" "valid_val h b" and "map_key_eq h a b"
  then consider "a = b" | "a \<noteq> b" "key_class h a = key_class h b" "key_class h a \<noteq> KInvalid"
    unfolding map_key_eq_def ValueEqual_True by blast
  then show "map_key_hash lib h a = map_key_hash lib h b"
  proof cases
    case 2
    have o: "is_object a" "is_object b"
      using 2 by (auto simp: key_class_def split: if_splits option.splits)
    have "get_object_value a \<noteq> get_object_value b"
      using valid_val_object [OF v(1) o(1)] valid_val_object [OF v(2) o(2)] 2(1) by metis
    then obtain s where "key_class h a = KString s" "key_class h b = KString s"
      using 2(2,3) o by (auto simp: key_class_def split: if_splits option.splits)
    then have "ValueHash lib h a = Inr (std_hash lib s)" "ValueHash lib h b = Inr (std_hash lib s)"
      using o by (auto simp: key_class_def ValueHash_def deref_def split: if_splits option.splits)
    then show ?thesis by (simp add: map_key_hash_def)
  qed simp
qed

end
