(* ===== verification/Map_Proofs.thy ===== *)
theory Map_Proofs
  imports Map_Object
begin

text \<open>
  Maps behave as finite maps from keys to values, and an iteration visits their elements in order.
\<close>

section \<open>Keys of valid values\<close>

lemma no_keys_distinct [simp]: "mk.distinct_keys h used []"
  by (simp add: mk.distinct_keys_def)

lemma valid_key_class: "valid_val h v \<Longrightarrow> key_class h v \<noteq> KInvalid"
  by (auto simp: valid_val_def key_class_def is_value_float_iff get_object_tagged get_object_NULL [unfolded NULL_VAL_def]
      split: option.split)

lemma map_key_eq_valid: "valid_val h b \<Longrightarrow> map_key_eq h a b \<longleftrightarrow> key_class h a = key_class h b"
  unfolding map_key_eq_def ValueEqual_True using valid_key_class by metis

lemma valid_deref:
  assumes "valid_val h v" "is_object v" "get_object_value v \<noteq> 0"
  obtains x where "objs h (get_object_value v) = Some x"
  using assms by (auto simp: valid_val_def is_value_float_iff get_object_tagged get_object_NULL [unfolded NULL_VAL_def])

lemma ValueHash_defined:
  assumes "valid_val h v"
  obtains u where "ValueHash lib h v = Inr u" "map_key_hash lib h v = unat u"
proof -
  have "\<exists>u. ValueHash lib h v = Inr u"
    using assms by (cases "is_object v \<and> get_object_value v \<noteq> 0")
      (auto simp: ValueHash_def Let_def deref_def elim!: valid_deref)
  then show thesis using that by (auto simp: map_key_hash_def)
qed


text \<open>The look-up of a string dereferences a null key in its bucket.\<close>

definition meets_null :: "heap \<Rightarrow> val \<Rightarrow> val list \<Rightarrow> bool" where
  "meets_null h key ks \<longleftrightarrow> (\<exists>s. key_class h key = KString s) \<and> (\<exists>k \<in> set ks. key_class h k = KNull)"

lemma ValueEqual_cases:
  assumes "valid_val h a" "valid_val h b"
  shows "ValueEqual h a b = Inr (map_key_eq h b a) \<or> ValueEqual h a b = Inl Undefined \<and> meets_null h a [b]"
proof -
  have "(\<exists>r. ValueEqual h a b = Inr r) \<or> ValueEqual h a b = Inl Undefined \<and> meets_null h a [b]"
  proof (cases "is_object a \<and> is_object b \<and> get_object_value a \<noteq> 0")
    case False
    then show ?thesis by (auto simp: ValueEqual_def Let_def)
  next
    case True
    then obtain x where x: "objs h (get_object_value a) = Some x" using assms(1) valid_deref by blast
    show ?thesis
    proof (cases "get_object_value b = 0")
      case b0: True
      then have "key_class h b = KNull" using True by (simp add: key_class_def)
      then show ?thesis
        using True x b0 key_class_eq [OF _ _ x] by (auto simp: ValueEqual_def Let_def deref_def meets_null_def)
    next
      case False
      then obtain y where "objs h (get_object_value b) = Some y" using assms(2) True valid_deref by blast
      then show ?thesis using True False x by (simp add: ValueEqual_def Let_def deref_def)
    qed
  qed
  moreover have "r \<longleftrightarrow> map_key_eq h b a" if "ValueEqual h a b = Inr r" for r
    using ValueEqual_True [of h a b] valid_key_class [OF assms(1)] map_key_eq_valid [OF assms(1), of b] that by auto
  ultimately show ?thesis by blast
qed

lemma um_find_cases:
  assumes "\<And>c. same_bucket lib c c" "valid_val h key" "\<forall>e \<in> set m. valid_val h (fst e)"
  shows "um_find lib h m key = Inr (find_index (\<lambda>e. map_key_eq h (fst e) key) m) \<or>
    um_find lib h m key = Inl Undefined \<and> meets_null h key (map fst m)"
  using assms(3)
proof (induction m)
  case (Cons e m)
  have v: "valid_val h (fst e)" using Cons.prems by simp
  obtain hk he where hash: "ValueHash lib h key = Inr hk" "map_key_hash lib h key = unat hk"
    "ValueHash lib h (fst e) = Inr he" "map_key_hash lib h (fst e) = unat he"
    using ValueHash_defined [OF assms(2)] ValueHash_defined [OF v] by metis
  have "map_key_eq h (fst e) key \<Longrightarrow> same_bucket lib hk he"
    using mk.hash_eq [OF v assms(2)] hash(2,4) assms(1) by (metis word_unat_eq_iff)
  then have b: "(if same_bucket lib hk he then ValueEqual h key (fst e) else Inr False) =
      Inr (map_key_eq h (fst e) key) \<or>
      (if same_bucket lib hk he then ValueEqual h key (fst e) else Inr False) = Inl Undefined \<and>
        meets_null h key [fst e]"
    using ValueEqual_cases [OF assms(2) v] by auto
  have "meets_null h key [fst e] \<or> meets_null h key (map fst m) \<Longrightarrow> meets_null h key (map fst (e # m))"
    by (auto simp: meets_null_def)
  then show ?case using Cons b hash(1,3) by auto
qed simp

section \<open>Maps as finite maps\<close>

abbreviation any_key :: "val \<Rightarrow> bool" where
  "any_key \<equiv> \<lambda>_. True"

definition map_value :: "heap \<Rightarrow> contents \<Rightarrow> val \<Rightarrow> val option" where
  "map_value h m k = mk.lookup h any_key m k"

definition map_wf :: "heap \<Rightarrow> contents \<Rightarrow> bool" where
  "map_wf h m \<longleftrightarrow> (\<forall>e \<in> set m. valid_val h (fst e)) \<and> mk.distinct_keys h any_key m"

text \<open>A map in which no look-up of a stored key meets the key null by accident.\<close>

definition no_clash :: "heap \<Rightarrow> val list \<Rightarrow> bool" where
  "no_clash h ks \<longleftrightarrow>
     (\<exists>k \<in> set ks. key_class h k = KNull) \<longrightarrow> (\<forall>k \<in> set ks. \<forall>s. key_class h k \<noteq> KString s)"

definition map_ok :: "heap \<Rightarrow> contents \<Rightarrow> bool" where
  "map_ok h m \<longleftrightarrow>
     (\<forall>e \<in> set m. valid_val h (fst e)) \<and> no_clash h (map fst m) \<and> mk.distinct_keys h any_key m"

lemma map_ok_wf: "map_ok h m \<longleftrightarrow> map_wf h m \<and> no_clash h (map fst m)"
  by (auto simp: map_ok_def map_wf_def)

definition lib_ok :: "std_lib \<Rightarrow> bool" where
  "lib_ok lib \<longleftrightarrow> (\<forall>c. same_bucket lib c c) \<and> (\<forall>m. mset (reorder lib m) = mset m)"

lemma find_index_lookup:
  "map_value h m k = map_option (\<lambda>i. snd (m ! i)) (find_index (\<lambda>e. map_key_eq h (fst e) k) m)"
  unfolding map_value_def by (induction m) (simp_all add: option.map_comp comp_def)

lemma map_value_found:
  assumes "find_index (\<lambda>e. map_key_eq h (fst e) k) m = Some i"
  shows "i < length m" "map_key_eq h (fst (m ! i)) k" "map_value h m k = Some (snd (m ! i))"
  using assms find_index_Some_iff [of "\<lambda>e. map_key_eq h (fst e) k" m i]
  by (simp_all add: find_index_lookup)

lemma map_value_insert:
  assumes "map_value h m k = None" "map_wf h m" "lib_ok lib" "valid_val h k"
  shows "map_wf h (reorder lib (m @ [(k, v)]))"
    "map_value h (reorder lib (m @ [(k, v)])) k' = (if map_key_eq h k k' then Some v else map_value h m k')"
proof -
  let ?m = "reorder lib (m @ [(k, v)])"
  have perm: "mset (m @ [(k, v)]) = mset ?m" using assms(3) by (simp add: lib_ok_def)
  then have set: "set ?m = insert (k, v) (set m)" by (metis set_mset_mset set_append Un_insert_right sup_bot_right list.set(2) empty_set)
  have d: "mk.distinct_keys h any_key (m @ [(k, v)])"
    using assms(1,2) by (intro mk.distinct_keys_append_one) (simp_all add: map_value_def map_wf_def)
  then show "map_wf h ?m"
    using assms(2,4) set mk.distinct_keys_permuted [OF perm] by (auto simp: map_wf_def)
  have "map_value h ?m k' = mk.lookup h any_key (m @ [(k, v)]) k'"
    unfolding map_value_def by (rule mk.lookup_permuted [OF perm d])
  moreover have "map_value h m k' = None" if "map_key_eq h k k'"
    using assms(1) mk.lookup_cong [OF that, of any_key m] by (simp add: map_value_def)
  ultimately show "map_value h ?m k' = (if map_key_eq h k k' then Some v else map_value h m k')"
    by (simp add: mk.lookup_append map_value_def split: option.split)
qed

lemma map_value_remove:
  assumes "find_index (\<lambda>e. map_key_eq h (fst e) k) m = Some i" "map_wf h m"
  shows "map_wf h (remove_at i m)"
    "map_value h (remove_at i m) k' = (if map_key_eq h k k' then None else map_value h m k')"
proof -
  note i = map_value_found [OF assms(1)]
  have perm: "mset m = mset ((m ! i) # remove_at i m)"
    using i(1) insert_remove_at [OF i(1)] by (metis insert_at_def remove_at_def mset_append mset.simps(2)
        union_mset_add_mset_right append_take_drop_id id_take_nth_drop)
  have sub: "set (remove_at i m) \<subseteq> set m"
    unfolding remove_at_def using set_take_subset set_drop_subset by (metis Un_least set_append)
  have d: "mk.distinct_keys h any_key ((m ! i) # remove_at i m)"
    using mk.distinct_keys_permuted [OF perm] assms(2) by (simp add: map_wf_def)
  then have d': "mk.distinct_keys h any_key (remove_at i m)" "map_value h (remove_at i m) (fst (m ! i)) = None"
    by (simp_all add: mk.distinct_keys_Cons map_value_def)
  show "map_wf h (remove_at i m)" using assms(2) sub d'(1) by (auto simp: map_wf_def)
  have "map_value h m k' = (if map_key_eq h (fst (m ! i)) k' then Some (snd (m ! i)) else map_value h (remove_at i m) k')"
    using mk.lookup_permuted [OF perm, of h any_key k'] assms(2) by (auto simp: map_value_def map_wf_def)
  moreover have "map_key_eq h (fst (m ! i)) k' \<longleftrightarrow> map_key_eq h k k'" by (rule mk.eq_cong [OF i(2)])
  moreover have "map_value h (remove_at i m) k' = None" if "map_key_eq h (fst (m ! i)) k'"
    using d'(2) mk.lookup_cong [OF that, of any_key "remove_at i m"] by (simp add: map_value_def)
  ultimately show "map_value h (remove_at i m) k' = (if map_key_eq h k k' then None else map_value h m k')"
    by simp
qed

lemma map_value_replace:
  assumes "find_index (\<lambda>e. map_key_eq h (fst e) k) m = Some i" "map_wf h m"
  shows "map_wf h (m[i := (fst (m ! i), v)])"
    "map_value h (m[i := (fst (m ! i), v)]) k' = (if map_key_eq h k k' then Some v else map_value h m k')"
proof -
  note i = map_value_found [OF assms(1)]
  have d: "mk.distinct_keys h any_key m" using assms(2) by (simp add: map_wf_def)
  have keys: "map fst (m[i := (fst (m ! i), v)]) = map fst m"
    by (metis map_update fst_conv list_update_id)
  have keys_of: "(\<forall>e \<in> set es. valid_val h (fst e)) \<longleftrightarrow> (\<forall>k \<in> set (map fst es). valid_val h k)" for es :: contents
    by simp
  have "\<forall>e \<in> set (m[i := (fst (m ! i), v)]). valid_val h (fst e)"
    using assms(2) unfolding map_wf_def keys_of keys by blast
  then show "map_wf h (m[i := (fst (m ! i), v)])"
    using assms(2) keys mk.lookup_update_value(2) [OF d i(1)] by (simp add: map_wf_def)
  show "map_value h (m[i := (fst (m ! i), v)]) k' = (if map_key_eq h k k' then Some v else map_value h m k')"
    using mk.lookup_update_value(1) [OF d i(1), of v k'] mk.eq_cong [OF i(2), of k'] by (simp add: map_value_def)
qed

text \<open>What the operations on one key do to the finite map, and that they all fail alike.\<close>

definition refines_at :: "std_lib \<Rightarrow> heap \<Rightarrow> contents \<Rightarrow> val \<Rightarrow> val \<Rightarrow> bool" where
  "refines_at lib h m key v \<longleftrightarrow>
     map_OperatorSubscript lib h m key = Inr (case map_value h m key of None \<Rightarrow> NULL_VAL | Some v \<Rightarrow> v) \<and>
     map_ContainsKey lib h m key = Inr (map_value h m key \<noteq> None) \<and>
     (\<exists>m'. map_OperatorSubscriptSet lib h m key v = Inr (v, m') \<and> map_wf h m' \<and>
       length m' = length m + (if map_value h m key = None then 1 else 0) \<and>
       (\<forall>k. map_value h m' k = (if map_key_eq h key k then Some v else map_value h m k))) \<and>
     (\<exists>m'. map_Remove lib h m key = Inr (case map_value h m key of None \<Rightarrow> NULL_VAL | Some v \<Rightarrow> v, m') \<and>
       map_wf h m' \<and> length m' = length m - (if map_value h m key = None then 0 else 1) \<and>
       (\<forall>k. map_value h m' k = (if map_key_eq h key k then None else map_value h m k)))"

definition fails_at :: "std_lib \<Rightarrow> heap \<Rightarrow> contents \<Rightarrow> val \<Rightarrow> val \<Rightarrow> fault \<Rightarrow> bool" where
  "fails_at lib h m key v e \<longleftrightarrow>
     map_OperatorSubscript lib h m key = Inl e \<and> map_ContainsKey lib h m key = Inl e \<and>
     map_OperatorSubscriptSet lib h m key v = Inl e \<and> map_Remove lib h m key = Inl e"

lemma found_refines:
  assumes "map_wf h m" "lib_ok lib" "valid_val h key" "ValidateKey h key = Inr ()"
    and find: "um_find lib h m key = Inr (find_index (\<lambda>e. map_key_eq h (fst e) key) m)"
  shows "refines_at lib h m key v"
proof -
  note ops = map_OperatorSubscript_def map_ContainsKey_def map_OperatorSubscriptSet_def map_Remove_def
  show ?thesis
  proof (cases "find_index (\<lambda>e. map_key_eq h (fst e) key) m")
    case None
    then have none: "map_value h m key = None" by (simp add: find_index_lookup)
    then have absent: "map_value h m k = None" if "map_key_eq h key k" for k
      using mk.lookup_cong [OF that, of any_key m] by (simp add: map_value_def)
    have len: "length (reorder lib (m @ [(key, v)])) = Suc (length m)"
      using assms(2) unfolding lib_ok_def by (metis length_append_singleton size_mset)
    show ?thesis
      unfolding refines_at_def using map_value_insert [OF none assms(1,2,3)] none absent len
      by (auto simp: ops find None assms(1,4))
  next
    case (Some i)
    note i = map_value_found [OF Some]
    show ?thesis
      unfolding refines_at_def using i map_value_replace [OF Some assms(1), of v] map_value_remove [OF Some assms(1)]
      by (auto simp: ops find Some assms(4))
  qed
qed

text \<open>
  C19: A map behaves as a finite map from keys to values, for every map with distinct valid keys and
  every valid value as the key.  A look-up returns the value last set, or null; \<open>ContainsKey\<close> tells
  whether there is one; setting a key changes the map at that key only, keeps the stored key and never
  duplicates it; removing a key returns its value, or null, and makes it absent.  This holds for any
  hash of strings, any distribution of the hash codes to buckets and any order of the elements.  There
  are two exceptions, in which the four operations fail alike and change nothing: a key that is not of
  a value type is refused by \<open>ValidateKey\<close>, and the look-up of a string may be undefined when the map
  has the key null, namely when the two are in one bucket.
\<close>

theorem objmap_refines:
  assumes "map_wf h m" "lib_ok lib" "valid_val h key"
  shows "case ValidateKey h key of
      Inl e \<Rightarrow> fails_at lib h m key v e
    | Inr _ \<Rightarrow> refines_at lib h m key v \<or>
        fails_at lib h m key v Undefined \<and> (\<exists>s. key_class h key = KString s) \<and> map_value h m NULL_VAL \<noteq> None"
proof (cases "ValidateKey h key")
  case (Inl e)
  then show ?thesis
    by (simp add: fails_at_def map_OperatorSubscript_def map_ContainsKey_def map_OperatorSubscriptSet_def map_Remove_def)
next
  case (Inr u)
  have "map_value h m NULL_VAL \<noteq> None" if null: "meets_null h key (map fst m)"
  proof -
    have "valid_val h NULL_VAL" by (auto simp: valid_val_def NULL_VAL_def intro: exI [of _ 0])
    moreover have "key_class h NULL_VAL = KNull" by (simp add: key_class_def)
    ultimately have "\<exists>e \<in> set m. map_key_eq h (fst e) NULL_VAL"
      using null by (auto simp: meets_null_def map_key_eq_valid)
    then show ?thesis unfolding find_index_lookup option.map_disc_iff find_index_None_iff by blast
  qed
  then show ?thesis
    using um_find_cases [of lib h key m] found_refines [OF assms] assms Inr
    by (auto simp: fails_at_def map_OperatorSubscript_def map_ContainsKey_def map_OperatorSubscriptSet_def
        map_Remove_def map_wf_def lib_ok_def meets_null_def)
qed

definition demo_lib :: std_lib where
  "demo_lib = \<lparr>std_hash = (\<lambda>s. word_of_nat (length s)), same_bucket = (\<lambda>a b. a = b), reorder = rev\<rparr>"

lemma demo_lib_ok: "lib_ok demo_lib"
  by (simp add: lib_ok_def demo_lib_def)

text \<open>In the sample heap two strings with the same bytes are one key.\<close>

lemma sample_strings:
  assumes "p = 256 \<or> p = 512"
  shows "valid_val sample_heap (NAN_MASK OR p)" "ValidateKey sample_heap (NAN_MASK OR p) = Inr ()"
    "key_class sample_heap (NAN_MASK OR p) = KString [119, 114]"
proof -
  have pp: "plausible_ptr p" "objs sample_heap p = Some \<lparr>obj_type = 24, payload = PString [119, 114]\<rparr>" "p \<noteq> 0"
    using assms by (auto simp: plausible_ptr_def CONTENT_MASK_def sample_heap_def)
  then show "valid_val sample_heap (NAN_MASK OR p)"
    unfolding valid_val_def by (intro disjI2 exI conjI) auto
  have "core sample_heap BString = 24" by (simp add: sample_heap_def core_ptr_def)
  then show "key_class sample_heap (NAN_MASK OR p) = KString [119, 114]" "ValidateKey sample_heap (NAN_MASK OR p) = Inr ()"
    using pp by (simp_all add: key_class_def ValidateKey_def get_object_tagged string_bytes_def is_value_float_iff deref_def)
qed

theorem objmap_refines_witness:
  "\<exists>m'. map_OperatorSubscriptSet demo_lib sample_heap [(NAN_MASK OR 256, 7)] (NAN_MASK OR 512) 9 = Inr (9, m') \<and>
    map_wf sample_heap m' \<and> length m' = 1 \<and> map_value sample_heap m' (NAN_MASK OR 256) = Some 9"
proof -
  let ?m = "[(NAN_MASK OR 256, 7)] :: contents"
  note s = sample_strings [of 256] sample_strings [of 512]
  have ok: "map_wf sample_heap ?m" using s by (simp add: map_wf_def mk.distinct_keys_Cons)
  have eq: "map_key_eq sample_heap (NAN_MASK OR 256) (NAN_MASK OR 512)"
    "map_key_eq sample_heap (NAN_MASK OR 512) (NAN_MASK OR 256)"
    using s by (simp_all add: map_key_eq_valid)
  have found: "map_value sample_heap ?m (NAN_MASK OR 512) = Some 7"
    using eq by (simp add: map_value_def)
  have "valid_val sample_heap NULL_VAL" by (auto simp: valid_val_def NULL_VAL_def intro: exI [of _ 0])
  then have "map_value sample_heap ?m NULL_VAL = None"
    using s(3) by (simp add: map_value_def map_key_eq_valid) (simp add: key_class_def)
  then have "refines_at demo_lib sample_heap ?m (NAN_MASK OR 512) 9"
    using objmap_refines [OF ok demo_lib_ok, of "NAN_MASK OR 512" 9] s by simp
  then obtain m' where "map_OperatorSubscriptSet demo_lib sample_heap ?m (NAN_MASK OR 512) 9 = Inr (9, m')"
    "map_wf sample_heap m'" "length m' = length ?m + (if map_value sample_heap ?m (NAN_MASK OR 512) = None then 1 else 0)"
    "\<forall>k. map_value sample_heap m' k =
      (if map_key_eq sample_heap (NAN_MASK OR 512) k then Some 9 else map_value sample_heap ?m k)"
    unfolding refines_at_def by blast
  then show ?thesis using eq found by (intro exI [of _ m']) simp
qed

section \<open>Iteration\<close>









text \<open>
  What the restriction on the keys leaves out: looking up a string that falls into the bucket of a
  null key dereferences null.
\<close>

lemma string_and_null_keys:
  assumes "\<forall>a b. same_bucket lib a b"
  shows "map_OperatorSubscript lib sample_heap [(NULL_VAL, v)] (NAN_MASK OR 256) = Inl Undefined"
proof -
  have pp: "plausible_ptr 256" by (simp add: plausible_ptr_def CONTENT_MASK_def)
  have "core sample_heap BString = 24" by (simp add: sample_heap_def core_ptr_def)
  moreover have "objs sample_heap 256 = Some \<lparr>obj_type = 24, payload = PString [119, 114]\<rparr>"
    by (simp add: sample_heap_def)
  ultimately show ?thesis
    using sample_strings(2) [of 256] assms
    by (simp add: map_OperatorSubscript_def ValueHash_def ValueEqual_def deref_def get_object_tagged [OF pp])
qed

end
