(* ===== verification/Number_Object.thy ===== *)
theory Number_Object
  imports List_Object Double_Integers Ranges Vm_Values
begin

text \<open>
  The methods of numbers (rtsrc/ObjNum.cpp) and the primitives of the reference interpreter they
  follow (lib/wren-main/src/vm/wren_core.c).  Receivers and arguments are numbers: the bindings
  check them before a method is called.  The functions of the C mathematical library other than
  \<open>fabs\<close>, \<open>fmod\<close>, \<open>modf\<close>, \<open>trunc\<close>, \<open>floor\<close>, \<open>ceil\<close> and \<open>round\<close> are left out.
\<close>

unbundle bit_operations_syntax

section \<open>Arithmetic and comparison\<close>

definition num_Negate :: "double \<Rightarrow> double" where
  "num_Negate receiver = dneg receiver"

definition num_OperatorBoolNegate :: "double \<Rightarrow> bool" where
  "num_OperatorBoolNegate receiver = False"

definition num_OperatorPlus :: "double \<Rightarrow> double \<Rightarrow> double" where
  "num_OperatorPlus receiver other = dadd receiver other"

definition num_OperatorMinus :: "double \<Rightarrow> double \<Rightarrow> double" where
  "num_OperatorMinus receiver other = dsub receiver other"

definition num_OperatorMultiply :: "double \<Rightarrow> double \<Rightarrow> double" where
  "num_OperatorMultiply receiver other = dmul receiver other"

definition num_OperatorDivide :: "double \<Rightarrow> double \<Rightarrow> double" where
  "num_OperatorDivide receiver other = ddiv receiver other"

definition num_OperatorModulo :: "double \<Rightarrow> double \<Rightarrow> double" where
  "num_OperatorModulo receiver other = dfmod receiver other"

definition num_OperatorEqualTo :: "double \<Rightarrow> val \<Rightarrow> bool" where
  "num_OperatorEqualTo receiver other =
     (if is_object other then False else deq receiver (get_number_value other))"

definition num_OperatorNotEqual :: "double \<Rightarrow> val \<Rightarrow> bool" where
  "num_OperatorNotEqual receiver other = (\<not> num_OperatorEqualTo receiver other)"

definition num_OperatorLessThan :: "double \<Rightarrow> double \<Rightarrow> bool" where
  "num_OperatorLessThan receiver other = dlt receiver other"

definition num_OperatorLessThanEq :: "double \<Rightarrow> double \<Rightarrow> bool" where
  "num_OperatorLessThanEq receiver other = dle receiver other"

definition num_OperatorGreaterThan :: "double \<Rightarrow> double \<Rightarrow> bool" where
  "num_OperatorGreaterThan receiver other = dlt other receiver"

definition num_OperatorGreaterThanEq :: "double \<Rightarrow> double \<Rightarrow> bool" where
  "num_OperatorGreaterThanEq receiver other = dle other receiver"

definition num_OperatorDotDot :: "double \<Rightarrow> double \<Rightarrow> range" where
  "num_OperatorDotDot receiver other = \<lparr>from_num = receiver, to_num = other, inclusive = True\<rparr>"

definition num_OperatorDotDotDot :: "double \<Rightarrow> double \<Rightarrow> range" where
  "num_OperatorDotDotDot receiver other = \<lparr>from_num = receiver, to_num = other, inclusive = False\<rparr>"

section \<open>Bitwise operators\<close>

text \<open>A shift by the width of the type or more is undefined.\<close>

definition num_OperatorBitwiseNegate :: "double \<Rightarrow> double res" where
  "num_OperatorBitwiseNegate receiver =
     rbind (double_to_uint32 receiver) (\<lambda>intValue. Inr (double_of_int (uint (NOT intValue))))"

definition num_OperatorAnd :: "double \<Rightarrow> double \<Rightarrow> double res" where
  "num_OperatorAnd receiver other =
     rbind (double_to_uint32 receiver) (\<lambda>left. rbind (double_to_uint32 other) (\<lambda>right.
       Inr (double_of_int (uint (left AND right)))))"

definition num_OperatorOr :: "double \<Rightarrow> double \<Rightarrow> double res" where
  "num_OperatorOr receiver other =
     rbind (double_to_uint32 receiver) (\<lambda>left. rbind (double_to_uint32 other) (\<lambda>right.
       Inr (double_of_int (uint (left OR right)))))"

definition num_OperatorXOr :: "double \<Rightarrow> double \<Rightarrow> double res" where
  "num_OperatorXOr receiver other =
     rbind (double_to_uint32 receiver) (\<lambda>left. rbind (double_to_uint32 other) (\<lambda>right.
       Inr (double_of_int (uint (left XOR right)))))"

definition num_OperatorLeftShift :: "double \<Rightarrow> double \<Rightarrow> double res" where
  "num_OperatorLeftShift receiver other =
     rbind (double_to_uint32 receiver) (\<lambda>left. rbind (double_to_uint32 other) (\<lambda>right.
       if 32 \<le> unat right then Inl Undefined
       else Inr (double_of_int (uint (push_bit (unat right) left)))))"

definition num_OperatorRightShift :: "double \<Rightarrow> double \<Rightarrow> double res" where
  "num_OperatorRightShift receiver other =
     rbind (double_to_uint32 receiver) (\<lambda>left. rbind (double_to_uint32 other) (\<lambda>right.
       if 32 \<le> unat right then Inl Undefined
       else Inr (double_of_int (uint (drop_bit (unat right) left)))))"

section \<open>Constants\<close>

definition num_Infinity :: double where "num_Infinity = 0x7FF0000000000000"
definition num_Nan :: val where "num_Nan = 0x7ff8000000000000"
definition num_Pi :: double where "num_Pi = 0x400921FB54442D18"
definition num_Tau :: double where "num_Tau = dmul num_Pi (double_of_int 2)"
definition num_Largest :: double where "num_Largest = 0x7FEFFFFFFFFFFFFF"
definition num_Smallest :: double where "num_Smallest = 0x0010000000000000"
definition num_MaxSafeInteger :: double where "num_MaxSafeInteger = double_of_int 9007199254740991"
definition num_MinSafeInteger :: double where "num_MinSafeInteger = double_of_int (- 9007199254740991)"

section \<open>Rounding and tests\<close>

definition num_Abs :: "double \<Rightarrow> double" where
  "num_Abs receiver = receiver AND 0x7FFFFFFFFFFFFFFF"

definition num_Round :: "double \<Rightarrow> double" where "num_Round receiver = dround receiver"
definition num_Floor :: "double \<Rightarrow> double" where "num_Floor receiver = dfloor receiver"
definition num_Ceil :: "double \<Rightarrow> double" where "num_Ceil receiver = dceil receiver"

definition num_Sign :: "double \<Rightarrow> double" where
  "num_Sign receiver =
     (if dlt (double_of_int 0) receiver then double_of_int 1
      else if dlt receiver (double_of_int 0) then double_of_int (- 1)
      else double_of_int 0)"

definition num_Fraction :: "double \<Rightarrow> double res" where
  "num_Fraction receiver =
     rbind (double_to_int64 receiver) (\<lambda>i.
       let result = dsub receiver (double_of_int i) in
       Inr (if deq result (double_of_int 0) \<and> dsign receiver then dzero True else result))"

definition num_Truncate :: "double \<Rightarrow> double res" where
  "num_Truncate receiver =
     rbind (double_to_int64 receiver) (\<lambda>i.
       let result = double_of_int i in
       Inr (if deq result (double_of_int 0) \<and> dsign receiver then dzero True else result))"

definition num_IsInteger :: "double \<Rightarrow> bool res" where
  "num_IsInteger receiver =
     rbind (double_to_int32 receiver) (\<lambda>i. Inr (deq (double_of_int i) receiver))"

definition num_IsNan :: "double \<Rightarrow> bool" where "num_IsNan receiver = isnan receiver"
definition num_IsInfinity :: "double \<Rightarrow> bool" where "num_IsInfinity receiver = isinf receiver"

section \<open>Minimum and maximum\<close>

text \<open>\<open>std::min\<close> and \<open>std::max\<close> return their first argument unless the second is smaller or larger.\<close>

definition std_min :: "double \<Rightarrow> double \<Rightarrow> double" where
  "std_min a b = (if dlt b a then b else a)"

definition std_max :: "double \<Rightarrow> double \<Rightarrow> double" where
  "std_max a b = (if dlt a b then b else a)"

definition num_Clamp :: "double \<Rightarrow> double \<Rightarrow> double \<Rightarrow> double" where
  "num_Clamp receiver minValue maxValue = std_min maxValue (std_max receiver minValue)"

definition num_Min :: "double \<Rightarrow> double \<Rightarrow> double" where
  "num_Min receiver other = std_min receiver other"

definition num_Max :: "double \<Rightarrow> double \<Rightarrow> double" where
  "num_Max receiver other = std_max receiver other"

section \<open>Conversion from and to text\<close>

text \<open>
  \<open>strtod\<close> is an argument: it gets the characters up to the first zero byte, and returns the number,
  the position after the last character it used, and whether \<open>errno\<close> became \<open>ERANGE\<close>.
\<close>

definition isspace :: "u8 \<Rightarrow> bool" where
  "isspace c \<longleftrightarrow> c = 32 \<or> 9 \<le> c \<and> c \<le> 13"

definition c_str :: "bytes \<Rightarrow> bytes" where
  "c_str s = takeWhile (\<lambda>c. c \<noteq> 0) s"

definition skip_space :: "bytes \<Rightarrow> nat \<Rightarrow> nat" where
  "skip_space s end' = end' + length (takeWhile isspace (drop end' s))"

definition num_FromString :: "(bytes \<Rightarrow> double \<times> nat \<times> bool) \<Rightarrow> bytes \<Rightarrow> val res" where
  "num_FromString strtod value =
     (if value = [] then Inr NULL_VAL
      else case strtod (c_str value) of
        (result, end', erange) \<Rightarrow>
          if erange then Inl (WrenAbort ''Number literal is too large.'')
          else if skip_space (c_str value) end' < length value then Inr NULL_VAL
          else encode_number result)"

definition num_ToString :: "(double \<Rightarrow> string) \<Rightarrow> double \<Rightarrow> string" where
  "num_ToString snprintf_g14 receiver =
     (if isnan receiver then ''nan''
      else if isinf receiver then (if dlt (double_of_int 0) receiver then ''infinity'' else ''-infinity'')
      else snprintf_g14 receiver)"

section \<open>The primitives of the reference interpreter\<close>

definition prim_num_bitwise :: "(u32 \<Rightarrow> u32 \<Rightarrow> u32 res) \<Rightarrow> double \<Rightarrow> val \<Rightarrow> string + double res" where
  "prim_num_bitwise bitop arg0 arg1 =
     (case ref_validateNum arg1 ''Right operand'' of
        Inl m \<Rightarrow> Inl m
      | Inr d \<Rightarrow> Inr (rbind (double_to_uint32 arg0) (\<lambda>left. rbind (double_to_uint32 d) (\<lambda>right.
          rbind (bitop left right) (\<lambda>w. Inr (double_of_int (uint w)))))))"

definition prim_num_eqeq :: "double \<Rightarrow> val \<Rightarrow> bool" where
  "prim_num_eqeq arg0 arg1 = (if \<not> IS_NUM arg1 then False else deq arg0 arg1)"

definition prim_num_min :: "double \<Rightarrow> double \<Rightarrow> double" where
  "prim_num_min v other = (if dle v other then v else other)"

definition prim_num_max :: "double \<Rightarrow> double \<Rightarrow> double" where
  "prim_num_max v other = (if dlt other v then v else other)"

definition prim_num_clamp :: "double \<Rightarrow> double \<Rightarrow> double \<Rightarrow> double" where
  "prim_num_clamp v lo hi = (if dlt v lo then lo else if dlt hi v then hi else v)"

text \<open>\<open>modf\<close>: the fraction and the integer part, both with the sign of the argument.\<close>

definition modf :: "double \<Rightarrow> double \<times> double" where
  "modf x =
     (if isnan x then (dquiet x, dquiet x)
      else if isinf x then (dzero (dsign x), x)
      else (dpack (dsign x) (dmag x mod DU), dpack (dsign x) (dmag x div DU * DU)))"

definition prim_num_fraction :: "double \<Rightarrow> double" where
  "prim_num_fraction v = fst (modf v)"

definition prim_num_truncate :: "double \<Rightarrow> double" where
  "prim_num_truncate v = snd (modf v)"

definition prim_num_isInteger :: "double \<Rightarrow> bool" where
  "prim_num_isInteger v = (if isnan v \<or> isinf v then False else deq (dtrunc v) v)"

definition prim_num_sign :: "double \<Rightarrow> double" where
  "prim_num_sign v =
     (if dlt (double_of_int 0) v then double_of_int 1
      else if dlt v (double_of_int 0) then double_of_int (- 1)
      else double_of_int 0)"

definition prim_num_fromString :: "(bytes \<Rightarrow> double \<times> nat \<times> bool) \<Rightarrow> bytes \<Rightarrow> string + val" where
  "prim_num_fromString strtod string =
     (if length string = 0 then Inr VM_NULL
      else case strtod (c_str string) of
        (number, end', erange) \<Rightarrow>
          let end' = skip_space (c_str string) end' in
          if erange then Inl ''Number literal is too large.''
          else if end' < length string then Inr VM_NULL
          else Inr number)"

end
