(* ===== verification/Number_Proofs.thy ===== *)
theory Number_Proofs
  imports Number_Object Double_Integers
begin

text \<open>
  Rounding, bitwise operations and bounds on numbers, with the agreement of the runtime and the
  reference interpreter.
\<close>

section \<open>Truncation and fraction\<close>

lemma dpack_0: "dpack s 0 = dzero s"
  by (simp add: dpack_at_def round_half_even_def dzero_def)

abbreviation trunc_mag :: "double \<Rightarrow> nat" where
  "trunc_mag x \<equiv> dmag x div DU"

lemma trunc_int_cases:
  "nat \<bar>dtrunc_int x\<bar> = trunc_mag x" "dtrunc_int x = 0 \<longleftrightarrow> trunc_mag x = 0"
  "trunc_mag x \<noteq> 0 \<Longrightarrow> dtrunc_int x < 0 \<longleftrightarrow> dsign x"
  by (auto simp: dtrunc_int_def Let_def)

lemma double_of_trunc:
  "double_of_int (dtrunc_int x) = dpack (trunc_mag x \<noteq> 0 \<and> dsign x) (trunc_mag x * DU)"
  using trunc_int_cases [of x] by (cases "trunc_mag x = 0") (simp_all add: double_of_int_def)

lemma double_of_int_0: "double_of_int 0 = dzero False"
  by (simp add: double_of_int_def dpack_0)

lemma zero_tests:
  "dfinite (dzero s)" "dmag (dzero s) = 0" "dscaled (dzero s) = 0" "dsign (dzero s) \<longleftrightarrow> s"
  by (auto simp: dzero_def dfinite_def dexp_def dmag_def dmant_def dscaled_def dsign_def)

lemma finite_not_special: "dfinite x \<Longrightarrow> \<not> isnan x \<and> \<not> isinf x"
  by (auto simp: isnan_def isinf_def dfinite_def)

lemma deq_zero_iff: "dfinite x \<Longrightarrow> deq x (double_of_int 0) \<longleftrightarrow> dmag x = 0"
  using zero_tests [of False] finite_not_special [of x] finite_not_special [of "dzero False"]
  by (simp add: deq_def dkey_finite double_of_int_0) (auto simp: dscaled_def)

lemma finite_zero: "dfinite x \<Longrightarrow> dmag x = 0 \<Longrightarrow> x = dzero (dsign x)"
  by (intro dmag_unique) (simp_all add: zero_tests)

definition int64_range :: "double \<Rightarrow> bool" where
  "int64_range x \<longleftrightarrow> dfinite x \<and> \<bar>dtrunc_int x\<bar> < 2 ^ 63"

lemma int64_range_conversion: "int64_range x \<Longrightarrow> double_to_int64 x = Inr (dtrunc_int x)"
  by (auto simp: int64_range_def double_to_int64_def double_to_int_type_def)

lemma num_Truncate_eq:
  assumes "int64_range x"
  shows "num_Truncate x = Inr (dpack (dsign x) (trunc_mag x * DU))"
proof -
  have f: "dfinite x" using assms by (simp add: int64_range_def)
  note r = representable_parts(1) [OF f]
  show ?thesis
    using dpack_simps [OF r]
    by (cases "trunc_mag x = 0")
      (auto simp: num_Truncate_def int64_range_conversion [OF assms] double_of_trunc deq_zero_iff Let_def dpack_0
        zero_tests)
qed

lemma dneg_fields:
  "dsign (dneg x) \<longleftrightarrow> \<not> dsign x" "dexp (dneg x) = dexp x" "dmant (dneg x) = dmant x"
proof -
  have b: "dneg x = x XOR push_bit 63 1" by (simp add: dneg_def push_bit_eq_mult)
  have sign: "dsign y \<longleftrightarrow> bit y 63" for y :: double
  proof -
    have "unat y div 2 ^ 63 < 2" using unat64_lt [of y] by (simp add: div_less_iff_less_mult)
    then have "unat y div 2 ^ 63 = 0 \<or> unat y div 2 ^ 63 = 1" by linarith
    moreover have "unat y div 2 ^ 63 = 0 \<longleftrightarrow> unat y < 2 ^ 63" by (simp add: div_eq_0_iff)
    moreover have "bit (unat y) 63 \<longleftrightarrow> bit y 63" by (simp add: bit_unsigned_iff)
    then have "bit y 63 \<longleftrightarrow> odd (unat y div 2 ^ 63)" unfolding bit_iff_odd [of "unat y"] by simp
    ultimately show ?thesis unfolding dsign_def not_less [symmetric] by auto
  qed
  show "dsign (dneg x) \<longleftrightarrow> \<not> dsign x" unfolding sign b by (simp add: bit_simps)
  have fields: "dexp y = unat (take_bit 11 (drop_bit 52 y))" "dmant y = unat (take_bit 52 y)" for y :: double
  proof -
    have "unat (take_bit 11 (drop_bit 52 y)) = take_bit 11 (drop_bit 52 (unat y))"
      by (simp add: unsigned_take_bit_eq unsigned_drop_bit_eq take_bit_nat_eq_self [OF unat64_lt] flip: take_bit_eq_mod)
    then show "dexp y = unat (take_bit 11 (drop_bit 52 y))"
      by (simp add: dexp_def take_bit_eq_mod drop_bit_eq_div)
    show "dmant y = unat (take_bit 52 y)"
      unfolding unsigned_take_bit_eq by (simp add: dmant_def take_bit_eq_mod)
  qed
  have "take_bit 11 (drop_bit 52 (dneg x)) = take_bit 11 (drop_bit 52 x)"
    unfolding b by (rule bit_word_eqI) (auto simp: bit_simps)
  then show "dexp (dneg x) = dexp x" by (simp only: fields)
  have "take_bit 52 (dneg x) = take_bit 52 x"
    unfolding b by (rule bit_word_eqI) (auto simp: bit_simps)
  then show "dmant (dneg x) = dmant x" by (simp only: fields)
qed

lemma dneg_finite: "dfinite x \<Longrightarrow> dfinite (dneg x)" "dmag (dneg x) = dmag x" "dscaled (dneg x) = - dscaled x"
  by (auto simp: dfinite_def dmag_def dscaled_def dneg_fields)

lemma dsub_finite:
  assumes "dfinite x" "dfinite y" "dscaled x \<noteq> dscaled y"
  shows "dsub x y = dpack (dscaled x < dscaled y) (nat \<bar>dscaled x - dscaled y\<bar>)"
  using assms finite_not_special [of x] finite_not_special [of y] finite_not_special [of "dneg y"]
  by (simp add: dsub_def dadd_def dneg_finite Let_def)

lemma dsub_equal:
  assumes "dfinite x" "dfinite y" "dscaled x = dscaled y"
  shows "dsub x y = dzero (dsign x \<and> \<not> dsign y)"
  using assms finite_not_special [of x] finite_not_special [of y] finite_not_special [of "dneg y"]
  by (simp add: dsub_def dadd_def dneg_finite dneg_fields Let_def)

lemma num_Fraction_eq:
  assumes "int64_range x"
  shows "num_Fraction x = Inr (dpack (dsign x) (dmag x mod DU))"
proof -
  have f: "dfinite x" using assms by (simp add: int64_range_def)
  note r = representable_parts [OF f]
  let ?i = "double_of_int (dtrunc_int x)"
  have i: "dfinite ?i" "dmag ?i = trunc_mag x * DU" "dsign ?i \<longleftrightarrow> trunc_mag x \<noteq> 0 \<and> dsign x"
    by (simp_all add: double_of_trunc dpack_simps [OF r(1)])
  have split: "int (dmag x) - int (trunc_mag x * DU) = int (dmag x mod DU)"
    by (metis add_diff_cancel_left' div_mult_mod_eq of_nat_add)
  have si: "dscaled ?i = (if dsign x then - int (trunc_mag x * DU) else int (trunc_mag x * DU))"
    using i by (auto simp: dscaled_def)
  have diff: "dscaled x - dscaled ?i = (if dsign x then - int (dmag x mod DU) else int (dmag x mod DU))"
    unfolding si dscaled_def [of x] using split by (simp del: of_nat_mult)
  show ?thesis
  proof (cases "dmag x mod DU = 0")
    case True
    then have "dscaled x = dscaled ?i" using diff by (auto split: if_splits)
    then have "dsub x ?i = dzero (dsign x \<and> \<not> dsign ?i)" by (rule dsub_equal [OF f i(1)])
    then show ?thesis
      using True by (auto simp: num_Fraction_def int64_range_conversion [OF assms] Let_def deq_zero_iff zero_tests dpack_0)
  next
    case False
    then have "dscaled x \<noteq> dscaled ?i" "dscaled x < dscaled ?i \<longleftrightarrow> dsign x"
      "nat \<bar>dscaled x - dscaled ?i\<bar> = dmag x mod DU"
      using diff by (auto split: if_splits)
    then have "dsub x ?i = dpack (dsign x) (dmag x mod DU)" using dsub_finite [OF f i(1)] by simp
    then show ?thesis
      using False r(2) by (simp add: num_Fraction_def int64_range_conversion [OF assms] Let_def deq_zero_iff)
  qed
qed

lemma parts_sum:
  assumes "dfinite x"
  shows "dadd (dpack (dsign x) (trunc_mag x * DU)) (dpack (dsign x) (dmag x mod DU)) = x"
proof -
  note r = representable_parts [OF assms]
  let ?t = "dpack (dsign x) (trunc_mag x * DU)" and ?f = "dpack (dsign x) (dmag x mod DU)"
  have s: "dscaled ?t + dscaled ?f = dscaled x"
  proof -
    have "int (trunc_mag x * DU) + int (dmag x mod DU) = int (dmag x)"
      by (metis div_mult_mod_eq of_nat_add)
    then show ?thesis using r by (auto simp: dscaled_def)
  qed
  show ?thesis
  proof (cases "dscaled x = 0")
    case True
    then have "dmag x = 0" by (auto simp: dscaled_def split: if_splits)
    then show ?thesis using finite_zero [OF assms] r True s by (simp add: dadd_def)
  next
    case False
    then have "dscaled x < 0 \<longleftrightarrow> dsign x" "nat \<bar>dscaled x\<bar> = dmag x"
      by (auto simp: dscaled_def split: if_splits)
    then have "dadd ?t ?f = dpack (dsign x) (dmag x)" using False r s by (simp add: dadd_def)
    then show ?thesis by (simp add: dpack_dmag [OF assms])
  qed
qed

text \<open>
  The integer part and the fraction of a number whose integer part fits 64 bits are those that the
  reference interpreter computes with \<open>modf\<close>, signs of zero included, and their sum is the number itself.
\<close>

theorem truncate_fraction:
  assumes "int64_range x"
  shows "num_Truncate x = Inr (prim_num_truncate x) \<and> num_Fraction x = Inr (prim_num_fraction x) \<and>
    dadd (prim_num_truncate x) (prim_num_fraction x) = x"
proof -
  have f: "dfinite x" using assms by (simp add: int64_range_def)
  then have "prim_num_truncate x = dpack (dsign x) (trunc_mag x * DU)"
    "prim_num_fraction x = dpack (dsign x) (dmag x mod DU)"
    using finite_not_special [OF f] by (simp_all add: prim_num_truncate_def prim_num_fraction_def modf_def)
  then show ?thesis
    using num_Truncate_eq [OF assms] num_Fraction_eq [OF assms] parts_sum [OF f] by simp
qed

lemma int64_range_of_int: "\<bar>i\<bar> \<le> 2 ^ 53 \<Longrightarrow> int64_range (double_of_int i)"
  by (simp add: int64_range_def double_of_int_fields dtrunc_of_int)

text \<open>Minus two and a half.\<close>

lemma DU_half: "DU = 2 * 2 ^ 1073"
proof -
  have "DU = 2 ^ Suc 1073" unfolding DU_def by (rule arg_cong [of _ _ "\<lambda>n. 2 ^ n"]) simp
  then show ?thesis by (simp only: power_Suc)
qed

lemma halves: "0 < u \<Longrightarrow> (5 * u) div (2 * u) = 2 \<and> (5 * u) mod (2 * u) = u" for u :: nat
  using div_mult_mult2 [of u 5 2] mod_mult_mult2 [of 5 u 2] by simp

theorem truncate_fraction_witness:
  "num_Truncate 0xC004000000000000 = Inr (prim_num_truncate 0xC004000000000000) \<and>
    prim_num_truncate 0xC004000000000000 = double_of_int (- 2) \<and>
    num_Fraction 0xC004000000000000 = Inr (prim_num_fraction 0xC004000000000000)"
proof -
  define u :: nat where "u = 2 ^ 1073"
  have u: "0 < u" "DU = 2 * u" by (simp add: u_def) (simp only: DU_half u_def)
  have x: "dexp 0xC004000000000000 = 1024" "dmant 0xC004000000000000 = 2 ^ 50" "dsign 0xC004000000000000"
    by (simp_all add: dexp_def dmant_def dsign_def)
  have "dmag 0xC004000000000000 = 5 * 2 ^ 1073" by (simp add: dmag_def x)
  then have m: "dmag 0xC004000000000000 = 5 * u" unfolding u_def .
  have q: "dmag 0xC004000000000000 div DU = 2" unfolding m u(2) using halves [OF u(1)] by simp
  have r: "int64_range 0xC004000000000000"
    by (simp add: int64_range_def dfinite_def dtrunc_int_def x q del: DU_half)
  have "\<not> isnan 0xC004000000000000" "\<not> isinf 0xC004000000000000" by (simp_all add: isnan_def isinf_def x)
  then have "prim_num_truncate 0xC004000000000000 = double_of_int (- 2)"
    by (simp add: prim_num_truncate_def modf_def q x double_of_int_def)
  then show ?thesis using truncate_fraction [OF r] by simp
qed

text \<open>The test for integers is right as long as the integer part fits 32 bits; beyond it is undefined.\<close>

lemma num_IsInteger_agrees:
  assumes "dfinite x" "- (2 ^ 31) \<le> dtrunc_int x" "dtrunc_int x < 2 ^ 31"
  shows "num_IsInteger x = Inr (dintegral x)"
proof -
  have "double_to_int32 x = Inr (dtrunc_int x)"
    using assms by (simp add: double_to_int32_def double_to_int_type_def)
  then show ?thesis by (simp add: num_IsInteger_def deq_int32_iff)
qed

lemma num_IsInteger_large: "num_IsInteger (double_of_int (2 ^ 31)) = Inl Undefined"
  by (simp add: num_IsInteger_def double_to_int32_def double_to_int_type_def dtrunc_of_int del: dtrunc_int_def)

lemma prim_isInteger_large: "prim_num_isInteger (double_of_int (2 ^ 31))"
proof -
  have "dmag (double_of_int (2 ^ 31)) = 2 ^ 31 * DU" "dfinite (double_of_int (2 ^ 31))"
    by (simp_all add: double_of_int_fields)
  then have "dtrunc (double_of_int (2 ^ 31)) = double_of_int (2 ^ 31)"
    using finite_not_special dpack_dmag [of "double_of_int (2 ^ 31)"]
    by (simp add: dtrunc_def dround_mag_def)
  then show ?thesis by (simp add: prim_num_isInteger_def double_of_int_fields dcompare_of_int)
qed

section \<open>Bitwise operators\<close>

lemma double_to_uint32_of_int:
  "0 \<le> i \<Longrightarrow> i < 2 ^ 32 \<Longrightarrow> double_to_uint32 (double_of_int i) = Inr (word_of_int i)"
  by (simp add: double_to_uint32_def double_to_int_type_of_int)

lemma uint_word_of_int32: "0 \<le> i \<Longrightarrow> i < 2 ^ 32 \<Longrightarrow> uint (word_of_int i :: u32) = i"
  by (simp add: unsigned_of_int take_bit_int_eq_self)

text \<open>
  The bitwise operators compute on integers from 0 up to \<open>2 ^ 32\<close>, and their results are such integers
  again: the operations on bits, the complement to \<open>2 ^ 32 - 1\<close>, multiplication by a power of two modulo
  \<open>2 ^ 32\<close> and division by a power of two.
\<close>

theorem num_bitwise:
  assumes "0 \<le> i" "i < 2 ^ 32" "0 \<le> j" "j < 2 ^ 32" "k < 32"
  shows "num_OperatorAnd (double_of_int i) (double_of_int j) = Inr (double_of_int (i AND j)) \<and>
    num_OperatorOr (double_of_int i) (double_of_int j) = Inr (double_of_int (i OR j)) \<and>
    num_OperatorXOr (double_of_int i) (double_of_int j) = Inr (double_of_int (i XOR j)) \<and>
    num_OperatorBitwiseNegate (double_of_int i) = Inr (double_of_int (2 ^ 32 - 1 - i)) \<and>
    num_OperatorLeftShift (double_of_int i) (double_of_int (int k)) = Inr (double_of_int (i * 2 ^ k mod 2 ^ 32)) \<and>
    num_OperatorRightShift (double_of_int i) (double_of_int (int k)) = Inr (double_of_int (i div 2 ^ k))"
proof -
  have k: "0 \<le> int k" "int k < 2 ^ 32" "unat (word_of_int (int k) :: u32) = k"
    using assms(5) by (simp_all add: unat_of_nat take_bit_nat_eq_self)
  note conv = double_to_uint32_of_int [OF assms(1,2)] double_to_uint32_of_int [OF assms(3,4)]
    double_to_uint32_of_int [OF k(1,2)]
  note u = uint_word_of_int32 [OF assms(1,2)] uint_word_of_int32 [OF assms(3,4)]
  have "uint (NOT (word_of_int i) :: u32) = 2 ^ 32 - 1 - i"
    using assms(1,2) by (simp add: unsigned_not_eq take_bit_not_eq_mask_diff mask_eq_exp_minus_1 unsigned_of_int take_bit_int_eq_self)
  moreover have "uint (push_bit k (word_of_int i) :: u32) = i * 2 ^ k mod 2 ^ 32"
    unfolding unsigned_push_bit_eq using u(1) by (simp add: push_bit_eq_mult take_bit_eq_mod)
  moreover have "uint (drop_bit k (word_of_int i) :: u32) = i div 2 ^ k"
    unfolding unsigned_drop_bit_eq using assms(1,2) by (simp add: drop_bit_eq_div unsigned_of_int take_bit_int_eq_self)
  ultimately show ?thesis
    using assms(5) u k
    by (simp add: num_OperatorAnd_def num_OperatorOr_def num_OperatorXOr_def num_OperatorBitwiseNegate_def
        num_OperatorLeftShift_def num_OperatorRightShift_def conv unsigned_and_eq unsigned_or_eq unsigned_xor_eq)
qed

theorem num_bitwise_witness:
  "num_OperatorBitwiseNegate (double_of_int 5) = Inr (double_of_int 4294967290) \<and>
    num_OperatorLeftShift (double_of_int 5) (double_of_int 31) = Inr (double_of_int 2147483648)"
  using num_bitwise [of 5 0 31] by simp

section \<open>Minimum, maximum and clamping\<close>

lemma dle_trans: "dle x y \<Longrightarrow> dle y z \<Longrightarrow> dle x z"
  by (auto simp: dle_def)

text \<open>
  C24: What clamping, minimum and maximum return for every argument, beside the reference interpreter.
  Without NaN, and with the bounds in order, clamping gives a number of the interval, which is the
  number itself when it already lies inside; minimum and maximum are a lower and an upper bound of
  both arguments; and the reference gives equal results.  With a NaN operand the results differ:
  minimum and maximum return the receiver and the reference its argument, and clamping NaN, or to an
  upper bound that is NaN, returns the upper bound, where the reference returns the NaN receiver
  or ignores the bound.  With the bounds in the wrong order clamping returns the upper bound, and
  the reference the lower one for numbers below it.
\<close>

theorem num_clamp_bounds:
  "(\<not> isnan x \<and> dle lo hi \<longrightarrow>
      dle lo (num_Clamp x lo hi) \<and> dle (num_Clamp x lo hi) hi \<and>
      (dle lo x \<and> dle x hi \<longrightarrow> deq (num_Clamp x lo hi) x) \<and> deq (num_Clamp x lo hi) (prim_num_clamp x lo hi)) \<and>
    (\<not> isnan x \<and> dlt hi lo \<longrightarrow>
      num_Clamp x lo hi = hi \<and> prim_num_clamp x lo hi = (if dlt x lo then lo else hi)) \<and>
    (isnan x \<longrightarrow> num_Clamp x lo hi = hi \<and> prim_num_clamp x lo hi = x) \<and>
    (isnan hi \<longrightarrow> num_Clamp x lo hi = hi \<and> prim_num_clamp x lo hi = (if dlt x lo then lo else x)) \<and>
    (isnan lo \<and> \<not> isnan x \<and> \<not> isnan hi \<longrightarrow> deq (num_Clamp x lo hi) (prim_num_clamp x lo hi)) \<and>
    (\<not> isnan x \<and> \<not> isnan y \<longrightarrow>
      dle (num_Min x y) x \<and> dle (num_Min x y) y \<and> deq (num_Min x y) (prim_num_min x y) \<and>
      dle x (num_Max x y) \<and> dle y (num_Max x y) \<and> deq (num_Max x y) (prim_num_max x y)) \<and>
    (isnan x \<or> isnan y \<longrightarrow>
      num_Min x y = x \<and> prim_num_min x y = y \<and> num_Max x y = x \<and>
      prim_num_max x y = y)"
  unfolding num_Clamp_def num_Min_def num_Max_def std_min_def std_max_def prim_num_clamp_def prim_num_min_def
      prim_num_max_def dle_def dlt_def deq_def
  by (intro conjI impI) auto

theorem num_clamp_bounds_witness:
  "num_Clamp (double_of_int 7) (double_of_int 0) (double_of_int 5) = double_of_int 5 \<and>
    dle (num_Clamp (double_of_int 7) (double_of_int 0) (double_of_int 5)) (double_of_int 5)"
  using num_clamp_bounds [of "double_of_int 7" "double_of_int 0" "double_of_int 5" "double_of_int 7"]
  by (simp add: num_Clamp_def std_min_def std_max_def double_of_int_fields dcompare_of_int)

text \<open>For instance, with the bounds in the wrong order.\<close>

lemma num_clamp_reversed:
  "num_Clamp (double_of_int 0) (double_of_int 5) (double_of_int 3) = double_of_int 3"
  "prim_num_clamp (double_of_int 0) (double_of_int 5) (double_of_int 3) = double_of_int 5"
  by (simp_all add: num_Clamp_def std_min_def std_max_def prim_num_clamp_def dcompare_of_int)

section \<open>Parsing\<close>

text \<open>Parsing gives the reference's result, whatever the library's \<open>strtod\<close> returns.\<close>

lemma num_FromString_agrees:
  assumes "\<And>s. is_value_float (fst (strtod s))"
  shows "num_FromString strtod s =
    (case prim_num_fromString strtod s of
       Inl m \<Rightarrow> Inl (WrenAbort m)
     | Inr v \<Rightarrow> Inr (if v = VM_NULL then NULL_VAL else v))"
proof -
  have "fst (strtod s) \<noteq> VM_NULL" for s
    using assms [of s] by (auto simp: VM_NULL_def QNAN_def is_value_float_def NAN_MASK_def)
  from this [of "c_str s"] show ?thesis
    using assms [of "c_str s"]
    by (auto simp: num_FromString_def prim_num_fromString_def encode_number_def Let_def split: prod.splits)
qed

end
