(* ===== verification/Ts_Scanner.thy ===== *)
theory Ts_Scanner
  imports Prelude
begin

text \<open>
  The external scanner of the tree-sitter grammar (tree-sitter-wren/src/scanner.c): strings with
  escapes and interpolation, raw strings, and the dots that continue an expression on a later line.

  The \<open>TSLexer\<close> interface of the tree-sitter library is a list of the code points that are left, with the
  positions it keeps: how many code points were read, where the token starts (skipped characters move
  it) and where it was last marked to end.  The look-ahead at the end of the input is zero, and advancing
  there changes nothing.  A failed assertion ends the process.
\<close>

datatype token = DOT | NEWLINE | STRING | STRING_START | STRING_MID | STRING_END

record lexer =
  rest :: "int list"
  pos :: nat
  token_start :: nat
  token_end :: "nat option"
  result_symbol :: "token option"

definition lookahead :: "lexer \<Rightarrow> int" where
  "lookahead l = (case rest l of [] \<Rightarrow> 0 | c # cs \<Rightarrow> c)"

definition eof :: "lexer \<Rightarrow> bool" where
  "eof l \<longleftrightarrow> rest l = []"

definition advance :: "bool \<Rightarrow> lexer \<Rightarrow> lexer" where
  "advance skip l =
     (case rest l of
        [] \<Rightarrow> l
      | c # cs \<Rightarrow>
          l\<lparr>rest := cs, pos := pos l + 1, token_start := (if skip then pos l + 1 else token_start l)\<rparr>)"

definition mark_end :: "lexer \<Rightarrow> lexer" where
  "mark_end l = l\<lparr>token_end := Some (pos l)\<rparr>"

definition set_symbol :: "token \<Rightarrow> lexer \<Rightarrow> lexer" where
  "set_symbol t l = l\<lparr>result_symbol := Some t\<rparr>"

lemma rest_advance: "rest (advance skip l) = tl (rest l)"
  by (simp add: advance_def split: list.split)

lemma advance_less: "rest l \<noteq> [] \<Longrightarrow> length (rest (advance skip l)) < length (rest l)"
  by (simp add: rest_advance)

lemma lookahead_rest: "lookahead l \<noteq> 0 \<Longrightarrow> rest l \<noteq> []"
  by (auto simp: lookahead_def split: list.splits)

lemma tl_less: "tl xs \<noteq> [] \<Longrightarrow> length xs - Suc 0 < length xs"
  by (cases xs) simp_all

section \<open>Whitespace\<close>

text \<open>\<open>getChar\<close>: the look-ahead after skipping blanks.\<close>

function skip_blanks :: "lexer \<Rightarrow> lexer" where
  "skip_blanks l =
     (if lookahead l = 32 \<or> lookahead l = 9 \<or> lookahead l = 13
      then skip_blanks (advance True l)
      else l)"
  by auto
termination
  by (relation "measure (\<lambda>l. length (rest l))") (auto intro!: advance_less lookahead_rest)

declare skip_blanks.simps [simp del]

definition getChar :: "lexer \<Rightarrow> int \<times> lexer" where
  "getChar l = (let l = skip_blanks l in (lookahead l, l))"

section \<open>Strings\<close>

text \<open>The characters are compared after a conversion to \<open>char\<close>, which keeps the low eight bits.\<close>

definition to_char :: "int \<Rightarrow> int" where
  "to_char c = (let b = c mod 256 in if b < 128 then b else b - 256)"

function raw_loop :: "int \<Rightarrow> int \<Rightarrow> int \<Rightarrow> lexer \<Rightarrow> bool \<times> lexer" where
  "raw_loop c1 c2 c3 l =
     (let c1 = c2; c2 = c3; c3 = to_char (lookahead l); l' = advance False l in
      if c1 = 34 \<and> c2 = 34 \<and> c3 = 34 then (True, set_symbol STRING l')
      else if eof l' then (False, l')
      else raw_loop c1 c2 c3 l')"
  by auto
termination
  by (relation "measure (\<lambda>(c1, c2, c3, l). length (rest l))")
    (auto simp: eof_def rest_advance tl_less split: if_splits)

declare raw_loop.simps [simp del]

definition readRawString :: "lexer \<Rightarrow> bool \<times> lexer" where
  "readRawString l = raw_loop 32 32 32 l"

function string_loop :: "bool \<Rightarrow> bool \<Rightarrow> bool \<Rightarrow> bool \<Rightarrow> lexer \<Rightarrow> bool \<times> lexer" where
  "string_loop inInterpolation permitInterpolation isStringStart isEscaped l =
     (if lookahead l = 34 \<and> \<not> isEscaped then
        (let l = advance False l in
         if isStringStart \<and> lookahead l = 34 \<and> \<not> inInterpolation
         then readRawString (advance False l)
         else (True, set_symbol (if inInterpolation then STRING_END else STRING) l))
      else if eof l then (False, l)
      else
        let thisIsEscape = (\<not> isEscaped \<and> lookahead l = 92) in
        if \<not> isEscaped \<and> lookahead l = 37 then
          (if \<not> permitInterpolation then (False, l)
           else
             let l' = advance False l in
             if lookahead l' = 40
             then (True, set_symbol (if inInterpolation then STRING_MID else STRING_START) (advance False l'))
             else string_loop inInterpolation permitInterpolation False thisIsEscape (advance False l'))
        else string_loop inInterpolation permitInterpolation False thisIsEscape (advance False l))"
  by auto
termination
  by (relation "measure (\<lambda>(i, p, s, e, l). length (rest l))") (auto simp: eof_def rest_advance intro: le_less_trans)

declare string_loop.simps [simp del]

definition readString :: "bool \<Rightarrow> bool \<Rightarrow> lexer \<Rightarrow> bool \<times> lexer" where
  "readString inInterpolation permitInterpolation l =
     string_loop inInterpolation permitInterpolation True False (advance False l)"

section \<open>Dots and newlines\<close>

text \<open>The loop that looks for a dot: whether it found a newline, and a dot that ends the scan.\<close>

function dot_loop :: "bool \<Rightarrow> lexer \<Rightarrow> bool \<times> bool \<times> lexer" where
  "dot_loop found_newline l =
     (let (c, l) = getChar l in
      if c = 46 then
        (let l = advance False (mark_end l) in
         if lookahead l = 46 then (False, found_newline, l)
         else (True, found_newline, set_symbol DOT (mark_end l)))
      else if c = 10 then dot_loop True (advance False l)
      else (False, found_newline, l))"
  by auto

lemma skip_blanks_le: "length (rest (skip_blanks l)) \<le> length (rest l)"
proof (induction l rule: skip_blanks.induct)
  case (1 l)
  then show ?case
    using skip_blanks.simps [of l]
    by (cases "lookahead l = 32 \<or> lookahead l = 9 \<or> lookahead l = 13") (auto simp: rest_advance)
qed

termination dot_loop
proof (relation "measure (\<lambda>(f, l). length (rest l))")
  fix f l x c l'
  assume "x = getChar l" "(c, l') = x" "c \<noteq> 46" "c = 10"
  then have "l' = skip_blanks l" "lookahead l' \<noteq> 0" by (auto simp: getChar_def Let_def)
  then show "((True, advance False l'), f, l) \<in> measure (\<lambda>(f, l). length (rest l))"
    using advance_less [OF lookahead_rest, of l' False] skip_blanks_le [of l] by simp
qed simp

declare dot_loop.simps [simp del]

text \<open>The order of the rules: strings, then the continuation of one, then dots, then newlines.\<close>

definition scan_newline :: "(token \<Rightarrow> bool) \<Rightarrow> lexer \<Rightarrow> bool \<times> lexer" where
  "scan_newline valid l =
     (if valid NEWLINE then
        (let (c, l) = getChar l in
         if c = 10 then (True, set_symbol NEWLINE (advance False l)) else (False, l))
      else (False, l))"

definition scan_dot :: "(token \<Rightarrow> bool) \<Rightarrow> lexer \<Rightarrow> bool \<times> lexer" where
  "scan_dot valid l =
     (if valid DOT then
        (let (dot, found_newline, l) = dot_loop False l in
         if dot then (True, l)
         else if found_newline then (True, set_symbol NEWLINE l)
         else (False, l))
      else scan_newline valid l)"

definition scan_rest :: "(token \<Rightarrow> bool) \<Rightarrow> lexer \<Rightarrow> (bool \<times> lexer) res" where
  "scan_rest valid l =
     (if valid STRING_MID \<noteq> valid STRING_END then Inl Fatal
      else if valid STRING_MID then
        (let (c, l) = getChar l in
         if c = 41 then Inr (readString True True l) else Inr (scan_dot valid l))
      else Inr (scan_dot valid l))"

definition scanner_scan :: "(token \<Rightarrow> bool) \<Rightarrow> lexer \<Rightarrow> (bool \<times> lexer) res" where
  "scanner_scan valid l =
     (if valid STRING_START \<and> \<not> valid STRING then Inl Fatal
      else if valid STRING then
        (let (c, l) = getChar l in
         if c = 34 then Inr (readString False (valid STRING_START) l) else scan_rest valid l)
      else scan_rest valid l)"

end
