(* ===== verification/Ts_Scanner_Proofs.thy ===== *)
theory Ts_Scanner_Proofs
  imports Ts_Scanner
begin

text \<open>
  The tokens of the external scanner: progress within the input, string literals and their parts,
  raw strings, and the choice between a dot and a newline.
\<close>

section \<open>Moving through the input\<close>

definition moved :: "lexer \<Rightarrow> lexer \<Rightarrow> bool" where
  "moved l l' \<longleftrightarrow> pos l \<le> pos l' \<and> rest l' = drop (pos l' - pos l) (rest l) \<and> pos l' - pos l \<le> length (rest l)"

definition marks_ok :: "lexer \<Rightarrow> bool" where
  "marks_ok l \<longleftrightarrow> token_start l \<le> pos l \<and> (\<forall>e. token_end l = Some e \<longrightarrow> token_start l \<le> e \<and> e \<le> pos l)"

lemma moved_refl [simp]: "moved l l"
  by (simp add: moved_def)

lemma moved_trans: "moved l l' \<Longrightarrow> moved l' l'' \<Longrightarrow> moved l l''"
  by (auto simp: moved_def)

lemma moved_advance [simp]: "moved l (advance skip l)"
  by (cases "rest l") (simp_all add: moved_def advance_def)

lemma moved_symbol [simp]: "moved l (set_symbol t l') \<longleftrightarrow> moved l l'"
  by (simp add: moved_def set_symbol_def)

lemma moved_mark [simp]: "moved l (mark_end l') \<longleftrightarrow> moved l l'"
  by (simp add: moved_def mark_end_def)

lemma set_symbol_simps [simp]:
  "result_symbol (set_symbol t l) = Some t" "rest (set_symbol t l) = rest l" "pos (set_symbol t l) = pos l"
  "token_end (set_symbol t l) = token_end l" "token_start (set_symbol t l) = token_start l"
  by (simp_all add: set_symbol_def)

lemma mark_end_simps [simp]:
  "result_symbol (mark_end l) = result_symbol l" "rest (mark_end l) = rest l" "pos (mark_end l) = pos l"
  "token_end (mark_end l) = Some (pos l)" "token_start (mark_end l) = token_start l"
  by (simp_all add: mark_end_def)

lemma marks_symbol [simp]: "marks_ok (set_symbol t l) = marks_ok l"
  by (simp add: marks_ok_def set_symbol_def)

lemma marks_mark [simp]: "marks_ok l \<Longrightarrow> marks_ok (mark_end l)"
  by (simp add: marks_ok_def mark_end_def)

lemma marks_advance:
  "marks_ok l \<Longrightarrow> skip \<Longrightarrow> token_end l = None \<Longrightarrow> marks_ok (advance skip l)"
  "marks_ok l \<Longrightarrow> \<not> skip \<Longrightarrow> marks_ok (advance skip l)"
  by (auto simp: marks_ok_def advance_def split: list.splits)

lemma end_advance [simp]: "token_end (advance skip l) = token_end l"
  by (simp add: advance_def split: list.split)

lemma symbol_advance [simp]: "result_symbol (advance skip l) = result_symbol l"
  by (simp add: advance_def split: list.split)

lemma advance_mark:
  "pos (advance skip (mark_end l)) = pos (advance skip l)" "rest (advance skip (mark_end l)) = rest (advance skip l)"
  by (cases "rest l"; simp add: advance_def mark_end_def)+

lemma moved_pos: "rest l \<noteq> [] \<Longrightarrow> moved (advance skip l) l' \<Longrightarrow> pos l < pos l'"
  by (auto simp: moved_def advance_def split: list.splits)

lemma skip_blanks_moved:
  "moved l (skip_blanks l) \<and> token_end (skip_blanks l) = token_end l \<and>
    (token_end l = None \<and> marks_ok l \<longrightarrow> marks_ok (skip_blanks l))"
proof (induction l rule: skip_blanks.induct)
  case (1 l)
  show ?case
  proof (cases "lookahead l = 32 \<or> lookahead l = 9 \<or> lookahead l = 13")
    case True
    then show ?thesis
      using "1.IH" skip_blanks.simps [of l] moved_trans [OF moved_advance [of l True]] marks_advance(1) [of l True]
      by simp
  next
    case False
    then show ?thesis using skip_blanks.simps [of l] by simp
  qed
qed

text \<open>What a finished scan has done: it moved from \<open>l\<close> to \<open>l'\<close>, and the marks are in order.\<close>

abbreviation scanned :: "lexer \<Rightarrow> lexer \<Rightarrow> bool" where
  "scanned l l' \<equiv> moved l l' \<and> (marks_ok l \<longrightarrow> marks_ok l')"

lemma scanned_trans: "scanned l l' \<Longrightarrow> scanned l' l'' \<Longrightarrow> scanned l l''"
  using moved_trans by blast

lemma scanned_advance: "scanned l (advance False l)"
  by (simp add: marks_advance)

lemma scanned_advance2: "scanned l (advance False (advance False l))"
  by (rule scanned_trans [OF scanned_advance scanned_advance])

lemma raw_loop_scanned:
  "raw_loop c1 c2 c3 l = (b, l') \<Longrightarrow> scanned l l' \<and> (b \<longrightarrow> result_symbol l' = Some STRING)"
proof (induction c1 c2 c3 l rule: raw_loop.induct)
  case (1 c1 c2 c3 l)
  let ?l = "advance False l"
  note unf = "1.prems" [unfolded raw_loop.simps [of c1 c2 c3 l] Let_def]
  show ?case
  proof (cases "c2 = 34 \<and> c3 = 34 \<and> to_char (lookahead l) = 34 \<or> eof ?l")
    case True
    then show ?thesis
      using unf marks_advance(2) [of l False] by (auto split: if_splits)
  next
    case False
    then have "scanned ?l l' \<and> (b \<longrightarrow> result_symbol l' = Some STRING)"
      using "1.IH" unf by auto
    then show ?thesis using moved_trans [OF moved_advance [of l False]] marks_advance(2) [of l False] by blast
  qed
qed

text \<open>One round of the loop, by the character it looks at.\<close>

lemma string_loop_quote:
  "lookahead l = 34 \<Longrightarrow> \<not> e \<Longrightarrow> string_loop i p s e l =
    (if s \<and> lookahead (advance False l) = 34 \<and> \<not> i then readRawString (advance False (advance False l))
     else (True, set_symbol (if i then STRING_END else STRING) (advance False l)))"
  by (subst string_loop.simps) (simp add: Let_def)

lemma string_loop_eof: "rest l = [] \<Longrightarrow> string_loop i p s e l = (False, l)"
  by (subst string_loop.simps) (simp add: eof_def lookahead_def)

lemma string_loop_percent:
  "lookahead l = 37 \<Longrightarrow> \<not> e \<Longrightarrow> string_loop i p s e l =
    (if \<not> p then (False, l)
     else if lookahead (advance False l) = 40
     then (True, set_symbol (if i then STRING_MID else STRING_START) (advance False (advance False l)))
     else string_loop i p False False (advance False (advance False l)))"
  using lookahead_rest [of l] by (subst string_loop.simps) (simp add: Let_def eof_def)

lemma string_loop_char:
  "rest l \<noteq> [] \<Longrightarrow> e \<or> lookahead l \<noteq> 34 \<and> lookahead l \<noteq> 37 \<Longrightarrow> string_loop i p s e l =
    string_loop i p False (\<not> e \<and> lookahead l = 92) (advance False l)"
  by (subst string_loop.simps) (auto simp: Let_def eof_def)

lemma string_loop_induct [case_names quote eof stop brace percent char]:
  assumes quote: "\<And>s e l. lookahead l = 34 \<Longrightarrow> \<not> e \<Longrightarrow> P s e l"
    and eof: "\<And>s e l. rest l = [] \<Longrightarrow> P s e l"
    and stop: "\<And>s e l. lookahead l = 37 \<Longrightarrow> \<not> e \<Longrightarrow> \<not> p \<Longrightarrow> P s e l"
    and brace: "\<And>s e l. lookahead l = 37 \<Longrightarrow> \<not> e \<Longrightarrow> p \<Longrightarrow> lookahead (advance False l) = 40 \<Longrightarrow> P s e l"
    and percent: "\<And>s e l. lookahead l = 37 \<Longrightarrow> \<not> e \<Longrightarrow> p \<Longrightarrow> lookahead (advance False l) \<noteq> 40 \<Longrightarrow>
        P False False (advance False (advance False l)) \<Longrightarrow> P s e l"
    and char: "\<And>s e l. rest l \<noteq> [] \<Longrightarrow> e \<or> lookahead l \<noteq> 34 \<and> lookahead l \<noteq> 37 \<Longrightarrow>
        P False (\<not> e \<and> lookahead l = 92) (advance False l) \<Longrightarrow> P s e l"
  shows "P s e l"
proof (induction "length (rest l)" arbitrary: s e l rule: less_induct)
  case less
  show ?case
  proof (cases "rest l = []")
    case True
    then show ?thesis by (rule eof)
  next
    case False
    then have l1: "length (rest (advance False l)) < length (rest l)" by (rule advance_less)
    then have l2: "length (rest (advance False (advance False l))) < length (rest l)"
      by (simp add: rest_advance)
    consider "lookahead l = 34" "\<not> e" | "lookahead l = 37" "\<not> e" | "e \<or> lookahead l \<noteq> 34 \<and> lookahead l \<noteq> 37"
      by blast
    then show ?thesis
    proof cases
      case 1
      then show ?thesis by (rule quote)
    next
      case 2
      then show ?thesis using stop brace percent less [OF l2] by metis
    next
      case 3
      then show ?thesis using char [OF False] less [OF l1] by blast
    qed
  qed
qed

lemma string_loop_scanned:
  "string_loop i p s e l = (b, l') \<Longrightarrow> scanned l l' \<and>
    (b \<longrightarrow> result_symbol l' \<in> (if i then {Some STRING_MID, Some STRING_END}
              else insert (Some STRING) (if p then {Some STRING_START} else {})))"
proof (induction s e l rule: string_loop_induct [where p = p])
  case (quote s e l)
  have m: "scanned l (advance False (advance False l))" by (rule scanned_advance2)
  show ?case
  proof (cases "s \<and> lookahead (advance False l) = 34 \<and> \<not> i")
    case True
    then have "readRawString (advance False (advance False l)) = (b, l')"
      using quote by (simp add: string_loop_quote)
    then have "scanned (advance False (advance False l)) l' \<and> (b \<longrightarrow> result_symbol l' = Some STRING)"
      unfolding readRawString_def by (rule raw_loop_scanned)
    then show ?thesis using scanned_trans [OF m] True by auto
  next
    case False
    then have "b" "l' = set_symbol (if i then STRING_END else STRING) (advance False l)"
      using quote by (auto simp: string_loop_quote)
    then show ?thesis using marks_advance(2) [of l False] by simp
  qed
next
  case (eof s e l)
  then show ?case by (auto simp: string_loop_eof)
next
  case (stop s e l)
  then show ?case by (auto simp: string_loop_percent)
next
  case (brace s e l)
  have "scanned l (advance False (advance False l))" by (rule scanned_advance2)
  then show ?case using brace by (auto simp: string_loop_percent)
next
  case (percent s e l)
  have "scanned l (advance False (advance False l))" by (rule scanned_advance2)
  moreover have "string_loop i p False False (advance False (advance False l)) = (b, l')"
    using percent by (simp add: string_loop_percent)
  ultimately show ?case using percent.IH scanned_trans by blast
next
  case (char s e l)
  have "scanned l (advance False l)" by (rule scanned_advance)
  moreover have "string_loop i p False (\<not> e \<and> lookahead l = 92) (advance False l) = (b, l')"
    using char by (simp add: string_loop_char)
  ultimately show ?case using char.IH scanned_trans by blast
qed

lemma readString_scanned:
  assumes "readString i p l = (b, l')" "rest l \<noteq> []"
  shows "scanned l l' \<and> pos l < pos l' \<and>
    (b \<longrightarrow> result_symbol l' \<in> (if i then {Some STRING_MID, Some STRING_END}
              else insert (Some STRING) (if p then {Some STRING_START} else {})))"
proof -
  note s = string_loop_scanned [OF assms(1) [unfolded readString_def]]
  then have "pos l < pos l'" using moved_pos [OF assms(2)] by blast
  then show ?thesis using s scanned_trans [OF scanned_advance] by blast
qed

text \<open>The dots: the loop stops at the first character that is neither a blank nor a newline.\<close>

definition blank :: "int \<Rightarrow> bool" where
  "blank c \<longleftrightarrow> c = 32 \<or> c = 9 \<or> c = 13"

lemma rest_skip_blanks: "rest (skip_blanks l) = dropWhile blank (rest l)"
proof (induction l rule: skip_blanks.induct)
  case (1 l)
  then show ?case
    using skip_blanks.simps [of l]
    by (cases "rest l") (auto simp: lookahead_def blank_def rest_advance)
qed

text \<open>One round of the loop.\<close>

lemma dot_loop_unfold:
  "dot_loop f l =
    (if lookahead (skip_blanks l) = 46 then
       (let l' = advance False (mark_end (skip_blanks l)) in
        if lookahead l' = 46 then (False, f, l') else (True, f, set_symbol DOT (mark_end l')))
     else if lookahead (skip_blanks l) = 10 then dot_loop True (advance False (skip_blanks l))
     else (False, f, skip_blanks l))"
  by (subst dot_loop.simps) (simp add: getChar_def Let_def)

lemma dot_loop_scanned:
  "dot_loop f l = (d, f', l') \<Longrightarrow> marks_ok l \<Longrightarrow> token_end l = None \<Longrightarrow>
    scanned l l' \<and> (d \<longrightarrow> result_symbol l' = Some DOT \<and> pos l < pos l') \<and> (f' \<and> \<not> f \<longrightarrow> pos l < pos l')"
proof (induction "length (rest l)" arbitrary: f l rule: less_induct)
  case less
  let ?s = "skip_blanks l"
  have s: "moved l ?s" "token_end ?s = None" "marks_ok ?s" using skip_blanks_moved [of l] less.prems by auto
  have adv: "moved l (advance False ?s)" "marks_ok (advance False ?s)" "token_end (advance False ?s) = None"
    using moved_trans [OF s(1) moved_advance [of ?s False]] marks_advance(2) [OF s(3), of False] s(2) by auto
  have pos: "pos l < pos (advance False ?s)" if "lookahead ?s \<noteq> 0"
    using lookahead_rest [OF that] s(1) by (auto simp: moved_def advance_def split: list.split)
  consider "lookahead ?s = 46" | "lookahead ?s = 10" | "lookahead ?s \<noteq> 46" "lookahead ?s \<noteq> 10" by blast
  then show ?case
  proof cases
    case 1
    define m where "m = advance False (mark_end ?s)"
    have m: "marks_ok m" "moved l m" "pos m = pos (advance False ?s)"
      using marks_advance(2) [OF marks_mark [OF s(3)], of False] adv(1) by (simp_all add: m_def advance_mark moved_def)
    have "(d, f', l') = (if lookahead m = 46 then (False, f, m) else (True, f, set_symbol DOT (mark_end m)))"
      using less.prems(1) 1 unfolding dot_loop_unfold [of f l] by (auto simp: Let_def m_def)
    then consider "d = False" "f' = f" "l' = m" | "d" "f' = f" "l' = set_symbol DOT (mark_end m)"
      by (auto split: if_splits)
    then show ?thesis
      using m pos 1 by cases simp_all
  next
    case 2
    then have ne: "rest ?s \<noteq> []" by (intro lookahead_rest) simp
    have "length (rest (advance False ?s)) < length (rest l)"
      using advance_less [OF ne, of False] skip_blanks_le [of l] by linarith
    moreover have "dot_loop True (advance False ?s) = (d, f', l')"
      using less.prems(1) 2 unfolding dot_loop_unfold [of f l] by simp
    ultimately have "scanned (advance False ?s) l' \<and> (d \<longrightarrow> result_symbol l' = Some DOT \<and> pos (advance False ?s) < pos l') \<and>
        (f' \<and> \<not> True \<longrightarrow> pos (advance False ?s) < pos l')"
      using less.hyps adv(2,3) by blast
    moreover have "pos l < pos (advance False ?s)" using pos 2 by simp
    moreover have "pos (advance False ?s) \<le> pos l'" using calculation(1) by (simp add: moved_def)
    moreover have "moved l l'" using calculation(1) moved_trans [OF adv(1)] by blast
    ultimately show ?thesis using adv(2) by auto
  next
    case 3
    then show ?thesis using less.prems(1) s unfolding dot_loop_unfold [of f l] by auto
  qed
qed

lemma getChar_eq: "getChar l = (lookahead (skip_blanks l), skip_blanks l)"
  by (simp add: getChar_def Let_def)

text \<open>The state between two rules of the scan: nothing but blanks was skipped.\<close>

abbreviation fresh :: "lexer \<Rightarrow> bool" where
  "fresh l \<equiv> marks_ok l \<and> token_end l = None"

lemma fresh_skip_blanks: "fresh l \<Longrightarrow> fresh (skip_blanks l) \<and> moved l (skip_blanks l)"
  using skip_blanks_moved [of l] by simp

definition good_scan :: "(token \<Rightarrow> bool) \<Rightarrow> lexer \<Rightarrow> bool \<Rightarrow> lexer \<Rightarrow> bool" where
  "good_scan valid l b l' \<longleftrightarrow>
     moved l l' \<and> marks_ok l' \<and>
     (b \<longrightarrow> pos l < pos l' \<and> (\<exists>t. result_symbol l' = Some t \<and> (valid t \<or> t = NEWLINE)))"

lemma good_scan_after: "moved l0 l \<Longrightarrow> good_scan valid l b l' \<Longrightarrow> good_scan valid l0 b l'"
  using moved_trans unfolding good_scan_def by (metis moved_def order_le_less_trans)

lemma scan_newline_good: "fresh l \<Longrightarrow> scan_newline valid l = (b, l') \<Longrightarrow> good_scan valid l b l'"
proof -
  assume f: "fresh l" and r: "scan_newline valid l = (b, l')"
  let ?s = "skip_blanks l"
  have s: "fresh ?s" "moved l ?s" using fresh_skip_blanks [OF f] by auto
  show ?thesis
  proof (cases "valid NEWLINE \<and> lookahead ?s = 10")
    case True
    then have l': "b" "l' = set_symbol NEWLINE (advance False ?s)" using r by (auto simp: scan_newline_def getChar_eq)
    have "rest ?s \<noteq> []" using True by (intro lookahead_rest) simp
    then have "pos ?s < pos (advance False ?s)" by (rule moved_pos [where skip = False]) simp
    then have "good_scan valid ?s b l'" using l' s(1) marks_advance(2) [of ?s False] by (simp add: good_scan_def)
    then show ?thesis by (rule good_scan_after [OF s(2)])
  next
    case False
    then have "\<not> b" "l' = l \<or> l' = ?s" using r by (auto simp: scan_newline_def getChar_eq split: if_splits)
    then show ?thesis using f s by (auto simp: good_scan_def)
  qed
qed

lemma scan_dot_good: "fresh l \<Longrightarrow> scan_dot valid l = (b, l') \<Longrightarrow> good_scan valid l b l'"
proof -
  assume f: "fresh l" and r: "scan_dot valid l = (b, l')"
  show ?thesis
  proof (cases "valid DOT")
    case True
    obtain d fn l1 where d: "dot_loop False l = (d, fn, l1)" by (cases "dot_loop False l") auto
    have "scanned l l1 \<and> (d \<longrightarrow> result_symbol l1 = Some DOT \<and> pos l < pos l1) \<and> (fn \<and> \<not> False \<longrightarrow> pos l < pos l1)"
      using dot_loop_scanned [OF d conjunct1 [OF f] conjunct2 [OF f]] .
    then show ?thesis using r d True f by (auto simp: scan_dot_def good_scan_def split: if_splits)
  next
    case False
    then show ?thesis using r scan_newline_good [OF f] by (simp add: scan_dot_def)
  qed
qed

lemma readString_good:
  assumes "fresh l" "rest l \<noteq> []" "readString i p l = (b, l')"
    "if i then valid STRING_MID \<and> valid STRING_END else valid STRING \<and> (p \<longrightarrow> valid STRING_START)"
  shows "good_scan valid l b l'"
  using readString_scanned [OF assms(3,2)] assms(1,4) by (auto simp: good_scan_def split: if_splits)

lemma scan_rest_good: "fresh l \<Longrightarrow> scan_rest valid l = Inr (b, l') \<Longrightarrow> good_scan valid l b l'"
proof -
  assume f: "fresh l" and r: "scan_rest valid l = Inr (b, l')"
  let ?s = "skip_blanks l"
  have s: "fresh ?s" "moved l ?s" using fresh_skip_blanks [OF f] by auto
  have v: "valid STRING_MID = valid STRING_END" using r by (simp add: scan_rest_def split: if_splits)
  consider "\<not> valid STRING_MID" "scan_dot valid l = (b, l')"
    | "valid STRING_MID" "lookahead ?s = 41" "readString True True ?s = (b, l')"
    | "valid STRING_MID" "scan_dot valid ?s = (b, l')"
    using r v by (auto simp: scan_rest_def getChar_eq split: if_splits)
  then show ?thesis
  proof cases
    case 1
    then show ?thesis using scan_dot_good [OF f] by simp
  next
    case 2
    then have "rest ?s \<noteq> []" by (intro lookahead_rest) simp
    then show ?thesis using readString_good [OF s(1) _ 2(3), of valid] 2(1) v good_scan_after [OF s(2)] by simp
  next
    case 3
    then show ?thesis using scan_dot_good [OF s(1)] good_scan_after [OF s(2)] by blast
  qed
qed

text \<open>
  C25: A scan of the external scanner stays inside the input: it moves forward over the characters it has
  read, the token it marks lies between the start and the current position, an accepted token always
  advances the input, and it is a token the parser can use at this point, or a newline.  The assertions
  fail only for a set of valid tokens with interpolated but without plain strings, or with only one of the
  two ways to continue a string.
\<close>

theorem scanner_progress:
  assumes "marks_ok l" "token_end l = None"
  shows "case scanner_scan valid l of
      Inr (b, l') \<Rightarrow> moved l l' \<and> marks_ok l' \<and>
        (b \<longrightarrow> pos l < pos l' \<and> (\<exists>t. result_symbol l' = Some t \<and> (valid t \<or> t = NEWLINE)))
    | Inl e \<Rightarrow> valid STRING_START \<and> \<not> valid STRING \<or> valid STRING_MID \<noteq> valid STRING_END"
proof (cases "scanner_scan valid l")
  case (Inl e)
  then show ?thesis by (auto simp: scanner_scan_def scan_rest_def getChar_eq split: if_splits)
next
  case (Inr r)
  obtain b l' where r: "r = (b, l')" by (cases r)
  let ?s = "skip_blanks l"
  have s: "fresh ?s" "moved l ?s" using fresh_skip_blanks [of l] assms by auto
  consider "scan_rest valid l = Inr (b, l')" | "scan_rest valid ?s = Inr (b, l')"
    | "valid STRING" "lookahead ?s = 34" "readString False (valid STRING_START) ?s = (b, l')"
    using Inr r by (auto simp: scanner_scan_def getChar_eq split: if_splits)
  then have "good_scan valid l b l'"
  proof cases
    case 1
    then show ?thesis using scan_rest_good assms by blast
  next
    case 2
    then show ?thesis using scan_rest_good [OF s(1)] good_scan_after [OF s(2)] by blast
  next
    case 3
    then have "rest ?s \<noteq> []" by (intro lookahead_rest) simp
    then show ?thesis using readString_good [OF s(1) _ 3(3), of valid] 3(1) good_scan_after [OF s(2)] by simp
  qed
  then show ?thesis using Inr r by (simp add: good_scan_def)
qed

definition lexer_at :: "int list \<Rightarrow> lexer" where
  "lexer_at cs = \<lparr>rest = cs, pos = 0, token_start = 0, token_end = None, result_symbol = None\<rparr>"

theorem scanner_progress_witness:
  "case scanner_scan (\<lambda>_. True) (lexer_at [32, 34, 97, 34]) of
      Inr (b, l') \<Rightarrow> moved (lexer_at [32, 34, 97, 34]) l' \<and> marks_ok l' \<and> (b \<longrightarrow> 0 < pos l')
    | Inl e \<Rightarrow> False"
  using scanner_progress [of "lexer_at [32, 34, 97, 34]" "\<lambda>_. True"]
  by (auto simp: lexer_at_def marks_ok_def split: sum.splits prod.splits)

section \<open>String literals\<close>

text \<open>
  The inside of a string: characters other than quotes, backslashes and percent signs, and a backslash
  with any character after it.
\<close>

inductive string_body :: "int list \<Rightarrow> bool" where
  Empty: "string_body []"
| Plain: "string_body cs \<Longrightarrow> c \<noteq> 34 \<Longrightarrow> c \<noteq> 92 \<Longrightarrow> c \<noteq> 37 \<Longrightarrow> string_body (c # cs)"
| Escape: "string_body cs \<Longrightarrow> string_body (92 # c # cs)"

inductive_cases string_body_ConsE: "string_body (c # cs)"

definition skipn :: "nat \<Rightarrow> lexer \<Rightarrow> lexer" where
  "skipn n l = (advance False ^^ n) l"

lemma skipn_simps [simp]: "skipn 0 l = l" "skipn (Suc n) l = skipn n (advance False l)"
  by (simp_all add: skipn_def funpow_swap1)

lemma start_advance: "token_start (advance False l) = token_start l"
  by (simp add: advance_def split: list.split)

lemma skipn_fields:
  "rest (skipn n l) = drop n (rest l)" "n \<le> length (rest l) \<Longrightarrow> pos (skipn n l) = pos l + n"
  "token_start (skipn n l) = token_start l" "token_end (skipn n l) = token_end l"
proof (induction n arbitrary: l)
  case (Suc n)
  { case 1 then show ?case using Suc.IH(1) by (simp add: rest_advance drop_Suc) }
  { case 2
    then have "pos (advance False l) = pos l + 1" by (auto simp: advance_def split: list.split)
    then show ?case using Suc.IH(2) [of "advance False l"] 2 by (simp add: rest_advance) }
  { case 3 then show ?case using Suc.IH(3) by (simp add: start_advance) }
  { case 4 then show ?case using Suc.IH(4) by simp }
qed simp_all

text \<open>The loop runs over a body to what follows it.\<close>

lemma string_loop_body:
  assumes "string_body b" "rest l = b @ e" "e \<noteq> []"
  shows "string_loop i p s False l = string_loop i p (s \<and> b = []) False (skipn (length b) l)"
  using assms
proof (induction b arbitrary: s l rule: string_body.induct)
  case (Plain cs c)
  then have "string_loop i p s False l = string_loop i p False False (advance False l)"
    by (subst string_loop_char) (auto simp: lookahead_def)
  moreover have "rest (advance False l) = cs @ e" using Plain.prems by (simp add: rest_advance)
  ultimately show ?case using Plain.IH [of "advance False l" False] Plain.prems by simp
next
  case (Escape cs c)
  then have "string_loop i p s False l = string_loop i p False True (advance False l)"
    by (subst string_loop_char) (auto simp: lookahead_def)
  also have "\<dots> = string_loop i p False False (advance False (advance False l))"
    using Escape.prems by (subst string_loop_char) (auto simp: rest_advance)
  finally show ?case
    using Escape.IH [of "advance False (advance False l)" False] Escape.prems by (simp add: rest_advance)
qed simp

text \<open>
  A string literal is recognised as one token that ends after its closing quote, whatever it contains:
  plain characters and escapes, quotes included.  A part of an interpolated string ends after the opening
  of an interpolation, and the text after an interpolation is scanned in the same way.  The four kinds of
  token tell the parts apart.
\<close>

theorem string_tokens:
  assumes "string_body b" "rest l = c # b @ e @ cs" "inInterp \<or> b \<noteq> [] \<or> cs = [] \<or> hd cs \<noteq> 34"
    "e = [34] \<or> e = [37, 40] \<and> permit"
  shows "\<exists>l'. readString inInterp permit l = (True, l') \<and> rest l' = cs \<and> pos l' = pos l + 1 + length b + length e \<and>
    result_symbol l' = Some (if e = [34] then (if inInterp then STRING_END else STRING)
      else (if inInterp then STRING_MID else STRING_START))"
proof -
  let ?l = "skipn (Suc (length b)) l"
  have r: "rest (advance False l) = b @ (e @ cs)" using assms(2) by (simp add: rest_advance)
  have "readString inInterp permit l = string_loop inInterp permit (b = []) False ?l"
    using string_loop_body [OF assms(1) r, of inInterp permit True] assms(4) by (auto simp: readString_def)
  moreover have l: "rest ?l = e @ cs" "pos ?l = pos l + 1 + length b"
    using assms(2) skipn_fields(1,2) [of "Suc (length b)" l] by simp_all
  ultimately show ?thesis
  proof (cases "e = [34]")
    case True
    have "lookahead ?l = 34" "\<not> (b = [] \<and> lookahead (advance False ?l) = 34 \<and> \<not> inInterp)"
      using True l assms(3) by (auto simp: lookahead_def rest_advance split: list.splits)
    then have "string_loop inInterp permit (b = []) False ?l =
        (True, set_symbol (if inInterp then STRING_END else STRING) (advance False ?l))"
      by (subst string_loop_quote) auto
    moreover have "pos (advance False ?l) = pos ?l + 1" "rest (advance False ?l) = cs"
      using l True by (simp_all add: advance_def)
    ultimately show ?thesis
      using \<open>readString inInterp permit l = _\<close> True l by simp
  next
    case False
    then have e: "e = [37, 40]" "permit" using assms(4) by auto
    have "lookahead ?l = 37" "lookahead (advance False ?l) = 40"
      using e l by (simp_all add: lookahead_def rest_advance)
    then have "string_loop inInterp permit (b = []) False ?l =
        (True, set_symbol (if inInterp then STRING_MID else STRING_START) (advance False (advance False ?l)))"
      using e by (subst string_loop_percent) simp_all
    moreover have "pos (advance False (advance False ?l)) = pos ?l + 2" "rest (advance False (advance False ?l)) = cs"
      using l e by (simp_all add: advance_def)
    ultimately show ?thesis
      using \<open>readString inInterp permit l = _\<close> e l by simp
  qed
qed

theorem string_tokens_witness:
  "\<exists>l'. readString False True (lexer_at [34, 97, 92, 34, 37, 40, 120]) = (True, l') \<and> rest l' = [120] \<and>
    result_symbol l' = Some STRING_START"
proof -
  have "string_body [97, 92, 34]" by (intro string_body.intros) simp_all
  from string_tokens [OF this, of "lexer_at [34, 97, 92, 34, 37, 40, 120]" 34 "[37, 40]" "[120]" False True]
  show ?thesis by (auto simp: lexer_at_def)
qed

text \<open>A percent sign without a parenthesis swallows the character after it, also a closing quote.\<close>

lemma percent_swallows_quote:
  "readString False True (lexer_at [34, 37, 34]) = (False, (lexer_at [])\<lparr>pos := 3\<rparr>)"
  by (simp add: readString_def lexer_at_def string_loop_percent string_loop_eof lookahead_def advance_def)

section \<open>Raw strings\<close>

text \<open>The position of the first three quotes in a row.\<close>

fun first_triple :: "int list \<Rightarrow> nat option" where
  "first_triple (a # b # c # cs) =
     (if a = 34 \<and> b = 34 \<and> c = 34 then Some 0 else map_option Suc (first_triple (b # c # cs)))"
| "first_triple cs = None"

lemma raw_loop_unfold:
  "rest l = [] \<Longrightarrow> raw_loop c1 c2 c3 l = (False, l)"
  "rest l = c # cs \<Longrightarrow> raw_loop c1 c2 c3 l =
    (if c2 = 34 \<and> c3 = 34 \<and> to_char c = 34 then (True, set_symbol STRING (advance False l))
     else if cs = [] then (False, advance False l)
     else raw_loop c2 c3 (to_char c) (advance False l))"
  by (subst raw_loop.simps; simp add: Let_def lookahead_def to_char_def eof_def advance_def)+

lemma raw_loop_eq:
  "raw_loop c1 c2 c3 l =
    (case first_triple (c2 # c3 # map to_char (rest l)) of
       Some n \<Rightarrow> (True, set_symbol STRING (skipn (Suc n) l))
     | None \<Rightarrow> (False, skipn (length (rest l)) l))"
proof (induction "rest l" arbitrary: c1 c2 c3 l)
  case Nil
  then show ?case by (simp add: raw_loop_unfold(1) flip: Nil)
next
  case (Cons c cs)
  have r: "rest l = c # cs" using Cons.hyps(2) by simp
  have a: "cs = rest (advance False l)" by (simp add: rest_advance r)
  show ?case
    unfolding raw_loop_unfold(2) [OF r] Cons.hyps(1) [OF a] r
    by (cases "cs = []") (auto simp: rest_advance r split: option.splits)
qed

lemma first_triple_spaces: "first_triple (32 # 32 # xs) = map_option (\<lambda>n. n + 2) (first_triple xs)"
  by (cases xs; cases "tl xs") (auto simp: option.map_comp comp_def)

text \<open>
  A raw string ends after the first three quotes in a row, whatever it contains before them, and is
  rejected when there are none.  It is stated for texts without the characters that a conversion to
  \<open>char\<close> confuses with a quote.
\<close>

theorem raw_string_token:
  assumes "\<forall>c \<in> set (rest l). c mod 256 = 34 \<longrightarrow> c = 34"
  shows "readRawString l =
    (case first_triple (rest l) of
       Some n \<Rightarrow> (True, set_symbol STRING (skipn (n + 3) l))
     | None \<Rightarrow> (False, skipn (length (rest l)) l))"
proof -
  have "first_triple (map to_char xs) = first_triple xs" if "\<forall>c \<in> set xs. c mod 256 = 34 \<longrightarrow> c = 34" for xs
    using that
  proof (induction xs rule: first_triple.induct)
    case (1 a b c cs)
    have q: "to_char d = 34 \<longleftrightarrow> d = 34" if "d \<in> set (a # b # c # cs)" for d
    proof -
      have "d mod 256 = 34 \<longleftrightarrow> d = 34" using "1.prems" that by fastforce
      moreover have "d mod 256 < 256" by simp
      ultimately show ?thesis unfolding to_char_def Let_def by (cases "d mod 256 < 128") simp_all
    qed
    have "to_char a = 34 \<longleftrightarrow> a = 34" "to_char b = 34 \<longleftrightarrow> b = 34" "to_char c = 34 \<longleftrightarrow> c = 34"
      by (intro q; simp)+
    moreover have "first_triple (map to_char (b # c # cs)) = first_triple (b # c # cs)"
      if "\<not> (a = 34 \<and> b = 34 \<and> c = 34)"
      using "1.prems" by (intro "1.IH" that) (meson list.set_intros(2))
    ultimately show ?case by simp
  qed simp_all
  from this [OF assms] show ?thesis
    unfolding readRawString_def raw_loop_eq first_triple_spaces
    by (auto split: option.splits simp: numeral_3_eq_3)
qed

text \<open>What \<open>first_triple\<close> finds.\<close>

definition triple_at :: "int list \<Rightarrow> nat \<Rightarrow> bool" where
  "triple_at xs k \<longleftrightarrow> k + 2 < length xs \<and> xs ! k = 34 \<and> xs ! (k + 1) = 34 \<and> xs ! (k + 2) = 34"

lemma triple_at_Cons:
  "triple_at (a # b # c # cs) 0 \<longleftrightarrow> a = 34 \<and> b = 34 \<and> c = 34" "triple_at (x # xs) (Suc k) = triple_at xs k"
  by (simp_all add: triple_at_def)

lemma first_triple_Some_iff:
  "first_triple xs = Some n \<longleftrightarrow> triple_at xs n \<and> (\<forall>k < n. \<not> triple_at xs k)"
proof (induction xs arbitrary: n rule: first_triple.induct)
  case (1 a b c cs)
  show ?case
  proof (cases "triple_at (a # b # c # cs) 0")
    case True
    then show ?thesis by (cases n) (auto simp: triple_at_Cons(1))
  next
    case False
    then have "first_triple (a # b # c # cs) = map_option Suc (first_triple (b # c # cs))"
      by (auto simp: triple_at_Cons)
    moreover have "\<not> (a = 34 \<and> b = 34 \<and> c = 34)" using False by (simp add: triple_at_Cons(1))
    ultimately show ?thesis
      using False 1 by (cases n) (auto simp: triple_at_Cons(2) All_less_Suc2)
  qed
qed (simp_all add: triple_at_def)

theorem raw_string_token_witness:
  "\<exists>l'. readRawString (lexer_at [34, 34, 97, 34, 34, 34, 120]) = (True, l') \<and> rest l' = [120]"
  using raw_string_token [of "lexer_at [34, 34, 97, 34, 34, 34, 120]"]
  by (auto simp: lexer_at_def rest_advance numeral_eq_Suc)

text \<open>The character U+0122 is taken for a quote.\<close>

lemma raw_string_truncates: "fst (readRawString (lexer_at [97, 0x122, 34, 34, 98]))"
  by (simp add: readRawString_def raw_loop_eq lexer_at_def to_char_def)

section \<open>Dots and newlines\<close>

definition layout :: "int \<Rightarrow> bool" where
  "layout c \<longleftrightarrow> blank c \<or> c = 10"

definition single_dot :: "int list \<Rightarrow> bool" where
  "single_dot cs \<longleftrightarrow> cs \<noteq> [] \<and> hd cs = 46 \<and> (tl cs = [] \<or> hd (tl cs) \<noteq> 46)"

text \<open>Where the token ends: at its mark, or else where the scan stopped.\<close>

definition final_end :: "lexer \<Rightarrow> nat" where
  "final_end l = (case token_end l of Some e \<Rightarrow> e | None \<Rightarrow> pos l)"

lemma final_end_symbol [simp]: "final_end (set_symbol t l) = final_end l"
  by (cases "token_end l") (simp_all add: final_end_def)

lemma skip_blanks_pos: "pos (skip_blanks l) = pos l + length (takeWhile blank (rest l))"
proof (induction l rule: skip_blanks.induct)
  case (1 l)
  then show ?case
    using skip_blanks.simps [of l]
    by (cases "rest l") (auto simp: lookahead_def blank_def rest_advance advance_def)
qed

lemma takeWhile_layout:
  assumes "dropWhile blank xs = c # cs"
  shows "takeWhile layout xs = takeWhile blank xs @ takeWhile layout (c # cs)"
    "dropWhile layout xs = dropWhile layout (c # cs)"
  using assms by (induction xs) (auto simp: layout_def split: if_splits)

lemma takeWhile_layout_Nil: "dropWhile blank xs = [] \<Longrightarrow> takeWhile layout xs = xs \<and> takeWhile blank xs = xs"
  by (auto simp: dropWhile_eq_Nil_conv takeWhile_eq_all_conv layout_def)

lemma no_newline_blank: "10 \<notin> set (takeWhile blank xs)"
  by (auto simp: blank_def dest: set_takeWhileD)

lemma dot_loop_finds:
  "token_end l = None \<Longrightarrow> \<exists>l'. dot_loop f l =
      (single_dot (dropWhile layout (rest l)), f \<or> 10 \<in> set (takeWhile layout (rest l)), l') \<and>
    final_end l' = pos l + length (takeWhile layout (rest l)) +
      (if single_dot (dropWhile layout (rest l)) then 1 else 0)"
proof (induction "length (rest l)" arbitrary: f l rule: less_induct)
  case less
  let ?s = "skip_blanks l"
  have s: "rest ?s = dropWhile blank (rest l)" "pos ?s = pos l + length (takeWhile blank (rest l))" "token_end ?s = None"
    using skip_blanks_moved [of l] less.prems by (simp_all add: rest_skip_blanks skip_blanks_pos)
  show ?case
  proof (cases "dropWhile blank (rest l)")
    case Nil
    then have "rest ?s = []" using s by simp
    then have "dot_loop f l = (False, f, ?s)"
      unfolding dot_loop_unfold [of f l] by (simp add: lookahead_def)
    moreover have "dropWhile layout (rest l) = []"
      using Nil by (auto simp: dropWhile_eq_Nil_conv layout_def)
    moreover have t: "takeWhile layout (rest l) = takeWhile blank (rest l)"
      using takeWhile_layout_Nil [OF Nil] by (metis (no_types))
    ultimately show ?thesis
      using s(2,3) no_newline_blank [of "rest l"] unfolding t by (simp add: single_dot_def final_end_def)
  next
    case (Cons c cs)
    note w = takeWhile_layout [OF Cons]
    have look: "lookahead ?s = c" using s(1) Cons by (simp add: lookahead_def)
    have nb: "\<not> blank c" using hd_dropWhile [of blank "rest l"] Cons by simp
    consider "c = 46" | "c = 10" | "c \<noteq> 46" "c \<noteq> 10" by blast
    then show ?thesis
    proof cases
      case 1
      define m where "m = advance False (mark_end ?s)"
      have m: "lookahead m = (if cs = [] then 0 else hd cs)" "pos m = pos ?s + 1" "token_end m = Some (pos ?s)"
        using s Cons by (auto simp: m_def lookahead_def advance_def mark_end_def split: list.split)
      have lay: "takeWhile layout (c # cs) = []" "dropWhile layout (c # cs) = c # cs"
        using 1 nb by (simp_all add: layout_def)
      have sd: "single_dot (dropWhile layout (rest l)) \<longleftrightarrow> lookahead m \<noteq> 46"
        unfolding w lay m(1) by (simp add: single_dot_def 1)
      have "dot_loop f l = (if lookahead m = 46 then (False, f, m) else (True, f, set_symbol DOT (mark_end m)))"
        unfolding dot_loop_unfold [of f l] look by (simp add: 1 Let_def m_def)
      then show ?thesis
        using m s(2) sd no_newline_blank [of "rest l"]
        unfolding w(1) lay by (cases "lookahead m = 46") (auto simp: final_end_def)
    next
      case 2
      let ?a = "advance False ?s"
      have a: "rest ?a = cs" "pos ?a = pos ?s + 1" "token_end ?a = None"
        using s Cons by (simp_all add: advance_def)
      have "length (rest ?a) < length (rest l)"
        using a(1) Cons length_dropWhile_le [of blank "rest l"] by simp
      from less.hyps [OF this a(3), of True]
      obtain l' where l': "dot_loop True ?a = (single_dot (dropWhile layout cs), True, l')"
        "final_end l' = pos ?a + length (takeWhile layout cs) + (if single_dot (dropWhile layout cs) then 1 else 0)"
        unfolding a(1) by auto
      have "dot_loop f l = dot_loop True ?a" unfolding dot_loop_unfold [of f l] look using 2 by simp
      then show ?thesis using l' a(2) s(2) 2 unfolding w by (simp add: layout_def)
    next
      case 3
      have lay: "takeWhile layout (c # cs) = []" "dropWhile layout (c # cs) = c # cs"
        using 3 nb by (simp_all add: layout_def)
      have "dot_loop f l = (False, f, ?s)" unfolding dot_loop_unfold [of f l] look using 3 by simp
      then show ?thesis
        using s 3 no_newline_blank [of "rest l"] unfolding w lay by (simp add: single_dot_def final_end_def)
    qed
  qed
qed

lemma dot_loop_symbol: "dot_loop f l = (True, f', l') \<Longrightarrow> result_symbol l' = Some DOT"
proof (induction "length (rest l)" arbitrary: f l rule: less_induct)
  case less
  have "length (rest (advance False (skip_blanks l))) < length (rest l)" if "lookahead (skip_blanks l) = 10"
  proof -
    have "rest (skip_blanks l) \<noteq> []" using that by (intro lookahead_rest) simp
    then show ?thesis using advance_less [of "skip_blanks l" False] skip_blanks_le [of l] by linarith
  qed
  then show ?case
    using less unfolding dot_loop_unfold [of f l] by (auto simp: Let_def split: if_splits)
qed

text \<open>
  Where a dot may follow, blanks and newlines before it are part of the dot's token, so an expression
  goes on after a line break.  Two dots are left to the parser.  Without a dot, the newlines make one
  newline token, and without newlines nothing is recognised.
\<close>

theorem dot_or_newline:
  assumes "valid DOT" "token_end l = None"
  defines "r \<equiv> dropWhile layout (rest l)" and "n \<equiv> length (takeWhile layout (rest l))"
  shows "\<exists>l'. scan_dot valid l = (single_dot r \<or> 10 \<in> set (takeWhile layout (rest l)), l') \<and>
    (single_dot r \<longrightarrow> result_symbol l' = Some DOT \<and> final_end l' = pos l + n + 1) \<and>
    (\<not> single_dot r \<and> 10 \<in> set (takeWhile layout (rest l)) \<longrightarrow>
      result_symbol l' = Some NEWLINE \<and> final_end l' = pos l + n)"
proof -
  obtain l' where l': "dot_loop False l = (single_dot r, 10 \<in> set (takeWhile layout (rest l)), l')"
    "final_end l' = pos l + n + (if single_dot r then 1 else 0)"
    using dot_loop_finds [OF assms(2), of False] unfolding r_def n_def by auto
  have "single_dot r \<Longrightarrow> result_symbol l' = Some DOT"
    using dot_loop_symbol [of False l] l'(1) by auto
  then show ?thesis
    using l' assms(1) by (cases "single_dot r") (auto simp: scan_dot_def)
qed

theorem dot_or_newline_witness:
  "\<exists>l'. scan_dot (\<lambda>t. t = DOT) (lexer_at [10, 32, 46, 99]) = (True, l') \<and> result_symbol l' = Some DOT \<and> final_end l' = 3"
  using dot_or_newline [of "\<lambda>t. t = DOT" "lexer_at [10, 32, 46, 99]"]
  by (auto simp: lexer_at_def layout_def blank_def single_dot_def)

end
