(* ===== verification/Fibre.thy ===== *)
theory Fibre
  imports Values
begin

text \<open>
  Fibres (rtsrc/ObjFibre.cpp).  Each fibre has its own native stack; the assembly routines that switch
  stacks are modelled by what they do to the fibres: the running C++ function of a fibre that switches
  away is kept as its \<open>frame\<close>, and it goes on when another fibre switches back.

  The model follows the POSIX build.  Pointers to native stacks and contexts are kept as whether they
  are set.  The outcome of an operation is what the fibre that runs afterwards sees.
\<close>

section \<open>State\<close>

datatype fibre_state = NOT_STARTED | RUNNING | SUSPENDED | WAITING | FINISHED | FAILED

text \<open>A value, or the message of \<open>wrenAbort\<close>, which is a new string object.\<close>

datatype fval = V val | Text string

text \<open>The function that waits on a fibre's stack for the fibre to be resumed.\<close>

datatype frame = InCall ptr | InTry ptr | InTransfer | InYield

record fibre =
  m_function :: ptr
  m_stack :: bool
  m_state :: fibre_state
  m_resumeAddress :: bool
  m_parent :: ptr
  m_exception :: "fval option"
  m_suspendedContext :: bool
  frame :: "frame option"

record fibres =
  fib :: "ptr \<Rightarrow> fibre"
  currentFibre :: ptr
  mainFibre :: ptr

datatype outcome =
    Continue fval
  | Started "fval list"
  | Thrown fval
  | Exits "fval option"
  | Aborted

definition upd :: "ptr \<Rightarrow> (fibre \<Rightarrow> fibre) \<Rightarrow> fibres \<Rightarrow> fibres" where
  "upd p f s = s\<lparr>fib := (fib s)(p := f (fib s p))\<rparr>"

definition new_fibre :: fibre where
  "new_fibre = \<lparr>m_function = 0, m_stack = False, m_state = NOT_STARTED, m_resumeAddress = False, m_parent = 0,
     m_exception = None, m_suspendedContext = False, frame = None\<rparr>"

text \<open>The fibre of the main thread is created by \<open>GetMainThreadFibre\<close>.\<close>

definition initial_fibres :: "ptr \<Rightarrow> fibres" where
  "initial_fibres p =
     \<lparr>fib = (\<lambda>_. new_fibre)(p := new_fibre\<lparr>m_state := RUNNING\<rparr>), currentFibre = p, mainFibre = p\<rparr>"

definition IsSuspended :: "fibre \<Rightarrow> bool" where
  "IsSuspended f \<longleftrightarrow> m_state f = SUSPENDED \<or> m_state f = WAITING"

definition IsDone :: "fibre \<Rightarrow> bool" where
  "IsDone f \<longleftrightarrow> m_state f = FINISHED \<or> m_state f = FAILED"

definition Error :: "fibre \<Rightarrow> fval" where
  "Error f = (case m_exception f of None \<Rightarrow> V NULL_VAL | Some m \<Rightarrow> m)"

text \<open>\<open>New\<close>: the fibre \<open>p\<close> is fresh memory.  \<open>arity\<close> is the arity of the function.\<close>

definition fibre_New :: "ptr \<Rightarrow> ptr \<Rightarrow> nat \<Rightarrow> fibres \<Rightarrow> outcome \<times> fibres" where
  "fibre_New p func arity s =
     (if arity > 1 then (Thrown (Text ''Function cannot take more than one parameter.''), s)
      else (Continue (V (NAN_MASK OR p)), upd p (\<lambda>_. new_fibre\<lparr>m_function := func\<rparr>) s))"

section \<open>Switching\<close>

definition CheckStack :: "ptr \<Rightarrow> fibres \<Rightarrow> fibres" where
  "CheckStack p = upd p (\<lambda>f. f\<lparr>m_stack := True\<rparr>)"

definition DeleteStack :: "ptr \<Rightarrow> fibres \<Rightarrow> fibres option" where
  "DeleteStack p s =
     (if m_state (fib s p) = RUNNING then None
      else Some (upd p (\<lambda>f. f\<lparr>m_stack := False\<rparr>) s))"

text \<open>An exception with a null message is not thrown.\<close>

definition fibre_Abort :: "fval \<Rightarrow> fval \<Rightarrow> outcome" where
  "fibre_Abort message result = (if message = V NULL_VAL then Continue result else Thrown message)"

text \<open>What the waiting function does with the value that \<open>HandleResumed\<close> returns to it.\<close>

definition resume_frame :: "fval \<Rightarrow> fibres \<Rightarrow> outcome" where
  "resume_frame v s =
     (case frame (fib s (currentFibre s)) of
        Some (InCall callee) \<Rightarrow>
          (case m_exception (fib s callee) of None \<Rightarrow> Continue v | Some m \<Rightarrow> fibre_Abort m v)
      | Some (InTry callee) \<Rightarrow>
          (case m_exception (fib s callee) of None \<Rightarrow> Continue v | Some m \<Rightarrow> Continue m)
      | _ \<Rightarrow> Continue v)"

text \<open>\<open>HandleResumed\<close>, run by the resumed fibre: \<open>old\<close> is the fibre that switched to it.\<close>

definition HandleResumed :: "ptr \<Rightarrow> bool \<Rightarrow> fibres \<Rightarrow> fibres option" where
  "HandleResumed old isTerminating s =
     (let s = upd old (\<lambda>f. f\<lparr>m_resumeAddress := True\<rparr>) s
      in if isTerminating
         then DeleteStack old (upd old (\<lambda>f. f\<lparr>m_function := 0\<rparr>) s)
         else Some s)"

definition SetupFibreEnvironment :: "ptr \<Rightarrow> fibres \<Rightarrow> fibres" where
  "SetupFibreEnvironment p s = s\<lparr>currentFibre := p\<rparr>"

definition ResumeSuspended :: "ptr \<Rightarrow> fval \<Rightarrow> bool \<Rightarrow> fibres \<Rightarrow> outcome \<times> fibres" where
  "ResumeSuspended p argument terminate s =
     (if \<not> IsSuspended (fib s p) then (Aborted, s)
      else
        let old = currentFibre s;
            s = upd p (\<lambda>f. f\<lparr>m_state := RUNNING\<rparr>) s;
            s = upd old (\<lambda>f. f\<lparr>m_suspendedContext := True\<rparr>) s;
            s = upd p (\<lambda>f. f\<lparr>m_resumeAddress := False, m_suspendedContext := False\<rparr>) s;
            s = SetupFibreEnvironment p s
        in case HandleResumed old terminate s of
             None \<Rightarrow> (Aborted, s)
           | Some s \<Rightarrow> (resume_frame argument s, upd p (\<lambda>f. f\<lparr>frame := None\<rparr>) s))"

text \<open>
  \<open>RunOnNewStack\<close> stores the stack of the fibre it came from and calls the function, with the argument
  only if it takes one.  The fibre's own stack pointer is not set by \<open>StartAndSwitchTo\<close>.
\<close>

definition StartAndSwitchTo :: "(ptr \<Rightarrow> nat) \<Rightarrow> ptr \<Rightarrow> fval \<Rightarrow> fibres \<Rightarrow> outcome \<times> fibres" where
  "StartAndSwitchTo arity p argument s =
     (if m_state (fib s p) \<noteq> NOT_STARTED then (Aborted, s)
      else
        let s = CheckStack p s;
            old = currentFibre s;
            s = upd p (\<lambda>f. f\<lparr>m_state := RUNNING\<rparr>) s;
            s = upd old (\<lambda>f. f\<lparr>m_suspendedContext := True\<rparr>) s;
            s = SetupFibreEnvironment p s;
            s = upd old (\<lambda>f. f\<lparr>m_resumeAddress := True\<rparr>) s
        in (Started (if arity (m_function (fib s p)) = 0 then [] else [argument]), s))"

text \<open>The end of \<open>RunOnNewStack\<close>: the function returned \<open>Inr v\<close> or threw \<open>Inl m\<close>.\<close>

definition RunOnNewStack_end :: "fval + fval \<Rightarrow> fibres \<Rightarrow> outcome \<times> fibres" where
  "RunOnNewStack_end r s =
     (let p = currentFibre s;
          s = (case r of
                 Inr v \<Rightarrow> upd p (\<lambda>f. f\<lparr>m_state := FINISHED\<rparr>) s
               | Inl m \<Rightarrow> upd p (\<lambda>f. f\<lparr>m_exception := Some m, m_state := FAILED\<rparr>) s);
          result = (case r of Inr v \<Rightarrow> v | Inl m \<Rightarrow> V NULL_VAL);
          next' = m_parent (fib s p)
      in if next' = 0 then (Exits (m_exception (fib s p)), s)
         else ResumeSuspended next' result True s)"

section \<open>The methods of fibres\<close>

definition setup_state :: "ptr \<Rightarrow> bool \<Rightarrow> frame \<Rightarrow> fibres \<Rightarrow> fibres" where
  "setup_state p isTransfer fr s =
     (let cur = currentFibre s;
          s = (if isTransfer then s else upd p (\<lambda>f. f\<lparr>m_parent := cur\<rparr>) s)
      in upd cur (\<lambda>f. f\<lparr>m_state := (if isTransfer then SUSPENDED else WAITING), frame := Some fr\<rparr>) s)"

definition CallImpl ::
  "(ptr \<Rightarrow> nat) \<Rightarrow> ptr \<Rightarrow> fval \<Rightarrow> bool \<Rightarrow> bool \<Rightarrow> frame \<Rightarrow> fibres \<Rightarrow> outcome \<times> fibres"
where
  "CallImpl arity p argument isTry isTransfer fr s =
     (if p = mainFibre s \<and> \<not> isTransfer then (Thrown (Text ''Cannot call root fiber.''), s)
      else case m_state (fib s p) of
          NOT_STARTED \<Rightarrow> StartAndSwitchTo arity p argument (setup_state p isTransfer fr s)
        | SUSPENDED \<Rightarrow> ResumeSuspended p argument False (setup_state p isTransfer fr s)
        | RUNNING \<Rightarrow> (Thrown (Text ''Fiber has already been called.''), s)
        | WAITING \<Rightarrow> (Thrown (Text ''Fiber has already been called.''), s)
        | FINISHED \<Rightarrow>
            (Thrown (Text (if isTransfer then ''Cannot transfer to a finished fiber.''
               else if isTry then ''Cannot try a finished fiber.'' else ''Cannot call a finished fiber.'')), s)
        | FAILED \<Rightarrow>
            (Thrown (Text (if isTransfer then ''Cannot transfer to an aborted fiber.''
               else if isTry then ''Cannot try an aborted fiber.'' else ''Cannot call an aborted fiber.'')), s))"

definition fibre_Call :: "(ptr \<Rightarrow> nat) \<Rightarrow> ptr \<Rightarrow> fval \<Rightarrow> fibres \<Rightarrow> outcome \<times> fibres" where
  "fibre_Call arity p argument s = CallImpl arity p argument False False (InCall p) s"

definition fibre_Try :: "(ptr \<Rightarrow> nat) \<Rightarrow> ptr \<Rightarrow> fval \<Rightarrow> fibres \<Rightarrow> outcome \<times> fibres" where
  "fibre_Try arity p argument s = CallImpl arity p argument True False (InTry p) s"

definition fibre_Transfer :: "(ptr \<Rightarrow> nat) \<Rightarrow> ptr \<Rightarrow> fval \<Rightarrow> fibres \<Rightarrow> outcome \<times> fibres" where
  "fibre_Transfer arity p argument s =
     (if currentFibre s = p then (Continue argument, s)
      else CallImpl arity p argument False True InTransfer s)"

definition fibre_TransferError :: "ptr \<Rightarrow> fval \<Rightarrow> fibres \<Rightarrow> outcome \<times> fibres" where
  "fibre_TransferError p message s =
     (case m_state (fib s p) of
        RUNNING \<Rightarrow> (Thrown (Text ''Fiber has already been called.''), s)
      | WAITING \<Rightarrow> (Thrown (Text ''Fiber has already been called.''), s)
      | FINISHED \<Rightarrow> (Thrown (Text ''Cannot transfer to a finished fiber.''), s)
      | FAILED \<Rightarrow> (Thrown (Text ''Cannot transfer to an aborted fiber.''), s)
      | _ \<Rightarrow>
          (let s = SetupFibreEnvironment p s;
               s = upd p (\<lambda>f. f\<lparr>m_exception := Some message, m_state := FAILED, m_resumeAddress := False,
                     m_suspendedContext := False\<rparr>) s;
               par = m_parent (fib s p)
           in if par = 0 then (Exits (Some message), s)
              else ResumeSuspended par (V NULL_VAL) True s))"

definition fibre_Yield :: "fval \<Rightarrow> fibres \<Rightarrow> outcome \<times> fibres" where
  "fibre_Yield argument s =
     (let old = currentFibre s;
          s = upd old (\<lambda>f. f\<lparr>m_state := SUSPENDED, frame := Some InYield\<rparr>) s;
          par = m_parent (fib s old)
      in if par = 0 then (Exits None, s)
         else ResumeSuspended par argument False s)"

section \<open>Steps\<close>

text \<open>
  What the code of the running fibre does next.  An exception that is thrown is caught at the bottom of
  the fibre's stack only; the main thread's fibre has no \<open>RunOnNewStack\<close>, so there it ends the program.
\<close>

datatype action =
    DoNew ptr ptr
  | DoCall ptr fval
  | DoTry ptr fval
  | DoTransfer ptr fval
  | DoTransferError ptr fval
  | DoYield fval
  | DoAbort fval
  | DoReturn fval

fun perform :: "(ptr \<Rightarrow> nat) \<Rightarrow> action \<Rightarrow> fibres \<Rightarrow> outcome \<times> fibres" where
  "perform arity (DoNew p func) s = fibre_New p func (arity func) s"
| "perform arity (DoCall p v) s = fibre_Call arity p v s"
| "perform arity (DoTry p v) s = fibre_Try arity p v s"
| "perform arity (DoTransfer p v) s = fibre_Transfer arity p v s"
| "perform arity (DoTransferError p v) s = fibre_TransferError p v s"
| "perform arity (DoYield v) s = fibre_Yield v s"
| "perform arity (DoAbort m) s = (fibre_Abort m (V NULL_VAL), s)"
| "perform arity (DoReturn v) s =
     (if currentFibre s = mainFibre s then (Exits None, s) else RunOnNewStack_end (Inr v) s)"

definition unwind :: "fval \<Rightarrow> fibres \<Rightarrow> outcome \<times> fibres" where
  "unwind m s =
     (if currentFibre s = mainFibre s then (Exits (Some m), s) else RunOnNewStack_end (Inl m) s)"

text \<open>\<open>DoNew\<close> gets fresh memory: a fibre that was never created.\<close>

fun allowed :: "action \<Rightarrow> fibres \<Rightarrow> bool" where
  "allowed (DoNew p func) s \<longleftrightarrow> p \<noteq> 0 \<and> p \<noteq> mainFibre s \<and> func \<noteq> 0 \<and> fib s p = new_fibre"
| "allowed (DoCall p v) s \<longleftrightarrow> p \<noteq> 0 \<and> (p = mainFibre s \<or> fib s p \<noteq> new_fibre)"
| "allowed (DoTry p v) s \<longleftrightarrow> p \<noteq> 0 \<and> (p = mainFibre s \<or> fib s p \<noteq> new_fibre)"
| "allowed (DoTransfer p v) s \<longleftrightarrow> p \<noteq> 0 \<and> (p = mainFibre s \<or> fib s p \<noteq> new_fibre)"
| "allowed (DoTransferError p v) s \<longleftrightarrow> p \<noteq> 0 \<and> (p = mainFibre s \<or> fib s p \<noteq> new_fibre)"
| "allowed a s \<longleftrightarrow> True"

fun runs :: "outcome \<Rightarrow> bool" where
  "runs (Continue v) = True"
| "runs (Started vs) = True"
| "runs o' = False"

inductive step :: "(ptr \<Rightarrow> nat) \<Rightarrow> (action \<Rightarrow> bool) \<Rightarrow> outcome \<times> fibres \<Rightarrow> outcome \<times> fibres \<Rightarrow> bool"
  for arity :: "ptr \<Rightarrow> nat" and may :: "action \<Rightarrow> bool"
where
  Act: "runs o' \<Longrightarrow> may a \<Longrightarrow> allowed a s \<Longrightarrow> step arity may (o', s) (perform arity a s)"
| Unwind: "step arity may (Thrown m, s) (unwind m s)"

inductive_cases stepE: "step arity may (o', s) c"

definition reachable_config :: "(ptr \<Rightarrow> nat) \<Rightarrow> (action \<Rightarrow> bool) \<Rightarrow> ptr \<Rightarrow> outcome \<times> fibres \<Rightarrow> bool" where
  "reachable_config arity may p = (step arity may)\<^sup>*\<^sup>* (Continue (V NULL_VAL), initial_fibres p)"

end
