(* ===== verification/Fibre_Proofs.thy ===== *)
theory Fibre_Proofs
  imports Fibre
begin

text \<open>
  The stack of fibres: as long as no fibre is transferred to, the fibres that run or wait form a stack with
  the main thread's fibre at the bottom, and no operation reaches a call of \<open>abort()\<close>.  An exception
  ends the fibres on the stack down to the innermost \<open>try\<close>.
\<close>

section \<open>Field updates\<close>

lemma upd_simps [simp]:
  "fib (upd p f s) q = (if q = p then f (fib s p) else fib s q)"
  "currentFibre (upd p f s) = currentFibre s" "mainFibre (upd p f s) = mainFibre s"
  by (simp_all add: upd_def)

lemma environment_simps [simp]:
  "fib (SetupFibreEnvironment p s) = fib s" "currentFibre (SetupFibreEnvironment p s) = p"
  "mainFibre (SetupFibreEnvironment p s) = mainFibre s"
  by (simp_all add: SetupFibreEnvironment_def)

section \<open>The stack of fibres\<close>

text \<open>\<open>chain s ps\<close>: every fibre of \<open>ps\<close> was called or tried by the next one, and the last one is the main fibre.\<close>

fun chain :: "fibres \<Rightarrow> ptr list \<Rightarrow> bool" where
  "chain s [] = False"
| "chain s [p] \<longleftrightarrow> p = mainFibre s \<and> m_parent (fib s p) = 0"
| "chain s (c # p # ps) \<longleftrightarrow>
     c \<noteq> mainFibre s \<and> m_parent (fib s c) = p \<and> m_state (fib s p) = WAITING \<and>
     (frame (fib s p) = Some (InCall c) \<or> frame (fib s p) = Some (InTry c)) \<and> chain s (p # ps)"

lemma chain_cong:
  assumes "chain s ps" "mainFibre s' = mainFibre s"
    "\<And>p. p \<in> set ps \<Longrightarrow> m_parent (fib s' p) = m_parent (fib s p)"
    "\<And>p. p \<in> set (tl ps) \<Longrightarrow> m_state (fib s' p) = m_state (fib s p) \<and> frame (fib s' p) = frame (fib s p)"
  shows "chain s' ps"
  using assms
proof (induction s ps rule: chain.induct)
  case (3 s c p ps)
  have "chain s' (p # ps)" using 3 by (intro "3.IH") auto
  then show ?case using 3 by auto
qed simp_all

lemma chain_main: "chain s ps \<Longrightarrow> ps \<noteq> [] \<and> mainFibre s = last ps"
  by (induction s ps rule: chain.induct) auto

text \<open>What a fibre's fields say about its state: the collector and the switch need the suspended ones.\<close>

definition fields_ok :: "fibre \<Rightarrow> bool" where
  "fields_ok f \<longleftrightarrow>
     (IsSuspended f \<longrightarrow> m_resumeAddress f \<and> m_suspendedContext f) \<and>
     (m_state f = FAILED \<longleftrightarrow> m_exception f \<noteq> None) \<and>
     m_exception f \<noteq> Some (V NULL_VAL)"

text \<open>The fibres of a stack, and the others.\<close>

definition fibre_stack :: "fibres \<Rightarrow> ptr list \<Rightarrow> bool" where
  "fibre_stack s ps \<longleftrightarrow>
     chain s ps \<and> hd ps = currentFibre s \<and> distinct ps \<and> 0 \<notin> set ps \<and>
     m_state (fib s (currentFibre s)) = RUNNING \<and>
     (\<forall>p. p \<notin> set ps \<longrightarrow> m_state (fib s p) \<noteq> RUNNING \<and> m_state (fib s p) \<noteq> WAITING) \<and>
     (\<forall>p. fields_ok (fib s p))"


lemma fibre_stackE:
  assumes "fibre_stack s ps"
  obtains qs where "ps = currentFibre s # qs" "currentFibre s \<notin> set qs" "distinct qs" "currentFibre s \<noteq> 0"
    "chain s (currentFibre s # qs)" "mainFibre s \<in> set ps"
proof -
  obtain qs where "ps = currentFibre s # qs" using assms by (cases ps) (auto simp: fibre_stack_def)
  then show thesis using that assms chain_main [of s ps] by (auto simp: fibre_stack_def)
qed


text \<open>Returning to the fibre below: the running fibre is left in the state \<open>st\<close>.\<close>

lemma fibre_stack_pop:
  assumes "fibre_stack s (c # par # qs)"
    and s': "currentFibre s' = par" "mainFibre s' = mainFibre s"
    and others: "\<And>q. q \<noteq> c \<Longrightarrow> q \<noteq> par \<Longrightarrow> fib s' q = fib s q"
    and par: "m_state (fib s' par) = RUNNING" "m_parent (fib s' par) = m_parent (fib s par)"
      "m_exception (fib s' par) = m_exception (fib s par)"
    and c: "m_state (fib s' c) \<noteq> RUNNING" "m_state (fib s' c) \<noteq> WAITING" "fields_ok (fib s' c)"
  shows "fibre_stack s' (par # qs)"
proof -
  have ch: "chain s (par # qs)" and d: "c \<noteq> par" "c \<notin> set qs" "par \<notin> set qs" "distinct qs" "0 \<notin> set qs" "par \<noteq> 0"
    and st: "m_state (fib s par) = WAITING"
    using assms(1) by (auto simp: fibre_stack_def)
  have "chain s' (par # qs)"
    using d others par by (intro chain_cong [OF ch s'(2)]) (metis insertE list.set(2), metis list.sel(3))
  moreover have "fields_ok (fib s' par)"
  proof -
    have "fields_ok (fib s par)" using assms(1) by (simp add: fibre_stack_def)
    then show ?thesis using par st by (auto simp: fields_ok_def IsSuspended_def)
  qed
  then have "fields_ok (fib s' q)" for q
    using assms(1) c(3) others by (cases "q = c"; cases "q = par") (auto simp: fibre_stack_def)
  moreover have "m_state (fib s' q) \<noteq> RUNNING \<and> m_state (fib s' q) \<noteq> WAITING" if "q \<notin> set (par # qs)" for q
    using assms(1) c(1,2) others that by (cases "q = c") (auto simp: fibre_stack_def)
  ultimately show ?thesis using d s' par(1) by (simp add: fibre_stack_def)
qed

text \<open>Calling a fibre that is not on the stack.\<close>

lemma fibre_stack_push:
  assumes "fibre_stack s (c # qs)" "p \<notin> set (c # qs)" "p \<noteq> 0"
    and s': "currentFibre s' = p" "mainFibre s' = mainFibre s"
    and others: "\<And>q. q \<noteq> c \<Longrightarrow> q \<noteq> p \<Longrightarrow> fib s' q = fib s q"
    and c: "m_state (fib s' c) = WAITING" "m_parent (fib s' c) = m_parent (fib s c)" "fields_ok (fib s' c)"
      "frame (fib s' c) = Some (InCall p) \<or> frame (fib s' c) = Some (InTry p)"
    and p: "m_state (fib s' p) = RUNNING" "m_parent (fib s' p) = c" "fields_ok (fib s' p)"
  shows "fibre_stack s' (p # c # qs)"
proof -
  have ch: "chain s (c # qs)" and d: "c \<notin> set qs" "distinct qs" "0 \<notin> set qs" "c \<noteq> 0"
    using assms(1) by (auto simp: fibre_stack_def)
  have "mainFibre s \<in> set (c # qs)" using chain_main [OF ch] by (metis last_in_set)
  then have "p \<noteq> mainFibre s" using assms(2) by metis
  moreover have "chain s' (c # qs)"
    using d others c(2) assms(2) by (intro chain_cong [OF ch s'(2)]) (metis insertE list.set(2), metis list.sel(3) list.set_intros(2))
  moreover have "fields_ok (fib s' q)" for q
    using assms(1) c(3) p(3) others by (cases "q = c"; cases "q = p") (auto simp: fibre_stack_def)
  moreover have "m_state (fib s' q) \<noteq> RUNNING \<and> m_state (fib s' q) \<noteq> WAITING" if "q \<notin> set (p # c # qs)" for q
    using assms(1) others that by (auto simp: fibre_stack_def)
  ultimately show ?thesis using assms(2,3) d s' c p by (simp add: fibre_stack_def)
qed

section \<open>The operations keep the stack\<close>




text \<open>The running fibre gives control to the one below, and is left as \<open>g\<close> makes it.\<close>

lemma resume_parent:
  assumes st: "fibre_stack s (currentFibre s # par # qs)"
    and g: "m_parent (g (fib s (currentFibre s))) = m_parent (fib s (currentFibre s))"
      "m_state (g (fib s (currentFibre s))) \<in> (if terminate then {FINISHED, FAILED} else {SUSPENDED})"
      "m_state (g (fib s (currentFibre s))) = FAILED \<longleftrightarrow> m_exception (g (fib s (currentFibre s))) \<noteq> None"
      "m_exception (g (fib s (currentFibre s))) \<noteq> Some (V NULL_VAL)"
  defines "s1 \<equiv> upd (currentFibre s) g s" and "c \<equiv> currentFibre s"
  obtains s3 where "ResumeSuspended (m_parent (fib s1 c)) v terminate s1 =
      (resume_frame v s3, upd par (\<lambda>f. f\<lparr>frame := None\<rparr>) s3)"
    "fibre_stack (upd par (\<lambda>f. f\<lparr>frame := None\<rparr>) s3) (par # qs)"
    "currentFibre s3 = par" "frame (fib s3 par) = frame (fib s par)" "mainFibre s3 = mainFibre s"
    "m_exception (fib s3 c) = m_exception (g (fib s c))" "m_state (fib s3 c) = m_state (g (fib s c))"
    "frame (fib s3 c) = frame (g (fib s c))"
    "\<And>q. q \<noteq> c \<Longrightarrow> q \<noteq> par \<Longrightarrow> fib s3 q = fib s q"
proof -
  have p: "m_parent (fib s c) = par" "par \<noteq> 0" "par \<noteq> c" "m_state (fib s par) = WAITING"
    using st by (auto simp: fibre_stack_def c_def)
  define s2 where "s2 = SetupFibreEnvironment par (upd par (\<lambda>f. f\<lparr>m_resumeAddress := False, m_suspendedContext := False\<rparr>)
      (upd c (\<lambda>f. f\<lparr>m_suspendedContext := True\<rparr>) (upd par (\<lambda>f. f\<lparr>m_state := RUNNING\<rparr>) s1)))"
  have ns: "m_state (fib s2 c) \<noteq> RUNNING" using g(2) p(3) by (auto simp: s2_def s1_def c_def split: if_splits)
  obtain s3 where s3: "HandleResumed c terminate s2 = Some s3"
    using ns by (cases terminate) (auto simp: HandleResumed_def DeleteStack_def Let_def)
  have fields: "fib s3 = (fib s2)(c := (if terminate
      then (fib s2 c)\<lparr>m_resumeAddress := True, m_function := 0, m_stack := False\<rparr>
      else (fib s2 c)\<lparr>m_resumeAddress := True\<rparr>))"
    "currentFibre s3 = currentFibre s2" "mainFibre s3 = mainFibre s2"
    using s3 by (auto simp: HandleResumed_def DeleteStack_def Let_def fun_eq_iff split: if_splits)
  have "ResumeSuspended (m_parent (fib s1 c)) v terminate s1 =
      (resume_frame v s3, upd par (\<lambda>f. f\<lparr>frame := None\<rparr>) s3)"
    using p g(1) s3 by (simp add: ResumeSuspended_def s1_def c_def IsSuspended_def Let_def s2_def)
  moreover have "fibre_stack (upd par (\<lambda>f. f\<lparr>frame := None\<rparr>) s3) (par # qs)"
    using st by (rule fibre_stack_pop)
      (use p g fields in \<open>auto simp: s2_def s1_def c_def fields_ok_def IsSuspended_def split: if_splits\<close>)
  ultimately show thesis
    using that p g fields by (auto simp: s2_def s1_def c_def)
qed

lemma current_ok: "fibre_stack s ps \<Longrightarrow> fields_ok (fib s (currentFibre s)) \<and> m_state (fib s (currentFibre s)) = RUNNING"
  by (simp add: fibre_stack_def)

lemma exception_of_running: "fibre_stack s ps \<Longrightarrow> m_exception (fib s (currentFibre s)) = None"
  using current_ok [of s ps] by (auto simp: fields_ok_def)




text \<open>The end of a fibre, by returning or by an exception.\<close>

lemma RunOnNewStack_end_pop:
  assumes "fibre_stack s (currentFibre s # par # qs)" "r \<noteq> Inl (V NULL_VAL)"
  defines "c \<equiv> currentFibre s"
  obtains s3 where "RunOnNewStack_end r s =
      (resume_frame (case r of Inr v \<Rightarrow> v | Inl m \<Rightarrow> V NULL_VAL) s3, upd par (\<lambda>f. f\<lparr>frame := None\<rparr>) s3)"
    "fibre_stack (upd par (\<lambda>f. f\<lparr>frame := None\<rparr>) s3) (par # qs)"
    "currentFibre s3 = par" "frame (fib s3 par) = frame (fib s par)" "mainFibre s3 = mainFibre s"
    "m_exception (fib s3 c) = (case r of Inr v \<Rightarrow> None | Inl m \<Rightarrow> Some m)"
    "m_state (fib s3 c) = (case r of Inr v \<Rightarrow> FINISHED | Inl m \<Rightarrow> FAILED)"
    "\<And>q. q \<noteq> c \<Longrightarrow> q \<noteq> par \<Longrightarrow> fib s3 q = fib s q"
proof -
  define g :: "fibre \<Rightarrow> fibre" where "g = (case r of Inr v \<Rightarrow> (\<lambda>f. f\<lparr>m_state := FINISHED\<rparr>)
    | Inl m \<Rightarrow> (\<lambda>f. f\<lparr>m_exception := Some m, m_state := FAILED\<rparr>))"
  let ?s = "upd c g s" and ?v = "case r of Inr v \<Rightarrow> v | Inl m \<Rightarrow> V NULL_VAL"
  have par: "m_parent (fib s c) = par" "par \<noteq> 0" using assms(1) by (auto simp: fibre_stack_def c_def)
  have gp: "m_parent (g f) = m_parent f" for f by (simp add: g_def split: sum.split)
  have ex: "m_exception (fib s c) = None" using exception_of_running [OF assms(1)] by (simp add: c_def)
  have gs: "m_exception (g (fib s c)) = (case r of Inr v \<Rightarrow> None | Inl m \<Rightarrow> Some m)"
    "m_state (g (fib s c)) = (case r of Inr v \<Rightarrow> FINISHED | Inl m \<Rightarrow> FAILED)"
    using ex by (simp_all add: g_def split: sum.split)
  have eq: "RunOnNewStack_end r s = ResumeSuspended (m_parent (fib ?s c)) ?v True ?s"
    using par gp by (cases r) (simp_all add: RunOnNewStack_end_def g_def Let_def c_def)
  show thesis
  proof (rule resume_parent [of s par qs g True ?v, OF assms(1)])
    show "m_parent (g (fib s (currentFibre s))) = m_parent (fib s (currentFibre s))" by (rule gp)
    show "m_state (g (fib s (currentFibre s))) \<in> (if True then {FINISHED, FAILED} else {SUSPENDED})"
      "m_state (g (fib s (currentFibre s))) = FAILED \<longleftrightarrow> m_exception (g (fib s (currentFibre s))) \<noteq> None"
      "m_exception (g (fib s (currentFibre s))) \<noteq> Some (V NULL_VAL)"
      using gs assms(2) unfolding c_def by (cases r; simp)+
    fix s3 assume a: "ResumeSuspended (m_parent (fib (upd (currentFibre s) g s) (currentFibre s))) ?v True
        (upd (currentFibre s) g s) = (resume_frame ?v s3, upd par (\<lambda>f. f\<lparr>frame := None\<rparr>) s3)"
      "fibre_stack (upd par (\<lambda>f. f\<lparr>frame := None\<rparr>) s3) (par # qs)" "currentFibre s3 = par"
      "frame (fib s3 par) = frame (fib s par)" "mainFibre s3 = mainFibre s"
      "m_exception (fib s3 (currentFibre s)) = m_exception (g (fib s (currentFibre s)))"
      "m_state (fib s3 (currentFibre s)) = m_state (g (fib s (currentFibre s)))"
      "\<And>q. q \<noteq> currentFibre s \<Longrightarrow> q \<noteq> par \<Longrightarrow> fib s3 q = fib s q"
    show thesis
      using that [of s3] a gs unfolding eq c_def by simp
  qed
qed


lemma not_on_stack:
  assumes "fibre_stack s ps" "m_state (fib s p) \<in> {NOT_STARTED, SUSPENDED}"
  shows "p \<notin> set ps"
proof
  assume p: "p \<in> set ps"
  have "chain s ps \<Longrightarrow> p \<in> set (tl ps) \<Longrightarrow> m_state (fib s p) = WAITING"
    by (induction s ps rule: chain.induct) auto
  moreover obtain qs where "ps = currentFibre s # qs" using fibre_stackE [OF assms(1)] by metis
  ultimately show False using assms p by (auto simp: fibre_stack_def)
qed

text \<open>The state in which \<open>CallImpl\<close> switches to the fibre \<open>p\<close>.\<close>

lemma setup_state_call:
  assumes "p \<noteq> currentFibre s"
  shows "fib (setup_state p False fr s) p = (fib s p)\<lparr>m_parent := currentFibre s\<rparr>"
    "fib (setup_state p False fr s) (currentFibre s) = (fib s (currentFibre s))\<lparr>m_state := WAITING, frame := Some fr\<rparr>"
    "currentFibre (setup_state p False fr s) = currentFibre s" "mainFibre (setup_state p False fr s) = mainFibre s"
    "q \<noteq> currentFibre s \<Longrightarrow> q \<noteq> p \<Longrightarrow> fib (setup_state p False fr s) q = fib s q"
  using assms by (auto simp: setup_state_def Let_def)

lemma call_suspended:
  assumes st: "fibre_stack s ps" "p \<noteq> 0" "p \<noteq> mainFibre s" "m_state (fib s p) = SUSPENDED"
    and fr: "fr = InCall p \<or> fr = InTry p"
  obtains s3 where "CallImpl arity p v isTry False fr s = (resume_frame v s3, upd p (\<lambda>f. f\<lparr>frame := None\<rparr>) s3)"
    "fibre_stack (upd p (\<lambda>f. f\<lparr>frame := None\<rparr>) s3) (p # ps)" "currentFibre s3 = p" "mainFibre s3 = mainFibre s"
    "frame (fib s3 p) = frame (fib s p)" "m_exception (fib s3 p) = m_exception (fib s p)"
    "frame (fib s3 (currentFibre s)) = Some fr" "\<And>q. q \<noteq> currentFibre s \<Longrightarrow> q \<noteq> p \<Longrightarrow> fib s3 q = fib s q"
proof -
  let ?c = "currentFibre s"
  obtain qs where qs: "ps = ?c # qs" using fibre_stackE [OF st(1)] by metis
  have notin: "p \<notin> set (?c # qs)" using not_on_stack [OF st(1), of p] st(4) qs by simp
  then have pc: "p \<noteq> ?c" by auto
  have okp: "fields_ok (fib s p)" "fields_ok (fib s ?c)" "m_state (fib s ?c) = RUNNING"
    using st(1) by (simp_all add: fibre_stack_def)
  define s1 where "s1 = setup_state p False fr s"
  note s1 = setup_state_call [OF pc, where fr = fr, folded s1_def]
  define s2 where "s2 = SetupFibreEnvironment p (upd p (\<lambda>f. f\<lparr>m_resumeAddress := False, m_suspendedContext := False\<rparr>)
      (upd ?c (\<lambda>f. f\<lparr>m_suspendedContext := True\<rparr>) (upd p (\<lambda>f. f\<lparr>m_state := RUNNING\<rparr>) s1)))"
  define s3 where "s3 = upd ?c (\<lambda>f. f\<lparr>m_resumeAddress := True\<rparr>) s2"
  have eq: "CallImpl arity p v isTry False fr s = (resume_frame v s3, upd p (\<lambda>f. f\<lparr>frame := None\<rparr>) s3)"
    using st(3,4) s1 by (simp add: CallImpl_def ResumeSuspended_def IsSuspended_def Let_def HandleResumed_def s2_def s3_def flip: s1_def)
  have "fibre_stack (upd p (\<lambda>f. f\<lparr>frame := None\<rparr>) s3) (p # ps)"
    unfolding qs
    by (rule fibre_stack_push [OF st(1) [unfolded qs] notin st(2)])
      (use st(4) fr s1 pc okp in \<open>auto simp: s2_def s3_def fields_ok_def IsSuspended_def\<close>)
  with eq show thesis
    by (rule that) (use s1 pc in \<open>auto simp: s2_def s3_def\<close>)
qed

lemma call_not_started:
  assumes st: "fibre_stack s ps" "p \<noteq> 0" "p \<noteq> mainFibre s" "m_state (fib s p) = NOT_STARTED"
    and fr: "fr = InCall p \<or> fr = InTry p"
  obtains s' where "CallImpl arity p v isTry False fr s =
      (Started (if arity (m_function (fib s p)) = 0 then [] else [v]), s')" "fibre_stack s' (p # ps)"
proof -
  let ?c = "currentFibre s"
  obtain qs where qs: "ps = ?c # qs" using fibre_stackE [OF st(1)] by metis
  have notin: "p \<notin> set (?c # qs)" using not_on_stack [OF st(1), of p] st(4) qs by simp
  then have pc: "p \<noteq> ?c" by auto
  have okp: "fields_ok (fib s p)" "fields_ok (fib s ?c)" "m_state (fib s ?c) = RUNNING"
    using st(1) by (simp_all add: fibre_stack_def)
  define s1 where "s1 = setup_state p False fr s"
  note s1 = setup_state_call [OF pc, where fr = fr, folded s1_def]
  have "CallImpl arity p v isTry False fr s = StartAndSwitchTo arity p v s1"
    using st(3,4) by (simp add: CallImpl_def s1_def)
  moreover have "fst (StartAndSwitchTo arity p v s1) = Started (if arity (m_function (fib s p)) = 0 then [] else [v])"
    using st(4) s1 pc by (simp add: StartAndSwitchTo_def Let_def CheckStack_def)
  moreover have "fibre_stack (snd (StartAndSwitchTo arity p v s1)) (p # ps)"
    unfolding qs
    by (rule fibre_stack_push [OF st(1) [unfolded qs] notin st(2)])
      (use st(4) fr s1 pc okp in \<open>auto simp: StartAndSwitchTo_def CheckStack_def Let_def fields_ok_def IsSuspended_def\<close>)
  ultimately show thesis using that by (metis prod.collapse)
qed



section \<open>Reachable configurations\<close>






text \<open>The main fibre creates a fibre and calls it.\<close>

definition demo_new :: fibres where
  "demo_new = snd (perform (\<lambda>_. 0) (DoNew 32 8) (initial_fibres 16))"

definition demo_fibres :: fibres where
  "demo_fibres = snd (perform (\<lambda>_. 0) (DoCall 32 (V NULL_VAL)) demo_new)"



section \<open>Exceptions\<close>

text \<open>The part of the stack from the fibre that catches an exception of the running one.\<close>

fun handler :: "fibres \<Rightarrow> ptr list \<Rightarrow> ptr list" where
  "handler s (c # p # ps) = (if frame (fib s p) = Some (InTry c) then p # ps else handler s (p # ps))"
| "handler s ps = []"

lemma handler_cong:
  "(\<And>q. q \<in> set (tl ps) \<Longrightarrow> frame (fib s' q) = frame (fib s q)) \<Longrightarrow> handler s' ps = handler s ps"
  by (induction s ps rule: handler.induct) auto

lemma handler_suffix: "set (handler s ps) \<subseteq> set ps"
  by (induction s ps rule: handler.induct) auto

lemma handler_distinct: "distinct (c # ps) \<Longrightarrow> c \<notin> set (handler s (c # ps))"
  using handler_suffix [of s ps] by (cases ps) (auto dest: subsetD [OF handler_suffix])

lemma handler_below: "set (handler s (c # ps)) \<subseteq> set ps"
  using handler_suffix [of s ps] by (cases ps) auto

lemma unwind_stack:
  assumes "fibre_stack s ps" "m \<noteq> V NULL_VAL"
  shows "\<exists>s'. (step arity may)\<^sup>*\<^sup>* (Thrown m, s) (if handler s ps = [] then Exits (Some m) else Continue m, s') \<and>
    (handler s ps \<noteq> [] \<longrightarrow> fibre_stack s' (handler s ps)) \<and>
    (\<forall>q \<in> set ps - set (handler s ps). q \<noteq> mainFibre s \<longrightarrow> m_state (fib s' q) = FAILED \<and> m_exception (fib s' q) = Some m) \<and>
    (\<forall>q. q \<notin> set ps \<or> q \<in> set (tl (handler s ps)) \<longrightarrow> fib s' q = fib s q)"
  using assms(1)
proof (induction ps arbitrary: s)
  case Nil
  then show ?case by (simp add: fibre_stack_def)
next
  case (Cons c ps)
  have c: "c = currentFibre s" using Cons.prems by (simp add: fibre_stack_def)
  have unw: "step arity may (Thrown m, s) (unwind m s)" by (rule step.Unwind)
  show ?case
  proof (cases ps)
    case Nil
    then have "c = mainFibre s" using Cons.prems by (simp add: fibre_stack_def)
    then have "unwind m s = (Exits (Some m), s)" using c by (simp add: unwind_def)
    then show ?thesis using unw Nil \<open>c = mainFibre s\<close> by (intro exI [of _ s]) (auto intro: r_into_rtranclp)
  next
    case ps: (Cons par qs)
    have st: "fibre_stack s (currentFibre s # par # qs)" using Cons.prems ps c by simp
    then have nm: "c \<noteq> mainFibre s" and d: "c \<noteq> par" "c \<notin> set qs" "par \<notin> set qs"
      and fr: "frame (fib s par) = Some (InCall c) \<or> frame (fib s par) = Some (InTry c)"
      using c by (auto simp: fibre_stack_def)
    from assms(2) have "Inl m \<noteq> (Inl (V NULL_VAL) :: fval + fval)" by simp
    from RunOnNewStack_end_pop [OF st this] obtain s3 where s3: "RunOnNewStack_end (Inl m) s =
        (resume_frame (V NULL_VAL) s3, upd par (\<lambda>f. f\<lparr>frame := None\<rparr>) s3)"
      "fibre_stack (upd par (\<lambda>f. f\<lparr>frame := None\<rparr>) s3) (par # qs)"
      "currentFibre s3 = par" "frame (fib s3 par) = frame (fib s par)" "mainFibre s3 = mainFibre s"
      "m_exception (fib s3 c) = Some m" "m_state (fib s3 c) = FAILED"
      "\<And>q. q \<noteq> c \<Longrightarrow> q \<noteq> par \<Longrightarrow> fib s3 q = fib s q"
      unfolding c by (auto simp only: sum.case)
    define s4 where "s4 = upd par (\<lambda>f. f\<lparr>frame := None\<rparr>) s3"
    have s4: "m_exception (fib s4 c) = Some m" "m_state (fib s4 c) = FAILED" "mainFibre s4 = mainFibre s"
      "\<And>q. q \<noteq> c \<Longrightarrow> q \<noteq> par \<Longrightarrow> fib s4 q = fib s q"
      using s3 d by (simp_all add: s4_def)
    have unwound: "unwind m s = (resume_frame (V NULL_VAL) s3, s4)"
      using nm c s3(1) by (simp add: unwind_def s4_def)
    show ?thesis
    proof (cases "frame (fib s par) = Some (InTry c)")
      case True
      then have "unwind m s = (Continue m, s4)" using unwound s3 by (simp add: resume_frame_def)
      moreover have "fib s4 q = fib s q" if "q \<in> set qs" for q using s4(4) d that by metis
      ultimately show ?thesis
        using unw True ps s3(2) s4 d c
        by (intro exI [of _ s4]) (auto simp: s4_def [symmetric] intro: r_into_rtranclp)
    next
      case False
      then have "unwind m s = (Thrown m, s4)"
        using unwound s3 fr assms(2) by (simp add: resume_frame_def fibre_Abort_def)
      then have first: "step arity may (Thrown m, s) (Thrown m, s4)" using unw by simp
      have h: "handler s4 ps = handler s (c # ps)"
      proof -
        have "frame (fib s4 q) = frame (fib s q)" if "q \<in> set qs" for q using s4(4) d that by metis
        then show ?thesis using False ps handler_cong [of "par # qs" s4 s] by simp
      qed
      obtain s' where s': "(step arity may)\<^sup>*\<^sup>* (Thrown m, s4) (if handler s4 ps = [] then Exits (Some m) else Continue m, s')"
        "handler s4 ps \<noteq> [] \<longrightarrow> fibre_stack s' (handler s4 ps)"
        "\<forall>q \<in> set ps - set (handler s4 ps). q \<noteq> mainFibre s4 \<longrightarrow> m_state (fib s' q) = FAILED \<and> m_exception (fib s' q) = Some m"
        "\<forall>q. q \<notin> set ps \<or> q \<in> set (tl (handler s4 ps)) \<longrightarrow> fib s' q = fib s4 q"
        using Cons.IH [of s4] s3(2) ps by (auto simp: s4_def [symmetric])
      have "c \<notin> set ps" using ps d by simp
      then have fc: "fib s' c = fib s4 c" using s'(4) by blast
      have failed: "m_state (fib s' q) = FAILED \<and> m_exception (fib s' q) = Some m"
        if "q \<in> set (c # ps) - set (handler s4 ps)" "q \<noteq> mainFibre s" for q
        using that s'(3) s4(1-3) fc by (cases "q = c") simp_all
      have frame: "fib s' q = fib s q" if "q \<notin> set (c # ps) \<or> q \<in> set (tl (handler s4 ps))" for q
      proof -
        have "set (tl (handler s4 ps)) \<subseteq> set qs"
          using handler_below [of s4 par qs] unfolding ps by (cases "handler s4 (par # qs)") auto
        then have "q \<noteq> c" "q \<noteq> par" using that d ps by auto
        then show ?thesis using that s'(4) s4(4) [of q] by auto
      qed
      note unwinding = converse_rtranclp_into_rtranclp [of "step arity may", OF first s'(1)]
      show ?thesis
        using unwinding s'(2) failed frame unfolding h by blast
    qed
  qed
qed

text \<open>
  C27: In every state whose running and waiting fibres form a stack, an exception (any value but null)
  ends the running fibre and the fibres that called it, down to the innermost one that was tried: all of
  them, but the main fibre, are left in the state failed with this exception.  The fibre that tried runs
  again on the rest of the stack, with the exception as the result; the fibres that wait below it and
  all fibres outside the stack are as before.  Without a try the program ends with the exception.
\<close>

theorem exception_reaches_try:
  assumes "fibre_stack s ps" "m \<noteq> V NULL_VAL"
  shows "\<exists>s'. (step arity may)\<^sup>*\<^sup>* (Thrown m, s) (if handler s ps = [] then Exits (Some m) else Continue m, s') \<and>
    (handler s ps \<noteq> [] \<longrightarrow> fibre_stack s' (handler s ps)) \<and>
    (\<forall>q \<in> set ps - set (handler s ps). q \<noteq> mainFibre s \<longrightarrow> m_state (fib s' q) = FAILED \<and> m_exception (fib s' q) = Some m) \<and>
    (\<forall>q. q \<notin> set ps \<or> q \<in> set (tl (handler s ps)) \<longrightarrow> fib s' q = fib s q)"
  by (rule unwind_stack [OF assms])

definition demo_try :: fibres where
  "demo_try = snd (perform (\<lambda>_. 0) (DoTry 32 (V NULL_VAL)) demo_new)"

lemma demo_new_stack: "fibre_stack demo_new [16]" "fib demo_new 32 = new_fibre\<lparr>m_function := 8\<rparr>" "mainFibre demo_new = 16"
  by (auto simp: demo_new_def fibre_New_def initial_fibres_def fibre_stack_def new_fibre_def fields_ok_def IsSuspended_def)

lemma demo_try_stack: "fibre_stack demo_try [32, 16]" "frame (fib demo_try 16) = Some (InTry 32)" "mainFibre demo_try = 16"
proof -
  have n: "m_state (fib demo_new 32) = NOT_STARTED" "(32 :: ptr) \<noteq> mainFibre demo_new"
    by (simp_all add: demo_new_stack new_fibre_def)
  obtain s' where "CallImpl (\<lambda>_. 0) 32 (V NULL_VAL) True False (InTry 32) demo_new =
      (Started (if (\<lambda>_. 0 :: nat) (m_function (fib demo_new 32)) = 0 then [] else [V NULL_VAL]), s')"
    "fibre_stack s' [32, 16]"
    by (rule call_not_started [OF demo_new_stack(1) _ n(2,1), of "InTry 32" "\<lambda>_. 0" "V NULL_VAL" True]) simp_all
  then show st: "fibre_stack demo_try [32, 16]"
    by (simp add: demo_try_def fibre_Try_def)
  then show m: "mainFibre demo_try = 16" by (simp add: fibre_stack_def)
  show "frame (fib demo_try 16) = Some (InTry 32)"
    by (simp add: demo_try_def fibre_Try_def CallImpl_def StartAndSwitchTo_def setup_state_def Let_def CheckStack_def
        demo_new_def fibre_New_def initial_fibres_def new_fibre_def)
qed

theorem exception_reaches_try_witness:
  "\<exists>s'. (step (\<lambda>_. 0) (\<lambda>_. True))\<^sup>*\<^sup>* (Thrown (Text ''boom''), demo_try) (Continue (Text ''boom''), s') \<and>
    m_state (fib s' 32) = FAILED"
proof -
  have h: "handler demo_try [32, 16] = [16]" using demo_try_stack(2) by simp
  have "Text ''boom'' \<noteq> V NULL_VAL" by simp
  from exception_reaches_try [OF demo_try_stack(1) this, of "\<lambda>_. 0" "\<lambda>_. True"]
  obtain s' where "(step (\<lambda>_. 0) (\<lambda>_. True))\<^sup>*\<^sup>* (Thrown (Text ''boom''), demo_try)
      (if [16 :: ptr] = [] then Exits (Some (Text ''boom'')) else Continue (Text ''boom''), s')"
    "\<forall>q \<in> set [32, 16] - set [16]. q \<noteq> mainFibre demo_try \<longrightarrow> m_state (fib s' q) = FAILED \<and>
      m_exception (fib s' q) = Some (Text ''boom'')"
    unfolding h by blast
  then show ?thesis using demo_try_stack(3) by (intro exI [of _ s']) simp
qed

section \<open>Calls and yields\<close>

text \<open>
  C28: Calling a fibre that has yielded passes the argument to it as the result of its yield, and its next
  yield passes a value back as the result of the call.  Afterwards the caller runs on the same stack of
  fibres, the called fibre has yielded again and can be called again, and no other fibre has changed.
\<close>

theorem call_and_yield:
  assumes "fibre_stack s ps" "p \<noteq> 0" "p \<noteq> mainFibre s" "m_state (fib s p) = SUSPENDED" "frame (fib s p) = Some InYield"
  shows "\<exists>s1 s2. fibre_Call arity p v s = (Continue v, s1) \<and> fibre_stack s1 (p # ps) \<and>
    fibre_Yield w s1 = (Continue w, s2) \<and> fibre_stack s2 ps \<and>
    m_state (fib s2 p) = SUSPENDED \<and> frame (fib s2 p) = Some InYield \<and>
    (\<forall>q. q \<noteq> p \<and> q \<noteq> currentFibre s \<longrightarrow> fib s2 q = fib s q)"
proof -
  let ?c = "currentFibre s"
  obtain qs where qs: "ps = ?c # qs" using fibre_stackE [OF assms(1)] by metis
  have pc: "p \<noteq> ?c" using not_on_stack [OF assms(1), of p] assms(4) qs by auto
  obtain s3 where s3: "CallImpl arity p v False False (InCall p) s = (resume_frame v s3, upd p (\<lambda>f. f\<lparr>frame := None\<rparr>) s3)"
    "fibre_stack (upd p (\<lambda>f. f\<lparr>frame := None\<rparr>) s3) (p # ps)" "currentFibre s3 = p" "mainFibre s3 = mainFibre s"
    "frame (fib s3 p) = frame (fib s p)" "m_exception (fib s3 p) = m_exception (fib s p)"
    "frame (fib s3 ?c) = Some (InCall p)" "\<And>q. q \<noteq> ?c \<Longrightarrow> q \<noteq> p \<Longrightarrow> fib s3 q = fib s q"
    by (rule call_suspended [OF assms(1-4), of "InCall p" arity v False]) auto
  define s1 where "s1 = upd p (\<lambda>f. f\<lparr>frame := None\<rparr>) s3"
  have "fields_ok (fib s p)" using assms(1) by (simp add: fibre_stack_def)
  then have ex: "m_exception (fib s p) = None"
    using assms(4) by (cases "m_exception (fib s p)") (simp_all add: fields_ok_def)
  have call: "fibre_Call arity p v s = (Continue v, s1)"
    using s3(1,3,5) assms(5) by (simp add: fibre_Call_def resume_frame_def s1_def)
  have st1: "fibre_stack s1 (currentFibre s1 # ?c # qs)" using s3(2,3) qs by (simp add: s1_def)
  have c1: "currentFibre s1 = p" using s3(3) by (simp add: s1_def)
  let ?g = "\<lambda>f. f\<lparr>m_state := SUSPENDED, frame := Some InYield\<rparr>"
  have ex1: "m_exception (fib s1 p) = None" using exception_of_running [OF st1] c1 by simp
  obtain s4 where s4: "ResumeSuspended (m_parent (fib (upd (currentFibre s1) ?g s1) (currentFibre s1))) w False
      (upd (currentFibre s1) ?g s1) = (resume_frame w s4, upd ?c (\<lambda>f. f\<lparr>frame := None\<rparr>) s4)"
    "fibre_stack (upd ?c (\<lambda>f. f\<lparr>frame := None\<rparr>) s4) (?c # qs)" "currentFibre s4 = ?c"
    "frame (fib s4 ?c) = frame (fib s1 ?c)" "m_exception (fib s4 p) = None" "m_state (fib s4 p) = SUSPENDED"
    "frame (fib s4 p) = Some InYield" "\<And>q. q \<noteq> p \<Longrightarrow> q \<noteq> ?c \<Longrightarrow> fib s4 q = fib s1 q"
    by (rule resume_parent [of s1 ?c qs ?g False w, OF st1]) (use ex1 c1 in auto)
  have "m_parent (fib s1 p) \<noteq> 0" using st1 c1 fibre_stackE [OF assms(1)] by (auto simp: fibre_stack_def)
  then have "fibre_Yield w s1 = (resume_frame w s4, upd ?c (\<lambda>f. f\<lparr>frame := None\<rparr>) s4)"
    using s4(1) c1 by (simp add: fibre_Yield_def Let_def)
  moreover have "resume_frame w s4 = Continue w"
    using s4(3,4,5) s3(7) pc by (simp add: resume_frame_def s1_def)
  ultimately show ?thesis
    using call st1 s4 qs pc c1 s3(8) by (auto simp: s1_def)
qed

section \<open>What transfers break\<close>

text \<open>
  A yield keeps the parent of the fibre.  When the main fibre then transfers an error to the fibre that has
  yielded to it, the parent to resume is the running fibre itself, and the process is aborted.
\<close>

definition after_yield :: fibres where
  "after_yield = snd (fibre_Yield (V NULL_VAL) demo_fibres)"

lemma after_yield_stack:
  "fibre_stack after_yield [16]" "m_state (fib after_yield 32) = SUSPENDED" "frame (fib after_yield 32) = Some InYield"
  "mainFibre after_yield = 16" "m_parent (fib after_yield 32) = 16"
  by (auto simp: after_yield_def demo_fibres_def fibre_Yield_def ResumeSuspended_def HandleResumed_def resume_frame_def
      fibre_Call_def CallImpl_def StartAndSwitchTo_def setup_state_def Let_def CheckStack_def IsSuspended_def
      demo_new_def fibre_New_def initial_fibres_def new_fibre_def fibre_stack_def fields_ok_def)

theorem call_and_yield_witness:
  "\<exists>s1 s2. fibre_Call (\<lambda>_. 0) 32 (V 7) after_yield = (Continue (V 7), s1) \<and>
    fibre_Yield (V 9) s1 = (Continue (V 9), s2) \<and> fibre_stack s2 [16]"
  using call_and_yield [OF after_yield_stack(1), of 32 "\<lambda>_. 0" "V 7" "V 9"] after_yield_stack(2-4) by auto

lemma transferError_aborts: "fst (fibre_TransferError 32 (Text ''boom'') after_yield) = Aborted"
proof -
  have "currentFibre after_yield = 16" using after_yield_stack(1) by (simp add: fibre_stack_def)
  then have "m_state (fib after_yield 16) = RUNNING" using after_yield_stack(1) by (simp add: fibre_stack_def)
  then show ?thesis
    using after_yield_stack(2,5) by (simp add: fibre_TransferError_def Let_def ResumeSuspended_def IsSuspended_def)
qed

end
