(* ===== verification/Ir_Nodes.thy ===== *)
theory Ir_Nodes
  imports Doubles "HOL-Library.AList"
begin

text \<open>
  The intermediate representation of the compiler (src/IRNode.h, src/IRNode.cpp, src/CcValue.h), as the
  passes read and write it.

  A node of the code is a value of the datatypes below.  What the code compares by its address carries a
  number in place of the address: local, SSA and upvalue variables, labels, the \<open>StmtBeginUpvalues\<close> that
  a function refers to as its root, calls (whose \<open>intrinsic\<close> field a pass assigns), classes and functions.
  A null pointer is \<open>None\<close>.  Debugging positions are left out.
\<close>

section \<open>Constants and variables\<close>

datatype cc_value =
    CcUndefined
  | CcNull
  | CcString string
  | CcBool bool
  | CcInt int
  | CcNum double

datatype var_decl =
    LocalVariable nat
  | SSAVariable nat
  | UpvalueVariable nat
  | IRGlobalDecl string

fun CheckString :: "cc_value \<Rightarrow> string res" where
  "CheckString (CcString s) = Inr s"
| "CheckString _ = Inl Fatal"

section \<open>Expressions and statements\<close>

datatype ir_expr =
    ExprConst cc_value
  | ExprLoad var_decl
  | ExprFieldLoad "var_decl option" nat
  | ExprPhi "nat list"
  | ExprFuncCall nat string "ir_expr option" "ir_expr list"
  | ExprClosure nat
  | ExprLoadReceiver
  | ExprRunStatements ir_stmt nat
  | ExprAllocateInstanceMemory nat "nat list"
  | ExprSystemVar string
  | ExprGetClassVar nat
and ir_stmt =
    StmtAssign var_decl ir_expr
  | StmtFieldAssign "var_decl option" nat ir_expr
  | StmtEvalAndIgnore ir_expr
  | StmtBlock "ir_stmt list"
  | StmtLabel nat
  | StmtJump nat "ir_expr option" bool
  | StmtReturn ir_expr
  | StmtLoadModule string "(string \<times> var_decl) list"
  | StmtBeginUpvalues nat "nat list"
  | StmtRelocateUpvalues "nat list"
  | StmtDefineClass nat var_decl

text \<open>
  The fields of the constructors, in the code's names: \<open>ExprFieldLoad thisVar var\<close>, \<open>ExprPhi inputs\<close>,
  \<open>ExprFuncCall node signature receiver args\<close>, \<open>ExprRunStatements statement temporary\<close>,
  \<open>StmtJump target condition jumpOnFalse\<close>, \<open>StmtBeginUpvalues node variables\<close>.
\<close>

record ir_fn =
  locals :: "nat list"
  parameters :: "nat list"
  ssaVars :: "nat list"
  temporaries :: "nat list"
  body :: "ir_stmt list"
  rootBeginUpvalues :: "nat option"

fun IsPure :: "ir_expr \<Rightarrow> bool" where
  "IsPure (ExprConst _) = True"
| "IsPure (ExprLoad _) = True"
| "IsPure (ExprFieldLoad _ _) = True"
| "IsPure (ExprPhi _) = True"
| "IsPure ExprLoadReceiver = True"
| "IsPure (ExprSystemVar _) = True"
| "IsPure (ExprGetClassVar _) = True"
| "IsPure _ = False"

fun IsUnconditionalBranch :: "ir_stmt \<Rightarrow> bool" where
  "IsUnconditionalBranch (StmtReturn _) = True"
| "IsUnconditionalBranch (StmtJump _ condition _) = (condition = None)"
| "IsUnconditionalBranch _ = False"

text \<open>\<open>StmtBlock::Add\<close> ignores a null pointer.\<close>

fun block_Add :: "ir_stmt option \<Rightarrow> ir_stmt list \<Rightarrow> ir_stmt list" where
  "block_Add None statements = statements"
| "block_Add (Some stmt) statements = statements @ [stmt]"

text \<open>
  The constructor of \<open>StmtAssign\<close> records itself in the SSA variable that it assigns, which must not be
  assigned already.
\<close>

definition make_StmtAssign ::
  "(nat \<rightharpoonup> ir_stmt) \<Rightarrow> var_decl \<Rightarrow> ir_expr \<Rightarrow> (ir_stmt \<times> (nat \<rightharpoonup> ir_stmt)) res" where
  "make_StmtAssign assignment var expr =
     (let stmt = StmtAssign var expr in
      case var of
        SSAVariable v \<Rightarrow>
          (if assignment v \<noteq> None then Inl Fatal else Inr (stmt, assignment(v \<mapsto> stmt)))
      | _ \<Rightarrow> Inr (stmt, assignment))"

lemma make_StmtAssign_once:
  assumes "make_StmtAssign a (SSAVariable v) e = Inr (s, a')"
  shows "make_StmtAssign a' (SSAVariable v) e' = Inl Fatal"
  using assms by (auto simp: make_StmtAssign_def Let_def split: if_splits)

section \<open>System variables\<close>

definition sys_var_names :: "string list" where
  "sys_var_names =
     [''Bool'', ''Class'', ''Fiber'', ''Fn'', ''List'', ''Map'', ''Null'', ''Num'', ''Object'', ''Range'',
      ''String'', ''System'']"

definition soft_sys_var_names :: "string list" where
  "soft_sys_var_names =
     [''Sequence'', ''MapSequence'', ''SkipSequence'', ''TakeSequence'', ''WhereSequence'',
      ''StringByteSequence'', ''StringCodePointSequence'', ''MapEntry'', ''MapKeySequence'',
      ''MapValueSequence'', ''ClassAttributes'']"

text \<open>\<open>result[value] = result.size()\<close>: since C++17 the right operand is evaluated first.\<close>

fun number_names :: "string list \<Rightarrow> (string \<times> nat) list \<Rightarrow> (string \<times> nat) list" where
  "number_names [] result = result"
| "number_names (value # names) result =
     number_names names (AList.update value (length result) result)"

definition buildSysVarNames :: "bool \<Rightarrow> (string \<times> nat) list" where
  "buildSysVarNames cppOnly =
     number_names (if cppOnly then sys_var_names else sys_var_names @ soft_sys_var_names) []"

definition make_ExprSystemVar :: "string \<Rightarrow> ir_expr res" where
  "make_ExprSystemVar name =
     (if map_of (buildSysVarNames False) name = None then Inl Fatal else Inr (ExprSystemVar name))"

text \<open>The ids agree between the two tables, and no two names share one.\<close>

lemma buildSysVarNames_prefix: "take 12 (buildSysVarNames False) = buildSysVarNames True"
  by code_simp

lemma buildSysVarNames_ids: "map snd (buildSysVarNames False) = [0..<23]"
  by code_simp

lemma sys_var_ids_match:
  assumes "map_of (buildSysVarNames True) name = Some i"
  shows "map_of (buildSysVarNames False) name = Some i"
proof -
  have "buildSysVarNames False = buildSysVarNames True @ drop 12 (buildSysVarNames False)"
    by (metis append_take_drop_id buildSysVarNames_prefix)
  then have "map_of (buildSysVarNames False) =
    map_of (drop 12 (buildSysVarNames False)) ++ map_of (buildSysVarNames True)"
    by (metis map_of_append)
  then show ?thesis
    using assms by simp
qed

end
