(* ===== verification/Basic_Blocks.thy ===== *)
theory Basic_Blocks
  imports Ir_Nodes
begin

text \<open>
  The basic block pass (src/passes/BasicBlockPass.cpp), and how control flows through the body of a
  function before and after it.

  \<open>bb_state\<close> is the state of the loop of \<open>BasicBlockPass::Process\<close>.  A block is its list of statements and
  \<open>current\<close> the position of one in \<open>m_newContents\<close>; \<open>label_block\<close> is the field \<open>basicBlock\<close> of the labels,
  which is what a later pass finds the target of a jump by; \<open>fresh\<close> numbers the labels that the pass
  allocates.
\<close>

record bb_state =
  m_newContents :: "ir_stmt list list"
  current :: "nat option"
  lastWasUnconditionalBranch :: bool
  label_block :: "nat \<rightharpoonup> nat"
  fresh :: nat

definition CreateBasicBlock :: "bb_state \<Rightarrow> bb_state" where
  "CreateBasicBlock st =
     st\<lparr>m_newContents := m_newContents st @ [[]], current := Some (length (m_newContents st))\<rparr>"

text \<open>\<open>current->statements.push_back(statement)\<close>, where \<open>current\<close> may be the null pointer.\<close>

definition push_current :: "ir_stmt \<Rightarrow> bb_state \<Rightarrow> bb_state res" where
  "push_current s st =
     (case current st of
        None \<Rightarrow> Inl Undefined
      | Some k \<Rightarrow>
          Inr (st\<lparr>m_newContents := (m_newContents st)[k := m_newContents st ! k @ [s]]\<rparr>))"

definition set_basicBlock :: "nat \<Rightarrow> bb_state \<Rightarrow> bb_state" where
  "set_basicBlock l st = st\<lparr>label_block := (label_block st)(l := current st)\<rparr>"

definition start_block :: "nat \<Rightarrow> bb_state \<Rightarrow> bb_state res" where
  "start_block l st =
     rbind (push_current (StmtLabel l) (CreateBasicBlock st)) (\<lambda>st. Inr (set_basicBlock l st))"

definition bb_label :: "bool \<Rightarrow> nat \<Rightarrow> bb_state \<Rightarrow> bb_state res" where
  "bb_label prevUnconditionalBranch l st =
     rbind (if prevUnconditionalBranch then Inr st else push_current (StmtJump l None False) st)
       (start_block l)"

definition bb_fallthrough :: "bb_state \<Rightarrow> bb_state res" where
  "bb_fallthrough st =
     (let l = fresh st in
      rbind (push_current (StmtJump l None False) (st\<lparr>fresh := Suc l\<rparr>)) (start_block l))"

definition bb_step :: "ir_stmt \<Rightarrow> bb_state \<Rightarrow> bb_state res" where
  "bb_step statement st =
     (let prevUnconditionalBranch = lastWasUnconditionalBranch st;
          st = st\<lparr>lastWasUnconditionalBranch := IsUnconditionalBranch statement\<rparr> in
      case statement of
        StmtBlock _ \<Rightarrow> Inl Fatal
      | StmtLabel l \<Rightarrow> bb_label prevUnconditionalBranch l st
      | _ \<Rightarrow>
          rbind (push_current statement st) (\<lambda>st.
            if IsUnconditionalBranch statement then Inr (st\<lparr>current := None\<rparr>)
            else case statement of
                StmtJump _ _ _ \<Rightarrow> bb_fallthrough st
              | _ \<Rightarrow> Inr st))"

fun bb_loop :: "ir_stmt list \<Rightarrow> bb_state \<Rightarrow> bb_state res" where
  "bb_loop [] st = Inr st"
| "bb_loop (statement # statements) st = rbind (bb_step statement st) (bb_loop statements)"

definition bb_start :: "nat \<Rightarrow> bb_state" where
  "bb_start fresh_label =
     CreateBasicBlock \<lparr>m_newContents = [], current = None, lastWasUnconditionalBranch = False,
       label_block = Map.empty, fresh = fresh_label\<rparr>"

text \<open>The blocks that replace the statements of the body, and the blocks of the labels.\<close>

definition bb_Process :: "nat \<Rightarrow> ir_stmt list \<Rightarrow> (ir_stmt list list \<times> (nat \<rightharpoonup> nat)) res" where
  "bb_Process fresh_label statements =
     rbind (bb_loop statements (bb_start fresh_label))
       (\<lambda>st. Inr (m_newContents st, label_block st))"

section \<open>Running a body\<close>

text \<open>
  What a statement does is an argument: \<open>exec\<close> is the new state after a statement that is not a jump, a
  label or a return, or nothing when it ends the function by an error, and \<open>cond\<close> is the truth of a
  condition.  A run ends by an error, by the expression that is returned, or by reaching the end.
\<close>

record 's ir_sem =
  exec :: "ir_stmt \<Rightarrow> 's \<Rightarrow> 's option"
  cond :: "ir_expr \<Rightarrow> 's \<Rightarrow> (bool \<times> 's) option"

datatype 's outcome = Failed | Returned ir_expr 's | Ended 's

datatype 's control = Next 's | Goto nat 's | Stop "'s outcome"

definition control_of :: "'s ir_sem \<Rightarrow> ir_stmt \<Rightarrow> 's \<Rightarrow> 's control" where
  "control_of sem stmt s =
     (case stmt of
        StmtLabel l \<Rightarrow> Next s
      | StmtReturn e \<Rightarrow> Stop (Returned e s)
      | StmtJump target None _ \<Rightarrow> Goto target s
      | StmtJump target (Some c) jumpOnFalse \<Rightarrow>
          (case cond sem c s of
             None \<Rightarrow> Stop Failed
           | Some (b, s') \<Rightarrow> if b = jumpOnFalse then Next s' else Goto target s')
      | _ \<Rightarrow> (case exec sem stmt s of None \<Rightarrow> Stop Failed | Some s' \<Rightarrow> Next s'))"

text \<open>
  A program is what its jumps lead to: \<open>code l\<close> are the statements from label \<open>l\<close> on.  The flat body
  continues behind the label; blocks continue at the start of the block that the label belongs to.
\<close>

inductive run ::
  "'s ir_sem \<Rightarrow> (nat \<rightharpoonup> ir_stmt list) \<Rightarrow> ir_stmt list \<Rightarrow> 's \<Rightarrow> 's outcome \<Rightarrow> bool"
  for sem code where
  run_end: "run sem code [] s (Ended s)"
| run_next: "control_of sem stmt s = Next s' \<Longrightarrow> run sem code rest s' r \<Longrightarrow>
    run sem code (stmt # rest) s r"
| run_goto: "control_of sem stmt s = Goto l s' \<Longrightarrow> code l = Some rest' \<Longrightarrow>
    run sem code rest' s' r \<Longrightarrow> run sem code (stmt # rest) s r"
| run_stop: "control_of sem stmt s = Stop r \<Longrightarrow> run sem code (stmt # rest) s r"

inductive_cases run_NilE: "run sem code [] s r"
inductive_cases run_ConsE: "run sem code (stmt # rest) s r"

fun flat_code :: "ir_stmt list \<Rightarrow> nat \<Rightarrow> ir_stmt list option" where
  "flat_code [] l = None"
| "flat_code (stmt # rest) l = (if stmt = StmtLabel l then Some rest else flat_code rest l)"

definition block_code :: "ir_stmt list list \<Rightarrow> (nat \<rightharpoonup> nat) \<Rightarrow> nat \<Rightarrow> ir_stmt list option" where
  "block_code blocks where_label l = map_option (\<lambda>k. blocks ! k) (where_label l)"

definition run_flat :: "'s ir_sem \<Rightarrow> ir_stmt list \<Rightarrow> 's \<Rightarrow> 's outcome \<Rightarrow> bool" where
  "run_flat sem statements = run sem (flat_code statements) statements"

definition run_blocks ::
  "'s ir_sem \<Rightarrow> ir_stmt list list \<times> (nat \<rightharpoonup> nat) \<Rightarrow> 's \<Rightarrow> 's outcome \<Rightarrow> bool" where
  "run_blocks sem p = run sem (block_code (fst p) (snd p)) (hd (fst p))"

section \<open>Basic blocks\<close>

definition is_control :: "ir_stmt \<Rightarrow> bool" where
  "is_control s \<longleftrightarrow> (case s of StmtJump _ _ _ \<Rightarrow> True | StmtReturn _ \<Rightarrow> True | _ \<Rightarrow> False)"

definition is_label :: "ir_stmt \<Rightarrow> bool" where
  "is_label s \<longleftrightarrow> (case s of StmtLabel _ \<Rightarrow> True | _ \<Rightarrow> False)"

definition is_block :: "ir_stmt \<Rightarrow> bool" where
  "is_block s \<longleftrightarrow> (case s of StmtBlock _ \<Rightarrow> True | _ \<Rightarrow> False)"

text \<open>
  The comment on \<open>StmtBlock::isBasicBlock\<close>: straight-line statements, then an unconditional jump or a
  return, which a conditional jump may stand before.
\<close>

definition straight :: "ir_stmt \<Rightarrow> bool" where
  "straight s \<longleftrightarrow> \<not> is_control s \<and> \<not> is_label s \<and> \<not> is_block s"

definition is_conditional_jump :: "ir_stmt \<Rightarrow> bool" where
  "is_conditional_jump s \<longleftrightarrow> is_control s \<and> \<not> IsUnconditionalBranch s"

fun block_rest :: "ir_stmt list \<Rightarrow> bool" where
  "block_rest [] = False"
| "block_rest [s] = IsUnconditionalBranch s"
| "block_rest (s # t # ss) =
     (if is_conditional_jump s then ss = [] \<and> IsUnconditionalBranch t
      else straight s \<and> block_rest (t # ss))"

definition basic_block :: "ir_stmt list \<Rightarrow> bool" where
  "basic_block b \<longleftrightarrow> b \<noteq> [] \<and> is_label (hd b) \<and> block_rest (tl b)"

text \<open>The labels of a body and the labels that it jumps to.\<close>

fun labels :: "ir_stmt list \<Rightarrow> nat list" where
  "labels [] = []"
| "labels (StmtLabel l # ss) = l # labels ss"
| "labels (_ # ss) = labels ss"

fun targets :: "ir_stmt list \<Rightarrow> nat list" where
  "targets [] = []"
| "targets (StmtJump l _ _ # ss) = l # targets ss"
| "targets (_ # ss) = targets ss"

text \<open>
  What the pass asks of a body: no nested block, and behind an unconditional branch the end or a label.
\<close>

fun reachable_only :: "ir_stmt list \<Rightarrow> bool" where
  "reachable_only [] = True"
| "reachable_only [s] = (\<not> is_block s)"
| "reachable_only (s # t # ss) =
     (\<not> is_block s \<and> (IsUnconditionalBranch s \<longrightarrow> is_label t) \<and> reachable_only (t # ss))"

end
