(* ===== verification/Ir_Cleanup.thy ===== *)
theory Ir_Cleanup
  imports Basic_Blocks
begin

text \<open>
  The clean-up pass (src/passes/IRCleanup.cpp): nested blocks and \<open>ExprRunStatements\<close> are flattened into the
  body, calls that are operands become assignments to new locals, and dead code and unused labels go.

  \<open>cleanup\<close> is the pass's own state and what it changes of the function.  \<open>seen_labels\<close> and
  \<open>used_labels\<close> are the entries of \<open>m_labelData\<close> whose \<open>parent\<close> is the body and whose \<open>used\<close> is set;
  \<open>inserted\<close> are the statements that \<open>m_runStatementsTarget\<close> has put before the statement being visited.
  The statements of a body are visited only as its direct children, since nested blocks are replaced
  by their contents before a visit.  \<open>captured v\<close> says that local \<open>v\<close> has upvalues.
\<close>

record cleanup =
  fn_locals :: "nat list"
  next_local :: nat
  seen_labels :: "nat list"
  used_labels :: "nat list"
  inserted :: "ir_stmt list"
  root_upvalues :: "nat option"
  beginUpvalues :: "nat \<rightharpoonup> nat"

section \<open>Expressions\<close>

text \<open>\<open>insertIndex\<close> grows with every insertion, so that the insertions keep their order.\<close>

definition insert_before :: "ir_stmt \<Rightarrow> cleanup \<Rightarrow> cleanup" where
  "insert_before s st = st\<lparr>inserted := inserted st @ [s]\<rparr>"

definition SubstituteExprRunStatements :: "ir_stmt \<Rightarrow> nat \<Rightarrow> cleanup \<Rightarrow> ir_expr \<times> cleanup" where
  "SubstituteExprRunStatements statement temporary st =
     (ExprLoad (SSAVariable temporary), insert_before statement st)"

text \<open>A call stays where it is when its parent is an assignment or a \<open>StmtEvalAndIgnore\<close>.\<close>

definition SubstituteExprFuncCall :: "bool \<Rightarrow> ir_expr \<Rightarrow> cleanup \<Rightarrow> ir_expr \<times> cleanup" where
  "SubstituteExprFuncCall stays node st =
     (if stays then (node, st)
      else let tmpVar = next_local st;
               st = st\<lparr>fn_locals := fn_locals st @ [tmpVar], next_local := Suc tmpVar\<rparr>
           in (ExprLoad (LocalVariable tmpVar),
               insert_before (StmtAssign (LocalVariable tmpVar) node) st))"

definition substitute :: "bool \<Rightarrow> ir_expr \<Rightarrow> cleanup \<Rightarrow> ir_expr \<times> cleanup" where
  "substitute stays node st =
     (let (node, st) = (case node of
            ExprRunStatements s t \<Rightarrow> SubstituteExprRunStatements s t st
          | _ \<Rightarrow> (node, st))
      in case node of
           ExprFuncCall _ _ _ _ \<Rightarrow> SubstituteExprFuncCall stays node st
         | _ \<Rightarrow> (node, st))"

text \<open>
  Visiting a call visits the receiver and the arguments, whose parent is the call; a substituted operand
  is a load, and the operands that are not substituted have no expressions inside.
\<close>

fun visit_args :: "ir_expr list \<Rightarrow> cleanup \<Rightarrow> ir_expr list \<times> cleanup" where
  "visit_args [] st = ([], st)"
| "visit_args (a # as) st =
     (let (a, st) = substitute False a st; (as, st) = visit_args as st in (a # as, st))"

definition visit_option :: "(ir_expr \<Rightarrow> cleanup \<Rightarrow> ir_expr \<times> cleanup) \<Rightarrow>
  ir_expr option \<Rightarrow> cleanup \<Rightarrow> ir_expr option \<times> cleanup" where
  "visit_option f e st =
     (case e of None \<Rightarrow> (None, st) | Some e \<Rightarrow> (let (e, st) = f e st in (Some e, st)))"

definition visit_expr :: "bool \<Rightarrow> ir_expr \<Rightarrow> cleanup \<Rightarrow> ir_expr \<times> cleanup" where
  "visit_expr stays node st =
     (let (node, st) = substitute stays node st in
      case node of
        ExprFuncCall n signature receiver args \<Rightarrow>
          (let (receiver, st) = visit_option (substitute False) receiver st;
               (args, st) = visit_args args st
           in (ExprFuncCall n signature receiver args, st))
      | _ \<Rightarrow> (node, st))"

section \<open>Statements\<close>

definition VisitStmtLabel :: "nat \<Rightarrow> cleanup \<Rightarrow> cleanup" where
  "VisitStmtLabel l st = st\<lparr>seen_labels := List.insert l (seen_labels st)\<rparr>"

definition use_label :: "nat \<Rightarrow> cleanup \<Rightarrow> cleanup" where
  "use_label l st = st\<lparr>used_labels := List.insert l (used_labels st)\<rparr>"

definition VisitStmtBeginUpvalues :: "(nat \<Rightarrow> bool) \<Rightarrow> nat list \<Rightarrow> cleanup \<Rightarrow> nat list \<times> cleanup" where
  "VisitStmtBeginUpvalues captured variables st =
     (filter captured variables,
      st\<lparr>beginUpvalues := beginUpvalues st |` (- {v \<in> set variables. \<not> captured v})\<rparr>)"

definition visit_stmt :: "(nat \<Rightarrow> bool) \<Rightarrow> ir_stmt \<Rightarrow> cleanup \<Rightarrow> ir_stmt \<times> cleanup" where
  "visit_stmt captured stmt st =
     (case stmt of
        StmtAssign v e \<Rightarrow> (let (e, st) = visit_expr True e st in (StmtAssign v e, st))
      | StmtFieldAssign this f e \<Rightarrow>
          (let (e, st) = visit_expr False e st in (StmtFieldAssign this f e, st))
      | StmtEvalAndIgnore e \<Rightarrow> (let (e, st) = visit_expr True e st in (StmtEvalAndIgnore e, st))
      | StmtLabel l \<Rightarrow> (stmt, VisitStmtLabel l st)
      | StmtJump target condition jumpOnFalse \<Rightarrow>
          (let (condition, st) = visit_option (visit_expr False) condition (use_label target st)
           in (StmtJump target condition jumpOnFalse, st))
      | StmtReturn e \<Rightarrow> (let (e, st) = visit_expr False e st in (StmtReturn e, st))
      | StmtBeginUpvalues n variables \<Rightarrow>
          (let (variables, st) = VisitStmtBeginUpvalues captured variables st
           in (StmtBeginUpvalues n variables, st))
      | _ \<Rightarrow> (stmt, st))"

section \<open>The loop over the body\<close>

text \<open>
  \<open>keep_stmt\<close> decides on a visited statement: empty \<open>StmtBeginUpvalues\<close> and statements that only
  evaluate a pure expression are erased.
\<close>

definition keep_stmt :: "ir_stmt \<Rightarrow> cleanup \<Rightarrow> ir_stmt list \<times> cleanup" where
  "keep_stmt stmt st =
     (case stmt of
        StmtBeginUpvalues n variables \<Rightarrow>
          (if variables = []
           then ([], if root_upvalues st = Some n then st\<lparr>root_upvalues := None\<rparr> else st)
           else ([stmt], st))
      | StmtEvalAndIgnore e \<Rightarrow> (if IsPure e then [] else [stmt], st)
      | _ \<Rightarrow> ([stmt], st))"

text \<open>The weight of what is left to visit, which every round of the loop lowers.\<close>

fun expr_weight :: "ir_expr \<Rightarrow> nat" and stmt_weight :: "ir_stmt \<Rightarrow> nat" where
  "expr_weight (ExprFuncCall _ _ receiver args) =
     3 + (case receiver of None \<Rightarrow> 0 | Some r \<Rightarrow> expr_weight r) + sum_list (map expr_weight args)"
| "expr_weight (ExprRunStatements s _) = 1 + stmt_weight s"
| "expr_weight _ = 0"
| "stmt_weight (StmtAssign _ e) =
     (case e of ExprFuncCall _ _ _ _ \<Rightarrow> expr_weight e - 1 | _ \<Rightarrow> expr_weight e + 1)"
| "stmt_weight (StmtEvalAndIgnore e) =
     (case e of ExprFuncCall _ _ _ _ \<Rightarrow> expr_weight e - 1 | _ \<Rightarrow> expr_weight e + 1)"
| "stmt_weight (StmtFieldAssign _ _ e) = 1 + expr_weight e"
| "stmt_weight (StmtBlock ss) = 1 + sum_list (map stmt_weight ss)"
| "stmt_weight (StmtJump _ c _) = 1 + (case c of None \<Rightarrow> 0 | Some e \<Rightarrow> expr_weight e)"
| "stmt_weight (StmtReturn e) = 1 + expr_weight e"
| "stmt_weight _ = 1"

definition rest_weight :: "ir_stmt list \<Rightarrow> nat" where
  "rest_weight ss = sum_list (map stmt_weight ss)"

definition potential :: "cleanup \<Rightarrow> nat" where
  "potential st = rest_weight (inserted st) + length (inserted st)"

lemma rest_weight_simps [simp]:
  "rest_weight [] = 0"
  "rest_weight (s # ss) = stmt_weight s + rest_weight ss"
  "rest_weight (ss @ ts) = rest_weight ss + rest_weight ts"
  by (simp_all add: rest_weight_def)

lemma substitute_weight:
  "substitute stays e st = (e', st') \<Longrightarrow>
   potential st' + expr_weight e' = potential st + expr_weight e"
  by (cases e; cases stays)
    (auto simp: substitute_def SubstituteExprRunStatements_def SubstituteExprFuncCall_def
      insert_before_def potential_def Let_def)

lemma visit_args_weight:
  "visit_args as st = (as', st') \<Longrightarrow>
   potential st' + sum_list (map expr_weight as') = potential st + sum_list (map expr_weight as)"
proof (induction as arbitrary: as' st st')
  case (Cons a as)
  obtain b st1 where b: "substitute False a st = (b, st1)" by fastforce
  obtain bs st2 where bs: "visit_args as st1 = (bs, st2)" by fastforce
  show ?case
    using Cons.prems Cons.IH [OF bs] substitute_weight [OF b] by (auto simp: b bs)
qed simp

lemma visit_option_weight:
  assumes "visit_option f e st = (e', st')"
  assumes "\<And>e e' st st'. f e st = (e', st') \<Longrightarrow>
    potential st' + expr_weight e' = potential st + expr_weight e"
  shows "potential st' + (case e' of None \<Rightarrow> 0 | Some e \<Rightarrow> expr_weight e) =
    potential st + (case e of None \<Rightarrow> 0 | Some e \<Rightarrow> expr_weight e)"
  using assms(1) assms(2) [of "the e" st] by (auto simp: visit_option_def split: option.splits prod.splits)

lemma visit_expr_weight:
  assumes "visit_expr stays e st = (e', st')"
  shows "potential st' + expr_weight e' = potential st + expr_weight e"
proof -
  obtain e1 st1 where e1: "substitute stays e st = (e1, st1)" by fastforce
  show ?thesis
  proof (cases "\<exists>n sig r as. e1 = ExprFuncCall n sig r as")
    case True
    then obtain n sig r as where e: "e1 = ExprFuncCall n sig r as" by auto
    obtain r2 st2 where r: "visit_option (substitute False) r st1 = (r2, st2)" by fastforce
    obtain as3 st3 where as: "visit_args as st2 = (as3, st3)" by fastforce
    have "e' = ExprFuncCall n sig r2 as3" "st' = st3"
      using assms by (auto simp: visit_expr_def e1 e r as)
    moreover have "potential st2 + (case r2 of None \<Rightarrow> 0 | Some e \<Rightarrow> expr_weight e) =
        potential st1 + (case r of None \<Rightarrow> 0 | Some e \<Rightarrow> expr_weight e)"
      by (rule visit_option_weight [OF r]) (rule substitute_weight)
    ultimately show ?thesis
      using substitute_weight [OF e1] visit_args_weight [OF as] by (simp add: e)
  next
    case False
    then have "e' = e1" "st' = st1"
      using assms by (auto simp: visit_expr_def e1 split: ir_expr.splits)
    then show ?thesis using substitute_weight [OF e1] by simp
  qed
qed

definition is_call :: "ir_expr \<Rightarrow> bool" where
  "is_call e \<longleftrightarrow> (case e of ExprFuncCall _ _ _ _ \<Rightarrow> True | _ \<Rightarrow> False)"

lemma visit_expr_call: "visit_expr True e st = (e', st') \<Longrightarrow> is_call e' = is_call e"
  by (auto simp: visit_expr_def substitute_def SubstituteExprRunStatements_def is_call_def
      SubstituteExprFuncCall_def split: ir_expr.splits prod.splits)

lemma root_weight:
  "(case e of ExprFuncCall n sig r as \<Rightarrow> expr_weight e - 1 | _ \<Rightarrow> expr_weight e + 1) =
   (if is_call e then expr_weight e - 1 else expr_weight e + 1)"
  by (auto simp: is_call_def split: ir_expr.split)

lemma call_weight: "is_call e \<Longrightarrow> 3 \<le> expr_weight e"
  by (auto simp: is_call_def split: ir_expr.splits)

lemma visit_stmt_weight:
  assumes "visit_stmt captured s st = (s', st')"
  shows "potential st' + stmt_weight s' = potential st + stmt_weight s"
proof -
  have root: "potential st' + (if is_call e' then expr_weight e' - 1 else expr_weight e' + 1) =
      potential st + (if is_call e then expr_weight e - 1 else expr_weight e + 1)"
    if "visit_expr True e st = (e', st')" for e e' st'
    using visit_expr_weight [OF that] visit_expr_call [OF that] call_weight [of e] call_weight [of e']
    by auto
  show ?thesis
  proof (cases s)
    case (StmtJump t c j)
    obtain c1 st1 where c: "visit_option (visit_expr False) c (use_label t st) = (c1, st1)"
      by fastforce
    have "potential st1 + (case c1 of None \<Rightarrow> 0 | Some e \<Rightarrow> expr_weight e) =
        potential (use_label t st) + (case c of None \<Rightarrow> 0 | Some e \<Rightarrow> expr_weight e)"
      by (rule visit_option_weight [OF c]) (rule visit_expr_weight)
    moreover have "potential (use_label t st) = potential st"
      by (simp add: potential_def use_label_def)
    ultimately show ?thesis
      using assms by (auto simp: visit_stmt_def StmtJump c)
  next
    case (StmtAssign v e)
    obtain e' st1 where e: "visit_expr True e st = (e', st1)" by fastforce
    show ?thesis
      using assms root [OF e] by (auto simp: visit_stmt_def StmtAssign e root_weight)
  next
    case (StmtEvalAndIgnore e)
    obtain e' st1 where e: "visit_expr True e st = (e', st1)" by fastforce
    show ?thesis
      using assms root [OF e] by (auto simp: visit_stmt_def StmtEvalAndIgnore e root_weight)
  qed (use assms in \<open>auto simp: visit_stmt_def potential_def VisitStmtLabel_def
      VisitStmtBeginUpvalues_def split: prod.splits dest!: visit_expr_weight\<close>)
qed

lemma stmt_weight_pos [simp]: "0 < stmt_weight s"
  by (cases s) (auto simp: root_weight dest: call_weight)

lemma visit_stmt_shrinks:
  assumes "visit_stmt captured s (st\<lparr>inserted := []\<rparr>) = (s', st')" "inserted st' \<noteq> []"
  shows "rest_weight (inserted st') + stmt_weight s' < stmt_weight s"
proof -
  have "potential (st\<lparr>inserted := []\<rparr>) = 0" by (simp add: potential_def)
  then show ?thesis
    using visit_stmt_weight [OF assms(1)] assms(2) by (cases "inserted st'") (auto simp: potential_def)
qed

lemma block_weight: "stmt_weight (StmtBlock ss) = 1 + rest_weight ss"
  by (simp add: rest_weight_def)

function clean_loop ::
  "(nat \<Rightarrow> bool) \<Rightarrow> ir_stmt list \<Rightarrow> ir_stmt list \<Rightarrow> cleanup \<Rightarrow> ir_stmt list \<times> cleanup" where
  "clean_loop captured [] visited st = (visited, st)"
| "clean_loop captured (stmt # rest) visited st =
     (case stmt of
        StmtBlock nested \<Rightarrow> clean_loop captured (nested @ rest) visited st
      | _ \<Rightarrow>
          (let (stmt', st') = visit_stmt captured stmt (st\<lparr>inserted := []\<rparr>) in
           if inserted st' \<noteq> [] then clean_loop captured (inserted st' @ stmt' # rest) visited st'
           else let (kept, st'') = keep_stmt stmt' st'
                in clean_loop captured rest (visited @ kept) st''))"
  by pat_completeness auto
termination
  by (relation "measure (\<lambda>(captured, rest, visited, st). rest_weight rest)")
    (auto simp: block_weight simp del: stmt_weight.simps dest: visit_stmt_shrinks [OF sym])

section \<open>Dead code and unused labels\<close>

text \<open>Behind an unconditional branch everything up to the next label is erased.\<close>

function remove_dead :: "ir_stmt list \<Rightarrow> ir_stmt list" where
  "remove_dead [] = []"
| "remove_dead (stmt # rest) =
     stmt # remove_dead (if IsUnconditionalBranch stmt then dropWhile (\<lambda>s. \<not> is_label s) rest else rest)"
  by pat_completeness auto
termination
  by (relation "measure length") (auto simp: less_Suc_eq_le length_dropWhile_le)

text \<open>\<open>VisitBlock(node, false)\<close> flattens nested blocks, without visiting their statements.\<close>

function flatten :: "ir_stmt list \<Rightarrow> ir_stmt list" where
  "flatten [] = []"
| "flatten (stmt # rest) =
     (case stmt of StmtBlock nested \<Rightarrow> flatten (nested @ rest) | _ \<Rightarrow> stmt # flatten rest)"
  by pat_completeness auto
termination
  by (relation "measure rest_weight") (auto simp: block_weight simp del: stmt_weight.simps)

definition clean_block :: "ir_stmt list \<Rightarrow> ir_stmt list" where
  "clean_block ss = remove_dead (flatten ss)"

definition VisitBlock ::
  "(nat \<Rightarrow> bool) \<Rightarrow> ir_stmt list \<Rightarrow> cleanup \<Rightarrow> ir_stmt list \<times> cleanup" where
  "VisitBlock captured ss st =
     (let (ss, st) = clean_loop captured ss [] st in (remove_dead ss, st))"

definition unused_labels :: "cleanup \<Rightarrow> nat list" where
  "unused_labels st = filter (\<lambda>l. l \<notin> set (used_labels st)) (seen_labels st)"

text \<open>
  \<open>Process\<close>: the order in which the unused labels are erased is that of a hash map, and does not matter.
\<close>

definition remove_unused :: "nat list \<Rightarrow> ir_stmt list \<Rightarrow> ir_stmt list" where
  "remove_unused unused ss =
     (let ss' = fold (\<lambda>l. remove1 (StmtLabel l)) unused ss
      in if unused = [] then ss' else clean_block ss')"

definition cleanup_start :: "ir_fn \<Rightarrow> nat \<Rightarrow> (nat \<rightharpoonup> nat) \<Rightarrow> cleanup" where
  "cleanup_start fn fresh_local begins =
     \<lparr>fn_locals = locals fn, next_local = fresh_local, seen_labels = [], used_labels = [],
      inserted = [], root_upvalues = rootBeginUpvalues fn, beginUpvalues = begins\<rparr>"

definition cleanup_Process ::
  "(nat \<Rightarrow> bool) \<Rightarrow> nat \<Rightarrow> (nat \<rightharpoonup> nat) \<Rightarrow> ir_fn \<Rightarrow> ir_fn \<times> (nat \<rightharpoonup> nat)" where
  "cleanup_Process captured fresh_local begins fn =
     (let (ss, st) = VisitBlock captured (body fn) (cleanup_start fn fresh_local begins);
          ss = remove_unused (unused_labels st) ss
      in (fn\<lparr>body := ss, locals := fn_locals st, rootBeginUpvalues := root_upvalues st\<rparr>,
          beginUpvalues st))"

end
