(* ===== verification/Basic_Blocks_Proofs.thy ===== *)
theory Basic_Blocks_Proofs
  imports Basic_Blocks
begin

text \<open>
  The basic block pass keeps the meaning of a body and makes every block a basic block.

  \<open>split_body\<close> is a reference for the pass by recursion on the statements: what goes into the block that is
  open, and the blocks behind it.  \<open>bb_loop_split\<close> ties the loop to it; the two simulations relate a point of
  the flat body, which is the list of the statements from there on, to the rest of the block that holds it.
\<close>

section \<open>The pass by recursion on the statements\<close>

fun split_body :: "nat \<Rightarrow> ir_stmt list \<Rightarrow> ir_stmt list \<times> ir_stmt list list" where
  "split_body n [] = ([], [])"
| "split_body n (StmtLabel l # ss) =
     (let (t, bs) = split_body n ss in ([StmtJump l None False], (StmtLabel l # t) # bs))"
| "split_body n (StmtJump l (Some c) j # ss) =
     (let (t, bs) = split_body (Suc n) ss
      in ([StmtJump l (Some c) j, StmtJump n None False], (StmtLabel n # t) # bs))"
| "split_body n (s # ss) =
     (let (t, bs) = split_body n ss in if IsUnconditionalBranch s then ([s], bs) else (s # t, bs))"

fun head_label :: "ir_stmt list \<Rightarrow> nat" where
  "head_label (StmtLabel l # _) = l"
| "head_label _ = 0"

fun note_labels :: "nat \<Rightarrow> ir_stmt list list \<Rightarrow> (nat \<rightharpoonup> nat) \<Rightarrow> nat \<rightharpoonup> nat" where
  "note_labels c [] m = m"
| "note_labels c (b # bs) m = note_labels (Suc c) bs (m(head_label b \<mapsto> c))"

definition open_state :: "ir_stmt list list \<Rightarrow> ir_stmt list \<Rightarrow> bb_state \<Rightarrow> bool" where
  "open_state before b st \<longleftrightarrow> m_newContents st = before @ [b] \<and> current st = Some (length before) \<and>
     \<not> lastWasUnconditionalBranch st"

definition closed_state :: "ir_stmt list list \<Rightarrow> bb_state \<Rightarrow> bool" where
  "closed_state before st \<longleftrightarrow> m_newContents st = before \<and> current st = None \<and>
     lastWasUnconditionalBranch st"

lemma push_open:
  "m_newContents st = before @ [b] \<Longrightarrow> current st = Some (length before) \<Longrightarrow>
   push_current s st = Inr (st\<lparr>m_newContents := before @ [b @ [s]]\<rparr>)"
  by (simp add: push_current_def)

lemma start_block_state:
  "start_block l st = Inr (st\<lparr>m_newContents := m_newContents st @ [[StmtLabel l]],
     current := Some (length (m_newContents st)),
     label_block := (label_block st)(l \<mapsto> length (m_newContents st))\<rparr>)"
  by (simp add: start_block_def CreateBasicBlock_def push_current_def set_basicBlock_def)

lemma split_next_label:
  assumes "is_label s"
  shows "\<exists>l. s = StmtLabel l"
  using assms by (auto simp: is_label_def split: ir_stmt.splits)

definition loop_result :: "ir_stmt list list \<Rightarrow> ir_stmt list list \<Rightarrow> nat \<Rightarrow> bb_state \<Rightarrow> bb_state res \<Rightarrow> bool" where
  "loop_result contents bs c st r \<longleftrightarrow> (\<exists>st'. r = Inr st' \<and> m_newContents st' = contents @ bs \<and>
     label_block st' = note_labels c bs (label_block st))"

lemma stmt_kinds:
  obtains (label) l where "s = StmtLabel l"
  | (branch) "IsUnconditionalBranch s"
  | (cond_jump) l c j where "s = StmtJump l (Some c) j"
  | (block) "is_block s"
  | (straight) "straight s"
  by (cases s) (auto simp: straight_def is_control_def is_label_def is_block_def)

lemma split_branch:
  "IsUnconditionalBranch s \<Longrightarrow> split_body n (s # ss) = ([s], snd (split_body n ss))"
  by (cases s) (auto simp: case_prod_unfold Let_def)

lemma split_straight:
  "straight s \<Longrightarrow>
   split_body n (s # ss) = (s # fst (split_body n ss), snd (split_body n ss))"
  by (cases s)
    (auto simp: case_prod_unfold Let_def straight_def is_control_def is_label_def is_block_def)

lemma straight_not_branch: "straight s \<Longrightarrow> \<not> IsUnconditionalBranch s"
  by (cases s) (auto simp: straight_def is_control_def)

lemma step_branch:
  assumes "IsUnconditionalBranch s" "current st = Some k"
  shows "bb_step s st = rbind (push_current s (st\<lparr>lastWasUnconditionalBranch := True\<rparr>))
    (\<lambda>st. Inr (st\<lparr>current := None\<rparr>))"
  using assms by (cases s) (auto simp: bb_step_def)

lemma step_straight:
  assumes "straight s"
  shows "bb_step s st = push_current s (st\<lparr>lastWasUnconditionalBranch := False\<rparr>)"
  using assms
  by (cases s) (auto simp: bb_step_def rbind_def straight_def is_control_def is_label_def
      is_block_def split: sum.split)

lemma reachable_tail: "reachable_only (s # ss) \<Longrightarrow> reachable_only ss"
  by (cases ss) auto

lemma bb_loop_split:
  "open_state before b st \<Longrightarrow> reachable_only ss \<Longrightarrow>
     loop_result (before @ [b @ fst (split_body (fresh st) ss)]) (snd (split_body (fresh st) ss))
       (Suc (length before)) st (bb_loop ss st)"
  "closed_state before st \<Longrightarrow> reachable_only ss \<Longrightarrow> (ss = [] \<or> is_label (hd ss)) \<Longrightarrow>
     loop_result before (snd (split_body (fresh st) ss)) (length before) st (bb_loop ss st)"
proof (induction ss arbitrary: before b st)
  case Nil
  {
    case 1
    then show ?case by (simp add: loop_result_def open_state_def)
  next
    case 2
    then show ?case by (simp add: loop_result_def closed_state_def)
  }
next
  case (Cons s ss)
  {
    case 2
    then obtain l where s: "s = StmtLabel l"
      using split_next_label by auto
    let ?st = "st\<lparr>lastWasUnconditionalBranch := False, m_newContents := before @ [[StmtLabel l]],
      current := Some (length before), label_block := (label_block st)(l \<mapsto> length before)\<rparr>"
    have step: "bb_step s st = Inr ?st"
      using 2 by (simp add: s bb_step_def bb_label_def start_block_state closed_state_def)
    have "loop_result (before @ [[StmtLabel l] @ fst (split_body (fresh ?st) ss)])
      (snd (split_body (fresh ?st) ss)) (Suc (length before)) ?st (bb_loop ss ?st)"
      using 2 reachable_tail by (intro Cons.IH(1)) (auto simp: open_state_def)
    then show ?case
      by (simp add: step) (simp add: s loop_result_def case_prod_unfold Let_def)
  next
    case 1
    have st: "m_newContents st = before @ [b]" "current st = Some (length before)"
      "\<not> lastWasUnconditionalBranch st"
      using 1(1) by (simp_all add: open_state_def)
    have reach: "reachable_only ss"
      using 1(2) by (rule reachable_tail)
    show ?case
    proof (cases s rule: stmt_kinds)
      case (label l)
      let ?before = "before @ [b @ [StmtJump l None False]]"
      let ?st = "st\<lparr>lastWasUnconditionalBranch := False, m_newContents := ?before @ [[StmtLabel l]],
        current := Some (length ?before), label_block := (label_block st)(l \<mapsto> length ?before)\<rparr>"
      have step: "bb_step s st = Inr ?st"
        using st by (simp add: label bb_step_def bb_label_def start_block_state push_open)
      have "loop_result (?before @ [[StmtLabel l] @ fst (split_body (fresh ?st) ss)])
        (snd (split_body (fresh ?st) ss)) (Suc (length ?before)) ?st (bb_loop ss ?st)"
        using reach by (intro Cons.IH(1)) (auto simp: open_state_def)
      then show ?thesis
        by (simp add: step) (simp add: label loop_result_def case_prod_unfold Let_def)
    next
      case branch
      let ?st = "st\<lparr>lastWasUnconditionalBranch := True, m_newContents := before @ [b @ [s]],
        current := None\<rparr>"
      have step: "bb_step s st = Inr ?st"
        using st by (simp add: step_branch [OF branch] push_open)
      have "ss = [] \<or> is_label (hd ss)"
        using 1(2) branch by (cases ss) auto
      then have "loop_result (before @ [b @ [s]]) (snd (split_body (fresh ?st) ss))
        (length (before @ [b @ [s]])) ?st (bb_loop ss ?st)"
        using reach by (intro Cons.IH(2)) (auto simp: closed_state_def)
      then show ?thesis
        by (simp add: step split_branch [OF branch] loop_result_def)
    next
      case (cond_jump l c j)
      let ?n = "fresh st"
      let ?before = "before @ [b @ [s, StmtJump ?n None False]]"
      let ?st = "st\<lparr>lastWasUnconditionalBranch := False, fresh := Suc ?n,
        m_newContents := ?before @ [[StmtLabel ?n]], current := Some (length ?before),
        label_block := (label_block st)(?n \<mapsto> length ?before)\<rparr>"
      have step: "bb_step s st = Inr ?st"
        using st
        by (simp add: cond_jump bb_step_def bb_fallthrough_def start_block_state push_open Let_def)
      have "loop_result (?before @ [[StmtLabel ?n] @ fst (split_body (fresh ?st) ss)])
        (snd (split_body (fresh ?st) ss)) (Suc (length ?before)) ?st (bb_loop ss ?st)"
        using reach by (intro Cons.IH(1)) (auto simp: open_state_def)
      then show ?thesis
        by (simp add: step) (simp add: cond_jump loop_result_def case_prod_unfold Let_def)
    next
      case block
      then show ?thesis using 1(2) by (cases ss) auto
    next
      case straight
      let ?st = "st\<lparr>lastWasUnconditionalBranch := False, m_newContents := before @ [b @ [s]]\<rparr>"
      have step: "bb_step s st = Inr ?st"
        using st by (simp add: step_straight [OF straight] push_open)
      have "loop_result (before @ [(b @ [s]) @ fst (split_body (fresh ?st) ss)])
        (snd (split_body (fresh ?st) ss)) (Suc (length before)) ?st (bb_loop ss ?st)"
        using reach st by (intro Cons.IH(1)) (auto simp: open_state_def)
      then show ?thesis
        by (simp add: step split_straight [OF straight] loop_result_def)
    qed
  }
qed

text \<open>The result of the pass on a body that the clean-up leaves.\<close>

definition bb_blocks :: "nat \<Rightarrow> ir_stmt list \<Rightarrow> ir_stmt list list" where
  "bb_blocks n ss = fst (split_body n ss) # snd (split_body n ss)"

lemma bb_Process_split:
  assumes "reachable_only ss"
  shows "bb_Process n ss =
    Inr (bb_blocks n ss, note_labels 1 (snd (split_body n ss)) Map.empty)"
proof -
  have o: "open_state [] [] (bb_start n)"
    by (simp add: open_state_def bb_start_def CreateBasicBlock_def)
  have f: "fresh (bb_start n) = n" "label_block (bb_start n) = Map.empty"
    by (simp_all add: bb_start_def CreateBasicBlock_def)
  show ?thesis
    using bb_loop_split(1) [OF o assms] by (auto simp: loop_result_def f bb_Process_def bb_blocks_def)
qed

section \<open>The blocks of the labels\<close>

lemma note_labels_other: "l \<notin> set (map head_label bs) \<Longrightarrow> note_labels c bs m l = m l"
  by (induction bs arbitrary: c m) auto

lemma note_labels_nth:
  "distinct (map head_label bs) \<Longrightarrow> i < length bs \<Longrightarrow>
   note_labels c bs m (head_label (bs ! i)) = Some (c + i)"
proof (induction bs arbitrary: c m i)
  case (Cons b bs)
  then show ?case
    by (cases i) (auto simp: note_labels_other)
qed simp

lemma labels_other: "\<not> is_label s \<Longrightarrow> labels (s # ss) = labels ss"
  by (cases s) (auto simp: is_label_def)

lemma branch_not_label: "IsUnconditionalBranch s \<Longrightarrow> \<not> is_label s"
  by (cases s) (auto simp: is_label_def)

lemma split_heads:
  "reachable_only ss \<Longrightarrow> \<forall>l \<in> set (labels ss). l < n \<Longrightarrow> distinct (labels ss) \<Longrightarrow>
   distinct (map head_label (snd (split_body n ss))) \<and>
   set (map head_label (snd (split_body n ss))) \<subseteq> set (labels ss) \<union> {n..} \<and>
   set (labels ss) \<subseteq> set (map head_label (snd (split_body n ss)))"
proof (induction ss arbitrary: n)
  case (Cons s ss)
  have reach: "reachable_only ss"
    using Cons.prems(1) by (rule reachable_tail)
  show ?case
  proof (cases s rule: stmt_kinds)
    case (label l)
    then show ?thesis
      using Cons.IH [OF reach] Cons.prems(2,3) by (fastforce simp: case_prod_unfold Let_def)
  next
    case branch
    then show ?thesis
      using Cons.IH [OF reach] Cons.prems(2,3)
      by (simp add: split_branch labels_other branch_not_label)
  next
    case (cond_jump l c j)
    have *: "\<forall>l \<in> set (labels ss). l < Suc n" "distinct (labels ss)"
      using Cons.prems(2,3) by (auto simp: cond_jump less_Suc_eq)
    have "n \<notin> set (labels ss)"
      using Cons.prems(2) by (auto simp: cond_jump)
    then show ?thesis
      using Cons.IH [OF reach *] Cons.prems(2)
      by (fastforce simp: cond_jump case_prod_unfold Let_def)
  next
    case block
    then show ?thesis using Cons.prems(1) by (cases ss) auto
  next
    case straight
    then have "\<not> is_label s" by (simp add: straight_def)
    then show ?thesis
      using Cons.IH [OF reach] Cons.prems(2,3) straight by (simp add: split_straight labels_other)
  qed
qed simp

lemma split_labelled: "b \<in> set (snd (split_body n ss)) \<Longrightarrow> \<exists>l t. b = StmtLabel l # t"
  by (induction n ss rule: split_body.induct) (auto simp: case_prod_unfold Let_def split: if_splits)

lemma block_code_iff:
  assumes "distinct (map head_label bs)"
  shows "block_code (b0 # bs) (note_labels 1 bs Map.empty) l = Some b \<longleftrightarrow>
    b \<in> set bs \<and> head_label b = l"
proof
  assume *: "block_code (b0 # bs) (note_labels 1 bs Map.empty) l = Some b"
  then have "l \<in> set (map head_label bs)"
    by (rule contrapos_pp) (simp add: block_code_def note_labels_other)
  then obtain i where i: "i < length bs" "head_label (bs ! i) = l"
    by (auto simp: in_set_conv_nth)
  then show "b \<in> set bs \<and> head_label b = l"
    using * note_labels_nth [OF assms i(1), of 1 Map.empty] by (auto simp: block_code_def)
next
  assume "b \<in> set bs \<and> head_label b = l"
  then obtain i where "i < length bs" "bs ! i = b" "head_label b = l"
    by (auto simp: in_set_conv_nth)
  then show "block_code (b0 # bs) (note_labels 1 bs Map.empty) l = Some b"
    using note_labels_nth [OF assms, of i 1 Map.empty] by (auto simp: block_code_def)
qed

section \<open>The two programs run alike\<close>

text \<open>Every block behind a point of the body is where the jumps look for it.\<close>

definition found :: "(nat \<rightharpoonup> ir_stmt list) \<Rightarrow> nat \<Rightarrow> ir_stmt list \<Rightarrow> bool" where
  "found bcode n ss \<longleftrightarrow>
     (\<forall>b \<in> set (snd (split_body n ss)). bcode (head_label b) = Some b)"

definition matching :: "(nat \<rightharpoonup> ir_stmt list) \<Rightarrow> (nat \<rightharpoonup> ir_stmt list) \<Rightarrow> bool" where
  "matching fcode bcode \<longleftrightarrow> (\<forall>l rest. fcode l = Some rest \<longrightarrow>
     (\<exists>n. reachable_only rest \<and> found bcode n rest \<and>
        bcode l = Some (StmtLabel l # fst (split_body n rest))))"

lemma found_label:
  "found bcode n (StmtLabel l # ss) \<Longrightarrow>
   bcode l = Some (StmtLabel l # fst (split_body n ss)) \<and> found bcode n ss"
  by (simp add: found_def case_prod_unfold Let_def)

lemma found_cond_jump:
  "found bcode n (StmtJump l (Some c) j # ss) \<Longrightarrow>
   bcode n = Some (StmtLabel n # fst (split_body (Suc n) ss)) \<and> found bcode (Suc n) ss"
  by (simp add: found_def case_prod_unfold Let_def)

lemma found_branch: "IsUnconditionalBranch s \<Longrightarrow> found bcode n (s # ss) \<Longrightarrow> found bcode n ss"
  by (simp add: found_def split_branch)

lemma found_straight: "straight s \<Longrightarrow> found bcode n (s # ss) \<Longrightarrow> found bcode n ss"
  by (simp add: found_def split_straight)

lemma matching_flat:
  "reachable_only ss \<Longrightarrow> found bcode n ss \<Longrightarrow> matching (flat_code ss) bcode"
proof (induction ss arbitrary: n)
  case Nil
  then show ?case by (simp add: matching_def)
next
  case (Cons s ss)
  have reach: "reachable_only ss"
    using Cons.prems(1) by (rule reachable_tail)
  show ?case
  proof (cases s rule: stmt_kinds)
    case (label l)
    have f: "bcode l = Some (StmtLabel l # fst (split_body n ss))" "found bcode n ss"
      using found_label Cons.prems(2) label by auto
    show ?thesis
      using Cons.IH [OF reach f(2)] f reach by (auto simp: matching_def label)
  next
    case branch
    then show ?thesis
      using Cons.IH [OF reach found_branch [OF branch Cons.prems(2)]] branch_not_label
      by (auto simp: matching_def is_label_def)
  next
    case (cond_jump l c j)
    then have "found bcode (Suc n) ss"
      using found_cond_jump Cons.prems(2) by auto
    then show ?thesis
      using Cons.IH [OF reach] by (auto simp: matching_def cond_jump)
  next
    case block
    then show ?thesis using Cons.prems(1) by (cases ss) auto
  next
    case straight
    then show ?thesis
      using Cons.IH [OF reach found_straight [OF straight Cons.prems(2)]]
      by (auto simp: matching_def straight_def is_label_def)
  qed
qed

lemma control_label [simp]: "control_of sem (StmtLabel l) s = Next s"
  by (simp add: control_of_def)

lemma control_jump [simp]: "control_of sem (StmtJump l None j) s = Goto l s"
  by (simp add: control_of_def)

lemma control_goto: "control_of sem x s = Goto l s' \<Longrightarrow> \<exists>c j. x = StmtJump l c j"
  by (auto simp: control_of_def split: ir_stmt.splits option.splits if_splits)

lemma branch_not_next: "IsUnconditionalBranch x \<Longrightarrow> control_of sem x s \<noteq> Next s'"
  by (cases x) (auto simp: control_of_def)

lemma straight_not_goto: "straight x \<Longrightarrow> control_of sem x s \<noteq> Goto l s'"
  by (auto simp: straight_def is_control_def dest: control_goto)

lemma run_forward:
  assumes "run sem fcode ss s r" "matching fcode bcode" "reachable_only ss" "found bcode n ss"
  shows "run sem bcode (fst (split_body n ss)) s r"
  using assms(1,3,4)
proof (induction arbitrary: n)
  case (run_end s)
  then show ?case by (simp add: run.run_end)
next
  case (run_next x s s' xs r)
  have reach: "reachable_only xs"
    using run_next.prems(1) by (rule reachable_tail)
  show ?case
  proof (cases x rule: stmt_kinds)
    case (label l)
    have f: "bcode l = Some (StmtLabel l # fst (split_body n xs))" "found bcode n xs"
      using found_label run_next.prems(2) label by auto
    have "run sem bcode (StmtLabel l # fst (split_body n xs)) s r"
      using run_next.IH [OF reach f(2)] run_next.hyps(1) by (auto simp: label intro: run.run_next)
    then show ?thesis
      using f(1) by (simp add: label case_prod_unfold Let_def run.run_goto)
  next
    case branch
    then show ?thesis using run_next.hyps(1) by (simp add: branch_not_next)
  next
    case (cond_jump l c j)
    have f: "bcode n = Some (StmtLabel n # fst (split_body (Suc n) xs))" "found bcode (Suc n) xs"
      using found_cond_jump run_next.prems(2) cond_jump by auto
    have "run sem bcode (StmtLabel n # fst (split_body (Suc n) xs)) s' r"
      using run_next.IH [OF reach f(2)] by (auto intro: run.run_next)
    then have "run sem bcode [StmtJump n None False] s' r"
      using f(1) by (auto intro: run.run_goto)
    then show ?thesis
      using run_next.hyps(1) by (simp add: cond_jump case_prod_unfold Let_def run.run_next)
  next
    case block
    then show ?thesis using run_next.prems(1) by (cases xs) auto
  next
    case straight
    then show ?thesis
      using run_next.IH [OF reach found_straight [OF straight run_next.prems(2)]] run_next.hyps(1)
      by (auto simp: split_straight intro: run.run_next)
  qed
next
  case (run_goto x s l s' rest r xs)
  obtain c j where x: "x = StmtJump l c j"
    using control_goto [OF run_goto.hyps(1)] by auto
  obtain m where m: "reachable_only rest" "found bcode m rest"
    "bcode l = Some (StmtLabel l # fst (split_body m rest))"
    using assms(2) run_goto.hyps(2) by (auto simp: matching_def)
  have "run sem bcode (StmtLabel l # fst (split_body m rest)) s' r"
    using run_goto.IH [OF m(1,2)] by (auto intro: run.run_next)
  note go = run.run_goto [OF run_goto.hyps(1) m(3) this]
  have "\<exists>ts. fst (split_body n (x # xs)) = x # ts"
    by (cases c) (auto simp: x case_prod_unfold Let_def)
  then show ?case using go by auto
next
  case (run_stop x s r xs)
  show ?case
  proof (cases x rule: stmt_kinds)
    case block
    then show ?thesis using run_stop.prems(1) by (cases xs) auto
  qed (use run_stop.hyps in \<open>auto simp: split_branch split_straight case_prod_unfold Let_def
    intro: run.run_stop\<close>)
qed

definition inside :: "(nat \<rightharpoonup> ir_stmt list) \<Rightarrow> ir_stmt list \<Rightarrow> bool" where
  "inside fcode ss \<longleftrightarrow> set (targets ss) \<subseteq> dom fcode"

definition at_point :: "(nat \<rightharpoonup> ir_stmt list) \<Rightarrow> nat \<Rightarrow> ir_stmt list \<Rightarrow> ir_stmt list \<Rightarrow> bool" where
  "at_point bcode n ss t \<longleftrightarrow> t = fst (split_body n ss) \<or> (\<exists>l. t = StmtLabel l # fst (split_body n ss)) \<or>
     (\<exists>l. t = [StmtJump l None False] \<and> bcode l = Some (StmtLabel l # fst (split_body n ss)))"

lemma at_pointI [intro]:
  "at_point bcode n ss (fst (split_body n ss))"
  "at_point bcode n ss (StmtLabel l # fst (split_body n ss))"
  "bcode l = Some (StmtLabel l # fst (split_body n ss)) \<Longrightarrow> at_point bcode n ss [StmtJump l None False]"
  by (auto simp: at_point_def)

lemma at_pointE [elim]:
  assumes "at_point bcode n ss t"
  obtains (here) "t = fst (split_body n ss)"
  | (label) l where "t = StmtLabel l # fst (split_body n ss)"
  | (jump) l where "t = [StmtJump l None False]" "bcode l = Some (StmtLabel l # fst (split_body n ss))"
  using assms by (auto simp: at_point_def)

lemma split_nil: "fst (split_body n ss) = [] \<Longrightarrow> ss = []"
  by (cases "(n, ss)" rule: split_body.cases) (auto simp: case_prod_unfold Let_def split: if_splits)

lemma split_cons:
  assumes "x # xs = fst (split_body n ss)"
  obtains s ss' where "ss = s # ss'"
  using assms by (cases ss) auto

lemma inside_tail: "inside fcode (x # xs) \<Longrightarrow> inside fcode xs"
  by (cases x) (auto simp: inside_def)

lemma straight_control:
  "straight x \<Longrightarrow> control_of sem x s = (case exec sem x s of None \<Rightarrow> Stop Failed | Some s' \<Rightarrow> Next s')"
  by (cases x) (auto simp: control_of_def straight_def is_control_def is_label_def is_block_def)

definition closed_code :: "(nat \<rightharpoonup> ir_stmt list) \<Rightarrow> bool" where
  "closed_code fcode \<longleftrightarrow> (\<forall>l rest. fcode l = Some rest \<longrightarrow> inside fcode rest)"

lemma run_backward:
  assumes "run sem bcode t s r" "matching fcode bcode" "closed_code fcode"
  assumes "at_point bcode n ss t" "reachable_only ss" "found bcode n ss" "inside fcode ss"
  shows "run sem fcode ss s r"
  using assms(1,4-)
proof (induction arbitrary: n ss)
  case (run_end s)
  then have "ss = []" by (auto simp: at_point_def dest!: split_nil [OF sym])
  then show ?case by (simp add: run.run_end)
next
  case (run_next x s s' t r)
  show ?case
    using run_next.prems(1)
  proof (cases rule: at_pointE)
    case here
    then obtain y ys where ss: "ss = y # ys" by (rule split_cons)
    note reach = reachable_tail [OF run_next.prems(2) [unfolded ss]]
    note inner = inside_tail [OF run_next.prems(4) [unfolded ss]]
    show ?thesis
    proof (cases y rule: stmt_kinds)
      case (label l)
      then show ?thesis using here run_next.hyps by (auto simp: ss case_prod_unfold Let_def)
    next
      case branch
      then show ?thesis using here run_next.hyps by (auto simp: ss split_branch branch_not_next)
    next
      case (cond_jump l c j)
      have f: "bcode n = Some (StmtLabel n # fst (split_body (Suc n) ys))" "found bcode (Suc n) ys"
        using found_cond_jump run_next.prems(3) cond_jump ss by auto
      have t: "x = y" "t = [StmtJump n None False]"
        using here by (auto simp: ss cond_jump case_prod_unfold Let_def)
      have "at_point bcode (Suc n) ys t"
        unfolding t by (intro at_pointI f)
      then show ?thesis
        using run_next.IH [OF _ reach f(2) inner] run_next.hyps(1) by (simp add: ss t run.run_next)
    next
      case block
      then show ?thesis using run_next.prems(2) ss by (cases ys) auto
    next
      case straight
      then have t: "x = y" "t = fst (split_body n ys)"
        using here by (auto simp: ss split_straight)
      have "found bcode n ys"
        using found_straight [OF straight] run_next.prems(3) ss by auto
      moreover have "at_point bcode n ys t" unfolding t by (rule at_pointI(1))
      ultimately show ?thesis
        using run_next.IH [OF _ reach _ inner] run_next.hyps(1) by (simp add: ss t run.run_next)
    qed
  next
    case (label l)
    then have "s' = s" "at_point bcode n ss t"
      using run_next.hyps(1) by auto
    then show ?thesis using run_next.IH run_next.prems by auto
  next
    case (jump l)
    then show ?thesis using run_next.hyps by auto
  qed
next
  case (run_goto x s l s' b r t)
  obtain c j where x: "x = StmtJump l c j"
    using control_goto [OF run_goto.hyps(1)] by auto
  show ?case
    using run_goto.prems(1)
  proof (cases rule: at_pointE)
    case here
    then obtain y ys where ss: "ss = y # ys" by (rule split_cons)
    note reach = reachable_tail [OF run_goto.prems(2) [unfolded ss]]
    note inner = inside_tail [OF run_goto.prems(4) [unfolded ss]]
    show ?thesis
    proof (cases "is_label y")
      case True
      then obtain l' where y: "y = StmtLabel l'" using split_next_label by auto
      then have l: "l' = l" "c = None"
        using here by (auto simp: ss x case_prod_unfold Let_def)
      have f: "bcode l = Some (StmtLabel l # fst (split_body n ys))" "found bcode n ys"
        using found_label run_goto.prems(3) ss y l by auto
      then have "at_point bcode n ys b" using run_goto.hyps(2) by auto
      then have "run sem fcode ys s' r"
        using run_goto.IH reach f(2) inner by blast
      then show ?thesis
        using run_goto.hyps(1) by (auto simp: ss y x l intro: run.run_next)
    next
      case False
      have y: "x = y"
      proof (cases y rule: stmt_kinds)
        case (label l')
        then show ?thesis using False by (simp add: is_label_def)
      next
        case block
        then show ?thesis using run_goto.prems(2) ss by (cases ys) auto
      qed (use here in \<open>auto simp: ss split_branch split_straight case_prod_unfold Let_def\<close>)
      have "l \<in> set (targets ss)" by (simp add: ss x y [symmetric])
      then obtain rest where rest: "fcode l = Some rest"
        using run_goto.prems(4) by (auto simp: inside_def)
      then obtain m where m: "reachable_only rest" "found bcode m rest"
        "bcode l = Some (StmtLabel l # fst (split_body m rest))"
        using assms(2) by (auto simp: matching_def)
      have "at_point bcode m rest b"
        using m(3) run_goto.hyps(2) by auto
      moreover have "inside fcode rest"
        using assms(3) rest by (simp add: closed_code_def)
      ultimately have "run sem fcode rest s' r"
        using run_goto.IH m(1,2) by blast
      then show ?thesis
        using run_goto.hyps(1) rest unfolding ss y [symmetric] by (intro run.run_goto)
    qed
  next
    case (label l)
    then show ?thesis using x by simp
  next
    case (jump l')
    then have l: "l' = l" "c = None" using x by auto
    have "at_point bcode n ss b"
      using jump(2) l run_goto.hyps(2) by auto
    moreover have "s' = s" using run_goto.hyps(1) by (simp add: x l)
    ultimately show ?thesis
      using run_goto.IH run_goto.prems by blast
  qed
next
  case (run_stop x s r t)
  show ?case
    using run_stop.prems(1)
  proof (cases rule: at_pointE)
    case here
    then obtain y ys where ss: "ss = y # ys" by (rule split_cons)
    have "x = y"
    proof (cases y rule: stmt_kinds)
      case (label l')
      then show ?thesis using here run_stop.hyps by (auto simp: ss case_prod_unfold Let_def)
    next
      case block
      then show ?thesis using run_stop.prems(2) ss by (cases ys) auto
    qed (use here in \<open>auto simp: ss split_branch split_straight case_prod_unfold Let_def\<close>)
    then show ?thesis using run_stop.hyps by (auto simp: ss intro: run.run_stop)
  qed (use run_stop.hyps in auto)
qed

section \<open>The result of the pass\<close>

lemma block_rest_straight: "straight x \<Longrightarrow> ys \<noteq> [] \<Longrightarrow> block_rest (x # ys) = block_rest ys"
  by (cases ys) (auto simp: is_conditional_jump_def straight_def)

lemma split_basic_blocks:
  "reachable_only ss \<Longrightarrow> ss \<noteq> [] \<Longrightarrow> IsUnconditionalBranch (last ss) \<Longrightarrow>
   block_rest (fst (split_body n ss)) \<and> (\<forall>b \<in> set (snd (split_body n ss)). basic_block b)"
proof (induction ss arbitrary: n)
  case (Cons s ss)
  show ?case
  proof (cases "ss = []")
    case True
    then have s: "IsUnconditionalBranch s" using Cons.prems by simp
    then show ?thesis by (simp add: True split_branch)
  next
    case False
    note IH = Cons.IH [OF reachable_tail [OF Cons.prems(1)] False]
    have last: "IsUnconditionalBranch (last ss)" using Cons.prems(3) False by simp
    show ?thesis
    proof (cases s rule: stmt_kinds)
      case (label l)
      then show ?thesis
        using IH [OF last, of n] by (auto simp: case_prod_unfold Let_def basic_block_def is_label_def)
    next
      case branch
      then show ?thesis using IH [OF last, of n] by (simp add: split_branch)
    next
      case (cond_jump l c j)
      then show ?thesis
        using IH [OF last, of "Suc n"]
        by (auto simp: case_prod_unfold Let_def basic_block_def is_label_def
            is_conditional_jump_def is_control_def)
    next
      case block
      then show ?thesis using Cons.prems(1) False by (cases ss) auto
    next
      case straight
      have "fst (split_body n ss) \<noteq> []" using split_nil [of n ss] False by auto
      then show ?thesis
        using IH [OF last, of n] straight by (simp add: split_straight block_rest_straight)
    qed
  qed
qed simp

lemma flat_code_labels: "flat_code ss l = None \<longleftrightarrow> l \<notin> set (labels ss)"
proof (induction ss)
  case (Cons x ss)
  then show ?case by (cases x) auto
qed simp

lemma flat_code_targets: "flat_code ss l = Some rest \<Longrightarrow> set (targets rest) \<subseteq> set (targets ss)"
proof (induction ss)
  case (Cons x ss)
  then show ?case by (cases x) (auto split: if_splits)
qed simp

theorem blocks_run_alike:
  assumes "reachable_only ss" "distinct (labels ss)" "\<forall>l \<in> set (labels ss). l < n"
    "set (targets ss) \<subseteq> set (labels ss)"
  shows "\<exists>p. bb_Process n ss = Inr p \<and> (run_flat sem ss s r \<longleftrightarrow> run_blocks sem p s r) \<and>
    (ss \<noteq> [] \<and> IsUnconditionalBranch (last ss) \<longrightarrow>
      block_rest (hd (fst p)) \<and> (\<forall>b \<in> set (tl (fst p)). basic_block b))"
proof -
  let ?bs = "snd (split_body n ss)"
  let ?m = "note_labels 1 ?bs Map.empty"
  let ?bcode = "block_code (bb_blocks n ss) ?m"
  have "distinct (map head_label ?bs)"
    using split_heads [OF assms(1,3,2)] by simp
  then have found: "found ?bcode n ss"
    using block_code_iff by (auto simp: found_def bb_blocks_def)
  have match: "matching (flat_code ss) ?bcode"
    by (rule matching_flat [OF assms(1) found])
  have dom: "dom (flat_code ss) = set (labels ss)"
    using flat_code_labels [of ss] by (force simp: dom_def)
  have closed: "closed_code (flat_code ss)"
    using flat_code_targets [of ss] assms(4) by (fastforce simp: closed_code_def inside_def dom)
  have "inside (flat_code ss) ss"
    using assms(4) by (simp add: inside_def dom)
  then have "run_flat sem ss s r \<longleftrightarrow> run_blocks sem (bb_blocks n ss, ?m) s r"
    using run_forward [OF _ match assms(1) found] assms(1) found
      run_backward [OF _ match closed at_pointI(1)]
    by (auto simp: run_flat_def run_blocks_def bb_blocks_def)
  then show ?thesis
    using bb_Process_split [OF assms(1), of n] split_basic_blocks [OF assms(1), of n]
    by (simp add: bb_blocks_def)
qed

text \<open>
  C29: On a body that the clean-up leaves, without nested blocks or dead code and with every jump going to a label
  of its own, the basic block pass returns blocks that behave like the body, whatever the statements do: they
  end in the same states, by the same returned expression or error.  When the body ends in a branch, every
  block is a basic block: a label (except in the first), straight-line statements and one unconditional branch,
  which only a conditional jump may stand before.
\<close>

theorem basic_blocks_equivalent:
  assumes "reachable_only ss" "distinct (labels ss)" "\<forall>l \<in> set (labels ss). l < n"
    "set (targets ss) \<subseteq> set (labels ss)"
  shows "\<exists>p. bb_Process n ss = Inr p \<and> (run_flat sem ss s r \<longleftrightarrow> run_blocks sem p s r) \<and>
    (ss \<noteq> [] \<and> IsUnconditionalBranch (last ss) \<longrightarrow>
      block_rest (hd (fst p)) \<and> (\<forall>b \<in> set (tl (fst p)). basic_block b))"
  by (rule blocks_run_alike [OF assms])

definition counting_loop :: "ir_stmt list" where
  "counting_loop =
     [StmtLabel 0, StmtJump 1 (Some ExprLoadReceiver) True, StmtEvalAndIgnore ExprLoadReceiver,
      StmtJump 0 None False, StmtLabel 1, StmtReturn ExprLoadReceiver]"

definition counting :: "nat ir_sem" where
  "counting = \<lparr>exec = (\<lambda>_ s. Some (Suc s)), cond = (\<lambda>_ s. Some (s < 2, s))\<rparr>"

lemma run_Cons_iff:
  "run sem code (x # xs) s r \<longleftrightarrow>
     (case control_of sem x s of
        Next s' \<Rightarrow> run sem code xs s' r
      | Goto l s' \<Rightarrow> (case code l of None \<Rightarrow> False | Some rest \<Rightarrow> run sem code rest s' r)
      | Stop r' \<Rightarrow> r = r')"
  by (auto intro: run.intros elim!: run_ConsE split: control.splits option.splits)

lemma counting_run: "run_flat counting counting_loop 0 (Returned ExprLoadReceiver 2)"
  by (simp add: run_flat_def counting_loop_def counting_def run_Cons_iff control_of_def)

theorem basic_blocks_equivalent_witness:
  "\<exists>p. bb_Process 2 counting_loop = Inr p \<and> length (fst p) = 4 \<and>
     run_blocks counting p 0 (Returned ExprLoadReceiver 2)"
proof -
  have "reachable_only counting_loop" "distinct (labels counting_loop)"
    "\<forall>l \<in> set (labels counting_loop). l < 2"
    "set (targets counting_loop) \<subseteq> set (labels counting_loop)"
    by (simp_all add: counting_loop_def is_block_def is_label_def)
  from basic_blocks_equivalent [OF this, of counting 0 "Returned ExprLoadReceiver 2"]
  obtain p where p: "bb_Process 2 counting_loop = Inr p"
    "run_blocks counting p 0 (Returned ExprLoadReceiver 2)"
    using counting_run by auto
  have "case bb_Process 2 counting_loop of Inl _ \<Rightarrow> False | Inr p \<Rightarrow> length (fst p) = 4"
    by code_simp
  then show ?thesis using p by auto
qed

end
