(* ===== verification/Ir_Cleanup_Proofs.thy ===== *)
theory Ir_Cleanup_Proofs
  imports Ir_Cleanup Basic_Blocks_Proofs
begin

text \<open>
  What the clean-up pass leaves: a flat body of simple statements without dead code, whose labels
  and calls stand in the order in which they were evaluated, which the basic block pass accepts.  It
  does not keep the order of loads and calls.
\<close>

section \<open>Simple statements\<close>

definition simple_expr :: "ir_expr \<Rightarrow> bool" where
  "simple_expr e \<longleftrightarrow>
     (case e of ExprFuncCall _ _ _ _ \<Rightarrow> False | ExprRunStatements _ _ \<Rightarrow> False | _ \<Rightarrow> True)"

definition root_expr :: "ir_expr \<Rightarrow> bool" where
  "root_expr e \<longleftrightarrow> (case e of
     ExprFuncCall _ _ receiver args \<Rightarrow>
       (case receiver of None \<Rightarrow> True | Some r \<Rightarrow> simple_expr r) \<and> list_all simple_expr args
   | _ \<Rightarrow> simple_expr e)"

definition flat_stmt :: "ir_stmt \<Rightarrow> bool" where
  "flat_stmt s \<longleftrightarrow> (case s of
     StmtAssign _ e \<Rightarrow> root_expr e
   | StmtEvalAndIgnore e \<Rightarrow> root_expr e
   | StmtFieldAssign _ _ e \<Rightarrow> simple_expr e
   | StmtReturn e \<Rightarrow> simple_expr e
   | StmtJump _ c _ \<Rightarrow> (case c of None \<Rightarrow> True | Some e \<Rightarrow> simple_expr e)
   | StmtBlock _ \<Rightarrow> False
   | _ \<Rightarrow> True)"

lemma substitute_simple: "substitute False e st = (e', st') \<Longrightarrow> simple_expr e'"
  by (auto simp: substitute_def SubstituteExprRunStatements_def SubstituteExprFuncCall_def
      simple_expr_def Let_def split: ir_expr.splits)

lemma substitute_cases:
  assumes "substitute True e st = (e', st')"
  shows "simple_expr e' \<or> is_call e'"
  using assms
  by (auto simp: substitute_def SubstituteExprRunStatements_def SubstituteExprFuncCall_def
      simple_expr_def is_call_def Let_def split: ir_expr.splits)

lemma visit_args_simple: "visit_args as st = (as', st') \<Longrightarrow> list_all simple_expr as'"
  by (induction as arbitrary: as' st st') (auto simp: Let_def split: prod.splits dest: substitute_simple)

lemma visit_option_simple:
  "visit_option (substitute False) e st = (e', st') \<Longrightarrow>
   case e' of None \<Rightarrow> True | Some e \<Rightarrow> simple_expr e"
  by (auto simp: visit_option_def split: option.splits prod.splits dest: substitute_simple)

lemma simple_root: "simple_expr e \<Longrightarrow> root_expr e"
  by (auto simp: root_expr_def simple_expr_def split: ir_expr.splits)

lemma visit_simple: "visit_expr False e st = substitute False e st"
proof (cases "substitute False e st")
  case (Pair e' st')
  then show ?thesis
    using substitute_simple [OF Pair]
    by (auto simp: visit_expr_def simple_expr_def split: ir_expr.splits)
qed

lemma visit_root:
  assumes "visit_expr True e st = (e', st')"
  shows "root_expr e'"
proof -
  obtain e1 st1 where e1: "substitute True e st = (e1, st1)" by fastforce
  show ?thesis
  proof (cases "is_call e1")
    case True
    then obtain n sig r as where e: "e1 = ExprFuncCall n sig r as"
      by (auto simp: is_call_def split: ir_expr.splits)
    obtain r2 st2 where r: "visit_option (substitute False) r st1 = (r2, st2)" by fastforce
    obtain as3 st3 where as: "visit_args as st2 = (as3, st3)" by fastforce
    show ?thesis
      using assms visit_args_simple [OF as] visit_option_simple [OF r]
      by (auto simp: visit_expr_def e1 e r as root_expr_def)
  next
    case False
    then have "simple_expr e1" using substitute_cases [OF e1] by simp
    then show ?thesis
      using assms False simple_root
      by (auto simp: visit_expr_def e1 is_call_def split: ir_expr.splits)
  qed
qed

lemma visit_stmt_flat:
  assumes "visit_stmt captured s st = (s', st')" "\<not> is_block s"
  shows "flat_stmt s'"
  using assms
  by (cases s) (auto simp: visit_stmt_def flat_stmt_def is_block_def visit_simple visit_option_def
      split: prod.splits option.splits dest!: visit_root substitute_simple)

lemma keep_stmt_flat:
  "keep_stmt s st = (kept, st') \<Longrightarrow> flat_stmt s \<Longrightarrow> list_all flat_stmt kept"
  by (auto simp: keep_stmt_def split: ir_stmt.splits if_splits)

text \<open>One round of the loop, for a statement that is not a block.\<close>

lemma clean_loop_stmt:
  assumes "\<not> is_block s"
  shows "clean_loop captured (s # rest) visited st =
    (let (s', st') = visit_stmt captured s (st\<lparr>inserted := []\<rparr>) in
     if inserted st' \<noteq> [] then clean_loop captured (inserted st' @ s' # rest) visited st'
     else let (kept, st'') = keep_stmt s' st' in clean_loop captured rest (visited @ kept) st'')"
  using assms by (cases s) (simp_all add: is_block_def)

lemma clean_loop_block:
  "clean_loop captured (StmtBlock nested # rest) visited st = clean_loop captured (nested @ rest) visited st"
  by simp

declare clean_loop.simps(2) [simp del]

lemma clean_loop_induct [case_names Nil Block Insert Keep]:
  assumes "\<And>visited st. P [] visited st"
  assumes "\<And>nested rest visited st. P (nested @ rest) visited st \<Longrightarrow>
    P (StmtBlock nested # rest) visited st"
  assumes "\<And>s rest visited st s' st'. \<not> is_block s \<Longrightarrow>
    visit_stmt captured s (st\<lparr>inserted := []\<rparr>) = (s', st') \<Longrightarrow> inserted st' \<noteq> [] \<Longrightarrow>
    P (inserted st' @ s' # rest) visited st' \<Longrightarrow> P (s # rest) visited st"
  assumes "\<And>s rest visited st s' st' kept st''. \<not> is_block s \<Longrightarrow>
    visit_stmt captured s (st\<lparr>inserted := []\<rparr>) = (s', st') \<Longrightarrow> inserted st' = [] \<Longrightarrow>
    keep_stmt s' st' = (kept, st'') \<Longrightarrow> P rest (visited @ kept) st'' \<Longrightarrow> P (s # rest) visited st"
  shows "P ss visited st"
proof (induction "rest_weight ss" arbitrary: ss visited st rule: less_induct)
  case (less ss visited st)
  show ?case
  proof (cases ss)
    case Nil
    then show ?thesis using assms(1) by simp
  next
    case (Cons s rest)
    show ?thesis
    proof (cases "is_block s")
      case True
      then obtain nested where s: "s = StmtBlock nested"
        by (auto simp: is_block_def split: ir_stmt.splits)
      show ?thesis
        unfolding Cons s
        by (rule assms(2), rule less) (simp add: Cons s block_weight del: stmt_weight.simps)
    next
      case False
      obtain s' st' where v: "visit_stmt captured s (st\<lparr>inserted := []\<rparr>) = (s', st')" by fastforce
      show ?thesis
      proof (cases "inserted st' = []")
        case True
        obtain kept st'' where k: "keep_stmt s' st' = (kept, st'')" by fastforce
        show ?thesis
          unfolding Cons by (rule assms(4) [OF False v True k], rule less) (simp add: Cons)
      next
        case ins: False
        show ?thesis
          unfolding Cons
          by (rule assms(3) [OF False v ins], rule less)
            (use visit_stmt_shrinks [OF v ins] in \<open>simp add: Cons\<close>)
      qed
    qed
  qed
qed

lemma clean_loop_flat:
  "list_all flat_stmt visited \<Longrightarrow> list_all flat_stmt (fst (clean_loop captured ss visited st))"
proof (induction ss visited st rule: clean_loop_induct [of _ captured])
  case (Keep s rest visited st s' st' kept st'')
  then have "list_all flat_stmt kept"
    using keep_stmt_flat visit_stmt_flat by blast
  then show ?case
    using Keep by (simp add: clean_loop_stmt)
qed (simp_all add: clean_loop_stmt clean_loop_block)

section \<open>The order of what a body does\<close>

text \<open>
  What a body does, in the order in which its source is evaluated: receiver, arguments, call, and the
  statements of an \<open>ExprRunStatements\<close> where it stands.  Loads are not among the events.
\<close>

datatype event =
    Ev_call nat
  | Ev_assign var_decl
  | Ev_field nat
  | Ev_label nat
  | Ev_jump nat
  | Ev_return
  | Ev_module string
  | Ev_relocate "nat list"
  | Ev_class nat var_decl

fun expr_events :: "ir_expr \<Rightarrow> event list" and stmt_events :: "ir_stmt \<Rightarrow> event list" where
  "expr_events (ExprFuncCall n _ receiver args) =
     (case receiver of None \<Rightarrow> [] | Some r \<Rightarrow> expr_events r) @ concat (map expr_events args) @ [Ev_call n]"
| "expr_events (ExprRunStatements s _) = stmt_events s"
| "expr_events _ = []"
| "stmt_events (StmtAssign v e) = expr_events e @ [Ev_assign v]"
| "stmt_events (StmtFieldAssign _ f e) = expr_events e @ [Ev_field f]"
| "stmt_events (StmtEvalAndIgnore e) = expr_events e"
| "stmt_events (StmtBlock ss) = concat (map stmt_events ss)"
| "stmt_events (StmtLabel l) = [Ev_label l]"
| "stmt_events (StmtJump t c _) = (case c of None \<Rightarrow> [] | Some e \<Rightarrow> expr_events e) @ [Ev_jump t]"
| "stmt_events (StmtReturn e) = expr_events e @ [Ev_return]"
| "stmt_events (StmtLoadModule m _) = [Ev_module m]"
| "stmt_events (StmtBeginUpvalues _ _) = []"
| "stmt_events (StmtRelocateUpvalues ns) = [Ev_relocate ns]"
| "stmt_events (StmtDefineClass c v) = [Ev_class c v]"

text \<open>The events of the source: assignments to the locals that the pass allocates do not count.\<close>

definition source_event :: "nat \<Rightarrow> event \<Rightarrow> bool" where
  "source_event n ev \<longleftrightarrow> (case ev of Ev_assign (LocalVariable v) \<Rightarrow> v < n | _ \<Rightarrow> True)"

definition body_events :: "nat \<Rightarrow> ir_stmt list \<Rightarrow> event list" where
  "body_events n ss = filter (source_event n) (concat (map stmt_events ss))"

lemma body_events_simps [simp]:
  "body_events n [] = []"
  "body_events n (s # ss) = filter (source_event n) (stmt_events s) @ body_events n ss"
  "body_events n (ss @ ts) = body_events n ss @ body_events n ts"
  by (simp_all add: body_events_def)

lemma simple_events: "simple_expr e \<Longrightarrow> expr_events e = []"
  by (cases e) (auto simp: simple_expr_def)

text \<open>Operands leave their events in the statements that go before.\<close>

abbreviation args_events :: "nat \<Rightarrow> ir_expr list \<Rightarrow> event list" where
  "args_events n as \<equiv> filter (source_event n) (concat (map expr_events as))"

lemma substitute_events:
  assumes "substitute False e st = (e', st')" "n \<le> next_local st"
  shows "body_events n (inserted st') =
      body_events n (inserted st) @ filter (source_event n) (expr_events e) \<and> n \<le> next_local st'"
  using assms
  by (cases e) (auto simp: substitute_def SubstituteExprRunStatements_def SubstituteExprFuncCall_def
      insert_before_def Let_def source_event_def)

lemma visit_args_events:
  "visit_args as st = (as', st') \<Longrightarrow> n \<le> next_local st \<Longrightarrow>
   body_events n (inserted st') = body_events n (inserted st) @ args_events n as \<and>
   n \<le> next_local st'"
proof (induction as arbitrary: as' st st')
  case (Cons a as)
  obtain b st1 where b: "substitute False a st = (b, st1)" by fastforce
  obtain bs st2 where bs: "visit_args as st1 = (bs, st2)" by fastforce
  show ?case
    using Cons.prems Cons.IH [OF bs] substitute_events [OF b] by (auto simp: b bs)
qed simp

lemma visit_option_events:
  assumes "visit_option (substitute False) e st = (e', st')" "n \<le> next_local st"
  shows "body_events n (inserted st') = body_events n (inserted st) @
      filter (source_event n) (case e of None \<Rightarrow> [] | Some e \<Rightarrow> expr_events e) \<and> n \<le> next_local st'"
  using assms
  by (auto simp: visit_option_def split: option.splits prod.splits dest: substitute_events)

lemma args_no_events: "list_all simple_expr as \<Longrightarrow> concat (map expr_events as) = []"
  by (induction as) (auto simp: simple_events)

lemma visit_root_events:
  assumes "visit_expr True e st = (e', st')" "n \<le> next_local st"
  shows "body_events n (inserted st') @ filter (source_event n) (expr_events e') =
      body_events n (inserted st) @ filter (source_event n) (expr_events e) \<and> n \<le> next_local st'"
proof (cases "is_call e")
  case True
  then obtain k sig r as where e: "e = ExprFuncCall k sig r as"
    by (auto simp: is_call_def split: ir_expr.splits)
  obtain r2 st2 where r: "visit_option (substitute False) r st = (r2, st2)" by fastforce
  obtain as3 st3 where as: "visit_args as st2 = (as3, st3)" by fastforce
  have res: "e' = ExprFuncCall k sig r2 as3" "st' = st3"
    using assms(1)
    by (auto simp: e visit_expr_def substitute_def SubstituteExprFuncCall_def r as)
  have "(case r2 of None \<Rightarrow> [] | Some e \<Rightarrow> expr_events e) = []"
    using visit_option_simple [OF r] by (auto simp: simple_events split: option.splits)
  then show ?thesis
    using visit_option_events [OF r assms(2)] visit_args_events [OF as]
      args_no_events [OF visit_args_simple [OF as]]
    by (simp add: res e)
next
  case False
  then show ?thesis
    using assms
    by (cases e) (auto simp: visit_expr_def substitute_def SubstituteExprRunStatements_def
        insert_before_def is_call_def)
qed

lemma visit_stmt_events:
  assumes "visit_stmt captured s st = (s', st')" "n \<le> next_local st" "\<not> is_block s"
  shows "body_events n (inserted st') @ filter (source_event n) (stmt_events s') =
      body_events n (inserted st) @ filter (source_event n) (stmt_events s) \<and> n \<le> next_local st'"
proof -
  have sub: "body_events n (inserted st') @ filter (source_event n) (expr_events e') =
      body_events n (inserted st) @ filter (source_event n) (expr_events e) \<and> n \<le> next_local st'"
    if "substitute False e st = (e', st')" "n \<le> next_local st" for e e' st st'
    using substitute_events [OF that] simple_events [OF substitute_simple [OF that(1)]] by simp
  show ?thesis
  proof (cases s)
    case (StmtJump t c j)
    have "inserted (use_label t st) = inserted st" "next_local (use_label t st) = next_local st"
      by (simp_all add: use_label_def)
    then show ?thesis
      using assms sub [of "the c" "use_label t st"]
      by (auto simp: StmtJump visit_stmt_def visit_simple visit_option_def
          split: prod.splits option.splits)
  next
    case (StmtAssign v e)
    obtain e' st1 where e: "visit_expr True e st = (e', st1)" by fastforce
    show ?thesis
      using assms visit_root_events [OF e assms(2)]
      by (auto simp: StmtAssign visit_stmt_def e simp flip: append_assoc)
  next
    case (StmtEvalAndIgnore e)
    obtain e' st1 where e: "visit_expr True e st = (e', st1)" by fastforce
    show ?thesis
      using assms visit_root_events [OF e assms(2)]
      by (auto simp: StmtEvalAndIgnore visit_stmt_def e)
  next
    case (StmtFieldAssign t f e)
    obtain e' st1 where e: "substitute False e st = (e', st1)" by fastforce
    show ?thesis
      using assms sub [OF e assms(2)]
      by (auto simp: StmtFieldAssign visit_stmt_def e visit_simple simp flip: append_assoc)
  next
    case (StmtReturn e)
    obtain e' st1 where e: "substitute False e st = (e', st1)" by fastforce
    show ?thesis
      using assms sub [OF e assms(2)]
      by (auto simp: StmtReturn visit_stmt_def e visit_simple simp flip: append_assoc)
  qed (use assms in \<open>auto simp: visit_stmt_def is_block_def VisitStmtLabel_def
      VisitStmtBeginUpvalues_def\<close>)
qed

lemma keep_stmt_events:
  assumes "keep_stmt s st = (kept, st')"
  shows "body_events n kept = filter (source_event n) (stmt_events s) \<and> next_local st' = next_local st"
proof -
  have "expr_events e = []" if "IsPure e" for e
    using that by (cases e) auto
  then show ?thesis
    using assms by (auto simp: keep_stmt_def split: ir_stmt.splits if_splits)
qed

lemma clean_loop_events:
  "n \<le> next_local st \<Longrightarrow>
   body_events n (fst (clean_loop captured ss visited st)) = body_events n (visited @ ss)"
proof (induction ss visited st rule: clean_loop_induct [of _ captured])
  case (Insert s rest visited st s' st')
  have n: "n \<le> next_local (st\<lparr>inserted := []\<rparr>)" using Insert.prems by simp
  show ?case
    using Insert visit_stmt_events [OF Insert.hyps(2) n Insert.hyps(1)]
    by (simp add: clean_loop_stmt)
next
  case (Keep s rest visited st s' st' kept st'')
  have n: "n \<le> next_local (st\<lparr>inserted := []\<rparr>)" using Keep.prems by simp
  show ?case
    using Keep visit_stmt_events [OF Keep.hyps(2) n Keep.hyps(1)] keep_stmt_events [OF Keep.hyps(4), of n]
    by (simp add: clean_loop_stmt)
next
  case (Block nested rest visited st)
  then show ?case by (simp add: clean_loop_block) (simp add: body_events_def)
qed simp

section \<open>Labels, jumps and branches of the flattened body\<close>

definition event_labels :: "event list \<Rightarrow> nat list" where
  "event_labels evs = concat (map (\<lambda>ev. case ev of Ev_label l \<Rightarrow> [l] | _ \<Rightarrow> []) evs)"

definition event_jumps :: "event list \<Rightarrow> nat list" where
  "event_jumps evs = concat (map (\<lambda>ev. case ev of Ev_jump l \<Rightarrow> [l] | _ \<Rightarrow> []) evs)"

lemma event_append [simp]:
  "event_labels [] = []" "event_labels (xs @ ys) = event_labels xs @ event_labels ys"
  "event_jumps [] = []" "event_jumps (xs @ ys) = event_jumps xs @ event_jumps ys"
  by (simp_all add: event_labels_def event_jumps_def)

lemma event_single [simp]:
  "event_labels [ev] = (case ev of Ev_label l \<Rightarrow> [l] | _ \<Rightarrow> [])"
  "event_jumps [ev] = (case ev of Ev_jump l \<Rightarrow> [l] | _ \<Rightarrow> [])"
  by (simp_all add: event_labels_def event_jumps_def)

lemma filter_single: "filter P [x] = (if P x then [x] else [])"
  by simp

lemma labels_Cons: "labels (s # ss) = labels [s] @ labels ss"
  by (cases s) auto

lemma targets_Cons: "targets (s # ss) = targets [s] @ targets ss"
  by (cases s) auto

lemma root_no_events:
  assumes "root_expr e"
  shows "event_labels (filter P (expr_events e)) = []" "event_jumps (filter P (expr_events e)) = []"
proof -
  have "expr_events e = [] \<or> (\<exists>n. expr_events e = [Ev_call n])"
    using assms
    by (cases e)
      (auto simp: root_expr_def simple_expr_def args_no_events simple_events split: option.splits)
  then show "event_labels (filter P (expr_events e)) = []" "event_jumps (filter P (expr_events e)) = []"
    by auto
qed

lemma flat_stmt_events:
  assumes "flat_stmt s"
  shows "event_labels (filter (source_event n) (stmt_events s)) = labels [s] \<and>
    event_jumps (filter (source_event n) (stmt_events s)) = targets [s]"
proof (cases s)
  case (StmtJump t c j)
  then have "stmt_events s = [Ev_jump t]"
    using assms by (auto simp: flat_stmt_def simple_events split: option.splits)
  then show ?thesis by (simp add: StmtJump source_event_def)
qed (use assms in \<open>auto simp: flat_stmt_def root_no_events simple_events source_event_def\<close>)

lemma flat_events:
  "list_all flat_stmt ss \<Longrightarrow>
   event_labels (body_events n ss) = labels ss \<and> event_jumps (body_events n ss) = targets ss"
proof (induction ss)
  case (Cons s ss)
  then show ?case
    using flat_stmt_events [of s n] labels_Cons [of s ss] targets_Cons [of s ss] by simp
qed simp

lemma substitute_used: "substitute stays e st = (e', st') \<Longrightarrow> used_labels st' = used_labels st"
  by (auto simp: substitute_def SubstituteExprRunStatements_def SubstituteExprFuncCall_def
      insert_before_def Let_def split: ir_expr.splits if_splits)

lemma visit_args_used: "visit_args as st = (as', st') \<Longrightarrow> used_labels st' = used_labels st"
  by (induction as arbitrary: as' st st')
    (auto simp: Let_def split: prod.splits dest!: substitute_used)

lemma visit_expr_used:
  assumes "visit_expr stays e st = (e', st')"
  shows "used_labels st' = used_labels st"
  using assms
  by (auto simp: visit_expr_def visit_option_def split: prod.splits ir_expr.splits option.splits
      dest!: substitute_used visit_args_used)

lemma visit_stmt_used:
  assumes "visit_stmt captured s st = (s', st')" "\<not> is_block s"
  shows "set (used_labels st) \<union> set (targets [s']) \<subseteq> set (used_labels st')"
  using assms
  by (cases s) (auto simp: visit_stmt_def is_block_def use_label_def VisitStmtLabel_def visit_option_def
      VisitStmtBeginUpvalues_def split: prod.splits option.splits dest!: visit_expr_used)

lemma keep_stmt_used:
  "keep_stmt s st = (kept, st') \<Longrightarrow> used_labels st' = used_labels st \<and>
     set (targets kept) \<subseteq> set (targets [s])"
  by (auto simp: keep_stmt_def split: ir_stmt.splits if_splits)

lemma targets_append [simp]: "targets (xs @ ys) = targets xs @ targets ys"
  by (induction xs rule: targets.induct) auto

lemma clean_loop_used:
  "set (targets visited) \<subseteq> set (used_labels st) \<Longrightarrow>
   case clean_loop captured ss visited st of (ss', st') \<Rightarrow> set (targets ss') \<subseteq> set (used_labels st')"
proof (induction ss visited st rule: clean_loop_induct [of _ captured])
  case (Insert s rest visited st s' st')
  have "set (targets visited) \<subseteq> set (used_labels st')"
    using visit_stmt_used [OF Insert.hyps(2,1)] Insert.prems by auto
  then show ?case
    using Insert.IH Insert.hyps by (simp add: clean_loop_stmt)
next
  case (Keep s rest visited st s' st' kept st'')
  have "set (targets (visited @ kept)) \<subseteq> set (used_labels st'')"
    using visit_stmt_used [OF Keep.hyps(2,1)] keep_stmt_used [OF Keep.hyps(4)] Keep.prems by auto
  then show ?case
    using Keep.IH Keep.hyps by (simp add: clean_loop_stmt)
qed (auto simp: clean_loop_block)

definition ends_in_return :: "ir_stmt list \<Rightarrow> bool" where
  "ends_in_return ss \<longleftrightarrow> ss \<noteq> [] \<and> (\<exists>e. last ss = StmtReturn e)"

lemma clean_loop_last:
  "ends_in_return ss \<or> (ss = [] \<and> ends_in_return visited) \<Longrightarrow>
   ends_in_return (fst (clean_loop captured ss visited st))"
proof (induction ss visited st rule: clean_loop_induct [of _ captured])
  case (Block nested rest visited st)
  then show ?case by (auto simp: clean_loop_block ends_in_return_def split: if_splits)
next
  case (Insert s rest visited st s' st')
  have "ends_in_return (inserted st' @ s' # rest)"
  proof (cases rest)
    case Nil
    then obtain e where "s = StmtReturn e" using Insert.prems by (auto simp: ends_in_return_def)
    then show ?thesis
      using Insert.hyps(2) Nil by (auto simp: ends_in_return_def visit_stmt_def split: prod.splits)
  qed (use Insert.prems in \<open>auto simp: ends_in_return_def\<close>)
  then show ?case using Insert by (simp add: clean_loop_stmt)
next
  case (Keep s rest visited st s' st' kept st'')
  have "ends_in_return rest \<or> rest = [] \<and> ends_in_return (visited @ kept)"
  proof (cases rest)
    case Nil
    then obtain e where "s = StmtReturn e" using Keep.prems by (auto simp: ends_in_return_def)
    then have "ends_in_return kept"
      using Keep.hyps(2,4)
      by (auto simp: ends_in_return_def visit_stmt_def keep_stmt_def split: prod.splits)
    then show ?thesis using Nil by (auto simp: ends_in_return_def)
  qed (use Keep.prems in \<open>auto simp: ends_in_return_def\<close>)
  then show ?case using Keep by (simp add: clean_loop_stmt)
qed (simp add: ends_in_return_def)

section \<open>Erasing what is never reached\<close>

lemma flat_code_dropWhile: "flat_code (dropWhile (\<lambda>s. \<not> is_label s) ss) l = flat_code ss l"
  by (induction ss) (auto simp: is_label_def)

lemma labels_dropWhile: "labels (dropWhile (\<lambda>s. \<not> is_label s) ss) = labels ss"
  by (induction ss) (auto simp: labels_other)

lemma labels_remove_dead: "labels (remove_dead ss) = labels ss"
proof (induction ss rule: remove_dead.induct)
  case (2 s rest)
  then show ?case
    using labels_Cons [of s "remove_dead rest"] labels_Cons [of s rest]
      labels_Cons [of s "remove_dead (dropWhile (\<lambda>s. \<not> is_label s) rest)"]
    by (simp add: labels_dropWhile split: if_splits)
qed simp

lemma set_remove_dead: "set (remove_dead ss) \<subseteq> set ss"
proof (induction ss rule: remove_dead.induct)
  case (2 s rest)
  then show ?case by (auto split: if_splits dest: set_dropWhileD)
qed simp

lemma targets_set: "set (targets ss) = {l. \<exists>c j. StmtJump l c j \<in> set ss}"
proof (induction ss)
  case (Cons s ss)
  then show ?case by (cases s) auto
qed simp

lemma labels_set: "set (labels ss) = {l. StmtLabel l \<in> set ss}"
proof (induction ss)
  case (Cons s ss)
  then show ?case by (cases s) auto
qed simp

lemma flat_code_remove_dead: "flat_code (remove_dead ss) l = map_option remove_dead (flat_code ss l)"
  by (induction ss rule: remove_dead.induct) (auto simp: flat_code_dropWhile)

lemma remove_dead_Cons:
  "control_of sem x s = Next s' \<Longrightarrow> remove_dead (x # xs) = x # remove_dead xs"
  by (cases "IsUnconditionalBranch x") (simp_all add: branch_not_next)

lemma run_remove_dead_forward:
  assumes "run sem (flat_code ss0) ss s r"
  shows "run sem (flat_code (remove_dead ss0)) (remove_dead ss) s r"
  using assms
proof induction
  case (run_next x s s' rest r)
  then show ?case
    unfolding remove_dead_Cons [OF run_next.hyps(1)] by (intro run.run_next)
next
  case (run_goto x s l s' rest' r rest)
  then show ?case
    by (auto simp: flat_code_remove_dead intro!: run.run_goto [of sem x s l s'])
qed (auto intro: run.intros)

lemma remove_dead_conv:
  "remove_dead ss = [] \<longleftrightarrow> ss = []"
  "remove_dead ss = x # xs \<longleftrightarrow> (\<exists>rest. ss = x # rest \<and>
     xs = remove_dead (if IsUnconditionalBranch x then dropWhile (\<lambda>s. \<not> is_label s) rest else rest))"
  by (cases ss; auto)+

lemma run_remove_dead_backward:
  assumes "run sem (flat_code (remove_dead ss0)) t s r" "t = remove_dead ss"
  shows "run sem (flat_code ss0) ss s r"
  using assms
proof (induction arbitrary: ss)
  case (run_end s)
  then have "ss = []" using remove_dead_conv(1) [of ss] by simp
  then show ?case by (simp add: run.run_end)
next
  case (run_next x s s' rest r)
  then obtain ys where ys: "ss = x # ys" by (cases ss) auto
  then have "rest = remove_dead ys"
    using run_next.prems remove_dead_Cons [OF run_next.hyps(1)] by simp
  then show ?case
    using run_next ys by (auto intro: run.run_next)
next
  case (run_goto x s l s' rest' r rest)
  then obtain ys where ys: "ss = x # ys" by (cases ss) auto
  obtain zs where zs: "flat_code ss0 l = Some zs" "rest' = remove_dead zs"
    using run_goto.hyps(2) by (auto simp: flat_code_remove_dead)
  have "run sem (flat_code ss0) zs s' r"
    using run_goto.IH zs(2) by simp
  then show ?case
    using run_goto.hyps(1) zs(1) unfolding ys by (intro run.run_goto)
next
  case (run_stop x s r rest)
  then obtain ys where ys: "ss = x # ys" by (cases ss) auto
  show ?case
    unfolding ys by (rule run.run_stop) (rule run_stop.hyps)
qed

lemma run_remove_dead: "run_flat sem (remove_dead ss) s r \<longleftrightarrow> run_flat sem ss s r"
  unfolding run_flat_def by (rule iffI)
    (erule run_remove_dead_backward [OF _ refl], erule run_remove_dead_forward)

lemma reachable_remove_dead: "list_all (\<lambda>s. \<not> is_block s) ss \<Longrightarrow> reachable_only (remove_dead ss)"
proof (induction ss rule: remove_dead.induct)
  case (2 s rest)
  let ?rest = "if IsUnconditionalBranch s then dropWhile (\<lambda>s. \<not> is_label s) rest else rest"
  have "list_all (\<lambda>s. \<not> is_block s) ?rest"
    using 2(2) by (auto simp: list_all_iff dest: set_dropWhileD)
  then have IH: "reachable_only (remove_dead ?rest)" by (rule 2)
  show ?case
  proof (cases "remove_dead ?rest")
    case Nil
    then show ?thesis using 2(2) by simp
  next
    case (Cons t ts)
    then obtain zs where zs: "?rest = t # zs"
      using remove_dead_conv(2) [of ?rest t ts] by auto
    have "IsUnconditionalBranch s \<Longrightarrow> is_label t"
      using zs hd_dropWhile [of "\<lambda>s. \<not> is_label s" rest] by force
    then show ?thesis using IH 2(2) Cons by simp
  qed
qed simp

lemma last_of_dropWhile: "dropWhile P xs \<noteq> [] \<Longrightarrow> last (dropWhile P xs) = last xs"
  by (induction xs) auto

lemma last_remove_dead:
  "ss \<noteq> [] \<Longrightarrow> IsUnconditionalBranch (last ss) \<Longrightarrow> IsUnconditionalBranch (last (remove_dead ss))"
proof (induction ss rule: remove_dead.induct)
  case (2 s rest)
  let ?rest = "if IsUnconditionalBranch s then dropWhile (\<lambda>s. \<not> is_label s) rest else rest"
  show ?case
  proof (cases "?rest = []")
    case True
    then show ?thesis using 2(3) by (auto split: if_splits)
  next
    case False
    have "last ?rest = last rest" "rest \<noteq> []"
      using False by (auto simp: last_of_dropWhile split: if_splits)
    then have "IsUnconditionalBranch (last (remove_dead ?rest))"
      using 2 False by simp
    moreover have "remove_dead ?rest \<noteq> []" using False remove_dead_conv(1) by blast
    ultimately show ?thesis by simp
  qed
qed simp

section \<open>Erasing unused labels\<close>

definition strip_labels :: "nat set \<Rightarrow> ir_stmt list \<Rightarrow> ir_stmt list" where
  "strip_labels U ss = filter (\<lambda>s. s \<notin> StmtLabel ` U) ss"

lemma strip_simps [simp]:
  "strip_labels U [] = []"
  "strip_labels U (s # ss) = (if s \<in> StmtLabel ` U then strip_labels U ss else s # strip_labels U ss)"
  by (simp_all add: strip_labels_def)

lemma flat_code_strip:
  "l \<notin> U \<Longrightarrow> flat_code (strip_labels U ss) l = map_option (strip_labels U) (flat_code ss l)"
  by (induction ss) auto

lemma run_strip_forward:
  assumes "run sem (flat_code ss0) ss s r" "set (targets ss) \<inter> U = {}" "set (targets ss0) \<inter> U = {}"
  shows "run sem (flat_code (strip_labels U ss0)) (strip_labels U ss) s r"
  using assms(1,2)
proof induction
  case (run_next x s s' rest r)
  then have "run sem (flat_code (strip_labels U ss0)) (strip_labels U rest) s' r"
    using targets_Cons [of x rest] by auto
  then show ?case
    using run_next.hyps(1) by (auto intro: run.run_next)
next
  case (run_goto x s l s' rest' r rest)
  obtain c j where x: "x = StmtJump l c j" using control_goto [OF run_goto.hyps(1)] by auto
  then have l: "l \<notin> U" using run_goto.prems by auto
  have "set (targets rest') \<inter> U = {}"
    using flat_code_targets [OF run_goto.hyps(2)] assms(3) by auto
  then have IH: "run sem (flat_code (strip_labels U ss0)) (strip_labels U rest') s' r"
    by (rule run_goto.IH)
  have "strip_labels U (x # rest) = x # strip_labels U rest"
    by (auto simp: x)
  then show ?case
    using run.run_goto [OF run_goto.hyps(1) _ IH] run_goto.hyps(2) l by (simp add: flat_code_strip)
next
  case (run_stop x s r rest)
  then have "strip_labels U (x # rest) = x # strip_labels U rest" by auto
  then show ?case using run_stop by (simp add: run.run_stop)
qed (simp add: run.run_end)

lemma strip_split:
  assumes "strip_labels U ss = x # xs"
  obtains pre ys where "ss = pre @ x # ys" "\<forall>x \<in> set pre. x \<in> StmtLabel ` U" "xs = strip_labels U ys"
  using assms by (auto simp: strip_labels_def filter_eq_Cons_iff)

lemma run_labels:
  "\<forall>x \<in> set pre. x \<in> StmtLabel ` U \<Longrightarrow> run sem code ys s r \<Longrightarrow> run sem code (pre @ ys) s r"
  by (induction pre) (auto intro: run.run_next)

lemma run_strip_backward:
  assumes "run sem (flat_code (strip_labels U ss0)) t s r" "t = strip_labels U ss"
    "set (targets ss) \<inter> U = {}" "set (targets ss0) \<inter> U = {}"
  shows "run sem (flat_code ss0) ss s r"
  using assms(1-3)
proof (induction arbitrary: ss)
  case (run_end s)
  then have "\<forall>x \<in> set ss. x \<in> StmtLabel ` U"
    by (metis (mono_tags, lifting) filter_empty_conv strip_labels_def)
  then show ?case using run_labels [of ss U sem _ "[]"] by (simp add: run.run_end)
next
  case (run_next x s s' rest r)
  obtain pre ys where ss: "ss = pre @ x # ys" "\<forall>x \<in> set pre. x \<in> StmtLabel ` U"
    "rest = strip_labels U ys"
    using run_next.prems(1) by (metis strip_split)
  have "set (targets ys) \<inter> U = {}"
    using run_next.prems(2) targets_Cons [of x ys] by (auto simp: ss)
  then have "run sem (flat_code ss0) ys s' r"
    using run_next.IH ss by blast
  then show ?case
    unfolding ss(1) using run_next.hyps(1) by (intro run_labels [OF ss(2)] run.run_next)
next
  case (run_goto x s l s' rest' r rest)
  obtain pre ys where ss: "ss = pre @ x # ys" "\<forall>x \<in> set pre. x \<in> StmtLabel ` U"
    using run_goto.prems(1) by (metis strip_split)
  obtain c j where x: "x = StmtJump l c j" using control_goto [OF run_goto.hyps(1)] by auto
  have l: "l \<notin> U" using run_goto.prems(2) by (auto simp: ss x)
  then obtain zs where zs: "flat_code ss0 l = Some zs" "rest' = strip_labels U zs"
    using run_goto.hyps(2) by (auto simp: flat_code_strip)
  have "set (targets zs) \<inter> U = {}"
    using flat_code_targets [OF zs(1)] assms(4) by auto
  then have "run sem (flat_code ss0) zs s' r"
    using run_goto.IH zs(2) by blast
  then have "run sem (flat_code ss0) (x # ys) s r"
    using run_goto.hyps(1) zs(1) by (intro run.run_goto)
  then show ?case
    unfolding ss(1) by (rule run_labels [OF ss(2)])
next
  case (run_stop x s r rest)
  obtain pre ys where ss: "ss = pre @ x # ys" "\<forall>x \<in> set pre. x \<in> StmtLabel ` U"
    using run_stop.prems(1) by (metis strip_split)
  show ?case
    unfolding ss(1) by (rule run_labels [OF ss(2)], rule run.run_stop, rule run_stop.hyps)
qed

lemma run_strip:
  assumes "set (targets ss) \<inter> U = {}"
  shows "run_flat sem (strip_labels U ss) s r \<longleftrightarrow> run_flat sem ss s r"
  unfolding run_flat_def
  by (rule iffI) (erule run_strip_backward [OF _ refl assms assms], erule run_strip_forward [OF _ assms assms])

lemma remove1_label:
  "distinct (labels ss) \<Longrightarrow> remove1 (StmtLabel l) ss = strip_labels {l} ss"
proof (induction ss)
  case (Cons s ss)
  have *: "l \<notin> set (labels ss) \<Longrightarrow> strip_labels {l} ss = ss"
    by (auto simp: labels_set strip_labels_def filter_id_conv)
  show ?case
    using Cons labels_Cons [of s ss] * by auto
qed simp

lemma labels_strip: "labels (strip_labels U ss) = filter (\<lambda>l. l \<notin> U) (labels ss)"
proof (induction ss)
  case (Cons s ss)
  then show ?case by (cases s) auto
qed simp

lemma strip_strip: "strip_labels V (strip_labels U ss) = strip_labels (U \<union> V) ss"
  by (induction ss) auto

lemma strip_none [simp]: "strip_labels {} ss = ss"
  by (induction ss) auto

lemma fold_remove1:
  "distinct (labels ss) \<Longrightarrow> fold (\<lambda>l. remove1 (StmtLabel l)) us ss = strip_labels (set us) ss"
proof (induction us arbitrary: ss)
  case Nil
  show ?case by simp
next
  case (Cons u us)
  have "distinct (labels (strip_labels {u} ss))"
    using Cons.prems by (simp add: labels_strip)
  then show ?case
    using Cons by (simp add: remove1_label strip_strip)
qed

lemma targets_strip: "targets (strip_labels U ss) = targets ss"
proof (induction ss)
  case (Cons s ss)
  then show ?case by (cases s) auto
qed simp

lemma set_strip: "set (strip_labels U ss) \<subseteq> set ss"
  by (auto simp: strip_labels_def)

lemma flatten_flat: "list_all (\<lambda>s. \<not> is_block s) ss \<Longrightarrow> flatten ss = ss"
proof (induction ss)
  case (Cons s ss)
  then show ?case by (cases s) (auto simp: is_block_def)
qed simp

lemma last_strip:
  "ss \<noteq> [] \<Longrightarrow> IsUnconditionalBranch (last ss) \<Longrightarrow>
   strip_labels U ss \<noteq> [] \<and> IsUnconditionalBranch (last (strip_labels U ss))"
proof (induction ss rule: rev_induct)
  case (snoc s ss)
  then show ?case by (auto simp: strip_labels_def)
qed simp

section \<open>The result of the pass\<close>

lemma flat_not_block: "list_all flat_stmt ss \<Longrightarrow> list_all (\<lambda>s. \<not> is_block s) ss"
  by (auto simp: list_all_iff flat_stmt_def is_block_def split: ir_stmt.splits)

lemma flat_subset: "set ts \<subseteq> set ss \<Longrightarrow> list_all flat_stmt ss \<Longrightarrow> list_all flat_stmt ts"
  by (auto simp: list_all_iff)

lemma remove_unused_eq:
  assumes "list_all flat_stmt ss" "distinct (labels ss)" "reachable_only ss"
  shows "remove_unused us ss = (if us = [] then ss else remove_dead (strip_labels (set us) ss))"
proof -
  have "list_all (\<lambda>s. \<not> is_block s) (strip_labels (set us) ss)"
    using flat_not_block [OF flat_subset [OF set_strip assms(1)]] .
  then show ?thesis
    using assms(2) by (simp add: remove_unused_def fold_remove1 clean_block_def flatten_flat)
qed

text \<open>What the body of a function must be before the pass, as the parser builds it.\<close>

definition well_formed_body :: "nat \<Rightarrow> nat \<Rightarrow> ir_stmt list \<Rightarrow> bool" where
  "well_formed_body k n ss \<longleftrightarrow>
     (let evs = body_events k ss in
      distinct (event_labels evs) \<and> set (event_jumps evs) \<subseteq> set (event_labels evs) \<and>
      (\<forall>l \<in> set (event_labels evs). l < n) \<and> ends_in_return ss)"

lemma clean_then_split:
  assumes "well_formed_body k n (body fn)"
  shows "\<exists>ts p. body_events k ts = body_events k (body fn) \<and> list_all flat_stmt ts \<and>
    bb_Process n (body (fst (cleanup_Process captured k begins fn))) = Inr p \<and>
    (run_flat sem ts s r \<longleftrightarrow> run_blocks sem p s r) \<and>
    block_rest (hd (fst p)) \<and> (\<forall>b \<in> set (tl (fst p)). basic_block b)"
proof -
  obtain ts st where ts: "clean_loop captured (body fn) [] (cleanup_start fn k begins) = (ts, st)"
    by fastforce
  have k: "k \<le> next_local (cleanup_start fn k begins)" by (simp add: cleanup_start_def)
  have ev: "body_events k ts = body_events k (body fn)"
    using clean_loop_events [OF k, of captured "body fn" "[]"] ts by simp
  have flat: "list_all flat_stmt ts"
    using clean_loop_flat [of "[]" captured "body fn" "cleanup_start fn k begins"] ts by simp
  have used: "set (targets ts) \<subseteq> set (used_labels st)"
    using clean_loop_used [of "[]" "cleanup_start fn k begins" captured "body fn"] ts by simp
  have ret: "ends_in_return ts"
    using clean_loop_last [of "body fn" "[]" captured "cleanup_start fn k begins"] ts assms
    by (simp add: well_formed_body_def Let_def)
  then have last: "ts \<noteq> []" "IsUnconditionalBranch (last ts)" by (auto simp: ends_in_return_def)
  have labels: "distinct (labels ts)" "set (targets ts) \<subseteq> set (labels ts)"
    "\<forall>l \<in> set (labels ts). l < n"
    using assms flat_events [OF flat, of k] ev by (auto simp: well_formed_body_def Let_def)
  define us where "us = unused_labels st"
  define ds where "ds = remove_dead ts"
  have ds: "list_all flat_stmt ds" "labels ds = labels ts" "reachable_only ds"
    "set (targets ds) \<subseteq> set (targets ts)" "ds \<noteq> []" "IsUnconditionalBranch (last ds)"
    unfolding ds_def
    using flat_subset [OF set_remove_dead flat] labels_remove_dead [of ts]
      reachable_remove_dead [OF flat_not_block [OF flat]] set_remove_dead [of ts] last
      last_remove_dead [OF last] remove_dead_conv(1) [of ts]
    by (auto simp: targets_set)
  have us: "set us \<inter> set (targets ts) = {}"
    using used by (auto simp: us_def unused_labels_def)
  define cs where "cs = remove_unused us ds"
  have cs: "cs = (if us = [] then ds else remove_dead (strip_labels (set us) ds))"
    using remove_unused_eq [OF ds(1)] labels(1) ds(2,3) by (simp add: cs_def)
  have body: "body (fst (cleanup_Process captured k begins fn)) = cs"
    by (simp add: cleanup_Process_def VisitBlock_def ts cs_def us_def ds_def)
  let ?ss = "strip_labels (set us) ds"
  have strip: "list_all (\<lambda>s. \<not> is_block s) ?ss" "?ss \<noteq> []" "IsUnconditionalBranch (last ?ss)"
    using flat_not_block [OF flat_subset [OF set_strip ds(1)]] last_strip [OF ds(5,6)] by auto
  have reach: "reachable_only cs"
    using reachable_remove_dead [OF strip(1)] ds(3) by (simp add: cs)
  have cs_last: "cs \<noteq> []" "IsUnconditionalBranch (last cs)"
    using ds(5,6) strip last_remove_dead remove_dead_conv(1) by (auto simp: cs)
  have cs_labels: "labels cs = filter (\<lambda>l. l \<notin> set us) (labels ts)"
    by (simp add: cs labels_remove_dead labels_strip ds(2))
  have cs_targets: "set (targets cs) \<subseteq> set (targets ts)"
  proof -
    have "set cs \<subseteq> set ds"
      using set_remove_dead [of ?ss] set_strip [of "set us" ds] by (auto simp: cs)
    then show ?thesis using ds(4) unfolding targets_set by blast
  qed
  have run: "run_flat sem ts s r \<longleftrightarrow> run_flat sem cs s r"
  proof -
    have "run_flat sem ds s r \<longleftrightarrow> run_flat sem ts s r"
      by (simp add: ds_def run_remove_dead)
    moreover have "run_flat sem ?ss s r \<longleftrightarrow> run_flat sem ds s r"
      using us ds(4) by (intro run_strip) auto
    ultimately show ?thesis by (simp add: cs run_remove_dead)
  qed
  have "set (targets cs) \<subseteq> set (labels cs)"
    using cs_targets labels(2) us unfolding cs_labels by auto
  then obtain p where "bb_Process n cs = Inr p" "run_flat sem cs s r \<longleftrightarrow> run_blocks sem p s r"
    "block_rest (hd (fst p)) \<and> (\<forall>b \<in> set (tl (fst p)). basic_block b)"
    using blocks_run_alike [OF reach, of n sem s r] labels us cs_targets cs_last
    by (auto simp: cs_labels)
  then show ?thesis
    using ev flat run body by auto
qed

text \<open>
  C30: The clean-up pass flattens the body of a function without changing the order of what it does: there is a
  flat body of simple statements, with calls only as the value of an assignment or of an ignored evaluation,
  whose calls, assignments, labels, jumps and returns are those of the source in the order in which
  the source evaluates them.  The basic block pass accepts what the clean-up leaves after erasing dead code
  and unused labels, without reading behind a branch, and its blocks run exactly as the flat body does.
\<close>

theorem cleanup_then_blocks:
  assumes "well_formed_body k n (body fn)"
  shows "\<exists>ts p. body_events k ts = body_events k (body fn) \<and> list_all flat_stmt ts \<and>
    bb_Process n (body (fst (cleanup_Process captured k begins fn))) = Inr p \<and>
    (run_flat sem ts s r \<longleftrightarrow> run_blocks sem p s r) \<and>
    block_rest (hd (fst p)) \<and> (\<forall>b \<in> set (tl (fst p)). basic_block b)"
  by (rule clean_then_split [OF assms])

text \<open>A function with a list literal: \<open>return f([g()])\<close>, and a return behind the return.\<close>

definition list_literal :: ir_fn where
  "list_literal =
     \<lparr>locals = [], parameters = [], ssaVars = [], temporaries = [0],
      body = [StmtBlock [StmtReturn (ExprFuncCall 0 ''f(_)'' (Some ExprLoadReceiver)
        [ExprRunStatements (StmtBlock
           [StmtAssign (SSAVariable 0) (ExprFuncCall 1 ''g()'' (Some ExprLoadReceiver) [])]) 0])],
        StmtLabel 0, StmtReturn ExprLoadReceiver],
      rootBeginUpvalues = None\<rparr>"

lemma list_literal_events:
  "body_events 5 (body list_literal) =
     [Ev_call 1, Ev_assign (SSAVariable 0), Ev_call 0, Ev_return, Ev_label 0, Ev_return]"
  by code_simp

theorem cleanup_then_blocks_witness:
  "\<exists>ts p. body_events 5 ts =
       [Ev_call 1, Ev_assign (SSAVariable 0), Ev_call 0, Ev_return, Ev_label 0, Ev_return] \<and>
     bb_Process 1 (body (fst (cleanup_Process (\<lambda>_. False) 5 Map.empty list_literal))) = Inr p \<and>
     run_flat counting ts 0 (Returned (ExprLoad (LocalVariable 5)) 2)"
proof -
  let ?r = "Returned (ExprLoad (LocalVariable 5)) (2 :: nat)"
  let ?p = "bb_Process 1 (body (fst (cleanup_Process (\<lambda>_. False) 5 Map.empty list_literal)))"
  have "ends_in_return (body list_literal)"
    by (simp add: ends_in_return_def list_literal_def)
  then have "well_formed_body 5 1 (body list_literal)"
    by (simp add: well_formed_body_def list_literal_events event_labels_def event_jumps_def)
  from cleanup_then_blocks [OF this, of "\<lambda>_. False" Map.empty counting 0 ?r]
  obtain ts p where p: "body_events 5 ts = body_events 5 (body list_literal)" "?p = Inr p"
    "run_flat counting ts 0 ?r \<longleftrightarrow> run_blocks counting p 0 ?r"
    by blast
  have "case ?p of Inl _ \<Rightarrow> False | Inr p \<Rightarrow> hd (fst p) =
      [StmtAssign (SSAVariable 0) (ExprFuncCall 1 ''g()'' (Some ExprLoadReceiver) []),
       StmtAssign (LocalVariable 5)
         (ExprFuncCall 0 ''f(_)'' (Some ExprLoadReceiver) [ExprLoad (SSAVariable 0)]),
       StmtReturn (ExprLoad (LocalVariable 5))]"
    by code_simp
  then have "run_blocks counting p 0 ?r"
    unfolding p(2) by (simp add: run_blocks_def counting_def run_Cons_iff control_of_def)
  then show ?thesis using p list_literal_events by auto
qed

section \<open>Loads do not keep their place\<close>

text \<open>
  The evaluation of straight-line code, as the LLVM backend does it (\<open>VisitExprFuncCall\<close>: receiver,
  arguments, call) and as the language defines it: from left to right.  \<open>const_value\<close> and \<open>call\<close> give the
  meaning of constants and of a call of a signature, which may change variables that a closure captured.
\<close>

record 'v interp =
  const_value :: "cc_value \<Rightarrow> 'v"
  call :: "string \<Rightarrow> 'v list \<Rightarrow> (var_decl \<Rightarrow> 'v) \<Rightarrow> 'v \<times> (var_decl \<Rightarrow> 'v)"

fun eval_expr :: "'v interp \<Rightarrow> ir_expr \<Rightarrow> (var_decl \<Rightarrow> 'v) \<Rightarrow> 'v \<times> (var_decl \<Rightarrow> 'v)"
and eval_args :: "'v interp \<Rightarrow> ir_expr list \<Rightarrow> (var_decl \<Rightarrow> 'v) \<Rightarrow> 'v list \<times> (var_decl \<Rightarrow> 'v)"
and exec_stmt :: "'v interp \<Rightarrow> ir_stmt \<Rightarrow> (var_decl \<Rightarrow> 'v) \<Rightarrow> var_decl \<Rightarrow> 'v"
and exec_stmts :: "'v interp \<Rightarrow> ir_stmt list \<Rightarrow> (var_decl \<Rightarrow> 'v) \<Rightarrow> var_decl \<Rightarrow> 'v" where
  "eval_expr I (ExprConst c) env = (const_value I c, env)"
| "eval_expr I (ExprLoad v) env = (env v, env)"
| "eval_expr I (ExprFuncCall _ signature receiver args) env =
     (let (r, env) = (case receiver of
            None \<Rightarrow> ([], env)
          | Some e \<Rightarrow> (let (v, env) = eval_expr I e env in ([v], env)));
          (vs, env) = eval_args I args env
      in call I signature (r @ vs) env)"
| "eval_expr I (ExprRunStatements s t) env =
     (let env = exec_stmt I s env in (env (SSAVariable t), env))"
| "eval_expr I _ env = (const_value I CcUndefined, env)"
| "eval_args I [] env = ([], env)"
| "eval_args I (a # as) env =
     (let (v, env) = eval_expr I a env; (vs, env) = eval_args I as env in (v # vs, env))"
| "exec_stmt I (StmtAssign v e) env = (let (x, env) = eval_expr I e env in env(v := x))"
| "exec_stmt I (StmtEvalAndIgnore e) env = snd (eval_expr I e env)"
| "exec_stmt I (StmtBlock ss) env = exec_stmts I ss env"
| "exec_stmt I _ env = env"
| "exec_stmts I [] env = env"
| "exec_stmts I (s # ss) env = exec_stmts I ss (exec_stmt I s env)"

text \<open>The body \<open>y = x + f.call()\<close>, and \<open>y = x + (x = 5)\<close> with the assignment as an operand.\<close>

definition add_call :: ir_fn where
  "add_call =
     \<lparr>locals = [1], parameters = [], ssaVars = [], temporaries = [],
      body = [StmtAssign (LocalVariable 1)
        (ExprFuncCall 0 ''+(_)'' (Some (ExprLoad (IRGlobalDecl ''x'')))
          [ExprFuncCall 1 ''call()'' (Some (ExprLoad (LocalVariable 0))) []])],
      rootBeginUpvalues = None\<rparr>"

definition add_assignment :: ir_fn where
  "add_assignment =
     \<lparr>locals = [1], parameters = [], ssaVars = [], temporaries = [0],
      body = [StmtAssign (LocalVariable 1)
        (ExprFuncCall 0 ''+(_)'' (Some (ExprLoad (IRGlobalDecl ''x'')))
          [ExprRunStatements (StmtBlock
             [StmtAssign (SSAVariable 0) (ExprConst (CcInt 5)),
              StmtAssign (IRGlobalDecl ''x'') (ExprLoad (SSAVariable 0))]) 0])],
      rootBeginUpvalues = None\<rparr>"

text \<open>Numbers with addition, and a function that sets \<open>x\<close> to 2 and returns 10.\<close>

definition numbers :: "int interp" where
  "numbers =
     \<lparr>const_value = (\<lambda>c. case c of CcInt i \<Rightarrow> i | _ \<Rightarrow> 0),
      call = (\<lambda>signature vs env.
        if signature = ''+(_)'' then (sum_list vs, env) else (10, env(IRGlobalDecl ''x'' := 2)))\<rparr>"

definition cleaned :: "ir_fn \<Rightarrow> ir_stmt list" where
  "cleaned fn = body (fst (cleanup_Process (\<lambda>_. False) 7 Map.empty fn))"

lemma cleaned_add_call:
  "cleaned add_call =
     [StmtAssign (LocalVariable 7) (ExprFuncCall 1 ''call()'' (Some (ExprLoad (LocalVariable 0))) []),
      StmtAssign (LocalVariable 1) (ExprFuncCall 0 ''+(_)'' (Some (ExprLoad (IRGlobalDecl ''x'')))
        [ExprLoad (LocalVariable 7)])]"
  by code_simp

lemma cleaned_add_assignment:
  "cleaned add_assignment =
     [StmtAssign (SSAVariable 0) (ExprConst (CcInt 5)),
      StmtAssign (IRGlobalDecl ''x'') (ExprLoad (SSAVariable 0)),
      StmtAssign (LocalVariable 1) (ExprFuncCall 0 ''+(_)'' (Some (ExprLoad (IRGlobalDecl ''x'')))
        [ExprLoad (SSAVariable 0)])]"
  by code_simp

text \<open>
  The clean-up pass changes what a program computes: it moves a call out of an operand and leaves the loads
  before it behind.  With a global \<open>x\<close> that is 1, \<open>y = x + f.call()\<close>, where \<open>f\<close> sets \<open>x\<close> to 2 and returns 10,
  gives 11 before the pass and 12 after it, and \<open>y = x + (x = 5)\<close> gives 6 before and 10 after.
\<close>

theorem cleanup_moves_loads:
  "exec_stmts numbers (body add_call) (\<lambda>_. 1) (LocalVariable 1) = 11 \<and>
   exec_stmts numbers (cleaned add_call) (\<lambda>_. 1) (LocalVariable 1) = 12 \<and>
   exec_stmts numbers (body add_assignment) (\<lambda>_. 1) (LocalVariable 1) = 6 \<and>
   exec_stmts numbers (cleaned add_assignment) (\<lambda>_. 1) (LocalVariable 1) = 10"
  unfolding cleaned_add_call cleaned_add_assignment
  by (simp add: add_call_def add_assignment_def numbers_def)

end
