(* ===== verification/Type_Inference.thy ===== *)
theory Type_Inference
  imports Ir_Nodes
begin

text \<open>
  The type inference (src/passes/TypeInferencePass.cpp, src/VarType.h): a worklist of SSA variables, in
  which a phi node takes the type of the inputs that are known so far and is revised when another one
  disagrees.  Calls of the number operators whose operands turn out to be numbers are marked as intrinsics.

  The pass allocates one \<open>VarType\<close> per type and compares pointers; a type is a value here, and the null
  pointer, for an unknown type, is \<open>None\<close>.  The table of the core methods,
  \<open>GenGetCoreFunctionInfo\<close>, is generated by the build from the headers of the runtime and is the
  argument \<open>core\<close>, from a class name and a signature.  \<open>assignment v\<close> is the expression that is assigned to
  the SSA variable \<open>v\<close>, or nothing for a parameter.
\<close>

datatype var_type = NULL_TYPE | NUM | OBJECT | OBJECT_SYSTEM string

definition VarType_ToString :: "var_type \<Rightarrow> string" where
  "VarType_ToString t = (case t of
     NULL_TYPE \<Rightarrow> ''null'' | NUM \<Rightarrow> ''num'' | OBJECT \<Rightarrow> ''obj'' | OBJECT_SYSTEM name \<Rightarrow> ''obj_sys:'' @ name)"

datatype intrinsic_type = INTRINSIC_NONE | NUM_ADD | NUM_SUB | NUM_MUL | NUM_DIV

record fn_info =
  returnType :: "var_type option"
  fn_intrinsic :: intrinsic_type
  isStatic :: bool
  argTypes :: "var_type option list"

type_synonym core_table = "string \<Rightarrow> string \<Rightarrow> fn_info option"
type_synonym assignments = "nat \<Rightarrow> ir_expr option"

record var_info =
  reverseDependencies :: "nat list"
  dependencies :: "nat list"
  lastUpdateCycle :: int
  firstUnsetInput :: int
  setType :: bool

text \<open>
  \<open>infos\<close> are the variables' \<open>backendVarData\<close>, absent for a variable that does not belong to the function;
  \<open>types\<close> and \<open>intrinsics\<close> are the fields \<open>type\<close> and \<open>intrinsic\<close> of variables and calls.
\<close>

record ti_state =
  infos :: "nat \<rightharpoonup> var_info"
  types :: "nat \<Rightarrow> var_type option"
  intrinsics :: "nat \<Rightarrow> intrinsic_type"
  m_workList :: "nat list"

definition new_info :: var_info where
  "new_info = \<lparr>reverseDependencies = [], dependencies = [], lastUpdateCycle = -1, firstUnsetInput = 0,
     setType = False\<rparr>"

definition get_info :: "nat \<Rightarrow> ti_state \<Rightarrow> var_info res" where
  "get_info v st = (case infos st v of None \<Rightarrow> Inl Undefined | Some i \<Rightarrow> Inr i)"

definition put_info :: "nat \<Rightarrow> var_info \<Rightarrow> ti_state \<Rightarrow> ti_state" where
  "put_info v i st = st\<lparr>infos := (infos st)(v \<mapsto> i)\<rparr>"

section \<open>Dependencies\<close>

text \<open>The variables that \<open>GetExprDeps\<close> marks, in order; unknown expressions end the process.\<close>

fun GetExprDeps :: "ir_expr \<Rightarrow> nat list res" and GetArgDeps :: "ir_expr list \<Rightarrow> nat list res" where
  "GetExprDeps (ExprConst _) = Inr []"
| "GetExprDeps (ExprLoad (SSAVariable v)) = Inr [v]"
| "GetExprDeps (ExprLoad _) = Inr []"
| "GetExprDeps ExprLoadReceiver = Inr []"
| "GetExprDeps (ExprFuncCall _ _ receiver args) =
     (case receiver of
        None \<Rightarrow> Inl Fatal
      | Some r \<Rightarrow> rbind (GetExprDeps r) (\<lambda>ds. rbind (GetArgDeps args) (\<lambda>es. Inr (ds @ es))))"
| "GetExprDeps (ExprSystemVar _) = Inr []"
| "GetExprDeps (ExprAllocateInstanceMemory _ _) = Inr []"
| "GetExprDeps (ExprClosure _) = Inr []"
| "GetExprDeps (ExprFieldLoad _ _) = Inr []"
| "GetExprDeps _ = Inl Fatal"
| "GetArgDeps [] = Inr []"
| "GetArgDeps (a # as) = rbind (GetExprDeps a) (\<lambda>ds. rbind (GetArgDeps as) (\<lambda>es. Inr (ds @ es)))"

text \<open>\<open>markDep\<close> for the variable \<open>var\<close>: a dependency that is never assigned is ignored.\<close>

definition markDep :: "assignments \<Rightarrow> nat \<Rightarrow> nat \<Rightarrow> ti_state \<Rightarrow> ti_state res" where
  "markDep assignment var dependency st =
     (if assignment dependency = None then Inr st
      else rbind (get_info dependency st) (\<lambda>dep.
        let st = put_info dependency
              (dep\<lparr>reverseDependencies := reverseDependencies dep @ [var]\<rparr>) st in
        rbind (get_info var st) (\<lambda>info.
          Inr (put_info var (info\<lparr>dependencies := dependencies info @ [dependency]\<rparr>) st))))"

fun markDeps :: "assignments \<Rightarrow> nat \<Rightarrow> nat list \<Rightarrow> ti_state \<Rightarrow> ti_state res" where
  "markDeps assignment var [] st = Inr st"
| "markDeps assignment var (d # ds) st = rbind (markDep assignment var d st) (markDeps assignment var ds)"

definition SetupVariable :: "assignments \<Rightarrow> nat \<Rightarrow> ti_state \<Rightarrow> ti_state res" where
  "SetupVariable assignment var st =
     (case assignment var of
        None \<Rightarrow> rbind (get_info var st) (\<lambda>info. Inr (put_info var (info\<lparr>setType := True\<rparr>) st))
      | Some (ExprPhi inputs) \<Rightarrow>
          rbind (markDeps assignment var inputs st) (\<lambda>st.
          rbind (get_info var st) (\<lambda>info. Inr (put_info var (info\<lparr>firstUnsetInput := -1\<rparr>) st)))
      | Some expr \<Rightarrow>
          rbind (GetExprDeps expr) (\<lambda>ds.
          rbind (markDeps assignment var ds st) (\<lambda>st.
            if filter (\<lambda>d. assignment d \<noteq> None) ds = []
            then Inr (st\<lparr>m_workList := m_workList st @ [var]\<rparr>)
            else Inr st)))"

fun SetupVariables :: "assignments \<Rightarrow> nat list \<Rightarrow> ti_state \<Rightarrow> ti_state res" where
  "SetupVariables assignment [] st = Inr st"
| "SetupVariables assignment (v # vs) st =
     rbind (SetupVariable assignment v st) (SetupVariables assignment vs)"

section \<open>Types of expressions\<close>

definition ProcessExprConst :: "cc_value \<Rightarrow> var_type option" where
  "ProcessExprConst c = (case c of
     CcUndefined \<Rightarrow> None
   | CcNull \<Rightarrow> Some NULL_TYPE
   | CcString _ \<Rightarrow> Some (OBJECT_SYSTEM ''ObjString'')
   | CcBool _ \<Rightarrow> Some (OBJECT_SYSTEM ''ObjBool'')
   | CcInt _ \<Rightarrow> Some NUM
   | CcNum _ \<Rightarrow> Some NUM)"

definition ProcessExprLoad :: "var_decl \<Rightarrow> ti_state \<Rightarrow> var_type option res" where
  "ProcessExprLoad var st = (case var of
     SSAVariable v \<Rightarrow>
       rbind (get_info v st) (\<lambda>info. if setType info then Inr (types st v) else Inl Fatal)
   | _ \<Rightarrow> Inr None)"

text \<open>The loop of \<open>ProcessExprPhi\<close>: \<open>only\<close> and \<open>numFound\<close> so far.\<close>

fun phi_loop :: "nat list \<Rightarrow> var_type option \<Rightarrow> nat \<Rightarrow> ti_state \<Rightarrow> var_type option res" where
  "phi_loop [] only numFound st = (if numFound = 0 then Inl Fatal else Inr only)"
| "phi_loop (var # inputs) only numFound st =
     rbind (get_info var st) (\<lambda>info.
       if \<not> setType info then phi_loop inputs only numFound st
       else if numFound = 0 then phi_loop inputs (types st var) (Suc numFound) st
       else if only \<noteq> types st var then Inr None
       else phi_loop inputs only (Suc numFound) st)"

definition core_name :: "var_type \<Rightarrow> string option" where
  "core_name t = (case t of
     NULL_TYPE \<Rightarrow> Some ''ObjNull''
   | NUM \<Rightarrow> Some ''ObjNumClass''
   | OBJECT \<Rightarrow> None
   | OBJECT_SYSTEM name \<Rightarrow> Some name)"

text \<open>\<open>argTypes.at(i)\<close> throws an exception that nothing catches when the table has fewer arguments.\<close>

fun ProcessExpr :: "core_table \<Rightarrow> ir_expr \<Rightarrow> ti_state \<Rightarrow> (var_type option \<times> ti_state) res"
and check_args :: "core_table \<Rightarrow> ir_expr list \<Rightarrow> var_type option list \<Rightarrow> ti_state \<Rightarrow> (bool \<times> ti_state) res"
where
  "ProcessExpr core (ExprConst c) st = Inr (ProcessExprConst c, st)"
| "ProcessExpr core (ExprLoad var) st = rbind (ProcessExprLoad var st) (\<lambda>t. Inr (t, st))"
| "ProcessExpr core ExprLoadReceiver st = Inr (None, st)"
| "ProcessExpr core (ExprFuncCall node signature receiver args) st =
     (case receiver of
        None \<Rightarrow> Inl Fatal
      | Some r \<Rightarrow> rbind (ProcessExpr core r st) (\<lambda>(receiverType, st).
          case receiverType of
            None \<Rightarrow> Inr (None, st)
          | Some t \<Rightarrow>
              (case core_name t of
                 None \<Rightarrow> Inr (None, st)
               | Some coreName \<Rightarrow>
                   (case core coreName signature of
                      None \<Rightarrow> Inr (None, st)
                    | Some result \<Rightarrow>
                        rbind (check_args core args (argTypes result) st) (\<lambda>(areArgsCorrect, st).
                          Inr (returnType result,
                               st\<lparr>intrinsics := (intrinsics st)
                                 (node := if areArgsCorrect then fn_intrinsic result
                                          else INTRINSIC_NONE)\<rparr>))))))"
| "ProcessExpr core (ExprSystemVar _) st = Inr (None, st)"
| "ProcessExpr core (ExprAllocateInstanceMemory _ _) st = Inr (None, st)"
| "ProcessExpr core (ExprClosure _) st = Inr (Some (OBJECT_SYSTEM ''ObjFn''), st)"
| "ProcessExpr core (ExprFieldLoad _ _) st = Inr (None, st)"
| "ProcessExpr core (ExprPhi inputs) st = rbind (phi_loop inputs None 0 st) (\<lambda>t. Inr (t, st))"
| "ProcessExpr core _ st = Inl Fatal"
| "check_args core [] ts st = Inr (True, st)"
| "check_args core (a # as) ts st =
     rbind (ProcessExpr core a st) (\<lambda>(argType, st).
       case ts of
         [] \<Rightarrow> Inl Fatal
       | t # ts \<Rightarrow> if t \<noteq> argType then Inr (False, st) else check_args core as ts st)"

section \<open>The worklist\<close>

text \<open>
  \<open>firstUnsetInput\<close> has 16 bits: with 32768 dependencies or more it would become negative, and \<open>at\<close> throws.
  The test that it is below \<open>2 ^ 15\<close> always holds, and is there for the recursion to end.
\<close>

definition int16 :: "int \<Rightarrow> int" where
  "int16 i = (i + 2 ^ 15) mod 2 ^ 16 - 2 ^ 15"

lemma int16_small: "0 \<le> i \<Longrightarrow> i < 2 ^ 15 \<Longrightarrow> int16 i = i"
  by (simp add: int16_def)

lemma int16_next: "0 \<le> i \<Longrightarrow> i < 2 ^ 15 \<Longrightarrow> int16 (i + 1) < 0 \<or> int16 (i + 1) = i + 1"
  by (cases "i + 1 = 2 ^ 15") (simp_all add: int16_def)

function next_unset :: "ti_state \<Rightarrow> nat list \<Rightarrow> int \<Rightarrow> (int \<times> bool) res" where
  "next_unset st deps k =
     (if k = int16 (int (length deps)) then Inr (-1, False)
      else if \<not> (0 \<le> k \<and> k < 2 ^ 15 \<and> k < int (length deps)) then Inl Fatal
      else rbind (get_info (deps ! nat k) st) (\<lambda>dep.
        if setType dep then next_unset st deps (int16 (k + 1)) else Inr (k, True)))"
  by auto
termination
proof (relation "measure (\<lambda>(st, deps, k). if k < 0 then 0 else Suc (nat (int (length deps) - k)))")
  fix st deps and k :: int and dep :: var_info
  assume "\<not> \<not> (0 \<le> k \<and> k < 2 ^ 15 \<and> k < int (length deps))"
  then show "((st, deps, int16 (k + 1)), st, deps, k)
    \<in> measure (\<lambda>(st, deps, k). if k < 0 then 0 else Suc (nat (int (length deps) - k)))"
    using int16_next [of k] by auto
qed simp

declare next_unset.simps [simp del]

text \<open>Whether all dependencies are set by now, with the new state of the search.\<close>

definition wait_for_deps :: "nat \<Rightarrow> ti_state \<Rightarrow> (bool \<times> ti_state) res" where
  "wait_for_deps var st =
     rbind (get_info var st) (\<lambda>info.
       if firstUnsetInput info = -1 then Inr (False, st)
       else rbind (next_unset st (dependencies info) (firstUnsetInput info)) (\<lambda>(k, hitNotSet).
         Inr (hitNotSet, put_info var (info\<lparr>firstUnsetInput := k\<rparr>) st)))"

definition update_type :: "core_table \<Rightarrow> nat \<Rightarrow> ir_expr \<Rightarrow> ti_state \<Rightarrow> ti_state res" where
  "update_type core var expr st =
     rbind (ProcessExpr core expr st) (\<lambda>(newType, st).
     rbind (get_info var st) (\<lambda>info.
       if newType = types st var \<and> setType info then Inr st
       else Inr ((put_info var (info\<lparr>setType := True\<rparr>) st)
         \<lparr>types := (types st)(var := newType), m_workList := m_workList st @ reverseDependencies info\<rparr>)))"

definition process_var :: "core_table \<Rightarrow> assignments \<Rightarrow> int \<Rightarrow> nat \<Rightarrow> ti_state \<Rightarrow> ti_state res" where
  "process_var core assignment cycleNumber var st =
     (case assignment var of
        None \<Rightarrow> Inr st
      | Some expr \<Rightarrow>
          rbind (get_info var st) (\<lambda>info.
            if lastUpdateCycle info = cycleNumber then Inr st
            else let st = put_info var (info\<lparr>lastUpdateCycle := cycleNumber\<rparr>) st in
              rbind (wait_for_deps var st) (\<lambda>(hitNotSet, st).
                if hitNotSet then Inr st else update_type core var expr st)))"

fun process_vars :: "core_table \<Rightarrow> assignments \<Rightarrow> int \<Rightarrow> nat list \<Rightarrow> ti_state \<Rightarrow> ti_state res" where
  "process_vars core assignment cycleNumber [] st = Inr st"
| "process_vars core assignment cycleNumber (v # vs) st =
     rbind (process_var core assignment cycleNumber v st) (process_vars core assignment cycleNumber vs)"

text \<open>The loop takes fuel, one unit for each cycle; without a result it has run out.\<close>

fun ti_loop :: "core_table \<Rightarrow> assignments \<Rightarrow> nat \<Rightarrow> int \<Rightarrow> ti_state \<Rightarrow> ti_state res option" where
  "ti_loop core assignment 0 cycleNumber st = None"
| "ti_loop core assignment (Suc fuel) cycleNumber st =
     (if m_workList st = [] then Some (Inr st)
      else case process_vars core assignment cycleNumber (m_workList st) (st\<lparr>m_workList := []\<rparr>) of
          Inl e \<Rightarrow> Some (Inl e)
        | Inr st \<Rightarrow> ti_loop core assignment fuel (cycleNumber + 1) st)"

definition all_vars :: "ir_fn \<Rightarrow> nat list" where
  "all_vars fn = ssaVars fn @ temporaries fn"

definition ti_start :: "nat list \<Rightarrow> ti_state" where
  "ti_start vs = \<lparr>infos = map_of (map (\<lambda>v. (v, new_info)) vs), types = (\<lambda>_. None),
     intrinsics = (\<lambda>_. INTRINSIC_NONE), m_workList = []\<rparr>"

definition check_set :: "nat list \<Rightarrow> ti_state \<Rightarrow> ti_state res" where
  "check_set vs st =
     (if list_all (\<lambda>v. case infos st v of None \<Rightarrow> False | Some info \<Rightarrow> setType info) vs then Inr st
      else Inl Fatal)"

definition ti_Process ::
  "core_table \<Rightarrow> assignments \<Rightarrow> nat \<Rightarrow> nat list \<Rightarrow> ti_state res option" where
  "ti_Process core assignment fuel vs =
     (case SetupVariables assignment vs (ti_start vs) of
        Inl e \<Rightarrow> Some (Inl e)
      | Inr st \<Rightarrow> map_option (\<lambda>r. rbind r (check_set vs)) (ti_loop core assignment fuel 1 st))"

end
