(* ===== verification/Type_Inference_Proofs.thy ===== *)
theory Type_Inference_Proofs
  imports Type_Inference
begin

text \<open>
  The type inference ends with types that every run of the function respects.

  \<open>expr_type\<close> and \<open>phi_type\<close> are what an expression evaluates to without the checks; the invariant
  \<open>ti_invariant\<close> says that every typed variable that is not waiting on the worklist has the type of its
  expression, and that types only go up in the order unset, one type, unknown, which bounds the cycles.
\<close>

section \<open>Types of expressions, without the state\<close>

fun expr_type :: "core_table \<Rightarrow> (nat \<Rightarrow> var_type option) \<Rightarrow> ir_expr \<Rightarrow> var_type option" where
  "expr_type core ty (ExprConst c) = ProcessExprConst c"
| "expr_type core ty (ExprLoad (SSAVariable v)) = ty v"
| "expr_type core ty (ExprFuncCall _ signature receiver _) =
     (case receiver of
        None \<Rightarrow> None
      | Some r \<Rightarrow>
          (case expr_type core ty r of
             None \<Rightarrow> None
           | Some t \<Rightarrow>
               (case core_name t of
                  None \<Rightarrow> None
                | Some coreName \<Rightarrow>
                    (case core coreName signature of None \<Rightarrow> None | Some fi \<Rightarrow> returnType fi))))"
| "expr_type core ty (ExprClosure _) = Some (OBJECT_SYSTEM ''ObjFn'')"
| "expr_type core ty _ = None"

text \<open>The type of a phi node from its typed inputs.\<close>

definition phi_type :: "(nat \<Rightarrow> bool) \<Rightarrow> (nat \<Rightarrow> var_type option) \<Rightarrow> nat list \<Rightarrow> var_type option" where
  "phi_type known ty inputs =
     (case filter known inputs of
        [] \<Rightarrow> None
      | v # vs \<Rightarrow> if \<forall>w \<in> set vs. ty w = ty v then ty v else None)"

text \<open>No call passes more arguments than the table has for its signature.\<close>

fun args_fit :: "core_table \<Rightarrow> ir_expr \<Rightarrow> bool" where
  "args_fit core (ExprFuncCall _ signature receiver args) =
     ((case receiver of None \<Rightarrow> True | Some r \<Rightarrow> args_fit core r) \<and>
      (\<forall>a \<in> set args. args_fit core a) \<and>
      (\<forall>cls fi. core cls signature = Some fi \<longrightarrow> length args \<le> length (argTypes fi)))"
| "args_fit core _ = True"

definition is_set :: "ti_state \<Rightarrow> nat \<Rightarrow> bool" where
  "is_set st v \<longleftrightarrow> (\<exists>i. infos st v = Some i \<and> setType i)"

lemma rbind_Inr: "rbind r f = Inr y \<Longrightarrow> \<exists>x. r = Inr x \<and> f x = Inr y"
  by (simp add: rbind_eq_Inr_iff)

lemma same_intrinsics [simp]: "\<exists>I. st = st\<lparr>intrinsics := I\<rparr>"
  by (rule exI [of _ "intrinsics st"]) simp

lemma some_intrinsics [simp]: "\<exists>J. st\<lparr>intrinsics := I\<rparr> = st\<lparr>intrinsics := J\<rparr>"
  by auto

lemma ProcessExpr_pure:
  "GetExprDeps e = Inr ds \<Longrightarrow> args_fit core e \<Longrightarrow> \<forall>d \<in> set ds. is_set st d \<Longrightarrow>
     \<exists>I. ProcessExpr core e st = Inr (expr_type core (types st) e, st\<lparr>intrinsics := I\<rparr>)"
  "GetArgDeps es = Inr ds \<Longrightarrow> \<forall>e \<in> set es. args_fit core e \<Longrightarrow> \<forall>d \<in> set ds. is_set st d \<Longrightarrow>
     length es \<le> length ts \<Longrightarrow> \<exists>b I. check_args core es ts st = Inr (b, st\<lparr>intrinsics := I\<rparr>)"
proof (induction e and es arbitrary: ds st and ds st ts rule: GetExprDeps_GetArgDeps.induct)
  case (2 v)
  then show ?case
    by (auto simp: ProcessExprLoad_def get_info_def is_set_def)
next
  case (5 node sig receiver args)
  obtain r where r: "receiver = Some r"
    using 5(3) by (cases receiver) auto
  obtain d1 d2 where d: "GetExprDeps r = Inr d1" "GetArgDeps args = Inr d2" "ds = d1 @ d2"
    using 5(3) by (auto simp: r rbind_eq_Inr_iff)
  obtain I where I: "ProcessExpr core r st = Inr (expr_type core (types st) r, st\<lparr>intrinsics := I\<rparr>)"
    using 5(1) [OF r d(1), of st] 5(4,5) by (auto simp: r d(3))
  let ?st = "st\<lparr>intrinsics := I\<rparr>"
  show ?case
  proof (cases "expr_type core (types st) r")
    case None
    then show ?thesis by (simp add: r I)
  next
    case t: (Some t)
    show ?thesis
    proof (cases "core_name t")
      case None
      then show ?thesis by (simp add: r I t)
    next
      case cn: (Some cn)
      show ?thesis
      proof (cases "core cn sig")
        case None
        then show ?thesis by (simp add: r I t cn)
      next
        case fi: (Some fi)
        have set: "\<forall>d \<in> set d2. is_set ?st d"
          using 5(5) by (auto simp: d(3) is_set_def)
        have "length args \<le> length (argTypes fi)"
          using 5(4) fi by auto
        then obtain b J where "check_args core args (argTypes fi) ?st = Inr (b, ?st\<lparr>intrinsics := J\<rparr>)"
          using 5(2) [OF r d(1,2) _ set, of "argTypes fi"] 5(4) by auto
        then show ?thesis
          by (auto simp: r I t cn fi)
      qed
    qed
  qed
next
  case (12 a as)
  obtain d1 d2 where d: "GetExprDeps a = Inr d1" "GetArgDeps as = Inr d2" "ds = d1 @ d2"
    using 12(3) by (auto simp: rbind_eq_Inr_iff)
  obtain t ts' where ts: "ts = t # ts'" using 12(6) by (cases ts) auto
  obtain I where I: "ProcessExpr core a st = Inr (expr_type core (types st) a, st\<lparr>intrinsics := I\<rparr>)"
    using 12(1) [OF d(1), of st] 12(4,5) by (auto simp: d(3))
  let ?st = "st\<lparr>intrinsics := I\<rparr>"
  have "\<forall>d \<in> set d2. is_set ?st d"
    using 12(5) by (auto simp: d(3) is_set_def)
  then obtain b J where "check_args core as ts' ?st = Inr (b, ?st\<lparr>intrinsics := J\<rparr>)"
    using 12(2) [OF d(1,2), of ?st ts'] 12(4,6) ts by auto
  then show ?case
    by (auto simp: ts I)
qed (auto simp: ProcessExprLoad_def)

lemma phi_loop_found:
  assumes "\<forall>v \<in> set inputs. infos st v \<noteq> None" "0 < n"
  shows "phi_loop inputs only n st =
    Inr (if \<forall>w \<in> set inputs. is_set st w \<longrightarrow> types st w = only then only else None)"
  using assms
proof (induction inputs arbitrary: n)
  case (Cons v vs)
  then obtain i where i: "infos st v = Some i" by auto
  show ?case
    using Cons by (auto simp: get_info_def i is_set_def)
qed simp

lemma phi_loop_pure:
  assumes "\<forall>v \<in> set inputs. infos st v \<noteq> None" "\<exists>v \<in> set inputs. is_set st v"
  shows "phi_loop inputs None 0 st = Inr (phi_type (is_set st) (types st) inputs)"
  using assms
proof (induction inputs)
  case (Cons v vs)
  then obtain i where i: "infos st v = Some i" by auto
  show ?case
  proof (cases "setType i")
    case True
    then have "is_set st v" by (simp add: is_set_def i)
    then show ?thesis
      using Cons.prems True by (auto simp: get_info_def i phi_loop_found phi_type_def)
  next
    case False
    then have "\<not> is_set st v" by (simp add: is_set_def i)
    then show ?thesis
      using Cons False by (simp add: get_info_def i phi_type_def)
  qed
qed simp

section \<open>Types only go up\<close>

text \<open>A type may become unknown, and an unset variable any type.\<close>

definition type_le :: "var_type option \<Rightarrow> var_type option \<Rightarrow> bool" where
  "type_le s t \<longleftrightarrow> t = None \<or> s = t"

lemma type_le_refl [simp]: "type_le t t"
  by (simp add: type_le_def)

lemma type_le_trans: "type_le a b \<Longrightarrow> type_le b c \<Longrightarrow> type_le a c"
  by (auto simp: type_le_def)

definition env_le :: "(nat \<Rightarrow> bool) \<Rightarrow> (nat \<Rightarrow> var_type option) \<Rightarrow> (nat \<Rightarrow> bool) \<Rightarrow>
    (nat \<Rightarrow> var_type option) \<Rightarrow> bool" where
  "env_le known ty known' ty' \<longleftrightarrow>
     (\<forall>v. known v \<longrightarrow> known' v \<and> type_le (ty v) (ty' v))"

lemma expr_type_mono:
  "GetExprDeps e = Inr ds \<Longrightarrow> \<forall>d \<in> set ds. type_le (ty d) (ty' d) \<Longrightarrow>
   type_le (expr_type core ty e) (expr_type core ty' e)"
proof (induction core ty e arbitrary: ds rule: expr_type.induct)
  case (3 core ty node sig receiver args)
  obtain r where r: "receiver = Some r"
    using 3(2) by (cases receiver) auto
  obtain d1 where d: "GetExprDeps r = Inr d1" "set d1 \<subseteq> set ds"
    using 3(2) by (auto simp: r rbind_eq_Inr_iff)
  have "type_le (expr_type core ty r) (expr_type core ty' r)"
    using 3(1) [OF r d(1)] 3(3) d(2) by auto
  then show ?case
    by (auto simp: r type_le_def)
qed auto

lemma expr_type_cong:
  "GetExprDeps e = Inr ds \<Longrightarrow> \<forall>d \<in> set ds. ty d = ty' d \<Longrightarrow> expr_type core ty e = expr_type core ty' e"
proof (induction core ty e arbitrary: ds rule: expr_type.induct)
  case (3 core ty node sig receiver args)
  obtain r where r: "receiver = Some r"
    using 3(2) by (cases receiver) auto
  obtain d1 where d: "GetExprDeps r = Inr d1" "set d1 \<subseteq> set ds"
    using 3(2) by (auto simp: r rbind_eq_Inr_iff)
  have "expr_type core ty r = expr_type core ty' r"
    using 3(1) [OF r d(1)] 3(3) d(2) by blast
  then show ?case by (simp add: r)
qed auto

lemma phi_type_Some:
  "phi_type known ty inputs = Some t \<longleftrightarrow>
     (\<exists>v \<in> set inputs. known v) \<and> (\<forall>v \<in> set inputs. known v \<longrightarrow> ty v = Some t)"
proof (cases "filter known inputs")
  case Nil
  then show ?thesis by (auto simp: phi_type_def filter_empty_conv)
next
  case (Cons v vs)
  then have "set (v # vs) = {w \<in> set inputs. known w}"
    by (metis set_filter)
  then have *: "insert v (set vs) = {w \<in> set inputs. known w}" by simp
  have "(\<exists>w \<in> set inputs. known w)" using * by blast
  moreover have "(\<forall>w \<in> set inputs. known w \<longrightarrow> ty w = Some t) \<longleftrightarrow> (\<forall>w \<in> insert v (set vs). ty w = Some t)"
    unfolding * by blast
  ultimately show ?thesis
    by (auto simp: phi_type_def Cons)
qed

lemma phi_type_mono:
  assumes "env_le known ty known' ty'" "\<exists>v \<in> set inputs. known v"
  shows "type_le (phi_type known ty inputs) (phi_type known' ty' inputs)"
proof (cases "phi_type known' ty' inputs")
  case (Some t)
  then have "\<forall>v \<in> set inputs. known v \<longrightarrow> ty v = Some t"
    using assms(1) by (auto simp: phi_type_Some env_le_def type_le_def)
  then have "phi_type known ty inputs = Some t"
    using assms(2) by (simp add: phi_type_Some)
  then show ?thesis using Some by simp
qed (simp add: type_le_def)

lemma phi_type_cong:
  "\<forall>v \<in> set inputs. known v = known' v \<and> ty v = ty' v \<Longrightarrow>
   phi_type known ty inputs = phi_type known' ty' inputs"
proof -
  assume a: "\<forall>v \<in> set inputs. known v = known' v \<and> ty v = ty' v"
  then have "phi_type known ty inputs = Some t \<longleftrightarrow> phi_type known' ty' inputs = Some t" for t
    by (auto simp: phi_type_Some)
  then show ?thesis by (metis option.exhaust)
qed

section \<open>The invariant\<close>

text \<open>The variables whose types an expression needs, and those of them that are assigned.\<close>

definition raw_deps :: "ir_expr \<Rightarrow> nat list" where
  "raw_deps e = (case e of
     ExprPhi inputs \<Rightarrow> inputs
   | _ \<Rightarrow> (case GetExprDeps e of Inl _ \<Rightarrow> [] | Inr ds \<Rightarrow> ds))"

definition is_phi :: "ir_expr \<Rightarrow> bool" where
  "is_phi e \<longleftrightarrow> (case e of ExprPhi _ \<Rightarrow> True | _ \<Rightarrow> False)"

definition marked :: "assignments \<Rightarrow> nat \<Rightarrow> nat list" where
  "marked asg v = (case asg v of
     None \<Rightarrow> []
   | Some e \<Rightarrow> filter (\<lambda>d. asg d \<noteq> None) (raw_deps e))"

text \<open>
  What the pass asks of a function: its variables are listed once, expressions are ones it knows, with operands
  among the variables, and no more dependencies than a 16-bit index can count.
\<close>

definition typable :: "core_table \<Rightarrow> assignments \<Rightarrow> nat list \<Rightarrow> bool" where
  "typable core asg vs \<longleftrightarrow> distinct vs \<and>
     (\<forall>v \<in> set vs. \<forall>e. asg v = Some e \<longrightarrow>
        set (raw_deps e) \<subseteq> set vs \<and> length (marked asg v) < 2 ^ 15 \<and>
        (is_phi e \<or> (\<exists>ds. GetExprDeps e = Inr ds) \<and> args_fit core e))"

definition value_type :: "core_table \<Rightarrow> ti_state \<Rightarrow> ir_expr \<Rightarrow> var_type option" where
  "value_type core st e = (case e of
     ExprPhi inputs \<Rightarrow> phi_type (is_set st) (types st) inputs
   | _ \<Rightarrow> expr_type core (types st) e)"

text \<open>The part that the main loop does not change.\<close>

definition linked :: "assignments \<Rightarrow> nat list \<Rightarrow> ti_state \<Rightarrow> bool" where
  "linked asg vs st \<longleftrightarrow> dom (infos st) = set vs \<and> (\<forall>v. asg v = None \<longrightarrow> types st v = None) \<and>
     (\<forall>v i. infos st v = Some i \<longrightarrow> dependencies i = marked asg v \<and>
        set (reverseDependencies i) = {u \<in> set vs. v \<in> set (marked asg u)} \<and>
        (asg v = None \<longrightarrow> setType i))"

definition ready :: "assignments \<Rightarrow> ti_state \<Rightarrow> nat \<Rightarrow> ir_expr \<Rightarrow> bool" where
  "ready asg st v e \<longleftrightarrow>
     (if is_phi e then \<exists>d \<in> set (raw_deps e). is_set st d else \<forall>d \<in> set (marked asg v). is_set st d)"

definition waiting :: "assignments \<Rightarrow> ti_state \<Rightarrow> nat \<Rightarrow> ir_expr \<Rightarrow> bool" where
  "waiting asg st v e \<longleftrightarrow>
     (if is_phi e then \<exists>d \<in> set (marked asg v). is_set st d else \<forall>d \<in> set (marked asg v). is_set st d)"

definition scan_ok :: "assignments \<Rightarrow> ti_state \<Rightarrow> nat \<Rightarrow> ir_expr \<Rightarrow> var_info \<Rightarrow> bool" where
  "scan_ok asg st v e i \<longleftrightarrow>
     (if firstUnsetInput i = -1 then is_phi e \<or> (\<forall>d \<in> set (marked asg v). is_set st d)
      else \<not> is_phi e \<and> 0 \<le> firstUnsetInput i \<and> firstUnsetInput i \<le> int (length (marked asg v)) \<and>
        (\<forall>j < nat (firstUnsetInput i). is_set st (marked asg v ! j)))"

text \<open>\<open>pending\<close> are the variables that are going to be processed.\<close>

definition ti_invariant ::
  "core_table \<Rightarrow> assignments \<Rightarrow> nat list \<Rightarrow> nat set \<Rightarrow> ti_state \<Rightarrow> bool" where
  "ti_invariant core asg vs pending st \<longleftrightarrow> linked asg vs st \<and> pending \<subseteq> set vs \<and>
     (\<forall>v \<in> set vs. \<forall>e. asg v = Some e \<longrightarrow>
        (\<forall>i. infos st v = Some i \<longrightarrow> scan_ok asg st v e i) \<and>
        (v \<in> pending \<and> is_phi e \<longrightarrow> ready asg st v e) \<and>
        (if is_set st v
         then ready asg st v e \<and> type_le (types st v) (value_type core st e) \<and>
           (v \<in> pending \<or> types st v = value_type core st e)
         else types st v = None \<and> (waiting asg st v e \<longrightarrow> v \<in> pending)))"

definition rank :: "ti_state \<Rightarrow> nat \<Rightarrow> nat" where
  "rank st v = (if \<not> is_set st v then 2 else if types st v = None then 0 else 1)"

definition measure_of :: "nat list \<Rightarrow> ti_state \<Rightarrow> nat" where
  "measure_of vs st = sum_list (map (rank st) vs)"

lemma is_set_put: "is_set (put_info v i st) u = (if u = v then setType i else is_set st u)"
  by (simp add: is_set_def put_info_def)

lemma put_info_simps [simp]:
  "types (put_info v i st) = types st" "m_workList (put_info v i st) = m_workList st"
  "infos (put_info v i st) = (infos st)(v \<mapsto> i)"
  by (simp_all add: put_info_def)

lemma is_set_other [simp]:
  "is_set (st\<lparr>intrinsics := I\<rparr>) = is_set st" "is_set (st\<lparr>m_workList := w\<rparr>) = is_set st"
  "is_set (st\<lparr>types := ty\<rparr>) = is_set st"
  by (simp_all add: is_set_def fun_eq_iff)

lemma marked_raw: "asg v = Some e \<Longrightarrow> set (marked asg v) = {d \<in> set (raw_deps e). asg d \<noteq> None}"
  by (auto simp: marked_def)

lemma marked_assigned: "d \<in> set (marked asg u) \<Longrightarrow> asg u \<noteq> None"
  by (cases "asg u") (auto simp: marked_def)

lemma linked_info: "linked asg vs st \<Longrightarrow> v \<in> set vs \<Longrightarrow> \<exists>i. infos st v = Some i"
  unfolding linked_def by blast

text \<open>What the invariant says of one variable.\<close>

definition var_ok :: "core_table \<Rightarrow> assignments \<Rightarrow> nat set \<Rightarrow> ti_state \<Rightarrow> nat \<Rightarrow> ir_expr \<Rightarrow> bool" where
  "var_ok core asg pending st v e \<longleftrightarrow>
     (\<forall>i. infos st v = Some i \<longrightarrow> scan_ok asg st v e i) \<and>
     (v \<in> pending \<and> is_phi e \<longrightarrow> ready asg st v e) \<and>
     (if is_set st v
      then ready asg st v e \<and> type_le (types st v) (value_type core st e) \<and>
        (v \<in> pending \<or> types st v = value_type core st e)
      else types st v = None \<and> (waiting asg st v e \<longrightarrow> v \<in> pending))"

lemma ti_invariant_alt:
  "ti_invariant core asg vs pending st \<longleftrightarrow> linked asg vs st \<and> pending \<subseteq> set vs \<and>
     (\<forall>v \<in> set vs. \<forall>e. asg v = Some e \<longrightarrow> var_ok core asg pending st v e)"
  unfolding ti_invariant_def var_ok_def by blast

text \<open>States that agree on what the invariant reads of the other variables.\<close>

lemma view_same:
  assumes "is_set st' = is_set st" "types st' = types st"
  shows "scan_ok asg st' v e i = scan_ok asg st v e i" "ready asg st' v e = ready asg st v e"
    "waiting asg st' v e = waiting asg st v e" "value_type core st' e = value_type core st e"
  unfolding scan_ok_def ready_def waiting_def value_type_def assms by (rule refl)+

lemma var_ok_same:
  assumes "var_ok core asg pending st v e" "is_set st' = is_set st" "types st' = types st"
    "\<forall>i. infos st' v = Some i \<longrightarrow> scan_ok asg st v e i"
  shows "var_ok core asg pending st' v e"
  using assms(1,4) unfolding var_ok_def view_same [OF assms(2,3)] assms(2,3) by blast

lemma invariant_put:
  assumes inv: "ti_invariant core asg vs pending st" and v: "infos st v = Some i"
    and same: "dependencies i' = dependencies i" "reverseDependencies i' = reverseDependencies i"
      "setType i' = setType i"
    and scan: "\<forall>e. asg v = Some e \<longrightarrow> scan_ok asg st v e i'"
  shows "ti_invariant core asg vs pending (put_info v i' st)"
proof -
  have set: "is_set (put_info v i' st) = is_set st"
    using v same(3) by (auto simp: is_set_put fun_eq_iff is_set_def)
  have "linked asg vs (put_info v i' st)"
    using inv v same by (auto simp: ti_invariant_def linked_def)
  moreover have "var_ok core asg pending (put_info v i' st) u e"
    if "u \<in> set vs" "asg u = Some e" for u e
  proof -
    have "var_ok core asg pending st u e" using inv that by (simp add: ti_invariant_alt)
    moreover have "\<forall>i. infos (put_info v i' st) u = Some i \<longrightarrow> scan_ok asg st u e i"
      using \<open>var_ok core asg pending st u e\<close> scan that by (auto simp: var_ok_def)
    ultimately show ?thesis using set by (auto intro: var_ok_same)
  qed
  ultimately show ?thesis using inv by (simp add: ti_invariant_alt)
qed

lemma invariant_other:
  assumes "ti_invariant core asg vs pending st" "infos st' = infos st" "types st' = types st"
  shows "ti_invariant core asg vs pending st'"
proof -
  have "is_set st' = is_set st" using assms(2) by (simp add: is_set_def fun_eq_iff)
  then have "var_ok core asg pending st' v e" if "var_ok core asg pending st v e" for v e
    using var_ok_same [OF that _ assms(3)] that assms(2) by (auto simp: var_ok_def)
  then show ?thesis
    using assms by (auto simp: ti_invariant_alt linked_def)
qed

lemma raw_known:
  assumes "linked asg vs st" "set (raw_deps e) \<subseteq> set vs" "asg v = Some e" "\<not> is_phi e" "ready asg st v e"
  shows "\<forall>d \<in> set (raw_deps e). is_set st d"
proof
  fix d assume d: "d \<in> set (raw_deps e)"
  then have "d \<in> dom (infos st)" using assms(1,2) by (auto simp: linked_def)
  then obtain i where i: "infos st d = Some i" by auto
  show "is_set st d"
  proof (cases "asg d = None")
    case True
    then show ?thesis using assms(1) i by (auto simp: linked_def is_set_def)
  next
    case False
    then show ?thesis using assms(3-5) d by (auto simp: ready_def marked_raw)
  qed
qed

lemma not_phi_cases:
  "\<not> is_phi e \<Longrightarrow> value_type core st e = expr_type core (types st) e"
  "\<not> is_phi e \<Longrightarrow> GetExprDeps e = Inr ds \<Longrightarrow> raw_deps e = ds"
  by (cases e; simp add: is_phi_def value_type_def raw_deps_def)+

lemma phi_simps [simp]:
  "value_type core st (ExprPhi inputs) = phi_type (is_set st) (types st) inputs"
  "raw_deps (ExprPhi inputs) = inputs"
  "is_phi (ExprPhi inputs)"
  by (simp_all add: value_type_def raw_deps_def is_phi_def)

lemma phi_cases:
  assumes "is_phi e"
  obtains inputs where "e = ExprPhi inputs"
  using assms by (cases e) (auto simp: is_phi_def)

lemma typableD:
  assumes "typable core asg vs" "v \<in> set vs" "asg v = Some e"
  shows "set (raw_deps e) \<subseteq> set vs" "length (marked asg v) < 2 ^ 15"
    "\<not> is_phi e \<Longrightarrow> args_fit core e" "\<not> is_phi e \<Longrightarrow> GetExprDeps e = Inr (raw_deps e)"
proof -
  have *: "set (raw_deps e) \<subseteq> set vs \<and> length (marked asg v) < 2 ^ 15 \<and>
      (is_phi e \<or> (\<exists>ds. GetExprDeps e = Inr ds) \<and> args_fit core e)"
    using assms unfolding typable_def by blast
  then show "set (raw_deps e) \<subseteq> set vs" "length (marked asg v) < 2 ^ 15" by blast+
  assume p: "\<not> is_phi e"
  then obtain ds where "GetExprDeps e = Inr ds" "args_fit core e" using * by blast
  then show "args_fit core e" "GetExprDeps e = Inr (raw_deps e)"
    using not_phi_cases(2) [OF p] by auto
qed

lemma value_type_mono:
  assumes "typable core asg vs" "linked asg vs st" "v \<in> set vs" "asg v = Some e" "ready asg st v e"
    "env_le (is_set st) (types st) (is_set st') (types st')"
  shows "type_le (value_type core st e) (value_type core st' e)"
proof (cases "is_phi e")
  case True
  then obtain inputs where e: "e = ExprPhi inputs"
    by (rule phi_cases)
  show ?thesis
    using assms(5,6) True e by (auto simp: ready_def intro: phi_type_mono)
next
  case False
  note ty = typableD [OF assms(1,3,4)]
  have "\<forall>d \<in> set (raw_deps e). type_le (types st d) (types st' d)"
    using raw_known [OF assms(2) ty(1) assms(4) False assms(5)] assms(6) by (auto simp: env_le_def)
  then show ?thesis
    using expr_type_mono [OF ty(4) [OF False]] not_phi_cases(1) [OF False] by simp
qed

lemma value_type_cong:
  assumes "typable core asg vs" "v \<in> set vs" "asg v = Some e"
    "\<forall>d \<in> set (raw_deps e). is_set st d = is_set st' d \<and> types st d = types st' d"
  shows "value_type core st e = value_type core st' e"
proof (cases "is_phi e")
  case True
  then show ?thesis
    using assms(4) by (elim phi_cases) (auto intro: phi_type_cong)
next
  case False
  then show ?thesis
    using assms(4) expr_type_cong [OF typableD(4) [OF assms(1-3) False]] not_phi_cases(1) [OF False]
    by auto
qed

section \<open>One variable of the worklist\<close>

lemma next_unset_spec:
  assumes "\<forall>d \<in> set deps. infos st d \<noteq> None" "length deps < 2 ^ 15" "k \<le> length deps"
    "\<forall>j < k. is_set st (deps ! j)"
  shows "(next_unset st deps (int k) = Inr (-1, False) \<and> (\<forall>d \<in> set deps. is_set st d)) \<or>
    (\<exists>k' < length deps. next_unset st deps (int k) = Inr (int k', True) \<and> \<not> is_set st (deps ! k') \<and>
      (\<forall>j < k'. is_set st (deps ! j)))"
  using assms(3,4)
proof (induction "length deps - k" arbitrary: k)
  case 0
  then have "k = length deps" by simp
  moreover have "int16 (int (length deps)) = int (length deps)"
    using assms(2) by (intro int16_small) auto
  ultimately show ?case
    using 0(3) by (subst next_unset.simps) (auto simp: in_set_conv_nth)
next
  case (Suc m)
  then have k: "k < length deps" by simp
  then obtain i where i: "infos st (deps ! k) = Some i"
    using assms(1) nth_mem by blast
  have small: "int16 (int (length deps)) = int (length deps)" "int16 (int k + 1) = int (Suc k)"
    using assms(2) k by (auto simp: int16_small)
  have step: "next_unset st deps (int k) =
      (if setType i then next_unset st deps (int (Suc k)) else Inr (int k, True))"
    using k assms(2) by (subst next_unset.simps) (simp add: small get_info_def i)
  show ?case
  proof (cases "setType i")
    case True
    then have "\<forall>j < Suc k. is_set st (deps ! j)"
      using Suc(4) i by (auto simp: less_Suc_eq is_set_def)
    then show ?thesis
      using Suc(1) [of "Suc k"] Suc(2) k by (simp add: step True)
  next
    case False
    then have "\<not> is_set st (deps ! k)" by (simp add: is_set_def i)
    then show ?thesis
      using Suc(4) k by (auto simp: step False)
  qed
qed

lemma marked_info:
  assumes "linked asg vs st" "typable core asg vs" "v \<in> set vs" "d \<in> set (marked asg v)"
  shows "\<exists>i. infos st d = Some i"
proof (cases "asg v")
  case None
  then show ?thesis using assms(4) by (simp add: marked_def)
next
  case (Some e)
  then have "d \<in> set vs"
    using assms(4) typableD(1) [OF assms(2,3) Some] by (auto simp: marked_raw)
  then show ?thesis using assms(1) by (auto simp: linked_def)
qed

lemma wait_for_deps_spec:
  assumes "ti_invariant core asg vs pending st" "typable core asg vs" "v \<in> set vs" "asg v = Some e"
    "infos st v = Some i"
  shows "\<exists>k hit. wait_for_deps v st = Inr (hit, put_info v (i\<lparr>firstUnsetInput := k\<rparr>) st) \<and>
    scan_ok asg st v e (i\<lparr>firstUnsetInput := k\<rparr>) \<and>
    (if hit then \<not> is_phi e \<and> (\<exists>d \<in> set (marked asg v). \<not> is_set st d)
     else is_phi e \<or> (\<forall>d \<in> set (marked asg v). is_set st d))"
proof -
  have link: "linked asg vs st" and scan: "scan_ok asg st v e i"
    using assms by (auto simp: ti_invariant_def)
  have deps: "dependencies i = marked asg v"
    using link assms(5) by (auto simp: linked_def)
  show ?thesis
  proof (cases "firstUnsetInput i = -1")
    case True
    have same: "i\<lparr>firstUnsetInput := -1\<rparr> = i" using True by simp
    have "put_info v i st = st"
      using assms(5) by (simp add: put_info_def fun_upd_idem)
    then have "wait_for_deps v st = Inr (False, put_info v (i\<lparr>firstUnsetInput := -1\<rparr>) st)"
      unfolding same by (simp add: wait_for_deps_def get_info_def assms(5) True)
    then show ?thesis
      using scan True by (intro exI [of _ "-1"] exI [of _ False]) (auto simp: scan_ok_def)
  next
    case False
    define k where "k = nat (firstUnsetInput i)"
    have k: "firstUnsetInput i = int k" "k \<le> length (marked asg v)" "\<not> is_phi e"
      "\<forall>j < k. is_set st (marked asg v ! j)"
      using scan False by (auto simp: scan_ok_def k_def)
    have infos: "\<forall>d \<in> set (marked asg v). infos st d \<noteq> None"
      using marked_info [OF link assms(2,3)] by auto
    have wait: "wait_for_deps v st = rbind (next_unset st (marked asg v) (int k))
        (\<lambda>(k, hit). Inr (hit, put_info v (i\<lparr>firstUnsetInput := k\<rparr>) st))"
      using k(1) by (simp add: wait_for_deps_def get_info_def assms(5) deps)
    show ?thesis
      using next_unset_spec [OF infos typableD(2) [OF assms(2-4)] k(2,4)]
    proof
      assume n: "next_unset st (marked asg v) (int k) = Inr (-1, False) \<and>
        (\<forall>d \<in> set (marked asg v). is_set st d)"
      then show ?thesis
        by (intro exI [of _ "-1"] exI [of _ False]) (simp add: wait scan_ok_def)
    next
      assume "\<exists>k' < length (marked asg v). next_unset st (marked asg v) (int k) = Inr (int k', True) \<and>
        \<not> is_set st (marked asg v ! k') \<and> (\<forall>j < k'. is_set st (marked asg v ! j))"
      then obtain k' where "k' < length (marked asg v)"
        "next_unset st (marked asg v) (int k) = Inr (int k', True)"
        "\<not> is_set st (marked asg v ! k')" "\<forall>j < k'. is_set st (marked asg v ! j)"
        by blast
      then show ?thesis
        using k(3) nth_mem by (intro exI [of _ "int k'"] exI [of _ True]) (auto simp: wait scan_ok_def)
    qed
  qed
qed

lemma ProcessExpr_value:
  assumes "ti_invariant core asg vs pending st" "typable core asg vs" "v \<in> set vs" "asg v = Some e"
    "ready asg st v e"
  shows "\<exists>I. ProcessExpr core e st = Inr (value_type core st e, st\<lparr>intrinsics := I\<rparr>)"
proof (cases "is_phi e")
  case True
  then obtain inputs where e: "e = ExprPhi inputs" by (rule phi_cases)
  have "dom (infos st) = set vs" using assms(1) by (simp add: ti_invariant_def linked_def)
  then have "\<forall>d \<in> set inputs. infos st d \<noteq> None"
    using typableD(1) [OF assms(2-4)] e by auto
  moreover have "\<exists>d \<in> set inputs. is_set st d" using assms(5) e by (auto simp: ready_def)
  ultimately show ?thesis by (simp add: e phi_loop_pure)
next
  case False
  have "linked asg vs st" using assms(1) by (simp add: ti_invariant_def)
  then show ?thesis
    using ProcessExpr_pure(1) [OF typableD(4) [OF assms(2-4) False] typableD(3) [OF assms(2-4) False]]
      raw_known [OF _ typableD(1) [OF assms(2-4)] assms(4) False assms(5)] not_phi_cases(1) [OF False]
    by auto
qed

lemma invariant_drop:
  assumes "ti_invariant core asg vs (insert v P) st" "asg v = Some e" "v \<in> set vs"
    "is_set st v \<Longrightarrow> types st v = value_type core st e" "\<not> is_set st v \<Longrightarrow> \<not> waiting asg st v e"
  shows "ti_invariant core asg vs P st"
proof -
  have "var_ok core asg P st u f" if "u \<in> set vs" "asg u = Some f" for u f
  proof -
    have "var_ok core asg (insert v P) st u f" using assms(1) that by (simp add: ti_invariant_alt)
    then show ?thesis
      using that assms(2-5) by (cases "u = v") (auto simp: var_ok_def split: if_splits)
  qed
  then show ?thesis using assms(1) by (simp add: ti_invariant_alt)
qed

definition typed :: "nat \<Rightarrow> var_info \<Rightarrow> var_type option \<Rightarrow> ti_state \<Rightarrow> ti_state" where
  "typed v i t st = (put_info v (i\<lparr>setType := True\<rparr>) st)\<lparr>types := (types st)(v := t)\<rparr>"

lemma typed_simps [simp]:
  "types (typed v i t st) = (types st)(v := t)"
  "infos (typed v i t st) = (infos st)(v \<mapsto> i\<lparr>setType := True\<rparr>)"
  "m_workList (typed v i t st) = m_workList st"
  "is_set (typed v i t st) = (is_set st)(v := True)"
  by (simp_all add: typed_def is_set_put fun_eq_iff)

lemma typed_ready:
  "ready asg st u f \<Longrightarrow> ready asg (typed v i t st) u f"
  "asg u = Some f \<Longrightarrow> is_phi f \<Longrightarrow> v \<in> set (marked asg u) \<Longrightarrow> ready asg (typed v i t st) u f"
  by (auto simp: ready_def marked_raw)

lemma typed_scan: "scan_ok asg st u f j \<Longrightarrow> scan_ok asg (typed v i t st) u f j"
  by (auto simp: scan_ok_def)

lemma typed_waiting: "v \<notin> set (marked asg u) \<Longrightarrow> waiting asg (typed v i t st) u f = waiting asg st u f"
  by (auto simp: waiting_def)

lemma invariant_typed:
  assumes inv: "ti_invariant core asg vs (insert v P) st" and typable: "typable core asg vs"
    and v: "v \<in> set vs" "asg v = Some e" "infos st v = Some i" "ready asg st v e"
  defines "t \<equiv> value_type core st e"
  shows "ti_invariant core asg vs (P \<union> {u \<in> set vs. v \<in> set (marked asg u)}) (typed v i t st)"
proof -
  let ?st = "typed v i t st"
  let ?P = "P \<union> {u \<in> set vs. v \<in> set (marked asg u)}"
  have link: "linked asg vs st" and P: "P \<subseteq> set vs" using inv by (auto simp: ti_invariant_def)
  have ok: "var_ok core asg (insert v P) st u f" if "u \<in> set vs" "asg u = Some f" for u f
    using inv that by (simp add: ti_invariant_alt)
  have "is_set st v \<Longrightarrow> type_le (types st v) t"
    using ok [OF v(1,2)] by (simp add: var_ok_def t_def)
  then have le: "env_le (is_set st) (types st) (is_set ?st) (types ?st)"
    by (auto simp: env_le_def)
  have mono: "type_le (value_type core st f) (value_type core ?st f)"
    if "u \<in> set vs" "asg u = Some f" "ready asg st u f" for u f
    by (rule value_type_mono [OF typable link that le])
  have same: "value_type core ?st f = value_type core st f"
    if "u \<in> set vs" "asg u = Some f" "v \<notin> set (marked asg u)" for u f
    using that v(2) marked_raw [of asg u f]
    by (intro value_type_cong [OF typable that(1,2)]) auto
  have "var_ok core asg ?P ?st u f" if u: "u \<in> set vs" "asg u = Some f" for u f
  proof (cases "u = v")
    case True
    then have f: "f = e" using u v(2) by simp
    show ?thesis
      using ok [OF v(1,2)] v(3,4) mono [OF v(1,2,4)] same [OF v(1,2)] True v(1)
      by (auto simp: var_ok_def f t_def typed_ready typed_scan) (auto simp: scan_ok_def)
  next
    case False
    have okP: "var_ok core asg (insert v P) st u f" using ok u by blast
    show ?thesis
    proof (cases "v \<in> set (marked asg u)")
      case True
      then show ?thesis
        using okP False u mono [OF u] type_le_trans
        by (auto simp: var_ok_def typed_ready typed_scan split: if_splits)
    next
      case not: False
      then show ?thesis
        using okP False u same [OF u not] typed_waiting [OF not]
        by (auto simp: var_ok_def typed_ready typed_scan split: if_splits)
    qed
  qed
  moreover have "linked asg vs ?st"
    using link v(2,3) by (auto simp: linked_def)
  ultimately show ?thesis using P by (auto simp: ti_invariant_alt)
qed

definition cycle_of :: "ti_state \<Rightarrow> nat \<Rightarrow> int option" where
  "cycle_of st v = map_option lastUpdateCycle (infos st v)"

lemma sum_list_less:
  fixes f g :: "'a \<Rightarrow> nat"
  assumes "x \<in> set xs" "f x < g x" "\<forall>y \<in> set xs. f y \<le> g y"
  shows "sum_list (map f xs) < sum_list (map g xs)"
  using assms
proof (induction xs)
  case (Cons y ys)
  have "sum_list (map f ys) \<le> sum_list (map g ys)"
    using Cons.prems(3) by (intro sum_list_mono) auto
  then show ?case
    using Cons by (cases "x = y") (auto simp: add_less_le_mono add_le_less_mono)
qed simp

lemma measure_typed:
  assumes "v \<in> set vs" "\<not> (t = types st v \<and> is_set st v)" "is_set st v \<Longrightarrow> type_le (types st v) t"
  shows "measure_of vs (typed v i t st) < measure_of vs st"
  unfolding measure_of_def
  by (rule sum_list_less [OF assms(1)]) (use assms(2,3) in \<open>auto simp: rank_def type_le_def\<close>)

lemma measure_same:
  "is_set st' = is_set st \<Longrightarrow> types st' = types st \<Longrightarrow> measure_of vs st' = measure_of vs st"
proof -
  assume "is_set st' = is_set st" "types st' = types st"
  then have "rank st' = rank st" by (simp add: rank_def fun_eq_iff)
  then show ?thesis by (simp add: measure_of_def)
qed

definition step_result ::
  "core_table \<Rightarrow> assignments \<Rightarrow> nat list \<Rightarrow> int \<Rightarrow> nat \<Rightarrow> nat set \<Rightarrow> ti_state \<Rightarrow> ti_state \<Rightarrow> nat list \<Rightarrow> bool"
where
  "step_result core asg vs c v P st st' new \<longleftrightarrow>
     m_workList st' = m_workList st @ new \<and> ti_invariant core asg vs (P \<union> set new) st' \<and>
     cycle_of st' = (cycle_of st)(v \<mapsto> c) \<and> (\<forall>u \<in> set new. asg u \<noteq> None) \<and>
     (if new = [] then measure_of vs st' \<le> measure_of vs st else measure_of vs st' < measure_of vs st)"

lemma update_type_spec:
  assumes inv: "ti_invariant core asg vs (insert v P) st" and typable: "typable core asg vs"
    and v: "v \<in> set vs" "asg v = Some e" "infos st v = Some i" "ready asg st v e"
  shows "\<exists>st' new. update_type core v e st = Inr st' \<and>
    step_result core asg vs (lastUpdateCycle i) v P st st' new"
proof -
  obtain I where I: "ProcessExpr core e st = Inr (value_type core st e, st\<lparr>intrinsics := I\<rparr>)"
    using ProcessExpr_value [OF inv typable v(1,2,4)] by blast
  let ?t = "value_type core st e"
  have ok: "var_ok core asg (insert v P) st v e" using inv v by (simp add: ti_invariant_alt)
  show ?thesis
  proof (cases "?t = types st v \<and> setType i")
    case True
    then have "is_set st v" "types st v = ?t" using v(3) by (auto simp: is_set_def)
    then have "ti_invariant core asg vs P st"
      by (intro invariant_drop [OF inv v(2,1)]) auto
    then have "ti_invariant core asg vs P (st\<lparr>intrinsics := I\<rparr>)"
      by (rule invariant_other) simp_all
    moreover have "measure_of vs (st\<lparr>intrinsics := I\<rparr>) = measure_of vs st"
      by (rule measure_same) simp_all
    moreover have "cycle_of (st\<lparr>intrinsics := I\<rparr>) = (cycle_of st)(v \<mapsto> lastUpdateCycle i)"
      using v(3) by (auto simp: cycle_of_def fun_eq_iff)
    ultimately show ?thesis
      using True v(3)
      by (intro exI [of _ "st\<lparr>intrinsics := I\<rparr>"] exI [of _ "[]"])
        (simp add: update_type_def I get_info_def step_result_def)
  next
    case False
    then have chg: "\<not> (?t = types st v \<and> is_set st v)" using v(3) by (auto simp: is_set_def)
    let ?new = "reverseDependencies i"
    define st2 where
      "st2 = (typed v i ?t st)\<lparr>intrinsics := I, m_workList := m_workList st @ ?new\<rparr>"
    have st2: "m_workList st2 = m_workList st @ ?new" "is_set st2 = is_set (typed v i ?t st)"
      "types st2 = types (typed v i ?t st)" "infos st2 = infos (typed v i ?t st)"
      by (simp_all add: st2_def)
    have upd: "update_type core v e st = Inr st2"
      using False v(3) by (auto simp: update_type_def I get_info_def typed_def put_info_def st2_def)
    have new: "set ?new = {u \<in> set vs. v \<in> set (marked asg u)}"
      using inv v(3) by (auto simp: ti_invariant_def linked_def)
    have "ti_invariant core asg vs (P \<union> set ?new) (typed v i ?t st)"
      unfolding new by (rule invariant_typed [OF inv typable v])
    then have "ti_invariant core asg vs (P \<union> set ?new) st2"
      using st2(3,4) by (auto intro: invariant_other)
    moreover have "measure_of vs st2 < measure_of vs st"
      using measure_typed [OF v(1) chg, of i] ok measure_same [OF st2(2,3), of vs]
      by (auto simp: var_ok_def)
    moreover have "cycle_of st2 = (cycle_of st)(v \<mapsto> lastUpdateCycle i)"
      by (simp add: cycle_of_def fun_eq_iff st2(4))
    moreover have "\<forall>u \<in> set ?new. asg u \<noteq> None"
      unfolding new by (auto dest: marked_assigned)
    ultimately show ?thesis
      unfolding upd using st2(1)
      by (intro exI [of _ st2] exI [of _ ?new]) (simp add: step_result_def)
  qed
qed

lemma process_var_spec:
  assumes inv: "ti_invariant core asg vs (insert v P) st" and typable: "typable core asg vs"
    and v: "v \<in> set vs" "asg v = Some e" "infos st v = Some i" "lastUpdateCycle i \<noteq> c"
  shows "\<exists>st' new. process_var core asg c v st = Inr st' \<and> step_result core asg vs c v P st st' new"
proof -
  let ?i1 = "i\<lparr>lastUpdateCycle := c\<rparr>"
  let ?st1 = "put_info v ?i1 st"
  have scan: "scan_ok asg st v e i" using inv v by (auto simp: ti_invariant_def)
  have set1: "is_set ?st1 = is_set st"
    using v(3) by (auto simp: is_set_put fun_eq_iff is_set_def)
  have inv1: "ti_invariant core asg vs (insert v P) ?st1"
    using scan v(2) by (intro invariant_put [OF inv v(3)]) (auto simp: scan_ok_def)
  obtain k hit where w: "wait_for_deps v ?st1 = Inr (hit, put_info v (?i1\<lparr>firstUnsetInput := k\<rparr>) ?st1)"
    "scan_ok asg ?st1 v e (?i1\<lparr>firstUnsetInput := k\<rparr>)"
    "if hit then \<not> is_phi e \<and> (\<exists>d \<in> set (marked asg v). \<not> is_set ?st1 d)
     else is_phi e \<or> (\<forall>d \<in> set (marked asg v). is_set ?st1 d)"
    using wait_for_deps_spec [OF inv1 typable v(1,2), of ?i1] by auto
  let ?i2 = "?i1\<lparr>firstUnsetInput := k\<rparr>"
  let ?st2 = "put_info v ?i2 ?st1"
  have inv2: "ti_invariant core asg vs (insert v P) ?st2"
    using w(2) v(2) by (intro invariant_put [OF inv1, of v ?i1]) auto
  have set2: "is_set ?st2 = is_set st"
    using v(3) set1 by (auto simp: is_set_put fun_eq_iff is_set_def)
  have cyc: "cycle_of ?st2 = (cycle_of st)(v \<mapsto> c)"
    by (simp add: cycle_of_def fun_eq_iff)
  have meas: "measure_of vs ?st2 = measure_of vs st"
    by (rule measure_same [OF set2]) simp
  have var: "var_ok core asg (insert v P) ?st2 v e" using inv2 v by (simp add: ti_invariant_alt)
  have step: "process_var core asg c v st = (if hit then Inr ?st2 else update_type core v e ?st2)"
    using v(2-4) by (simp add: process_var_def get_info_def w(1) Let_def)
  show ?thesis
  proof (cases hit)
    case True
    then have not: "\<not> is_phi e" "\<exists>d \<in> set (marked asg v). \<not> is_set ?st2 d"
      using w(3) set1 set2 by auto
    then have "\<not> is_set ?st2 v" using var by (auto simp: var_ok_def ready_def)
    then have "ti_invariant core asg vs P ?st2"
      using not by (intro invariant_drop [OF inv2 v(2,1)]) (auto simp: waiting_def)
    then show ?thesis
      using True cyc meas by (intro exI [of _ ?st2] exI [of _ "[]"]) (simp add: step step_result_def)
  next
    case False
    have "ready asg ?st2 v e"
    proof (cases "is_phi e")
      case True
      then show ?thesis using var by (auto simp: var_ok_def)
    next
      case not: False
      then show ?thesis using w(3) False set1 set2 by (simp add: ready_def)
    qed
    then obtain st' new where "update_type core v e ?st2 = Inr st'"
      "step_result core asg vs c v P ?st2 st' new"
      using update_type_spec [OF inv2 typable v(1,2), of ?i2] by auto
    then show ?thesis
      using False cyc meas
      by (intro exI [of _ st'] exI [of _ new]) (auto simp: step step_result_def split: if_splits)
  qed
qed

section \<open>The loop\<close>

definition cycle_start :: "core_table \<Rightarrow> assignments \<Rightarrow> nat list \<Rightarrow> int \<Rightarrow> ti_state \<Rightarrow> bool" where
  "cycle_start core asg vs c st \<longleftrightarrow> ti_invariant core asg vs (set (m_workList st)) st \<and>
     (\<forall>v k. cycle_of st v = Some k \<longrightarrow> k < c) \<and> (\<forall>v \<in> set (m_workList st). asg v \<noteq> None)"

lemma process_vars_spec:
  assumes typable: "typable core asg vs"
  shows "set ws \<subseteq> set vs \<Longrightarrow> \<forall>v \<in> set ws. asg v \<noteq> None \<Longrightarrow>
    \<forall>v \<in> set (m_workList st). asg v \<noteq> None \<Longrightarrow>
    ti_invariant core asg vs ({v \<in> set ws. cycle_of st v \<noteq> Some c} \<union> set (m_workList st)) st \<Longrightarrow>
    \<forall>v k. cycle_of st v = Some k \<longrightarrow> k \<le> c \<Longrightarrow>
    \<exists>st'. process_vars core asg c ws st = Inr st' \<and>
      ti_invariant core asg vs (set (m_workList st')) st' \<and> (\<forall>v k. cycle_of st' v = Some k \<longrightarrow> k \<le> c) \<and>
      (\<forall>v \<in> set (m_workList st'). asg v \<noteq> None) \<and>
      (m_workList st' = m_workList st \<and> measure_of vs st' \<le> measure_of vs st \<or>
       measure_of vs st' < measure_of vs st)"
proof (induction ws arbitrary: st)
  case Nil
  then show ?case by simp
next
  case (Cons v ws)
  obtain e where e: "asg v = Some e" using Cons.prems(2) by auto
  have v: "v \<in> set vs" using Cons.prems(1) by simp
  then obtain i where i: "infos st v = Some i"
    using Cons.prems(4) linked_info unfolding ti_invariant_def by blast
  show ?case
  proof (cases "lastUpdateCycle i = c")
    case True
    then have "process_var core asg c v st = Inr st"
      by (simp add: process_var_def e get_info_def i)
    moreover have "{u \<in> set (v # ws). cycle_of st u \<noteq> Some c} = {u \<in> set ws. cycle_of st u \<noteq> Some c}"
      using True i by (auto simp: cycle_of_def)
    ultimately show ?thesis
      using Cons.IH [of st] Cons.prems by simp
  next
    case False
    let ?P = "{u \<in> set ws. u \<noteq> v \<and> cycle_of st u \<noteq> Some c} \<union> set (m_workList st)"
    have "{u \<in> set (v # ws). cycle_of st u \<noteq> Some c} \<union> set (m_workList st) = insert v ?P"
      using False i by (auto simp: cycle_of_def)
    then have inv: "ti_invariant core asg vs (insert v ?P) st"
      using Cons.prems(4) by simp
    obtain st1 new where st1: "process_var core asg c v st = Inr st1"
      "step_result core asg vs c v ?P st st1 new"
      using process_var_spec [OF inv typable v e i False] by blast
    then have step: "m_workList st1 = m_workList st @ new" "cycle_of st1 = (cycle_of st)(v \<mapsto> c)"
      "ti_invariant core asg vs (?P \<union> set new) st1" "\<forall>u \<in> set new. asg u \<noteq> None"
      "if new = [] then measure_of vs st1 \<le> measure_of vs st else measure_of vs st1 < measure_of vs st"
      by (auto simp: step_result_def)
    have "?P \<union> set new = {u \<in> set ws. cycle_of st1 u \<noteq> Some c} \<union> set (m_workList st1)"
      by (auto simp: step(1,2))
    then have inv1: "ti_invariant core asg vs
        ({u \<in> set ws. cycle_of st1 u \<noteq> Some c} \<union> set (m_workList st1)) st1"
      using step(3) by simp
    have "\<forall>u \<in> set (m_workList st1). asg u \<noteq> None" using Cons.prems(3) step(1,4) by auto
    moreover have "\<forall>u k. cycle_of st1 u = Some k \<longrightarrow> k \<le> c" using Cons.prems(5) by (auto simp: step(2))
    ultimately obtain st' where st': "process_vars core asg c ws st1 = Inr st'"
      "ti_invariant core asg vs (set (m_workList st')) st'" "\<forall>v k. cycle_of st' v = Some k \<longrightarrow> k \<le> c"
      "\<forall>v \<in> set (m_workList st'). asg v \<noteq> None"
      "m_workList st' = m_workList st1 \<and> measure_of vs st' \<le> measure_of vs st1 \<or>
       measure_of vs st' < measure_of vs st1"
      using Cons.IH [of st1] inv1 Cons.prems(1,2) by auto
    then show ?thesis
      using st1(1) step(1,5) by (intro exI [of _ st']) (auto split: if_splits)
  qed
qed

lemma cycle_start_worklist: "cycle_start core asg vs c st \<Longrightarrow> set (m_workList st) \<subseteq> set vs"
  by (simp add: cycle_start_def ti_invariant_def)

lemma ti_loop_ends:
  assumes typable: "typable core asg vs"
  shows "cycle_start core asg vs c st \<Longrightarrow>
    (if m_workList st = [] then 0 else Suc (measure_of vs st)) < fuel \<Longrightarrow>
    \<exists>st'. ti_loop core asg fuel c st = Some (Inr st') \<and> ti_invariant core asg vs {} st'"
proof (induction fuel arbitrary: c st)
  case (Suc fuel)
  show ?case
  proof (cases "m_workList st = []")
    case True
    then show ?thesis using Suc.prems(1) by (simp add: cycle_start_def)
  next
    case False
    let ?st = "st\<lparr>m_workList := []\<rparr>"
    have cyc: "cycle_of ?st = cycle_of st" by (simp add: cycle_of_def fun_eq_iff)
    have "{v \<in> set (m_workList st). cycle_of ?st v \<noteq> Some c} \<union> set (m_workList ?st) = set (m_workList st)"
      using Suc.prems(1) by (fastforce simp: cycle_start_def cyc)
    moreover have "ti_invariant core asg vs (set (m_workList st)) ?st"
      using Suc.prems(1) by (auto simp: cycle_start_def intro: invariant_other)
    ultimately have inv: "ti_invariant core asg vs
        ({v \<in> set (m_workList st). cycle_of ?st v \<noteq> Some c} \<union> set (m_workList ?st)) ?st"
      by simp
    have le: "\<forall>v k. cycle_of ?st v = Some k \<longrightarrow> k \<le> c"
      using Suc.prems(1) by (fastforce simp: cycle_start_def cyc)
    have meas: "measure_of vs ?st = measure_of vs st"
      by (rule measure_same) simp_all
    have asg: "\<forall>v \<in> set (m_workList st). asg v \<noteq> None"
      using Suc.prems(1) by (simp add: cycle_start_def)
    obtain st1 where st1: "process_vars core asg c (m_workList st) ?st = Inr st1"
      "ti_invariant core asg vs (set (m_workList st1)) st1" "\<forall>v k. cycle_of st1 v = Some k \<longrightarrow> k \<le> c"
      "\<forall>v \<in> set (m_workList st1). asg v \<noteq> None"
      "m_workList st1 = [] \<and> measure_of vs st1 \<le> measure_of vs st \<or> measure_of vs st1 < measure_of vs st"
      using process_vars_spec [OF typable cycle_start_worklist [OF Suc.prems(1)] asg _ inv le] meas
      by auto
    have "cycle_start core asg vs (c + 1) st1"
      using st1(2-4) by (auto simp: cycle_start_def zless_add1_eq order_le_less)
    moreover have "(if m_workList st1 = [] then 0 else Suc (measure_of vs st1)) < fuel"
      using st1(5) Suc.prems(2) False by auto
    ultimately show ?thesis
      using Suc.IH [of "c + 1" st1] False st1(1) by simp
  qed
qed simp

section \<open>The set-up\<close>

definition marks_info :: "assignments \<Rightarrow> nat \<Rightarrow> nat list \<Rightarrow> nat \<Rightarrow> var_info \<Rightarrow> var_info \<Rightarrow> bool" where
  "marks_info asg v ds w i i' \<longleftrightarrow>
     dependencies i' = dependencies i @ (if w = v then filter (\<lambda>d. asg d \<noteq> None) ds else []) \<and>
     set (reverseDependencies i') =
       set (reverseDependencies i) \<union> (if w \<in> set ds \<and> asg w \<noteq> None then {v} else {}) \<and>
     setType i' = setType i \<and> lastUpdateCycle i' = lastUpdateCycle i \<and> firstUnsetInput i' = firstUnsetInput i"

definition same_dom :: "(nat \<Rightarrow> var_info \<Rightarrow> var_info \<Rightarrow> bool) \<Rightarrow> ti_state \<Rightarrow> ti_state \<Rightarrow> bool" where
  "same_dom R st st' \<longleftrightarrow> types st' = types st \<and> m_workList st' = m_workList st \<and>
     (\<forall>w. (infos st w = None \<longrightarrow> infos st' w = None) \<and>
       (\<forall>i. infos st w = Some i \<longrightarrow> (\<exists>i'. infos st' w = Some i' \<and> R w i i')))"

lemma markDep_spec:
  assumes "infos st d \<noteq> None" "infos st v \<noteq> None"
  shows "\<exists>st'. markDep asg v d st = Inr st' \<and> same_dom (marks_info asg v [d]) st st'"
proof (cases "asg d")
  case None
  then show ?thesis
    by (intro exI [of _ st]) (auto simp: markDep_def same_dom_def marks_info_def)
next
  case (Some e)
  obtain i j where i: "infos st d = Some i" "infos st v = Some j" using assms by auto
  show ?thesis
  proof (cases "d = v")
    case True
    then show ?thesis
      using i by (auto simp: markDep_def Some get_info_def Let_def same_dom_def marks_info_def)
  next
    case False
    then show ?thesis
      using i by (auto simp: markDep_def Some get_info_def Let_def same_dom_def marks_info_def)
  qed
qed

lemma markDeps_spec:
  assumes "\<forall>d \<in> set ds. infos st d \<noteq> None" "infos st v \<noteq> None"
  shows "\<exists>st'. markDeps asg v ds st = Inr st' \<and> same_dom (marks_info asg v ds) st st'"
  using assms
proof (induction ds arbitrary: st)
  case Nil
  then show ?case by (auto simp: same_dom_def marks_info_def)
next
  case (Cons d ds)
  obtain st1 where st1: "markDep asg v d st = Inr st1" "same_dom (marks_info asg v [d]) st st1"
    using markDep_spec [of st d v asg] Cons.prems by auto
  have "infos st1 w \<noteq> None \<longleftrightarrow> infos st w \<noteq> None" for w
    using st1(2) by (cases "infos st w") (auto simp: same_dom_def)
  then obtain st2 where st2: "markDeps asg v ds st1 = Inr st2" "same_dom (marks_info asg v ds) st1 st2"
    using Cons.IH [of st1] Cons.prems by auto
  have "same_dom (marks_info asg v (d # ds)) st st2"
    unfolding same_dom_def
  proof (intro conjI allI impI)
    show "types st2 = types st" "m_workList st2 = m_workList st"
      using st1(2) st2(2) by (simp_all add: same_dom_def)
  next
    fix w assume "infos st w = None"
    then show "infos st2 w = None" using st1(2) st2(2) by (simp add: same_dom_def)
  next
    fix w i assume i: "infos st w = Some i"
    then obtain i1 where i1: "infos st1 w = Some i1" "marks_info asg v [d] w i i1"
      using st1(2) by (auto simp: same_dom_def)
    then obtain i2 where i2: "infos st2 w = Some i2" "marks_info asg v ds w i1 i2"
      using st2(2) by (auto simp: same_dom_def)
    have "marks_info asg v (d # ds) w i i2"
      using i1(2) i2(2) by (auto simp: marks_info_def)
    then show "\<exists>i'. infos st2 w = Some i' \<and> marks_info asg v (d # ds) w i i'"
      using i2(1) by blast
  qed
  then show ?case using st1(1) st2(1) by auto
qed

definition info_after :: "assignments \<Rightarrow> nat set \<Rightarrow> nat \<Rightarrow> var_info \<Rightarrow> bool" where
  "info_after asg D w i \<longleftrightarrow>
     dependencies i = (if w \<in> D then marked asg w else []) \<and>
     set (reverseDependencies i) = {u \<in> D. w \<in> set (marked asg u)} \<and>
     setType i = (w \<in> D \<and> asg w = None) \<and> lastUpdateCycle i = -1 \<and>
     firstUnsetInput i = (if w \<in> D \<and> (\<exists>e. asg w = Some e \<and> is_phi e) then -1 else 0)"

definition setup_after :: "assignments \<Rightarrow> nat list \<Rightarrow> nat set \<Rightarrow> ti_state \<Rightarrow> bool" where
  "setup_after asg vs D st \<longleftrightarrow> dom (infos st) = set vs \<and> types st = (\<lambda>_. None) \<and>
     (\<forall>w i. infos st w = Some i \<longrightarrow> info_after asg D w i) \<and>
     set (m_workList st) = {v \<in> D. marked asg v = [] \<and> (\<exists>e. asg v = Some e \<and> \<not> is_phi e)}"

lemma setup_start: "setup_after asg vs {} (ti_start vs)"
proof -
  have "infos (ti_start vs) w = (if w \<in> set vs then Some new_info else None)" for w
    by (induction vs) (auto simp: ti_start_def)
  then show ?thesis
    by (auto simp: setup_after_def info_after_def new_info_def ti_start_def dom_def split: if_splits)
qed

lemma setup_marked:
  assumes "setup_after asg vs D st" "v \<in> set vs" "v \<notin> D" "asg v = Some e"
    "same_dom (marks_info asg v (raw_deps e)) st st'"
  shows "dom (infos st') = set vs" "types st' = (\<lambda>_. None)" "m_workList st' = m_workList st"
    "\<And>w i. infos st' w = Some i \<Longrightarrow> w \<noteq> v \<or> \<not> is_phi e \<Longrightarrow> info_after asg (insert v D) w i"
    "\<And>i. infos st' v = Some i \<Longrightarrow> is_phi e \<Longrightarrow>
      info_after asg (insert v D) v (i\<lparr>firstUnsetInput := -1\<rparr>)"
proof -
  have "infos st' w \<noteq> None \<longleftrightarrow> infos st w \<noteq> None" for w
    using assms(5) by (cases "infos st w") (auto simp: same_dom_def)
  then show "dom (infos st') = set vs" using assms(1) by (auto simp: setup_after_def dom_def)
  show "types st' = (\<lambda>_. None)" "m_workList st' = m_workList st"
    using assms(1,5) by (auto simp: setup_after_def same_dom_def)
  have m: "set (marked asg v) = {d \<in> set (raw_deps e). asg d \<noteq> None}"
    "marked asg v = filter (\<lambda>d. asg d \<noteq> None) (raw_deps e)"
    using assms(4) by (auto simp: marked_def)
  have old: "\<exists>j. info_after asg D w j \<and> marks_info asg v (raw_deps e) w j i"
    if "infos st' w = Some i" for w i
  proof (cases "infos st w")
    case None
    then show ?thesis using assms(5) that by (auto simp: same_dom_def)
  next
    case (Some j)
    then show ?thesis using assms(1,5) that by (fastforce simp: same_dom_def setup_after_def)
  qed
  have deps: "dependencies i = (if w \<in> insert v D then marked asg w else [])"
    and rdeps: "set (reverseDependencies i) = {u \<in> insert v D. w \<in> set (marked asg u)}"
    and rest: "setType i = (w \<in> D \<and> asg w = None)" "lastUpdateCycle i = -1"
      "firstUnsetInput i = (if w \<in> D \<and> (\<exists>e. asg w = Some e \<and> is_phi e) then -1 else 0)"
    if i: "infos st' w = Some i" for w i
  proof -
    obtain j where j: "info_after asg D w j" "marks_info asg v (raw_deps e) w j i"
      using old [OF i] by blast
    show "dependencies i = (if w \<in> insert v D then marked asg w else [])"
      using j assms(3) by (simp add: info_after_def marks_info_def m(2))
    have "set (reverseDependencies i) = {u \<in> D. w \<in> set (marked asg u)} \<union>
        (if w \<in> set (marked asg v) then {v} else {})"
      using j unfolding info_after_def marks_info_def m(1) by simp
    then show "set (reverseDependencies i) = {u \<in> insert v D. w \<in> set (marked asg u)}"
      by auto
    show "setType i = (w \<in> D \<and> asg w = None)" "lastUpdateCycle i = -1"
      "firstUnsetInput i = (if w \<in> D \<and> (\<exists>e. asg w = Some e \<and> is_phi e) then -1 else 0)"
      using j by (simp_all add: info_after_def marks_info_def)
  qed
  show "info_after asg (insert v D) w i" if "infos st' w = Some i" "w \<noteq> v \<or> \<not> is_phi e" for w i
    unfolding info_after_def
    using deps [OF that(1)] rdeps [OF that(1)] rest [OF that(1)] that(2) assms(3,4) by auto
  show "info_after asg (insert v D) v (i\<lparr>firstUnsetInput := -1\<rparr>)" if "infos st' v = Some i" "is_phi e" for i
    unfolding info_after_def
    using deps [OF that(1)] rdeps [OF that(1)] rest [OF that(1)] that(2) assms(3,4) by auto
qed

lemma SetupVariable_spec:
  assumes typable: "typable core asg vs" and D: "setup_after asg vs D st" "v \<in> set vs" "v \<notin> D"
  shows "\<exists>st'. SetupVariable asg v st = Inr st' \<and> setup_after asg vs (insert v D) st'"
proof -
  have "dom (infos st) = set vs" using D(1) by (simp add: setup_after_def)
  then have infos: "infos st w \<noteq> None \<longleftrightarrow> w \<in> set vs" for w by auto
  then obtain i where i: "infos st v = Some i" using D(2) by blast
  show ?thesis
  proof (cases "asg v")
    case None
    then have "marked asg v = []" by (simp add: marked_def)
    then have "setup_after asg vs (insert v D) (put_info v (i\<lparr>setType := True\<rparr>) st)"
      using D i None by (auto simp: setup_after_def info_after_def)
    then show ?thesis by (simp add: SetupVariable_def None get_info_def i)
  next
    case (Some e)
    note raw = typableD(1) [OF typable D(2) Some]
    obtain st1 where st1: "markDeps asg v (raw_deps e) st = Inr st1"
      "same_dom (marks_info asg v (raw_deps e)) st st1"
      using markDeps_spec [of "raw_deps e" st v asg] raw infos D(2) by blast
    note m = setup_marked [OF D Some st1(2)]
    obtain j where j: "infos st1 v = Some j" using m(1) D(2) by blast
    have wl: "set (m_workList st) = {v \<in> D. marked asg v = [] \<and> (\<exists>e. asg v = Some e \<and> \<not> is_phi e)}"
      using D(1) by (simp add: setup_after_def)
    show ?thesis
    proof (cases "is_phi e")
      case True
      then obtain inputs where e: "e = ExprPhi inputs" by (rule phi_cases)
      let ?st = "put_info v (j\<lparr>firstUnsetInput := -1\<rparr>) st1"
      have "info_after asg (insert v D) w k" if "infos ?st w = Some k" for w k
        using that m(4) [of w] m(5) [OF j True] by (cases "w = v") auto
      moreover have "dom (infos ?st) = set vs" using m(1) D(2) by auto
      ultimately have "setup_after asg vs (insert v D) ?st"
        using wl m(2,3) Some True by (auto simp: setup_after_def)
      moreover have "SetupVariable asg v st = Inr ?st"
        using st1(1) by (simp add: SetupVariable_def Some e get_info_def j)
      ultimately show ?thesis by blast
    next
      case False
      let ?st = "if marked asg v = [] then st1\<lparr>m_workList := m_workList st1 @ [v]\<rparr> else st1"
      have mk: "marked asg v = filter (\<lambda>d. asg d \<noteq> None) (raw_deps e)"
        using Some by (simp add: marked_def)
      have "SetupVariable asg v st = Inr ?st"
        using st1(1) typableD(4) [OF typable D(2) Some False] False
        by (cases e) (simp_all add: SetupVariable_def Some mk)
      moreover have "setup_after asg vs (insert v D) ?st"
        using wl m(1-4) False Some by (auto simp: setup_after_def)
      ultimately show ?thesis by blast
    qed
  qed
qed

lemma SetupVariables_spec:
  assumes typable: "typable core asg vs"
  shows "setup_after asg vs D st \<Longrightarrow> set ws \<subseteq> set vs \<Longrightarrow> distinct ws \<Longrightarrow> set ws \<inter> D = {} \<Longrightarrow>
    \<exists>st'. SetupVariables asg ws st = Inr st' \<and> setup_after asg vs (D \<union> set ws) st'"
proof (induction ws arbitrary: D st)
  case (Cons v ws)
  obtain st1 where st1: "SetupVariable asg v st = Inr st1" "setup_after asg vs (insert v D) st1"
    using SetupVariable_spec [OF typable Cons.prems(1), of v] Cons.prems by auto
  then show ?case
    using Cons.IH [OF st1(2)] Cons.prems by auto
qed auto

lemma setup_cycle_start:
  assumes "typable core asg vs" "setup_after asg vs (set vs) st"
  shows "cycle_start core asg vs 1 st"
proof -
  have info: "info_after asg (set vs) v i" if "infos st v = Some i" for v i
    using assms(2) that by (simp add: setup_after_def)
  have dom: "dom (infos st) = set vs" "types st = (\<lambda>_. None)"
    "set (m_workList st) = {v \<in> set vs. marked asg v = [] \<and> (\<exists>e. asg v = Some e \<and> \<not> is_phi e)}"
    using assms(2) by (simp_all add: setup_after_def)
  have set: "is_set st v \<longleftrightarrow> v \<in> set vs \<and> asg v = None" for v
  proof (cases "infos st v")
    case None
    then show ?thesis using dom(1) by (auto simp: is_set_def)
  next
    case (Some i)
    then show ?thesis using info [OF Some] dom(1) by (auto simp: is_set_def info_after_def)
  qed
  have none: "\<not> is_set st d" if "d \<in> set (marked asg v)" for d v
  proof -
    have "asg d \<noteq> None" using that by (cases "asg v") (auto simp: marked_def)
    then show ?thesis by (simp add: set)
  qed
  have link: "linked asg vs st"
    unfolding linked_def using dom
  proof (intro conjI allI impI)
    fix v i assume i: "infos st v = Some i"
    then have v: "v \<in> set vs" using dom(1) by blast
    show "dependencies i = marked asg v" "asg v = None \<Longrightarrow> setType i"
      "set (reverseDependencies i) = {u \<in> set vs. v \<in> set (marked asg u)}"
      using info [OF i] v by (auto simp: info_after_def)
  qed simp_all
  have ok: "var_ok core asg (set (m_workList st)) st v e" if v: "v \<in> set vs" "asg v = Some e" for v e
  proof -
    obtain i where i: "infos st v = Some i" using link v(1) linked_info by blast
    have "scan_ok asg st v e i"
      using info [OF i] v by (auto simp: info_after_def scan_ok_def)
    moreover have "waiting asg st v e \<longrightarrow> v \<in> set (m_workList st)"
      using none [of _ v] v by (cases "marked asg v") (auto simp: waiting_def dom(3))
    moreover have "\<not> is_set st v" using v by (simp add: set)
    ultimately show ?thesis
      using v i dom(2) by (auto simp: var_ok_def dom(3))
  qed
  have "cycle_of st v = Some k \<Longrightarrow> k < 1" for v k
    using info by (auto simp: cycle_of_def info_after_def)
  then show ?thesis
    using link ok dom(3) by (auto simp: cycle_start_def ti_invariant_alt)
qed

section \<open>Runs of a function in SSA form\<close>

text \<open>
  What the pass relies on: which values belong to a type, what constants and closures evaluate to, and what a
  call of a signature on a receiver may return.
\<close>

record 'v value_sem =
  has_type :: "'v \<Rightarrow> var_type \<Rightarrow> bool"
  const_val :: "cc_value \<Rightarrow> 'v"
  closure_val :: "nat \<Rightarrow> 'v"
  call_val :: "string \<Rightarrow> 'v \<Rightarrow> 'v list \<Rightarrow> 'v \<Rightarrow> bool"

text \<open>Expressions whose value the pass knows nothing of.\<close>

definition opaque :: "ir_expr \<Rightarrow> bool" where
  "opaque e \<longleftrightarrow> (case e of
     ExprLoad v \<Rightarrow> (case v of SSAVariable _ \<Rightarrow> False | _ \<Rightarrow> True)
   | ExprConst _ \<Rightarrow> False | ExprFuncCall _ _ _ _ \<Rightarrow> False | ExprClosure _ \<Rightarrow> False | ExprPhi _ \<Rightarrow> False
   | _ \<Rightarrow> True)"

inductive evaluates :: "'v value_sem \<Rightarrow> (nat \<rightharpoonup> 'v) \<Rightarrow> ir_expr \<Rightarrow> 'v \<Rightarrow> bool" for I env where
  ev_const: "evaluates I env (ExprConst c) (const_val I c)"
| ev_load: "env v = Some x \<Longrightarrow> evaluates I env (ExprLoad (SSAVariable v)) x"
| ev_call: "evaluates I env r rx \<Longrightarrow> list_all2 (evaluates I env) args xs \<Longrightarrow> call_val I sig rx xs x \<Longrightarrow>
    evaluates I env (ExprFuncCall node sig (Some r) args) x"
| ev_closure: "evaluates I env (ExprClosure f) (closure_val I f)"
| ev_phi: "v \<in> set inputs \<Longrightarrow> env v = Some x \<Longrightarrow> evaluates I env (ExprPhi inputs) x"
| ev_opaque: "opaque e \<Longrightarrow> evaluates I env e x"

inductive_cases ev_constE [elim!]: "evaluates I env (ExprConst c) x"
inductive_cases ev_loadE [elim!]: "evaluates I env (ExprLoad (SSAVariable v)) x"
inductive_cases ev_callE [elim!]: "evaluates I env (ExprFuncCall node sig receiver args) x"
inductive_cases ev_closureE [elim!]: "evaluates I env (ExprClosure f) x"
inductive_cases ev_phiE [elim!]: "evaluates I env (ExprPhi inputs) x"

text \<open>A run assigns variables of the function, in whatever order its control flow takes.\<close>

inductive ssa_run ::
  "'v value_sem \<Rightarrow> assignments \<Rightarrow> nat list \<Rightarrow> (nat \<rightharpoonup> 'v) \<Rightarrow> (nat \<rightharpoonup> 'v) \<Rightarrow> bool"
  for I asg vs env where
  ssa_refl: "ssa_run I asg vs env env"
| ssa_step: "ssa_run I asg vs env env' \<Longrightarrow> v \<in> set vs \<Longrightarrow> asg v = Some e \<Longrightarrow> evaluates I env' e x \<Longrightarrow>
    ssa_run I asg vs env (env'(v \<mapsto> x))"

text \<open>The table of the core methods tells the truth about what the runtime's methods return.\<close>

definition table_sound :: "core_table \<Rightarrow> 'v value_sem \<Rightarrow> bool" where
  "table_sound core I \<longleftrightarrow>
     (\<forall>c t. ProcessExprConst c = Some t \<longrightarrow> has_type I (const_val I c) t) \<and>
     (\<forall>f. has_type I (closure_val I f) (OBJECT_SYSTEM ''ObjFn'')) \<and>
     (\<forall>sig r xs x t cls fi t'. call_val I sig r xs x \<longrightarrow> has_type I r t \<longrightarrow> core_name t = Some cls \<longrightarrow>
        core cls sig = Some fi \<longrightarrow> returnType fi = Some t' \<longrightarrow> has_type I x t')"

text \<open>
  Every definition comes before its uses: \<open>r\<close> is a position, and a phi node has one input from before.
\<close>

definition grounded :: "(nat \<Rightarrow> nat) \<Rightarrow> assignments \<Rightarrow> nat list \<Rightarrow> bool" where
  "grounded r asg vs \<longleftrightarrow> (\<forall>v \<in> set vs. case asg v of
     None \<Rightarrow> True
   | Some e \<Rightarrow> (if is_phi e then \<exists>d \<in> set (marked asg v). r d < r v
       else \<forall>d \<in> set (marked asg v). r d < r v))"

lemma expr_type_sound:
  assumes sound: "table_sound core I"
    and env: "\<forall>v x t. env v = Some x \<longrightarrow> ty v = Some t \<longrightarrow> has_type I x t"
  shows "evaluates I env e x \<Longrightarrow> expr_type core ty e = Some t \<Longrightarrow> has_type I x t"
proof (induction arbitrary: t rule: evaluates.induct)
  case (ev_const c)
  then show ?case using sound by (simp add: table_sound_def)
next
  case (ev_load v x)
  then show ?case using env by simp
next
  case (ev_call r rx args xs sig x node)
  then show ?case
    using sound unfolding table_sound_def by (auto split: option.splits)
next
  case (ev_closure f)
  then show ?case using sound by (simp add: table_sound_def)
next
  case (ev_opaque e x)
  then show ?case by (cases e) (auto simp: opaque_def split: var_decl.splits)
qed simp

text \<open>Once the worklist is empty, every definition that has one before it is typed.\<close>

lemma all_set:
  assumes typable: "typable core asg vs" and inv: "ti_invariant core asg vs {} st"
    and grounded: "grounded r asg vs"
  shows "v \<in> set vs \<Longrightarrow> is_set st v"
proof (induction "r v" arbitrary: v rule: less_induct)
  case less
  have link: "linked asg vs st" using inv by (simp add: ti_invariant_def)
  show ?case
  proof (cases "asg v")
    case None
    then show ?thesis
      using linked_info [OF link less.prems] link by (auto simp: linked_def is_set_def)
  next
    case (Some e)
    have marked: "set (marked asg v) \<subseteq> set vs"
      using typableD(1) [OF typable less.prems Some] marked_raw [where asg = asg and v = v, OF Some] by blast
    have "if is_phi e then \<exists>d \<in> set (marked asg v). r d < r v else \<forall>d \<in> set (marked asg v). r d < r v"
      using grounded less.prems Some by (fastforce simp: grounded_def)
    then have "waiting asg st v e"
      using less.hyps marked by (auto simp: waiting_def split: if_splits)
    then show ?thesis
      using inv less.prems Some by (auto simp: ti_invariant_def split: if_splits)
  qed
qed

lemma measure_bound: "measure_of vs st \<le> 2 * length vs"
proof -
  have "sum_list (map (rank st) vs) \<le> sum_list (map (\<lambda>_. 2) vs)"
    by (rule sum_list_mono) (simp add: rank_def)
  then show ?thesis by (simp add: measure_of_def sum_list_triv)
qed

lemma ti_Process_ends:
  assumes typable: "typable core asg vs" and grounded: "grounded r asg vs"
    and fuel: "2 * length vs + 2 \<le> fuel"
  shows "\<exists>st. ti_Process core asg fuel vs = Some (Inr st) \<and> ti_invariant core asg vs {} st"
proof -
  have "distinct vs" using typable by (simp add: typable_def)
  then obtain st1 where st1: "SetupVariables asg vs (ti_start vs) = Inr st1" "setup_after asg vs (set vs) st1"
    using SetupVariables_spec [OF typable setup_start, of vs] by auto
  have "(if m_workList st1 = [] then 0 else Suc (measure_of vs st1)) < fuel"
    using measure_bound [of vs st1] fuel by simp
  then obtain st2 where st2: "ti_loop core asg fuel 1 st1 = Some (Inr st2)" "ti_invariant core asg vs {} st2"
    using ti_loop_ends [OF typable setup_cycle_start [OF typable st1(2)]] by blast
  have "case infos st2 v of None \<Rightarrow> False | Some info \<Rightarrow> setType info" if "v \<in> set vs" for v
    using all_set [OF typable st2(2) grounded that] by (auto simp: is_set_def)
  then have "check_set vs st2 = Inr st2"
    by (simp add: check_set_def list_all_iff)
  then show ?thesis
    using st1(1) st2 by (simp add: ti_Process_def)
qed

lemma run_typed:
  assumes typable: "typable core asg vs" and grounded: "grounded r asg vs"
    and inv: "ti_invariant core asg vs {} st" and sound: "table_sound core I"
    and env: "\<forall>v. asg v \<noteq> None \<longrightarrow> env v = None"
  shows "ssa_run I asg vs env env' \<Longrightarrow> env' v = Some x \<Longrightarrow> types st v = Some t \<Longrightarrow> has_type I x t"
proof (induction arbitrary: v x t rule: ssa_run.induct)
  case ssa_refl
  have "asg v \<noteq> None" using inv ssa_refl(2) by (auto simp: ti_invariant_def linked_def)
  then show ?case using env ssa_refl(1) by simp
next
  case (ssa_step env' w e y)
  show ?case
  proof (cases "v = w")
    case False
    then show ?thesis using ssa_step by auto
  next
    case True
    have set: "is_set st d" if "d \<in> set (raw_deps e)" for d
      using typableD(1) [OF typable ssa_step(2,3)] that all_set [OF typable inv grounded] by blast
    have known: "\<forall>v x t. env' v = Some x \<longrightarrow> types st v = Some t \<longrightarrow> has_type I x t"
      using ssa_step(5) by blast
    have "types st w = value_type core st e"
      using inv ssa_step(2,3) all_set [OF typable inv grounded ssa_step(2)] by (auto simp: ti_invariant_def)
    then have vt: "value_type core st e = Some t"
      using ssa_step(7) True by simp
    have "evaluates I env' e y" "x = y" using ssa_step(4,6) True by simp_all
    show ?thesis
    proof (cases "is_phi e")
      case True
      then obtain inputs where e: "e = ExprPhi inputs" by (rule phi_cases)
      obtain u where u: "u \<in> set inputs" "env' u = Some x"
        using ssa_step(4) unfolding e \<open>x = y\<close> by (auto simp: opaque_def elim: ev_phiE)
      have "types st u = Some t"
        using vt set u(1) by (simp add: e phi_type_Some)
      then show ?thesis using known u(2) by blast
    next
      case False
      then show ?thesis
        using expr_type_sound [OF sound known \<open>evaluates I env' e y\<close>] vt \<open>x = y\<close>
        by (simp add: not_phi_cases)
    qed
  qed
qed

section \<open>The result\<close>

text \<open>
  C32: on a function whose variables the pass knows, listed once, with every definition before its uses, the
  type inference ends within two cycles for each variable, and two more, without an error.  It ends with a fixed
  point, in which every variable has the type of its expression, and in any run of the function, in whatever
  order its control flow assigns the variables, a variable that has a type holds values of that type.
\<close>

theorem type_inference_sound:
  assumes "typable core asg vs" "grounded r asg vs" "2 * length vs + 2 \<le> fuel" "table_sound core I"
    "\<forall>v. asg v \<noteq> None \<longrightarrow> env v = None"
  shows "\<exists>st. ti_Process core asg fuel vs = Some (Inr st) \<and>
    (\<forall>v \<in> set vs. \<forall>e. asg v = Some e \<longrightarrow> types st v = value_type core st e) \<and>
    (\<forall>env' v x t. ssa_run I asg vs env env' \<longrightarrow> env' v = Some x \<longrightarrow> types st v = Some t \<longrightarrow> has_type I x t)"
proof -
  obtain st where st: "ti_Process core asg fuel vs = Some (Inr st)" "ti_invariant core asg vs {} st"
    using ti_Process_ends [OF assms(1-3)] by blast
  have "types st v = value_type core st e" if "v \<in> set vs" "asg v = Some e" for v e
    using st(2) that all_set [OF assms(1) st(2) assms(2) that(1)] by (auto simp: ti_invariant_def)
  then show ?thesis
    using st(1) run_typed [OF assms(1,2) st(2) assms(4,5)] by blast
qed

text \<open>A counting loop: \<open>%0 = 0\<close>, \<open>%1 = phi %0 %2\<close>, \<open>%2 = %1 + 1\<close>.\<close>

definition num_core :: core_table where
  "num_core cls sig =
     (if cls = ''ObjNumClass'' \<and> sig = ''+(_)''
      then Some \<lparr>returnType = Some NUM, fn_intrinsic = NUM_ADD, isStatic = False, argTypes = [Some NUM]\<rparr>
      else if cls = ''ObjNumClass'' \<and> sig = ''toString''
      then Some \<lparr>returnType = Some (OBJECT_SYSTEM ''ObjString''), fn_intrinsic = INTRINSIC_NONE,
        isStatic = False, argTypes = []\<rparr>
      else None)"

definition counting_loop :: assignments where
  "counting_loop v =
     (if v = 0 then Some (ExprConst (CcInt 0))
      else if v = 1 then Some (ExprPhi [0, 2])
      else if v = 2 then Some (ExprFuncCall 0 ''+(_)'' (Some (ExprLoad (SSAVariable 1))) [ExprConst (CcInt 1)])
      else None)"

text \<open>Values that are no more than their types.\<close>

definition type_sem :: "var_type value_sem" where
  "type_sem = \<lparr>has_type = (=),
     const_val = (\<lambda>c. case ProcessExprConst c of None \<Rightarrow> OBJECT | Some t \<Rightarrow> t),
     closure_val = (\<lambda>_. OBJECT_SYSTEM ''ObjFn''),
     call_val = (\<lambda>sig r xs x. sig = ''+(_)'' \<and> r = NUM \<and> x = NUM)\<rparr>"

lemma num_core_sound: "table_sound num_core type_sem"
  by (auto simp: table_sound_def type_sem_def num_core_def core_name_def split: if_splits)

lemma counting_loop_ok:
  "typable num_core counting_loop [0, 1, 2]" "grounded id counting_loop [0, 1, 2]"
  by (auto simp: typable_def grounded_def counting_loop_def num_core_def is_phi_def raw_deps_def marked_def)

theorem type_inference_sound_witness:
  "\<exists>st. ti_Process num_core counting_loop 8 [0, 1, 2] = Some (Inr st) \<and>
    (\<forall>v \<in> {0, 1, 2}. \<forall>e. counting_loop v = Some e \<longrightarrow> types st v = value_type num_core st e) \<and>
    (\<forall>env' v x t. ssa_run type_sem counting_loop [0, 1, 2] Map.empty env' \<longrightarrow> env' v = Some x \<longrightarrow>
      types st v = Some t \<longrightarrow> has_type type_sem x t)"
  using type_inference_sound [OF counting_loop_ok _ num_core_sound, of 8 Map.empty] by simp

lemma counting_loop_types:
  "map_option (map_sum id (\<lambda>st. (map (types st) [0, 1, 2], intrinsics st 0)))
    (ti_Process num_core counting_loop 8 [0, 1, 2]) = Some (Inr (replicate 3 (Some NUM), NUM_ADD))"
  by code_simp

lemma mapped_result:
  assumes "map_option (map_sum id f) r = Some (Inr y)"
  shows "\<exists>st. r = Some (Inr st) \<and> f st = y"
proof -
  obtain q where q: "r = Some q" "map_sum id f q = Inr y" using assms by auto
  then show ?thesis by (cases q) auto
qed

text \<open>A call that was marked as an intrinsic: \<open>%2 = %1 + 1\<close> with \<open>%3 = %2.toString\<close>, \<open>%1 = phi %0 %3\<close>.\<close>

definition turning_loop :: assignments where
  "turning_loop v =
     (if v = 0 then Some (ExprConst (CcInt 0))
      else if v = 1 then Some (ExprPhi [0, 3])
      else if v = 2 then Some (ExprFuncCall 0 ''+(_)'' (Some (ExprLoad (SSAVariable 1))) [ExprConst (CcInt 1)])
      else if v = 3 then Some (ExprFuncCall 1 ''toString'' (Some (ExprLoad (SSAVariable 2))) [])
      else None)"

text \<open>
  the mark of an intrinsic is not taken back when the type of the receiver turns out to be unknown: in the
  loop above, the variable \<open>%1\<close> ends without a type, since it is a number in the first round and a string
  in the others, and the call of \<open>+\<close> on it remains marked as the addition of two numbers.
\<close>

theorem stale_intrinsic:
  "\<exists>st. ti_Process num_core turning_loop 10 [0, 1, 2, 3] = Some (Inr st) \<and> types st 1 = None \<and>
    types st 2 = None \<and> intrinsics st 0 = NUM_ADD"
proof -
  have "map_option (map_sum id (\<lambda>st. (types st 1, types st 2, intrinsics st 0)))
    (ti_Process num_core turning_loop 10 [0, 1, 2, 3]) = Some (Inr (None, None, NUM_ADD))"
    by code_simp
  from mapped_result [OF this] show ?thesis by auto
qed

end
