(* ===== verification/Class_Description.thy ===== *)
theory Class_Description
  imports Values Ir_Nodes "HOL-Library.List_Lexorder"
begin

text \<open>
  The description of a class, which the compiler writes into a block of 64-bit words
  (src/backend_llvm/LLVMBackend.cpp) and the runtime reads when the class is created
  (common/ClassDescription.h, common/ClassDescription.cpp).

  Strings are lists of bytes.  The block refers to its strings by their addresses: \<open>addr\<close> is where the
  linker puts a string constant, and \<open>mem\<close> the C string at an address, up to the first null byte.
  Functions are the words that are their addresses.
\<close>

unbundle bit_operations_syntax

type_synonym bytes = "u8 list"

section \<open>Attributes\<close>

record attr_content =
  runtimeAccess :: bool
  attr_str :: "bytes option"
  attr_boolean :: "bool option"
  attr_value :: val

text \<open>
  An attribute pack maps groups and names to contents.  The compiler's is a list in the order in which the
  iteration over its \<open>std::unordered_map\<close> finds the keys.
\<close>

type_synonym attr_key = "bytes \<times> bytes"
type_synonym attr_pack = "(attr_key \<times> attr_content list) list"

section \<open>The compiler's classes\<close>

record method_info =
  mi_signature :: bytes
  mi_isForeign :: bool
  mi_func :: u64
  mi_attributes :: "attr_pack option"

record class_info =
  ci_name :: bytes
  ci_isForeign :: bool
  ci_methods :: "method_info list"
  ci_staticMethods :: "method_info list"
  ci_fields :: "bytes list"
  ci_attributes :: "attr_pack option"

definition name_bytes :: "string \<Rightarrow> bytes" where
  "name_bytes s = map of_char s"

definition IsSystemClass :: "class_info \<Rightarrow> bool" where
  "IsSystemClass info \<longleftrightarrow> ci_name info \<in> set (map (name_bytes \<circ> fst) (buildSysVarNames False))"

definition IsCppSystemClass :: "class_info \<Rightarrow> bool" where
  "IsCppSystemClass info \<longleftrightarrow> ci_name info \<in> set (map (name_bytes \<circ> fst) (buildSysVarNames True))"

section \<open>Commands\<close>

datatype command =
  END | ADD_METHOD | ADD_FIELD | MARK_SYSTEM_CLASS | ADD_ATTRIBUTE_GROUP | MARK_FOREIGN_CLASS

fun command_id :: "command \<Rightarrow> u32" where
  "command_id END = 0"
| "command_id ADD_METHOD = 1"
| "command_id ADD_FIELD = 2"
| "command_id MARK_SYSTEM_CLASS = 3"
| "command_id ADD_ATTRIBUTE_GROUP = 4"
| "command_id MARK_FOREIGN_CLASS = 5"

definition FLAG_NONE :: u32 where "FLAG_NONE = 0"
definition FLAG_STATIC :: u32 where "FLAG_STATIC = 1"
definition FLAG_FOREIGN :: u32 where "FLAG_FOREIGN = 2"

definition ATTR_VALUE :: u32 where "ATTR_VALUE = 0"
definition ATTR_BOOLEAN :: u32 where "ATTR_BOOLEAN = 1"
definition ATTR_STRING :: u32 where "ATTR_STRING = 2"

text \<open>Two 32-bit integers in a little-endian word.\<close>

definition pack32 :: "u32 \<Rightarrow> u32 \<Rightarrow> u64" where
  "pack32 lo hi = ucast lo + push_bit 32 (ucast hi)"

definition low32 :: "u64 \<Rightarrow> u32" where
  "low32 w = ucast w"

definition high32 :: "u64 \<Rightarrow> u32" where
  "high32 w = ucast (drop_bit 32 w)"

section \<open>The writer\<close>

definition addCmdFlag :: "command \<Rightarrow> u32 \<Rightarrow> u64 list" where
  "addCmdFlag cmd flags = [pack32 (command_id cmd) flags]"

definition writeSingleAttribute :: "(bytes \<Rightarrow> u64) \<Rightarrow> bytes \<times> attr_content \<Rightarrow> u64 list" where
  "writeSingleAttribute addr item =
     (let (name, attr) = item;
          (type, result) = (case attr_str attr of
             Some s \<Rightarrow> (ATTR_STRING, addr s)
           | None \<Rightarrow> (case attr_boolean attr of
                Some b \<Rightarrow> (ATTR_BOOLEAN, of_bool b)
              | None \<Rightarrow> (ATTR_VALUE, attr_value attr)))
      in [addr name, ucast type, result])"

text \<open>The keys of a group, and the attributes that are visible at runtime.\<close>

definition group_contents :: "attr_pack \<Rightarrow> bytes \<Rightarrow> (bytes \<times> attr_content) list" where
  "group_contents pack grp =
     concat (map (\<lambda>((g, name), contents). map (\<lambda>c. (name, c)) (filter runtimeAccess contents))
       (filter (\<lambda>((g, name), contents). g = grp) pack))"

definition pack_groups :: "attr_pack \<Rightarrow> bytes list" where
  "pack_groups pack = sort (remdups (map (\<lambda>((g, name), contents). g) pack))"

definition write_group :: "(bytes \<Rightarrow> u64) \<Rightarrow> u32 \<Rightarrow> bytes \<Rightarrow> (bytes \<times> attr_content) list \<Rightarrow> u64 list" where
  "write_group addr method grp contents =
     (if contents = [] then []
      else addCmdFlag ADD_ATTRIBUTE_GROUP FLAG_NONE @
        [addr grp, ucast method + push_bit 32 (word_of_nat (length contents))] @
        concat (map (writeSingleAttribute addr) contents))"

definition writeAttributes :: "(bytes \<Rightarrow> u64) \<Rightarrow> attr_pack option \<Rightarrow> u32 \<Rightarrow> u64 list" where
  "writeAttributes addr attributes method =
     (case attributes of
        None \<Rightarrow> []
      | Some pack \<Rightarrow> concat (map (\<lambda>g. write_group addr method g (group_contents pack g)) (pack_groups pack)))"

definition method_flags :: "method_info \<Rightarrow> bool \<Rightarrow> u32" where
  "method_flags method isStatic =
     (if isStatic then FLAG_STATIC else 0) OR (if mi_isForeign method then FLAG_FOREIGN else 0)"

fun writeMethods :: "(bytes \<Rightarrow> u64) \<Rightarrow> bool \<Rightarrow> nat \<Rightarrow> method_info list \<Rightarrow> u64 list" where
  "writeMethods addr isStatic methodId [] = []"
| "writeMethods addr isStatic methodId (method # ms) =
     addCmdFlag ADD_METHOD (method_flags method isStatic) @ [addr (mi_signature method), mi_func method] @
     writeAttributes addr (mi_attributes method) (word_of_nat methodId) @
     writeMethods addr isStatic (Suc methodId) ms"

definition write_fields :: "(bytes \<Rightarrow> u64) \<Rightarrow> bytes list \<Rightarrow> u64 list" where
  "write_fields addr names = concat (map (\<lambda>name. addCmdFlag ADD_FIELD FLAG_NONE @ [addr name]) names)"

definition write_class :: "(bytes \<Rightarrow> u64) \<Rightarrow> class_info \<Rightarrow> u64 list" where
  "write_class addr info =
     (if IsCppSystemClass info then addCmdFlag MARK_SYSTEM_CLASS 0 else []) @
     (if ci_isForeign info then addCmdFlag MARK_FOREIGN_CLASS 0 else []) @
     writeAttributes addr (ci_attributes info) (-1) @
     writeMethods addr False 0 (ci_methods info) @
     writeMethods addr True (length (ci_methods info)) (ci_staticMethods info) @
     write_fields addr (ci_fields info) @
     addCmdFlag END FLAG_NONE"

section \<open>The reader\<close>

record method_decl =
  md_name :: bytes
  md_func :: u64
  md_isStatic :: bool
  md_isForeign :: bool

record attribute_group =
  ag_method :: int
  ag_name :: bytes
  ag_attributes :: "(bytes \<times> attr_content) list"

record class_description =
  isSystemClass :: bool
  isForeignClass :: bool
  decl_methods :: "method_decl list"
  decl_fields :: "bytes list"
  decl_attributes :: "attribute_group list"

definition empty_description :: class_description where
  "empty_description = \<lparr>isSystemClass = False, isForeignClass = False, decl_methods = [], decl_fields = [],
     decl_attributes = []\<rparr>"

definition read_content :: "(u64 \<Rightarrow> bytes) \<Rightarrow> u32 \<Rightarrow> u64 \<Rightarrow> attr_content res" where
  "read_content mem type v =
     (if type = ATTR_VALUE
      then Inr \<lparr>runtimeAccess = True, attr_str = None, attr_boolean = None, attr_value = v\<rparr>
      else if type = ATTR_BOOLEAN
      then Inr \<lparr>runtimeAccess = True, attr_str = None, attr_boolean = Some (v \<noteq> 0), attr_value = NULL_VAL\<rparr>
      else if type = ATTR_STRING
      then Inr \<lparr>runtimeAccess = True, attr_str = Some (mem v), attr_boolean = None, attr_value = NULL_VAL\<rparr>
      else Inl Fatal)"

text \<open>The items of an attribute group, and the words after them; a read past the block is undefined.\<close>

fun read_items ::
  "(u64 \<Rightarrow> bytes) \<Rightarrow> nat \<Rightarrow> u64 list \<Rightarrow> ((bytes \<times> attr_content) list \<times> u64 list) res" where
  "read_items mem 0 ws = Inr ([], ws)"
| "read_items mem (Suc n) (name # type # v # ws) =
     rbind (read_content mem (low32 type) v) (\<lambda>content.
     rbind (read_items mem n ws) (\<lambda>(items, ws).
       Inr ((mem name, content) # items, ws)))"
| "read_items mem (Suc n) _ = Inl Undefined"

lemma read_items_length: "read_items mem n ws = Inr (items, ws') \<Longrightarrow> length ws' \<le> length ws"
  by (induction mem n ws arbitrary: items ws' rule: read_items.induct) (fastforce simp: rbind_eq_Inr_iff)+

text \<open>A group whose count is negative would move the reader backwards; that is left undefined.\<close>

function Parse :: "(u64 \<Rightarrow> bytes) \<Rightarrow> u64 list \<Rightarrow> class_description \<Rightarrow> class_description res" where
  "Parse mem [] d = Inl Undefined"
| "Parse mem (cmd # data) d =
     (let command = low32 cmd; flags = high32 cmd in
      if command = command_id END then Inr d
      else if command = command_id ADD_METHOD then
        (case data of
           name # f # data \<Rightarrow> Parse mem data (d\<lparr>decl_methods := decl_methods d @
             [\<lparr>md_name = mem name, md_func = f, md_isStatic = (flags AND FLAG_STATIC \<noteq> 0),
               md_isForeign = (flags AND FLAG_FOREIGN \<noteq> 0)\<rparr>]\<rparr>)
         | _ \<Rightarrow> Inl Undefined)
      else if command = command_id ADD_FIELD then
        (case data of
           name # data \<Rightarrow> Parse mem data (d\<lparr>decl_fields := decl_fields d @ [mem name]\<rparr>)
         | _ \<Rightarrow> Inl Undefined)
      else if command = command_id MARK_SYSTEM_CLASS then Parse mem data (d\<lparr>isSystemClass := True\<rparr>)
      else if command = command_id MARK_FOREIGN_CLASS then Parse mem data (d\<lparr>isForeignClass := True\<rparr>)
      else if command = command_id ADD_ATTRIBUTE_GROUP then
        (case data of
           groupName # methodAndCount # data \<Rightarrow>
             (if sint (high32 methodAndCount) < 0 then Inl Undefined
              else rbind (read_items mem (nat (sint (high32 methodAndCount))) data) (\<lambda>(items, data).
                Parse mem data (d\<lparr>decl_attributes := decl_attributes d @
                  [\<lparr>ag_method = sint (low32 methodAndCount), ag_name = mem groupName,
                    ag_attributes = items\<rparr>]\<rparr>)))
         | _ \<Rightarrow> Inl Undefined)
      else Inl Fatal)"
  by pat_completeness auto
termination
  by (relation "measure (\<lambda>(mem, ws, d). length ws)") (auto dest: read_items_length)

declare Parse.simps [simp del]

section \<open>The attributes that a class gets\<close>

text \<open>The packs of \<open>InitialiseAttributes\<close>, from keys to contents in the order of the description.\<close>

type_synonym runtime_pack = "attr_key \<Rightarrow> attr_content list"

definition add_items :: "bytes \<Rightarrow> (bytes \<times> attr_content) list \<Rightarrow> runtime_pack \<Rightarrow> runtime_pack" where
  "add_items grp items pack =
     fold (\<lambda>(name, attr) pack. pack((grp, name) := pack (grp, name) @ [attr])) items pack"

definition method_key :: "method_decl \<Rightarrow> bytes" where
  "method_key method =
     (let name = md_name method;
          name = (if md_isForeign method then name_bytes ''foreign '' @ name else name);
          name = (if md_isStatic method then name_bytes ''static '' @ name else name)
      in name)"

text \<open>\<open>methods.at\<close> throws an exception of the C++ library for an unknown method.\<close>

fun sort_groups ::
  "method_decl list \<Rightarrow> attribute_group list \<Rightarrow> runtime_pack \<times> (bytes \<rightharpoonup> runtime_pack) \<Rightarrow>
     (runtime_pack \<times> (bytes \<rightharpoonup> runtime_pack)) res" where
  "sort_groups ms [] packs = Inr packs"
| "sort_groups ms (grp # gs) (classAttrs, methodAttrs) =
     (if ag_method grp = -1
      then sort_groups ms gs (add_items (ag_name grp) (ag_attributes grp) classAttrs, methodAttrs)
      else if \<not> (0 \<le> ag_method grp \<and> ag_method grp < int (length ms)) then Inl Fatal
      else let name = method_key (ms ! nat (ag_method grp));
               pack = (case methodAttrs name of None \<Rightarrow> (\<lambda>_. []) | Some pack \<Rightarrow> pack)
           in sort_groups ms gs
             (classAttrs, methodAttrs(name \<mapsto> add_items (ag_name grp) (ag_attributes grp) pack)))"

definition attribute_packs :: "class_description \<Rightarrow> (runtime_pack \<times> (bytes \<rightharpoonup> runtime_pack)) res" where
  "attribute_packs d = sort_groups (decl_methods d) (decl_attributes d) (\<lambda>_. [], Map.empty)"

end
