(* ===== verification/Class_Description_Proofs.thy ===== *)
theory Class_Description_Proofs
  imports Class_Description
begin

text \<open>
  What the runtime reads from the description of a class is what the compiler wrote: the methods in order, the
  fields, and for each key the attributes that are visible at runtime.
\<close>

section \<open>Words\<close>

lemma pack32_parts [simp]: "low32 (pack32 lo hi) = lo" "high32 (pack32 lo hi) = hi"
proof -
  have p: "pack32 lo hi = ucast lo OR push_bit 32 (ucast hi)"
    unfolding pack32_def
    by (rule disjunctive_add) (auto simp: bit_simps dest: bit_imp_le_length)
  show "low32 (pack32 lo hi) = lo"
    unfolding low32_def p by (rule bit_eqI) (auto simp: bit_simps dest: bit_imp_le_length)
  show "high32 (pack32 lo hi) = hi"
    unfolding high32_def p by (rule bit_eqI) (auto simp: bit_simps dest: bit_imp_le_length)
qed

lemma low32_ucast [simp]: "low32 (ucast (w :: u32)) = w"
  unfolding low32_def by (rule bit_eqI) (auto simp: bit_simps dest: bit_imp_le_length)

lemma flags_read [simp]:
  "method_flags m s AND FLAG_STATIC \<noteq> 0 \<longleftrightarrow> s" "method_flags m s AND FLAG_FOREIGN \<noteq> 0 \<longleftrightarrow> mi_isForeign m"
  by (simp_all add: method_flags_def FLAG_STATIC_def FLAG_FOREIGN_def)

lemma count_word: "n < 2 ^ 31 \<Longrightarrow> (word_of_nat n :: u64) = ucast (word_of_nat n :: u32)"
  by (simp add: unsigned_of_nat take_bit_nat_eq_self)

lemma sint_count: "n < 2 ^ 31 \<Longrightarrow> sint (word_of_nat n :: u32) = int n"
  by (simp add: signed_of_nat signed_take_bit_int_eq_self)

section \<open>Strings\<close>

definition c_str :: "bytes \<Rightarrow> bytes" where
  "c_str s = takeWhile (\<lambda>b. b \<noteq> 0) s"

lemma c_str_id: "0 \<notin> set s \<Longrightarrow> c_str s = s"
  by (induction s) (auto simp: c_str_def)

definition linked :: "(u64 \<Rightarrow> bytes) \<Rightarrow> (bytes \<Rightarrow> u64) \<Rightarrow> bytes set \<Rightarrow> bool" where
  "linked mem addr S \<longleftrightarrow> (\<forall>s \<in> S. mem (addr s) = c_str s)"

definition pack_names :: "attr_pack \<Rightarrow> bytes set" where
  "pack_names pack = (\<Union>((g, n), cs) \<in> set pack. {g, n})"

definition pack_strings :: "attr_pack \<Rightarrow> bytes set" where
  "pack_strings pack = pack_names pack \<union> (\<Union>((g, n), cs) \<in> set pack. \<Union>c \<in> set cs. set_option (attr_str c))"

definition class_packs :: "class_info \<Rightarrow> attr_pack set" where
  "class_packs info = set_option (ci_attributes info) \<union>
     (\<Union>m \<in> set (ci_methods info) \<union> set (ci_staticMethods info). set_option (mi_attributes m))"

definition class_names :: "class_info \<Rightarrow> bytes set" where
  "class_names info = mi_signature ` (set (ci_methods info) \<union> set (ci_staticMethods info)) \<union>
     set (ci_fields info) \<union> (\<Union>pack \<in> class_packs info. pack_names pack)"

definition class_strings :: "class_info \<Rightarrow> bytes set" where
  "class_strings info = class_names info \<union> (\<Union>pack \<in> class_packs info. pack_strings pack)"

section \<open>One command\<close>

lemma command_ids [simp]: "command_id a = command_id b \<longleftrightarrow> a = b"
  by (cases a; cases b) simp_all

lemma Parse_end: "Parse mem (addCmdFlag END f @ ws) d = Inr d"
  by (simp add: addCmdFlag_def Parse.simps)

lemma Parse_system: "Parse mem (addCmdFlag MARK_SYSTEM_CLASS f @ ws) d = Parse mem ws (d\<lparr>isSystemClass := True\<rparr>)"
  by (simp add: addCmdFlag_def Parse.simps del: command_id.simps)

lemma Parse_foreign:
  "Parse mem (addCmdFlag MARK_FOREIGN_CLASS f @ ws) d = Parse mem ws (d\<lparr>isForeignClass := True\<rparr>)"
  by (simp add: addCmdFlag_def Parse.simps del: command_id.simps)

definition decl :: "bool \<Rightarrow> method_info \<Rightarrow> method_decl" where
  "decl static m = \<lparr>md_name = c_str (mi_signature m), md_func = mi_func m, md_isStatic = static,
     md_isForeign = mi_isForeign m\<rparr>"

lemma Parse_method:
  assumes "mem (addr (mi_signature m)) = c_str (mi_signature m)"
  shows "Parse mem (addCmdFlag ADD_METHOD (method_flags m static) @ [addr (mi_signature m), mi_func m] @ ws) d =
    Parse mem ws (d\<lparr>decl_methods := decl_methods d @ [decl static m]\<rparr>)"
  using assms by (simp add: addCmdFlag_def Parse.simps decl_def del: command_id.simps)

section \<open>Attributes\<close>

definition read_attr :: "attr_content \<Rightarrow> attr_content" where
  "read_attr c = (case attr_str c of
     Some s \<Rightarrow> \<lparr>runtimeAccess = True, attr_str = Some (c_str s), attr_boolean = None, attr_value = NULL_VAL\<rparr>
   | None \<Rightarrow> (case attr_boolean c of
       Some b \<Rightarrow> \<lparr>runtimeAccess = True, attr_str = None, attr_boolean = Some b, attr_value = NULL_VAL\<rparr>
     | None \<Rightarrow> \<lparr>runtimeAccess = True, attr_str = None, attr_boolean = None, attr_value = attr_value c\<rparr>))"

definition read_item :: "bytes \<times> attr_content \<Rightarrow> bytes \<times> attr_content" where
  "read_item item = (c_str (fst item), read_attr (snd item))"

definition item_strings :: "bytes \<times> attr_content \<Rightarrow> bytes set" where
  "item_strings item = insert (fst item) (set_option (attr_str (snd item)))"

lemma write_single:
  assumes "\<forall>s. attr_str c = Some s \<longrightarrow> mem (addr s) = c_str s"
  shows "\<exists>ty v. writeSingleAttribute addr (name, c) = [addr name, ucast ty, v] \<and>
    read_content mem ty v = Inr (read_attr c)"
proof (cases "attr_str c")
  case str: None
  show ?thesis
  proof (cases "attr_boolean c")
    case None
    then show ?thesis
      using str by (intro exI [of _ ATTR_VALUE] exI [of _ "attr_value c"])
        (simp add: writeSingleAttribute_def read_content_def read_attr_def)
  next
    case (Some b)
    then show ?thesis
      using str by (intro exI [of _ ATTR_BOOLEAN] exI [of _ "of_bool b"])
        (simp add: writeSingleAttribute_def read_content_def read_attr_def ATTR_VALUE_def ATTR_BOOLEAN_def)
  qed
next
  case (Some s)
  then show ?thesis
    using assms by (intro exI [of _ ATTR_STRING] exI [of _ "addr s"])
      (simp add: writeSingleAttribute_def read_content_def read_attr_def ATTR_VALUE_def ATTR_BOOLEAN_def
        ATTR_STRING_def)
qed

lemma read_items_write:
  assumes "\<forall>item \<in> set items. linked mem addr (item_strings item)"
  shows "read_items mem (length items) (concat (map (writeSingleAttribute addr) items) @ ws) =
    Inr (map read_item items, ws)"
  using assms
proof (induction items)
  case (Cons item items)
  obtain name c where item: "item = (name, c)" by (cases item)
  have n: "mem (addr name) = c_str name" and str: "\<forall>s. attr_str c = Some s \<longrightarrow> mem (addr s) = c_str s"
    using Cons.prems by (auto simp: item linked_def item_strings_def)
  obtain ty v where "writeSingleAttribute addr (name, c) = [addr name, ucast ty, v]"
    "read_content mem ty v = Inr (read_attr c)"
    using write_single [OF str] by blast
  then show ?case
    using Cons.IH Cons.prems n by (simp add: item read_item_def)
qed simp

lemma Parse_group:
  assumes "length items < 2 ^ 31" "mem (addr g) = c_str g"
    "\<forall>item \<in> set items. linked mem addr (item_strings item)"
  shows "Parse mem (write_group addr m g items @ ws) d =
    Parse mem ws (d\<lparr>decl_attributes := decl_attributes d @ (if items = [] then [] else
      [\<lparr>ag_method = sint m, ag_name = c_str g, ag_attributes = map read_item items\<rparr>])\<rparr>)"
proof (cases "items = []")
  case False
  have "ucast m + push_bit 32 (word_of_nat (length items)) = pack32 m (word_of_nat (length items))"
    using assms(1) by (simp add: pack32_def count_word)
  then show ?thesis
    using False assms
    by (simp add: write_group_def addCmdFlag_def Parse.simps sint_count read_items_write del: command_id.simps)
qed (simp add: write_group_def)

definition expected_groups :: "u32 \<Rightarrow> attr_pack option \<Rightarrow> attribute_group list" where
  "expected_groups m attributes = (case attributes of
     None \<Rightarrow> []
   | Some pack \<Rightarrow> map (\<lambda>g. \<lparr>ag_method = sint m, ag_name = c_str g,
       ag_attributes = map read_item (group_contents pack g)\<rparr>)
       (filter (\<lambda>g. group_contents pack g \<noteq> []) (pack_groups pack)))"

text \<open>Packs whose groups are small enough for their length to fit into the description.\<close>

definition small_pack :: "attr_pack \<Rightarrow> bool" where
  "small_pack pack \<longleftrightarrow> (\<forall>g. length (group_contents pack g) < 2 ^ 31)"

lemma group_contents_strings:
  assumes "item \<in> set (group_contents pack g)"
  shows "item_strings item \<subseteq> pack_strings pack"
  using assms by (fastforce simp: group_contents_def item_strings_def pack_strings_def pack_names_def)

lemma pack_groups_set: "set (pack_groups pack) = fst ` fst ` set pack"
  by (force simp: pack_groups_def)

lemma linked_mono: "linked mem addr S \<Longrightarrow> T \<subseteq> S \<Longrightarrow> linked mem addr T"
  by (auto simp: linked_def)

lemma Parse_groups:
  assumes "linked mem addr (pack_strings pack)" "small_pack pack" "set gs \<subseteq> set (pack_groups pack)"
  shows "Parse mem (concat (map (\<lambda>g. write_group addr m g (group_contents pack g)) gs) @ ws) d =
    Parse mem ws (d\<lparr>decl_attributes := decl_attributes d @
      map (\<lambda>g. \<lparr>ag_method = sint m, ag_name = c_str g, ag_attributes = map read_item (group_contents pack g)\<rparr>)
        (filter (\<lambda>g. group_contents pack g \<noteq> []) gs)\<rparr>)"
  using assms(3)
proof (induction gs arbitrary: d)
  case (Cons g gs)
  have "g \<in> pack_strings pack"
    using Cons.prems by (fastforce simp: pack_groups_set pack_strings_def pack_names_def)
  then have "mem (addr g) = c_str g" using assms(1) by (simp add: linked_def)
  moreover have "\<forall>item \<in> set (group_contents pack g). linked mem addr (item_strings item)"
    using linked_mono [OF assms(1) group_contents_strings] by blast
  ultimately show ?case
    using Parse_group [of "group_contents pack g" mem addr g m] assms(2) Cons
    by (simp add: small_pack_def)
qed simp

lemma Parse_attributes:
  assumes "\<forall>pack. attributes = Some pack \<longrightarrow> linked mem addr (pack_strings pack) \<and> small_pack pack"
  shows "Parse mem (writeAttributes addr attributes m @ ws) d =
    Parse mem ws (d\<lparr>decl_attributes := decl_attributes d @ expected_groups m attributes\<rparr>)"
  using assms Parse_groups [OF _ _ subset_refl]
  by (simp add: writeAttributes_def expected_groups_def split: option.splits)

section \<open>Methods and fields\<close>

fun method_groups :: "nat \<Rightarrow> method_info list \<Rightarrow> attribute_group list" where
  "method_groups i [] = []"
| "method_groups i (m # ms) = expected_groups (word_of_nat i) (mi_attributes m) @ method_groups (Suc i) ms"

lemma Parse_methods:
  assumes "\<forall>m \<in> set ms. mem (addr (mi_signature m)) = c_str (mi_signature m) \<and>
    (\<forall>pack. mi_attributes m = Some pack \<longrightarrow> linked mem addr (pack_strings pack) \<and> small_pack pack)"
  shows "Parse mem (writeMethods addr static i ms @ ws) d =
    Parse mem ws (d\<lparr>decl_methods := decl_methods d @ map (decl static) ms,
      decl_attributes := decl_attributes d @ method_groups i ms\<rparr>)"
  using assms
proof (induction ms arbitrary: i d)
  case (Cons m ms)
  then have "mem (addr (mi_signature m)) = c_str (mi_signature m)"
    "\<forall>pack. mi_attributes m = Some pack \<longrightarrow> linked mem addr (pack_strings pack) \<and> small_pack pack"
    by auto
  then show ?case
    using Cons Parse_method [of mem addr m static] Parse_attributes [of "mi_attributes m" mem addr]
    by simp
qed simp

lemma Parse_fields:
  assumes "\<forall>f \<in> set fs. mem (addr f) = c_str f"
  shows "Parse mem (write_fields addr fs @ ws) d = Parse mem ws (d\<lparr>decl_fields := decl_fields d @ map c_str fs\<rparr>)"
  using assms
proof (induction fs arbitrary: d)
  case Nil
  then show ?case by (simp add: write_fields_def)
next
  case (Cons f fs)
  then show ?case
    by (simp add: write_fields_def addCmdFlag_def Parse.simps del: command_id.simps)
qed

definition expected_description :: "class_info \<Rightarrow> class_description" where
  "expected_description info = \<lparr>isSystemClass = IsCppSystemClass info, isForeignClass = ci_isForeign info,
     decl_methods = map (decl False) (ci_methods info) @ map (decl True) (ci_staticMethods info),
     decl_fields = map c_str (ci_fields info),
     decl_attributes = expected_groups (-1) (ci_attributes info) @ method_groups 0 (ci_methods info) @
       method_groups (length (ci_methods info)) (ci_staticMethods info)\<rparr>"

lemma Parse_class:
  assumes linked: "linked mem addr (class_strings info)" and small: "\<forall>pack \<in> class_packs info. small_pack pack"
  shows "Parse mem (write_class addr info) empty_description = Inr (expected_description info)"
proof -
  have packs: "linked mem addr (pack_strings pack) \<and> small_pack pack" if "pack \<in> class_packs info" for pack
    using that small linked_mono [OF linked] by (auto simp: class_strings_def)
  have names: "mem (addr s) = c_str s" if "s \<in> class_names info" for s
    using that linked by (simp add: linked_def class_strings_def)
  have "\<forall>m \<in> set (ci_methods info) \<union> set (ci_staticMethods info).
      mem (addr (mi_signature m)) = c_str (mi_signature m) \<and>
      (\<forall>pack. mi_attributes m = Some pack \<longrightarrow> linked mem addr (pack_strings pack) \<and> small_pack pack)"
    using packs names by (fastforce simp: class_packs_def class_names_def)
  then have methods: "\<And>ws d i. Parse mem (writeMethods addr s i ms @ ws) d =
      Parse mem ws (d\<lparr>decl_methods := decl_methods d @ map (decl s) ms,
        decl_attributes := decl_attributes d @ method_groups i ms\<rparr>)"
    if "ms = ci_methods info \<or> ms = ci_staticMethods info" for s ms
    using that by (intro Parse_methods) auto
  have attrs: "Parse mem (writeAttributes addr (ci_attributes info) m @ ws) d =
      Parse mem ws (d\<lparr>decl_attributes := decl_attributes d @ expected_groups m (ci_attributes info)\<rparr>)" for m ws d
    using packs by (intro Parse_attributes) (auto simp: class_packs_def)
  have fields: "Parse mem (write_fields addr (ci_fields info) @ ws) d =
      Parse mem ws (d\<lparr>decl_fields := decl_fields d @ map c_str (ci_fields info)\<rparr>)" for ws d
    using names by (intro Parse_fields) (auto simp: class_names_def)
  show ?thesis
    using Parse_end [where ws = "[]"]
    by (simp add: write_class_def Parse_system Parse_foreign attrs methods fields empty_description_def
        expected_description_def)
qed

section \<open>The packs of a class\<close>

definition items_at :: "attr_key \<Rightarrow> attribute_group \<Rightarrow> attr_content list" where
  "items_at k g = (if ag_name g = fst k then map snd (filter (\<lambda>i. fst i = snd k) (ag_attributes g)) else [])"

definition items_for :: "(int \<Rightarrow> bool) \<Rightarrow> attr_key \<Rightarrow> attribute_group list \<Rightarrow> attr_content list" where
  "items_for P k gs = concat (map (items_at k) (filter (\<lambda>g. P (ag_method g)) gs))"

lemma items_for_simps [simp]:
  "items_for P k [] = []"
  "items_for P k (g # gs) = (if P (ag_method g) then items_at k g else []) @ items_for P k gs"
  "items_for P k (gs @ hs) = items_for P k gs @ items_for P k hs"
  by (simp_all add: items_for_def)

lemma add_items_at: "add_items (ag_name g) (ag_attributes g) pack k = pack k @ items_at k g"
proof -
  obtain a b where k: "k = (a, b)" by (cases k)
  have "fold (\<lambda>(name, attr) pack. pack((n, name) := pack (n, name) @ [attr])) items pack (a, b) =
    pack (a, b) @ (if n = a then map snd (filter (\<lambda>i. fst i = b) items) else [])"
    for n and items :: "(bytes \<times> attr_content) list"
    by (induction items arbitrary: pack) auto
  then show ?thesis by (simp add: add_items_def items_at_def k)
qed

definition pack_at :: "(bytes \<rightharpoonup> runtime_pack) \<Rightarrow> bytes \<Rightarrow> runtime_pack" where
  "pack_at m name = (case m name of None \<Rightarrow> (\<lambda>_. []) | Some p \<Rightarrow> p)"

definition key_is :: "method_decl list \<Rightarrow> bytes \<Rightarrow> int \<Rightarrow> bool" where
  "key_is ms name i \<longleftrightarrow> i \<noteq> -1 \<and> method_key (ms ! nat i) = name"

lemma sort_groups_ok:
  assumes "\<forall>g \<in> set gs. ag_method g = -1 \<or> 0 \<le> ag_method g \<and> ag_method g < int (length ms)"
  shows "\<exists>c m. sort_groups ms gs (c0, m0) = Inr (c, m) \<and> (\<forall>k. c k = c0 k @ items_for (\<lambda>i. i = -1) k gs) \<and>
    (\<forall>name k. pack_at m name k = pack_at m0 name k @ items_for (key_is ms name) k gs)"
  using assms
proof (induction gs arbitrary: c0 m0)
  case (Cons g gs)
  have gs: "\<forall>g \<in> set gs. ag_method g = -1 \<or> 0 \<le> ag_method g \<and> ag_method g < int (length ms)"
    using Cons.prems by simp
  show ?case
  proof (cases "ag_method g = -1")
    case True
    obtain c m where cm: "sort_groups ms gs (add_items (ag_name g) (ag_attributes g) c0, m0) = Inr (c, m)"
      "\<forall>k. c k = add_items (ag_name g) (ag_attributes g) c0 k @ items_for (\<lambda>i. i = -1) k gs"
      "\<forall>name k. pack_at m name k = pack_at m0 name k @ items_for (key_is ms name) k gs"
      using Cons.IH [OF gs, of "add_items (ag_name g) (ag_attributes g) c0" m0] by blast
    moreover have "\<not> key_is ms n (-1)" for n by (simp add: key_is_def)
    ultimately show ?thesis using True by (simp add: add_items_at)
  next
    case False
    define name where "name = method_key (ms ! nat (ag_method g))"
    define m1 where "m1 = m0(name \<mapsto> add_items (ag_name g) (ag_attributes g) (pack_at m0 name))"
    have valid: "0 \<le> ag_method g \<and> ag_method g < int (length ms)" using Cons.prems False by simp
    obtain c m where cm: "sort_groups ms gs (c0, m1) = Inr (c, m)"
      "\<forall>k. c k = c0 k @ items_for (\<lambda>i. i = -1) k gs"
      "\<forall>name k. pack_at m name k = pack_at m1 name k @ items_for (key_is ms name) k gs"
      using Cons.IH [OF gs, of c0 m1] by blast
    have step: "sort_groups ms (g # gs) (c0, m0) = sort_groups ms gs (c0, m1)"
      using False valid by (simp add: Let_def name_def m1_def pack_at_def)
    have "pack_at m1 n k = pack_at m0 n k @ (if n = name then items_at k g else [])" for n k
      by (simp add: m1_def pack_at_def add_items_at [unfolded pack_at_def] split: option.split)
    moreover have "key_is ms n (ag_method g) \<longleftrightarrow> n = name" for n
      using False by (auto simp: key_is_def name_def)
    ultimately show ?thesis
      using cm False unfolding step by auto
  qed
qed simp

text \<open>What the runtime has for a key of a pack.\<close>

definition read_visible :: "attr_pack option \<Rightarrow> attr_key \<Rightarrow> attr_content list" where
  "read_visible attributes k = (case attributes of
     None \<Rightarrow> []
   | Some pack \<Rightarrow> (case map_of pack k of
       None \<Rightarrow> []
     | Some cs \<Rightarrow> map read_attr (filter runtimeAccess cs)))"

lemma group_contents_key:
  assumes "distinct (map fst pack)"
  shows "map snd (filter (\<lambda>i. fst i = n) (group_contents pack g)) =
    (case map_of pack (g, n) of None \<Rightarrow> [] | Some cs \<Rightarrow> filter runtimeAccess cs)"
  using assms
proof (induction pack)
  case (Cons x pack)
  obtain g' n' cs where x: "x = ((g', n'), cs)" by (metis prod.collapse)
  have none: "map_of pack (g', n') = None"
    using Cons.prems by (auto simp: x map_of_eq_None_iff)
  have "filter (\<lambda>i. fst i = n) (map (\<lambda>c. (n', c)) ds) = (if n' = n then map (\<lambda>c. (n', c)) ds else [])" for ds :: "attr_content list"
    by (induction ds) auto
  then show ?case
    using Cons none by (auto simp: x group_contents_def o_def)
qed (simp add: group_contents_def)

lemma items_expected:
  assumes "\<forall>pack. attributes = Some pack \<longrightarrow> distinct (map fst pack) \<and> (\<forall>s \<in> pack_names pack. 0 \<notin> set s)"
  shows "items_for P k (expected_groups m attributes) = (if P (sint m) then read_visible attributes k else [])"
proof (cases attributes)
  case (Some pack)
  obtain g n where k: "k = (g, n)" by (cases k)
  have names: "c_str s = s" if "s \<in> pack_names pack" for s
    using assms Some that by (simp add: c_str_id)
  have groups: "c_str h = h" if "h \<in> set (pack_groups pack)" for h
    using that by (intro names) (fastforce simp: pack_groups_set pack_names_def)
  let ?item = "\<lambda>h. \<lparr>ag_method = sint m, ag_name = c_str h, ag_attributes = map read_item (group_contents pack h)\<rparr>"
  have "distinct (map fst pack)" using assms Some by simp
  then have vis: "read_visible attributes k = map read_attr (map snd (filter (\<lambda>i. fst i = n) (group_contents pack g)))"
    unfolding group_contents_key [OF \<open>distinct (map fst pack)\<close>]
    by (simp add: read_visible_def Some k split: option.split)
  have item: "items_at k (?item h) = (if h = g then read_visible attributes k else [])" if "h \<in> set (pack_groups pack)" for h
  proof -
    have "\<forall>i \<in> set (group_contents pack h). c_str (fst i) = fst i"
      by (intro ballI names) (force simp: group_contents_def pack_names_def)
    then have "map snd (filter (\<lambda>i. fst i = n) (map read_item (group_contents pack h))) =
      map read_attr (map snd (filter (\<lambda>i. fst i = n) (group_contents pack h)))"
      by (simp add: filter_map o_def read_item_def cong: filter_cong)
    also have "\<dots> = (if h = g then read_visible attributes k else map read_attr
        (map snd (filter (\<lambda>i. fst i = n) (group_contents pack h))))"
      by (simp add: vis)
    finally show ?thesis
      using groups [OF that] by (cases "h = g") (simp_all add: items_at_def k)
  qed
  have all: "concat (map (\<lambda>h. items_at k (?item h)) (filter (\<lambda>h. group_contents pack h \<noteq> []) hs)) =
      (if g \<in> set hs then read_visible attributes k else [])"
    if "distinct hs" "set hs \<subseteq> set (pack_groups pack)" for hs
    using that
  proof (induction hs)
    case (Cons h hs)
    have "read_visible attributes k = []" if "group_contents pack h = []" "h = g"
      using that by (simp add: vis)
    then show ?case
      using Cons item [of h] by (cases "h = g") auto
  qed simp
  have "distinct (pack_groups pack)" by (simp add: pack_groups_def)
  moreover have "g \<notin> set (pack_groups pack) \<Longrightarrow> read_visible attributes k = []"
    by (force simp: read_visible_def Some k pack_groups_set map_of_eq_None_iff split: option.split dest: map_of_SomeD)
  ultimately have "items_for P k (expected_groups m attributes) =
      (if P (sint m) then if g \<in> set (pack_groups pack) then read_visible attributes k else [] else [])"
    using all [OF _ subset_refl] by (simp add: expected_groups_def Some items_for_def filter_map o_def)
  then show ?thesis
    using \<open>g \<notin> set (pack_groups pack) \<Longrightarrow> read_visible attributes k = []\<close> by auto
qed (simp add: expected_groups_def read_visible_def)

lemma items_methods:
  assumes "i + length ms < 2 ^ 31"
    "\<forall>m \<in> set ms. \<forall>pack. mi_attributes m = Some pack \<longrightarrow>
      distinct (map fst pack) \<and> (\<forall>s \<in> pack_names pack. 0 \<notin> set s)"
  shows "items_for P k (method_groups i ms) =
    concat (map (\<lambda>(j, m). if P (int j) then read_visible (mi_attributes m) k else []) (enumerate i ms))"
  using assms
proof (induction ms arbitrary: i)
  case (Cons m ms)
  have "sint (word_of_nat i :: u32) = int i" using Cons.prems(1) by (intro sint_count) simp
  then show ?case
    using Cons items_expected [of "mi_attributes m" P k "word_of_nat i"] by simp
qed simp

lemma method_groups_valid:
  assumes "i + length ms < 2 ^ 31" "g \<in> set (method_groups i ms)"
  shows "0 \<le> ag_method g \<and> ag_method g < int (i + length ms)"
  using assms
proof (induction ms arbitrary: i)
  case (Cons m ms)
  have "sint (word_of_nat i :: u32) = int i" using Cons.prems(1) by (intro sint_count) simp
  then show ?case
    using Cons.IH [of "Suc i"] Cons.prems by (auto simp: expected_groups_def split: option.splits)
qed simp

text \<open>Only one method has a given key.\<close>

lemma concat_unique:
  assumes "distinct (map f xs)" "x \<in> set xs"
  shows "concat (map (\<lambda>y. if f y = f x then h y else []) xs) = h x"
  using assms
proof (induction xs)
  case (Cons y ys)
  have none: "concat (map (\<lambda>y. if f y = f x then h y else []) zs) = []" if "\<forall>z \<in> set zs. f z \<noteq> f x" for zs
    using that by simp
  show ?case
  proof (cases "f y = f x")
    case True
    then have "x = y" using Cons.prems by force
    moreover have "\<forall>z \<in> set ys. f z \<noteq> f x" using Cons.prems(1) by (metis True distinct.simps(2) image_eqI list.simps(9) set_map)
    ultimately show ?thesis using none [of ys] by simp
  next
    case False
    then show ?thesis using Cons by auto
  qed
qed simp

definition all_decls :: "class_info \<Rightarrow> method_decl list" where
  "all_decls info = map (decl False) (ci_methods info) @ map (decl True) (ci_staticMethods info)"

lemma concat_methods:
  assumes keys: "distinct (map method_key (all_decls info))"
    and m: "m \<in> set (ci_methods info) \<and> \<not> static \<or> m \<in> set (ci_staticMethods info) \<and> static"
  shows "concat (map (\<lambda>(j, m'). if key_is (all_decls info) (method_key (decl static m)) (int j)
        then read_visible (mi_attributes m') k else []) (enumerate 0 (ci_methods info @ ci_staticMethods info))) =
    read_visible (mi_attributes m) k"
proof -
  let ?ms = "ci_methods info @ ci_staticMethods info"
  let ?ds = "all_decls info"
  have len: "length ?ds = length ?ms" by (simp add: all_decls_def)
  obtain i where i: "i < length ?ms" "?ms ! i = m" "?ds ! i = decl static m"
  proof (cases static)
    case False
    then obtain i where "i < length (ci_methods info)" "ci_methods info ! i = m"
      using m by (auto simp: in_set_conv_nth)
    then show ?thesis using that [of i] False by (simp add: all_decls_def nth_append)
  next
    case True
    then obtain i where "i < length (ci_staticMethods info)" "ci_staticMethods info ! i = m"
      using m by (auto simp: in_set_conv_nth)
    then show ?thesis
      using that [of "length (ci_methods info) + i"] True by (simp add: all_decls_def nth_append)
  qed
  have inj: "method_key (?ds ! j) = method_key (?ds ! i) \<longleftrightarrow> j = i" if "j < length ?ms" for j
    using keys nth_eq_iff_index_eq [OF keys, of j i] that i(1) len by simp
  let ?h = "\<lambda>p. read_visible (mi_attributes (snd p)) k"
  have "concat (map (\<lambda>(j, m'). if key_is ?ds (method_key (decl static m)) (int j)
        then read_visible (mi_attributes m') k else []) (enumerate 0 ?ms)) =
    concat (map (\<lambda>p. if fst p = fst (i, m) then ?h p else []) (enumerate 0 ?ms))"
    using inj i(3) by (intro arg_cong [where f = concat] map_cong) (auto simp: key_is_def in_set_enumerate_eq)
  also have "\<dots> = ?h (i, m)"
    using i(1,2) by (intro concat_unique) (auto simp: in_set_enumerate_eq)
  finally show ?thesis by simp
qed

section \<open>The round trip\<close>

definition declared :: "bool \<Rightarrow> method_info \<Rightarrow> method_decl" where
  "declared static m = \<lparr>md_name = mi_signature m, md_func = mi_func m, md_isStatic = static,
     md_isForeign = mi_isForeign m\<rparr>"

text \<open>The attributes of a key that are visible at runtime, as the compiler has them.\<close>

definition visible :: "attr_pack option \<Rightarrow> attr_key \<Rightarrow> attr_content list" where
  "visible attributes k = (case attributes of
     None \<Rightarrow> []
   | Some pack \<Rightarrow> (case map_of pack k of None \<Rightarrow> [] | Some cs \<Rightarrow> filter runtimeAccess cs))"

text \<open>
  An attribute is a string, a boolean or a value: the fields of the other kinds have their defaults
  (common/AttributePack.h).
\<close>

definition one_kind :: "attr_content \<Rightarrow> bool" where
  "one_kind c \<longleftrightarrow> (attr_str c = None \<or> attr_boolean c = None) \<and>
     (attr_str c = None \<and> attr_boolean c = None \<or> attr_value c = NULL_VAL)"

text \<open>
  What the compiler ensures of a class: strings without null bytes as names, packs with distinct keys, and method
  signatures that are distinct (with \<open>static\<close> and \<open>foreign\<close> before them).
\<close>

definition describable :: "class_info \<Rightarrow> bool" where
  "describable info \<longleftrightarrow> (\<forall>s \<in> class_names info. 0 \<notin> set s) \<and>
     (\<forall>pack \<in> class_packs info. small_pack pack \<and> distinct (map fst pack)) \<and>
     length (ci_methods info) + length (ci_staticMethods info) < 2 ^ 31 \<and>
     distinct (map method_key (map (declared False) (ci_methods info) @ map (declared True) (ci_staticMethods info)))"

text \<open>Attributes that fit into the description as they are: of one kind, and strings without null bytes.\<close>

definition exact_attributes :: "class_info \<Rightarrow> bool" where
  "exact_attributes info \<longleftrightarrow> (\<forall>pack \<in> class_packs info. \<forall>(k, cs) \<in> set pack. \<forall>c \<in> set cs.
     one_kind c \<and> (\<forall>s. attr_str c = Some s \<longrightarrow> 0 \<notin> set s))"

lemma read_attr_id:
  assumes "one_kind c" "runtimeAccess c" "\<forall>s. attr_str c = Some s \<longrightarrow> 0 \<notin> set s"
  shows "read_attr c = c"
  using assms by (cases c) (auto simp: read_attr_def one_kind_def c_str_id split: option.split)

lemma read_visible_id:
  assumes "exact_attributes info" "set_option attributes \<subseteq> class_packs info"
  shows "read_visible attributes k = visible attributes k"
proof (cases attributes)
  case (Some pack)
  show ?thesis
  proof (cases "map_of pack k")
    case cs: (Some cs)
    then have "(k, cs) \<in> set pack" by (rule map_of_SomeD)
    then have "\<forall>c \<in> set cs. one_kind c \<and> (\<forall>s. attr_str c = Some s \<longrightarrow> 0 \<notin> set s)"
      using assms Some by (fastforce simp: exact_attributes_def)
    then have "map read_attr (filter runtimeAccess cs) = filter runtimeAccess cs"
      by (auto intro!: map_idI read_attr_id)
    then show ?thesis using cs by (simp add: Some read_visible_def visible_def)
  qed (simp add: Some read_visible_def visible_def)
qed (simp add: read_visible_def visible_def)

lemma decl_declared:
  assumes "describable info"
  shows "m \<in> set (ci_methods info) \<union> set (ci_staticMethods info) \<Longrightarrow> decl static m = declared static m"
    "map c_str (ci_fields info) = ci_fields info"
  using assms by (auto simp: describable_def class_names_def decl_def declared_def c_str_id intro!: map_idI)

lemma expected_packs:
  assumes "describable info"
  shows "\<exists>c m. attribute_packs (expected_description info) = Inr (c, m) \<and>
    (\<forall>k. c k = read_visible (ci_attributes info) k) \<and>
    (\<forall>x \<in> set (ci_methods info). \<forall>k. pack_at m (method_key (declared False x)) k = read_visible (mi_attributes x) k) \<and>
    (\<forall>x \<in> set (ci_staticMethods info). \<forall>k. pack_at m (method_key (declared True x)) k = read_visible (mi_attributes x) k)"
proof -
  let ?ms = "ci_methods info" and ?ss = "ci_staticMethods info"
  let ?gs = "decl_attributes (expected_description info)"
  note same = decl_declared [OF assms]
  have decls: "all_decls info = map (declared False) ?ms @ map (declared True) ?ss"
    using same by (auto simp: all_decls_def)
  then have keys: "distinct (map method_key (all_decls info))"
    using assms by (simp add: describable_def)
  have size: "length ?ms + length ?ss < 2 ^ 31" using assms by (simp add: describable_def)
  have good: "distinct (map fst pack) \<and> (\<forall>s \<in> pack_names pack. 0 \<notin> set s)" if "pack \<in> class_packs info" for pack
    using assms that by (auto simp: describable_def class_names_def)
  have own: "items_for P k (expected_groups (-1) (ci_attributes info)) =
      (if P (-1) then read_visible (ci_attributes info) k else [])" for P k
    using good by (subst items_expected) (auto simp: class_packs_def)
  have "items_for P k (method_groups 0 ?ms @ method_groups (length ?ms) ?ss) =
      concat (map (\<lambda>(j, m). if P (int j) then read_visible (mi_attributes m) k else []) (enumerate 0 (?ms @ ?ss)))" for P k
    using items_methods [of 0 ?ms P k] items_methods [of "length ?ms" ?ss P k] size good
    by (fastforce simp: class_packs_def enumerate_append_eq)
  then have items: "items_for P k ?gs = (if P (-1) then read_visible (ci_attributes info) k else []) @
      concat (map (\<lambda>(j, m). if P (int j) then read_visible (mi_attributes m) k else []) (enumerate 0 (?ms @ ?ss)))" for P k
    using own by (simp add: expected_description_def)
  have "\<forall>g \<in> set ?gs. ag_method g = -1 \<or> 0 \<le> ag_method g \<and> ag_method g < int (length (all_decls info))"
    using method_groups_valid [of 0 ?ms] method_groups_valid [of "length ?ms" ?ss] size
    by (fastforce simp: expected_description_def all_decls_def expected_groups_def split: option.splits)
  then obtain c m where cm: "sort_groups (all_decls info) ?gs (\<lambda>_. [], Map.empty) = Inr (c, m)"
    "\<forall>k. c k = items_for (\<lambda>i. i = -1) k ?gs"
    "\<forall>name k. pack_at m name k = items_for (key_is (all_decls info) name) k ?gs"
    using sort_groups_ok [of ?gs "all_decls info" "\<lambda>_. []" Map.empty] by (auto simp: pack_at_def)
  have c: "c k = read_visible (ci_attributes info) k" for k
    using cm(2) by (cases k) (simp add: items case_prod_unfold)
  have m: "pack_at m (method_key (decl static x)) k = read_visible (mi_attributes x) k"
    if "x \<in> set ?ms \<and> \<not> static \<or> x \<in> set ?ss \<and> static" for static x k
    using cm(3) concat_methods [OF keys that] by (cases k) (simp add: items key_is_def)
  have "attribute_packs (expected_description info) = Inr (c, m)"
    using cm(1) by (simp add: attribute_packs_def expected_description_def all_decls_def)
  then show ?thesis
    using c m same(1) by (metis UnCI)
qed

text \<open>
  C33: The runtime reads from the description of a class what the compiler wrote into it: the marks of system and
  foreign classes, the methods in their order with names, functions and flags, the fields, and for the class and
  each of its methods exactly the attributes that are visible at runtime, under their groups and names and in
  their order.  The names and the strings among the attributes have no null bytes (the runtime would cut them off
  there); each attribute is a string, a boolean or a value; keys and signatures are distinct; and the numbers of
  methods and of the attributes of a group fit into an \<open>int\<close>.
\<close>

theorem class_description_roundtrip:
  assumes "describable info" "linked mem addr (class_strings info)" "exact_attributes info"
  shows "\<exists>d classAttrs methodAttrs. Parse mem (write_class addr info) empty_description = Inr d \<and>
    isSystemClass d = IsCppSystemClass info \<and> isForeignClass d = ci_isForeign info \<and>
    decl_methods d = map (declared False) (ci_methods info) @ map (declared True) (ci_staticMethods info) \<and>
    decl_fields d = ci_fields info \<and> attribute_packs d = Inr (classAttrs, methodAttrs) \<and>
    (\<forall>k. classAttrs k = visible (ci_attributes info) k) \<and>
    (\<forall>m \<in> set (ci_methods info). \<forall>k.
       pack_at methodAttrs (method_key (declared False m)) k = visible (mi_attributes m) k) \<and>
    (\<forall>m \<in> set (ci_staticMethods info). \<forall>k.
       pack_at methodAttrs (method_key (declared True m)) k = visible (mi_attributes m) k)"
proof -
  have "Parse mem (write_class addr info) empty_description = Inr (expected_description info)"
    using assms by (intro Parse_class) (auto simp: describable_def)
  moreover have "decl_methods (expected_description info) =
      map (declared False) (ci_methods info) @ map (declared True) (ci_staticMethods info)"
    "decl_fields (expected_description info) = ci_fields info"
    using decl_declared [OF assms(1)] by (auto simp: expected_description_def)
  moreover have "read_visible (ci_attributes info) k = visible (ci_attributes info) k" for k
    by (rule read_visible_id [OF assms(3)]) (auto simp: class_packs_def)
  moreover have "read_visible (mi_attributes m) k = visible (mi_attributes m) k"
    if "m \<in> set (ci_methods info) \<union> set (ci_staticMethods info)" for m k
    by (rule read_visible_id [OF assms(3)]) (use that in \<open>auto simp: class_packs_def\<close>)
  ultimately show ?thesis
    using expected_packs [OF assms(1)] by (auto simp: expected_description_def)
qed

text \<open>A class with a method that has an attribute, a static method and a field.\<close>

definition example_attr :: attr_content where
  "example_attr = \<lparr>runtimeAccess = True, attr_str = Some [116, 101, 120, 116], attr_boolean = None, attr_value = NULL_VAL\<rparr>"

definition example_class :: class_info where
  "example_class = \<lparr>ci_name = [80], ci_isForeign = False,
     ci_methods = [\<lparr>mi_signature = [120], mi_isForeign = False, mi_func = 4096,
       mi_attributes = Some [(([103, 114], [107, 101, 121]), [example_attr])]\<rparr>],
     ci_staticMethods = [\<lparr>mi_signature = [110, 101, 119, 40, 41], mi_isForeign = False, mi_func = 8192,
       mi_attributes = None\<rparr>],
     ci_fields = [[102, 105, 101, 108, 100, 95]], ci_attributes = None\<rparr>"

definition example_addr :: "bytes \<Rightarrow> u64" where
  "example_addr s = word_of_nat (length s)"

definition example_mem :: "u64 \<Rightarrow> bytes" where
  "example_mem p = [[], [120], [103, 114], [107, 101, 121], [116, 101, 120, 116], [110, 101, 119, 40, 41],
     [102, 105, 101, 108, 100, 95]] ! unat p"

lemma example_ok: "describable example_class" "linked example_mem example_addr (class_strings example_class)"
proof -
  have packs: "class_packs example_class = {[(([103, 114], [107, 101, 121]), [example_attr])]}"
    by (auto simp: class_packs_def example_class_def)
  then have names: "class_names example_class =
      {[120], [110, 101, 119, 40, 41], [102, 105, 101, 108, 100, 95], [103, 114], [107, 101, 121]}"
    by (auto simp: class_names_def pack_names_def example_class_def)
  then have strings: "class_strings example_class =
      {[120], [110, 101, 119, 40, 41], [102, 105, 101, 108, 100, 95], [103, 114], [107, 101, 121], [116, 101, 120, 116]}"
    by (auto simp: class_strings_def packs pack_strings_def pack_names_def example_attr_def)
  have "small_pack [(([103, 114], [107, 101, 121]), [example_attr])]"
    by (simp add: small_pack_def group_contents_def)
  then show "describable example_class"
    unfolding describable_def names packs
    by (simp add: example_class_def declared_def method_key_def name_bytes_def Let_def)
  show "linked example_mem example_addr (class_strings example_class)"
    unfolding strings by (simp add: linked_def example_mem_def example_addr_def c_str_def)
qed

lemma example_exact: "exact_attributes example_class"
  by (auto simp: exact_attributes_def class_packs_def example_class_def example_attr_def one_kind_def)

theorem class_description_roundtrip_witness:
  "\<exists>d classAttrs methodAttrs.
    Parse example_mem (write_class example_addr example_class) empty_description = Inr d \<and>
    map md_func (decl_methods d) = [4096, 8192] \<and> attribute_packs d = Inr (classAttrs, methodAttrs) \<and>
    pack_at methodAttrs [120] ([103, 114], [107, 101, 121]) = [example_attr]"
proof -
  let ?m = "hd (ci_methods example_class)"
  obtain d classAttrs methodAttrs where d:
    "Parse example_mem (write_class example_addr example_class) empty_description = Inr d"
    "decl_methods d = map (declared False) (ci_methods example_class) @ map (declared True) (ci_staticMethods example_class)"
    "attribute_packs d = Inr (classAttrs, methodAttrs)"
    "\<forall>m \<in> set (ci_methods example_class). \<forall>k.
       pack_at methodAttrs (method_key (declared False m)) k = visible (mi_attributes m) k"
    using class_description_roundtrip [OF example_ok example_exact] by blast
  have "map md_func (decl_methods d) = [4096, 8192]"
    unfolding d(2) by (simp add: example_class_def declared_def)
  moreover have "?m \<in> set (ci_methods example_class)" by (simp add: example_class_def)
  then have "pack_at methodAttrs (method_key (declared False ?m)) ([103, 114], [107, 101, 121]) =
      visible (mi_attributes ?m) ([103, 114], [107, 101, 121])"
    using d(4) by blast
  moreover have "method_key (declared False ?m) = [120]"
    by (simp add: method_key_def declared_def example_class_def)
  moreover have "visible (mi_attributes ?m) ([103, 114], [107, 101, 121]) = [example_attr]"
    by (simp add: visible_def example_class_def example_attr_def)
  ultimately show ?thesis using d(1,3) by auto
qed

text \<open>Why null bytes are left out: the runtime cuts a string off at the first one.\<close>

lemma attribute_string_cut:
  "c_str [97, 0, 98] = [97]"
  "attr_str (read_attr \<lparr>runtimeAccess = True, attr_str = Some [97, 0, 98], attr_boolean = None, attr_value = 0\<rparr>) =
     Some [97]"
  by (simp_all add: read_attr_def c_str_def)

end
