(* ===== verification/Managed_Class.thy ===== *)
theory Managed_Class
  imports Class_Description_Proofs Func_Table_Proofs
begin

text \<open>
  The classes that a Wren program defines: rtsrc/ObjManaged.h, rtsrc/ObjManaged.cpp and the entry points of
  rtsrc/GenEntry.cpp that create classes and their instances and look up methods.

  Classes are numbers.  \<open>cls\<close> has their method tables, \<open>cls_type\<close> is the field \<open>type\<close>, the metaclass, and
  \<open>managed\<close> has the fields of the classes that are of type \<open>ObjManagedClass\<close>.  A new class takes the next
  number, and its metaclass the one after.  What the runtime gets from the native classes, from the modules and
  from the foreign functions of the host is \<open>class_env\<close>.
\<close>

definition sizeof_ObjManaged :: int where "sizeof_ObjManaged = 24"
definition sizeof_Value :: int where "sizeof_Value = 8"

record managed_info =
  spec :: class_description
  fieldOffset :: int
  mc_size :: int
  totalFieldCount :: int
  declaringModule :: nat
  foreignMethods :: "u64 \<rightharpoonup> u64"

record class_state =
  cls :: classes
  cls_type :: "nat \<Rightarrow> nat"
  managed :: "nat \<rightharpoonup> managed_info"
  next_class :: nat

record class_env =
  objectClass :: nat
  rootClass :: nat
  nullClass :: nat
  numClass :: nat
  object_type :: "ptr \<Rightarrow> nat"
  coreClass :: "bytes \<Rightarrow> nat option"
  getModule :: "nat option"
  lookupForeignClass :: "bytes \<Rightarrow> unit res"
  lookupForeignMethod :: "bytes \<Rightarrow> method_decl \<Rightarrow> u64 res"

text \<open>The parent that a class is created with: a value that is no object, an object that is no class, a class.\<close>

datatype parent_value = NonObject | NonClass | ClassValue nat

section \<open>The class and its metaclass\<close>

text \<open>\<open>CanScriptSubclass\<close> is true for managed classes only.\<close>

definition CanScriptSubclass :: "class_state \<Rightarrow> nat \<Rightarrow> bool" where
  "CanScriptSubclass st c \<longleftrightarrow> managed st c \<noteq> None"

definition GetDefaultMetaclassName :: "bytes \<Rightarrow> bytes" where
  "GetDefaultMetaclassName name = name @ name_bytes '' metaclass''"

definition make_meta :: "class_env \<Rightarrow> class_state \<Rightarrow> bytes \<Rightarrow> obj_class" where
  "make_meta env st name =
     \<lparr>cls_functions = cls_functions (cls st (rootClass env)), definedFunctions = [],
      cls_name = GetDefaultMetaclassName name, isMetaClass = True, parentClass = Some (rootClass env)\<rparr>"

definition make_info ::
  "class_state \<Rightarrow> nat \<Rightarrow> class_description \<Rightarrow> managed_info" where
  "make_info st parent d =
     (let fieldCount = int (length (decl_fields d));
          (offset, total) = (case managed st parent of
             Some m \<Rightarrow> (mc_size m, totalFieldCount m + fieldCount)
           | None \<Rightarrow> (sizeof_ObjManaged, fieldCount))
      in \<lparr>spec = d, fieldOffset = offset, mc_size = offset + fieldCount * sizeof_Value, totalFieldCount = total,
          declaringModule = 0, foreignMethods = Map.empty\<rparr>)"

text \<open>The checks of the constructor, in its order.\<close>

definition check_parent ::
  "class_env \<Rightarrow> class_state \<Rightarrow> nat \<Rightarrow> class_description \<Rightarrow> unit res" where
  "check_parent env st parent d =
     rbind (guard (CanScriptSubclass st parent \<or> parent = objectClass env)
       (WrenAbort ''cannot inherit from built-in class'')) (\<lambda>_.
     rbind (guard (\<forall>m \<in> set_option (managed st parent). \<not> isForeignClass (spec m))
       (WrenAbort ''cannot inherit from foreign class'')) (\<lambda>_.
     if isForeignClass d
     then rbind (guard (\<forall>m \<in> set_option (managed st parent). totalFieldCount m = 0)
         (WrenAbort ''may not inherit from a class with fields'')) (\<lambda>_.
       guard (totalFieldCount (make_info st parent d) = 0) (WrenAbort ''may not contain fields''))
     else Inr ()))"

definition new_ObjManagedClass ::
  "class_env \<Rightarrow> bytes \<Rightarrow> class_description \<Rightarrow> nat option \<Rightarrow> class_state \<Rightarrow> (nat \<times> class_state) res" where
  "new_ObjManagedClass env name d parent st =
     (let c = next_class st;
          p = (case parent of Some p \<Rightarrow> p | None \<Rightarrow> objectClass env)
      in rbind (check_parent env st p d) (\<lambda>_.
         rbind (if decl_attributes d = [] then Inr () else map_sum id (\<lambda>_. ()) (attribute_packs d)) (\<lambda>_.
         Inr (c, st
           \<lparr>cls := (cls st)
             (c := \<lparr>cls_functions = cls_functions (cls st p), definedFunctions = [], cls_name = name,
                isMetaClass = False, parentClass = Some p\<rparr>,
              Suc c := make_meta env st name),
            cls_type := (cls_type st)(c := Suc c, Suc c := rootClass env),
            managed := (managed st)(c \<mapsto> make_info st p d),
            next_class := c + 2\<rparr>))))"

section \<open>Creating a class\<close>

definition add_method :: "bool \<Rightarrow> nat \<Rightarrow> method_decl \<Rightarrow> class_state \<Rightarrow> class_state res" where
  "add_method shouldOverride c m st =
     (let target = (if md_isStatic m then cls_type st c else c) in
      rbind (AddFunction (md_name m) (md_func m) shouldOverride (cls st target)) (\<lambda>k.
        Inr (st\<lparr>cls := (cls st)(target := k)\<rparr>)))"

fun add_methods :: "nat \<Rightarrow> method_decl list \<Rightarrow> class_state \<Rightarrow> class_state res" where
  "add_methods c [] st = Inr st"
| "add_methods c (m # ms) st = rbind (add_method False c m st) (add_methods c ms)"

definition update_managed :: "nat \<Rightarrow> (managed_info \<Rightarrow> managed_info) \<Rightarrow> class_state \<Rightarrow> class_state" where
  "update_managed c f st = st\<lparr>managed := (managed st)(c := map_option f (managed st c))\<rparr>"

definition bind_foreign :: "class_env \<Rightarrow> bytes \<Rightarrow> nat \<Rightarrow> method_decl \<Rightarrow> class_state \<Rightarrow> class_state res" where
  "bind_foreign env name c m st =
     (if md_isForeign m
      then rbind (lookupForeignMethod env name m) (\<lambda>f.
        Inr (update_managed c (\<lambda>i. i\<lparr>foreignMethods := (foreignMethods i)(md_func m \<mapsto> f)\<rparr>) st))
      else Inr st)"

fun define_methods :: "class_env \<Rightarrow> bytes \<Rightarrow> nat \<Rightarrow> method_decl list \<Rightarrow> class_state \<Rightarrow> class_state res" where
  "define_methods env name c [] st = Inr st"
| "define_methods env name c (m # ms) st =
     rbind (bind_foreign env name c m st) (\<lambda>st.
     rbind (add_method True c m st) (define_methods env name c ms))"

definition init_system_class ::
  "class_env \<Rightarrow> bytes \<Rightarrow> class_description \<Rightarrow> nat \<Rightarrow> class_state \<Rightarrow> (nat option \<times> class_state) res" where
  "init_system_class env name d parent st =
     (if decl_fields d \<noteq> [] then Inl (WrenAbort ''Supposed system class cannot add fields!'')
      else case coreClass env name of
        None \<Rightarrow> Inl (WrenAbort ''Module requested unknown system class'')
      | Some c \<Rightarrow>
          if parentClass (cls st c) \<noteq> None then Inl (WrenAbort ''System class already has a parent set!'')
          else rbind (add_methods c (decl_methods d)
              (st\<lparr>cls := (cls st)(c := (cls st c)\<lparr>parentClass := Some parent\<rparr>)\<rparr>)) (\<lambda>st. Inr (None, st)))"

definition init_managed_class ::
  "class_env \<Rightarrow> bytes \<Rightarrow> class_description \<Rightarrow> nat \<Rightarrow> class_state \<Rightarrow> (nat option \<times> class_state) res" where
  "init_managed_class env name d parent st =
     rbind (new_ObjManagedClass env name d (Some parent) st) (\<lambda>(c, st).
       case getModule env of
         None \<Rightarrow> Inl (WrenAbort ''Couldn't find declaring module'')
       | Some m \<Rightarrow>
           rbind (if isForeignClass d then lookupForeignClass env name else Inr ()) (\<lambda>_.
           rbind (define_methods env name c (decl_methods d)
               (update_managed c (\<lambda>i. i\<lparr>declaringModule := m\<rparr>) st)) (\<lambda>st. Inr (Some c, st))))"

text \<open>The value is the new class, or null for a system class.\<close>

definition wren_init_class ::
  "class_env \<Rightarrow> (u64 \<Rightarrow> bytes) \<Rightarrow> bytes \<Rightarrow> u64 list \<Rightarrow> parent_value \<Rightarrow> class_state \<Rightarrow>
     (nat option \<times> class_state) res" where
  "wren_init_class env mem name dataBlock parent st =
     rbind (Parse mem dataBlock empty_description) (\<lambda>d.
       case parent of
         NonObject \<Rightarrow> Inl (WrenAbort ''cannot inherit from a non-class object.'')
       | NonClass \<Rightarrow> Inl (WrenAbort ''Cannot inherit from non-class object'')
       | ClassValue p \<Rightarrow>
           if isSystemClass d then init_system_class env name d p st
           else init_managed_class env name d p st)"

section \<open>Instances\<close>

record managed_object =
  om_type :: nat
  om_fields :: "val list"

definition new_ObjManaged :: "nat \<Rightarrow> managed_info \<Rightarrow> managed_object" where
  "new_ObjManaged c info = \<lparr>om_type = c, om_fields = replicate (nat (totalFieldCount info)) NULL_VAL\<rparr>"

text \<open>The size of the allocation, and the object that is constructed in it.\<close>

definition wren_alloc_obj :: "class_state \<Rightarrow> parent_value \<Rightarrow> (int \<times> managed_object) res" where
  "wren_alloc_obj st classVar = (case classVar of
     NonObject \<Rightarrow> Inl (WrenAbort ''Cannot call wren_alloc_object with number argument'')
   | NonClass \<Rightarrow> Inl (WrenAbort ''Cannot call wren_alloc_object with null or non-ObjManagedClass type'')
   | ClassValue c \<Rightarrow>
       (case managed st c of
          None \<Rightarrow> Inl (WrenAbort ''Cannot call wren_alloc_object with null or non-ObjManagedClass type'')
        | Some info \<Rightarrow> Inr (mc_size info, new_ObjManaged c info)))"

definition wren_class_get_field_offset :: "class_state \<Rightarrow> parent_value \<Rightarrow> int res" where
  "wren_class_get_field_offset st classVar = (case classVar of
     NonObject \<Rightarrow> Inl (WrenAbort ''Cannot call wren_class_get_field_offset with number argument'')
   | NonClass \<Rightarrow> Inl (WrenAbort ''Cannot call wren_class_get_field_offset with null or non-ObjManagedClass type'')
   | ClassValue c \<Rightarrow>
       (case managed st c of
          None \<Rightarrow> Inl (WrenAbort ''Cannot call wren_class_get_field_offset with null or non-ObjManagedClass type'')
        | Some info \<Rightarrow> Inr (fieldOffset info)))"

text \<open>\<open>MarkGCValues\<close> of an instance reports its first \<open>totalFieldCount\<close> fields.\<close>

definition mark_fields :: "managed_info \<Rightarrow> managed_object \<Rightarrow> val list" where
  "mark_fields info obj = take (nat (totalFieldCount info)) (om_fields obj)"

section \<open>Method lookup\<close>

definition receiver_class :: "class_env \<Rightarrow> val \<Rightarrow> nat" where
  "receiver_class env receiver =
     (if is_object receiver
      then let obj = get_object_value receiver in if obj \<noteq> 0 then object_type env obj else nullClass env
      else numClass env)"

definition lookup_or_abort :: "u64 \<Rightarrow> obj_class \<Rightarrow> u64 res" where
  "lookup_or_abort sig c =
     rbind (LookupMethod sig (cls_functions c)) (\<lambda>e. case e of
       None \<Rightarrow> Inl (WrenAbort ''does not implement'')
     | Some e \<Rightarrow> Inr (func e))"

definition wren_virtual_method_lookup :: "class_env \<Rightarrow> class_state \<Rightarrow> val \<Rightarrow> u64 \<Rightarrow> u64 res" where
  "wren_virtual_method_lookup env st receiver sig = lookup_or_abort sig (cls st (receiver_class env receiver))"

text \<open>A class without a parent would be a null pointer here.\<close>

definition wren_super_method_lookup ::
  "class_state \<Rightarrow> val \<Rightarrow> parent_value \<Rightarrow> u64 \<Rightarrow> bool \<Rightarrow> u64 res" where
  "wren_super_method_lookup st receiver thisClass sig isStatic =
     (if \<not> is_object receiver then Inl (WrenAbort ''Cannot lookup super method on numbers'')
      else case thisClass of
        ClassValue c \<Rightarrow>
          (if managed st c = None
           then Inl (WrenAbort ''Attempted to lookup super method on something other than a managed class.'')
           else case parentClass (cls st (if isStatic then cls_type st c else c)) of
             None \<Rightarrow> Inl Undefined
           | Some p \<Rightarrow> lookup_or_abort sig (cls st p))
      | _ \<Rightarrow> Inl (WrenAbort ''Attempted to lookup super method on something other than a managed class.''))"

end
