(* ===== verification/Managed_Class_Proofs.thy ===== *)
theory Managed_Class_Proofs
  imports Managed_Class
begin

text \<open>
  A class that is created from the compiler's description has the methods and the layout that the source says:
  its own methods over those of its parent, its static methods on the metaclass, and its fields after those of
  its ancestors.
\<close>

section \<open>The layout of instances\<close>

definition info_ok :: "class_env \<Rightarrow> class_state \<Rightarrow> nat \<Rightarrow> managed_info \<Rightarrow> bool" where
  "info_ok env st c i \<longleftrightarrow> 0 \<le> totalFieldCount i \<and>
     mc_size i = sizeof_ObjManaged + totalFieldCount i * sizeof_Value \<and>
     mc_size i = fieldOffset i + int (length (decl_fields (spec i))) * sizeof_Value \<and>
     (\<exists>p < next_class st. parentClass (cls st c) = Some p \<and>
       (case managed st p of
          Some j \<Rightarrow> fieldOffset i = mc_size j \<and>
            totalFieldCount i = totalFieldCount j + int (length (decl_fields (spec i)))
        | None \<Rightarrow> p = objectClass env \<and> fieldOffset i = sizeof_ObjManaged))"

definition layout_ok :: "class_env \<Rightarrow> class_state \<Rightarrow> bool" where
  "layout_ok env st \<longleftrightarrow> (\<forall>c i. managed st c = Some i \<longrightarrow> c < next_class st \<and> info_ok env st c i)"

text \<open>The classes that the compiler knows as native are, and classes have been created when they are used.\<close>

definition env_ok :: "class_env \<Rightarrow> class_state \<Rightarrow> bool" where
  "env_ok env st \<longleftrightarrow> objectClass env < next_class st \<and> rootClass env < next_class st \<and>
     (\<forall>name c. coreClass env name = Some c \<longrightarrow> c < next_class st \<and> managed st c = None) \<and>
     (\<forall>c < next_class st. cls_type st c < next_class st \<and> managed st (cls_type st c) = None)"

text \<open>What the methods of a class may change.\<close>

definition same_shape :: "class_state \<Rightarrow> class_state \<Rightarrow> bool" where
  "same_shape st st' \<longleftrightarrow> next_class st' = next_class st \<and> cls_type st' = cls_type st \<and>
     (\<forall>c. parentClass (cls st' c) = parentClass (cls st c)) \<and>
     (\<forall>c. (managed st' c = None) = (managed st c = None)) \<and>
     (\<forall>c i'. managed st' c = Some i' \<longrightarrow> (\<exists>i. managed st c = Some i \<and> spec i' = spec i \<and>
        fieldOffset i' = fieldOffset i \<and> mc_size i' = mc_size i \<and> totalFieldCount i' = totalFieldCount i))"

lemma same_shape_refl [simp]: "same_shape st st"
  by (auto simp: same_shape_def)

lemma same_shape_trans: "same_shape a b \<Longrightarrow> same_shape b c \<Longrightarrow> same_shape a c"
  unfolding same_shape_def by (intro conjI allI impI) (fastforce, fastforce, fastforce, fastforce, metis)

lemma same_shape_layout: "same_shape st st' \<Longrightarrow> layout_ok env st \<Longrightarrow> layout_ok env st'"
  unfolding layout_ok_def
proof (intro allI impI)
  fix c i'
  assume s: "same_shape st st'" and ok: "\<forall>c i. managed st c = Some i \<longrightarrow> c < next_class st \<and> info_ok env st c i"
    and i': "managed st' c = Some i'"
  obtain i where i: "managed st c = Some i" "spec i' = spec i" "fieldOffset i' = fieldOffset i"
    "mc_size i' = mc_size i" "totalFieldCount i' = totalFieldCount i"
    using s i' unfolding same_shape_def by metis
  have "info_ok env st c i" "c < next_class st" using ok i(1) by auto
  then obtain p where p: "p < next_class st" "parentClass (cls st c) = Some p"
    "case managed st p of
       Some j \<Rightarrow> fieldOffset i = mc_size j \<and> totalFieldCount i = totalFieldCount j + int (length (decl_fields (spec i)))
     | None \<Rightarrow> p = objectClass env \<and> fieldOffset i = sizeof_ObjManaged"
    unfolding info_ok_def by blast
  have shape: "next_class st' = next_class st" "parentClass (cls st' c) = parentClass (cls st c)"
    using s by (simp_all add: same_shape_def)
  have "case managed st' p of
       Some j \<Rightarrow> fieldOffset i' = mc_size j \<and> totalFieldCount i' = totalFieldCount j + int (length (decl_fields (spec i')))
     | None \<Rightarrow> p = objectClass env \<and> fieldOffset i' = sizeof_ObjManaged"
  proof (cases "managed st' p")
    case None
    then have "managed st p = None" using s by (simp add: same_shape_def)
    then show ?thesis using p(3) i None by simp
  next
    case (Some j')
    then obtain j where "managed st p = Some j" "mc_size j' = mc_size j" "totalFieldCount j' = totalFieldCount j"
      using s unfolding same_shape_def by metis
    then show ?thesis using p(3) i Some by simp
  qed
  then have "info_ok env st' c i'"
    using \<open>info_ok env st c i\<close> i p(1,2) shape unfolding info_ok_def by auto
  then show "c < next_class st' \<and> info_ok env st' c i'"
    using \<open>c < next_class st\<close> shape by simp
qed

lemma AddFunction_shape: "AddFunction n f ov c = Inr k \<Longrightarrow> parentClass k = parentClass c"
  by (auto simp: AddFunction_def Let_def rbind_eq_Inr_iff)

lemma add_method_shape: "add_method ov c m st = Inr st' \<Longrightarrow> same_shape st st'"
  by (auto simp: add_method_def Let_def rbind_eq_Inr_iff same_shape_def dest: AddFunction_shape split: if_splits)

lemma bind_foreign_shape: "bind_foreign env name c m st = Inr st' \<Longrightarrow> same_shape st st'"
  by (auto simp: bind_foreign_def rbind_eq_Inr_iff update_managed_def same_shape_def split: if_splits)

lemma add_methods_shape: "add_methods c ms st = Inr st' \<Longrightarrow> same_shape st st'"
  by (induction ms arbitrary: st) (auto simp: rbind_eq_Inr_iff dest: add_method_shape intro: same_shape_trans)

lemma define_methods_shape: "define_methods env name c ms st = Inr st' \<Longrightarrow> same_shape st st'"
  by (induction ms arbitrary: st)
    (auto simp: rbind_eq_Inr_iff dest!: add_method_shape bind_foreign_shape intro: same_shape_trans)

lemma new_class_layout:
  assumes ok: "layout_ok env st" "env_ok env st" and p: "p < next_class st"
    and new: "new_ObjManagedClass env name d (Some p) st = Inr (c, st')"
  shows "layout_ok env st'" "c = next_class st" "next_class st' = c + 2"
proof -
  have chk: "check_parent env st p d = Inr ()"
    and st': "c = next_class st"
      "st' = st\<lparr>cls := (cls st)
             (c := \<lparr>cls_functions = cls_functions (cls st p), definedFunctions = [], cls_name = name,
                isMetaClass = False, parentClass = Some p\<rparr>,
              Suc c := make_meta env st name),
            cls_type := (cls_type st)(c := Suc c, Suc c := rootClass env),
            managed := (managed st)(c \<mapsto> make_info st p d),
            next_class := c + 2\<rparr>"
    using new by (auto simp: new_ObjManagedClass_def Let_def rbind_eq_Inr_iff)
  show "c = next_class st" "next_class st' = c + 2" using st' by simp_all
  have obj: "managed st p = None \<Longrightarrow> p = objectClass env"
    using chk by (auto simp: check_parent_def CanScriptSubclass_def rbind_eq_Inr_iff)
  have new_ok: "info_ok env st' c (make_info st p d)"
  proof (cases "managed st p")
    case None
    then show ?thesis
      using p obj st'(1) by (auto simp: info_ok_def st'(2) make_info_def Let_def)
  next
    case (Some j)
    then have "info_ok env st p j" using ok(1) by (simp add: layout_ok_def)
    then have "0 \<le> totalFieldCount j" "mc_size j = sizeof_ObjManaged + totalFieldCount j * sizeof_Value"
      by (simp_all add: info_ok_def)
    then show ?thesis
      using p Some st'(1) by (auto simp: info_ok_def st'(2) make_info_def Let_def algebra_simps)
  qed
  have old_ok: "info_ok env st' x i" if x: "managed st x = Some i" for x i
  proof -
    have i: "x < c" "info_ok env st x i" using ok(1) x st'(1) by (auto simp: layout_ok_def)
    then obtain q where q: "q < c" "parentClass (cls st x) = Some q"
      "case managed st q of
         Some j \<Rightarrow> fieldOffset i = mc_size j \<and> totalFieldCount i = totalFieldCount j + int (length (decl_fields (spec i)))
       | None \<Rightarrow> q = objectClass env \<and> fieldOffset i = sizeof_ObjManaged"
      using st'(1) unfolding info_ok_def by blast
    have "managed st' q = managed st q" "cls st' x = cls st x" "q < next_class st'"
      using i(1) q(1) by (auto simp: st'(2))
    then show ?thesis
      using i(2) q(2,3) unfolding info_ok_def by auto
  qed
  show "layout_ok env st'"
    unfolding layout_ok_def
  proof (intro allI impI)
    fix x i assume x: "managed st' x = Some i"
    show "x < next_class st' \<and> info_ok env st' x i"
    proof (cases "x = c")
      case True
      then show ?thesis using x new_ok by (simp add: st'(2))
    next
      case False
      then have "managed st x = Some i" using x by (simp add: st'(2))
      then have "info_ok env st' x i" "x < next_class st"
        using old_ok ok(1) by (auto simp: layout_ok_def)
      then show ?thesis using st'(1) by (simp add: \<open>next_class st' = c + 2\<close>)
    qed
  qed
qed

lemma update_managed_shape:
  "\<forall>i. spec (f i) = spec i \<and> fieldOffset (f i) = fieldOffset i \<and> mc_size (f i) = mc_size i \<and>
     totalFieldCount (f i) = totalFieldCount i \<Longrightarrow> same_shape st (update_managed c f st)"
  by (auto simp: same_shape_def update_managed_def)

lemma init_class_layout:
  assumes ok: "layout_ok env st" "env_ok env st" and p: "\<forall>p. parent = ClassValue p \<longrightarrow> p < next_class st"
    and init: "wren_init_class env mem name block parent st = Inr (r, st')"
  shows "layout_ok env st'"
proof -
  obtain d where d: "Parse mem block empty_description = Inr d"
    using init by (auto simp: wren_init_class_def rbind_eq_Inr_iff)
  obtain q where q: "parent = ClassValue q"
    using init by (auto simp: wren_init_class_def d split: parent_value.splits)
  show ?thesis
  proof (cases "isSystemClass d")
    case True
    then have "init_system_class env name d q st = Inr (r, st')"
      using init by (simp add: wren_init_class_def d q)
    then obtain c where c: "coreClass env name = Some c"
      "add_methods c (decl_methods d) (st\<lparr>cls := (cls st)(c := (cls st c)\<lparr>parentClass := Some q\<rparr>)\<rparr>) = Inr st'"
      by (auto simp: init_system_class_def rbind_eq_Inr_iff split: if_splits option.splits)
    have "managed st c = None" using ok(2) c(1) by (auto simp: env_ok_def)
    moreover have "info_ok env (st\<lparr>cls := (cls st)(c := (cls st c)\<lparr>parentClass := Some q\<rparr>)\<rparr>) x i =
        info_ok env st x i" if "x \<noteq> c" for x i
      using that by (simp add: info_ok_def)
    ultimately have "layout_ok env (st\<lparr>cls := (cls st)(c := (cls st c)\<lparr>parentClass := Some q\<rparr>)\<rparr>)"
      using ok(1) by (force simp: layout_ok_def)
    then show ?thesis using add_methods_shape [OF c(2)] same_shape_layout by blast
  next
    case False
    then have "init_managed_class env name d q st = Inr (r, st')"
      using init by (simp add: wren_init_class_def d q)
    then obtain c st1 m where new: "new_ObjManagedClass env name d (Some q) st = Inr (c, st1)"
      "define_methods env name c (decl_methods d) (update_managed c (\<lambda>i. i\<lparr>declaringModule := m\<rparr>) st1) = Inr st'"
      by (auto simp: init_managed_class_def rbind_eq_Inr_iff split: option.splits)
    have "layout_ok env st1" using new_class_layout [OF ok _ new(1)] p q by simp
    moreover have "same_shape st1 (update_managed c (\<lambda>i. i\<lparr>declaringModule := m\<rparr>) st1)"
      by (rule update_managed_shape) simp
    ultimately show ?thesis
      using define_methods_shape [OF new(2)] same_shape_layout by blast
  qed
qed

section \<open>Ancestors\<close>

inductive ancestor :: "class_state \<Rightarrow> nat \<Rightarrow> nat \<Rightarrow> bool" for st where
  parent: "parentClass (cls st c) = Some p \<Longrightarrow> ancestor st p c"
| further: "parentClass (cls st c) = Some p \<Longrightarrow> ancestor st q p \<Longrightarrow> ancestor st q c"

lemma ancestor_fields_below:
  assumes ok: "layout_ok env st" and root: "parentClass (cls st (objectClass env)) = None"
  shows "ancestor st q c \<Longrightarrow> managed st c = Some i \<Longrightarrow> managed st q = Some j \<Longrightarrow> mc_size j \<le> fieldOffset i"
proof (induction arbitrary: i rule: ancestor.induct)
  case (parent c p)
  have "info_ok env st c i" using ok parent(2) by (simp add: layout_ok_def)
  then show ?case using parent(1,3) by (auto simp: info_ok_def)
next
  case (further c p q)
  have c: "info_ok env st c i" using ok further(4) by (simp add: layout_ok_def)
  obtain k where k: "managed st p = Some k"
  proof (cases "managed st p")
    case None
    then have "p = objectClass env" using c further(1) by (auto simp: info_ok_def)
    then show ?thesis using further(2) root by (auto elim: ancestor.cases)
  qed auto
  have "fieldOffset i = mc_size k" using c further(1) k by (auto simp: info_ok_def)
  moreover have "mc_size k = fieldOffset k + int (length (decl_fields (spec k))) * sizeof_Value"
    using ok k unfolding layout_ok_def info_ok_def by blast
  then have "fieldOffset k \<le> mc_size k" by (simp add: sizeof_Value_def)
  ultimately show ?case using further(3) [OF k further(5)] by simp
qed

section \<open>The methods\<close>

definition sig_map :: "method_decl list \<Rightarrow> u64 \<rightharpoonup> u64" where
  "sig_map ms = map_of (rev (map (\<lambda>m. (findSignatureId (md_name m), md_func m)) ms))"

definition bound_map :: "class_env \<Rightarrow> bytes \<Rightarrow> method_decl list \<Rightarrow> u64 \<rightharpoonup> u64" where
  "bound_map env name ms = map_of (rev (concat (map (\<lambda>m. case lookupForeignMethod env name m of
     Inl _ \<Rightarrow> [] | Inr f \<Rightarrow> if md_isForeign m then [(md_func m, f)] else []) ms)))"

lemma sig_map_Cons: "sig_map (m # ms) = [findSignatureId (md_name m) \<mapsto> md_func m] ++ sig_map ms"
  by (simp add: sig_map_def)

lemma bound_map_Cons: "bound_map env name (m # ms) =
  (case lookupForeignMethod env name m of
     Inl _ \<Rightarrow> bound_map env name ms
   | Inr f \<Rightarrow> (if md_isForeign m then [md_func m \<mapsto> f] else Map.empty) ++ bound_map env name ms)"
  by (auto simp: bound_map_def split: sum.split)

definition class_methods :: "class_state \<Rightarrow> nat \<Rightarrow> u64 \<rightharpoonup> u64" where
  "class_methods st c = methods (cls_functions (cls st c))"

lemma add_method_ok:
  assumes "table_ok (cls_functions (cls st (if md_isStatic m then cls_type st c else c)))" "md_func m \<noteq> 0"
  shows "\<exists>k. add_method True c m st =
      Inr (st\<lparr>cls := (cls st)(if md_isStatic m then cls_type st c else c := k)\<rparr>) \<and> table_ok (cls_functions k) \<and>
    methods (cls_functions k) = (class_methods st (if md_isStatic m then cls_type st c else c))
      (findSignatureId (md_name m) \<mapsto> md_func m)"
proof -
  let ?t = "if md_isStatic m then cls_type st c else c"
  obtain t' where t': "add_entry (findSignatureId (md_name m)) (md_func m) True (cls_functions (cls st ?t)) = Inr (True, t')"
    "table_ok t'" "methods t' = (methods (cls_functions (cls st ?t)))(findSignatureId (md_name m) \<mapsto> md_func m)"
    using ft.add_ok [OF assms, of "findSignatureId (md_name m)" True] by auto
  then show ?thesis
    by (auto simp: add_method_def AddFunction_def Let_def class_methods_def)
qed

lemma define_methods_ok:
  assumes "c \<noteq> cls_type st c" "table_ok (cls_functions (cls st c))" "table_ok (cls_functions (cls st (cls_type st c)))"
    "\<forall>m \<in> set ms. md_func m \<noteq> 0" "managed st c = Some i"
    "\<forall>m \<in> set ms. md_isForeign m \<longrightarrow> (\<exists>f. lookupForeignMethod env name m = Inr f)"
  shows "\<exists>st' i'. define_methods env name c ms st = Inr st' \<and>
    class_methods st' c = class_methods st c ++ sig_map (filter (\<lambda>m. \<not> md_isStatic m) ms) \<and>
    class_methods st' (cls_type st c) = class_methods st (cls_type st c) ++ sig_map (filter md_isStatic ms) \<and>
    (\<forall>x. x \<noteq> c \<and> x \<noteq> cls_type st c \<longrightarrow> cls st' x = cls st x) \<and> (\<forall>x. x \<noteq> c \<longrightarrow> managed st' x = managed st x) \<and>
    managed st' c = Some i' \<and> foreignMethods i' = foreignMethods i ++ bound_map env name ms"
  using assms
proof (induction ms arbitrary: st i)
  case Nil
  then show ?case by (simp add: sig_map_def bound_map_def)
next
  case (Cons m ms)
  obtain i1 st1 where st1: "bind_foreign env name c m st = Inr st1" "cls st1 = cls st" "cls_type st1 = cls_type st"
    "managed st1 c = Some i1" "\<forall>x. x \<noteq> c \<longrightarrow> managed st1 x = managed st x"
    "foreignMethods i1 ++ bound_map env name ms = foreignMethods i ++ bound_map env name (m # ms)"
  proof (cases "md_isForeign m")
    case True
    then obtain f where "lookupForeignMethod env name m = Inr f" using Cons.prems(6) by auto
    then show ?thesis
      using True Cons.prems(5)
      by (intro that [of "update_managed c (\<lambda>i. i\<lparr>foreignMethods := (foreignMethods i)(md_func m \<mapsto> f)\<rparr>) st"
          "i\<lparr>foreignMethods := (foreignMethods i)(md_func m \<mapsto> f)\<rparr>"])
        (simp_all add: bind_foreign_def update_managed_def bound_map_Cons)
  next
    case False
    show ?thesis
      by (rule that [of st i])
        (use False Cons.prems(5) in \<open>auto simp: bind_foreign_def bound_map_Cons split: sum.split\<close>)
  qed
  define t where "t = (if md_isStatic m then cls_type st c else c)"
  obtain k where k: "add_method True c m st1 = Inr (st1\<lparr>cls := (cls st)(t := k)\<rparr>)" "table_ok (cls_functions k)"
    "methods (cls_functions k) = (class_methods st t)(findSignatureId (md_name m) \<mapsto> md_func m)"
  proof -
    have "table_ok (cls_functions (cls st1 (if md_isStatic m then cls_type st1 c else c)))" "md_func m \<noteq> 0"
      using Cons.prems st1(2,3) by simp_all
    from add_method_ok [OF this] show ?thesis
      using that unfolding st1(2,3) t_def class_methods_def by blast
  qed
  define st2 where "st2 = st1\<lparr>cls := (cls st)(t := k)\<rparr>"
  have st2: "cls_type st2 = cls_type st" "managed st2 = managed st1" "cls st2 = (cls st)(t := k)"
    using st1(3) by (simp_all add: st2_def)
  have t: "t = c \<or> t = cls_type st c" by (simp add: t_def)
  obtain st' i' where IH: "define_methods env name c ms st2 = Inr st'"
    "class_methods st' c = class_methods st2 c ++ sig_map (filter (\<lambda>m. \<not> md_isStatic m) ms)"
    "class_methods st' (cls_type st c) = class_methods st2 (cls_type st c) ++ sig_map (filter md_isStatic ms)"
    "\<forall>x. x \<noteq> c \<and> x \<noteq> cls_type st c \<longrightarrow> cls st' x = cls st2 x" "\<forall>x. x \<noteq> c \<longrightarrow> managed st' x = managed st2 x"
    "managed st' c = Some i'" "foreignMethods i' = foreignMethods i1 ++ bound_map env name ms"
    using Cons.IH [of st2 i1] Cons.prems st1(4) k(2) t by (auto simp: st2)
  have new: "class_methods st2 x = (if x = t then class_methods st t ++ [findSignatureId (md_name m) \<mapsto> md_func m]
      else class_methods st x)" for x
    using k(3) by (simp add: class_methods_def st2)
  have "class_methods st' c = class_methods st c ++ sig_map (filter (\<lambda>m. \<not> md_isStatic m) (m # ms))"
    "class_methods st' (cls_type st c) = class_methods st (cls_type st c) ++ sig_map (filter md_isStatic (m # ms))"
    using IH(2,3) Cons.prems(1) by (auto simp: new t_def sig_map_Cons map_add_assoc simp del: map_add_empty)
  moreover have "define_methods env name c (m # ms) st = Inr st'"
    using st1(1) k(1) IH(1) by (simp add: st2_def)
  ultimately show ?case
    using IH(4-7) st1(5,6) t by (auto simp: st2)
qed

section \<open>The class of a description\<close>

definition declarations :: "class_info \<Rightarrow> method_decl list" where
  "declarations info = map (declared False) (ci_methods info) @ map (declared True) (ci_staticMethods info)"

text \<open>The parents that Wren allows.\<close>

definition may_extend :: "class_env \<Rightarrow> class_state \<Rightarrow> class_info \<Rightarrow> nat \<Rightarrow> bool" where
  "may_extend env st info p \<longleftrightarrow> p < next_class st \<and> (case managed st p of
     None \<Rightarrow> p = objectClass env \<and> (ci_isForeign info \<longrightarrow> ci_fields info = [])
   | Some j \<Rightarrow> \<not> isForeignClass (spec j) \<and> (ci_isForeign info \<longrightarrow> totalFieldCount j = 0 \<and> ci_fields info = []))"

text \<open>The host provides the foreign classes and methods that are declared.\<close>

definition host_provides :: "class_env \<Rightarrow> class_info \<Rightarrow> bool" where
  "host_provides env info \<longleftrightarrow> getModule env \<noteq> None \<and>
     (ci_isForeign info \<longrightarrow> lookupForeignClass env (ci_name info) = Inr ()) \<and>
     (\<forall>m \<in> set (declarations info). md_isForeign m \<longrightarrow>
        (\<exists>f. lookupForeignMethod env (ci_name info) m = Inr f))"

lemma declarations_split:
  "filter (\<lambda>m. \<not> md_isStatic m) (declarations info) = map (declared False) (ci_methods info)"
  "filter md_isStatic (declarations info) = map (declared True) (ci_staticMethods info)"
  by (simp_all add: declarations_def filter_map o_def declared_def)

lemma expected_simps:
  assumes "describable info"
  shows "isSystemClass (expected_description info) = IsCppSystemClass info"
    "isForeignClass (expected_description info) = ci_isForeign info"
    "decl_methods (expected_description info) = declarations info"
    "decl_fields (expected_description info) = ci_fields info"
  using decl_declared [OF assms] by (auto simp: expected_description_def declarations_def)

lemma check_parent_ok:
  assumes "may_extend env st info p" "describable info"
  shows "check_parent env st p (expected_description info) = Inr ()"
  using assms(1) by (auto simp: check_parent_def may_extend_def CanScriptSubclass_def make_info_def Let_def
      expected_simps [OF assms(2)] split: option.splits)

lemma init_class_ok:
  assumes desc: "describable info" "linked mem addr (class_strings info)" "\<not> IsCppSystemClass info"
    and funcs: "\<forall>m \<in> set (declarations info). md_func m \<noteq> 0"
    and parent: "may_extend env st info p" and host: "host_provides env info"
    and tables: "table_ok (cls_functions (cls st p))" "table_ok (cls_functions (cls st (rootClass env)))"
  defines "c \<equiv> next_class st"
  shows "\<exists>st' i. wren_init_class env mem (ci_name info) (write_class addr info) (ClassValue p) st = Inr (Some c, st') \<and>
    class_methods st' c = class_methods st p ++ sig_map (map (declared False) (ci_methods info)) \<and>
    class_methods st' (Suc c) = class_methods st (rootClass env) ++ sig_map (map (declared True) (ci_staticMethods info)) \<and>
    cls_type st' c = Suc c \<and> parentClass (cls st' c) = Some p \<and>
    (\<forall>x < c. cls st' x = cls st x \<and> managed st' x = managed st x) \<and> managed st' c = Some i \<and>
    decl_fields (spec i) = ci_fields info \<and> foreignMethods i = bound_map env (ci_name info) (declarations info)"
proof -
  let ?d = "expected_description info"
  note d = expected_simps [OF desc(1)]
  have parse: "Parse mem (write_class addr info) empty_description = Inr ?d"
    using desc by (intro Parse_class) (auto simp: describable_def)
  obtain packs where packs: "attribute_packs ?d = Inr packs"
    using expected_packs [OF desc(1)] by blast
  obtain md where md: "getModule env = Some md" using host by (auto simp: host_provides_def)
  define st1 where "st1 = st\<lparr>cls := (cls st)
       (c := \<lparr>cls_functions = cls_functions (cls st p), definedFunctions = [], cls_name = ci_name info,
          isMetaClass = False, parentClass = Some p\<rparr>,
        Suc c := make_meta env st (ci_name info)),
      cls_type := (cls_type st)(c := Suc c, Suc c := rootClass env),
      managed := (managed st)(c \<mapsto> make_info st p ?d),
      next_class := c + 2\<rparr>"
  have new: "new_ObjManagedClass env (ci_name info) ?d (Some p) st = Inr (c, st1)"
    using check_parent_ok [OF parent desc(1)] packs
    by (simp add: new_ObjManagedClass_def Let_def st1_def c_def)
  define st2 where "st2 = update_managed c (\<lambda>i. i\<lparr>declaringModule := md\<rparr>) st1"
  define i2 where "i2 = (make_info st p ?d)\<lparr>declaringModule := md\<rparr>"
  have st2: "cls st2 = cls st1" "cls_type st2 c = Suc c" "managed st2 c = Some i2"
    "\<forall>x. x \<noteq> c \<longrightarrow> managed st2 x = managed st x"
    by (simp_all add: st2_def update_managed_def st1_def i2_def)
  have meta: "cls_functions (cls st1 (Suc c)) = cls_functions (cls st (rootClass env))"
    "cls_functions (cls st1 c) = cls_functions (cls st p)"
    by (simp_all add: st1_def make_meta_def)
  obtain st' i' where st': "define_methods env (ci_name info) c (declarations info) st2 = Inr st'"
    "class_methods st' c = class_methods st2 c ++ sig_map (map (declared False) (ci_methods info))"
    "class_methods st' (Suc c) = class_methods st2 (Suc c) ++ sig_map (map (declared True) (ci_staticMethods info))"
    "\<forall>x. x \<noteq> c \<and> x \<noteq> Suc c \<longrightarrow> cls st' x = cls st2 x" "\<forall>x. x \<noteq> c \<longrightarrow> managed st' x = managed st2 x"
    "managed st' c = Some i'" "foreignMethods i' = foreignMethods i2 ++ bound_map env (ci_name info) (declarations info)"
    using define_methods_ok [of c st2 "declarations info" i2 env "ci_name info"] funcs host tables meta st2
    unfolding declarations_split host_provides_def by auto
  have shape: "same_shape st2 st'" using define_methods_shape [OF st'(1)] .
  obtain i0 where "managed st2 c = Some i0" "spec i' = spec i0"
    using shape st'(6) unfolding same_shape_def by metis
  then have spec: "spec i' = spec i2" using st2(3) by simp
  have "spec i2 = ?d" by (simp add: i2_def make_info_def Let_def split: option.split)
  note spec = spec [unfolded this]
  have "wren_init_class env mem (ci_name info) (write_class addr info) (ClassValue p) st = Inr (Some c, st')"
    using desc(3) host md
    by (simp add: wren_init_class_def parse d init_managed_class_def new host_provides_def st'(1) flip: st2_def)
  moreover have "class_methods st2 c = class_methods st p" "class_methods st2 (Suc c) = class_methods st (rootClass env)"
    using meta by (simp_all add: class_methods_def st2(1))
  moreover have "cls_type st' c = Suc c" "parentClass (cls st' c) = Some p"
    using shape st2 by (simp_all add: same_shape_def st1_def)
  moreover have "cls st' x = cls st x \<and> managed st' x = managed st x" if "x < c" for x
    using st'(4,5) st2 that by (simp add: st1_def)
  moreover have "foreignMethods i2 = Map.empty" by (simp add: i2_def make_info_def Let_def split: option.split)
  ultimately show ?thesis
    using st' spec d(4) by auto
qed

text \<open>
  C34: the entry point that creates a class, given the block that the compiler wrote for it and a parent that Wren
  allows, makes a class that answers to its own methods before those of its parent, with a metaclass that answers
  to the static ones; every foreign method is bound to what the host provides.  Older classes do not change.  An
  instance has room for all fields, and its own fields come after those of all ancestors.
\<close>

theorem wren_init_class_defines:
  assumes "describable info" "linked mem addr (class_strings info)" "\<not> IsCppSystemClass info"
    "\<forall>m \<in> set (declarations info). md_func m \<noteq> 0"
    "may_extend env st info p" "host_provides env info"
    "table_ok (cls_functions (cls st p))" "table_ok (cls_functions (cls st (rootClass env)))"
    "layout_ok env st" "env_ok env st" "parentClass (cls st (objectClass env)) = None"
  shows "\<exists>c st' i obj.
    wren_init_class env mem (ci_name info) (write_class addr info) (ClassValue p) st = Inr (Some c, st') \<and>
    class_methods st' c = class_methods st p ++ sig_map (map (declared False) (ci_methods info)) \<and>
    class_methods st' (cls_type st' c) =
      class_methods st (rootClass env) ++ sig_map (map (declared True) (ci_staticMethods info)) \<and>
    (\<forall>x < next_class st. cls st' x = cls st x \<and> managed st' x = managed st x) \<and>
    managed st' c = Some i \<and> foreignMethods i = bound_map env (ci_name info) (declarations info) \<and>
    layout_ok env st' \<and>
    wren_alloc_obj st' (ClassValue c) = Inr (24 + 8 * int (length (om_fields obj)), obj) \<and>
    fieldOffset i + 8 * int (length (ci_fields info)) = 24 + 8 * int (length (om_fields obj)) \<and>
    (\<forall>q j. ancestor st' q c \<longrightarrow> managed st' q = Some j \<longrightarrow> mc_size j \<le> fieldOffset i)"
proof -
  let ?c = "next_class st"
  obtain st' i where st': "wren_init_class env mem (ci_name info) (write_class addr info) (ClassValue p) st = Inr (Some ?c, st')"
    "class_methods st' ?c = class_methods st p ++ sig_map (map (declared False) (ci_methods info))"
    "class_methods st' (Suc ?c) = class_methods st (rootClass env) ++ sig_map (map (declared True) (ci_staticMethods info))"
    "cls_type st' ?c = Suc ?c" "parentClass (cls st' ?c) = Some p"
    "\<forall>x < ?c. cls st' x = cls st x \<and> managed st' x = managed st x" "managed st' ?c = Some i"
    "decl_fields (spec i) = ci_fields info" "foreignMethods i = bound_map env (ci_name info) (declarations info)"
    using init_class_ok [OF assms(1-8)] by blast
  have layout: "layout_ok env st'"
    using init_class_layout [OF assms(9,10) _ st'(1)] assms(5) by (simp add: may_extend_def)
  then have "info_ok env st' ?c i" using st'(7) by (simp add: layout_ok_def)
  then have size: "0 \<le> totalFieldCount i" "mc_size i = 24 + 8 * totalFieldCount i"
    "mc_size i = fieldOffset i + 8 * int (length (ci_fields info))"
    unfolding info_ok_def sizeof_ObjManaged_def sizeof_Value_def st'(8) mult.commute [of _ "8 :: int"]
    by blast+
  have "parentClass (cls st' (objectClass env)) = None"
    using assms(10,11) st'(6) by (simp add: env_ok_def)
  then have below: "ancestor st' q ?c \<Longrightarrow> managed st' q = Some j \<Longrightarrow> mc_size j \<le> fieldOffset i" for q j
    using ancestor_fields_below [OF layout] st'(7) by blast
  have "wren_alloc_obj st' (ClassValue ?c) =
      Inr (24 + 8 * int (length (om_fields (new_ObjManaged ?c i))), new_ObjManaged ?c i)"
    using st'(7) size by (simp add: wren_alloc_obj_def new_ObjManaged_def)
  moreover have "fieldOffset i + 8 * int (length (ci_fields info)) = 24 + 8 * int (length (om_fields (new_ObjManaged ?c i)))"
    using size by (simp add: new_ObjManaged_def)
  ultimately show ?thesis
    using st' layout below by metis
qed

text \<open>The class \<open>example_class\<close> in a runtime with two native classes, \<open>Object\<close> and \<open>Class\<close>.\<close>

definition example_native :: "nat option \<Rightarrow> obj_class" where
  "example_native parent = \<lparr>cls_functions = empty_table, definedFunctions = [], cls_name = [], isMetaClass = False,
     parentClass = parent\<rparr>"

definition example_state :: class_state where
  "example_state = \<lparr>cls = (\<lambda>c. example_native (if c = 0 then None else Some 0)), cls_type = (\<lambda>_. 1),
     managed = Map.empty, next_class = 2\<rparr>"

definition example_env :: class_env where
  "example_env = \<lparr>objectClass = 0, rootClass = 1, nullClass = 0, numClass = 0, object_type = (\<lambda>_. 0),
     coreClass = (\<lambda>_. None), getModule = Some 0, lookupForeignClass = (\<lambda>_. Inl Fatal),
     lookupForeignMethod = (\<lambda>_ _. Inl Fatal)\<rparr>"

lemma example_class_ok:
  "\<not> IsCppSystemClass example_class" "\<forall>m \<in> set (declarations example_class). md_func m \<noteq> 0"
  "may_extend example_env example_state example_class 0" "host_provides example_env example_class"
  "table_ok (cls_functions (cls example_state 0))"
  "table_ok (cls_functions (cls example_state (rootClass example_env)))"
  "layout_ok example_env example_state" "env_ok example_env example_state"
  "parentClass (cls example_state (objectClass example_env)) = None"
proof -
  show "\<not> IsCppSystemClass example_class" by code_simp
qed (auto simp: declarations_def declared_def may_extend_def host_provides_def example_class_def example_state_def
    example_env_def example_native_def empty_table_ok layout_ok_def env_ok_def)

theorem wren_init_class_defines_witness:
  "\<exists>c st' i obj. wren_init_class example_env example_mem (ci_name example_class)
      (write_class example_addr example_class) (ClassValue 0) example_state = Inr (Some c, st') \<and>
    class_methods st' c (findSignatureId [120]) = Some 4096 \<and>
    class_methods st' (cls_type st' c) (findSignatureId [110, 101, 119, 40, 41]) = Some 8192 \<and>
    managed st' c = Some i \<and> wren_alloc_obj st' (ClassValue c) = Inr (24 + 8 * int (length (om_fields obj)), obj)"
proof -
  obtain c st' i obj where w:
    "wren_init_class example_env example_mem (ci_name example_class) (write_class example_addr example_class)
       (ClassValue 0) example_state = Inr (Some c, st')"
    "class_methods st' c = class_methods example_state 0 ++
       sig_map (map (declared False) (ci_methods example_class))"
    "class_methods st' (cls_type st' c) = class_methods example_state (rootClass example_env) ++
       sig_map (map (declared True) (ci_staticMethods example_class))"
    "managed st' c = Some i" "wren_alloc_obj st' (ClassValue c) = Inr (24 + 8 * int (length (om_fields obj)), obj)"
    using wren_init_class_defines [OF example_ok example_class_ok] by blast
  show ?thesis
    using w(1,4,5) unfolding w(2,3)
    by (intro exI [of _ c] exI [of _ st'] exI [of _ i] exI [of _ obj])
      (simp add: w(2,3) example_class_def declared_def sig_map_def)
qed

end
