(* ===== verification/Lexer.thy ===== *)
theory Lexer
  imports Ir_Nodes
begin

text \<open>
  The lexer of the compiler (src/wren_compiler.cpp, from \<open>isName\<close> to \<open>nextToken\<close>).

  The source is a list of characters; a C string, it ends with a null character, which is read at the position
  after the last one (or earlier, where the list has a null character).  A read further on is past the end of
  the buffer, and undefined.  Positions replace the pointers into the source.  \<open>parens\<close> is the used part of the
  array of the same name, its last entry first, and its length is \<open>numParens\<close>.  Error messages are reduced to
  the flag \<open>hasError\<close>.

  The \<open>int\<close> in which \<open>readHexEscape\<close> collects its digits wraps around, as it does on the targets; the C++
  standard leaves the overflow of \<open>\U80000000\<close> and above undefined.  The \<open>int\<close> that the constructor of a
  number's \<open>CcValue\<close> fills beside the double, and that nothing reads from a number, is left out.

  \<open>strtod\<close> gives the value of the number at the start of a string and whether it is out of range; \<open>conv_out\<close>
  is the conversion of a code point with \<open>codecvt_utf8\<close>, which leaves nothing when it fails.  Both are arguments,
  in a record \<open>lexer_lib\<close>.
\<close>

datatype (plugins only: code) token_type =
    TOKEN_LEFT_PAREN | TOKEN_RIGHT_PAREN | TOKEN_LEFT_BRACKET | TOKEN_RIGHT_BRACKET | TOKEN_LEFT_BRACE
  | TOKEN_RIGHT_BRACE | TOKEN_COLON | TOKEN_DOT | TOKEN_DOTDOT | TOKEN_DOTDOTDOT | TOKEN_COMMA | TOKEN_STAR
  | TOKEN_SLASH | TOKEN_PERCENT | TOKEN_HASH | TOKEN_PLUS | TOKEN_MINUS | TOKEN_LTLT | TOKEN_GTGT | TOKEN_PIPE
  | TOKEN_PIPEPIPE | TOKEN_CARET | TOKEN_AMP | TOKEN_AMPAMP | TOKEN_BANG | TOKEN_TILDE | TOKEN_QUESTION
  | TOKEN_EQ | TOKEN_LT | TOKEN_GT | TOKEN_LTEQ | TOKEN_GTEQ | TOKEN_EQEQ | TOKEN_BANGEQ
  | TOKEN_BREAK | TOKEN_CONTINUE | TOKEN_CLASS | TOKEN_CONSTRUCT | TOKEN_ELSE | TOKEN_FALSE | TOKEN_FOR
  | TOKEN_FOREIGN | TOKEN_IF | TOKEN_IMPORT | TOKEN_AS | TOKEN_IN | TOKEN_IS | TOKEN_NULL | TOKEN_RETURN
  | TOKEN_STATIC | TOKEN_SUPER | TOKEN_THIS | TOKEN_TRUE | TOKEN_VAR | TOKEN_WHILE
  | TOKEN_FIELD | TOKEN_STATIC_FIELD | TOKEN_NAME | TOKEN_NUMBER | TOKEN_STRING | TOKEN_INTERPOLATION
  | TOKEN_LINE | TOKEN_ERROR | TOKEN_EOF

text \<open>The two comparisons of types that the lexer makes.\<close>

definition is_line :: "token_type \<Rightarrow> bool" where
  "is_line ty = (case ty of TOKEN_LINE \<Rightarrow> True | _ \<Rightarrow> False)"

definition is_eof :: "token_type \<Rightarrow> bool" where
  "is_eof ty = (case ty of TOKEN_EOF \<Rightarrow> True | _ \<Rightarrow> False)"

record token =
  tok_type :: token_type
  tok_contents :: string
  tok_line :: int
  tok_value :: cc_value

record lexer =
  source :: string
  tokenStart :: nat
  currentChar :: nat
  currentLine :: int
  next_token :: token
  current_token :: token
  previous_token :: token
  parens :: "int list"
  hasError :: bool

record lexer_lib =
  strtod :: "string \<Rightarrow> double \<times> bool"
  conv_out :: "u32 \<Rightarrow> string"

definition MAX_INTERPOLATION_NESTING :: nat where "MAX_INTERPOLATION_NESTING = 8"

definition keyword_table :: "(string \<times> token_type) list" where
  "keyword_table =
     [(''break'', TOKEN_BREAK), (''continue'', TOKEN_CONTINUE), (''class'', TOKEN_CLASS),
      (''construct'', TOKEN_CONSTRUCT), (''else'', TOKEN_ELSE), (''false'', TOKEN_FALSE), (''for'', TOKEN_FOR),
      (''foreign'', TOKEN_FOREIGN), (''if'', TOKEN_IF), (''import'', TOKEN_IMPORT), (''as'', TOKEN_AS),
      (''in'', TOKEN_IN), (''is'', TOKEN_IS), (''null'', TOKEN_NULL), (''return'', TOKEN_RETURN),
      (''static'', TOKEN_STATIC), (''super'', TOKEN_SUPER), (''this'', TOKEN_THIS), (''true'', TOKEN_TRUE),
      (''var'', TOKEN_VAR), (''while'', TOKEN_WHILE)]"

section \<open>Characters\<close>

abbreviation NUL :: char where "NUL \<equiv> CHR 0x00"
abbreviation NEWLINE :: char where "NEWLINE \<equiv> CHR 0x0A"

definition in_range :: "char \<Rightarrow> char \<Rightarrow> char \<Rightarrow> bool" where
  "in_range a b c \<longleftrightarrow> (of_char a :: nat) \<le> of_char c \<and> (of_char c :: nat) \<le> of_char b"

definition isName :: "char \<Rightarrow> bool" where
  "isName c \<longleftrightarrow> in_range (CHR ''a'') (CHR ''z'') c \<or> in_range (CHR ''A'') (CHR ''Z'') c \<or> c = CHR ''_''"

definition isDigit :: "char \<Rightarrow> bool" where
  "isDigit c \<longleftrightarrow> in_range (CHR ''0'') (CHR ''9'') c"

section \<open>Moving through the source\<close>

definition char_at :: "string \<Rightarrow> nat \<Rightarrow> char res" where
  "char_at s i = (if i < length s then Inr (s ! i) else if i = length s then Inr NUL else Inl Undefined)"

definition peekChar :: "lexer \<Rightarrow> char res" where
  "peekChar st = char_at (source st) (currentChar st)"

definition peekNextChar :: "lexer \<Rightarrow> char res" where
  "peekNextChar st =
     rbind (peekChar st) (\<lambda>c. if c = NUL then Inr NUL else char_at (source st) (currentChar st + 1))"

definition nextChar :: "lexer \<Rightarrow> (char \<times> lexer) res" where
  "nextChar st = rbind (peekChar st) (\<lambda>c.
     Inr (c, st\<lparr>currentChar := currentChar st + 1,
       currentLine := currentLine st + (if c = NEWLINE then 1 else 0)\<rparr>))"

definition stepBack :: "lexer \<Rightarrow> lexer" where
  "stepBack st = st\<lparr>currentChar := currentChar st - 1\<rparr>"

definition matchChar :: "char \<Rightarrow> lexer \<Rightarrow> (bool \<times> lexer) res" where
  "matchChar c st = rbind (peekChar st) (\<lambda>d.
     if d \<noteq> c then Inr (False, st) else rbind (nextChar st) (\<lambda>(_, st). Inr (True, st)))"

definition lexError :: "lexer \<Rightarrow> lexer" where
  "lexError st = st\<lparr>hasError := True\<rparr>"

definition token_text :: "lexer \<Rightarrow> string" where
  "token_text st = drop (tokenStart st) (take (currentChar st) (source st @ [NUL]))"

definition makeToken :: "token_type \<Rightarrow> lexer \<Rightarrow> lexer" where
  "makeToken ty st = st\<lparr>next_token := (next_token st)\<lparr>tok_type := ty, tok_contents := token_text st,
     tok_line := currentLine st - (if is_line ty then 1 else 0)\<rparr>\<rparr>"

definition set_value :: "cc_value \<Rightarrow> lexer \<Rightarrow> lexer" where
  "set_value v st = st\<lparr>next_token := (next_token st)\<lparr>tok_value := v\<rparr>\<rparr>"

definition twoCharToken :: "char \<Rightarrow> token_type \<Rightarrow> token_type \<Rightarrow> lexer \<Rightarrow> lexer res" where
  "twoCharToken c two one st = rbind (matchChar c st) (\<lambda>(b, st). Inr (makeToken (if b then two else one) st))"

text \<open>How much is left, for the loops: every \<open>nextChar\<close> that succeeds takes one.\<close>

definition left :: "lexer \<Rightarrow> nat" where
  "left st = length (source st) + 1 - currentChar st"

lemma peekChar_left: "peekChar st = Inr c \<Longrightarrow> 0 < left st"
  by (auto simp: peekChar_def char_at_def left_def split: if_splits)

lemma nextChar_left: "nextChar st = Inr (c, st') \<Longrightarrow> Suc (left st') = left st"
  by (auto simp: nextChar_def peekChar_def char_at_def left_def rbind_eq_Inr_iff split: if_splits)

section \<open>Comments\<close>

text \<open>Skip characters as long as they satisfy a condition; \<open>skip_while p\<close> is \<open>while (p (peekChar())) nextChar()\<close>.\<close>

function skip_while :: "(char \<Rightarrow> bool) \<Rightarrow> lexer \<Rightarrow> lexer res" where
  "skip_while p st = rbind (peekChar st) (\<lambda>c.
     if p c then rbind (nextChar st) (\<lambda>(_, st). skip_while p st) else Inr st)"
  by pat_completeness auto
termination
  by (relation "measure (\<lambda>(p, st). left st)") (auto dest: nextChar_left)

declare skip_while.simps [simp del]

definition skipLineComment :: "lexer \<Rightarrow> lexer res" where
  "skipLineComment st = skip_while (\<lambda>c. c \<noteq> NEWLINE \<and> c \<noteq> NUL) st"

function skip_block :: "nat \<Rightarrow> lexer \<Rightarrow> lexer res" where
  "skip_block nesting st =
     (if nesting = 0 then Inr st
      else rbind (peekChar st) (\<lambda>c.
        if c = NUL then Inr (lexError st)
        else rbind (peekNextChar st) (\<lambda>d.
          if c = CHR ''/'' \<and> d = CHR ''*'' then
            rbind (nextChar st) (\<lambda>(_, st). rbind (nextChar st) (\<lambda>(_, st). skip_block (nesting + 1) st))
          else if c = CHR ''*'' \<and> d = CHR ''/'' then
            rbind (nextChar st) (\<lambda>(_, st). rbind (nextChar st) (\<lambda>(_, st). skip_block (nesting - 1) st))
          else rbind (nextChar st) (\<lambda>(_, st). skip_block nesting st))))"
  by pat_completeness auto
termination
  by (relation "measure (\<lambda>(n, st). left st)") (auto dest!: nextChar_left)

declare skip_block.simps [simp del]

definition skipBlockComment :: "lexer \<Rightarrow> lexer res" where
  "skipBlockComment st = skip_block 1 st"

section \<open>Numbers\<close>

definition hex_digit :: "char \<Rightarrow> nat option" where
  "hex_digit c =
     (if in_range (CHR ''0'') (CHR ''9'') c then Some (of_char c - of_char (CHR ''0''))
      else if in_range (CHR ''a'') (CHR ''f'') c then Some (of_char c - of_char (CHR ''a'') + 10)
      else if in_range (CHR ''A'') (CHR ''F'') c then Some (of_char c - of_char (CHR ''A'') + 10)
      else None)"

text \<open>A character that is no digit is given back, but not the line that it may have ended.\<close>

definition readHexDigit :: "lexer \<Rightarrow> (nat option \<times> lexer) res" where
  "readHexDigit st = rbind (nextChar st) (\<lambda>(c, st).
     case hex_digit c of None \<Rightarrow> Inr (None, stepBack st) | Some d \<Rightarrow> Inr (Some d, st))"

text \<open>The text from the start of the token, as the C library reads it.\<close>

definition c_rest :: "lexer \<Rightarrow> string" where
  "c_rest st = takeWhile (\<lambda>c. c \<noteq> NUL) (drop (tokenStart st) (source st))"

fun hex_value :: "string \<Rightarrow> nat \<Rightarrow> nat" where
  "hex_value [] n = n"
| "hex_value (c # cs) n = (case hex_digit c of None \<Rightarrow> n | Some d \<Rightarrow> hex_value cs (16 * n + d))"

text \<open>\<open>strtoll\<close> for a string that begins with \<open>0x\<close>, and whether it is out of range.\<close>

definition strtoll_hex :: "string \<Rightarrow> int \<times> bool" where
  "strtoll_hex s = (let n = int (hex_value (drop 2 s) 0) in if n < 2 ^ 63 then (n, False) else (2 ^ 63 - 1, True))"

definition makeNumber :: "lexer_lib \<Rightarrow> bool \<Rightarrow> lexer \<Rightarrow> lexer" where
  "makeNumber lib isHex st =
     (let (v, erange) = (if isHex then let (n, e) = strtoll_hex (c_rest st) in (double_of_int n, e)
            else strtod lib (c_rest st));
          st = set_value (CcNum v) st;
          st = (if erange then set_value (CcInt 0) (lexError st) else st)
      in makeToken TOKEN_NUMBER st)"

lemma readHexDigit_left: "readHexDigit st = Inr (Some d, st') \<Longrightarrow> Suc (left st') = left st"
  by (auto simp: readHexDigit_def rbind_eq_Inr_iff dest: nextChar_left split: option.splits)

function skip_hex :: "lexer \<Rightarrow> lexer res" where
  "skip_hex st = rbind (readHexDigit st) (\<lambda>(d, st'). if d = None then Inr st' else skip_hex st')"
  by pat_completeness auto
termination
  by (relation "measure left") (auto dest: readHexDigit_left)

declare skip_hex.simps [simp del]

definition readHexNumber :: "lexer_lib \<Rightarrow> lexer \<Rightarrow> lexer res" where
  "readHexNumber lib st = rbind (nextChar st) (\<lambda>(_, st). rbind (skip_hex st) (\<lambda>st. Inr (makeNumber lib True st)))"

definition readFraction :: "lexer \<Rightarrow> lexer res" where
  "readFraction st = rbind (peekChar st) (\<lambda>c. rbind (peekNextChar st) (\<lambda>d.
     if c = CHR ''.'' \<and> isDigit d then rbind (nextChar st) (\<lambda>(_, st). skip_while isDigit st) else Inr st))"

definition readExponent :: "lexer \<Rightarrow> lexer res" where
  "readExponent st = rbind (matchChar (CHR ''e'') st) (\<lambda>(e, st).
     rbind (if e then Inr (True, st) else matchChar (CHR ''E'') st) (\<lambda>(e, st).
     if \<not> e then Inr st
     else rbind (matchChar (CHR ''+'') st) (\<lambda>(plus, st).
       rbind (if plus then Inr (True, st) else matchChar (CHR ''-'') st) (\<lambda>(_, st).
       rbind (peekChar st) (\<lambda>c.
         skip_while isDigit (if isDigit c then st else lexError st))))))"

definition readNumber :: "lexer_lib \<Rightarrow> lexer \<Rightarrow> lexer res" where
  "readNumber lib st = rbind (skip_while isDigit st) (\<lambda>st. rbind (readFraction st) (\<lambda>st.
     rbind (readExponent st) (\<lambda>st. Inr (makeNumber lib False st))))"

section \<open>Names\<close>

text \<open>The value is the text of the token: it starts with the first character, which has been consumed.\<close>

definition readName :: "token_type \<Rightarrow> lexer \<Rightarrow> lexer res" where
  "readName ty st = rbind (skip_while (\<lambda>c. isName c \<or> isDigit c) st) (\<lambda>st.
     let ty = (case map_of keyword_table (token_text st) of None \<Rightarrow> ty | Some k \<Rightarrow> k)
     in Inr (makeToken ty (set_value (CcString (token_text st)) st)))"

section \<open>Strings\<close>

unbundle bit_operations_syntax

fun hex_escape_loop :: "nat \<Rightarrow> u32 \<Rightarrow> lexer \<Rightarrow> (u32 \<times> lexer) res" where
  "hex_escape_loop 0 v st = Inr (v, st)"
| "hex_escape_loop (Suc digits) v st = rbind (peekChar st) (\<lambda>c.
     if c = CHR 0x22 \<or> c = NUL then Inr (v, stepBack (lexError st))
     else rbind (readHexDigit st) (\<lambda>(d, st). case d of
         None \<Rightarrow> Inr (v, lexError st)
       | Some d \<Rightarrow> hex_escape_loop digits (v * 16 OR of_nat d) st))"

definition readHexEscape :: "nat \<Rightarrow> lexer \<Rightarrow> (u32 \<times> lexer) res" where
  "readHexEscape digits st = hex_escape_loop digits 0 st"

definition readUnicodeEscape :: "lexer_lib \<Rightarrow> nat \<Rightarrow> lexer \<Rightarrow> (string \<times> lexer) res" where
  "readUnicodeEscape lib digits st = rbind (readHexEscape digits st) (\<lambda>(v, st). Inr (conv_out lib v, st))"

text \<open>The escapes that stand for one character.\<close>

definition simple_escape :: "char \<Rightarrow> char option" where
  "simple_escape c = map_of
     [(CHR 0x22, CHR 0x22), (CHR 0x5C, CHR 0x5C), (CHR ''%'', CHR ''%''), (CHR ''0'', NUL), (CHR ''a'', CHR 0x07),
      (CHR ''b'', CHR 0x08), (CHR ''e'', CHR 0x1B), (CHR ''f'', CHR 0x0C), (CHR ''n'', NEWLINE),
      (CHR ''r'', CHR 0x0D), (CHR ''t'', CHR 0x09), (CHR ''v'', CHR 0x0B)] c"

text \<open>After a backslash: the characters that are added to the string.\<close>

definition readEscape :: "lexer_lib \<Rightarrow> lexer \<Rightarrow> (string \<times> lexer) res" where
  "readEscape lib st = rbind (nextChar st) (\<lambda>(c, st).
     case simple_escape c of
       Some d \<Rightarrow> Inr ([d], st)
     | None \<Rightarrow>
         if c = CHR ''u'' then readUnicodeEscape lib 4 st
         else if c = CHR ''U'' then readUnicodeEscape lib 8 st
         else if c = CHR ''x'' then rbind (readHexEscape 2 st) (\<lambda>(v, st). Inr ([char_of (unat v)], st))
         else Inr ([], lexError st))"

lemma left_stepBack: "left (stepBack st) \<le> Suc (left st)"
  by (simp add: left_def stepBack_def)

lemma left_simps [simp]:
  "left (lexError st) = left st" "left (makeToken ty st) = left st" "left (set_value v st) = left st"
  "left (st\<lparr>parens := ps\<rparr>) = left st" "left (st\<lparr>tokenStart := n\<rparr>) = left st"
  by (simp_all add: left_def lexError_def makeToken_def set_value_def)

lemma readHexDigit_None_left: "readHexDigit st = Inr (None, st') \<Longrightarrow> left st' \<le> left st"
proof -
  assume "readHexDigit st = Inr (None, st')"
  then obtain c st1 where "nextChar st = Inr (c, st1)" "st' = stepBack st1"
    by (auto simp: readHexDigit_def rbind_eq_Inr_iff split: option.splits)
  then show ?thesis using nextChar_left [of st c st1] left_stepBack [of st1] by simp
qed

lemma hex_escape_left: "hex_escape_loop n v st = Inr (w, st') \<Longrightarrow> left st' \<le> Suc (left st)"
proof (induction n v st rule: hex_escape_loop.induct)
  case (2 n v st)
  obtain c where c: "peekChar st = Inr c" using 2(2) by (auto simp: rbind_eq_Inr_iff)
  show ?case
  proof (cases "c = CHR 0x22 \<or> c = NUL")
    case True
    then have "st' = stepBack (lexError st)" using 2(2) c by auto
    then show ?thesis using left_stepBack [of "lexError st"] by simp
  next
    case False
    obtain d st1 where d: "readHexDigit st = Inr (d, st1)"
      using 2(2) c False by (auto simp: rbind_eq_Inr_iff)
    show ?thesis
    proof (cases d)
      case None
      then show ?thesis using 2(2) c False d readHexDigit_None_left [of st st1] by auto
    next
      case (Some k)
      then have "left st' \<le> Suc (left st1)" using 2(1) [OF c False d refl Some] 2(2) c False d by auto
      then show ?thesis using readHexDigit_left [of st k st1] d Some by simp
    qed
  qed
qed simp

lemma readEscape_left: "readEscape lib st = Inr (cs, st') \<Longrightarrow> left st' \<le> left st"
  using hex_escape_left nextChar_left
  by (fastforce simp: readEscape_def readUnicodeEscape_def readHexEscape_def rbind_eq_Inr_iff
      split: option.splits if_splits)

text \<open>The loop of \<open>readString\<close>, with the string so far.\<close>

function string_loop :: "lexer_lib \<Rightarrow> string \<Rightarrow> lexer \<Rightarrow> (token_type \<times> string \<times> lexer) res" where
  "string_loop lib str st = rbind (nextChar st) (\<lambda>(c, st).
     if c = CHR 0x22 then Inr (TOKEN_STRING, str, st)
     else if c = CHR 0x0D then string_loop lib str st
     else if c = NUL then Inr (TOKEN_STRING, str, stepBack (lexError st))
     else if c = CHR ''%'' \<and> length (parens st) < MAX_INTERPOLATION_NESTING then
       rbind (nextChar st) (\<lambda>(d, st).
         let st = (if d \<noteq> CHR ''('' then lexError st else st)
         in Inr (TOKEN_INTERPOLATION, str, st\<lparr>parens := 1 # parens st\<rparr>))
     else if c = CHR 0x5C then rbind (readEscape lib st) (\<lambda>(cs, st). string_loop lib (str @ cs) st)
     else string_loop lib (str @ [c]) (if c = CHR ''%'' then lexError st else st))"
  by pat_completeness auto
termination
  by (relation "measure (\<lambda>(lib, str, st). left st)") (auto dest!: nextChar_left readEscape_left)

declare string_loop.simps [simp del]

definition readString :: "lexer_lib \<Rightarrow> lexer \<Rightarrow> lexer res" where
  "readString lib st = rbind (string_loop lib [] st) (\<lambda>(ty, str, st).
     Inr (makeToken ty (set_value (CcString str) st)))"

section \<open>Raw strings\<close>

record raw_scan =
  skipStart :: int
  firstNewline :: int
  skipEnd :: int
  lastNewline :: int

definition isWhitespace :: "char \<Rightarrow> bool" where
  "isWhitespace c \<longleftrightarrow> c = CHR '' '' \<or> c = CHR 0x09"

definition raw_newline :: "char \<Rightarrow> int \<Rightarrow> raw_scan \<Rightarrow> raw_scan" where
  "raw_newline c len r =
     (if c = NEWLINE
      then r\<lparr>lastNewline := len, skipEnd := len,
        firstNewline := (if firstNewline r = -1 then len else firstNewline r)\<rparr>
      else r)"

definition raw_skips :: "char \<Rightarrow> int \<Rightarrow> raw_scan \<Rightarrow> raw_scan" where
  "raw_skips c len r =
     (let r = r\<lparr>skipEnd := (if c = NEWLINE \<or> isWhitespace c then skipEnd r else -1)\<rparr>;
          skippable = (skipStart r \<noteq> -1 \<and> isWhitespace c \<and> firstNewline r = -1);
          r = r\<lparr>skipStart := (if skippable then len + 1 else skipStart r)\<rparr>
      in if firstNewline r = -1 \<and> \<not> isWhitespace c \<and> c \<noteq> NEWLINE then r\<lparr>skipStart := -1\<rparr> else r)"

function raw_loop :: "string \<Rightarrow> raw_scan \<Rightarrow> lexer \<Rightarrow> (string \<times> raw_scan \<times> lexer) res" where
  "raw_loop str r st =
     rbind (nextChar st) (\<lambda>(c, st). rbind (peekChar st) (\<lambda>c1. rbind (peekNextChar st) (\<lambda>c2.
       if c = CHR 0x0D then raw_loop str r st
       else let r = raw_newline c (int (length str)) r in
         if c = CHR 0x22 \<and> c1 = CHR 0x22 \<and> c2 = CHR 0x22 then Inr (str, r, st)
         else let r = raw_skips c (int (length str)) r in
           if c = NUL \<or> c1 = NUL \<or> c2 = NUL then Inr (str, r, stepBack (lexError st))
           else raw_loop (str @ [c]) r st)))"
  by pat_completeness auto
termination
  by (relation "measure (\<lambda>(str, r, st). left st)") (auto dest!: nextChar_left)

declare raw_loop.simps [simp del]

text \<open>The part of the string that is kept; \<open>substr\<close> takes no more than there is.\<close>

definition raw_value :: "string \<Rightarrow> raw_scan \<Rightarrow> string" where
  "raw_value str r =
     (let len = int (length str);
          offset = (if firstNewline r \<noteq> -1 \<and> skipStart r = firstNewline r then firstNewline r + 1 else 0);
          count = (if lastNewline r \<noteq> -1 \<and> skipEnd r = lastNewline r then lastNewline r else len);
          count = count - (if offset > count then count else offset)
      in if offset > len then [] else take (nat count) (drop (nat offset) str))"

definition readRawString :: "lexer \<Rightarrow> lexer res" where
  "readRawString st = rbind (nextChar st) (\<lambda>(_, st). rbind (nextChar st) (\<lambda>(_, st).
     rbind (raw_loop [] \<lparr>skipStart = 0, firstNewline = -1, skipEnd = -1, lastNewline = -1\<rparr> st) (\<lambda>(str, r, st).
     rbind (nextChar st) (\<lambda>(_, st). rbind (nextChar st) (\<lambda>(_, st).
       Inr (makeToken TOKEN_STRING (set_value (CcString (raw_value str r)) st)))))))"

section \<open>Tokens\<close>

text \<open>The characters that are a token by themselves, without more to do.\<close>

definition single_token :: "char \<Rightarrow> token_type option" where
  "single_token c = map_of
     [(CHR ''['', TOKEN_LEFT_BRACKET), (CHR '']'', TOKEN_RIGHT_BRACKET), (CHR ''{'', TOKEN_LEFT_BRACE),
      (CHR ''}'', TOKEN_RIGHT_BRACE), (CHR '':'', TOKEN_COLON), (CHR '','', TOKEN_COMMA), (CHR ''*'', TOKEN_STAR),
      (CHR ''%'', TOKEN_PERCENT), (CHR ''^'', TOKEN_CARET), (CHR ''+'', TOKEN_PLUS), (CHR ''-'', TOKEN_MINUS),
      (CHR ''~'', TOKEN_TILDE), (CHR ''?'', TOKEN_QUESTION), (NEWLINE, TOKEN_LINE)] c"

text \<open>The tokens of one or two characters, with the second one.\<close>

definition double_token :: "char \<Rightarrow> (char \<times> token_type \<times> token_type) option" where
  "double_token c = map_of
     [(CHR ''|'', (CHR ''|'', TOKEN_PIPEPIPE, TOKEN_PIPE)), (CHR ''&'', (CHR ''&'', TOKEN_AMPAMP, TOKEN_AMP)),
      (CHR ''='', (CHR ''='', TOKEN_EQEQ, TOKEN_EQ)), (CHR ''!'', (CHR ''='', TOKEN_BANGEQ, TOKEN_BANG))] c"

definition lex_paren :: "lexer_lib \<Rightarrow> lexer \<Rightarrow> lexer res" where
  "lex_paren lib st = (case parens st of
     [] \<Rightarrow> Inr (makeToken TOKEN_RIGHT_PAREN st)
   | n # ps \<Rightarrow>
       if n - 1 = 0 then readString lib (st\<lparr>parens := ps\<rparr>)
       else Inr (makeToken TOKEN_RIGHT_PAREN (st\<lparr>parens := (n - 1) # ps\<rparr>)))"

definition lex_dot :: "lexer \<Rightarrow> lexer res" where
  "lex_dot st = rbind (matchChar (CHR ''.'') st) (\<lambda>(b, st).
     if b then twoCharToken (CHR ''.'') TOKEN_DOTDOTDOT TOKEN_DOTDOT st else Inr (makeToken TOKEN_DOT st))"

definition lex_angle :: "char \<Rightarrow> token_type \<Rightarrow> token_type \<Rightarrow> token_type \<Rightarrow> lexer \<Rightarrow> lexer res" where
  "lex_angle c double eq one st = rbind (matchChar c st) (\<lambda>(b, st).
     if b then Inr (makeToken double st) else twoCharToken (CHR ''='') eq one st)"

definition lex_other :: "lexer_lib \<Rightarrow> char \<Rightarrow> lexer \<Rightarrow> lexer res" where
  "lex_other lib c st =
     (if isName c then readName TOKEN_NAME st
      else if isDigit c then readNumber lib st
      else let st = lexError st in
        Inr (st\<lparr>next_token := (next_token st)\<lparr>tok_type := TOKEN_ERROR, tok_contents := []\<rparr>\<rparr>))"

text \<open>
  The \<open>switch\<close> of \<open>nextToken\<close>, after the character \<open>c\<close>; the flag says whether it returns, with a token, or
  goes on.
\<close>

definition lex_char :: "lexer_lib \<Rightarrow> char \<Rightarrow> lexer \<Rightarrow> (bool \<times> lexer) res" where
  "lex_char lib c st =
     (let token = map_sum id (Pair True); more = map_sum id (Pair False) in
      case single_token c of
        Some ty \<Rightarrow> token (Inr (makeToken ty st))
      | None \<Rightarrow>
      case double_token c of
        Some (d, two, one) \<Rightarrow> token (twoCharToken d two one st)
      | None \<Rightarrow>
        if c = CHR ''('' then
          token (Inr (makeToken TOKEN_LEFT_PAREN (st\<lparr>parens := (case parens st of [] \<Rightarrow> [] | n # ps \<Rightarrow> (n + 1) # ps)\<rparr>)))
        else if c = CHR '')'' then token (lex_paren lib st)
        else if c = CHR ''#'' then
          rbind (peekChar st) (\<lambda>d. rbind (peekNextChar st) (\<lambda>e.
            if currentLine st = 1 \<and> d = CHR ''!'' \<and> e = CHR ''/'' then more (skipLineComment st)
            else token (Inr (makeToken TOKEN_HASH st))))
        else if c = CHR ''.'' then token (lex_dot st)
        else if c = CHR ''/'' then
          rbind (matchChar (CHR ''/'') st) (\<lambda>(b, st).
            if b then more (skipLineComment st)
            else rbind (matchChar (CHR ''*'') st) (\<lambda>(b, st).
              if b then more (skipBlockComment st) else token (Inr (makeToken TOKEN_SLASH st))))
        else if c = CHR ''<'' then token (lex_angle (CHR ''<'') TOKEN_LTLT TOKEN_LTEQ TOKEN_LT st)
        else if c = CHR ''>'' then token (lex_angle (CHR ''>'') TOKEN_GTGT TOKEN_GTEQ TOKEN_GT st)
        else if c = CHR '' '' \<or> c = CHR 0x0D \<or> c = CHR 0x09 then
          more (skip_while (\<lambda>c. c = CHR '' '' \<or> c = CHR 0x0D \<or> c = CHR 0x09) st)
        else if c = CHR 0x22 then
          rbind (peekChar st) (\<lambda>d. rbind (peekNextChar st) (\<lambda>e.
            token (if d = CHR 0x22 \<and> e = CHR 0x22 then readRawString st else readString lib st)))
        else if c = CHR ''_'' then
          rbind (peekChar st) (\<lambda>d. token (readName (if d = CHR ''_'' then TOKEN_STATIC_FIELD else TOKEN_FIELD) st))
        else if c = CHR ''0'' then
          rbind (peekChar st) (\<lambda>d. token (if d = CHR ''x'' then readHexNumber lib st else readNumber lib st))
        else token (lex_other lib c st))"

lemma map_sum_Inr: "map_sum id f x = Inr y \<longleftrightarrow> (\<exists>z. x = Inr z \<and> y = f z)"
  by (cases x) auto

lemma skip_while_left: "skip_while p st = Inr st' \<Longrightarrow> left st' \<le> left st"
proof (induction p st rule: skip_while.induct)
  case (1 p st)
  obtain c where c: "peekChar st = Inr c" using 1(2) by (subst (asm) skip_while.simps) (auto simp: rbind_eq_Inr_iff)
  show ?case
  proof (cases "p c")
    case True
    obtain d st1 where d: "nextChar st = Inr (d, st1)" "skip_while p st1 = Inr st'"
      using 1(2) c True by (subst (asm) skip_while.simps) (auto simp: rbind_eq_Inr_iff)
    then show ?thesis using 1(1) [OF c True d(1) refl d(2)] nextChar_left [OF d(1)] by simp
  next
    case False
    then show ?thesis using 1(2) c by (subst (asm) skip_while.simps) simp
  qed
qed

lemma skip_block_step:
  assumes "skip_block n st = Inr st'"
  shows "st' = st \<or> st' = lexError st \<or>
    (\<exists>m st1. left st1 < left st \<and> skip_block m st1 = Inr st')"
  using assms
  by (subst (asm) skip_block.simps)
    (auto simp: rbind_eq_Inr_iff split: if_splits dest!: nextChar_left)

lemma skip_block_left: "skip_block n st = Inr st' \<Longrightarrow> left st' \<le> left st"
proof (induction "left st" arbitrary: n st rule: less_induct)
  case less
  from skip_block_step [OF less.prems] show ?case
    using less.hyps by (fastforce intro: less_imp_le le_trans)
qed

lemma matchChar_left: "matchChar c st = Inr (b, st') \<Longrightarrow> left st' \<le> left st"
  by (auto simp: matchChar_def rbind_eq_Inr_iff split: if_splits dest: nextChar_left)

lemma lex_char_left:
  assumes "lex_char lib c st = Inr (False, st')"
  shows "left st' \<le> left st"
proof -
  consider "skipLineComment st = Inr st'" | (ws) p where "skip_while p st = Inr st'"
    | b st1 where "matchChar (CHR ''/'') st = Inr (b, st1)" "skipLineComment st1 = Inr st'"
    | b b' st1 st2 where "matchChar (CHR ''/'') st = Inr (b, st1)" "matchChar (CHR ''*'') st1 = Inr (b', st2)"
        "skipBlockComment st2 = Inr st'"
    using assms
    by (auto simp: lex_char_def Let_def map_sum_Inr rbind_eq_Inr_iff split: option.splits if_splits)
  then show ?thesis
    by cases (auto simp: skipLineComment_def skipBlockComment_def
        dest!: matchChar_left skip_while_left skip_block_left)
qed

function lex_loop :: "lexer_lib \<Rightarrow> lexer \<Rightarrow> lexer res" where
  "lex_loop lib st = rbind (peekChar st) (\<lambda>c.
     if c = NUL then Inr (makeToken TOKEN_EOF (st\<lparr>tokenStart := currentChar st\<rparr>))
     else rbind (nextChar (st\<lparr>tokenStart := currentChar st\<rparr>)) (\<lambda>(c, st).
       rbind (lex_char lib c st) (\<lambda>(done, st). if done then Inr st else lex_loop lib st)))"
  by pat_completeness auto
termination
  by (relation "measure (\<lambda>(lib, st). left st)") (auto dest!: nextChar_left lex_char_left)

declare lex_loop.simps [simp del]

definition nextToken :: "lexer_lib \<Rightarrow> lexer \<Rightarrow> lexer res" where
  "nextToken lib st =
     (let st = st\<lparr>previous_token := current_token st, current_token := next_token st\<rparr> in
      if is_eof (tok_type (next_token st)) \<or> is_eof (tok_type (current_token st)) then Inr st
      else lex_loop lib st)"

section \<open>A whole source\<close>

text \<open>The state that \<open>wrenCompile\<close> sets up; a byte order mark is skipped.\<close>

definition empty_token :: token where
  "empty_token = \<lparr>tok_type = TOKEN_ERROR, tok_contents = [], tok_line = 0, tok_value = CcUndefined\<rparr>"

definition skip_bom :: "string \<Rightarrow> string" where
  "skip_bom s = (if take 3 s = [CHR 0xEF, CHR 0xBB, CHR 0xBF] then drop 3 s else s)"

definition start_lexer :: "string \<Rightarrow> lexer" where
  "start_lexer s = \<lparr>source = skip_bom s, tokenStart = 0, currentChar = 0, currentLine = 1,
     next_token = empty_token, current_token = empty_token, previous_token = empty_token, parens = [],
     hasError = False\<rparr>"

text \<open>The tokens up to the end of the source, at most \<open>n\<close>.\<close>

fun lex_tokens :: "lexer_lib \<Rightarrow> nat \<Rightarrow> lexer \<Rightarrow> (token list \<times> lexer) res" where
  "lex_tokens lib 0 st = Inr ([], st)"
| "lex_tokens lib (Suc n) st = rbind (nextToken lib st) (\<lambda>st.
     if is_eof (tok_type (next_token st)) then Inr ([next_token st], st)
     else rbind (lex_tokens lib n st) (\<lambda>(ts, st'). Inr (next_token st # ts, st')))"

end
