(* ===== verification/Lexer_Proofs.thy ===== *)
theory Lexer_Proofs
  imports Lexer
begin

text \<open>
  The lexer stays inside the source, ends, and reads every string from a literal for it, as long as the source
  ends in two newlines; without them, literals that are not closed make it read past the end of the source.
\<close>

section \<open>Moving forward\<close>

definition inside :: "lexer \<Rightarrow> bool" where
  "inside st \<longleftrightarrow> currentChar st \<le> length (source st)"

definition moved :: "lexer \<Rightarrow> lexer \<Rightarrow> bool" where
  "moved st st' \<longleftrightarrow> source st' = source st \<and> parens st' = parens st \<and> currentChar st \<le> currentChar st' \<and> inside st'"

text \<open>An operation that ends inside the source, without moving back.\<close>

definition lands :: "lexer \<Rightarrow> lexer res \<Rightarrow> bool" where
  "lands st r \<longleftrightarrow> (\<exists>st'. r = Inr st' \<and> moved st st')"

definition lands2 :: "lexer \<Rightarrow> ('a \<times> lexer) res \<Rightarrow> bool" where
  "lands2 st r \<longleftrightarrow> (\<exists>x st'. r = Inr (x, st') \<and> moved st st')"

lemma lex_moved_refl [simp]: "inside st \<Longrightarrow> moved st st"
  by (simp add: moved_def)

lemma lex_moved_trans: "moved a b \<Longrightarrow> moved b c \<Longrightarrow> moved a c"
  by (auto simp: moved_def)

lemma moved_inside: "moved st st' \<Longrightarrow> inside st'"
  by (simp add: moved_def)

lemma lands_Inr [simp]: "lands st (Inr st') \<longleftrightarrow> moved st st'"
  by (simp add: lands_def)

lemma lands2_Inr [simp]: "lands2 st (Inr (x, st')) \<longleftrightarrow> moved st st'"
  by (simp add: lands2_def)

lemma lands_from: "moved st st1 \<Longrightarrow> lands st1 r \<Longrightarrow> lands st r"
  by (auto simp: lands_def intro: lex_moved_trans)

lemma lands2_from: "moved st st1 \<Longrightarrow> lands2 st1 r \<Longrightarrow> lands2 st r"
  by (auto simp: lands2_def intro: lex_moved_trans)

lemma lands_bind:
  assumes "lands st r" "\<And>st'. r = Inr st' \<Longrightarrow> moved st st' \<Longrightarrow> lands st' (f st')"
  shows "lands st (rbind r f)"
  using assms by (fastforce simp: lands_def intro: lex_moved_trans)

lemma lands2_bind:
  assumes "lands2 st r" "\<And>x st'. r = Inr (x, st') \<Longrightarrow> moved st st' \<Longrightarrow> lands st' (f (x, st'))"
  shows "lands st (rbind r f)"
  using assms by (fastforce simp: lands_def lands2_def intro: lex_moved_trans)

lemma lands_bind2:
  assumes "lands st r" "\<And>st'. r = Inr st' \<Longrightarrow> moved st st' \<Longrightarrow> lands2 st' (f st')"
  shows "lands2 st (rbind r f)"
  using assms by (fastforce simp: lands_def lands2_def intro: lex_moved_trans)

lemma lands2_bind2:
  assumes "lands2 st r" "\<And>x st'. r = Inr (x, st') \<Longrightarrow> moved st st' \<Longrightarrow> lands2 st' (f (x, st'))"
  shows "lands2 st (rbind r f)"
  using assms by (fastforce simp: lands2_def intro: lex_moved_trans)

lemma moved_updates [simp]:
  "moved st (lexError st') = moved st st'" "moved st (makeToken ty st') = moved st st'"
  "moved st (set_value v st') = moved st st'" "inside (lexError st) = inside st"
  "moved st (st'\<lparr>next_token := t\<rparr>) = moved st st'" "moved (st\<lparr>tokenStart := k\<rparr>) st' = moved st st'"
  "inside (st\<lparr>parens := ps\<rparr>) = inside st"
  by (simp_all add: moved_def inside_def lexError_def makeToken_def set_value_def)

section \<open>Characters\<close>

definition advance :: "lexer \<Rightarrow> lexer" where
  "advance st = st\<lparr>currentChar := currentChar st + 1,
     currentLine := currentLine st + (if source st ! currentChar st = NEWLINE then 1 else 0)\<rparr>"

lemma advance_simps [simp]:
  "source (advance st) = source st" "currentChar (advance st) = Suc (currentChar st)"
  "parens (advance st) = parens st" "tokenStart (advance st) = tokenStart st" "hasError (advance st) = hasError st"
  "next_token (advance st) = next_token st"
  by (simp_all add: advance_def)

lemma peekChar_at: "currentChar st < length (source st) \<Longrightarrow> peekChar st = Inr (source st ! currentChar st)"
  by (simp add: peekChar_def char_at_def)

lemma peekChar_end: "currentChar st = length (source st) \<Longrightarrow> peekChar st = Inr NUL"
  by (simp add: peekChar_def char_at_def)

lemma peekChar_cases:
  assumes "inside st"
  obtains "currentChar st < length (source st)" "peekChar st = Inr (source st ! currentChar st)"
  | "currentChar st = length (source st)" "peekChar st = Inr NUL"
  using assms peekChar_at peekChar_end by (cases "currentChar st < length (source st)") (auto simp: inside_def)

lemma nextChar_at: "currentChar st < length (source st) \<Longrightarrow> nextChar st = Inr (source st ! currentChar st, advance st)"
  by (simp add: nextChar_def peekChar_at advance_def)

lemma nextChar_end:
  "currentChar st = length (source st) \<Longrightarrow> nextChar st = Inr (NUL, st\<lparr>currentChar := Suc (currentChar st)\<rparr>)"
  by (simp add: nextChar_def peekChar_end)

lemma peekChar_some: "inside st \<Longrightarrow> \<exists>c. peekChar st = Inr c \<and> (c = NUL \<or> currentChar st < length (source st))"
  by (erule peekChar_cases) auto

lemma peekNextChar_some:
  assumes "inside st"
  shows "\<exists>d. peekNextChar st = Inr d \<and> (d = NUL \<or> Suc (currentChar st) < length (source st))"
  using assms
proof (cases rule: peekChar_cases)
  case 1
  then show ?thesis by (auto simp: peekNextChar_def char_at_def)
qed (simp add: peekNextChar_def)

lemma advance_moved: "currentChar st < length (source st) \<Longrightarrow> moved st (advance st)"
  by (simp add: moved_def inside_def)

lemma nextChar_lands: "currentChar st < length (source st) \<Longrightarrow> lands2 st (nextChar st)"
  by (simp add: nextChar_at advance_moved)

lemma matchChar_lands:
  assumes "inside st" "c \<noteq> NUL"
  shows "lands2 st (matchChar c st)"
  using assms(1)
proof (cases rule: peekChar_cases)
  case 1
  then show ?thesis
    using assms(1) by (simp add: matchChar_def nextChar_at advance_moved)
next
  case 2
  then show ?thesis using assms by (simp add: matchChar_def)
qed

lemma skip_while_lands: "inside st \<Longrightarrow> \<not> p NUL \<Longrightarrow> lands st (skip_while p st)"
proof (induction "left st" arbitrary: st rule: less_induct)
  case less
  from less.prems(1) show ?case
  proof (cases rule: peekChar_cases)
    case 1
    show ?thesis
    proof (cases "p (source st ! currentChar st)")
      case True
      have "left (advance st) < left st" using 1(1) by (simp add: left_def)
      then have "lands (advance st) (skip_while p (advance st))"
        using less.hyps [of "advance st"] less.prems 1(1) by (simp add: inside_def)
      then have "lands st (skip_while p (advance st))"
        using advance_moved [OF 1(1)] lands_from by blast
      then show ?thesis
        using 1 True by (subst skip_while.simps) (simp add: nextChar_at)
    next
      case False
      then show ?thesis using 1 less.prems by (subst skip_while.simps) simp
    qed
  next
    case 2
    then show ?thesis using less.prems by (subst skip_while.simps) simp
  qed
qed

lemma skip_block_lands: "inside st \<Longrightarrow> lands st (skip_block n st)"
proof (induction "left st" arbitrary: n st rule: less_induct)
  case less
  have again: "lands st (skip_block m st')" if "moved st st'" "currentChar st < currentChar st'" for m st'
  proof -
    have "left st' < left st" using that by (auto simp: left_def moved_def inside_def)
    then have "lands st' (skip_block m st')" using less.hyps moved_inside [OF that(1)] by blast
    then show ?thesis using that(1) lands_from by blast
  qed
  show ?case
  proof (cases "n = 0")
    case True
    then show ?thesis using less.prems by (subst skip_block.simps) simp
  next
    case False
    from less.prems show ?thesis
    proof (cases rule: peekChar_cases)
      case 1
      obtain d where d: "peekNextChar st = Inr d" "d = NUL \<or> Suc (currentChar st) < length (source st)"
        using peekNextChar_some [OF less.prems] by blast
      have two: "moved st (advance (advance st))" if "d \<noteq> NUL"
        using that d(2) 1(1) advance_moved [of "advance st"] advance_moved [of st] by (auto intro: lex_moved_trans)
      show ?thesis
        using 1 d False less.prems again [OF two] again [OF advance_moved]
        by (subst skip_block.simps) (auto simp: nextChar_at)
    next
      case 2
      then show ?thesis using less.prems False by (subst skip_block.simps) simp
    qed
  qed
qed

section \<open>Numbers and names\<close>

lemma hex_digit_NUL: "hex_digit NUL = None"
  by code_simp

lemma readHexDigit_lands:
  assumes "inside st"
  shows "\<exists>d st'. readHexDigit st = Inr (d, st') \<and> moved st st' \<and> (d \<noteq> None \<longrightarrow> currentChar st < currentChar st')"
  using assms
proof (cases rule: peekChar_cases)
  case 1
  then have "moved st (stepBack (advance st))" using assms by (simp add: moved_def inside_def stepBack_def)
  then show ?thesis
    using 1 advance_moved [OF 1(1)] by (auto simp: readHexDigit_def nextChar_at split: option.split)
next
  case 2
  then show ?thesis
    using assms by (simp add: readHexDigit_def nextChar_end hex_digit_NUL moved_def inside_def stepBack_def)
qed

lemma skip_hex_lands: "inside st \<Longrightarrow> lands st (skip_hex st)"
proof (induction "left st" arbitrary: st rule: less_induct)
  case less
  obtain d st1 where d: "readHexDigit st = Inr (d, st1)" "moved st st1" "d \<noteq> None \<longrightarrow> currentChar st < currentChar st1"
    using readHexDigit_lands [OF less.prems] by blast
  show ?case
  proof (cases d)
    case None
    then show ?thesis using d by (subst skip_hex.simps) simp
  next
    case (Some k)
    then have "left st1 < left st" using d(2,3) by (auto simp: left_def moved_def inside_def)
    then have "lands st1 (skip_hex st1)" using less.hyps moved_inside [OF d(2)] by blast
    then show ?thesis using d Some lands_from by (subst skip_hex.simps) simp
  qed
qed

lemma makeNumber_moved [simp]: "moved st (makeNumber lib h st') = moved st st'"
  by (simp add: makeNumber_def Let_def split: prod.split)

lemma readHexNumber_lands:
  assumes "currentChar st < length (source st)"
  shows "lands st (readHexNumber lib st)"
  unfolding readHexNumber_def
  using assms by (auto intro!: lands2_bind lands_bind nextChar_lands skip_hex_lands dest: moved_inside)

lemma not_digit_NUL: "\<not> isDigit NUL" "\<not> isName NUL"
  by code_simp+

lemma readFraction_lands: "inside st \<Longrightarrow> lands st (readFraction st)"
proof -
  assume i: "inside st"
  obtain c d where c: "peekChar st = Inr c" "c = NUL \<or> currentChar st < length (source st)" "peekNextChar st = Inr d"
    using peekChar_some [OF i] peekNextChar_some [OF i] by blast
  show ?thesis
    using c i by (auto simp: readFraction_def not_digit_NUL
        intro!: lands2_bind nextChar_lands skip_while_lands dest: moved_inside)
qed

lemma readExponent_lands: "inside st \<Longrightarrow> lands st (readExponent st)"
proof -
  assume i: "inside st"
  have rest: "lands st (rbind (matchChar (CHR ''+'') st) (\<lambda>(plus, st).
       rbind (if plus then Inr (True, st) else matchChar (CHR ''-'') st) (\<lambda>(_, st).
       rbind (peekChar st) (\<lambda>c. skip_while isDigit (if isDigit c then st else lexError st)))))" if "inside st" for st
  proof -
    have digits: "lands st (rbind (peekChar st) (\<lambda>c. skip_while isDigit (if isDigit c then st else lexError st)))"
      if i: "inside st" for st
    proof -
      obtain c where "peekChar st = Inr c" using peekChar_some [OF i] by blast
      moreover have "lands st (skip_while isDigit (lexError st))"
        using skip_while_lands [of "lexError st" isDigit] i not_digit_NUL by (auto intro: lands_from [of _ "lexError st"])
      ultimately show ?thesis
        using skip_while_lands [of st isDigit] i not_digit_NUL by simp
    qed
    show ?thesis
      using that by (auto intro!: lands2_bind matchChar_lands digits dest: moved_inside)
  qed
  show ?thesis
    unfolding readExponent_def
    using i by (auto intro!: lands2_bind matchChar_lands rest dest: moved_inside)
qed

lemma readNumber_lands: "inside st \<Longrightarrow> lands st (readNumber lib st)"
  unfolding readNumber_def
  by (auto intro!: lands_bind skip_while_lands readFraction_lands readExponent_lands
      simp: not_digit_NUL dest: moved_inside)

lemma readName_lands: "inside st \<Longrightarrow> lands st (readName ty st)"
  unfolding readName_def
  by (auto intro!: lands_bind skip_while_lands simp: not_digit_NUL Let_def dest: moved_inside)

lemma twoCharToken_lands: "inside st \<Longrightarrow> c \<noteq> NUL \<Longrightarrow> lands st (twoCharToken c two one st)"
  unfolding twoCharToken_def by (auto intro!: lands2_bind matchChar_lands dest: moved_inside)

section \<open>Strings\<close>

lemma hex_escape_lands:
  assumes "inside st" "0 < currentChar st"
  shows "\<exists>w st'. hex_escape_loop n v st = Inr (w, st') \<and> source st' = source st \<and> parens st' = parens st \<and>
    currentChar st \<le> Suc (currentChar st') \<and> inside st'"
  using assms
proof (induction n arbitrary: v st)
  case (Suc n)
  obtain c where c: "peekChar st = Inr c" using peekChar_some [OF Suc.prems(1)] by blast
  obtain d st1 where d: "readHexDigit st = Inr (d, st1)" "moved st st1" "d \<noteq> None \<longrightarrow> currentChar st < currentChar st1"
    using readHexDigit_lands [OF Suc.prems(1)] by blast
  show ?case
  proof (cases "c = CHR 0x22 \<or> c = NUL")
    case True
    then show ?thesis
      using c Suc.prems by (auto simp: stepBack_def lexError_def inside_def)
  next
    case False
    show ?thesis
    proof (cases d)
      case None
      then show ?thesis using c d(1,2) False by (auto simp: moved_def lexError_def inside_def)
    next
      case (Some k)
      have "inside st1" "0 < currentChar st1" using d(2,3) Some by (auto simp: moved_def)
      then obtain w st' where "hex_escape_loop n (v * 16 OR of_nat k) st1 = Inr (w, st')" "source st' = source st1"
        "parens st' = parens st1" "currentChar st1 \<le> Suc (currentChar st')" "inside st'"
        using Suc.IH by blast
      then show ?thesis using c d False Some by (auto simp: moved_def)
    qed
  qed
qed (simp add: inside_def)

lemma readEscape_lands:
  assumes "currentChar st < length (source st)"
  shows "lands2 st (readEscape lib st)"
proof -
  have hex: "\<exists>w st'. readHexEscape n (advance st) = Inr (w, st') \<and> moved st st'" for n
    using hex_escape_lands [of "advance st" n 0] assms by (auto simp: readHexEscape_def moved_def inside_def)
  have adv: "moved st (advance st)" using assms by (rule advance_moved)
  obtain v4 st4 where u4: "readHexEscape 4 (advance st) = Inr (v4, st4)" "moved st st4" using hex by blast
  obtain v8 st8 where u8: "readHexEscape 8 (advance st) = Inr (v8, st8)" "moved st st8" using hex by blast
  obtain v2 st2 where u2: "readHexEscape 2 (advance st) = Inr (v2, st2)" "moved st st2" using hex by blast
  show ?thesis
    using assms adv u4 u8 u2
    by (simp add: readEscape_def nextChar_at readUnicodeEscape_def split: option.split)
qed

text \<open>What sources have to end in, and the counts of open parentheses.\<close>

definition closed :: "lexer \<Rightarrow> bool" where
  "closed st \<longleftrightarrow> NUL \<notin> set (source st) \<and> (\<exists>u. source st = u @ [NEWLINE, NEWLINE])"

definition parens_ok :: "lexer \<Rightarrow> bool" where
  "parens_ok st \<longleftrightarrow> length (parens st) \<le> MAX_INTERPOLATION_NESTING \<and> (\<forall>n \<in> set (parens st). 0 < n)"

definition stays :: "lexer \<Rightarrow> lexer \<Rightarrow> bool" where
  "stays st st' \<longleftrightarrow> source st' = source st \<and> currentChar st \<le> currentChar st' \<and> inside st' \<and> parens_ok st'"

lemma stays_trans: "source b = source a \<Longrightarrow> currentChar a \<le> currentChar b \<Longrightarrow> stays b c \<Longrightarrow> stays a c"
  by (auto simp: stays_def)

lemma moved_stays: "moved st st' \<Longrightarrow> parens_ok st \<Longrightarrow> stays st st'"
  by (simp add: moved_def stays_def parens_ok_def)

lemma stays_updates [simp]:
  "stays st (lexError st') = stays st st'" "stays st (makeToken ty st') = stays st st'"
  "stays st (set_value v st') = stays st st'" "stays st (st'\<lparr>next_token := t\<rparr>) = stays st st'"
  "parens_ok (lexError st) = parens_ok st" "source (lexError st) = source st" "parens (lexError st) = parens st"
  "currentChar (lexError st) = currentChar st" "closed (lexError st) = closed st"
  by (simp_all add: stays_def inside_def lexError_def makeToken_def set_value_def parens_ok_def closed_def)

lemma makeToken_type [simp]: "tok_type (next_token (makeToken ty st)) = ty"
  by (simp add: makeToken_def)

lemma closed_char:
  assumes "closed st" "currentChar st < length (source st)"
  shows "source st ! currentChar st \<noteq> NUL"
    "source st ! currentChar st \<noteq> NEWLINE \<Longrightarrow> Suc (Suc (currentChar st)) < length (source st)"
proof -
  obtain u where u: "source st = u @ [NEWLINE, NEWLINE]" using assms(1) by (auto simp: closed_def)
  show "source st ! currentChar st \<noteq> NUL"
    using assms(1) nth_mem [OF assms(2)] unfolding closed_def by metis
  assume "source st ! currentChar st \<noteq> NEWLINE"
  then have "currentChar st < length u"
    using assms(2) by (auto simp: u nth_append nth_Cons' split: if_splits)
  then show "Suc (Suc (currentChar st)) < length (source st)" by (simp add: u)
qed

lemma string_loop_stays:
  assumes "inside st" "closed st" "parens_ok st"
  shows "\<exists>ty s st'. string_loop lib str st = Inr (ty, s, st') \<and> stays st st' \<and>
    (ty = TOKEN_STRING \<or> ty = TOKEN_INTERPOLATION)"
  using assms
proof (induction "left st" arbitrary: str st rule: less_induct)
  case less
  have again: "\<exists>ty s st2. string_loop lib cs st1 = Inr (ty, s, st2) \<and> stays st st2 \<and>
      (ty = TOKEN_STRING \<or> ty = TOKEN_INTERPOLATION)"
    if "moved (advance st) st1" "currentChar st < length (source st)" for st1 cs
  proof -
    have "left st1 < left st" "source st1 = source st" "currentChar st \<le> currentChar st1" "inside st1"
      using that by (auto simp: moved_def left_def inside_def)
    moreover have "parens_ok st1" "closed st1"
      using that(1) less.prems(2,3) by (auto simp: moved_def parens_ok_def closed_def)
    ultimately show ?thesis
      using less.hyps [of st1 cs] stays_trans [of st1 st] by blast
  qed
  from less.prems(1) show ?case
  proof (cases rule: peekChar_cases)
    case 1
    let ?c = "source st ! currentChar st"
    have adv: "moved st (advance st)" using 1(1) by (rule advance_moved)
    have in_adv: "inside (advance st)" using 1(1) by (simp add: inside_def)
    note c = closed_char [OF less.prems(2) 1(1)]
    have special: "Suc (currentChar st) < length (source st)" if "?c \<noteq> NEWLINE"
      using c(2) [OF that] by simp
    have esc: "lands2 (advance st) (readEscape lib (advance st))" if "?c = CHR 0x5C"
      using special that by (intro readEscape_lands) simp
    have interp: "stays st ((advance (advance st))\<lparr>parens := 1 # parens st\<rparr>)"
      if "?c = CHR ''%''" "length (parens st) < MAX_INTERPOLATION_NESTING"
      using special that less.prems(3) by (auto simp: stays_def inside_def parens_ok_def)
    have interp': "stays st ((lexError (advance (advance st)))\<lparr>parens := 1 # parens st\<rparr>)"
      if "?c = CHR ''%''" "length (parens st) < MAX_INTERPOLATION_NESTING"
      using interp [OF that] by (auto simp: stays_def inside_def parens_ok_def)
    have next2: "nextChar (advance st) = Inr (source st ! Suc (currentChar st), advance (advance st))"
      if "?c = CHR ''%''"
      using special that nextChar_at [of "advance st"] by simp
    show ?thesis
    proof (cases "?c = CHR 0x5C")
      case True
      obtain cs st1 where e: "readEscape lib (advance st) = Inr (cs, st1)" "moved (advance st) st1"
        using esc [OF True] by (auto simp: lands2_def)
      then show ?thesis
        using again [OF e(2) 1(1)] 1(1) True by (subst string_loop.simps) (simp add: nextChar_at)
    next
      case False
      have "moved (advance st) (if b then lexError (advance st) else advance st)" for b
        using in_adv by simp
      note step = again [OF this 1(1)]
      show ?thesis
        using 1(1) False c(1) step [where b1 = True] step [where b1 = False] next2 interp interp'
          moved_stays [OF adv less.prems(3)]
        by (subst string_loop.simps) (auto simp: nextChar_at Let_def)
    qed
  next
    case 2
    then show ?thesis
      using less.prems by (subst string_loop.simps)
        (simp add: nextChar_end stays_def stepBack_def lexError_def inside_def parens_ok_def)
  qed
qed

lemma readString_stays:
  assumes "inside st" "closed st" "parens_ok st"
  shows "\<exists>st'. readString lib st = Inr st' \<and> stays st st' \<and>
    (tok_type (next_token st') = TOKEN_STRING \<or> tok_type (next_token st') = TOKEN_INTERPOLATION)"
proof -
  obtain ty s st1 where l: "string_loop lib [] st = Inr (ty, s, st1)" "stays st st1"
    "ty = TOKEN_STRING \<or> ty = TOKEN_INTERPOLATION"
    using string_loop_stays [OF assms] by blast
  then show ?thesis
    by (auto simp: readString_def)
qed

section \<open>Raw strings\<close>

lemma raw_loop_stays:
  assumes "closed st" "Suc (Suc (currentChar st)) \<le> length (source st)"
  shows "\<exists>s r' st'. raw_loop str r st = Inr (s, r', st') \<and> source st' = source st \<and> parens st' = parens st \<and>
    currentChar st \<le> currentChar st' \<and> Suc (Suc (currentChar st')) \<le> length (source st)"
  using assms
proof (induction "left st" arbitrary: str r st rule: less_induct)
  case less
  have cur: "currentChar st < length (source st)" using less.prems(2) by simp
  let ?c = "source st ! currentChar st"
  define c1 where "c1 = source st ! Suc (currentChar st)"
  have p1: "peekChar (advance st) = Inr c1"
    using peekChar_at [of "advance st"] less.prems(2) by (simp add: c1_def)
  have "c1 \<noteq> NUL"
    using closed_char(1) [of "advance st"] less.prems by (simp add: c1_def closed_def)
  obtain c2 where p2: "peekNextChar (advance st) = Inr c2" "c2 = NUL \<or> Suc (Suc (currentChar st)) < length (source st)"
    using peekNextChar_some [of "advance st"] less.prems(2) by (auto simp: inside_def)
  note c = closed_char [OF less.prems(1) cur]
  have again: "\<exists>s r' st'. raw_loop cs q (advance st) = Inr (s, r', st') \<and> source st' = source st \<and> parens st' = parens st \<and>
      currentChar st \<le> currentChar st' \<and> Suc (Suc (currentChar st')) \<le> length (source st)"
    if "?c \<noteq> NEWLINE \<or> c2 \<noteq> NUL" for cs q
  proof -
    have more: "Suc (Suc (Suc (currentChar st))) \<le> length (source st)"
      using that c(2) p2(2) by auto
    have "left (advance st) < left st" using cur by (simp add: left_def)
    then obtain s r' st' where "raw_loop cs q (advance st) = Inr (s, r', st')" "source st' = source st"
      "parens st' = parens st" "Suc (currentChar st) \<le> currentChar st'" "Suc (Suc (currentChar st')) \<le> length (source st)"
      using less.hyps [of "advance st" cs q] less.prems(1) more by (auto simp: closed_def)
    then show ?thesis by auto
  qed
  have stop: "\<exists>s r' st'. Inr (cs, q, stepBack (lexError (advance st))) = (Inr (s, r', st') :: (string \<times> raw_scan \<times> lexer) res) \<and>
      source st' = source st \<and> parens st' = parens st \<and>
      currentChar st \<le> currentChar st' \<and> Suc (Suc (currentChar st')) \<le> length (source st)" for cs q
    using less.prems(2) by (simp add: stepBack_def lexError_def)
  have quotes: "Suc (Suc (Suc (currentChar st))) \<le> length (source st)" if "?c = CHR 0x22"
    using c(2) that by simp
  show ?case
  proof (cases "?c = CHR 0x0D")
    case True
    then show ?thesis
      using cur p1 p2(1) again by (subst raw_loop.simps) (simp add: nextChar_at)
  next
    case False
    show ?thesis
    proof (cases "?c = CHR 0x22 \<and> c1 = CHR 0x22 \<and> c2 = CHR 0x22")
      case True
      then show ?thesis
        using cur p1 p2(1) quotes by (subst raw_loop.simps) (simp add: nextChar_at Let_def)
    next
      case other: False
      show ?thesis
        using cur p1 p2(1) False other c(1) \<open>c1 \<noteq> NUL\<close> again stop
        by (subst raw_loop.simps) (auto simp: nextChar_at Let_def)
    qed
  qed
qed

lemma readRawString_stays:
  assumes "closed st" "parens_ok st" "source st ! currentChar st = CHR 0x22"
    "source st ! Suc (currentChar st) = CHR 0x22" "Suc (currentChar st) < length (source st)"
  shows "\<exists>st'. readRawString st = Inr st' \<and> stays st st' \<and> tok_type (next_token st') = TOKEN_STRING"
proof -
  let ?st = "advance (advance st)"
  have open2: "nextChar st = Inr (CHR 0x22, advance st)" "nextChar (advance st) = Inr (CHR 0x22, ?st)"
    using nextChar_at [of st] nextChar_at [of "advance st"] assms(3-5) by simp_all
  have "Suc (Suc (Suc (currentChar st))) < length (source st)"
    using closed_char(2) [of "advance st"] assms by (simp add: closed_def)
  then have room: "Suc (Suc (currentChar ?st)) \<le> length (source ?st)" by simp
  have "closed ?st" using assms(1) by (simp add: closed_def)
  then obtain s r' st' where l: "raw_loop [] \<lparr>skipStart = 0, firstNewline = -1, skipEnd = -1, lastNewline = -1\<rparr> ?st =
      Inr (s, r', st')" "source st' = source st" "parens st' = parens st" "currentChar st \<le> currentChar st'"
    "Suc (Suc (currentChar st')) \<le> length (source st')"
    using raw_loop_stays [OF _ room] by fastforce
  have "nextChar st' = Inr (source st' ! currentChar st', advance st')"
    "nextChar (advance st') = Inr (source st' ! Suc (currentChar st'), advance (advance st'))"
    using l(5) nextChar_at [of st'] nextChar_at [of "advance st'"] by simp_all
  then have r: "readRawString st = Inr (makeToken TOKEN_STRING (set_value (CcString (raw_value s r')) (advance (advance st'))))"
    using open2 l(1) by (simp add: readRawString_def)
  have "stays st (advance (advance st'))"
    using l assms(2) by (simp add: stays_def inside_def parens_ok_def)
  then show ?thesis unfolding r by simp
qed

section \<open>Tokens\<close>

definition emits :: "lexer \<Rightarrow> lexer res \<Rightarrow> bool" where
  "emits st r \<longleftrightarrow> (\<exists>st'. r = Inr st' \<and> stays st st' \<and> tok_type (next_token st') \<noteq> TOKEN_EOF)"

lemma emits_lands:
  "lands st r \<Longrightarrow> (\<And>st'. r = Inr st' \<Longrightarrow> tok_type (next_token st') \<noteq> TOKEN_EOF) \<Longrightarrow> parens_ok st \<Longrightarrow> emits st r"
  by (auto simp: lands_def emits_def intro: moved_stays)

lemma emits_make [simp]: "emits st (Inr (makeToken ty st')) \<longleftrightarrow> stays st st' \<and> ty \<noteq> TOKEN_EOF"
  by (simp add: emits_def)

lemma keyword_not_eof [simp]: "map_of keyword_table s \<noteq> Some TOKEN_EOF"
  by (auto simp: keyword_table_def split: if_splits)

lemma makeNumber_type [simp]: "tok_type (next_token (makeNumber lib h st)) = TOKEN_NUMBER"
  by (simp add: makeNumber_def Let_def split: prod.split)

lemma twoCharToken_type [dest]: "twoCharToken c two one st = Inr st' \<Longrightarrow> tok_type (next_token st') \<in> {two, one}"
  by (auto simp: twoCharToken_def rbind_eq_Inr_iff)

lemma readName_type [dest]:
  assumes "readName ty st = Inr st'"
  shows "tok_type (next_token st') = ty \<or> tok_type (next_token st') \<noteq> TOKEN_EOF"
proof -
  obtain st1 where "st' = makeToken (case map_of keyword_table (token_text st1) of None \<Rightarrow> ty | Some k \<Rightarrow> k)
      (set_value (CcString (token_text st1)) st1)"
    using assms by (auto simp: readName_def rbind_eq_Inr_iff Let_def)
  then show ?thesis using keyword_not_eof [of "token_text st1"] by (auto split: option.split)
qed

lemma number_type [dest]:
  "readNumber lib st = Inr st' \<Longrightarrow> tok_type (next_token st') = TOKEN_NUMBER"
  "readHexNumber lib st = Inr st' \<Longrightarrow> tok_type (next_token st') = TOKEN_NUMBER"
  by (auto simp: readNumber_def readHexNumber_def rbind_eq_Inr_iff)

lemma lex_dot_emits: "inside st \<Longrightarrow> parens_ok st \<Longrightarrow> emits st (lex_dot st)"
proof (rule emits_lands)
  assume "inside st"
  then show "lands st (lex_dot st)"
    unfolding lex_dot_def by (auto intro!: lands2_bind matchChar_lands twoCharToken_lands dest: moved_inside)
  show "tok_type (next_token st') \<noteq> TOKEN_EOF" if "lex_dot st = Inr st'" for st'
    using that by (auto simp: lex_dot_def rbind_eq_Inr_iff split: if_splits)
qed

lemma lex_angle_emits:
  assumes "inside st" "parens_ok st" "c \<noteq> NUL" "double \<noteq> TOKEN_EOF" "eq \<noteq> TOKEN_EOF" "one \<noteq> TOKEN_EOF"
  shows "emits st (lex_angle c double eq one st)"
proof (rule emits_lands)
  show "lands st (lex_angle c double eq one st)"
    unfolding lex_angle_def using assms(1,3)
    by (auto intro!: lands2_bind matchChar_lands twoCharToken_lands dest: moved_inside)
  show "tok_type (next_token st') \<noteq> TOKEN_EOF" if "lex_angle c double eq one st = Inr st'" for st'
    using that assms(4-6) by (auto simp: lex_angle_def rbind_eq_Inr_iff split: if_splits)
qed (use assms in simp)

lemma lex_other_emits: "inside st \<Longrightarrow> parens_ok st \<Longrightarrow> emits st (lex_other lib c st)"
  by (rule emits_lands)
    (auto simp: lex_other_def Let_def intro: readName_lands readNumber_lands split: if_splits)

lemma emits_string: "inside st \<Longrightarrow> closed st \<Longrightarrow> parens_ok st \<Longrightarrow> emits st (readString lib st)"
  using readString_stays [of st lib] by (auto simp: emits_def)

lemma lex_paren_emits:
  assumes "inside st" "closed st" "parens_ok st"
  shows "emits st (lex_paren lib st)"
proof (cases "parens st")
  case Nil
  then show ?thesis using assms by (simp add: lex_paren_def stays_def)
next
  case (Cons n ps)
  have ok: "parens_ok (st\<lparr>parens := ps\<rparr>)" "n - 1 \<noteq> 0 \<Longrightarrow> parens_ok (st\<lparr>parens := (n - 1) # ps\<rparr>)"
    using assms(3) Cons by (auto simp: parens_ok_def)
  have "emits (st\<lparr>parens := ps\<rparr>) (readString lib (st\<lparr>parens := ps\<rparr>))"
    using assms ok(1) by (intro emits_string) (auto simp: closed_def)
  then have "emits st (readString lib (st\<lparr>parens := ps\<rparr>))"
    by (auto simp: emits_def stays_def)
  then show ?thesis
    using ok(2) assms(1) by (auto simp: lex_paren_def Cons stays_def inside_def)
qed

lemma single_not_eof: "single_token c = Some ty \<Longrightarrow> ty \<noteq> TOKEN_EOF"
  by (auto simp: single_token_def split: if_splits)

lemma double_not_eof: "double_token c = Some (d, two, one) \<Longrightarrow> d \<noteq> NUL \<and> two \<noteq> TOKEN_EOF \<and> one \<noteq> TOKEN_EOF"
  by (auto simp: double_token_def split: if_splits)

text \<open>What a step of the switch comes to.\<close>

definition proceeds :: "lexer \<Rightarrow> (bool \<times> lexer) res \<Rightarrow> bool" where
  "proceeds st r \<longleftrightarrow> (\<exists>b st'. r = Inr (b, st') \<and> stays st st' \<and> (b \<longrightarrow> tok_type (next_token st') \<noteq> TOKEN_EOF))"

lemma proceeds_token: "emits st r \<Longrightarrow> proceeds st (map_sum id (Pair True) r)"
  by (auto simp: emits_def proceeds_def)

lemma proceeds_more: "lands st r \<Longrightarrow> parens_ok st \<Longrightarrow> proceeds st (map_sum id (Pair False) r)"
  using moved_stays by (fastforce simp: lands_def proceeds_def)

lemma if_proceeds: "proceeds st x \<Longrightarrow> proceeds st y \<Longrightarrow> proceeds st (if b then x else y)"
  by simp

lemma lex_char_proceeds:
  assumes i: "inside st" and c: "closed st" and p: "parens_ok st"
  shows "proceeds st (lex_char lib c st)"
proof -
  let ?token = "map_sum id (Pair True) :: lexer res \<Rightarrow> (bool \<times> lexer) res"
  let ?more = "map_sum id (Pair False) :: lexer res \<Rightarrow> (bool \<times> lexer) res"
  have s: "stays st st" using i p by (simp add: stays_def)
  obtain d e where d: "peekChar st = Inr d" "peekNextChar st = Inr e" "d = NUL \<or> currentChar st < length (source st)"
    "e = NUL \<or> Suc (currentChar st) < length (source st)"
    using peekChar_some [OF i] peekNextChar_some [OF i] by blast
  have double: "proceeds st (?token (twoCharToken d two one st))" if "double_token c = Some (d, two, one)" for d two one
    using double_not_eof [OF that] i p by (intro proceeds_token emits_lands twoCharToken_lands) auto
  have paren: "stays st (st\<lparr>parens := case parens st of [] \<Rightarrow> [] | n # ps \<Rightarrow> (n + 1) # ps\<rparr>)"
    using i p by (auto simp: stays_def inside_def parens_ok_def split: list.split)
  have line: "lands st (skipLineComment st)" "lands st (skipBlockComment st)" if "inside st" for st
    using that by (auto simp: skipLineComment_def skipBlockComment_def intro: skip_while_lands skip_block_lands)
  have name: "emits st (readName ty st)" if "ty \<noteq> TOKEN_EOF" for ty
    using that i p by (intro emits_lands readName_lands) auto
  have raw: "emits st (readRawString st)" if "d = CHR 0x22" "e = CHR 0x22"
  proof -
    have "currentChar st < length (source st)" "Suc (currentChar st) < length (source st)" using d(3,4) that by auto
    moreover have "source st ! currentChar st = d" "source st ! Suc (currentChar st) = e"
      using d(1,2) calculation that by (auto simp: peekChar_at peekNextChar_def char_at_def)
    ultimately show ?thesis
      using readRawString_stays [OF c p] that by (auto simp: emits_def)
  qed
  have slash: "proceeds st (rbind (matchChar (CHR ''/'') st) (\<lambda>(b, st).
      if b then ?more (skipLineComment st)
      else rbind (matchChar (CHR ''*'') st) (\<lambda>(b, st).
        if b then ?more (skipBlockComment st) else ?token (Inr (makeToken TOKEN_SLASH st)))))"
  proof -
    obtain b1 st1 where m1: "matchChar (CHR ''/'') st = Inr (b1, st1)" "moved st st1"
      using matchChar_lands [OF i, of "CHR ''/''"] by (auto simp: lands2_def)
    obtain b2 st2 where m2: "matchChar (CHR ''*'') st1 = Inr (b2, st2)" "moved st1 st2"
      using matchChar_lands [OF moved_inside [OF m1(2)], of "CHR ''*''"] by (auto simp: lands2_def)
    have st2: "moved st st2" using m1(2) m2(2) by (rule lex_moved_trans)
    have "lands st (skipLineComment st1)" "lands st (skipBlockComment st2)"
      using line(1) [OF moved_inside [OF m1(2)]] line(2) [OF moved_inside [OF st2]] m1(2) st2 lands_from by blast+
    then show ?thesis
      using m1(1) m2(1) moved_stays [OF st2 p] p by (auto simp: proceeds_more) (auto simp: proceeds_def)
  qed
  have num: "emits st (readNumber lib st)" and hex: "d = CHR ''x'' \<Longrightarrow> emits st (readHexNumber lib st)"
    using i p d(3) by (auto intro!: emits_lands readNumber_lands readHexNumber_lands)
  have space: "lands st (skip_while (\<lambda>c. c = CHR '' '' \<or> c = CHR 0x0D \<or> c = CHR 0x09) st)"
    using i by (intro skip_while_lands) simp_all
  have tok: "proceeds st (?token (Inr (makeToken ty st)))" if "ty \<noteq> TOKEN_EOF" for ty
    using that s by (intro proceeds_token) simp
  have hash: "proceeds st (?token (Inr (makeToken TOKEN_HASH st)))"
    by (rule tok) simp
  have left: "proceeds st (?token (Inr (makeToken TOKEN_LEFT_PAREN
      (st\<lparr>parens := case parens st of [] \<Rightarrow> [] | n # ps \<Rightarrow> (n + 1) # ps\<rparr>))))"
    using paren by (intro proceeds_token) simp
  have right: "proceeds st (?token (lex_paren lib st))" "proceeds st (?token (lex_dot st))"
    "proceeds st (?token (lex_other lib c st))"
    "proceeds st (?token (lex_angle (CHR ''<'') TOKEN_LTLT TOKEN_LTEQ TOKEN_LT st))"
    "proceeds st (?token (lex_angle (CHR ''>'') TOKEN_GTGT TOKEN_GTEQ TOKEN_GT st))" for c
    using i c p by (intro proceeds_token lex_paren_emits lex_dot_emits lex_other_emits lex_angle_emits; simp)+
  have string: "proceeds st (?token (if d = CHR 0x22 \<and> e = CHR 0x22 then readRawString st else readString lib st))"
    using raw emits_string [OF i c p] by (intro proceeds_token) simp
  have names: "proceeds st (?token (readName (if b then TOKEN_STATIC_FIELD else TOKEN_FIELD) st))" for b
    using name by (intro proceeds_token) simp
  have zero: "proceeds st (?token (if d = CHR ''x'' then readHexNumber lib st else readNumber lib st))"
    using num hex by (intro proceeds_token) simp
  note more = proceeds_more [OF space p] proceeds_more [OF line(1) [OF i] p]
  show ?thesis
  proof (cases "single_token c")
    case (Some ty)
    then show ?thesis using tok [OF single_not_eof [OF Some]] by (simp add: lex_char_def)
  next
    case s: None
    show ?thesis
    proof (cases "double_token c")
      case (Some x)
      obtain d' two one where "x = (d', two, one)" by (cases x)
      then show ?thesis using Some s double [of d' two one] by (simp add: lex_char_def)
    next
      case None
      show ?thesis
        unfolding lex_char_def Let_def d(1,2) rbind_simps s None option.case
        by (intro if_proceeds left right hash slash string names zero more)
    qed
  qed
qed

lemma lex_loop_token:
  assumes "inside st" "closed st" "parens_ok st"
  shows "\<exists>st'. lex_loop lib st = Inr st' \<and> stays st st' \<and>
    (if tok_type (next_token st') = TOKEN_EOF then currentChar st' = length (source st)
     else currentChar st < currentChar st')"
  using assms
proof (induction "left st" arbitrary: st rule: less_induct)
  case less
  from less.prems(1) show ?case
  proof (cases rule: peekChar_cases)
    case 1
    let ?st = "st\<lparr>tokenStart := currentChar st\<rparr>"
    let ?st1 = "advance ?st"
    have c: "source st ! currentChar st \<noteq> NUL" using closed_char(1) [OF less.prems(2) 1(1)] .
    have n: "nextChar ?st = Inr (source st ! currentChar st, ?st1)" using nextChar_at [of ?st] 1(1) by simp
    have st1: "inside ?st1" "closed ?st1" "parens_ok ?st1"
      using less.prems 1(1) by (simp_all add: inside_def closed_def parens_ok_def)
    obtain b st2 where l: "lex_char lib (source st ! currentChar st) ?st1 = Inr (b, st2)" "stays ?st1 st2"
      "b \<longrightarrow> tok_type (next_token st2) \<noteq> TOKEN_EOF"
      using lex_char_proceeds [OF st1, of lib "source st ! currentChar st"] by (auto simp: proceeds_def)
    have unfold: "lex_loop lib st = (if b then Inr st2 else lex_loop lib st2)"
      using 1(2) c n l(1) by (subst lex_loop.simps) simp
    have st2: "source st2 = source st" "currentChar st < currentChar st2" "inside st2" "closed st2" "parens_ok st2"
      using l(2) less.prems(2) by (auto simp: stays_def closed_def)
    show ?thesis
    proof (cases b)
      case True
      then show ?thesis using unfold l(3) st2 by (auto simp: stays_def)
    next
      case False
      have "left st2 < left st" using st2(1-3) by (simp add: left_def inside_def)
      from less.hyps [OF this st2(3-5)] obtain st' where "lex_loop lib st2 = Inr st'" "stays st2 st'"
        "if tok_type (next_token st') = TOKEN_EOF then currentChar st' = length (source st2)
         else currentChar st2 < currentChar st'"
        by blast
      then show ?thesis using unfold False st2(1,2) by (auto simp: stays_def split: if_splits)
    qed
  next
    case 2
    then show ?thesis
      using less.prems by (subst lex_loop.simps) (simp add: makeToken_def stays_def inside_def parens_ok_def)
  qed
qed

lemma is_eof_iff [simp]: "is_eof ty \<longleftrightarrow> ty = TOKEN_EOF"
  by (simp add: is_eof_def split: token_type.split)

lemma nextToken_token:
  assumes "inside st" "closed st" "parens_ok st" "tok_type (next_token st) \<noteq> TOKEN_EOF"
  shows "\<exists>st'. nextToken lib st = Inr st' \<and> stays st st' \<and>
    (if tok_type (next_token st') = TOKEN_EOF then currentChar st' = length (source st)
     else currentChar st < currentChar st')"
proof -
  let ?st = "st\<lparr>previous_token := current_token st, current_token := next_token st\<rparr>"
  have "inside ?st" "closed ?st" "parens_ok ?st"
    using assms(1-3) by (simp_all add: inside_def closed_def parens_ok_def)
  from lex_loop_token [OF this, of lib] obtain st' where "lex_loop lib ?st = Inr st'" "stays ?st st'"
    "if tok_type (next_token st') = TOKEN_EOF then currentChar st' = length (source ?st)
     else currentChar ?st < currentChar st'"
    by blast
  then show ?thesis
    using assms(4) by (intro exI [of _ st']) (auto simp: nextToken_def stays_def split: if_splits)
qed

text \<open>Fuel for a token per character, and the last one, is enough.\<close>

lemma lex_tokens_end:
  assumes "inside st" "closed st" "parens_ok st" "tok_type (next_token st) \<noteq> TOKEN_EOF" "left st \<le> n"
  shows "\<exists>ts st'. lex_tokens lib n st = Inr (ts, st') \<and> stays st st' \<and> currentChar st' = length (source st) \<and>
    ts \<noteq> [] \<and> tok_type (last ts) = TOKEN_EOF \<and> (\<forall>t \<in> set (butlast ts). tok_type t \<noteq> TOKEN_EOF) \<and>
    length ts \<le> left st"
  using assms
proof (induction n arbitrary: st)
  case 0
  then show ?case by (simp add: left_def inside_def)
next
  case (Suc n)
  obtain st1 where t: "nextToken lib st = Inr st1" "stays st st1"
    "if tok_type (next_token st1) = TOKEN_EOF then currentChar st1 = length (source st)
     else currentChar st < currentChar st1"
    using nextToken_token [OF Suc.prems(1-4)] by blast
  show ?case
  proof (cases "tok_type (next_token st1) = TOKEN_EOF")
    case True
    then show ?thesis using t Suc.prems(1) by (simp add: left_def inside_def)
  next
    case False
    have st1: "inside st1" "closed st1" "parens_ok st1" "source st1 = source st"
      using t(2) Suc.prems(2) by (simp_all add: stays_def closed_def)
    have "Suc (left st1) \<le> left st"
      using t(2,3) False by (auto simp: stays_def left_def inside_def)
    moreover from this have "left st1 \<le> n" using Suc.prems(5) by simp
    from Suc.IH [OF st1(1-3) False this] obtain ts st' where "lex_tokens lib n st1 = Inr (ts, st')"
      "stays st1 st'" "currentChar st' = length (source st1)" "ts \<noteq> []" "tok_type (last ts) = TOKEN_EOF"
      "\<forall>t \<in> set (butlast ts). tok_type t \<noteq> TOKEN_EOF" "length ts \<le> left st1"
      by blast
    ultimately show ?thesis
      using t(1,2) False st1(4) by (simp add: stays_def)
  qed
qed

text \<open>
  C35: A source without null characters that ends in two newlines is read to its end: with fuel for a token per
  character and one more, the lexer gives a list of tokens, the last of them, and only it, \<open>TOKEN_EOF\<close>; it
  stands on the terminator, and at no time has read past it; and the stack of open interpolations is within its
  eight entries.
\<close>

theorem lexing_ends:
  assumes "NUL \<notin> set s" "skip_bom s = u @ [NEWLINE, NEWLINE]"
  shows "\<exists>ts st. lex_tokens lib (length s + 1) (start_lexer s) = Inr (ts, st) \<and>
    source st = skip_bom s \<and> currentChar st = length (source st) \<and>
    ts \<noteq> [] \<and> tok_type (last ts) = TOKEN_EOF \<and> (\<forall>t \<in> set (butlast ts). tok_type t \<noteq> TOKEN_EOF) \<and>
    length ts \<le> length s + 1 \<and> length (parens st) \<le> MAX_INTERPOLATION_NESTING"
proof -
  let ?st = "start_lexer s"
  have len: "length (skip_bom s) \<le> length s" by (simp add: skip_bom_def)
  have "NUL \<notin> set (skip_bom s)"
    using assms(1) by (auto simp: skip_bom_def dest: in_set_dropD)
  then have st: "inside ?st" "closed ?st" "parens_ok ?st" "tok_type (next_token ?st) \<noteq> TOKEN_EOF"
    using assms(2) by (auto simp: start_lexer_def inside_def closed_def parens_ok_def empty_token_def)
  have left: "left ?st \<le> length s + 1" "source ?st = skip_bom s" using len by (simp_all add: left_def start_lexer_def)
  obtain ts st' where "lex_tokens lib (length s + 1) ?st = Inr (ts, st')" "stays ?st st'"
    "currentChar st' = length (source ?st)" "ts \<noteq> []" "tok_type (last ts) = TOKEN_EOF"
    "\<forall>t \<in> set (butlast ts). tok_type t \<noteq> TOKEN_EOF" "length ts \<le> left ?st"
    using lex_tokens_end [OF st left(1)] by blast
  then show ?thesis
    using left by (auto simp: stays_def parens_ok_def)
qed

definition no_lib :: lexer_lib where
  "no_lib = \<lparr>strtod = (\<lambda>s. (0, False)), conv_out = (\<lambda>n. [])\<rparr>"

definition open_source :: string where
  "open_source = ''if (a)'' @ [CHR 0x22] @ ''%(b'' @ [NEWLINE, NEWLINE]"

theorem lexing_ends_witness:
  "\<exists>ts st. lex_tokens no_lib (length open_source + 1) (start_lexer open_source) = Inr (ts, st) \<and>
    currentChar st = length (source st) \<and> tok_type (last ts) = TOKEN_EOF"
proof -
  have "NUL \<notin> set open_source" "skip_bom open_source = (''if (a)'' @ [CHR 0x22] @ ''%(b'') @ [NEWLINE, NEWLINE]"
    by (simp_all add: open_source_def skip_bom_def)
  from lexing_ends [OF this] show ?thesis by blast
qed

section \<open>String literals\<close>

definition escape_char :: "char \<Rightarrow> string" where
  "escape_char c =
     (if c = CHR 0x22 \<or> c = CHR 0x5C \<or> c = CHR ''%'' then [CHR 0x5C, c]
      else if c = NUL then [CHR 0x5C, CHR ''0'']
      else if c = CHR 0x0D then [CHR 0x5C, CHR ''r'']
      else [c])"

definition escape :: "string \<Rightarrow> string" where
  "escape s = concat (map escape_char s)"

definition string_literal :: "string \<Rightarrow> string" where
  "string_literal s = [CHR 0x22] @ escape s @ [CHR 0x22]"

definition newlines :: "string \<Rightarrow> int" where
  "newlines s = int (length (filter (\<lambda>c. c = NEWLINE) s))"

lemma escape_char_cases:
  obtains (esc) e where "escape_char c = [CHR 0x5C, e]" "simple_escape e = Some c" "e \<noteq> NEWLINE" "c \<noteq> NEWLINE"
  | (plain) "escape_char c = [c]" "c \<noteq> CHR 0x22" "c \<noteq> CHR 0x5C" "c \<noteq> CHR ''%''" "c \<noteq> NUL" "c \<noteq> CHR 0x0D"
proof -
  consider "c = CHR 0x22" | "c = CHR 0x5C" | "c = CHR ''%''" | "c = NUL" | "c = CHR 0x0D"
    | "c \<notin> {CHR 0x22, CHR 0x5C, CHR ''%'', NUL, CHR 0x0D}"
    by blast
  then show thesis
  proof cases
    case 6
    then show ?thesis by (intro plain) (simp_all add: escape_char_def)
  qed (use esc [of c] esc [of "CHR ''0''"] esc [of "CHR ''r''"] in \<open>simp_all add: escape_char_def simple_escape_def\<close>)
qed

lemma source_at:
  "source st = pre @ c # rest \<Longrightarrow> currentChar st = length pre \<Longrightarrow> nextChar st = Inr (c, st\<lparr>currentChar := Suc (length pre),
     currentLine := currentLine st + (if c = NEWLINE then 1 else 0)\<rparr>)"
  by (simp add: nextChar_def peekChar_def char_at_def)

lemma string_loop_skips:
  assumes "source st = pre @ escape s @ rest" "currentChar st = length pre"
  shows "string_loop lib acc st = string_loop lib (acc @ s)
    (st\<lparr>currentChar := length pre + length (escape s), currentLine := currentLine st + newlines s\<rparr>)"
  using assms
proof (induction s arbitrary: acc pre st)
  case Nil
  then have "st\<lparr>currentChar := length pre + length (escape []), currentLine := currentLine st + newlines []\<rparr> = st"
    by (simp add: escape_def newlines_def)
  then show ?case by simp
next
  case (Cons c s)
  have src: "source st = (pre @ escape_char c) @ escape s @ rest" using Cons.prems(1) by (simp add: escape_def)
  show ?case
  proof (cases c rule: escape_char_cases)
    case (esc e)
    let ?st1 = "st\<lparr>currentChar := Suc (length pre), currentLine := currentLine st\<rparr>"
    let ?st2 = "st\<lparr>currentChar := Suc (Suc (length pre)), currentLine := currentLine st\<rparr>"
    have n1: "nextChar st = Inr (CHR 0x5C, ?st1)"
      using source_at [of st pre "CHR 0x5C" "e # escape s @ rest"] Cons.prems(2) src esc(1) by simp
    have n2: "nextChar ?st1 = Inr (e, ?st2)"
      using source_at [of ?st1 "pre @ [CHR 0x5C]" e "escape s @ rest"] src esc by simp
    have "string_loop lib (acc @ [c]) ?st2 = string_loop lib ((acc @ [c]) @ s)
      (?st2\<lparr>currentChar := length (pre @ escape_char c) + length (escape s), currentLine := currentLine ?st2 + newlines s\<rparr>)"
      using src esc(1) by (intro Cons.IH) simp_all
    moreover have "string_loop lib acc st = string_loop lib (acc @ [c]) ?st2"
      using n1 n2 esc by (subst string_loop.simps) (simp add: readEscape_def)
    ultimately show ?thesis using esc by (simp add: escape_def newlines_def)
  next
    case plain
    let ?st1 = "st\<lparr>currentChar := Suc (length pre), currentLine := currentLine st + (if c = NEWLINE then 1 else 0)\<rparr>"
    have n1: "nextChar st = Inr (c, ?st1)"
      using source_at [of st pre c "escape s @ rest"] Cons.prems(2) src plain(1) by simp
    have "string_loop lib (acc @ [c]) ?st1 = string_loop lib ((acc @ [c]) @ s)
      (?st1\<lparr>currentChar := length (pre @ escape_char c) + length (escape s), currentLine := currentLine ?st1 + newlines s\<rparr>)"
      using src plain(1) by (intro Cons.IH) simp_all
    moreover have "string_loop lib acc st = string_loop lib (acc @ [c]) ?st1"
      using n1 plain by (subst string_loop.simps) simp
    ultimately show ?thesis using plain by (simp add: escape_def newlines_def algebra_simps)
  qed
qed

lemma string_loop_escape:
  assumes "source st = pre @ escape s @ CHR 0x22 # post" "currentChar st = length pre"
  shows "string_loop lib acc st = Inr (TOKEN_STRING, acc @ s,
    st\<lparr>currentChar := length pre + length (escape s) + 1, currentLine := currentLine st + newlines s\<rparr>)"
proof -
  let ?st = "st\<lparr>currentChar := length pre + length (escape s), currentLine := currentLine st + newlines s\<rparr>"
  have "nextChar ?st = Inr (CHR 0x22, ?st\<lparr>currentChar := Suc (length (pre @ escape s))\<rparr>)"
    using source_at [of ?st "pre @ escape s" "CHR 0x22" post] assms by simp
  then show ?thesis
    unfolding string_loop_skips [OF assms] by (subst string_loop.simps) simp
qed

lemma escape_start: "s \<noteq> [] \<Longrightarrow> \<exists>c cs. escape s = c # cs \<and> c \<noteq> CHR 0x22"
  by (cases s) (auto simp: escape_def escape_char_def)

text \<open>The character after a quote, and whether a second one follows.\<close>

lemma not_raw:
  assumes "source st = pre @ string_literal s @ post" "currentChar st = Suc (length pre)"
    "s \<noteq> [] \<or> post = [] \<or> hd post \<noteq> CHR 0x22"
  shows "\<exists>d e. peekChar st = Inr d \<and> peekNextChar st = Inr e \<and> \<not> (d = CHR 0x22 \<and> e = CHR 0x22)"
proof (cases s)
  case Nil
  then have "peekChar st = Inr (CHR 0x22)" "peekNextChar st = Inr (if post = [] then NUL else hd post)"
    using assms(1,2)
    by (simp_all add: peekNextChar_def peekChar_def char_at_def string_literal_def escape_def nth_append hd_conv_nth)
  then show ?thesis using assms(3) Nil by auto
next
  case (Cons a t)
  then obtain c cs where c: "escape s = c # cs" "c \<noteq> CHR 0x22" using escape_start by blast
  then have "peekChar st = Inr c" "inside st"
    using assms(1,2) by (simp_all add: peekChar_def char_at_def string_literal_def nth_append inside_def)
  then show ?thesis using c(2) peekNextChar_some [of st] by blast
qed

text \<open>
  C36: Every string can be written as a literal: with a backslash before double quotes, backslashes and percent
  signs, \<open>\0\<close> for null characters and \<open>\r\<close> for carriage returns, and all other characters, newlines among them,
  as they are, the token that the lexer reads at the quote is a \<open>TOKEN_STRING\<close> of exactly this value and text; it
  goes on after the closing quote, reports no error, and counts the lines.  (An empty literal before a further
  quote is the start of a raw string.)
\<close>

theorem string_literal_roundtrip:
  assumes "source st = pre @ string_literal s @ post" "currentChar st = length pre"
    "tok_type (next_token st) \<noteq> TOKEN_EOF" "s \<noteq> [] \<or> post = [] \<or> hd post \<noteq> CHR 0x22"
  shows "nextToken lib st = Inr (st\<lparr>tokenStart := length pre, currentChar := length (pre @ string_literal s),
    currentLine := currentLine st + newlines s,
    next_token := \<lparr>tok_type = TOKEN_STRING, tok_contents = string_literal s, tok_line = currentLine st + newlines s,
      tok_value = CcString s\<rparr>,
    current_token := next_token st, previous_token := current_token st\<rparr>)"
proof -
  let ?st = "st\<lparr>previous_token := current_token st, current_token := next_token st\<rparr>"
  let ?open = "?st\<lparr>tokenStart := length pre\<rparr>"
  let ?st1 = "?st\<lparr>tokenStart := length pre, currentChar := Suc (length pre), currentLine := currentLine st\<rparr>"
  let ?st2 = "?st1\<lparr>currentChar := length (pre @ [CHR 0x22]) + length (escape s) + 1, currentLine := currentLine ?st1 + newlines s\<rparr>"
  have src: "source ?open = pre @ CHR 0x22 # escape s @ CHR 0x22 # post" using assms(1) by (simp add: string_literal_def)
  have n: "nextChar ?open = Inr (CHR 0x22, ?st1)"
    using source_at [OF src] assms(2) by simp
  have peek: "peekChar ?st = Inr (CHR 0x22)"
    using src assms(2) by (simp add: peekChar_def char_at_def)
  obtain d e where d: "peekChar ?st1 = Inr d" "peekNextChar ?st1 = Inr e" "\<not> (d = CHR 0x22 \<and> e = CHR 0x22)"
    using not_raw [of ?st1 pre s post] assms(1,4) by auto
  have "string_loop lib [] ?st1 = Inr (TOKEN_STRING, [] @ s, ?st2)"
    using src by (intro string_loop_escape [where post = post]) simp_all
  then have "readString lib ?st1 = Inr (makeToken TOKEN_STRING (set_value (CcString s) ?st2))"
    by (simp add: readString_def)
  then have "lex_char lib (CHR 0x22) ?st1 = Inr (True, makeToken TOKEN_STRING (set_value (CcString s) ?st2))"
    using d by (auto simp: lex_char_def single_token_def double_token_def)
  then have "lex_loop lib ?st = Inr (makeToken TOKEN_STRING (set_value (CcString s) ?st2))"
    using peek n assms(2) by (subst lex_loop.simps) simp
  moreover have "nextToken lib st = lex_loop lib ?st" using assms(3) by (simp add: nextToken_def)
  moreover have "token_text (set_value (CcString s) ?st2) = string_literal s"
    using src by (simp add: token_text_def string_literal_def set_value_def)
  then have "makeToken TOKEN_STRING (set_value (CcString s) ?st2) =
    st\<lparr>tokenStart := length pre, currentChar := length (pre @ string_literal s),
      currentLine := currentLine st + newlines s,
      next_token := \<lparr>tok_type = TOKEN_STRING, tok_contents = string_literal s, tok_line = currentLine st + newlines s,
        tok_value = CcString s\<rparr>,
      current_token := next_token st, previous_token := current_token st\<rparr>"
    by (intro lexer.equality token.equality) (simp_all add: makeToken_def is_line_def set_value_def string_literal_def)
  ultimately show ?thesis by (simp only:)
qed

theorem string_literal_roundtrip_witness:
  "(case nextToken no_lib (start_lexer (string_literal [CHR ''a'', NUL, CHR ''%'', CHR 0x22, NEWLINE] @ [NEWLINE])) of
      Inl _ \<Rightarrow> False
    | Inr st \<Rightarrow> tok_value (next_token st) = CcString [CHR ''a'', NUL, CHR ''%'', CHR 0x22, NEWLINE] \<and> \<not> hasError st)"
  using string_literal_roundtrip [where pre = "[]" and s = "[CHR ''a'', NUL, CHR ''%'', CHR 0x22, NEWLINE]" and
      post = "[NEWLINE]" and lib = no_lib and
      st = "start_lexer (string_literal [CHR ''a'', NUL, CHR ''%'', CHR 0x22, NEWLINE] @ [NEWLINE])"]
  by (simp add: start_lexer_def skip_bom_def empty_token_def string_literal_def)

section \<open>Literals that are not closed\<close>

lemma char_at_suffix: "char_at (pre @ t) (length pre + k) = char_at t k"
  by (simp add: char_at_def)

lemma peekChar_suffix: "source st = pre @ t \<Longrightarrow> currentChar st = length pre + k \<Longrightarrow> peekChar st = char_at t k"
  by (simp add: peekChar_def char_at_suffix)

lemma past_end: "currentChar st = Suc (length (source st)) \<Longrightarrow> nextChar st = Inl Undefined"
  "currentChar st = Suc (length (source st)) \<Longrightarrow> lex_loop lib st = Inl Undefined"
  by (simp_all add: nextChar_def peekChar_def char_at_def lex_loop.simps)

lemmas overrun_simps = nextToken_def nextChar_def peekNextChar_def peekChar_def char_at_def lex_char_def
  single_token_def double_token_def readRawString_def readString_def readEscape_def simple_escape_def
  lexError_def makeToken_def set_value_def

lemma not_raw_prefix:
  assumes "source st = pre @ CHR 0x22 # escape s @ [c]" "currentChar st = Suc (length pre)" "c \<noteq> CHR 0x22"
  shows "\<exists>d e. peekChar st = Inr d \<and> peekNextChar st = Inr e \<and> d \<noteq> CHR 0x22"
proof -
  obtain d cs where d: "escape s @ [c] = d # cs" "d \<noteq> CHR 0x22"
    using escape_start [of s] assms(3) by (cases "s = []") (auto simp: escape_def)
  then have "peekChar st = Inr d" "inside st"
    using assms(1,2) by (simp_all add: peekChar_def char_at_def nth_append inside_def)
  then show ?thesis using d(2) peekNextChar_some [of st] by blast
qed

text \<open>The token that starts at a quote before the literal of \<open>s\<close> without its closing quote.\<close>

lemma open_string_token:
  assumes "source st = pre @ CHR 0x22 # escape s @ [c]" "currentChar st = length pre"
    "tok_type (next_token st) \<noteq> TOKEN_EOF" "c \<noteq> CHR 0x22"
  shows "\<exists>st1. source st1 = source st \<and> parens st1 = parens st \<and> currentChar st1 = length (pre @ CHR 0x22 # escape s) \<and>
    nextToken lib st = rbind (string_loop lib s st1) (\<lambda>(ty, str, st). Inr (makeToken ty (set_value (CcString str) st)))"
proof -
  let ?st = "st\<lparr>previous_token := current_token st, current_token := next_token st\<rparr>"
  let ?open = "?st\<lparr>tokenStart := length pre\<rparr>"
  let ?st1 = "?st\<lparr>tokenStart := length pre, currentChar := Suc (length pre), currentLine := currentLine st\<rparr>"
  let ?st2 = "?st1\<lparr>currentChar := length (pre @ [CHR 0x22]) + length (escape s), currentLine := currentLine ?st1 + newlines s\<rparr>"
  have n: "nextChar ?open = Inr (CHR 0x22, ?st1)"
    using source_at [of ?open pre "CHR 0x22" "escape s @ [c]"] assms(1,2) by simp
  have peek: "peekChar ?st = Inr (CHR 0x22)" using assms(1,2) by (simp add: peekChar_def char_at_def)
  obtain d e where d: "peekChar ?st1 = Inr d" "peekNextChar ?st1 = Inr e" "d \<noteq> CHR 0x22"
    using not_raw_prefix [of ?st1 pre s c] assms(1,4) by auto
  have "string_loop lib [] ?st1 = string_loop lib ([] @ s) ?st2"
    using assms(1) by (intro string_loop_skips [where rest = "[c]"]) simp_all
  then have "lex_char lib (CHR 0x22) ?st1 = map_sum id (Pair True)
      (rbind (string_loop lib s ?st2) (\<lambda>(ty, str, st). Inr (makeToken ty (set_value (CcString str) st))))"
    using d by (simp add: lex_char_def single_token_def double_token_def readString_def)
  then have "lex_loop lib ?st =
      rbind (string_loop lib s ?st2) (\<lambda>(ty, str, st). Inr (makeToken ty (set_value (CcString str) st)))"
    using peek n assms(2)
    by (subst lex_loop.simps) (cases "string_loop lib s ?st2"; simp add: split_beta)
  moreover have "nextToken lib st = lex_loop lib ?st" using assms(3) by (simp add: nextToken_def)
  ultimately show ?thesis by (intro exI [of _ ?st2]) simp
qed

lemma two_tokens:
  "lex_tokens lib 2 st = rbind (nextToken lib st) (\<lambda>st.
     if is_eof (tok_type (next_token st)) then Inr ([next_token st], st)
     else rbind (lex_tokens lib (Suc 0) st) (\<lambda>(ts, st'). Inr (next_token st # ts, st')))"
  by (simp add: numeral_2_eq_2)

lemma second_token_overruns:
  assumes "nextToken lib st = Inr st'" "currentChar st' = Suc (length (source st'))"
    "\<not> is_eof (tok_type (next_token st'))"
  shows "lex_tokens lib 2 st = Inl Undefined"
proof -
  have "nextToken lib st' = Inl Undefined" using assms(2,3) by (simp add: nextToken_def past_end)
  then show ?thesis using assms(1,3) by (simp add: two_tokens)
qed

lemma percent_overruns:
  assumes "source st = pre @ CHR 0x22 # escape s @ [CHR ''%'']" "currentChar st = length pre"
    "tok_type (next_token st) \<noteq> TOKEN_EOF" "length (parens st) < 8"
  shows "lex_tokens lib 2 st = Inl Undefined"
proof -
  from open_string_token [OF assms(1-3)] obtain st1 where
    st1: "source st1 = source st" "parens st1 = parens st" "currentChar st1 = length (pre @ CHR 0x22 # escape s)"
    "nextToken lib st = rbind (string_loop lib s st1) (\<lambda>(ty, str, st). Inr (makeToken ty (set_value (CcString str) st)))"
    by auto
  have "\<exists>st2. string_loop lib s st1 = Inr (TOKEN_INTERPOLATION, s, st2) \<and>
    source st2 = source st \<and> currentChar st2 = Suc (length (source st))"
    using st1(1-3) assms(1,4)
    by (subst string_loop.simps)
      (simp add: nextChar_def peekChar_def char_at_def nth_append MAX_INTERPOLATION_NESTING_def lexError_def)
  then obtain st2 where st2: "string_loop lib s st1 = Inr (TOKEN_INTERPOLATION, s, st2)"
    "source st2 = source st" "currentChar st2 = Suc (length (source st))" by blast
  show ?thesis
    by (rule second_token_overruns [of _ _ "makeToken TOKEN_INTERPOLATION (set_value (CcString s) st2)"])
      (simp_all add: st1(4) st2 makeToken_def set_value_def is_eof_def)
qed

lemma backslash_overruns:
  assumes "source st = pre @ CHR 0x22 # escape s @ [CHR 0x5C]" "currentChar st = length pre"
    "tok_type (next_token st) \<noteq> TOKEN_EOF"
  shows "lex_tokens lib 2 st = Inl Undefined"
proof -
  from open_string_token [OF assms] obtain st1 where
    st1: "source st1 = source st" "parens st1 = parens st" "currentChar st1 = length (pre @ CHR 0x22 # escape s)"
    "nextToken lib st = rbind (string_loop lib s st1) (\<lambda>(ty, str, st). Inr (makeToken ty (set_value (CcString str) st)))"
    by auto
  define st2 where "st2 = lexError (st1\<lparr>currentChar := Suc (length (source st))\<rparr>)"
  have st2: "readEscape lib (st1\<lparr>currentChar := length (source st)\<rparr>) = Inr ([], st2)"
      "currentChar st2 = Suc (length (source st2))"
    using st1(1)
    by (simp_all add: st2_def readEscape_def nextChar_def peekChar_def char_at_def simple_escape_def lexError_def)
  have "nextChar st1 = Inr (CHR 0x5C, st1\<lparr>currentChar := length (source st)\<rparr>)"
    using source_at [of st1 "pre @ CHR 0x22 # escape s" "CHR 0x5C" "[]"] st1(1,3) assms(1) by simp
  then have "string_loop lib s st1 = string_loop lib s st2"
    using st2(1) by (subst string_loop.simps) simp
  moreover have "string_loop lib s st2 = Inl Undefined"
    by (subst string_loop.simps) (simp add: past_end st2(2))
  ultimately show ?thesis by (simp add: two_tokens st1(4))
qed

lemma raw_overruns:
  assumes "source st = pre @ [CHR 0x22, CHR 0x22, CHR 0x22] @ u" "length u \<le> 1" "NUL \<notin> set u"
    "currentChar st = length pre" "tok_type (next_token st) \<noteq> TOKEN_EOF"
  shows "lex_tokens lib 2 st = Inl Undefined"
proof -
  have "nextToken lib st = Inl Undefined \<or>
    (\<exists>st'. nextToken lib st = Inr st' \<and> currentChar st' = Suc (length (source st')) \<and>
      tok_type (next_token st') = TOKEN_STRING)"
    using assms
    by (cases u)
      (auto simp: overrun_simps lex_loop.simps raw_loop.simps nth_append stepBack_def Let_def)
  then show ?thesis
    using second_token_overruns [of lib st] by (auto simp: two_tokens is_eof_def)
qed

text \<open>
  C37: A string literal that the end of the source cuts off makes the lexer read past the terminator, at the
  latest with the next token.  This holds for a quote and any text in which \<open>escape\<close> writes a string, cut off
  after a backslash, or after a percent sign while fewer than eight interpolations are open; and for three quotes
  with at most one further character, which is no null character.
\<close>

theorem lexer_overruns:
  assumes "currentChar st = length pre" "tok_type (next_token st) \<noteq> TOKEN_EOF" "source st = pre @ t"
    "t = CHR 0x22 # escape s @ [CHR ''%''] \<and> length (parens st) < 8 \<or> t = CHR 0x22 # escape s @ [CHR 0x5C] \<or>
     t = [CHR 0x22, CHR 0x22, CHR 0x22] @ u \<and> length u \<le> 1 \<and> NUL \<notin> set u"
  shows "lex_tokens lib 2 st = Inl Undefined"
  using assms(4)
proof (elim disjE conjE)
  assume "t = CHR 0x22 # escape s @ [CHR ''%'']" "length (parens st) < 8"
  then show ?thesis using assms(1-3) by (intro percent_overruns) simp_all
next
  assume "t = CHR 0x22 # escape s @ [CHR 0x5C]"
  then show ?thesis using assms(1-3) by (intro backslash_overruns) simp_all
next
  assume "t = [CHR 0x22, CHR 0x22, CHR 0x22] @ u" "length u \<le> 1" "NUL \<notin> set u"
  then show ?thesis using assms(1-3) by (intro raw_overruns) simp_all
qed

theorem lexer_overruns_witness:
  "lex_tokens no_lib 2 (start_lexer [CHR 0x22, CHR ''a'', CHR 0x5C]) = Inl Undefined"
  using lexer_overruns [of "start_lexer (CHR 0x22 # escape [CHR ''a''] @ [CHR 0x5C])" "[]"
    "CHR 0x22 # escape [CHR ''a''] @ [CHR 0x5C]" "[CHR ''a'']" "[]" no_lib]
  by (simp add: start_lexer_def skip_bom_def empty_token_def escape_def escape_char_def)

text \<open>
  A hexadecimal number at the end of a line moves the line of every later token by one: the newline after it is
  given back, but has been counted.
\<close>

lemma makeNumber_position [simp]:
  "currentChar (makeNumber lib h st) = currentChar st" "currentLine (makeNumber lib h st) = currentLine st"
  by (simp_all add: makeNumber_def makeToken_def set_value_def lexError_def Let_def split: prod.split)

lemma hex_number_line:
  assumes "source st = pre @ ''0xF'' @ NEWLINE # post" "currentChar st = length pre" "tok_type (next_token st) \<noteq> TOKEN_EOF"
  shows "\<exists>st'. nextToken lib st = Inr st' \<and> tok_type (next_token st') = TOKEN_NUMBER \<and>
    currentChar st' = length pre + 3 \<and> currentLine st' = currentLine st + 1"
  using assms
  by (simp add: overrun_simps lex_loop.simps readHexNumber_def skip_hex.simps readHexDigit_def hex_digit_def in_range_def
      stepBack_def nth_append Let_def)

end
