(* ===== verification/Scopes.thy ===== *)
theory Scopes
  imports Prelude "HOL-Library.AList" "HOL-Library.Sublist"
begin

text \<open>
  The variables and scopes of the compiler: the stack of block scopes of a function (src/Scope.cpp), the fields of
  a class (src/SymbolTable.cpp), the globals of a module (src/Module.cpp), and how src/wren_compiler.cpp declares
  variables, opens and closes scopes, and finds the variable that a name stands for.

  Local variables, functions and \<open>StmtBeginUpvalues\<close> nodes are numbered in the order in which they are made.  An
  upvalue is made only by \<open>addUpvalue\<close>, at most once for a variable and a function, and these two stand for it.
  The list \<open>compilers\<close> has the compiler of the innermost function first; the tail of a list is its \<open>parent\<close>.
\<close>

section \<open>Variables\<close>

datatype scope_var = LocalVar nat | Upvalue scope_var nat

record local_var =
  lv_name :: string
  lv_upvalues :: "scope_var list"
  lv_beginUpvalues :: "nat option"

record scope_frame =
  upvalueContainer :: "nat option"
  frame_locals :: "(string \<times> nat) list"

record fn_info =
  fn_upvalues :: "(scope_var \<times> scope_var) list"
  upvaluesByName :: "(string \<times> scope_var) list"
  fn_locals :: "nat list"

record loop_info =
  loop_start :: nat
  contentFrameId :: int

record compiler =
  m_frames :: "scope_frame list"
  scopeDepth :: int
  comp_loop :: "loop_info list"
  enclosingClass :: "nat option"
  comp_fn :: nat

record scope_state =
  local_vars :: "local_var list"
  begin_vars :: "nat list list"
  fns :: "fn_info list"
  compilers :: "compiler list"
  m_globals :: "(string \<times> int option) list"
  previous_is_error :: bool
  comp_hasError :: bool

definition UPVALUE_SUFFIX :: string where "UPVALUE_SUFFIX = ''_UPVALUE''"

text \<open>\<open>Name()\<close> of a variable, and \<open>GetFinalTarget\<close> of an upvalue.\<close>

fun var_name :: "scope_state \<Rightarrow> scope_var \<Rightarrow> string" where
  "var_name st (LocalVar l) = lv_name (local_vars st ! l)"
| "var_name st (Upvalue p f) = var_name st p @ UPVALUE_SUFFIX"

fun GetFinalTarget :: "scope_var \<Rightarrow> nat" where
  "GetFinalTarget (LocalVar l) = l"
| "GetFinalTarget (Upvalue p f) = GetFinalTarget p"

definition comp_error :: "scope_state \<Rightarrow> scope_state" where
  "comp_error st = (if previous_is_error st then st else st\<lparr>comp_hasError := True\<rparr>)"

section \<open>The stack of scopes\<close>

fun lookup_from :: "string \<Rightarrow> scope_frame list \<Rightarrow> nat option" where
  "lookup_from name [] = None"
| "lookup_from name (frame # parents) =
     (case map_of (frame_locals frame) name of Some l \<Rightarrow> Some l | None \<Rightarrow> lookup_from name parents)"

text \<open>The parent of a frame is the one below it; the top is the last of \<open>m_frames\<close>.\<close>

definition Lookup :: "string \<Rightarrow> scope_frame list \<Rightarrow> nat option" where
  "Lookup name frames = lookup_from name (rev frames)"

definition VariableCount :: "scope_frame list \<Rightarrow> nat" where
  "VariableCount frames = (\<Sum>f \<leftarrow> rev frames. length (frame_locals f))"

definition GetTopFrame :: "scope_frame list \<Rightarrow> int" where
  "GetTopFrame frames = int (length frames) - 1"

text \<open>A negative index is converted to an unsigned one by the comparison, which then fails.\<close>

definition GetFramesSince :: "int \<Rightarrow> scope_frame list \<Rightarrow> scope_frame list" where
  "GetFramesSince since frames = (if since < 0 then [] else drop (nat since) frames)"

definition PushFrame :: "nat option \<Rightarrow> scope_frame list \<Rightarrow> scope_frame list" where
  "PushFrame upvalues frames = frames @ [\<lparr>upvalueContainer = upvalues, frame_locals = []\<rparr>]"

text \<open>Without frames, and after the last one, \<open>back()\<close> is undefined.\<close>

definition PopFrame :: "scope_frame list \<Rightarrow> scope_frame list res" where
  "PopFrame frames = (if length frames \<le> 1 then Inl Undefined else Inr (butlast frames))"

section \<open>The state of the compilers\<close>

definition the_compiler :: "scope_state \<Rightarrow> compiler res" where
  "the_compiler st = (case compilers st of [] \<Rightarrow> Inl Undefined | c # _ \<Rightarrow> Inr c)"

definition upd_compiler :: "(compiler \<Rightarrow> compiler) \<Rightarrow> scope_state \<Rightarrow> scope_state" where
  "upd_compiler f st = st\<lparr>compilers := (case compilers st of [] \<Rightarrow> [] | c # cs \<Rightarrow> f c # cs)\<rparr>"

definition upd_fn :: "nat \<Rightarrow> (fn_info \<Rightarrow> fn_info) \<Rightarrow> scope_state \<Rightarrow> scope_state" where
  "upd_fn i f st = st\<lparr>fns := (fns st)[i := f (fns st ! i)]\<rparr>"

definition new_begin :: "scope_state \<Rightarrow> nat \<times> scope_state" where
  "new_begin st = (length (begin_vars st), st\<lparr>begin_vars := begin_vars st @ [[]]\<rparr>)"

definition new_local :: "string \<Rightarrow> scope_state \<Rightarrow> nat \<times> scope_state" where
  "new_local name st = (length (local_vars st),
     st\<lparr>local_vars := local_vars st @ [\<lparr>lv_name = name, lv_upvalues = [], lv_beginUpvalues = None\<rparr>]\<rparr>)"

text \<open>\<open>initCompiler\<close>, for the function that the current one contains, and the end of a compiler.\<close>

definition initCompiler :: "scope_state \<Rightarrow> scope_state" where
  "initCompiler st =
     (let f = length (fns st);
          (b, st') = new_begin (st\<lparr>fns := fns st @ [\<lparr>fn_upvalues = [], upvaluesByName = [], fn_locals = []\<rparr>]\<rparr>)
      in st'\<lparr>compilers := \<lparr>m_frames = PushFrame (Some b) [], scopeDepth = (if compilers st = [] then -1 else 0),
           comp_loop = [], enclosingClass = None, comp_fn = f\<rparr> # compilers st\<rparr>)"

definition endCompiler :: "scope_state \<Rightarrow> scope_state" where
  "endCompiler st = st\<lparr>compilers := tl (compilers st)\<rparr>"

section \<open>Declaring variables\<close>

text \<open>\<open>ScopeStack::Add\<close>: nothing when the name is in the deepest scope already.\<close>

definition scope_Add :: "nat \<Rightarrow> scope_state \<Rightarrow> (bool \<times> scope_state) res" where
  "scope_Add var st = rbind (the_compiler st) (\<lambda>c.
     if m_frames c = [] then Inl Fatal
     else
       let top = last (m_frames c); name = lv_name (local_vars st ! var) in
       if map_of (frame_locals top) name \<noteq> None then Inr (False, st)
       else
         let st = upd_compiler (\<lambda>c. c\<lparr>m_frames :=
               butlast (m_frames c) @ [top\<lparr>frame_locals := (name, var) # frame_locals top\<rparr>]\<rparr>) st in
         Inr (True, case upvalueContainer top of
             None \<Rightarrow> st
           | Some b \<Rightarrow> st\<lparr>begin_vars := (begin_vars st)[b := begin_vars st ! b @ [var]],
               local_vars := (local_vars st)[var := (local_vars st ! var)\<lparr>lv_beginUpvalues := Some b\<rparr>]\<rparr>))"

definition addLocal :: "string \<Rightarrow> scope_state \<Rightarrow> (nat option \<times> scope_state) res" where
  "addLocal name st =
     (let (l, st) = new_local name st in
      rbind (scope_Add l st) (\<lambda>(ok, st).
      if \<not> ok then Inr (None, st)
      else rbind (the_compiler st) (\<lambda>c.
        Inr (Some l, upd_fn (comp_fn c) (\<lambda>f. f\<lparr>fn_locals := fn_locals f @ [l]\<rparr>) st))))"

definition addMutableTemporary :: "string \<Rightarrow> scope_state \<Rightarrow> (nat \<times> scope_state) res" where
  "addMutableTemporary name st =
     (let (l, st) = new_local name st in
      rbind (the_compiler st) (\<lambda>c.
        Inr (l, upd_fn (comp_fn c) (\<lambda>f. f\<lparr>fn_locals := fn_locals f @ [l]\<rparr>) st)))"

definition AddVariable :: "string \<Rightarrow> scope_state \<Rightarrow> bool \<times> scope_state" where
  "AddVariable name st =
     (if map_of (m_globals st) name \<noteq> None then (False, st)
      else (True, st\<lparr>m_globals := (name, None) # m_globals st\<rparr>))"

definition FindVariable :: "string \<Rightarrow> scope_state \<Rightarrow> int option option" where
  "FindVariable name st = map_of (m_globals st) name"

definition MAX_VARIABLE_NAME :: nat where "MAX_VARIABLE_NAME = 64"
definition MAX_LOCALS :: nat where "MAX_LOCALS = 256"

definition wrenIsLocalName :: "string \<Rightarrow> bool" where
  "wrenIsLocalName name \<longleftrightarrow> name \<noteq> [] \<and> (of_char (CHR ''a'') :: nat) \<le> of_char (hd name) \<and>
     (of_char (hd name) :: nat) \<le> of_char (CHR ''z'')"

datatype declared = DeclGlobal string | DeclLocal nat | DeclNothing

text \<open>A global that was used before it is declared, and has the line of that use, is declared now.\<close>

definition declare_global :: "string \<Rightarrow> scope_state \<Rightarrow> declared \<times> scope_state" where
  "declare_global name st =
     (let (added, st) = AddVariable name st in
      if added then (DeclGlobal name, st)
      else case FindVariable name st of
          Some (Some line) \<Rightarrow>
            (DeclGlobal name, (if wrenIsLocalName name then comp_error st else st)
               \<lparr>m_globals := AList.update name None (m_globals st)\<rparr>)
        | _ \<Rightarrow> (DeclGlobal name, comp_error st))"

definition declareVariable :: "string \<Rightarrow> scope_state \<Rightarrow> (declared \<times> scope_state) res" where
  "declareVariable name st =
     (let st = (if MAX_VARIABLE_NAME < length name then comp_error st else st) in
      rbind (the_compiler st) (\<lambda>c.
        if scopeDepth c = -1 then Inr (declare_global name st)
        else rbind (addLocal name st) (\<lambda>(var, st). case var of
            Some l \<Rightarrow> Inr (DeclLocal l, st)
          | None \<Rightarrow> rbind (the_compiler st) (\<lambda>c.
              Inr (case Lookup name (m_frames c) of Some l \<Rightarrow> DeclLocal l | None \<Rightarrow> DeclNothing, comp_error st)))))"

section \<open>Opening and closing scopes\<close>

definition pushScope :: "scope_state \<Rightarrow> nat \<times> scope_state" where
  "pushScope st =
     (let (b, st) = new_begin st in
      (b, upd_compiler (\<lambda>c. c\<lparr>scopeDepth := scopeDepth c + 1, m_frames := PushFrame (Some b) (m_frames c)\<rparr>) st))"

definition hasUpvalues :: "scope_state \<Rightarrow> nat \<Rightarrow> bool" where
  "hasUpvalues st b \<longleftrightarrow> (\<exists>v \<in> set (begin_vars st ! b). lv_upvalues (local_vars st ! v) \<noteq> [])"

fun relocated :: "scope_state \<Rightarrow> scope_frame list \<Rightarrow> nat list" where
  "relocated st [] = []"
| "relocated st (frame # frames) =
     (case upvalueContainer frame of
        None \<Rightarrow> relocated st frames
      | Some b \<Rightarrow> (if hasUpvalues st b then [b] else []) @ relocated st frames)"

text \<open>The statement that releases the variables: the sets of a \<open>StmtRelocateUpvalues\<close>, or nothing.\<close>

definition discardLocals :: "scope_frame list \<Rightarrow> scope_state \<Rightarrow> nat list option res" where
  "discardLocals discarded st = rbind (the_compiler st) (\<lambda>c.
     if scopeDepth c \<le> -1 then Inl Fatal
     else Inr (case relocated st discarded of [] \<Rightarrow> None | bs \<Rightarrow> Some bs))"

definition popScope :: "scope_state \<Rightarrow> (nat list option \<times> scope_state) res" where
  "popScope st = rbind (the_compiler st) (\<lambda>c.
     rbind (discardLocals (GetFramesSince (GetTopFrame (m_frames c)) (m_frames c)) st) (\<lambda>stmt.
     rbind (PopFrame (m_frames c)) (\<lambda>frames.
       Inr (stmt, upd_compiler (\<lambda>c. c\<lparr>scopeDepth := scopeDepth c - 1, m_frames := frames\<rparr>) st))))"

text \<open>Loops: what \<open>break\<close>, \<open>continue\<close> and \<open>return\<close> release.\<close>

definition startLoop :: "nat \<Rightarrow> scope_state \<Rightarrow> scope_state" where
  "startLoop start st = upd_compiler (\<lambda>c. c\<lparr>comp_loop :=
     \<lparr>loop_start = start, contentFrameId = GetTopFrame (m_frames c)\<rparr> # comp_loop c\<rparr>) st"

definition endLoop :: "scope_state \<Rightarrow> scope_state" where
  "endLoop st = upd_compiler (\<lambda>c. c\<lparr>comp_loop := tl (comp_loop c)\<rparr>) st"

text \<open>The statement that \<open>break\<close> and \<open>continue\<close> put before their jump; \<open>Inr (Inl ())\<close> is the error outside of a loop.\<close>

definition leave_loop :: "scope_state \<Rightarrow> (unit + nat list option) res" where
  "leave_loop st = rbind (the_compiler st) (\<lambda>c. case comp_loop c of
     [] \<Rightarrow> Inr (Inl ())
   | l # _ \<Rightarrow> rbind (discardLocals (GetFramesSince (contentFrameId l) (m_frames c)) st) (\<lambda>s. Inr (Inr s)))"

definition leave_function :: "scope_state \<Rightarrow> nat list option res" where
  "leave_function st = rbind (the_compiler st) (\<lambda>c.
     if scopeDepth c = -1 then Inr None else discardLocals (GetFramesSince 0 (m_frames c)) st)"

section \<open>Finding variables\<close>

definition addUpvalue :: "compiler \<Rightarrow> scope_var \<Rightarrow> scope_state \<Rightarrow> (scope_var \<times> scope_state) res" where
  "addUpvalue c var st =
     (let f = fns st ! comp_fn c in
      case map_of (fn_upvalues f) var of
        Some u \<Rightarrow> Inr (u, st)
      | None \<Rightarrow>
          let u = Upvalue var (comp_fn c) in
          if map_of (upvaluesByName f) (var_name st var) \<noteq> None then Inl Fatal
          else Inr (u, upd_fn (comp_fn c) (\<lambda>f. f\<lparr>fn_upvalues := (var, u) # fn_upvalues f,
            upvaluesByName := (var_name st var, u) # upvaluesByName f\<rparr>) st))"

definition captured :: "nat \<Rightarrow> scope_var \<Rightarrow> scope_state \<Rightarrow> scope_state" where
  "captured l u st = st\<lparr>local_vars := (local_vars st)[l := (local_vars st ! l)\<lparr>lv_upvalues := lv_upvalues (local_vars st ! l) @ [u]\<rparr>]\<rparr>"

text \<open>\<open>name[0]\<close> of an empty string is a null character.\<close>

definition static_field_name :: "string \<Rightarrow> bool" where
  "static_field_name name \<longleftrightarrow> name \<noteq> [] \<and> hd name = CHR ''_''"

fun findUpvalue :: "string \<Rightarrow> compiler list \<Rightarrow> scope_state \<Rightarrow> (scope_var option \<times> scope_state) res" where
  "findUpvalue name [] st = Inl Undefined"
| "findUpvalue name [c] st = Inr (None, st)"
| "findUpvalue name (c # parent # cs) st =
     (if \<not> static_field_name name \<and> enclosingClass parent \<noteq> None then Inr (None, st)
      else case map_of (upvaluesByName (fns st ! comp_fn c)) name of
        Some u \<Rightarrow> Inr (Some u, st)
      | None \<Rightarrow>
        case Lookup name (m_frames parent) of
          Some l \<Rightarrow> rbind (addUpvalue c (LocalVar l) st) (\<lambda>(u, st). Inr (Some u, captured l u st))
        | None \<Rightarrow> rbind (findUpvalue name (parent # cs) st) (\<lambda>(u, st). case u of
            Some p \<Rightarrow> rbind (addUpvalue c p st) (\<lambda>(u, st). Inr (Some u, st))
          | None \<Rightarrow> Inr (None, st)))"

definition resolveNonmodule :: "string \<Rightarrow> scope_state \<Rightarrow> (scope_var option \<times> scope_state) res" where
  "resolveNonmodule name st = rbind (the_compiler st) (\<lambda>c.
     case Lookup name (m_frames c) of
       Some l \<Rightarrow> Inr (Some (LocalVar l), st)
     | None \<Rightarrow> findUpvalue name (compilers st) st)"

fun getEnclosingClass :: "compiler list \<Rightarrow> nat option" where
  "getEnclosingClass [] = None"
| "getEnclosingClass (c # cs) = (case enclosingClass c of Some k \<Rightarrow> Some k | None \<Rightarrow> getEnclosingClass cs)"

text \<open>\<open>this\<close>: the receiver of the method, or the upvalue of it in a function inside the method.\<close>

datatype this_var = Receiver | ThisUpvalue scope_var

definition loadThis :: "scope_state \<Rightarrow> (this_var \<times> scope_state) res" where
  "loadThis st = (case compilers st of
     c # parent # cs \<Rightarrow>
       if enclosingClass parent = None then
         rbind (findUpvalue ''this'' (compilers st) st) (\<lambda>(u, st). case u of
           Some u \<Rightarrow> Inr (ThisUpvalue u, st) | None \<Rightarrow> Inl Fatal)
       else Inr (Receiver, st)
   | _ \<Rightarrow> Inl Undefined)"

text \<open>What a name in an expression stands for.\<close>

datatype name_meaning = NameVar scope_var | NameSelfCall this_var | NameSystem string | NameGlobal string

definition name_lookup :: "string list \<Rightarrow> string \<Rightarrow> int \<Rightarrow> scope_state \<Rightarrow> (name_meaning \<times> scope_state) res" where
  "name_lookup sysVarNames name line st = rbind (resolveNonmodule name st) (\<lambda>(variable, st). case variable of
     Some v \<Rightarrow> Inr (NameVar v, st)
   | None \<Rightarrow>
       if wrenIsLocalName name \<and> getEnclosingClass (compilers st) \<noteq> None then
         rbind (loadThis st) (\<lambda>(t, st). Inr (NameSelfCall t, st))
       else if name \<in> set sysVarNames then Inr (NameSystem name, st)
       else case FindVariable name st of
           Some _ \<Rightarrow> Inr (NameGlobal name, st)
         | None \<Rightarrow> Inr (NameGlobal name, st\<lparr>m_globals := (name, Some line) # m_globals st\<rparr>))"

section \<open>Fields\<close>

text \<open>A symbol table is the list of the names of its fields, in the order of their ids.\<close>

definition Ensure :: "string \<Rightarrow> string list \<Rightarrow> nat \<times> string list" where
  "Ensure name names = (case find_index (\<lambda>f. f = name) names of
     Some i \<Rightarrow> (i, names) | None \<Rightarrow> (length names, names @ [name]))"

section \<open>The start of a module, and classes\<close>

definition empty_module :: scope_state where
  "empty_module = \<lparr>local_vars = [], begin_vars = [], fns = [], compilers = [], m_globals = [],
     previous_is_error = False, comp_hasError = False\<rparr>"

text \<open>\<open>classDefinition\<close> marks the compiler that it runs in while the methods are compiled.\<close>

definition enter_class :: "nat \<Rightarrow> scope_state \<Rightarrow> scope_state" where
  "enter_class k st = upd_compiler (\<lambda>c. c\<lparr>enclosingClass := Some k\<rparr>) st"

definition leave_class :: "scope_state \<Rightarrow> scope_state" where
  "leave_class st = upd_compiler (\<lambda>c. c\<lparr>enclosingClass := None\<rparr>) st"

end
