(* ===== verification/Closures.thy ===== *)
theory Closures
  imports Values Scopes
begin

text \<open>
  Functions as values: src/rtsrc/ObjFn.cpp, the entry points for closures in src/rtsrc/GenEntry.cpp, and the code that
  src/backend_llvm/LLVMBackend.cpp generates for the storage of captured variables and for closures.

  The captured variables of a scope live in a storage block, which is numbered in place of its address and counts its
  references: one for the scope, one for every closure that uses the block.  A closure has a table of pointers: to the
  variables, and after them to the blocks.  A block comes from \<open>malloc\<close>, so that its variables start without a value.
\<close>

section \<open>Storage blocks\<close>

record upvalue_storage =
  referenceCount :: int
  storage :: "val option list"

datatype pack_entry = NullPtr | ValuePtr nat nat | StoragePtr nat

text \<open>What a function needs, as the compiler describes it, and as the runtime keeps it.\<close>

record serialised_spec =
  ser_func :: nat
  ser_name :: string
  ser_arity :: int
  ser_upvalueCount :: int
  ser_storageBlockCount :: int
  ser_offsets :: "int list"

record closure_spec =
  spec_name :: string
  spec_arity :: int
  storageBlockCount :: int
  funcPtr :: nat
  upvalueOffsets :: "int list"

record obj_fn =
  fn_spec :: closure_spec
  upvalueFixupList :: "nat option"
  upvaluePointers :: "pack_entry list"

record closure_heap =
  blocks :: "upvalue_storage list"
  closures :: "obj_fn option list"

text \<open>The constructor of \<open>ClosureSpec\<close>, which \<open>wren_register_closure\<close> calls.\<close>

fun read_offsets :: "nat \<Rightarrow> int list \<Rightarrow> int list res" where
  "read_offsets 0 src = Inr []"
| "read_offsets (Suc n) [] = Inl Undefined"
| "read_offsets (Suc n) (x # src) = rbind (read_offsets n src) (\<lambda>xs. Inr (x # xs))"

definition wren_register_closure :: "serialised_spec \<Rightarrow> closure_spec res" where
  "wren_register_closure s = rbind (read_offsets (nat (ser_upvalueCount s)) (ser_offsets s)) (\<lambda>offsets.
     Inr \<lparr>spec_name = ser_name s, spec_arity = ser_arity s, storageBlockCount = ser_storageBlockCount s,
       funcPtr = ser_func s, upvalueOffsets = offsets\<rparr>)"

section \<open>Reference counts\<close>

definition CLOBBER :: val where "CLOBBER = 0xdeadbeef"

definition wren_alloc_upvalue_storage :: "nat \<Rightarrow> closure_heap \<Rightarrow> nat \<times> closure_heap" where
  "wren_alloc_upvalue_storage n h =
     (length (blocks h), h\<lparr>blocks := blocks h @ [\<lparr>referenceCount = 1, storage = replicate n None\<rparr>]\<rparr>)"

definition Unref :: "upvalue_storage \<Rightarrow> upvalue_storage res" where
  "Unref b =
     (let b = b\<lparr>referenceCount := referenceCount b - 1\<rparr> in
      if referenceCount b < 0 then Inl Fatal
      else if referenceCount b = 0 then rbind (encode_object CLOBBER) (\<lambda>v. Inr (b\<lparr>storage := map (\<lambda>_. Some v) (storage b)\<rparr>))
      else Inr b)"

definition wren_unref_upvalue_storage :: "nat \<Rightarrow> closure_heap \<Rightarrow> closure_heap res" where
  "wren_unref_upvalue_storage s h =
     (if s < length (blocks h) then rbind (Unref (blocks h ! s)) (\<lambda>b. Inr (h\<lparr>blocks := (blocks h)[s := b]\<rparr>))
      else Inl Undefined)"

definition add_ref :: "nat \<Rightarrow> closure_heap \<Rightarrow> closure_heap" where
  "add_ref s h = h\<lparr>blocks := (blocks h)[s := (blocks h ! s)\<lparr>referenceCount := referenceCount (blocks h ! s) + 1\<rparr>]\<rparr>"

definition read_value :: "closure_heap \<Rightarrow> pack_entry \<Rightarrow> val res" where
  "read_value h p = (case p of
     ValuePtr s i \<Rightarrow>
       if s < length (blocks h) \<and> i < length (storage (blocks h ! s))
       then (case storage (blocks h ! s) ! i of Some v \<Rightarrow> Inr v | None \<Rightarrow> Inl Undefined)
       else Inl Undefined
   | _ \<Rightarrow> Inl Undefined)"

definition write_value :: "pack_entry \<Rightarrow> val \<Rightarrow> closure_heap \<Rightarrow> closure_heap res" where
  "write_value p v h = (case p of
     ValuePtr s i \<Rightarrow>
       if s < length (blocks h) \<and> i < length (storage (blocks h ! s))
       then Inr (h\<lparr>blocks := (blocks h)[s := (blocks h ! s)\<lparr>storage := (storage (blocks h ! s))[i := Some v]\<rparr>]\<rparr>)
       else Inl Undefined
   | _ \<Rightarrow> Inl Undefined)"

section \<open>Functions\<close>

text \<open>
  The constructor of \<open>ObjFn\<close>.  \<open>stack\<close> is the array of values of the parent, a block here; the sign bit of an offset
  says that it is one into the parent's own table.
\<close>

fun fill_pointers :: "nat option \<Rightarrow> pack_entry list option \<Rightarrow> int list \<Rightarrow> pack_entry list res" where
  "fill_pointers stack pack [] = Inr []"
| "fill_pointers stack pack (pos # offsets) =
     rbind (if pos < 0
         then (case pack of
             None \<Rightarrow> Inl Undefined
           | Some ps \<Rightarrow> if nat (pos + 2 ^ 31) < length ps then Inr (ps ! nat (pos + 2 ^ 31)) else Inl Undefined)
         else (case stack of None \<Rightarrow> Inl Undefined | Some s \<Rightarrow> Inr (ValuePtr s (nat pos)))) (\<lambda>p.
     rbind (fill_pointers stack pack offsets) (\<lambda>ps. Inr (p # ps)))"

definition make_ObjFn :: "closure_spec \<Rightarrow> nat option \<Rightarrow> pack_entry list option \<Rightarrow> obj_fn res" where
  "make_ObjFn spec stack pack =
     rbind (if stack = None \<and> pack = None then Inr (replicate (length (upvalueOffsets spec)) NullPtr)
         else fill_pointers stack pack (upvalueOffsets spec)) (\<lambda>ps.
       Inr \<lparr>fn_spec = spec, upvalueFixupList = None, upvaluePointers = ps @ replicate (nat (storageBlockCount spec)) NullPtr\<rparr>)"

definition wren_create_closure ::
  "closure_spec option \<Rightarrow> nat option \<Rightarrow> pack_entry list option \<Rightarrow> nat option option \<Rightarrow> closure_heap \<Rightarrow>
     (nat \<times> nat option option \<times> closure_heap) res" where
  "wren_create_closure spec stack pack listHead h = (case spec of
     None \<Rightarrow> Inl (WrenAbort ''Cannot pass null spec to wren_create_closure'')
   | Some spec \<Rightarrow> rbind (make_ObjFn spec stack pack) (\<lambda>f.
       let id = length (closures h);
           f = (case listHead of None \<Rightarrow> f | Some link \<Rightarrow> f\<lparr>upvalueFixupList := link\<rparr>)
       in Inr (id, map_option (\<lambda>_. Some id) listHead, h\<lparr>closures := closures h @ [Some f]\<rparr>)))"

definition the_closure :: "nat \<Rightarrow> closure_heap \<Rightarrow> obj_fn res" where
  "the_closure i h = (if i < length (closures h) then (case closures h ! i of Some f \<Rightarrow> Inr f | None \<Rightarrow> Inl Undefined)
     else Inl Undefined)"

definition wren_get_closure_upvalue_pack :: "nat \<Rightarrow> closure_heap \<Rightarrow> pack_entry list res" where
  "wren_get_closure_upvalue_pack i h = rbind (the_closure i h) (\<lambda>f. Inr (upvaluePointers f))"

fun unref_all :: "pack_entry list \<Rightarrow> closure_heap \<Rightarrow> closure_heap res" where
  "unref_all [] h = Inr h"
| "unref_all (StoragePtr s # ps) h = rbind (wren_unref_upvalue_storage s h) (unref_all ps)"
| "unref_all (_ # ps) h = Inl Undefined"

text \<open>The destructor, which the garbage collector runs.\<close>

definition destroy_ObjFn :: "nat \<Rightarrow> closure_heap \<Rightarrow> closure_heap res" where
  "destroy_ObjFn i h = rbind (the_closure i h) (\<lambda>f.
     rbind (unref_all (take (nat (storageBlockCount (fn_spec f))) (drop (length (upvalueOffsets (fn_spec f))) (upvaluePointers f))) h)
       (\<lambda>h. Inr (h\<lparr>closures := (closures h)[i := None]\<rparr>)))"

text \<open>\<open>FunctionDispatch\<close> is generated by the build, and an argument.\<close>

definition fn_Call :: "(nat \<Rightarrow> pack_entry list option \<Rightarrow> int \<Rightarrow> val list \<Rightarrow> 'a res) \<Rightarrow> obj_fn \<Rightarrow> val list \<Rightarrow> 'a res" where
  "fn_Call dispatch f args =
     (if int (length args) < spec_arity (fn_spec f) then Inl (WrenAbort ''Function expects more arguments.'')
      else dispatch (funcPtr (fn_spec f)) (if upvalueOffsets (fn_spec f) = [] then None else Some (upvaluePointers f))
        (spec_arity (fn_spec f)) args)"

definition fn_Arity :: "obj_fn \<Rightarrow> int" where "fn_Arity f = spec_arity (fn_spec f)"

fun report_values :: "closure_heap \<Rightarrow> pack_entry list \<Rightarrow> val list res" where
  "report_values h [] = Inr []"
| "report_values h (p # ps) = rbind (read_value h p) (\<lambda>v. rbind (report_values h ps) (\<lambda>vs. Inr (v # vs)))"

definition fn_MarkGCValues :: "closure_heap \<Rightarrow> obj_fn \<Rightarrow> val list res" where
  "fn_MarkGCValues h f = report_values h (take (length (upvalueOffsets (fn_spec f))) (upvaluePointers f))"

section \<open>The table of a function, as the compiler lays it out\<close>

record pack_def =
  variables :: "scope_var list"
  storageLocations :: "(nat option \<times> nat) list"

definition target_begin :: "scope_state \<Rightarrow> scope_var \<Rightarrow> nat option" where
  "target_begin st u = lv_beginUpvalues (local_vars st ! GetFinalTarget u)"

fun add_locations :: "scope_state \<Rightarrow> nat \<Rightarrow> scope_var list \<Rightarrow> (nat option \<times> nat) list \<Rightarrow> (nat option \<times> nat) list" where
  "add_locations st n [] locs = locs"
| "add_locations st n (u # us) locs =
     add_locations st n us (case map_of locs (target_begin st u) of
         Some _ \<Rightarrow> locs | None \<Rightarrow> (target_begin st u, length locs + n) # locs)"

definition make_pack :: "scope_state \<Rightarrow> nat \<Rightarrow> pack_def" where
  "make_pack st f =
     (let us = map snd (fn_upvalues (fns st ! f)) in
      \<lparr>variables = us, storageLocations = add_locations st (length us) us []\<rparr>)"

definition closure_spec_data :: "pack_def \<Rightarrow> nat \<Rightarrow> string \<Rightarrow> int \<Rightarrow> serialised_spec" where
  "closure_spec_data pack func name arity =
     \<lparr>ser_func = func, ser_name = name, ser_arity = arity, ser_upvalueCount = int (length (variables pack)),
      ser_storageBlockCount = int (length (storageLocations pack)), ser_offsets = map (\<lambda>_. 0) (variables pack)\<rparr>"

text \<open>The position of a captured variable in its block: that among the captured variables of the same scope.\<close>

definition closedAddressPosition :: "scope_state \<Rightarrow> nat \<Rightarrow> nat \<Rightarrow> nat" where
  "closedAddressPosition st f l =
     length (filter (\<lambda>k. lv_beginUpvalues (local_vars st ! k) = lv_beginUpvalues (local_vars st ! l) \<and>
         lv_upvalues (local_vars st ! k) \<noteq> [])
       (takeWhile (\<lambda>k. k \<noteq> l) (fn_locals (fns st ! f))))"

definition block_contents :: "scope_state \<Rightarrow> nat \<Rightarrow> nat \<Rightarrow> nat list" where
  "block_contents st f b =
     filter (\<lambda>k. lv_beginUpvalues (local_vars st ! k) = Some b \<and> lv_upvalues (local_vars st ! k) \<noteq> []) (fn_locals (fns st ! f))"

section \<open>The generated code\<close>

text \<open>
  A running function: which function of the module it is, the blocks in the stack slots of its scopes, and the table of
  its own closure.  \<open>block_fn\<close> gives the function that a scope belongs to.
\<close>

record activation =
  act_fn :: nat
  packPtr :: "nat \<rightharpoonup> nat"
  act_pack :: "(pack_def \<times> pack_entry list) option"

definition begin_upvalues :: "scope_state \<Rightarrow> nat \<Rightarrow> activation \<Rightarrow> closure_heap \<Rightarrow> activation \<times> closure_heap" where
  "begin_upvalues st b a h =
     (let (s, h) = wren_alloc_upvalue_storage (length (block_contents st (act_fn a) b)) h
      in (a\<lparr>packPtr := (packPtr a)(b \<mapsto> s)\<rparr>, h))"

fun relocate_upvalues :: "nat list \<Rightarrow> activation \<Rightarrow> closure_heap \<Rightarrow> closure_heap res" where
  "relocate_upvalues [] a h = Inr h"
| "relocate_upvalues (b # bs) a h = (case packPtr a b of
     None \<Rightarrow> Inl Undefined
   | Some s \<Rightarrow> rbind (wren_unref_upvalue_storage s h) (relocate_upvalues bs a))"

definition GetLocalPointer :: "scope_state \<Rightarrow> activation \<Rightarrow> nat \<Rightarrow> pack_entry res" where
  "GetLocalPointer st a l = (case lv_beginUpvalues (local_vars st ! l) of
     None \<Rightarrow> Inl Undefined
   | Some b \<Rightarrow> (case packPtr a b of
       None \<Rightarrow> Inl Undefined
     | Some s \<Rightarrow> Inr (ValuePtr s (closedAddressPosition st (act_fn a) l))))"

definition pack_at :: "pack_entry list \<Rightarrow> nat \<Rightarrow> pack_entry res" where
  "pack_at ps i = (if i < length ps then Inr (ps ! i) else Inl Undefined)"

definition GetUpvaluePointer :: "activation \<Rightarrow> scope_var \<Rightarrow> pack_entry res" where
  "GetUpvaluePointer a u = (case act_pack a of
     None \<Rightarrow> Inl Fatal
   | Some (pdef, ps) \<Rightarrow> (case find_index (\<lambda>v. v = u) (variables pdef) of
       None \<Rightarrow> Inl Fatal | Some i \<Rightarrow> pack_at ps i))"

definition variable_slot :: "scope_state \<Rightarrow> activation \<Rightarrow> scope_var \<Rightarrow> pack_entry res" where
  "variable_slot st a u = (case u of
     Upvalue (LocalVar l) f \<Rightarrow> GetLocalPointer st a l
   | Upvalue (Upvalue p g) f \<Rightarrow> if g = act_fn a then GetUpvaluePointer a (Upvalue p g) else Inl Fatal
   | LocalVar l \<Rightarrow> Inl Fatal)"

definition storage_address :: "(nat \<Rightarrow> nat) \<Rightarrow> activation \<Rightarrow> nat option \<Rightarrow> nat res" where
  "storage_address block_fn a b = (case b of
     None \<Rightarrow> Inl Undefined
   | Some b \<Rightarrow>
       if block_fn b = act_fn a then (case packPtr a b of None \<Rightarrow> Inl Undefined | Some s \<Rightarrow> Inr s)
       else (case act_pack a of
           None \<Rightarrow> Inl Undefined
         | Some (pdef, ps) \<Rightarrow> (case map_of (storageLocations pdef) (Some b) of
             None \<Rightarrow> Inl Fatal
           | Some i \<Rightarrow> rbind (pack_at ps i) (\<lambda>p. case p of StoragePtr s \<Rightarrow> Inr s | _ \<Rightarrow> Inl Undefined))))"

fun fill_variables :: "scope_state \<Rightarrow> activation \<Rightarrow> nat \<Rightarrow> scope_var list \<Rightarrow> pack_entry list \<Rightarrow> pack_entry list res" where
  "fill_variables st a i [] ps = Inr ps"
| "fill_variables st a i (u # us) ps = rbind (variable_slot st a u) (\<lambda>p. fill_variables st a (Suc i) us (ps[i := p]))"

fun fill_storages :: "(nat \<Rightarrow> nat) \<Rightarrow> activation \<Rightarrow> (nat option \<times> nat) list \<Rightarrow> pack_entry list \<Rightarrow> closure_heap \<Rightarrow>
    (pack_entry list \<times> closure_heap) res" where
  "fill_storages block_fn a [] ps h = Inr (ps, h)"
| "fill_storages block_fn a ((b, location) # locs) ps h = rbind (storage_address block_fn a b) (\<lambda>s.
     if s < length (blocks h) then fill_storages block_fn a locs (ps[location := StoragePtr s]) (add_ref s h) else Inl Undefined)"

definition visit_closure ::
  "scope_state \<Rightarrow> (nat \<Rightarrow> nat) \<Rightarrow> pack_def \<Rightarrow> closure_spec \<Rightarrow> activation \<Rightarrow> closure_heap \<Rightarrow> (nat \<times> closure_heap) res" where
  "visit_closure st block_fn pdef spec a h = rbind (wren_create_closure (Some spec) None None None h) (\<lambda>(i, _, h).
     if variables pdef = [] then Inr (i, h)
     else rbind (wren_get_closure_upvalue_pack i h) (\<lambda>ps.
       rbind (fill_variables st a 0 (variables pdef) ps) (\<lambda>ps.
       rbind (fill_storages block_fn a (storageLocations pdef) ps h) (\<lambda>(ps, h).
       rbind (the_closure i h) (\<lambda>f.
         Inr (i, h\<lparr>closures := (closures h)[i := Some (f\<lparr>upvaluePointers := ps\<rparr>)]\<rparr>))))))"

end
