(* ===== verification/Scopes_Proofs.thy ===== *)
theory Scopes_Proofs
  imports Scopes
begin

text \<open>
  Names resolve lexically: to the variable of the innermost scope that declares them, through one upvalue for each
  function between, and up to the method boundary.  Names that end like the names the compiler gives its upvalues
  are the exception.
\<close>

section \<open>What a name means\<close>

definition plain :: "string \<Rightarrow> bool" where
  "plain n \<longleftrightarrow> \<not> suffix UPVALUE_SUFFIX n"

text \<open>The local of the innermost scope, or the same for the enclosing function, as an upvalue of this one.\<close>

fun lexical :: "string \<Rightarrow> compiler list \<Rightarrow> scope_var option" where
  "lexical name [] = None"
| "lexical name (c # cs) =
     (case Lookup name (m_frames c) of
        Some l \<Rightarrow> Some (LocalVar l)
      | None \<Rightarrow>
          if cs = [] \<or> \<not> static_field_name name \<and> enclosingClass (hd cs) \<noteq> None then None
          else map_option (\<lambda>v. Upvalue v (comp_fn c)) (lexical name cs))"

definition outer :: "string \<Rightarrow> compiler list \<Rightarrow> scope_var option" where
  "outer name cs =
     (if tl cs = [] \<or> \<not> static_field_name name \<and> enclosingClass (hd (tl cs)) \<noteq> None then None
      else map_option (\<lambda>v. Upvalue v (comp_fn (hd cs))) (lexical name (tl cs)))"

lemma lexical_Cons: "lexical name (c # cs) =
  (case Lookup name (m_frames c) of Some l \<Rightarrow> Some (LocalVar l) | None \<Rightarrow> outer name (c # cs))"
  by (auto simp: outer_def split: option.split)

section \<open>The invariant\<close>

definition base_name :: "scope_state \<Rightarrow> scope_var \<Rightarrow> string" where
  "base_name st v = lv_name (local_vars st ! GetFinalTarget v)"

definition frames_ok :: "scope_state \<Rightarrow> compiler \<Rightarrow> bool" where
  "frames_ok st c \<longleftrightarrow> m_frames c \<noteq> [] \<and> (\<forall>f \<in> set (m_frames c). \<forall>n l. (n, l) \<in> set (frame_locals f) \<longrightarrow>
     l < length (local_vars st) \<and> lv_name (local_vars st ! l) = n \<and> plain n)"

definition ups_ok :: "scope_state \<Rightarrow> compiler \<Rightarrow> compiler list \<Rightarrow> bool" where
  "ups_ok st c cs \<longleftrightarrow>
     (\<forall>v u. (v, u) \<in> set (fn_upvalues (fns st ! comp_fn c)) \<longrightarrow>
        u = Upvalue v (comp_fn c) \<and> lexical (base_name st v) cs = Some v \<and> GetFinalTarget v < length (local_vars st) \<and>
        plain (base_name st v)) \<and>
     (\<forall>n u. (n, u) \<in> set (upvaluesByName (fns st ! comp_fn c)) \<longrightarrow>
        (\<exists>v. (v, u) \<in> set (fn_upvalues (fns st ! comp_fn c)) \<and> n = var_name st v))"

fun chain_ok :: "scope_state \<Rightarrow> compiler list \<Rightarrow> bool" where
  "chain_ok st [] = True"
| "chain_ok st (c # cs) \<longleftrightarrow> frames_ok st c \<and> comp_fn c < length (fns st) \<and> comp_fn c \<notin> comp_fn ` set cs \<and>
     ups_ok st c cs \<and> chain_ok st cs"

definition scope_ok :: "scope_state \<Rightarrow> bool" where
  "scope_ok st \<longleftrightarrow> compilers st \<noteq> [] \<and> chain_ok st (compilers st)"

section \<open>Names of upvalues\<close>

fun up_depth :: "scope_var \<Rightarrow> nat" where
  "up_depth (LocalVar l) = 0"
| "up_depth (Upvalue p f) = Suc (up_depth p)"

lemma var_name_base: "var_name st v = base_name st v @ concat (replicate (up_depth v) UPVALUE_SUFFIX)"
proof (induction v)
  case (Upvalue p f)
  have comm: "concat (replicate n xs) @ xs = xs @ concat (replicate n xs)" for n and xs :: string
    by (induction n) auto
  show ?case using Upvalue by (simp add: base_name_def comm)
qed (simp add: base_name_def)

lemma plain_replicate:
  assumes "plain a" "plain b" "a @ concat (replicate i UPVALUE_SUFFIX) = b @ concat (replicate j UPVALUE_SUFFIX)"
  shows "a = b \<and> i = j"
  using assms(3)
proof (induction i arbitrary: j)
  case 0
  show ?case
  proof (cases j)
    case (Suc k)
    then have "a = (b @ concat (replicate k UPVALUE_SUFFIX)) @ UPVALUE_SUFFIX"
      using 0 by (simp flip: replicate_append_same)
    then have "suffix UPVALUE_SUFFIX a" by (simp add: suffix_def)
    then show ?thesis using assms(1) by (simp add: plain_def)
  qed (use 0 in simp)
next
  case (Suc i)
  have eq: "(a @ concat (replicate i UPVALUE_SUFFIX)) @ UPVALUE_SUFFIX = b @ concat (replicate j UPVALUE_SUFFIX)"
    using Suc.prems by (simp flip: replicate_append_same)
  show ?case
  proof (cases j)
    case 0
    then have "b = (a @ concat (replicate i UPVALUE_SUFFIX)) @ UPVALUE_SUFFIX" using eq by simp
    then have "suffix UPVALUE_SUFFIX b" by (simp add: suffix_def)
    then show ?thesis using assms(2) by (simp add: plain_def)
  next
    case (Suc k)
    then have "a @ concat (replicate i UPVALUE_SUFFIX) = b @ concat (replicate k UPVALUE_SUFFIX)"
      using eq by (simp flip: replicate_append_same)
    then show ?thesis using Suc.IH Suc by simp
  qed
qed

lemma var_name_inject:
  assumes "var_name st v = var_name st w" "plain (base_name st v)" "plain (base_name st w)"
  shows "base_name st v = base_name st w \<and> up_depth v = up_depth w"
  by (rule plain_replicate [OF assms(2,3) assms(1) [unfolded var_name_base]])

section \<open>Frames\<close>

lemma lookup_from_mem: "lookup_from n fs = Some l \<Longrightarrow> \<exists>f \<in> set fs. (n, l) \<in> set (frame_locals f)"
  by (induction fs) (auto split: option.splits dest: map_of_SomeD)

lemma Lookup_mem: "Lookup n fs = Some l \<Longrightarrow> \<exists>f \<in> set fs. (n, l) \<in> set (frame_locals f)"
  using lookup_from_mem [of n "rev fs" l] by (simp add: Lookup_def)

lemma Lookup_ok:
  assumes "frames_ok st c" "Lookup n (m_frames c) = Some l"
  shows "l < length (local_vars st)" "lv_name (local_vars st ! l) = n" "plain n"
  using Lookup_mem [OF assms(2)] assms(1) by (auto simp: frames_ok_def)

lemma lexical_name: "chain_ok st cs \<Longrightarrow> lexical n cs = Some v \<Longrightarrow>
  base_name st v = n \<and> GetFinalTarget v < length (local_vars st) \<and> plain n"
proof (induction cs arbitrary: v)
  case (Cons c cs)
  then show ?case
    by (fastforce simp: base_name_def split: option.splits if_splits dest: Lookup_ok)
qed simp

section \<open>Changes that keep what is there\<close>

definition keeps_names :: "scope_state \<Rightarrow> scope_state \<Rightarrow> bool" where
  "keeps_names st st' \<longleftrightarrow> length (local_vars st) \<le> length (local_vars st') \<and>
     (\<forall>l < length (local_vars st). lv_name (local_vars st' ! l) = lv_name (local_vars st ! l))"

definition keeps_fns :: "nat set \<Rightarrow> scope_state \<Rightarrow> scope_state \<Rightarrow> bool" where
  "keeps_fns F st st' \<longleftrightarrow> length (fns st) \<le> length (fns st') \<and>
     (\<forall>i < length (fns st). i \<in> F \<longrightarrow> fn_upvalues (fns st' ! i) = fn_upvalues (fns st ! i) \<and>
        upvaluesByName (fns st' ! i) = upvaluesByName (fns st ! i))"

lemma keeps_names_trans: "keeps_names a b \<Longrightarrow> keeps_names b c \<Longrightarrow> keeps_names a c"
  by (auto simp: keeps_names_def)

lemma keeps_fns_trans: "keeps_fns F a b \<Longrightarrow> keeps_fns F b c \<Longrightarrow> keeps_fns F a c"
  by (auto simp: keeps_fns_def)

lemma keeps_base:
  "keeps_names st st' \<Longrightarrow> GetFinalTarget v < length (local_vars st) \<Longrightarrow> base_name st' v = base_name st v"
  by (simp add: keeps_names_def base_name_def)

lemma keeps_var_name:
  "keeps_names st st' \<Longrightarrow> GetFinalTarget v < length (local_vars st) \<Longrightarrow> var_name st' v = var_name st v"
  by (simp add: var_name_base keeps_base)

lemma frames_ok_keeps: "frames_ok st c \<Longrightarrow> keeps_names st st' \<Longrightarrow> frames_ok st' c"
  unfolding frames_ok_def keeps_names_def by (metis order_less_le_trans)

lemma ups_ok_keeps:
  assumes "ups_ok st c cs" "keeps_names st st'" "keeps_fns F st st'" "comp_fn c \<in> F" "comp_fn c < length (fns st)"
  shows "ups_ok st' c cs"
proof -
  have same: "fn_upvalues (fns st' ! comp_fn c) = fn_upvalues (fns st ! comp_fn c)"
    "upvaluesByName (fns st' ! comp_fn c) = upvaluesByName (fns st ! comp_fn c)"
    using assms(3-5) by (auto simp: keeps_fns_def)
  have len: "length (local_vars st) \<le> length (local_vars st')" using assms(2) by (simp add: keeps_names_def)
  have up: "u = Upvalue v (comp_fn c) \<and> lexical (base_name st v) cs = Some v \<and>
      GetFinalTarget v < length (local_vars st) \<and> plain (base_name st v)"
    if "(v, u) \<in> set (fn_upvalues (fns st ! comp_fn c))" for v u
    using assms(1) that unfolding ups_ok_def by blast
  have up': "u = Upvalue v (comp_fn c) \<and> lexical (base_name st' v) cs = Some v \<and>
      GetFinalTarget v < length (local_vars st') \<and> plain (base_name st' v)"
    if "(v, u) \<in> set (fn_upvalues (fns st ! comp_fn c))" for v u
    using up [OF that] len keeps_base [OF assms(2), of v] by simp
  have "\<exists>v. (v, u) \<in> set (fn_upvalues (fns st ! comp_fn c)) \<and> n = var_name st' v"
    if n: "(n, u) \<in> set (upvaluesByName (fns st ! comp_fn c))" for n u
  proof -
    obtain v where v: "(v, u) \<in> set (fn_upvalues (fns st ! comp_fn c))" "n = var_name st v"
      using assms(1) n unfolding ups_ok_def by blast
    then show ?thesis using keeps_var_name [OF assms(2)] up [OF v(1)] by auto
  qed
  then show ?thesis using up' unfolding ups_ok_def same by blast
qed

lemma chain_ok_keeps:
  "chain_ok st cs \<Longrightarrow> keeps_names st st' \<Longrightarrow> keeps_fns F st st' \<Longrightarrow> comp_fn ` set cs \<subseteq> F \<Longrightarrow> chain_ok st' cs"
proof (induction cs)
  case (Cons c cs)
  then have "comp_fn c < length (fns st')" by (auto simp: keeps_fns_def)
  then show ?case
    using Cons frames_ok_keeps [of st c st'] ups_ok_keeps [of st c cs st' F] by auto
qed simp

text \<open>Only the frames, the depth, the loops and the class of the innermost compiler change.\<close>

lemma chain_ok_head:
  "chain_ok st (c # cs) \<Longrightarrow> comp_fn c' = comp_fn c \<Longrightarrow> frames_ok st c' \<Longrightarrow> chain_ok st (c' # cs)"
  by (simp add: ups_ok_def)

section \<open>Upvalues\<close>

lemma addUpvalue_ok:
  assumes "chain_ok st (c # cs)" "lexical n cs = Some v"
  shows "\<exists>st'. addUpvalue c v st = Inr (Upvalue v (comp_fn c), st') \<and> chain_ok st' (c # cs) \<and>
    (v, Upvalue v (comp_fn c)) \<in> set (fn_upvalues (fns st' ! comp_fn c)) \<and> keeps_names st st' \<and>
    keeps_fns (- {comp_fn c}) st st' \<and> local_vars st' = local_vars st \<and> compilers st' = compilers st"
proof -
  let ?f = "fns st ! comp_fn c"
  have ok: "ups_ok st c cs" "chain_ok st cs" "comp_fn c < length (fns st)" "comp_fn c \<notin> comp_fn ` set cs"
    "frames_ok st c"
    using assms(1) by simp_all
  have v: "base_name st v = n" "GetFinalTarget v < length (local_vars st)" "plain n"
    using lexical_name [OF ok(2) assms(2)] by simp_all
  have refl: "keeps_names st st" "keeps_fns (- {comp_fn c}) st st"
    by (simp_all add: keeps_names_def keeps_fns_def)
  show ?thesis
  proof (cases "map_of (fn_upvalues ?f) v")
    case (Some u)
    then have "(v, u) \<in> set (fn_upvalues ?f)" by (rule map_of_SomeD)
    moreover from this have "u = Upvalue v (comp_fn c)" using ok(1) by (auto simp: ups_ok_def)
    ultimately show ?thesis using Some assms(1) refl by (simp add: addUpvalue_def)
  next
    case None
    let ?u = "Upvalue v (comp_fn c)"
    let ?st = "upd_fn (comp_fn c) (\<lambda>f. f\<lparr>fn_upvalues := (v, ?u) # fn_upvalues f,
      upvaluesByName := (var_name st v, ?u) # upvaluesByName f\<rparr>) st"
    have fresh: "map_of (upvaluesByName ?f) (var_name st v) = None"
    proof (rule ccontr)
      assume "map_of (upvaluesByName ?f) (var_name st v) \<noteq> None"
      then obtain u where "(var_name st v, u) \<in> set (upvaluesByName ?f)" by (auto dest: map_of_SomeD)
      then obtain w where w: "(w, u) \<in> set (fn_upvalues ?f)" "var_name st v = var_name st w"
        using ok(1) unfolding ups_ok_def by blast
      then have lw: "lexical (base_name st w) cs = Some w" "plain (base_name st w)"
        using ok(1) unfolding ups_ok_def by blast+
      then have "base_name st w = n" using var_name_inject [OF w(2)] v by simp
      then have "w = v" using lw assms(2) by simp
      then show False using w(1) None by (auto simp: map_of_eq_None_iff image_iff)
    qed
    have add: "addUpvalue c v st = Inr (?u, ?st)" using None fresh by (simp add: addUpvalue_def Let_def)
    have kn: "keeps_names st ?st" by (simp add: keeps_names_def upd_fn_def)
    have kf: "keeps_fns (- {comp_fn c}) st ?st" by (auto simp: keeps_fns_def upd_fn_def)
    have chain: "chain_ok ?st cs" using chain_ok_keeps [OF ok(2) kn kf] ok(4) by auto
    have names: "var_name ?st w = var_name st w" "base_name ?st w = base_name st w" for w
      by (simp_all add: var_name_base base_name_def upd_fn_def)
    have "ups_ok ?st c cs"
      using ok(1,3) assms(2) v unfolding ups_ok_def names by (fastforce simp: upd_fn_def)
    then have "chain_ok ?st (c # cs)"
      using chain ok frames_ok_keeps [OF ok(5) kn] by (simp add: upd_fn_def)
    then show ?thesis using add kn kf ok(3) by (auto simp: upd_fn_def)
  qed
qed

lemma captured_keeps: "keeps_names st (captured l u st)" "keeps_fns F st (captured l u st)"
proof -
  have "lv_name ((local_vars st)[l := (local_vars st ! l)\<lparr>lv_upvalues := us\<rparr>] ! k) = lv_name (local_vars st ! k)"
    if "k < length (local_vars st)" for k us
    using that by (cases "l = k") simp_all
  then show "keeps_names st (captured l u st)" "keeps_fns F st (captured l u st)"
    by (simp_all add: keeps_names_def keeps_fns_def captured_def)
qed

text \<open>What finding an upvalue leaves alone: functions outside the chain, names, and the compilers.\<close>

definition only_ups :: "compiler list \<Rightarrow> scope_state \<Rightarrow> scope_state \<Rightarrow> bool" where
  "only_ups cs st st' \<longleftrightarrow> keeps_names st st' \<and> keeps_fns (- (comp_fn ` set cs)) st st' \<and> compilers st' = compilers st"

lemma only_ups_weaken:
  assumes "only_ups cs st st'" "set cs \<subseteq> set ds"
  shows "only_ups ds st st'"
proof -
  have "comp_fn ` set cs \<subseteq> comp_fn ` set ds" using assms(2) by blast
  then show ?thesis using assms(1) unfolding only_ups_def keeps_fns_def by blast
qed

lemma only_ups_trans: "only_ups cs a b \<Longrightarrow> only_ups cs b c \<Longrightarrow> only_ups cs a c"
  unfolding only_ups_def by (metis keeps_names_trans keeps_fns_trans)

lemma only_ups_then:
  assumes "only_ups (c # cs) st st1" "only_ups [c] st1 st2"
  shows "only_ups (c # cs) st st2"
  using only_ups_trans [OF assms(1) only_ups_weaken [OF assms(2)]] by simp

lemma byName_outer:
  assumes "chain_ok st (c # p # cs)" "map_of (upvaluesByName (fns st ! comp_fn c)) n = Some u" "plain n"
    "\<not> (\<not> static_field_name n \<and> enclosingClass p \<noteq> None)"
  shows "outer n (c # p # cs) = Some u \<and> (case u of Upvalue v f \<Rightarrow> (v, u) \<in> set (fn_upvalues (fns st ! comp_fn c)) | _ \<Rightarrow> False)"
proof -
  have "(n, u) \<in> set (upvaluesByName (fns st ! comp_fn c))" using assms(2) by (rule map_of_SomeD)
  then obtain v where v: "(v, u) \<in> set (fn_upvalues (fns st ! comp_fn c))" "n = var_name st v"
    using assms(1) unfolding chain_ok.simps ups_ok_def by blast
  then have u: "u = Upvalue v (comp_fn c)" "lexical (base_name st v) (p # cs) = Some v" "plain (base_name st v)"
    using assms(1) unfolding chain_ok.simps ups_ok_def by blast+
  have "base_name st v @ concat (replicate (up_depth v) UPVALUE_SUFFIX) = n @ concat (replicate 0 UPVALUE_SUFFIX)"
    using v(2) by (simp add: var_name_base)
  then have "base_name st v = n" using plain_replicate [OF u(3) assms(3)] by blast
  then show ?thesis using u v(1) assms(4) by (simp add: outer_def)
qed

lemma findUpvalue_outer:
  assumes "chain_ok st cs" "cs \<noteq> []" "plain n"
  shows "\<exists>st'. findUpvalue n cs st = Inr (outer n cs, st') \<and> chain_ok st' cs \<and> only_ups cs st st'"
  using assms
proof (induction n cs st rule: findUpvalue.induct)
  case (2 name c st)
  then show ?case by (simp add: outer_def only_ups_def keeps_names_def keeps_fns_def)
next
  case (3 n c p cs st)
  have refl: "only_ups ds st st" for ds by (simp add: only_ups_def keeps_names_def keeps_fns_def)
  show ?case
  proof (cases "\<not> static_field_name n \<and> enclosingClass p \<noteq> None")
    case True
    then show ?thesis using 3(2) refl by (simp add: outer_def)
  next
    case bound: False
    show ?thesis
    proof (cases "map_of (upvaluesByName (fns st ! comp_fn c)) n")
      case (Some u)
      then show ?thesis
        using byName_outer [OF 3(2) Some 3(4) bound] bound 3(2) refl by auto
    next
      case none: None
      have out: "outer n (c # p # cs) = map_option (\<lambda>v. Upvalue v (comp_fn c)) (lexical n (p # cs))"
        using bound by (auto simp: outer_def)
      show ?thesis
      proof (cases "Lookup n (m_frames p)")
        case (Some l)
        then have lex: "lexical n (p # cs) = Some (LocalVar l)" by simp
        obtain st1 where a: "addUpvalue c (LocalVar l) st = Inr (Upvalue (LocalVar l) (comp_fn c), st1)"
          "chain_ok st1 (c # p # cs)" "keeps_names st st1" "keeps_fns (- {comp_fn c}) st st1" "compilers st1 = compilers st"
          using addUpvalue_ok [OF 3(2) lex] by blast
        have "chain_ok (captured l u st1) (c # p # cs)" for u
          using chain_ok_keeps [OF a(2) captured_keeps, of UNIV] by blast
        moreover have "only_ups (c # p # cs) st (captured l u st1)" for u
        proof -
          have "only_ups [c] st st1" using a by (simp add: only_ups_def)
          moreover have "only_ups [c] st1 (captured l u st1)"
            using captured_keeps by (simp add: only_ups_def) (simp add: captured_def)
          ultimately show ?thesis using only_ups_weaken [of "[c]" st st1 "c # p # cs"] only_ups_then by simp
        qed
        ultimately show ?thesis using a(1) none bound Some lex out by auto
      next
        case no_local: None
        have chain: "chain_ok st (p # cs)" using 3(2) by simp
        have "\<exists>st'. findUpvalue n (p # cs) st = Inr (outer n (p # cs), st') \<and> chain_ok st' (p # cs) \<and> only_ups (p # cs) st st'"
          by (rule 3(1) [OF bound none no_local chain _ 3(4)]) simp
        then obtain st1 where f: "findUpvalue n (p # cs) st = Inr (outer n (p # cs), st1)" "chain_ok st1 (p # cs)"
          "only_ups (p # cs) st st1"
          by blast
        have lex: "lexical n (p # cs) = outer n (p # cs)" using no_local lexical_Cons [of n p cs] by simp
        have new: "comp_fn c \<notin> comp_fn ` set (p # cs)" "comp_fn c < length (fns st)" "frames_ok st c" "ups_ok st c (p # cs)"
          using 3(2) by simp_all
        have k: "keeps_names st st1" "keeps_fns (- (comp_fn ` set (p # cs))) st st1"
          using f(3) by (simp_all add: only_ups_def)
        have "ups_ok st1 c (p # cs)" by (rule ups_ok_keeps [OF new(4) k _ new(2)]) (use new(1) in simp)
        then have chain1: "chain_ok st1 (c # p # cs)"
          using f(2) new frames_ok_keeps [OF new(3) k(1)] k(2) by (auto simp: keeps_fns_def)
        have w: "only_ups (c # p # cs) st st1" by (rule only_ups_weaken [OF f(3)]) auto
        show ?thesis
        proof (cases "outer n (p # cs)")
          case None
          then show ?thesis using f(1) none bound no_local lex out chain1 w by auto
        next
          case (Some v)
          then have "lexical n (p # cs) = Some v" using lex by simp
          then obtain st2 where a: "addUpvalue c v st1 = Inr (Upvalue v (comp_fn c), st2)"
            "chain_ok st2 (c # p # cs)" "keeps_names st1 st2" "keeps_fns (- {comp_fn c}) st1 st2" "compilers st2 = compilers st1"
            using addUpvalue_ok [OF chain1] by blast
          have "only_ups [c] st1 st2" using a by (simp add: only_ups_def)
          then have "only_ups (c # p # cs) st st2" using w only_ups_then by blast
          then show ?thesis using a(1,2) f(1) none bound no_local lex out Some by auto
        qed
      qed
    qed
  qed
qed simp

section \<open>Upvalues are recorded where they are needed\<close>

text \<open>
  Every upvalue on the way to a variable is in the table of its function, and the first of them is known to the
  variable itself, so that its scope releases it.
\<close>

fun recorded :: "scope_state \<Rightarrow> scope_var \<Rightarrow> bool" where
  "recorded st (LocalVar l) \<longleftrightarrow> l < length (local_vars st)"
| "recorded st (Upvalue v f) \<longleftrightarrow> f < length (fns st) \<and> (v, Upvalue v f) \<in> set (fn_upvalues (fns st ! f)) \<and> recorded st v \<and>
     (case v of LocalVar l \<Rightarrow> Upvalue v f \<in> set (lv_upvalues (local_vars st ! l)) | _ \<Rightarrow> True)"

definition grows :: "scope_state \<Rightarrow> scope_state \<Rightarrow> bool" where
  "grows st st' \<longleftrightarrow> length (fns st) \<le> length (fns st') \<and> length (local_vars st) \<le> length (local_vars st') \<and>
     (\<forall>i < length (fns st). set (fn_upvalues (fns st ! i)) \<subseteq> set (fn_upvalues (fns st' ! i))) \<and>
     (\<forall>l < length (local_vars st). set (lv_upvalues (local_vars st ! l)) \<subseteq> set (lv_upvalues (local_vars st' ! l)))"

lemma grows_trans: "grows a b \<Longrightarrow> grows b c \<Longrightarrow> grows a c"
  unfolding grows_def by (metis (no_types, lifting) order_trans order_less_le_trans)

lemma recorded_grows: "recorded st v \<Longrightarrow> grows st st' \<Longrightarrow> recorded st' v"
proof (induction v)
  case (Upvalue v f)
  have "f < length (fns st')" "(v, Upvalue v f) \<in> set (fn_upvalues (fns st' ! f))"
    using Upvalue.prems unfolding grows_def by auto
  moreover have "Upvalue v f \<in> set (lv_upvalues (local_vars st' ! l))" if "v = LocalVar l" for l
    using Upvalue.prems that unfolding grows_def by auto
  ultimately show ?case using Upvalue by (auto split: scope_var.splits)
qed (auto simp: grows_def)

text \<open>All upvalues of the functions that are being compiled are recorded.\<close>

definition all_recorded :: "scope_state \<Rightarrow> compiler list \<Rightarrow> bool" where
  "all_recorded st cs \<longleftrightarrow> (\<forall>c \<in> set cs. \<forall>v u. (v, u) \<in> set (fn_upvalues (fns st ! comp_fn c)) \<longrightarrow> recorded st u)"

lemma find_chain:
  assumes "chain_ok st (c # cs)" "cs \<noteq> []" "plain n" "findUpvalue n cs st = Inr (r, st1)"
  shows "r = outer n cs \<and> chain_ok st1 (c # cs) \<and> only_ups cs st st1"
proof -
  have f: "r = outer n cs" "chain_ok st1 cs" "only_ups cs st st1"
    using findUpvalue_outer [of st cs n] assms by auto
  have k: "keeps_names st st1" "keeps_fns (- (comp_fn ` set cs)) st st1" using f(3) by (simp_all add: only_ups_def)
  have new: "comp_fn c \<notin> comp_fn ` set cs" "comp_fn c < length (fns st)" "frames_ok st c" "ups_ok st c cs"
    using assms(1) by simp_all
  have "ups_ok st1 c cs" by (rule ups_ok_keeps [OF new(4) k _ new(2)]) (use new(1) in simp)
  then show ?thesis
    using f new frames_ok_keeps [OF new(3) k(1)] k(2) by (auto simp: keeps_fns_def)
qed

lemma captured_grows: "grows st (captured l u st)"
proof -
  have "set (lv_upvalues (local_vars st ! k)) \<subseteq>
      set (lv_upvalues ((local_vars st)[l := (local_vars st ! l)\<lparr>lv_upvalues := lv_upvalues (local_vars st ! l) @ [u]\<rparr>] ! k))"
    if "k < length (local_vars st)" for k
    using that by (cases "l = k") auto
  then show ?thesis by (simp add: grows_def captured_def)
qed

lemma addUpvalue_grows:
  assumes "addUpvalue c v st = Inr (u, st')" "comp_fn c < length (fns st)"
  shows "grows st st'" "\<And>w x i. (w, x) \<in> set (fn_upvalues (fns st' ! i)) \<Longrightarrow>
    (w, x) \<in> set (fn_upvalues (fns st ! i)) \<or> (w, x) = (v, u)"
    "(v, u) \<in> set (fn_upvalues (fns st' ! comp_fn c))"
    "length (fns st') = length (fns st)" "local_vars st' = local_vars st"
  using assms
  by (auto simp: addUpvalue_def grows_def upd_fn_def nth_list_update Let_def split: option.splits if_splits
      dest: map_of_SomeD)

lemma all_recorded_after:
  assumes "all_recorded st cs" "grows st st'" "recorded st' u"
    "\<And>w x i. (w, x) \<in> set (fn_upvalues (fns st' ! i)) \<Longrightarrow> (w, x) \<in> set (fn_upvalues (fns st ! i)) \<or> x = u"
  shows "all_recorded st' cs"
proof -
  have "recorded st' x" if "c \<in> set cs" "(w, x) \<in> set (fn_upvalues (fns st' ! comp_fn c))" for c w x
  proof (cases "x = u")
    case False
    then have "(w, x) \<in> set (fn_upvalues (fns st ! comp_fn c))" using assms(4) that(2) by blast
    then have "recorded st x" using assms(1) that(1) unfolding all_recorded_def by blast
    then show ?thesis using recorded_grows [OF _ assms(2)] by blast
  qed (use assms(3) in simp)
  then show ?thesis unfolding all_recorded_def by blast
qed

lemma capture_recorded:
  assumes "addUpvalue c (LocalVar l) st = Inr (u, st1)" "u = Upvalue (LocalVar l) (comp_fn c)"
    "comp_fn c < length (fns st)" "l < length (local_vars st)" "all_recorded st cs"
  shows "recorded (captured l u st1) u \<and> grows st (captured l u st1) \<and> all_recorded (captured l u st1) cs"
proof -
  note g = addUpvalue_grows [OF assms(1,3)]
  have r: "recorded (captured l u st1) u"
    using g(3-5) assms(2-4) by (simp add: captured_def)
  have "grows st (captured l u st1)" using g(1) captured_grows grows_trans by blast
  moreover have "all_recorded (captured l u st1) cs"
    by (rule all_recorded_after [OF assms(5) calculation r]) (use g(2) in \<open>force simp: captured_def\<close>)
  ultimately show ?thesis using r by blast
qed

lemma findUpvalue_recorded:
  assumes "chain_ok st cs" "cs \<noteq> []" "plain n" "all_recorded st ds" "set cs \<subseteq> set ds" "findUpvalue n cs st = Inr (r, st')"
  shows "all_recorded st' ds \<and> grows st st' \<and> (\<forall>u. r = Some u \<longrightarrow> recorded st' u)"
  using assms
proof (induction n cs st arbitrary: r st' rule: findUpvalue.induct)
  case (2 name c st)
  then show ?case by (simp add: grows_def)
next
  case (3 n c p cs st)
  have same: "grows st st" by (simp add: grows_def)
  have c: "comp_fn c < length (fns st)" "frames_ok st p" "chain_ok st (p # cs)" using 3(2) by simp_all
  show ?case
  proof (cases "\<not> static_field_name n \<and> enclosingClass p \<noteq> None")
    case True
    then show ?thesis using 3(5,7) same by simp
  next
    case bound: False
    show ?thesis
    proof (cases "map_of (upvaluesByName (fns st ! comp_fn c)) n")
      case (Some u)
      then have "r = Some u" "st' = st" using 3(7) bound by auto
      moreover have "\<exists>v. (v, u) \<in> set (fn_upvalues (fns st ! comp_fn c))"
        using byName_outer [OF 3(2) Some 3(4) bound] by (cases u) auto
      then have "recorded st u" using 3(5,6) unfolding all_recorded_def by fastforce
      ultimately show ?thesis using 3(5) same by simp
    next
      case none: None
      show ?thesis
      proof (cases "Lookup n (m_frames p)")
        case (Some l)
        then have "lexical n (p # cs) = Some (LocalVar l)" by simp
        then obtain st1 where a: "addUpvalue c (LocalVar l) st = Inr (Upvalue (LocalVar l) (comp_fn c), st1)"
          using addUpvalue_ok [OF 3(2)] by blast
        then have "r = Some (Upvalue (LocalVar l) (comp_fn c))" "st' = captured l (Upvalue (LocalVar l) (comp_fn c)) st1"
          using 3(7) bound none Some by auto
        then show ?thesis
          using capture_recorded [OF a refl c(1) Lookup_ok(1) [OF c(2) Some] 3(5)] by simp
      next
        case no_local: None
        obtain st1 where f: "findUpvalue n (p # cs) st = Inr (outer n (p # cs), st1)"
          using findUpvalue_outer [OF c(3) _ 3(4)] by blast
        have ih: "all_recorded st1 ds \<and> grows st st1 \<and> (\<forall>u. outer n (p # cs) = Some u \<longrightarrow> recorded st1 u)"
          by (rule 3(1) [OF bound none no_local c(3) _ 3(4,5) _ f]) (use 3(6) in auto)
        show ?thesis
        proof (cases "outer n (p # cs)")
          case None
          then show ?thesis using ih f 3(7) bound none no_local by auto
        next
          case (Some v)
          have c1: "comp_fn c < length (fns st1)" using c(1) ih by (auto simp: grows_def)
          obtain u where a: "addUpvalue c v st1 = Inr (u, st')" "r = Some u"
            using 3(7) bound none no_local f Some by (auto simp: rbind_eq_Inr_iff)
          note g = addUpvalue_grows [OF a(1) c1]
          have "lexical n (p # cs) = Some v" using Some no_local lexical_Cons [of n p cs] by simp
          then have "u = Upvalue v (comp_fn c)"
            using addUpvalue_ok [of st1 c "p # cs" n v] find_chain [OF 3(2) _ 3(4) f] a(1) by auto
          have "\<not> (\<exists>l. v = LocalVar l)" using Some by (auto simp: outer_def split: if_splits)
          then have r: "recorded st' u"
            using \<open>u = _\<close> g(3,4) c1 recorded_grows [OF _ g(1)] ih Some by (auto split: scope_var.splits)
          have "all_recorded st' ds"
            by (rule all_recorded_after [OF _ g(1) r]) (use ih g(2) in blast)+
          then show ?thesis using ih a(2) r g(1) grows_trans by blast
        qed
      qed
    qed
  qed
qed simp

section \<open>The states that compilation goes through\<close>

inductive scope_reachable :: "scope_state \<Rightarrow> bool" where
  start: "scope_reachable (initCompiler empty_module)"
| fn_start: "scope_reachable st \<Longrightarrow> scope_reachable (initCompiler st)"
| fn_end: "scope_reachable st \<Longrightarrow> tl (compilers st) \<noteq> [] \<Longrightarrow> scope_reachable (endCompiler st)"
| scope_start: "scope_reachable st \<Longrightarrow> scope_reachable (snd (pushScope st))"
| scope_end: "scope_reachable st \<Longrightarrow> popScope st = Inr (s, st') \<Longrightarrow> scope_reachable st'"
| declare_name: "scope_reachable st \<Longrightarrow> plain n \<Longrightarrow> declareVariable n st = Inr (d, st') \<Longrightarrow> scope_reachable st'"
| local_name: "scope_reachable st \<Longrightarrow> plain n \<Longrightarrow> addLocal n st = Inr (d, st') \<Longrightarrow> scope_reachable st'"
| temporary: "scope_reachable st \<Longrightarrow> addMutableTemporary n st = Inr (l, st') \<Longrightarrow> scope_reachable st'"
| loop_start: "scope_reachable st \<Longrightarrow> scope_reachable (startLoop l st)"
| loop_end: "scope_reachable st \<Longrightarrow> scope_reachable (endLoop st)"
| class_start: "scope_reachable st \<Longrightarrow> scope_reachable (enter_class k st)"
| class_end: "scope_reachable st \<Longrightarrow> scope_reachable (leave_class st)"
| use: "scope_reachable st \<Longrightarrow> plain n \<Longrightarrow> name_lookup sys n line st = Inr (m, st') \<Longrightarrow> scope_reachable st'"

definition scope_inv :: "scope_state \<Rightarrow> bool" where
  "scope_inv st \<longleftrightarrow> compilers st \<noteq> [] \<and> chain_ok st (compilers st) \<and> all_recorded st (compilers st)"

lemma inv_keeps:
  assumes "scope_inv st" "compilers st = c # cs" "compilers st' = c' # cs" "comp_fn c' = comp_fn c"
    "keeps_names st st'" "keeps_fns UNIV st st'" "grows st st'" "frames_ok st' c'"
  shows "scope_inv st'"
proof -
  have "chain_ok st (c # cs)" using assms(1,2) unfolding scope_inv_def by metis
  then have "chain_ok st' (c # cs)" using chain_ok_keeps [OF _ assms(5,6)] by blast
  then have "chain_ok st' (c' # cs)" using chain_ok_head assms(4,8) by blast
  moreover have "all_recorded st' (c' # cs)"
    unfolding all_recorded_def
  proof (intro ballI allI impI)
    fix d v u
    assume d: "d \<in> set (c' # cs)" and u: "(v, u) \<in> set (fn_upvalues (fns st' ! comp_fn d))"
    have len: "comp_fn e < length (fns st)" if "e \<in> set es" "chain_ok st es" for e es
      using that by (induction es) auto
    obtain e where e: "e \<in> set (c # cs)" "comp_fn e = comp_fn d"
      using d assms(4) by (cases "d = c'") force+
    then have "comp_fn d < length (fns st)" using len [OF e(1)] assms(1,2) by (auto simp: scope_inv_def)
    then have "(v, u) \<in> set (fn_upvalues (fns st ! comp_fn e))" using u e(2) assms(6) by (simp add: keeps_fns_def)
    then have "recorded st u" using assms(1,2) e(1) unfolding scope_inv_def all_recorded_def by metis
    then show "recorded st' u" using recorded_grows assms(7) by blast
  qed
  ultimately show ?thesis using assms(3) by (simp add: scope_inv_def)
qed

text \<open>Changes of the innermost compiler that leave its frames, or drop or add empty ones.\<close>

lemma inv_frames:
  assumes "scope_inv st" "compilers st = c # cs" "compilers st' = c' # cs" "comp_fn c' = comp_fn c"
    "local_vars st' = local_vars st" "fns st' = fns st"
    "m_frames c' \<noteq> []" "\<And>f. f \<in> set (m_frames c') \<Longrightarrow> f \<in> set (m_frames c) \<or> frame_locals f = []"
  shows "scope_inv st'"
proof (rule inv_keeps [OF assms(1-4)])
  show "keeps_names st st'" "keeps_fns UNIV st st'" "grows st st'"
    using assms(5,6) by (simp_all add: keeps_names_def keeps_fns_def grows_def)
  have "frames_ok st c" using assms(1,2) by (simp add: scope_inv_def)
  then show "frames_ok st' c'"
    using assms(5,7,8) unfolding frames_ok_def by fastforce
qed

lemma inv_compiler: "scope_inv st \<Longrightarrow> \<exists>c cs. compilers st = c # cs \<and> frames_ok st c"
  by (cases "compilers st") (auto simp: scope_inv_def)

lemma inv_other:
  assumes "scope_inv st" "compilers st' = compilers st" "local_vars st' = local_vars st" "fns st' = fns st"
  shows "scope_inv st'"
proof -
  obtain c cs where "compilers st = c # cs" "frames_ok st c" using inv_compiler [OF assms(1)] by blast
  then show ?thesis using inv_frames [OF assms(1), of c cs st' c] assms(2-4) by (simp add: frames_ok_def)
qed

lemma inv_initCompiler:
  assumes "scope_inv st \<or> st = empty_module"
  shows "scope_inv (initCompiler st)"
proof -
  let ?st = "initCompiler st"
  have k: "keeps_names st ?st" "keeps_fns UNIV st ?st" "grows st ?st"
    by (auto simp: initCompiler_def new_begin_def keeps_names_def keeps_fns_def grows_def nth_append)
  have chain: "chain_ok st (compilers st)" "all_recorded st (compilers st)"
    using assms by (auto simp: scope_inv_def empty_module_def all_recorded_def)
  have len: "comp_fn e < length (fns st)" if "e \<in> set es" "chain_ok st es" for e es
    using that by (induction es) auto
  have old: "chain_ok ?st (compilers st)" using chain_ok_keeps [OF chain(1) k(1,2)] by simp
  have new: "fns ?st ! length (fns st) = \<lparr>fn_upvalues = [], upvaluesByName = [], fn_locals = []\<rparr>"
    "length (fns ?st) = Suc (length (fns st))"
    by (simp_all add: initCompiler_def new_begin_def)
  have fresh: "length (fns st) \<notin> comp_fn ` set (compilers st)" using len [OF _ chain(1)] by (metis imageE less_irrefl)
  obtain c where c: "compilers ?st = c # compilers st" "comp_fn c = length (fns st)" "frames_ok ?st c"
    by (simp add: initCompiler_def new_begin_def frames_ok_def PushFrame_def)
  have "ups_ok ?st c (compilers st)" by (simp add: ups_ok_def c(2) new(1))
  then have "chain_ok ?st (compilers ?st)" using old c new(2) fresh by simp
  moreover have "all_recorded ?st (compilers ?st)"
    unfolding all_recorded_def
  proof (intro ballI allI impI)
    fix d v u
    assume d: "d \<in> set (compilers ?st)" and u: "(v, u) \<in> set (fn_upvalues (fns ?st ! comp_fn d))"
    show "recorded ?st u"
    proof (cases "d = c")
      case True
      then show ?thesis using u c(2) new(1) by simp
    next
      case False
      then have d: "d \<in> set (compilers st)" using d c(1) by simp
      then have "comp_fn d < length (fns st)" using len [OF _ chain(1)] by blast
      then have "(v, u) \<in> set (fn_upvalues (fns st ! comp_fn d))" using u k(2) by (simp add: keeps_fns_def)
      then have "recorded st u" using chain(2) d unfolding all_recorded_def by blast
      then show ?thesis using recorded_grows k(3) by blast
    qed
  qed
  ultimately show ?thesis using c(1) by (simp add: scope_inv_def)
qed

lemma update_fields [simp]:
  "k < length xs \<Longrightarrow> lv_name (xs[i := (xs ! i)\<lparr>lv_beginUpvalues := b\<rparr>] ! k) = lv_name (xs ! k)"
  "k < length xs \<Longrightarrow> lv_upvalues (xs[i := (xs ! i)\<lparr>lv_beginUpvalues := b\<rparr>] ! k) = lv_upvalues (xs ! k)"
  "k < length ys \<Longrightarrow> fn_upvalues (ys[i := (ys ! i)\<lparr>fn_locals := ls\<rparr>] ! k) = fn_upvalues (ys ! k)"
  "k < length ys \<Longrightarrow> upvaluesByName (ys[i := (ys ! i)\<lparr>fn_locals := ls\<rparr>] ! k) = upvaluesByName (ys ! k)"
  by (cases "i = k"; simp)+

lemma frames_ok_add:
  assumes "frames_ok st c" "l < length (local_vars st)" "lv_name (local_vars st ! l) = n" "plain n"
  shows "frames_ok st (c\<lparr>m_frames := butlast (m_frames c) @
    [(last (m_frames c))\<lparr>frame_locals := (n, l) # frame_locals (last (m_frames c))\<rparr>]\<rparr>)"
proof -
  let ?fs = "butlast (m_frames c) @ [(last (m_frames c))\<lparr>frame_locals := (n, l) # frame_locals (last (m_frames c))\<rparr>]"
  have last: "last (m_frames c) \<in> set (m_frames c)" using assms(1) by (simp add: frames_ok_def)
  have "k < length (local_vars st) \<and> lv_name (local_vars st ! k) = m \<and> plain m"
    if "f \<in> set ?fs" "(m, k) \<in> set (frame_locals f)" for f m k
  proof (cases "(m, k) = (n, l)")
    case False
    then have "\<exists>g \<in> set (m_frames c). (m, k) \<in> set (frame_locals g)"
      using that last by (auto dest: in_set_butlastD)
    then show ?thesis using assms(1) unfolding frames_ok_def by blast
  qed (use assms(2-4) in blast)
  then show ?thesis unfolding frames_ok_def by simp
qed

lemma inv_addLocal:
  assumes "scope_inv st" "plain n" "addLocal n st = Inr (d, st')"
  shows "scope_inv st'"
proof -
  obtain c cs where c: "compilers st = c # cs" "frames_ok st c" using inv_compiler [OF assms(1)] by blast
  let ?l = "length (local_vars st)"
  let ?st = "snd (new_local n st)"
  have new: "fst (new_local n st) = ?l" "compilers ?st = c # cs" "lv_name (local_vars ?st ! ?l) = n" "fns ?st = fns st"
    using c(1) by (simp_all add: new_local_def)
  have kn: "keeps_names st ?st" "keeps_fns UNIV st ?st" "grows st ?st"
    by (simp_all add: new_local_def keeps_names_def keeps_fns_def grows_def nth_append)
  obtain b st1 where add: "scope_Add ?l ?st = Inr (b, st1)" "\<not> b \<longrightarrow> st' = st1"
    "b \<longrightarrow> st' = upd_fn (comp_fn (hd (compilers st1))) (\<lambda>f. f\<lparr>fn_locals := fn_locals f @ [?l]\<rparr>) st1"
    using assms(3) new(1)
    by (auto simp: addLocal_def rbind_eq_Inr_iff the_compiler_def split: prod.splits if_splits list.splits)
  show ?thesis
  proof (cases b)
    case False
    then have "st' = ?st" using add c new
      by (auto simp: scope_Add_def the_compiler_def Let_def split: if_splits)
    then show ?thesis
      using inv_keeps [OF assms(1) c(1) new(2) refl kn] frames_ok_keeps [OF c(2) kn(1)] by simp
  next
    case True
    let ?top = "last (m_frames c)"
    let ?c = "c\<lparr>m_frames := butlast (m_frames c) @ [?top\<lparr>frame_locals := (n, ?l) # frame_locals ?top\<rparr>]\<rparr>"
    have st1: "compilers st1 = ?c # cs" "keeps_names ?st st1" "keeps_fns UNIV ?st st1" "grows ?st st1"
      using True add(1) c new
      by (auto simp: scope_Add_def the_compiler_def Let_def upd_compiler_def keeps_names_def keeps_fns_def grows_def
          split: if_splits option.splits)
    have st': "compilers st' = ?c # cs" "keeps_names st1 st'" "keeps_fns UNIV st1 st'" "grows st1 st'"
      using True add(3) st1(1)
      by (auto simp: upd_fn_def keeps_names_def keeps_fns_def grows_def)
    have k: "keeps_names st st'" "keeps_fns UNIV st st'" "grows st st'"
      using keeps_names_trans [OF keeps_names_trans [OF kn(1) st1(2)] st'(2)]
        keeps_fns_trans [OF keeps_fns_trans [OF kn(2) st1(3)] st'(3)] grows_trans [OF grows_trans [OF kn(3) st1(4)] st'(4)]
      by simp_all
    have l: "?l < length (local_vars st')" "lv_name (local_vars st' ! ?l) = n"
      using keeps_names_trans [OF st1(2) st'(2)] new(3) by (auto simp: keeps_names_def new_local_def)
    have "frames_ok st' c" by (rule frames_ok_keeps [OF c(2) k(1)])
    then have "frames_ok st' ?c" by (rule frames_ok_add [OF _ l assms(2)])
    then show ?thesis using inv_keeps [OF assms(1) c(1) st'(1) _ k] by simp
  qed
qed

lemma inv_declareVariable:
  assumes "scope_inv st" "plain n" "declareVariable n st = Inr (d, st')"
  shows "scope_inv st'"
proof -
  define st0 where "st0 = (if MAX_VARIABLE_NAME < length n then comp_error st else st)"
  obtain c cs where c: "compilers st = c # cs" using inv_compiler [OF assms(1)] by blast
  have st0: "scope_inv st0" "compilers st0 = c # cs"
    using inv_other [OF assms(1), of st0] c by (simp_all add: st0_def comp_error_def)
  show ?thesis
  proof (cases "scopeDepth c = -1")
    case True
    then have "Inr (d, st') = (Inr (declare_global n st0) :: (declared \<times> scope_state) res)"
      using assms(3) st0(2) by (simp add: declareVariable_def st0_def [symmetric] the_compiler_def)
    then have "st' = snd (declare_global n st0)" by (metis Inr_inject snd_conv)
    then have "compilers st' = compilers st0" "local_vars st' = local_vars st0" "fns st' = fns st0"
      by (auto simp: declare_global_def AddVariable_def comp_error_def split: option.splits)
    then show ?thesis using inv_other [OF st0(1)] by blast
  next
    case False
    then obtain v st1 where a: "addLocal n st0 = Inr (v, st1)" "compilers st' = compilers st1" "local_vars st' = local_vars st1"
      "fns st' = fns st1"
      using assms(3) st0(2)
      by (auto simp: declareVariable_def st0_def [symmetric] the_compiler_def rbind_eq_Inr_iff comp_error_def
          split: option.splits list.splits if_splits)
    then show ?thesis using inv_other [OF inv_addLocal [OF st0(1) assms(2) a(1)]] by blast
  qed
qed

lemma inv_temporary:
  assumes "scope_inv st" "addMutableTemporary n st = Inr (l, st')"
  shows "scope_inv st'"
proof -
  obtain c cs where c: "compilers st = c # cs" "frames_ok st c" using inv_compiler [OF assms(1)] by blast
  have st': "compilers st' = c # cs" "keeps_names st st'" "keeps_fns UNIV st st'" "grows st st'"
    using assms(2) c(1)
    by (auto simp: addMutableTemporary_def new_local_def the_compiler_def upd_fn_def keeps_names_def keeps_fns_def
        grows_def nth_append)
  show ?thesis by (rule inv_keeps [OF assms(1) c(1) st'(1) refl st'(2-4) frames_ok_keeps [OF c(2) st'(2)]])
qed

lemma inv_findUpvalue:
  assumes "scope_inv st" "plain n" "findUpvalue n (compilers st) st = Inr (r, st')"
  shows "scope_inv st' \<and> compilers st' = compilers st \<and> r = outer n (compilers st) \<and> (\<forall>u. r = Some u \<longrightarrow> recorded st' u)"
proof -
  have st: "chain_ok st (compilers st)" "compilers st \<noteq> []" "all_recorded st (compilers st)"
    using assms(1) by (simp_all add: scope_inv_def)
  have "r = outer n (compilers st)" "chain_ok st' (compilers st)" "compilers st' = compilers st"
    using findUpvalue_outer [OF st(1,2) assms(2)] assms(3) by (auto simp: only_ups_def)
  moreover have "all_recorded st' (compilers st) \<and> (\<forall>u. r = Some u \<longrightarrow> recorded st' u)"
    using findUpvalue_recorded [OF st(1,2) assms(2) st(3) subset_refl assms(3)] by blast
  ultimately show ?thesis using st(2) by (simp add: scope_inv_def)
qed

lemma inv_resolve:
  assumes "scope_inv st" "plain n"
  shows "\<exists>st'. resolveNonmodule n st = Inr (lexical n (compilers st), st') \<and> scope_inv st' \<and> compilers st' = compilers st \<and>
    (\<forall>u. lexical n (compilers st) = Some u \<longrightarrow> recorded st' u)"
proof -
  obtain c cs where c: "compilers st = c # cs" "frames_ok st c" using inv_compiler [OF assms(1)] by blast
  show ?thesis
  proof (cases "Lookup n (m_frames c)")
    case (Some l)
    then show ?thesis using assms(1) c Lookup_ok(1) [OF c(2) Some] by (simp add: resolveNonmodule_def the_compiler_def)
  next
    case None
    have "chain_ok st (compilers st)" "compilers st \<noteq> []" using assms(1) by (simp_all add: scope_inv_def)
    then obtain st' where f: "findUpvalue n (compilers st) st = Inr (outer n (compilers st), st')"
      using findUpvalue_outer assms(2) by blast
    have "lexical n (compilers st) = outer n (compilers st)" using None lexical_Cons [of n c cs] c(1) by simp
    then show ?thesis using inv_findUpvalue [OF assms f] None c(1) f by (simp add: resolveNonmodule_def the_compiler_def)
  qed
qed

lemma plain_this: "plain ''this''"
  by (simp add: plain_def UPVALUE_SUFFIX_def suffix_def)

lemma inv_loadThis:
  assumes "scope_inv st" "loadThis st = Inr (t, st')"
  shows "scope_inv st'"
proof -
  obtain c p cs where c: "compilers st = c # p # cs" using assms(2) by (auto simp: loadThis_def split: list.splits)
  show ?thesis
  proof (cases "enclosingClass p")
    case None
    then obtain u where "findUpvalue ''this'' (compilers st) st = Inr (u, st')"
      using assms(2) c by (auto simp: loadThis_def rbind_eq_Inr_iff split: option.splits)
    then show ?thesis using inv_findUpvalue [OF assms(1) plain_this] by blast
  next
    case (Some k)
    then show ?thesis using assms c by (simp add: loadThis_def)
  qed
qed

lemma inv_name_lookup:
  assumes "scope_inv st" "plain n" "name_lookup sys n line st = Inr (m, st')"
  shows "scope_inv st'"
proof -
  obtain st1 where r: "resolveNonmodule n st = Inr (lexical n (compilers st), st1)" "scope_inv st1"
    using inv_resolve [OF assms(1,2)] by blast
  show ?thesis
  proof (cases "lexical n (compilers st)")
    case (Some v)
    then show ?thesis using assms(3) r by (simp add: name_lookup_def)
  next
    case None
    consider t where "loadThis st1 = Inr (t, st')" | "st' = st1" | "st' = st1\<lparr>m_globals := (n, Some line) # m_globals st1\<rparr>"
      using assms(3) r None by (auto simp: name_lookup_def rbind_eq_Inr_iff split: if_splits option.splits)
    then show ?thesis
    proof cases
      case 1
      then show ?thesis using inv_loadThis [OF r(2)] by blast
    next
      case 3
      then show ?thesis using inv_other [OF r(2)] by simp
    qed (use r(2) in simp)
  qed
qed

lemma inv_endCompiler:
  assumes "scope_inv st" "tl (compilers st) \<noteq> []"
  shows "scope_inv (endCompiler st)"
proof -
  obtain c cs where c: "compilers st = c # cs" "cs \<noteq> []" using assms(2) by (cases "compilers st") auto
  have ch: "chain_ok st cs" "all_recorded st cs" using assms(1) c(1) by (simp_all add: scope_inv_def all_recorded_def)
  have "keeps_names st (endCompiler st)" "keeps_fns UNIV st (endCompiler st)" "grows st (endCompiler st)"
    by (simp_all add: endCompiler_def keeps_names_def keeps_fns_def grows_def)
  moreover from this have "chain_ok (endCompiler st) cs" using chain_ok_keeps [OF ch(1)] by blast
  moreover have "recorded (endCompiler st) v = recorded st v" for v
    by (induction v) (auto simp: endCompiler_def split: scope_var.split)
  ultimately show ?thesis using c ch(2) by (simp add: scope_inv_def endCompiler_def all_recorded_def)
qed

lemma scope_invariant: "scope_reachable st \<Longrightarrow> scope_inv st"
proof (induction rule: scope_reachable.induct)
  case (scope_start st)
  then obtain c cs where c: "compilers st = c # cs" "frames_ok st c" using inv_compiler by blast
  show ?case
    by (rule inv_frames [OF scope_start.IH c(1), where c' = "c\<lparr>scopeDepth := scopeDepth c + 1,
        m_frames := PushFrame (Some (length (begin_vars st))) (m_frames c)\<rparr>"])
      (use c(1) in \<open>auto simp: pushScope_def new_begin_def upd_compiler_def PushFrame_def\<close>)
next
  case (scope_end st s st')
  then obtain c cs where c: "compilers st = c # cs" "frames_ok st c" using inv_compiler by blast
  then have "st' = upd_compiler (\<lambda>c. c\<lparr>scopeDepth := scopeDepth c - 1, m_frames := butlast (m_frames c)\<rparr>) st"
    "1 < length (m_frames c)"
    using scope_end(2) by (auto simp: popScope_def the_compiler_def PopFrame_def rbind_eq_Inr_iff upd_compiler_def split: if_splits)
  moreover from this have "butlast (m_frames c) \<noteq> []" by (simp flip: length_0_conv)
  ultimately show ?case
    by (intro inv_frames [OF scope_end.IH c(1), where c' = "c\<lparr>scopeDepth := scopeDepth c - 1, m_frames := butlast (m_frames c)\<rparr>"])
      (use c(1) in \<open>auto simp: upd_compiler_def dest: in_set_butlastD\<close>)
next
  case (loop_start st l)
  then obtain c cs where c: "compilers st = c # cs" "frames_ok st c" using inv_compiler by blast
  show ?case
    by (rule inv_frames [OF loop_start.IH c(1), where c' = "c\<lparr>comp_loop :=
        \<lparr>loop_start = l, contentFrameId = GetTopFrame (m_frames c)\<rparr> # comp_loop c\<rparr>"])
      (use c in \<open>auto simp: startLoop_def upd_compiler_def frames_ok_def\<close>)
next
  case (loop_end st)
  then obtain c cs where c: "compilers st = c # cs" "frames_ok st c" using inv_compiler by blast
  show ?case
    by (rule inv_frames [OF loop_end.IH c(1), where c' = "c\<lparr>comp_loop := tl (comp_loop c)\<rparr>"])
      (use c in \<open>auto simp: endLoop_def upd_compiler_def frames_ok_def\<close>)
next
  case (class_start st k)
  then obtain c cs where c: "compilers st = c # cs" "frames_ok st c" using inv_compiler by blast
  show ?case
    by (rule inv_frames [OF class_start.IH c(1), where c' = "c\<lparr>enclosingClass := Some k\<rparr>"])
      (use c in \<open>auto simp: enter_class_def upd_compiler_def frames_ok_def\<close>)
next
  case (class_end st)
  then obtain c cs where c: "compilers st = c # cs" "frames_ok st c" using inv_compiler by blast
  show ?case
    by (rule inv_frames [OF class_end.IH c(1), where c' = "c\<lparr>enclosingClass := None\<rparr>"])
      (use c in \<open>auto simp: leave_class_def upd_compiler_def frames_ok_def\<close>)
qed (auto intro: inv_initCompiler inv_endCompiler inv_declareVariable inv_addLocal inv_temporary inv_name_lookup)

section \<open>Resolution\<close>

text \<open>
  C38: In every state that the compilation of a module reaches when no name of its variables ends in
  \<open>_UPVALUE\<close>, looking up a name, which must not end in \<open>_UPVALUE\<close> either, never aborts and finds what lexical scoping says: the variable of the innermost scope that declares the name, in this
  function or through one upvalue for each function between, but not beyond a method; or nothing.  What it finds has
  this name, every upvalue on the way is in the table of its function, and the variable itself knows the first of
  them.  (For other names see \<open>upvalue_name_captured\<close> and \<open>upvalue_name_aborts\<close>.)
\<close>

theorem resolve_lexical:
  assumes "scope_reachable st" "plain n"
  shows "\<exists>st'. resolveNonmodule n st = Inr (lexical n (compilers st), st') \<and> compilers st' = compilers st \<and>
    (\<forall>v. lexical n (compilers st) = Some v \<longrightarrow> base_name st v = n \<and> recorded st' v)"
proof -
  have inv: "scope_inv st" using assms(1) by (rule scope_invariant)
  then have "chain_ok st (compilers st)" by (simp add: scope_inv_def)
  then have "lexical n (compilers st) = Some v \<longrightarrow> base_name st v = n" for v using lexical_name by blast
  then show ?thesis using inv_resolve [OF inv assms(2)] by blast
qed

text \<open>A block with a variable, and two functions one in the other inside of it.\<close>

definition two_deep :: "string list \<Rightarrow> scope_state res" where
  "two_deep names = rbind (foldl (\<lambda>r n. rbind r (\<lambda>st. rbind (addLocal n st) (\<lambda>(_, st). Inr st)))
     (Inr (snd (pushScope (initCompiler empty_module)))) names) (\<lambda>st. Inr (initCompiler (initCompiler st)))"

lemma two_deep_reachable:
  assumes "\<forall>n \<in> set names. plain n" "two_deep names = Inr st"
  shows "scope_reachable st"
proof -
  let ?add = "\<lambda>r n. rbind r (\<lambda>st. rbind (addLocal n st) (\<lambda>(_, st). Inr st))"
  have "scope_reachable st2" if "foldl ?add r ns = Inr st2" "\<forall>n \<in> set ns. plain n" "\<And>s. r = Inr s \<Longrightarrow> scope_reachable s" for r ns st2
    using that
  proof (induction ns arbitrary: r)
    case (Cons n ns)
    have "scope_reachable s" if "?add r n = Inr s" for s
      using that Cons.prems(2,3) by (auto simp: rbind_eq_Inr_iff intro: scope_reachable.local_name)
    then show ?case using Cons by simp
  qed simp
  moreover have "scope_reachable (snd (pushScope (initCompiler empty_module)))"
    by (intro scope_reachable.start scope_reachable.scope_start)
  ultimately show ?thesis
    using assms unfolding two_deep_def by (auto simp: rbind_eq_Inr_iff intro!: scope_reachable.fn_start)
qed

theorem resolve_lexical_witness:
  "\<exists>st st'. two_deep [''x'', ''y''] = Inr st \<and>
    resolveNonmodule ''x'' st = Inr (Some (Upvalue (Upvalue (LocalVar 0) 1) 2), st') \<and>
    recorded st' (Upvalue (Upvalue (LocalVar 0) 1) 2)"
proof -
  have lex: "(case two_deep [''x'', ''y''] of Inl _ \<Rightarrow> False
      | Inr st \<Rightarrow> lexical ''x'' (compilers st) = Some (Upvalue (Upvalue (LocalVar 0) 1) 2))"
    by code_simp
  then obtain st where st: "two_deep [''x'', ''y''] = Inr st"
    "lexical ''x'' (compilers st) = Some (Upvalue (Upvalue (LocalVar 0) 1) 2)"
    by (cases "two_deep [''x'', ''y'']") auto
  have pl: "plain ''x''" "\<forall>n \<in> set [''x'', ''y'']. plain n"
    by (simp_all add: plain_def UPVALUE_SUFFIX_def suffix_def append_eq_Cons_conv)
  show ?thesis
    using resolve_lexical [OF two_deep_reachable [OF pl(2) st(1)] pl(1)] st by auto
qed

text \<open>
  The name that the compiler gives to an upvalue can be written in a program: after the two functions have used \<open>x\<close>,
  the name \<open>x_UPVALUE\<close> finds the same variable, although one of that name is declared beside it; and when the inner
  function uses the outer one's variable \<open>x_UPVALUE\<close> first, using \<open>x\<close> aborts the compiler.
\<close>

lemma upvalue_name_captured:
  "(case rbind (two_deep [''x'', ''x_UPVALUE'']) (\<lambda>st. rbind (resolveNonmodule ''x'' st) (\<lambda>(_, st).
      rbind (resolveNonmodule ''x_UPVALUE'' st) (\<lambda>(v, st). Inr (v, lexical ''x_UPVALUE'' (compilers st))))) of
    Inl _ \<Rightarrow> False
  | Inr (found, meant) \<Rightarrow> found = Some (Upvalue (Upvalue (LocalVar 0) 1) 2) \<and> meant = Some (Upvalue (Upvalue (LocalVar 1) 1) 2))"
  by code_simp

lemma upvalue_name_aborts:
  "rbind (addLocal ''x'' (snd (pushScope (initCompiler empty_module)))) (\<lambda>(_, st).
    rbind (addLocal ''x_UPVALUE'' (initCompiler st)) (\<lambda>(_, st).
    rbind (resolveNonmodule ''x_UPVALUE'' (initCompiler st)) (\<lambda>(_, st).
    resolveNonmodule ''x'' st))) = Inl Fatal"
  by code_simp

section \<open>What scopes release\<close>

text \<open>
  C39: \<open>break\<close> and \<open>continue\<close> release too much.  In a \<open>while\<close> loop whose enclosing scope has a captured variable, leaving
  the loop from its body releases the variables of that enclosing scope as well, which are in use after the loop, and
  which the end of the scope releases again.
\<close>

theorem loop_exit_releases_enclosing:
  assumes "compilers st = c # cs" "m_frames c = fs @ [f]" "fs \<noteq> []" "upvalueContainer f = Some b" "b < length (begin_vars st)"
    "hasUpvalues st b" "0 \<le> scopeDepth c"
  shows "\<exists>body after final.
    body = snd (pushScope (startLoop start st)) \<and>
    leave_loop body = Inr (Inr (Some [b])) \<and>
    popScope body = Inr (None, after) \<and>
    popScope (endLoop after) = Inr (Some [b], final)"
proof -
  define body where "body = snd (pushScope (startLoop start st))"
  define n where "n = length (begin_vars st)"
  define loop where "loop = \<lparr>loop_start = start, contentFrameId = int (length fs)\<rparr>"
  define c1 where "c1 = c\<lparr>comp_loop := loop # comp_loop c, scopeDepth := scopeDepth c + 1,
    m_frames := fs @ [f, \<lparr>upvalueContainer = Some n, frame_locals = []\<rparr>]\<rparr>"
  have body: "compilers body = c1 # cs" "begin_vars body = begin_vars st @ [[]]" "local_vars body = local_vars st"
    using assms(1,2) by (simp_all add: body_def pushScope_def startLoop_def upd_compiler_def new_begin_def c1_def n_def loop_def
        GetTopFrame_def PushFrame_def)
  have has: "hasUpvalues body b" "\<not> hasUpvalues body n"
    using assms(5,6) body by (simp_all add: hasUpvalues_def nth_append n_def)
  have leave: "leave_loop body = Inr (Inr (Some [b]))"
    using body has assms(4,7)
    by (simp add: leave_loop_def the_compiler_def c1_def loop_def discardLocals_def GetFramesSince_def)
  define after where "after = upd_compiler (\<lambda>c. c\<lparr>scopeDepth := scopeDepth c - 1, m_frames := fs @ [f]\<rparr>) body"
  have pop: "popScope body = Inr (None, after)"
    using body has assms(7)
    by (simp add: popScope_def the_compiler_def c1_def discardLocals_def GetFramesSince_def GetTopFrame_def PopFrame_def
        after_def butlast_append nat_add_distrib)
  have after: "compilers (endLoop after) = c1\<lparr>comp_loop := comp_loop c, scopeDepth := scopeDepth c, m_frames := fs @ [f]\<rparr> # cs"
    "begin_vars (endLoop after) = begin_vars body" "local_vars (endLoop after) = local_vars body"
    using body by (simp_all add: after_def endLoop_def upd_compiler_def c1_def)
  have "hasUpvalues (endLoop after) b" using has(1) after by (simp add: hasUpvalues_def)
  then have "\<exists>final. popScope (endLoop after) = Inr (Some [b], final)"
    using after assms(3,4,7)
    by (simp add: popScope_def the_compiler_def discardLocals_def GetFramesSince_def GetTopFrame_def PopFrame_def)
  then show ?thesis using leave pop body_def by blast
qed

text \<open>A function with a block, in which a variable is captured.\<close>

definition captured_in_block :: "scope_state res" where
  "captured_in_block = rbind (addLocal ''x'' (snd (pushScope (initCompiler (initCompiler empty_module))))) (\<lambda>(_, st).
     rbind (resolveNonmodule ''x'' (initCompiler st)) (\<lambda>(_, st). Inr (endCompiler st)))"

theorem loop_exit_releases_enclosing_witness:
  "\<exists>st body after final. captured_in_block = Inr st \<and> body = snd (pushScope (startLoop 0 st)) \<and>
    leave_loop body = Inr (Inr (Some [2])) \<and> popScope body = Inr (None, after) \<and>
    popScope (endLoop after) = Inr (Some [2], final)"
proof -
  have "(case captured_in_block of Inl _ \<Rightarrow> False | Inr st \<Rightarrow> (case compilers st of
      c # cs \<Rightarrow> (case m_frames c of
          [f1, f2] \<Rightarrow> upvalueContainer f2 = Some 2 \<and> 2 < length (begin_vars st) \<and> hasUpvalues st 2 \<and> 0 \<le> scopeDepth c
        | _ \<Rightarrow> False)
    | _ \<Rightarrow> False))"
    by code_simp
  then obtain st c cs f1 f2 where st: "captured_in_block = Inr st" "compilers st = c # cs" "m_frames c = [f1] @ [f2]"
    "upvalueContainer f2 = Some 2" "2 < length (begin_vars st)" "hasUpvalues st 2" "0 \<le> scopeDepth c"
    by (auto split: sum.splits list.splits)
  from loop_exit_releases_enclosing [OF st(2,3) _ st(4-7), of 0] show ?thesis using st(1) by fastforce
qed

end
