(* ===== verification/Closure_Proofs.thy ===== *)
theory Closure_Proofs
  imports Closures Scopes_Proofs
begin

text \<open>
  As long as every scope releases its storage block once, a block's reference count is the number of its users, and no
  closure can reach a block that has been released for good.
\<close>

section \<open>Counting references\<close>

lemma count_list_update:
  "i < length xs \<Longrightarrow> count_list (xs[i := y]) x + (if xs ! i = x then 1 else 0) = count_list xs x + (if y = x then 1 else 0)"
proof (induction xs arbitrary: i)
  case (Cons z zs)
  show ?case
  proof (cases i)
    case (Suc k)
    then show ?thesis using Cons.IH [of k] Cons.prems by (auto split: if_splits)
  qed simp
qed simp

definition closure_refs :: "obj_fn option \<Rightarrow> nat \<Rightarrow> nat" where
  "closure_refs c s = (case c of None \<Rightarrow> 0 | Some f \<Rightarrow> count_list (upvaluePointers f) (StoragePtr s))"

definition heap_refs :: "closure_heap \<Rightarrow> nat \<Rightarrow> nat" where
  "heap_refs h s = (\<Sum>c \<leftarrow> closures h. closure_refs c s)"

lemma sum_list_update_nat:
  "i < length xs \<Longrightarrow> sum_list (map f (xs[i := y])) + f (xs ! i) = sum_list (map f xs) + (f y :: nat)"
proof (induction xs arbitrary: i)
  case (Cons z zs)
  then show ?case by (cases i) (auto simp: add.assoc add.left_commute)
qed simp

lemma closure_refs_le: "i < length (closures h) \<Longrightarrow> closure_refs (closures h ! i) s \<le> heap_refs h s"
  using sum_list_update_nat [of i "closures h" "\<lambda>c. closure_refs c s" None] by (simp add: heap_refs_def closure_refs_def)

definition count_of :: "closure_heap \<Rightarrow> nat \<Rightarrow> int" where
  "count_of h s = referenceCount (blocks h ! s)"

section \<open>Releasing\<close>

lemma clobber_value: "\<exists>v. encode_object CLOBBER = Inr v"
proof -
  have "(case encode_object CLOBBER of Inl _ \<Rightarrow> False | Inr _ \<Rightarrow> True)" by code_simp
  then show ?thesis by (cases "encode_object CLOBBER") auto
qed

lemma unref_ok:
  assumes "s < length (blocks h)" "1 \<le> count_of h s"
  shows "\<exists>h'. wren_unref_upvalue_storage s h = Inr h' \<and> closures h' = closures h \<and> length (blocks h') = length (blocks h) \<and>
    (\<forall>t < length (blocks h). count_of h' t = count_of h t - (if t = s then 1 else 0))"
proof -
  obtain v where v: "encode_object CLOBBER = Inr v" using clobber_value by blast
  obtain b where b: "Unref (blocks h ! s) = Inr b" "referenceCount b = count_of h s - 1"
    using assms(2) v by (cases "referenceCount (blocks h ! s) = 1") (simp_all add: Unref_def count_of_def Let_def)
  then show ?thesis using assms(1) by (auto simp: wren_unref_upvalue_storage_def count_of_def nth_list_update)
qed

lemma unref_all_ok:
  assumes "\<forall>p \<in> set ps. \<exists>s < length (blocks h). p = StoragePtr s"
    "\<forall>s < length (blocks h). int (count_list ps (StoragePtr s)) \<le> count_of h s"
  shows "\<exists>h'. unref_all ps h = Inr h' \<and> closures h' = closures h \<and> length (blocks h') = length (blocks h) \<and>
    (\<forall>t < length (blocks h). count_of h' t = count_of h t - int (count_list ps (StoragePtr t)))"
  using assms
proof (induction ps arbitrary: h)
  case (Cons p ps)
  then obtain s where s: "p = StoragePtr s" "s < length (blocks h)" by auto
  have "1 \<le> count_of h s" using Cons.prems(2) s by force
  then obtain h1 where h1: "wren_unref_upvalue_storage s h = Inr h1" "closures h1 = closures h"
    "length (blocks h1) = length (blocks h)" "\<forall>t < length (blocks h). count_of h1 t = count_of h t - (if t = s then 1 else 0)"
    using unref_ok [OF s(2)] by blast
  have "\<forall>t < length (blocks h1). int (count_list ps (StoragePtr t)) \<le> count_of h1 t"
    using Cons.prems(2) h1(3,4) s(1) by force
  moreover have "\<forall>p \<in> set ps. \<exists>s < length (blocks h1). p = StoragePtr s" using Cons.prems(1) h1(3) by simp
  ultimately obtain h2 where "unref_all ps h1 = Inr h2" "closures h2 = closures h1" "length (blocks h2) = length (blocks h1)"
    "\<forall>t < length (blocks h1). count_of h2 t = count_of h1 t - int (count_list ps (StoragePtr t))"
    using Cons.IH [of h1] by blast
  then show ?case using h1 s(1) by auto
qed simp

section \<open>The layout of a table\<close>

lemma add_locations_props:
  assumes "distinct (map snd locs)" "snd ` set locs = {n..<n + length locs}"
  shows "distinct (map snd (add_locations st n us locs)) \<and>
    snd ` set (add_locations st n us locs) = {n..<n + length (add_locations st n us locs)} \<and>
    (\<forall>u \<in> set us. \<exists>i. map_of (add_locations st n us locs) (target_begin st u) = Some i) \<and>
    (\<forall>k i. map_of locs k = Some i \<longrightarrow> map_of (add_locations st n us locs) k = Some i)"
  using assms
proof (induction us arbitrary: locs)
  case (Cons u us)
  show ?case
  proof (cases "map_of locs (target_begin st u)")
    case None
    let ?locs = "(target_begin st u, length locs + n) # locs"
    have d: "distinct (map snd ?locs)" "snd ` set ?locs = {n..<n + length ?locs}"
      using Cons.prems by auto
    have "map_of ?locs k = Some i" if "map_of locs k = Some i" for k i using that None by auto
    then show ?thesis using Cons.IH [OF d] None by (auto split: option.splits)
  next
    case (Some i)
    then show ?thesis using Cons.IH [OF Cons.prems] by auto
  qed
qed simp

lemma make_pack_props:
  fixes st f
  defines "d \<equiv> make_pack st f"
  shows "distinct (map snd (storageLocations d))"
    "snd ` set (storageLocations d) = {length (variables d)..<length (variables d) + length (storageLocations d)}"
    "u \<in> set (variables d) \<Longrightarrow> \<exists>i. map_of (storageLocations d) (target_begin st u) = Some i"
proof -
  have "storageLocations d = add_locations st (length (variables d)) (variables d) []"
    by (simp add: d_def make_pack_def Let_def)
  then show "distinct (map snd (storageLocations d))"
    "snd ` set (storageLocations d) = {length (variables d)..<length (variables d) + length (storageLocations d)}"
    "u \<in> set (variables d) \<Longrightarrow> \<exists>i. map_of (storageLocations d) (target_begin st u) = Some i"
    using add_locations_props [of "[]" "length (variables d)" st "variables d"] by simp_all
qed

text \<open>What the table of a closure looks like: the variables' pointers go into the blocks that the table names.\<close>

definition fits :: "scope_state \<Rightarrow> pack_def \<Rightarrow> nat \<Rightarrow> pack_entry list \<Rightarrow> bool" where
  "fits st d n ps \<longleftrightarrow> length ps = length (variables d) + length (storageLocations d) \<and>
     (\<forall>j < length (variables d). \<exists>s i loc. ps ! j = ValuePtr s i \<and>
        map_of (storageLocations d) (target_begin st (variables d ! j)) = Some loc \<and> ps ! loc = StoragePtr s) \<and>
     (\<forall>j. length (variables d) \<le> j \<and> j < length ps \<longrightarrow> (\<exists>s < n. ps ! j = StoragePtr s))"

lemma fill_variables_props:
  assumes "fill_variables st a i us ps = Inr qs" "i + length us \<le> length ps"
  shows "length qs = length ps \<and> (\<forall>j < length us. variable_slot st a (us ! j) = Inr (qs ! (i + j))) \<and>
    (\<forall>k. k < i \<or> i + length us \<le> k \<longrightarrow> qs ! k = ps ! k)"
  using assms
proof (induction us arbitrary: i ps)
  case (Cons u us)
  obtain p where p: "variable_slot st a u = Inr p" "fill_variables st a (Suc i) us (ps[i := p]) = Inr qs"
    using Cons.prems(1) by (auto simp: rbind_eq_Inr_iff)
  have "length qs = length (ps[i := p]) \<and> (\<forall>j < length us. variable_slot st a (us ! j) = Inr (qs ! (Suc i + j))) \<and>
      (\<forall>k. k < Suc i \<or> Suc i + length us \<le> k \<longrightarrow> qs ! k = ps[i := p] ! k)"
    using Cons.IH [OF p(2)] Cons.prems(2) by simp
  then have ih: "length qs = length ps" "\<And>j. j < length us \<Longrightarrow> variable_slot st a (us ! j) = Inr (qs ! (Suc i + j))"
    "\<And>k. k < Suc i \<or> Suc i + length us \<le> k \<Longrightarrow> qs ! k = ps[i := p] ! k"
    by auto
  have "qs ! i = p" using ih(3) [of i] Cons.prems(2) by simp
  then have "variable_slot st a ((u # us) ! j) = Inr (qs ! (i + j))" if "j < length (u # us)" for j
    using that p(1) ih(2) by (cases j) auto
  moreover have "qs ! k = ps ! k" if "k < i \<or> i + length (u # us) \<le> k" for k
    using ih(3) [of k] that by (cases "k = i") auto
  ultimately show ?case using ih(1) by blast
qed simp

lemma fill_storages_props:
  assumes "fill_storages block_fn a locs ps h = Inr (qs, h')" "distinct (map snd locs)"
    "\<forall>(b, i) \<in> set locs. i < length ps \<and> ps ! i = NullPtr"
  shows "length qs = length ps \<and> closures h' = closures h \<and> length (blocks h') = length (blocks h) \<and>
    (\<forall>k. k \<notin> snd ` set locs \<longrightarrow> qs ! k = ps ! k) \<and>
    (\<forall>(b, i) \<in> set locs. \<exists>s < length (blocks h). storage_address block_fn a b = Inr s \<and> qs ! i = StoragePtr s) \<and>
    (\<forall>s < length (blocks h). count_of h' s + int (count_list ps (StoragePtr s)) = count_of h s + int (count_list qs (StoragePtr s)))"
  using assms
proof (induction locs arbitrary: ps h)
  case (Cons l locs)
  obtain b i where l: "l = (b, i)" by (cases l)
  obtain s where s: "storage_address block_fn a b = Inr s" "s < length (blocks h)"
    "fill_storages block_fn a locs (ps[i := StoragePtr s]) (add_ref s h) = Inr (qs, h')"
    using Cons.prems(1) by (auto simp: l rbind_eq_Inr_iff split: if_splits)
  have null: "\<forall>(b, j) \<in> set locs. j < length (ps[i := StoragePtr s]) \<and> ps[i := StoragePtr s] ! j = NullPtr"
    using Cons.prems(2,3) by (auto simp: l nth_list_update image_iff)
  have i: "i < length ps" "ps ! i = NullPtr" using Cons.prems(3) by (auto simp: l)
  have ih: "length qs = length ps \<and> closures h' = closures h \<and> length (blocks h') = length (blocks h) \<and>
    (\<forall>k. k \<notin> snd ` set locs \<longrightarrow> qs ! k = ps[i := StoragePtr s] ! k) \<and>
    (\<forall>(b, i) \<in> set locs. \<exists>s < length (blocks h). storage_address block_fn a b = Inr s \<and> qs ! i = StoragePtr s) \<and>
    (\<forall>t < length (blocks h). count_of h' t + int (count_list (ps[i := StoragePtr s]) (StoragePtr t)) =
      count_of (add_ref s h) t + int (count_list qs (StoragePtr t)))"
    using Cons.IH [OF s(3) _ null] Cons.prems(2) by (simp add: add_ref_def)
  have "qs ! i = StoragePtr s" using ih Cons.prems(2) i(1) by (auto simp: l)
  moreover have "count_of h' t + int (count_list ps (StoragePtr t)) = count_of h t + int (count_list qs (StoragePtr t))"
    if "t < length (blocks h)" for t
    using ih that count_list_update [OF i(1), of "StoragePtr s" "StoragePtr t"] i(2)
    by (auto simp: add_ref_def count_of_def nth_list_update split: if_splits)
  ultimately show ?case using ih s(1,2) by (auto simp: l)
qed simp

section \<open>Runs\<close>

definition spec_fits :: "scope_state \<Rightarrow> closure_spec \<Rightarrow> bool" where
  "spec_fits st spec \<longleftrightarrow> (let d = make_pack st (funcPtr spec) in
     length (upvalueOffsets spec) = length (variables d) \<and> storageBlockCount spec = int (length (storageLocations d)))"

definition closure_fits :: "scope_state \<Rightarrow> closure_heap \<Rightarrow> obj_fn \<Rightarrow> bool" where
  "closure_fits st h f \<longleftrightarrow> spec_fits st (fn_spec f) \<and>
     fits st (make_pack st (funcPtr (fn_spec f))) (length (blocks h)) (upvaluePointers f)"

definition live :: "closure_heap \<Rightarrow> obj_fn \<Rightarrow> bool" where
  "live h f \<longleftrightarrow> Some f \<in> set (closures h)"

text \<open>
  What a function can rely on when it makes a closure: its own table belongs to a closure that is alive, and it is in
  the scopes whose variables it captures directly; \<open>held\<close> are the blocks of the scopes that are open.
\<close>

definition own_pack :: "scope_state \<Rightarrow> closure_heap \<Rightarrow> activation \<Rightarrow> bool" where
  "own_pack st h a \<longleftrightarrow> act_pack a = None \<or> (\<exists>g. live h g \<and> funcPtr (fn_spec g) = act_fn a \<and>
     act_pack a = Some (make_pack st (act_fn a), upvaluePointers g))"

definition captures_ok :: "scope_state \<Rightarrow> (nat \<Rightarrow> nat) \<Rightarrow> activation \<Rightarrow> nat list \<Rightarrow> scope_var \<Rightarrow> bool" where
  "captures_ok st block_fn a held u \<longleftrightarrow> (case target_begin st u of None \<Rightarrow> False | Some b \<Rightarrow> (case u of
       LocalVar l \<Rightarrow> False
     | Upvalue (LocalVar l) f \<Rightarrow> block_fn b = act_fn a \<and> (\<exists>s \<in> set held. packPtr a b = Some s)
     | Upvalue (Upvalue p g) f \<Rightarrow> block_fn b \<noteq> act_fn a))"

text \<open>Every scope takes a block and gives it up once; closures come and go, and variables are written.\<close>

inductive closure_run :: "scope_state \<Rightarrow> (nat \<Rightarrow> nat) \<Rightarrow> closure_heap \<Rightarrow> nat list \<Rightarrow> bool"
  for st :: scope_state and block_fn :: "nat \<Rightarrow> nat" where
  no_blocks: "closure_run st block_fn \<lparr>blocks = [], closures = []\<rparr> []"
| open_scope: "closure_run st block_fn h held \<Longrightarrow> begin_upvalues st b a h = (a', h') \<Longrightarrow>
    closure_run st block_fn h' (length (blocks h) # held)"
| close_scope: "closure_run st block_fn h held \<Longrightarrow> s \<in> set held \<Longrightarrow> wren_unref_upvalue_storage s h = Inr h' \<Longrightarrow>
    closure_run st block_fn h' (remove1 s held)"
| make_closure: "closure_run st block_fn h held \<Longrightarrow>
    wren_register_closure (closure_spec_data (make_pack st f) f name arity) = Inr spec \<Longrightarrow>
    own_pack st h a \<Longrightarrow> \<forall>u \<in> set (variables (make_pack st f)). captures_ok st block_fn a held u \<Longrightarrow>
    visit_closure st block_fn (make_pack st f) spec a h = Inr (i, h') \<Longrightarrow> closure_run st block_fn h' held"
| collect: "closure_run st block_fn h held \<Longrightarrow> destroy_ObjFn i h = Inr h' \<Longrightarrow> closure_run st block_fn h' held"
| write_variable: "closure_run st block_fn h held \<Longrightarrow> write_value p v h = Inr h' \<Longrightarrow> closure_run st block_fn h' held"

definition rt_inv :: "scope_state \<Rightarrow> closure_heap \<Rightarrow> nat list \<Rightarrow> bool" where
  "rt_inv st h held \<longleftrightarrow> (\<forall>s < length (blocks h). count_of h s = int (count_list held s + heap_refs h s)) \<and>
     set held \<subseteq> {..<length (blocks h)} \<and> (\<forall>f. live h f \<longrightarrow> closure_fits st h f)"

lemma rt_invI:
  assumes "\<And>s. s < length (blocks h) \<Longrightarrow> count_of h s = int (count_list held s) + int (heap_refs h s)"
    "set held \<subseteq> {..<length (blocks h)}" "\<And>f. live h f \<Longrightarrow> closure_fits st h f"
  shows "rt_inv st h held"
  using assms by (simp add: rt_inv_def)

lemma rt_invD:
  assumes "rt_inv st h held"
  shows "\<And>s. s < length (blocks h) \<Longrightarrow> count_of h s = int (count_list held s) + int (heap_refs h s)"
    "set held \<subseteq> {..<length (blocks h)}" "\<And>f. live h f \<Longrightarrow> closure_fits st h f"
  using assms by (simp_all add: rt_inv_def)

lemma spec_of_data:
  assumes "wren_register_closure (closure_spec_data (make_pack st f) f name arity) = Inr spec"
  shows "spec_fits st spec" "funcPtr spec = f"
proof -
  have "read_offsets (length us) (map (\<lambda>_. 0) us) = Inr (map (\<lambda>_. 0) us)" for us :: "scope_var list"
    by (induction us) simp_all
  then show "spec_fits st spec" "funcPtr spec = f"
    using assms by (auto simp: wren_register_closure_def closure_spec_data_def spec_fits_def Let_def)
qed

text \<open>The tail of a table holds the blocks, and the head none.\<close>

lemma fits_tail:
  assumes "closure_fits st h f"
  defines "ps \<equiv> drop (length (upvalueOffsets (fn_spec f))) (upvaluePointers f)"
  shows "take (nat (storageBlockCount (fn_spec f))) ps = ps" "\<forall>p \<in> set ps. \<exists>s < length (blocks h). p = StoragePtr s"
    "count_list ps (StoragePtr s) = closure_refs (Some f) s"
proof -
  let ?d = "make_pack st (funcPtr (fn_spec f))" and ?n = "length (upvalueOffsets (fn_spec f))"
  have n: "?n = length (variables ?d)" "storageBlockCount (fn_spec f) = int (length (storageLocations ?d))"
    using assms(1) by (simp_all add: closure_fits_def spec_fits_def Let_def)
  have f: "fits st ?d (length (blocks h)) (upvaluePointers f)" using assms(1) by (simp add: closure_fits_def)
  then have len: "length (upvaluePointers f) = length (variables ?d) + length (storageLocations ?d)" by (simp add: fits_def)
  then show "take (nat (storageBlockCount (fn_spec f))) ps = ps" using n by (simp add: ps_def)
  show "\<forall>p \<in> set ps. \<exists>s < length (blocks h). p = StoragePtr s"
    using f n(1) by (auto simp: ps_def fits_def in_set_conv_nth)
  have "StoragePtr s \<notin> set (take ?n (upvaluePointers f))"
  proof
    assume "StoragePtr s \<in> set (take ?n (upvaluePointers f))"
    then obtain j where "j < length (variables ?d)" "upvaluePointers f ! j = StoragePtr s"
      using n(1) by (auto simp: in_set_conv_nth)
    then show False using f by (fastforce simp: fits_def)
  qed
  then have "count_list (take ?n (upvaluePointers f)) (StoragePtr s) = 0" by (simp add: count_list_0_iff)
  moreover have "count_list (upvaluePointers f) (StoragePtr s) =
      count_list (take ?n (upvaluePointers f)) (StoragePtr s) + count_list ps (StoragePtr s)"
    unfolding ps_def by (metis append_take_drop_id count_list_append)
  ultimately show "count_list ps (StoragePtr s) = closure_refs (Some f) s" by (simp add: closure_refs_def)
qed

lemma live_index: "live h f \<Longrightarrow> \<exists>i < length (closures h). closures h ! i = Some f"
  by (auto simp: live_def in_set_conv_nth)

lemma live_refs: "live h f \<Longrightarrow> closure_refs (Some f) s \<le> heap_refs h s"
  using live_index closure_refs_le by metis

lemma destroy_ok:
  assumes "rt_inv st h held" "i < length (closures h)" "closures h ! i = Some f"
  shows "\<exists>h'. destroy_ObjFn i h = Inr h' \<and> closures h' = (closures h)[i := None] \<and> length (blocks h') = length (blocks h) \<and>
    (\<forall>t < length (blocks h). count_of h' t = count_of h t - int (closure_refs (Some f) t))"
proof -
  have lv: "live h f" using assms(2,3) by (auto simp: live_def in_set_conv_nth)
  then have "closure_fits st h f" using assms(1) by (simp add: rt_inv_def)
  note t = fits_tail [OF this]
  let ?ps = "drop (length (upvalueOffsets (fn_spec f))) (upvaluePointers f)"
  have "\<forall>s < length (blocks h). int (count_list ?ps (StoragePtr s)) \<le> count_of h s"
  proof (intro allI impI)
    fix s assume "s < length (blocks h)"
    then have "count_of h s = int (count_list held s) + int (heap_refs h s)" using assms(1) by (simp add: rt_inv_def)
    moreover have "closure_refs (Some f) s \<le> heap_refs h s" using live_refs [OF lv] .
    ultimately show "int (count_list ?ps (StoragePtr s)) \<le> count_of h s" unfolding t(3) by linarith
  qed
  from unref_all_ok [OF t(2) this] obtain h1 where h1: "unref_all ?ps h = Inr h1" "closures h1 = closures h"
    "length (blocks h1) = length (blocks h)"
    "\<forall>s < length (blocks h). count_of h1 s = count_of h s - int (count_list ?ps (StoragePtr s))"
    by blast
  then show ?thesis
    using assms(2,3) t(1,3) by (simp add: destroy_ObjFn_def the_closure_def count_of_def)
qed

section \<open>Making a closure\<close>

lemma variable_slot_fits:
  assumes "captures_ok st block_fn a held u" "own_pack st h a" "\<forall>g. live h g \<longrightarrow> closure_fits st h g"
    "variable_slot st a u = Inr p" "storage_address block_fn a (target_begin st u) = Inr s"
  shows "\<exists>i. p = ValuePtr s i"
proof -
  obtain b where b: "target_begin st u = Some b" using assms(1) by (auto simp: captures_ok_def split: option.splits)
  show ?thesis
  proof (cases u)
    case (LocalVar l)
    then show ?thesis using assms(4) by (simp add: variable_slot_def)
  next
    case (Upvalue v f)
    show ?thesis
    proof (cases v)
      case (LocalVar l)
      then have "block_fn b = act_fn a" using assms(1) b Upvalue by (simp add: captures_ok_def)
      then show ?thesis
        using assms(4,5) b Upvalue LocalVar
        by (auto simp: variable_slot_def storage_address_def GetLocalPointer_def target_begin_def split: option.splits)
    next
      case (Upvalue q g)
      then have other: "block_fn b \<noteq> act_fn a" using assms(1) b \<open>u = Upvalue v f\<close> by (simp add: captures_ok_def)
      obtain pd ps where pd: "act_pack a = Some (pd, ps)"
        using assms(4) Upvalue \<open>u = Upvalue v f\<close>
        by (auto simp: variable_slot_def GetUpvaluePointer_def split: if_splits option.splits)
      then obtain c where c: "live h c" "pd = make_pack st (funcPtr (fn_spec c))" "ps = upvaluePointers c"
        using assms(2) by (auto simp: own_pack_def)
      then have fits: "fits st pd (length (blocks h)) ps" using assms(3) by (simp add: closure_fits_def)
      obtain k where k: "find_index (\<lambda>x. x = v) (variables pd) = Some k" "p = ps ! k"
        using assms(4) Upvalue \<open>u = Upvalue v f\<close> pd
        by (auto simp: variable_slot_def GetUpvaluePointer_def pack_at_def split: if_splits option.splits)
      then have kv: "k < length (variables pd)" "variables pd ! k = v" by (simp_all add: find_index_Some_iff)
      then obtain s' i loc where e: "ps ! k = ValuePtr s' i" "map_of (storageLocations pd) (target_begin st v) = Some loc"
        "ps ! loc = StoragePtr s'"
        using fits unfolding fits_def by blast
      have "target_begin st v = Some b" using b \<open>u = Upvalue v f\<close> by (simp add: target_begin_def)
      then have "s = s'" using assms(5) b other pd e by (auto simp: storage_address_def pack_at_def rbind_eq_Inr_iff split: if_splits)
      then show ?thesis using e(1) k(2) by simp
    qed
  qed
qed

lemma visit_closure_props:
  assumes "rt_inv st h held" "spec_fits st spec" "own_pack st h a"
    "\<forall>u \<in> set (variables (make_pack st (funcPtr spec))). captures_ok st block_fn a held u"
    "visit_closure st block_fn (make_pack st (funcPtr spec)) spec a h = Inr (i, h')"
  shows "\<exists>f. closures h' = closures h @ [Some f] \<and> length (blocks h') = length (blocks h) \<and> closure_fits st h f \<and>
    (\<forall>t < length (blocks h). count_of h' t = count_of h t + int (closure_refs (Some f) t))"
proof -
  let ?d = "make_pack st (funcPtr spec)"
  let ?n = "length (variables ?d)" and ?m = "length (storageLocations ?d)"
  let ?ps = "replicate ?n NullPtr @ replicate ?m NullPtr"
  let ?f = "\<lparr>fn_spec = spec, upvalueFixupList = None, upvaluePointers = ?ps\<rparr>"
  let ?h1 = "h\<lparr>closures := closures h @ [Some ?f]\<rparr>"
  have spec: "length (upvalueOffsets spec) = ?n" "storageBlockCount spec = int ?m"
    using assms(2) by (simp_all add: spec_fits_def Let_def)
  then have create: "wren_create_closure (Some spec) None None None h = Inr (length (closures h), None, ?h1)"
    by (simp add: wren_create_closure_def make_ObjFn_def Let_def)
  show ?thesis
  proof (cases "variables ?d = []")
    case True
    then have "storageLocations ?d = []" by (simp add: make_pack_def Let_def)
    then have "fits st ?d n ?ps" for n using True by (simp add: fits_def)
    then have "closure_fits st h ?f" using assms(2) by (simp add: closure_fits_def)
    moreover have "h' = ?h1" using assms(5) create True by (simp add: visit_closure_def)
    ultimately show ?thesis
      using True \<open>storageLocations ?d = []\<close> by (auto simp: count_of_def closure_refs_def)
  next
    case False
    have pack: "wren_get_closure_upvalue_pack (length (closures h)) ?h1 = Inr ?ps"
      by (simp add: wren_get_closure_upvalue_pack_def the_closure_def)
    obtain qs rs h2 f where r: "fill_variables st a 0 (variables ?d) ?ps = Inr qs"
      "fill_storages block_fn a (storageLocations ?d) qs ?h1 = Inr (rs, h2)" "the_closure (length (closures h)) h2 = Inr f"
      "h' = h2\<lparr>closures := (closures h2)[length (closures h) := Some (f\<lparr>upvaluePointers := rs\<rparr>)]\<rparr>"
      using assms(5) create pack False by (auto simp: visit_closure_def rbind_eq_Inr_iff)
    have q: "length qs = ?n + ?m" "\<And>j. j < ?n \<Longrightarrow> variable_slot st a (variables ?d ! j) = Inr (qs ! j)"
      "\<And>k. ?n \<le> k \<Longrightarrow> qs ! k = ?ps ! k"
      using fill_variables_props [OF r(1)] by simp_all
    note locs = make_pack_props [where st = st and f = "funcPtr spec"]
    have in_locs: "k \<in> snd ` set (storageLocations ?d) \<longleftrightarrow> ?n \<le> k \<and> k < ?n + ?m" for k using locs(2) by auto
    have null: "\<forall>(b, k) \<in> set (storageLocations ?d). k < length qs \<and> qs ! k = NullPtr"
    proof (intro ballI, clarify)
      fix b k assume "(b, k) \<in> set (storageLocations ?d)"
      then have k: "?n \<le> k" "k - ?n < ?m" "k < ?n + ?m" using in_locs [of k] by force+
      then show "k < length qs \<and> qs ! k = NullPtr" using q(1) q(3) [OF k(1)] by (simp add: nth_append)
    qed
    have s: "length rs = length qs" "closures h2 = closures ?h1" "length (blocks h2) = length (blocks h)"
      "\<And>k. k \<notin> snd ` set (storageLocations ?d) \<Longrightarrow> rs ! k = qs ! k"
      "\<And>b k. (b, k) \<in> set (storageLocations ?d) \<Longrightarrow>
        \<exists>s < length (blocks h). storage_address block_fn a b = Inr s \<and> rs ! k = StoragePtr s"
      "\<And>t. t < length (blocks h) \<Longrightarrow>
        count_of h2 t + int (count_list qs (StoragePtr t)) = count_of h t + int (count_list rs (StoragePtr t))"
      using fill_storages_props [OF r(2) locs(1) null] by (auto simp: count_of_def)
    have var: "\<exists>s i loc. rs ! j = ValuePtr s i \<and> map_of (storageLocations ?d) (target_begin st (variables ?d ! j)) = Some loc \<and>
        rs ! loc = StoragePtr s" if j: "j < ?n" for j
    proof -
      let ?u = "variables ?d ! j"
      have u: "?u \<in> set (variables ?d)" using j by simp
      then obtain loc where loc: "map_of (storageLocations ?d) (target_begin st ?u) = Some loc" using locs(3) by blast
      obtain s' where s': "storage_address block_fn a (target_begin st ?u) = Inr s'" "rs ! loc = StoragePtr s'"
        using s(5) [OF map_of_SomeD [OF loc]] by blast
      have "rs ! j = qs ! j" using s(4) in_locs j by auto
      moreover have "\<exists>i. qs ! j = ValuePtr s' i"
        using variable_slot_fits [OF _ assms(3) _ q(2) [OF j] s'(1)] assms(1,4) u by (auto simp: rt_inv_def)
      ultimately show ?thesis using loc s'(2) by auto
    qed
    have "fits st ?d (length (blocks h)) rs"
      unfolding fits_def
    proof (intro conjI allI impI)
      show "length rs = ?n + ?m" using s(1) q(1) by simp
      fix j assume "?n \<le> j \<and> j < length rs"
      then have "j \<in> snd ` set (storageLocations ?d)" using in_locs s(1) q(1) by simp
      then show "\<exists>s < length (blocks h). rs ! j = StoragePtr s" using s(5) by force
    qed (use var in blast)
    then have "closure_fits st h (?f\<lparr>upvaluePointers := rs\<rparr>)" using assms(2) by (simp add: closure_fits_def)
    moreover have "h' = h2\<lparr>closures := closures h @ [Some (?f\<lparr>upvaluePointers := rs\<rparr>)]\<rparr>"
      using r(3,4) s(2) by (simp add: the_closure_def)
    moreover have "StoragePtr t \<notin> set qs" for t
    proof
      assume "StoragePtr t \<in> set qs"
      then obtain j where j: "j < ?n + ?m" "qs ! j = StoragePtr t" using q(1) by (auto simp: in_set_conv_nth)
      show False
      proof (cases "j < ?n")
        case True
        then show False using var [OF True] s(4) [of j] in_locs j(2) by auto
      next
        case False
        then show False using q(3) [of j] j by (simp add: nth_append)
      qed
    qed
    then have "count_list qs (StoragePtr t) = 0" for t by (simp add: count_list_0_iff)
    ultimately show ?thesis using s(3,6) by (auto simp: count_of_def closure_refs_def)
  qed
qed

section \<open>The invariant\<close>

lemma fits_mono: "fits st d n ps \<Longrightarrow> n \<le> m \<Longrightarrow> fits st d m ps"
  unfolding fits_def by (meson order_less_le_trans)

lemma closure_fits_length: "length (blocks h') = length (blocks h) \<Longrightarrow> closure_fits st h' f = closure_fits st h f"
  by (simp add: closure_fits_def)

lemma heap_refs_same: "closures h' = closures h \<Longrightarrow> heap_refs h' s = heap_refs h s"
  by (simp add: heap_refs_def)

lemma count_list_remove1: "x \<in> set xs \<Longrightarrow> int (count_list (remove1 x xs) y) = int (count_list xs y) - (if y = x then 1 else 0)"
proof (induction xs)
  case (Cons z zs)
  have "x \<in> set zs \<Longrightarrow> 0 < count_list zs x" by (metis count_list_0_iff gr0I)
  then show ?case using Cons by auto
qed simp

lemma runtime_invariant: "closure_run st block_fn h held \<Longrightarrow> rt_inv st h held"
proof (induction rule: closure_run.induct)
  case no_blocks
  then show ?case by (simp add: rt_inv_def live_def)
next
  case (open_scope h held b a a' h')
  let ?n = "length (blocks h)"
  obtain vs where h': "h' = h\<lparr>blocks := blocks h @ [\<lparr>referenceCount = 1, storage = vs\<rparr>]\<rparr>"
    using open_scope(2) by (auto simp: begin_upvalues_def wren_alloc_upvalue_storage_def)
  have old: "StoragePtr ?n \<notin> set (upvaluePointers f)" if "live h f" for f
  proof
    have "fits st (make_pack st (funcPtr (fn_spec f))) ?n (upvaluePointers f)"
      using open_scope.IH that by (simp add: rt_inv_def closure_fits_def)
    moreover assume "StoragePtr ?n \<in> set (upvaluePointers f)"
    then obtain j where "j < length (upvaluePointers f)" "upvaluePointers f ! j = StoragePtr ?n"
      by (auto simp: in_set_conv_nth)
    ultimately show False unfolding fits_def by (metis leI less_irrefl pack_entry.distinct(5) pack_entry.inject(2))
  qed
  have "heap_refs h ?n = 0"
    unfolding heap_refs_def using old
    by (auto simp: closure_refs_def live_def count_list_0_iff split: option.split)
  moreover have "count_list held ?n = 0"
    using open_scope.IH by (auto simp: rt_inv_def count_list_0_iff)
  moreover have "closure_fits st h' f" if "live h' f" for f
    using that open_scope.IH fits_mono [of st _ ?n _ "Suc ?n"]
    by (auto simp: h' rt_inv_def closure_fits_def live_def)
  moreover note inv = rt_invD [OF open_scope.IH]
  moreover have "heap_refs h' s = heap_refs h s" for s by (simp add: h' heap_refs_def)
  ultimately show ?case
    by (intro rt_invI) (auto simp: h' count_of_def nth_append less_Suc_eq)
next
  case (close_scope h held s h')
  then have s: "s < length (blocks h)" by (auto simp: rt_inv_def)
  have "1 \<le> count_list held s" using close_scope(2) by (metis count_list_0_iff gr0I less_one linorder_not_le)
  then have "1 \<le> count_of h s" using close_scope.IH s by (auto simp: rt_inv_def)
  from unref_ok [OF s this] have h': "closures h' = closures h" "length (blocks h') = length (blocks h)"
    "\<forall>t < length (blocks h). count_of h' t = count_of h t - (if t = s then 1 else 0)"
    using close_scope(3) by auto
  note inv = rt_invD [OF close_scope.IH]
  show ?case
  proof (rule rt_invI)
    show "count_of h' t = int (count_list (remove1 s held) t) + int (heap_refs h' t)" if "t < length (blocks h')" for t
      using that h'(2,3) inv(1) [of t] count_list_remove1 [OF close_scope(2), of t] by (simp add: heap_refs_same [OF h'(1)])
    show "set (remove1 s held) \<subseteq> {..<length (blocks h')}" using inv(2) set_remove1_subset [of s held] unfolding h'(2) by (rule order_trans [rotated])
    show "closure_fits st h' f" if "live h' f" for f
      using that inv(3) [of f] h'(1) by (simp add: live_def closure_fits_length [OF h'(2)])
  qed
next
  case (make_closure h held f name arity spec a i h')
  note spec = spec_of_data [OF make_closure(2)]
  obtain g where g: "closures h' = closures h @ [Some g]" "length (blocks h') = length (blocks h)" "closure_fits st h g"
    "\<forall>t < length (blocks h). count_of h' t = count_of h t + int (closure_refs (Some g) t)"
    using visit_closure_props [OF make_closure.IH spec(1) make_closure(3), of block_fn i h'] make_closure(4,5) spec(2)
    by blast
  have "live h' f \<longleftrightarrow> live h f \<or> f = g" for f using g(1) by (auto simp: live_def)
  moreover have "heap_refs h' t = heap_refs h t + closure_refs (Some g) t" for t using g(1) by (simp add: heap_refs_def)
  moreover note inv = rt_invD [OF make_closure.IH]
  ultimately show ?case
    using g(2-4) by (intro rt_invI) (auto simp: closure_fits_length [OF g(2)])
next
  case (collect h held i h')
  then obtain f where f: "i < length (closures h)" "closures h ! i = Some f"
    by (auto simp: destroy_ObjFn_def the_closure_def rbind_eq_Inr_iff split: if_splits option.splits)
  from destroy_ok [OF collect.IH this] have h': "closures h' = (closures h)[i := None]" "length (blocks h') = length (blocks h)"
    "\<forall>t < length (blocks h). count_of h' t = count_of h t - int (closure_refs (Some f) t)"
    using collect(2) by auto
  have "heap_refs h' t + closure_refs (Some f) t = heap_refs h t" for t
    using sum_list_update_nat [OF f(1), of "\<lambda>c. closure_refs c t" None] f(2) h'(1) by (simp add: heap_refs_def closure_refs_def)
  then have "int (heap_refs h' t) = int (heap_refs h t) - int (closure_refs (Some f) t)" for t
    by (metis add_diff_cancel_right' of_nat_add)
  moreover have "live h' g \<Longrightarrow> live h g" for g
    using h'(1) set_update_subset_insert [of "closures h" i None] by (auto simp: live_def)
  moreover note inv = rt_invD [OF collect.IH]
  ultimately show ?case
    using h'(2,3) by (intro rt_invI) (simp_all add: closure_fits_length [OF h'(2)])
next
  case (write_variable h held p v h')
  then have h': "closures h' = closures h" "length (blocks h') = length (blocks h)"
    "\<forall>t < length (blocks h). count_of h' t = count_of h t"
    by (auto simp: write_value_def count_of_def nth_list_update split: pack_entry.splits if_splits)
  note inv = rt_invD [OF write_variable.IH]
  have "live h' f = live h f" for f using h'(1) by (simp add: live_def)
  then show ?case
    using inv h'(2,3) heap_refs_same [OF h'(1)]
    by (intro rt_invI) (simp_all add: closure_fits_length [OF h'(2)])
qed

text \<open>
  C40: Reference counting of captured variables is right in every run of the steps of \<open>closure_run\<close>, in which every
  scope takes its block once and releases it once, and in which a function makes a closure only while the closure
  that it runs for is alive (\<open>own_pack\<close>, which the compiled code leaves to its caller: the running closure is not a
  root of the collector) and inside the scopes from which the new closure captures (\<open>captures_ok\<close>).  Then the
  count of a block is the number of open scopes and live closures that use it, so every variable in the table
  of a live closure is in a block that has not been released for good, and neither the end of a scope nor the
  destructor of a closure fails.
\<close>

theorem closure_storage_safe:
  assumes "closure_run st block_fn h held"
  shows "(\<forall>s < length (blocks h). count_of h s = int (count_list held s + heap_refs h s)) \<and>
    (\<forall>f j. live h f \<and> j < length (upvalueOffsets (fn_spec f)) \<longrightarrow>
      (\<exists>s i. upvaluePointers f ! j = ValuePtr s i \<and> s < length (blocks h) \<and> 0 < count_of h s)) \<and>
    (\<forall>s \<in> set held. \<exists>h'. wren_unref_upvalue_storage s h = Inr h') \<and>
    (\<forall>i f. i < length (closures h) \<and> closures h ! i = Some f \<longrightarrow> (\<exists>h'. destroy_ObjFn i h = Inr h'))"
proof (intro conjI allI ballI impI)
  have inv: "rt_inv st h held" using assms by (rule runtime_invariant)
  note i = rt_invD [OF inv]
  show "count_of h s = int (count_list held s + heap_refs h s)" if "s < length (blocks h)" for s
    using i(1) [OF that] by simp
  show "\<exists>s i. upvaluePointers f ! j = ValuePtr s i \<and> s < length (blocks h) \<and> 0 < count_of h s"
    if f: "live h f \<and> j < length (upvalueOffsets (fn_spec f))" for f j
  proof -
    have fit: "closure_fits st h f" using i(3) f by blast
    let ?d = "make_pack st (funcPtr (fn_spec f))"
    have j: "j < length (variables ?d)" "fits st ?d (length (blocks h)) (upvaluePointers f)"
      using fit f by (simp_all add: closure_fits_def spec_fits_def Let_def)
    obtain s k loc where e: "upvaluePointers f ! j = ValuePtr s k"
      "map_of (storageLocations ?d) (target_begin st (variables ?d ! j)) = Some loc" "upvaluePointers f ! loc = StoragePtr s"
      using j unfolding fits_def by blast
    have "(target_begin st (variables ?d ! j), loc) \<in> set (storageLocations ?d)" using e(2) by (rule map_of_SomeD)
    then have "loc \<in> snd ` set (storageLocations ?d)" by force
    then have loc: "length (variables ?d) \<le> loc" "loc < length (upvaluePointers f)"
      using make_pack_props(2) [where st = st and f = "funcPtr (fn_spec f)"] j(2) by (auto simp: fits_def)
    then have "\<exists>t < length (blocks h). upvaluePointers f ! loc = StoragePtr t" using j(2) unfolding fits_def by blast
    then have s: "s < length (blocks h)" using e(3) by simp
    have "StoragePtr s \<in> set (upvaluePointers f)" using loc(2) e(3) nth_mem by fastforce
    then have "0 < closure_refs (Some f) s" unfolding closure_refs_def option.case by (metis count_list_0_iff gr0I)
    then have "0 < heap_refs h s" using live_refs [of h f s] f by simp
    then show ?thesis using e(1) s i(1) [OF s] by simp
  qed
  show "\<exists>h'. wren_unref_upvalue_storage s h = Inr h'" if "s \<in> set held" for s
  proof -
    have s: "s < length (blocks h)" using i(2) that by auto
    have "1 \<le> count_list held s" using that by (metis count_list_0_iff gr0I less_one linorder_not_le)
    then show ?thesis using unref_ok [OF s] i(1) [OF s] by auto
  qed
  show "\<exists>h'. destroy_ObjFn k h = Inr h'" if "k < length (closures h) \<and> closures h ! k = Some f" for k f
    using destroy_ok [OF inv] that by blast
qed

text \<open>
  The function of \<open>captured_in_block\<close> when it runs: its block, and the closure that captures \<open>x\<close>; then what the
  statements release that \<open>loop_exit_releases_enclosing\<close> finds for a \<open>while\<close> loop.
\<close>

definition outer_activation :: activation where
  "outer_activation = \<lparr>act_fn = 1, packPtr = Map.empty, act_pack = None\<rparr>"

definition scope_fn :: "nat \<Rightarrow> nat" where "scope_fn b = (if b = 2 then 1 else b)"

definition run_block :: "scope_state \<Rightarrow> (activation \<times> nat \<times> closure_heap) res" where
  "run_block st = (let (a, h) = begin_upvalues st 2 outer_activation \<lparr>blocks = [], closures = []\<rparr> in
     rbind (wren_register_closure (closure_spec_data (make_pack st 2) 2 ''f'' 0)) (\<lambda>spec.
     rbind (visit_closure st scope_fn (make_pack st 2) spec a h) (\<lambda>(i, h). Inr (a, i, h))))"

theorem closure_storage_safe_witness:
  "\<exists>st a i h f s k. captured_in_block = Inr st \<and> run_block st = Inr (a, i, h) \<and> live h f \<and>
    upvaluePointers f ! 0 = ValuePtr s k \<and> 0 < count_of h s"
proof -
  have "(case captured_in_block of Inl _ \<Rightarrow> False | Inr st \<Rightarrow> (case run_block st of Inl _ \<Rightarrow> False | Inr (a, i, h) \<Rightarrow>
      act_pack a = None \<and> (\<forall>u \<in> set (variables (make_pack st 2)). captures_ok st scope_fn a [0] u) \<and>
      length (closures h) = 1 \<and> (case hd (closures h) of None \<Rightarrow> False | Some f \<Rightarrow> upvalueOffsets (fn_spec f) \<noteq> [])))"
    by code_simp
  then obtain st a i h f where st: "captured_in_block = Inr st" "run_block st = Inr (a, i, h)" "act_pack a = None"
    "\<forall>u \<in> set (variables (make_pack st 2)). captures_ok st scope_fn a [0] u" "closures h = [Some f]"
    "upvalueOffsets (fn_spec f) \<noteq> []"
    by (auto simp: length_Suc_conv split: sum.splits option.splits)
  let ?h0 = "\<lparr>blocks = [], closures = []\<rparr> :: closure_heap"
  obtain h1 spec where r: "begin_upvalues st 2 outer_activation ?h0 = (a, h1)"
    "wren_register_closure (closure_spec_data (make_pack st 2) 2 ''f'' 0) = Inr spec"
    "visit_closure st scope_fn (make_pack st 2) spec a h1 = Inr (i, h)"
    using st(2) by (auto simp: run_block_def rbind_eq_Inr_iff split: prod.splits)
  have "closure_run st scope_fn h1 [0]"
    using closure_run.open_scope [OF closure_run.no_blocks r(1), of scope_fn] by simp
  moreover have "own_pack st h1 a" using st(3) by (simp add: own_pack_def)
  ultimately have "closure_run st scope_fn h [0]"
    using closure_run.make_closure r(2,3) st(4) by blast
  from closure_storage_safe [OF this] have "\<exists>s k. upvaluePointers f ! 0 = ValuePtr s k \<and> 0 < count_of h s"
    using st(5,6) by (auto simp: live_def)
  then show ?thesis using st(1,2,5) by (auto simp: live_def)
qed

text \<open>
  After \<open>x\<close> is set to 1 the closure reads 1.  The loop's exit releases the block once, the end of the scope once more;
  then the closure, which is alive, reads the pattern that marks released memory, and destroying it fails.
\<close>

lemma early_release_clobbers:
  "(case rbind captured_in_block (\<lambda>st. rbind (run_block st) (\<lambda>(a, i, h).
      rbind (write_value (ValuePtr 0 0) 1 h) (\<lambda>h. rbind (the_closure i h) (\<lambda>f.
      rbind (read_value h (upvaluePointers f ! 0)) (\<lambda>before.
      rbind (relocate_upvalues [2] a h) (\<lambda>h. rbind (relocate_upvalues [2] a h) (\<lambda>h.
      rbind (read_value h (upvaluePointers f ! 0)) (\<lambda>after.
      Inr (before, encode_object CLOBBER = Inr after, destroy_ObjFn i h)))))))))
    of Inl _ \<Rightarrow> False | Inr (before, clobbered, destroyed) \<Rightarrow> before = 1 \<and> clobbered \<and> destroyed = Inl Fatal)"
  by code_simp

end
