(* ===== verification/Lexer_Progress.thy ===== *)
theory Lexer_Progress
  imports Lexer
begin

text \<open>
  Every token but the last takes something of the source, whatever the source is: what the lexer has left gets less
  with every token until the end has been read.  The parser's loops and recursion end because of this.
\<close>

section \<open>Reading characters\<close>

lemma skip_hex_left: "skip_hex st = Inr st' \<Longrightarrow> left st' \<le> left st"
proof (induction st rule: skip_hex.induct)
  case (1 st)
  obtain d st1 where d: "readHexDigit st = Inr (d, st1)"
    using 1(2) by (subst (asm) skip_hex.simps) (auto simp: rbind_eq_Inr_iff)
  show ?case
  proof (cases d)
    case None
    then show ?thesis using 1(2) d readHexDigit_None_left by (subst (asm) skip_hex.simps) auto
  next
    case (Some k)
    then have "skip_hex st1 = Inr st'" using 1(2) d by (subst (asm) skip_hex.simps) auto
    then show ?thesis using 1(1) [OF d refl] readHexDigit_left [of st k st1] d Some by simp
  qed
qed

lemma stepBack_left: "Suc (left st1) = left st \<Longrightarrow> left (stepBack (lexError st1)) \<le> left st"
  using left_stepBack [of "lexError st1"] by simp

lemma string_loop_step:
  assumes "string_loop lib str st = Inr (ty, s, st')"
  shows "left st' \<le> left st \<or> (\<exists>str1 st1. left st1 < left st \<and> string_loop lib str1 st1 = Inr (ty, s, st'))"
  using assms
  by (subst (asm) string_loop.simps)
    (auto simp: rbind_eq_Inr_iff Let_def split: if_splits
      intro: stepBack_left dest!: nextChar_left readEscape_left)

lemma string_loop_left: "string_loop lib str st = Inr (ty, s, st') \<Longrightarrow> left st' \<le> left st"
proof (induction "left st" arbitrary: str st rule: less_induct)
  case less
  from string_loop_step [OF less.prems] show ?case
    using less.hyps by (fastforce intro: less_imp_le le_trans)
qed

lemma raw_loop_step:
  assumes "raw_loop str r st = Inr (s, r', st')"
  shows "left st' \<le> left st \<or> (\<exists>str1 r1 st1. left st1 < left st \<and> raw_loop str1 r1 st1 = Inr (s, r', st'))"
  using assms
  by (subst (asm) raw_loop.simps)
    (auto simp: rbind_eq_Inr_iff Let_def split: if_splits intro: stepBack_left dest!: nextChar_left)

lemma raw_loop_left: "raw_loop str r st = Inr (s, r', st') \<Longrightarrow> left st' \<le> left st"
proof (induction "left st" arbitrary: str r st rule: less_induct)
  case less
  from raw_loop_step [OF less.prems] show ?case
    using less.hyps by (fastforce intro: less_imp_le le_trans)
qed

lemma makeNumber_left [simp]: "left (makeNumber lib h st) = left st"
  by (simp add: makeNumber_def Let_def split: prod.split)

lemma twoCharToken_left: "twoCharToken c two one st = Inr st' \<Longrightarrow> left st' \<le> left st"
  by (auto simp: twoCharToken_def rbind_eq_Inr_iff dest: matchChar_left)

lemma readName_left: "readName ty st = Inr st' \<Longrightarrow> left st' \<le> left st"
  by (auto simp: readName_def rbind_eq_Inr_iff Let_def dest: skip_while_left)

lemma readHexNumber_left: "readHexNumber lib st = Inr st' \<Longrightarrow> left st' \<le> left st"
  by (auto simp: readHexNumber_def rbind_eq_Inr_iff dest!: skip_hex_left nextChar_left)

lemma readFraction_left: "readFraction st = Inr st' \<Longrightarrow> left st' \<le> left st"
  by (auto simp: readFraction_def rbind_eq_Inr_iff split: if_splits dest!: skip_while_left nextChar_left)

lemma readExponent_left: "readExponent st = Inr st' \<Longrightarrow> left st' \<le> left st"
  by (auto simp: readExponent_def rbind_eq_Inr_iff split: if_splits dest!: skip_while_left matchChar_left)

lemma readNumber_left: "readNumber lib st = Inr st' \<Longrightarrow> left st' \<le> left st"
  by (auto simp: readNumber_def rbind_eq_Inr_iff dest!: skip_while_left readFraction_left readExponent_left)

lemma readString_left: "readString lib st = Inr st' \<Longrightarrow> left st' \<le> left st"
  by (auto simp: readString_def rbind_eq_Inr_iff dest!: string_loop_left)

lemma readRawString_left: "readRawString st = Inr st' \<Longrightarrow> left st' \<le> left st"
  by (auto simp: readRawString_def rbind_eq_Inr_iff dest!: raw_loop_left nextChar_left)

lemma lex_paren_left: "lex_paren lib st = Inr st' \<Longrightarrow> left st' \<le> left st"
  by (auto simp: lex_paren_def split: list.splits if_splits dest!: readString_left)

lemma lex_dot_left: "lex_dot st = Inr st' \<Longrightarrow> left st' \<le> left st"
  by (auto simp: lex_dot_def rbind_eq_Inr_iff split: if_splits dest!: matchChar_left twoCharToken_left)

lemma lex_angle_left: "lex_angle c double eq one st = Inr st' \<Longrightarrow> left st' \<le> left st"
  by (auto simp: lex_angle_def rbind_eq_Inr_iff split: if_splits dest!: matchChar_left twoCharToken_left)

lemma left_next_token [simp]: "left (st\<lparr>next_token := t\<rparr>) = left st"
  by (simp add: left_def)

lemma lex_other_left: "lex_other lib c st = Inr st' \<Longrightarrow> left st' \<le> left st"
  by (auto simp: lex_other_def Let_def split: if_splits dest: readName_left readNumber_left)

lemmas token_left = twoCharToken_left readName_left readHexNumber_left readNumber_left readString_left
  readRawString_left lex_paren_left lex_dot_left lex_angle_left lex_other_left

lemma lex_char_token_left: "lex_char lib c st = Inr (True, st') \<Longrightarrow> left st' \<le> left st"
  by (auto simp: lex_char_def Let_def map_sum_Inr rbind_eq_Inr_iff split: option.splits if_splits
      dest: token_left dest!: matchChar_left)

lemma lex_loop_left:
  "lex_loop lib st = Inr st' \<Longrightarrow> left st' \<le> left st \<and> (\<not> is_eof (tok_type (next_token st')) \<longrightarrow> left st' < left st)"
proof (induction lib st rule: lex_loop.induct)
  case (1 lib st)
  obtain c where c: "peekChar st = Inr c"
    using 1(2) by (subst (asm) lex_loop.simps) (auto simp: rbind_eq_Inr_iff)
  show ?case
  proof (cases "c = NUL")
    case True
    then show ?thesis using 1(2) c by (subst (asm) lex_loop.simps) (auto simp: is_eof_def makeToken_def left_def)
  next
    case False
    obtain d st1 b st2 where n: "nextChar (st\<lparr>tokenStart := currentChar st\<rparr>) = Inr (d, st1)"
      "lex_char lib d st1 = Inr (b, st2)" "(if b then Inr st2 else lex_loop lib st2) = Inr st'"
      using 1(2) c False by (subst (asm) lex_loop.simps) (auto simp: rbind_eq_Inr_iff)
    have st1: "left st1 < left st" using nextChar_left [OF n(1)] by simp
    show ?thesis
    proof (cases b)
      case True
      then show ?thesis using n lex_char_token_left [of lib d st1 st2] st1 by auto
    next
      case False
      then have "left st2 \<le> left st1" using n(2) lex_char_left by auto
      moreover have "left st' \<le> left st2" using 1(1) [OF c \<open>c \<noteq> NUL\<close> n(1) refl n(2) refl] False n(3) by simp
      ultimately show ?thesis using st1 by simp
    qed
  qed
qed

section \<open>Reading tokens\<close>

text \<open>What is left to be read, tokens included: a measure for the parser.\<close>

definition to_read :: "lexer \<Rightarrow> nat" where
  "to_read l = (if is_eof (tok_type (next_token l))
     then (if is_eof (tok_type (current_token l)) then 0 else 1) else 2 + left l)"

lemma nextToken_to_read:
  assumes "nextToken lib st = Inr st'"
  shows "to_read st' < to_read st \<or> to_read st = 0 \<and> to_read st' = 0"
proof (cases "is_eof (tok_type (next_token st))")
  case True
  then have "to_read st' = 0" using assms by (auto simp: nextToken_def Let_def to_read_def)
  then show ?thesis by auto
next
  case False
  let ?st = "st\<lparr>previous_token := current_token st, current_token := next_token st\<rparr>"
  have "lex_loop lib ?st = Inr st'" using assms False by (simp add: nextToken_def Let_def)
  moreover have "left ?st = left st" by (simp add: left_def)
  ultimately show ?thesis
    using lex_loop_left [of lib ?st st'] False by (auto simp: to_read_def)
qed

lemma nothing_to_read: "to_read st = 0 \<Longrightarrow> is_eof (tok_type (current_token st))"
  by (auto simp: to_read_def split: if_splits)

end
