(* ===== verification/Signatures.thy ===== *)
theory Signatures
  imports Prelude "HOL-Library.AList"
begin

text \<open>
  Method signatures: \<open>Signature::ToString\<close> (src/wren_compiler.cpp), \<open>Signature::Parse\<close> and the table of signatures of a
  compilation (src/CompContext.cpp).  The table keeps one object for each string, so that the compiler can compare
  signatures by their addresses; a signature's address is its position in the table here.
\<close>

datatype signature_type =
  SIG_METHOD | SIG_GETTER | SIG_SETTER | SIG_SUBSCRIPT | SIG_SUBSCRIPT_SETTER | SIG_INITIALIZER

record signature =
  sig_name :: string
  sig_type :: signature_type
  arity :: int

definition MAX_PARAMETERS :: int where "MAX_PARAMETERS = 16"

fun parameter_names :: "nat \<Rightarrow> string" where
  "parameter_names 0 = []"
| "parameter_names (Suc 0) = ''_''"
| "parameter_names (Suc (Suc n)) = ''_,'' @ parameter_names (Suc n)"

definition signatureParameterList :: "int \<Rightarrow> char \<Rightarrow> char \<Rightarrow> string" where
  "signatureParameterList numParams leftBracket rightBracket =
     [leftBracket] @ parameter_names (nat (min numParams MAX_PARAMETERS)) @ [rightBracket]"

definition sig_ToString :: "signature \<Rightarrow> string" where
  "sig_ToString s = (case sig_type s of
     SIG_METHOD \<Rightarrow> sig_name s @ signatureParameterList (arity s) (CHR ''('') (CHR '')'')
   | SIG_GETTER \<Rightarrow> sig_name s
   | SIG_SETTER \<Rightarrow> sig_name s @ ''='' @ signatureParameterList 1 (CHR ''('') (CHR '')'')
   | SIG_SUBSCRIPT \<Rightarrow> sig_name s @ signatureParameterList (arity s) (CHR ''['') (CHR '']'')
   | SIG_SUBSCRIPT_SETTER \<Rightarrow> sig_name s @ signatureParameterList (arity s - 1) (CHR ''['') (CHR '']'') @
       ''='' @ signatureParameterList 1 (CHR ''('') (CHR '')'')
   | SIG_INITIALIZER \<Rightarrow> ''init '' @ sig_name s @ signatureParameterList (arity s) (CHR ''('') (CHR '')''))"

text \<open>One character of the string, for the signature so far and whether a bracket has been seen.\<close>

definition parse_char :: "char \<Rightarrow> signature \<times> bool \<Rightarrow> signature \<times> bool" where
  "parse_char c r = (let (s, hitBrackets) = r in
     if c = CHR ''('' then (if sig_type s = SIG_GETTER then s\<lparr>sig_type := SIG_METHOD\<rparr> else s, True)
     else if c = CHR ''['' then (s\<lparr>sig_type := SIG_SUBSCRIPT\<rparr>, True)
     else if c = CHR ''='' then
       (s\<lparr>sig_type := (if sig_type s = SIG_SUBSCRIPT then SIG_SUBSCRIPT_SETTER else SIG_SETTER)\<rparr>, hitBrackets)
     else if c = CHR '')'' \<or> c = CHR '']'' then (s, hitBrackets)
     else if hitBrackets then (if c = CHR ''_'' then s\<lparr>arity := arity s + 1\<rparr> else s, hitBrackets)
     else (s\<lparr>sig_name := sig_name s @ [c]\<rparr>, hitBrackets))"

definition sig_Parse :: "string \<Rightarrow> signature" where
  "sig_Parse str = fst (fold parse_char str (\<lparr>sig_name = [], sig_type = SIG_GETTER, arity = 0\<rparr>, False))"

section \<open>The table\<close>

definition GetSignature_string :: "string \<Rightarrow> signature list \<Rightarrow> nat option" where
  "GetSignature_string str sigs = find_index (\<lambda>s. sig_ToString s = str) sigs"

definition GetSignature :: "signature \<Rightarrow> signature list \<Rightarrow> nat \<times> signature list" where
  "GetSignature sig sigs = (case GetSignature_string (sig_ToString sig) sigs of
     Some i \<Rightarrow> (i, sigs) | None \<Rightarrow> (length sigs, sigs @ [sig]))"

section \<open>Round trip\<close>

definition plain_name :: "string \<Rightarrow> bool" where
  "plain_name s \<longleftrightarrow> set s \<inter> set ''()[]= '' = {}"

definition equals_operators :: "string set" where
  "equals_operators = {''=='', ''!='', ''<='', ''>=''}"

text \<open>
  The signatures of the language: operators with an equals sign are methods of one parameter, and no operator is
  a setter.
\<close>

definition regular :: "signature \<Rightarrow> bool" where
  "regular s \<longleftrightarrow> (case sig_type s of
     SIG_METHOD \<Rightarrow> plain_name (sig_name s) \<and> 0 \<le> arity s \<and> arity s \<le> MAX_PARAMETERS \<or>
       sig_name s \<in> equals_operators \<and> arity s = 1
   | SIG_GETTER \<Rightarrow> plain_name (sig_name s) \<and> arity s = 0
   | SIG_SETTER \<Rightarrow> plain_name (sig_name s) \<and> sig_name s \<notin> {[], ''!'', ''<'', ''>''} \<and> arity s = 1
   | SIG_SUBSCRIPT \<Rightarrow> plain_name (sig_name s) \<and> 0 \<le> arity s \<and> arity s \<le> MAX_PARAMETERS
   | SIG_SUBSCRIPT_SETTER \<Rightarrow> plain_name (sig_name s) \<and> 1 \<le> arity s \<and> arity s \<le> MAX_PARAMETERS + 1
   | SIG_INITIALIZER \<Rightarrow> plain_name (sig_name s) \<and> 0 \<le> arity s \<and> arity s \<le> MAX_PARAMETERS)"

text \<open>What \<open>Parse\<close> makes of the string of a signature.\<close>

definition reparsed :: "signature \<Rightarrow> signature" where
  "reparsed s =
     (if sig_type s = SIG_INITIALIZER then s\<lparr>sig_name := ''init '' @ sig_name s, sig_type := SIG_METHOD\<rparr>
      else if sig_name s \<in> equals_operators
      then s\<lparr>sig_name := filter (\<lambda>c. c \<noteq> CHR ''='') (sig_name s), sig_type := SIG_SETTER\<rparr>
      else s)"

lemma fold_name: "plain_name n \<Longrightarrow> fold parse_char n (s, False) = (s\<lparr>sig_name := sig_name s @ n\<rparr>, False)"
  by (induction n arbitrary: s) (auto simp: plain_name_def parse_char_def)

lemma plain_not_operator: "plain_name n \<Longrightarrow> n \<notin> equals_operators"
  by (auto simp: plain_name_def equals_operators_def)

lemma fold_parameters: "fold parse_char (parameter_names n) (s, True) = (s\<lparr>arity := arity s + int n\<rparr>, True)"
  by (induction n arbitrary: s rule: parameter_names.induct) (auto simp: parse_char_def)

lemma fold_list:
  assumes "0 \<le> n" "n \<le> MAX_PARAMETERS" "l = CHR ''('' \<and> r = CHR '')'' \<or> l = CHR ''['' \<and> r = CHR '']''"
  shows "fold parse_char (signatureParameterList n l r) (s, b) =
    (s\<lparr>sig_type := (if l = CHR ''['' then SIG_SUBSCRIPT else if sig_type s = SIG_GETTER then SIG_METHOD else sig_type s),
       arity := arity s + n\<rparr>, True)"
  using assms by (auto simp: signatureParameterList_def fold_parameters parse_char_def)

lemma Parse_ToString:
  assumes "regular s"
  shows "sig_Parse (sig_ToString s) = reparsed s"
proof -
  have one: "fold parse_char (signatureParameterList 1 (CHR ''('') (CHR '')'')) (t, b) =
      (t\<lparr>sig_type := (if sig_type t = SIG_GETTER then SIG_METHOD else sig_type t), arity := arity t + 1\<rparr>, True)" for t b
    by (simp add: fold_list MAX_PARAMETERS_def)
  show ?thesis
  proof (cases "sig_name s \<in> equals_operators")
    case True
    then have "sig_type s = SIG_METHOD" "arity s = 1"
      using assms plain_not_operator by (auto simp: regular_def split: signature_type.splits)
    then show ?thesis
      using True by (cases s)
        (auto simp: equals_operators_def reparsed_def sig_ToString_def sig_Parse_def one parse_char_def)
  next
    case False
    then have "plain_name (sig_name s)" using assms by (auto simp: regular_def split: signature_type.splits)
    then show ?thesis
      using assms False
      by (cases s; cases "sig_type s")
        (simp_all add: regular_def reparsed_def sig_ToString_def sig_Parse_def fold_name fold_list one parse_char_def)
  qed
qed

text \<open>The strings of different signatures are different.\<close>

lemma reparsed_inj:
  assumes "regular a" "regular b" "reparsed a = reparsed b"
  shows "a = b"
proof -
  have space: "CHR '' '' \<in> set (sig_name (reparsed s)) \<longleftrightarrow> sig_type s = SIG_INITIALIZER" if "regular s" for s
    using that
    by (auto simp: reparsed_def regular_def plain_name_def equals_operators_def split: signature_type.splits)
  have operator: "sig_name s \<in> equals_operators \<longleftrightarrow>
      sig_type (reparsed s) = SIG_SETTER \<and> sig_name (reparsed s) \<in> {[], ''!'', ''<'', ''>''}"
    if "regular s" for s
    using that plain_not_operator
    by (auto simp: reparsed_def regular_def equals_operators_def split: signature_type.splits)
  have meth: "sig_type s = SIG_METHOD" if "regular s" "sig_name s \<in> equals_operators" for s
    using that plain_not_operator by (auto simp: regular_def split: signature_type.splits)
  consider "sig_type a = SIG_INITIALIZER" "sig_type b = SIG_INITIALIZER"
    | "sig_type a \<noteq> SIG_INITIALIZER" "sig_type b \<noteq> SIG_INITIALIZER" "sig_name a \<in> equals_operators" "sig_name b \<in> equals_operators"
    | "sig_type a \<noteq> SIG_INITIALIZER" "sig_type b \<noteq> SIG_INITIALIZER" "sig_name a \<notin> equals_operators" "sig_name b \<notin> equals_operators"
    using space operator assms by metis
  then show ?thesis
  proof cases
    case 2
    then show ?thesis
      using assms(3) meth [OF assms(1)] meth [OF assms(2)]
      by (cases a; cases b) (auto simp: reparsed_def equals_operators_def)
  qed (use assms(3) in \<open>(cases a; cases b; simp add: reparsed_def)+\<close>)
qed

text \<open>Regular signatures are the same object in the table only if they are equal.\<close>

lemma regular_objects:
  assumes "regular a" "regular b" "GetSignature a sigs = (i, sigs1)" "GetSignature b sigs1 = (j, sigs2)"
  shows "i = j \<longleftrightarrow> a = b"
proof -
  have i: "i < length sigs1" "sig_ToString (sigs1 ! i) = sig_ToString a"
    using assms(3) by (auto simp: GetSignature_def GetSignature_string_def find_index_Some_iff split: option.splits)
  have same: "i = j \<longleftrightarrow> sig_ToString a = sig_ToString b"
  proof
    assume "i = j"
    then show "sig_ToString a = sig_ToString b"
      using assms(4) i by (auto simp: GetSignature_def GetSignature_string_def find_index_Some_iff split: option.splits)
  next
    assume eq: "sig_ToString a = sig_ToString b"
    then obtain k where k: "GetSignature_string (sig_ToString a) sigs1 = Some k"
      using i unfolding GetSignature_string_def
      by (metis (mono_tags, lifting) find_index_None_iff nth_mem option.exhaust)
    have "k = i"
    proof (cases "GetSignature_string (sig_ToString a) sigs")
      case None
      then have "sigs1 = sigs @ [a]" "i = length sigs" using assms(3) by (auto simp: GetSignature_def)
      moreover have "\<forall>s \<in> set sigs. sig_ToString s \<noteq> sig_ToString a"
        using None by (simp add: GetSignature_string_def find_index_None_iff)
      ultimately show ?thesis
        using k by (auto simp: GetSignature_string_def find_index_Some_iff nth_append less_Suc_eq split: if_splits)
    next
      case (Some x)
      then show ?thesis using assms(3) k by (auto simp: GetSignature_def)
    qed
    then show "i = j" using assms(4) k eq by (simp add: GetSignature_def)
  qed
  show ?thesis using same Parse_ToString reparsed_inj assms(1,2) by metis
qed

text \<open>
  C23: The compiler compares signatures by their address, and gets the address by the string of the signature.  This
  is sound: two signatures of the language (names without brackets, equals signs and spaces, or one of the operators
  \<open>==\<close>, \<open>!=\<close>, \<open><=\<close> and \<open>>=\<close>; at most 16 parameters) get the same address from the table only if they are equal.
  \<open>Parse\<close> inverts \<open>ToString\<close> but for the initializers, which become methods with \<open>init\<close> in the name, and for these
  four operators, which it takes for setters and whose names lose the equals signs.
\<close>

theorem signature_roundtrip:
  assumes "regular a" "regular b" "GetSignature a sigs = (i, sigs1)" "GetSignature b sigs1 = (j, sigs2)"
  shows "sig_Parse (sig_ToString a) = reparsed a \<and> (i = j \<longleftrightarrow> a = b)"
  using assms Parse_ToString regular_objects by blast

definition example_subscript :: signature where
  "example_subscript = \<lparr>sig_name = [], sig_type = SIG_SUBSCRIPT_SETTER, arity = 3\<rparr>"

definition example_method :: signature where
  "example_method = \<lparr>sig_name = ''add'', sig_type = SIG_METHOD, arity = 1\<rparr>"

lemmas examples = example_subscript_def example_method_def regular_def reparsed_def equals_operators_def plain_name_def MAX_PARAMETERS_def
  sig_ToString_def signatureParameterList_def numeral_2_eq_2 GetSignature_def GetSignature_string_def

theorem signature_roundtrip_witness:
  "sig_Parse ''[_,_]=(_)'' = example_subscript \<and> fst (GetSignature example_method [example_subscript]) \<noteq> 0"
  using signature_roundtrip [of example_subscript example_method "[]" 0 "[example_subscript]" 1
    "[example_subscript, example_method]"]
  by (simp add: examples)

end
