(* ===== verification/Parser.thy ===== *)
theory Parser
  imports Lexer_Progress Scopes Signatures Class_Description
begin

text \<open>
  The state of the parser of src/wren_compiler.cpp, and its functions below the grammar: the tokens, the variables,
  and the nodes of the intermediate representation that they make.

  Everything that the code allocates and compares by its address is in a table of the state, and stands for its
  position there: signatures, SSA variables, upvalues, calls, functions, methods and classes.  Functions are
  numbered like those of \<open>Scopes\<close>; \<open>fn_nodes\<close> holds what \<open>fn_info\<close> does not have of an \<open>IRFn\<close>, and the two
  fields of its \<open>Compiler\<close> that scopes do not need.  Labels are numbered; \<open>assignments\<close> records the assignment of
  each SSA variable.  Debugging positions, names for debugging and the texts of error messages are left out.

  A null pointer in place of an expression is \<open>null_expr\<close>, a constant that no literal has.  An operation gives
  nothing (\<open>None\<close>) when the number of steps that it is allowed does not suffice; \<open>Parser_Termination\<close> shows that
  those of the whole compiler do.
\<close>

section \<open>The state\<close>

record fn_node =
  fn_parameters :: "nat list"
  fn_ssaVars :: "nat list"
  fn_temporaries :: "nat list"
  fn_closures :: "nat list"
  fn_parent :: "nat option"
  fn_enclosingClass :: "nat option"
  fn_methodInfo :: "nat option"
  fn_rootBegin :: "nat option"
  fn_body :: "ir_stmt option"
  parameterLocals :: "nat list"
  isInitializer :: bool

record method_node =
  mn_signature :: nat
  mn_isForeign :: bool
  mn_isStatic :: bool
  mn_lineNum :: int
  mn_fn :: "nat option"
  mn_attributes :: "attr_pack option"

record class_node =
  cn_name :: string
  cn_parentClass :: "ir_expr option"
  cn_fields :: "string list"
  cn_staticFields :: "string list"
  cn_methods :: "(nat \<times> nat) list"
  cn_staticMethods :: "(nat \<times> nat) list"
  cn_isForeign :: bool
  cn_inStatic :: bool
  cn_attributes :: "attr_pack option"
  dynamicallyDefined :: bool

record parser =
  lex_lib :: lexer_lib
  lx :: lexer
  scopes :: scope_state
  signatures :: "signature list"
  ssa_names :: "string list"
  assignments :: "nat \<rightharpoonup> ir_stmt"
  disableSSA :: "nat list"
  upvalues :: "scope_var list"
  label_count :: nat
  calls :: "nat option list"
  fn_nodes :: "fn_node list"
  method_nodes :: "method_node list"
  class_nodes :: "class_node list"
  m_functions :: "nat list"
  m_classes :: "nat list"
  global_classes :: "(string \<times> nat) list"
  compilingInternal :: bool

type_synonym 'a parse = "parser \<Rightarrow> ('a \<times> parser) res option"

section \<open>Composition\<close>

definition ret :: "'a \<Rightarrow> 'a parse" where
  "ret x p = Some (Inr (x, p))"

definition stop :: "fault \<Rightarrow> 'a parse" where
  "stop e p = Some (Inl e)"

definition seq :: "'a parse \<Rightarrow> ('a \<Rightarrow> 'b parse) \<Rightarrow> 'b parse" where
  "seq m k p = (case m p of
     None \<Rightarrow> None | Some (Inl e) \<Rightarrow> Some (Inl e) | Some (Inr (x, p')) \<Rightarrow> k x p')"

definition gets :: "(parser \<Rightarrow> 'a) \<Rightarrow> 'a parse" where
  "gets f p = Some (Inr (f p, p))"

definition change :: "(parser \<Rightarrow> parser) \<Rightarrow> unit parse" where
  "change f p = Some (Inr ((), f p))"

definition lift_res :: "'a res \<Rightarrow> 'a parse" where
  "lift_res r p = Some (map_sum id (\<lambda>x. (x, p)) r)"

definition ASSERT :: "bool \<Rightarrow> unit parse" where
  "ASSERT b = (if b then ret () else stop Fatal)"

text \<open>
  Every loop of the parser reads a token in each round, but
  possibly the last; \<open>parse_loop\<close> allows that many rounds.
\<close>

definition psize :: "parser \<Rightarrow> nat" where
  "psize p = to_read (lx p)"

fun rounds :: "nat \<Rightarrow> ('a \<Rightarrow> ('a \<times> bool) parse) \<Rightarrow> 'a \<Rightarrow> 'a parse" where
  "rounds 0 f x = (\<lambda>p. None)"
| "rounds (Suc n) f x = seq (f x) (\<lambda>(x, more). if more then rounds n f x else ret x)"

definition parse_loop :: "('a \<Rightarrow> ('a \<times> bool) parse) \<Rightarrow> 'a \<Rightarrow> 'a parse" where
  "parse_loop f x p = rounds (Suc (psize p)) f x p"

section \<open>Tokens\<close>

definition advance_token :: "unit parse" where
  "advance_token p = Some (map_sum id (\<lambda>l. ((), p\<lparr>lx := l\<rparr>)) (nextToken (lex_lib p) (lx p)))"

definition previous :: "parser \<Rightarrow> token" where
  "previous p = previous_token (lx p)"

definition previous_type :: "parser \<Rightarrow> token_type" where
  "previous_type p = tok_type (previous p)"

definition current_type :: "parser \<Rightarrow> token_type" where
  "current_type p = tok_type (current_token (lx p))"

definition next_type :: "parser \<Rightarrow> token_type" where
  "next_type p = tok_type (next_token (lx p))"

definition is_error :: "token_type \<Rightarrow> bool" where
  "is_error ty = (case ty of TOKEN_ERROR \<Rightarrow> True | _ \<Rightarrow> False)"

definition parse_error :: "unit parse" where
  "parse_error = change (\<lambda>p. if is_error (previous_type p) then p
     else p\<lparr>scopes := (scopes p)\<lparr>comp_hasError := True\<rparr>\<rparr>)"

definition has_error :: "parser \<Rightarrow> bool" where
  "has_error p \<longleftrightarrow> hasError (lx p) \<or> comp_hasError (scopes p)"

definition peek :: "token_type parse" where
  "peek = gets current_type"

definition peekNext :: "token_type parse" where
  "peekNext = gets next_type"

definition match :: "token_type \<Rightarrow> bool parse" where
  "match expected = seq peek (\<lambda>ty.
     if ty \<noteq> expected then ret False else seq advance_token (\<lambda>_. ret True))"

definition consume :: "token_type \<Rightarrow> unit parse" where
  "consume expected = seq advance_token (\<lambda>_. seq (gets previous_type) (\<lambda>ty.
     if ty = expected then ret ()
     else seq parse_error (\<lambda>_. seq peek (\<lambda>ty. if ty = expected then advance_token else ret ()))))"

definition matchLine :: "bool parse" where
  "matchLine = seq (match TOKEN_LINE) (\<lambda>b.
     if \<not> b then ret False
     else seq (parse_loop (\<lambda>_. seq (match TOKEN_LINE) (\<lambda>b. ret ((), b))) ()) (\<lambda>_. ret True))"

definition ignoreNewlines :: "unit parse" where
  "ignoreNewlines = seq matchLine (\<lambda>_. ret ())"

definition consumeLine :: "unit parse" where
  "consumeLine = seq (consume TOKEN_LINE) (\<lambda>_. ignoreNewlines)"

definition allowLineBeforeDot :: "unit parse" where
  "allowLineBeforeDot = seq peek (\<lambda>ty. seq peekNext (\<lambda>ty'.
     if ty = TOKEN_LINE \<and> ty' = TOKEN_DOT then advance_token else ret ()))"

section \<open>Scopes, functions and variables\<close>

text \<open>An operation of the scopes; whether it may report an error depends on the previous token.\<close>

definition scoped :: "(scope_state \<Rightarrow> ('a \<times> scope_state) res) \<Rightarrow> 'a parse" where
  "scoped f p = Some (map_sum id (\<lambda>(x, s). (x, p\<lparr>scopes := s\<rparr>))
     (f ((scopes p)\<lparr>previous_is_error := is_error (previous_type p)\<rparr>)))"

definition this_compiler :: "compiler parse" where
  "this_compiler p = Some (map_sum id (\<lambda>c. (c, p)) (the_compiler (scopes p)))"

definition this_fn :: "nat parse" where
  "this_fn = seq this_compiler (\<lambda>c. ret (comp_fn c))"

definition change_fn :: "nat \<Rightarrow> (fn_node \<Rightarrow> fn_node) \<Rightarrow> unit parse" where
  "change_fn f h = change (\<lambda>p. p\<lparr>fn_nodes := (fn_nodes p)[f := h (fn_nodes p ! f)]\<rparr>)"

definition change_class :: "nat \<Rightarrow> (class_node \<Rightarrow> class_node) \<Rightarrow> unit parse" where
  "change_class c h = change (\<lambda>p. p\<lparr>class_nodes := (class_nodes p)[c := h (class_nodes p ! c)]\<rparr>)"

definition change_method :: "nat \<Rightarrow> (method_node \<Rightarrow> method_node) \<Rightarrow> unit parse" where
  "change_method m h = change (\<lambda>p. p\<lparr>method_nodes := (method_nodes p)[m := h (method_nodes p ! m)]\<rparr>)"

definition empty_fn :: "nat option \<Rightarrow> fn_node" where
  "empty_fn root = \<lparr>fn_parameters = [], fn_ssaVars = [], fn_temporaries = [], fn_closures = [], fn_parent = None,
     fn_enclosingClass = None, fn_methodInfo = None, fn_rootBegin = root, fn_body = None, parameterLocals = [],
     isInitializer = False\<rparr>"

text \<open>\<open>initCompiler\<close>: the compiler of a new function, whose number is returned.\<close>

definition start_function :: "nat parse" where
  "start_function = seq (scoped (\<lambda>s. Inr (length (begin_vars s), initCompiler s))) (\<lambda>root.
     seq (change (\<lambda>p. p\<lparr>fn_nodes := fn_nodes p @ [empty_fn (Some root)]\<rparr>)) (\<lambda>_. this_fn))"

definition leave_compiler :: "unit parse" where
  "leave_compiler = scoped (\<lambda>s. Inr ((), endCompiler s))"

definition null_expr :: ir_expr where
  "null_expr = ExprConst CcUndefined"

text \<open>\<open>endCompiler\<close>: the expression that makes the closure, or a null pointer after an error or at the top level.\<close>

definition finish_function :: "ir_expr parse" where
  "finish_function = seq (gets has_error) (\<lambda>e. seq this_fn (\<lambda>f.
     seq (gets (\<lambda>p. length (compilers (scopes p)))) (\<lambda>n. seq leave_compiler (\<lambda>_.
       ret (if e \<or> n \<le> 1 then null_expr else ExprClosure f)))))"

definition AddNode_fn :: "nat \<Rightarrow> unit parse" where
  "AddNode_fn f = change (\<lambda>p. p\<lparr>m_functions := m_functions p @ [f]\<rparr>)"

definition AddNode_class :: "nat \<Rightarrow> unit parse" where
  "AddNode_class c = change (\<lambda>p. p\<lparr>m_classes := m_classes p @ [c]\<rparr>)"

definition new_ssa :: "string \<Rightarrow> nat parse" where
  "new_ssa name = seq (gets (\<lambda>p. length (ssa_names p))) (\<lambda>v.
     seq (change (\<lambda>p. p\<lparr>ssa_names := ssa_names p @ [name]\<rparr>)) (\<lambda>_. ret v))"

definition addTemporary :: "string \<Rightarrow> nat parse" where
  "addTemporary debugName = seq (new_ssa debugName) (\<lambda>v. seq this_fn (\<lambda>f.
     seq (change_fn f (\<lambda>n. n\<lparr>fn_temporaries := fn_temporaries n @ [v]\<rparr>)) (\<lambda>_. ret v)))"

definition new_label :: "nat parse" where
  "new_label = seq (gets label_count) (\<lambda>l. seq (change (\<lambda>p. p\<lparr>label_count := label_count p + 1\<rparr>)) (\<lambda>_. ret l))"

definition new_call :: "nat option \<Rightarrow> nat parse" where
  "new_call superCaller = seq (gets (\<lambda>p. length (calls p))) (\<lambda>c.
     seq (change (\<lambda>p. p\<lparr>calls := calls p @ [superCaller]\<rparr>)) (\<lambda>_. ret c))"

definition assign_stmt :: "var_decl \<Rightarrow> ir_expr \<Rightarrow> ir_stmt parse" where
  "assign_stmt var expr p = Some (map_sum id (\<lambda>(s, a). (s, p\<lparr>assignments := a\<rparr>))
     (make_StmtAssign (assignments p) var expr))"

definition table_index :: "'a \<Rightarrow> 'a list \<Rightarrow> nat \<times> 'a list" where
  "table_index x xs = (case find_index (\<lambda>y. y = x) xs of
     Some i \<Rightarrow> (i, xs) | None \<Rightarrow> (length xs, xs @ [x]))"

definition decl_of :: "scope_var \<Rightarrow> var_decl parse" where
  "decl_of v = (case v of
     LocalVar l \<Rightarrow> ret (LocalVariable l)
   | Upvalue _ _ \<Rightarrow> seq (gets (\<lambda>p. table_index v (upvalues p))) (\<lambda>(i, us).
       seq (change (\<lambda>p. p\<lparr>upvalues := us\<rparr>)) (\<lambda>_. ret (UpvalueVariable i))))"

text \<open>\<open>declareVariable\<close>; the case without a variable never happens (lemma \<open>declareVariable_something\<close>).\<close>

definition declare_variable :: "string \<Rightarrow> var_decl parse" where
  "declare_variable name = seq (scoped (declareVariable name)) (\<lambda>d. case d of
     DeclGlobal g \<Rightarrow> ret (IRGlobalDecl g)
   | DeclLocal l \<Rightarrow> ret (LocalVariable l)
   | DeclNothing \<Rightarrow> stop Undefined)"

definition declareNamedVariable :: "var_decl parse" where
  "declareNamedVariable = seq (consume TOKEN_NAME) (\<lambda>_.
     seq (gets (\<lambda>p. tok_contents (previous p))) declare_variable)"

definition defineVariable :: "var_decl \<Rightarrow> ir_expr \<Rightarrow> ir_stmt parse" where
  "defineVariable var value = assign_stmt var value"

definition open_scope :: "nat parse" where
  "open_scope = scoped (\<lambda>s. Inr (pushScope s))"

text \<open>The statement that releases what a scope, a loop or a function leaves behind.\<close>

definition close_scope :: "ir_stmt option parse" where
  "close_scope = seq (scoped popScope) (\<lambda>r. ret (map_option StmtRelocateUpvalues r))"

definition discard_loop :: "ir_stmt option parse" where
  "discard_loop = seq (scoped (\<lambda>s. rbind (leave_loop s) (\<lambda>r. Inr (r, s)))) (\<lambda>r. case r of
     Inl _ \<Rightarrow> stop Undefined | Inr r \<Rightarrow> ret (map_option StmtRelocateUpvalues r))"

definition discard_since :: "int \<Rightarrow> ir_stmt option parse" where
  "discard_since since = seq this_compiler (\<lambda>c.
     seq (scoped (\<lambda>s. rbind (discardLocals (GetFramesSince since (m_frames c)) s) (\<lambda>r. Inr (r, s)))) (\<lambda>r.
       ret (map_option StmtRelocateUpvalues r)))"

text \<open>The node that opens a scope, with the variables that were added to it by now.\<close>

definition begin_upvalues :: "nat \<Rightarrow> ir_stmt parse" where
  "begin_upvalues b = gets (\<lambda>p. StmtBeginUpvalues b (begin_vars (scopes p) ! b))"

text \<open>A block of the statements that are not null.\<close>

definition block_of :: "ir_stmt option list \<Rightarrow> ir_stmt" where
  "block_of ss = StmtBlock (fold block_Add ss [])"

section \<open>Methods and signatures\<close>

definition MAX_METHOD_NAME :: nat where "MAX_METHOD_NAME = 64"

definition normaliseSignature :: "signature \<Rightarrow> nat parse" where
  "normaliseSignature sig = seq (gets (\<lambda>p. GetSignature sig (signatures p))) (\<lambda>(i, sigs).
     seq (change (\<lambda>p. p\<lparr>signatures := sigs\<rparr>)) (\<lambda>_. ret i))"

definition signatureFromToken :: "signature_type \<Rightarrow> signature parse" where
  "signatureFromToken type = seq (gets (\<lambda>p. tok_contents (previous p))) (\<lambda>name.
     seq (if MAX_METHOD_NAME < length name then parse_error else ret ()) (\<lambda>_.
       ret \<lparr>sig_name = name, sig_type = type, arity = 0\<rparr>))"

definition validateNumParameters :: "int \<Rightarrow> unit parse" where
  "validateNumParameters numArgs = (if numArgs = MAX_PARAMETERS + 1 then parse_error else ret ())"

text \<open>A call of the method with a signature, for a call that was allocated before.\<close>

definition call_expr :: "nat \<Rightarrow> signature \<Rightarrow> ir_expr \<Rightarrow> ir_expr list \<Rightarrow> ir_expr parse" where
  "call_expr call sig receiver args = seq (normaliseSignature sig) (\<lambda>i.
     seq (gets (\<lambda>p. sig_ToString (signatures p ! i))) (\<lambda>str.
       ret (ExprFuncCall call str (Some receiver) args)))"

definition callMethod :: "string \<Rightarrow> ir_expr \<Rightarrow> ir_expr list \<Rightarrow> ir_expr parse" where
  "callMethod sig receiver args = seq (normaliseSignature (sig_Parse sig)) (\<lambda>i.
     seq (gets (\<lambda>p. signatures p ! i)) (\<lambda>s.
     seq (ASSERT (int (length args) = arity s)) (\<lambda>_. seq (new_call None) (\<lambda>c.
       ret (ExprFuncCall c (sig_ToString s) (Some receiver) args)))))"

definition addParameterLocal :: "nat \<Rightarrow> unit parse" where
  "addParameterLocal l = seq this_fn (\<lambda>f.
     seq (change_fn f (\<lambda>n. n\<lparr>parameterLocals := parameterLocals n @ [l]\<rparr>)) (\<lambda>_.
     seq (gets (\<lambda>p. lv_name (local_vars (scopes p) ! l) @ ''_pssa'')) (\<lambda>name.
     seq (new_ssa name) (\<lambda>v.
       change_fn f (\<lambda>n. n\<lparr>fn_parameters := fn_parameters n @ [v], fn_ssaVars := fn_ssaVars n @ [v]\<rparr>)))))"

text \<open>Make the variable a parameter, which it must be a local variable for.\<close>

definition parameter_variable :: "var_decl \<Rightarrow> unit parse" where
  "parameter_variable var = (case var of LocalVariable l \<Rightarrow> addParameterLocal l | _ \<Rightarrow> parse_error)"

definition finishParameterList :: "signature \<Rightarrow> signature parse" where
  "finishParameterList = parse_loop (\<lambda>sig. seq ignoreNewlines (\<lambda>_.
     let sig = sig\<lparr>arity := arity sig + 1\<rparr> in
     seq (validateNumParameters (arity sig)) (\<lambda>_. seq declareNamedVariable (\<lambda>var.
     seq (parameter_variable var) (\<lambda>_. seq (match TOKEN_COMMA) (\<lambda>more. ret (sig, more)))))))"

lemma declareVariable_something: "declareVariable name st \<noteq> Inr (DeclNothing, st')"
proof
  assume r: "declareVariable name st = Inr (DeclNothing, st')"
  let ?st = "if MAX_VARIABLE_NAME < length name then comp_error st else st"
  obtain c where c: "the_compiler ?st = Inr c" using r by (auto simp: declareVariable_def Let_def rbind_eq_Inr_iff)
  have local: "scopeDepth c \<noteq> -1"
    using r c by (auto simp: declareVariable_def declare_global_def Let_def split: prod.splits if_splits option.splits)
  obtain s2 c2 where s: "addLocal name ?st = Inr (None, s2)" "the_compiler s2 = Inr c2" "Lookup name (m_frames c2) = None"
    using r c local by (auto simp: declareVariable_def Let_def rbind_eq_Inr_iff split: option.splits)
  obtain l s1 where n: "new_local name ?st = (l, s1)" by fastforce
  have one: "scope_Add l s1 = Inr (False, s2)"
    using s(1) n by (auto simp: addLocal_def rbind_eq_Inr_iff split: if_splits)
  have name: "lv_name (local_vars s1 ! l) = name" using n by (auto simp: new_local_def)
  have "s2 = s1" "m_frames c2 \<noteq> []" "map_of (frame_locals (last (m_frames c2))) name \<noteq> None"
    using one s(2) name by (auto simp: scope_Add_def rbind_eq_Inr_iff Let_def split: if_splits)
  then have "lookup_from name (rev (m_frames c2)) \<noteq> None"
    by (cases "m_frames c2" rule: rev_cases) (auto split: option.split)
  then show False using s(3) by (simp add: Lookup_def)
qed

end
