(* ===== verification/Parser_Expressions.thy ===== *)
theory Parser_Expressions
  imports Parser
begin

text \<open>
  The grammar of src/wren_compiler.cpp, from the precedences to \<open>parsePrecedence\<close>: blocks and bodies, calls,
  literals, names, operators, and the signatures of methods.

  The three functions through which the grammar is recursive are the fields of \<open>grammar\<close>, which the others take
  as an argument; \<open>Parser_Statements\<close> ties the knot.
\<close>

section \<open>Precedences\<close>

abbreviation (input) PREC_NONE :: nat where "PREC_NONE \<equiv> 0"
abbreviation (input) PREC_LOWEST :: nat where "PREC_LOWEST \<equiv> 1"
abbreviation (input) PREC_ASSIGNMENT :: nat where "PREC_ASSIGNMENT \<equiv> 2"
abbreviation (input) PREC_CONDITIONAL :: nat where "PREC_CONDITIONAL \<equiv> 3"
abbreviation (input) PREC_LOGICAL_OR :: nat where "PREC_LOGICAL_OR \<equiv> 4"
abbreviation (input) PREC_LOGICAL_AND :: nat where "PREC_LOGICAL_AND \<equiv> 5"
abbreviation (input) PREC_EQUALITY :: nat where "PREC_EQUALITY \<equiv> 6"
abbreviation (input) PREC_IS :: nat where "PREC_IS \<equiv> 7"
abbreviation (input) PREC_COMPARISON :: nat where "PREC_COMPARISON \<equiv> 8"
abbreviation (input) PREC_BITWISE_OR :: nat where "PREC_BITWISE_OR \<equiv> 9"
abbreviation (input) PREC_BITWISE_XOR :: nat where "PREC_BITWISE_XOR \<equiv> 10"
abbreviation (input) PREC_BITWISE_AND :: nat where "PREC_BITWISE_AND \<equiv> 11"
abbreviation (input) PREC_BITWISE_SHIFT :: nat where "PREC_BITWISE_SHIFT \<equiv> 12"
abbreviation (input) PREC_RANGE :: nat where "PREC_RANGE \<equiv> 13"
abbreviation (input) PREC_TERM :: nat where "PREC_TERM \<equiv> 14"
abbreviation (input) PREC_FACTOR :: nat where "PREC_FACTOR \<equiv> 15"
abbreviation (input) PREC_UNARY :: nat where "PREC_UNARY \<equiv> 16"
abbreviation (input) PREC_CALL :: nat where "PREC_CALL \<equiv> 17"

datatype ir_node = NodeNull | NodeStmt ir_stmt | NodeClass nat

record grammar =
  operand :: "nat \<Rightarrow> ir_expr parse"
  a_statement :: "ir_stmt option parse"
  a_definition :: "ir_node parse"

definition an_expression :: "grammar \<Rightarrow> ir_expr parse" where
  "an_expression g = operand g PREC_LOWEST"

section \<open>Blocks and bodies\<close>

datatype block_result = BlockExpr ir_expr | BlockStmt ir_stmt

text \<open>A class that is declared in a block: its local variable is assigned through an SSA variable.\<close>

definition block_class :: "token \<Rightarrow> nat \<Rightarrow> ir_stmt list \<Rightarrow> ir_stmt list parse" where
  "block_class definitionToken cls stmts = seq (AddNode_class cls) (\<lambda>_.
     seq (change_class cls (\<lambda>c. c\<lparr>dynamicallyDefined := True\<rparr>)) (\<lambda>_.
     seq (change (\<lambda>p. p\<lparr>lx := (lx p)\<lparr>previous_token := definitionToken\<rparr>\<rparr>)) (\<lambda>_.
     seq (gets (\<lambda>p. cn_name (class_nodes p ! cls))) (\<lambda>name. seq (scoped (addLocal name)) (\<lambda>classOutput.
       case classOutput of
         None \<Rightarrow> seq parse_error (\<lambda>_. ret stmts)
       | Some l \<Rightarrow> seq (addTemporary (name @ ''_clssa'')) (\<lambda>ssa.
           ret (stmts @ [StmtDefineClass cls (SSAVariable ssa),
             StmtAssign (LocalVariable l) (ExprLoad (SSAVariable ssa))])))))))"

definition block_definition :: "grammar \<Rightarrow> ir_stmt list \<Rightarrow> (ir_stmt list \<times> bool) parse" where
  "block_definition g stmts = seq (gets (\<lambda>p. next_token (lx p))) (\<lambda>definitionToken.
     seq (a_definition g) (\<lambda>node. seq consumeLine (\<lambda>_.
     seq (case node of
         NodeNull \<Rightarrow> ret stmts
       | NodeClass cls \<Rightarrow> block_class definitionToken cls stmts
       | NodeStmt s \<Rightarrow> ret (stmts @ [s])) (\<lambda>stmts.
     seq peek (\<lambda>ty. ret (stmts, ty \<noteq> TOKEN_RIGHT_BRACE \<and> ty \<noteq> TOKEN_EOF))))))"

definition finishBlock :: "grammar \<Rightarrow> block_result parse" where
  "finishBlock g = seq (match TOKEN_RIGHT_BRACE) (\<lambda>b.
     if b then ret (BlockStmt (StmtBlock []))
     else seq matchLine (\<lambda>b.
       if \<not> b then seq (an_expression g) (\<lambda>e. seq (consume TOKEN_RIGHT_BRACE) (\<lambda>_. ret (BlockExpr e)))
       else seq (match TOKEN_RIGHT_BRACE) (\<lambda>b.
         if b then ret (BlockStmt (StmtBlock []))
         else seq (parse_loop (block_definition g) []) (\<lambda>stmts.
           seq (consume TOKEN_RIGHT_BRACE) (\<lambda>_. ret (BlockStmt (StmtBlock stmts)))))))"

text \<open>The receiver of a method, as a variable that functions in the method can capture.\<close>

definition declare_receiver :: "bool \<Rightarrow> nat option parse" where
  "declare_receiver isMethod =
     (if \<not> isMethod then ret None
      else seq (scoped (addLocal ''this'')) (\<lambda>r. case r of None \<Rightarrow> stop Fatal | Some l \<Rightarrow> ret (Some l)))"

definition setup_receiver :: "nat option \<Rightarrow> parser \<Rightarrow> ir_stmt list" where
  "setup_receiver receiver p = (case receiver of
     None \<Rightarrow> []
   | Some l \<Rightarrow> if lv_upvalues (local_vars (scopes p) ! l) = [] then []
       else [StmtAssign (LocalVariable l) ExprLoadReceiver])"

definition setup_parameters :: "fn_node \<Rightarrow> ir_stmt list" where
  "setup_parameters f = map (\<lambda>(l, v). StmtAssign (LocalVariable l) (ExprLoad (SSAVariable v)))
     (zip (parameterLocals f) (fn_parameters f))"

text \<open>What the body of a function does, and what the function returns.\<close>

fun body_value :: "bool \<Rightarrow> block_result \<Rightarrow> ir_stmt list \<times> ir_expr" where
  "body_value True (BlockExpr e) = ([StmtEvalAndIgnore e], ExprLoadReceiver)"
| "body_value True (BlockStmt s) = ([s], ExprLoadReceiver)"
| "body_value False (BlockExpr e) = ([], e)"
| "body_value False (BlockStmt s) = ([s], ExprConst CcNull)"

definition finishBody :: "grammar \<Rightarrow> bool \<Rightarrow> ir_stmt parse" where
  "finishBody g isMethod = seq (declare_receiver isMethod) (\<lambda>receiver. seq (finishBlock g) (\<lambda>result.
     seq (ASSERT (result \<noteq> BlockExpr null_expr)) (\<lambda>_. seq this_compiler (\<lambda>c.
     seq (ASSERT (GetTopFrame (m_frames c) = 0)) (\<lambda>_. seq (gets (\<lambda>p. fn_nodes p ! comp_fn c)) (\<lambda>f.
     seq (case fn_rootBegin f of None \<Rightarrow> ret None | Some b \<Rightarrow> seq (begin_upvalues b) (\<lambda>s. ret (Some s))) (\<lambda>root.
     seq (gets (setup_receiver receiver)) (\<lambda>setup.
     let (stmts, returnValue) = body_value (isInitializer f) result in
     seq (addTemporary ''return_expr_temp'') (\<lambda>tempReturn.
     seq (assign_stmt (SSAVariable tempReturn) returnValue) (\<lambda>assignment. seq (discard_since 0) (\<lambda>discard.
       ret (block_of ([root] @ map Some (setup @ setup_parameters f @ stmts @ [assignment]) @
         [discard, Some (StmtReturn (ExprLoad (SSAVariable tempReturn)))])))))))))))))"

section \<open>Calls\<close>

definition finishArgumentList :: "grammar \<Rightarrow> signature \<Rightarrow> (signature \<times> ir_expr list) parse" where
  "finishArgumentList g sig = seq (parse_loop (\<lambda>(sig, args). seq ignoreNewlines (\<lambda>_.
     let sig = sig\<lparr>arity := arity sig + 1\<rparr> in
     seq (validateNumParameters (arity sig)) (\<lambda>_. seq (an_expression g) (\<lambda>e.
     seq (ASSERT (e \<noteq> null_expr)) (\<lambda>_. seq (match TOKEN_COMMA) (\<lambda>more. ret ((sig, args @ [e]), more)))))))
     (sig, [])) (\<lambda>r. seq ignoreNewlines (\<lambda>_. ret r))"

text \<open>The arguments in parentheses.\<close>

definition paren_arguments :: "grammar \<Rightarrow> signature \<Rightarrow> (signature \<times> ir_expr list) parse" where
  "paren_arguments g called = seq (match TOKEN_LEFT_PAREN) (\<lambda>b.
     if \<not> b then ret (called, [])
     else let called = called\<lparr>sig_type := SIG_METHOD\<rparr> in
       seq ignoreNewlines (\<lambda>_. seq peek (\<lambda>ty.
       seq (if ty \<noteq> TOKEN_RIGHT_PAREN then finishArgumentList g called else ret (called, [])) (\<lambda>r.
       seq (consume TOKEN_RIGHT_PAREN) (\<lambda>_. ret r)))))"

text \<open>A block argument: a function that is passed as the last argument.\<close>

definition block_function :: "grammar \<Rightarrow> ir_expr parse" where
  "block_function g = seq this_fn (\<lambda>parent. seq start_function (\<lambda>f.
     seq (change_fn f (\<lambda>n. n\<lparr>fn_parent := Some parent\<rparr>)) (\<lambda>_. seq (AddNode_fn f) (\<lambda>_.
     seq (change_fn parent (\<lambda>n. n\<lparr>fn_closures := fn_closures n @ [f]\<rparr>)) (\<lambda>_.
     seq (match TOKEN_PIPE) (\<lambda>b.
     seq (if b then seq (finishParameterList \<lparr>sig_name = [], sig_type = SIG_METHOD, arity = 0\<rparr>)
            (\<lambda>_. consume TOKEN_PIPE) else ret ()) (\<lambda>_.
     seq (finishBody g False) (\<lambda>b.
     seq (change_fn f (\<lambda>n. n\<lparr>fn_body := Some b\<rparr>)) (\<lambda>_. finish_function)))))))))"

definition block_argument :: "grammar \<Rightarrow> signature \<times> ir_expr list \<Rightarrow> (signature \<times> ir_expr list) parse" where
  "block_argument g called_args = seq (match TOKEN_LEFT_BRACE) (\<lambda>b.
     if \<not> b then ret called_args
     else let (called, args) = called_args in seq (block_function g) (\<lambda>closure.
       ret (called\<lparr>sig_type := SIG_METHOD, arity := arity called + 1\<rparr>, args @ [closure])))"

definition methodCall :: "grammar \<Rightarrow> nat option \<Rightarrow> signature \<Rightarrow> ir_expr \<Rightarrow> ir_expr parse" where
  "methodCall g superCaller sig receiver = seq (new_call superCaller) (\<lambda>call.
     seq (paren_arguments g \<lparr>sig_name = sig_name sig, sig_type = SIG_GETTER, arity = 0\<rparr>) (\<lambda>r.
     seq (block_argument g r) (\<lambda>(called, args).
     seq (if sig_type sig = SIG_INITIALIZER
       then seq (if sig_type called \<noteq> SIG_METHOD then parse_error else ret ())
         (\<lambda>_. ret (called\<lparr>sig_type := SIG_INITIALIZER\<rparr>))
       else ret called) (\<lambda>called.
     call_expr call called receiver args))))"

definition namedCall :: "grammar \<Rightarrow> ir_expr \<Rightarrow> bool \<Rightarrow> nat option \<Rightarrow> ir_expr parse" where
  "namedCall g receiver canAssign superCaller = seq (signatureFromToken SIG_GETTER) (\<lambda>sig.
     seq (if canAssign then match TOKEN_EQ else ret False) (\<lambda>setter.
     if setter then seq ignoreNewlines (\<lambda>_. seq (an_expression g) (\<lambda>value.
       seq (new_call superCaller) (\<lambda>call.
         call_expr call (sig\<lparr>sig_type := SIG_SETTER, arity := 1\<rparr>) receiver [value])))
     else seq (methodCall g superCaller sig receiver) (\<lambda>call.
       seq allowLineBeforeDot (\<lambda>_. ret call))))"

definition load_this :: "ir_expr parse" where
  "load_this = seq (scoped loadThis) (\<lambda>t. case t of
     Receiver \<Rightarrow> ret ExprLoadReceiver
   | ThisUpvalue u \<Rightarrow> seq (decl_of u) (\<lambda>v. ret (ExprLoad v)))"

definition loadCoreVariable :: "string \<Rightarrow> ir_expr parse" where
  "loadCoreVariable name = lift_res (make_ExprSystemVar name)"

section \<open>Literals\<close>

definition grouping :: "grammar \<Rightarrow> bool \<Rightarrow> ir_expr parse" where
  "grouping g canAssign = seq (an_expression g) (\<lambda>e. seq (consume TOKEN_RIGHT_PAREN) (\<lambda>_. ret e))"

text \<open>Call a method of what a variable holds, for its effect.\<close>

definition call_for_effect :: "string \<Rightarrow> nat \<Rightarrow> ir_expr list \<Rightarrow> ir_stmt parse" where
  "call_for_effect sig var args = seq (callMethod sig (ExprLoad (SSAVariable var)) args) (\<lambda>call.
     ret (StmtEvalAndIgnore call))"

definition new_object :: "string \<Rightarrow> nat \<Rightarrow> ir_stmt parse" where
  "new_object cls var = seq (loadCoreVariable cls) (\<lambda>c. seq (callMethod ''new()'' c []) (\<lambda>call.
     assign_stmt (SSAVariable var) call))"

definition list_element :: "grammar \<Rightarrow> nat \<Rightarrow> ir_stmt list \<Rightarrow> (ir_stmt list \<times> bool) parse" where
  "list_element g var stmts = seq ignoreNewlines (\<lambda>_. seq peek (\<lambda>ty.
     if ty = TOKEN_RIGHT_BRACKET then ret (stmts, False)
     else seq (an_expression g) (\<lambda>e. seq (call_for_effect ''add(_)'' var [e]) (\<lambda>s.
       seq (match TOKEN_COMMA) (\<lambda>more. ret (stmts @ [s], more))))))"

definition list_expr :: "grammar \<Rightarrow> bool \<Rightarrow> ir_expr parse" where
  "list_expr g canAssign = seq (addTemporary ''list-builder'') (\<lambda>var. seq (new_object ''List'' var) (\<lambda>s.
     seq (parse_loop (list_element g var) [s]) (\<lambda>stmts. seq ignoreNewlines (\<lambda>_.
     seq (consume TOKEN_RIGHT_BRACKET) (\<lambda>_. ret (ExprRunStatements (StmtBlock stmts) var))))))"

definition map_element :: "grammar \<Rightarrow> nat \<Rightarrow> ir_stmt list \<Rightarrow> (ir_stmt list \<times> bool) parse" where
  "map_element g var stmts = seq ignoreNewlines (\<lambda>_. seq peek (\<lambda>ty.
     if ty = TOKEN_RIGHT_BRACE then ret (stmts, False)
     else seq (operand g PREC_UNARY) (\<lambda>key. seq (consume TOKEN_COLON) (\<lambda>_. seq ignoreNewlines (\<lambda>_.
       seq (an_expression g) (\<lambda>e. seq (call_for_effect ''[_]=(_)'' var [key, e]) (\<lambda>s.
       seq (match TOKEN_COMMA) (\<lambda>more. ret (stmts @ [s], more)))))))))"

definition map_expr :: "grammar \<Rightarrow> bool \<Rightarrow> ir_expr parse" where
  "map_expr g canAssign = seq (addTemporary ''map-builder'') (\<lambda>var. seq (new_object ''Map'' var) (\<lambda>s.
     seq (parse_loop (map_element g var) [s]) (\<lambda>stmts. seq ignoreNewlines (\<lambda>_.
     seq (consume TOKEN_RIGHT_BRACE) (\<lambda>_. ret (ExprRunStatements (StmtBlock stmts) var))))))"

definition boolean :: "grammar \<Rightarrow> bool \<Rightarrow> ir_expr parse" where
  "boolean g canAssign = seq (gets previous_type) (\<lambda>ty. ret (ExprConst (CcBool (ty = TOKEN_TRUE))))"

definition null_literal :: "grammar \<Rightarrow> bool \<Rightarrow> ir_expr parse" where
  "null_literal g canAssign = ret (ExprConst CcNull)"

definition literal :: "grammar \<Rightarrow> bool \<Rightarrow> ir_expr parse" where
  "literal g canAssign = gets (\<lambda>p. ExprConst (tok_value (previous p)))"

definition interpolation_part :: "grammar \<Rightarrow> nat \<Rightarrow> ir_stmt list \<Rightarrow> (ir_stmt list \<times> bool) parse" where
  "interpolation_part g parts stmts = seq (literal g False) (\<lambda>lit.
     seq (call_for_effect ''add(_)'' parts [lit]) (\<lambda>s1. seq ignoreNewlines (\<lambda>_. seq (an_expression g) (\<lambda>e.
     seq (call_for_effect ''add(_)'' parts [e]) (\<lambda>s2. seq ignoreNewlines (\<lambda>_.
     seq (match TOKEN_INTERPOLATION) (\<lambda>more. ret (stmts @ [s1, s2], more))))))))"

definition stringInterpolation :: "grammar \<Rightarrow> bool \<Rightarrow> ir_expr parse" where
  "stringInterpolation g canAssign = seq (addTemporary ''string-interpolation-parts'') (\<lambda>parts.
     seq (addTemporary ''string-interpolation-result'') (\<lambda>result. seq (new_object ''List'' parts) (\<lambda>s.
     seq (parse_loop (interpolation_part g parts) [s]) (\<lambda>stmts. seq (consume TOKEN_STRING) (\<lambda>_.
     seq (literal g False) (\<lambda>trailing. seq (call_for_effect ''add(_)'' parts [trailing]) (\<lambda>s1.
     seq (callMethod ''join()'' (ExprLoad (SSAVariable parts)) []) (\<lambda>joined.
     seq (assign_stmt (SSAVariable result) joined) (\<lambda>s2.
       ret (ExprRunStatements (StmtBlock (stmts @ [s1, s2])) result))))))))))"

section \<open>Names\<close>

definition MAX_FIELDS :: nat where "MAX_FIELDS = 255"

definition enclosing_class :: "parser \<Rightarrow> nat option" where
  "enclosing_class p = getEnclosingClass (compilers (scopes p))"

text \<open>The field of the enclosing class that the last token names; number 0 stands for the null pointer after an error.\<close>

definition lookup_field :: "nat option \<Rightarrow> nat parse" where
  "lookup_field cls = (case cls of
     None \<Rightarrow> seq parse_error (\<lambda>_. ret 0)
   | Some c \<Rightarrow> seq (gets (\<lambda>p. class_nodes p ! c)) (\<lambda>n.
       if cn_isForeign n \<or> cn_inStatic n then seq parse_error (\<lambda>_. ret 0)
       else seq (gets (\<lambda>p. Ensure (tok_contents (previous p)) (cn_fields n))) (\<lambda>(i, names).
         seq (change_class c (\<lambda>n. n\<lparr>cn_fields := names\<rparr>)) (\<lambda>_.
         seq (if MAX_FIELDS \<le> i then parse_error else ret ()) (\<lambda>_. ret i)))))"

text \<open>\<open>thisVar\<close> of a field access; \<open>None\<close> when it is left without a value.\<close>

definition field_this :: "nat option \<Rightarrow> var_decl option option parse" where
  "field_this cls = seq (gets (\<lambda>p. compilers (scopes p))) (\<lambda>cs. case cs of
     [] \<Rightarrow> stop Undefined
   | [c] \<Rightarrow> seq (ASSERT (cls = None)) (\<lambda>_. ret None)
   | c # parent # _ \<Rightarrow>
       if enclosingClass parent \<noteq> None then ret (Some None)
       else seq (scoped (findUpvalue ''this'' cs)) (\<lambda>u. case u of
           None \<Rightarrow> stop Fatal
         | Some v \<Rightarrow> seq (decl_of v) (\<lambda>d. ret (Some (Some d)))))"

definition read_this :: "var_decl option option \<Rightarrow> var_decl option parse" where
  "read_this thisVar = (case thisVar of None \<Rightarrow> stop Undefined | Some t \<Rightarrow> ret t)"

definition field_access :: "grammar \<Rightarrow> bool \<Rightarrow> ir_expr parse" where
  "field_access g canAssign = seq (gets enclosing_class) (\<lambda>cls. seq (lookup_field cls) (\<lambda>i.
     seq (field_this cls) (\<lambda>thisVar. seq (if canAssign then match TOKEN_EQ else ret False) (\<lambda>assigns.
     if assigns then seq (an_expression g) (\<lambda>value. seq (addTemporary ''set-field-expr'') (\<lambda>temporary.
       seq (assign_stmt (SSAVariable temporary) value) (\<lambda>s. seq (read_this thisVar) (\<lambda>t.
         ret (ExprRunStatements (StmtBlock [s, StmtFieldAssign t i (ExprLoad (SSAVariable temporary))]) temporary)))))
     else seq allowLineBeforeDot (\<lambda>_. seq (read_this thisVar) (\<lambda>t. ret (ExprFieldLoad t i)))))))"

text \<open>Read or assign a variable.\<close>

definition decl_name :: "var_decl \<Rightarrow> parser \<Rightarrow> string" where
  "decl_name v p = (case v of
     LocalVariable l \<Rightarrow> lv_name (local_vars (scopes p) ! l)
   | SSAVariable s \<Rightarrow> ssa_names p ! s
   | UpvalueVariable u \<Rightarrow> var_name (scopes p) (upvalues p ! u)
   | IRGlobalDecl g \<Rightarrow> g)"

definition bareName :: "grammar \<Rightarrow> bool \<Rightarrow> var_decl \<Rightarrow> ir_expr parse" where
  "bareName g canAssign variable = seq (if canAssign then match TOKEN_EQ else ret False) (\<lambda>assigns.
     if assigns then seq (an_expression g) (\<lambda>e. seq (gets (decl_name variable)) (\<lambda>name.
       seq (addTemporary (''bareName-assign-'' @ name)) (\<lambda>tmp. seq (assign_stmt (SSAVariable tmp) e) (\<lambda>s1.
       seq (assign_stmt variable (ExprLoad (SSAVariable tmp))) (\<lambda>s2.
         ret (ExprRunStatements (StmtBlock [s1, s2]) tmp))))))
     else seq allowLineBeforeDot (\<lambda>_. ret (ExprLoad variable)))"

definition staticField :: "grammar \<Rightarrow> bool \<Rightarrow> ir_expr parse" where
  "staticField g canAssign = seq (gets enclosing_class) (\<lambda>cls. case cls of
     None \<Rightarrow> seq parse_error (\<lambda>_. null_literal g False)
   | Some c \<Rightarrow> seq (gets (\<lambda>p. tok_contents (previous p))) (\<lambda>name.
       seq (change_class c (\<lambda>n. n\<lparr>cn_staticFields := snd (Ensure name (cn_staticFields n))\<rparr>)) (\<lambda>_.
       seq (gets (\<lambda>p. cn_name (class_nodes p ! c))) (\<lambda>cname.
         bareName g canAssign (IRGlobalDecl (cname @ ''::'' @ name))))))"

definition name_expr :: "grammar \<Rightarrow> bool \<Rightarrow> ir_expr parse" where
  "name_expr g canAssign = seq (gets (\<lambda>p. (previous p, map fst (buildSysVarNames (compilingInternal p))))) (\<lambda>(tok, sys).
     seq (scoped (name_lookup sys (tok_contents tok) (tok_line tok))) (\<lambda>m. case m of
       NameVar v \<Rightarrow> seq (decl_of v) (bareName g canAssign)
     | NameSelfCall t \<Rightarrow> seq (case t of Receiver \<Rightarrow> ret ExprLoadReceiver
           | ThisUpvalue u \<Rightarrow> seq (decl_of u) (\<lambda>v. ret (ExprLoad v)))
         (\<lambda>this. namedCall g this canAssign None)
     | NameSystem s \<Rightarrow> loadCoreVariable s
     | NameGlobal s \<Rightarrow> bareName g canAssign (IRGlobalDecl s)))"

definition getEnclosingMethod :: "parser \<Rightarrow> nat option" where
  "getEnclosingMethod p =
     find (\<lambda>f. fn_enclosingClass (fn_nodes p ! f) \<noteq> None) (map comp_fn (compilers (scopes p)))"

text \<open>The signature of the method that a function is, which has one if it has a class.\<close>

definition method_signature :: "nat \<Rightarrow> signature parse" where
  "method_signature f = seq (gets (\<lambda>p. fn_methodInfo (fn_nodes p ! f))) (\<lambda>m. case m of
     None \<Rightarrow> stop Undefined
   | Some m \<Rightarrow> gets (\<lambda>p. signatures p ! mn_signature (method_nodes p ! m)))"

definition super_call :: "grammar \<Rightarrow> bool \<Rightarrow> ir_expr parse" where
  "super_call g canAssign = seq (gets getEnclosingMethod) (\<lambda>f.
     seq (case f of
         None \<Rightarrow> seq parse_error (\<lambda>_. ret (ExprConst CcNull, \<lparr>sig_name = [], sig_type = SIG_METHOD, arity = 0\<rparr>))
       | Some f \<Rightarrow> seq load_this (\<lambda>this. seq (method_signature f) (\<lambda>sig. ret (this, sig)))) (\<lambda>(this, sig).
     seq (match TOKEN_DOT) (\<lambda>b.
       if b then seq (consume TOKEN_NAME) (\<lambda>_. namedCall g this canAssign f)
       else methodCall g f sig this)))"

definition this_expr :: "grammar \<Rightarrow> bool \<Rightarrow> ir_expr parse" where
  "this_expr g canAssign = seq (gets enclosing_class) (\<lambda>cls.
     if cls = None then seq parse_error (\<lambda>_. ret null_expr) else load_this)"

section \<open>Operators\<close>

text \<open>The operators' names and the precedences of the table \<open>rules\<close>.\<close>

definition rule_name :: "token_type \<Rightarrow> string" where
  "rule_name ty = (case ty of
     TOKEN_DOTDOT \<Rightarrow> ''..'' | TOKEN_DOTDOTDOT \<Rightarrow> ''...'' | TOKEN_STAR \<Rightarrow> ''*'' | TOKEN_SLASH \<Rightarrow> ''/''
   | TOKEN_PERCENT \<Rightarrow> ''%'' | TOKEN_PLUS \<Rightarrow> ''+'' | TOKEN_MINUS \<Rightarrow> ''-'' | TOKEN_LTLT \<Rightarrow> ''<<''
   | TOKEN_GTGT \<Rightarrow> ''>>'' | TOKEN_PIPE \<Rightarrow> ''|'' | TOKEN_CARET \<Rightarrow> ''^'' | TOKEN_AMP \<Rightarrow> ''&''
   | TOKEN_BANG \<Rightarrow> ''!'' | TOKEN_TILDE \<Rightarrow> ''~'' | TOKEN_LT \<Rightarrow> ''<'' | TOKEN_GT \<Rightarrow> ''>''
   | TOKEN_LTEQ \<Rightarrow> ''<='' | TOKEN_GTEQ \<Rightarrow> ''>='' | TOKEN_EQEQ \<Rightarrow> ''=='' | TOKEN_BANGEQ \<Rightarrow> ''!=''
   | TOKEN_IS \<Rightarrow> ''is'' | _ \<Rightarrow> [])"

definition rule_precedence :: "token_type \<Rightarrow> nat" where
  "rule_precedence ty = (case ty of
     TOKEN_LEFT_BRACKET \<Rightarrow> PREC_CALL | TOKEN_DOT \<Rightarrow> PREC_CALL
   | TOKEN_DOTDOT \<Rightarrow> PREC_RANGE | TOKEN_DOTDOTDOT \<Rightarrow> PREC_RANGE
   | TOKEN_STAR \<Rightarrow> PREC_FACTOR | TOKEN_SLASH \<Rightarrow> PREC_FACTOR | TOKEN_PERCENT \<Rightarrow> PREC_FACTOR
   | TOKEN_PLUS \<Rightarrow> PREC_TERM | TOKEN_MINUS \<Rightarrow> PREC_TERM
   | TOKEN_LTLT \<Rightarrow> PREC_BITWISE_SHIFT | TOKEN_GTGT \<Rightarrow> PREC_BITWISE_SHIFT
   | TOKEN_PIPE \<Rightarrow> PREC_BITWISE_OR | TOKEN_PIPEPIPE \<Rightarrow> PREC_LOGICAL_OR
   | TOKEN_CARET \<Rightarrow> PREC_BITWISE_XOR | TOKEN_AMP \<Rightarrow> PREC_BITWISE_AND | TOKEN_AMPAMP \<Rightarrow> PREC_LOGICAL_AND
   | TOKEN_QUESTION \<Rightarrow> PREC_ASSIGNMENT
   | TOKEN_LT \<Rightarrow> PREC_COMPARISON | TOKEN_GT \<Rightarrow> PREC_COMPARISON
   | TOKEN_LTEQ \<Rightarrow> PREC_COMPARISON | TOKEN_GTEQ \<Rightarrow> PREC_COMPARISON
   | TOKEN_EQEQ \<Rightarrow> PREC_EQUALITY | TOKEN_BANGEQ \<Rightarrow> PREC_EQUALITY | TOKEN_IS \<Rightarrow> PREC_IS
   | _ \<Rightarrow> PREC_NONE)"

definition unaryOp :: "grammar \<Rightarrow> bool \<Rightarrow> ir_expr parse" where
  "unaryOp g canAssign = seq (gets previous_type) (\<lambda>ty. seq ignoreNewlines (\<lambda>_.
     seq (operand g (PREC_UNARY + 1)) (\<lambda>receiver. callMethod (rule_name ty) receiver [])))"

definition subscript :: "grammar \<Rightarrow> ir_expr \<Rightarrow> bool \<Rightarrow> ir_expr parse" where
  "subscript g receiver canAssign =
     seq (finishArgumentList g \<lparr>sig_name = [], sig_type = SIG_SUBSCRIPT, arity = 0\<rparr>) (\<lambda>(sig, args).
     seq (consume TOKEN_RIGHT_BRACKET) (\<lambda>_. seq allowLineBeforeDot (\<lambda>_.
     seq (if canAssign then match TOKEN_EQ else ret False) (\<lambda>setter.
     seq (if setter then
         let sig = sig\<lparr>sig_type := SIG_SUBSCRIPT_SETTER, arity := arity sig + 1\<rparr> in
         seq (validateNumParameters (arity sig)) (\<lambda>_. seq (an_expression g) (\<lambda>value. ret (sig, args @ [value])))
       else ret (sig, args)) (\<lambda>(sig, args).
     seq (new_call None) (\<lambda>call. call_expr call sig receiver args))))))"

definition dot_call :: "grammar \<Rightarrow> ir_expr \<Rightarrow> bool \<Rightarrow> ir_expr parse" where
  "dot_call g lhs canAssign = seq ignoreNewlines (\<lambda>_. seq (consume TOKEN_NAME) (\<lambda>_. namedCall g lhs canAssign None))"

text \<open>
  \<open>and_\<close> and \<open>or_\<close>, which differ in their precedence and in the condition of their jump.  The label is numbered
  where the code makes it, after the right operand.
\<close>

definition short_circuit :: "string \<Rightarrow> nat \<Rightarrow> bool \<Rightarrow> grammar \<Rightarrow> ir_expr \<Rightarrow> bool \<Rightarrow> ir_expr parse" where
  "short_circuit op prec jumpOnFalse g lhs canAssign = seq ignoreNewlines (\<lambda>_.
     seq (addTemporary (op @ ''-value-tmp'')) (\<lambda>tmp. seq (scoped (addMutableTemporary (op @ ''-value-mut''))) (\<lambda>l.
     seq (operand g prec) (\<lambda>rhs. seq new_label (\<lambda>target.
     seq (assign_stmt (SSAVariable tmp) (ExprLoad (LocalVariable l))) (\<lambda>s.
       ret (ExprRunStatements (StmtBlock
         [StmtAssign (LocalVariable l) lhs, StmtJump target (Some (ExprLoad (LocalVariable l))) jumpOnFalse,
          StmtAssign (LocalVariable l) rhs, StmtLabel target, s]) tmp)))))))"

definition and_op :: "grammar \<Rightarrow> ir_expr \<Rightarrow> bool \<Rightarrow> ir_expr parse" where
  "and_op = short_circuit ''and'' PREC_LOGICAL_AND True"

definition or_op :: "grammar \<Rightarrow> ir_expr \<Rightarrow> bool \<Rightarrow> ir_expr parse" where
  "or_op = short_circuit ''or'' PREC_LOGICAL_OR False"

definition conditional :: "grammar \<Rightarrow> ir_expr \<Rightarrow> bool \<Rightarrow> ir_expr parse" where
  "conditional g condition canAssign = seq ignoreNewlines (\<lambda>_.
     seq (addTemporary ''conditional-value-tmp'') (\<lambda>tmp.
     seq (scoped (addMutableTemporary ''conditional-value-mut'')) (\<lambda>l.
     seq (operand g PREC_CONDITIONAL) (\<lambda>trueValue. seq (consume TOKEN_COLON) (\<lambda>_. seq ignoreNewlines (\<lambda>_.
     seq new_label (\<lambda>elseLabel. seq (operand g PREC_ASSIGNMENT) (\<lambda>falseValue. seq new_label (\<lambda>endLabel.
     seq (assign_stmt (SSAVariable tmp) (ExprLoad (LocalVariable l))) (\<lambda>s.
       ret (ExprRunStatements (StmtBlock
         [StmtJump elseLabel (Some condition) True, StmtAssign (LocalVariable l) trueValue,
          StmtJump endLabel None False, StmtLabel elseLabel, StmtAssign (LocalVariable l) falseValue,
          StmtLabel endLabel, s]) tmp)))))))))))"

definition infixOp :: "grammar \<Rightarrow> ir_expr \<Rightarrow> bool \<Rightarrow> ir_expr parse" where
  "infixOp g receiver canAssign = seq (gets previous_type) (\<lambda>ty. seq ignoreNewlines (\<lambda>_.
     seq (operand g (rule_precedence ty + 1)) (\<lambda>rhs. seq (new_call None) (\<lambda>call.
       call_expr call \<lparr>sig_name = rule_name ty, sig_type = SIG_METHOD, arity = 1\<rparr> receiver [rhs]))))"

section \<open>Signatures of methods\<close>

definition infixSignature :: "signature \<Rightarrow> signature parse" where
  "infixSignature sig = seq (consume TOKEN_LEFT_PAREN) (\<lambda>_. seq declareNamedVariable (\<lambda>var.
     seq (consume TOKEN_RIGHT_PAREN) (\<lambda>_. seq (parameter_variable var) (\<lambda>_.
       ret (sig\<lparr>sig_type := SIG_METHOD, arity := 1\<rparr>)))))"

definition unarySignature :: "signature \<Rightarrow> signature parse" where
  "unarySignature sig = ret (sig\<lparr>sig_type := SIG_GETTER\<rparr>)"

definition mixedSignature :: "signature \<Rightarrow> signature parse" where
  "mixedSignature sig = seq (match TOKEN_LEFT_PAREN) (\<lambda>b.
     if \<not> b then ret (sig\<lparr>sig_type := SIG_GETTER\<rparr>)
     else seq declareNamedVariable (\<lambda>var. seq (consume TOKEN_RIGHT_PAREN) (\<lambda>_.
       seq (parameter_variable var) (\<lambda>_. ret (sig\<lparr>sig_type := SIG_METHOD, arity := 1\<rparr>)))))"

definition maybeSetter :: "signature \<Rightarrow> (signature \<times> bool) parse" where
  "maybeSetter sig = seq (match TOKEN_EQ) (\<lambda>b.
     if \<not> b then ret (sig, False)
     else let sig = sig\<lparr>sig_type := if sig_type sig = SIG_SUBSCRIPT then SIG_SUBSCRIPT_SETTER else SIG_SETTER\<rparr> in
       seq (consume TOKEN_LEFT_PAREN) (\<lambda>_. seq declareNamedVariable (\<lambda>var.
       seq (consume TOKEN_RIGHT_PAREN) (\<lambda>_. seq (parameter_variable var) (\<lambda>_.
         ret (sig\<lparr>arity := arity sig + 1\<rparr>, True))))))"

definition subscriptSignature :: "signature \<Rightarrow> signature parse" where
  "subscriptSignature sig =
     seq (finishParameterList (sig\<lparr>sig_type := SIG_SUBSCRIPT, sig_name := []\<rparr>)) (\<lambda>sig.
     seq (consume TOKEN_RIGHT_BRACKET) (\<lambda>_. seq (maybeSetter sig) (\<lambda>(sig, _). ret sig)))"

definition parameterList :: "signature \<Rightarrow> signature parse" where
  "parameterList sig = seq (match TOKEN_LEFT_PAREN) (\<lambda>b.
     if \<not> b then ret sig
     else let sig = sig\<lparr>sig_type := SIG_METHOD\<rparr> in
       seq ignoreNewlines (\<lambda>_. seq (match TOKEN_RIGHT_PAREN) (\<lambda>b.
       if b then ret sig
       else seq (finishParameterList sig) (\<lambda>sig. seq (consume TOKEN_RIGHT_PAREN) (\<lambda>_. ret sig)))))"

definition namedSignature :: "signature \<Rightarrow> signature parse" where
  "namedSignature sig = seq (maybeSetter (sig\<lparr>sig_type := SIG_GETTER\<rparr>)) (\<lambda>(sig, setter).
     if setter then ret sig else parameterList sig)"

definition constructorSignature :: "signature \<Rightarrow> signature parse" where
  "constructorSignature sig = seq (consume TOKEN_NAME) (\<lambda>_. seq (signatureFromToken SIG_INITIALIZER) (\<lambda>sig.
     seq (match TOKEN_EQ) (\<lambda>b. seq (if b then parse_error else ret ()) (\<lambda>_.
     seq (match TOKEN_LEFT_PAREN) (\<lambda>b.
     if \<not> b then seq parse_error (\<lambda>_. ret sig)
     else seq (match TOKEN_RIGHT_PAREN) (\<lambda>b.
       if b then ret sig
       else seq (finishParameterList sig) (\<lambda>sig. seq (consume TOKEN_RIGHT_PAREN) (\<lambda>_. ret sig))))))))"

section \<open>The table of rules\<close>

definition rule_prefix :: "token_type \<Rightarrow> (grammar \<Rightarrow> bool \<Rightarrow> ir_expr parse) option" where
  "rule_prefix ty = (case ty of
     TOKEN_LEFT_PAREN \<Rightarrow> Some grouping | TOKEN_LEFT_BRACKET \<Rightarrow> Some list_expr | TOKEN_LEFT_BRACE \<Rightarrow> Some map_expr
   | TOKEN_MINUS \<Rightarrow> Some unaryOp | TOKEN_BANG \<Rightarrow> Some unaryOp | TOKEN_TILDE \<Rightarrow> Some unaryOp
   | TOKEN_FALSE \<Rightarrow> Some boolean | TOKEN_TRUE \<Rightarrow> Some boolean | TOKEN_NULL \<Rightarrow> Some null_literal
   | TOKEN_SUPER \<Rightarrow> Some super_call | TOKEN_THIS \<Rightarrow> Some this_expr
   | TOKEN_FIELD \<Rightarrow> Some field_access | TOKEN_STATIC_FIELD \<Rightarrow> Some staticField | TOKEN_NAME \<Rightarrow> Some name_expr
   | TOKEN_NUMBER \<Rightarrow> Some literal | TOKEN_STRING \<Rightarrow> Some literal | TOKEN_INTERPOLATION \<Rightarrow> Some stringInterpolation
   | _ \<Rightarrow> None)"

definition rule_infix :: "token_type \<Rightarrow> (grammar \<Rightarrow> ir_expr \<Rightarrow> bool \<Rightarrow> ir_expr parse) option" where
  "rule_infix ty =
     (if rule_precedence ty = PREC_NONE then None
      else Some (case ty of
          TOKEN_LEFT_BRACKET \<Rightarrow> subscript | TOKEN_DOT \<Rightarrow> dot_call | TOKEN_PIPEPIPE \<Rightarrow> or_op | TOKEN_AMPAMP \<Rightarrow> and_op
        | TOKEN_QUESTION \<Rightarrow> conditional | _ \<Rightarrow> infixOp))"

definition rule_method :: "token_type \<Rightarrow> (signature \<Rightarrow> signature parse) option" where
  "rule_method ty = (case ty of
     TOKEN_LEFT_BRACKET \<Rightarrow> Some subscriptSignature | TOKEN_NAME \<Rightarrow> Some namedSignature
   | TOKEN_CONSTRUCT \<Rightarrow> Some constructorSignature | TOKEN_MINUS \<Rightarrow> Some mixedSignature
   | TOKEN_BANG \<Rightarrow> Some unarySignature | TOKEN_TILDE \<Rightarrow> Some unarySignature
   | TOKEN_DOT \<Rightarrow> None | TOKEN_PIPEPIPE \<Rightarrow> None | TOKEN_AMPAMP \<Rightarrow> None | TOKEN_QUESTION \<Rightarrow> None
   | _ \<Rightarrow> if rule_precedence ty = PREC_NONE then None else Some infixSignature)"

section \<open>The expression parser\<close>

definition infix_round :: "grammar \<Rightarrow> nat \<Rightarrow> bool \<Rightarrow> ir_expr \<Rightarrow> (ir_expr \<times> bool) parse" where
  "infix_round g prec canAssign e = seq peek (\<lambda>ty.
     if prec \<le> rule_precedence ty then
       seq advance_token (\<lambda>_. seq (gets previous_type) (\<lambda>ty. case rule_infix ty of
           None \<Rightarrow> stop Undefined
         | Some infix_fn \<Rightarrow> seq (infix_fn g e canAssign) (\<lambda>e. ret (e, True))))
     else ret (e, False))"

definition parsePrecedence :: "grammar \<Rightarrow> nat \<Rightarrow> ir_expr parse" where
  "parsePrecedence g prec = seq advance_token (\<lambda>_. seq (gets previous_type) (\<lambda>ty. case rule_prefix ty of
     None \<Rightarrow> seq parse_error (\<lambda>_. null_literal g False)
   | Some prefix_fn \<Rightarrow>
       let canAssign = prec \<le> PREC_CONDITIONAL in
       seq (prefix_fn g canAssign) (\<lambda>e. parse_loop (infix_round g prec canAssign) e)))"

end
