(* ===== verification/Parser_Statements.thy ===== *)
theory Parser_Statements
  imports Parser_Expressions
begin

text \<open>
  Statements, methods, classes, imports and whole modules: src/wren_compiler.cpp from \<open>startLoop\<close> to
  \<open>wrenCompile\<close>.  The label of a loop's end has the number after that of its start, so that \<open>break\<close> can name it;
  the code makes it in \<open>endLoop\<close> and then puts it into the jumps.
\<close>

section \<open>Loops and branches\<close>

definition new_loop :: "nat parse" where
  "new_loop = seq new_label (\<lambda>start. seq new_label (\<lambda>_. ret start))"

definition loop_end :: "nat \<Rightarrow> nat" where
  "loop_end start = start + 1"

definition enter_loop :: "nat \<Rightarrow> unit parse" where
  "enter_loop start = scoped (\<lambda>s. Inr ((), startLoop start s))"

definition exitLoop :: "nat \<Rightarrow> ir_expr \<Rightarrow> ir_stmt" where
  "exitLoop start condition = StmtJump (loop_end start) (Some condition) True"

definition loopBody :: "grammar \<Rightarrow> ir_stmt parse" where
  "loopBody g = seq new_label (\<lambda>l. seq (a_statement g) (\<lambda>s. ret (block_of [Some (StmtLabel l), s])))"

definition close_loop :: "nat \<Rightarrow> ir_stmt parse" where
  "close_loop start = seq (scoped (\<lambda>s. Inr ((), endLoop s))) (\<lambda>_.
     ret (StmtBlock [StmtJump start None False, StmtLabel (loop_end start)]))"

definition condition_in_parens :: "grammar \<Rightarrow> ir_expr parse" where
  "condition_in_parens g = seq (consume TOKEN_LEFT_PAREN) (\<lambda>_. seq (an_expression g) (\<lambda>e.
     seq (consume TOKEN_RIGHT_PAREN) (\<lambda>_. ret e)))"

text \<open>A variable of a scope that was opened for it, where its name cannot be taken.\<close>

definition fresh_local :: "string \<Rightarrow> nat parse" where
  "fresh_local name = seq (scoped (addLocal name)) (\<lambda>r. case r of None \<Rightarrow> stop Undefined | Some l \<Rightarrow> ret l)"

text \<open>The head of a \<open>for\<close> statement, up to the sequence: the name of the variable and the sequence.\<close>

definition for_head :: "grammar \<Rightarrow> (string \<times> ir_expr) parse" where
  "for_head g = seq (consume TOKEN_LEFT_PAREN) (\<lambda>_. seq (consume TOKEN_NAME) (\<lambda>_.
     seq (gets (\<lambda>p. tok_contents (previous p))) (\<lambda>name. seq (consume TOKEN_IN) (\<lambda>_. seq ignoreNewlines (\<lambda>_.
     seq (an_expression g) (\<lambda>e. ret (name, e)))))))"

text \<open>The scope of the loop variable, with the body of the loop.\<close>

definition for_body :: "grammar \<Rightarrow> string \<Rightarrow> ir_expr \<Rightarrow> ir_stmt option list parse" where
  "for_body g name valueCall = seq open_scope (\<lambda>b. seq (fresh_local name) (\<lambda>valueVar. seq (loopBody g) (\<lambda>content.
     seq (begin_upvalues b) (\<lambda>begin. seq close_scope (\<lambda>release.
       ret [Some begin, Some (StmtAssign (LocalVariable valueVar) valueCall), Some content, release])))))"

definition forStatement :: "grammar \<Rightarrow> ir_stmt parse" where
  "forStatement g = seq open_scope (\<lambda>b. seq (for_head g) (\<lambda>(name, seqValue). seq this_compiler (\<lambda>c.
     seq (if MAX_LOCALS < VariableCount (m_frames c) + 2 then parse_error else ret ()) (\<lambda>_.
     seq (fresh_local ''seq '') (\<lambda>seqSlot. seq (fresh_local ''iter '') (\<lambda>iterSlot.
     seq (consume TOKEN_RIGHT_PAREN) (\<lambda>_. seq new_loop (\<lambda>start. seq (enter_loop start) (\<lambda>_.
     let theSeq = ExprLoad (LocalVariable seqSlot); iter = ExprLoad (LocalVariable iterSlot) in
     seq (callMethod ''iterate(_)'' theSeq [iter]) (\<lambda>iterateCall.
     seq (callMethod ''iteratorValue(_)'' theSeq [iter]) (\<lambda>valueCall.
     seq (for_body g name valueCall) (\<lambda>content. seq (close_loop start) (\<lambda>loopEnd.
     seq (begin_upvalues b) (\<lambda>begin. seq close_scope (\<lambda>release.
       ret (block_of ([Some begin, Some (StmtAssign (LocalVariable seqSlot) seqValue),
         Some (StmtAssign (LocalVariable iterSlot) (ExprConst CcNull)), Some (StmtLabel start),
         Some (StmtAssign (LocalVariable iterSlot) iterateCall), Some (exitLoop start iter)] @ content @
         [Some loopEnd, release])))))))))))))))))"

definition ifStatement :: "grammar \<Rightarrow> ir_stmt parse" where
  "ifStatement g = seq (condition_in_parens g) (\<lambda>condition. seq (a_statement g) (\<lambda>thenPart.
     seq (match TOKEN_ELSE) (\<lambda>b.
     if b then seq new_label (\<lambda>elseTarget. seq (a_statement g) (\<lambda>elsePart. seq new_label (\<lambda>end_label.
       ret (block_of [Some (StmtJump elseTarget (Some condition) True), thenPart,
         Some (StmtJump end_label None False), Some (StmtLabel elseTarget), elsePart, Some (StmtLabel end_label)]))))
     else seq new_label (\<lambda>end_label.
       ret (block_of [Some (StmtJump end_label (Some condition) True), thenPart, Some (StmtLabel end_label)])))))"

definition whileStatement :: "grammar \<Rightarrow> ir_stmt parse" where
  "whileStatement g = seq new_loop (\<lambda>start. seq (enter_loop start) (\<lambda>_. seq (condition_in_parens g) (\<lambda>condition.
     seq (loopBody g) (\<lambda>content. seq (close_loop start) (\<lambda>loopEnd.
       ret (StmtBlock [StmtLabel start, exitLoop start condition, content, loopEnd]))))))"

section \<open>Statements\<close>

text \<open>\<open>break\<close> and \<open>continue\<close> release the variables of the loop and jump; \<open>target\<close> is one of the loop's labels.\<close>

definition loop_jump :: "(nat \<Rightarrow> nat) \<Rightarrow> ir_stmt option parse" where
  "loop_jump target = seq this_compiler (\<lambda>c. case comp_loop c of
     [] \<Rightarrow> seq parse_error (\<lambda>_. ret None)
   | l # _ \<Rightarrow> seq discard_loop (\<lambda>release.
       ret (Some (block_of [release, Some (StmtJump (target (loop_start l)) None False)]))))"

definition return_value :: "grammar \<Rightarrow> ir_expr parse" where
  "return_value g = seq this_fn (\<lambda>f. seq (gets (\<lambda>p. isInitializer (fn_nodes p ! f))) (\<lambda>init. seq peek (\<lambda>ty.
     if ty = TOKEN_LINE then (if init then load_this else ret (ExprConst CcNull))
     else seq (if init then parse_error else ret ()) (\<lambda>_. an_expression g))))"

definition returnStatement :: "grammar \<Rightarrow> ir_stmt parse" where
  "returnStatement g = seq (return_value g) (\<lambda>returnValue. seq (addTemporary ''return_expr_temp'') (\<lambda>tmp.
     seq (assign_stmt (SSAVariable tmp) returnValue) (\<lambda>s.
     seq (scoped (\<lambda>s. rbind (leave_function s) (\<lambda>r. Inr (r, s)))) (\<lambda>release.
       ret (block_of [Some s, map_option StmtRelocateUpvalues release,
         Some (StmtReturn (ExprLoad (SSAVariable tmp)))])))))"

fun block_stmt :: "block_result \<Rightarrow> ir_stmt option" where
  "block_stmt (BlockExpr e) = (if e = null_expr then None else Some (StmtEvalAndIgnore e))"
| "block_stmt (BlockStmt s) = Some s"

definition blockStatement :: "grammar \<Rightarrow> ir_stmt option parse" where
  "blockStatement g = seq open_scope (\<lambda>b. seq (finishBlock g) (\<lambda>content. seq (begin_upvalues b) (\<lambda>begin.
     seq close_scope (\<lambda>cleanup. ret (case cleanup of
         None \<Rightarrow> block_stmt content
       | Some c \<Rightarrow> Some (block_of [Some begin, block_stmt content, Some c]))))))"

definition parse_statement :: "grammar \<Rightarrow> ir_stmt option parse" where
  "parse_statement g =
     seq (match TOKEN_BREAK) (\<lambda>b. if b then loop_jump loop_end else
     seq (match TOKEN_CONTINUE) (\<lambda>b. if b then loop_jump id else
     seq (match TOKEN_FOR) (\<lambda>b. if b then seq (forStatement g) (\<lambda>s. ret (Some s)) else
     seq (match TOKEN_IF) (\<lambda>b. if b then seq (ifStatement g) (\<lambda>s. ret (Some s)) else
     seq (match TOKEN_RETURN) (\<lambda>b. if b then seq (returnStatement g) (\<lambda>s. ret (Some s)) else
     seq (match TOKEN_WHILE) (\<lambda>b. if b then seq (whileStatement g) (\<lambda>s. ret (Some s)) else
     seq (match TOKEN_LEFT_BRACE) (\<lambda>b. if b then blockStatement g else
     seq (an_expression g) (\<lambda>e. ret (Some (StmtEvalAndIgnore e))))))))))"

section \<open>Attributes\<close>

definition consumeLiteral :: "cc_value parse" where
  "consumeLiteral =
     seq (match TOKEN_FALSE) (\<lambda>b. if b then ret (CcBool False) else
     seq (match TOKEN_TRUE) (\<lambda>b. if b then ret (CcBool True) else
     seq (match TOKEN_NUMBER) (\<lambda>b. if b then gets (\<lambda>p. tok_value (previous p)) else
     seq (match TOKEN_STRING) (\<lambda>b. if b then gets (\<lambda>p. tok_value (previous p)) else
     seq (match TOKEN_NAME) (\<lambda>b. if b then gets (\<lambda>p. tok_value (previous p)) else
     seq parse_error (\<lambda>_. seq advance_token (\<lambda>_. ret CcNull)))))))"

fun valueToAttribute :: "bool \<Rightarrow> cc_value \<Rightarrow> attr_content res" where
  "valueToAttribute rt CcNull = Inr \<lparr>runtimeAccess = rt, attr_str = None, attr_boolean = None, attr_value = NULL_VAL\<rparr>"
| "valueToAttribute rt (CcString s) =
     Inr \<lparr>runtimeAccess = rt, attr_str = Some (name_bytes s), attr_boolean = None, attr_value = NULL_VAL\<rparr>"
| "valueToAttribute rt (CcBool b) =
     Inr \<lparr>runtimeAccess = rt, attr_str = None, attr_boolean = Some b, attr_value = NULL_VAL\<rparr>"
| "valueToAttribute rt (CcInt i) = rbind (encode_number (double_of_int i)) (\<lambda>v.
     Inr \<lparr>runtimeAccess = rt, attr_str = None, attr_boolean = None, attr_value = v\<rparr>)"
| "valueToAttribute rt (CcNum d) = rbind (encode_number d) (\<lambda>v.
     Inr \<lparr>runtimeAccess = rt, attr_str = None, attr_boolean = None, attr_value = v\<rparr>)"
| "valueToAttribute rt CcUndefined = Inl Fatal"

definition previous_string :: "string parse" where
  "previous_string = seq (gets (\<lambda>p. CheckString (tok_value (previous p)))) lift_res"

definition add_attribute :: "bool \<Rightarrow> string \<Rightarrow> string \<Rightarrow> attr_pack \<Rightarrow> attr_pack parse" where
  "add_attribute rt grp name pack = seq (match TOKEN_EQ) (\<lambda>b.
     seq (if b then consumeLiteral else ret CcNull) (\<lambda>v. seq (lift_res (valueToAttribute rt v)) (\<lambda>content.
     let key = (name_bytes grp, name_bytes name);
         contents = (case map_of pack key of None \<Rightarrow> [] | Some cs \<Rightarrow> cs)
     in ret (AList.update key (contents @ [content]) pack))))"

definition grouped_attribute :: "bool \<Rightarrow> string \<Rightarrow> attr_pack \<Rightarrow> (attr_pack \<times> bool) parse" where
  "grouped_attribute rt grp pack = seq peek (\<lambda>ty.
     if ty = TOKEN_RIGHT_PAREN then ret (pack, False)
     else seq (consume TOKEN_NAME) (\<lambda>_. seq previous_string (\<lambda>name. seq (add_attribute rt grp name pack) (\<lambda>pack.
       seq ignoreNewlines (\<lambda>_. seq (match TOKEN_COMMA) (\<lambda>b.
         if \<not> b then ret (pack, False) else seq ignoreNewlines (\<lambda>_. ret (pack, True))))))))"

definition attribute_group :: "bool \<Rightarrow> string \<Rightarrow> attr_pack \<Rightarrow> attr_pack parse" where
  "attribute_group rt grp pack = seq ignoreNewlines (\<lambda>_. seq (match TOKEN_RIGHT_PAREN) (\<lambda>b.
     if b then seq parse_error (\<lambda>_. ret pack)
     else seq (parse_loop (grouped_attribute rt grp) pack) (\<lambda>pack. seq ignoreNewlines (\<lambda>_.
       seq (consume TOKEN_RIGHT_PAREN) (\<lambda>_. ret pack)))))"

definition one_attribute :: "attr_pack \<Rightarrow> attr_pack parse" where
  "one_attribute pack = seq (match TOKEN_BANG) (\<lambda>rt. seq (match TOKEN_NAME) (\<lambda>b.
     if \<not> b then seq parse_error (\<lambda>_. ret pack)
     else seq previous_string (\<lambda>grp. seq peek (\<lambda>ahead.
       if ahead = TOKEN_EQ \<or> ahead = TOKEN_LINE then add_attribute rt [] grp pack
       else seq (match TOKEN_LEFT_PAREN) (\<lambda>b.
         if b then attribute_group rt grp pack else seq parse_error (\<lambda>_. ret pack))))))"

definition matchAttribute :: "attr_pack option parse" where
  "matchAttribute = parse_loop (\<lambda>pack. seq (match TOKEN_HASH) (\<lambda>b.
     if \<not> b then ret (pack, False)
     else seq (one_attribute (case pack of None \<Rightarrow> [] | Some a \<Rightarrow> a)) (\<lambda>a. seq consumeLine (\<lambda>_.
       ret (Some a, True))))) None"

section \<open>Methods and classes\<close>

definition declareMethod :: "nat \<Rightarrow> nat \<Rightarrow> bool \<Rightarrow> nat parse" where
  "declareMethod cls sig forceStatic = seq (gets (\<lambda>p. class_nodes p ! cls)) (\<lambda>n.
     let isStatic = cn_inStatic n \<or> forceStatic; table = (if isStatic then cn_staticMethods n else cn_methods n) in
     seq (if map_of table sig \<noteq> None then parse_error else ret ()) (\<lambda>_.
     seq (gets (\<lambda>p. (length (method_nodes p), tok_line (previous p)))) (\<lambda>(m, line).
     seq (change (\<lambda>p. p\<lparr>method_nodes := method_nodes p @ [\<lparr>mn_signature = sig, mn_isForeign = False,
       mn_isStatic = isStatic, mn_lineNum = line, mn_fn = None, mn_attributes = None\<rparr>]\<rparr>)) (\<lambda>_.
     seq (change_class cls (\<lambda>n. if isStatic then n\<lparr>cn_staticMethods := AList.update sig m table\<rparr>
       else n\<lparr>cn_methods := AList.update sig m table\<rparr>)) (\<lambda>_. ret m)))))"

primrec copy_parameters :: "string list \<Rightarrow> nat list parse" where
  "copy_parameters [] = ret []"
| "copy_parameters (name # names) = seq (new_ssa name) (\<lambda>v. seq (copy_parameters names) (\<lambda>vs. ret (v # vs)))"

text \<open>A function without a compiler, with its only local variable.\<close>

definition new_function :: "string \<Rightarrow> (nat \<times> nat) parse" where
  "new_function local_name = seq (scoped (\<lambda>s.
     let f = length (fns s);
         (l, s) = new_local local_name
           (s\<lparr>fns := fns s @ [\<lparr>fn_upvalues = [], upvaluesByName = [], fn_locals = []\<rparr>]\<rparr>)
     in Inr ((f, l), upd_fn f (\<lambda>i. i\<lparr>fn_locals := [l]\<rparr>) s))) (\<lambda>r.
     seq (change (\<lambda>p. p\<lparr>fn_nodes := fn_nodes p @ [empty_fn None]\<rparr>)) (\<lambda>_. ret r))"

text \<open>The static method of a constructor: it allocates the object and calls the initialiser \<open>init\<close>.\<close>

definition constructor_alloc :: "nat \<Rightarrow> nat \<Rightarrow> signature \<Rightarrow> unit parse" where
  "constructor_alloc cls init sig = seq (normaliseSignature (sig\<lparr>sig_type := SIG_METHOD\<rparr>)) (\<lambda>i.
     seq (declareMethod cls i True) (\<lambda>m. seq (new_function ''alloc_temp_special'') (\<lambda>(f, obj).
     seq (AddNode_fn f) (\<lambda>_. seq (change_method m (\<lambda>n. n\<lparr>mn_fn := Some f\<rparr>)) (\<lambda>_.
     seq (gets (\<lambda>p. mn_fn (method_nodes p ! init))) (\<lambda>initFn. case initFn of
       None \<Rightarrow> stop Undefined
     | Some initFn \<Rightarrow>
       seq (gets (\<lambda>p. map (\<lambda>v. ssa_names p ! v) (fn_parameters (fn_nodes p ! initFn)))) (\<lambda>names.
       seq (copy_parameters names) (\<lambda>args. seq (gets (\<lambda>p. cn_isForeign (class_nodes p ! cls))) (\<lambda>foreign.
       seq (new_call None) (\<lambda>call.
       seq (call_expr call sig (ExprLoad (LocalVariable obj)) (map (\<lambda>v. ExprLoad (SSAVariable v)) args)) (\<lambda>e.
       change_fn f (\<lambda>n. n\<lparr>fn_enclosingClass := Some cls, fn_methodInfo := Some m, fn_parameters := args,
         fn_ssaVars := args, fn_body := Some (StmtBlock
           [StmtAssign (LocalVariable obj) (ExprAllocateInstanceMemory cls (if foreign then args else [])),
            StmtEvalAndIgnore e, StmtReturn (ExprLoad (LocalVariable obj))])\<rparr>))))))))))))"

text \<open>The body of a method, compiled in the function \<open>f\<close>.\<close>

definition method_body :: "grammar \<Rightarrow> nat \<Rightarrow> nat \<Rightarrow> nat \<Rightarrow> unit parse" where
  "method_body g cls m f = seq (consume TOKEN_LEFT_BRACE) (\<lambda>_.
     seq (change_method m (\<lambda>n. n\<lparr>mn_fn := Some f\<rparr>)) (\<lambda>_.
     seq (change_fn f (\<lambda>n. n\<lparr>fn_enclosingClass := Some cls, fn_methodInfo := Some m\<rparr>)) (\<lambda>_.
     seq (finishBody g True) (\<lambda>b. seq (change_fn f (\<lambda>n. n\<lparr>fn_body := Some b\<rparr>)) (\<lambda>_.
     seq finish_function (\<lambda>_. AddNode_fn f))))))"

text \<open>A method after its attributes and keywords; the function that compiles it is started for its parameters.\<close>

definition method_definition ::
  "grammar \<Rightarrow> nat \<Rightarrow> attr_pack option \<Rightarrow> bool \<Rightarrow> bool \<Rightarrow> (signature \<Rightarrow> signature parse) \<Rightarrow> unit parse" where
  "method_definition g cls attributes isForeign isStatic signatureFn = seq (signatureFromToken SIG_GETTER) (\<lambda>tmp.
     seq start_function (\<lambda>f. seq (signatureFn tmp) (\<lambda>tmp. seq (normaliseSignature tmp) (\<lambda>i.
     seq (gets (\<lambda>p. signatures p ! i)) (\<lambda>sig. let init = (sig_type sig = SIG_INITIALIZER) in
     seq (change_fn f (\<lambda>n. n\<lparr>isInitializer := init\<rparr>)) (\<lambda>_.
     seq (if isStatic \<and> init then parse_error else ret ()) (\<lambda>_. seq (declareMethod cls i False) (\<lambda>m.
     seq (change_method m (\<lambda>n. n\<lparr>mn_isForeign := isForeign, mn_attributes := attributes\<rparr>)) (\<lambda>_.
     seq (if isForeign then leave_compiler else method_body g cls m f) (\<lambda>_.
       if init then constructor_alloc cls m sig else ret ()))))))))))"

definition parse_method :: "grammar \<Rightarrow> nat \<Rightarrow> bool parse" where
  "parse_method g cls = seq matchAttribute (\<lambda>attributes. seq (match TOKEN_FOREIGN) (\<lambda>isForeign.
     seq (match TOKEN_STATIC) (\<lambda>isStatic. seq (change_class cls (\<lambda>n. n\<lparr>cn_inStatic := isStatic\<rparr>)) (\<lambda>_.
     seq (gets current_type) (\<lambda>ty. seq advance_token (\<lambda>_. case rule_method ty of
         None \<Rightarrow> seq parse_error (\<lambda>_. ret False)
       | Some signatureFn \<Rightarrow> seq (method_definition g cls attributes isForeign isStatic signatureFn) (\<lambda>_. ret True)))))))"

definition IsSystemName :: "bool \<Rightarrow> string \<Rightarrow> bool" where
  "IsSystemName cpp name \<longleftrightarrow> map_of (buildSysVarNames cpp) name \<noteq> None"

text \<open>A class of the core that is implemented in C++ cannot be extended.\<close>

fun system_parent :: "ir_expr option \<Rightarrow> bool" where
  "system_parent (Some (ExprSystemVar s)) \<longleftrightarrow> IsSystemName True s \<and> s \<noteq> ''Object''"
| "system_parent _ \<longleftrightarrow> False"

definition class_round :: "grammar \<Rightarrow> nat \<Rightarrow> unit \<Rightarrow> (unit \<times> bool) parse" where
  "class_round g cls u = seq (match TOKEN_RIGHT_BRACE) (\<lambda>b.
     if b then ret ((), False)
     else seq (parse_method g cls) (\<lambda>ok.
       if \<not> ok then ret ((), False)
       else seq (match TOKEN_RIGHT_BRACE) (\<lambda>b.
         if b then ret ((), False) else seq consumeLine (\<lambda>_. ret ((), True)))))"

definition classDefinition :: "grammar \<Rightarrow> bool \<Rightarrow> attr_pack option \<Rightarrow> ir_node parse" where
  "classDefinition g isForeign attributes = seq (consume TOKEN_NAME) (\<lambda>_.
     seq (gets (\<lambda>p. (tok_contents (previous p), compilingInternal p))) (\<lambda>(name, internal).
     seq (if MAX_VARIABLE_NAME < length name then parse_error else ret ()) (\<lambda>_.
     seq (match TOKEN_IS) (\<lambda>b.
     seq (if b then seq (operand g PREC_CALL) (\<lambda>e. ret (Some e)) else ret None) (\<lambda>parent.
     seq (if system_parent parent \<and> \<not> internal then parse_error else ret ()) (\<lambda>_.
     seq (gets (\<lambda>p. length (class_nodes p))) (\<lambda>cls.
     seq (change (\<lambda>p. p\<lparr>class_nodes := class_nodes p @ [\<lparr>cn_name = name, cn_parentClass = parent, cn_fields = [],
       cn_staticFields = [], cn_methods = [], cn_staticMethods = [], cn_isForeign = isForeign, cn_inStatic = False,
       cn_attributes = attributes, dynamicallyDefined = False\<rparr>]\<rparr>)) (\<lambda>_.
     seq (if IsSystemName False name \<and> \<not> internal then parse_error else ret ()) (\<lambda>_.
     seq (scoped (\<lambda>s. Inr ((), enter_class cls s))) (\<lambda>_. seq (consume TOKEN_LEFT_BRACE) (\<lambda>_. seq matchLine (\<lambda>_.
     seq (parse_loop (class_round g cls) ()) (\<lambda>_. seq (scoped (\<lambda>s. Inr ((), leave_class s))) (\<lambda>_.
     seq (change_class cls (\<lambda>n. n\<lparr>cn_inStatic := False\<rparr>)) (\<lambda>_. ret (NodeClass cls))))))))))))))))"

section \<open>Imports, variables and definitions\<close>

definition import_variable :: "(string \<times> var_decl) list \<Rightarrow> ((string \<times> var_decl) list \<times> bool) parse" where
  "import_variable vars = seq ignoreNewlines (\<lambda>_. seq (consume TOKEN_NAME) (\<lambda>_.
     seq (gets (\<lambda>p. tok_contents (previous p))) (\<lambda>name. seq (match TOKEN_AS) (\<lambda>b.
     seq (if b then declareNamedVariable else declare_variable name) (\<lambda>slot.
     seq (case slot of LocalVariable l \<Rightarrow> change (\<lambda>p. p\<lparr>disableSSA := l # disableSSA p\<rparr>) | _ \<Rightarrow> ret ()) (\<lambda>_.
     seq (match TOKEN_COMMA) (\<lambda>more. ret (vars @ [(name, slot)], more))))))))"

definition importStatement :: "grammar \<Rightarrow> ir_stmt parse" where
  "importStatement g = seq ignoreNewlines (\<lambda>_. seq (consume TOKEN_STRING) (\<lambda>_. seq previous_string (\<lambda>name.
     seq (match TOKEN_FOR) (\<lambda>b.
       if \<not> b then ret (StmtLoadModule name [])
       else seq (parse_loop import_variable []) (\<lambda>vars. ret (StmtLoadModule name vars))))))"

definition variableDefinition :: "grammar \<Rightarrow> ir_stmt parse" where
  "variableDefinition g = seq (consume TOKEN_NAME) (\<lambda>_. seq (gets (\<lambda>p. tok_contents (previous p))) (\<lambda>name.
     seq (match TOKEN_EQ) (\<lambda>b.
     seq (if b then seq ignoreNewlines (\<lambda>_. an_expression g) else ret (ExprConst CcNull)) (\<lambda>e.
     seq (declare_variable name) (\<lambda>var. defineVariable var e)))))"

definition parse_definition :: "grammar \<Rightarrow> ir_node parse" where
  "parse_definition g = seq matchAttribute (\<lambda>attributes.
     seq (match TOKEN_CLASS) (\<lambda>b. if b then classDefinition g False attributes else
     seq (match TOKEN_FOREIGN) (\<lambda>b.
       if b then seq (consume TOKEN_CLASS) (\<lambda>_. classDefinition g True attributes) else
     seq (if attributes \<noteq> None then parse_error else ret ()) (\<lambda>_.
     seq (match TOKEN_IMPORT) (\<lambda>b. if b then seq (importStatement g) (\<lambda>s. ret (NodeStmt s)) else
     seq (match TOKEN_VAR) (\<lambda>b. if b then seq (variableDefinition g) (\<lambda>s. ret (NodeStmt s)) else
     seq (parse_statement g) (\<lambda>s. ret (case s of None \<Rightarrow> NodeNull | Some s \<Rightarrow> NodeStmt s))))))))"

section \<open>Modules\<close>

text \<open>The grammar with a limit on the depth of its recursion.\<close>

primrec grammar_at :: "nat \<Rightarrow> grammar" where
  "grammar_at 0 = \<lparr>operand = (\<lambda>prec p. None), a_statement = (\<lambda>p. None), a_definition = (\<lambda>p. None)\<rparr>"
| "grammar_at (Suc n) = (let g = grammar_at n in
     \<lparr>operand = parsePrecedence g, a_statement = parse_statement g, a_definition = parse_definition g\<rparr>)"

text \<open>The global variable of a class: a new one, or one that has been used but not defined.\<close>

definition class_global :: "string \<Rightarrow> scope_state \<Rightarrow> (bool \<times> scope_state) res" where
  "class_global name st = (let (added, st') = AddVariable name st in
     if added then Inr (True, st')
     else case FindVariable name st of
         Some (Some line) \<Rightarrow> Inr (True, st\<lparr>m_globals := AList.update name None (m_globals st)\<rparr>)
       | _ \<Rightarrow> Inr (False, st))"

definition module_class :: "nat \<Rightarrow> ir_stmt list \<Rightarrow> ir_stmt list parse" where
  "module_class cls stmts = seq (AddNode_class cls) (\<lambda>_. seq (gets (\<lambda>p. cn_name (class_nodes p ! cls))) (\<lambda>name.
     let globalName = name @ (if IsSystemName True name then ''_gbl'' else []) in
     seq (scoped (class_global globalName)) (\<lambda>b.
       if \<not> b then seq parse_error (\<lambda>_. ret stmts)
       else seq (change (\<lambda>p. p\<lparr>global_classes := (globalName, cls) # global_classes p\<rparr>)) (\<lambda>_.
         ret (stmts @ [StmtDefineClass cls (IRGlobalDecl globalName)])))))"

definition module_round :: "grammar \<Rightarrow> ir_stmt list \<times> bool \<Rightarrow> ((ir_stmt list \<times> bool) \<times> bool) parse" where
  "module_round g r = (let (stmts, hitEOF) = r in seq (match TOKEN_EOF) (\<lambda>eof.
     if eof \<or> hitEOF then ret (r, False)
     else seq (a_definition g) (\<lambda>node. seq matchLine (\<lambda>line.
       seq (if line then ret () else consume TOKEN_EOF) (\<lambda>_.
       seq (case node of
           NodeNull \<Rightarrow> ret stmts
         | NodeStmt s \<Rightarrow> ret (stmts @ [s])
         | NodeClass cls \<Rightarrow> module_class cls stmts) (\<lambda>stmts.
       ret ((stmts, \<not> line), True)))))))"

definition module_body :: "grammar \<Rightarrow> bool \<Rightarrow> ir_stmt parse" where
  "module_body g isExpression =
     (if isExpression then seq (an_expression g) (\<lambda>e. seq (consume TOKEN_EOF) (\<lambda>_. ret (StmtBlock [StmtReturn e])))
      else seq (parse_loop (module_round g) ([], False)) (\<lambda>(stmts, _).
        ret (StmtBlock (stmts @ [StmtReturn (ExprConst CcNull)]))))"

text \<open>Variables that were used and never defined.\<close>

primrec report_undeclared :: "(string \<times> int option) list \<Rightarrow> unit parse" where
  "report_undeclared [] = ret ()"
| "report_undeclared (g # gs) = seq (case snd g of
     None \<Rightarrow> ret ()
   | Some line \<Rightarrow> seq (change (\<lambda>p. p\<lparr>lx := (lx p)\<lparr>previous_token := (previous_token (lx p))\<lparr>tok_type := TOKEN_NAME,
         tok_contents := fst g, tok_line := line\<rparr>\<rparr>\<rparr>)) (\<lambda>_. parse_error)) (\<lambda>_. report_undeclared gs)"

definition compile_module :: "bool \<Rightarrow> nat option parse" where
  "compile_module isExpression = seq (gets (\<lambda>p. grammar_at (2 * psize p + 2))) (\<lambda>g.
     seq advance_token (\<lambda>_. seq advance_token (\<lambda>_. seq start_function (\<lambda>f. seq ignoreNewlines (\<lambda>_.
     seq (AddNode_fn f) (\<lambda>_. seq (gets m_functions) (\<lambda>fs. seq (ASSERT (hd fs = f)) (\<lambda>_.
     seq (change_fn f (\<lambda>n. n\<lparr>fn_rootBegin := None\<rparr>)) (\<lambda>_. seq (module_body g isExpression) (\<lambda>b.
     seq (change_fn f (\<lambda>n. n\<lparr>fn_body := Some b\<rparr>)) (\<lambda>_.
     seq (gets (\<lambda>p. m_globals (scopes p))) (\<lambda>globals. seq (report_undeclared globals) (\<lambda>_.
     seq finish_function (\<lambda>_. seq (gets has_error) (\<lambda>e. ret (if e then None else Some f))))))))))))))))"

text \<open>
  A new parser for a module in any state: \<open>m\<close> holds the nodes that exist (of this and of other modules), what
  the module has so far (\<open>m_functions\<close>, \<open>m_classes\<close>, the globals) and the signatures of the context.  The
  parser has no compiler yet, and no error.
\<close>

definition start_parser :: "lexer_lib \<Rightarrow> parser \<Rightarrow> string \<Rightarrow> bool \<Rightarrow> parser" where
  "start_parser lib m src compilingCore = m\<lparr>lex_lib := lib, lx := start_lexer src,
     scopes := (scopes m)\<lparr>compilers := [], previous_is_error := False, comp_hasError := False\<rparr>,
     compilingInternal := compilingCore\<rparr>"

text \<open>The main function of the module with the source, or a null pointer after an error.\<close>

definition wrenCompile ::
  "lexer_lib \<Rightarrow> parser \<Rightarrow> string \<Rightarrow> bool \<Rightarrow> bool \<Rightarrow> (nat option \<times> parser) res option" where
  "wrenCompile lib m src isExpression compilingCore =
     compile_module isExpression (start_parser lib m src compilingCore)"

end
