(* ===== verification/Parser_Termination.thy ===== *)
theory Parser_Termination
  imports Parser_Statements
begin

text \<open>
  The compiler ends on every source: neither the limit on the depth of the grammar's recursion nor those on the
  rounds of its loops are ever reached.  \<open>reads k n m\<close> says that \<open>m\<close> ends when less than \<open>n\<close> is left to read,
  and then has read at least \<open>k\<close> of it, as far as there was something.
\<close>

section \<open>Operations that read\<close>

definition reads :: "nat \<Rightarrow> nat \<Rightarrow> 'a parse \<Rightarrow> bool" where
  "reads k n m \<longleftrightarrow> (\<forall>p. psize p < n \<longrightarrow> (case m p of
     None \<Rightarrow> False | Some (Inl e) \<Rightarrow> True | Some (Inr (x, p')) \<Rightarrow> psize p' \<le> psize p - k))"

named_theorems reads_rules \<open>how the operations of the parser read\<close>

lemma readsI:
  "(\<And>p. psize p < n \<Longrightarrow> (\<exists>e. m p = Some (Inl e)) \<or> (\<exists>x p'. m p = Some (Inr (x, p')) \<and> psize p' \<le> psize p - k)) \<Longrightarrow>
    reads k n m"
  by (fastforce simp: reads_def)

lemma reads_cases:
  assumes "reads k n m" "psize p < n"
  obtains e where "m p = Some (Inl e)" | x p' where "m p = Some (Inr (x, p'))" "psize p' \<le> psize p - k"
proof -
  have "case m p of None \<Rightarrow> False | Some (Inl e) \<Rightarrow> True | Some (Inr (x, p')) \<Rightarrow> psize p' \<le> psize p - k"
    using assms by (simp add: reads_def)
  then show thesis using that by (auto split: option.splits sum.splits)
qed

lemma reads_less: "reads k n m \<Longrightarrow> n' \<le> n \<Longrightarrow> reads k n' m"
  by (auto simp: reads_def)

lemma reads_result: "reads k n m \<Longrightarrow> psize p < n \<Longrightarrow> m p = Some (Inr (x, p')) \<Longrightarrow> psize p' \<le> psize p - k"
  by (erule reads_cases) auto

lemma reads_weak: "reads k n m \<Longrightarrow> reads 0 n m"
  by (rule readsI) (auto elim: reads_cases)

lemma reads_seq [reads_rules]:
  assumes "reads 0 n m" "\<And>x. reads 0 n (f x)"
  shows "reads 0 n (seq m f)"
proof (rule readsI)
  fix p
  assume p: "psize p < n"
  from assms(1) p show "(\<exists>e. seq m f p = Some (Inl e)) \<or>
      (\<exists>x p'. seq m f p = Some (Inr (x, p')) \<and> psize p' \<le> psize p - 0)"
  proof (cases rule: reads_cases)
    case (2 x p1)
    then have "psize p1 < n" using p by simp
    from assms(2) this show ?thesis by (cases rule: reads_cases) (use 2 in \<open>auto simp: seq_def\<close>)
  qed (simp add: seq_def)
qed

text \<open>The first operation reads, or the second.\<close>

lemma reads_first:
  assumes "reads 1 n m" "\<And>x. reads 0 n (f x)"
  shows "reads 1 n (seq m f)"
proof (rule readsI)
  fix p
  assume p: "psize p < n"
  from assms(1) p show "(\<exists>e. seq m f p = Some (Inl e)) \<or>
      (\<exists>x p'. seq m f p = Some (Inr (x, p')) \<and> psize p' \<le> psize p - 1)"
  proof (cases rule: reads_cases)
    case (2 x p1)
    then have "psize p1 < n" using p by simp
    from assms(2) this show ?thesis by (cases rule: reads_cases) (use 2 in \<open>auto simp: seq_def\<close>)
  qed (simp add: seq_def)
qed

lemma reads_second:
  assumes "reads 0 n m" "\<And>x. reads 1 n (f x)"
  shows "reads 1 n (seq m f)"
proof (rule readsI)
  fix p
  assume p: "psize p < n"
  from assms(1) p show "(\<exists>e. seq m f p = Some (Inl e)) \<or>
      (\<exists>x p'. seq m f p = Some (Inr (x, p')) \<and> psize p' \<le> psize p - 1)"
  proof (cases rule: reads_cases)
    case (2 x p1)
    then have "psize p1 < n" using p by simp
    from assms(2) this show ?thesis by (cases rule: reads_cases) (use 2 in \<open>auto simp: seq_def\<close>)
  qed (simp add: seq_def)
qed

lemma reads_basic [reads_rules]:
  "reads 0 n (ret x)" "reads k n (stop e)" "reads 0 n (gets f)" "reads 0 n (lift_res r)" "reads 0 n (ASSERT b)"
  "reads 0 n (scoped h)" "reads 0 n this_compiler" "reads 0 n (assign_stmt v w)"
  by (auto simp: reads_def ret_def stop_def gets_def lift_res_def ASSERT_def scoped_def this_compiler_def
      assign_stmt_def psize_def map_sum_def split: sum.split)

lemma reads_change: "(\<And>p. lx (h p) = lx p) \<Longrightarrow> reads 0 n (change h)"
  by (simp add: reads_def change_def psize_def)

lemma to_read_previous [simp]: "to_read (l\<lparr>previous_token := t\<rparr>) = to_read l"
  by (simp add: to_read_def left_def)

lemma reads_previous [reads_rules]: "reads 0 n (change (\<lambda>p. p\<lparr>lx := (lx p)\<lparr>previous_token := t p\<rparr>\<rparr>))"
  by (simp add: reads_def change_def psize_def)

lemma reads_if [reads_rules]: "(b \<Longrightarrow> reads k n m) \<Longrightarrow> (\<not> b \<Longrightarrow> reads k n m') \<Longrightarrow> reads k n (if b then m else m')"
  by simp

lemma reads_option [reads_rules]:
  "reads k n m \<Longrightarrow> (\<And>x. reads k n (f x)) \<Longrightarrow> reads k n (case v of None \<Rightarrow> m | Some x \<Rightarrow> f x)"
  by (cases v) auto

lemma reads_prod [reads_rules]: "(\<And>x y. reads k n (f x y)) \<Longrightarrow> reads k n (case v of (x, y) \<Rightarrow> f x y)"
  by (cases v) auto

lemma reads_let [reads_rules]: "(\<And>x. reads k n (f x)) \<Longrightarrow> reads k n (let x = v in f x)"
  by simp

lemma reads_sum [reads_rules]:
  "(\<And>x. reads k n (f x)) \<Longrightarrow> (\<And>y. reads k n (h y)) \<Longrightarrow> reads k n (case v of Inl x \<Rightarrow> f x | Inr y \<Rightarrow> h y)"
  by (cases v) auto

lemma reads_list [reads_rules]:
  "reads k n m \<Longrightarrow> (\<And>x xs. reads k n (f x xs)) \<Longrightarrow> reads k n (case v of [] \<Rightarrow> m | x # xs \<Rightarrow> f x xs)"
  by (cases v) auto

lemma advance_reads: "reads 1 n advance_token"
proof (rule readsI)
  fix p
  show "(\<exists>e. advance_token p = Some (Inl e)) \<or>
      (\<exists>x p'. advance_token p = Some (Inr (x, p')) \<and> psize p' \<le> psize p - 1)"
  proof (cases "nextToken (lex_lib p) (lx p)")
    case (Inr l)
    then show ?thesis using nextToken_to_read [OF Inr] by (auto simp: advance_token_def psize_def)
  qed (simp add: advance_token_def)
qed

lemma advance_reads_weak [reads_rules]: "reads 0 n advance_token"
  by (rule reads_weak [OF advance_reads])

lemma nothing_left: "psize p = 0 \<Longrightarrow> current_type p = TOKEN_EOF"
  using nothing_to_read [of "lx p"]
  by (cases "current_type p") (simp_all add: psize_def current_type_def is_eof_def)

lemma match_reads [reads_rules]: "reads 0 n (match ty)"
  unfolding match_def peek_def by (intro reads_rules)

text \<open>What comes after a token that is not the last has less to read.\<close>

lemma match_less:
  assumes "ty \<noteq> TOKEN_EOF" "reads k (n - 1) (f True)" "reads k n (f False)" "k \<le> 1"
  shows "reads k n (seq (match ty) f)"
proof (rule readsI)
  fix p
  assume p: "psize p < n"
  show "(\<exists>e. seq (match ty) f p = Some (Inl e)) \<or>
      (\<exists>x p'. seq (match ty) f p = Some (Inr (x, p')) \<and> psize p' \<le> psize p - k)"
  proof (cases "current_type p = ty")
    case True
    then have some: "psize p \<noteq> 0" using nothing_left assms(1) by metis
    have "match ty p = seq advance_token (\<lambda>_. ret True) p"
      using True by (simp add: match_def peek_def gets_def seq_def)
    moreover from advance_reads p have "(\<exists>e. advance_token p = Some (Inl e)) \<or>
        (\<exists>x p'. advance_token p = Some (Inr (x, p')) \<and> psize p' \<le> psize p - 1)"
      by (cases rule: reads_cases) auto
    ultimately consider e where "match ty p = Some (Inl e)"
      | p1 where "match ty p = Some (Inr (True, p1))" "psize p1 \<le> psize p - 1"
      by (auto simp: seq_def ret_def)
    then show ?thesis
    proof cases
      case (2 p1)
      then have "psize p1 < n - 1" using some p by simp
      from assms(2) this show ?thesis
        by (cases rule: reads_cases) (use 2 some assms(4) in \<open>auto simp: seq_def\<close>)
    qed (simp add: seq_def)
  next
    case False
    then have m: "match ty p = Some (Inr (False, p))" by (simp add: match_def peek_def gets_def seq_def ret_def)
    from assms(3) p show ?thesis by (cases rule: reads_cases) (use m in \<open>auto simp: seq_def\<close>)
  qed
qed

lemma seq_match_not: "current_type p \<noteq> ty \<Longrightarrow> seq (match ty) f p = f False p"
  by (simp add: match_def peek_def gets_def seq_def ret_def)

lemma match_case:
  assumes "ty \<noteq> TOKEN_EOF" "reads 0 n m" "reads 0 (Suc n) m'"
  shows "reads 0 (Suc n) (seq (match ty) (\<lambda>b. if b then m else m'))"
  using assms by (intro match_less) simp_all

lemma parse_error_reads [reads_rules]: "reads 0 n parse_error"
  unfolding parse_error_def by (rule reads_change) simp

lemma consume_reads: "reads 1 n (consume ty)"
  unfolding consume_def peek_def by (intro reads_first advance_reads reads_rules)

lemma consume_reads_weak [reads_rules]: "reads 0 n (consume ty)"
  by (rule reads_weak [OF consume_reads])

section \<open>Loops\<close>

text \<open>The rounds of a loop: one that is not the last reads.\<close>

definition round_reads :: "nat \<Rightarrow> ('a \<times> bool) parse \<Rightarrow> bool" where
  "round_reads n m \<longleftrightarrow> reads 0 n m \<and>
     (\<forall>p x p'. psize p < n \<longrightarrow> m p = Some (Inr ((x, True), p')) \<longrightarrow> psize p' < psize p)"

lemma rounds_reads:
  assumes "\<And>x. round_reads n (f x)" "psize p < k" "psize p < n"
  shows "(\<exists>e. rounds k f x p = Some (Inl e)) \<or> (\<exists>y p'. rounds k f x p = Some (Inr (y, p')) \<and> psize p' \<le> psize p)"
  using assms(2,3)
proof (induction k arbitrary: x p)
  case (Suc k)
  have r: "reads 0 n (f x)" and
    more: "\<And>y p'. f x p = Some (Inr ((y, True), p')) \<Longrightarrow> psize p' < psize p"
    using assms(1) [of x] Suc.prems by (auto simp: round_reads_def)
  from r Suc.prems(2) show ?case
  proof (cases rule: reads_cases)
    case (2 y p1)
    show ?thesis
    proof (cases "snd y")
      case True
      then have f: "f x p = Some (Inr ((fst y, True), p1))" using 2 by (cases y) simp
      have p1: "psize p1 < psize p" using more [OF f] .
      then have "psize p1 < k" "psize p1 < n" using Suc.prems by simp_all
      from Suc.IH [OF this, of "fst y"] p1 show ?thesis using f by (auto simp: seq_def)
    next
      case False
      then show ?thesis using 2 by (cases y) (simp add: seq_def ret_def)
    qed
  qed (simp add: seq_def)
qed simp

lemma loop_reads [reads_rules]:
  assumes "\<And>x. round_reads n (f x)"
  shows "reads 0 n (parse_loop f x)"
proof (rule readsI)
  fix p
  assume "psize p < n"
  from rounds_reads [of n f p "Suc (psize p)" x, OF assms _ this]
  show "(\<exists>e. parse_loop f x p = Some (Inl e)) \<or>
      (\<exists>y p'. parse_loop f x p = Some (Inr (y, p')) \<and> psize p' \<le> psize p - 0)"
    by (auto simp: parse_loop_def)
qed

named_theorems round_rules \<open>how the rounds of the parser's loops read\<close>

lemma round_seq [round_rules]:
  assumes "reads 0 n m" "\<And>x. round_reads n (f x)"
  shows "round_reads n (seq m f)"
  unfolding round_reads_def
proof (intro conjI allI impI)
  show "reads 0 n (seq m f)" using assms by (intro reads_seq) (simp_all add: round_reads_def)
  fix p x p'
  assume p: "psize p < n" and s: "seq m f p = Some (Inr ((x, True), p'))"
  from assms(1) p show "psize p' < psize p"
  proof (cases rule: reads_cases)
    case (2 y p1)
    have "psize p1 < n" using 2 p by simp
    then show ?thesis using assms(2) [of y] 2 s by (fastforce simp: round_reads_def seq_def)
  qed (use s in \<open>simp add: seq_def\<close>)
qed

lemma round_last [round_rules]: "round_reads n (ret (x, False))"
  using reads_basic(1) by (simp add: round_reads_def ret_def)

lemma round_match [round_rules]:
  assumes "ty \<noteq> TOKEN_EOF"
  shows "round_reads n (seq (match ty) (\<lambda>more. ret (h more, more)))"
  unfolding round_reads_def
proof (intro conjI allI impI)
  show "reads 0 n (seq (match ty) (\<lambda>more. ret (h more, more)))" by (intro reads_rules)
  fix p x p'
  assume p: "psize p < n" and s: "seq (match ty) (\<lambda>more. ret (h more, more)) p = Some (Inr ((x, True), p'))"
  then have m: "match ty p = Some (Inr (True, p'))"
    by (auto simp: seq_def ret_def split: option.splits sum.splits)
  then have "current_type p = ty" "advance_token p = Some (Inr ((), p'))"
    by (auto simp: match_def peek_def gets_def seq_def ret_def split: if_splits option.splits sum.splits)
  moreover have "psize p \<noteq> 0" using nothing_left [of p] assms calculation(1) by metis
  moreover from advance_reads p have "psize p' \<le> psize p - 1"
    by (cases rule: reads_cases) (use calculation(2) in auto)
  ultimately show "psize p' < psize p" by simp
qed

text \<open>A round that goes on only after a token, or only if something is left after a token was read.\<close>

lemma round_less:
  assumes "ty \<noteq> TOKEN_EOF" "reads 0 n (f True)" "round_reads n (f False)"
  shows "round_reads n (seq (match ty) f)"
  unfolding round_reads_def
proof (intro conjI allI impI)
  show "reads 0 n (seq (match ty) f)"
    using assms by (intro match_less) (auto simp: round_reads_def intro: reads_less)
  fix p x p'
  assume p: "psize p < n" and s: "seq (match ty) f p = Some (Inr ((x, True), p'))"
  show "psize p' < psize p"
  proof (cases "current_type p = ty")
    case True
    then have some: "psize p \<noteq> 0" using nothing_left assms(1) by metis
    obtain p1 where p1: "advance_token p = Some (Inr ((), p1))" "f True p1 = Some (Inr ((x, True), p'))"
      using s True by (auto simp: match_def peek_def gets_def seq_def ret_def split: option.splits sum.splits)
    from advance_reads p have "psize p1 \<le> psize p - 1"
      by (cases rule: reads_cases) (use p1(1) in auto)
    moreover from assms(2) have "psize p' \<le> psize p1"
      by (cases rule: reads_cases [of 0 n "f True" p1]) (use p1(2) p calculation in auto)
    ultimately show ?thesis using some by simp
  next
    case False
    then have "f False p = Some (Inr ((x, True), p'))"
      using s by (simp add: match_def peek_def gets_def seq_def ret_def)
    then show ?thesis using assms(3) p by (auto simp: round_reads_def)
  qed
qed

lemma round_if [round_rules]:
  "(b \<Longrightarrow> round_reads n m) \<Longrightarrow> (\<not> b \<Longrightarrow> round_reads n m') \<Longrightarrow> round_reads n (if b then m else m')"
  by simp

lemma round_let [round_rules]: "(\<And>x. round_reads n (f x)) \<Longrightarrow> round_reads n (let x = v in f x)"
  by simp

lemma round_prod [round_rules]: "(\<And>x y. round_reads n (f x y)) \<Longrightarrow> round_reads n (case v of (x, y) \<Rightarrow> f x y)"
  by (cases v) auto

text \<open>A round that reads, and is the last one when nothing is left.\<close>

lemma round_alive:
  assumes "reads 1 n m" "\<And>p x p'. psize p < n \<Longrightarrow> m p = Some (Inr ((x, True), p')) \<Longrightarrow> psize p \<noteq> 0"
  shows "round_reads n m"
  unfolding round_reads_def
proof (intro conjI allI impI)
  show "reads 0 n m" using assms(1) by (rule reads_weak)
  fix p x p'
  assume p: "psize p < n" "m p = Some (Inr ((x, True), p'))"
  from assms(1) p(1) have "psize p' \<le> psize p - 1"
    by (cases rule: reads_cases) (use p(2) in auto)
  then show "psize p' < psize p" using assms(2) [OF p] by simp
qed

section \<open>Below the grammar\<close>

lemma reads_declared [reads_rules]:
  "(\<And>x. reads k n (f x)) \<Longrightarrow> (\<And>x. reads k n (h x)) \<Longrightarrow> reads k n m \<Longrightarrow>
    reads k n (case v of DeclGlobal x \<Rightarrow> f x | DeclLocal x \<Rightarrow> h x | DeclNothing \<Rightarrow> m)"
  by (cases v) auto

lemma reads_this_var [reads_rules]:
  "reads k n m \<Longrightarrow> (\<And>x. reads k n (f x)) \<Longrightarrow> reads k n (case v of Receiver \<Rightarrow> m | ThisUpvalue x \<Rightarrow> f x)"
  by (cases v) auto

lemma reads_name_meaning [reads_rules]:
  "(\<And>x. reads k n (a x)) \<Longrightarrow> (\<And>x. reads k n (b x)) \<Longrightarrow> (\<And>x. reads k n (c x)) \<Longrightarrow> (\<And>x. reads k n (d x)) \<Longrightarrow>
    reads k n (case v of NameVar x \<Rightarrow> a x | NameSelfCall x \<Rightarrow> b x | NameSystem x \<Rightarrow> c x | NameGlobal x \<Rightarrow> d x)"
  by (cases v) auto

lemma reads_ir_node [reads_rules]:
  "reads k n m \<Longrightarrow> (\<And>x. reads k n (a x)) \<Longrightarrow> (\<And>x. reads k n (b x)) \<Longrightarrow>
    reads k n (case v of NodeNull \<Rightarrow> m | NodeStmt x \<Rightarrow> a x | NodeClass x \<Rightarrow> b x)"
  by (cases v) auto

lemma reads_var_decl [reads_rules]:
  "(\<And>x. reads k n (a x)) \<Longrightarrow> (\<And>x. reads k n (b x)) \<Longrightarrow> (\<And>x. reads k n (c x)) \<Longrightarrow> (\<And>x. reads k n (d x)) \<Longrightarrow>
    reads k n (case v of LocalVariable x \<Rightarrow> a x | SSAVariable x \<Rightarrow> b x | UpvalueVariable x \<Rightarrow> c x | IRGlobalDecl x \<Rightarrow> d x)"
  by (cases v) auto

lemma reads_scope_var [reads_rules]:
  "(\<And>x. reads k n (a x)) \<Longrightarrow> (\<And>x y. reads k n (b x y)) \<Longrightarrow>
    reads k n (case v of LocalVar x \<Rightarrow> a x | Upvalue x y \<Rightarrow> b x y)"
  by (cases v) auto

lemma peek_reads [reads_rules]: "reads 0 n peek"
  unfolding peek_def by (intro reads_rules reads_change; simp)

lemma peekNext_reads [reads_rules]: "reads 0 n peekNext"
  unfolding peekNext_def by (intro reads_rules reads_change; simp)

lemma change_fn_reads [reads_rules]: "reads 0 n (change_fn f h)"
  unfolding change_fn_def by (intro reads_rules reads_change; simp)

lemma change_class_reads [reads_rules]: "reads 0 n (change_class c h)"
  unfolding change_class_def by (intro reads_rules reads_change; simp)

lemma change_method_reads [reads_rules]: "reads 0 n (change_method m h)"
  unfolding change_method_def by (intro reads_rules reads_change; simp)

lemma AddNode_fn_reads [reads_rules]: "reads 0 n (AddNode_fn f)"
  unfolding AddNode_fn_def by (intro reads_rules reads_change; simp)

lemma AddNode_class_reads [reads_rules]: "reads 0 n (AddNode_class c)"
  unfolding AddNode_class_def by (intro reads_rules reads_change; simp)

lemma this_fn_reads [reads_rules]: "reads 0 n this_fn"
  unfolding this_fn_def by (intro reads_rules reads_change; simp)

lemma start_function_reads [reads_rules]: "reads 0 n start_function"
  unfolding start_function_def by (intro reads_rules reads_change; simp)

lemma leave_compiler_reads [reads_rules]: "reads 0 n leave_compiler"
  unfolding leave_compiler_def by (intro reads_rules reads_change; simp)

lemma finish_function_reads [reads_rules]: "reads 0 n finish_function"
  unfolding finish_function_def by (intro reads_rules reads_change; simp)

lemma new_ssa_reads [reads_rules]: "reads 0 n (new_ssa s)"
  unfolding new_ssa_def by (intro reads_rules reads_change; simp)

lemma addTemporary_reads [reads_rules]: "reads 0 n (addTemporary s)"
  unfolding addTemporary_def by (intro reads_rules reads_change; simp)

lemma new_label_reads [reads_rules]: "reads 0 n new_label"
  unfolding new_label_def by (intro reads_rules reads_change; simp)

lemma new_call_reads [reads_rules]: "reads 0 n (new_call c)"
  unfolding new_call_def by (intro reads_rules reads_change; simp)

lemma decl_of_reads [reads_rules]: "reads 0 n (decl_of v)"
  unfolding decl_of_def by (intro reads_rules reads_change; simp)

lemma declare_variable_reads [reads_rules]: "reads 0 n (declare_variable s)"
  unfolding declare_variable_def by (intro reads_rules reads_change; simp)

lemma declareNamedVariable_reads [reads_rules]: "reads 0 n declareNamedVariable"
  unfolding declareNamedVariable_def by (intro reads_rules reads_change; simp)

lemma defineVariable_reads [reads_rules]: "reads 0 n (defineVariable v w)"
  unfolding defineVariable_def by (intro reads_rules reads_change; simp)

lemma open_scope_reads [reads_rules]: "reads 0 n open_scope"
  unfolding open_scope_def by (intro reads_rules reads_change; simp)

lemma close_scope_reads [reads_rules]: "reads 0 n close_scope"
  unfolding close_scope_def by (intro reads_rules reads_change; simp)

lemma discard_loop_reads [reads_rules]: "reads 0 n discard_loop"
  unfolding discard_loop_def by (intro reads_rules reads_change; simp)

lemma discard_since_reads [reads_rules]: "reads 0 n (discard_since i)"
  unfolding discard_since_def by (intro reads_rules reads_change; simp)

lemma begin_upvalues_reads [reads_rules]: "reads 0 n (begin_upvalues b)"
  unfolding begin_upvalues_def by (intro reads_rules reads_change; simp)

lemma normaliseSignature_reads [reads_rules]: "reads 0 n (normaliseSignature s)"
  unfolding normaliseSignature_def by (intro reads_rules reads_change; simp)

lemma signatureFromToken_reads [reads_rules]: "reads 0 n (signatureFromToken t)"
  unfolding signatureFromToken_def by (intro reads_rules reads_change; simp)

lemma validateNumParameters_reads [reads_rules]: "reads 0 n (validateNumParameters i)"
  unfolding validateNumParameters_def by (intro reads_rules reads_change; simp)

lemma call_expr_reads [reads_rules]: "reads 0 n (call_expr c s r a)"
  unfolding call_expr_def by (intro reads_rules reads_change; simp)

lemma callMethod_reads [reads_rules]: "reads 0 n (callMethod s r a)"
  unfolding callMethod_def by (intro reads_rules reads_change; simp)

lemma addParameterLocal_reads [reads_rules]: "reads 0 n (addParameterLocal l)"
  unfolding addParameterLocal_def by (intro reads_rules reads_change; simp)

lemma parameter_variable_reads [reads_rules]: "reads 0 n (parameter_variable v)"
  unfolding parameter_variable_def by (intro reads_rules reads_change; simp)

lemma matchLine_reads [reads_rules]: "reads 0 n matchLine"
  unfolding matchLine_def by (intro reads_rules round_rules; simp)

lemma ignoreNewlines_reads [reads_rules]: "reads 0 n ignoreNewlines"
  unfolding ignoreNewlines_def by (intro reads_rules reads_change; simp)

lemma allowLineBeforeDot_reads [reads_rules]: "reads 0 n allowLineBeforeDot"
  unfolding allowLineBeforeDot_def by (intro reads_rules reads_change; simp)

lemma consumeLine_reads: "reads 1 n consumeLine"
  unfolding consumeLine_def by (intro reads_first consume_reads reads_rules)

lemma consumeLine_reads_weak [reads_rules]: "reads 0 n consumeLine"
  by (rule reads_weak [OF consumeLine_reads])

lemma finishParameterList_reads [reads_rules]: "reads 0 n (finishParameterList s)"
  unfolding finishParameterList_def by (intro reads_rules round_rules; simp)

section \<open>The grammar\<close>

text \<open>A grammar whose functions end when less than \<open>n\<close> is left; then so do those that are built on it.\<close>

locale small_grammar =
  fixes g :: grammar and n :: nat
  assumes operand_reads [reads_rules]: "1 \<le> prec \<Longrightarrow> reads 0 n (operand g prec)"
    and a_statement_reads [reads_rules]: "reads 0 n (a_statement g)"
    and a_definition_reads [reads_rules]: "reads 0 n (a_definition g)"
begin

lemma an_expression_reads [reads_rules]: "reads 0 n (an_expression g)"
  unfolding an_expression_def by (intro reads_rules reads_change; simp)

lemma block_class_reads [reads_rules]: "reads 0 n (block_class t c ss)"
  unfolding block_class_def by (intro reads_rules; simp)

lemma block_definition_round [round_rules]: "round_reads n (block_definition g ss)"
proof (rule round_alive)
  show "reads 1 n (block_definition g ss)"
    unfolding block_definition_def peek_def
    by (rule reads_second, intro reads_rules, rule reads_second, intro reads_rules, rule reads_first, rule consumeLine_reads)
      (intro reads_rules; simp)
  fix p x p'
  assume p: "psize p < n" and b: "block_definition g ss p = Some (Inr ((x, True), p'))"
  have "psize p' \<noteq> 0"
  proof
    assume "psize p' = 0"
    then have "current_type p' = TOKEN_EOF" by (rule nothing_left)
    then show False
      using b by (auto simp: block_definition_def peek_def seq_def gets_def ret_def split: option.splits sum.splits)
  qed
  moreover from \<open>reads 1 n (block_definition g ss)\<close> p have "psize p' \<le> psize p - 1"
    by (cases rule: reads_cases) (use b in auto)
  ultimately show "psize p \<noteq> 0" by simp
qed

lemma finishBlock_reads [reads_rules]: "reads 0 n (finishBlock g)"
  unfolding finishBlock_def by (intro reads_rules round_rules; simp)

lemma declare_receiver_reads [reads_rules]: "reads 0 n (declare_receiver b)"
  unfolding declare_receiver_def by (intro reads_rules reads_change; simp)

lemma finishBody_reads [reads_rules]: "reads 0 n (finishBody g b)"
  unfolding finishBody_def by (intro reads_rules reads_change; simp)

lemma finishArgumentList_reads [reads_rules]: "reads 0 n (finishArgumentList g s)"
  unfolding finishArgumentList_def by (intro reads_rules round_rules; simp)

lemma paren_arguments_reads [reads_rules]: "reads 0 n (paren_arguments g s)"
  unfolding paren_arguments_def by (intro reads_rules reads_change; simp)

lemma block_function_reads [reads_rules]: "reads 0 n (block_function g)"
  unfolding block_function_def by (intro reads_rules reads_change; simp)

lemma block_argument_reads [reads_rules]: "reads 0 n (block_argument g r)"
  unfolding block_argument_def by (intro reads_rules reads_change; simp)

lemma methodCall_reads [reads_rules]: "reads 0 n (methodCall g c s r)"
  unfolding methodCall_def by (intro reads_rules reads_change; simp)

lemma namedCall_reads [reads_rules]: "reads 0 n (namedCall g r b c)"
  unfolding namedCall_def by (intro reads_rules reads_change; simp)

lemma load_this_reads [reads_rules]: "reads 0 n load_this"
  unfolding load_this_def by (intro reads_rules reads_change; simp)

lemma loadCoreVariable_reads [reads_rules]: "reads 0 n (loadCoreVariable s)"
  unfolding loadCoreVariable_def by (intro reads_rules reads_change; simp)

lemma grouping_reads [reads_rules]: "reads 0 n (grouping g b)"
  unfolding grouping_def by (intro reads_rules reads_change; simp)

lemma call_for_effect_reads [reads_rules]: "reads 0 n (call_for_effect s v a)"
  unfolding call_for_effect_def by (intro reads_rules reads_change; simp)

lemma new_object_reads [reads_rules]: "reads 0 n (new_object s v)"
  unfolding new_object_def by (intro reads_rules reads_change; simp)

lemma list_element_round [round_rules]: "round_reads n (list_element g v s)"
  unfolding list_element_def peek_def by (intro reads_rules round_rules; simp)

lemma list_expr_reads [reads_rules]: "reads 0 n (list_expr g b)"
  unfolding list_expr_def by (intro reads_rules round_rules; simp)

lemma map_element_round [round_rules]: "round_reads n (map_element g v s)"
  unfolding map_element_def peek_def by (intro reads_rules round_rules; simp)

lemma map_expr_reads [reads_rules]: "reads 0 n (map_expr g b)"
  unfolding map_expr_def by (intro reads_rules round_rules; simp)

lemma boolean_reads [reads_rules]: "reads 0 n (boolean g b)"
  unfolding boolean_def by (intro reads_rules reads_change; simp)

lemma null_literal_reads [reads_rules]: "reads 0 n (null_literal g b)"
  unfolding null_literal_def by (intro reads_rules reads_change; simp)

lemma literal_reads [reads_rules]: "reads 0 n (literal g b)"
  unfolding literal_def by (intro reads_rules reads_change; simp)

lemma interpolation_part_round [round_rules]: "round_reads n (interpolation_part g v s)"
  unfolding interpolation_part_def peek_def by (intro reads_rules round_rules; simp)

lemma stringInterpolation_reads [reads_rules]: "reads 0 n (stringInterpolation g b)"
  unfolding stringInterpolation_def by (intro reads_rules round_rules; simp)

lemma lookup_field_reads [reads_rules]: "reads 0 n (lookup_field c)"
  unfolding lookup_field_def by (intro reads_rules reads_change; simp)

lemma field_this_reads [reads_rules]: "reads 0 n (field_this c)"
  unfolding field_this_def by (intro reads_rules reads_change; simp)

lemma read_this_reads [reads_rules]: "reads 0 n (read_this t)"
  unfolding read_this_def by (intro reads_rules reads_change; simp)

lemma field_access_reads [reads_rules]: "reads 0 n (field_access g b)"
  unfolding field_access_def by (intro reads_rules reads_change; simp)

lemma bareName_reads [reads_rules]: "reads 0 n (bareName g b v)"
  unfolding bareName_def by (intro reads_rules reads_change; simp)

lemma staticField_reads [reads_rules]: "reads 0 n (staticField g b)"
  unfolding staticField_def by (intro reads_rules reads_change; simp)

lemma name_expr_reads [reads_rules]: "reads 0 n (name_expr g b)"
  unfolding name_expr_def by (intro reads_rules reads_change; simp)

lemma method_signature_reads [reads_rules]: "reads 0 n (method_signature f)"
  unfolding method_signature_def by (intro reads_rules reads_change; simp)

lemma super_call_reads [reads_rules]: "reads 0 n (super_call g b)"
  unfolding super_call_def by (intro reads_rules reads_change; simp)

lemma this_expr_reads [reads_rules]: "reads 0 n (this_expr g b)"
  unfolding this_expr_def by (intro reads_rules reads_change; simp)

lemma unaryOp_reads [reads_rules]: "reads 0 n (unaryOp g b)"
  unfolding unaryOp_def by (intro reads_rules reads_change; simp)

lemma subscript_reads [reads_rules]: "reads 0 n (subscript g e b)"
  unfolding subscript_def by (intro reads_rules reads_change; simp)

lemma dot_call_reads [reads_rules]: "reads 0 n (dot_call g e b)"
  unfolding dot_call_def by (intro reads_rules reads_change; simp)

lemma short_circuit_reads [reads_rules]: "1 \<le> pr \<Longrightarrow> reads 0 n (short_circuit op pr j g e b)"
  unfolding short_circuit_def by (intro reads_rules reads_change; simp)

lemma and_op_reads [reads_rules]: "reads 0 n (and_op g e b)"
  unfolding and_op_def by (intro reads_rules reads_change; simp)

lemma or_op_reads [reads_rules]: "reads 0 n (or_op g e b)"
  unfolding or_op_def by (intro reads_rules reads_change; simp)

lemma conditional_reads [reads_rules]: "reads 0 n (conditional g e b)"
  unfolding conditional_def by (intro reads_rules reads_change; simp)

lemma infixOp_reads [reads_rules]: "reads 0 n (infixOp g e b)"
  unfolding infixOp_def by (intro reads_rules reads_change; simp)

lemma rule_prefix_reads: "rule_prefix ty = Some f \<Longrightarrow> reads 0 n (f g b)"
  by (auto simp: rule_prefix_def split: token_type.split_asm intro: reads_rules)

lemma rule_infix_reads: "rule_infix ty = Some f \<Longrightarrow> reads 0 n (f g e b)"
  by (auto simp: rule_infix_def split: if_splits token_type.split_asm intro: reads_rules)

lemma infix_round_reads [round_rules]:
  assumes "1 \<le> prec"
  shows "round_reads n (infix_round g prec b e)"
proof -
  let ?F = "\<lambda>_. seq (gets previous_type) (\<lambda>ty. case rule_infix ty of
      None \<Rightarrow> stop Undefined | Some f \<Rightarrow> seq (f g e b) (\<lambda>e. ret (e, True)))"
  have F: "reads 0 n (?F u)" for u :: unit
  proof (rule reads_seq, rule reads_basic)
    show "reads 0 n (case rule_infix ty of None \<Rightarrow> stop Undefined | Some f \<Rightarrow> seq (f g e b) (\<lambda>e. ret (e, True)))" for ty
      by (cases "rule_infix ty") (auto intro: reads_rules rule_infix_reads)
  qed
  have step: "reads 1 n (seq advance_token ?F)" by (intro reads_first advance_reads F)
  show ?thesis
    unfolding round_reads_def
  proof (intro conjI allI impI)
    show "reads 0 n (infix_round g prec b e)"
      unfolding infix_round_def by (intro reads_rules F)
    fix p x p'
    assume p: "psize p < n" and s: "infix_round g prec b e p = Some (Inr ((x, True), p'))"
    then have prec: "prec \<le> rule_precedence (current_type p)" and F: "seq advance_token ?F p = Some (Inr ((x, True), p'))"
      by (auto simp: infix_round_def peek_def seq_def gets_def ret_def split: if_splits)
    have "current_type p \<noteq> TOKEN_EOF" using prec assms by (auto simp: rule_precedence_def)
    then have "psize p \<noteq> 0" using nothing_left by blast
    moreover from step p have "psize p' \<le> psize p - 1"
      by (cases rule: reads_cases) (use F in auto)
    ultimately show "psize p' < psize p" by simp
  qed
qed

lemma parsePrecedence_ends:
  assumes "1 \<le> prec"
  shows "reads 0 (Suc n) (parsePrecedence g prec)"
proof (rule readsI)
  let ?F = "\<lambda>_. seq (gets previous_type) (\<lambda>ty. case rule_prefix ty of
     None \<Rightarrow> seq parse_error (\<lambda>_. null_literal g False)
   | Some prefix_fn \<Rightarrow> let canAssign = prec \<le> PREC_CONDITIONAL in
       seq (prefix_fn g canAssign) (\<lambda>e. parse_loop (infix_round g prec canAssign) e))"
  fix p
  assume p: "psize p < Suc n"
  have F: "reads 0 n (?F ())"
  proof (rule reads_seq, rule reads_basic)
    fix ty
    show "reads 0 n (case rule_prefix ty of None \<Rightarrow> seq parse_error (\<lambda>_. null_literal g False)
     | Some prefix_fn \<Rightarrow> let canAssign = prec \<le> PREC_CONDITIONAL in
         seq (prefix_fn g canAssign) (\<lambda>e. parse_loop (infix_round g prec canAssign) e))"
    proof (cases "rule_prefix ty")
      case None
      then show ?thesis by (auto intro: reads_rules)
    next
      case (Some f)
      from rule_prefix_reads [OF this] show ?thesis
        unfolding Some using assms by (auto simp: Let_def intro!: reads_seq loop_reads infix_round_reads)
    qed
  qed
  from advance_reads p show "(\<exists>e. parsePrecedence g prec p = Some (Inl e)) \<or>
      (\<exists>x p'. parsePrecedence g prec p = Some (Inr (x, p')) \<and> psize p' \<le> psize p - 0)"
  proof (cases rule: reads_cases)
    case (2 x p1)
    show ?thesis
    proof (cases "psize p = 0")
      case True
      have "is_eof (tok_type (next_token (lx p)))" "tok_type (current_token (lx p)) = TOKEN_EOF"
        using True nothing_left [OF True] by (auto simp: psize_def to_read_def current_type_def split: if_splits)
      then have "previous_type p1 = TOKEN_EOF"
        using 2(1) by (auto simp: advance_token_def nextToken_def previous_type_def previous_def)
      then have "?F () p1 = seq parse_error (\<lambda>_. null_literal g False) p1"
        by (simp add: seq_def gets_def rule_prefix_def)
      moreover have "reads 0 (Suc n) (seq parse_error (\<lambda>_. null_literal g False))"
        unfolding null_literal_def by (intro reads_rules)
      moreover have "psize p1 < Suc n" using 2(2) True by simp
      ultimately show ?thesis
        using 2 by (elim reads_cases [of 0 "Suc n" "seq parse_error (\<lambda>_. null_literal g False)" p1])
          (auto simp: parsePrecedence_def seq_def)
    next
      case False
      then have "psize p1 < n" using 2(2) p by simp
      from F this show ?thesis
        by (cases rule: reads_cases) (use 2 in \<open>auto simp: parsePrecedence_def seq_def\<close>)
    qed
  qed (simp add: parsePrecedence_def seq_def)
qed

end

section \<open>Signatures of methods\<close>

lemma infixSignature_reads [reads_rules]: "reads 0 n (infixSignature s)"
  unfolding infixSignature_def by (intro reads_rules reads_change; simp)

lemma unarySignature_reads [reads_rules]: "reads 0 n (unarySignature s)"
  unfolding unarySignature_def by (intro reads_rules reads_change; simp)

lemma mixedSignature_reads [reads_rules]: "reads 0 n (mixedSignature s)"
  unfolding mixedSignature_def by (intro reads_rules reads_change; simp)

lemma maybeSetter_reads [reads_rules]: "reads 0 n (maybeSetter s)"
  unfolding maybeSetter_def by (intro reads_rules reads_change; simp)

lemma subscriptSignature_reads [reads_rules]: "reads 0 n (subscriptSignature s)"
  unfolding subscriptSignature_def by (intro reads_rules reads_change; simp)

lemma parameterList_reads [reads_rules]: "reads 0 n (parameterList s)"
  unfolding parameterList_def by (intro reads_rules reads_change; simp)

lemma namedSignature_reads [reads_rules]: "reads 0 n (namedSignature s)"
  unfolding namedSignature_def by (intro reads_rules reads_change; simp)

lemma constructorSignature_reads [reads_rules]: "reads 0 n (constructorSignature s)"
  unfolding constructorSignature_def by (intro reads_rules reads_change; simp)

lemma rule_method_reads: "rule_method ty = Some f \<Longrightarrow> reads 0 n (f s)"
  by (auto simp: rule_method_def split: token_type.split_asm if_splits intro: reads_rules)


section \<open>Attributes and declarations\<close>

lemma consumeLiteral_reads [reads_rules]: "reads 0 n consumeLiteral"
  unfolding consumeLiteral_def by (intro reads_rules reads_change; simp)

lemma previous_string_reads [reads_rules]: "reads 0 n previous_string"
  unfolding previous_string_def by (intro reads_rules reads_change; simp)

lemma add_attribute_reads [reads_rules]: "reads 0 n (add_attribute rt grp name pack)"
  unfolding add_attribute_def by (intro reads_rules reads_change; simp)

lemma grouped_attribute_round [round_rules]: "round_reads n (grouped_attribute rt grp pack)"
proof -
  have more: "round_reads n (seq (match TOKEN_COMMA) (\<lambda>b.
      if \<not> b then ret (pack, False) else seq ignoreNewlines (\<lambda>_. ret (pack, True))))" for pack :: attr_pack
    by (rule round_less) (simp, (intro reads_rules round_rules; simp)+)
  show ?thesis
    unfolding grouped_attribute_def peek_def by (intro more round_if round_last round_seq reads_rules)
qed

lemma attribute_group_reads [reads_rules]: "reads 0 n (attribute_group rt grp pack)"
  unfolding attribute_group_def by (intro reads_rules round_rules; simp)

lemma one_attribute_reads [reads_rules]: "reads 0 n (one_attribute pack)"
  unfolding one_attribute_def by (intro reads_rules; simp)

lemma matchAttribute_reads [reads_rules]: "reads 0 n matchAttribute"
  unfolding matchAttribute_def
  by (rule loop_reads, rule round_less) (simp, (intro reads_rules round_rules; simp)+)

lemma declareMethod_reads [reads_rules]: "reads 0 n (declareMethod c s b)"
  unfolding declareMethod_def by (intro reads_rules reads_change; simp)

lemma copy_parameters_reads [reads_rules]: "reads 0 n (copy_parameters names)"
  by (induction names) (auto intro: reads_rules)

lemma new_function_reads [reads_rules]: "reads 0 n (new_function s)"
  unfolding new_function_def by (intro reads_rules reads_change; simp)

lemma constructor_alloc_reads [reads_rules]: "reads 0 n (constructor_alloc c i s)"
  unfolding constructor_alloc_def by (intro reads_rules reads_change; simp)

lemma import_variable_round [round_rules]: "round_reads n (import_variable vs)"
  unfolding import_variable_def by (intro reads_rules reads_change round_rules; simp)

lemma importStatement_reads [reads_rules]: "reads 0 n (importStatement g)"
  unfolding importStatement_def by (intro reads_rules round_rules; simp)

lemma new_loop_reads [reads_rules]: "reads 0 n new_loop"
  unfolding new_loop_def by (intro reads_rules reads_change; simp)

lemma enter_loop_reads [reads_rules]: "reads 0 n (enter_loop l)"
  unfolding enter_loop_def by (intro reads_rules reads_change; simp)

lemma close_loop_reads [reads_rules]: "reads 0 n (close_loop l)"
  unfolding close_loop_def by (intro reads_rules reads_change; simp)

lemma fresh_local_reads [reads_rules]: "reads 0 n (fresh_local s)"
  unfolding fresh_local_def by (intro reads_rules reads_change; simp)

lemma loop_jump_reads [reads_rules]: "reads 0 n (loop_jump t)"
  unfolding loop_jump_def by (intro reads_rules reads_change; simp)

section \<open>Statements and classes\<close>

context small_grammar
begin

lemma loopBody_reads [reads_rules]: "reads 0 n (loopBody g)"
  unfolding loopBody_def by (intro reads_rules reads_change; simp)

lemma condition_in_parens_reads [reads_rules]: "reads 0 n (condition_in_parens g)"
  unfolding condition_in_parens_def by (intro reads_rules reads_change; simp)

lemma for_head_reads [reads_rules]: "reads 0 n (for_head g)"
  unfolding for_head_def by (intro reads_rules reads_change; simp)

lemma for_body_reads [reads_rules]: "reads 0 n (for_body g name v)"
  unfolding for_body_def by (intro reads_rules reads_change; simp)

lemma forStatement_reads [reads_rules]: "reads 0 n (forStatement g)"
  unfolding forStatement_def by (intro reads_rules reads_change; simp)

lemma ifStatement_reads [reads_rules]: "reads 0 n (ifStatement g)"
  unfolding ifStatement_def by (intro reads_rules reads_change; simp)

lemma whileStatement_reads [reads_rules]: "reads 0 n (whileStatement g)"
  unfolding whileStatement_def by (intro reads_rules reads_change; simp)

lemma return_value_reads [reads_rules]: "reads 0 n (return_value g)"
  unfolding return_value_def by (intro reads_rules reads_change; simp)

lemma returnStatement_reads [reads_rules]: "reads 0 n (returnStatement g)"
  unfolding returnStatement_def by (intro reads_rules reads_change; simp)

lemma blockStatement_reads [reads_rules]: "reads 0 n (blockStatement g)"
  unfolding blockStatement_def by (intro reads_rules reads_change; simp)

lemma method_body_reads [reads_rules]: "reads 0 n (method_body g c m f)"
  unfolding method_body_def by (intro reads_rules reads_change; simp)

lemma method_definition_reads:
  assumes "\<And>s. reads 0 n (f s)"
  shows "reads 0 n (method_definition g c a foreign static f)"
  unfolding method_definition_def by (intro reads_rules reads_change assms; simp)

lemma parse_method_reads [reads_rules]: "reads 0 n (parse_method g c)"
proof -
  have rest: "reads 0 n (case rule_method ty of None \<Rightarrow> seq parse_error (\<lambda>_. ret False)
      | Some f \<Rightarrow> seq (method_definition g c a foreign static f) (\<lambda>_. ret True))" for ty a foreign static
    by (cases "rule_method ty") (auto intro: reads_rules intro!: reads_seq method_definition_reads rule_method_reads)
  show ?thesis unfolding parse_method_def by (intro rest reads_rules)
qed

lemma variableDefinition_reads [reads_rules]: "reads 0 n (variableDefinition g)"
  unfolding variableDefinition_def by (intro reads_rules reads_change; simp)

text \<open>A method is only found where something is left.\<close>

lemma parse_method_true:
  assumes "psize p < n" "parse_method g c p = Some (Inr (True, p'))"
  shows "psize p \<noteq> 0"
proof
  assume z: "psize p = 0"
  have n: "0 < n" using assms(1) by simp
  obtain a p1 b p2 d p3 where p: "matchAttribute p = Some (Inr (a, p1))" "match TOKEN_FOREIGN p1 = Some (Inr (b, p2))"
    "match TOKEN_STATIC p2 = Some (Inr (d, p3))"
    using assms(2) by (auto simp: parse_method_def seq_def split: option.splits sum.splits)
  have "psize p1 = 0" using reads_result [OF matchAttribute_reads assms(1) p(1)] z by simp
  then have "psize p2 = 0" using reads_result [OF match_reads _ p(2)] n by simp
  then have "psize p3 = 0" using reads_result [OF match_reads _ p(3)] n by simp
  then have "current_type (p3\<lparr>class_nodes := ns\<rparr>) = TOKEN_EOF" for ns
    using nothing_left [of "p3\<lparr>class_nodes := ns\<rparr>"] by (simp add: psize_def)
  then show False
    using assms(2) p
    by (auto simp: parse_method_def seq_def change_class_def change_def gets_def rule_method_def rule_precedence_def
        ret_def split: option.splits sum.splits)
qed

lemma class_round_reads [round_rules]: "round_reads n (class_round g c u)"
proof -
  let ?last = "seq (match TOKEN_RIGHT_BRACE) (\<lambda>b. if b then ret ((), False) else seq consumeLine (\<lambda>_. ret ((), True)))"
  let ?G = "\<lambda>ok. if \<not> ok then ret ((), False) else ?last"
  have last: "reads 0 n ?last" by (intro reads_rules)
  have one_method: "round_reads n (seq (parse_method g c) ?G)"
    unfolding round_reads_def
  proof (intro conjI allI impI)
    show "reads 0 n (seq (parse_method g c) ?G)" by (intro reads_rules last)
    fix p x p'
    assume p: "psize p < n" and s: "seq (parse_method g c) ?G p = Some (Inr ((x, True), p'))"
    then obtain p1 where p1: "parse_method g c p = Some (Inr (True, p1))" "?last p1 = Some (Inr ((x, True), p'))"
      by (auto simp: seq_def ret_def split: option.splits sum.splits if_splits)
    have "psize p \<noteq> 0" using parse_method_true [OF p p1(1)] .
    moreover have "psize p1 \<le> psize p"
      using parse_method_reads [of c] p by (cases rule: reads_cases) (use p1(1) in auto)
    moreover have "psize p' \<le> psize p1 - 1"
    proof -
      have "match TOKEN_RIGHT_BRACE p1 = Some (Inr (False, p1))" "consumeLine p1 = Some (Inr ((), p'))"
        using p1(2) by (auto simp: seq_def ret_def match_def peek_def gets_def split: option.splits sum.splits if_splits)
      then show ?thesis
        using calculation(2) p by (cases rule: reads_cases [OF consumeLine_reads, of p1 n]) auto
    qed
    ultimately show "psize p' < psize p" by simp
  qed
  show ?thesis
    unfolding class_round_def
    by (rule round_less) (simp, (intro reads_rules; simp), (intro round_if round_last one_method; simp))
qed

lemma classDefinition_reads [reads_rules]: "reads 0 n (classDefinition g b a)"
  unfolding classDefinition_def by (intro reads_rules reads_change round_rules; simp)

text \<open>Statements and definitions read a token, or are an expression.\<close>

lemma parse_statement_ends:
  assumes "\<And>prec. 1 \<le> prec \<Longrightarrow> reads 0 (Suc n) (operand g prec)"
  shows "reads 0 (Suc n) (parse_statement g)"
proof -
  have e: "reads 0 (Suc n) (an_expression g)" using assms by (simp add: an_expression_def)
  show ?thesis
    unfolding parse_statement_def
    by ((rule match_case, simp, (intro reads_rules)[1])+, intro reads_rules e)
qed

lemma parse_definition_ends:
  assumes "\<And>prec. 1 \<le> prec \<Longrightarrow> reads 0 (Suc n) (operand g prec)"
  shows "reads 0 (Suc n) (parse_definition g)"
proof -
  note stmt = parse_statement_ends [OF assms]
  have rest: "reads 0 (Suc n) (seq (match TOKEN_IMPORT) (\<lambda>b. if b then seq (importStatement g) (\<lambda>s. ret (NodeStmt s)) else
     seq (match TOKEN_VAR) (\<lambda>b. if b then seq (variableDefinition g) (\<lambda>s. ret (NodeStmt s)) else
     seq (parse_statement g) (\<lambda>s. ret (case s of None \<Rightarrow> NodeNull | Some s \<Rightarrow> NodeStmt s)))))"
    by ((rule match_case, simp, (intro reads_rules)[1])+, intro reads_rules stmt)
  show ?thesis
    unfolding parse_definition_def
    by (rule reads_seq, rule matchAttribute_reads, (rule match_case, simp, (intro reads_rules)[1])+,
        rule reads_seq, (intro reads_rules)[1], rule rest)
qed

end

section \<open>The depth of the recursion\<close>

lemma nothing_reads: "reads k 0 m"
  by (simp add: reads_def)

lemma grammar_reads:
  "1 \<le> prec \<Longrightarrow> 2 * n \<le> d + 1 \<Longrightarrow> reads 0 n (operand (grammar_at d) prec)"
  "2 * n \<le> d \<Longrightarrow> reads 0 n (a_statement (grammar_at d))"
  "2 * n \<le> d \<Longrightarrow> reads 0 n (a_definition (grammar_at d))"
proof (induction d arbitrary: n prec)
  case 0
  {
    case 1
    then have "n = 0" by arith
    then show ?case by (simp add: nothing_reads)
  next
    case 2
    then show ?case by (simp add: nothing_reads)
  next
    case 3
    then show ?case by (simp add: nothing_reads)
  }
next
  case (Suc d)
  have small: "small_grammar (grammar_at d) k" if "2 * k \<le> d" for k
    using that Suc.IH by unfold_locales simp_all
  {
    case 1
    show ?case
    proof (cases n)
      case (Suc k)
      then have "small_grammar (grammar_at d) k" using 1 small by simp
      from small_grammar.parsePrecedence_ends [OF this 1(1)] show ?thesis
        by (simp add: Suc Let_def)
    qed (simp add: nothing_reads)
  next
    case 2
    show ?case
    proof (cases n)
      case (Suc k)
      then have "small_grammar (grammar_at d) k" "\<And>prec. 1 \<le> prec \<Longrightarrow> reads 0 (Suc k) (operand (grammar_at d) prec)"
        using 2 small Suc.IH(1) by simp_all
      from small_grammar.parse_statement_ends [OF this] show ?thesis by (simp add: Suc Let_def)
    qed (simp add: nothing_reads)
  next
    case 3
    show ?case
    proof (cases n)
      case (Suc k)
      then have "small_grammar (grammar_at d) k" "\<And>prec. 1 \<le> prec \<Longrightarrow> reads 0 (Suc k) (operand (grammar_at d) prec)"
        using 3 small Suc.IH(1) by simp_all
      from small_grammar.parse_definition_ends [OF this] show ?thesis by (simp add: Suc Let_def)
    qed (simp add: nothing_reads)
  }
qed

interpretation deep_grammar: small_grammar "grammar_at (2 * n)" n for n
  using grammar_reads by unfold_locales simp_all

section \<open>Modules\<close>

lemma module_class_reads [reads_rules]: "reads 0 n (module_class c ss)"
  unfolding module_class_def by (intro reads_rules reads_change; simp)

lemma report_undeclared_reads [reads_rules]: "reads 0 n (report_undeclared gs)"
proof (induction gs)
  case (Cons a gs)
  show ?case
    unfolding report_undeclared.simps
    by (rule reads_seq, rule reads_option, rule reads_basic, rule reads_seq, rule reads_previous, rule parse_error_reads,
        rule Cons.IH)
qed (simp add: reads_basic)

lemma matchLine_result:
  assumes "psize p < n" "matchLine p = Some (Inr (b, p'))"
  shows "if b then psize p' \<le> psize p - 1 else p' = p"
proof (cases "current_type p = TOKEN_LINE")
  case True
  let ?loop = "seq (parse_loop (\<lambda>_. seq (match TOKEN_LINE) (\<lambda>b. ret ((), b))) ()) (\<lambda>_. ret True)"
  obtain p1 where p1: "advance_token p = Some (Inr ((), p1))" "?loop p1 = Some (Inr (b, p'))"
    using assms(2) True
    by (auto simp: matchLine_def match_def peek_def gets_def seq_def ret_def split: option.splits sum.splits)
  have "psize p1 \<le> psize p - 1" using reads_result [OF advance_reads assms(1) p1(1)] .
  moreover have "reads 0 n ?loop" by (intro reads_rules round_rules; simp)
  from reads_result [OF this _ p1(2)] have "psize p' \<le> psize p1" using assms(1) calculation by simp
  moreover have b using p1(2) by (auto simp: seq_def ret_def split: option.splits sum.splits)
  ultimately show ?thesis by simp
next
  case False
  then show ?thesis
    using assms(2) by (auto simp: matchLine_def match_def peek_def gets_def seq_def ret_def)
qed

text \<open>After a definition there is a new line or the end, which is read.\<close>

lemma line_or_end:
  assumes "\<And>line. reads 0 n (f line)"
  shows "reads 1 n (seq matchLine (\<lambda>line. seq (if line then ret () else consume TOKEN_EOF) (\<lambda>_. f line)))"
proof (rule readsI)
  let ?m = "\<lambda>line. seq (if line then ret () else consume TOKEN_EOF) (\<lambda>_. f line)"
  fix p
  assume p: "psize p < n"
  from matchLine_reads p show "(\<exists>e. seq matchLine ?m p = Some (Inl e)) \<or>
      (\<exists>x p'. seq matchLine ?m p = Some (Inr (x, p')) \<and> psize p' \<le> psize p - 1)"
  proof (cases rule: reads_cases)
    case (2 b p1)
    have r: "if b then psize p1 \<le> psize p - 1 else p1 = p" using matchLine_result [OF p 2(1)] .
    have p1: "psize p1 < n" using 2(2) p by simp
    show ?thesis
    proof (cases b)
      case True
      from assms [of b] p1 show ?thesis
        by (cases rule: reads_cases) (use True r 2(1) in \<open>auto simp: seq_def ret_def\<close>)
    next
      case False
      have "reads 1 n (?m False)" by (simp only: if_False) (rule reads_first [OF consume_reads assms])
      from this p1 show ?thesis
        by (cases rule: reads_cases) (use False r 2(1) in \<open>auto simp: seq_def\<close>)
    qed
  qed (simp add: seq_def)
qed

context small_grammar
begin

lemma module_round_reads [round_rules]: "round_reads n (module_round g r)"
proof -
  obtain stmts hitEOF where r: "r = (stmts, hitEOF)" by fastforce
  let ?R = "seq (a_definition g) (\<lambda>node. seq matchLine (\<lambda>line. seq (if line then ret () else consume TOKEN_EOF) (\<lambda>_.
      seq (case node of NodeNull \<Rightarrow> ret stmts | NodeStmt s \<Rightarrow> ret (stmts @ [s]) | NodeClass cls \<Rightarrow> module_class cls stmts)
       (\<lambda>stmts. ret ((stmts, \<not> line), True)))))"
  have R: "reads 1 n ?R"
    by (rule reads_second, rule a_definition_reads, rule line_or_end, intro reads_rules)
  have eq: "module_round g r = seq (match TOKEN_EOF) (\<lambda>eof. if eof \<or> hitEOF then ret (r, False) else ?R)"
    by (simp only: module_round_def r prod.case Let_def)
  show ?thesis
    unfolding round_reads_def
  proof (intro conjI allI impI)
    show "reads 0 n (module_round g r)"
      unfolding eq by (intro reads_seq match_reads reads_if reads_basic reads_weak [OF R])
    fix p x p'
    assume p: "psize p < n" and s: "module_round g r p = Some (Inr ((x, True), p'))"
    have eof: "current_type p \<noteq> TOKEN_EOF"
      using s unfolding eq
      by (auto simp: seq_def ret_def match_def peek_def gets_def split: if_splits option.splits sum.splits)
    have "(if hitEOF then ret (r, False) else ?R) p = Some (Inr ((x, True), p'))"
      using s unfolding eq seq_match_not [OF eof] by simp
    then have "?R p = Some (Inr ((x, True), p'))"
      by (cases hitEOF) (simp_all add: ret_def)
    from reads_result [OF R p this] have "psize p' \<le> psize p - 1" .
    moreover have "psize p \<noteq> 0" using eof nothing_left by blast
    ultimately show "psize p' < psize p" by simp
  qed
qed

lemma module_body_reads [reads_rules]: "reads 0 n (module_body g b)"
  unfolding module_body_def by (intro reads_rules round_rules; simp)

end

lemma seq_gets: "seq (gets f) k p = k (f p) p"
  by (simp add: seq_def gets_def)

lemma compile_module_ends: "compile_module b p \<noteq> None"
proof -
  let ?n = "Suc (psize p)"
  define rest where "rest g = seq advance_token (\<lambda>_. seq advance_token (\<lambda>_. seq start_function (\<lambda>f. seq ignoreNewlines (\<lambda>_.
     seq (AddNode_fn f) (\<lambda>_. seq (gets m_functions) (\<lambda>fs. seq (ASSERT (hd fs = f)) (\<lambda>_.
     seq (change_fn f (\<lambda>n. n\<lparr>fn_rootBegin := None\<rparr>)) (\<lambda>_. seq (module_body g b) (\<lambda>b.
     seq (change_fn f (\<lambda>n. n\<lparr>fn_body := Some b\<rparr>)) (\<lambda>_.
     seq (gets (\<lambda>p. m_globals (scopes p))) (\<lambda>globals. seq (report_undeclared globals) (\<lambda>_.
     seq finish_function (\<lambda>_. seq (gets has_error) (\<lambda>e. ret (if e then None else Some f)))))))))))))))" for g
  have "reads 0 ?n (rest (grammar_at (2 * ?n)))"
    unfolding rest_def by (intro reads_rules deep_grammar.module_body_reads)
  moreover have "compile_module b p = rest (grammar_at (2 * psize p + 2)) p"
    unfolding compile_module_def rest_def by (rule seq_gets)
  moreover have "2 * psize p + 2 = 2 * ?n" by simp
  ultimately show ?thesis by (metis lessI option.distinct(1) reads_cases)
qed

lemma seq_result: "seq m f p = Some (Inr (y, p')) \<longleftrightarrow> (\<exists>x p1. m p = Some (Inr (x, p1)) \<and> f x p1 = Some (Inr (y, p')))"
  by (auto simp: seq_def split: option.splits sum.splits)

lemma compile_module_result:
  assumes "compile_module b p = Some (Inr (f, p'))" "compilers (scopes p) = []"
  shows "f = (if has_error p' then None else Some (length (fns (scopes p))))"
proof -
  obtain p1 p2 p3 h where p: "advance_token p = Some (Inr ((), p1))" "advance_token p1 = Some (Inr ((), p2))"
    "start_function p2 = Some (Inr (h, p3))" "f = (if has_error p' then None else Some h)"
    using assms(1) by (auto simp: compile_module_def seq_result gets_def ret_def)
  have "scopes p2 = scopes p" using p(1,2) by (auto simp: advance_token_def map_sum_def split: sum.splits)
  then have "h = length (fns (scopes p))"
    using p(3) assms(2)
    by (auto simp: start_function_def seq_result scoped_def initCompiler_def new_begin_def Let_def this_fn_def
        this_compiler_def the_compiler_def change_def ret_def)
  then show ?thesis using p(4) by simp
qed

text \<open>
  C31: The compiler ends on every source, for a module and a context in any state: neither the recursion of the
  grammar nor any loop of the parser runs for ever, and the steps that the model allows suffice.  It then has
  either stopped (an abort, a failed assertion, or something undefined, such as the lexer's reads past the end of
  the source), or it returns: the new function that it made for the module, or a null pointer
  exactly if an error was found.
\<close>

theorem compiler_ends:
  "case wrenCompile lib m src isExpression compilingCore of
     None \<Rightarrow> False
   | Some (Inl e) \<Rightarrow> True
   | Some (Inr (f, p)) \<Rightarrow> f = (if has_error p then None else Some (length (fns (scopes m))))"
proof -
  let ?p = "start_parser lib m src compilingCore"
  have s: "compilers (scopes ?p) = []" "fns (scopes ?p) = fns (scopes m)" by (simp_all add: start_parser_def)
  note result = compile_module_result [OF _ s(1), of isExpression]
  obtain r where r: "compile_module isExpression ?p = Some r" using compile_module_ends by blast
  show ?thesis
  proof (cases r)
    case (Inr x)
    then show ?thesis using r s(2) result [of "fst x" "snd x"] by (cases x) (simp add: wrenCompile_def)
  qed (simp add: r wrenCompile_def)
qed

end
