(* ===== verification/Slab_History.thy ===== *)
theory Slab_History
  imports Slab_Heap
begin

text \<open>
  The allocator over a whole history of operations, from its construction on: allocations, changes
  of the GC words by the collector, and sweeps.  The history keeps the objects that are alive, each
  with its address and the size that was asked for.
\<close>

section \<open>The slabs an allocator has\<close>

text \<open>The list of all slabs of a category, read off its header and links.\<close>

fun chain_from :: "nat \<Rightarrow> int option \<Rightarrow> int links \<Rightarrow> int list" where
  "chain_from n None k = []"
| "chain_from 0 (Some sl) k = []"
| "chain_from (Suc n) (Some sl) k = sl # chain_from n (nxt k sl) k"

definition slabs_of :: "allocator \<Rightarrow> int set" where
  "slabs_of a = {sl. \<exists>k \<in> set (keys a). \<exists>n. sl \<in> set (chain_from n (start (allSlabs (category a k))) (all_links a))}"

lemma chain_from_dl:
  assumes "dl k p xs None" "first = hd_or None xs"
  shows "set (chain_from n first k) \<subseteq> set xs" "length xs \<le> n \<Longrightarrow> chain_from n first k = xs"
  using assms by (induction xs arbitrary: n p first; case_tac n; auto)+


lemma slabs_of_rep:
  assumes inv: "alloc_rep a AS FS RS"
  shows "slabs_of a = (\<Union>k. set (AS k))" "finite (slabs_of a)"
proof -
  have chain: "ll_rep (allSlabs (category a k)) (all_links a) (AS k)" if "k \<in> set (keys a)" for k
    using alloc_repD(4) [OF inv that] by (simp add: category_rep_def)
  have dl: "dl (all_links a) None (AS k) None" "start (allSlabs (category a k)) = hd_or None (AS k)"
    if "k \<in> set (keys a)" for k
    using chain [OF that] by (simp_all add: ll_rep_def)
  have "sl \<in> set (AS k)" if "k \<in> set (keys a)" "sl \<in> set (chain_from n (start (allSlabs (category a k))) (all_links a))"
    for k n sl
    using chain_from_dl(1) [OF dl [OF that(1)], of n] that(2) by blast
  moreover have "\<exists>n. sl \<in> set (chain_from n (start (allSlabs (category a k))) (all_links a))"
    if "k \<in> set (keys a)" "sl \<in> set (AS k)" for k sl
    using chain_from_dl(2) [OF dl [OF that(1)], of "length (AS k)"] that(2) by (intro exI [of _ "length (AS k)"]) simp
  moreover have "k \<in> set (keys a)" if "sl \<in> set (AS k)" for k sl using slab_key [OF inv that] by simp
  ultimately show eq: "slabs_of a = (\<Union>k. set (AS k))" unfolding slabs_of_def by blast
  have "(\<Union>k. set (AS k)) \<subseteq> (\<Union>k \<in> set (keys a). set (AS k))" using slab_key [OF inv] by blast
  then show "finite (slabs_of a)" unfolding eq by (rule finite_subset) simp
qed

lemma length_slabs:
  assumes "alloc_rep a AS FS RS"
  shows "length (AS k) \<le> card (slabs_of a)"
proof (cases "k \<in> set (keys a)")
  case True
  then have "distinct (AS k)" using alloc_repD(4) [OF assms True] by (simp add: category_rep_def ll_rep_def)
  then have "length (AS k) = card (set (AS k))" by (simp add: distinct_card)
  also have "\<dots> \<le> card (slabs_of a)"
    using slabs_of_rep [OF assms] by (intro card_mono) auto
  finally show ?thesis .
next
  case False
  then show ?thesis using alloc_repD(5) [OF assms] by simp
qed

section \<open>Histories\<close>

text \<open>
  \<open>Start\<close> is the allocator the constructor makes on a page size that is a power of two.  An
  allocation asks for at least an \<open>Obj\<close> and at most what fits a slab, and the system maps no memory
  over the allocator's slabs.  The collector may set any GC words.  The sweep keeps the objects with
  the given GC word; its loops may run as often as there are bytes in a slab and slabs.
\<close>

inductive allocator_run :: "allocator \<Rightarrow> (int \<times> int) set \<Rightarrow> bool" where
  Start: "7 \<le> n \<Longrightarrow> allocator_run (initial_allocator (2 ^ n)) {}"
| Allocate: "allocator_run a L \<Longrightarrow> sizeof_Obj \<le> sz \<Longrightarrow> best_size sz \<le> slab_size a - sizeof_Slab \<Longrightarrow>
    fresh_mappings (slab_size a) (base_of a ` slabs_of a) (m_nextSlabAddr a) tries \<Longrightarrow>
    MapFailed \<notin> snd ` set tries \<Longrightarrow> AllocateNative sz tries a = Some (Inr p, c) \<Longrightarrow>
    allocator_run c (insert (p, sz) L)"
| Mark: "allocator_run a L \<Longrightarrow> allocator_run (a\<lparr>gcw := w\<rparr>) L"
| Sweep: "allocator_run a L \<Longrightarrow> slab_size a \<le> int fuel \<Longrightarrow> card (slabs_of a) \<le> fuel \<Longrightarrow>
    DeallocateUnreachableObjects fuel g a = Some (Inr c) \<Longrightarrow>
    allocator_run c {(p, sz) \<in> L. gcw a p = g}"

section \<open>The invariant\<close>

text \<open>The object at \<open>p\<close> is in a slab of the category \<open>k\<close>.\<close>

definition located :: "allocator \<Rightarrow> (int \<Rightarrow> int list) \<Rightarrow> (int \<Rightarrow> region list) \<Rightarrow> int \<Rightarrow> int \<Rightarrow> bool" where
  "located a AS RS p k \<longleftrightarrow> (\<exists>sl \<in> set (AS k). p \<in> set (slab_objects a sl (RS sl)))"

definition history_ok :: "allocator \<Rightarrow> (int \<times> int) set \<Rightarrow> bool" where
  "history_ok a L \<longleftrightarrow> (\<exists>AS FS RS. alloc_rep a AS FS RS \<and>
     (\<forall>(p, sz) \<in> L. \<exists>k. sz \<le> k \<and> located a AS RS p k)) \<and>
     (\<forall>(p, sz) \<in> L. \<forall>(q, sz') \<in> L. p = q \<longrightarrow> sz = sz')"

lemma located_live: "located a AS RS p k \<Longrightarrow> p \<in> live_objects a AS RS"
  by (auto simp: located_def live_objects_def)

text \<open>An object that stays alive stays in its slab.\<close>

lemma located_kept:
  assumes a: "alloc_rep a AS FS RS" and c: "alloc_rep c AS' FS' RS'"
    and same: "slab_size c = slab_size a" "\<And>k. set (AS k) \<subseteq> set (AS' k)"
    and p: "located a AS RS p k" "p \<in> live_objects c AS' RS'"
  shows "located c AS' RS' p k"
proof -
  obtain t where t: "t \<in> set (AS k)" "p \<in> set (slab_objects a t (RS t))" using p(1) by (auto simp: located_def)
  obtain l u where u: "u \<in> set (AS' l)" "p \<in> set (slab_objects c u (RS' u))"
    using p(2) by (auto simp: live_objects_def)
  have t': "t \<in> set (AS' k)" using t(1) same(2) by blast
  have pos: "0 < k" "0 < l"
    using slab_key [OF c t'] slab_key [OF c u(1)] alloc_repD(4) [OF c, of k] alloc_repD(4) [OF c, of l]
    by (auto simp: category_rep_def sizeof_Obj_def)
  have "p \<in> slab_area c t"
    using live_object_slab(1,2) [OF a t] slab_key [OF c t'] same(1) pos by (simp add: GetSectionBaseAddress_def)
  moreover have "p \<in> slab_area c u" using live_object_slab(1,2) [OF c u] slab_key [OF c u(1)] pos by simp
  ultimately have "t = u"
    using slab_areas_disjoint [OF alloc_repD(1) [OF c] alloc_repD(6) [OF c t'] alloc_repD(6) [OF c u(1)]] by blast
  then show ?thesis using t' u(2) by (auto simp: located_def)
qed

lemma history_start: "7 \<le> n \<Longrightarrow> history_ok (initial_allocator (2 ^ n)) {}"
proof -
  assume n: "7 \<le> n"
  then have "(2 :: int) ^ 7 \<le> 2 ^ n" by (intro power_increasing) simp_all
  then have "sizeof_Slab < 2 ^ n" by (simp add: sizeof_Slab_def)
  moreover have "(8 :: int) dvd 2 ^ n" using n le_imp_power_dvd [of 3 n "2 :: int"] by simp
  ultimately have "alloc_rep (initial_allocator (2 ^ n)) (\<lambda>_. []) (\<lambda>_. []) (\<lambda>_. [])"
    by (intro initial_alloc_rep [of _ n]) simp_all
  then show ?thesis unfolding history_ok_def by blast
qed

lemma history_allocate:
  assumes "history_ok a L" "sizeof_Obj \<le> sz" "best_size sz \<le> slab_size a - sizeof_Slab"
    and os: "fresh_mappings (slab_size a) (base_of a ` slabs_of a) (m_nextSlabAddr a) tries" "MapFailed \<notin> snd ` set tries"
    and run: "AllocateNative sz tries a = Some (Inr p, c)"
  shows "history_ok c (insert (p, sz) L)"
proof -
  obtain AS FS RS where a: "alloc_rep a AS FS RS" "\<forall>(p, sz) \<in> L. \<exists>k. sz \<le> k \<and> located a AS RS p k"
    using assms(1) by (auto simp: history_ok_def)
  have "slab_bases a AS = base_of a ` slabs_of a" unfolding slabs_of_rep(1) [OF a(1)] by (auto simp: slab_bases_def)
  then obtain AS' FS' RS' where c: "alloc_rep c AS' FS' RS'" "p \<notin> live_objects a AS RS"
    "live_objects c AS' RS' = insert p (live_objects a AS RS)" "slab_size c = slab_size a"
    "\<forall>k. set (AS k) \<subseteq> set (AS' k)" "\<exists>k sl. sz \<le> k \<and> sl \<in> set (AS' k) \<and> p \<in> set (slab_objects c sl (RS' sl))"
    using AllocateNative_cases [OF a(1) assms(2,3) _ os(2) run] os(1) by (metis sum.inject(2))
  have new: "\<exists>k. sz \<le> k \<and> located c AS' RS' p k" using c(6) by (auto simp: located_def)
  have old: "\<exists>k. m \<le> k \<and> located c AS' RS' q k" if qm: "(q, m) \<in> L" for q m
  proof -
    obtain k where k: "m \<le> k" "located a AS RS q k" using a(2) qm by blast
    have "q \<in> live_objects c AS' RS'" using located_live [OF k(2)] c(3) by simp
    then show ?thesis using located_kept [OF a(1) c(1,4) _ k(2)] c(5) k(1) by blast
  qed
  have "q \<noteq> p" if "(q, m) \<in> L" for q m
    using a(2) that located_live c(2) by blast
  moreover have "\<forall>(p, sz) \<in> L. \<forall>(q, sz') \<in> L. p = q \<longrightarrow> sz = sz'"
    using assms(1) by (simp add: history_ok_def)
  ultimately have "\<forall>(q, m) \<in> insert (p, sz) L. \<forall>(q', m') \<in> insert (p, sz) L. q = q' \<longrightarrow> m = m'" by auto
  moreover have "\<forall>(q, m) \<in> insert (p, sz) L. \<exists>k. m \<le> k \<and> located c AS' RS' q k" using new old by auto
  ultimately show ?thesis
    unfolding history_ok_def by (intro conjI exI [of _ AS'] exI [of _ FS'] exI [of _ RS'] c(1))
qed

lemma history_mark: "history_ok a L \<Longrightarrow> history_ok (a\<lparr>gcw := w\<rparr>) L"
proof -
  assume "history_ok a L"
  then obtain AS FS RS where a: "alloc_rep a AS FS RS" "\<forall>(p, sz) \<in> L. \<exists>k. sz \<le> k \<and> located a AS RS p k"
    "\<forall>(p, sz) \<in> L. \<forall>(q, sz') \<in> L. p = q \<longrightarrow> sz = sz'"
    by (auto simp: history_ok_def)
  have "slab_in_rep (a\<lparr>gcw := w\<rparr>) k (t \<in> set (FS k)) (RS t) t" if "t \<in> set (AS k)" for k t
    by (rule slab_in_rep_frame [OF alloc_repD(6) [OF a(1) that], of _ "{}"]) (simp_all add: same_outside_def)
  then have "alloc_rep (a\<lparr>gcw := w\<rparr>) AS FS RS"
    using alloc_repD [OF a(1)] by (simp add: alloc_rep_def category_rep_def category_def)
  moreover have "located (a\<lparr>gcw := w\<rparr>) AS RS = located a AS RS" by (simp add: located_def slab_objects_def fun_eq_iff)
  ultimately show ?thesis
    unfolding history_ok_def using a(2,3) by (intro conjI exI [of _ AS] exI [of _ FS] exI [of _ RS]) simp_all
qed

lemma history_sweep:
  assumes "history_ok a L" "slab_size a \<le> int fuel" "card (slabs_of a) \<le> fuel"
    and run: "DeallocateUnreachableObjects fuel g a = Some (Inr c)"
  shows "history_ok c {(p, sz) \<in> L. gcw a p = g}"
proof -
  obtain AS FS RS where a: "alloc_rep a AS FS RS" "\<forall>(p, sz) \<in> L. \<exists>k. sz \<le> k \<and> located a AS RS p k"
    using assms(1) by (auto simp: history_ok_def)
  have "\<forall>k. length (AS k) \<le> fuel" using length_slabs [OF a(1)] assms(3) by (meson order_trans)
  from Deallocate_all [OF a(1) this assms(2), of g] run obtain FS' RS' where
    c: "alloc_rep c AS FS' RS'" "live_objects c AS RS' = {p \<in> live_objects a AS RS. gcw a p = g}"
      "slab_size c = slab_size a" by auto
  have old: "\<exists>k. m \<le> k \<and> located c AS RS' q k" if qm: "(q, m) \<in> L" "gcw a q = g" for q m
  proof -
    obtain k where k: "m \<le> k" "located a AS RS q k" using a(2) qm(1) by blast
    have "q \<in> live_objects c AS RS'" using located_live [OF k(2)] c(2) qm(2) by simp
    then show ?thesis using located_kept [OF a(1) c(1,3) _ k(2)] k(1) by blast
  qed
  have "\<forall>(p, sz) \<in> {(p, sz) \<in> L. gcw a p = g}. \<exists>k. sz \<le> k \<and> located c AS RS' p k" using old by auto
  moreover have "\<forall>(p, sz) \<in> L. \<forall>(q, sz') \<in> L. p = q \<longrightarrow> sz = sz'"
    using assms(1) by (simp add: history_ok_def)
  then have "\<forall>(p, sz) \<in> {(p, sz) \<in> L. gcw a p = g}. \<forall>(q, sz') \<in> {(p, sz) \<in> L. gcw a p = g}. p = q \<longrightarrow> sz = sz'"
    by auto
  ultimately show ?thesis
    unfolding history_ok_def by (intro conjI exI [of _ AS] exI [of _ FS'] exI [of _ RS'] c(1))
qed

lemma run_history_ok: "allocator_run a L \<Longrightarrow> history_ok a L"
proof (induction rule: allocator_run.induct)
  case (Allocate a L sz tries p c)
  then show ?case by (intro history_allocate)
next
  case (Sweep a L fuel g c)
  then show ?case by (intro history_sweep)
qed (rule history_start history_mark; assumption)+

lemma used_mem_cell: "layout m sz p rs \<Longrightarrow> q \<in> set (used_addrs sz p rs) \<Longrightarrow> m q = CObj"
  by (induction rs arbitrary: p) (auto split: region.splits)

lemma located_header:
  assumes "alloc_rep a AS FS RS" "located a AS RS p k"
  shows "mem a p = CObj"
proof -
  obtain t where t: "t \<in> set (AS k)" "p \<in> set (slab_objects a t (RS t))" using assms(2) by (auto simp: located_def)
  obtain fs where "slab_rep a t (RS t) fs" using alloc_repD(6) [OF assms(1) t(1)] by (auto simp: slab_in_rep_def)
  then have "layout (mem a) (sizeCategory (slabs a t)) (base_of a t) (RS t)" by (auto simp: slab_rep_def sweeping_def)
  then show ?thesis using t(2) used_mem_cell by (simp add: slab_objects_def)
qed

text \<open>
  C4: Live objects never share memory.  After any sequence of allocations, changes of GC words and
  sweeps, starting from a new allocator, two different objects that were allocated and not swept
  since then occupy disjoint memory, of the sizes that were asked for, whatever their size
  categories; each is 8-byte aligned and still holds the object constructed there.  The requests are
  for at least the size of an \<open>Obj\<close> and at most what fits a slab, the page size is a power of two, and
  the system maps slabs when it is asked to, none of them over an existing one (\<open>allocator_run\<close>).
\<close>

theorem live_objects_disjoint:
  assumes "allocator_run a L" "(p, m) \<in> L" "(q, n) \<in> L" "(p, m) \<noteq> (q, n)"
  shows "{p..<p + m} \<inter> {q..<q + n} = {} \<and> 8 dvd p \<and> mem a p = CObj"
proof -
  obtain AS FS RS where a: "alloc_rep a AS FS RS" "\<forall>(p, sz) \<in> L. \<exists>k. sz \<le> k \<and> located a AS RS p k"
    and f: "\<forall>(p, sz) \<in> L. \<forall>(q, sz') \<in> L. p = q \<longrightarrow> sz = sz'"
    using run_history_ok [OF assms(1)] by (auto simp: history_ok_def)
  obtain k l where k: "m \<le> k" "located a AS RS p k" and l: "n \<le> l" "located a AS RS q l"
    using a(2) assms(2,3) by blast
  obtain t u where t: "t \<in> set (AS k)" "p \<in> set (slab_objects a t (RS t))"
    and u: "u \<in> set (AS l)" "q \<in> set (slab_objects a u (RS u))"
    using k(2) l(2) by (auto simp: located_def)
  have "p \<noteq> q" using f assms(2-4) by auto
  then have "p + k \<le> q \<or> q + l \<le> p"
    using live_objects_apart [OF a(1) t u] live_objects_apart [OF a(1) u t] by linarith
  then have "{p..<p + m} \<inter> {q..<q + n} = {}" using k(1) l(1) by auto
  then show ?thesis using live_aligned [OF a(1) located_live [OF k(2)]] located_header [OF a(1) k(2)] by simp
qed

text \<open>A new allocator serves two requests from the slab it maps at 16384.\<close>

lemma best_size_24: "best_size 24 = 24"
proof (rule antisym)
  show "best_size 24 \<le> 24" by (rule best_size_le) (simp add: PREFERRED_SIZES_def sizeof_Obj_def)
  show "24 \<le> best_size 24" by (rule best_size_props) (simp add: sizeof_Obj_def)
qed

definition demo_mapping :: "(u64 \<times> mmap_result) list" where
  "demo_mapping = [(2147483648, Mapped)]"

definition demo_category :: allocator where
  "demo_category = (initial_allocator 16384)\<lparr>m_sizes := [(24, new_category 24)]\<rparr>"

definition demo_slab :: allocator where
  "demo_slab = snd (projr (the (CreateSlab 24 demo_mapping demo_category)))"

definition demo_one :: allocator where
  "demo_one = construct 16384 (snd (allocate_in_slab 24 32688 demo_slab))"

definition demo_two :: allocator where
  "demo_two = construct 16408 (snd (allocate_in_slab 24 32688 demo_one))"

lemma demo_results:
  "map_option (map_sum id fst) (CreateSlab 24 demo_mapping demo_category) = Some (Inr 32688)"
  "fst (allocate_in_slab 24 32688 demo_slab) = Inr 16384"
  "fst (allocate_in_slab 24 32688 demo_one) = Inr 16408"
  "map (\<lambda>(k, c). (k, cat_size c, start (freeSlabs c))) (m_sizes demo_one) = [(24, 24, Some 32688)]"
  "slab_size demo_one = 16384"
  by code_simp+

lemma demo_allocations:
  "AllocateNative 24 demo_mapping (initial_allocator 16384) = Some (Inr 16384, demo_one)"
  "AllocateNative 24 [] demo_one = Some (Inr 16408, demo_two)"
proof -
  have g: "GetOrCreateBestCategory 24 (initial_allocator 16384) = (Inr 24, demo_category)"
    by (simp add: GetOrCreateBestCategory_def best_size_24 sizeof_Obj_def initial_allocator_def
        lower_bound_key_def demo_category_def)
  have c: "CreateSlab 24 demo_mapping demo_category = Some (Inr (32688, demo_slab))"
    using demo_results(1) unfolding demo_slab_def
    by (cases "CreateSlab 24 demo_mapping demo_category"; cases "the (CreateSlab 24 demo_mapping demo_category)") auto
  have f: "cat_size (category demo_category 24) = 24" "start (freeSlabs (category demo_category 24)) = None"
    by (simp_all add: demo_category_def category_def new_category_def empty_llist_def)
  show "AllocateNative 24 demo_mapping (initial_allocator 16384) = Some (Inr 16384, demo_one)"
    unfolding AllocateNative_def AllocateRaw_def g using f c demo_results(2)
    by (cases "allocate_in_slab 24 32688 demo_slab") (simp add: demo_one_def)
  obtain ct where ct: "m_sizes demo_one = [(24, ct)]" "cat_size ct = 24" "start (freeSlabs ct) = Some 32688"
    using demo_results(4) by (auto simp: map_eq_Cons_conv)
  then have "GetOrCreateBestCategory 24 demo_one = (Inr 24, demo_one)"
    by (simp add: GetOrCreateBestCategory_def sizeof_Obj_def lower_bound_key_def)
  then show "AllocateNative 24 [] demo_one = Some (Inr 16408, demo_two)"
    unfolding AllocateNative_def AllocateRaw_def using ct demo_results(3)
    by (cases "allocate_in_slab 24 32688 demo_one") (simp add: category_def demo_two_def)
qed

theorem live_objects_disjoint_witness:
  "allocator_run demo_two {(16408, 24), (16384, 24)} \<and> {16408..<16408 + (24 :: int)} \<inter> {16384..<16384 + 24} = {}"
proof -
  have "allocator_run (initial_allocator (2 ^ 14)) {}" by (rule Start) simp
  then have r0: "allocator_run (initial_allocator 16384) {}" by simp
  have "allocator_run demo_one {(16384, 24)}"
    by (rule Allocate [OF r0 _ _ _ _ demo_allocations(1)])
      (simp_all add: sizeof_Obj_def best_size_24 initial_allocator_def sizeof_Slab_def demo_mapping_def slab_address_def
        slabs_of_def)
  then have "allocator_run demo_two {(16408, 24), (16384, 24)}"
    by (rule Allocate [OF _ _ _ _ _ demo_allocations(2)])
      (simp_all add: sizeof_Obj_def best_size_24 demo_results(5) sizeof_Slab_def)
  moreover from live_objects_disjoint [OF this, of 16408 24 16384 24]
  have "{16408..<16408 + (24 :: int)} \<inter> {16384..<16384 + 24} = {}" by simp
  ultimately show ?thesis ..
qed

end
