(* ===== verification/Spec2Isabelle.thy ===== *)
theory Spec2Isabelle
  imports GC_Collect Stack_Map_Proofs Func_Table_Proofs Range_Proofs List_Proofs String_Search
    String_Iteration Object_Equality Map_Proofs Number_Proofs Ts_Scanner_Proofs Fibre_Proofs
    Ir_Cleanup_Proofs Type_Inference_Proofs Managed_Class_Proofs Lexer_Proofs Closure_Proofs
    Scopes_Proofs Parser_Termination Slab_History
begin

text \<open>
A model of wrenc, an ahead-of-time compiler for the Wren language: its runtime library (rtsrc/ and
  common/), the parts of the compiler that write what the runtime reads, the external scanner of its
  tree-sitter grammar, and, as the specification that wrenc sets itself, the routines of the reference
  interpreter that comes with it (lib/wren-main/src/vm/).

  The parts and how they interact.  A compiled module is machine code that calls the runtime.  Every
  Wren value is a NaN-tagged 64-bit word: a number, null, or a pointer to an object.  Objects live in
  slabs of the allocator; classes hold method tables that compiled code searches by the hash of a
  signature; fibres run on stacks of their own.  The collector starts from the modules, the C API and
  the stacks, where the stack maps that the compiler emitted tell it which words are values, marks what
  is reachable and lets the allocator sweep the rest.

  Conventions (\<open>Prelude\<close>, \<open>Doubles\<close>, \<open>Values\<close>).  An operation that can fail returns \<open>fault + 'a\<close>:
  \<open>WrenAbort\<close> is an exception that a Wren program can catch, \<open>Fatal\<close> a call of \<open>abort()\<close>, \<open>Undefined\<close> what
  C++ leaves undefined.  Machine integers are words where they wrap or are taken apart, and mathematical
  integers with explicit range checks where an overflow is undefined.  Doubles are their 64 bits, with
  the operations of IEEE 754 on them.  Values and pointers are words; the objects are a map from addresses
  (\<open>Objects.heap\<close>), and what lies outside the repository (hash functions and containers of the C++
  library, \<open>strtod\<close>, the stack frames of native code, tables that LLVM provides) is an argument.

  That the operations on lists and strings agree with the reference is stated for every argument: where the
  runtime's conversion of a number to an \<open>int\<close> is undefined, the theorem says so and that the reference reports
  an error (\<open>agrees_if\<close>).  The hypotheses that are left are bounds on lengths, and strings on which one of the two
  sides goes wrong (the byte 0xFF in a search, bytes from 0xF8 in decoding).

  The theories, by the code they model, with what they show:

\<^item> \<open>Linked_List\<close>, \<open>Slab_Allocator\<close>, \<open>Slab_Layout\<close>, \<open>Slab_Proofs\<close>, \<open>Slab_Invariant\<close>, \<open>Slab_Theorems\<close>,
  \<open>Slab_Heap\<close>, \<open>Slab_History\<close>: rtsrc/LinkedList.h and rtsrc/SlabObjectAllocator.cpp.  Slabs of one size
  category, with shims for the free space and lists of slabs with space.  An invariant of the whole heap, kept
  by every operation; allocation returns fresh, aligned memory; the sweep leaves exactly the objects with the
  current mark; and in every history of allocations and sweeps live objects are disjoint.
\<^item> \<open>Objects\<close>, \<open>GC_Scanner\<close>, \<open>GC_Proofs\<close>, \<open>GC_Collect\<close>: rtsrc/GCTracingScanner.cpp, the objects' \<open>MarkGCValues\<close>
  and \<open>WrenRuntime::RunGC\<close>.  The grey list threaded through the objects' GC words; a collection ends and frees
  exactly what no root reaches; the first collection of a scanner that is created anew frees more than that.
\<^item> \<open>Bytes\<close>, \<open>Stack_Map\<close>, \<open>Stack_Map_Proofs\<close>: src/backend_llvm/WrenGCMetadataPrinter.cpp and
  common/StackMapDescription.cpp.  Writer and reader of the stack maps; a round trip.
\<^item> \<open>Hash_Util\<close>, \<open>Func_Table\<close>, \<open>Func_Table_Proofs\<close>: common/HashUtil.cpp and rtsrc/ObjClass.cpp.  Method tables
  with open addressing that move to a map when they are full refine a map from signatures to functions;
  inheritance and the type test.
\<^item> \<open>Arg_Checks\<close>, \<open>Ranges\<close>, \<open>Range_Proofs\<close>, \<open>Double_Integers\<close>: rtsrc/Errors.cpp, rtsrc/binding_utils.h and
  rtsrc/ObjRange.cpp with wren_primitive.c.  Subscripts by ranges agree with the reference.
\<^item> \<open>Vm_Utils\<close>, \<open>List_Object\<close>, \<open>List_Proofs\<close>: rtsrc/ObjList.cpp with the growable buffers and list primitives of
  the reference, which the runtime's lists refine.
\<^item> \<open>Utf8\<close>, \<open>Utf8_Proofs\<close>, \<open>String_Object\<close>, \<open>String_Search\<close>, \<open>String_Iteration\<close>: rtsrc/ObjString.cpp with the
  encoder, decoder, search and string primitives of the reference.
\<^item> \<open>Vm_Values\<close>, \<open>Vm_Map\<close>, \<open>Hashed_Keys\<close>, \<open>Vm_Map_Proofs\<close>: values and hash map of wren_value.c.  \<open>Hashed_Keys\<close>
  states the contract of keys as the locales \<open>key_equality\<close>, \<open>hashed_keys\<close> and \<open>open_table\<close>, which the
  reference's values and the runtime's keys both meet.
\<^item> \<open>Object_Equality\<close>, \<open>Map_Object\<close>, \<open>Map_Proofs\<close>: rtsrc/Obj.cpp, ObjNull.cpp, ObjBool.cpp and ObjMap.cpp.
  \<open>Object.same\<close> agrees with the reference's equality but where a number comes second; maps refine finite
  maps, and loops over them visit every element.
\<^item> \<open>Number_Object\<close>, \<open>Number_Proofs\<close>: rtsrc/ObjNum.cpp with the number primitives of wren_core.c.
\<^item> \<open>Fibre\<close>, \<open>Fibre_Proofs\<close>: rtsrc/ObjFibre.cpp as a step relation over the states of all fibres, with the stack
  of fibres as its invariant.
\<^item> \<open>Ts_Scanner\<close>, \<open>Ts_Scanner_Proofs\<close>: tree-sitter-wren/src/scanner.c.
\<^item> \<open>Lexer\<close>, \<open>Lexer_Proofs\<close>: the lexer of src/wren_compiler.cpp.  Sources that end in two newlines are read to their
  end and never past it, and every string has a literal; string literals that the end of the source cuts off
  after certain characters are read past the terminator.
\<^item> \<open>Scopes\<close>, \<open>Scopes_Proofs\<close>: src/Scope.cpp, SymbolTable.cpp, Module.cpp and the variables of wren_compiler.cpp.  A
  step relation of the compilers of nested functions; names resolve lexically, and captured variables are recorded.
\<^item> \<open>Signatures\<close>: src/CompContext.cpp and \<open>Signature::ToString\<close>.  The text of signatures, by which they are compared,
  tells them apart, and what \<open>Parse\<close> makes of it.
\<^item> \<open>Lexer_Progress\<close>, \<open>Parser\<close>, \<open>Parser_Expressions\<close>, \<open>Parser_Statements\<close>, \<open>Parser_Termination\<close>: the parser of
  src/wren_compiler.cpp, from \<open>peek\<close> to \<open>wrenCompile\<close>.  It makes the intermediate representation in one pass over the
  tokens.  Its functions are state transformers (\<open>parse\<close>) over one record, in which everything that the code
  allocates has a number; their composition is \<open>seq\<close>.  \<open>Parser\<close> has the tokens and variables, \<open>Parser_Expressions\<close>
  the table of rules and the Pratt parser, \<open>Parser_Statements\<close> the rest up to the module.  The functions that call
  each other are tied together by \<open>grammar_at\<close>.  The compiler ends on every source.
\<^item> \<open>Closures\<close>, \<open>Closure_Proofs\<close>: rtsrc/ObjFn.cpp with what the code that LLVMBackend.cpp generates for scopes and
  closures does at run time.  Reference counts are exact as long as a scope releases its storage once, which the
  statements that leave a \<open>while\<close> loop violate, and as long as a closure that runs is kept alive, which the
  runtime leaves to its caller.
\<^item> \<open>Ir_Nodes\<close>, \<open>Basic_Blocks\<close>, \<open>Basic_Blocks_Proofs\<close>, \<open>Ir_Cleanup\<close>, \<open>Ir_Cleanup_Proofs\<close>: the compiler's intermediate
  representation (src/IRNode.h) with its clean-up and basic block passes (src/passes/).  Control flow is a step
  relation whose meaning of a statement is an argument; the passes keep the runs of a body and the order of its
  effects, but not the place of its loads.
\<^item> \<open>Type_Inference\<close>, \<open>Type_Inference_Proofs\<close>: src/passes/TypeInferencePass.cpp.  The worklist ends with a fixed
  point of types that every run respects; the table of core methods, which the build generates, is an argument.
\<^item> \<open>Class_Description\<close>, \<open>Class_Description_Proofs\<close>, \<open>Managed_Class\<close>, \<open>Managed_Class_Proofs\<close>: how a class gets from
  src/backend_llvm/LLVMBackend.cpp through common/ClassDescription.cpp to rtsrc/GenEntry.cpp and
  rtsrc/ObjManaged.cpp.  The description survives the way; the class that is made of it has its methods, those of
  its parent, and a layout in which the fields of ancestors do not overlap.

  Loops.  Recursion is structural or has a measure, except for the walks over data that could be cyclic
  (\<open>partial_function\<close>, with theorems that they end) and the loops that take fuel: \<open>ti_loop\<close> (one unit for
  each cycle; two for each variable and two more suffice), \<open>mark_loop\<close> (one unit for
  each object, as the collection theorem shows to suffice), \<open>sweep_loop\<close> (one unit for each cell of a slab),
  \<open>probe\<close> (as many rounds as the table has entries, which is the loop's own bound) and the search in strings
  (as many as there are positions, since every shift is at least one),
  \<open>parse_loop\<close> (a round for each token that is not read yet and one more, since every round but the last reads one) and
  the depth of \<open>grammar_at\<close> (two for each such token and two more: of two nested calls at least one reads a token);
  \<open>compiler_ends\<close> shows that these suffice for every source.

  Not modelled, and why.  SSA construction runs between passes that are modelled, but its result only matters to the
  backends.  The LLVM and QBE backends write the input of other compilers, whose meaning is not in the repository;
  what their code does at run time is modelled where the runtime relies on it (closures, class descriptions, stack
  maps).  Modules and the remaining entry points of the runtime depend on symbols of the linker and the dynamic
  loader, and the C API hands its arguments to operations that are modelled.  The drivers, the linker, the platform
  layer and the IDE support are operating system calls and glue; lib/ is third-party code, read only where it is the
  reference.  The conversion of objects to text by dispatching \<open>toString\<close>, the functions of the C mathematical library
  and the formatting of numbers are left out or arguments; so are debugging positions and the texts of messages.
\<close>

end
